(* ===== verification/Prelude.thy ===== *)
theory Prelude
  imports Main "HOL-Library.Word" "HOL-Library.Monad_Syntax"
begin

unbundle bit_operations_syntax

text \<open>
  Shared vocabulary of the development: machine integers, byte strings, pointers, and the
  handful of iterator and slice operations of the Rust standard library that the sources use
  (\<open>Iterator::position\<close>, \<open>str::split\<close>, \<open>str::split_once\<close>, \<open>slice::contains\<close>) together with the
  lemmas on them that several components need.

  Rust strings are UTF-8 byte sequences, and every length in the sources counts bytes, so a
  \<open>str\<close>, a \<open>String\<close> and a \<open>[u8]\<close> are all lists of 8-bit words here.
\<close>

section \<open>Types\<close>

type_synonym byte = "8 word"
type_synonym bytes = "byte list"
type_synonym u8 = "8 word"
type_synonym u32 = "32 word"
type_synonym u64 = "64 word"
type_synonym i64 = "64 word"

text \<open>Lengths that come from C (\<open>usize\<close> on the supported 64-bit targets).\<close>

type_synonym usize = "64 word"

text \<open>A heap address; a raw pointer is an address or NULL (\<open>None\<close>).\<close>

type_synonym addr = nat
type_synonym ptr = "addr option"

text \<open>Simplification sets: \<open>store_simps\<close> for the handle table, \<open>op_defs\<close> for the bodies of entry
  points, \<open>bytes_simps\<close> for byte classes.\<close>

named_theorems store_simps
named_theorems op_defs
named_theorems bytes_simps

section \<open>Byte literals\<close>

text \<open>The bytes of an ASCII literal; used for diagnostics and for fixed text such as \<open>"00-"\<close>.\<close>

definition text_bytes :: "string \<Rightarrow> bytes" where
  "text_bytes s = map of_char s"

lemma length_text_bytes [simp]: "length (text_bytes s) = length s"
  by (simp add: text_bytes_def)

section \<open>Machine arithmetic\<close>

text \<open>Rust's \<open>saturating_add\<close> on \<open>usize\<close>.\<close>

definition saturating_add :: "usize \<Rightarrow> usize \<Rightarrow> usize" where
  "saturating_add a b = (if unat a + unat b < 2 ^ 64 then a + b else - 1)"

lemma unat_saturating_add: "unat (saturating_add a b) = min (unat a + unat b) (2 ^ 64 - 1)"
proof (cases "unat a + unat b < 2 ^ 64")
  case True
  then show ?thesis by (simp add: saturating_add_def unat_word_ariths min_def)
next
  case False
  have "unat (- 1 :: usize) = 2 ^ 64 - 1" by (simp add: unsigned_minus_1_eq_mask mask_eq_exp_minus_1)
  with False show ?thesis by (simp add: saturating_add_def min_def)
qed

lemma unat_word_of_nat64: "n < 2 ^ 64 \<Longrightarrow> unat (word_of_nat n :: usize) = n"
  by (simp add: unsigned_of_nat take_bit_nat_eq_self)

section \<open>Iterator operations\<close>

text \<open>\<open>Iterator::position\<close>: the index of the first element that satisfies the predicate.\<close>

fun position :: "('a \<Rightarrow> bool) \<Rightarrow> 'a list \<Rightarrow> nat option" where
  "position p [] = None"
| "position p (x # xs) = (if p x then Some 0 else map_option Suc (position p xs))"

lemma position_None_iff: "position p xs = None \<longleftrightarrow> (\<forall>x \<in> set xs. \<not> p x)"
  by (induction xs) auto

lemma position_SomeD: "position p xs = Some i \<Longrightarrow> i < length xs \<and> p (xs ! i)"
  by (induction xs arbitrary: i) (auto split: if_splits)

lemma position_minimal: "position p xs = Some i \<Longrightarrow> j < i \<Longrightarrow> \<not> p (xs ! j)"
proof (induction xs arbitrary: i j)
  case Nil
  then show ?case by simp
next
  case (Cons x xs)
  then show ?case by (cases j) (auto split: if_splits)
qed

lemma find_position: "find p xs = map_option ((!) xs) (position p xs)"
  by (induction xs) (auto simp: option.map_comp o_def)

text \<open>\<open>Vec::remove\<close> at an index known to be in range.\<close>

definition remove_at :: "nat \<Rightarrow> 'a list \<Rightarrow> 'a list" where
  "remove_at i xs = take i xs @ drop (Suc i) xs"

lemma length_remove_at: "i < length xs \<Longrightarrow> length (remove_at i xs) = length xs - 1"
  by (simp add: remove_at_def)

lemma sum_list_remove_at:
  fixes f :: "'a \<Rightarrow> nat"
  assumes "i < length xs"
  shows "sum_list (map f (remove_at i xs)) + f (xs ! i) = sum_list (map f xs)"
proof -
  have "xs = take i xs @ xs ! i # drop (Suc i) xs"
    using assms by (rule id_take_nth_drop)
  then have "sum_list (map f xs) = sum_list (map f (take i xs @ xs ! i # drop (Suc i) xs))"
    by simp
  then show ?thesis by (simp add: remove_at_def)
qed

lemma sum_list_update_nat:
  fixes f :: "'a \<Rightarrow> nat"
  assumes "i < length xs"
  shows "sum_list (map f (xs[i := y])) + f (xs ! i) = sum_list (map f xs) + f y"
proof -
  have "sum_list (map f (xs[i := y])) = sum_list (map f (take i xs @ y # drop (Suc i) xs))"
    using assms by (simp add: upd_conv_take_nth_drop)
  moreover have "sum_list (map f xs) = sum_list (map f (take i xs @ xs ! i # drop (Suc i) xs))"
    using id_take_nth_drop [OF assms] by simp
  ultimately show ?thesis by simp
qed

lemma member_le_sum_list_map:
  fixes f :: "'a \<Rightarrow> nat"
  shows "x \<in> set xs \<Longrightarrow> f x \<le> sum_list (map f xs)"
  by (induction xs) auto

section \<open>Splitting\<close>

text \<open>\<open>str::split\<close> on a one-byte separator: always at least one piece.\<close>

fun split_on :: "byte \<Rightarrow> bytes \<Rightarrow> bytes list" where
  "split_on d [] = [[]]"
| "split_on d (b # bs) =
     (if b = d then [] # split_on d bs
      else (case split_on d bs of [] \<Rightarrow> [[b]] | p # ps \<Rightarrow> (b # p) # ps))"

lemma split_on_not_Nil [simp]: "split_on d bs \<noteq> []"
  by (induction bs) (auto split: list.splits)

lemma split_on_no_sep [simp]: "d \<notin> set p \<Longrightarrow> split_on d p = [p]"
  by (induction p) auto

lemma split_on_append_sep: "d \<notin> set p \<Longrightarrow> split_on d (p @ d # rest) = p # split_on d rest"
  by (induction p) (auto split: list.splits)

lemma split_on_piece_no_sep: "p \<in> set (split_on d bs) \<Longrightarrow> d \<notin> set p"
proof (induction bs arbitrary: p)
  case Nil
  then show ?case by simp
next
  case (Cons b bs)
  obtain q qs where q: "split_on d bs = q # qs"
    using split_on_not_Nil by (cases "split_on d bs") auto
  show ?case
    using Cons q by (auto split: if_splits)
qed

lemma split_on_piece_subset: "p \<in> set (split_on d bs) \<Longrightarrow> set p \<subseteq> set bs"
proof (induction bs arbitrary: p)
  case Nil
  then show ?case by simp
next
  case (Cons b bs)
  obtain q qs where q: "split_on d bs = q # qs"
    using split_on_not_Nil by (cases "split_on d bs") auto
  have tl: "\<And>r. r \<in> set qs \<Longrightarrow> set r \<subseteq> set bs" and hd: "set q \<subseteq> set bs"
    using Cons.IH q by auto
  show ?case
  proof (cases "b = d")
    case True
    with Cons.prems Cons.IH show ?thesis by auto
  next
    case False
    with Cons.prems q have "p = b # q \<or> p \<in> set qs" by simp
    with hd tl show ?thesis by auto
  qed
qed

text \<open>\<open>[_].join(sep)\<close>, the inverse of splitting.\<close>

fun join_with :: "byte \<Rightarrow> bytes list \<Rightarrow> bytes" where
  "join_with d [] = []"
| "join_with d [p] = p"
| "join_with d (p # q # ps) = p @ d # join_with d (q # ps)"

lemma join_with_Cons: "ps \<noteq> [] \<Longrightarrow> join_with d (p # ps) = p @ d # join_with d ps"
  by (cases ps) auto

lemma join_split_on [simp]: "join_with d (split_on d bs) = bs"
proof (induction bs)
  case Nil
  then show ?case by simp
next
  case (Cons b bs)
  obtain q qs where q: "split_on d bs = q # qs"
    using split_on_not_Nil by (cases "split_on d bs") auto
  show ?case
    using Cons q by (cases qs) auto
qed

lemma split_on_join:
  "ps \<noteq> [] \<Longrightarrow> (\<And>p. p \<in> set ps \<Longrightarrow> d \<notin> set p) \<Longrightarrow> split_on d (join_with d ps) = ps"
proof (induction ps)
  case Nil
  then show ?case by simp
next
  case (Cons p ps)
  then show ?case
    by (cases ps) (auto simp: split_on_append_sep)
qed

text \<open>\<open>str::split_once\<close> (and \<open>find\<close> followed by slicing): the text before and after the first
  occurrence of a byte.\<close>

fun split_once :: "byte \<Rightarrow> bytes \<Rightarrow> (bytes \<times> bytes) option" where
  "split_once d [] = None"
| "split_once d (b # bs) =
     (if b = d then Some ([], bs)
      else map_option (\<lambda>(l, r). (b # l, r)) (split_once d bs))"

lemma split_once_append [simp]: "d \<notin> set l \<Longrightarrow> split_once d (l @ d # r) = Some (l, r)"
  by (induction l) auto

lemma split_once_None_iff: "split_once d bs = None \<longleftrightarrow> d \<notin> set bs"
  by (induction bs) auto

lemma split_once_SomeD: "split_once d bs = Some (l, r) \<Longrightarrow> bs = l @ d # r \<and> d \<notin> set l"
  by (induction bs arbitrary: l) (auto split: if_splits)

section \<open>Updating the first match, or appending\<close>

text \<open>Several builders replace an entry whose key matches and append otherwise.\<close>

definition upsert :: "('a \<Rightarrow> 'k) \<Rightarrow> 'a \<Rightarrow> 'a list \<Rightarrow> 'a list" where
  "upsert key x xs =
     (case position (\<lambda>e. key e = key x) xs of
        Some i \<Rightarrow> xs[i := x]
      | None \<Rightarrow> xs @ [x])"

lemma map_key_upsert:
  "map key (upsert key x xs) =
     (if key x \<in> key ` set xs then map key xs else map key xs @ [key x])"
proof (cases "position (\<lambda>e. key e = key x) xs")
  case None
  then show ?thesis by (auto simp: upsert_def position_None_iff [symmetric]) (auto simp: position_None_iff)
next
  case (Some i)
  from position_SomeD [OF Some] have i: "i < length xs" "key (xs ! i) = key x" by auto
  then have "key x \<in> key ` set xs" by (metis imageI nth_mem)
  moreover have "map key (xs[i := x]) = map key xs"
    using i by (simp add: map_update list_update_same_conv)
  ultimately show ?thesis using Some by (simp add: upsert_def)
qed

lemma distinct_upsert: "distinct (map key xs) \<Longrightarrow> distinct (map key (upsert key x xs))"
  by (auto simp: map_key_upsert)

lemma set_upsert_subset: "set (upsert key x xs) \<subseteq> insert x (set xs)"
  by (auto simp: upsert_def split: option.splits dest: set_update_subset_insert [THEN subsetD])

lemma mem_upsert: "x \<in> set (upsert key x xs)"
  by (auto simp: upsert_def split: option.splits dest!: position_SomeD intro: set_update_memI)

lemma find_upsert_same: "find (\<lambda>e. key e = key x) (upsert key x xs) = Some x"
proof (cases "position (\<lambda>e. key e = key x) xs")
  case None
  then have "find (\<lambda>e. key e = key x) (xs @ [x]) = Some x"
    by (induction xs) (auto simp: position_None_iff)
  with None show ?thesis by (simp add: upsert_def)
next
  case (Some i)
  then have "find (\<lambda>e. key e = key x) (xs[i := x]) = Some x"
    by (induction xs arbitrary: i) (auto split: if_splits)
  with Some show ?thesis by (simp add: upsert_def)
qed

lemma find_update_other:
  "p y = False \<Longrightarrow> i < length xs \<Longrightarrow> p (xs ! i) = False \<Longrightarrow> find p (xs[i := y]) = find p xs"
proof (induction xs arbitrary: i)
  case Nil
  then show ?case by simp
next
  case (Cons a xs)
  then show ?case by (cases i) auto
qed

lemma find_upsert_other:
  assumes "k \<noteq> key x"
  shows "find (\<lambda>e. key e = k) (upsert key x xs) = find (\<lambda>e. key e = k) xs"
proof (cases "position (\<lambda>e. key e = key x) xs")
  case None
  have "find (\<lambda>e. key e = k) (xs @ [x]) = find (\<lambda>e. key e = k) xs"
    using assms by (induction xs) auto
  with None show ?thesis by (simp add: upsert_def)
next
  case (Some i)
  with position_SomeD [OF Some] assms show ?thesis
    by (auto simp: upsert_def intro!: find_update_other)
qed

section \<open>Bounded quantification over a width\<close>

text \<open>Decides a property of all bytes by evaluation.\<close>

lemma all_bytes_by_eval:
  "(\<forall>n < (256::nat). P (word_of_nat n :: byte)) \<Longrightarrow> P (b :: byte)"
proof -
  assume *: "\<forall>n < (256::nat). P (word_of_nat n :: byte)"
  have "unat b < 256" using unsigned_less [of b, where ?'a = nat] by simp
  with * have "P (word_of_nat (unat b))" by blast
  then show "P b" by simp
qed

section \<open>Nibbles\<close>

lemma below_16_cases:
  assumes "n < (16 :: nat)" and "\<forall>k \<in> set [0..<16]. P k"
  shows "P n"
  using assms by simp

lemma nibbles:
  fixes b :: byte
  shows "unat (drop_bit 4 b) < 16" and "unat (b AND 15) < 16"
    and "push_bit 4 (drop_bit 4 b) OR (b AND 15) = b"
proof -
  have m: "(15 :: byte) = mask 4" by (simp add: mask_eq_exp_minus_1)
  have "unat b < 256" using unsigned_less [of b, where ?'a = nat] by simp
  then show "unat (drop_bit 4 b) < 16" by (simp only: unat_drop_bit_eq) (simp add: drop_bit_eq_div)
  show "unat (b AND 15) < 16"
    unfolding m take_bit_eq_mask [symmetric] unsigned_take_bit_eq by (simp add: take_bit_eq_mod)
  show "push_bit 4 (drop_bit 4 b) OR (b AND 15) = b"
    unfolding m by (rule bit_word_eqI) (auto simp: bit_simps)
qed

section \<open>Counting threads\<close>

definition count_where :: "('b \<Rightarrow> bool) \<Rightarrow> ('a \<Rightarrow> 'b) \<Rightarrow> nat" where
  "count_where P f = card {t. P (f t)}"

lemma count_where_update:
  assumes "finite {t. P (f t)}"
  shows "count_where P (f(t := p)) + of_bool (P (f t)) = count_where P f + of_bool (P p)"
proof -
  let ?A = "{u. P (f u)}"
  have B: "{u. P ((f(t := p)) u)} = (if P p then insert t (?A - {t}) else ?A - {t})" by auto
  have "card (insert t (?A - {t})) = Suc (card (?A - {t}))"
    by (rule card_insert_disjoint) (use assms in auto)
  then have "card {u. P ((f(t := p)) u)} = card (?A - {t}) + of_bool (P p)"
    unfolding B by (simp del: insert_Diff_single)
  moreover have "card ?A = card (?A - {t}) + of_bool (P (f t))"
    using assms card_Suc_Diff1 [of ?A t] by (cases "t \<in> ?A") auto
  ultimately show ?thesis by (simp add: count_where_def)
qed

lemma count_where_pos: "finite {t. P (f t)} \<Longrightarrow> P (f t) \<Longrightarrow> 0 < count_where P f"
  by (auto simp: count_where_def card_gt_0_iff)

lemma count_where_zero: "finite {t. P (f t)} \<Longrightarrow> count_where P f = 0 \<longleftrightarrow> (\<forall>t. \<not> P (f t))"
  by (auto simp: count_where_def)

end
