(* ===== verification/Utf8.thy ===== *)
theory Utf8
  imports Prelude
begin

text \<open>
  UTF-8 as the Rust standard library decides it: \<open>utf8_check\<close> is \<open>std::str::from_utf8\<close> with
  the \<open>valid_up_to\<close> and \<open>error_len\<close> of its error, \<open>utf8_lossy\<close> is \<open>String::from_utf8_lossy\<close>
  (every maximal ill-formed subpart becomes U+FFFD), and \<open>trim\<close> is \<open>str::trim\<close> over the Unicode
  White_Space characters. On top of them stand the lemmas on boundaries: cutting a valid string
  before a byte that starts a character leaves two valid strings.
\<close>

section \<open>One character\<close>

text \<open>What the validator finds at the front of a non-empty input: a well-formed sequence of \<open>n\<close>
  bytes, an ill-formed one whose maximal subpart has \<open>n\<close> bytes, or a truncated one.\<close>

datatype utf8_verdict = Good nat | Bad nat | Incomplete

definition cont_byte :: "byte \<Rightarrow> bool" where
  "cont_byte b \<longleftrightarrow> 0x80 \<le> b \<and> b \<le> 0xBF"

definition utf8_width :: "byte \<Rightarrow> nat" where
  "utf8_width b =
     (if b \<le> 0x7F then 1
      else if 0xC2 \<le> b \<and> b \<le> 0xDF then 2
      else if 0xE0 \<le> b \<and> b \<le> 0xEF then 3
      else if 0xF0 \<le> b \<and> b \<le> 0xF4 then 4
      else 0)"

text \<open>The range of the second byte of a three- or four-byte sequence depends on the first: no
  overlong forms, no surrogates, nothing above U+10FFFF.\<close>

definition second_ok :: "byte \<Rightarrow> byte \<Rightarrow> bool" where
  "second_ok b c =
     (if b = 0xE0 then 0xA0 \<le> c \<and> c \<le> 0xBF
      else if b = 0xED then 0x80 \<le> c \<and> c \<le> 0x9F
      else if b = 0xF0 then 0x90 \<le> c \<and> c \<le> 0xBF
      else if b = 0xF4 then 0x80 \<le> c \<and> c \<le> 0x8F
      else cont_byte c)"

definition utf8_tail2 :: "byte \<Rightarrow> bytes \<Rightarrow> utf8_verdict" where
  "utf8_tail2 b bs =
     (case bs of [] \<Rightarrow> Incomplete | c # _ \<Rightarrow> if cont_byte c then Good 2 else Bad 1)"

definition utf8_tail3 :: "byte \<Rightarrow> bytes \<Rightarrow> utf8_verdict" where
  "utf8_tail3 b bs =
     (case bs of [] \<Rightarrow> Incomplete
      | c # cs \<Rightarrow>
          if \<not> second_ok b c then Bad 1
          else (case cs of [] \<Rightarrow> Incomplete
                | d # _ \<Rightarrow> if cont_byte d then Good 3 else Bad 2))"

definition utf8_tail4 :: "byte \<Rightarrow> bytes \<Rightarrow> utf8_verdict" where
  "utf8_tail4 b bs =
     (case bs of [] \<Rightarrow> Incomplete
      | c # cs \<Rightarrow>
          if \<not> second_ok b c then Bad 1
          else (case cs of [] \<Rightarrow> Incomplete
                | d # ds \<Rightarrow>
                    if \<not> cont_byte d then Bad 2
                    else (case ds of [] \<Rightarrow> Incomplete
                          | e # _ \<Rightarrow> if cont_byte e then Good 4 else Bad 3)))"

fun utf8_next :: "bytes \<Rightarrow> utf8_verdict" where
  "utf8_next [] = Incomplete"
| "utf8_next (b # bs) =
     (if utf8_width b = 1 then Good 1
      else if utf8_width b = 2 then utf8_tail2 b bs
      else if utf8_width b = 3 then utf8_tail3 b bs
      else if utf8_width b = 4 then utf8_tail4 b bs
      else Bad 1)"

lemmas utf8_tail_defs = utf8_tail2_def utf8_tail3_def utf8_tail4_def

lemma second_ok_cont: "second_ok b c \<Longrightarrow> cont_byte c"
  by (auto simp: second_ok_def cont_byte_def word_le_nat_alt split: if_splits)

lemma utf8_next_GoodD:
  "utf8_next bs = Good n \<Longrightarrow> 0 < n \<and> n \<le> length bs \<and> (\<forall>i. 0 < i \<and> i < n \<longrightarrow> cont_byte (bs ! i))"
  by (cases bs)
    (auto simp: utf8_tail_defs nth_Cons' dest: second_ok_cont split: if_splits list.splits)

lemma utf8_next_BadD: "utf8_next bs = Bad n \<Longrightarrow> 0 < n \<and> n \<le> length bs"
  by (cases bs) (auto simp: utf8_tail_defs split: if_splits list.splits)

text \<open>A verdict reached inside a prefix does not change when the input grows, and conversely.\<close>

lemma utf8_next_append: "utf8_next as \<noteq> Incomplete \<Longrightarrow> utf8_next (as @ bs) = utf8_next as"
  by (cases as) (auto simp: utf8_tail_defs split: if_splits list.splits)

lemma utf8_next_take:
  "utf8_next (as @ bs) = Good n \<Longrightarrow> n \<le> length as \<Longrightarrow> utf8_next as = Good n"
  using utf8_next_GoodD [of "as @ bs" n]
  by (cases as) (auto simp: utf8_tail_defs split: if_splits list.splits)

section \<open>Validation\<close>

function utf8_check :: "bytes \<Rightarrow> (nat \<times> nat option) option" where
  "utf8_check bs =
     (if bs = [] then None
      else (case utf8_next bs of
              Good n \<Rightarrow> map_option (\<lambda>(v, e). (n + v, e)) (utf8_check (drop n bs))
            | Bad n \<Rightarrow> Some (0, Some n)
            | Incomplete \<Rightarrow> Some (0, None)))"
  by pat_completeness auto
termination
  by (relation "measure length") (auto dest: utf8_next_GoodD)

declare utf8_check.simps [simp del]

definition valid_utf8 :: "bytes \<Rightarrow> bool" where
  "valid_utf8 bs \<longleftrightarrow> utf8_check bs = None"

lemma valid_utf8_Nil [simp]: "valid_utf8 []"
  by (simp add: valid_utf8_def utf8_check.simps)

lemma valid_utf8_unfold:
  "valid_utf8 bs \<longleftrightarrow> bs = [] \<or> (\<exists>n. utf8_next bs = Good n \<and> valid_utf8 (drop n bs))"
  unfolding valid_utf8_def
  by (subst utf8_check.simps) (auto split: utf8_verdict.splits)

lemma valid_utf8_induct [consumes 1, case_names Nil Char]:
  assumes "valid_utf8 bs"
    and "P []"
    and "\<And>bs n. bs \<noteq> [] \<Longrightarrow> utf8_next bs = Good n \<Longrightarrow> valid_utf8 (drop n bs) \<Longrightarrow>
           P (drop n bs) \<Longrightarrow> P bs"
  shows "P bs"
  using assms(1)
proof (induction bs rule: length_induct)
  case (1 bs)
  show ?case
  proof (cases "bs = []")
    case True
    then show ?thesis by (simp add: assms(2))
  next
    case False
    with 1(2) obtain n where n: "utf8_next bs = Good n" "valid_utf8 (drop n bs)"
      using valid_utf8_unfold [of bs] by blast
    then have "length (drop n bs) < length bs" using False utf8_next_GoodD [of bs n] by simp
    with 1(1) n False show ?thesis using assms(3) by blast
  qed
qed

lemma valid_utf8_append:
  assumes "valid_utf8 as" and "valid_utf8 bs"
  shows "valid_utf8 (as @ bs)"
  using assms(1)
proof (induction as rule: valid_utf8_induct)
  case Nil
  with assms(2) show ?case by simp
next
  case (Char as n)
  then have "utf8_next (as @ bs) = Good n" by (simp add: utf8_next_append)
  moreover have "drop n (as @ bs) = drop n as @ bs" using utf8_next_GoodD [OF Char(2)] by simp
  ultimately show ?case using Char.IH valid_utf8_unfold [of "as @ bs"] by auto
qed

text \<open>Removing a valid prefix, and cutting before a byte that starts a character.\<close>

lemma valid_utf8_drop_prefix:
  assumes "valid_utf8 as" and "valid_utf8 (as @ bs)"
  shows "valid_utf8 bs"
  using assms
proof (induction as rule: valid_utf8_induct)
  case Nil
  then show ?case by simp
next
  case (Char as n)
  then have "utf8_next (as @ bs) = Good n" by (simp add: utf8_next_append)
  moreover have "drop n (as @ bs) = drop n as @ bs" using utf8_next_GoodD [OF Char(2)] by simp
  ultimately show ?case using Char valid_utf8_unfold [of "as @ bs"] by auto
qed

lemma valid_utf8_cut:
  assumes "valid_utf8 (as @ c # bs)" and "\<not> cont_byte c"
  shows "valid_utf8 as"
  using assms(1)
proof (induction as rule: length_induct)
  case (1 as)
  show ?case
  proof (cases "as = []")
    case True
    then show ?thesis by simp
  next
    case False
    with 1(2) obtain n where n: "utf8_next (as @ c # bs) = Good n"
        "valid_utf8 (drop n (as @ c # bs))"
      using valid_utf8_unfold [of "as @ c # bs"] by auto
    have le: "n \<le> length as"
    proof (rule ccontr)
      assume "\<not> n \<le> length as"
      with utf8_next_GoodD [OF n(1)] False have "cont_byte ((as @ c # bs) ! length as)" by auto
      with assms(2) show False by simp
    qed
    then have "drop n (as @ c # bs) = drop n as @ c # bs" by simp
    moreover have "length (drop n as) < length as"
      using utf8_next_GoodD [OF n(1)] False by simp
    ultimately have "valid_utf8 (drop n as)" using 1(1) n(2) by metis
    moreover have "utf8_next as = Good n" using n(1) le by (rule utf8_next_take)
    ultimately show ?thesis using valid_utf8_unfold [of as] by blast
  qed
qed

lemma valid_utf8_ascii_Cons: "b \<le> 0x7F \<Longrightarrow> valid_utf8 (b # bs) \<longleftrightarrow> valid_utf8 bs"
  by (subst valid_utf8_unfold) (auto simp: utf8_width_def)

lemma ascii_not_cont: "b \<le> 0x7F \<Longrightarrow> \<not> cont_byte b"
  by (auto simp: cont_byte_def dest: order_trans)

lemma valid_utf8_ascii: "(\<And>b. b \<in> set bs \<Longrightarrow> b \<le> 0x7F) \<Longrightarrow> valid_utf8 bs"
  by (induction bs) (auto simp: valid_utf8_ascii_Cons)

text \<open>A valid string around an ASCII separator: both sides are valid.\<close>

lemma valid_utf8_sep:
  assumes "valid_utf8 (as @ d # bs)" and "d \<le> 0x7F"
  shows "valid_utf8 as" and "valid_utf8 bs"
proof -
  show a: "valid_utf8 as" using assms(1) ascii_not_cont [OF assms(2)] by (rule valid_utf8_cut)
  have "valid_utf8 (d # bs)" using a assms(1) by (rule valid_utf8_drop_prefix)
  with assms(2) show "valid_utf8 bs" by (simp add: valid_utf8_ascii_Cons)
qed

lemma valid_utf8_split_on:
  assumes "d \<le> 0x7F" and "valid_utf8 bs" and "p \<in> set (split_on d bs)"
  shows "valid_utf8 p"
proof -
  have *: "valid_utf8 (join_with d ps) \<Longrightarrow> p \<in> set ps \<Longrightarrow> valid_utf8 p" for ps
  proof (induction ps)
    case Nil
    then show ?case by simp
  next
    case (Cons q ps)
    show ?case
    proof (cases "ps = []")
      case True
      with Cons.prems show ?thesis by simp
    next
      case False
      with Cons.prems have "valid_utf8 (q @ d # join_with d ps)" by (simp add: join_with_Cons)
      from valid_utf8_sep [OF this assms(1)] Cons show ?thesis by auto
    qed
  qed
  show ?thesis using * [of "split_on d bs"] assms(2,3) by simp
qed

lemma valid_utf8_split_once:
  assumes "d \<le> 0x7F" and "valid_utf8 bs" and "split_once d bs = Some (l, r)"
  shows "valid_utf8 l" and "valid_utf8 r"
  using split_once_SomeD [OF assms(3)] valid_utf8_sep [of l d r] assms(1,2) by auto

section \<open>Lossy decoding\<close>

text \<open>U+FFFD in UTF-8.\<close>

definition replacement_char :: bytes where
  "replacement_char = [0xEF, 0xBF, 0xBD]"

function utf8_lossy :: "bytes \<Rightarrow> bytes" where
  "utf8_lossy bs =
     (if bs = [] then []
      else (case utf8_next bs of
              Good n \<Rightarrow> take n bs @ utf8_lossy (drop n bs)
            | Bad n \<Rightarrow> replacement_char @ utf8_lossy (drop n bs)
            | Incomplete \<Rightarrow> replacement_char))"
  by pat_completeness auto
termination
  by (relation "measure length") (auto dest: utf8_next_GoodD utf8_next_BadD)

declare utf8_lossy.simps [simp del]

lemma utf8_lossy_Nil [simp]: "utf8_lossy [] = []"
  by (simp add: utf8_lossy.simps)

lemma valid_utf8_replacement [simp]: "valid_utf8 replacement_char"
  by (simp add: valid_utf8_def utf8_check.simps replacement_char_def utf8_width_def
      utf8_tail3_def second_ok_def cont_byte_def)

lemma utf8_lossy_valid_id: "valid_utf8 bs \<Longrightarrow> utf8_lossy bs = bs"
  by (induction bs rule: valid_utf8_induct) (auto simp: utf8_lossy.simps)

lemma utf8_next_take_self: "utf8_next bs = Good n \<Longrightarrow> utf8_next (take n bs) = Good n"
  using utf8_next_take [of "take n bs" "drop n bs" n] utf8_next_GoodD [of bs n] by simp

lemma valid_utf8_take_char: "utf8_next bs = Good n \<Longrightarrow> valid_utf8 (take n bs)"
  using valid_utf8_unfold [of "take n bs"] utf8_next_take_self [of bs n] by auto

lemma valid_utf8_lossy: "valid_utf8 (utf8_lossy bs)"
proof (induction bs rule: utf8_lossy.induct)
  case (1 bs)
  show ?case
  proof (cases "bs = []")
    case True
    then show ?thesis by simp
  next
    case False
    then show ?thesis
      using 1 by (subst utf8_lossy.simps)
        (auto split: utf8_verdict.splits intro!: valid_utf8_append valid_utf8_take_char)
  qed
qed

section \<open>Trimming\<close>

text \<open>
  The Unicode White_Space characters by their UTF-8 form: U+0009 to U+000D and U+0020 in one
  byte; U+0085 and U+00A0 in two; U+1680, U+2000 to U+200A, U+2028, U+2029, U+202F, U+205F and
  U+3000 in three.
\<close>

definition is_ws1 :: "byte \<Rightarrow> bool" where
  "is_ws1 b \<longleftrightarrow> 0x09 \<le> b \<and> b \<le> 0x0D \<or> b = 0x20"

definition is_ws2 :: "byte \<Rightarrow> byte \<Rightarrow> bool" where
  "is_ws2 b c \<longleftrightarrow> b = 0xC2 \<and> (c = 0x85 \<or> c = 0xA0)"

definition is_ws3 :: "byte \<Rightarrow> byte \<Rightarrow> byte \<Rightarrow> bool" where
  "is_ws3 b c d \<longleftrightarrow>
     b = 0xE1 \<and> c = 0x9A \<and> d = 0x80 \<or>
     b = 0xE2 \<and> c = 0x80 \<and> (0x80 \<le> d \<and> d \<le> 0x8A \<or> d = 0xA8 \<or> d = 0xA9 \<or> d = 0xAF) \<or>
     b = 0xE2 \<and> c = 0x81 \<and> d = 0x9F \<or>
     b = 0xE3 \<and> c = 0x80 \<and> d = 0x80"

fun trim_start :: "bytes \<Rightarrow> bytes" where
  "trim_start (b # c # d # bs) =
     (if is_ws1 b then trim_start (c # d # bs)
      else if is_ws2 b c then trim_start (d # bs)
      else if is_ws3 b c d then trim_start bs
      else b # c # d # bs)"
| "trim_start [b, c] =
     (if is_ws1 b then trim_start [c] else if is_ws2 b c then [] else [b, c])"
| "trim_start [b] = (if is_ws1 b then [] else [b])"
| "trim_start [] = []"

text \<open>The same from the other end, on the reversed string.\<close>

fun trim_rev :: "bytes \<Rightarrow> bytes" where
  "trim_rev (d # c # b # bs) =
     (if is_ws1 d then trim_rev (c # b # bs)
      else if is_ws2 c d then trim_rev (b # bs)
      else if is_ws3 b c d then trim_rev bs
      else d # c # b # bs)"
| "trim_rev [d, c] =
     (if is_ws1 d then trim_rev [c] else if is_ws2 c d then [] else [d, c])"
| "trim_rev [d] = (if is_ws1 d then [] else [d])"
| "trim_rev [] = []"

definition trim :: "bytes \<Rightarrow> bytes" where
  "trim s = rev (trim_rev (rev (trim_start s)))"

lemma trim_start_suffix: "\<exists>p. s = p @ trim_start s"
proof (induction s rule: trim_start.induct)
  case (1 b c d bs)
  then obtain p1 p2 p3 where "is_ws1 b \<Longrightarrow> c # d # bs = p1 @ trim_start (c # d # bs)"
      "\<not> is_ws1 b \<Longrightarrow> is_ws2 b c \<Longrightarrow> d # bs = p2 @ trim_start (d # bs)"
      "\<not> is_ws1 b \<Longrightarrow> \<not> is_ws2 b c \<Longrightarrow> is_ws3 b c d \<Longrightarrow> bs = p3 @ trim_start bs"
    by blast
  then show ?case
    by (cases "is_ws1 b"; cases "is_ws2 b c"; cases "is_ws3 b c d")
      (metis append_Cons append_Nil trim_start.simps(1))+
qed auto

lemma trim_rev_suffix: "\<exists>p. s = p @ trim_rev s"
proof (induction s rule: trim_rev.induct)
  case (1 d c b bs)
  then obtain p1 p2 p3 where "is_ws1 d \<Longrightarrow> c # b # bs = p1 @ trim_rev (c # b # bs)"
      "\<not> is_ws1 d \<Longrightarrow> is_ws2 c d \<Longrightarrow> b # bs = p2 @ trim_rev (b # bs)"
      "\<not> is_ws1 d \<Longrightarrow> \<not> is_ws2 c d \<Longrightarrow> is_ws3 b c d \<Longrightarrow> bs = p3 @ trim_rev bs"
    by blast
  then show ?case
    by (cases "is_ws1 d"; cases "is_ws2 c d"; cases "is_ws3 b c d")
      (metis append_Cons append_Nil trim_rev.simps(1))+
qed auto

lemma trim_infix: "\<exists>p q. s = p @ trim s @ q"
proof -
  obtain p where p: "s = p @ trim_start s" using trim_start_suffix by blast
  obtain q where "rev (trim_start s) = q @ trim_rev (rev (trim_start s))"
    using trim_rev_suffix by blast
  then have "trim_start s = trim s @ rev q" by (metis trim_def rev_append rev_rev_ident)
  with p show ?thesis by metis
qed

lemma set_trim: "set (trim s) \<subseteq> set s"
proof -
  obtain p q where "s = p @ trim s @ q" using trim_infix by blast
  then have "set s = set p \<union> set (trim s) \<union> set q" by (metis set_append Un_assoc)
  then show ?thesis by blast
qed

lemma length_trim: "length (trim s) \<le> length s"
proof -
  obtain p q where "s = p @ trim s @ q" using trim_infix by blast
  then have "length s = length p + (length (trim s) + length q)" by (metis length_append)
  then show ?thesis by simp
qed

text \<open>Printable ASCII has no white space, so trimming leaves such a string alone.\<close>

definition graphic :: "byte \<Rightarrow> bool" where
  "graphic b \<longleftrightarrow> 0x21 \<le> b \<and> b \<le> 0x7E"

lemma graphic_not_ws:
  assumes "graphic b"
  shows "\<not> is_ws1 b" and "\<not> is_ws2 b c" and "\<not> is_ws2 c b" and "\<not> is_ws3 b c d" and "\<not> is_ws3 c d b"
  using assms by (auto simp: graphic_def is_ws1_def is_ws2_def is_ws3_def word_le_nat_alt)

lemma trim_start_graphic: "graphic b \<Longrightarrow> trim_start (b # bs) = b # bs"
  by (cases "b # bs" rule: trim_start.cases) (auto simp: graphic_not_ws)

lemma trim_rev_graphic: "graphic b \<Longrightarrow> trim_rev (b # bs) = b # bs"
  by (cases "b # bs" rule: trim_rev.cases) (auto simp: graphic_not_ws)

lemma trim_graphic:
  assumes "s \<noteq> [] \<Longrightarrow> graphic (hd s) \<and> graphic (last s)"
  shows "trim s = s"
proof (cases "s = []")
  case True
  then show ?thesis by (simp add: trim_def)
next
  case False
  then have h: "graphic (hd s)" "graphic (last s)" using assms by auto
  then have "trim_start s = s" using False trim_start_graphic by (cases s) auto
  moreover have "trim_rev (rev s) = rev s"
    using False h trim_rev_graphic by (cases s rule: rev_cases) auto
  ultimately show ?thesis by (simp add: trim_def)
qed

lemma trim_all_graphic: "(\<And>b. b \<in> set s \<Longrightarrow> graphic b) \<Longrightarrow> trim s = s"
  by (rule trim_graphic) auto

text \<open>Trimming removes whole characters, so it keeps a string valid.\<close>

lemma valid_utf8_one_char: "utf8_next s = Good (length s) \<Longrightarrow> valid_utf8 s"
  using valid_utf8_take_char [of s "length s"] by simp

lemma is_ws1_ascii: "is_ws1 b \<Longrightarrow> b \<le> 0x7F"
  by (auto simp: is_ws1_def word_le_nat_alt)

lemma is_ws3_bytes:
  assumes "is_ws3 b c d"
  shows "b \<in> {0xE1, 0xE2, 0xE3}" and "cont_byte c" and "cont_byte d"
proof -
  have *: "d \<le> 0x8A \<Longrightarrow> d \<le> 0xBF" by (erule order_trans) simp
  show "b \<in> {0xE1, 0xE2, 0xE3}" using assms unfolding is_ws3_def by blast
  show "cont_byte c" using assms unfolding is_ws3_def cont_byte_def by (elim disjE conjE) simp_all
  show "cont_byte d" using assms * unfolding is_ws3_def cont_byte_def by (elim disjE conjE) simp_all
qed

lemma ws_chars_valid:
  "is_ws1 b \<Longrightarrow> valid_utf8 [b]" "is_ws2 b c \<Longrightarrow> valid_utf8 [b, c]" "is_ws3 b c d \<Longrightarrow> valid_utf8 [b, c, d]"
proof -
  show "is_ws1 b \<Longrightarrow> valid_utf8 [b]"
    by (simp add: valid_utf8_ascii_Cons is_ws1_ascii)
  show "is_ws2 b c \<Longrightarrow> valid_utf8 [b, c]"
    unfolding is_ws2_def
    by (rule valid_utf8_one_char, elim conjE disjE)
      (simp_all add: utf8_width_def utf8_tail2_def cont_byte_def)
  show "is_ws3 b c d \<Longrightarrow> valid_utf8 [b, c, d]"
  proof -
    assume w: "is_ws3 b c d"
    note c = is_ws3_bytes(2,3) [OF w]
    consider "b = 0xE1" | "b = 0xE2" | "b = 0xE3" using is_ws3_bytes(1) [OF w] by blast
    then have "utf8_next [b, c, d] = Good 3"
      by cases (simp_all add: utf8_width_def utf8_tail3_def second_ok_def c)
    then show ?thesis by (intro valid_utf8_one_char) simp
  qed
qed

lemma ws_chars_boundary:
  "is_ws1 b \<Longrightarrow> \<not> cont_byte b" "is_ws2 b c \<Longrightarrow> \<not> cont_byte b" "is_ws3 b c d \<Longrightarrow> \<not> cont_byte b"
proof -
  show "is_ws1 b \<Longrightarrow> \<not> cont_byte b" by (intro ascii_not_cont is_ws1_ascii)
  show "is_ws2 b c \<Longrightarrow> \<not> cont_byte b" by (simp add: is_ws2_def cont_byte_def)
  show "is_ws3 b c d \<Longrightarrow> \<not> cont_byte b"
    by (drule is_ws3_bytes(1)) (elim insertE emptyE; simp add: cont_byte_def)
qed

lemma valid_utf8_trim_start: "valid_utf8 s \<Longrightarrow> valid_utf8 (trim_start s)"
proof (induction s rule: trim_start.induct)
  case (1 b c d bs)
  have "is_ws1 b \<Longrightarrow> valid_utf8 (c # d # bs)" "is_ws2 b c \<Longrightarrow> valid_utf8 (d # bs)"
    "is_ws3 b c d \<Longrightarrow> valid_utf8 bs"
    using 1(4) valid_utf8_drop_prefix [of "[b]" "c # d # bs"]
      valid_utf8_drop_prefix [of "[b, c]" "d # bs"] valid_utf8_drop_prefix [of "[b, c, d]" bs]
      ws_chars_valid by auto
  with 1 show ?case by auto
next
  case (2 b c)
  have "is_ws1 b \<Longrightarrow> valid_utf8 [c]"
    using 2(2) valid_utf8_drop_prefix [of "[b]" "[c]"] ws_chars_valid by auto
  with 2 show ?case by auto
qed auto

lemma valid_utf8_trim_rev: "valid_utf8 (rev s) \<Longrightarrow> valid_utf8 (rev (trim_rev s))"
proof (induction s rule: trim_rev.induct)
  case (1 d c b bs)
  have "is_ws1 d \<Longrightarrow> valid_utf8 (rev (c # b # bs))"
    using 1(4) valid_utf8_cut [of "rev bs @ [b, c]" d "[]"] ws_chars_boundary by auto
  moreover have "is_ws2 c d \<Longrightarrow> valid_utf8 (rev (b # bs))"
    using 1(4) valid_utf8_cut [of "rev bs @ [b]" c "[d]"] ws_chars_boundary by auto
  moreover have "is_ws3 b c d \<Longrightarrow> valid_utf8 (rev bs)"
    using 1(4) valid_utf8_cut [of "rev bs" b "[c, d]"] ws_chars_boundary by auto
  ultimately show ?case using 1 by auto
next
  case (2 d c)
  have "is_ws1 d \<Longrightarrow> valid_utf8 [c]"
    using 2(2) valid_utf8_cut [of "[c]" d "[]"] ws_chars_boundary by auto
  with 2 show ?case by auto
qed auto

lemma valid_utf8_trim: "valid_utf8 s \<Longrightarrow> valid_utf8 (trim s)"
  using valid_utf8_trim_rev [of "rev (trim_start s)"] valid_utf8_trim_start [of s]
  by (simp add: trim_def)

end
