(* ===== verification/Abi.thy ===== *)
theory Abi
  imports Utf8
begin

text \<open>
  The internal ABI crate (\<open>abi/src/lib.rs\<close>): the handle header, status codes, borrowed string
  and byte views, the validated enumerations that cross the boundary as raw \<open>u32\<close>, and the
  version and size checks on the three implementation vtables.

  A pointer argument into caller memory is modelled by what can be read there: \<open>None\<close> for NULL,
  \<open>Some m\<close> for a pointer to the readable bytes \<open>m\<close>. A view reads the first \<open>len\<close> of them.
\<close>

section \<open>Handle header\<close>

record otel_handle_header =
  magic :: u64
  kind :: u64

definition OTEL_HANDLE_MAGIC :: u64 where
  "OTEL_HANDLE_MAGIC = 0x4F544C4348444C31"

definition header_new :: "u64 \<Rightarrow> otel_handle_header" where
  "header_new k = \<lparr>magic = OTEL_HANDLE_MAGIC, kind = k\<rparr>"

definition is_live_kind :: "otel_handle_header \<Rightarrow> u64 \<Rightarrow> bool" where
  "is_live_kind h k \<longleftrightarrow> magic h = OTEL_HANDLE_MAGIC \<and> kind h = k"

definition is_live :: "otel_handle_header \<Rightarrow> bool" where
  "is_live h \<longleftrightarrow> magic h = OTEL_HANDLE_MAGIC"

definition poison :: "otel_handle_header \<Rightarrow> otel_handle_header" where
  "poison h = h\<lparr>magic := 0\<rparr>"

lemma header_new_live [simp]: "is_live (header_new k)" "is_live_kind (header_new k) k' \<longleftrightarrow> k = k'"
    "kind (header_new k) = k"
  by (simp_all add: header_new_def is_live_def is_live_kind_def)

lemma poison_not_live [simp]: "\<not> is_live (poison h)" "\<not> is_live_kind (poison h) k"
  by (simp_all add: poison_def is_live_def is_live_kind_def OTEL_HANDLE_MAGIC_def)

section \<open>Status codes\<close>

text \<open>A fixed-width newtype, so a status added by a newer peer stays well defined.\<close>

type_synonym otel_status = u32

abbreviation (input) St_Ok :: otel_status where "St_Ok \<equiv> 0"
abbreviation (input) St_InvalidArgument :: otel_status where "St_InvalidArgument \<equiv> 1"
abbreviation (input) St_InvalidUtf8 :: otel_status where "St_InvalidUtf8 \<equiv> 2"
abbreviation (input) St_InvalidConfig :: otel_status where "St_InvalidConfig \<equiv> 3"
abbreviation (input) St_AlreadyShutdown :: otel_status where "St_AlreadyShutdown \<equiv> 4"
abbreviation (input) St_Timeout :: otel_status where "St_Timeout \<equiv> 5"
abbreviation (input) St_ExportFailed :: otel_status where "St_ExportFailed \<equiv> 6"
abbreviation (input) St_InternalError :: otel_status where "St_InternalError \<equiv> 7"

record abi_error =
  err_status :: otel_status
  err_message :: bytes

definition abi_error_new :: "otel_status \<Rightarrow> string \<Rightarrow> abi_error" where
  "abi_error_new st msg = \<lparr>err_status = st, err_message = text_bytes msg\<rparr>"

section \<open>Borrowed views\<close>

record otel_string_view =
  sv_ptr :: "bytes option"
  sv_len :: usize

definition isize_max :: nat where
  "isize_max = 2 ^ 63 - 1"

definition sv_empty :: otel_string_view where
  "sv_empty = \<lparr>sv_ptr = None, sv_len = 0\<rparr>"

text \<open>The view of an owned Rust string.\<close>

definition sv_of :: "bytes \<Rightarrow> otel_string_view" where
  "sv_of s = \<lparr>sv_ptr = Some s, sv_len = word_of_nat (length s)\<rparr>"

definition sv_as_bytes :: "otel_string_view \<Rightarrow> abi_error + bytes" where
  "sv_as_bytes v =
     (if sv_len v = 0 then Inr []
      else case sv_ptr v of
        None \<Rightarrow> Inl (abi_error_new St_InvalidArgument ''string view has NULL ptr with non-zero len'')
      | Some m \<Rightarrow>
          if unat (sv_len v) > isize_max
          then Inl (abi_error_new St_InvalidArgument ''string view len exceeds the maximum supported size'')
          else Inr (take (unat (sv_len v)) m))"

definition sv_as_str :: "otel_string_view \<Rightarrow> abi_error + bytes" where
  "sv_as_str v =
     (case sv_as_bytes v of
        Inl e \<Rightarrow> Inl e
      | Inr bs \<Rightarrow>
          if valid_utf8 bs then Inr bs
          else Inl (abi_error_new St_InvalidUtf8 ''string view is not valid UTF-8''))"

text \<open>The caller's contract on a view: a non-NULL pointer is readable for \<open>len\<close> bytes.\<close>

definition sv_readable :: "otel_string_view \<Rightarrow> bool" where
  "sv_readable v \<longleftrightarrow> (case sv_ptr v of None \<Rightarrow> True | Some m \<Rightarrow> unat (sv_len v) \<le> length m)"

section \<open>Fallible copies\<close>

text \<open>
  Every copy of caller-sized data goes through \<open>try_reserve\<close>. Whether an allocation of \<open>n\<close>
  bytes succeeds is the allocator's choice, the parameter \<open>al\<close> of the operations that allocate.
\<close>

definition alloc_err :: abi_error where
  "alloc_err = abi_error_new St_InternalError ''failed to allocate string''"

definition push_str_fallible :: "(nat \<Rightarrow> bool) \<Rightarrow> bytes \<Rightarrow> bytes \<Rightarrow> abi_error + bytes" where
  "push_str_fallible al out s = (if al (length s) then Inr (out @ s) else Inl alloc_err)"

definition try_owned_string :: "(nat \<Rightarrow> bool) \<Rightarrow> bytes \<Rightarrow> abi_error + bytes" where
  "try_owned_string al s = push_str_fallible al [] s"

function lossy_loop :: "(nat \<Rightarrow> bool) \<Rightarrow> bytes \<Rightarrow> bytes \<Rightarrow> abi_error + bytes" where
  "lossy_loop al out rest =
     (case utf8_check rest of
        None \<Rightarrow> push_str_fallible al out rest
      | Some (good, error_len) \<Rightarrow>
          (case push_str_fallible al out (take good rest) of
             Inl e \<Rightarrow> Inl e
           | Inr out1 \<Rightarrow>
               (case push_str_fallible al out1 replacement_char of
                  Inl e \<Rightarrow> Inl e
                | Inr out2 \<Rightarrow>
                    (case error_len of
                       None \<Rightarrow> Inr out2
                     | Some bad \<Rightarrow> lossy_loop al out2 (drop (good + bad) rest)))))"
  by pat_completeness auto

lemma utf8_check_SomeD:
  "utf8_check bs = Some (good, el) \<Longrightarrow>
     good < length bs \<and> (\<forall>bad. el = Some bad \<longrightarrow> 0 < bad)"
proof (induction bs arbitrary: good el rule: utf8_check.induct)
  case (1 bs)
  show ?case
  proof (cases "utf8_next bs")
    case (Good n)
    with 1 obtain v where v: "utf8_check (drop n bs) = Some (v, el)" "good = n + v" "bs \<noteq> []"
      by (subst (asm) utf8_check.simps) (auto split: if_splits)
    from 1(1) [OF v(3) Good v(1)] v utf8_next_GoodD [OF Good] show ?thesis by auto
  next
    case (Bad n)
    with 1(2) utf8_next_BadD [OF Bad] show ?thesis
      by (subst (asm) utf8_check.simps) (auto split: if_splits)
  next
    case Incomplete
    with 1(2) show ?thesis
      by (subst (asm) utf8_check.simps) (auto split: if_splits)
  qed
qed

termination lossy_loop
  by (relation "measure (\<lambda>(al, out, rest). length rest)") (auto dest: utf8_check_SomeD)

declare lossy_loop.simps [simp del]

definition try_owned_string_lossy :: "(nat \<Rightarrow> bool) \<Rightarrow> bytes \<Rightarrow> abi_error + bytes" where
  "try_owned_string_lossy al bs = lossy_loop al [] bs"

definition to_string_strict :: "(nat \<Rightarrow> bool) \<Rightarrow> otel_string_view \<Rightarrow> abi_error + bytes" where
  "to_string_strict al v =
     (case sv_as_str v of Inl e \<Rightarrow> Inl e | Inr s \<Rightarrow> try_owned_string al s)"

definition to_string_lossy :: "(nat \<Rightarrow> bool) \<Rightarrow> otel_string_view \<Rightarrow> abi_error + bytes" where
  "to_string_lossy al v =
     (case sv_as_bytes v of Inl e \<Rightarrow> Inl e | Inr s \<Rightarrow> try_owned_string_lossy al s)"

section \<open>Enumerations validated from a raw u32\<close>

datatype otel_attribute_type = AT_String | AT_Bool | AT_Int64 | AT_Double

definition attribute_type_from_u32 :: "u32 \<Rightarrow> otel_attribute_type option" where
  "attribute_type_from_u32 v =
     (if v = 0 then Some AT_String else if v = 1 then Some AT_Bool
      else if v = 2 then Some AT_Int64 else if v = 3 then Some AT_Double else None)"

datatype otel_span_kind = SK_Internal | SK_Server | SK_Client | SK_Producer | SK_Consumer

definition span_kind_from_u32 :: "u32 \<Rightarrow> otel_span_kind option" where
  "span_kind_from_u32 v =
     (if v = 0 then Some SK_Internal else if v = 1 then Some SK_Server
      else if v = 2 then Some SK_Client else if v = 3 then Some SK_Producer
      else if v = 4 then Some SK_Consumer else None)"

datatype otel_span_status_code = SC_Unset | SC_Ok | SC_Error

definition span_status_code_from_u32 :: "u32 \<Rightarrow> otel_span_status_code option" where
  "span_status_code_from_u32 v =
     (if v = 0 then Some SC_Unset else if v = 1 then Some SC_Ok
      else if v = 2 then Some SC_Error else None)"

datatype otel_metric_instrument_kind =
    IK_Counter | IK_UpDownCounter | IK_Gauge | IK_Histogram
  | IK_ObservableCounter | IK_ObservableUpDownCounter | IK_ObservableGauge

definition metric_instrument_kind_from_u32 :: "u32 \<Rightarrow> otel_metric_instrument_kind option" where
  "metric_instrument_kind_from_u32 v =
     (if v = 0 then Some IK_Counter else if v = 1 then Some IK_UpDownCounter
      else if v = 2 then Some IK_Gauge else if v = 3 then Some IK_Histogram
      else if v = 4 then Some IK_ObservableCounter
      else if v = 5 then Some IK_ObservableUpDownCounter
      else if v = 6 then Some IK_ObservableGauge else None)"

datatype otel_metric_number_kind = NK_U64 | NK_I64 | NK_F64

definition metric_number_kind_from_u32 :: "u32 \<Rightarrow> otel_metric_number_kind option" where
  "metric_number_kind_from_u32 v =
     (if v = 0 then Some NK_U64 else if v = 1 then Some NK_I64
      else if v = 2 then Some NK_F64 else None)"

datatype otel_log_value_type =
    LT_Empty | LT_String | LT_Bool | LT_Int64 | LT_Double | LT_Bytes | LT_Array | LT_Map

definition log_value_type_from_u32 :: "u32 \<Rightarrow> otel_log_value_type option" where
  "log_value_type_from_u32 v =
     (if v = 0 then Some LT_Empty else if v = 1 then Some LT_String
      else if v = 2 then Some LT_Bool else if v = 3 then Some LT_Int64
      else if v = 4 then Some LT_Double else if v = 5 then Some LT_Bytes
      else if v = 6 then Some LT_Array else if v = 7 then Some LT_Map else None)"

section \<open>Vtable compatibility\<close>

text \<open>
  A vtable starts with an ABI identifier that names the signal and its version, and the size
  of the table; entries are only ever appended. The checks below read nothing else.
\<close>

record otel_vtable_header =
  abi_version :: u32
  struct_size :: usize

definition OTEL_TRACE_IMPL_ABI_VERSION :: u32 where "OTEL_TRACE_IMPL_ABI_VERSION = 1"
definition OTEL_METRICS_IMPL_ABI_VERSION :: u32 where "OTEL_METRICS_IMPL_ABI_VERSION = 0x4D000001"
definition OTEL_LOGS_IMPL_ABI_VERSION :: u32 where "OTEL_LOGS_IMPL_ABI_VERSION = 0x4C000001"

definition trace_vtable_compatible :: "otel_vtable_header \<Rightarrow> bool" where
  "trace_vtable_compatible h \<longleftrightarrow> abi_version h = OTEL_TRACE_IMPL_ABI_VERSION \<and> 128 \<le> struct_size h"

definition trace_vtable_supports_span_context :: "otel_vtable_header option \<Rightarrow> bool" where
  "trace_vtable_supports_span_context vt =
     (case vt of
        None \<Rightarrow> False
      | Some h \<Rightarrow> abi_version h = OTEL_TRACE_IMPL_ABI_VERSION \<and> 144 \<le> struct_size h)"

definition trace_vtable_supports_span_start_ex :: "otel_vtable_header option \<Rightarrow> bool" where
  "trace_vtable_supports_span_start_ex vt =
     (case vt of
        None \<Rightarrow> False
      | Some h \<Rightarrow> abi_version h = OTEL_TRACE_IMPL_ABI_VERSION \<and> 152 \<le> struct_size h)"

definition trace_vtable_supports_context :: "otel_vtable_header option \<Rightarrow> bool" where
  "trace_vtable_supports_context vt =
     (case vt of
        None \<Rightarrow> False
      | Some h \<Rightarrow> abi_version h = OTEL_TRACE_IMPL_ABI_VERSION \<and> 160 \<le> struct_size h)"

definition metrics_vtable_compatible :: "otel_vtable_header \<Rightarrow> bool" where
  "metrics_vtable_compatible h \<longleftrightarrow>
     abi_version h = OTEL_METRICS_IMPL_ABI_VERSION \<and> 112 \<le> struct_size h"

definition metrics_vtable_supports_scope_config :: "otel_vtable_header \<Rightarrow> bool" where
  "metrics_vtable_supports_scope_config h \<longleftrightarrow>
     abi_version h = OTEL_METRICS_IMPL_ABI_VERSION \<and> 120 \<le> struct_size h"

definition metrics_vtable_supports_creation_status :: "otel_vtable_header \<Rightarrow> bool" where
  "metrics_vtable_supports_creation_status h \<longleftrightarrow>
     abi_version h = OTEL_METRICS_IMPL_ABI_VERSION \<and> 128 \<le> struct_size h"

definition metrics_vtable_supports_bound_instruments :: "otel_vtable_header \<Rightarrow> bool" where
  "metrics_vtable_supports_bound_instruments h \<longleftrightarrow>
     abi_version h = OTEL_METRICS_IMPL_ABI_VERSION \<and> 160 \<le> struct_size h"

definition logs_vtable_compatible :: "otel_vtable_header \<Rightarrow> bool" where
  "logs_vtable_compatible h \<longleftrightarrow> abi_version h = OTEL_LOGS_IMPL_ABI_VERSION \<and> 64 \<le> struct_size h"

section \<open>Lossy decoding meets its specification\<close>

lemma utf8_lossy_split:
  "utf8_check bs = Some (good, el) \<Longrightarrow>
     utf8_lossy bs = take good bs @ replacement_char @
       (case el of None \<Rightarrow> [] | Some bad \<Rightarrow> utf8_lossy (drop (good + bad) bs))"
proof (induction bs arbitrary: good el rule: utf8_check.induct)
  case (1 bs)
  then have ne: "bs \<noteq> []" by (auto simp: utf8_check.simps)
  show ?case
  proof (cases "utf8_next bs")
    case (Good n)
    with 1(2) ne obtain v where v: "utf8_check (drop n bs) = Some (v, el)" "good = n + v"
      by (subst (asm) utf8_check.simps) auto
    have "utf8_lossy bs = take n bs @ utf8_lossy (drop n bs)"
      using ne Good by (subst utf8_lossy.simps) simp
    with 1(1) [OF ne Good v(1)] v(2) show ?thesis
      by (simp add: take_add add.assoc add.commute [of _ n] split: option.splits)
  next
    case (Bad n)
    with 1(2) ne have "good = 0" "el = Some n"
      by (subst (asm) utf8_check.simps, simp)+
    with ne Bad show ?thesis by (subst utf8_lossy.simps) simp
  next
    case Incomplete
    with 1(2) ne have "good = 0" "el = None"
      by (subst (asm) utf8_check.simps, simp)+
    with ne Incomplete show ?thesis by (subst utf8_lossy.simps) simp
  qed
qed

lemma lossy_loop_total: "lossy_loop (\<lambda>_. True) out rest = Inr (out @ utf8_lossy rest)"
proof (induction "\<lambda>_ :: nat. True" out rest rule: lossy_loop.induct)
  case (1 out rest)
  show ?case
  proof (cases "utf8_check rest")
    case None
    then have "utf8_lossy rest = rest" using utf8_lossy_valid_id valid_utf8_def by blast
    with None show ?thesis by (subst lossy_loop.simps) (simp add: push_str_fallible_def)
  next
    case (Some ge)
    obtain good el where ge: "ge = (good, el)" by (cases ge)
    show ?thesis
    proof (cases el)
      case None
      with Some ge utf8_lossy_split [of rest good el] show ?thesis
        by (subst lossy_loop.simps) (simp add: push_str_fallible_def)
    next
      fix bad assume bad: "el = Some bad"
      have "lossy_loop (\<lambda>_. True) (out @ take good rest @ replacement_char) (drop (good + bad) rest)
              = Inr ((out @ take good rest @ replacement_char) @ utf8_lossy (drop (good + bad) rest))"
        using 1 [OF Some ge [symmetric], of "out @ take good rest" "out @ take good rest @ replacement_char" bad]
          bad by (simp add: push_str_fallible_def)
      with bad Some ge utf8_lossy_split [of rest good el] show ?thesis
        by (subst lossy_loop.simps) (simp add: push_str_fallible_def)
    qed
  qed
qed

lemma lossy_loop_spec: "(\<And>n. al n) \<Longrightarrow> lossy_loop al out rest = Inr (out @ utf8_lossy rest)"
proof -
  assume "\<And>n. al n"
  then have "al = (\<lambda>_. True)" by auto
  then show ?thesis by (simp add: lossy_loop_total)
qed

text \<open>Views: an accepted view yields valid UTF-8 of the announced length.\<close>

lemma sv_as_str_valid: "sv_as_str v = Inr s \<Longrightarrow> valid_utf8 s"
  by (auto simp: sv_as_str_def split: sum.splits if_splits)

lemma sv_as_str_length: "sv_as_str v = Inr s \<Longrightarrow> sv_readable v \<Longrightarrow> length s = unat (sv_len v)"
  by (auto simp: sv_as_str_def sv_as_bytes_def sv_readable_def split: sum.splits if_splits option.splits)

lemma sv_as_str_sv_of:
  assumes "valid_utf8 s" and "length s \<le> isize_max"
  shows "sv_as_str (sv_of s) = Inr s"
proof -
  have "unat (word_of_nat (length s) :: usize) = length s"
    using assms(2) by (intro unat_word_of_nat64) (simp add: isize_max_def)
  moreover have "(word_of_nat (length s) :: usize) = 0 \<longleftrightarrow> s = []"
    using calculation by (metis length_0_conv unat_eq_zero)
  ultimately show ?thesis
    using assms by (auto simp: sv_as_str_def sv_as_bytes_def sv_of_def)
qed

end
