(* ===== verification/Abi_Data.thy ===== *)
theory Abi_Data
  imports Abi
begin

text \<open>
  The data that crosses the internal ABI (\<open>abi/src/lib.rs\<close>): attributes, span start
  configuration, context views and log records with their structured values, and the limits that
  go with them. A union is read only through the member that its tag selects, so its record
  lists what a read of each member yields. An array argument is a pointer and a count: \<open>None\<close>
  for NULL, or the readable elements.
\<close>

section \<open>Attributes and scopes\<close>

record otel_key_value =
  kv_key :: otel_string_view
  kv_value_type :: u32
  kv_string :: otel_string_view
  kv_bool :: u32
  kv_int64 :: i64
  kv_double :: u64

record otel_scope_config =
  scp_name :: otel_string_view
  scp_version :: otel_string_view
  scp_schema_url :: otel_string_view
  scp_attributes :: "otel_key_value list option"
  scp_attribute_count :: usize

section \<open>Metric instruments\<close>

text \<open>A callback is one of the API's three trampolines, named by its number kind; an \<open>f64\<close> is its
  bit pattern.\<close>

record otel_metric_instrument_config =
  mic_kind :: u32
  mic_number :: u32
  mic_name :: otel_string_view
  mic_description :: otel_string_view
  mic_unit :: otel_string_view
  mic_boundaries :: "u64 list option"
  mic_boundary_count :: usize
  mic_callback :: "otel_metric_number_kind option"
  mic_callback_state :: "nat option"
  mic_callback_state_free :: bool

section \<open>Spans and contexts\<close>

record otel_span_context_view =
  vw_trace_id :: bytes
  vw_span_id :: bytes
  vw_trace_flags :: u8
  vw_reserved :: bytes
  vw_is_remote :: u32
  vw_trace_state :: otel_string_view

record otel_context_view =
  cv_struct_size :: usize
  cv_span_context :: "otel_span_context_view option"
  cv_flags :: u32
  cv_reserved :: u32

definition OTEL_CONTEXT_FLAG_SUPPRESSED :: u32 where "OTEL_CONTEXT_FLAG_SUPPRESSED = 1"
definition OTEL_CONTEXT_SUPPORTED_FLAGS :: u32 where "OTEL_CONTEXT_SUPPORTED_FLAGS = 0"

record otel_span_link_view =
  lv_context :: otel_span_context_view
  lv_attributes :: "otel_key_value list option"
  lv_attribute_count :: usize

record otel_span_start_config =
  ssc_kind :: u32
  ssc_reserved :: u32
  ssc_parent_span_ctx :: "nat option"
  ssc_parent_context :: "otel_span_context_view option"
  ssc_start_time_unix_nanos :: u64
  ssc_attributes :: "otel_key_value list option"
  ssc_attribute_count :: usize
  ssc_links :: "otel_span_link_view list option"
  ssc_link_count :: usize

section \<open>Log values and records\<close>

record otel_log_bytes_view =
  lb_ptr :: "bytes option"
  lb_len :: usize

definition lb_empty :: otel_log_bytes_view where
  "lb_empty = \<lparr>lb_ptr = None, lb_len = 0\<rparr>"

definition lb_as_slice :: "otel_log_bytes_view \<Rightarrow> abi_error + bytes" where
  "lb_as_slice v =
     (if lb_len v = 0 then Inr []
      else case lb_ptr v of
        None \<Rightarrow> Inl (abi_error_new St_InvalidArgument ''bytes view has NULL ptr with non-zero len'')
      | Some m \<Rightarrow>
          if unat (lb_len v) > isize_max
          then Inl (abi_error_new St_InvalidArgument ''bytes view len exceeds the maximum supported size'')
          else Inr (take (unat (lb_len v)) m))"

record otel_log_value_range =
  rg_first :: u32
  rg_count :: u32

record otel_log_value =
  lval_value_type :: u32
  lval_reserved :: u32
  lval_string :: otel_string_view
  lval_bool :: u32
  lval_int64 :: i64
  lval_double :: u64
  lval_bytes :: otel_log_bytes_view
  lval_children :: otel_log_value_range

record otel_log_value_node =
  nd_key :: otel_string_view
  nd_value :: otel_log_value

record otel_log_trace_context =
  ltc_trace_id :: bytes
  ltc_span_id :: bytes
  ltc_trace_flags :: u8
  ltc_reserved :: bytes

record otel_log_record_view =
  lr_struct_size :: u64
  lr_present_fields :: u64
  lr_timestamp_unix_nanos :: u64
  lr_observed_timestamp_unix_nanos :: u64
  lr_severity_number :: u32
  lr_reserved_flags :: u32
  lr_body :: otel_log_value
  lr_attributes :: "otel_log_value_node list option"
  lr_attribute_count :: usize
  lr_value_nodes :: "otel_log_value_node list option"
  lr_value_node_count :: usize
  lr_trace_context :: otel_log_trace_context
  lr_reserved :: "u64 list"

definition OTEL_LOG_TRACE_FLAGS_SAMPLED :: u8 where "OTEL_LOG_TRACE_FLAGS_SAMPLED = 0x01"
definition OTEL_LOG_TRACE_FLAGS_RANDOM :: u8 where "OTEL_LOG_TRACE_FLAGS_RANDOM = 0x02"
definition OTEL_LOG_TRACE_FLAGS_SUPPORTED_MASK :: u8 where
  "OTEL_LOG_TRACE_FLAGS_SUPPORTED_MASK = OTEL_LOG_TRACE_FLAGS_SAMPLED OR OTEL_LOG_TRACE_FLAGS_RANDOM"
definition OTEL_LOG_FIELD_TIMESTAMP :: u64 where "OTEL_LOG_FIELD_TIMESTAMP = 1"
definition OTEL_LOG_FIELD_OBSERVED_TIMESTAMP :: u64 where "OTEL_LOG_FIELD_OBSERVED_TIMESTAMP = 2"
definition OTEL_LOG_FIELD_TRACE_CONTEXT :: u64 where "OTEL_LOG_FIELD_TRACE_CONTEXT = 4"
definition OTEL_LOG_FIELD_KNOWN_MASK :: u64 where
  "OTEL_LOG_FIELD_KNOWN_MASK =
     OTEL_LOG_FIELD_TIMESTAMP OR OTEL_LOG_FIELD_OBSERVED_TIMESTAMP OR OTEL_LOG_FIELD_TRACE_CONTEXT"

definition OTEL_LOG_MAX_ATTRIBUTES :: nat where "OTEL_LOG_MAX_ATTRIBUTES = 256"
definition OTEL_LOG_MAX_VALUE_NODES :: nat where "OTEL_LOG_MAX_VALUE_NODES = 1024"
definition OTEL_LOG_MAX_VALUE_DEPTH :: nat where "OTEL_LOG_MAX_VALUE_DEPTH = 16"
definition OTEL_LOG_MAX_STRING_LEN :: nat where "OTEL_LOG_MAX_STRING_LEN = 2 ^ 20"
definition OTEL_LOG_MAX_BYTES_LEN :: nat where "OTEL_LOG_MAX_BYTES_LEN = 2 ^ 20"
definition OTEL_LOG_MAX_MAP_ENTRIES :: nat where "OTEL_LOG_MAX_MAP_ENTRIES = 256"
definition OTEL_LOG_MAX_ARRAY_ELEMENTS :: nat where "OTEL_LOG_MAX_ARRAY_ELEMENTS = 256"

definition OTEL_LOG_SEVERITY_MAX :: u32 where "OTEL_LOG_SEVERITY_MAX = 24"

definition log_severity_is_valid :: "u32 \<Rightarrow> bool" where
  "log_severity_is_valid severity \<longleftrightarrow> severity \<le> OTEL_LOG_SEVERITY_MAX"

lemma log_flag_masks [simp]:
  "OTEL_LOG_TRACE_FLAGS_SUPPORTED_MASK = 3" "OTEL_LOG_FIELD_KNOWN_MASK = 7"
  by (simp_all add: OTEL_LOG_TRACE_FLAGS_SUPPORTED_MASK_def OTEL_LOG_TRACE_FLAGS_SAMPLED_def
      OTEL_LOG_TRACE_FLAGS_RANDOM_def OTEL_LOG_FIELD_KNOWN_MASK_def OTEL_LOG_FIELD_TIMESTAMP_def
      OTEL_LOG_FIELD_OBSERVED_TIMESTAMP_def OTEL_LOG_FIELD_TRACE_CONTEXT_def)

end
