(* ===== verification/Handles.thy ===== *)
theory Handles
  imports Abi_Data
begin

text \<open>
  Opaque handles and the thread's diagnostic slot (\<open>api/src/handle.rs\<close>, \<open>api/src/error.rs\<close>;
  \<open>sdk/src/handle.rs\<close> has the same text).

  The store maps the address of every live allocation to its header and its body; a body is a
  value of a payload type \<open>'p\<close> with one constructor per handle type. An operation returns
  \<open>None\<close> where the Rust code would have undefined behaviour: reading through a dangling
  pointer, or reinterpreting a body as the wrong type. The locale \<open>handle_type\<close> is the contract
  between the raw prefix check and the handle types: with consistent headers, a call whose
  pointers are NULL or live never reaches undefined behaviour.
\<close>

section \<open>The store\<close>

record 'p handle =
  header :: otel_handle_header
  body :: 'p

record 'p store =
  objs :: "addr \<Rightarrow> 'p handle option"
  next_addr :: addr
  last_error :: "bytes option"

section \<open>The last-error slot\<close>

text \<open>A message that holds NUL bytes loses them (\<open>CString\<close> cannot carry them).\<close>

definition set_last_error :: "bytes \<Rightarrow> ('p, 'm) store_scheme \<Rightarrow> ('p, 'm) store_scheme" where
  "set_last_error m s = s\<lparr>last_error := Some (filter (\<lambda>b. b \<noteq> 0) m)\<rparr>"

definition clear_last_error :: "('p, 'm) store_scheme \<Rightarrow> ('p, 'm) store_scheme" where
  "clear_last_error s = s\<lparr>last_error := None\<rparr>"

definition has_last_error :: "('p, 'm) store_scheme \<Rightarrow> bool" where
  "has_last_error s \<longleftrightarrow> last_error s \<noteq> None"

definition set_error_text :: "string \<Rightarrow> ('p, 'm) store_scheme \<Rightarrow> ('p, 'm) store_scheme" where
  "set_error_text m s = set_last_error (text_bytes m) s"

definition fail :: "otel_status \<Rightarrow> string \<Rightarrow> ('p, 'm) store_scheme \<Rightarrow> otel_status \<times> ('p, 'm) store_scheme" where
  "fail st m s = (st, set_error_text m s)"

text \<open>The same for an entry point that also has an output argument.\<close>

definition fail_out ::
  "otel_status \<Rightarrow> string \<Rightarrow> 'o \<Rightarrow> ('p, 'm) store_scheme \<Rightarrow> otel_status \<times> 'o \<times> ('p, 'm) store_scheme" where
  "fail_out st m out s = (st, out, set_error_text m s)"

definition fail_abi :: "abi_error \<Rightarrow> ('p, 'm) store_scheme \<Rightarrow> otel_status \<times> ('p, 'm) store_scheme" where
  "fail_abi e s = (err_status e, set_last_error (err_message e) s)"

definition otel_last_error_message :: "('p, 'm) store_scheme \<Rightarrow> otel_string_view" where
  "otel_last_error_message s = (case last_error s of Some m \<Rightarrow> sv_of m | None \<Rightarrow> sv_empty)"

definition otel_api_set_last_error ::
  "bytes option \<Rightarrow> usize \<Rightarrow> ('p, 'm) store_scheme \<Rightarrow> ('p, 'm) store_scheme" where
  "otel_api_set_last_error p len s =
     (case p of
        None \<Rightarrow> clear_last_error s
      | Some m \<Rightarrow>
          if len = 0 \<or> unat len > isize_max then clear_last_error s
          else set_last_error (take (unat len) m) s)"

definition otel_api_clear_last_error :: "('p, 'm) store_scheme \<Rightarrow> ('p, 'm) store_scheme" where
  "otel_api_clear_last_error s = clear_last_error s"

section \<open>Handle operations\<close>

text \<open>\<open>checked_ref\<close> and \<open>checked_mut\<close> share this check; they differ in the borrow they hand out,
  and a mutable borrow is written back with \<open>put_body\<close>.\<close>

definition checked_ref ::
  "u64 \<Rightarrow> ptr \<Rightarrow> ('p, 'm) store_scheme \<Rightarrow> ('p option \<times> ('p, 'm) store_scheme) option" where
  "checked_ref K p s =
     (case p of
        None \<Rightarrow> Some (None, set_error_text ''null handle passed to OpenTelemetry C API'' s)
      | Some a \<Rightarrow>
          (case objs s a of
             None \<Rightarrow> None
           | Some h \<Rightarrow>
               if \<not> is_live (header h) then
                 Some (None, set_error_text ''handle failed validation: not a live OpenTelemetry C handle'' s)
               else if kind (header h) \<noteq> K then
                 Some (None, set_error_text ''handle failed validation: wrong OpenTelemetry C handle type'' s)
               else Some (Some (body h), s)))"

text \<open>The typed borrow: the body read as the type whose kind was checked.\<close>

definition checked_as ::
  "u64 \<Rightarrow> ('p \<Rightarrow> 'a option) \<Rightarrow> ptr \<Rightarrow> ('p, 'm) store_scheme
     \<Rightarrow> ('a option \<times> ('p, 'm) store_scheme) option" where
  "checked_as K proj p s =
     (case checked_ref K p s of
        None \<Rightarrow> None
      | Some (None, s') \<Rightarrow> Some (None, s')
      | Some (Some b, s') \<Rightarrow> (case proj b of None \<Rightarrow> None | Some x \<Rightarrow> Some (Some x, s')))"

definition put_body :: "addr \<Rightarrow> 'p \<Rightarrow> ('p, 'm) store_scheme \<Rightarrow> ('p, 'm) store_scheme" where
  "put_body a b s =
     (case objs s a of
        None \<Rightarrow> s
      | Some h \<Rightarrow> s\<lparr>objs := (objs s)(a := Some (h\<lparr>body := b\<rparr>))\<rparr>)"

definition put_ptr :: "ptr \<Rightarrow> 'p \<Rightarrow> ('p, 'm) store_scheme \<Rightarrow> ('p, 'm) store_scheme" where
  "put_ptr p b s = (case p of None \<Rightarrow> s | Some a \<Rightarrow> put_body a b s)"

text \<open>\<open>Box::into_raw\<close> of a value built with a fresh header of its kind.\<close>

definition into_raw :: "u64 \<Rightarrow> 'p \<Rightarrow> ('p, 'm) store_scheme \<Rightarrow> ptr \<times> ('p, 'm) store_scheme" where
  "into_raw K b s =
     (Some (next_addr s),
      s\<lparr>objs := (objs s)(next_addr s := Some \<lparr>header = header_new K, body = b\<rparr>),
        next_addr := Suc (next_addr s)\<rparr>)"

text \<open>\<open>destroy\<close>: NULL and a live handle of another kind are left alone; otherwise the header is
  poisoned and the box is freed.\<close>

definition destroy :: "u64 \<Rightarrow> ptr \<Rightarrow> ('p, 'm) store_scheme \<Rightarrow> ('p, 'm) store_scheme option" where
  "destroy K p s =
     (case p of
        None \<Rightarrow> Some s
      | Some a \<Rightarrow>
          (case objs s a of
             None \<Rightarrow> None
           | Some h \<Rightarrow>
               if \<not> is_live_kind (header h) K then Some s
               else Some (s\<lparr>objs := (objs s)(a := None)\<rparr>)))"

text \<open>The panic guards: a body either finishes or panics (\<open>Inl\<close>) in some state. The bodies
  modelled in this development finish, and a guard is then the identity.\<close>

definition guard_status ::
  "('p, 'm) store_scheme + (otel_status \<times> ('p, 'm) store_scheme) \<Rightarrow> otel_status \<times> ('p, 'm) store_scheme" where
  "guard_status r =
     (case r of
        Inr res \<Rightarrow> res
      | Inl s \<Rightarrow> (St_InternalError, set_error_text ''caught panic at FFI boundary'' s))"

definition guard_ptr ::
  "('p, 'm) store_scheme + (ptr \<times> ('p, 'm) store_scheme) \<Rightarrow> ptr \<times> ('p, 'm) store_scheme" where
  "guard_ptr r =
     (case r of
        Inr res \<Rightarrow> res
      | Inl s \<Rightarrow> (None, set_error_text ''caught panic at FFI boundary'' s))"

definition guard_unit :: "('p, 'm) store_scheme + ('p, 'm) store_scheme \<Rightarrow> ('p, 'm) store_scheme" where
  "guard_unit r = (case r of Inr s \<Rightarrow> s | Inl s \<Rightarrow> s)"

definition guard_value :: "'v \<Rightarrow> ('p, 'm) store_scheme + ('v \<times> ('p, 'm) store_scheme) \<Rightarrow> 'v \<times> ('p, 'm) store_scheme" where
  "guard_value fallback r = (case r of Inr res \<Rightarrow> res | Inl s \<Rightarrow> (fallback, s))"

section \<open>Frame facts\<close>

lemma set_error_text_simps [simp, store_simps]:
  "objs (set_error_text m s) = objs s" "next_addr (set_error_text m s) = next_addr s"
  "has_last_error (set_error_text m s)"
  "store.more (set_error_text m s) = store.more s"
  by (simp_all add: set_error_text_def set_last_error_def has_last_error_def)

lemma set_last_error_simps [simp, store_simps]:
  "objs (set_last_error m s) = objs s" "next_addr (set_last_error m s) = next_addr s"
  "has_last_error (set_last_error m s)" "store.more (set_last_error m s) = store.more s"
  by (simp_all add: set_last_error_def has_last_error_def)

lemma clear_last_error_simps [simp, store_simps]:
  "objs (clear_last_error s) = objs s" "next_addr (clear_last_error s) = next_addr s"
  "last_error (clear_last_error s) = None" "\<not> has_last_error (clear_last_error s)" "store.more (clear_last_error s) = store.more s"
  by (simp_all add: clear_last_error_def has_last_error_def)

lemma fail_simps [simp, store_simps]:
  "fst (fail st m s) = st" "objs (snd (fail st m s)) = objs s"
  "next_addr (snd (fail st m s)) = next_addr s" "has_last_error (snd (fail st m s))"
  by (simp_all add: fail_def)

lemma into_raw_simps [simp, store_simps]:
  "fst (into_raw K b s) = Some (next_addr s)"
  "objs (snd (into_raw K b s)) = (objs s)(next_addr s := Some \<lparr>header = header_new K, body = b\<rparr>)"
  "next_addr (snd (into_raw K b s)) = Suc (next_addr s)"
  "last_error (snd (into_raw K b s)) = last_error s"
  "store.more (snd (into_raw K b s)) = store.more s"
  by (simp_all add: into_raw_def)

lemma put_body_simps [simp, store_simps]:
  "next_addr (put_body a b s) = next_addr s" "last_error (put_body a b s) = last_error s"
  "store.more (put_body a b s) = store.more s"
  by (simp_all add: put_body_def split: option.splits)

lemma objs_put_body:
  "objs s a = Some h \<Longrightarrow> objs (put_body a b s) = (objs s)(a := Some (h\<lparr>body := b\<rparr>))"
  by (simp add: put_body_def)

section \<open>Well-formed stores\<close>

text \<open>Every allocation lies below the allocation pointer, is live, and its header names the kind
  of its body. \<open>kind_of\<close> gives the kind of each payload constructor.\<close>

definition wf_store :: "('p \<Rightarrow> u64) \<Rightarrow> ('p, 'm) store_scheme \<Rightarrow> bool" where
  "wf_store kind_of s \<longleftrightarrow>
     (\<forall>a h. objs s a = Some h \<longrightarrow>
        a < next_addr s \<and> header h = header_new (kind_of (body h)))"

text \<open>The caller's contract on a handle argument: NULL or a live allocation.\<close>

definition valid_ptr :: "('p, 'm) store_scheme \<Rightarrow> ptr \<Rightarrow> bool" where
  "valid_ptr s p \<longleftrightarrow> (case p of None \<Rightarrow> True | Some a \<Rightarrow> objs s a \<noteq> None)"

text \<open>\<open>p\<close> points to a live handle whose body is \<open>b\<close>.\<close>

definition points_to :: "('p, 'm) store_scheme \<Rightarrow> ptr \<Rightarrow> 'p \<Rightarrow> bool" where
  "points_to s p b \<longleftrightarrow> (case p of None \<Rightarrow> False | Some a \<Rightarrow> map_option body (objs s a) = Some b)"

lemma points_to_cong: "objs s' = objs s \<Longrightarrow> points_to s' p b = points_to s p b"
  by (simp add: points_to_def split: option.splits)

lemma points_to_frame [simp]:
  "points_to (set_error_text m s) = points_to s"
  "points_to (set_last_error m' s) = points_to s"
  "points_to (clear_last_error s) = points_to s"
  by (auto simp: points_to_def fun_eq_iff split: option.splits)

lemma valid_ptr_frame [simp]:
  "valid_ptr (set_error_text m s) = valid_ptr s"
  "valid_ptr (set_last_error m' s) = valid_ptr s"
  "valid_ptr (clear_last_error s) = valid_ptr s"
  by (auto simp: valid_ptr_def fun_eq_iff split: option.splits)

lemma points_to_valid: "points_to s p b \<Longrightarrow> valid_ptr s p"
  by (auto simp: points_to_def valid_ptr_def split: option.splits)

lemma points_to_unique: "points_to s p b \<Longrightarrow> points_to s p c \<Longrightarrow> b = c"
  by (auto simp: points_to_def split: option.splits)

text \<open>An operation leaves every other handle alone: allocation and writes through one pointer.\<close>

lemma points_to_into_raw_old:
  "objs s (next_addr s) = None \<Longrightarrow> points_to s p b \<Longrightarrow> points_to (snd (into_raw K c s)) p b"
  by (auto simp: points_to_def split: option.splits)

lemma points_to_put_other:
  "p \<noteq> q \<Longrightarrow> points_to (put_ptr p c s) q b = points_to s q b"
  by (auto simp: points_to_def put_ptr_def put_body_def split: option.splits)

lemma points_to_put_same:
  "points_to s p b0 \<Longrightarrow> points_to (put_ptr p c s) p b \<longleftrightarrow> b = c"
  by (auto simp: points_to_def put_ptr_def put_body_def split: option.splits)

lemma points_to_putI: "points_to s p b0 \<Longrightarrow> points_to (put_ptr p c s) p c"
  by (simp add: points_to_put_same)

lemma put_ptr_simps [simp, store_simps]:
  "next_addr (put_ptr p b s) = next_addr s" "last_error (put_ptr p b s) = last_error s"
  "store.more (put_ptr p b s) = store.more s"
  by (simp_all add: put_ptr_def split: option.splits)

lemma wf_storeI:
  "(\<And>a h. objs s a = Some h \<Longrightarrow> a < next_addr s \<and> header h = header_new (kind_of (body h))) \<Longrightarrow>
     wf_store kind_of s"
  by (auto simp: wf_store_def)

lemma wf_store_fresh: "wf_store kind_of s \<Longrightarrow> objs s (next_addr s) = None"
  by (metis wf_store_def less_irrefl not_None_eq)

lemma wf_store_cong:
  "objs s' = objs s \<Longrightarrow> next_addr s' = next_addr s \<Longrightarrow> wf_store kind_of s' = wf_store kind_of s"
  by (simp add: wf_store_def)

lemma wf_store_simps [simp]:
  "wf_store kind_of (set_error_text m s) = wf_store kind_of s"
  "wf_store kind_of (set_last_error m' s) = wf_store kind_of s"
  "wf_store kind_of (clear_last_error s) = wf_store kind_of s"
  by (rule wf_store_cong; simp)+

lemma wf_store_into_raw:
  "wf_store kind_of s \<Longrightarrow> K = kind_of b \<Longrightarrow> wf_store kind_of (snd (into_raw K b s))"
  by (rule wf_storeI) (auto simp: wf_store_def less_Suc_eq split: if_splits)

lemma wf_store_put_body:
  assumes "wf_store kind_of s" and "\<And>h. objs s a = Some h \<Longrightarrow> kind_of (body h) = kind_of b"
  shows "wf_store kind_of (put_body a b s)"
proof (rule wf_storeI)
  fix a' h' assume *: "objs (put_body a b s) a' = Some h'"
  show "a' < next_addr (put_body a b s) \<and> header h' = header_new (kind_of (body h'))"
  proof (cases "objs s a")
    case None
    with * assms(1) show ?thesis by (simp add: put_body_def wf_store_def)
  next
    case (Some h)
    then have "a < next_addr s" "header h = header_new (kind_of b)"
      using assms by (auto simp: wf_store_def)
    with Some * assms(1) show ?thesis
      by (cases "a' = a") (auto simp: put_body_def wf_store_def)
  qed
qed

lemma wf_store_remove:
  "wf_store kind_of s \<Longrightarrow> wf_store kind_of (s\<lparr>objs := (objs s)(a := None)\<rparr>)"
  by (auto simp: wf_store_def)

lemma wf_store_destroy: "wf_store kind_of s \<Longrightarrow> destroy K p s = Some s' \<Longrightarrow> wf_store kind_of s'"
  by (auto simp: destroy_def wf_store_remove split: option.splits if_splits)

lemma checked_ref_wf:
  "wf_store kind_of s \<Longrightarrow>
   checked_ref K p s =
     (case p of
        None \<Rightarrow> Some (None, set_error_text ''null handle passed to OpenTelemetry C API'' s)
      | Some a \<Rightarrow>
          (case objs s a of
             None \<Rightarrow> None
           | Some h \<Rightarrow>
               if kind_of (body h) \<noteq> K then
                 Some (None, set_error_text ''handle failed validation: wrong OpenTelemetry C handle type'' s)
               else Some (Some (body h), s)))"
  by (auto simp: checked_ref_def wf_store_def split: option.splits)

text \<open>A failed or successful check changes at most the error slot.\<close>

lemma checked_as_frame:
  "checked_as K proj p s = Some (r, s') \<Longrightarrow>
     objs s' = objs s \<and> next_addr s' = next_addr s \<and> store.more s' = store.more s"
  by (auto simp: checked_as_def checked_ref_def split: option.splits if_splits)

section \<open>The contract of a handle type\<close>

locale handle_type =
  fixes kind_of :: "'p \<Rightarrow> u64"
    and K :: u64
    and mk :: "'a \<Rightarrow> 'p"
    and proj :: "'p \<Rightarrow> 'a option"
  assumes proj_iff: "proj b = Some x \<longleftrightarrow> b = mk x"
    and kind_mk: "kind_of (mk x) = K"
    and kind_exhaust: "kind_of b = K \<Longrightarrow> \<exists>x. b = mk x"
begin

lemma proj_mk [simp]: "proj (mk x) = Some x"
  using proj_iff by blast

lemma mk_inject: "mk x = mk y \<longleftrightarrow> x = y"
  by (metis option.inject proj_mk)

lemma kind_proj: "kind_of b = K \<longleftrightarrow> proj b \<noteq> None"
  using kind_exhaust kind_mk proj_iff by (metis not_Some_eq)

text \<open>The checked borrow under the store invariant.\<close>

lemma checked_as_wf:
  assumes "wf_store kind_of s"
  shows "checked_as K proj p s =
     (case p of
        None \<Rightarrow> Some (None, set_error_text ''null handle passed to OpenTelemetry C API'' s)
      | Some a \<Rightarrow>
          (case objs s a of
             None \<Rightarrow> None
           | Some h \<Rightarrow>
               (case proj (body h) of
                  None \<Rightarrow> Some (None, set_error_text ''handle failed validation: wrong OpenTelemetry C handle type'' s)
                | Some x \<Rightarrow> Some (Some x, s))))"
proof -
  have "kind_of b = K \<longleftrightarrow> (\<exists>x. proj b = Some x)" for b using kind_proj [of b] by auto
  then show ?thesis
    by (auto simp: checked_as_def checked_ref_wf [OF assms] split: option.splits)
qed

text \<open>No undefined behaviour: with a live or NULL pointer the check answers.\<close>

lemma checked_as_defined:
  assumes "wf_store kind_of s" and "valid_ptr s p"
  obtains s' where "checked_as K proj p s = Some (None, s')" "objs s' = objs s"
      "next_addr s' = next_addr s" "store.more s' = store.more s" "\<And>x. \<not> points_to s p (mk x)"
      "has_last_error s'"
    | x where "checked_as K proj p s = Some (Some x, s)" "points_to s p (mk x)"
proof (cases p)
  case None
  then show ?thesis
    using that(1) by (auto simp: checked_as_wf [OF assms(1)] points_to_def)
next
  case (Some a)
  with assms(2) obtain h where h: "objs s a = Some h" by (auto simp: valid_ptr_def)
  show ?thesis
  proof (cases "proj (body h)")
    case None
    then have "\<And>x. body h \<noteq> mk x" by auto
    with None h Some show ?thesis
      using that(1) by (auto simp: checked_as_wf [OF assms(1)] points_to_def)
  next
    fix x assume "proj (body h) = Some x"
    with h Some show ?thesis
      using that(2) by (auto simp: checked_as_wf [OF assms(1)] points_to_def proj_iff)
  qed
qed

lemma checked_defined:
  "wf_store kind_of s \<Longrightarrow> valid_ptr s p \<Longrightarrow> \<exists>r s'. checked_as K proj p s = Some (r, s')"
  using checked_as_defined [of s p] by blast

lemma checked_as_points_to:
  assumes "wf_store kind_of s" and "points_to s p (mk x)"
  shows "checked_as K proj p s = Some (Some x, s)"
  using assms(2)
  by (auto simp: checked_as_wf [OF assms(1)] points_to_def split: option.splits)

lemma checked_as_None [simp]:
  "checked_as K proj None s =
     Some (None, set_error_text ''null handle passed to OpenTelemetry C API'' s)"
  by (simp add: checked_as_def checked_ref_def)

lemma checked_as_SomeD:
  "checked_as K proj p s = Some (Some x, s') \<Longrightarrow> s' = s \<and> points_to s p (mk x)"
  by (auto simp: checked_as_def checked_ref_def points_to_def proj_iff split: option.splits if_splits)

lemma checked_as_NoneD:
  "checked_as K proj p s = Some (None, s') \<Longrightarrow>
     objs s' = objs s \<and> next_addr s' = next_addr s \<and> store.more s' = store.more s \<and>
     has_last_error s'"
  by (auto simp: checked_as_def checked_ref_def split: option.splits if_splits)

lemma wf_into_raw: "wf_store kind_of s \<Longrightarrow> wf_store kind_of (snd (into_raw K (mk x) s))"
  by (rule wf_store_into_raw) (simp_all add: kind_mk)

lemma points_to_into_raw: "points_to (snd (into_raw K b s)) (fst (into_raw K b s)) b"
  by (simp add: points_to_def)

lemma wf_put:
  assumes "wf_store kind_of s" and "points_to s (Some a) (mk x)"
  shows "wf_store kind_of (put_body a (mk y) s)"
  using assms by (intro wf_store_put_body) (auto simp: points_to_def kind_mk)

lemma points_to_put:
  "points_to s (Some a) (mk x) \<Longrightarrow> points_to (put_body a b s) (Some a) b"
  by (auto simp: points_to_def put_body_def split: option.splits)

lemma destroy_points_to:
  assumes "wf_store kind_of s" and "points_to s (Some a) (mk x)"
  shows "destroy K (Some a) s = Some (s\<lparr>objs := (objs s)(a := None)\<rparr>)"
  using assms by (auto simp: destroy_def points_to_def wf_store_def kind_mk split: option.splits)

lemma destroy_other_kind:
  assumes "wf_store kind_of s" and "points_to s (Some a) b" and "kind_of b \<noteq> K"
  shows "destroy K (Some a) s = Some s"
  using assms by (auto simp: destroy_def points_to_def wf_store_def split: option.splits)

end

end
