(* ===== verification/Api_Objects.thy ===== *)
theory Api_Objects
  imports Handles
begin

text \<open>
  The data behind every API handle: the struct definitions of \<open>api/src/baggage.rs\<close>,
  \<open>api/src/context.rs\<close>, \<open>api/src/trace.rs\<close> and \<open>api/src/logs.rs\<close>, the kind constants of
  \<open>abi/src/lib.rs\<close>, and one interpretation of \<open>handle_type\<close> per handle type. Data that the
  sources share immutably through an \<open>Arc\<close> is shared by value here.
\<close>

section \<open>Bodies\<close>

record baggage_entry =
  be_key :: bytes
  be_value :: bytes
  be_metadata :: bytes

record span_context_data =
  sc_trace_id :: bytes
  sc_span_id :: bytes
  sc_trace_flags :: u8
  sc_is_remote :: bool
  sc_trace_state :: bytes

record context_data =
  cd_span_context :: "span_context_data option"
  cd_baggage :: "baggage_entry list option"
  cd_flags :: u32

text \<open>A provider handle resolves the process-global slot on each use, or owns one provider
  context of a specific implementation.\<close>

datatype provider_inner = PI_Global | PI_Backed ptr ptr

text \<open>Tracers, spans and loggers hold a vtable pointer (NULL for the no-op default) and the
  context that implementation allocated.\<close>

record backing =
  bk_vtable :: ptr
  bk_ctx :: ptr

record span_body = backing +
  sp_ended :: bool

text \<open>An observable instrument also shares the state of its callback with the implementation.\<close>

record observable_body = backing +
  ob_state :: addr

datatype sync_instrument =
    CounterU64 | CounterF64 | UpDownCounterI64 | UpDownCounterF64 | GaugeU64 | GaugeI64 | GaugeF64
  | HistogramU64 | HistogramF64

datatype bound_instrument = BoundCounterU64 | BoundCounterF64 | BoundHistogramU64 | BoundHistogramF64

datatype observable_instrument =
    ObservableCounterU64 | ObservableCounterF64 | ObservableUpDownCounterI64 | ObservableUpDownCounterF64
  | ObservableGaugeU64 | ObservableGaugeI64 | ObservableGaugeF64

datatype api_payload =
    P_TracerProvider provider_inner
  | P_Tracer backing
  | P_Span span_body
  | P_SpanContext span_context_data
  | P_Context context_data
  | P_Baggage "baggage_entry list"
  | P_BaggageBuilder "baggage_entry list"
  | P_LoggerProvider provider_inner
  | P_Logger backing
  | P_MeterProvider provider_inner
  | P_Meter backing
  | P_Sync sync_instrument backing
  | P_Bound bound_instrument backing
  | P_Observable observable_instrument observable_body

section \<open>Kinds\<close>

definition KIND_TRACER_PROVIDER :: u64 where "KIND_TRACER_PROVIDER = 0x0101"
definition KIND_TRACER :: u64 where "KIND_TRACER = 0x0102"
definition KIND_SPAN :: u64 where "KIND_SPAN = 0x0103"
definition KIND_SPAN_CONTEXT :: u64 where "KIND_SPAN_CONTEXT = 0x0104"
definition KIND_CONTEXT :: u64 where "KIND_CONTEXT = 0x0105"
definition KIND_BAGGAGE :: u64 where "KIND_BAGGAGE = 0x0106"
definition KIND_BAGGAGE_BUILDER :: u64 where "KIND_BAGGAGE_BUILDER = 0x0107"
definition KIND_LOGGER_PROVIDER :: u64 where "KIND_LOGGER_PROVIDER = 0x0140"
definition KIND_LOGGER :: u64 where "KIND_LOGGER = 0x0141"
definition KIND_METER_PROVIDER :: u64 where "KIND_METER_PROVIDER = 0x0110"

definition KIND_METER :: u64 where "KIND_METER = 0x0111"

fun sync_kind :: "sync_instrument \<Rightarrow> u64" where
  "sync_kind CounterU64 = 0x0120"
| "sync_kind CounterF64 = 0x0121"
| "sync_kind UpDownCounterI64 = 0x0122"
| "sync_kind UpDownCounterF64 = 0x0123"
| "sync_kind GaugeU64 = 0x0124"
| "sync_kind GaugeI64 = 0x0125"
| "sync_kind GaugeF64 = 0x0126"
| "sync_kind HistogramU64 = 0x0127"
| "sync_kind HistogramF64 = 0x0128"

fun bound_kind :: "bound_instrument \<Rightarrow> u64" where
  "bound_kind BoundCounterU64 = 0x0129"
| "bound_kind BoundCounterF64 = 0x012A"
| "bound_kind BoundHistogramU64 = 0x012B"
| "bound_kind BoundHistogramF64 = 0x012C"

fun observable_kind :: "observable_instrument \<Rightarrow> u64" where
  "observable_kind ObservableCounterU64 = 0x0130"
| "observable_kind ObservableCounterF64 = 0x0131"
| "observable_kind ObservableUpDownCounterI64 = 0x0132"
| "observable_kind ObservableUpDownCounterF64 = 0x0133"
| "observable_kind ObservableGaugeU64 = 0x0134"
| "observable_kind ObservableGaugeI64 = 0x0135"
| "observable_kind ObservableGaugeF64 = 0x0136"

lemmas kind_defs = KIND_METER_def KIND_TRACER_PROVIDER_def KIND_TRACER_def KIND_SPAN_def KIND_SPAN_CONTEXT_def
  KIND_CONTEXT_def KIND_BAGGAGE_def KIND_BAGGAGE_BUILDER_def KIND_LOGGER_PROVIDER_def KIND_LOGGER_def
  KIND_METER_PROVIDER_def

fun api_kind :: "api_payload \<Rightarrow> u64" where
  "api_kind (P_TracerProvider _) = KIND_TRACER_PROVIDER"
| "api_kind (P_Tracer _) = KIND_TRACER"
| "api_kind (P_Span _) = KIND_SPAN"
| "api_kind (P_SpanContext _) = KIND_SPAN_CONTEXT"
| "api_kind (P_Context _) = KIND_CONTEXT"
| "api_kind (P_Baggage _) = KIND_BAGGAGE"
| "api_kind (P_BaggageBuilder _) = KIND_BAGGAGE_BUILDER"
| "api_kind (P_LoggerProvider _) = KIND_LOGGER_PROVIDER"
| "api_kind (P_Logger _) = KIND_LOGGER"
| "api_kind (P_MeterProvider _) = KIND_METER_PROVIDER"
| "api_kind (P_Meter _) = KIND_METER"
| "api_kind (P_Sync i _) = sync_kind i"
| "api_kind (P_Bound i _) = bound_kind i"
| "api_kind (P_Observable i _) = observable_kind i"

text \<open>The instrument kinds are distinct from each other and from every other kind.\<close>

lemma instrument_kinds_distinct:
  "sync_kind i = sync_kind j \<longleftrightarrow> i = j" "bound_kind a = bound_kind b \<longleftrightarrow> a = b"
  "observable_kind x = observable_kind y \<longleftrightarrow> x = y"
  subgoal by (cases i; cases j; simp)
  subgoal by (cases a; cases b; simp)
  subgoal by (cases x; cases y; simp)
  done

lemma instrument_families_distinct:
  "sync_kind i \<noteq> bound_kind a" "sync_kind i \<noteq> observable_kind x" "bound_kind a \<noteq> observable_kind x"
  subgoal by (cases i; cases a; simp)
  subgoal by (cases i; cases x; simp)
  subgoal by (cases a; cases x; simp)
  done

definition base_kinds :: "u64 list" where
  "base_kinds = [KIND_TRACER_PROVIDER, KIND_TRACER, KIND_SPAN, KIND_SPAN_CONTEXT, KIND_CONTEXT, KIND_BAGGAGE,
     KIND_BAGGAGE_BUILDER, KIND_LOGGER_PROVIDER, KIND_LOGGER, KIND_METER_PROVIDER, KIND_METER]"

lemma base_kinds_distinct: "distinct base_kinds"
  by (simp add: base_kinds_def kind_defs)

lemma base_kinds_distinct_rev:
  "distinct [KIND_METER, KIND_METER_PROVIDER, KIND_LOGGER, KIND_LOGGER_PROVIDER, KIND_BAGGAGE_BUILDER, KIND_BAGGAGE,
     KIND_CONTEXT, KIND_SPAN_CONTEXT, KIND_SPAN, KIND_TRACER, KIND_TRACER_PROVIDER]"
  by (simp add: kind_defs)

lemma base_kinds_not_instruments:
  "list_all (\<lambda>k. sync_kind i \<noteq> k \<and> k \<noteq> sync_kind i) base_kinds"
  "list_all (\<lambda>k. bound_kind a \<noteq> k \<and> k \<noteq> bound_kind a) base_kinds"
  "list_all (\<lambda>k. observable_kind x \<noteq> k \<and> k \<noteq> observable_kind x) base_kinds"
  subgoal by (cases i) (simp_all add: base_kinds_def kind_defs)
  subgoal by (cases a) (simp_all add: base_kinds_def kind_defs)
  subgoal by (cases x) (simp_all add: base_kinds_def kind_defs)
  done

lemmas kinds_distinct = instrument_kinds_distinct instrument_families_distinct
  instrument_families_distinct [symmetric] base_kinds_distinct [unfolded base_kinds_def, simplified]
  base_kinds_distinct_rev [simplified]
  base_kinds_not_instruments [unfolded base_kinds_def, simplified]

fun as_tracer_provider :: "api_payload \<Rightarrow> provider_inner option" where
  "as_tracer_provider (P_TracerProvider x) = Some x" | "as_tracer_provider _ = None"
fun as_tracer :: "api_payload \<Rightarrow> backing option" where
  "as_tracer (P_Tracer x) = Some x" | "as_tracer _ = None"
fun as_span :: "api_payload \<Rightarrow> span_body option" where
  "as_span (P_Span x) = Some x" | "as_span _ = None"
fun as_span_context :: "api_payload \<Rightarrow> span_context_data option" where
  "as_span_context (P_SpanContext x) = Some x" | "as_span_context _ = None"
fun as_context :: "api_payload \<Rightarrow> context_data option" where
  "as_context (P_Context x) = Some x" | "as_context _ = None"
fun as_baggage :: "api_payload \<Rightarrow> baggage_entry list option" where
  "as_baggage (P_Baggage x) = Some x" | "as_baggage _ = None"
fun as_baggage_builder :: "api_payload \<Rightarrow> baggage_entry list option" where
  "as_baggage_builder (P_BaggageBuilder x) = Some x" | "as_baggage_builder _ = None"
fun as_logger_provider :: "api_payload \<Rightarrow> provider_inner option" where
  "as_logger_provider (P_LoggerProvider x) = Some x" | "as_logger_provider _ = None"
fun as_logger :: "api_payload \<Rightarrow> backing option" where
  "as_logger (P_Logger x) = Some x" | "as_logger _ = None"
fun as_meter_provider :: "api_payload \<Rightarrow> provider_inner option" where
  "as_meter_provider (P_MeterProvider x) = Some x" | "as_meter_provider _ = None"
fun as_meter :: "api_payload \<Rightarrow> backing option" where
  "as_meter (P_Meter x) = Some x" | "as_meter _ = None"
fun as_sync :: "sync_instrument \<Rightarrow> api_payload \<Rightarrow> backing option" where
  "as_sync i (P_Sync j x) = (if i = j then Some x else None)" | "as_sync i _ = None"
fun as_bound :: "bound_instrument \<Rightarrow> api_payload \<Rightarrow> backing option" where
  "as_bound i (P_Bound j x) = (if i = j then Some x else None)" | "as_bound i _ = None"
fun as_observable :: "observable_instrument \<Rightarrow> api_payload \<Rightarrow> observable_body option" where
  "as_observable i (P_Observable j x) = (if i = j then Some x else None)" | "as_observable i _ = None"

section \<open>Every handle type meets the contract\<close>

interpretation hp: handle_type api_kind KIND_TRACER_PROVIDER P_TracerProvider as_tracer_provider
proof
  fix b x
  show "as_tracer_provider b = Some x \<longleftrightarrow> b = P_TracerProvider x" by (cases b) auto
  show "api_kind (P_TracerProvider x) = KIND_TRACER_PROVIDER" by simp
  show "api_kind b = KIND_TRACER_PROVIDER \<Longrightarrow> \<exists>x. b = P_TracerProvider x"
    by (cases b) (auto simp: kinds_distinct)
qed

interpretation ht: handle_type api_kind KIND_TRACER P_Tracer as_tracer
proof
  fix b x
  show "as_tracer b = Some x \<longleftrightarrow> b = P_Tracer x" by (cases b) auto
  show "api_kind (P_Tracer x) = KIND_TRACER" by simp
  show "api_kind b = KIND_TRACER \<Longrightarrow> \<exists>x. b = P_Tracer x" by (cases b) (auto simp: kinds_distinct)
qed

interpretation hs: handle_type api_kind KIND_SPAN P_Span as_span
proof
  fix b x
  show "as_span b = Some x \<longleftrightarrow> b = P_Span x" by (cases b) auto
  show "api_kind (P_Span x) = KIND_SPAN" by simp
  show "api_kind b = KIND_SPAN \<Longrightarrow> \<exists>x. b = P_Span x" by (cases b) (auto simp: kinds_distinct)
qed

interpretation hsc: handle_type api_kind KIND_SPAN_CONTEXT P_SpanContext as_span_context
proof
  fix b x
  show "as_span_context b = Some x \<longleftrightarrow> b = P_SpanContext x" by (cases b) auto
  show "api_kind (P_SpanContext x) = KIND_SPAN_CONTEXT" by simp
  show "api_kind b = KIND_SPAN_CONTEXT \<Longrightarrow> \<exists>x. b = P_SpanContext x" by (cases b) (auto simp: kinds_distinct)
qed

interpretation hc: handle_type api_kind KIND_CONTEXT P_Context as_context
proof
  fix b x
  show "as_context b = Some x \<longleftrightarrow> b = P_Context x" by (cases b) auto
  show "api_kind (P_Context x) = KIND_CONTEXT" by simp
  show "api_kind b = KIND_CONTEXT \<Longrightarrow> \<exists>x. b = P_Context x" by (cases b) (auto simp: kinds_distinct)
qed

interpretation hb: handle_type api_kind KIND_BAGGAGE P_Baggage as_baggage
proof
  fix b x
  show "as_baggage b = Some x \<longleftrightarrow> b = P_Baggage x" by (cases b) auto
  show "api_kind (P_Baggage x) = KIND_BAGGAGE" by simp
  show "api_kind b = KIND_BAGGAGE \<Longrightarrow> \<exists>x. b = P_Baggage x" by (cases b) (auto simp: kinds_distinct)
qed

interpretation hbb: handle_type api_kind KIND_BAGGAGE_BUILDER P_BaggageBuilder as_baggage_builder
proof
  fix b x
  show "as_baggage_builder b = Some x \<longleftrightarrow> b = P_BaggageBuilder x" by (cases b) auto
  show "api_kind (P_BaggageBuilder x) = KIND_BAGGAGE_BUILDER" by simp
  show "api_kind b = KIND_BAGGAGE_BUILDER \<Longrightarrow> \<exists>x. b = P_BaggageBuilder x"
    by (cases b) (auto simp: kinds_distinct)
qed

interpretation hlp: handle_type api_kind KIND_LOGGER_PROVIDER P_LoggerProvider as_logger_provider
proof
  fix b x
  show "as_logger_provider b = Some x \<longleftrightarrow> b = P_LoggerProvider x" by (cases b) auto
  show "api_kind (P_LoggerProvider x) = KIND_LOGGER_PROVIDER" by simp
  show "api_kind b = KIND_LOGGER_PROVIDER \<Longrightarrow> \<exists>x. b = P_LoggerProvider x"
    by (cases b) (auto simp: kinds_distinct)
qed

interpretation hl: handle_type api_kind KIND_LOGGER P_Logger as_logger
proof
  fix b x
  show "as_logger b = Some x \<longleftrightarrow> b = P_Logger x" by (cases b) auto
  show "api_kind (P_Logger x) = KIND_LOGGER" by simp
  show "api_kind b = KIND_LOGGER \<Longrightarrow> \<exists>x. b = P_Logger x" by (cases b) (auto simp: kinds_distinct)
qed

interpretation hmp: handle_type api_kind KIND_METER_PROVIDER P_MeterProvider as_meter_provider
proof
  fix b x
  show "as_meter_provider b = Some x \<longleftrightarrow> b = P_MeterProvider x" by (cases b) auto
  show "api_kind (P_MeterProvider x) = KIND_METER_PROVIDER" by simp
  show "api_kind b = KIND_METER_PROVIDER \<Longrightarrow> \<exists>x. b = P_MeterProvider x"
    by (cases b) (auto simp: kinds_distinct)
qed

interpretation hm: handle_type api_kind KIND_METER P_Meter as_meter
proof
  fix b x
  show "as_meter b = Some x \<longleftrightarrow> b = P_Meter x" by (cases b) auto
  show "api_kind (P_Meter x) = KIND_METER" by simp
  show "api_kind b = KIND_METER \<Longrightarrow> \<exists>x. b = P_Meter x"
    by (cases b) (auto simp: kinds_distinct)
qed

text \<open>One interpretation for the nine synchronous, the four bound and the seven observable
  instrument types.\<close>

interpretation hi: handle_type api_kind "sync_kind i" "P_Sync i" "as_sync i" for i
proof
  fix b x
  show "as_sync i b = Some x \<longleftrightarrow> b = P_Sync i x" by (cases b) auto
  show "api_kind (P_Sync i x) = sync_kind i" by simp
  show "api_kind b = sync_kind i \<Longrightarrow> \<exists>x. b = P_Sync i x"
    by (cases b) (auto simp: kinds_distinct)
qed

interpretation hbi: handle_type api_kind "bound_kind i" "P_Bound i" "as_bound i" for i
proof
  fix b x
  show "as_bound i b = Some x \<longleftrightarrow> b = P_Bound i x" by (cases b) auto
  show "api_kind (P_Bound i x) = bound_kind i" by simp
  show "api_kind b = bound_kind i \<Longrightarrow> \<exists>x. b = P_Bound i x"
    by (cases b) (auto simp: kinds_distinct)
qed

interpretation ho: handle_type api_kind "observable_kind i" "P_Observable i" "as_observable i" for i
proof
  fix b x
  show "as_observable i b = Some x \<longleftrightarrow> b = P_Observable i x" by (cases b) auto
  show "api_kind (P_Observable i x) = observable_kind i" by simp
  show "api_kind b = observable_kind i \<Longrightarrow> \<exists>x. b = P_Observable i x"
    by (cases b) (auto simp: kinds_distinct)
qed

section \<open>The initial store\<close>

text \<open>
  One allocation exists before any call: the process-wide no-op span, a static whose address is
  0 here. It is never written and never freed.
\<close>

definition noop_span_ptr :: ptr where
  "noop_span_ptr = Some 0"

definition noop_span :: span_body where
  "noop_span = \<lparr>bk_vtable = None, bk_ctx = None, sp_ended = False\<rparr>"

definition initial_objs :: "addr \<Rightarrow> api_payload handle option" where
  "initial_objs = (\<lambda>_. None)(0 := Some \<lparr>header = header_new KIND_SPAN, body = P_Span noop_span\<rparr>)"

abbreviation wf_api :: "(api_payload, 'm) store_scheme \<Rightarrow> bool" where
  "wf_api \<equiv> wf_store api_kind"

text \<open>The bare store, before any component extends it.\<close>

definition initial_store :: "api_payload store" where
  "initial_store = \<lparr>objs = initial_objs, next_addr = 1, last_error = None\<rparr>"

lemma wf_initial_store: "wf_api initial_store"
  by (auto simp: wf_store_def initial_store_def initial_objs_def)

section \<open>The invariant of every body\<close>

text \<open>
  What is true of each body in every reachable store: baggage and builders are within the two
  limits and hold distinct, non-empty, valid UTF-8 keys; a span context has a 16-byte trace id
  and an 8-byte span id, both non-zero, and a valid UTF-8 trace state; a context carries valid
  parts and no flag (the flags understood by this ABI revision are 0).
\<close>

definition MAX_BAGGAGE_ITEMS :: nat where "MAX_BAGGAGE_ITEMS = 64"
definition MAX_BAGGAGE_BYTES :: nat where "MAX_BAGGAGE_BYTES = 8192"
definition entry_bytes :: "baggage_entry \<Rightarrow> nat" where
  "entry_bytes e = length (be_key e) + length (be_value e) + length (be_metadata e)"

definition stored_bytes :: "baggage_entry list \<Rightarrow> nat" where
  "stored_bytes es = sum_list (map entry_bytes es)"

definition entry_ok :: "baggage_entry \<Rightarrow> bool" where
  "entry_ok e \<longleftrightarrow> be_key e \<noteq> [] \<and> valid_utf8 (be_key e) \<and> valid_utf8 (be_value e) \<and> valid_utf8 (be_metadata e)"

definition entries_ok :: "baggage_entry list \<Rightarrow> bool" where
  "entries_ok es \<longleftrightarrow> length es \<le> MAX_BAGGAGE_ITEMS \<and> stored_bytes es \<le> MAX_BAGGAGE_BYTES \<and>
     distinct (map be_key es) \<and> (\<forall>e \<in> set es. entry_ok e)"

definition zero_bytes :: "nat \<Rightarrow> bytes" where
  "zero_bytes n = replicate n 0"

definition span_context_ok :: "span_context_data \<Rightarrow> bool" where
  "span_context_ok c \<longleftrightarrow> length (sc_trace_id c) = 16 \<and> length (sc_span_id c) = 8 \<and>
     sc_trace_id c \<noteq> zero_bytes 16 \<and> sc_span_id c \<noteq> zero_bytes 8 \<and> valid_utf8 (sc_trace_state c)"

definition context_ok :: "context_data \<Rightarrow> bool" where
  "context_ok c \<longleftrightarrow> pred_option span_context_ok (cd_span_context c) \<and>
     pred_option entries_ok (cd_baggage c) \<and> cd_flags c = 0"

text \<open>A backed provider never holds a NULL vtable.\<close>

fun provider_ok :: "provider_inner \<Rightarrow> bool" where
  "provider_ok PI_Global = True"
| "provider_ok (PI_Backed vt ctx) = (vt \<noteq> None)"

fun payload_ok :: "api_payload \<Rightarrow> bool" where
  "payload_ok (P_SpanContext c) = span_context_ok c"
| "payload_ok (P_Context c) = context_ok c"
| "payload_ok (P_Baggage es) = entries_ok es"
| "payload_ok (P_BaggageBuilder es) = entries_ok es"
| "payload_ok (P_TracerProvider p) = provider_ok p"
| "payload_ok (P_LoggerProvider p) = provider_ok p"
| "payload_ok (P_MeterProvider p) = provider_ok p"
| "payload_ok _ = True"

definition api_inv :: "(api_payload, 'm) store_scheme \<Rightarrow> bool" where
  "api_inv s \<longleftrightarrow> wf_api s \<and> (\<forall>a h. objs s a = Some h \<longrightarrow> payload_ok (body h))"

lemma api_inv_wf: "api_inv s \<Longrightarrow> wf_api s"
  by (simp add: api_inv_def)

lemma api_inv_points_to: "api_inv s \<Longrightarrow> points_to s p b \<Longrightarrow> payload_ok b"
  by (auto simp: api_inv_def points_to_def split: option.splits)

lemma api_inv_cong: "objs s' = objs s \<Longrightarrow> next_addr s' = next_addr s \<Longrightarrow> api_inv s' = api_inv s"
  using wf_store_cong [of s' s api_kind] by (simp add: api_inv_def)

lemma api_inv_initial: "api_inv initial_store"
  by (auto simp: api_inv_def wf_initial_store) (auto simp: initial_store_def initial_objs_def split: if_splits)

lemma api_inv_error [simp]:
  "api_inv (set_error_text m s) = api_inv s"
  "api_inv (set_last_error m' s) = api_inv s"
  "api_inv (clear_last_error s) = api_inv s"
  "api_inv (snd (fail st m s)) = api_inv s"
  by (rule api_inv_cong; simp)+

lemma api_inv_into_raw:
  assumes "api_inv s" and "K = api_kind b" and "payload_ok b"
  shows "api_inv (snd (into_raw K b s))"
  using assms wf_store_into_raw [of api_kind s K b] by (auto simp: api_inv_def)

lemma api_inv_put:
  assumes "api_inv s" and "points_to s p b0" and "api_kind b0 = api_kind b" and "payload_ok b"
  shows "api_inv (put_ptr p b s)"
proof -
  obtain a h where a: "p = Some a" "objs s a = Some h" "body h = b0"
    using assms(2) by (auto simp: points_to_def split: option.splits)
  have "wf_api (put_body a b s)"
    using assms a by (intro wf_store_put_body) (auto simp: api_inv_def)
  with assms a show ?thesis by (auto simp: api_inv_def put_ptr_def objs_put_body)
qed

lemma api_inv_destroy: "api_inv s \<Longrightarrow> destroy K p s = Some s' \<Longrightarrow> api_inv s'"
  using wf_store_destroy [of api_kind s K p s']
  by (auto simp: api_inv_def destroy_def split: option.splits if_splits)

lemma api_inv_checked: "checked_as K proj p s = Some (r, s') \<Longrightarrow> api_inv s' = api_inv s"
  using checked_as_frame [of K proj p s r s'] by (intro api_inv_cong) auto

end
