(* ===== verification/Baggage.thy ===== *)
theory Baggage
  imports Api_Objects
begin

text \<open>
  Baggage handles (\<open>api/src/baggage.rs\<close>): the mutable builder, the immutable baggage it builds,
  lookup and traversal. A store-wide invariant says that every builder and every baggage holds
  at most 64 entries of at most 8192 stored bytes in total, with distinct, non-empty, valid
  UTF-8 keys; every operation keeps it. The abstract view of a list of entries is the map from
  key to value and metadata.
\<close>

section \<open>Constants and helpers\<close>

definition BAGGAGE_ENTRY_VIEW_V1_SIZE :: usize where "BAGGAGE_ENTRY_VIEW_V1_SIZE = 56"

definition view_shape_is_valid :: "otel_string_view \<Rightarrow> bool" where
  "view_shape_is_valid v \<longleftrightarrow> sv_len v = 0 \<or> sv_ptr v \<noteq> None"

text \<open>\<open>str_from_view\<close> borrows; \<open>string_from_view\<close> copies, so it can also fail to allocate. The
  error carries the status and the message that the caller records.\<close>

definition str_from_view :: "otel_string_view \<Rightarrow> string \<Rightarrow> (otel_status \<times> string) + bytes" where
  "str_from_view v field =
     (if sv_len v \<noteq> 0 \<and> sv_ptr v = None then Inl (St_InvalidArgument, field)
      else (let bs = (if sv_len v = 0 then [] else take (unat (sv_len v)) (the (sv_ptr v)))
            in if valid_utf8 bs then Inr bs else Inl (St_InvalidUtf8, field)))"

definition string_from_view ::
  "(nat \<Rightarrow> bool) \<Rightarrow> otel_string_view \<Rightarrow> string \<Rightarrow> (otel_status \<times> string) + bytes" where
  "string_from_view al v field =
     (case str_from_view v field of
        Inl e \<Rightarrow> Inl e
      | Inr text \<Rightarrow>
          if al (length text) then Inr text
          else Inl (St_InternalError, ''baggage allocation failed''))"

definition validate_bounds :: "baggage_entry list \<Rightarrow> (otel_status \<times> string) + unit" where
  "validate_bounds es =
     (if length es > MAX_BAGGAGE_ITEMS then Inl (St_InvalidConfig, ''baggage exceeds 64 entries'')
      else if stored_bytes es > MAX_BAGGAGE_BYTES
      then Inl (St_InvalidConfig, ''baggage stored data exceeds 8192 bytes'')
      else Inr ())"

section \<open>The builder\<close>

definition otel_baggage_builder_create ::
  "(api_payload, 'm) store_scheme \<Rightarrow> ptr \<times> (api_payload, 'm) store_scheme" where
  "otel_baggage_builder_create s =
     into_raw KIND_BAGGAGE_BUILDER (P_BaggageBuilder []) (clear_last_error s)"

text \<open>The part of \<open>otel_baggage_builder_set\<close> after the three views are read: replace or append
  one entry under the two limits.\<close>

definition builder_store_entry ::
  "(nat \<Rightarrow> bool) \<Rightarrow> baggage_entry list \<Rightarrow> baggage_entry \<Rightarrow> (otel_status \<times> string) + baggage_entry list" where
  "builder_store_entry al es replacement =
     (let old = position (\<lambda>e. be_key e = be_key replacement) es;
          projected = stored_bytes es
            - (case old of None \<Rightarrow> 0 | Some i \<Rightarrow> entry_bytes (es ! i))
            + entry_bytes replacement
      in if projected > MAX_BAGGAGE_BYTES
         then Inl (St_InvalidConfig, ''baggage stored data exceeds 8192 bytes'')
         else if old = None \<and> length es = MAX_BAGGAGE_ITEMS
         then Inl (St_InvalidConfig, ''baggage exceeds 64 entries'')
         else (case old of
                 Some i \<Rightarrow> Inr (es[i := replacement])
               | None \<Rightarrow>
                   if \<not> al 1 then Inl (St_InternalError, ''baggage allocation failed'')
                   else Inr (es @ [replacement])))"

text \<open>The whole decision of \<open>set\<close> on the entries of the builder: the shape and size of the
  inputs, the three strings in order, then the entry.\<close>

definition builder_set_entries ::
  "(nat \<Rightarrow> bool) \<Rightarrow> otel_string_view \<Rightarrow> otel_string_view \<Rightarrow> otel_string_view \<Rightarrow> baggage_entry list
     \<Rightarrow> (otel_status \<times> string) + baggage_entry list" where
  "builder_set_entries al key value metadata es =
     (if \<not> view_shape_is_valid key \<or> \<not> view_shape_is_valid value \<or> \<not> view_shape_is_valid metadata
      then Inl (St_InvalidArgument, ''baggage input has a NULL pointer with non-zero length'')
      else if unat (saturating_add (saturating_add (sv_len key) (sv_len value)) (sv_len metadata))
                > MAX_BAGGAGE_BYTES
      then Inl (St_InvalidConfig, ''baggage entry exceeds the 8192-byte storage limit'')
      else (case string_from_view al key ''baggage key is invalid UTF-8'' of
              Inl e \<Rightarrow> Inl e
            | Inr k \<Rightarrow>
                if k = [] then Inl (St_InvalidArgument, ''baggage key is empty'')
                else (case string_from_view al value ''baggage value is invalid UTF-8'' of
                        Inl e \<Rightarrow> Inl e
                      | Inr v \<Rightarrow>
                          (case string_from_view al metadata ''baggage metadata is invalid UTF-8'' of
                             Inl e \<Rightarrow> Inl e
                           | Inr m \<Rightarrow>
                               builder_store_entry al es
                                 \<lparr>be_key = k, be_value = v, be_metadata = m\<rparr>))))"

definition otel_baggage_builder_set ::
  "(nat \<Rightarrow> bool) \<Rightarrow> ptr \<Rightarrow> otel_string_view \<Rightarrow> otel_string_view \<Rightarrow> otel_string_view
     \<Rightarrow> (api_payload, 'm) store_scheme \<Rightarrow> (otel_status \<times> (api_payload, 'm) store_scheme) option" where
  "otel_baggage_builder_set al builder key value metadata s =
     (case checked_as KIND_BAGGAGE_BUILDER as_baggage_builder builder (clear_last_error s) of
        None \<Rightarrow> None
      | Some (None, s1) \<Rightarrow> Some (St_InvalidArgument, s1)
      | Some (Some es, s1) \<Rightarrow>
          (case builder_set_entries al key value metadata es of
             Inl (st, msg) \<Rightarrow> Some (fail st msg s1)
           | Inr es' \<Rightarrow> Some (St_Ok, put_ptr builder (P_BaggageBuilder es') s1)))"

definition builder_remove_key :: "baggage_entry list \<Rightarrow> bytes \<Rightarrow> baggage_entry list" where
  "builder_remove_key es k =
     (case position (\<lambda>e. be_key e = k) es of None \<Rightarrow> es | Some i \<Rightarrow> remove_at i es)"

definition otel_baggage_builder_remove ::
  "(nat \<Rightarrow> bool) \<Rightarrow> ptr \<Rightarrow> otel_string_view
     \<Rightarrow> (api_payload, 'm) store_scheme \<Rightarrow> (otel_status \<times> (api_payload, 'm) store_scheme) option" where
  "otel_baggage_builder_remove al builder key s =
     (case checked_as KIND_BAGGAGE_BUILDER as_baggage_builder builder (clear_last_error s) of
        None \<Rightarrow> None
      | Some (None, s1) \<Rightarrow> Some (St_InvalidArgument, s1)
      | Some (Some es, s1) \<Rightarrow>
          (case string_from_view al key ''baggage key is invalid UTF-8'' of
             Inl (st, msg) \<Rightarrow> Some (fail st msg s1)
           | Inr k \<Rightarrow> Some (St_Ok, put_ptr builder (P_BaggageBuilder (builder_remove_key es k)) s1)))"

definition new_baggage ::
  "baggage_entry list \<Rightarrow> (api_payload, 'm) store_scheme \<Rightarrow> ptr \<times> (api_payload, 'm) store_scheme" where
  "new_baggage es s = into_raw KIND_BAGGAGE (P_Baggage es) s"

text \<open>An output handle argument: the flag says whether the out pointer is NULL; the second
  component of the result is what was written through it (\<open>None\<close>: nothing was written, \<open>Some None\<close>: NULL).\<close>

definition otel_baggage_builder_build ::
  "(nat \<Rightarrow> bool) \<Rightarrow> ptr \<Rightarrow> bool
     \<Rightarrow> (api_payload, 'm) store_scheme \<Rightarrow> (otel_status \<times> ptr option \<times> (api_payload, 'm) store_scheme) option" where
  "otel_baggage_builder_build al builder out_null s =
     (let s0 = clear_last_error s in
      if out_null then
        Some (fail_out St_InvalidArgument ''baggage output is NULL'' None s0)
      else
        (case checked_as KIND_BAGGAGE_BUILDER as_baggage_builder builder s0 of
           None \<Rightarrow> None
         | Some (None, s1) \<Rightarrow> Some (St_InvalidArgument, Some None, s1)
         | Some (Some es, s1) \<Rightarrow>
             (case validate_bounds es of
                Inl (st, msg) \<Rightarrow> Some (fail_out st msg (Some None) s1)
              | Inr _ \<Rightarrow>
                  if \<not> al (length es) then
                    Some (fail_out St_InternalError ''baggage allocation failed'' (Some None) s1)
                  else Some (St_Ok, Some (fst (new_baggage es s1)), snd (new_baggage es s1)))))"

definition otel_baggage_builder_destroy ::
  "ptr \<Rightarrow> (api_payload, 'm) store_scheme \<Rightarrow> (api_payload, 'm) store_scheme option" where
  "otel_baggage_builder_destroy builder s = destroy KIND_BAGGAGE_BUILDER builder s"

section \<open>Baggage\<close>

definition otel_baggage_clone ::
  "ptr \<Rightarrow> (api_payload, 'm) store_scheme \<Rightarrow> (ptr \<times> (api_payload, 'm) store_scheme) option" where
  "otel_baggage_clone baggage s =
     (case checked_as KIND_BAGGAGE as_baggage baggage (clear_last_error s) of
        None \<Rightarrow> None
      | Some (None, s1) \<Rightarrow> Some (None, s1)
      | Some (Some es, s1) \<Rightarrow> Some (new_baggage es s1))"

definition otel_baggage_destroy ::
  "ptr \<Rightarrow> (api_payload, 'm) store_scheme \<Rightarrow> (api_payload, 'm) store_scheme option" where
  "otel_baggage_destroy baggage s = destroy KIND_BAGGAGE baggage s"

definition otel_baggage_count ::
  "ptr \<Rightarrow> (api_payload, 'm) store_scheme \<Rightarrow> (nat \<times> (api_payload, 'm) store_scheme) option" where
  "otel_baggage_count baggage s =
     (case checked_as KIND_BAGGAGE as_baggage baggage (clear_last_error s) of
        None \<Rightarrow> None
      | Some (None, s1) \<Rightarrow> Some (0, s1)
      | Some (Some es, s1) \<Rightarrow> Some (length es, s1))"

text \<open>The output structure of \<open>otel_baggage_get\<close>: NULL, or the \<open>struct_size\<close> the caller stored in
  it. The second component of the result is the entry whose view was written.\<close>

definition otel_baggage_get ::
  "(nat \<Rightarrow> bool) \<Rightarrow> ptr \<Rightarrow> otel_string_view \<Rightarrow> usize option
     \<Rightarrow> (api_payload, 'm) store_scheme \<Rightarrow> (u32 \<times> baggage_entry option \<times> (api_payload, 'm) store_scheme) option" where
  "otel_baggage_get al baggage key out s =
     (let s0 = clear_last_error s in
      case out of
        None \<Rightarrow> Some (0, None, set_error_text ''baggage entry output is NULL'' s0)
      | Some out_size \<Rightarrow>
          if out_size < BAGGAGE_ENTRY_VIEW_V1_SIZE
          then Some (0, None, set_error_text ''baggage entry output struct_size is too small'' s0)
          else
            (case checked_as KIND_BAGGAGE as_baggage baggage s0 of
               None \<Rightarrow> None
             | Some (None, s1) \<Rightarrow> Some (0, None, s1)
             | Some (Some es, s1) \<Rightarrow>
                 (case string_from_view al key ''baggage key is invalid UTF-8'' of
                    Inl (st, msg) \<Rightarrow> Some (0, None, set_error_text msg s1)
                  | Inr k \<Rightarrow>
                      (case find (\<lambda>e. be_key e = k) es of
                         None \<Rightarrow> Some (0, None, s1)
                       | Some e \<Rightarrow> Some (1, Some e, s1)))))"

text \<open>The visitor is a C callback over the user data; it sees the entries in order and stops the
  traversal with a status other than Ok.\<close>

fun visit_entries :: "('u \<Rightarrow> baggage_entry \<Rightarrow> otel_status \<times> 'u) \<Rightarrow> baggage_entry list \<Rightarrow> 'u \<Rightarrow> otel_status \<times> 'u" where
  "visit_entries visitor [] u = (St_Ok, u)"
| "visit_entries visitor (e # es) u =
     (let (st, u') = visitor u e in if st \<noteq> St_Ok then (st, u') else visit_entries visitor es u')"

definition otel_baggage_visit ::
  "ptr \<Rightarrow> ('u \<Rightarrow> baggage_entry \<Rightarrow> otel_status \<times> 'u) option \<Rightarrow> 'u
     \<Rightarrow> (api_payload, 'm) store_scheme \<Rightarrow> (otel_status \<times> 'u \<times> (api_payload, 'm) store_scheme) option" where
  "otel_baggage_visit baggage visitor u s =
     (case checked_as KIND_BAGGAGE as_baggage baggage (clear_last_error s) of
        None \<Rightarrow> None
      | Some (None, s1) \<Rightarrow> Some (St_InvalidArgument, u, s1)
      | Some (Some es, s1) \<Rightarrow>
          (case visitor of
             None \<Rightarrow> Some (fail_out St_InvalidArgument ''baggage visitor is NULL'' u s1)
           | Some f \<Rightarrow> Some (fst (visit_entries f es u), snd (visit_entries f es u), s1)))"

section \<open>Entries: limits and the abstract map\<close>

text \<open>The abstract content of a baggage: what each key is bound to.\<close>

definition baggage_map :: "baggage_entry list \<Rightarrow> bytes \<Rightarrow> (bytes \<times> bytes) option" where
  "baggage_map es k = map_option (\<lambda>e. (be_value e, be_metadata e)) (find (\<lambda>e. be_key e = k) es)"

lemma stored_bytes_simps [simp]:
  "stored_bytes [] = 0" "stored_bytes (e # es) = entry_bytes e + stored_bytes es"
  "stored_bytes (es @ fs) = stored_bytes es + stored_bytes fs"
  by (simp_all add: stored_bytes_def)

lemma entry_bytes_le_stored: "e \<in> set es \<Longrightarrow> entry_bytes e \<le> stored_bytes es"
  unfolding stored_bytes_def by (rule member_le_sum_list_map)

lemma builder_store_entry_Inr:
  assumes "builder_store_entry al es r = Inr es'"
  shows "es' = upsert be_key r es" and "stored_bytes es' \<le> MAX_BAGGAGE_BYTES"
    and "length es \<le> MAX_BAGGAGE_ITEMS \<Longrightarrow> length es' \<le> MAX_BAGGAGE_ITEMS"
proof -
  let ?old = "position (\<lambda>e. be_key e = be_key r) es"
  have "es' = upsert be_key r es \<and> stored_bytes es' \<le> MAX_BAGGAGE_BYTES \<and>
      (length es \<le> MAX_BAGGAGE_ITEMS \<longrightarrow> length es' \<le> MAX_BAGGAGE_ITEMS)"
  proof (cases ?old)
    case None
    with assms show ?thesis
      by (auto simp: builder_store_entry_def upsert_def Let_def split: if_splits)
  next
    case (Some i)
    from position_SomeD [OF Some] have i: "i < length es" by simp
    from assms Some have "es' = es[i := r]"
        "stored_bytes es - entry_bytes (es ! i) + entry_bytes r \<le> MAX_BAGGAGE_BYTES"
      by (auto simp: builder_store_entry_def Let_def split: if_splits)
    moreover have "entry_bytes (es ! i) \<le> stored_bytes es"
      using i by (intro entry_bytes_le_stored) simp
    ultimately show ?thesis
      using sum_list_update_nat [OF i, of entry_bytes r] Some
      by (simp add: upsert_def stored_bytes_def)
  qed
  then show "es' = upsert be_key r es" "stored_bytes es' \<le> MAX_BAGGAGE_BYTES"
    "length es \<le> MAX_BAGGAGE_ITEMS \<Longrightarrow> length es' \<le> MAX_BAGGAGE_ITEMS" by auto
qed

lemma string_from_view_InrD: "string_from_view al v f = Inr t \<Longrightarrow> valid_utf8 t"
  by (auto simp: string_from_view_def str_from_view_def Let_def split: sum.splits if_splits)

lemma builder_set_entries_InrD:
  assumes "builder_set_entries al key value metadata es = Inr es'"
  obtains k v m where
      "string_from_view al key ''baggage key is invalid UTF-8'' = Inr k"
      "string_from_view al value ''baggage value is invalid UTF-8'' = Inr v"
      "string_from_view al metadata ''baggage metadata is invalid UTF-8'' = Inr m"
      "k \<noteq> []"
      "builder_store_entry al es \<lparr>be_key = k, be_value = v, be_metadata = m\<rparr> = Inr es'"
  using assms by (auto simp: builder_set_entries_def split: if_splits sum.splits)

lemma builder_set_entries_ok:
  assumes "entries_ok es" and "builder_set_entries al key value metadata es = Inr es'"
  shows "entries_ok es'"
proof -
  from assms(2) obtain k v m where f:
      "string_from_view al key ''baggage key is invalid UTF-8'' = Inr k"
      "string_from_view al value ''baggage value is invalid UTF-8'' = Inr v"
      "string_from_view al metadata ''baggage metadata is invalid UTF-8'' = Inr m" "k \<noteq> []"
      "builder_store_entry al es \<lparr>be_key = k, be_value = v, be_metadata = m\<rparr> = Inr es'"
    by (rule builder_set_entries_InrD)
  let ?r = "\<lparr>be_key = k, be_value = v, be_metadata = m\<rparr>"
  have "entry_ok ?r" using f by (auto simp: entry_ok_def dest: string_from_view_InrD)
  moreover have es': "es' = upsert be_key ?r es" by (rule builder_store_entry_Inr(1) [OF f(5)])
  ultimately have "\<forall>e \<in> set es'. entry_ok e"
    using assms(1) set_upsert_subset [of be_key ?r es] by (auto simp: entries_ok_def)
  then show ?thesis
    using assms(1) es' builder_store_entry_Inr(2,3) [OF f(5)]
    by (auto simp: entries_ok_def intro: distinct_upsert)
qed

lemma set_remove_at: "set (remove_at i es) \<subseteq> set es"
  by (auto simp: remove_at_def dest: in_set_takeD in_set_dropD)

lemma distinct_remove_at: "distinct (map f es) \<Longrightarrow> distinct (map f (remove_at i es))"
proof -
  assume d: "distinct (map f es)"
  have "map f (remove_at i es) = take i (map f es) @ drop (Suc i) (map f es)"
    by (simp add: remove_at_def take_map drop_map)
  with d show ?thesis
    using set_take_disj_set_drop_if_distinct [OF d, of i "Suc i"]
    by (simp add: distinct_take distinct_drop del: set_map)
qed

lemma builder_remove_key_ok:
  assumes "entries_ok es"
  shows "entries_ok (builder_remove_key es k)"
proof (cases "position (\<lambda>e. be_key e = k) es")
  case None
  with assms show ?thesis by (simp add: builder_remove_key_def)
next
  case (Some i)
  from position_SomeD [OF Some] have i: "i < length es" by simp
  have "stored_bytes (remove_at i es) \<le> stored_bytes es"
    using sum_list_remove_at [OF i, of entry_bytes] by (simp add: stored_bytes_def)
  with assms i Some set_remove_at [of i es] show ?thesis
    by (auto simp: builder_remove_key_def entries_ok_def length_remove_at intro: distinct_remove_at)
qed

lemma baggage_map_upsert:
  "baggage_map (upsert be_key e es) = (baggage_map es)(be_key e := Some (be_value e, be_metadata e))"
  by (rule ext) (auto simp: baggage_map_def find_upsert_same find_upsert_other)

lemma baggage_map_remove:
  assumes "distinct (map be_key es)"
  shows "baggage_map (builder_remove_key es k) = (baggage_map es)(k := None)"
proof (cases "position (\<lambda>e. be_key e = k) es")
  case None
  then have "find (\<lambda>e. be_key e = k) es = None" by (simp add: find_position)
  with None show ?thesis by (auto simp: builder_remove_key_def baggage_map_def)
next
  case (Some i)
  from position_SomeD [OF Some] have i: "i < length es" "be_key (es ! i) = k" by auto
  have split: "es = take i es @ es ! i # drop (Suc i) es" using i(1) by (rule id_take_nth_drop)
  have "distinct (map be_key (take i es @ es ! i # drop (Suc i) es))" using assms split by simp
  then have nk: "\<forall>e \<in> set (take i es @ drop (Suc i) es). be_key e \<noteq> k"
    using i(2) by (auto simp: image_iff)
  have "find (\<lambda>e. be_key e = j) (take i es @ drop (Suc i) es) = find (\<lambda>e. be_key e = j) es"
    if "j \<noteq> k" for j
  proof -
    have "find P (xs @ x # ys) = find P (xs @ ys)" if "\<not> P x" for P and x :: baggage_entry and xs ys
      using that by (induction xs) auto
    from this [of "\<lambda>e. be_key e = j" "es ! i" "take i es" "drop (Suc i) es"] show ?thesis
      using that i(2) split by auto
  qed
  moreover have "find (\<lambda>e. be_key e = k) (take i es @ drop (Suc i) es) = None"
    using nk by (auto simp: find_None_iff)
  ultimately show ?thesis
    using Some by (auto simp: builder_remove_key_def baggage_map_def remove_at_def)
qed

section \<open>Every operation keeps the invariant\<close>

lemma builder_create_inv: "api_inv s \<Longrightarrow> api_inv (snd (otel_baggage_builder_create s))"
  unfolding otel_baggage_builder_create_def
  by (rule api_inv_into_raw) (simp_all add: entries_ok_def)

lemma builder_set_inv:
  assumes "api_inv s" and "otel_baggage_builder_set al p key value metadata s = Some (st, s')"
  shows "api_inv s'"
proof -
  obtain r s1 where c: "checked_as KIND_BAGGAGE_BUILDER as_baggage_builder p (clear_last_error s) = Some (r, s1)"
    using assms(2) by (auto simp: otel_baggage_builder_set_def split: option.splits prod.splits)
  have inv: "api_inv s1" using api_inv_checked [OF c] assms(1) by simp
  show ?thesis
  proof (cases r)
    case None
    with c assms(2) inv show ?thesis by (simp add: otel_baggage_builder_set_def)
  next
    case (Some es)
    with c have pt: "points_to s1 p (P_BaggageBuilder es)" by (auto dest: hbb.checked_as_SomeD)
    with inv have ok: "entries_ok es" using api_inv_points_to by fastforce
    show ?thesis
    proof (cases "builder_set_entries al key value metadata es")
      case (Inl e)
      with c Some assms(2) inv show ?thesis
        by (cases e) (auto simp: otel_baggage_builder_set_def fail_def)
    next
      case (Inr es')
      then have "api_inv (put_ptr p (P_BaggageBuilder es') s1)"
        using builder_set_entries_ok [OF ok Inr] by (intro api_inv_put [OF inv pt]) auto
      with c Some Inr assms(2) show ?thesis by (auto simp: otel_baggage_builder_set_def)
    qed
  qed
qed

lemma builder_remove_inv:
  assumes "api_inv s" and "otel_baggage_builder_remove al p key s = Some (st, s')"
  shows "api_inv s'"
proof -
  obtain r s1 where c: "checked_as KIND_BAGGAGE_BUILDER as_baggage_builder p (clear_last_error s) = Some (r, s1)"
    using assms(2) by (auto simp: otel_baggage_builder_remove_def split: option.splits prod.splits)
  have inv: "api_inv s1" using api_inv_checked [OF c] assms(1) by simp
  show ?thesis
  proof (cases r)
    case None
    with c assms(2) inv show ?thesis by (simp add: otel_baggage_builder_remove_def)
  next
    case (Some es)
    with c have pt: "points_to s1 p (P_BaggageBuilder es)" by (auto dest: hbb.checked_as_SomeD)
    with inv have ok: "entries_ok es" using api_inv_points_to by fastforce
    have "api_inv (put_ptr p (P_BaggageBuilder (builder_remove_key es k)) s1)" for k
      using builder_remove_key_ok [OF ok] by (intro api_inv_put [OF inv pt]) auto
    with c Some assms(2) inv show ?thesis
      by (auto simp: otel_baggage_builder_remove_def fail_def split: sum.splits)
  qed
qed

lemma new_baggage_inv: "api_inv s \<Longrightarrow> entries_ok es \<Longrightarrow> api_inv (snd (new_baggage es s))"
  unfolding new_baggage_def by (rule api_inv_into_raw) auto

lemma builder_build_inv:
  assumes "api_inv s" and "otel_baggage_builder_build al p out_null s = Some (st, out, s')"
  shows "api_inv s'"
proof (cases out_null)
  case True
  with assms show ?thesis by (auto simp: otel_baggage_builder_build_def fail_out_def)
next
  case False
  then obtain r s1 where c: "checked_as KIND_BAGGAGE_BUILDER as_baggage_builder p (clear_last_error s) = Some (r, s1)"
    using assms(2) by (auto simp: otel_baggage_builder_build_def Let_def split: option.splits prod.splits)
  have inv: "api_inv s1" using api_inv_checked [OF c] assms(1) by simp
  show ?thesis
  proof (cases r)
    case None
    with c assms(2) inv False show ?thesis by (simp add: otel_baggage_builder_build_def Let_def)
  next
    case (Some es)
    with c have "points_to s1 p (P_BaggageBuilder es)" by (auto dest: hbb.checked_as_SomeD)
    with inv have "entries_ok es" using api_inv_points_to by fastforce
    from new_baggage_inv [OF inv this] c Some assms(2) inv False show ?thesis
      by (auto simp: otel_baggage_builder_build_def Let_def fail_out_def split: sum.splits if_splits)
  qed
qed

lemma baggage_clone_inv:
  assumes "api_inv s" and "otel_baggage_clone p s = Some (q, s')"
  shows "api_inv s'"
proof -
  obtain r s1 where c: "checked_as KIND_BAGGAGE as_baggage p (clear_last_error s) = Some (r, s1)"
    using assms(2) by (auto simp: otel_baggage_clone_def split: option.splits prod.splits)
  have inv: "api_inv s1" using api_inv_checked [OF c] assms(1) by simp
  show ?thesis
  proof (cases r)
    case None
    with c assms(2) inv show ?thesis by (simp add: otel_baggage_clone_def)
  next
    case (Some es)
    with c have "points_to s1 p (P_Baggage es)" by (auto dest: hb.checked_as_SomeD)
    with inv have "entries_ok es" using api_inv_points_to by fastforce
    from new_baggage_inv [OF inv this] c Some assms(2) show ?thesis
      by (auto simp: otel_baggage_clone_def prod_eq_iff)
  qed
qed

text \<open>With NULL or live pointers every operation is defined.\<close>

lemma builder_set_defined:
  "api_inv s \<Longrightarrow> valid_ptr s p \<Longrightarrow> otel_baggage_builder_set al p key value metadata s \<noteq> None"
  using hbb.checked_defined [of "clear_last_error s" p]
  by (auto simp: otel_baggage_builder_set_def api_inv_wf split: option.splits sum.splits)

lemma builder_remove_defined:
  "api_inv s \<Longrightarrow> valid_ptr s p \<Longrightarrow> otel_baggage_builder_remove al p key s \<noteq> None"
  using hbb.checked_defined [of "clear_last_error s" p]
  by (auto simp: otel_baggage_builder_remove_def api_inv_wf split: option.splits sum.splits)

lemma builder_build_defined:
  "api_inv s \<Longrightarrow> valid_ptr s p \<Longrightarrow> otel_baggage_builder_build al p out_null s \<noteq> None"
  using hbb.checked_defined [of "clear_last_error s" p]
  by (cases out_null)
    (auto simp: otel_baggage_builder_build_def api_inv_wf Let_def fail_out_def split: option.splits sum.splits)

lemma baggage_clone_defined:
  "api_inv s \<Longrightarrow> valid_ptr s p \<Longrightarrow> otel_baggage_clone p s \<noteq> None"
  using hb.checked_defined [of "clear_last_error s" p]
  by (auto simp: otel_baggage_clone_def api_inv_wf split: option.splits)

lemma baggage_get_defined:
  "api_inv s \<Longrightarrow> valid_ptr s p \<Longrightarrow> otel_baggage_get al p key out s \<noteq> None"
  using hb.checked_defined [of "clear_last_error s" p]
  by (auto simp: otel_baggage_get_def api_inv_wf Let_def split: option.splits sum.splits)

section \<open>Running the operations on live handles\<close>

lemma builder_set_run:
  assumes "api_inv s" and "points_to s p (P_BaggageBuilder es)"
  shows "otel_baggage_builder_set al p key value metadata s =
     (case builder_set_entries al key value metadata es of
        Inl (st, msg) \<Rightarrow> Some (fail st msg (clear_last_error s))
      | Inr es' \<Rightarrow> Some (St_Ok, put_ptr p (P_BaggageBuilder es') (clear_last_error s)))"
  using hbb.checked_as_points_to [of "clear_last_error s" p es] assms
  by (simp add: otel_baggage_builder_set_def api_inv_wf split: sum.splits)

lemma builder_build_run:
  assumes "api_inv s" and "points_to s p (P_BaggageBuilder es)" and "al (length es)"
  shows "otel_baggage_builder_build al p False s =
     Some (St_Ok, Some (Some (next_addr s)), snd (new_baggage es (clear_last_error s)))"
proof -
  have "entries_ok es" using api_inv_points_to [OF assms(1,2)] by simp
  then have "validate_bounds es = Inr ()" by (simp add: validate_bounds_def entries_ok_def)
  then show ?thesis
    using hbb.checked_as_points_to [of "clear_last_error s" p es] assms
    by (simp add: otel_baggage_builder_build_def api_inv_wf new_baggage_def)
qed

lemma baggage_get_run:
  assumes "api_inv s" and "points_to s p (P_Baggage es)" and "BAGGAGE_ENTRY_VIEW_V1_SIZE \<le> sz"
    and "string_from_view al key ''baggage key is invalid UTF-8'' = Inr k"
  shows "otel_baggage_get al p key (Some sz) s =
     (case find (\<lambda>e. be_key e = k) es of
        None \<Rightarrow> Some (0, None, clear_last_error s)
      | Some e \<Rightarrow> Some (1, Some e, clear_last_error s))"
  using hb.checked_as_points_to [of "clear_last_error s" p es] assms
  by (simp add: otel_baggage_get_def api_inv_wf Let_def leD)

text \<open>Reading the view of an owned string gives the string back.\<close>

lemma string_from_view_sv_of:
  assumes "valid_utf8 t" and "length t \<le> isize_max"
  shows "string_from_view al (sv_of t) f =
     (if al (length t) then Inr t else Inl (St_InternalError, ''baggage allocation failed''))"
proof -
  have n: "unat (word_of_nat (length t) :: usize) = length t"
    using assms(2) by (intro unat_word_of_nat64) (simp add: isize_max_def)
  then have "(word_of_nat (length t) :: usize) = 0 \<longleftrightarrow> t = []"
    by (metis length_0_conv unat_eq_zero)
  with n assms(1) show ?thesis
    by (auto simp: string_from_view_def str_from_view_def sv_of_def)
qed

lemma string_from_view_sv_of_invalid:
  assumes "\<not> valid_utf8 t" and "length t \<le> isize_max"
  shows "string_from_view al (sv_of t) f = Inl (St_InvalidUtf8, f)"
proof -
  have n: "unat (word_of_nat (length t) :: usize) = length t"
    using assms(2) by (intro unat_word_of_nat64) (simp add: isize_max_def)
  then have "(word_of_nat (length t) :: usize) = 0 \<longleftrightarrow> t = []"
    by (metis length_0_conv unat_eq_zero)
  with n assms(1) show ?thesis
    by (auto simp: string_from_view_def str_from_view_def sv_of_def)
qed

text \<open>The decision of \<open>set\<close> on three owned strings, when every allocation succeeds.\<close>

lemma builder_store_entry_Inr_iff:
  "(\<exists>es'. builder_store_entry (\<lambda>_. True) es r = Inr es') \<longleftrightarrow>
     stored_bytes (upsert be_key r es) \<le> MAX_BAGGAGE_BYTES \<and>
     (length es \<noteq> MAX_BAGGAGE_ITEMS \<or> be_key r \<in> be_key ` set es)"
proof (cases "position (\<lambda>e. be_key e = be_key r) es")
  case None
  then have "be_key r \<notin> be_key ` set es" by (auto simp: position_None_iff image_iff)
  with None show ?thesis
    by (auto simp: builder_store_entry_def upsert_def Let_def)
next
  case (Some i)
  from position_SomeD [OF Some] have i: "i < length es" "be_key (es ! i) = be_key r" by auto
  then have "be_key r \<in> be_key ` set es" by (metis imageI nth_mem)
  moreover have "entry_bytes (es ! i) \<le> stored_bytes es" using i by (intro entry_bytes_le_stored) simp
  then have "stored_bytes es - entry_bytes (es ! i) + entry_bytes r = stored_bytes (es[i := r])"
    using sum_list_update_nat [OF i(1), of entry_bytes r] by (simp add: stored_bytes_def)
  ultimately show ?thesis
    using Some by (auto simp: builder_store_entry_def upsert_def Let_def)
qed

lemma input_bytes_sum:
  assumes "length k + length v + length m \<le> isize_max"
  shows "unat (saturating_add (saturating_add (word_of_nat (length k)) (word_of_nat (length v)))
            (word_of_nat (length m))) = length k + length v + length m"
  using assms by (simp add: unat_saturating_add unat_word_of_nat64 isize_max_def)

lemma stored_bytes_upsert_ge: "entry_bytes r \<le> stored_bytes (upsert be_key r es)"
  by (rule entry_bytes_le_stored [OF mem_upsert])

lemma builder_set_entries_run:
  assumes "length k + length v + length m \<le> MAX_BAGGAGE_BYTES" and "k \<noteq> []"
    and "valid_utf8 k" and "valid_utf8 v" and "valid_utf8 m"
  shows "builder_set_entries (\<lambda>_. True) (sv_of k) (sv_of v) (sv_of m) es =
     builder_store_entry (\<lambda>_. True) es \<lparr>be_key = k, be_value = v, be_metadata = m\<rparr>"
proof -
  have le: "length k + length v + length m \<le> isize_max"
    using assms(1) by (simp add: MAX_BAGGAGE_BYTES_def isize_max_def)
  have "view_shape_is_valid (sv_of t)" for t by (simp add: view_shape_is_valid_def sv_of_def)
  then show ?thesis
    using assms le input_bytes_sum [OF le]
    by (simp add: builder_set_entries_def string_from_view_sv_of)
      (simp add: sv_of_def)
qed

lemma builder_set_entries_Inr_iff:
  assumes "length k + length v + length m \<le> isize_max"
  shows "(\<exists>es'. builder_set_entries (\<lambda>_. True) (sv_of k) (sv_of v) (sv_of m) es = Inr es') \<longleftrightarrow>
     k \<noteq> [] \<and> valid_utf8 k \<and> valid_utf8 v \<and> valid_utf8 m \<and>
     stored_bytes (upsert be_key \<lparr>be_key = k, be_value = v, be_metadata = m\<rparr> es) \<le> MAX_BAGGAGE_BYTES \<and>
     (length es \<noteq> MAX_BAGGAGE_ITEMS \<or> k \<in> be_key ` set es)"
  (is "?L \<longleftrightarrow> ?R")
proof -
  let ?r = "\<lparr>be_key = k, be_value = v, be_metadata = m\<rparr>"
  have len: "length k \<le> isize_max" "length v \<le> isize_max" "length m \<le> isize_max"
    using assms by auto
  have shape: "view_shape_is_valid (sv_of t)" for t by (simp add: view_shape_is_valid_def sv_of_def)
  have sz: "unat (saturating_add (saturating_add (sv_len (sv_of k)) (sv_len (sv_of v))) (sv_len (sv_of m)))
      = entry_bytes ?r"
    using input_bytes_sum [OF assms] by (simp add: sv_of_def entry_bytes_def)
  note st = builder_store_entry_Inr_iff [of es ?r]
  have big: "entry_bytes ?r > MAX_BAGGAGE_BYTES \<Longrightarrow> stored_bytes (upsert be_key ?r es) > MAX_BAGGAGE_BYTES"
    using stored_bytes_upsert_ge [of ?r es] by simp
  show ?thesis
  proof (cases "valid_utf8 k \<and> valid_utf8 v \<and> valid_utf8 m")
    case True
    then show ?thesis
      using st big len
      by (auto simp: builder_set_entries_def shape sz string_from_view_sv_of split: if_splits)
  next
    case False
    then show ?thesis
      using len
      by (auto simp: builder_set_entries_def shape string_from_view_sv_of string_from_view_sv_of_invalid
          split: if_splits sum.splits)
         (auto simp: string_from_view_def str_from_view_def split: if_splits sum.splits)?
  qed
qed

section \<open>Properties\<close>

lemma builder_created:
  "points_to (snd (otel_baggage_builder_create s)) (Some (next_addr s)) (P_BaggageBuilder [])"
  by (simp add: otel_baggage_builder_create_def points_to_def)

text \<open>A concrete builder for the witnesses: the first handle of a fresh process.\<close>

definition builder_store :: "api_payload store" where
  "builder_store = snd (otel_baggage_builder_create initial_store)"

lemma builder_store_facts:
  "api_inv builder_store" "points_to builder_store (Some 1) (P_BaggageBuilder [])"
  using builder_create_inv [OF api_inv_initial] builder_created [of initial_store]
  by (simp_all add: builder_store_def initial_store_def)

lemma builder_set_Ok_effect:
  assumes "api_inv s" and "points_to s p (P_BaggageBuilder es)"
    and "otel_baggage_builder_set al p (sv_of k) (sv_of v) (sv_of m) s = Some (St_Ok, s')"
    and "length k + length v + length m \<le> isize_max"
  shows "s' = put_ptr p (P_BaggageBuilder (upsert be_key \<lparr>be_key = k, be_value = v, be_metadata = m\<rparr> es))
                (clear_last_error s)"
proof -
  have nz: "st \<noteq> St_Ok" if "builder_set_entries al (sv_of k) (sv_of v) (sv_of m) es = Inl (st, msg)" for st msg
    using that
    by (auto simp: builder_set_entries_def builder_store_entry_def string_from_view_def str_from_view_def
        Let_def split: if_splits sum.splits option.splits)
  obtain es' where es': "builder_set_entries al (sv_of k) (sv_of v) (sv_of m) es = Inr es'"
      "s' = put_ptr p (P_BaggageBuilder es') (clear_last_error s)"
    using assms(3) nz by (auto simp: builder_set_run [OF assms(1,2)] fail_def split: sum.splits)
  have val: "valid_utf8 t" if "string_from_view al (sv_of t) f = Inr u" "length t \<le> isize_max" for t u f
    using that string_from_view_sv_of_invalid [of t al f] by (cases "valid_utf8 t") auto
  have eq: "u = t" if "string_from_view al (sv_of t) f = Inr u" "length t \<le> isize_max" for t u f
    using that val [OF that] string_from_view_sv_of [of t al f] by (auto split: if_splits)
  from es'(1) obtain k' v' m' where f:
      "string_from_view al (sv_of k) ''baggage key is invalid UTF-8'' = Inr k'"
      "string_from_view al (sv_of v) ''baggage value is invalid UTF-8'' = Inr v'"
      "string_from_view al (sv_of m) ''baggage metadata is invalid UTF-8'' = Inr m'"
      "builder_store_entry al es \<lparr>be_key = k', be_value = v', be_metadata = m'\<rparr> = Inr es'"
    by (rule builder_set_entries_InrD)
  have "k' = k" "v' = v" "m' = m"
    using eq [OF f(1)] eq [OF f(2)] eq [OF f(3)] assms(4) by auto
  with builder_store_entry_Inr(1) [OF f(4)] es'(2) show ?thesis by simp
qed

text \<open>A builder that holds two entries, for the witnesses.\<close>

definition two_entries :: "baggage_entry list" where
  "two_entries = [\<lparr>be_key = [0x6B], be_value = [0x76], be_metadata = []\<rparr>, \<lparr>be_key = [0x6C], be_value = [0x76], be_metadata = []\<rparr>]"

definition two_entry_store :: "api_payload store" where
  "two_entry_store = put_ptr (Some 1) (P_BaggageBuilder two_entries) builder_store"

lemma two_entry_store_facts:
  "api_inv two_entry_store" "points_to two_entry_store (Some 1) (P_BaggageBuilder two_entries)"
proof -
  have "entries_ok two_entries"
    by (simp add: two_entries_def entries_ok_def entry_ok_def valid_utf8_ascii_Cons MAX_BAGGAGE_ITEMS_def MAX_BAGGAGE_BYTES_def
        entry_bytes_def)
  then show "api_inv two_entry_store" unfolding two_entry_store_def
    by (intro api_inv_put [OF builder_store_facts]) simp_all
  show "points_to two_entry_store (Some 1) (P_BaggageBuilder two_entries)"
    unfolding two_entry_store_def using points_to_putI [OF builder_store_facts(2)] .
qed

text \<open>
  C34: A successful \<open>otel_baggage_builder_set\<close> refines a map update and keeps the order. The builder's abstract
  content becomes the old one with the key bound to the new value and metadata; a key that was there
  keeps its place among the others, a new one comes last; the limits still hold, and every other handle of the
  process is untouched.
\<close>

theorem builder_set_refines:
  assumes "api_inv s" and "points_to s p (P_BaggageBuilder es)"
    and "otel_baggage_builder_set al p (sv_of k) (sv_of v) (sv_of m) s = Some (St_Ok, s')"
    and "length k + length v + length m \<le> isize_max"
  shows "(\<exists>es'. points_to s' p (P_BaggageBuilder es') \<and> entries_ok es' \<and>
            baggage_map es' = (baggage_map es)(k \<mapsto> (v, m)) \<and>
            map be_key es' = (if k \<in> be_key ` set es then map be_key es else map be_key es @ [k])) \<and>
         (\<forall>q b. q \<noteq> p \<longrightarrow> points_to s' q b = points_to s q b)"
proof -
  let ?es' = "upsert be_key \<lparr>be_key = k, be_value = v, be_metadata = m\<rparr> es"
  have s': "s' = put_ptr p (P_BaggageBuilder ?es') (clear_last_error s)"
    by (rule builder_set_Ok_effect [OF assms])
  have pt: "points_to s' p (P_BaggageBuilder ?es')"
    using points_to_putI [of "clear_last_error s" p "P_BaggageBuilder es"] assms(2) by (simp add: s')
  then have "entries_ok ?es'"
    using api_inv_points_to [OF builder_set_inv [OF assms(1,3)] pt] by simp
  moreover have "map be_key ?es' = (if k \<in> be_key ` set es then map be_key es else map be_key es @ [k])"
    by (simp add: map_key_upsert)
  ultimately show ?thesis
    using pt by (auto simp: s' baggage_map_upsert points_to_put_other simp del: map_eq_conv intro!: exI [of _ ?es'])
qed

theorem builder_set_refines_witness:
  "\<exists>s' es'. otel_baggage_builder_set (\<lambda>_. True) (Some 1) (sv_of [0x6B]) (sv_of [0x77]) (sv_of []) two_entry_store
            = Some (St_Ok, s') \<and>
        points_to s' (Some 1) (P_BaggageBuilder es') \<and> map be_key es' = [[0x6B], [0x6C]] \<and>
        baggage_map es' [0x6B] = Some ([0x77], [])"
proof -
  let ?es = "[\<lparr>be_key = [0x6B], be_value = [0x77], be_metadata = []\<rparr>, \<lparr>be_key = [0x6C], be_value = [0x76], be_metadata = []\<rparr>]"
  have "builder_set_entries (\<lambda>_. True) (sv_of [0x6B]) (sv_of [0x77]) (sv_of []) two_entries = Inr ?es"
    by (simp add: builder_set_entries_run builder_store_entry_def valid_utf8_ascii_Cons two_entries_def
        MAX_BAGGAGE_BYTES_def MAX_BAGGAGE_ITEMS_def entry_bytes_def)
  then have run: "otel_baggage_builder_set (\<lambda>_. True) (Some 1) (sv_of [0x6B]) (sv_of [0x77]) (sv_of []) two_entry_store
      = Some (St_Ok, put_ptr (Some 1) (P_BaggageBuilder ?es) (clear_last_error two_entry_store))"
    by (simp add: builder_set_run [OF two_entry_store_facts] del: One_nat_def)
  have "map be_key two_entries = [[0x6B], [0x6C]]" "[0x6B] \<in> be_key ` set two_entries"
    by (simp_all add: two_entries_def)
  with builder_set_refines [OF two_entry_store_facts run] obtain es' where e:
      "points_to (put_ptr (Some 1) (P_BaggageBuilder ?es) (clear_last_error two_entry_store)) (Some 1) (P_BaggageBuilder es')"
      "baggage_map es' [0x6B] = Some ([0x77], [])" "map be_key es' = [[0x6B], [0x6C]]"
    by (auto simp: isize_max_def simp del: One_nat_def map_eq_Cons_conv map_eq_conv)
  show ?thesis by (intro exI conjI, rule run, rule e(1), rule e(3), rule e(2))
qed

text \<open>
  When every allocation succeeds, \<open>otel_baggage_builder_set\<close> accepts exactly the entries
  that keep the builder within its limits: a non-empty key, three valid UTF-8 strings, at most
  8192 stored bytes after the update, and a free slot or an already present key. Any refusal
  leaves every handle as it was.
\<close>

theorem builder_set_accepts_iff:
  assumes "api_inv s" and "points_to s p (P_BaggageBuilder es)"
    and "length k + length v + length m \<le> isize_max"
    and "otel_baggage_builder_set (\<lambda>_. True) p (sv_of k) (sv_of v) (sv_of m) s = Some (st, s')"
  shows "(st = St_Ok \<longleftrightarrow>
           k \<noteq> [] \<and> valid_utf8 k \<and> valid_utf8 v \<and> valid_utf8 m \<and>
           stored_bytes (upsert be_key \<lparr>be_key = k, be_value = v, be_metadata = m\<rparr> es) \<le> 8192 \<and>
           (length es < 64 \<or> k \<in> be_key ` set es)) \<and>
         (st \<noteq> St_Ok \<longrightarrow> has_last_error s' \<and> (\<forall>q b. points_to s' q b = points_to s q b))"
proof -
  have le: "length es \<le> 64"
    using api_inv_points_to [OF assms(1,2)] by (simp add: entries_ok_def MAX_BAGGAGE_ITEMS_def)
  have nz: "e \<noteq> St_Ok" if "builder_set_entries (\<lambda>_. True) (sv_of k) (sv_of v) (sv_of m) es = Inl (e, msg)" for e msg
    using that
    by (auto simp: builder_set_entries_def builder_store_entry_def string_from_view_def str_from_view_def
        Let_def split: if_splits sum.splits option.splits)
  have "st = St_Ok \<longleftrightarrow> (\<exists>es'. builder_set_entries (\<lambda>_. True) (sv_of k) (sv_of v) (sv_of m) es = Inr es')"
    using assms(4) nz by (auto simp: builder_set_run [OF assms(1,2)] fail_def split: sum.splits)
  moreover have "st \<noteq> St_Ok \<Longrightarrow> has_last_error s' \<and> (\<forall>q b. points_to s' q b = points_to s q b)"
    using assms(4) by (auto simp: builder_set_run [OF assms(1,2)] fail_def split: sum.splits)
  ultimately show ?thesis
    using builder_set_entries_Inr_iff [OF assms(3), of es] le
    by (auto simp: MAX_BAGGAGE_BYTES_def MAX_BAGGAGE_ITEMS_def)
qed

theorem builder_set_accepts_iff_witness:
  "\<exists>s'. otel_baggage_builder_set (\<lambda>_. True) (Some 1) (sv_of []) (sv_of [0x76]) (sv_of []) builder_store
            = Some (St_InvalidArgument, s') \<and> has_last_error s'"
proof -
  have "builder_set_entries (\<lambda>_. True) (sv_of []) (sv_of [0x76]) (sv_of []) []
          = Inl (St_InvalidArgument, ''baggage key is empty'')"
    using input_bytes_sum [of "[]" "[0x76]" "[]"]
    by (simp add: builder_set_entries_def view_shape_is_valid_def string_from_view_sv_of isize_max_def
        MAX_BAGGAGE_BYTES_def) (simp add: sv_of_def)
  then obtain s' where run: "otel_baggage_builder_set (\<lambda>_. True) (Some 1) (sv_of []) (sv_of [0x76]) (sv_of []) builder_store
      = Some (St_InvalidArgument, s')"
    by (simp add: builder_set_run [OF builder_store_facts] fail_def del: One_nat_def)
  from builder_set_accepts_iff [OF builder_store_facts _ run] show ?thesis
    using run by (simp add: isize_max_def)
qed

text \<open>
  Set, build, get. The baggage built from a builder answers a lookup of the key that was
  set with the value and metadata that were set, also after the builder has been changed again
  by any later \<open>set\<close>: a built baggage is an immutable snapshot.
\<close>

theorem baggage_set_build_get:
  assumes "api_inv s" and "points_to s p (P_BaggageBuilder es)"
    and "length k + length v + length m \<le> isize_max"
    and "otel_baggage_builder_set (\<lambda>_. True) p (sv_of k) (sv_of v) (sv_of m) s = Some (St_Ok, s1)"
    and "otel_baggage_builder_build (\<lambda>_. True) p False s1 = Some (st, Some q, s2)"
    and "otel_baggage_builder_set al p k2 v2 m2 s2 = Some (st3, s3)"
  shows "st = St_Ok \<and> (\<exists>s4. otel_baggage_get (\<lambda>_. True) q (sv_of k) (Some 56) s3
            = Some (1, Some \<lparr>be_key = k, be_value = v, be_metadata = m\<rparr>, s4))"
proof -
  let ?r = "\<lparr>be_key = k, be_value = v, be_metadata = m\<rparr>"
  let ?es' = "upsert be_key ?r es"
  have s1: "s1 = put_ptr p (P_BaggageBuilder ?es') (clear_last_error s)"
    by (rule builder_set_Ok_effect [OF assms(1,2,4,3)])
  have inv1: "api_inv s1" by (rule builder_set_inv [OF assms(1,4)])
  have pt1: "points_to s1 p (P_BaggageBuilder ?es')"
    using points_to_putI [of "clear_last_error s" p "P_BaggageBuilder es"] assms(2) by (simp add: s1)
  from builder_build_run [OF inv1 pt1, of "\<lambda>_. True"] assms(5)
  have q: "st = St_Ok" "q = Some (next_addr s1)" "s2 = snd (new_baggage ?es' (clear_last_error s1))"
    by auto
  have pq: "points_to s2 q (P_Baggage ?es')" by (simp add: q new_baggage_def points_to_def)
  have "p \<noteq> q"
    using pt1 wf_store_fresh [OF api_inv_wf [OF inv1]] q(2) by (auto simp: points_to_def)
  have inv3: "api_inv s3"
    using builder_set_inv [OF builder_build_inv [OF inv1 assms(5)] assms(6)] .
  have pt3: "points_to s3 q (P_Baggage ?es')"
  proof -
    obtain r s2' where c: "checked_as KIND_BAGGAGE_BUILDER as_baggage_builder p (clear_last_error s2) = Some (r, s2')"
      using assms(6) by (auto simp: otel_baggage_builder_set_def split: option.splits prod.splits)
    then have "points_to s2' q (P_Baggage ?es')"
      using pq checked_as_frame [OF c] points_to_cong [of s2' s2] by simp
    with c assms(6) \<open>p \<noteq> q\<close> show ?thesis
      by (auto simp: otel_baggage_builder_set_def fail_def points_to_put_other split: option.splits sum.splits)
  qed
  have valid: "valid_utf8 k" "k \<noteq> []"
  proof -
    have "entries_ok ?es'" using api_inv_points_to [OF inv1 pt1] by simp
    moreover have "?r \<in> set ?es'" by (rule mem_upsert)
    ultimately show "valid_utf8 k" "k \<noteq> []" by (auto simp: entries_ok_def entry_ok_def)
  qed
  have "string_from_view (\<lambda>_. True) (sv_of k) ''baggage key is invalid UTF-8'' = Inr k"
    using string_from_view_sv_of [OF valid(1)] assms(3) by simp
  from baggage_get_run [OF inv3 pt3 _ this, of 56] show ?thesis
    using find_upsert_same [of be_key ?r es] q(1) by (simp add: BAGGAGE_ENTRY_VIEW_V1_SIZE_def)
qed

theorem baggage_set_build_get_witness:
  "\<exists>s1 s2 s3 s4. otel_baggage_builder_set (\<lambda>_. True) (Some 1) (sv_of [0x6B]) (sv_of [0x76]) (sv_of []) builder_store
            = Some (St_Ok, s1) \<and>
        otel_baggage_builder_build (\<lambda>_. True) (Some 1) False s1 = Some (St_Ok, Some (Some 2), s2) \<and>
        otel_baggage_builder_set (\<lambda>_. True) (Some 1) (sv_of [0x6B]) (sv_of [0x77]) (sv_of []) s2 = Some (St_Ok, s3) \<and>
        otel_baggage_get (\<lambda>_. True) (Some 2) (sv_of [0x6B]) (Some 56) s3
          = Some (1, Some \<lparr>be_key = [0x6B], be_value = [0x76], be_metadata = []\<rparr>, s4)"
proof -
  let ?e = "\<lambda>v :: byte. \<lparr>be_key = [0x6B], be_value = [v], be_metadata = []\<rparr>"
  define s1 where "s1 = put_ptr (Some 1) (P_BaggageBuilder [?e 0x76]) (clear_last_error builder_store)"
  define s2 where "s2 = snd (new_baggage [?e 0x76] (clear_last_error s1))"
  define s3 where "s3 = put_ptr (Some 1) (P_BaggageBuilder [?e 0x77]) (clear_last_error s2)"
  have "builder_set_entries (\<lambda>_. True) (sv_of [0x6B]) (sv_of [0x76]) (sv_of []) [] = Inr [?e 0x76]"
    by (simp add: builder_set_entries_run builder_store_entry_def valid_utf8_ascii_Cons
        MAX_BAGGAGE_BYTES_def MAX_BAGGAGE_ITEMS_def entry_bytes_def)
  then have r1: "otel_baggage_builder_set (\<lambda>_. True) (Some 1) (sv_of [0x6B]) (sv_of [0x76]) (sv_of []) builder_store
      = Some (St_Ok, s1)"
    by (simp add: builder_set_run [OF builder_store_facts] s1_def del: One_nat_def)
  have inv1: "api_inv s1" by (rule builder_set_inv [OF builder_store_facts(1) r1])
  have pt1: "points_to s1 (Some 1) (P_BaggageBuilder [?e 0x76])"
    using points_to_putI [of "clear_last_error builder_store" "Some 1" "P_BaggageBuilder []"]
      builder_store_facts(2) by (simp add: s1_def del: One_nat_def)
  have n1: "next_addr s1 = 2"
    by (simp add: s1_def builder_store_def otel_baggage_builder_create_def initial_store_def)
  have r2: "otel_baggage_builder_build (\<lambda>_. True) (Some 1) False s1 = Some (St_Ok, Some (Some 2), s2)"
    using builder_build_run [OF inv1 pt1, of "\<lambda>_. True"] by (simp add: s2_def n1)
  have inv2: "api_inv s2" by (rule builder_build_inv [OF inv1 r2])
  have pt2: "points_to s2 (Some 1) (P_BaggageBuilder [?e 0x76])"
    using pt1 by (simp add: s2_def new_baggage_def points_to_def n1)
  have "builder_set_entries (\<lambda>_. True) (sv_of [0x6B]) (sv_of [0x77]) (sv_of []) [?e 0x76] = Inr [?e 0x77]"
    by (simp add: builder_set_entries_run builder_store_entry_def valid_utf8_ascii_Cons
        MAX_BAGGAGE_BYTES_def MAX_BAGGAGE_ITEMS_def entry_bytes_def)
  then have r3: "otel_baggage_builder_set (\<lambda>_. True) (Some 1) (sv_of [0x6B]) (sv_of [0x77]) (sv_of []) s2
      = Some (St_Ok, s3)"
    by (simp add: builder_set_run [OF inv2 pt2] s3_def del: One_nat_def)
  from baggage_set_build_get [OF builder_store_facts _ r1 r2 r3] r1 r2 r3 show ?thesis
    by (auto simp: isize_max_def)
qed

end
