(* ===== verification/Baggage_Propagation.thy ===== *)
theory Baggage_Propagation
  imports Baggage "HOL-Library.Sublist"
begin

unbundle bit_operations_syntax

text \<open>
  The W3C baggage header (second half of \<open>api/src/baggage.rs\<close>): percent coding, parsing and
  printing of one list member, and the two entry points that extract a baggage from a header and
  inject one into a buffer.

  The lemmas show that percent coding is inverse to decoding, that an encoded member parses back
  to the entry it came from, that extraction always yields entries within the limits of the
  builder, and that injection followed by extraction is the identity on a baggage whose entries
  the header can represent.
\<close>

section \<open>Byte classes\<close>

definition is_token_byte :: "byte \<Rightarrow> bool" where
  "is_token_byte b \<longleftrightarrow>
     0x30 \<le> b \<and> b \<le> 0x39 \<or> 0x41 \<le> b \<and> b \<le> 0x5A \<or> 0x61 \<le> b \<and> b \<le> 0x7A \<or>
     b = 0x21 \<or> b = 0x23 \<or> b = 0x24 \<or> b = 0x25 \<or> b = 0x26 \<or> b = 0x27 \<or> b = 0x2A \<or>
     b = 0x2B \<or> b = 0x2D \<or> b = 0x2E \<or> b = 0x5E \<or> b = 0x5F \<or> b = 0x60 \<or> b = 0x7C \<or> b = 0x7E"

text \<open>The bytes a raw value may hold (\<open>%\<close> included).\<close>

definition is_value_byte :: "byte \<Rightarrow> bool" where
  "is_value_byte b \<longleftrightarrow>
     b = 0x25 \<or> b = 0x21 \<or> 0x23 \<le> b \<and> b \<le> 0x2B \<or> 0x2D \<le> b \<and> b \<le> 0x3A \<or>
     0x3C \<le> b \<and> b \<le> 0x5B \<or> 0x5D \<le> b \<and> b \<le> 0x7E"

text \<open>The bytes that the encoder writes unchanged.\<close>

definition is_plain_byte :: "byte \<Rightarrow> bool" where
  "is_plain_byte b \<longleftrightarrow>
     b = 0x21 \<or> 0x23 \<le> b \<and> b \<le> 0x24 \<or> 0x26 \<le> b \<and> b \<le> 0x2B \<or> 0x2D \<le> b \<and> b \<le> 0x3A \<or>
     0x3C \<le> b \<and> b \<le> 0x5B \<or> 0x5D \<le> b \<and> b \<le> 0x7E"

text \<open>\<open>char::to_digit(16)\<close> on a byte read as a character.\<close>

definition to_digit16 :: "byte \<Rightarrow> byte option" where
  "to_digit16 b =
     (if 0x30 \<le> b \<and> b \<le> 0x39 then Some (b - 0x30)
      else if 0x61 \<le> b \<and> b \<le> 0x66 then Some (b - 0x61 + 10)
      else if 0x41 \<le> b \<and> b \<le> 0x46 then Some (b - 0x41 + 10)
      else None)"

definition is_ascii_hexdigit :: "byte \<Rightarrow> bool" where
  "is_ascii_hexdigit b \<longleftrightarrow>
     0x30 \<le> b \<and> b \<le> 0x39 \<or> 0x41 \<le> b \<and> b \<le> 0x46 \<or> 0x61 \<le> b \<and> b \<le> 0x66"

section \<open>Percent coding\<close>

text \<open>The loop of \<open>percent_decode\<close> over the bytes: an escape needs two more bytes.\<close>

fun percent_decode_bytes :: "bytes \<Rightarrow> bytes option" where
  "percent_decode_bytes [] = Some []"
| "percent_decode_bytes (b # bs) =
     (if b = 0x25 then
        (case bs of
           c1 # c2 # rest \<Rightarrow>
             (case to_digit16 c1 of
                None \<Rightarrow> None
              | Some h \<Rightarrow>
                  (case to_digit16 c2 of
                     None \<Rightarrow> None
                   | Some l \<Rightarrow> map_option ((#) (push_bit 4 h OR l)) (percent_decode_bytes rest)))
         | _ \<Rightarrow> None)
      else map_option ((#) b) (percent_decode_bytes bs))"

definition percent_decode :: "(nat \<Rightarrow> bool) \<Rightarrow> bytes \<Rightarrow> bytes option" where
  "percent_decode al input =
     (if \<not> al (length input) then None
      else map_option utf8_lossy (percent_decode_bytes input))"

fun has_valid_percent_encoding :: "bytes \<Rightarrow> bool" where
  "has_valid_percent_encoding [] = True"
| "has_valid_percent_encoding (b # bs) =
     (if b = 0x25 then
        (case bs of
           c1 # c2 # rest \<Rightarrow>
             is_ascii_hexdigit c1 \<and> is_ascii_hexdigit c2 \<and> has_valid_percent_encoding rest
         | _ \<Rightarrow> False)
      else has_valid_percent_encoding bs)"

definition HEX_UPPER :: bytes where
  "HEX_UPPER = [0x30, 0x31, 0x32, 0x33, 0x34, 0x35, 0x36, 0x37, 0x38, 0x39,
                0x41, 0x42, 0x43, 0x44, 0x45, 0x46]"

definition encode_byte :: "byte \<Rightarrow> bytes" where
  "encode_byte b =
     (if is_plain_byte b then [b]
      else [0x25, HEX_UPPER ! unat (drop_bit 4 b), HEX_UPPER ! unat (b AND 15)])"

definition encode_value :: "bytes \<Rightarrow> bytes" where
  "encode_value value = concat (map encode_byte value)"

section \<open>One list member\<close>

text \<open>A property after a semicolon, already trimmed: a token, optionally \<open>=\<close> and a value with
  well-formed escapes.\<close>

definition property_ok :: "bytes \<Rightarrow> bool" where
  "property_ok p =
     (if p = [] then False
      else (case split_once 0x3D p of
              None \<Rightarrow> p \<noteq> [] \<and> list_all is_token_byte p
            | Some (k, v) \<Rightarrow>
                k \<noteq> [] \<and> list_all is_token_byte k \<and>
                list_all is_value_byte v \<and> has_valid_percent_encoding v))"

fun parse_properties :: "bytes list \<Rightarrow> bytes \<Rightarrow> bytes option" where
  "parse_properties [] metadata = Some metadata"
| "parse_properties (part # parts) metadata =
     (let property = trim part
      in if \<not> property_ok property then None
         else parse_properties parts
                ((if metadata \<noteq> [] then metadata @ [0x3B] else metadata) @ property))"

definition parse_member :: "(nat \<Rightarrow> bool) \<Rightarrow> bytes \<Rightarrow> baggage_entry option" where
  "parse_member al member =
     (case split_on 0x3B member of
        [] \<Rightarrow> None
      | first # parts \<Rightarrow>
          (case split_once 0x3D (trim first) of
             None \<Rightarrow> None
           | Some (k, v) \<Rightarrow>
               (let key = trim k; raw_value = trim v
                in if key = [] \<or> \<not> list_all is_token_byte key then None
                   else if \<not> list_all is_value_byte raw_value then None
                   else (case percent_decode al raw_value of
                           None \<Rightarrow> None
                         | Some value \<Rightarrow>
                             (case parse_properties parts [] of
                                None \<Rightarrow> None
                              | Some metadata \<Rightarrow>
                                  Some \<lparr>be_key = key, be_value = value, be_metadata = metadata\<rparr>)))))"

text \<open>Builder metadata is only emitted when the probe member \<open>k=v;metadata\<close> parses.\<close>

definition metadata_probe :: "bytes \<Rightarrow> bytes" where
  "metadata_probe m = [0x6B, 0x3D, 0x76, 0x3B] @ m"

definition encoded_member :: "(nat \<Rightarrow> bool) \<Rightarrow> baggage_entry \<Rightarrow> bytes option" where
  "encoded_member al e =
     (if be_key e = [] \<or> \<not> list_all is_token_byte (be_key e) then None
      else if \<not> al (length (be_key e) + length (be_value e) * 3 + length (be_metadata e) + 1) then None
      else (let out = be_key e @ [0x3D] @ encode_value (be_value e)
            in if be_metadata e = [] then Some out
               else (case parse_member al (metadata_probe (be_metadata e)) of
                       None \<Rightarrow> None
                     | Some _ \<Rightarrow> Some (out @ [0x3B] @ be_metadata e))))"

section \<open>Extraction\<close>

text \<open>One round of the loop over the members: skip what does not parse, let a later duplicate
  replace an earlier one in place, drop new keys beyond 64.\<close>

definition extract_step :: "(nat \<Rightarrow> bool) \<Rightarrow> bytes \<Rightarrow> baggage_entry list \<Rightarrow> baggage_entry list" where
  "extract_step al member es =
     (case parse_member al member of
        None \<Rightarrow> es
      | Some e \<Rightarrow>
          (case position (\<lambda>x. be_key x = be_key e) es of
             Some i \<Rightarrow> es[i := e]
           | None \<Rightarrow> if length es < MAX_BAGGAGE_ITEMS then es @ [e] else es))"

definition extract_entries :: "(nat \<Rightarrow> bool) \<Rightarrow> bytes \<Rightarrow> baggage_entry list" where
  "extract_entries al hdr = fold (extract_step al) (split_on 0x2C hdr) []"

definition otel_baggage_propagation_extract ::
  "(nat \<Rightarrow> bool) \<Rightarrow> otel_string_view \<Rightarrow> bool
     \<Rightarrow> (api_payload, 'm) store_scheme \<Rightarrow> otel_status \<times> ptr option \<times> (api_payload, 'm) store_scheme" where
  "otel_baggage_propagation_extract al hdr out_null s =
     (let s0 = clear_last_error s in
      if out_null then fail_out St_InvalidArgument ''baggage output is NULL'' None s0
      else if \<not> view_shape_is_valid hdr then
        fail_out St_InvalidArgument ''baggage header has a NULL pointer with non-zero length'' (Some None) s0
      else if unat (sv_len hdr) \<le> MAX_BAGGAGE_BYTES then
        (case str_from_view hdr ''baggage header is invalid UTF-8'' of
           Inl (st, msg) \<Rightarrow> fail_out st msg (Some None) s0
         | Inr text \<Rightarrow>
             if \<not> al MAX_BAGGAGE_ITEMS then
               fail_out St_InternalError ''baggage allocation failed'' (Some None) s0
             else
               (St_Ok, Some (fst (new_baggage (extract_entries al text) s0)),
                snd (new_baggage (extract_entries al text) s0)))
      else (St_Ok, Some (fst (new_baggage [] s0)), snd (new_baggage [] s0)))"

section \<open>Injection\<close>

definition inject_step :: "(nat \<Rightarrow> bool) \<Rightarrow> baggage_entry \<Rightarrow> bytes \<Rightarrow> bytes" where
  "inject_step al e encoded =
     (case encoded_member al e of
        None \<Rightarrow> encoded
      | Some member \<Rightarrow>
          (let separator = (if encoded = [] then 0 else 1 :: nat)
           in if length encoded + separator + length member > MAX_BAGGAGE_BYTES then encoded
              else (if separator \<noteq> 0 then encoded @ [0x2C] else encoded) @ member))"

definition inject_text :: "(nat \<Rightarrow> bool) \<Rightarrow> baggage_entry list \<Rightarrow> bytes" where
  "inject_text al es = fold (inject_step al) es []"

text \<open>The results: status, what was written to \<open>*out_len\<close>, and the bytes copied to the buffer.\<close>

definition otel_baggage_propagation_inject ::
  "(nat \<Rightarrow> bool) \<Rightarrow> ptr \<Rightarrow> bool \<Rightarrow> nat \<Rightarrow> bool \<Rightarrow> (api_payload, 'm) store_scheme
     \<Rightarrow> (otel_status \<times> (nat option \<times> bytes option) \<times> (api_payload, 'm) store_scheme) option" where
  "otel_baggage_propagation_inject al baggage buffer_null capacity out_len_null s =
     (let s0 = clear_last_error s in
      if out_len_null then
        Some (fail_out St_InvalidArgument ''baggage output length is NULL'' (None, None) s0)
      else
        (case checked_as KIND_BAGGAGE as_baggage baggage s0 of
           None \<Rightarrow> None
         | Some (None, s1) \<Rightarrow> Some (St_InvalidArgument, (None, None), s1)
         | Some (Some es, s1) \<Rightarrow>
             if \<not> al MAX_BAGGAGE_BYTES then
               Some (fail_out St_InternalError ''baggage allocation failed'' (None, None) s1)
             else
               (let encoded = inject_text al es; len = Some (length encoded)
                in if buffer_null then
                     (if capacity = 0 then Some (St_Ok, (len, None), s1)
                      else Some (fail_out St_InvalidArgument ''baggage output buffer is NULL'' (len, None) s1))
                   else if capacity < length encoded then
                     Some (fail_out St_InvalidArgument ''baggage output buffer is too small'' (len, None) s1)
                   else Some (St_Ok, (len, Some encoded), s1))))"

section \<open>Byte classes: what each one excludes\<close>

lemma token_byte_facts:
  assumes "is_token_byte b"
  shows "graphic b" and "b \<noteq> 0x3D" and "b \<noteq> 0x3B" and "b \<noteq> 0x2C"
  using assms by (auto simp: is_token_byte_def graphic_def word_le_nat_alt)

lemma value_byte_facts:
  assumes "is_value_byte b"
  shows "graphic b" and "b \<noteq> 0x3B" and "b \<noteq> 0x2C"
  using assms by (auto simp: is_value_byte_def graphic_def word_le_nat_alt)

lemma plain_byte_value: "is_plain_byte b \<Longrightarrow> is_value_byte b \<and> b \<noteq> 0x25"
  by (auto simp: is_plain_byte_def is_value_byte_def word_le_nat_alt)

lemma graphic_ascii: "graphic b \<Longrightarrow> b \<le> 0x7F"
  by (auto simp: graphic_def word_le_nat_alt)

lemma graphic_separators: "graphic 0x3D" "graphic 0x3B" "graphic 0x2C" "graphic 0x25"
  by (simp_all add: graphic_def)

section \<open>Percent coding is invertible\<close>

lemma HEX_UPPER_digit:
  assumes "n < 16"
  shows "to_digit16 (HEX_UPPER ! n) = Some (word_of_nat n)" and "is_value_byte (HEX_UPPER ! n)"
    and "is_ascii_hexdigit (HEX_UPPER ! n)"
  by (rule below_16_cases [OF assms],
      simp add: HEX_UPPER_def to_digit16_def is_value_byte_def is_ascii_hexdigit_def upt_rec)+

lemma percent_decode_encode_byte:
  "percent_decode_bytes (encode_byte b @ rest) = map_option ((#) b) (percent_decode_bytes rest)"
proof (cases "is_plain_byte b")
  case True
  then show ?thesis using plain_byte_value by (simp add: encode_byte_def)
next
  case False
  then show ?thesis
    using nibbles [of b] HEX_UPPER_digit(1) by (simp add: encode_byte_def)
qed

lemma percent_decode_encode: "percent_decode_bytes (encode_value v) = Some v"
  by (induction v) (simp_all add: encode_value_def percent_decode_encode_byte)

lemma encode_value_bytes: "list_all is_value_byte (encode_value v)"
proof -
  have "list_all is_value_byte (encode_byte b)" for b
    using plain_byte_value [of b] nibbles [of b] HEX_UPPER_digit(2)
    by (auto simp: encode_byte_def is_value_byte_def [of "0x25"])
  then show ?thesis by (auto simp: encode_value_def list_all_iff)
qed

section \<open>Properties of a member\<close>

text \<open>Metadata as extraction leaves it: well-formed properties joined by semicolons.\<close>

definition wire_metadata :: "bytes \<Rightarrow> bool" where
  "wire_metadata m \<longleftrightarrow> m = [] \<or> (\<forall>p \<in> set (split_on 0x3B m). property_ok p)"

lemma property_ok_bytes:
  assumes "property_ok p" and "b \<in> set p"
  shows "graphic b \<and> b \<noteq> 0x3B \<and> b \<noteq> 0x2C"
proof -
  have "b = 0x3D \<or> is_token_byte b \<or> is_value_byte b"
  proof (cases "split_once 0x3D p")
    case None
    with assms show ?thesis by (auto simp: property_ok_def list_all_iff split: if_splits)
  next
    case (Some kv)
    obtain k v where kv: "kv = (k, v)" by (cases kv)
    with Some have "p = k @ 0x3D # v" using split_once_SomeD [of "0x3D" p k v] by simp
    with assms Some kv show ?thesis by (auto simp: property_ok_def list_all_iff split: if_splits)
  qed
  then show ?thesis
  proof (elim disjE)
    assume "b = 0x3D"
    then show ?thesis using graphic_separators by simp
  next
    assume "is_token_byte b"
    then show ?thesis using token_byte_facts by blast
  next
    assume "is_value_byte b"
    then show ?thesis using value_byte_facts by blast
  qed
qed

lemma property_ok_trim: "property_ok p \<Longrightarrow> trim p = p"
  by (rule trim_all_graphic) (auto dest: property_ok_bytes)

lemma property_ok_not_Nil: "property_ok p \<Longrightarrow> p \<noteq> []"
  by (auto simp: property_ok_def)

lemma parse_properties_wire:
  assumes "ps \<noteq> []" and "\<And>p. p \<in> set ps \<Longrightarrow> property_ok p"
  shows "parse_properties ps md =
     Some ((if md \<noteq> [] then md @ [0x3B] else md) @ join_with 0x3B ps)"
  using assms
proof (induction ps arbitrary: md)
  case Nil
  then show ?case by simp
next
  case (Cons p ps)
  then have p: "property_ok p" "trim p = p" "p \<noteq> []"
    using property_ok_trim property_ok_not_Nil by auto
  show ?case
  proof (cases "ps = []")
    case True
    with p show ?thesis by simp
  next
    case False
    with Cons p show ?thesis by (auto simp: join_with_Cons)
  qed
qed

text \<open>Conversely, whatever the parser accepts as metadata is of that form.\<close>

lemma parse_properties_InvD:
  "parse_properties ps md = Some m \<Longrightarrow> wire_metadata md \<Longrightarrow> wire_metadata m"
proof (induction ps arbitrary: md)
  case Nil
  then show ?case by simp
next
  case (Cons p ps)
  let ?p = "trim p"
  let ?md' = "(if md \<noteq> [] then md @ [0x3B] else md) @ ?p"
  from Cons.prems have ok: "property_ok ?p" and rec: "parse_properties ps ?md' = Some m"
    by (auto simp: Let_def split: if_splits)
  have nosep: "0x3B \<notin> set ?p" using property_ok_bytes [OF ok] by blast
  have "wire_metadata ?md'"
  proof (cases "md = []")
    case True
    with ok nosep show ?thesis by (simp add: wire_metadata_def)
  next
    case False
    have ne: "split_on 0x3B md \<noteq> []" by simp
    have "md @ [0x3B] @ ?p = join_with 0x3B (split_on 0x3B md @ [?p])"
    proof -
      have "join_with 0x3B (xs @ [?p]) = join_with 0x3B xs @ 0x3B # ?p" if "xs \<noteq> []" for xs
        using that by (induction xs rule: list_nonempty_induct) (auto simp: join_with_Cons)
      from this [OF ne] show ?thesis by simp
    qed
    then have "split_on 0x3B ?md' = split_on 0x3B md @ [?p]"
      using False nosep split_on_piece_no_sep split_on_join [of "split_on 0x3B md @ [?p]" "0x3B"]
      by fastforce
    with Cons.prems(2) False ok show ?thesis by (auto simp: wire_metadata_def)
  qed
  from Cons.IH [OF rec this] show ?case .
qed

lemma wire_metadata_bytes:
  assumes "wire_metadata m" and "b \<in> set m"
  shows "graphic b \<and> b \<noteq> 0x2C"
proof -
  have "m = join_with 0x3B (split_on 0x3B m)" by simp
  moreover have "b \<in> set (join_with d ps) \<Longrightarrow> b = d \<or> (\<exists>p \<in> set ps. b \<in> set p)" for d ps
    by (induction d ps rule: join_with.induct) auto
  ultimately have "b = 0x3B \<or> (\<exists>p \<in> set (split_on 0x3B m). b \<in> set p)"
    using assms(2) by metis
  then show ?thesis
    using assms property_ok_bytes graphic_separators by (fastforce simp: wire_metadata_def)
qed

section \<open>An encoded member parses back\<close>

text \<open>An entry that the header can carry exactly.\<close>

definition representable :: "baggage_entry \<Rightarrow> bool" where
  "representable e \<longleftrightarrow> be_key e \<noteq> [] \<and> list_all is_token_byte (be_key e) \<and>
     valid_utf8 (be_value e) \<and> wire_metadata (be_metadata e)"

definition member_text :: "baggage_entry \<Rightarrow> bytes" where
  "member_text e = be_key e @ 0x3D # encode_value (be_value e) @
     (if be_metadata e = [] then [] else 0x3B # be_metadata e)"

lemma split_on_Cons_sep: "0x3B \<notin> set p \<Longrightarrow>
    split_on 0x3B (p @ (if m = [] then [] else 0x3B # m)) = p # (if m = [] then [] else split_on 0x3B m)"
  by (simp add: split_on_append_sep)

lemma parse_member_text:
  assumes "k \<noteq> []" and "list_all is_token_byte k" and "list_all is_value_byte raw" and "wire_metadata m"
  shows "parse_member al (k @ 0x3D # raw @ (if m = [] then [] else 0x3B # m)) =
     (case percent_decode al raw of
        None \<Rightarrow> None
      | Some v \<Rightarrow> Some \<lparr>be_key = k, be_value = v, be_metadata = m\<rparr>)"
proof -
  have kg: "graphic b \<and> b \<noteq> 0x3D \<and> b \<noteq> 0x3B" if "b \<in> set k" for b
    using assms(2) that token_byte_facts by (auto simp: list_all_iff)
  have rg: "graphic b \<and> b \<noteq> 0x3B" if "b \<in> set raw" for b
    using assms(3) that value_byte_facts by (auto simp: list_all_iff)
  have "0x3B \<notin> set (k @ 0x3D # raw)" using kg rg by auto
  from split_on_Cons_sep [OF this, of m]
  have split: "split_on 0x3B (k @ 0x3D # raw @ (if m = [] then [] else 0x3B # m))
      = (k @ 0x3D # raw) # (if m = [] then [] else split_on 0x3B m)" by simp
  have t: "trim (k @ 0x3D # raw) = k @ 0x3D # raw" "trim k = k" "trim raw = raw"
    using kg rg graphic_separators by (auto intro!: trim_all_graphic)
  have "0x3D \<notin> set k" using kg by blast
  then have so: "split_once 0x3D (k @ 0x3D # raw) = Some (k, raw)" by simp
  have props: "parse_properties (if m = [] then [] else split_on 0x3B m) [] = Some m"
    using assms(4) parse_properties_wire [of "split_on 0x3B m" "[]"] by (auto simp: wire_metadata_def)
  show ?thesis
  proof (cases "m = []")
    case True
    then show ?thesis
      using assms(1-3) props split
      by (cases "percent_decode al raw") (simp_all add: parse_member_def t so)
  next
    case False
    then show ?thesis
      using assms(1-3) props split
      by (cases "percent_decode al raw") (simp_all add: parse_member_def t so)
  qed
qed

lemma probe_parses:
  assumes "wire_metadata m" and "m \<noteq> []" and "al 1"
  shows "parse_member al (metadata_probe m) \<noteq> None"
proof -
  have "metadata_probe m = [0x6B] @ 0x3D # [0x76] @ (if m = [] then [] else 0x3B # m)"
    using assms(2) by (simp add: metadata_probe_def)
  then show ?thesis
    using parse_member_text [of "[0x6B]" "[0x76]" m al] assms
    by (simp add: is_token_byte_def is_value_byte_def percent_decode_def)
qed

lemma encoded_member_representable:
  assumes "representable e"
  shows "encoded_member (\<lambda>_. True) e = Some (member_text e)"
  using assms probe_parses [of "be_metadata e" "\<lambda>_. True"]
  by (auto simp: encoded_member_def representable_def member_text_def)

lemma parse_member_member_text:
  assumes "representable e"
  shows "parse_member (\<lambda>_. True) (member_text e) = Some e"
proof -
  have "percent_decode (\<lambda>_. True) (encode_value (be_value e)) = Some (be_value e)"
    using assms by (simp add: percent_decode_def percent_decode_encode representable_def utf8_lossy_valid_id)
  then show ?thesis
    using assms parse_member_text [of "be_key e" "encode_value (be_value e)" "be_metadata e" "\<lambda>_. True"]
      encode_value_bytes
    by (simp add: representable_def member_text_def)
qed

lemma member_text_bytes:
  assumes "representable e" and "b \<in> set (member_text e)"
  shows "graphic b \<and> b \<noteq> 0x2C"
proof -
  consider "b \<in> set (be_key e)" | "b \<in> {0x3D, 0x3B}" | "b \<in> set (encode_value (be_value e))"
    | "b \<in> set (be_metadata e)"
    using assms(2) by (auto simp: member_text_def split: if_splits)
  then show ?thesis
  proof cases
    case 1
    then have "is_token_byte b" using assms(1) by (simp add: representable_def list_all_iff)
    then show ?thesis using token_byte_facts by blast
  next
    case 2
    then show ?thesis using graphic_separators by auto
  next
    case 3
    then have "is_value_byte b" using encode_value_bytes by (auto simp: list_all_iff)
    then show ?thesis using value_byte_facts by blast
  next
    case 4
    moreover have "wire_metadata (be_metadata e)" using assms(1) by (simp add: representable_def)
    ultimately show ?thesis using wire_metadata_bytes by blast
  qed
qed


section \<open>Injection writes the members it keeps, joined by commas\<close>

definition wire_text :: "baggage_entry list \<Rightarrow> bytes" where
  "wire_text es = join_with 0x2C (map member_text es)"

lemma member_text_not_Nil [simp]: "member_text e \<noteq> []"
  by (simp add: member_text_def)

lemma wire_text_simps [simp]:
  "wire_text [] = []" "wire_text [e] = member_text e"
  "es \<noteq> [] \<Longrightarrow> wire_text (e # es) = member_text e @ 0x2C # wire_text es"
  by (simp_all add: wire_text_def join_with_Cons)

lemma wire_text_Nil_iff [simp]: "wire_text es = [] \<longleftrightarrow> es = []"
  by (cases es; cases "tl es") (auto simp: wire_text_def)

lemma wire_text_snoc: "wire_text (es @ [e]) = (if es = [] then [] else wire_text es @ [0x2C]) @ member_text e"
proof (induction es)
  case Nil
  then show ?case by simp
next
  case (Cons a es)
  then show ?case by (cases "es = []") auto
qed

lemma wire_text_subseq_length: "length (wire_text (es @ fs)) \<ge> length (wire_text es)"
proof (induction fs rule: rev_induct)
  case Nil
  then show ?case by simp
next
  case (snoc f fs)
  then show ?case using wire_text_snoc [of "es @ fs" f] by auto
qed

lemma inject_step_wire:
  assumes "representable e"
  shows "inject_step (\<lambda>_. True) e (wire_text es) =
     (if length (wire_text (es @ [e])) \<le> MAX_BAGGAGE_BYTES then wire_text (es @ [e]) else wire_text es)"
  by (auto simp: inject_step_def encoded_member_representable [OF assms] wire_text_snoc)

text \<open>What is injected is the text of a subsequence of the entries; of all of them when it fits.\<close>

lemma inject_fold_wire:
  assumes "\<And>e. e \<in> set es \<Longrightarrow> representable e"
  shows "\<exists>ks. subseq ks es \<and> fold (inject_step (\<lambda>_. True)) es (wire_text acc) = wire_text (acc @ ks) \<and>
           (length (wire_text (acc @ es)) \<le> MAX_BAGGAGE_BYTES \<longrightarrow> ks = es)"
  using assms
proof (induction es arbitrary: acc)
  case Nil
  then show ?case by (auto intro: exI [of _ "[]"])
next
  case (Cons e es)
  have r: "representable e" using Cons.prems by simp
  show ?case
  proof (cases "length (wire_text (acc @ [e])) \<le> MAX_BAGGAGE_BYTES")
    case True
    then have "inject_step (\<lambda>_. True) e (wire_text acc) = wire_text (acc @ [e])"
      by (simp add: inject_step_wire [OF r])
    moreover obtain ks where "subseq ks es"
        "fold (inject_step (\<lambda>_. True)) es (wire_text (acc @ [e])) = wire_text ((acc @ [e]) @ ks)"
        "length (wire_text ((acc @ [e]) @ es)) \<le> MAX_BAGGAGE_BYTES \<longrightarrow> ks = es"
      using Cons.IH [of "acc @ [e]"] Cons.prems by auto
    ultimately show ?thesis by (intro exI [of _ "e # ks"]) auto
  next
    case False
    then have "inject_step (\<lambda>_. True) e (wire_text acc) = wire_text acc"
      by (simp add: inject_step_wire [OF r])
    moreover have "\<not> length (wire_text (acc @ e # es)) \<le> MAX_BAGGAGE_BYTES"
      using False wire_text_subseq_length [of "acc @ [e]" es] by simp
    ultimately show ?thesis using Cons.IH [of acc] Cons.prems by auto
  qed
qed

lemma inject_text_wire:
  assumes "\<And>e. e \<in> set es \<Longrightarrow> representable e"
  obtains ks where "subseq ks es" "inject_text (\<lambda>_. True) es = wire_text ks"
    "length (wire_text es) \<le> MAX_BAGGAGE_BYTES \<Longrightarrow> ks = es"
  using inject_fold_wire [of es "[]"] assms by (auto simp: inject_text_def)

lemma inject_text_bounded: "length (inject_text al es) \<le> MAX_BAGGAGE_BYTES"
proof -
  have "length acc \<le> MAX_BAGGAGE_BYTES \<Longrightarrow> length (fold (inject_step al) es acc) \<le> MAX_BAGGAGE_BYTES" for acc
  proof (induction es arbitrary: acc)
    case Nil
    then show ?case by simp
  next
    case (Cons e es)
    from Cons.prems have "length (inject_step al e acc) \<le> MAX_BAGGAGE_BYTES"
      by (auto simp: inject_step_def Let_def split: option.splits)
    from Cons.IH [OF this] show ?case by simp
  qed
  then show ?thesis by (simp add: inject_text_def)
qed

section \<open>Extraction reads the text back\<close>

lemma parse_member_Nil: "parse_member al [] = None"
  by (simp add: parse_member_def trim_def)

lemma extract_fold_wire:
  assumes "\<And>e. e \<in> set es \<Longrightarrow> representable e" and "distinct (map be_key (acc @ es))"
    and "length (acc @ es) \<le> MAX_BAGGAGE_ITEMS"
  shows "fold (extract_step (\<lambda>_. True)) (map member_text es) acc = acc @ es"
  using assms
proof (induction es arbitrary: acc)
  case Nil
  then show ?case by simp
next
  case (Cons e es)
  have "parse_member (\<lambda>_. True) (member_text e) = Some e"
    using Cons.prems(1) by (intro parse_member_member_text) simp
  moreover have "position (\<lambda>x. be_key x = be_key e) acc = None"
    unfolding position_None_iff using Cons.prems(2) by (simp add: image_iff) metis
  ultimately have "extract_step (\<lambda>_. True) (member_text e) acc = acc @ [e]"
    using Cons.prems(3) by (simp add: extract_step_def)
  with Cons.IH [of "acc @ [e]"] Cons.prems show ?case by simp
qed

lemma extract_entries_wire:
  assumes "\<And>e. e \<in> set es \<Longrightarrow> representable e" and "distinct (map be_key es)"
    and "length es \<le> MAX_BAGGAGE_ITEMS"
  shows "extract_entries (\<lambda>_. True) (wire_text es) = es"
proof (cases "es = []")
  case True
  then show ?thesis by (simp add: extract_entries_def extract_step_def parse_member_Nil)
next
  case False
  have "split_on 0x2C (wire_text es) = map member_text es"
    unfolding wire_text_def using False assms(1) member_text_bytes
    by (intro split_on_join) auto
  then show ?thesis
    using extract_fold_wire [of es "[]"] assms by (simp add: extract_entries_def)
qed

lemma wire_text_bytes:
  assumes "\<And>e. e \<in> set es \<Longrightarrow> representable e" and "b \<in> set (wire_text es)"
  shows "graphic b"
  using assms
proof (induction es)
  case Nil
  then show ?case by simp
next
  case (Cons e es)
  then show ?case
    using member_text_bytes [of e b] graphic_separators
    by (cases "es = []") auto
qed

lemma distinct_subseq: "subseq ks es \<Longrightarrow> distinct (map f es) \<Longrightarrow> distinct (map f ks)"
  by (induction rule: list_emb.induct) (auto dest: list_emb_set)

section \<open>Extraction stays within the limits\<close>

text \<open>Lossy decoding replaces at least one byte outside ASCII by three bytes; such a byte took
  three bytes in the header, so no decoded value is longer than its raw text.\<close>

definition lossy_weight :: "byte \<Rightarrow> nat" where
  "lossy_weight b = (if b \<le> 0x7F then 1 else 3)"

lemma lossy_weight_ge: "length bs \<le> sum_list (map lossy_weight bs)"
  by (induction bs) (auto simp: lossy_weight_def)

lemma utf8_next_not_Good_head:
  "bs \<noteq> [] \<Longrightarrow> (\<And>n. utf8_next bs \<noteq> Good n) \<Longrightarrow> \<not> hd bs \<le> 0x7F"
proof (cases bs)
  case (Cons a as)
  assume "\<And>n. utf8_next bs \<noteq> Good n"
  from this [of 1] Cons show ?thesis by (auto simp: utf8_width_def)
qed simp

lemma length_utf8_lossy: "length (utf8_lossy bs) \<le> sum_list (map lossy_weight bs)"
proof (induction bs rule: utf8_lossy.induct)
  case (1 bs)
  show ?case
  proof (cases "bs = []")
    case True
    then show ?thesis by simp
  next
    case False
    have split: "sum_list (map lossy_weight bs) =
        sum_list (map lossy_weight (take n bs)) + sum_list (map lossy_weight (drop n bs))" for n
      by (metis append_take_drop_id map_append sum_list_append)
    have head: "sum_list (map lossy_weight (take n bs)) \<ge> 3" if "\<And>n. utf8_next bs \<noteq> Good n" "0 < n" for n
      using utf8_next_not_Good_head [OF False that(1)] False that(2)
      by (cases bs; cases n) (auto simp: lossy_weight_def)
    show ?thesis
    proof (cases "utf8_next bs")
      case (Good n)
      with 1(1) [OF False Good] False split [of n] lossy_weight_ge [of "take n bs"]
      show ?thesis by (subst utf8_lossy.simps) simp
    next
      case (Bad n)
      with 1(2) [OF False Bad] False split [of n] head [of n] utf8_next_BadD [OF Bad]
      show ?thesis by (subst utf8_lossy.simps) (simp add: replacement_char_def)
    next
      case Incomplete
      with False split [of "length bs"] head [of "length bs"]
      show ?thesis by (subst utf8_lossy.simps) (simp add: replacement_char_def)
    qed
  qed
qed

lemma percent_decode_weight:
  "percent_decode_bytes raw = Some v \<Longrightarrow> (\<And>b. b \<in> set raw \<Longrightarrow> b \<le> 0x7F) \<Longrightarrow>
     sum_list (map lossy_weight v) \<le> length raw"
proof (induction raw arbitrary: v rule: percent_decode_bytes.induct)
  case 1
  then show ?case by simp
next
  case (2 b bs)
  show ?case
  proof (cases "b = 0x25")
    case False
    with 2 show ?thesis by (force simp: lossy_weight_def)
  next
    case True
    have w: "lossy_weight x \<le> 3" for x by (simp add: lossy_weight_def)
    from True 2(3) obtain c1 c2 rest h l v' where *: "bs = c1 # c2 # rest" "to_digit16 c1 = Some h"
        "to_digit16 c2 = Some l" "percent_decode_bytes rest = Some v'" "v = (push_bit 4 h OR l) # v'"
      by (auto split: list.splits option.splits)
    have "sum_list (map lossy_weight v') \<le> length rest"
      using 2(1) [OF True *(1) refl *(2,3,4)] 2(4) * by auto
    with * w [of "push_bit 4 h OR l"] show ?thesis by simp
  qed
qed

lemma percent_decode_length:
  assumes "percent_decode al raw = Some v" and "list_all is_value_byte raw"
  shows "length v \<le> length raw" and "valid_utf8 v"
proof -
  obtain d where d: "percent_decode_bytes raw = Some d" "v = utf8_lossy d"
    using assms(1) by (auto simp: percent_decode_def split: if_splits)
  have "\<And>b. b \<in> set raw \<Longrightarrow> b \<le> 0x7F"
    using assms(2) value_byte_facts(1) graphic_ascii by (auto simp: list_all_iff)
  from percent_decode_weight [OF d(1) this] length_utf8_lossy [of d] d(2) show "length v \<le> length raw"
    by simp
  show "valid_utf8 v" using d(2) valid_utf8_lossy by simp
qed

lemma parse_properties_length:
  "parse_properties ps md = Some m \<Longrightarrow> length m \<le> length md + sum_list (map (\<lambda>p. Suc (length p)) ps)"
proof (induction ps arbitrary: md)
  case Nil
  then show ?case by simp
next
  case (Cons p ps)
  then show ?case
    using length_trim [of p]
    by (fastforce simp: Let_def split: if_splits)
qed

lemma length_split_on: "sum_list (map (\<lambda>p. Suc (length p)) (split_on d bs)) = Suc (length bs)"
proof (induction bs)
  case Nil
  then show ?case by simp
next
  case (Cons b bs)
  obtain q qs where "split_on d bs = q # qs"
    using split_on_not_Nil by (cases "split_on d bs") auto
  with Cons show ?case by auto
qed

lemma parse_member_SomeD:
  assumes "parse_member al member = Some e"
  shows "representable e" and "entry_bytes e < length member"
proof -
  obtain first parts where sp: "split_on 0x3B member = first # parts"
    using split_on_not_Nil by (cases "split_on 0x3B member") auto
  from assms sp obtain k v where kv: "split_once 0x3D (trim first) = Some (k, v)"
      "trim k \<noteq> []" "list_all is_token_byte (trim k)" "list_all is_value_byte (trim v)"
      "be_key e = trim k" "percent_decode al (trim v) = Some (be_value e)"
      "parse_properties parts [] = Some (be_metadata e)"
    by (auto simp: parse_member_def Let_def split: option.splits if_splits)
  have "wire_metadata (be_metadata e)"
    using parse_properties_InvD [OF kv(7)] by (simp add: wire_metadata_def)
  with kv percent_decode_length [OF kv(6,4)] show "representable e"
    by (simp add: representable_def)
  have "trim first = k @ 0x3D # v" using split_once_SomeD [OF kv(1)] by simp
  then have "length k + length v + 1 \<le> length first"
    using length_trim [of first] by simp
  moreover have "length (be_metadata e) \<le> sum_list (map (\<lambda>p. Suc (length p)) parts)"
    using parse_properties_length [OF kv(7)] by simp
  moreover have "Suc (length first) + sum_list (map (\<lambda>p. Suc (length p)) parts) = Suc (length member)"
    using length_split_on [of "0x3B" member] sp by simp
  ultimately show "entry_bytes e < length member"
    using percent_decode_length(1) [OF kv(6,4)] length_trim [of k] length_trim [of v] kv(5)
    by (simp add: entry_bytes_def)
qed

lemma representable_entry_ok: "representable e \<Longrightarrow> entry_ok e"
  using token_byte_facts(1) graphic_ascii wire_metadata_bytes
  by (auto simp: representable_def entry_ok_def list_all_iff intro!: valid_utf8_ascii)

definition extracted_ok :: "baggage_entry list \<Rightarrow> bool" where
  "extracted_ok es \<longleftrightarrow> length es \<le> MAX_BAGGAGE_ITEMS \<and> distinct (map be_key es) \<and>
     (\<forall>e \<in> set es. representable e)"

lemma extract_step_ok:
  assumes "extracted_ok es"
  shows "extracted_ok (extract_step al m es)" and "stored_bytes (extract_step al m es) \<le> stored_bytes es + length m"
proof -
  have "extracted_ok (extract_step al m es) \<and> stored_bytes (extract_step al m es) \<le> stored_bytes es + length m"
  proof (cases "parse_member al m")
    case None
    with assms show ?thesis by (simp add: extract_step_def)
  next
    case (Some e)
    note e = parse_member_SomeD [OF Some]
    show ?thesis
    proof (cases "position (\<lambda>x. be_key x = be_key e) es")
      case None
      then have "be_key e \<notin> be_key ` set es" by (auto simp: position_None_iff)
      with None Some e assms show ?thesis
        by (auto simp: extract_step_def extracted_ok_def)
    next
      case (Some i)
      then have up: "extract_step al m es = upsert be_key e es"
        using \<open>parse_member al m = Some e\<close> by (simp add: extract_step_def upsert_def)
      from position_SomeD [OF Some] have i: "i < length es" by simp
      have "upsert be_key e es = es[i := e]" using Some by (simp add: upsert_def)
      moreover from this have "stored_bytes (upsert be_key e es) \<le> stored_bytes es + entry_bytes e"
        using sum_list_update_nat [OF i, of entry_bytes e] by (simp add: stored_bytes_def)
      ultimately show ?thesis
        using up e assms set_upsert_subset [of be_key e es] distinct_upsert [of be_key es e]
        by (auto simp: extracted_ok_def)
    qed
  qed
  then show "extracted_ok (extract_step al m es)"
    "stored_bytes (extract_step al m es) \<le> stored_bytes es + length m" by auto
qed

lemma extract_fold_ok:
  "extracted_ok es \<Longrightarrow> extracted_ok (fold (extract_step al) ms es) \<and>
     stored_bytes (fold (extract_step al) ms es) \<le> stored_bytes es + sum_list (map length ms)"
proof (induction ms arbitrary: es)
  case Nil
  then show ?case by simp
next
  case (Cons m ms)
  from Cons.IH [OF extract_step_ok(1) [OF Cons.prems, of al m]] extract_step_ok(2) [OF Cons.prems, of al m]
  show ?case by simp
qed

lemma extract_entries_ok:
  assumes "length hdr \<le> MAX_BAGGAGE_BYTES"
  shows "entries_ok (extract_entries al hdr)" and "\<And>e. e \<in> set (extract_entries al hdr) \<Longrightarrow> representable e"
proof -
  have "extracted_ok []" by (simp add: extracted_ok_def)
  from extract_fold_ok [OF this, of al "split_on 0x2C hdr"]
  have e: "extracted_ok (extract_entries al hdr)"
    "stored_bytes (extract_entries al hdr) \<le> sum_list (map length (split_on 0x2C hdr))"
    by (auto simp: extract_entries_def)
  have "sum_list (map length ps) \<le> sum_list (map (\<lambda>p. Suc (length p)) ps) - 1" if "ps \<noteq> []" for ps :: "bytes list"
    using that by (induction ps rule: list_nonempty_induct) auto
  from this [OF split_on_not_Nil, of "0x2C" hdr] length_split_on [of "0x2C" hdr]
  have "sum_list (map length (split_on 0x2C hdr)) \<le> length hdr" by simp
  with e assms show "entries_ok (extract_entries al hdr)"
    using representable_entry_ok by (auto simp: entries_ok_def extracted_ok_def)
  show "\<And>e. e \<in> set (extract_entries al hdr) \<Longrightarrow> representable e"
    using e(1) by (simp add: extracted_ok_def)
qed


section \<open>The entry points\<close>

lemma extract_inv:
  assumes "api_inv s" and "otel_baggage_propagation_extract al hdr out_null s = (st, out, s')"
  shows "api_inv s'"
proof (cases "str_from_view hdr ''baggage header is invalid UTF-8''")
  case (Inl e)
  have "entries_ok []" by (simp add: entries_ok_def)
  with Inl assms new_baggage_inv [of "clear_last_error s" "[]"] show ?thesis
    by (cases e) (auto simp: otel_baggage_propagation_extract_def Let_def fail_out_def split: if_splits)
next
  case (Inr t)
  have e: "entries_ok []" by (simp add: entries_ok_def)
  have "length t \<le> unat (sv_len hdr)"
    using Inr by (auto simp: str_from_view_def Let_def split: if_splits)
  then have "unat (sv_len hdr) \<le> MAX_BAGGAGE_BYTES \<Longrightarrow> entries_ok (extract_entries al t)"
    by (intro extract_entries_ok) simp
  with Inr e assms new_baggage_inv [of "clear_last_error s"] show ?thesis
    by (auto simp: otel_baggage_propagation_extract_def Let_def fail_out_def split: if_splits)
qed

lemma inject_frame:
  assumes "otel_baggage_propagation_inject al p buffer_null capacity out_len_null s = Some (st, out, s')"
  shows "objs s' = objs s \<and> next_addr s' = next_addr s \<and> store.more s' = store.more s"
  using assms checked_as_frame [of KIND_BAGGAGE as_baggage p "clear_last_error s"]
  by (fastforce simp: otel_baggage_propagation_inject_def Let_def fail_out_def
      split: option.splits prod.splits if_splits)

lemma inject_defined:
  "api_inv s \<Longrightarrow> valid_ptr s p \<Longrightarrow>
     otel_baggage_propagation_inject al p buffer_null capacity out_len_null s \<noteq> None"
  using hb.checked_defined [of "clear_last_error s" p]
  by (cases out_len_null)
    (auto simp: otel_baggage_propagation_inject_def api_inv_wf Let_def fail_out_def split: option.splits)

lemma inject_run:
  assumes "api_inv s" and "points_to s p (P_Baggage es)" and "length (inject_text (\<lambda>_. True) es) \<le> capacity"
  shows "otel_baggage_propagation_inject (\<lambda>_. True) p False capacity False s =
     Some (St_Ok, (Some (length (inject_text (\<lambda>_. True) es)), Some (inject_text (\<lambda>_. True) es)), clear_last_error s)"
  using hb.checked_as_points_to [of "clear_last_error s" p es] assms
  by (simp add: otel_baggage_propagation_inject_def Let_def api_inv_wf)

lemma length_sv_of: "length t \<le> isize_max \<Longrightarrow> unat (sv_len (sv_of t)) = length t"
  by (simp add: sv_of_def isize_max_def unat_word_of_nat64)

lemma str_from_view_sv_of:
  assumes "length t \<le> isize_max" and "valid_utf8 t"
  shows "str_from_view (sv_of t) f = Inr t"
proof -
  have "(word_of_nat (length t) :: usize) = 0 \<longleftrightarrow> t = []"
    using length_sv_of [OF assms(1)] by (metis length_0_conv otel_string_view.select_convs(2) sv_of_def unat_eq_zero)
  then show ?thesis
    using assms length_sv_of [OF assms(1)] by (auto simp: str_from_view_def sv_of_def Let_def)
qed

lemma extract_run:
  assumes "length t \<le> MAX_BAGGAGE_BYTES" and "valid_utf8 t"
  shows "otel_baggage_propagation_extract (\<lambda>_. True) (sv_of t) False s =
     (St_Ok, Some (Some (next_addr s)), snd (new_baggage (extract_entries (\<lambda>_. True) t) (clear_last_error s)))"
proof -
  have "length t \<le> isize_max" using assms(1) by (simp add: isize_max_def MAX_BAGGAGE_BYTES_def)
  with assms length_sv_of str_from_view_sv_of show ?thesis
    by (simp add: otel_baggage_propagation_extract_def Let_def view_shape_is_valid_def)
      (simp add: sv_of_def new_baggage_def)
qed

section \<open>Properties\<close>

text \<open>
  C4: Injection and extraction form a round trip. A live baggage whose entries the header can
  represent is injected as printable text of at most 8192 bytes, and extracting that text yields
  a fresh live handle on a subsequence of the entries; on exactly the same entries when the
  whole text fits in the limit. The injected handle itself is untouched.
\<close>

theorem baggage_inject_extract_roundtrip:
  assumes "api_inv s" and "points_to s p (P_Baggage es)" and "\<forall>e \<in> set es. representable e"
  shows "\<exists>len text s1 q s2 ks.
     otel_baggage_propagation_inject (\<lambda>_. True) p False 8192 False s = Some (St_Ok, (Some len, Some text), s1) \<and>
     len = length text \<and> len \<le> 8192 \<and> (\<forall>b \<in> set text. graphic b) \<and>
     otel_baggage_propagation_extract (\<lambda>_. True) (sv_of text) False s1 = (St_Ok, Some q, s2) \<and>
     points_to s2 q (P_Baggage ks) \<and> points_to s2 p (P_Baggage es) \<and> q \<noteq> p \<and>
     subseq ks es \<and> (length (wire_text es) \<le> 8192 \<longrightarrow> ks = es)"
proof -
  have ok: "entries_ok es" using api_inv_points_to [OF assms(1,2)] by simp
  obtain ks where ks: "subseq ks es" "inject_text (\<lambda>_. True) es = wire_text ks"
      "length (wire_text es) \<le> MAX_BAGGAGE_BYTES \<Longrightarrow> ks = es"
    using inject_text_wire [of es] assms(3) by blast
  let ?t = "wire_text ks"
  have rk: "\<And>e. e \<in> set ks \<Longrightarrow> representable e"
    using assms(3) list_emb_set [OF ks(1)] by fastforce
  have le: "length ?t \<le> 8192"
    using inject_text_bounded [of "\<lambda>_. True" es] ks(2) by (simp add: MAX_BAGGAGE_BYTES_def)
  have g: "\<forall>b \<in> set ?t. graphic b" using wire_text_bytes rk by blast
  have "length ks \<le> MAX_BAGGAGE_ITEMS" "distinct (map be_key ks)"
    using ok list_emb_length [OF ks(1)] distinct_subseq [OF ks(1)] by (auto simp: entries_ok_def)
  then have ex: "extract_entries (\<lambda>_. True) ?t = ks" by (intro extract_entries_wire rk)
  have inj: "otel_baggage_propagation_inject (\<lambda>_. True) p False 8192 False s =
      Some (St_Ok, (Some (length ?t), Some ?t), clear_last_error s)"
    using inject_run [OF assms(1,2), of 8192] le by (simp add: ks(2))
  have "valid_utf8 ?t" using g graphic_ascii by (intro valid_utf8_ascii) blast
  then have run: "otel_baggage_propagation_extract (\<lambda>_. True) (sv_of ?t) False (clear_last_error s) =
      (St_Ok, Some (Some (next_addr s)), snd (new_baggage ks (clear_last_error (clear_last_error s))))"
    using extract_run [of ?t "clear_last_error s"] le ex by (simp add: MAX_BAGGAGE_BYTES_def)
  have fr: "objs s (next_addr s) = None" using wf_store_fresh [OF api_inv_wf [OF assms(1)]] .
  have "points_to (snd (new_baggage ks (clear_last_error (clear_last_error s)))) (Some (next_addr s)) (P_Baggage ks)"
    "points_to (snd (new_baggage ks (clear_last_error (clear_last_error s)))) p (P_Baggage es)"
    "p \<noteq> Some (next_addr s)"
    using fr assms(2) by (auto simp: new_baggage_def points_to_def split: option.splits)
  with inj run g le ks(1,3) show ?thesis
    by (auto simp: MAX_BAGGAGE_BYTES_def)
qed

text \<open>A baggage handle for the witnesses: the entry \<open>k = v w\<close> with the property \<open>p\<close>.\<close>

definition sample_entry :: baggage_entry where
  "sample_entry = \<lparr>be_key = [0x6B], be_value = [0x76, 0x20, 0x77], be_metadata = [0x70]\<rparr>"

definition sample_baggage_store :: "api_payload store" where
  "sample_baggage_store = snd (new_baggage [sample_entry] initial_store)"

lemma sample_entry_representable: "representable sample_entry"
  by (simp add: representable_def sample_entry_def is_token_byte_def wire_metadata_def property_ok_def
      valid_utf8_ascii_Cons)

lemma sample_baggage_facts:
  "api_inv sample_baggage_store" "points_to sample_baggage_store (Some 1) (P_Baggage [sample_entry])"
proof -
  have "entry_ok sample_entry" by (intro representable_entry_ok sample_entry_representable)
  then have "entries_ok [sample_entry]"
    by (simp add: entries_ok_def MAX_BAGGAGE_ITEMS_def MAX_BAGGAGE_BYTES_def entry_bytes_def sample_entry_def)
  then show "api_inv sample_baggage_store"
    unfolding sample_baggage_store_def by (intro new_baggage_inv api_inv_initial)
  show "points_to sample_baggage_store (Some 1) (P_Baggage [sample_entry])"
    by (simp add: sample_baggage_store_def new_baggage_def points_to_def initial_store_def)
qed

lemma sample_wire_text:
  "wire_text [sample_entry] = [0x6B, 0x3D, 0x76, 0x25, 0x32, 0x30, 0x77, 0x3B, 0x70]"
proof -
  have "unat (drop_bit 4 (0x20 :: byte)) = 2" "unat ((0x20 :: byte) AND 15) = 0"
    by simp_all
  then have "encode_value [0x76, 0x20, 0x77] = [0x76, 0x25, 0x32, 0x30, 0x77]"
    by (simp add: encode_value_def encode_byte_def is_plain_byte_def HEX_UPPER_def)
  then show ?thesis by (simp add: member_text_def sample_entry_def)
qed

theorem baggage_inject_extract_roundtrip_witness:
  "\<exists>s1 q s2. otel_baggage_propagation_inject (\<lambda>_. True) (Some 1) False 8192 False sample_baggage_store
        = Some (St_Ok, (Some 9, Some [0x6B, 0x3D, 0x76, 0x25, 0x32, 0x30, 0x77, 0x3B, 0x70]), s1) \<and>
      otel_baggage_propagation_extract (\<lambda>_. True)
          (sv_of [0x6B, 0x3D, 0x76, 0x25, 0x32, 0x30, 0x77, 0x3B, 0x70]) False s1 = (St_Ok, Some q, s2) \<and>
      points_to s2 q (P_Baggage [sample_entry])"
proof -
  have "inject_text (\<lambda>_. True) [sample_entry] = wire_text [sample_entry]"
    using inject_text_wire [of "[sample_entry]"] sample_entry_representable sample_wire_text
    by (fastforce simp: MAX_BAGGAGE_BYTES_def)
  then have run: "otel_baggage_propagation_inject (\<lambda>_. True) (Some 1) False 8192 False sample_baggage_store
      = Some (St_Ok, (Some (length (wire_text [sample_entry])), Some (wire_text [sample_entry])),
              clear_last_error sample_baggage_store)"
    using inject_run [OF sample_baggage_facts, of 8192] sample_wire_text by (simp del: One_nat_def)
  have fits: "length (wire_text [sample_entry]) \<le> 8192" by (simp only: sample_wire_text) simp
  from baggage_inject_extract_roundtrip [OF sample_baggage_facts] sample_entry_representable run fits
  show ?thesis unfolding sample_wire_text by fastforce
qed

text \<open>
  Extraction never fails on a readable header and never exceeds the limits: any valid UTF-8
  text, well formed or not, yields a live baggage that satisfies the limits of the builder and
  whose entries can all be injected again; text over 8192 bytes yields the empty baggage.
\<close>

theorem baggage_extract_total:
  assumes "valid_utf8 text" and "length text \<le> isize_max"
  shows "\<exists>q s' es. otel_baggage_propagation_extract (\<lambda>_. True) (sv_of text) False s = (St_Ok, Some q, s') \<and>
     points_to s' q (P_Baggage es) \<and> entries_ok es \<and> (\<forall>e \<in> set es. representable e) \<and>
     (length text > 8192 \<longrightarrow> es = [])"
proof (cases "length text \<le> MAX_BAGGAGE_BYTES")
  case True
  note run = extract_run [OF True assms(1), of s]
  have "points_to (snd (new_baggage (extract_entries (\<lambda>_. True) text) (clear_last_error s)))
      (Some (next_addr s)) (P_Baggage (extract_entries (\<lambda>_. True) text))"
    by (simp add: new_baggage_def points_to_def)
  with run extract_entries_ok [OF True] True show ?thesis
    by (auto simp: MAX_BAGGAGE_BYTES_def)
next
  case False
  then have "otel_baggage_propagation_extract (\<lambda>_. True) (sv_of text) False s =
      (St_Ok, Some (Some (next_addr s)), snd (new_baggage [] (clear_last_error s)))"
    using length_sv_of [OF assms(2)]
    by (simp add: otel_baggage_propagation_extract_def Let_def view_shape_is_valid_def)
      (simp add: sv_of_def new_baggage_def)
  then show ?thesis
    by (auto simp: new_baggage_def points_to_def entries_ok_def)
qed

theorem baggage_extract_total_witness:
  "\<exists>q s' es. otel_baggage_propagation_extract (\<lambda>_. True) (sv_of [0x3B, 0x2C, 0x3D]) False initial_store
       = (St_Ok, Some q, s') \<and> points_to s' q (P_Baggage es) \<and> entries_ok es"
  using baggage_extract_total [of "[0x3B, 0x2C, 0x3D]" initial_store]
  by (fastforce simp: valid_utf8_ascii_Cons isize_max_def)

text \<open>
  Duplicate keys: the last member wins. For a header of at most 64 members, the content of
  the extracted baggage is the map that binds each key of the members that parse to the value
  and metadata of its last occurrence; members that do not parse leave no trace.
\<close>

theorem extract_last_wins:
  assumes "length (split_on 0x2C hdr) \<le> 64"
  shows "baggage_map (extract_entries al hdr) =
     map_of (rev (map (\<lambda>e. (be_key e, (be_value e, be_metadata e)))
                      (List.map_filter (parse_member al) (split_on 0x2C hdr))))"
proof -
  let ?f = "\<lambda>e. (be_key e, (be_value e, be_metadata e))"
  have "baggage_map (fold (extract_step al) ms es) =
      baggage_map es ++ map_of (rev (map ?f (List.map_filter (parse_member al) ms)))"
    if "length es + length ms \<le> 64" for ms es
    using that
  proof (induction ms arbitrary: es)
    case Nil
    then show ?case by simp
  next
    case (Cons m ms)
    show ?case
    proof (cases "parse_member al m")
      case None
      with Cons show ?thesis by (simp add: extract_step_def)
    next
      case (Some e)
      have up: "extract_step al m es = upsert be_key e es"
        using Some Cons.prems by (simp add: extract_step_def upsert_def MAX_BAGGAGE_ITEMS_def split: option.splits)
      have "length (upsert be_key e es) \<le> Suc (length es)" by (simp add: upsert_def split: option.splits)
      with Cons.prems have le: "length (upsert be_key e es) + length ms \<le> 64" by simp
      have ov: "(M(k \<mapsto> v)) ++ N = M ++ ([k \<mapsto> v] ++ N)" for M N :: "bytes \<rightharpoonup> bytes \<times> bytes" and k v
        by (simp add: map_add_def fun_eq_iff split: option.splits)
      show ?thesis
        using Cons.IH [OF le] Some ov [of "baggage_map es" "be_key e"] by (simp add: up baggage_map_upsert fun_upd_def)
    qed
  qed
  from this [of "[]" "split_on 0x2C hdr"] assms show ?thesis
    by (simp add: extract_entries_def baggage_map_def [abs_def] map_add_def)
qed


theorem extract_last_wins_witness:
  "baggage_map (extract_entries (\<lambda>_. True) [0x6B, 0x3D, 0x61, 0x2C, 0x2C, 0x6B, 0x3D, 0x62]) [0x6B] = Some ([0x62], [])"
proof -
  have p: "parse_member (\<lambda>_. True) [0x6B, 0x3D, b] = Some \<lparr>be_key = [0x6B], be_value = [b], be_metadata = []\<rparr>"
    if "b = 0x61 \<or> b = 0x62" for b
    using parse_member_text [of "[0x6B]" "[b]" "[]" "\<lambda>_. True"] that
    by (auto simp: is_token_byte_def is_value_byte_def wire_metadata_def percent_decode_def
        utf8_lossy_valid_id valid_utf8_ascii_Cons)
  have sp: "split_on 0x2C [0x6B, 0x3D, 0x61, 0x2C, 0x2C, 0x6B, 0x3D, 0x62] = [[0x6B, 0x3D, 0x61], [], [0x6B, 0x3D, 0x62]]"
    by simp
  show ?thesis
    using extract_last_wins [of "[0x6B, 0x3D, 0x61, 0x2C, 0x2C, 0x6B, 0x3D, 0x62]" "\<lambda>_. True"]
    unfolding sp by (simp add: p parse_member_Nil List.map_filter_def)
qed

lemma trim_start_ws: "list_all is_ws1 ws \<Longrightarrow> trim_start (ws @ t) = trim_start t"
proof (induction ws)
  case (Cons w ws)
  then show ?case by (cases "ws @ t" rule: trim_start.cases) auto
qed simp

lemma trim_leading_ws:
  assumes "list_all is_ws1 ws" and "\<forall>b \<in> set t. graphic b"
  shows "trim (ws @ t) = t"
  using trim_all_graphic [of t] assms by (simp add: trim_def trim_start_ws)

lemma ws1_facts: "is_ws1 b \<Longrightarrow> b \<le> 0x7F \<and> b \<noteq> 0x3B"
  by (auto simp: is_ws1_def word_le_nat_alt)

text \<open>Metadata of white space and a token passes the probe.\<close>

lemma padded_probe:
  assumes "list_all is_ws1 ws" and "tok \<noteq> []" and "list_all is_token_byte tok"
  shows "parse_member (\<lambda>_. True) (metadata_probe (ws @ tok)) \<noteq> None"
proof -
  have g: "\<forall>b \<in> set tok. graphic b \<and> b \<noteq> 0x3D \<and> b \<noteq> 0x3B" using assms(3) token_byte_facts by (auto simp: list_all_iff)
  then have "0x3B \<notin> set (ws @ tok)" using assms(1) ws1_facts by (auto simp: list_all_iff)
  then have "split_on 0x3B (ws @ tok) = [ws @ tok]" by simp
  then have sp: "split_on 0x3B (metadata_probe (ws @ tok)) = [[0x6B, 0x3D, 0x76], ws @ tok]"
    by (simp add: metadata_probe_def)
  have t: "trim (ws @ tok) = tok" using g by (intro trim_leading_ws [OF assms(1)]) blast
  have "split_once 0x3D tok = None" using g by (auto simp: split_once_None_iff)
  then have "property_ok tok" using assms(2,3) by (simp add: property_ok_def)
  moreover have "trim [0x6B, 0x3D, 0x76] = [0x6B, 0x3D, 0x76]" "trim [0x6B] = [0x6B]" "trim [0x76] = [0x76]"
    by (simp_all add: trim_def is_ws1_def is_ws2_def is_ws3_def)
  ultimately show ?thesis
    by (simp add: parse_member_def sp t is_token_byte_def is_value_byte_def percent_decode_def)
qed

text \<open>
  C38: Metadata that came through the builder is probed for its syntax after white space has been
  trimmed from each property, but it is written untrimmed. Whatever white space precedes a token in the metadata
  that \<open>otel_baggage_builder_set\<close> stores, line breaks included, reaches the header text unchanged: set, build and inject
  all succeed, and the injected member ends in this very white space and the token. With CR LF CR LF as the white space
  the header holds raw line breaks, although \<open>encoded_member\<close> means to emit only metadata that is a valid W3C property
  list, which knows spaces and tabs but no line breaks.
\<close>

theorem inject_emits_line_breaks:
  assumes "api_inv s" and "points_to s p (P_BaggageBuilder [])"
    and "k \<noteq> []" and "list_all is_token_byte k" and "valid_utf8 v"
    and "list_all is_ws1 ws" and "tok \<noteq> []" and "list_all is_token_byte tok"
    and "length k + 3 * length v + length ws + length tok + 2 \<le> 8192"
  shows "\<exists>s1 q s2 s3.
     otel_baggage_builder_set (\<lambda>_. True) p (sv_of k) (sv_of v) (sv_of (ws @ tok)) s = Some (St_Ok, s1) \<and>
     otel_baggage_builder_build (\<lambda>_. True) p False s1 = Some (St_Ok, Some q, s2) \<and>
     (let text = k @ [0x3D] @ encode_value v @ [0x3B] @ ws @ tok in
        otel_baggage_propagation_inject (\<lambda>_. True) q False 8192 False s2 =
          Some (St_Ok, (Some (length text), Some text), s3))"
proof -
  let ?m = "ws @ tok" and ?e = "\<lparr>be_key = k, be_value = v, be_metadata = ws @ tok\<rparr>"
  let ?t = "k @ [0x3D] @ encode_value v @ [0x3B] @ ws @ tok"
  have tb: "\<forall>b \<in> set t. b \<le> 0x7F" if "list_all is_token_byte t" for t
    using that token_byte_facts(1) graphic_ascii by (fastforce simp: list_all_iff)
  have u: "valid_utf8 k" "valid_utf8 ?m"
    using tb [OF assms(4)] tb [OF assms(8)] assms(6) ws1_facts
    by (auto intro!: valid_utf8_ascii simp: list_all_iff)
  have "builder_set_entries (\<lambda>_. True) (sv_of k) (sv_of v) (sv_of ?m) [] = Inr [?e]"
    using assms(3,5,9) u
    by (simp add: builder_set_entries_run builder_store_entry_def MAX_BAGGAGE_BYTES_def MAX_BAGGAGE_ITEMS_def entry_bytes_def)
  then have r1: "otel_baggage_builder_set (\<lambda>_. True) p (sv_of k) (sv_of v) (sv_of ?m) s =
      Some (St_Ok, put_ptr p (P_BaggageBuilder [?e]) (clear_last_error s))" (is "_ = Some (_, ?s1)")
    by (simp add: builder_set_run [OF assms(1,2)])
  have inv1: "api_inv ?s1" by (rule builder_set_inv [OF assms(1) r1])
  have pt1: "points_to ?s1 p (P_BaggageBuilder [?e])"
    using points_to_putI [of "clear_last_error s" p "P_BaggageBuilder []"] assms(2) by simp
  have r2: "otel_baggage_builder_build (\<lambda>_. True) p False ?s1 =
      Some (St_Ok, Some (Some (next_addr ?s1)), snd (new_baggage [?e] (clear_last_error ?s1)))" (is "_ = Some (_, _, ?s2)")
    by (rule builder_build_run [OF inv1 pt1]) simp
  have pt2: "points_to ?s2 (Some (next_addr ?s1)) (P_Baggage [?e])" by (simp add: new_baggage_def points_to_def)
  have "length (encode_value v) \<le> 3 * length v"
    by (induction v) (auto simp: encode_value_def encode_byte_def)
  then have le: "length ?t \<le> 8192" using assms(9) by simp
  have "encoded_member (\<lambda>_. True) ?e = Some ?t"
    using assms(3,4,7) padded_probe [OF assms(6-8)] by (auto simp: encoded_member_def)
  then have it: "inject_text (\<lambda>_. True) [?e] = ?t"
    using le by (simp add: inject_text_def inject_step_def MAX_BAGGAGE_BYTES_def)
  have "otel_baggage_propagation_inject (\<lambda>_. True) (Some (next_addr ?s1)) False 8192 False ?s2 =
      Some (St_Ok, (Some (length ?t), Some ?t), clear_last_error ?s2)"
    using inject_run [OF builder_build_inv [OF inv1 r2] pt2, of 8192] le by (simp only: it)
  with r1 r2 show ?thesis by (auto simp: Let_def)
qed

theorem inject_emits_line_breaks_witness:
  "\<exists>s1 q s2 s3.
     otel_baggage_builder_set (\<lambda>_. True) (Some 1) (sv_of [0x6B]) (sv_of [0x76]) (sv_of [0x0D, 0x0A, 0x0D, 0x0A, 0x61]) builder_store =
       Some (St_Ok, s1) \<and>
     otel_baggage_builder_build (\<lambda>_. True) (Some 1) False s1 = Some (St_Ok, Some q, s2) \<and>
     otel_baggage_propagation_inject (\<lambda>_. True) q False 8192 False s2 =
       Some (St_Ok, (Some (length [0x6B, 0x3D, 0x76, 0x3B, 0x0D, 0x0A, 0x0D, 0x0A, 0x61 :: byte]),
         Some [0x6B, 0x3D, 0x76, 0x3B, 0x0D, 0x0A, 0x0D, 0x0A, 0x61]), s3)"
proof -
  have "encode_value [0x76] = [0x76]" by (simp add: encode_value_def encode_byte_def is_plain_byte_def)
  with inject_emits_line_breaks [OF builder_store_facts, of "[0x6B]" "[0x76]" "[0x0D, 0x0A, 0x0D, 0x0A]" "[0x61]"]
  show ?thesis by (simp add: is_token_byte_def is_ws1_def valid_utf8_ascii_Cons del: One_nat_def)
qed

end
