(* ===== verification/Span_Context.thy ===== *)
theory Span_Context
  imports Api_Objects
begin

text \<open>
  Span contexts (the first third of \<open>api/src/trace.rs\<close>): the snapshot that an implementation
  hands to the API through a visitor, construction from raw parts, and the accessors. A span
  context is never written after its creation, and no operation creates one with an all-zero
  identifier; \<open>span_context_ok\<close> in the store invariant states this for every live handle.
\<close>

section \<open>Snapshots from an implementation\<close>

text \<open>
  What an implementation does inside \<open>span_context_visit\<close>: it calls the visitor any finite
  number of times, each call free to depend on the statuses it has received, and returns a
  status. The view may be NULL.
\<close>

datatype visit_script =
    V_Return otel_status
  | V_Call "otel_span_context_view option" "otel_status \<Rightarrow> visit_script"

primrec run_visit ::
  "('u \<Rightarrow> otel_span_context_view option \<Rightarrow> otel_status \<times> 'u) \<Rightarrow> visit_script \<Rightarrow> 'u \<Rightarrow> otel_status \<times> 'u" where
  "run_visit f (V_Return st) = (\<lambda>u. (st, u))"
| "run_visit f (V_Call v k) = (\<lambda>u. run_visit f (k (fst (f u v))) (snd (f u v)))"

lemma run_visit_invariant:
  assumes "P u" and "\<And>u v. P u \<Longrightarrow> P (snd (f u v))"
  shows "P (snd (run_visit f script u))"
  using assms(1)
proof (induction script arbitrary: u)
  case (V_Return st)
  then show ?case by simp
next
  case (V_Call v k)
  show ?case
    by (simp, rule V_Call.IH [OF rangeI]) (rule assms(2) [OF V_Call.prems])
qed

text \<open>The part of a trace implementation that this component uses; \<open>Trace_Api\<close> extends it.\<close>

record trace_impl =
  ti_header :: otel_vtable_header
  ti_span_context_visit :: "ptr \<Rightarrow> visit_script"

text \<open>\<open>OtelSpanContext::from_parts\<close> and \<open>is_valid\<close>.\<close>

definition span_context_from_parts ::
  "bytes \<Rightarrow> bytes \<Rightarrow> u8 \<Rightarrow> bool \<Rightarrow> bytes \<Rightarrow> span_context_data" where
  "span_context_from_parts tid sid flags remote ts =
     \<lparr>sc_trace_id = tid, sc_span_id = sid, sc_trace_flags = flags, sc_is_remote = remote,
      sc_trace_state = ts\<rparr>"

definition span_context_is_valid :: "span_context_data \<Rightarrow> bool" where
  "span_context_is_valid c \<longleftrightarrow> sc_trace_id c \<noteq> zero_bytes 16 \<and> sc_span_id c \<noteq> zero_bytes 8"

definition span_context_view :: "span_context_data \<Rightarrow> otel_span_context_view" where
  "span_context_view c =
     \<lparr>vw_trace_id = sc_trace_id c, vw_span_id = sc_span_id c, vw_trace_flags = sc_trace_flags c,
      vw_reserved = zero_bytes 3, vw_is_remote = (if sc_is_remote c then 1 else 0),
      vw_trace_state = sv_of (sc_trace_state c)\<rparr>"

text \<open>The visitor. Its user data is the receiver: the last snapshot it accepted.\<close>

definition receive_span_context ::
  "(nat \<Rightarrow> bool) \<Rightarrow> span_context_data option \<times> (api_payload, 'm) store_scheme
     \<Rightarrow> otel_span_context_view option
     \<Rightarrow> otel_status \<times> span_context_data option \<times> (api_payload, 'm) store_scheme" where
  "receive_span_context al u view =
     (case view of
        None \<Rightarrow>
          (St_InternalError, fst u,
           set_error_text ''span context visitor received a NULL pointer'' (snd u))
      | Some v \<Rightarrow>
          if vw_reserved v \<noteq> zero_bytes 3 \<or> vw_trace_id v = zero_bytes 16 \<or> vw_span_id v = zero_bytes 8 then
            (St_InternalError, fst u, set_error_text ''SDK returned an invalid span context'' (snd u))
          else
            (case sv_as_str (vw_trace_state v) of
               Inl e \<Rightarrow> (err_status e, fst u, set_last_error (err_message e) (snd u))
             | Inr value \<Rightarrow>
                 if \<not> al (length value) then
                   fail_out St_InternalError ''failed to allocate span context trace state'' (fst u) (snd u)
                 else
                   (St_Ok,
                    Some (span_context_from_parts (vw_trace_id v) (vw_span_id v) (vw_trace_flags v)
                            (vw_is_remote v \<noteq> 0) value),
                    snd u)))"

text \<open>An output handle argument as in \<open>Baggage\<close>: the result says what was written through it.\<close>

definition otel_span_get_context ::
  "(nat \<Rightarrow> bool) \<Rightarrow> (addr \<Rightarrow> 'i trace_impl_scheme) \<Rightarrow> ptr \<Rightarrow> bool
     \<Rightarrow> (api_payload, 'm) store_scheme
     \<Rightarrow> (otel_status \<times> ptr option \<times> (api_payload, 'm) store_scheme) option" where
  "otel_span_get_context al impl span out_null s =
     (let s0 = clear_last_error s in
      if out_null then
        Some (fail_out St_InvalidArgument ''span context output pointer is NULL'' None s0)
      else
        (case checked_as KIND_SPAN as_span span s0 of
           None \<Rightarrow> None
         | Some (None, s1) \<Rightarrow> Some (St_InvalidArgument, Some None, s1)
         | Some (Some sp, s1) \<Rightarrow>
             (case bk_vtable sp of
                None \<Rightarrow>
                  Some (fail_out St_InvalidConfig ''a no-op span has no valid span context'' (Some None) s1)
              | Some vt \<Rightarrow>
                  if \<not> trace_vtable_supports_span_context (Some (ti_header (impl vt))) then
                    Some (fail_out St_InvalidConfig
                      ''installed trace implementation does not support span-context snapshots''
                      (Some None) s1)
                  else
                    (case run_visit (receive_span_context al)
                            (ti_span_context_visit (impl vt) (bk_ctx sp)) (None, s1) of
                       (status, received, s2) \<Rightarrow>
                         if status \<noteq> St_Ok then Some (status, Some None, s2)
                         else
                           (case received of
                              None \<Rightarrow>
                                Some (fail_out St_InternalError
                                  ''trace implementation did not return a span context'' (Some None) s2)
                            | Some c \<Rightarrow>
                                (case into_raw KIND_SPAN_CONTEXT (P_SpanContext c) s2 of
                                   (p, s3) \<Rightarrow> Some (St_Ok, Some p, s3)))))))"

section \<open>Owned contexts\<close>

definition otel_span_context_clone ::
  "(nat \<Rightarrow> bool) \<Rightarrow> ptr \<Rightarrow> (api_payload, 'm) store_scheme \<Rightarrow> (ptr \<times> (api_payload, 'm) store_scheme) option" where
  "otel_span_context_clone al context s =
     (case checked_as KIND_SPAN_CONTEXT as_span_context context (clear_last_error s) of
        None \<Rightarrow> None
      | Some (None, s1) \<Rightarrow> Some (None, s1)
      | Some (Some c, s1) \<Rightarrow>
          if \<not> al (length (sc_trace_state c)) then
            Some (None, snd (fail St_InternalError ''failed to allocate cloned span context trace state'' s1))
          else
            Some (into_raw KIND_SPAN_CONTEXT
              (P_SpanContext (span_context_from_parts (sc_trace_id c) (sc_span_id c) (sc_trace_flags c)
                 (sc_is_remote c) (sc_trace_state c))) s1))"

definition otel_span_context_destroy ::
  "ptr \<Rightarrow> (api_payload, 'm) store_scheme \<Rightarrow> (api_payload, 'm) store_scheme option" where
  "otel_span_context_destroy context s = destroy KIND_SPAN_CONTEXT context s"

definition OTEL_SPAN_CONTEXT_MAX_TRACESTATE :: nat where
  "OTEL_SPAN_CONTEXT_MAX_TRACESTATE = 32 * 1024"

text \<open>The reading accessors share one shape: an answer for a handle that is not a live span
  context, and a projection of a live one.\<close>

definition otel_span_context_is_valid ::
  "ptr \<Rightarrow> (api_payload, 'm) store_scheme \<Rightarrow> (u32 \<times> (api_payload, 'm) store_scheme) option" where
  "otel_span_context_is_valid context s =
     (case checked_as KIND_SPAN_CONTEXT as_span_context context (clear_last_error s) of
        None \<Rightarrow> None
      | Some (None, s1) \<Rightarrow> Some (0, s1)
      | Some (Some c, s1) \<Rightarrow> Some (if span_context_is_valid c then 1 else 0, s1))"

definition otel_span_context_is_remote ::
  "ptr \<Rightarrow> (api_payload, 'm) store_scheme \<Rightarrow> (u32 \<times> (api_payload, 'm) store_scheme) option" where
  "otel_span_context_is_remote context s =
     (case checked_as KIND_SPAN_CONTEXT as_span_context context (clear_last_error s) of
        None \<Rightarrow> None
      | Some (None, s1) \<Rightarrow> Some (0, s1)
      | Some (Some c, s1) \<Rightarrow> Some (if sc_is_remote c then 1 else 0, s1))"

definition otel_span_context_trace_id ::
  "ptr \<Rightarrow> bool \<Rightarrow> (api_payload, 'm) store_scheme
     \<Rightarrow> (otel_status \<times> bytes option \<times> (api_payload, 'm) store_scheme) option" where
  "otel_span_context_trace_id context out_null s =
     (if out_null then
        Some (fail_out St_InvalidArgument ''trace id output buffer is NULL'' None (clear_last_error s))
      else
        (case checked_as KIND_SPAN_CONTEXT as_span_context context (clear_last_error s) of
           None \<Rightarrow> None
         | Some (None, s1) \<Rightarrow> Some (St_InvalidArgument, None, s1)
         | Some (Some c, s1) \<Rightarrow> Some (St_Ok, Some (sc_trace_id c), s1)))"

definition otel_span_context_span_id ::
  "ptr \<Rightarrow> bool \<Rightarrow> (api_payload, 'm) store_scheme
     \<Rightarrow> (otel_status \<times> bytes option \<times> (api_payload, 'm) store_scheme) option" where
  "otel_span_context_span_id context out_null s =
     (if out_null then
        Some (fail_out St_InvalidArgument ''span id output buffer is NULL'' None (clear_last_error s))
      else
        (case checked_as KIND_SPAN_CONTEXT as_span_context context (clear_last_error s) of
           None \<Rightarrow> None
         | Some (None, s1) \<Rightarrow> Some (St_InvalidArgument, None, s1)
         | Some (Some c, s1) \<Rightarrow> Some (St_Ok, Some (sc_span_id c), s1)))"

definition otel_span_context_trace_flags ::
  "ptr \<Rightarrow> bool \<Rightarrow> (api_payload, 'm) store_scheme
     \<Rightarrow> (otel_status \<times> u8 option \<times> (api_payload, 'm) store_scheme) option" where
  "otel_span_context_trace_flags context out_null s =
     (if out_null then
        Some (fail_out St_InvalidArgument ''trace flags output pointer is NULL'' None (clear_last_error s))
      else
        (case checked_as KIND_SPAN_CONTEXT as_span_context context (clear_last_error s) of
           None \<Rightarrow> None
         | Some (None, s1) \<Rightarrow> Some (St_InvalidArgument, None, s1)
         | Some (Some c, s1) \<Rightarrow> Some (St_Ok, Some (sc_trace_flags c), s1)))"

definition otel_span_context_tracestate ::
  "ptr \<Rightarrow> (api_payload, 'm) store_scheme \<Rightarrow> (otel_string_view \<times> (api_payload, 'm) store_scheme) option" where
  "otel_span_context_tracestate context s =
     (case checked_as KIND_SPAN_CONTEXT as_span_context context (clear_last_error s) of
        None \<Rightarrow> None
      | Some (None, s1) \<Rightarrow> Some (sv_empty, s1)
      | Some (Some c, s1) \<Rightarrow>
          Some (if sc_trace_state c \<noteq> [] then sv_of (sc_trace_state c) else sv_empty, s1))"

text \<open>Construction from raw parts. The identifier pointers are NULL or readable for 16 and 8
  bytes, which are copied.\<close>

definition otel_span_context_create ::
  "(nat \<Rightarrow> bool) \<Rightarrow> bytes option \<Rightarrow> bytes option \<Rightarrow> u8 \<Rightarrow> u32 \<Rightarrow> otel_string_view
     \<Rightarrow> (api_payload, 'm) store_scheme \<Rightarrow> ptr \<times> (api_payload, 'm) store_scheme" where
  "otel_span_context_create al trace_id span_id trace_flags is_remote trace_state s =
     (let s0 = clear_last_error s in
      case (trace_id, span_id) of
        (Some t, Some i) \<Rightarrow>
          (let tid = take 16 t; sid = take 8 i in
           if tid = zero_bytes 16 \<or> sid = zero_bytes 8 then
             (None, snd (fail St_InvalidArgument ''span context requires a non-zero trace id and span id'' s0))
           else if unat (sv_len trace_state) > OTEL_SPAN_CONTEXT_MAX_TRACESTATE then
             (None, snd (fail St_InvalidArgument ''tracestate exceeds the maximum supported length'' s0))
           else
             (case sv_as_str trace_state of
                Inl e \<Rightarrow> (None, set_last_error (err_message e) s0)
              | Inr value \<Rightarrow>
                  if \<not> al (length value) then
                    (None, snd (fail St_InternalError ''failed to allocate span context trace state'' s0))
                  else
                    into_raw KIND_SPAN_CONTEXT
                      (P_SpanContext (span_context_from_parts tid sid trace_flags (is_remote \<noteq> 0) value)) s0))
      | _ \<Rightarrow>
          (None, snd (fail St_InvalidArgument ''trace id / span id pointer is NULL'' s0)))"

section \<open>Every live span context is valid\<close>

definition view_sized :: "otel_span_context_view \<Rightarrow> bool" where
  "view_sized v \<longleftrightarrow> length (vw_trace_id v) = 16 \<and> length (vw_span_id v) = 8"

text \<open>The C types of the identifier arrays fix their lengths; a script keeps to them.\<close>

primrec script_sized :: "visit_script \<Rightarrow> bool" where
  "script_sized (V_Return st) = True"
| "script_sized (V_Call v k) = (pred_option view_sized v \<and> (\<forall>st. script_sized (k st)))"

lemma receive_keeps_ok:
  assumes "pred_option span_context_ok (fst u)" and "pred_option view_sized v"
  shows "pred_option span_context_ok (fst (snd (receive_span_context al u v)))"
  using assms
  by (auto simp: receive_span_context_def fail_out_def span_context_from_parts_def span_context_ok_def
      view_sized_def Let_def split: option.splits sum.splits dest: sv_as_str_valid)

lemma receive_frame:
  "objs (snd (snd (receive_span_context al u v))) = objs (snd u) \<and>
   next_addr (snd (snd (receive_span_context al u v))) = next_addr (snd u) \<and>
   store.more (snd (snd (receive_span_context al u v))) = store.more (snd u)"
  by (auto simp: receive_span_context_def fail_out_def split: option.splits sum.splits)

lemma run_visit_received_ok:
  "pred_option span_context_ok (fst u) \<Longrightarrow> script_sized script \<Longrightarrow>
     pred_option span_context_ok (fst (snd (run_visit (receive_span_context al) script u)))"
proof (induction script arbitrary: u)
  case (V_Return st)
  then show ?case by simp
next
  case (V_Call v k)
  show ?case
    by (simp, rule V_Call.IH [OF rangeI]) (use V_Call.prems receive_keeps_ok [of u v al] in auto)
qed

lemma run_visit_frame:
  "objs (snd (snd (run_visit (receive_span_context al) script u))) = objs (snd u) \<and>
   next_addr (snd (snd (run_visit (receive_span_context al) script u))) = next_addr (snd u) \<and>
   store.more (snd (snd (run_visit (receive_span_context al) script u))) = store.more (snd u)"
  using run_visit_invariant [of "\<lambda>u'. objs (snd u') = objs (snd u) \<and> next_addr (snd u') = next_addr (snd u)
      \<and> store.more (snd u') = store.more (snd u)" u "receive_span_context al" script]
    receive_frame by metis

text \<open>The implementations keep to the C types.\<close>

definition impls_sized :: "(addr \<Rightarrow> 'i trace_impl_scheme) \<Rightarrow> bool" where
  "impls_sized impl \<longleftrightarrow> (\<forall>vt ctx. script_sized (ti_span_context_visit (impl vt) ctx))"

lemma span_get_context_cases:
  assumes "otel_span_get_context al impl p out_null s = Some (st, out, s')"
  shows "(objs s' = objs s \<and> next_addr s' = next_addr s \<and> store.more s' = store.more s \<and> (\<forall>q. out \<noteq> Some (Some q))) \<or>
     (\<exists>script c s2. (\<exists>vt ctx. script = ti_span_context_visit (impl vt) ctx) \<and>
        fst (snd (run_visit (receive_span_context al) script (None, clear_last_error s))) = Some c \<and>
        objs s2 = objs s \<and> next_addr s2 = next_addr s \<and> store.more s2 = store.more s \<and>
        st = St_Ok \<and> out = Some (Some (next_addr s)) \<and> s' = snd (into_raw KIND_SPAN_CONTEXT (P_SpanContext c) s2))"
proof (cases out_null)
  case True
  with assms show ?thesis by (auto simp: otel_span_get_context_def fail_out_def)
next
  case False
  then obtain r s1 where c: "checked_as KIND_SPAN as_span p (clear_last_error s) = Some (r, s1)"
    using assms by (auto simp: otel_span_get_context_def Let_def split: option.splits prod.splits)
  have f1: "objs s1 = objs s" "next_addr s1 = next_addr s" "store.more s1 = store.more s"
    using checked_as_frame [OF c] by auto
  show ?thesis
  proof (cases "\<exists>sp vt. r = Some sp \<and> bk_vtable sp = Some vt \<and>
      trace_vtable_supports_span_context (Some (ti_header (impl vt)))")
    case False
    with assms c f1 \<open>\<not> out_null\<close> show ?thesis
      by (auto simp: otel_span_get_context_def Let_def fail_out_def split: option.splits)
  next
    case True
    then obtain sp vt where sp: "r = Some sp" "bk_vtable sp = Some vt"
        "trace_vtable_supports_span_context (Some (ti_header (impl vt)))" by blast
    then have s1: "s1 = clear_last_error s" using c by (auto dest: hs.checked_as_SomeD)
    let ?script = "ti_span_context_visit (impl vt) (bk_ctx sp)"
    obtain status received s2 where run:
        "run_visit (receive_span_context al) ?script (None, clear_last_error s) = (status, received, s2)"
      by (metis prod_cases3)
    have f2: "objs s2 = objs s" "next_addr s2 = next_addr s" "store.more s2 = store.more s"
      using run_visit_frame [of al ?script "(None, clear_last_error s)"] run by auto
    show ?thesis
    proof (cases "status = St_Ok \<and> received \<noteq> None")
      case False
      with assms c sp s1 run f2 \<open>\<not> out_null\<close> show ?thesis
        by (auto simp: otel_span_get_context_def Let_def fail_out_def split: option.splits if_splits)
    next
      case True
      then obtain d where "received = Some d" by auto
      with True assms c sp s1 run f2 \<open>\<not> out_null\<close> show ?thesis
        by (intro disjI2 exI [of _ ?script] exI [of _ d] exI [of _ s2])
          (auto simp: otel_span_get_context_def Let_def prod_eq_iff split: prod.splits)
    qed
  qed
qed

lemma span_get_context_inv:
  assumes "api_inv s" and "impls_sized impl" and "otel_span_get_context al impl p out_null s = Some (st, out, s')"
  shows "api_inv s'"
  using span_get_context_cases [OF assms(3)]
proof (elim disjE exE conjE)
  assume "objs s' = objs s" "next_addr s' = next_addr s"
  then show ?thesis using assms(1) api_inv_cong by blast
next
  fix script c s2 vt ctx
  assume *: "script = ti_span_context_visit (impl vt) ctx"
    "fst (snd (run_visit (receive_span_context al) script (None, clear_last_error s))) = Some c"
    "objs s2 = objs s" "next_addr s2 = next_addr s"
    "s' = snd (into_raw KIND_SPAN_CONTEXT (P_SpanContext c) s2)"
  have "script_sized script" using assms(2) *(1) by (simp add: impls_sized_def)
  then have "span_context_ok c"
    using run_visit_received_ok [of "(None, clear_last_error s)" script al] *(2) by simp
  moreover have "api_inv s2" using assms(1) * api_inv_cong by blast
  ultimately show ?thesis using *(5) by (auto intro: api_inv_into_raw)
qed

lemma span_context_clone_inv:
  assumes "api_inv s" and "otel_span_context_clone al p s = Some (q, s')"
  shows "api_inv s'"
proof -
  obtain r s1 where c: "checked_as KIND_SPAN_CONTEXT as_span_context p (clear_last_error s) = Some (r, s1)"
    using assms(2) by (auto simp: otel_span_context_clone_def split: option.splits prod.splits)
  have inv: "api_inv s1" using api_inv_checked [OF c] assms(1) by simp
  show ?thesis
  proof (cases r)
    case None
    with c assms(2) inv show ?thesis by (simp add: otel_span_context_clone_def)
  next
    case (Some d)
    with c have "points_to s1 p (P_SpanContext d)" by (auto dest: hsc.checked_as_SomeD)
    with inv have "span_context_ok d" using api_inv_points_to by fastforce
    then have "api_inv (snd (into_raw KIND_SPAN_CONTEXT (P_SpanContext (span_context_from_parts (sc_trace_id d)
        (sc_span_id d) (sc_trace_flags d) (sc_is_remote d) (sc_trace_state d))) s1))"
      by (intro api_inv_into_raw [OF inv]) (auto simp: span_context_ok_def span_context_from_parts_def)
    with c Some assms(2) inv show ?thesis
      by (auto simp: otel_span_context_clone_def prod_eq_iff split: if_splits)
  qed
qed

lemma span_context_create_inv:
  assumes "api_inv s" and "pred_option (\<lambda>t. 16 \<le> length t) tid" and "pred_option (\<lambda>i. 8 \<le> length i) sid"
  shows "api_inv (snd (otel_span_context_create al tid sid flags remote ts s))"
proof -
  have "api_inv (snd (into_raw KIND_SPAN_CONTEXT (P_SpanContext c) (clear_last_error s)))" if "span_context_ok c" for c
    using that assms(1) by (intro api_inv_into_raw) auto
  then show ?thesis
    using assms
    by (auto simp: otel_span_context_create_def Let_def span_context_ok_def span_context_from_parts_def
        split: option.splits sum.splits if_splits dest: sv_as_str_valid)
qed

end
