(* ===== verification/Trace_Propagation.thy ===== *)
theory Trace_Propagation
  imports Span_Context
begin

unbundle bit_operations_syntax

text \<open>
  W3C Trace Context (\<open>api/src/propagation.rs\<close>): the \<open>traceparent\<close> field is decoded from and
  encoded to lowercase hex, the \<open>tracestate\<close> list is checked against its grammar. The loop
  that checks a tracestate is shown to decide the W3C grammar, stated by inductive rules, decoding is inverse to
  encoding on both sides, and extraction followed by injection reproduces a version-00 header.
\<close>

section \<open>Lowercase hex\<close>

definition TRACEPARENT_LEN :: nat where "TRACEPARENT_LEN = 55"
definition MAX_TRACESTATE_LEN :: nat where "MAX_TRACESTATE_LEN = 512"
definition MAX_TRACESTATE_MEMBERS :: nat where "MAX_TRACESTATE_MEMBERS = 32"

definition decode_hex_nibble :: "byte \<Rightarrow> byte option" where
  "decode_hex_nibble c =
     (if 0x30 \<le> c \<and> c \<le> 0x39 then Some (c - 0x30)
      else if 0x61 \<le> c \<and> c \<le> 0x66 then Some (c - 0x61 + 10)
      else None)"

fun decode_pairs :: "bytes \<Rightarrow> bytes option" where
  "decode_pairs (h # l # rest) =
     (case decode_hex_nibble h of
        None \<Rightarrow> None
      | Some hi \<Rightarrow>
          (case decode_hex_nibble l of
             None \<Rightarrow> None
           | Some lo \<Rightarrow> map_option ((#) (push_bit 4 hi OR lo)) (decode_pairs rest)))"
| "decode_pairs _ = Some []"

definition decode_hex :: "nat \<Rightarrow> bytes \<Rightarrow> bytes option" where
  "decode_hex n input = (if length input \<noteq> 2 * n then None else decode_pairs input)"

definition HEX_LOWER :: bytes where
  "HEX_LOWER = [0x30, 0x31, 0x32, 0x33, 0x34, 0x35, 0x36, 0x37, 0x38, 0x39,
                0x61, 0x62, 0x63, 0x64, 0x65, 0x66]"

definition encode_hex :: "bytes \<Rightarrow> bytes" where
  "encode_hex bs =
     concat (map (\<lambda>b. [HEX_LOWER ! unat (drop_bit 4 b), HEX_LOWER ! unat (b AND 0x0F)]) bs)"

section \<open>The tracestate grammar as the code checks it\<close>

definition is_ascii_lowercase :: "byte \<Rightarrow> bool" where
  "is_ascii_lowercase c \<longleftrightarrow> 0x61 \<le> c \<and> c \<le> 0x7A"

definition is_ascii_digit :: "byte \<Rightarrow> bool" where
  "is_ascii_digit c \<longleftrightarrow> 0x30 \<le> c \<and> c \<le> 0x39"

definition is_tracestate_key_char :: "byte \<Rightarrow> bool" where
  "is_tracestate_key_char c \<longleftrightarrow>
     is_ascii_lowercase c \<or> is_ascii_digit c \<or> c = 0x5F \<or> c = 0x2D \<or> c = 0x2A \<or> c = 0x2F"

definition is_valid_tracestate_key :: "bytes \<Rightarrow> bool" where
  "is_valid_tracestate_key key =
     (case split_once 0x40 key of
        Some (tenant, system) \<Rightarrow>
          if 0x40 \<in> set system then False
          else if tenant = [] \<or> length tenant > 241 then False
          else if \<not> (is_ascii_lowercase (tenant ! 0) \<or> is_ascii_digit (tenant ! 0)) then False
          else if \<not> list_all is_tracestate_key_char (drop 1 tenant) then False
          else if system = [] \<or> length system > 14 then False
          else if \<not> is_ascii_lowercase (system ! 0) then False
          else list_all is_tracestate_key_char (drop 1 system)
      | None \<Rightarrow>
          if key = [] \<or> length key > 256 then False
          else if \<not> is_ascii_lowercase (key ! 0) then False
          else list_all is_tracestate_key_char (drop 1 key))"

definition is_valid_tracestate_value :: "bytes \<Rightarrow> bool" where
  "is_valid_tracestate_value val =
     (if val = [] \<or> length val > 256 then False
      else if last val = 0x20 then False
      else list_all (\<lambda>c. c = 0x20 \<or> (0x21 \<le> c \<and> c \<le> 0x7E \<and> c \<noteq> 0x2C \<and> c \<noteq> 0x3D)) val)"

text \<open>Optional white space: spaces and tabs.\<close>

definition is_ows :: "byte \<Rightarrow> bool" where
  "is_ows c \<longleftrightarrow> c = 0x20 \<or> c = 0x09"

definition trim_ows :: "bytes \<Rightarrow> bytes" where
  "trim_ows raw = rev (dropWhile is_ows (rev (dropWhile is_ows raw)))"

text \<open>The loop over the list members, with the running count and the keys seen so far.\<close>

fun validate_members :: "bytes list \<Rightarrow> nat \<Rightarrow> bytes list \<Rightarrow> bool" where
  "validate_members [] members seen_keys = True"
| "validate_members (raw # raws) members seen_keys =
     (let member = trim_ows raw in
      if member = [] then validate_members raws members seen_keys
      else if members + 1 > MAX_TRACESTATE_MEMBERS then False
      else (case split_once 0x3D member of
              None \<Rightarrow> False
            | Some (key, val) \<Rightarrow>
                if \<not> is_valid_tracestate_key key \<or> \<not> is_valid_tracestate_value val then False
                else if List.member seen_keys key then False
                else validate_members raws (members + 1) (seen_keys @ [key])))"

definition validate_tracestate :: "bytes \<Rightarrow> bool" where
  "validate_tracestate value =
     (if value = [] then True
      else if length value > MAX_TRACESTATE_LEN then False
      else validate_members (split_on 0x2C value) 0 [])"

section \<open>Extraction\<close>

text \<open>The fields of a \<open>traceparent\<close>: trace id, span id and flags, or the reason it is refused.\<close>

definition parse_traceparent :: "bytes \<Rightarrow> string + bytes \<times> bytes \<times> u8" where
  "parse_traceparent tp =
     (if length tp < TRACEPARENT_LEN then Inl ''traceparent is too short''
      else if tp ! 2 \<noteq> 0x2D \<or> tp ! 35 \<noteq> 0x2D \<or> tp ! 52 \<noteq> 0x2D then
        Inl ''traceparent has malformed separators''
      else
        (case decode_hex 1 (take 2 tp) of
           None \<Rightarrow> Inl ''traceparent version is not hex''
         | Some v \<Rightarrow>
             let version = v ! 0 in
             if version = 0xFF then Inl ''traceparent version ff is invalid''
             else if version = 0 \<and> length tp \<noteq> TRACEPARENT_LEN then
               Inl ''version 00 traceparent must be exactly 55 characters''
             else if length tp > TRACEPARENT_LEN \<and> tp ! TRACEPARENT_LEN \<noteq> 0x2D then
               Inl ''traceparent has trailing data without a delimiter''
             else
               (case decode_hex 16 (take 32 (drop 3 tp)) of
                  None \<Rightarrow> Inl ''trace-id is not lowercase hex''
                | Some trace_id \<Rightarrow>
                    (case decode_hex 8 (take 16 (drop 36 tp)) of
                       None \<Rightarrow> Inl ''parent-id is not lowercase hex''
                     | Some span_id \<Rightarrow>
                         (case decode_hex 1 (take 2 (drop 53 tp)) of
                            None \<Rightarrow> Inl ''trace-flags is not hex''
                          | Some flags \<Rightarrow>
                              if trace_id = zero_bytes 16 then Inl ''trace-id is all zero''
                              else if span_id = zero_bytes 8 then Inl ''parent-id is all zero''
                              else Inr (trace_id, span_id, flags ! 0))))))"

definition otel_trace_propagation_extract ::
  "(nat \<Rightarrow> bool) \<Rightarrow> otel_string_view \<Rightarrow> otel_string_view \<Rightarrow> bool
     \<Rightarrow> (api_payload, 'm) store_scheme \<Rightarrow> otel_status \<times> ptr option \<times> (api_payload, 'm) store_scheme" where
  "otel_trace_propagation_extract al traceparent tracestate out_null s =
     (let s0 = clear_last_error s in
      if out_null then fail_out St_InvalidArgument ''output pointer is NULL'' None s0
      else
        (case sv_as_str traceparent of
           Inl e \<Rightarrow> (err_status e, Some None, set_last_error (err_message e) s0)
         | Inr tp \<Rightarrow>
             (case parse_traceparent tp of
                Inl msg \<Rightarrow> fail_out St_InvalidArgument msg (Some None) s0
              | Inr (trace_id, span_id, flags) \<Rightarrow>
                  (case sv_as_str tracestate of
                     Inl e \<Rightarrow> (err_status e, Some None, set_last_error (err_message e) s0)
                   | Inr ts0 \<Rightarrow>
                       let ts = (if validate_tracestate ts0 then ts0 else []) in
                       if \<not> al (length ts) then
                         fail_out St_InternalError ''failed to allocate tracestate'' (Some None) s0
                       else
                         (case into_raw KIND_SPAN_CONTEXT
                                 (P_SpanContext (span_context_from_parts trace_id span_id flags True ts)) s0 of
                            (p, s1) \<Rightarrow> (St_Ok, Some p, s1))))))"

section \<open>Injection\<close>

text \<open>The shared writer. The results: status, what was written to \<open>*out_len\<close>, and the bytes
  copied to the buffer.\<close>

definition inject ::
  "ptr \<Rightarrow> bool \<Rightarrow> nat \<Rightarrow> bool \<Rightarrow> (span_context_data \<Rightarrow> abi_error + bytes)
     \<Rightarrow> (api_payload, 'm) store_scheme
     \<Rightarrow> (otel_status \<times> (nat option \<times> bytes option) \<times> (api_payload, 'm) store_scheme) option" where
  "inject context buffer_null capacity out_len_null render s =
     (case checked_as KIND_SPAN_CONTEXT as_span_context context (clear_last_error s) of
        None \<Rightarrow> None
      | Some (None, s1) \<Rightarrow> Some (St_InvalidArgument, (None, None), s1)
      | Some (Some c, s1) \<Rightarrow>
          if \<not> span_context_is_valid c then
            Some (fail_out St_InvalidArgument ''span context is invalid'' (None, None) s1)
          else
            (case render c of
               Inl e \<Rightarrow> Some (err_status e, (None, None), set_last_error (err_message e) s1)
             | Inr rendered \<Rightarrow>
                 let required = length rendered;
                     len = (if out_len_null then None else Some required)
                 in if buffer_null then Some (St_Ok, (len, None), s1)
                    else if capacity < required then
                      Some (fail_out St_InvalidArgument ''output buffer is too small'' (len, None) s1)
                    else Some (St_Ok, (len, Some rendered), s1)))"

definition render_traceparent :: "span_context_data \<Rightarrow> bytes" where
  "render_traceparent c =
     [0x30, 0x30, 0x2D] @ encode_hex (sc_trace_id c) @ [0x2D] @ encode_hex (sc_span_id c) @ [0x2D] @
     encode_hex [sc_trace_flags c]"

definition otel_trace_propagation_inject_traceparent ::
  "ptr \<Rightarrow> bool \<Rightarrow> nat \<Rightarrow> bool \<Rightarrow> (api_payload, 'm) store_scheme
     \<Rightarrow> (otel_status \<times> (nat option \<times> bytes option) \<times> (api_payload, 'm) store_scheme) option" where
  "otel_trace_propagation_inject_traceparent context buffer_null capacity out_len_null s =
     inject context buffer_null capacity out_len_null (\<lambda>c. Inr (render_traceparent c)) s"

definition otel_trace_propagation_inject_tracestate ::
  "(nat \<Rightarrow> bool) \<Rightarrow> ptr \<Rightarrow> bool \<Rightarrow> nat \<Rightarrow> bool \<Rightarrow> (api_payload, 'm) store_scheme
     \<Rightarrow> (otel_status \<times> (nat option \<times> bytes option) \<times> (api_payload, 'm) store_scheme) option" where
  "otel_trace_propagation_inject_tracestate al context buffer_null capacity out_len_null s =
     inject context buffer_null capacity out_len_null
       (\<lambda>c. case sv_as_str (vw_trace_state (span_context_view c)) of
              Inl e \<Rightarrow> Inl e
            | Inr ts \<Rightarrow>
                if \<not> al (length ts) then Inl (abi_error_new St_InternalError ''failed to allocate tracestate'')
                else Inr ts)
       s"

section \<open>Hex coding is invertible both ways\<close>

lemma HEX_LOWER_digit: "n < 16 \<Longrightarrow> decode_hex_nibble (HEX_LOWER ! n) = Some (word_of_nat n)"
  by (rule below_16_cases, assumption)
    (simp add: HEX_LOWER_def decode_hex_nibble_def upt_rec)

lemma decode_hex_nibble_SomeD:
  assumes "decode_hex_nibble c = Some n"
  shows "unat n < 16 \<and> HEX_LOWER ! unat n = c"
proof -
  have u: "unat c \<in> {48..57} \<union> {97..102}"
    using assms by (auto simp: decode_hex_nibble_def word_le_nat_alt split: if_splits)
  then have "unat c \<in> set ([48..<58] @ [97..<103])" by (simp only: set_append set_upt) auto
  then have "word_of_nat (unat c) \<in> set (map word_of_nat ([48..<58] @ [97..<103]) :: byte list)"
    unfolding set_map by (rule imageI)
  then have "c \<in> set (map word_of_nat ([48..<58] @ [97..<103]) :: byte list)" by simp
  then have "c \<in> {0x30, 0x31, 0x32, 0x33, 0x34, 0x35, 0x36, 0x37, 0x38, 0x39,
      0x61, 0x62, 0x63, 0x64, 0x65, 0x66}" by (simp add: upt_rec)
  with assms show ?thesis
    by (elim insertE emptyE) (auto simp: decode_hex_nibble_def HEX_LOWER_def)
qed

lemma nibble_parts:
  assumes "unat hi < 16" and "unat lo < 16"
  shows "drop_bit 4 (push_bit 4 hi OR lo :: byte) = hi" and "(push_bit 4 hi OR lo :: byte) AND 0x0F = lo"
proof -
  have m: "(0x0F :: byte) = mask 4" by (simp add: mask_eq_exp_minus_1)
  have "take_bit 4 w = w" if "unat w < 16" for w :: byte
    using that by (intro word_unat_eq_iff [THEN iffD2]) (simp add: unsigned_take_bit_eq take_bit_nat_eq_self)
  then have b: "bit w i \<Longrightarrow> i < 4" if "unat w < 16" for w :: byte and i
    using that by (metis bit_take_bit_iff)
  show "drop_bit 4 (push_bit 4 hi OR lo :: byte) = hi"
    by (rule bit_word_eqI) (use b [OF assms(1)] b [OF assms(2)] in \<open>auto simp: bit_simps\<close>)
  show "(push_bit 4 hi OR lo :: byte) AND 0x0F = lo"
    unfolding m by (rule bit_word_eqI) (use b [OF assms(1)] b [OF assms(2)] in \<open>auto simp: bit_simps\<close>)
qed

lemma length_encode_hex [simp]: "length (encode_hex bs) = 2 * length bs"
  by (induction bs) (simp_all add: encode_hex_def)

lemma decode_pairs_encode: "decode_pairs (encode_hex bs) = Some bs"
proof (induction bs)
  case Nil
  then show ?case by (simp add: encode_hex_def)
next
  case (Cons b bs)
  then show ?case
    using nibbles [of b] HEX_LOWER_digit by (simp add: encode_hex_def)
qed

lemma decode_hex_encode [simp]: "length bs = n \<Longrightarrow> decode_hex n (encode_hex bs) = Some bs"
  by (simp add: decode_hex_def decode_pairs_encode)

lemma encode_decode_pairs: "decode_pairs t = Some bs \<Longrightarrow> even (length t) \<Longrightarrow> encode_hex bs = t"
proof (induction t arbitrary: bs rule: decode_pairs.induct)
  case (1 h l rest)
  from 1(2) obtain hi lo bs' where d: "decode_hex_nibble h = Some hi" "decode_hex_nibble l = Some lo"
      "decode_pairs rest = Some bs'" "bs = (push_bit 4 hi OR lo) # bs'"
    by (auto split: option.splits)
  have "encode_hex bs' = rest" using 1(1) d 1(3) by simp
  with d decode_hex_nibble_SomeD [OF d(1)] decode_hex_nibble_SomeD [OF d(2)] nibble_parts [of hi lo]
  show ?case by (simp add: encode_hex_def)
qed (auto simp: encode_hex_def)

lemma decode_hex_SomeD: "decode_hex n t = Some bs \<Longrightarrow> encode_hex bs = t \<and> length bs = n"
proof -
  assume d: "decode_hex n t = Some bs"
  then have l: "length t = 2 * n" "decode_pairs t = Some bs" by (auto simp: decode_hex_def split: if_splits)
  then have "encode_hex bs = t" by (intro encode_decode_pairs) simp_all
  with l show ?thesis using length_encode_hex [of bs] by simp
qed

lemma encode_hex_bytes: "b \<in> set (encode_hex bs) \<Longrightarrow> is_ascii_lowercase b \<or> is_ascii_digit b"
proof -
  have h: "is_ascii_lowercase (HEX_LOWER ! n) \<or> is_ascii_digit (HEX_LOWER ! n)" if "n < 16" for n
    by (rule below_16_cases [OF that])
      (simp add: HEX_LOWER_def is_ascii_lowercase_def is_ascii_digit_def upt_rec)
  assume "b \<in> set (encode_hex bs)"
  then have "\<exists>x \<in> set bs. b = HEX_LOWER ! unat (drop_bit 4 x) \<or> b = HEX_LOWER ! unat (x AND 0x0F)"
    by (simp add: encode_hex_def)
  then have "\<exists>x :: byte. b = HEX_LOWER ! unat (drop_bit 4 x) \<or> b = HEX_LOWER ! unat (x AND 0x0F)"
    by blast
  then obtain x :: byte where "b = HEX_LOWER ! unat (drop_bit 4 x) \<or> b = HEX_LOWER ! unat (x AND 0x0F)" ..
  then show ?thesis using h nibbles [of x] by auto
qed


section \<open>The traceparent grammar\<close>

text \<open>
  The declarative form: version, trace id, parent id and flags in lowercase hex between dashes;
  version ff is reserved, version 00 ends there, and a later version may go on after a dash.
\<close>

definition traceparent_text :: "u8 \<Rightarrow> bytes \<Rightarrow> bytes \<Rightarrow> u8 \<Rightarrow> bytes \<Rightarrow> bytes" where
  "traceparent_text version trace_id span_id flags rest =
     encode_hex [version] @ 0x2D # encode_hex trace_id @ 0x2D # encode_hex span_id @
     0x2D # encode_hex [flags] @ rest"

lemma drop_chunk: "n + k < length xs \<Longrightarrow> drop n xs = take k (drop n xs) @ xs ! (n + k) # drop (Suc (n + k)) xs"
  using id_take_nth_drop [of k "drop n xs"] by (simp add: add.commute)

lemma traceparent_pieces:
  assumes "55 \<le> length tp"
  shows "tp = take 2 tp @ tp ! 2 # take 32 (drop 3 tp) @ tp ! 35 # take 16 (drop 36 tp) @
    tp ! 52 # take 2 (drop 53 tp) @ drop 55 tp"
proof -
  have "tp = take 2 tp @ tp ! 2 # drop 3 tp"
    using drop_chunk [of 0 2 tp] assms by (simp add: numeral_2_eq_2 numeral_3_eq_3)
  moreover have "drop 3 tp = take 32 (drop 3 tp) @ tp ! 35 # drop 36 tp"
    using drop_chunk [of 3 32 tp] assms by simp
  moreover have "drop 36 tp = take 16 (drop 36 tp) @ tp ! 52 # drop 53 tp"
    using drop_chunk [of 36 16 tp] assms by simp
  moreover have "drop 53 tp = take 2 (drop 53 tp) @ drop 55 tp"
    using append_take_drop_id [of 2 "drop 53 tp"] by simp
  ultimately show ?thesis by metis
qed

lemma parse_traceparent_InrD:
  assumes "parse_traceparent tp = Inr (trace_id, span_id, flags)"
  obtains version rest where "tp = traceparent_text version trace_id span_id flags rest"
    "length trace_id = 16" "length span_id = 8" "trace_id \<noteq> zero_bytes 16" "span_id \<noteq> zero_bytes 8"
    "version \<noteq> 0xFF" "rest = [] \<or> version \<noteq> 0 \<and> hd rest = 0x2D"
proof -
  from assms obtain v f where d: "\<not> length tp < 55" "tp ! 2 = 0x2D" "tp ! 35 = 0x2D" "tp ! 52 = 0x2D"
      "decode_hex 1 (take 2 tp) = Some v" "v ! 0 \<noteq> 0xFF" "\<not> (v ! 0 = 0 \<and> length tp \<noteq> 55)"
      "\<not> (length tp > 55 \<and> tp ! 55 \<noteq> 0x2D)"
      "decode_hex 16 (take 32 (drop 3 tp)) = Some trace_id" "decode_hex 8 (take 16 (drop 36 tp)) = Some span_id"
      "decode_hex 1 (take 2 (drop 53 tp)) = Some f" "flags = f ! 0"
      "trace_id \<noteq> zero_bytes 16" "span_id \<noteq> zero_bytes 8"
    by (auto simp: parse_traceparent_def TRACEPARENT_LEN_def Let_def split: if_splits option.splits)
  have one: "encode_hex [w ! 0] = t" if "decode_hex 1 t = Some w" for w t
    using decode_hex_SomeD [OF that] by (cases w) auto
  have tp: "tp = traceparent_text (v ! 0) trace_id span_id flags (drop 55 tp)"
    using traceparent_pieces [of tp] d decode_hex_SomeD [OF d(9)] decode_hex_SomeD [OF d(10)]
      one [OF d(5)] one [OF d(11)]
    by (simp add: traceparent_text_def)
  have rest: "drop 55 tp = [] \<or> v ! 0 \<noteq> 0 \<and> hd (drop 55 tp) = 0x2D"
    using d(7,8) by (cases "length tp > 55") (auto simp: hd_drop_conv_nth)
  show ?thesis
    using that [OF tp] rest d decode_hex_SomeD [OF d(9)] decode_hex_SomeD [OF d(10)] by blast
qed

lemma parse_traceparent_text:
  assumes "length trace_id = 16" and "length span_id = 8" and "trace_id \<noteq> zero_bytes 16"
    and "span_id \<noteq> zero_bytes 8" and "version \<noteq> 0xFF" and "rest = [] \<or> version \<noteq> 0 \<and> hd rest = 0x2D"
  shows "parse_traceparent (traceparent_text version trace_id span_id flags rest) = Inr (trace_id, span_id, flags)"
proof -
  let ?tp = "traceparent_text version trace_id span_id flags rest"
  note simps = traceparent_text_def nth_append assms(1,2)
  have len: "length ?tp = 55 + length rest" by (simp add: simps)
  have seps: "?tp ! 2 = 0x2D" "?tp ! 35 = 0x2D" "?tp ! 52 = 0x2D" by (simp_all add: simps)
  have parts: "take 2 ?tp = encode_hex [version]" "take 32 (drop 3 ?tp) = encode_hex trace_id"
      "take 16 (drop 36 ?tp) = encode_hex span_id" "take 2 (drop 53 ?tp) = encode_hex [flags]"
    by (simp_all add: simps)
  have "rest = [] \<or> ?tp ! 55 = hd rest" by (cases rest) (simp_all add: simps)
  then have sep_rest: "\<not> (version = 0 \<and> rest \<noteq> [])" "\<not> (rest \<noteq> [] \<and> ?tp ! 55 \<noteq> 0x2D)"
    using assms(6) by metis+
  show ?thesis
    using assms(1-5) sep_rest
    by (simp add: parse_traceparent_def TRACEPARENT_LEN_def len seps parts Let_def)
qed

section \<open>What the list loop checks\<close>

text \<open>The non-blank members of the list, trimmed of optional white space; a member that passes, and its key.\<close>

definition tracestate_members :: "bytes \<Rightarrow> bytes list" where
  "tracestate_members value = filter (\<lambda>m. m \<noteq> []) (map trim_ows (split_on 0x2C value))"

definition tracestate_member_ok :: "bytes \<Rightarrow> bool" where
  "tracestate_member_ok m =
     (case split_once 0x3D m of
        None \<Rightarrow> False
      | Some (key, val) \<Rightarrow> is_valid_tracestate_key key \<and> is_valid_tracestate_value val)"

definition tracestate_member_key :: "bytes \<Rightarrow> bytes" where
  "tracestate_member_key m = (case split_once 0x3D m of None \<Rightarrow> [] | Some (key, val) \<Rightarrow> key)"

lemma validate_members_iff:
  assumes "n \<le> MAX_TRACESTATE_MEMBERS" and "distinct seen"
  shows "validate_members raws n seen \<longleftrightarrow>
     (let ms = filter (\<lambda>m. m \<noteq> []) (map trim_ows raws)
      in n + length ms \<le> MAX_TRACESTATE_MEMBERS \<and> (\<forall>m \<in> set ms. tracestate_member_ok m) \<and>
         distinct (seen @ map tracestate_member_key ms))"
  using assms
proof (induction raws arbitrary: n seen)
  case Nil
  then show ?case by simp
next
  case (Cons raw raws)
  let ?m = "trim_ows raw"
  show ?case
  proof (cases "?m = [] \<or> MAX_TRACESTATE_MEMBERS < n + 1 \<or> \<not> tracestate_member_ok ?m \<or> tracestate_member_key ?m \<in> set seen")
    case True
    then show ?thesis
      using Cons by (auto simp: Let_def tracestate_member_ok_def tracestate_member_key_def
          split: option.splits)
  next
    case False
    then obtain key val where kv: "split_once 0x3D ?m = Some (key, val)" "is_valid_tracestate_key key"
        "is_valid_tracestate_value val" "key \<notin> set seen"
      by (auto simp: tracestate_member_ok_def tracestate_member_key_def split: option.splits)
    have "validate_members (raw # raws) n seen = validate_members raws (n + 1) (seen @ [key])"
      using False kv by (simp add: Let_def)
    also have "\<dots> \<longleftrightarrow> (let ms = filter (\<lambda>m. m \<noteq> []) (map trim_ows raws)
      in n + 1 + length ms \<le> MAX_TRACESTATE_MEMBERS \<and> (\<forall>m \<in> set ms. tracestate_member_ok m) \<and>
         distinct ((seen @ [key]) @ map tracestate_member_key ms))"
      using False kv Cons.prems by (intro Cons.IH) auto
    moreover have "tracestate_member_key ?m = key" using kv(1) by (simp add: tracestate_member_key_def)
    ultimately show ?thesis
      using False by (simp add: Let_def) blast?
  qed
qed

lemma trim_ows_bytes: "b \<in> set raw \<Longrightarrow> b \<in> set (trim_ows raw) \<or> is_ows b"
proof -
  have d: "b \<in> set xs \<Longrightarrow> b \<in> set (dropWhile is_ows xs) \<or> is_ows b" for xs
    by (metis Un_iff set_append set_takeWhileD takeWhile_dropWhile_id)
  show "b \<in> set raw \<Longrightarrow> b \<in> set (trim_ows raw) \<or> is_ows b"
    using d [of raw] d [of "rev (dropWhile is_ows raw)"] by (auto simp: trim_ows_def)
qed

definition header_safe :: "byte \<Rightarrow> bool" where
  "header_safe b \<longleftrightarrow> b = 0x09 \<or> 0x20 \<le> b \<and> b \<le> 0x7E"

lemma key_char_safe: "is_tracestate_key_char b \<Longrightarrow> header_safe b"
  by (auto simp: is_tracestate_key_char_def is_ascii_lowercase_def is_ascii_digit_def header_safe_def word_le_nat_alt)

lemma first_char_safe: "is_ascii_lowercase b \<or> is_ascii_digit b \<Longrightarrow> header_safe b"
  by (auto simp: is_ascii_lowercase_def is_ascii_digit_def header_safe_def word_le_nat_alt)

lemma head_tail_safe:
  assumes "t \<noteq> []" and "is_ascii_lowercase (t ! 0) \<or> is_ascii_digit (t ! 0)"
    and "list_all is_tracestate_key_char (drop 1 t)" and "b \<in> set t"
  shows "header_safe b"
  using assms key_char_safe first_char_safe by (cases t) (auto simp: list_all_iff)

lemma tracestate_key_safe:
  assumes "is_valid_tracestate_key key" and "b \<in> set key"
  shows "header_safe b"
proof (cases "split_once 0x40 key")
  case None
  with assms show ?thesis
    using head_tail_safe [of key b] by (auto simp: is_valid_tracestate_key_def split: if_splits)
next
  case (Some ts)
  obtain t y where ty: "ts = (t, y)" by (cases ts)
  then have "key = t @ 0x40 # y" using Some split_once_SomeD [of "0x40" key t y] by simp
  then have "b \<in> set t \<or> b = 0x40 \<or> b \<in> set y" using assms(2) by auto
  then show ?thesis
    using assms(1) Some ty head_tail_safe [of t b] head_tail_safe [of y b]
    by (auto simp: is_valid_tracestate_key_def header_safe_def [of "0x40"] split: if_splits)
qed

lemma tracestate_value_safe:
  assumes "is_valid_tracestate_value val" and "b \<in> set val"
  shows "header_safe b"
proof -
  have "b = 0x20 \<or> 0x21 \<le> b \<and> b \<le> 0x7E"
    using assms by (auto simp: is_valid_tracestate_value_def list_all_iff split: if_splits)
  then show ?thesis by (auto simp: header_safe_def word_le_nat_alt)
qed

lemma tracestate_member_safe:
  assumes "tracestate_member_ok m" and "b \<in> set m"
  shows "header_safe b"
proof -
  obtain key val where kv: "split_once 0x3D m = Some (key, val)" "is_valid_tracestate_key key"
      "is_valid_tracestate_value val"
    using assms(1) by (auto simp: tracestate_member_ok_def split: option.splits)
  then have "b \<in> set key \<or> b = 0x3D \<or> b \<in> set val" using assms(2) split_once_SomeD [OF kv(1)] by auto
  then show ?thesis
    using tracestate_key_safe [OF kv(2)] tracestate_value_safe [OF kv(3)] by (auto simp: header_safe_def)
qed


lemma validate_tracestate_iff:
  "validate_tracestate value \<longleftrightarrow>
     length value \<le> 512 \<and> length (tracestate_members value) \<le> 32 \<and>
     (\<forall>m \<in> set (tracestate_members value). tracestate_member_ok m) \<and>
     distinct (map tracestate_member_key (tracestate_members value))"
proof (cases "value = []")
  case True
  then show ?thesis by (simp add: validate_tracestate_def tracestate_members_def trim_ows_def)
next
  case False
  then show ?thesis
    using validate_members_iff [of 0 "[]" "split_on 0x2C value"]
    by (simp add: validate_tracestate_def tracestate_members_def MAX_TRACESTATE_LEN_def
        MAX_TRACESTATE_MEMBERS_def Let_def)
qed

lemma validate_tracestate_safe:
  assumes "validate_tracestate value" and "b \<in> set value"
  shows "header_safe b"
proof -
  have "value = join_with 0x2C (split_on 0x2C value)" by simp
  moreover have "b \<in> set (join_with d ps) \<Longrightarrow> b = d \<or> (\<exists>p \<in> set ps. b \<in> set p)" for d ps
    by (induction d ps rule: join_with.induct) auto
  ultimately consider "b = 0x2C" | p where "p \<in> set (split_on 0x2C value)" "b \<in> set p"
    using assms(2) by metis
  then show ?thesis
  proof cases
    case 1
    then show ?thesis by (simp add: header_safe_def)
  next
    case 2
    show ?thesis
    proof (cases "is_ows b")
      case True
      then show ?thesis by (auto simp: is_ows_def header_safe_def)
    next
      case False
      then have b: "b \<in> set (trim_ows p)" using trim_ows_bytes [OF 2(2)] by blast
      then have "trim_ows p \<in> set (tracestate_members value)"
        using 2(1) by (auto simp: tracestate_members_def)
      then have "tracestate_member_ok (trim_ows p)" using assms(1) by (simp add: validate_tracestate_iff)
      then show ?thesis using b by (rule tracestate_member_safe)
    qed
  qed
qed

section \<open>The W3C tracestate grammar\<close>

text \<open>
  The productions of the recommendation, independent of the code: \<open>lcalpha\<close>, \<open>DIGIT\<close>, the characters of a key,
  \<open>nblk-chr\<close>, \<open>OWS\<close>; a \<open>simple-key\<close> of 1 to 256 characters or a \<open>tenant-id "@" system-id\<close> of at most 241 and 14; a value
  of 1 to 256 characters that does not end in a blank; \<open>list-member = key "=" value\<close> between optional white space; a
  list of members and blanks between commas, together with the keys of its members in their order.
\<close>

definition w3c_lcalpha :: "byte set" where "w3c_lcalpha = {0x61..0x7A}"
definition w3c_digit :: "byte set" where "w3c_digit = {0x30..0x39}"
definition w3c_key_chars :: "byte set" where
  "w3c_key_chars = w3c_lcalpha \<union> w3c_digit \<union> {0x5F, 0x2D, 0x2A, 0x2F}"
definition w3c_nonblank :: "byte set" where
  "w3c_nonblank = {0x21..0x2B} \<union> {0x2D..0x3C} \<union> {0x3E..0x7E}"
definition w3c_ows :: "bytes set" where "w3c_ows = lists {0x20, 0x09}"

inductive_set w3c_key :: "bytes set" where
  simple: "c \<in> w3c_lcalpha \<Longrightarrow> cs \<in> lists w3c_key_chars \<Longrightarrow> length cs \<le> 255 \<Longrightarrow> c # cs \<in> w3c_key"
| multi_tenant:
    "t \<in> w3c_lcalpha \<union> w3c_digit \<Longrightarrow> ts \<in> lists w3c_key_chars \<Longrightarrow> length ts \<le> 240 \<Longrightarrow>
     s \<in> w3c_lcalpha \<Longrightarrow> ss \<in> lists w3c_key_chars \<Longrightarrow> length ss \<le> 13 \<Longrightarrow>
     (t # ts) @ 0x40 # s # ss \<in> w3c_key"

inductive_set w3c_value :: "bytes set" where
  "cs \<in> lists (insert 0x20 w3c_nonblank) \<Longrightarrow> length cs \<le> 255 \<Longrightarrow> c \<in> w3c_nonblank \<Longrightarrow> cs @ [c] \<in> w3c_value"

inductive w3c_member :: "bytes \<Rightarrow> bytes \<Rightarrow> bool" where
  "before \<in> w3c_ows \<Longrightarrow> key \<in> w3c_key \<Longrightarrow> val \<in> w3c_value \<Longrightarrow> after \<in> w3c_ows \<Longrightarrow>
   w3c_member (before @ key @ 0x3D # val @ after) key"

inductive w3c_list :: "bytes \<Rightarrow> bytes list \<Rightarrow> bool" where
  last_blank: "o1 \<in> w3c_ows \<Longrightarrow> w3c_list o1 []"
| last_member: "w3c_member m k \<Longrightarrow> w3c_list m [k]"
| more_blank: "o1 \<in> w3c_ows \<Longrightarrow> w3c_list rest ks \<Longrightarrow> w3c_list (o1 @ 0x2C # rest) ks"
| more_member: "w3c_member m k \<Longrightarrow> w3c_list rest ks \<Longrightarrow> w3c_list (m @ 0x2C # rest) (k # ks)"

text \<open>The byte classes, keys and values of the code are those of the grammar.\<close>

lemma key_char_iff: "is_tracestate_key_char c \<longleftrightarrow> c \<in> w3c_key_chars"
  by (auto simp: is_tracestate_key_char_def w3c_key_chars_def w3c_lcalpha_def w3c_digit_def
      is_ascii_lowercase_def is_ascii_digit_def)

lemma key_first_iff:
  "is_ascii_lowercase c \<longleftrightarrow> c \<in> w3c_lcalpha" "is_ascii_digit c \<longleftrightarrow> c \<in> w3c_digit"
  by (auto simp: w3c_lcalpha_def w3c_digit_def is_ascii_lowercase_def is_ascii_digit_def)

lemma key_chars_at: "0x40 \<notin> w3c_key_chars" "0x40 \<notin> w3c_lcalpha" "0x40 \<notin> w3c_digit"
  by (simp_all add: w3c_key_chars_def w3c_lcalpha_def w3c_digit_def word_le_nat_alt)

lemma lists_key_chars: "cs \<in> lists w3c_key_chars \<longleftrightarrow> list_all is_tracestate_key_char cs"
  by (auto simp: key_char_iff list_all_iff in_lists_conv_set)

lemma key_partI:
  assumes "k \<noteq> []" and "length k \<le> Suc n" and "P (k ! 0)" and "list_all is_tracestate_key_char (drop 1 k)"
  obtains c cs where "k = c # cs" "P c" "cs \<in> lists w3c_key_chars" "length cs \<le> n"
  using assms by (cases k) (auto simp: lists_key_chars)

lemma is_valid_tracestate_key_grammar: "is_valid_tracestate_key k \<longleftrightarrow> k \<in> w3c_key"
proof
  assume v: "is_valid_tracestate_key k"
  show "k \<in> w3c_key"
  proof (cases "split_once 0x40 k")
    case None
    then obtain c cs where "k = c # cs" "c \<in> w3c_lcalpha" "cs \<in> lists w3c_key_chars" "length cs \<le> 255"
      using v key_partI [of k 255 "\<lambda>c. c \<in> w3c_lcalpha"]
      by (auto simp: is_valid_tracestate_key_def key_first_iff split: if_splits)
    then show ?thesis by (auto intro: w3c_key.simple)
  next
    case (Some ty)
    obtain x y where xy: "ty = (x, y)" by (cases ty)
    from v Some xy obtain t ts where t: "x = t # ts" "t \<in> w3c_lcalpha \<union> w3c_digit" "ts \<in> lists w3c_key_chars" "length ts \<le> 240"
      using key_partI [of x 240 "\<lambda>c. c \<in> w3c_lcalpha \<union> w3c_digit"]
      by (auto simp: is_valid_tracestate_key_def key_first_iff split: if_splits)
    from v Some xy obtain s ss where s: "y = s # ss" "s \<in> w3c_lcalpha" "ss \<in> lists w3c_key_chars" "length ss \<le> 13"
      using key_partI [of y 13 "\<lambda>c. c \<in> w3c_lcalpha"]
      by (auto simp: is_valid_tracestate_key_def key_first_iff split: if_splits)
    have "k = (t # ts) @ 0x40 # s # ss" using Some xy t(1) s(1) split_once_SomeD by blast
    with t s show ?thesis by (auto intro!: w3c_key.multi_tenant simp del: append_Cons)
  qed
next
  have at: "cs \<in> lists w3c_key_chars \<Longrightarrow> 0x40 \<notin> set cs" for cs
    using key_chars_at by (auto simp: in_lists_conv_set)
  assume "k \<in> w3c_key"
  then show "is_valid_tracestate_key k"
  proof cases
    case (simple c cs)
    then have "0x40 \<notin> set k" using at [of cs] key_chars_at by auto
    then have "split_once 0x40 k = None" by (simp add: split_once_None_iff)
    then show ?thesis
      using simple by (simp add: is_valid_tracestate_key_def key_first_iff lists_key_chars)
  next
    case (multi_tenant t ts s ss)
    then have "0x40 \<notin> set (t # ts)" "0x40 \<notin> set (s # ss)" using at [of ts] at [of ss] key_chars_at by auto
    then have "split_once 0x40 k = Some (t # ts, s # ss)"
      unfolding multi_tenant(1) by (intro split_once_append)
    then show ?thesis
      using multi_tenant \<open>0x40 \<notin> set (s # ss)\<close>
      by (auto simp add: is_valid_tracestate_key_def key_first_iff lists_key_chars)
  qed
qed

lemma value_char_iff:
  "(c = 0x20 \<or> 0x21 \<le> c \<and> c \<le> 0x7E \<and> c \<noteq> 0x2C \<and> c \<noteq> 0x3D) \<longleftrightarrow> c \<in> insert 0x20 w3c_nonblank" for c :: byte
proof -
  have "c = w \<longleftrightarrow> unat c = unat w" for w by (simp add: word_unat_eq_iff)
  then show ?thesis by (simp add: w3c_nonblank_def word_le_nat_alt) linarith
qed

lemma blank_not_nonblank: "0x20 \<notin> w3c_nonblank" "0x09 \<notin> w3c_nonblank"
  by (simp_all add: w3c_nonblank_def word_le_nat_alt)

lemma is_valid_tracestate_value_grammar: "is_valid_tracestate_value v \<longleftrightarrow> v \<in> w3c_value"
proof
  assume v: "is_valid_tracestate_value v"
  then obtain cs c where v': "v = cs @ [c]" by (cases v rule: rev_cases) (auto simp: is_valid_tracestate_value_def)
  from v have "\<forall>x \<in> set v. x \<in> insert 0x20 w3c_nonblank" "length v \<le> 256" "last v \<noteq> 0x20"
    unfolding value_char_iff is_valid_tracestate_value_def by (auto simp: list_all_iff split: if_splits)
  then show "v \<in> w3c_value" unfolding v' by (intro w3c_value.intros) (auto simp: in_lists_conv_set)
next
  assume "v \<in> w3c_value"
  then show "is_valid_tracestate_value v"
    by cases (use blank_not_nonblank in \<open>auto simp: is_valid_tracestate_value_def value_char_iff list_all_iff in_lists_conv_set\<close>)
qed


text \<open>Trimming removes exactly the optional white space of a member.\<close>

lemma ows_iff: "w \<in> w3c_ows \<longleftrightarrow> list_all is_ows w"
  by (auto simp: w3c_ows_def in_lists_conv_set is_ows_def list_all_iff)

lemma trim_ows_pad:
  assumes "list_all is_ows before" and "list_all is_ows after" and "m \<noteq> []" and "\<not> is_ows (hd m)" and "\<not> is_ows (last m)"
  shows "trim_ows (before @ m @ after) = m"
proof -
  have d: "list_all is_ows pad \<Longrightarrow> xs \<noteq> [] \<Longrightarrow> \<not> is_ows (hd xs) \<Longrightarrow> dropWhile is_ows (pad @ xs) = xs" for pad xs
    by (cases xs) (auto simp: list_all_iff)
  have "dropWhile is_ows (before @ m @ after) = m @ after" using assms by (intro d) auto
  moreover have "dropWhile is_ows (rev after @ rev m) = rev m" using assms by (intro d) (auto simp: hd_rev)
  ultimately show ?thesis by (simp add: trim_ows_def)
qed

lemma trim_ows_split:
  obtains before after where "raw = before @ trim_ows raw @ after" "list_all is_ows before" "list_all is_ows after"
proof -
  have w: "list_all is_ows (takeWhile is_ows xs)" for xs by (auto simp: list_all_iff dest: set_takeWhileD)
  let ?x = "dropWhile is_ows raw"
  have "?x = rev (takeWhile is_ows (rev ?x) @ dropWhile is_ows (rev ?x))" by simp
  then have "?x = trim_ows raw @ rev (takeWhile is_ows (rev ?x))" by (simp only: rev_append trim_ows_def)
  then have "raw = takeWhile is_ows raw @ trim_ows raw @ rev (takeWhile is_ows (rev ?x))"
    by (metis takeWhile_dropWhile_id)
  then show thesis by (rule that) (use w in \<open>simp_all add: list_all_rev\<close>)
qed

lemma trim_ows_blank_iff: "trim_ows raw = [] \<longleftrightarrow> raw \<in> w3c_ows"
proof
  assume "trim_ows raw = []"
  then show "raw \<in> w3c_ows" using trim_ows_split [of raw] by (metis append_Nil list_all_append ows_iff)
next
  assume "raw \<in> w3c_ows"
  then show "trim_ows raw = []"
    by (auto simp: ows_iff list_all_iff trim_ows_def dropWhile_eq_Nil_conv dest: set_dropWhileD)
qed

lemma w3c_key_ends: "k \<in> w3c_key \<Longrightarrow> k \<noteq> [] \<and> \<not> is_ows (hd k)"
  by (erule w3c_key.cases)
    (auto simp: is_ows_def w3c_lcalpha_def w3c_digit_def word_le_nat_alt)

lemma w3c_key_bytes: "k \<in> w3c_key \<Longrightarrow> b \<in> set k \<Longrightarrow> b \<noteq> 0x3D \<and> b \<noteq> 0x2C"
proof -
  have c: "b \<in> w3c_key_chars \<Longrightarrow> b \<noteq> 0x3D \<and> b \<noteq> 0x2C" "b \<in> w3c_lcalpha \<Longrightarrow> b \<noteq> 0x3D \<and> b \<noteq> 0x2C"
      "b \<in> w3c_digit \<Longrightarrow> b \<noteq> 0x3D \<and> b \<noteq> 0x2C"
    by (auto simp: w3c_key_chars_def w3c_lcalpha_def w3c_digit_def word_le_nat_alt)
  show "k \<in> w3c_key \<Longrightarrow> b \<in> set k \<Longrightarrow> b \<noteq> 0x3D \<and> b \<noteq> 0x2C"
    by (erule w3c_key.cases) (use c in \<open>auto simp: in_lists_conv_set\<close>)
qed

lemma w3c_value_bytes: "v \<in> w3c_value \<Longrightarrow> b \<in> set v \<Longrightarrow> b \<noteq> 0x2C"
  by (erule w3c_value.cases) (auto simp: in_lists_conv_set w3c_nonblank_def word_le_nat_alt)

lemma w3c_value_ends: "v \<in> w3c_value \<Longrightarrow> v \<noteq> [] \<and> \<not> is_ows (last v)"
  by (erule w3c_value.cases) (use blank_not_nonblank in \<open>auto simp: is_ows_def\<close>)

lemma w3c_member_iff:
  "w3c_member raw key \<longleftrightarrow>
     trim_ows raw \<noteq> [] \<and> tracestate_member_ok (trim_ows raw) \<and> key = tracestate_member_key (trim_ows raw)"
proof
  assume "w3c_member raw key"
  then show "trim_ows raw \<noteq> [] \<and> tracestate_member_ok (trim_ows raw) \<and> key = tracestate_member_key (trim_ows raw)"
  proof cases
    case (1 before val after)
    have "trim_ows raw = key @ 0x3D # val"
      using trim_ows_pad [of before after "key @ 0x3D # val"] 1 w3c_key_ends [of key] w3c_value_ends [of val]
      by (simp add: ows_iff)
    moreover have "split_once 0x3D (key @ 0x3D # val) = Some (key, val)"
      using w3c_key_bytes [of key] 1 by (intro split_once_append) blast
    ultimately show ?thesis
      using 1 by (simp add: tracestate_member_ok_def tracestate_member_key_def is_valid_tracestate_key_grammar
          is_valid_tracestate_value_grammar)
  qed
next
  assume m: "trim_ows raw \<noteq> [] \<and> tracestate_member_ok (trim_ows raw) \<and> key = tracestate_member_key (trim_ows raw)"
  then obtain val where kv: "split_once 0x3D (trim_ows raw) = Some (key, val)" "key \<in> w3c_key" "val \<in> w3c_value"
    by (auto simp: tracestate_member_ok_def tracestate_member_key_def is_valid_tracestate_key_grammar
        is_valid_tracestate_value_grammar split: option.splits)
  obtain before after where "raw = before @ trim_ows raw @ after" "list_all is_ows before" "list_all is_ows after"
    by (rule trim_ows_split)
  then show "w3c_member raw key"
    using kv split_once_SomeD [OF kv(1)] by (metis append_Cons append_assoc ows_iff w3c_member.intros)
qed

lemma w3c_ows_no_comma: "w \<in> w3c_ows \<Longrightarrow> 0x2C \<notin> set w"
  by (auto simp: w3c_ows_def in_lists_conv_set)

lemma w3c_member_no_comma: "w3c_member raw key \<Longrightarrow> 0x2C \<notin> set raw"
  by (erule w3c_member.cases) (use w3c_key_bytes w3c_value_bytes w3c_ows_no_comma in \<open>auto\<close>)

lemma w3c_list_members:
  assumes "w3c_list rest ks"
  shows "(\<forall>m \<in> set (tracestate_members rest). tracestate_member_ok m) \<and>
    ks = map tracestate_member_key (tracestate_members rest)"
  using assms
proof induction
  case (last_blank o1)
  then show ?case using w3c_ows_no_comma [of o1] by (simp add: tracestate_members_def trim_ows_blank_iff)
next
  case (last_member m k)
  then show ?case using w3c_member_no_comma [of m k] by (simp add: tracestate_members_def w3c_member_iff)
next
  case (more_blank o1 rest ks)
  then show ?case using w3c_ows_no_comma [of o1]
    by (simp add: tracestate_members_def split_on_append_sep trim_ows_blank_iff [THEN iffD2])
next
  case (more_member m k rest ks)
  then show ?case using w3c_member_no_comma [of m k]
    by (simp add: tracestate_members_def split_on_append_sep w3c_member_iff)
qed

lemma w3c_list_pieces:
  assumes "ps \<noteq> []" and "\<forall>m \<in> set (map trim_ows ps). m \<noteq> [] \<longrightarrow> tracestate_member_ok m"
  shows "w3c_list (join_with 0x2C ps) (map tracestate_member_key (filter (\<lambda>m. m \<noteq> []) (map trim_ows ps)))"
  using assms
proof (induction ps)
  case (Cons p ps)
  have p: "p \<in> w3c_ows" if "trim_ows p = []" using that by (simp add: trim_ows_blank_iff)
  have m: "w3c_member p (tracestate_member_key (trim_ows p))" if "trim_ows p \<noteq> []"
    using that Cons.prems by (simp add: w3c_member_iff)
  have ih: "w3c_list (join_with 0x2C ps) (map tracestate_member_key (filter (\<lambda>m. m \<noteq> []) (map trim_ows ps)))"
    if "ps \<noteq> []"
    using that Cons by simp
  show ?case
  proof (cases ps)
    case Nil
    then show ?thesis using p m by (auto intro: w3c_list.intros)
  next
    case (Cons q qs)
    then show ?thesis
      using w3c_list.more_blank [OF p ih] w3c_list.more_member [OF m ih] by (cases "trim_ows p = []") auto
  qed
qed simp

lemma w3c_list_iff:
  "w3c_list rest ks \<longleftrightarrow> (\<forall>m \<in> set (tracestate_members rest). tracestate_member_ok m) \<and>
     ks = map tracestate_member_key (tracestate_members rest)"
  using w3c_list_members [of rest ks] w3c_list_pieces [of "split_on 0x2C rest"]
  by (auto simp: tracestate_members_def)

section \<open>The entry points on live handles\<close>

lemma trace_extract_inv:
  assumes "api_inv s" and "otel_trace_propagation_extract al tp ts out_null s = (st, out, s')"
  shows "api_inv s'"
proof -
  have ok: "span_context_ok (span_context_from_parts tid sid fl True t)"
    if "parse_traceparent x = Inr (tid, sid, fl)" "valid_utf8 t" for x tid sid fl t
    using that by (auto simp: span_context_ok_def span_context_from_parts_def elim: parse_traceparent_InrD)
  have new: "api_inv (snd (into_raw KIND_SPAN_CONTEXT (P_SpanContext c) (clear_last_error s)))"
    if "span_context_ok c" for c
    using that assms(1) by (intro api_inv_into_raw) auto
  show ?thesis
    using assms ok new
    by (auto simp: otel_trace_propagation_extract_def Let_def fail_out_def split_beta
        split: if_splits sum.splits dest!: sv_as_str_valid)
qed

lemma trace_inject_frame:
  assumes "inject p buffer_null capacity out_len_null render s = Some (st, out, s')"
  shows "objs s' = objs s \<and> next_addr s' = next_addr s \<and> store.more s' = store.more s"
  using assms checked_as_frame [of KIND_SPAN_CONTEXT as_span_context p "clear_last_error s"]
  by (fastforce simp: inject_def Let_def fail_out_def split: option.splits prod.splits if_splits sum.splits)

lemma trace_inject_defined:
  "api_inv s \<Longrightarrow> valid_ptr s p \<Longrightarrow> inject p buffer_null capacity out_len_null render s \<noteq> None"
  using hsc.checked_defined [of "clear_last_error s" p]
  by (auto simp: inject_def api_inv_wf Let_def fail_out_def split: option.splits sum.splits)

lemma length_render_traceparent:
  "span_context_ok c \<Longrightarrow> length (render_traceparent c) = 55"
  by (simp add: render_traceparent_def span_context_ok_def)

lemma render_traceparent_text:
  "render_traceparent c = traceparent_text 0 (sc_trace_id c) (sc_span_id c) (sc_trace_flags c) []"
  by (simp add: render_traceparent_def traceparent_text_def encode_hex_def HEX_LOWER_def)

lemma traceparent_text_ascii: "b \<in> set (traceparent_text v t i f []) \<Longrightarrow> b \<le> 0x7F"
proof -
  have "is_ascii_lowercase x \<or> is_ascii_digit x \<Longrightarrow> x \<le> 0x7F" for x
    by (auto simp: is_ascii_lowercase_def is_ascii_digit_def word_le_nat_alt)
  then show "b \<in> set (traceparent_text v t i f []) \<Longrightarrow> b \<le> 0x7F"
    using encode_hex_bytes by (auto simp: traceparent_text_def)
qed

lemma inject_traceparent_run:
  assumes "api_inv s" and "points_to s p (P_SpanContext c)" and "55 \<le> capacity"
  shows "otel_trace_propagation_inject_traceparent p False capacity False s =
     Some (St_Ok, (Some 55, Some (render_traceparent c)), clear_last_error s)"
proof -
  have ok: "span_context_ok c" using api_inv_points_to [OF assms(1,2)] by simp
  then have "span_context_is_valid c" by (simp add: span_context_is_valid_def span_context_ok_def)
  then show ?thesis
    using hsc.checked_as_points_to [of "clear_last_error s" p c] assms length_render_traceparent [OF ok]
    by (simp add: otel_trace_propagation_inject_traceparent_def inject_def api_inv_wf Let_def)
qed

lemma trace_extract_run:
  assumes "sv_as_str tpv = Inr tp" and "parse_traceparent tp = Inr (tid, sid, fl)" and "sv_as_str tsv = Inr ts"
  shows "otel_trace_propagation_extract (\<lambda>_. True) tpv tsv False s =
     (St_Ok, Some (Some (next_addr s)),
      snd (into_raw KIND_SPAN_CONTEXT
        (P_SpanContext (span_context_from_parts tid sid fl True (if validate_tracestate ts then ts else [])))
        (clear_last_error s)))"
  using assms by (simp add: otel_trace_propagation_extract_def Let_def prod_eq_iff split: prod.splits)

section \<open>Properties\<close>

text \<open>
  C5: \<open>traceparent\<close> is decided exactly. The parser of the entry point accepts a text with trace
  id, span id and flags if and only if the text is their W3C form: two lowercase hex digits of a
  version other than ff, a non-zero 16-byte trace id, a non-zero 8-byte span id and the flags
  between dashes, with nothing after them for version 00 and at most a dash-separated rest for
  a later version.
\<close>

theorem parse_traceparent_iff:
  "parse_traceparent tp = Inr (trace_id, span_id, flags) \<longleftrightarrow>
     length trace_id = 16 \<and> length span_id = 8 \<and> trace_id \<noteq> zero_bytes 16 \<and> span_id \<noteq> zero_bytes 8 \<and>
     (\<exists>version rest. tp = traceparent_text version trace_id span_id flags rest \<and> version \<noteq> 0xFF \<and>
        (rest = [] \<or> version \<noteq> 0 \<and> hd rest = 0x2D))"
  using parse_traceparent_text [of trace_id span_id] by (auto elim!: parse_traceparent_InrD)

text \<open>
  C35: The check of a \<open>tracestate\<close> decides the W3C grammar: it accepts exactly the texts of at most 512 bytes that
  derive as a list of \<open>key=value\<close> members and blanks between commas, with at most 32 members and no key twice. The
  grammar is the one of the recommendation, stated over byte ranges and lengths. An accepted value holds
  only tabs and printable ASCII, so it can be copied into a header.
\<close>

theorem validate_tracestate_grammar:
  "(validate_tracestate value \<longleftrightarrow>
      length value \<le> 512 \<and> (\<exists>keys. w3c_list value keys \<and> length keys \<le> 32 \<and> distinct keys)) \<and>
   (validate_tracestate value \<longrightarrow> (\<forall>b \<in> set value. b = 0x09 \<or> 0x20 \<le> b \<and> b \<le> 0x7E))"
  using validate_tracestate_safe [of "value"] by (auto simp: validate_tracestate_iff w3c_list_iff header_safe_def)

theorem validate_tracestate_grammar_witness:
  "validate_tracestate [0x61, 0x3D, 0x31, 0x2C, 0x20, 0x30, 0x40, 0x62, 0x3D, 0x32, 0x09] \<and>
   \<not> validate_tracestate [0x30, 0x3D, 0x31]"
proof -
  have a: "w3c_member [0x61, 0x3D, 0x31] [0x61]"
    using w3c_member.intros [of "[]" "[0x61]" "[0x31]" "[]"] w3c_key.simple [of "0x61" "[]"] w3c_value.intros [of "[]" "0x31"]
    by (simp add: w3c_ows_def w3c_lcalpha_def w3c_nonblank_def word_le_nat_alt)
  have b: "w3c_member [0x20, 0x30, 0x40, 0x62, 0x3D, 0x32, 0x09] [0x30, 0x40, 0x62]"
    using w3c_member.intros [of "[0x20]" "[0x30, 0x40, 0x62]" "[0x32]" "[0x09]"] w3c_key.multi_tenant [of "0x30" "[]" "0x62" "[]"]
      w3c_value.intros [of "[]" "0x32"]
    by (simp add: w3c_ows_def w3c_lcalpha_def w3c_digit_def w3c_nonblank_def word_le_nat_alt)
  have "w3c_list [0x61, 0x3D, 0x31, 0x2C, 0x20, 0x30, 0x40, 0x62, 0x3D, 0x32, 0x09] [[0x61], [0x30, 0x40, 0x62]]"
    using w3c_list.more_member [OF a w3c_list.last_member [OF b]] by simp
  moreover have "\<not> w3c_list [0x30, 0x3D, 0x31] ks" for ks
    by (simp add: w3c_list_iff tracestate_members_def trim_ows_def is_ows_def tracestate_member_ok_def
        is_valid_tracestate_key_def is_ascii_lowercase_def)
  ultimately show ?thesis
    using validate_tracestate_grammar [of "[0x61, 0x3D, 0x31, 0x2C, 0x20, 0x30, 0x40, 0x62, 0x3D, 0x32, 0x09]"]
      validate_tracestate_grammar [of "[0x30, 0x3D, 0x31]"]
    by auto
qed

text \<open>
  Injecting a live span context and extracting the result round-trips. The
  \<open>traceparent\<close> of any live context is 55 bytes and is accepted, and the extracted context has
  the same trace id, span id and all eight flag bits, is marked remote, and keeps the trace
  state if it is well formed and drops it otherwise.
\<close>

theorem traceparent_roundtrip:
  assumes "api_inv s" and "points_to s p (P_SpanContext c)" and "length (sc_trace_state c) \<le> isize_max"
  shows "\<exists>tp s1 q s2.
     otel_trace_propagation_inject_traceparent p False 55 False s = Some (St_Ok, (Some 55, Some tp), s1) \<and>
     otel_trace_propagation_extract (\<lambda>_. True) (sv_of tp) (sv_of (sc_trace_state c)) False s1 = (St_Ok, Some q, s2) \<and>
     points_to s2 q (P_SpanContext (c\<lparr>sc_is_remote := True,
       sc_trace_state := (if validate_tracestate (sc_trace_state c) then sc_trace_state c else [])\<rparr>)) \<and>
     points_to s2 p (P_SpanContext c)"
proof -
  have ok: "span_context_ok c" using api_inv_points_to [OF assms(1,2)] by simp
  let ?tp = "render_traceparent c"
  have "valid_utf8 ?tp"
    unfolding render_traceparent_text using traceparent_text_ascii by (intro valid_utf8_ascii) blast
  then have tp: "sv_as_str (sv_of ?tp) = Inr ?tp"
    using length_render_traceparent [OF ok] by (intro sv_as_str_sv_of) (simp_all add: isize_max_def)
  have "parse_traceparent ?tp = Inr (sc_trace_id c, sc_span_id c, sc_trace_flags c)"
    unfolding render_traceparent_text using ok by (intro parse_traceparent_text) (auto simp: span_context_ok_def)
  note run = trace_extract_run [OF tp this sv_as_str_sv_of [OF _ assms(3)], of "clear_last_error s"]
  have "valid_utf8 (sc_trace_state c)" using ok by (simp add: span_context_ok_def)
  from run [OF this] inject_traceparent_run [OF assms(1,2), of 55]
    wf_store_fresh [OF api_inv_wf [OF assms(1)]] assms(2)
  show ?thesis
    by (auto simp: points_to_def span_context_from_parts_def split: option.splits)
qed

text \<open>A live span context for the witnesses: trace id and span id of ones, no trace state.\<close>

definition sample_context :: span_context_data where
  "sample_context = span_context_from_parts (replicate 16 1) (replicate 8 1) 0x01 False []"

definition sample_context_store :: "api_payload store" where
  "sample_context_store = snd (into_raw KIND_SPAN_CONTEXT (P_SpanContext sample_context) initial_store)"

lemma sample_context_ok: "span_context_ok sample_context"
  by (simp add: sample_context_def span_context_from_parts_def span_context_ok_def zero_bytes_def
      replicate_eq_replicate)

lemma sample_context_facts:
  "api_inv sample_context_store" "points_to sample_context_store (Some 1) (P_SpanContext sample_context)"
  unfolding sample_context_store_def
  by (rule api_inv_into_raw [OF api_inv_initial])
    (simp_all add: sample_context_ok points_to_def initial_store_def)

theorem traceparent_roundtrip_witness:
  "\<exists>tp s1 q s2.
     otel_trace_propagation_inject_traceparent (Some 1) False 55 False sample_context_store
       = Some (St_Ok, (Some 55, Some tp), s1) \<and>
     otel_trace_propagation_extract (\<lambda>_. True) (sv_of tp) (sv_of []) False s1 = (St_Ok, Some q, s2) \<and>
     points_to s2 q (P_SpanContext (sample_context\<lparr>sc_is_remote := True\<rparr>))"
  using traceparent_roundtrip [OF sample_context_facts]
  by (auto simp: sample_context_def span_context_from_parts_def validate_tracestate_def)

text \<open>
  The other direction. Whatever version-00 \<open>traceparent\<close> extraction accepts, injecting the
  extracted context writes the same 55 bytes again; the extracted context is remote.
\<close>

theorem traceparent_extract_inject:
  assumes "api_inv s" and "valid_utf8 tp" and "take 2 tp = [0x30, 0x30]" and "length tp \<le> isize_max"
    and "otel_trace_propagation_extract (\<lambda>_. True) (sv_of tp) tsv False s = (St_Ok, Some q, s1)"
  shows "\<exists>c s2. points_to s1 q (P_SpanContext c) \<and> sc_is_remote c \<and>
     otel_trace_propagation_inject_traceparent q False 55 False s1 = Some (St_Ok, (Some 55, Some tp), s2)"
proof -
  have tpv: "sv_as_str (sv_of tp) = Inr tp" using assms(2,4) by (rule sv_as_str_sv_of)
  obtain tid sid fl ts where p: "parse_traceparent tp = Inr (tid, sid, fl)" "sv_as_str tsv = Inr ts"
  proof -
    have e: "err_status e \<noteq> St_Ok" if "sv_as_str tsv = Inl e" for e
      using that by (auto simp: sv_as_str_def sv_as_bytes_def abi_error_new_def split: if_splits sum.splits option.splits)
    show ?thesis
      using assms(5) that e
      by (auto simp: otel_trace_propagation_extract_def tpv Let_def fail_out_def
          split: sum.splits prod.splits)
  qed
  let ?c = "span_context_from_parts tid sid fl True (if validate_tracestate ts then ts else [])"
  from assms(5) trace_extract_run [OF tpv p, of s]
  have q: "q = Some (next_addr s)" "s1 = snd (into_raw KIND_SPAN_CONTEXT (P_SpanContext ?c) (clear_last_error s))"
    by simp_all
  have pt: "points_to s1 q (P_SpanContext ?c)" by (simp add: q points_to_def)
  obtain version rest where t: "tp = traceparent_text version tid sid fl rest" "rest = [] \<or> version \<noteq> 0"
    using p(1) by (auto elim: parse_traceparent_InrD)
  have "encode_hex [version] = encode_hex [0]"
    using assms(3) t(1) by (simp add: traceparent_text_def) (simp add: encode_hex_def HEX_LOWER_def)
  then have "version = 0"
    using decode_pairs_encode [of "[version]"] decode_pairs_encode [of "[0]"] by simp
  with t have "render_traceparent ?c = tp"
    by (simp add: render_traceparent_text span_context_from_parts_def)
  with inject_traceparent_run [OF trace_extract_inv [OF assms(1,5)] pt, of 55] pt show ?thesis
    by (auto simp: span_context_from_parts_def)
qed


theorem traceparent_extract_inject_witness:
  "\<exists>q s1 s2. otel_trace_propagation_extract (\<lambda>_. True) (sv_of (render_traceparent sample_context)) sv_empty
        False initial_store = (St_Ok, Some q, s1) \<and>
     otel_trace_propagation_inject_traceparent q False 55 False s1
       = Some (St_Ok, (Some 55, Some (render_traceparent sample_context)), s2)"
proof -
  let ?tp = "render_traceparent sample_context"
  have u: "valid_utf8 ?tp"
    unfolding render_traceparent_text using traceparent_text_ascii by (intro valid_utf8_ascii) blast
  have l: "length ?tp \<le> isize_max"
    using length_render_traceparent [OF sample_context_ok] by (simp add: isize_max_def)
  have p: "parse_traceparent ?tp = Inr (sc_trace_id sample_context, sc_span_id sample_context, sc_trace_flags sample_context)"
    unfolding render_traceparent_text
    using sample_context_ok by (intro parse_traceparent_text) (auto simp: span_context_ok_def)
  have e: "sv_as_str sv_empty = Inr []" by (simp add: sv_as_str_def sv_as_bytes_def sv_empty_def)
  note run = trace_extract_run [OF sv_as_str_sv_of [OF u l] p e, of initial_store]
  have "take 2 ?tp = [0x30, 0x30]" by (simp add: render_traceparent_def)
  from traceparent_extract_inject [OF api_inv_initial u this l run] run show ?thesis by blast
qed

text \<open>
  C40: A trace state that is not even UTF-8 is the exception to the rule that a bad trace state
  never invalidates a good \<open>traceparent\<close>: the call fails with the invalid-UTF-8 status, writes
  NULL and creates no context, whatever the \<open>traceparent\<close>.
\<close>

theorem tracestate_not_utf8_fails:
  assumes "valid_utf8 tp" and "length tp \<le> isize_max" and "parse_traceparent tp = Inr ids"
    and "\<not> valid_utf8 ts" and "length ts \<le> isize_max"
  shows "\<exists>s'. otel_trace_propagation_extract al (sv_of tp) (sv_of ts) False s = (St_InvalidUtf8, Some None, s') \<and>
     objs s' = objs s"
proof -
  have ne: "ts \<noteq> []" using assms(4) by auto
  have "unat (word_of_nat (length ts) :: usize) = length ts"
    using assms(5) by (intro unat_word_of_nat64) (simp add: isize_max_def)
  moreover have "(word_of_nat (length ts) :: usize) \<noteq> 0"
    using calculation ne by (metis length_0_conv unsigned_0)
  ultimately have "sv_as_str (sv_of ts) = Inl (abi_error_new St_InvalidUtf8 ''string view is not valid UTF-8'')"
    using assms(4,5) ne by (simp add: sv_as_str_def sv_as_bytes_def sv_of_def)
  then show ?thesis
    using sv_as_str_sv_of [OF assms(1,2)] assms(3)
    by (cases ids) (simp add: otel_trace_propagation_extract_def Let_def abi_error_new_def)
qed

theorem tracestate_not_utf8_fails_witness:
  "\<exists>s'. otel_trace_propagation_extract (\<lambda>_. True) (sv_of (render_traceparent sample_context)) (sv_of [0xFF])
       False initial_store = (St_InvalidUtf8, Some None, s') \<and> objs s' = objs initial_store"
proof (rule tracestate_not_utf8_fails)
  show "valid_utf8 (render_traceparent sample_context)"
    unfolding render_traceparent_text using traceparent_text_ascii by (intro valid_utf8_ascii) blast
  show "length (render_traceparent sample_context) \<le> isize_max"
    using length_render_traceparent [OF sample_context_ok] by (simp add: isize_max_def)
  show "parse_traceparent (render_traceparent sample_context)
      = Inr (sc_trace_id sample_context, sc_span_id sample_context, sc_trace_flags sample_context)"
    unfolding render_traceparent_text
    using sample_context_ok by (intro parse_traceparent_text) (auto simp: span_context_ok_def)
  show "\<not> valid_utf8 [0xFF]" by (simp add: valid_utf8_def utf8_check.simps utf8_width_def)
  show "length [0xFF :: byte] \<le> isize_max" by (simp add: isize_max_def)
qed

end
