(* ===== verification/Context.thy ===== *)
theory Context
  imports Trace_Propagation Baggage
begin

text \<open>
  The cross-signal context (\<open>api/src/context.rs\<close>): immutable contexts that pair a span context
  with a baggage, and the stack of attached contexts that every thread owns. A thread's stack is
  created on first use with a token of its own; \<open>attach\<close> pushes and hands out a scope, and
  \<open>detach\<close> pops only for the scope of the top entry on the owning thread.

  The store of the handles is extended by the thread-local slots. The diagnostic slot of the store
  is that of the calling thread.
\<close>

section \<open>State\<close>

definition MAX_CONTEXT_DEPTH :: nat where "MAX_CONTEXT_DEPTH = 64"
definition SCOPE_SIZE :: usize where "SCOPE_SIZE = 40"

record otel_context_scope =
  scope_struct_size :: usize
  scope_thread_token :: u64
  scope_generation :: u64
  scope_reserved :: "u64 list"

record stack_entry =
  en_generation :: u64
  en_context :: context_data

record context_stack =
  cs_thread_token :: u64
  cs_next_generation :: u64
  cs_entries :: "stack_entry list"

text \<open>A thread-local slot: not yet used, in use, or destroyed at thread exit (\<open>try_with\<close> fails).\<close>

datatype tls_slot = Tls_Unused | Tls_Live context_stack | Tls_Destroyed

type_synonym thread = nat

record ctx_store = "api_payload store" +
  tls :: "thread \<Rightarrow> tls_slot"
  next_thread_token :: u64

definition default_context :: context_data where
  "default_context = \<lparr>cd_span_context = None, cd_baggage = None, cd_flags = 0\<rparr>"

section \<open>The stack\<close>

text \<open>\<open>ContextStack::new\<close>: the token counter wraps around and token 0 is skipped.\<close>

definition context_stack_new :: "'m ctx_store_scheme \<Rightarrow> context_stack \<times> 'm ctx_store_scheme" where
  "context_stack_new s =
     (let t = next_thread_token s;
          token = (if t = 0 then t + 1 else t)
      in (\<lparr>cs_thread_token = token, cs_next_generation = 1, cs_entries = []\<rparr>,
          s\<lparr>next_thread_token := token + 1\<rparr>))"

definition allocate_generation :: "context_stack \<Rightarrow> u64 \<times> context_stack" where
  "allocate_generation st =
     (let g = cs_next_generation st; n = g + 1
      in (g, st\<lparr>cs_next_generation := (if n = 0 then 1 else n)\<rparr>))"

text \<open>\<open>CURRENT_CONTEXT.try_with\<close>: the thread's stack, created on first use, or nothing.\<close>

definition try_stack :: "thread \<Rightarrow> 'm ctx_store_scheme \<Rightarrow> context_stack option \<times> 'm ctx_store_scheme" where
  "try_stack t s =
     (case tls s t of
        Tls_Destroyed \<Rightarrow> (None, s)
      | Tls_Live st \<Rightarrow> (Some st, s)
      | Tls_Unused \<Rightarrow>
          (case context_stack_new s of
             (st, s1) \<Rightarrow> (Some st, s1\<lparr>tls := (tls s1)(t := Tls_Live st)\<rparr>)))"

definition put_stack :: "thread \<Rightarrow> context_stack \<Rightarrow> 'm ctx_store_scheme \<Rightarrow> 'm ctx_store_scheme" where
  "put_stack t st s = s\<lparr>tls := (tls s)(t := Tls_Live st)\<rparr>"

definition current_data :: "thread \<Rightarrow> 'm ctx_store_scheme \<Rightarrow> context_data option \<times> 'm ctx_store_scheme" where
  "current_data t s =
     (case try_stack t s of
        (None, s1) \<Rightarrow> (None, s1)
      | (Some st, s1) \<Rightarrow>
          (if cs_entries st = [] then None else Some (en_context (last (cs_entries st))), s1))"

section \<open>Contexts\<close>

definition new_context ::
  "context_data \<Rightarrow> (api_payload, 'm) store_scheme \<Rightarrow> ptr \<times> (api_payload, 'm) store_scheme" where
  "new_context d s = into_raw KIND_CONTEXT (P_Context d) s"

text \<open>An optional span-context argument: NULL clears; a live valid one is shared; anything else is
  refused (the outer \<open>None\<close> of the inner result).\<close>

definition span_context_arg ::
  "ptr \<Rightarrow> (api_payload, 'm) store_scheme
     \<Rightarrow> (span_context_data option option \<times> (api_payload, 'm) store_scheme) option" where
  "span_context_arg p s =
     (if p = None then Some (Some None, s)
      else
        (case checked_as KIND_SPAN_CONTEXT as_span_context p s of
           None \<Rightarrow> None
         | Some (None, s1) \<Rightarrow> Some (None, s1)
         | Some (Some c, s1) \<Rightarrow>
             if \<not> span_context_is_valid c then
               Some (None, snd (fail St_InvalidArgument ''context span context is invalid'' s1))
             else Some (Some (Some c), s1)))"

definition otel_context_create ::
  "ptr \<Rightarrow> (api_payload, 'm) store_scheme \<Rightarrow> (ptr \<times> (api_payload, 'm) store_scheme) option" where
  "otel_context_create span_context s =
     (case span_context_arg span_context (clear_last_error s) of
        None \<Rightarrow> None
      | Some (None, s1) \<Rightarrow> Some (None, s1)
      | Some (Some sc, s1) \<Rightarrow>
          Some (new_context \<lparr>cd_span_context = sc, cd_baggage = None, cd_flags = 0\<rparr> s1))"

definition otel_context_with_span_context ::
  "ptr \<Rightarrow> ptr \<Rightarrow> bool \<Rightarrow> (api_payload, 'm) store_scheme
     \<Rightarrow> (otel_status \<times> ptr option \<times> (api_payload, 'm) store_scheme) option" where
  "otel_context_with_span_context base span_context out_null s =
     (if out_null then
        Some (fail_out St_InvalidArgument ''context output is NULL'' None (clear_last_error s))
      else
        (case checked_as KIND_CONTEXT as_context base (clear_last_error s) of
           None \<Rightarrow> None
         | Some (None, s1) \<Rightarrow> Some (St_InvalidArgument, Some None, s1)
         | Some (Some b, s1) \<Rightarrow>
             (case span_context_arg span_context s1 of
                None \<Rightarrow> None
              | Some (None, s2) \<Rightarrow> Some (St_InvalidArgument, Some None, s2)
              | Some (Some sc, s2) \<Rightarrow>
                  (case new_context \<lparr>cd_span_context = sc, cd_baggage = cd_baggage b, cd_flags = cd_flags b\<rparr> s2 of
                     (p, s3) \<Rightarrow> Some (St_Ok, Some p, s3)))))"

definition otel_context_with_baggage ::
  "ptr \<Rightarrow> ptr \<Rightarrow> bool \<Rightarrow> (api_payload, 'm) store_scheme
     \<Rightarrow> (otel_status \<times> ptr option \<times> (api_payload, 'm) store_scheme) option" where
  "otel_context_with_baggage base baggage out_null s =
     (if out_null then
        Some (fail_out St_InvalidArgument ''context output is NULL'' None (clear_last_error s))
      else
        (case checked_as KIND_CONTEXT as_context base (clear_last_error s) of
           None \<Rightarrow> None
         | Some (None, s1) \<Rightarrow> Some (St_InvalidArgument, Some None, s1)
         | Some (Some b, s1) \<Rightarrow>
             (case (if baggage = None then Some (Some None, s1)
                    else (case checked_as KIND_BAGGAGE as_baggage baggage s1 of
                            None \<Rightarrow> None
                          | Some (None, s2) \<Rightarrow> Some (None, s2)
                          | Some (Some es, s2) \<Rightarrow> Some (Some (Some es), s2))) of
                None \<Rightarrow> None
              | Some (None, s2) \<Rightarrow> Some (St_InvalidArgument, Some None, s2)
              | Some (Some bg, s2) \<Rightarrow>
                  (case new_context \<lparr>cd_span_context = cd_span_context b, cd_baggage = bg, cd_flags = cd_flags b\<rparr> s2 of
                     (p, s3) \<Rightarrow> Some (St_Ok, Some p, s3)))))"

definition otel_context_baggage ::
  "ptr \<Rightarrow> (api_payload, 'm) store_scheme \<Rightarrow> (ptr \<times> (api_payload, 'm) store_scheme) option" where
  "otel_context_baggage context s =
     (case checked_as KIND_CONTEXT as_context context (clear_last_error s) of
        None \<Rightarrow> None
      | Some (None, s1) \<Rightarrow> Some (None, s1)
      | Some (Some c, s1) \<Rightarrow>
          (case cd_baggage c of None \<Rightarrow> Some (None, s1) | Some es \<Rightarrow> Some (new_baggage es s1)))"

definition otel_context_clone ::
  "ptr \<Rightarrow> (api_payload, 'm) store_scheme \<Rightarrow> (ptr \<times> (api_payload, 'm) store_scheme) option" where
  "otel_context_clone context s =
     (case checked_as KIND_CONTEXT as_context context (clear_last_error s) of
        None \<Rightarrow> None
      | Some (None, s1) \<Rightarrow> Some (None, s1)
      | Some (Some c, s1) \<Rightarrow> Some (new_context c s1))"

definition otel_context_current :: "thread \<Rightarrow> 'm ctx_store_scheme \<Rightarrow> ptr \<times> 'm ctx_store_scheme" where
  "otel_context_current t s =
     (case current_data t (clear_last_error s) of
        (None, s1) \<Rightarrow> new_context default_context s1
      | (Some d, s1) \<Rightarrow> new_context d s1)"

definition otel_context_span_context ::
  "ptr \<Rightarrow> (api_payload, 'm) store_scheme \<Rightarrow> (ptr \<times> (api_payload, 'm) store_scheme) option" where
  "otel_context_span_context context s =
     (case checked_as KIND_CONTEXT as_context context (clear_last_error s) of
        None \<Rightarrow> None
      | Some (None, s1) \<Rightarrow> Some (None, s1)
      | Some (Some c, s1) \<Rightarrow>
          (case cd_span_context c of
             None \<Rightarrow> Some (None, s1)
           | Some d \<Rightarrow> Some (into_raw KIND_SPAN_CONTEXT (P_SpanContext d) s1)))"

definition otel_context_destroy ::
  "ptr \<Rightarrow> (api_payload, 'm) store_scheme \<Rightarrow> (api_payload, 'm) store_scheme option" where
  "otel_context_destroy context s = destroy KIND_CONTEXT context s"

section \<open>Attach and detach\<close>

text \<open>The scope argument is NULL or the caller's structure, returned as the call leaves it.\<close>

definition otel_context_attach ::
  "thread \<Rightarrow> ptr \<Rightarrow> otel_context_scope option \<Rightarrow> 'm ctx_store_scheme
     \<Rightarrow> (otel_status \<times> otel_context_scope option \<times> 'm ctx_store_scheme) option" where
  "otel_context_attach t context scope s =
     (let s0 = clear_last_error s in
      case scope of
        None \<Rightarrow> Some (fail_out St_InvalidArgument ''context scope is NULL'' None s0)
      | Some sc \<Rightarrow>
          if scope_struct_size sc < SCOPE_SIZE then
            Some (fail_out St_InvalidConfig ''context scope struct_size is too small'' (Some sc) s0)
          else
            (let inactive = sc\<lparr>scope_thread_token := 0, scope_generation := 0, scope_reserved := [0, 0]\<rparr> in
             case checked_as KIND_CONTEXT as_context context s0 of
               None \<Rightarrow> None
             | Some (None, s1) \<Rightarrow> Some (St_InvalidArgument, Some inactive, s1)
             | Some (Some data, s1) \<Rightarrow>
                 (case try_stack t s1 of
                    (None, s2) \<Rightarrow>
                      Some (fail_out St_InternalError ''thread-local context is unavailable'' (Some inactive) s2)
                  | (Some st, s2) \<Rightarrow>
                      if length (cs_entries st) \<ge> MAX_CONTEXT_DEPTH then
                        Some (fail_out St_InvalidConfig ''context attachment depth exceeds 64'' (Some inactive) s2)
                      else
                        (case allocate_generation st of
                           (generation, st1) \<Rightarrow>
                             Some (St_Ok,
                               Some (inactive\<lparr>scope_thread_token := cs_thread_token st1,
                                              scope_generation := generation\<rparr>),
                               put_stack t
                                 (st1\<lparr>cs_entries := cs_entries st1 @
                                    [\<lparr>en_generation = generation, en_context = data\<rparr>]\<rparr>) s2)))))"

definition otel_context_scope_detach ::
  "thread \<Rightarrow> otel_context_scope option \<Rightarrow> 'm ctx_store_scheme
     \<Rightarrow> otel_status \<times> otel_context_scope option \<times> 'm ctx_store_scheme" where
  "otel_context_scope_detach t scope s =
     (let s0 = clear_last_error s in
      case scope of
        None \<Rightarrow> fail_out St_InvalidArgument ''context scope is NULL'' None s0
      | Some sc \<Rightarrow>
          if scope_struct_size sc < SCOPE_SIZE then
            fail_out St_InvalidConfig ''context scope struct_size is too small'' (Some sc) s0
          else if scope_reserved sc \<noteq> [0, 0] \<or> scope_thread_token sc = 0 \<or> scope_generation sc = 0 then
            fail_out St_InvalidArgument ''context scope is inactive or invalid'' (Some sc) s0
          else
            (case try_stack t s0 of
               (None, s1) \<Rightarrow>
                 fail_out St_InternalError ''thread-local context is unavailable'' (Some sc) s1
             | (Some st, s1) \<Rightarrow>
                 if cs_thread_token st \<noteq> scope_thread_token sc then
                   fail_out St_InvalidArgument ''context scope belongs to another thread'' (Some sc) s1
                 else if (if cs_entries st = [] then None else Some (en_generation (last (cs_entries st))))
                           \<noteq> Some (scope_generation sc) then
                   fail_out St_InvalidArgument ''context scopes must be detached once in LIFO order'' (Some sc) s1
                 else
                   (St_Ok, Some (sc\<lparr>scope_thread_token := 0, scope_generation := 0\<rparr>),
                    put_stack t (st\<lparr>cs_entries := butlast (cs_entries st)\<rparr>) s1)))"


section \<open>Frame facts\<close>

lemma ctx_more_eq:
  assumes "store.more s' = store.more (s :: 'm ctx_store_scheme)"
  shows "tls s' = tls s" and "next_thread_token s' = next_thread_token s" and "ctx_store.more s' = ctx_store.more s"
  using assms by (cases s; cases s'; simp)+

lemma tls_frame [simp, store_simps]:
  "tls (set_error_text m s) = tls s" "tls (set_last_error m' s) = tls s" "tls (clear_last_error s) = tls s"
  "tls (snd (into_raw K b s)) = tls s" "tls (put_ptr p b s) = tls s" "tls (snd (fail st m s)) = tls s"
  "next_thread_token (set_error_text m s) = next_thread_token s"
  "next_thread_token (set_last_error m' s) = next_thread_token s"
  "next_thread_token (clear_last_error s) = next_thread_token s"
  "next_thread_token (snd (into_raw K b s)) = next_thread_token s"
  "next_thread_token (put_ptr p b s) = next_thread_token s"
  "next_thread_token (snd (fail st m s)) = next_thread_token s"
  by (rule ctx_more_eq; simp add: fail_def)+

lemma tls_checked:
  assumes "checked_as K proj p s = Some (r, s')"
  shows "tls s' = tls s" and "next_thread_token s' = next_thread_token s"
  using checked_as_frame [OF assms] ctx_more_eq [of s' s] by auto

lemma ctx_update_simps [simp, store_simps]:
  "objs (s\<lparr>tls := f\<rparr>) = objs s" "next_addr (s\<lparr>tls := f\<rparr>) = next_addr s" "last_error (s\<lparr>tls := f\<rparr>) = last_error s"
  "objs (s\<lparr>next_thread_token := k\<rparr>) = objs s" "next_addr (s\<lparr>next_thread_token := k\<rparr>) = next_addr s"
  "last_error (s\<lparr>next_thread_token := k\<rparr>) = last_error s"
  by simp_all

lemma put_stack_simps [simp, store_simps]:
  "objs (put_stack t st s) = objs s" "next_addr (put_stack t st s) = next_addr s"
  "tls (put_stack t st s) = (tls s)(t := Tls_Live st)"
  "next_thread_token (put_stack t st s) = next_thread_token s"
  by (simp_all add: put_stack_def)

text \<open>The outcome of \<open>try_stack\<close> in one rule: the slot is live afterwards, and only a first use
  changes anything.\<close>

lemma try_stack_SomeD:
  assumes "try_stack t s = (Some st, s1)"
  shows "tls s1 = (tls s)(t := Tls_Live st)" and "objs s1 = objs s" and "next_addr s1 = next_addr s"
    and "last_error s1 = last_error s" and "tls s t \<noteq> Tls_Destroyed"
    and "tls s t = Tls_Unused \<Longrightarrow> cs_entries st = [] \<and> cs_next_generation st = 1 \<and> cs_thread_token st \<noteq> 0"
    and "\<And>st'. tls s t = Tls_Live st' \<Longrightarrow> st' = st \<and> s1 = s"
  using assms
  by (auto simp: try_stack_def context_stack_new_def Let_def fun_upd_idem split: tls_slot.splits if_splits)

lemma try_stack_NoneD: "try_stack t s = (None, s1) \<Longrightarrow> s1 = s \<and> tls s t = Tls_Destroyed"
  by (auto simp: try_stack_def split: tls_slot.splits prod.splits)

section \<open>Invariant\<close>

definition stack_ok :: "context_stack \<Rightarrow> bool" where
  "stack_ok st \<longleftrightarrow> length (cs_entries st) \<le> MAX_CONTEXT_DEPTH \<and> cs_thread_token st \<noteq> 0 \<and>
     cs_next_generation st \<noteq> 0 \<and>
     (\<forall>e \<in> set (cs_entries st). en_generation e \<noteq> 0 \<and> context_ok (en_context e))"

definition slot_ok :: "tls_slot \<Rightarrow> bool" where
  "slot_ok slot \<longleftrightarrow> (case slot of Tls_Live st \<Rightarrow> stack_ok st | _ \<Rightarrow> True)"

definition ctx_inv :: "'m ctx_store_scheme \<Rightarrow> bool" where
  "ctx_inv s \<longleftrightarrow> api_inv s \<and> (\<forall>t. slot_ok (tls s t))"

text \<open>The abstract stack of a thread.\<close>

definition attached :: "thread \<Rightarrow> 'm ctx_store_scheme \<Rightarrow> stack_entry list" where
  "attached t s = (case tls s t of Tls_Live st \<Rightarrow> cs_entries st | _ \<Rightarrow> [])"

lemma ctx_inv_cong: "api_inv s' = api_inv s \<Longrightarrow> tls s' = tls s \<Longrightarrow> ctx_inv s' = ctx_inv s"
  by (simp add: ctx_inv_def)

lemma ctx_inv_simps [simp]:
  "ctx_inv (set_error_text m s) = ctx_inv s" "ctx_inv (set_last_error m' s) = ctx_inv s"
  "ctx_inv (clear_last_error s) = ctx_inv s" "ctx_inv (snd (fail st m s)) = ctx_inv s"
  by (rule ctx_inv_cong; simp)+

lemma ctx_inv_checked: "checked_as K proj p s = Some (r, s') \<Longrightarrow> ctx_inv s' = ctx_inv s"
  using tls_checked [of K proj p s r s'] api_inv_checked [of K proj p s r s']
  by (intro ctx_inv_cong) simp_all

lemma ctx_inv_api: "ctx_inv s \<Longrightarrow> api_inv s"
  by (simp add: ctx_inv_def)

lemma ctx_inv_new_context: "ctx_inv s \<Longrightarrow> context_ok d \<Longrightarrow> ctx_inv (snd (new_context d s))"
  unfolding ctx_inv_def new_context_def by (auto intro: api_inv_into_raw)

lemma try_stack_inv:
  assumes "ctx_inv s" and "try_stack t s = (r, s1)"
  shows "ctx_inv s1" and "\<And>st. r = Some st \<Longrightarrow> stack_ok st"
proof -
  have ok: "stack_ok st" if "r = Some st" for st
  proof (cases "tls s t")
    case (Tls_Live st')
    then have "slot_ok (Tls_Live st')" using assms(1) by (metis ctx_inv_def)
    then show ?thesis using that assms(2) Tls_Live by (auto simp: try_stack_def slot_ok_def)
  next
    case Tls_Unused
    then show ?thesis using try_stack_SomeD(6) [OF assms(2) [unfolded that]] by (simp add: stack_ok_def)
  next
    case Tls_Destroyed
    then show ?thesis using try_stack_SomeD(5) [OF assms(2) [unfolded that]] by simp
  qed
  then show "\<And>st. r = Some st \<Longrightarrow> stack_ok st" .
  show "ctx_inv s1"
  proof (cases r)
    case None
    with assms try_stack_NoneD show ?thesis by metis
  next
    case (Some st)
    note f = try_stack_SomeD [OF assms(2) [unfolded Some]]
    have "api_inv s1" using f(2,3) assms(1) by (simp add: ctx_inv_def api_inv_cong [of s1 s])
    with f(1) ok [OF Some] assms(1) show ?thesis by (simp add: ctx_inv_def slot_ok_def)
  qed
qed

lemma ctx_inv_put_stack: "ctx_inv s \<Longrightarrow> stack_ok st \<Longrightarrow> ctx_inv (put_stack t st s)"
  by (simp add: ctx_inv_def slot_ok_def api_inv_cong [of "put_stack t st s" s])

lemma allocate_generation_facts:
  assumes "stack_ok st" and "allocate_generation st = (g, st1)"
  shows "g \<noteq> 0" and "cs_entries st1 = cs_entries st" and "cs_thread_token st1 = cs_thread_token st"
    and "cs_next_generation st1 \<noteq> 0" and "cs_next_generation st1 \<noteq> g" and "g = cs_next_generation st"
proof -
  have ne: "(if w + 1 = 0 then 1 else w + 1) \<noteq> w" for w :: u64
  proof (cases "w + 1 = 0")
    case True
    then have "w = - 1" by (metis add_eq_0_iff add.commute)
    then show ?thesis by simp
  next
    case False
    then show ?thesis by simp
  qed
  show "g \<noteq> 0" "cs_entries st1 = cs_entries st" "cs_thread_token st1 = cs_thread_token st"
    "cs_next_generation st1 \<noteq> 0" "g = cs_next_generation st"
    using assms by (auto simp: allocate_generation_def Let_def stack_ok_def split: if_splits)
  show "cs_next_generation st1 \<noteq> g"
    using assms ne [of g] by (auto simp: allocate_generation_def Let_def)
qed

text \<open>The two operations on the stack, each as one case rule.\<close>

lemma attach_cases:
  assumes "ctx_inv s" and "otel_context_attach t p scope s = Some (st, out, s')"
  obtains (Refused) "st \<noteq> St_Ok" "ctx_inv s'" "attached t s' = attached t s" "objs s' = objs s"
      "\<And>u. u \<noteq> t \<Longrightarrow> tls s' u = tls s u"
    | (Pushed) sc d k k' where "scope = Some sc" "st = St_Ok" "points_to s p (P_Context d)" "stack_ok k" "stack_ok k'"
        "attached t s = cs_entries k" "length (cs_entries k) < MAX_CONTEXT_DEPTH"
        "tls s' = (tls s)(t := Tls_Live k')" "cs_thread_token k' = cs_thread_token k"
        "cs_entries k' = cs_entries k @ [\<lparr>en_generation = cs_next_generation k, en_context = d\<rparr>]"
        "cs_next_generation k' \<noteq> cs_next_generation k"
        "out = Some (sc\<lparr>scope_thread_token := cs_thread_token k, scope_generation := cs_next_generation k,
                        scope_reserved := [0, 0]\<rparr>)"
        "\<not> scope_struct_size sc < SCOPE_SIZE" "objs s' = objs s" "ctx_inv s'"
        "\<And>j. tls s t = Tls_Live j \<Longrightarrow> j = k" "fst (try_stack t s) = Some k"
        "next_thread_token s' = next_thread_token (snd (try_stack t s))"
proof (cases "\<exists>sc. scope = Some sc \<and> \<not> scope_struct_size sc < SCOPE_SIZE")
  case False
  with assms show ?thesis
    by (intro Refused) (auto simp: otel_context_attach_def Let_def fail_out_def attached_def
        split: option.splits if_splits)
next
  case True
  then obtain sc where sc: "scope = Some sc" "\<not> scope_struct_size sc < SCOPE_SIZE" by blast
  then obtain r s1 where c: "checked_as KIND_CONTEXT as_context p (clear_last_error s) = Some (r, s1)"
    using assms(2) by (auto simp: otel_context_attach_def Let_def split: option.splits prod.splits)
  have i1: "ctx_inv s1" "tls s1 = tls s" "objs s1 = objs s"
    using ctx_inv_checked [OF c] tls_checked [OF c] checked_as_frame [OF c] assms(1) by auto
  show ?thesis
  proof (cases r)
    case None
    with c sc assms i1 show ?thesis
      by (intro Refused) (auto simp: otel_context_attach_def Let_def attached_def)
  next
    case (Some d)
    then have pt: "points_to s p (P_Context d)" using c by (auto dest: hc.checked_as_SomeD)
    have dok: "context_ok d" using api_inv_points_to [OF ctx_inv_api [OF assms(1)] pt] by simp
    obtain r2 s2 where ts: "try_stack t s1 = (r2, s2)" by (cases "try_stack t s1")
    note i2 = try_stack_inv [OF i1(1) ts]
    show ?thesis
    proof (cases r2)
      case None
      with c sc Some ts try_stack_NoneD [OF ts [unfolded None]] assms i1 i2 show ?thesis
        by (intro Refused) (auto simp: otel_context_attach_def Let_def attached_def fail_out_def)
    next
      fix k assume k: "r2 = Some k"
      note f = try_stack_SomeD [OF ts [unfolded k]]
      have at: "attached t s = cs_entries k"
        using f(5-7) i1(2) by (cases "tls s t") (auto simp: attached_def)
      show ?thesis
      proof (cases "length (cs_entries k) \<ge> MAX_CONTEXT_DEPTH")
        case True
        with c sc Some ts k f(1,2) at assms i1 i2 show ?thesis
          by (intro Refused) (auto simp: otel_context_attach_def Let_def attached_def fail_out_def)
      next
        case False
        obtain g k1 where ag: "allocate_generation k = (g, k1)" by (cases "allocate_generation k")
        note a = allocate_generation_facts [OF i2(2) [OF k] ag]
        let ?k' = "k1\<lparr>cs_entries := cs_entries k1 @ [\<lparr>en_generation = g, en_context = d\<rparr>]\<rparr>"
        have ok': "stack_ok ?k'" using i2(2) [OF k] a dok False by (auto simp: stack_ok_def)
        have "s' = put_stack t ?k' s2" "st = St_Ok"
          "out = Some (sc\<lparr>scope_thread_token := cs_thread_token k, scope_generation := cs_next_generation k,
                        scope_reserved := [0, 0]\<rparr>)"
          using c sc Some ts k False ag assms(2) a
          by (auto simp: otel_context_attach_def Let_def)
        moreover have "fst (try_stack t s) = Some k" "next_thread_token s2 = next_thread_token (snd (try_stack t s))"
          using ts k tls_checked [OF c]
          by (auto simp: try_stack_def context_stack_new_def Let_def split: tls_slot.splits)
        ultimately show ?thesis using sc pt i2 k at False a ok' f(1,2,7) i1
          by (intro Pushed [of sc d k ?k']) (auto simp: ctx_inv_put_stack)
      qed
    qed
  qed
qed

lemma detach_cases:
  assumes "ctx_inv s" and "otel_context_scope_detach t scope s = (st, out, s')"
  obtains (Refused) "st \<noteq> St_Ok" "out = scope" "ctx_inv s'" "attached t s' = attached t s" "objs s' = objs s"
      "\<And>u. u \<noteq> t \<Longrightarrow> tls s' u = tls s u"
    | (Popped) sc k e where "scope = Some sc" "st = St_Ok" "tls s t = Tls_Live k" "stack_ok k"
        "cs_entries k = butlast (cs_entries k) @ [e]" "scope_generation sc = en_generation e"
        "scope_thread_token sc = cs_thread_token k"
        "out = Some (sc\<lparr>scope_thread_token := 0, scope_generation := 0\<rparr>)"
        "tls s' = (tls s)(t := Tls_Live (k\<lparr>cs_entries := butlast (cs_entries k)\<rparr>))" "objs s' = objs s" "ctx_inv s'"
proof (cases "\<exists>sc. scope = Some sc \<and> \<not> scope_struct_size sc < SCOPE_SIZE \<and> scope_reserved sc = [0, 0] \<and>
    scope_thread_token sc \<noteq> 0 \<and> scope_generation sc \<noteq> 0")
  case False
  with assms show ?thesis
    by (intro Refused) (auto simp: otel_context_scope_detach_def Let_def fail_out_def attached_def
        split: option.splits if_splits)
next
  case True
  then obtain sc where sc: "scope = Some sc" "\<not> scope_struct_size sc < SCOPE_SIZE" "scope_reserved sc = [0, 0]"
      "scope_thread_token sc \<noteq> 0" "scope_generation sc \<noteq> 0" by blast
  have i0: "ctx_inv (clear_last_error s)" using assms(1) by simp
  obtain r s1 where ts: "try_stack t (clear_last_error s) = (r, s1)" by (cases "try_stack t (clear_last_error s)")
  note i1 = try_stack_inv [OF i0 ts]
  show ?thesis
  proof (cases r)
    case None
    with sc ts try_stack_NoneD [OF ts [unfolded None]] assms i1 show ?thesis
      by (intro Refused) (auto simp: otel_context_scope_detach_def Let_def attached_def fail_out_def)
  next
    case (Some k)
    note f = try_stack_SomeD [OF ts [unfolded Some]]
    have at: "attached t s = cs_entries k"
      using f(5-7) by (cases "tls s t") (auto simp: attached_def)
    show ?thesis
    proof (cases "cs_thread_token k = scope_thread_token sc \<and> cs_entries k \<noteq> [] \<and>
        en_generation (last (cs_entries k)) = scope_generation sc")
      case False
      with sc Some ts f(1,2) at assms i1 show ?thesis
        by (intro Refused)
          (auto simp: otel_context_scope_detach_def Let_def attached_def fail_out_def split: if_splits)
    next
      case True
      then have live: "tls s t = Tls_Live k"
        using f(5-7) by (cases "tls s t") auto
      have "stack_ok (k\<lparr>cs_entries := butlast (cs_entries k)\<rparr>)"
        using i1(2) [OF Some] by (auto simp: stack_ok_def dest: in_set_butlastD)
      then have "ctx_inv (put_stack t (k\<lparr>cs_entries := butlast (cs_entries k)\<rparr>) s1)"
        using i1(1) by (intro ctx_inv_put_stack)
      moreover have "s' = put_stack t (k\<lparr>cs_entries := butlast (cs_entries k)\<rparr>) s1" "st = St_Ok"
        "out = Some (sc\<lparr>scope_thread_token := 0, scope_generation := 0\<rparr>)"
        using sc Some ts True assms(2) by (auto simp: otel_context_scope_detach_def Let_def)
      ultimately show ?thesis
        using sc Some i1(2) [OF Some] True live f(1,2)
        by (intro Popped [of sc k "last (cs_entries k)"]) auto
    qed
  qed
qed


section \<open>Every operation keeps the invariant\<close>

lemma ctx_inv_into_raw:
  "ctx_inv s \<Longrightarrow> K = api_kind b \<Longrightarrow> payload_ok b \<Longrightarrow> ctx_inv (snd (into_raw K b s))"
  by (auto simp: ctx_inv_def intro: api_inv_into_raw)

lemma ctx_inv_destroy:
  assumes "ctx_inv s" and "destroy K p s = Some s'"
  shows "ctx_inv s'"
proof -
  have "store.more s' = store.more s" using assms(2) by (auto simp: destroy_def split: option.splits if_splits)
  then have "tls s' = tls s" by (rule ctx_more_eq)
  with assms api_inv_destroy [OF _ assms(2)] show ?thesis by (simp add: ctx_inv_def)
qed

lemma span_context_arg_inv:
  assumes "ctx_inv s" and "span_context_arg p s = Some (r, s')"
  shows "ctx_inv s' \<and> (\<forall>sc. r = Some sc \<longrightarrow> pred_option span_context_ok sc) \<and> objs s' = objs s"
proof (cases "p = None")
  case True
  with assms show ?thesis by (auto simp: span_context_arg_def)
next
  case False
  then obtain r1 s1 where c: "checked_as KIND_SPAN_CONTEXT as_span_context p s = Some (r1, s1)"
    using assms(2) by (auto simp: span_context_arg_def split: option.splits prod.splits)
  have i: "ctx_inv s1" "objs s1 = objs s" using ctx_inv_checked [OF c] checked_as_frame [OF c] assms(1) by auto
  have "span_context_ok d" if "r1 = Some d" for d
    using that c api_inv_points_to [OF ctx_inv_api [OF assms(1)]] by (fastforce dest: hsc.checked_as_SomeD)
  with c i assms False show ?thesis
    by (auto simp: span_context_arg_def split: option.splits if_splits)
qed

lemma context_create_inv:
  assumes "ctx_inv s" and "otel_context_create p s = Some (q, s')"
  shows "ctx_inv s'"
proof -
  obtain r s1 where a: "span_context_arg p (clear_last_error s) = Some (r, s1)"
    using assms(2) by (auto simp: otel_context_create_def split: option.splits prod.splits)
  note i = span_context_arg_inv [OF _ a]
  show ?thesis
  proof (cases r)
    case None
    with a i assms show ?thesis by (simp add: otel_context_create_def)
  next
    case (Some sc)
    then have "context_ok \<lparr>cd_span_context = sc, cd_baggage = None, cd_flags = 0\<rparr>"
      using i assms(1) by (simp add: context_ok_def)
    from ctx_inv_new_context [OF _ this, of s1] a i assms Some show ?thesis
      by (auto simp: otel_context_create_def prod_eq_iff)
  qed
qed

lemma checked_context_inv:
  assumes "ctx_inv s" and "checked_as KIND_CONTEXT as_context p (clear_last_error s) = Some (r, s1)"
  shows "ctx_inv s1" and "\<And>d. r = Some d \<Longrightarrow> context_ok d"
proof -
  show "ctx_inv s1" using ctx_inv_checked [OF assms(2)] assms(1) by simp
  show "context_ok d" if "r = Some d" for d
    using that assms(2) api_inv_points_to [OF ctx_inv_api [OF assms(1)], of p "P_Context d"]
    by (auto dest: hc.checked_as_SomeD)
qed

lemma context_with_span_context_inv:
  assumes "ctx_inv s" and "otel_context_with_span_context b p out_null s = Some (st, out, s')"
  shows "ctx_inv s'"
proof (cases out_null)
  case True
  with assms show ?thesis by (auto simp: otel_context_with_span_context_def fail_out_def)
next
  case False
  then obtain r s1 where c: "checked_as KIND_CONTEXT as_context b (clear_last_error s) = Some (r, s1)"
    using assms(2) by (auto simp: otel_context_with_span_context_def split: option.splits prod.splits)
  note ci = checked_context_inv [OF assms(1) c]
  show ?thesis
  proof (cases r)
    case None
    with c ci assms False show ?thesis by (simp add: otel_context_with_span_context_def)
  next
    case (Some d)
    then obtain r2 s2 where a: "span_context_arg p s1 = Some (r2, s2)"
      using c assms(2) False by (auto simp: otel_context_with_span_context_def split: option.splits prod.splits)
    note i = span_context_arg_inv [OF ci(1) a]
    have "ctx_inv (snd (new_context \<lparr>cd_span_context = sc, cd_baggage = cd_baggage d, cd_flags = cd_flags d\<rparr> s2))"
      if "r2 = Some sc" for sc
      using i ci(2) [OF Some] that by (intro ctx_inv_new_context) (auto simp: context_ok_def)
    with a c Some i assms False show ?thesis
      by (auto simp: otel_context_with_span_context_def split_beta split: option.splits)
  qed
qed

lemma context_with_baggage_inv:
  assumes "ctx_inv s" and "otel_context_with_baggage b p out_null s = Some (st, out, s')"
  shows "ctx_inv s'"
proof (cases out_null)
  case True
  with assms show ?thesis by (auto simp: otel_context_with_baggage_def fail_out_def)
next
  case False
  then obtain r s1 where c: "checked_as KIND_CONTEXT as_context b (clear_last_error s) = Some (r, s1)"
    using assms(2) by (auto simp: otel_context_with_baggage_def split: option.splits prod.splits)
  note ci = checked_context_inv [OF assms(1) c]
  show ?thesis
  proof (cases r)
    case None
    with c ci assms False show ?thesis by (simp add: otel_context_with_baggage_def)
  next
    case (Some d)
    have new: "ctx_inv (snd (new_context \<lparr>cd_span_context = cd_span_context d, cd_baggage = bg, cd_flags = cd_flags d\<rparr> s2))"
      if "ctx_inv s2" "pred_option entries_ok bg" for bg s2
      using that ci(2) [OF Some] by (intro ctx_inv_new_context) (auto simp: context_ok_def)
    show ?thesis
    proof (cases "p = None")
      case True
      with c Some ci(1) new [of s1 None] assms(2) False show ?thesis
        by (auto simp: otel_context_with_baggage_def split_beta)
    next
      case pn: False
      then obtain r2 s2 where a: "checked_as KIND_BAGGAGE as_baggage p s1 = Some (r2, s2)"
        using c Some assms(2) False by (auto simp: otel_context_with_baggage_def split: option.splits prod.splits)
      have i: "ctx_inv s2" using ctx_inv_checked [OF a] ci(1) by simp
      have "entries_ok es" if "r2 = Some es" for es
        using that a api_inv_points_to [OF ctx_inv_api [OF ci(1)]] by (fastforce dest: hb.checked_as_SomeD)
      with a c Some i new [OF i, of r2] pn assms(2) False show ?thesis
        by (cases r2) (auto simp: otel_context_with_baggage_def split_beta)
    qed
  qed
qed

lemma context_parts_inv:
  assumes "ctx_inv s"
  shows "otel_context_baggage p s = Some (q, s') \<Longrightarrow> ctx_inv s'"
    and "otel_context_clone p s = Some (q, s') \<Longrightarrow> ctx_inv s'"
    and "otel_context_span_context p s = Some (q, s') \<Longrightarrow> ctx_inv s'"
proof -
  have *: "ctx_inv (snd (new_baggage es s1)) \<and> True" if "ctx_inv s1" "entries_ok es" for s1 :: "'a ctx_store_scheme" and es
    using that unfolding new_baggage_def by (auto intro: ctx_inv_into_raw)
  show "otel_context_baggage p s = Some (q, s') \<Longrightarrow> ctx_inv s'"
    using checked_context_inv [OF assms] *
    by (fastforce simp: otel_context_baggage_def context_ok_def prod_eq_iff split: option.splits prod.splits)
  show "otel_context_clone p s = Some (q, s') \<Longrightarrow> ctx_inv s'"
    using checked_context_inv [OF assms] ctx_inv_new_context
    by (fastforce simp: otel_context_clone_def prod_eq_iff split: option.splits prod.splits)
  show "otel_context_span_context p s = Some (q, s') \<Longrightarrow> ctx_inv s'"
    using checked_context_inv [OF assms]
    by (fastforce simp: otel_context_span_context_def context_ok_def prod_eq_iff intro: ctx_inv_into_raw
        split: option.splits prod.splits)
qed

lemma current_data_facts:
  assumes "ctx_inv s" and "current_data t s = (r, s1)"
  shows "ctx_inv s1" and "attached t s1 = attached t s" and "objs s1 = objs s" and "next_addr s1 = next_addr s"
    and "r = (if attached t s = [] then None else Some (en_context (last (attached t s))))"
    and "\<And>d. r = Some d \<Longrightarrow> context_ok d" and "\<And>u. u \<noteq> t \<Longrightarrow> tls s1 u = tls s u"
proof -
  obtain k s2 where ts: "try_stack t s = (k, s2)" by (cases "try_stack t s")
  note i = try_stack_inv [OF assms(1) ts]
  have s2: "s1 = s2" using assms(2) ts by (auto simp: current_data_def split: option.splits)
  show "ctx_inv s1" using i(1) s2 by simp
  have *: "attached t s1 = attached t s \<and> objs s1 = objs s \<and> next_addr s1 = next_addr s \<and>
      r = (if attached t s = [] then None else Some (en_context (last (attached t s)))) \<and>
      (\<forall>u. u \<noteq> t \<longrightarrow> tls s1 u = tls s u)"
  proof (cases k)
    case None
    with try_stack_NoneD [OF ts [unfolded None]] assms(2) ts s2 show ?thesis
      by (simp add: current_data_def attached_def)
  next
    case (Some st)
    note f = try_stack_SomeD [OF ts [unfolded Some]]
    have "attached t s = cs_entries st"
      using f(5-7) by (cases "tls s t") (auto simp: attached_def)
    with f(1-3) assms(2) ts s2 Some show ?thesis
      by (auto simp: current_data_def attached_def)
  qed
  then show "attached t s1 = attached t s" and "objs s1 = objs s" and "next_addr s1 = next_addr s"
    and r: "r = (if attached t s = [] then None else Some (en_context (last (attached t s))))"
    and "\<And>u. u \<noteq> t \<Longrightarrow> tls s1 u = tls s u" by blast+
  have "stack_ok st \<Longrightarrow> cs_entries st \<noteq> [] \<Longrightarrow> context_ok (en_context (last (cs_entries st)))" for st
    by (simp add: stack_ok_def)
  moreover have "slot_ok (tls s t)" using assms(1) by (simp add: ctx_inv_def)
  ultimately show "\<And>d. r = Some d \<Longrightarrow> context_ok d"
    using r by (auto simp: slot_ok_def attached_def split: tls_slot.splits if_splits)
qed

lemma context_ok_default [simp]: "context_ok default_context"
  by (simp add: context_ok_def default_context_def)

lemma context_current_inv:
  assumes "ctx_inv s"
  shows "ctx_inv (snd (otel_context_current t s))"
proof -
  obtain r s1 where c: "current_data t (clear_last_error s) = (r, s1)"
    by (cases "current_data t (clear_last_error s)")
  note f = current_data_facts [OF _ c]
  show ?thesis
  proof (cases r)
    case None
    with c f assms show ?thesis by (simp add: otel_context_current_def ctx_inv_new_context)
  next
    case (Some d)
    with c f assms show ?thesis by (simp add: otel_context_current_def ctx_inv_new_context)
  qed
qed


lemma attach_inv: "ctx_inv s \<Longrightarrow> otel_context_attach t p scope s = Some (st, out, s') \<Longrightarrow> ctx_inv s'"
  by (erule (1) attach_cases) simp_all

lemma detach_inv: "ctx_inv s \<Longrightarrow> otel_context_scope_detach t scope s = (st, out, s') \<Longrightarrow> ctx_inv s'"
  by (erule (1) detach_cases) simp_all

section \<open>Balanced use of scopes\<close>

text \<open>
  What may happen on a thread between an attach and its detach: anything that leaves the
  thread's own slot alone (all other operations, and everything other threads do), one thing
  after another, and a complete attach-detach pair around such a run.
\<close>

inductive balanced :: "thread \<Rightarrow> 'm ctx_store_scheme \<Rightarrow> 'm ctx_store_scheme \<Rightarrow> bool" for t where
  balanced_other: "tls s' t = tls s t \<Longrightarrow> ctx_inv s' \<Longrightarrow> balanced t s s'"
| balanced_seq: "balanced t s s1 \<Longrightarrow> balanced t s1 s' \<Longrightarrow> balanced t s s'"
| balanced_scope:
    "otel_context_attach t p (Some sc) s = Some (St_Ok, scope, s1) \<Longrightarrow> balanced t s1 s2 \<Longrightarrow>
     otel_context_scope_detach t scope s2 = (st, scope', s') \<Longrightarrow> balanced t s s'"

lemma attach_live:
  assumes "tls s t = Tls_Live k" and "length (cs_entries k) < MAX_CONTEXT_DEPTH"
    and "checked_as KIND_CONTEXT as_context p (clear_last_error s) = Some (Some d, clear_last_error s)"
    and "\<not> scope_struct_size sc < SCOPE_SIZE"
  shows "otel_context_attach t p (Some sc) s =
     Some (St_Ok,
       Some (sc\<lparr>scope_thread_token := cs_thread_token (snd (allocate_generation k)),
                scope_generation := fst (allocate_generation k), scope_reserved := [0, 0]\<rparr>),
       put_stack t ((snd (allocate_generation k))\<lparr>cs_entries :=
           cs_entries (snd (allocate_generation k)) @
           [\<lparr>en_generation = fst (allocate_generation k), en_context = d\<rparr>]\<rparr>) (clear_last_error s))"
  using assms by (simp add: otel_context_attach_def Let_def try_stack_def split_beta)

lemma detach_top:
  assumes "tls s t = Tls_Live k" and "cs_entries k = es @ [e]" and "stack_ok k"
    and "\<not> scope_struct_size sc < SCOPE_SIZE" and "scope_reserved sc = [0, 0]"
    and "scope_thread_token sc = cs_thread_token k" and "scope_generation sc = en_generation e"
  shows "otel_context_scope_detach t (Some sc) s =
     (St_Ok, Some (sc\<lparr>scope_thread_token := 0, scope_generation := 0\<rparr>),
      put_stack t (k\<lparr>cs_entries := es\<rparr>) (clear_last_error s))"
  using assms by (simp add: otel_context_scope_detach_def Let_def try_stack_def stack_ok_def)

lemma attach_then_detach:
  assumes "ctx_inv s" and "otel_context_attach t p (Some sc) s = Some (St_Ok, scope, s1)"
    and "attached t s2 = attached t s1" and "ctx_inv s2"
    and "\<And>k. tls s1 t = Tls_Live k \<Longrightarrow> \<exists>k'. tls s2 t = Tls_Live k' \<and> cs_thread_token k' = cs_thread_token k"
  obtains k' sc' where "scope = Some sc'" "tls s2 t = Tls_Live k'"
    "otel_context_scope_detach t scope s2 =
       (St_Ok, Some (sc'\<lparr>scope_thread_token := 0, scope_generation := 0\<rparr>),
        put_stack t (k'\<lparr>cs_entries := attached t s\<rparr>) (clear_last_error s2))"
    "\<And>k. tls s t = Tls_Live k \<Longrightarrow> cs_thread_token k' = cs_thread_token k"
    "scope_reserved sc' = [0, 0]"
  using assms(1,2)
proof (cases rule: attach_cases)
  case (Pushed sc0 d k k1)
  obtain k' where k': "tls s2 t = Tls_Live k'" "cs_thread_token k' = cs_thread_token k1"
    using assms(5) Pushed(8) by auto
  have e: "cs_entries k' = attached t s @ [\<lparr>en_generation = cs_next_generation k, en_context = d\<rparr>]"
    using assms(3) k'(1) Pushed(6,8,10) by (simp add: attached_def)
  have ok: "stack_ok k'" using assms(4) k'(1) by (force simp: ctx_inv_def slot_ok_def dest: spec [of _ t])
  let ?sc = "sc\<lparr>scope_thread_token := cs_thread_token k, scope_generation := cs_next_generation k,
      scope_reserved := [0, 0]\<rparr>"
  have scope: "scope = Some ?sc" using Pushed(1,12) by simp
  have "otel_context_scope_detach t scope s2 =
      (St_Ok, Some (?sc\<lparr>scope_thread_token := 0, scope_generation := 0\<rparr>),
       put_stack t (k'\<lparr>cs_entries := attached t s\<rparr>) (clear_last_error s2))"
    unfolding scope using Pushed(1,9,13) k' e ok by (intro detach_top) auto
  moreover have "cs_thread_token k' = cs_thread_token j" if "tls s t = Tls_Live j" for j
    using Pushed(9) Pushed(16) [OF that] k'(2) by simp
  ultimately show ?thesis using that [OF scope k'(1)] by simp
qed simp_all

lemma balanced_keeps:
  "balanced t s s' \<Longrightarrow> ctx_inv s \<Longrightarrow>
     ctx_inv s' \<and> attached t s' = attached t s \<and>
     (\<forall>k. tls s t = Tls_Live k \<longrightarrow> (\<exists>k'. tls s' t = Tls_Live k' \<and> cs_thread_token k' = cs_thread_token k))"
proof (induction rule: balanced.induct)
  case (balanced_other s' s)
  then show ?case by (simp add: attached_def)
next
  case (balanced_seq s s1 s')
  then show ?case by metis
next
  case (balanced_scope p sc s scope s1 s2 st scope' s')
  have i1: "ctx_inv s1" using balanced_scope.prems balanced_scope.hyps(1) by (cases rule: attach_cases) auto
  note b = balanced_scope.IH [OF i1]
  from balanced_scope.prems balanced_scope.hyps(1) obtain k' sc' where d:
      "tls s2 t = Tls_Live k'"
      "otel_context_scope_detach t scope s2 =
       (St_Ok, Some (sc'\<lparr>scope_thread_token := 0, scope_generation := 0\<rparr>),
        put_stack t (k'\<lparr>cs_entries := attached t s\<rparr>) (clear_last_error s2))"
      "\<And>k. tls s t = Tls_Live k \<Longrightarrow> cs_thread_token k' = cs_thread_token k"
    by (rule attach_then_detach [of s t p sc scope s1 s2]) (use b in auto)
  have s': "s' = put_stack t (k'\<lparr>cs_entries := attached t s\<rparr>) (clear_last_error s2)"
    using d(2) balanced_scope.hyps(3) by simp
  have "ctx_inv s'"
    using b detach_inv [OF _ balanced_scope.hyps(3)] by simp
  then show ?case using d s' by (auto simp: attached_def)
qed

section \<open>Properties\<close>

text \<open>
  C3: Attach and detach bracket correctly. After a successful attach the context is the current
  one of the thread; after any balanced run on the thread, interleaved with anything that other
  threads do, the scope detaches successfully and the thread's stack is what it was before the
  attach; detaching the same scope a second time is refused and changes nothing.
\<close>

theorem attach_detach_bracket:
  assumes "ctx_inv s" and "points_to s p (P_Context d)"
    and "otel_context_attach t p (Some sc) s = Some (St_Ok, scope, s1)" and "balanced t s1 s2"
  shows "map en_context (attached t s1) = map en_context (attached t s) @ [d] \<and>
     (\<exists>scope2 s3 s4. otel_context_scope_detach t scope s2 = (St_Ok, scope2, s3) \<and>
        attached t s3 = attached t s \<and>
        otel_context_scope_detach t scope2 s3 = (St_InvalidArgument, scope2, s4) \<and> tls s4 = tls s3)"
proof -
  have i1: "ctx_inv s1" and at: "map en_context (attached t s1) = map en_context (attached t s) @ [d]"
    using assms(1,3) points_to_unique [OF assms(2)]
    by (cases rule: attach_cases; force simp: attached_def)+
  note b = balanced_keeps [OF assms(4) i1]
  from assms(1,3) obtain k' sc' where d: "scope = Some sc'"
      "otel_context_scope_detach t scope s2 =
       (St_Ok, Some (sc'\<lparr>scope_thread_token := 0, scope_generation := 0\<rparr>),
        put_stack t (k'\<lparr>cs_entries := attached t s\<rparr>) (clear_last_error s2))"
      "scope_reserved sc' = [0, 0]"
    by (rule attach_then_detach [of s t p sc scope s1 s2]) (use b in auto)
  let ?sc = "sc'\<lparr>scope_thread_token := 0, scope_generation := 0\<rparr>"
  let ?s3 = "put_stack t (k'\<lparr>cs_entries := attached t s\<rparr>) (clear_last_error s2)"
  have size: "\<not> scope_struct_size sc' < SCOPE_SIZE"
    using d(1,2) by (auto simp: otel_context_scope_detach_def Let_def fail_out_def split: if_splits)
  have "otel_context_scope_detach t (Some ?sc) ?s3 =
      (St_InvalidArgument, Some ?sc, set_error_text ''context scope is inactive or invalid'' (clear_last_error ?s3))"
    using size by (simp add: otel_context_scope_detach_def Let_def fail_out_def)
  with at d show ?thesis by (fastforce simp: attached_def)
qed

text \<open>
  The depth of a thread's stack never exceeds 64. Attaching a live context through a
  well-sized scope succeeds exactly when the thread's slot has not been torn down and fewer than
  64 contexts are attached; a refused attach leaves every stack and every handle as it was.
\<close>

theorem attach_accepts_iff:
  assumes "ctx_inv s" and "points_to s p (P_Context d)" and "\<not> scope_struct_size sc < SCOPE_SIZE"
    and "otel_context_attach t p (Some sc) s = Some (st, scope, s')"
  shows "(st = St_Ok \<longleftrightarrow> tls s t \<noteq> Tls_Destroyed \<and> length (attached t s) < 64) \<and>
     length (attached t s') \<le> 64 \<and> objs s' = objs s \<and> (\<forall>u. u \<noteq> t \<longrightarrow> tls s' u = tls s u) \<and>
     (st \<noteq> St_Ok \<longrightarrow> attached t s' = attached t s)"
proof -
  have c: "checked_as KIND_CONTEXT as_context p (clear_last_error s) = Some (Some d, clear_last_error s)"
    using hc.checked_as_points_to [of "clear_last_error s" p d] assms(1,2) by (simp add: ctx_inv_def api_inv_wf)
  obtain r s1 where ts: "try_stack t (clear_last_error s) = (r, s1)" by (cases "try_stack t (clear_last_error s)")
  have iff: "st = St_Ok \<longleftrightarrow> tls s t \<noteq> Tls_Destroyed \<and> length (attached t s) < 64"
  proof (cases r)
    case None
    with c ts assms(3,4) try_stack_NoneD [OF ts [unfolded None]] show ?thesis
      by (auto simp: otel_context_attach_def Let_def fail_out_def)
  next
    case (Some k)
    note f = try_stack_SomeD [OF ts [unfolded Some]]
    have "attached t s = cs_entries k"
      using f(5-7) by (cases "tls s t") (auto simp: attached_def)
    with c ts Some assms(3,4) f(5) show ?thesis
      by (auto simp: otel_context_attach_def Let_def fail_out_def MAX_CONTEXT_DEPTH_def split: if_splits prod.splits)
  qed
  have le: "length (attached t s) \<le> 64"
    using assms(1) by (auto simp: ctx_inv_def slot_ok_def stack_ok_def attached_def MAX_CONTEXT_DEPTH_def
        split: tls_slot.splits dest: spec [of _ t])
  from assms(1,4) show ?thesis
    by (cases rule: attach_cases) (use iff le in \<open>auto simp: attached_def MAX_CONTEXT_DEPTH_def\<close>)
qed


text \<open>A thread's first calls, for the witnesses: one live context at address 1, no thread has a
  stack yet.\<close>

definition sample_ctx_store :: "unit ctx_store_scheme" where
  "sample_ctx_store =
     \<lparr>objs = initial_objs(1 := Some \<lparr>header = header_new KIND_CONTEXT, body = P_Context default_context\<rparr>),
      next_addr = 2, last_error = None, tls = (\<lambda>_. Tls_Unused), next_thread_token = 1\<rparr>"

definition sample_scope :: otel_context_scope where
  "sample_scope = \<lparr>scope_struct_size = 40, scope_thread_token = 7, scope_generation = 7, scope_reserved = [7, 7]\<rparr>"

lemma sample_ctx_facts:
  "ctx_inv sample_ctx_store" "points_to sample_ctx_store (Some 1) (P_Context default_context)"
proof -
  have "api_inv sample_ctx_store"
    by (auto simp: api_inv_def wf_store_def sample_ctx_store_def initial_objs_def split: if_splits)
  then show "ctx_inv sample_ctx_store"
    by (simp add: ctx_inv_def slot_ok_def) (simp add: sample_ctx_store_def)
  show "points_to sample_ctx_store (Some 1) (P_Context default_context)"
    by (simp add: points_to_def sample_ctx_store_def)
qed

lemma sample_ctx_sel: "tls sample_ctx_store = (\<lambda>_. Tls_Unused)" "next_thread_token sample_ctx_store = 1"
  by (simp_all add: sample_ctx_store_def)

lemma sample_attach:
  "otel_context_attach 0 (Some 1) (Some sample_scope) sample_ctx_store =
     Some (St_Ok, Some \<lparr>scope_struct_size = 40, scope_thread_token = 1, scope_generation = 1, scope_reserved = [0, 0]\<rparr>,
       put_stack 0 \<lparr>cs_thread_token = 1, cs_next_generation = 2,
         cs_entries = [\<lparr>en_generation = 1, en_context = default_context\<rparr>]\<rparr>
         (snd (try_stack 0 (clear_last_error sample_ctx_store))))"
proof -
  have c: "checked_as KIND_CONTEXT as_context (Some 1) (clear_last_error sample_ctx_store) =
      Some (Some default_context, clear_last_error sample_ctx_store)"
    using sample_ctx_facts by (intro hc.checked_as_points_to) (simp_all add: ctx_inv_def api_inv_wf)
  show ?thesis
    using c
    by (simp add: otel_context_attach_def Let_def sample_scope_def SCOPE_SIZE_def try_stack_def
        context_stack_new_def allocate_generation_def MAX_CONTEXT_DEPTH_def sample_ctx_sel
        del: One_nat_def)
qed

theorem attach_detach_bracket_witness:
  "\<exists>scope s1 scope2 s3. otel_context_attach 0 (Some 1) (Some sample_scope) sample_ctx_store = Some (St_Ok, scope, s1) \<and>
     map en_context (attached 0 s1) = [default_context] \<and>
     otel_context_scope_detach 0 scope s1 = (St_Ok, scope2, s3) \<and> attached 0 s3 = []"
proof -
  have "balanced 0 s1 s1" if "ctx_inv s1" for s1 :: "unit ctx_store_scheme"
    using that by (simp add: balanced_other)
  with attach_detach_bracket [OF sample_ctx_facts sample_attach] attach_inv [OF sample_ctx_facts(1) sample_attach]
    sample_attach
  have "\<exists>scope s1 scope2 s3. otel_context_attach 0 (Some 1) (Some sample_scope) sample_ctx_store = Some (St_Ok, scope, s1) \<and>
     map en_context (attached 0 s1) = map en_context (attached 0 sample_ctx_store) @ [default_context] \<and>
     otel_context_scope_detach 0 scope s1 = (St_Ok, scope2, s3) \<and> attached 0 s3 = attached 0 sample_ctx_store"
    by blast
  moreover have "attached 0 sample_ctx_store = []" by (simp add: attached_def sample_ctx_sel)
  ultimately show ?thesis by simp
qed

theorem attach_accepts_iff_witness:
  "\<exists>scope s'. otel_context_attach 0 (Some 1) (Some sample_scope) sample_ctx_store = Some (St_Ok, scope, s') \<and>
     length (attached 0 s') \<le> 64"
proof -
  have "\<not> scope_struct_size sample_scope < SCOPE_SIZE" by (simp add: sample_scope_def SCOPE_SIZE_def)
  from attach_accepts_iff [OF sample_ctx_facts this sample_attach] sample_attach show ?thesis by blast
qed

text \<open>
  Scopes are detached in LIFO order. With two contexts attached one on top of the other,
  detaching the scope of the lower one is refused, hands the scope back unchanged and leaves
  both contexts attached.
\<close>

theorem detach_out_of_order_refused:
  assumes "ctx_inv s" and "otel_context_attach t p (Some a) s = Some (St_Ok, scope_a, s1)"
    and "ctx_inv s2" and "tls s2 t = tls s1 t"
    and "otel_context_attach t q (Some b) s2 = Some (St_Ok, scope_b, s3)"
    and "otel_context_scope_detach t scope_a s3 = (st, out, s4)"
  shows "st \<noteq> St_Ok \<and> out = scope_a \<and> attached t s4 = attached t s3 \<and>
     length (attached t s3) = length (attached t s) + 2"
  using assms(1,2)
proof (cases rule: attach_cases)
  case P1: (Pushed sc d k k1)
  from assms(3,5) show ?thesis
  proof (cases rule: attach_cases)
    case P2: (Pushed sc' d' k2 k3)
    have k2: "k2 = k1" using P2(16) assms(4) P1(8) by simp
    have len: "length (attached t s3) = length (attached t s) + 2"
      using P1 P2 k2 by (simp add: attached_def)
    have i3: "ctx_inv s3" by (rule P2(15))
    from i3 assms(6) show ?thesis
    proof (cases rule: detach_cases)
      case Refused
      then show ?thesis using len by simp
    next
      case (Popped sc2 j e)
      then have "j = k3" using P2(8) by simp
      then have "e = \<lparr>en_generation = cs_next_generation k1, en_context = d'\<rparr>"
        using Popped(5) P2(10) k2 by (metis append1_eq_conv)
      moreover have "scope_generation sc2 = cs_next_generation k" using Popped(1) P1(12) by auto
      ultimately show ?thesis using Popped(6) P1(11) by simp
    qed
  qed simp
qed simp

theorem detach_out_of_order_refused_witness:
  "\<exists>scope_a s1 scope_b s3 st out s4.
     otel_context_attach 0 (Some 1) (Some sample_scope) sample_ctx_store = Some (St_Ok, scope_a, s1) \<and>
     otel_context_attach 0 (Some 1) (Some sample_scope) s1 = Some (St_Ok, scope_b, s3) \<and>
     otel_context_scope_detach 0 scope_a s3 = (st, out, s4) \<and> st \<noteq> St_Ok \<and>
     attached 0 s4 = attached 0 s3"
proof -
  define s1 where "s1 = put_stack 0 \<lparr>cs_thread_token = 1, cs_next_generation = 2,
         cs_entries = [\<lparr>en_generation = 1, en_context = default_context\<rparr>]\<rparr>
         (snd (try_stack 0 (clear_last_error sample_ctx_store)))"
  obtain scope_a where a: "otel_context_attach 0 (Some 1) (Some sample_scope) sample_ctx_store = Some (St_Ok, scope_a, s1)"
    using sample_attach by (simp add: s1_def)
  have i1: "ctx_inv s1" by (rule attach_inv [OF sample_ctx_facts(1) a])
  have "objs s1 = objs sample_ctx_store"
    by (simp add: s1_def try_stack_def context_stack_new_def Let_def split: tls_slot.splits)
  then have pt: "points_to s1 (Some 1) (P_Context default_context)"
    using sample_ctx_facts(2) points_to_cong [of s1 sample_ctx_store] by simp
  then have c: "checked_as KIND_CONTEXT as_context (Some 1) (clear_last_error s1) =
      Some (Some default_context, clear_last_error s1)"
    using i1 by (intro hc.checked_as_points_to) (simp_all add: ctx_inv_def api_inv_wf)
  have "tls s1 0 = Tls_Live \<lparr>cs_thread_token = 1, cs_next_generation = 2,
      cs_entries = [\<lparr>en_generation = 1, en_context = default_context\<rparr>]\<rparr>" by (simp add: s1_def)
  note live = attach_live [OF this _ c, of sample_scope]
  define r where "r = the (otel_context_attach 0 (Some 1) (Some sample_scope) s1)"
  have b: "otel_context_attach 0 (Some 1) (Some sample_scope) s1 = Some (St_Ok, fst (snd r), snd (snd r))"
    using live by (simp add: r_def MAX_CONTEXT_DEPTH_def sample_scope_def SCOPE_SIZE_def)
  define u where "u = otel_context_scope_detach 0 scope_a (snd (snd r))"
  have d: "otel_context_scope_detach 0 scope_a (snd (snd r)) = (fst u, fst (snd u), snd (snd u))"
    by (simp add: u_def)
  from detach_out_of_order_refused [OF sample_ctx_facts(1) a i1 refl b d]
  have n: "fst u \<noteq> St_Ok" "attached 0 (snd (snd u)) = attached 0 (snd (snd r))" by auto
  show ?thesis
    by (intro exI conjI) (rule a, rule b, rule d, rule n(1), rule n(2))
qed


text \<open>Thread tokens are unique as long as the 64-bit counter has not wrapped around.\<close>

definition thread_tok :: "thread \<Rightarrow> 'm ctx_store_scheme \<Rightarrow> u64 option" where
  "thread_tok t s = (case tls s t of Tls_Live k \<Rightarrow> Some (cs_thread_token k) | _ \<Rightarrow> None)"

definition tokens_ok :: "'m ctx_store_scheme \<Rightarrow> bool" where
  "tokens_ok s \<longleftrightarrow> next_thread_token s \<noteq> 0 \<and>
     (\<forall>t x. thread_tok t s = Some x \<longrightarrow> x < next_thread_token s) \<and>
     (\<forall>t u x. thread_tok t s = Some x \<longrightarrow> thread_tok u s = Some x \<longrightarrow> t = u)"

lemma try_stack_tokens:
  assumes "tokens_ok s" and "next_thread_token s < next_thread_token s + 1"
  shows "tokens_ok (snd (try_stack t s))"
proof (cases "tls s t")
  case Tls_Unused
  let ?n = "next_thread_token s" and ?s' = "snd (try_stack t s)"
  have n: "?n \<noteq> 0" "?n + 1 \<noteq> 0" using assms by (auto simp: tokens_ok_def)
  have tok: "thread_tok v ?s' = (if v = t then Some ?n else thread_tok v s)" for v
    using Tls_Unused n(1) by (simp add: try_stack_def context_stack_new_def Let_def thread_tok_def)
  have nx: "next_thread_token ?s' = ?n + 1"
    using Tls_Unused n(1) by (simp add: try_stack_def context_stack_new_def Let_def)
  have old: "thread_tok v s = Some x \<Longrightarrow> x < ?n" for v x using assms(1) by (simp add: tokens_ok_def)
  have uniq: "thread_tok v s = Some x \<Longrightarrow> thread_tok w s = Some x \<Longrightarrow> v = w" for v w x
    using assms(1) by (simp add: tokens_ok_def)
  show ?thesis
    unfolding tokens_ok_def nx tok
    using n(2) old uniq assms(2) by (auto split: if_splits dest: less_trans)
qed (use assms in \<open>simp_all add: try_stack_def\<close>)

text \<open>
  A scope belongs to its thread. As long as the token counter has not wrapped around,
  detaching on one thread a scope that another thread attached is refused, hands the scope back
  unchanged and pops nothing, on either thread.
\<close>

theorem detach_other_thread_refused:
  assumes "ctx_inv s" and "tokens_ok s" and "unat (next_thread_token s) < 2 ^ 64 - 2" and "u \<noteq> t"
    and "otel_context_attach t p (Some sc) s = Some (St_Ok, scope, s1)"
    and "otel_context_scope_detach u scope s1 = (st, out, s2)"
  shows "st \<noteq> St_Ok \<and> out = scope \<and> (\<forall>v. attached v s2 = attached v s1)"
  using assms(1,5)
proof (cases rule: attach_cases)
  case (Pushed sc0 d k k')
  have "next_thread_token s < next_thread_token s + 1"
    using assms(3) by (simp add: word_less_nat_alt unat_word_ariths)
  note tok = try_stack_tokens [OF assms(2) this, of t]
  have "tls (snd (try_stack t s)) = (tls s)(t := Tls_Live k)"
    using try_stack_SomeD(1) [of t s k "snd (try_stack t s)"] Pushed(17) by (metis prod.collapse)
  then have same: "thread_tok v s1 = thread_tok v (snd (try_stack t s))" for v
    using Pushed(8,9) by (simp add: thread_tok_def)
  have tok1: "tokens_ok s1" using tok Pushed(18) by (simp add: tokens_ok_def same)
  have i1: "ctx_inv s1" by (rule Pushed(15))
  from i1 assms(6) show ?thesis
  proof (cases rule: detach_cases)
    case Refused
    then have "attached v s2 = attached v s1" for v by (cases "v = u") (auto simp: attached_def)
    with Refused show ?thesis by blast
  next
    case (Popped sc2 j e)
    have "scope_thread_token sc2 = cs_thread_token k'" using Popped(1) Pushed(9,12) by auto
    moreover have "cs_thread_token j \<noteq> cs_thread_token k'"
    proof
      assume "cs_thread_token j = cs_thread_token k'"
      then have "thread_tok u s1 = Some (cs_thread_token k')" "thread_tok t s1 = Some (cs_thread_token k')"
        using Popped(3) Pushed(8) by (simp_all add: thread_tok_def)
      then show False using tok1 assms(4) by (auto simp: tokens_ok_def)
    qed
    ultimately show ?thesis using Popped(7) by simp
  qed
qed simp

theorem detach_other_thread_refused_witness:
  "\<exists>scope s1 st s2. otel_context_attach 0 (Some 1) (Some sample_scope) sample_ctx_store = Some (St_Ok, scope, s1) \<and>
     otel_context_scope_detach 1 scope s1 = (st, scope, s2) \<and> st \<noteq> St_Ok \<and> attached 0 s2 = attached 0 s1"
proof -
  define s1 where "s1 = put_stack 0 \<lparr>cs_thread_token = 1, cs_next_generation = 2,
         cs_entries = [\<lparr>en_generation = 1, en_context = default_context\<rparr>]\<rparr>
         (snd (try_stack 0 (clear_last_error sample_ctx_store)))"
  define scope where "scope = Some \<lparr>scope_struct_size = 40, scope_thread_token = 1, scope_generation = 1,
      scope_reserved = [0, 0]\<rparr>"
  define r where "r = otel_context_scope_detach 1 scope s1"
  have a: "otel_context_attach 0 (Some 1) (Some sample_scope) sample_ctx_store = Some (St_Ok, scope, s1)"
    unfolding s1_def scope_def by (rule sample_attach)
  have d: "otel_context_scope_detach 1 scope s1 = (fst r, fst (snd r), snd (snd r))" by (simp add: r_def)
  have t: "tokens_ok sample_ctx_store" by (simp add: tokens_ok_def thread_tok_def sample_ctx_sel)
  from detach_other_thread_refused [OF sample_ctx_facts(1) t _ _ a d] have
    "fst r \<noteq> St_Ok" "fst (snd r) = scope" "attached 0 (snd (snd r)) = attached 0 s1"
    by (simp_all add: sample_ctx_sel)
  with a d show ?thesis by (intro exI conjI) (rule a, simp, assumption+)
qed

text \<open>
  Contexts are immutable records with two independent parts. Replacing the span context of
  a live context yields a fresh handle on which the new span context and the old baggage are
  read back, replacing the baggage the other way round, and the base context is untouched.
\<close>

theorem context_with_parts:
  assumes "ctx_inv s" and "points_to s p (P_Context d)" and "points_to s q (P_SpanContext c)"
    and "points_to s r (P_Baggage es)"
  shows "\<exists>a s1 b s2. otel_context_with_span_context p q False s = Some (St_Ok, Some a, s1) \<and>
     points_to s1 a (P_Context (d\<lparr>cd_span_context := Some c\<rparr>)) \<and> points_to s1 p (P_Context d) \<and>
     otel_context_with_baggage p r False s = Some (St_Ok, Some b, s2) \<and>
     points_to s2 b (P_Context (d\<lparr>cd_baggage := Some es\<rparr>)) \<and> points_to s2 p (P_Context d) \<and>
     ctx_inv s1 \<and> ctx_inv s2"
proof -
  have w: "wf_api (clear_last_error s)" "objs s (next_addr s) = None"
    using assms(1) wf_store_fresh [of api_kind s] by (auto simp: ctx_inv_def api_inv_wf)
  have v: "span_context_is_valid c"
    using api_inv_points_to [OF ctx_inv_api [OF assms(1)] assms(3)]
    by (simp add: span_context_is_valid_def span_context_ok_def)
  have nn: "q \<noteq> None" "r \<noteq> None" using assms(3,4) by (auto simp: points_to_def split: option.splits)
  have ck: "checked_as KIND_CONTEXT as_context p (clear_last_error s) = Some (Some d, clear_last_error s)"
    "checked_as KIND_SPAN_CONTEXT as_span_context q (clear_last_error s) = Some (Some c, clear_last_error s)"
    "checked_as KIND_BAGGAGE as_baggage r (clear_last_error s) = Some (Some es, clear_last_error s)"
    using assms(2-4) hc.checked_as_points_to [OF w(1), of p d] hsc.checked_as_points_to [OF w(1), of q c]
      hb.checked_as_points_to [OF w(1), of r es] by simp_all
  let ?n1 = "new_context (d\<lparr>cd_span_context := Some c\<rparr>) (clear_last_error s)"
  let ?n2 = "new_context (d\<lparr>cd_baggage := Some es\<rparr>) (clear_last_error s)"
  have r1: "otel_context_with_span_context p q False s = Some (St_Ok, Some (fst ?n1), snd ?n1)"
    using ck nn v by (cases d) (auto simp add: otel_context_with_span_context_def span_context_arg_def split_beta)
  have r2: "otel_context_with_baggage p r False s = Some (St_Ok, Some (fst ?n2), snd ?n2)"
    using ck nn by (cases d) (auto simp add: otel_context_with_baggage_def split_beta)
  have "points_to (snd (new_context e (clear_last_error s))) (fst (new_context e (clear_last_error s))) (P_Context e) \<and>
      points_to (snd (new_context e (clear_last_error s))) p (P_Context d)" for e
    using w(2) assms(2) by (auto simp: new_context_def points_to_def split: option.splits)
  with r1 r2 context_with_span_context_inv [OF assms(1) r1] context_with_baggage_inv [OF assms(1) r2]
  show ?thesis by blast
qed


theorem context_with_parts_witness:
  "\<exists>s a s1. otel_context_with_span_context (Some 1) (Some 2) False (s :: unit ctx_store_scheme) = Some (St_Ok, Some a, s1) \<and>
     points_to s1 a (P_Context (default_context\<lparr>cd_span_context := Some sample_context\<rparr>))"
proof -
  define s where "s = snd (new_baggage [] (snd (into_raw KIND_SPAN_CONTEXT (P_SpanContext sample_context) sample_ctx_store)))"
  have "entries_ok []" by (simp add: entries_ok_def)
  then have "ctx_inv s"
    using sample_ctx_facts(1) sample_context_ok unfolding s_def new_baggage_def
    by (intro ctx_inv_into_raw) simp_all
  moreover have "points_to s (Some 1) (P_Context default_context)" "points_to s (Some 2) (P_SpanContext sample_context)"
      "points_to s (Some 3) (P_Baggage [])"
    using sample_ctx_facts(2) by (simp_all add: s_def new_baggage_def points_to_def sample_ctx_store_def)
  ultimately show ?thesis using context_with_parts by blast
qed

end
