(* ===== verification/Global_Providers.thy ===== *)
theory Global_Providers
  imports Context
begin

text \<open>
  The process-global provider slots (\<open>api/src/global.rs\<close>, \<open>api/src/logs_global.rs\<close>,
  \<open>api/src/metrics_global.rs\<close>) and the boundary to the implementations behind them.

  An implementation is code outside the API crate. The API reaches it only through its vtable,
  by an owned context pointer; the record \<open>implementation\<close> is the parameter that answers such a
  call, with a state of its own and a possible effect on the caller's diagnostic slot. The
  \<open>ledger\<close> counts the references to each context that exist, so that a call or a release without
  a reference is undefined behaviour (\<open>None\<close>), and \<open>calls\<close> records every call made.

  The invariant: the slots and the live handles together never own more references than exist.
  Every operation conserves the references owned by others, except for the documented
  transfer of ownership to a slot or to a new handle.
\<close>

section \<open>Contexts owned through a vtable, and the calls on them\<close>

datatype res =
    R_TraceProvider addr ptr
  | R_Tracer addr ptr
  | R_Span addr ptr
  | R_MeterProvider addr ptr
  | R_LoggerProvider addr ptr
  | R_Logger addr ptr
  | R_Meter addr ptr
  | R_Instrument addr ptr
  | R_Bound addr ptr
  | R_Observer addr ptr

fun res_vtable :: "res \<Rightarrow> addr" where
  "res_vtable (R_TraceProvider vt _) = vt"
| "res_vtable (R_Tracer vt _) = vt"
| "res_vtable (R_Span vt _) = vt"
| "res_vtable (R_MeterProvider vt _) = vt"
| "res_vtable (R_LoggerProvider vt _) = vt"
| "res_vtable (R_Logger vt _) = vt"
| "res_vtable (R_Meter vt _) = vt"
| "res_vtable (R_Instrument vt _) = vt"
| "res_vtable (R_Bound vt _) = vt"
| "res_vtable (R_Observer vt _) = vt"

text \<open>A measurement has one of the three number kinds; each has entries of its own in the vtable.\<close>

datatype metric_value = Val_U64 u64 | Val_I64 i64 | Val_F64 u64

text \<open>The calls, with the arguments that are passed through.\<close>

datatype vop =
    Op_Retain
  | Op_Free
  | Op_GetTracer otel_string_view otel_string_view otel_string_view
  | Op_StartSpan otel_string_view u32 ptr
  | Op_StartSpanWithContext otel_string_view u32 otel_span_context_view
  | Op_StartSpanEx otel_string_view otel_span_start_config
  | Op_StartSpanExWithContext otel_string_view otel_span_start_config otel_context_view
  | Op_SpanEnd
  | Op_SetString otel_string_view otel_string_view
  | Op_SetBool otel_string_view u32
  | Op_SetI64 otel_string_view i64
  | Op_SetF64 otel_string_view u64
  | Op_AddEvent otel_string_view "otel_key_value list option" usize
  | Op_SetStatus u32 otel_string_view
  | Op_UpdateName otel_string_view
  | Op_GetLogger otel_scope_config
  | Op_LoggerEnabled u32
  | Op_LoggerEmit otel_log_record_view
  | Op_GetMeter otel_string_view otel_string_view otel_string_view
  | Op_GetMeterWithScope otel_scope_config
  | Op_CreateInstrument otel_metric_instrument_config
  | Op_CreateInstrumentWithStatus otel_metric_instrument_config
  | Op_Record metric_value "otel_key_value list option" usize
  | Op_Bind "otel_key_value list option" usize
  | Op_BoundRecord metric_value
  | Op_Observe metric_value "otel_key_value list option" usize

text \<open>What a call may do to the caller's diagnostic slot (\<open>otel_api_set_last_error\<close>,
  \<open>otel_api_clear_last_error\<close>).\<close>

datatype err_effect = Err_Keep | Err_Clear | Err_Set bytes

record 'e implementation =
  im_header :: "addr \<Rightarrow> otel_vtable_header"
  im_ptr :: "res \<Rightarrow> vop \<Rightarrow> 'e \<Rightarrow> ptr \<times> err_effect \<times> 'e"
  im_ptr_status :: "res \<Rightarrow> vop \<Rightarrow> 'e \<Rightarrow> (ptr \<times> otel_status) \<times> err_effect \<times> 'e"
  im_status :: "res \<Rightarrow> vop \<Rightarrow> 'e \<Rightarrow> otel_status \<times> err_effect \<times> 'e"
  im_bool :: "res \<Rightarrow> vop \<Rightarrow> 'e \<Rightarrow> u32 \<times> err_effect \<times> 'e"
  im_unit :: "res \<Rightarrow> vop \<Rightarrow> 'e \<Rightarrow> err_effect \<times> 'e"

section \<open>The process\<close>

record provider_slot =
  slot_vtable :: ptr
  slot_ctx :: ptr

record token_slot = provider_slot +
  slot_registration_id :: u64

record 'e process = ctx_store +
  trace_slot :: provider_slot
  metrics_slot :: token_slot
  next_metrics_id :: u64
  logs_slot :: token_slot
  next_logs_id :: u64
  ledger :: "res \<Rightarrow> nat"
  calls :: "(res \<times> vop) list"
  impl_state :: 'e

definition apply_effect :: "err_effect \<Rightarrow> ('p, 'm) store_scheme \<Rightarrow> ('p, 'm) store_scheme" where
  "apply_effect ef s =
     (case ef of Err_Keep \<Rightarrow> s | Err_Clear \<Rightarrow> clear_last_error s | Err_Set m \<Rightarrow> set_last_error m s)"

text \<open>One call through a vtable, on a context of which at least one reference must exist.\<close>

definition vt_call ::
  "(res \<Rightarrow> vop \<Rightarrow> 'e \<Rightarrow> 'v \<times> err_effect \<times> 'e) \<Rightarrow> res \<Rightarrow> vop \<Rightarrow> ('e, 'm) process_scheme
     \<Rightarrow> ('v \<times> ('e, 'm) process_scheme) option" where
  "vt_call f r op s =
     (if ledger s r = 0 then None
      else (case f r op (impl_state s) of
              (v, ef, e') \<Rightarrow>
                Some (v, apply_effect ef (s\<lparr>calls := calls s @ [(r, op)], impl_state := e'\<rparr>))))"

definition vt_ptr ::
  "'e implementation \<Rightarrow> res \<Rightarrow> vop \<Rightarrow> ('e, 'm) process_scheme \<Rightarrow> (ptr \<times> ('e, 'm) process_scheme) option" where
  "vt_ptr im r op s = vt_call (im_ptr im) r op s"

text \<open>A call with an \<open>out_status\<close> argument, initially \<open>Ok\<close>: the pointer and the final status.\<close>

definition vt_ptr_status ::
  "'e implementation \<Rightarrow> res \<Rightarrow> vop \<Rightarrow> ('e, 'm) process_scheme
     \<Rightarrow> ((ptr \<times> otel_status) \<times> ('e, 'm) process_scheme) option" where
  "vt_ptr_status im r op s = vt_call (im_ptr_status im) r op s"

definition vt_status ::
  "'e implementation \<Rightarrow> res \<Rightarrow> vop \<Rightarrow> ('e, 'm) process_scheme \<Rightarrow> (otel_status \<times> ('e, 'm) process_scheme) option" where
  "vt_status im r op s = vt_call (im_status im) r op s"

definition vt_bool ::
  "'e implementation \<Rightarrow> res \<Rightarrow> vop \<Rightarrow> ('e, 'm) process_scheme \<Rightarrow> (u32 \<times> ('e, 'm) process_scheme) option" where
  "vt_bool im r op s = vt_call (im_bool im) r op s"

definition vt_unit ::
  "'e implementation \<Rightarrow> res \<Rightarrow> vop \<Rightarrow> ('e, 'm) process_scheme \<Rightarrow> ('e, 'm) process_scheme option" where
  "vt_unit im r op s =
     map_option snd (vt_call (\<lambda>r op e. case im_unit im r op e of (ef, e') \<Rightarrow> ((), ef, e')) r op s)"

text \<open>A context returned by an implementation is a new reference; a free call gives one back.\<close>

definition acquire :: "res \<Rightarrow> ('e, 'm) process_scheme \<Rightarrow> ('e, 'm) process_scheme" where
  "acquire r s = s\<lparr>ledger := (ledger s)(r := Suc (ledger s r))\<rparr>"

definition vt_free ::
  "'e implementation \<Rightarrow> res \<Rightarrow> ('e, 'm) process_scheme \<Rightarrow> ('e, 'm) process_scheme option" where
  "vt_free im r s =
     map_option (\<lambda>s'. s'\<lparr>ledger := (ledger s')(r := ledger s' r - 1)\<rparr>) (vt_unit im r Op_Free s)"

section \<open>The trace slot\<close>

datatype retained = NoProvider | Retained addr ptr | RetainFailed

definition retain_slot ::
  "'e implementation \<Rightarrow> (addr \<Rightarrow> ptr \<Rightarrow> res) \<Rightarrow> string \<Rightarrow> ptr \<Rightarrow> ptr \<Rightarrow> ('e, 'm) process_scheme
     \<Rightarrow> (retained \<times> ('e, 'm) process_scheme) option" where
  "retain_slot im R msg vtable ctx s =
     (case vtable of
        None \<Rightarrow> Some (NoProvider, s)
      | Some vt \<Rightarrow>
          (case vt_ptr im (R vt ctx) Op_Retain s of
             None \<Rightarrow> None
           | Some (None, s1) \<Rightarrow>
               Some (RetainFailed, if has_last_error s1 then s1 else set_error_text msg s1)
           | Some (Some c, s1) \<Rightarrow> Some (Retained vt (Some c), acquire (R vt (Some c)) s1)))"

definition retain_global ::
  "'e implementation \<Rightarrow> ('e, 'm) process_scheme \<Rightarrow> (retained \<times> ('e, 'm) process_scheme) option" where
  "retain_global im s =
     retain_slot im R_TraceProvider ''global provider retain failed''
       (slot_vtable (trace_slot s)) (slot_ctx (trace_slot s)) s"

text \<open>Release what a slot held before it was overwritten, outside its lock.\<close>

definition free_old ::
  "'e implementation \<Rightarrow> (addr \<Rightarrow> ptr \<Rightarrow> res) \<Rightarrow> ptr \<Rightarrow> ptr \<Rightarrow> ('e, 'm) process_scheme
     \<Rightarrow> ('e, 'm) process_scheme option" where
  "free_old im R vtable ctx s = (case vtable of None \<Rightarrow> Some s | Some vt \<Rightarrow> vt_free im (R vt ctx) s)"

definition otel_api_register_global_provider ::
  "'e implementation \<Rightarrow> ptr \<Rightarrow> ptr \<Rightarrow> ('e, 'm) process_scheme
     \<Rightarrow> (otel_status \<times> ('e, 'm) process_scheme) option" where
  "otel_api_register_global_provider im vtable provider_ctx s =
     (let s0 = clear_last_error s in
      case vtable of
        None \<Rightarrow> Some (fail St_InvalidArgument ''register_global_provider: vtable must not be NULL'' s0)
      | Some vt \<Rightarrow>
          if \<not> trace_vtable_compatible (im_header im vt) then
            Some (fail St_InvalidConfig
              ''register_global_provider: incompatible trace implementation ABI (expected kind/version 1)'' s0)
          else
            (let old = trace_slot s0;
                 s1 = s0\<lparr>trace_slot := \<lparr>slot_vtable = vtable, slot_ctx = provider_ctx\<rparr>\<rparr>
             in map_option (\<lambda>s2. (St_Ok, s2))
                  (free_old im R_TraceProvider (slot_vtable old) (slot_ctx old) s1)))"

definition otel_api_provider_new ::
  "'e implementation \<Rightarrow> ptr \<Rightarrow> ptr \<Rightarrow> ('e, 'm) process_scheme \<Rightarrow> ptr \<times> ('e, 'm) process_scheme" where
  "otel_api_provider_new im vtable provider_ctx s =
     (let s0 = clear_last_error s in
      case vtable of
        None \<Rightarrow> (None, snd (fail St_InvalidArgument ''provider_new: vtable must not be NULL'' s0))
      | Some vt \<Rightarrow>
          if \<not> trace_vtable_compatible (im_header im vt) then
            (None, snd (fail St_InvalidConfig ''provider_new: incompatible trace implementation ABI'' s0))
          else into_raw KIND_TRACER_PROVIDER (P_TracerProvider (PI_Backed vtable provider_ctx)) s0)"

definition otel_global_tracer_provider :: "('e, 'm) process_scheme \<Rightarrow> ptr \<times> ('e, 'm) process_scheme" where
  "otel_global_tracer_provider s =
     into_raw KIND_TRACER_PROVIDER (P_TracerProvider PI_Global) (clear_last_error s)"

section \<open>The metrics and logs slots\<close>

text \<open>Registration identifiers come from a wrapping counter whose value 0 is skipped.\<close>

definition next_registration_id :: "u64 \<Rightarrow> u64 \<times> u64" where
  "next_registration_id next = (if next \<noteq> 0 then (next, next + 1) else (next + 1, next + 1 + 1))"

definition install_global_meter_provider ::
  "'e implementation \<Rightarrow> ptr \<Rightarrow> ptr \<Rightarrow> ('e, 'm) process_scheme
     \<Rightarrow> ((otel_status + u64) \<times> ('e, 'm) process_scheme) option" where
  "install_global_meter_provider im vtable provider_ctx s =
     (case vtable of
        None \<Rightarrow>
          Some (Inl St_InvalidArgument,
            set_error_text ''register_global_meter_provider: vtable must not be NULL'' s)
      | Some vt \<Rightarrow>
          if \<not> metrics_vtable_compatible (im_header im vt) then
            Some (Inl St_InvalidConfig,
              set_error_text ''register_global_meter_provider: incompatible metrics implementation ABI'' s)
          else
            (case next_registration_id (next_metrics_id s) of
               (registration_id, next) \<Rightarrow>
                 (let old = metrics_slot s;
                      s1 = s\<lparr>next_metrics_id := next,
                             metrics_slot := \<lparr>slot_vtable = vtable, slot_ctx = provider_ctx,
                                              slot_registration_id = registration_id\<rparr>\<rparr>
                  in map_option (\<lambda>s2. (Inr registration_id, s2))
                       (free_old im R_MeterProvider (slot_vtable old) (slot_ctx old) s1))))"

definition retain_global_metrics ::
  "'e implementation \<Rightarrow> ('e, 'm) process_scheme \<Rightarrow> (retained \<times> ('e, 'm) process_scheme) option" where
  "retain_global_metrics im s =
     retain_slot im R_MeterProvider ''global meter provider retain failed''
       (slot_vtable (metrics_slot s)) (slot_ctx (metrics_slot s)) s"

definition otel_api_register_global_meter_provider ::
  "'e implementation \<Rightarrow> ptr \<Rightarrow> ptr \<Rightarrow> ('e, 'm) process_scheme
     \<Rightarrow> (otel_status \<times> ('e, 'm) process_scheme) option" where
  "otel_api_register_global_meter_provider im vtable provider_ctx s =
     (case install_global_meter_provider im vtable provider_ctx (clear_last_error s) of
        None \<Rightarrow> None
      | Some (Inr _, s1) \<Rightarrow> Some (St_Ok, s1)
      | Some (Inl st, s1) \<Rightarrow> Some (st, s1))"

text \<open>\<open>out_id\<close>: whether the pointer is NULL, and what is finally stored through it.\<close>

definition otel_api_register_global_meter_provider_with_token ::
  "'e implementation \<Rightarrow> ptr \<Rightarrow> ptr \<Rightarrow> bool \<Rightarrow> ('e, 'm) process_scheme
     \<Rightarrow> (otel_status \<times> u64 option \<times> ('e, 'm) process_scheme) option" where
  "otel_api_register_global_meter_provider_with_token im vtable provider_ctx out_null s =
     (if out_null then
        Some (fail_out St_InvalidArgument
          ''register_global_meter_provider_with_token: out_id must not be NULL'' None (clear_last_error s))
      else
        (case install_global_meter_provider im vtable provider_ctx (clear_last_error s) of
           None \<Rightarrow> None
         | Some (Inr i, s1) \<Rightarrow> Some (St_Ok, Some i, s1)
         | Some (Inl st, s1) \<Rightarrow> Some (st, Some 0, s1)))"

definition empty_token_slot :: token_slot where
  "empty_token_slot = \<lparr>slot_vtable = None, slot_ctx = None, slot_registration_id = 0\<rparr>"

definition otel_api_unregister_global_meter_provider ::
  "'e implementation \<Rightarrow> u64 \<Rightarrow> ('e, 'm) process_scheme
     \<Rightarrow> (otel_status \<times> ('e, 'm) process_scheme) option" where
  "otel_api_unregister_global_meter_provider im registration_id s =
     (let s0 = clear_last_error s in
      if registration_id = 0 then
        Some (fail St_InvalidArgument
          ''unregister_global_meter_provider: registration_id must not be zero'' s0)
      else if slot_registration_id (metrics_slot s0) \<noteq> registration_id then Some (St_Ok, s0)
      else
        (let old = metrics_slot s0; s1 = s0\<lparr>metrics_slot := empty_token_slot\<rparr>
         in map_option (\<lambda>s2. (St_Ok, s2))
              (free_old im R_MeterProvider (slot_vtable old) (slot_ctx old) s1)))"

definition otel_api_meter_provider_new ::
  "'e implementation \<Rightarrow> ptr \<Rightarrow> ptr \<Rightarrow> ('e, 'm) process_scheme \<Rightarrow> ptr \<times> ('e, 'm) process_scheme" where
  "otel_api_meter_provider_new im vtable provider_ctx s =
     (let s0 = clear_last_error s in
      case vtable of
        None \<Rightarrow> (None, snd (fail St_InvalidArgument ''meter_provider_new: vtable must not be NULL'' s0))
      | Some vt \<Rightarrow>
          if \<not> metrics_vtable_compatible (im_header im vt) then
            (None, snd (fail St_InvalidConfig ''meter_provider_new: incompatible metrics implementation ABI'' s0))
          else into_raw KIND_METER_PROVIDER (P_MeterProvider (PI_Backed vtable provider_ctx)) s0)"

definition otel_global_meter_provider :: "('e, 'm) process_scheme \<Rightarrow> ptr \<times> ('e, 'm) process_scheme" where
  "otel_global_meter_provider s =
     into_raw KIND_METER_PROVIDER (P_MeterProvider PI_Global) (clear_last_error s)"

definition install_global_logger_provider ::
  "'e implementation \<Rightarrow> ptr \<Rightarrow> ptr \<Rightarrow> ('e, 'm) process_scheme
     \<Rightarrow> ((otel_status + u64) \<times> ('e, 'm) process_scheme) option" where
  "install_global_logger_provider im vtable provider_ctx s =
     (case vtable of
        None \<Rightarrow>
          Some (Inl St_InvalidArgument,
            set_error_text ''register_global_logger_provider: vtable must not be NULL'' s)
      | Some vt \<Rightarrow>
          if \<not> logs_vtable_compatible (im_header im vt) then
            Some (Inl St_InvalidConfig,
              set_error_text ''register_global_logger_provider: incompatible logs implementation ABI'' s)
          else
            (case next_registration_id (next_logs_id s) of
               (registration_id, next) \<Rightarrow>
                 (let old = logs_slot s;
                      s1 = s\<lparr>next_logs_id := next,
                             logs_slot := \<lparr>slot_vtable = vtable, slot_ctx = provider_ctx,
                                           slot_registration_id = registration_id\<rparr>\<rparr>
                  in map_option (\<lambda>s2. (Inr registration_id, s2))
                       (free_old im R_LoggerProvider (slot_vtable old) (slot_ctx old) s1))))"

definition retain_global_logs ::
  "'e implementation \<Rightarrow> ('e, 'm) process_scheme \<Rightarrow> (retained \<times> ('e, 'm) process_scheme) option" where
  "retain_global_logs im s =
     retain_slot im R_LoggerProvider ''global logger provider retain failed''
       (slot_vtable (logs_slot s)) (slot_ctx (logs_slot s)) s"

definition otel_api_register_global_logger_provider_with_token ::
  "'e implementation \<Rightarrow> ptr \<Rightarrow> ptr \<Rightarrow> bool \<Rightarrow> ('e, 'm) process_scheme
     \<Rightarrow> (otel_status \<times> u64 option \<times> ('e, 'm) process_scheme) option" where
  "otel_api_register_global_logger_provider_with_token im vtable provider_ctx out_null s =
     (if out_null then
        Some (fail_out St_InvalidArgument
          ''register_global_logger_provider_with_token: out_id must not be NULL'' None (clear_last_error s))
      else
        (case install_global_logger_provider im vtable provider_ctx (clear_last_error s) of
           None \<Rightarrow> None
         | Some (Inr i, s1) \<Rightarrow> Some (St_Ok, Some i, s1)
         | Some (Inl st, s1) \<Rightarrow> Some (st, Some 0, s1)))"

definition otel_api_unregister_global_logger_provider ::
  "'e implementation \<Rightarrow> u64 \<Rightarrow> ('e, 'm) process_scheme
     \<Rightarrow> (otel_status \<times> ('e, 'm) process_scheme) option" where
  "otel_api_unregister_global_logger_provider im registration_id s =
     (let s0 = clear_last_error s in
      if registration_id = 0 then
        Some (fail St_InvalidArgument
          ''unregister_global_logger_provider: registration_id must not be zero'' s0)
      else if slot_registration_id (logs_slot s0) \<noteq> registration_id then Some (St_Ok, s0)
      else
        (let old = logs_slot s0; s1 = s0\<lparr>logs_slot := empty_token_slot\<rparr>
         in map_option (\<lambda>s2. (St_Ok, s2))
              (free_old im R_LoggerProvider (slot_vtable old) (slot_ctx old) s1)))"

definition otel_api_logger_provider_new ::
  "'e implementation \<Rightarrow> ptr \<Rightarrow> ptr \<Rightarrow> ('e, 'm) process_scheme \<Rightarrow> ptr \<times> ('e, 'm) process_scheme" where
  "otel_api_logger_provider_new im vtable provider_ctx s =
     (let s0 = clear_last_error s in
      case vtable of
        None \<Rightarrow> (None, snd (fail St_InvalidArgument ''logger_provider_new: vtable must not be NULL'' s0))
      | Some vt \<Rightarrow>
          if \<not> logs_vtable_compatible (im_header im vt) then
            (None, snd (fail St_InvalidConfig ''logger_provider_new: incompatible logs implementation ABI'' s0))
          else into_raw KIND_LOGGER_PROVIDER (P_LoggerProvider (PI_Backed vtable provider_ctx)) s0)"

definition otel_global_logger_provider :: "('e, 'm) process_scheme \<Rightarrow> ptr \<times> ('e, 'm) process_scheme" where
  "otel_global_logger_provider s =
     into_raw KIND_LOGGER_PROVIDER (P_LoggerProvider PI_Global) (clear_last_error s)"


section \<open>Frame facts\<close>

lemma process_more_eq:
  assumes "ctx_store.more s' = ctx_store.more (s :: ('e, 'm) process_scheme)"
  shows "trace_slot s' = trace_slot s" and "metrics_slot s' = metrics_slot s" and "logs_slot s' = logs_slot s"
    and "next_metrics_id s' = next_metrics_id s" and "next_logs_id s' = next_logs_id s"
    and "ledger s' = ledger s" and "calls s' = calls s" and "impl_state s' = impl_state s"
  using assms by (cases s; cases s'; simp)+

text \<open>Two states that agree on everything but the diagnostic slot, the call log and the state of the
  implementation.\<close>

definition same_api :: "('e, 'm) process_scheme \<Rightarrow> ('e, 'm) process_scheme \<Rightarrow> bool" where
  "same_api s s' \<longleftrightarrow> objs s' = objs s \<and> next_addr s' = next_addr s \<and> tls s' = tls s \<and>
     next_thread_token s' = next_thread_token s \<and> trace_slot s' = trace_slot s \<and>
     metrics_slot s' = metrics_slot s \<and> logs_slot s' = logs_slot s \<and>
     next_metrics_id s' = next_metrics_id s \<and> next_logs_id s' = next_logs_id s \<and> ledger s' = ledger s"

lemma same_api_refl [simp]: "same_api s s"
  by (simp add: same_api_def)

lemma same_api_trans: "same_api s t \<Longrightarrow> same_api t u \<Longrightarrow> same_api s u"
  by (simp add: same_api_def)

lemma same_api_more:
  assumes "objs s' = objs s" and "next_addr s' = next_addr s" and "store.more s' = store.more s"
  shows "same_api s s'" and "calls s' = calls s" and "impl_state s' = impl_state s"
  using assms ctx_more_eq [OF assms(3)] process_more_eq [of s' s] by (simp_all add: same_api_def)

lemma same_api_error [simp]:
  "same_api s (clear_last_error s)" "same_api s (set_last_error m s)" "same_api s (set_error_text t s)"
  "same_api s (snd (fail st t s))" "same_api s (apply_effect ef s)"
  by (rule same_api_more; simp add: fail_def apply_effect_def split: err_effect.splits)+

lemma calls_error [simp]:
  "calls (clear_last_error s) = calls s" "calls (set_last_error m s) = calls s"
  "calls (set_error_text t s) = calls s" "calls (snd (fail st t s)) = calls s"
  "calls (apply_effect ef s) = calls s"
  "impl_state (clear_last_error s) = impl_state s" "impl_state (set_last_error m s) = impl_state s"
  "impl_state (set_error_text t s) = impl_state s"
  by (rule same_api_more; simp add: fail_def apply_effect_def split: err_effect.splits)+

lemma same_api_checked: "checked_as K proj p s = Some (r, s') \<Longrightarrow> same_api s s'"
  using checked_as_frame [of K proj p s r s'] same_api_more(1) by blast

lemma calls_checked: "checked_as K proj p s = Some (r, s') \<Longrightarrow> calls s' = calls s"
  using checked_as_frame [of K proj p s r s'] same_api_more(2) by blast

lemma same_api_sel:
  assumes "same_api s s'"
  shows "trace_slot s' = trace_slot s" "metrics_slot s' = metrics_slot s" "logs_slot s' = logs_slot s"
    "ledger s' = ledger s" "objs s' = objs s" "tls s' = tls s" "next_addr s' = next_addr s"
    "next_metrics_id s' = next_metrics_id s" "next_logs_id s' = next_logs_id s"
  using assms by (simp_all add: same_api_def)

lemma error_sel [simp]:
  "trace_slot (clear_last_error s) = trace_slot s" "metrics_slot (clear_last_error s) = metrics_slot s"
  "logs_slot (clear_last_error s) = logs_slot s" "ledger (clear_last_error s) = ledger s"
  "next_metrics_id (clear_last_error s) = next_metrics_id s" "next_logs_id (clear_last_error s) = next_logs_id s"
  "trace_slot (set_error_text m s) = trace_slot s" "metrics_slot (set_error_text m s) = metrics_slot s"
  "logs_slot (set_error_text m s) = logs_slot s" "ledger (set_error_text m s) = ledger s"
  by (rule same_api_sel; simp)+

lemma vt_call_SomeD:
  assumes "vt_call f r op s = Some (v, s')"
  shows "same_api s s'" and "calls s' = calls s @ [(r, op)]" and "0 < ledger s r"
proof -
  obtain ef e' where f: "f r op (impl_state s) = (v, ef, e')" "0 < ledger s r"
      "s' = apply_effect ef (s\<lparr>calls := calls s @ [(r, op)], impl_state := e'\<rparr>)"
    using assms by (auto simp: vt_call_def split: prod.splits if_splits)
  have "same_api s (s\<lparr>calls := calls s @ [(r, op)], impl_state := e'\<rparr>)" by (simp add: same_api_def)
  then show "same_api s s'" unfolding f(3) using same_api_error(5) by (rule same_api_trans)
  show "calls s' = calls s @ [(r, op)]" "0 < ledger s r" using f by simp_all
qed

lemma vt_call_defined: "0 < ledger s r \<Longrightarrow> \<exists>v s'. vt_call f r op s = Some (v, s')"
  by (auto simp: vt_call_def split: prod.splits)

lemma vt_unit_SomeD:
  assumes "vt_unit im r op s = Some s'"
  shows "same_api s s'" and "calls s' = calls s @ [(r, op)]" and "0 < ledger s r"
  using assms vt_call_SomeD unfolding vt_unit_def by fastforce+

lemma vt_unit_defined: "0 < ledger s r \<Longrightarrow> \<exists>s'. vt_unit im r op s = Some s'"
  using vt_call_defined [of s r "\<lambda>r op e. case im_unit im r op e of (ef, e') \<Rightarrow> ((), ef, e')" op]
  by (auto simp: vt_unit_def)

section \<open>Who owns a reference\<close>

fun backing_res :: "(addr \<Rightarrow> ptr \<Rightarrow> res) \<Rightarrow> ptr \<Rightarrow> ptr \<Rightarrow> res option" where
  "backing_res R None c = None"
| "backing_res R (Some vt) c = Some (R vt c)"

fun provider_res :: "(addr \<Rightarrow> ptr \<Rightarrow> res) \<Rightarrow> provider_inner \<Rightarrow> res option" where
  "provider_res R PI_Global = None"
| "provider_res R (PI_Backed vt c) = backing_res R vt c"

fun owned_by :: "api_payload \<Rightarrow> res option" where
  "owned_by (P_TracerProvider p) = provider_res R_TraceProvider p"
| "owned_by (P_MeterProvider p) = provider_res R_MeterProvider p"
| "owned_by (P_LoggerProvider p) = provider_res R_LoggerProvider p"
| "owned_by (P_Tracer b) = backing_res R_Tracer (bk_vtable b) (bk_ctx b)"
| "owned_by (P_Span b) = backing_res R_Span (bk_vtable b) (bk_ctx b)"
| "owned_by (P_Logger b) = backing_res R_Logger (bk_vtable b) (bk_ctx b)"
| "owned_by (P_Meter b) = backing_res R_Meter (bk_vtable b) (bk_ctx b)"
| "owned_by (P_Sync i b) = backing_res R_Instrument (bk_vtable b) (bk_ctx b)"
| "owned_by (P_Bound i b) = backing_res R_Bound (bk_vtable b) (bk_ctx b)"
| "owned_by (P_Observable i b) = backing_res R_Instrument (bk_vtable b) (bk_ctx b)"
| "owned_by _ = None"

definition owners_at :: "res \<Rightarrow> (api_payload, 'm) store_scheme \<Rightarrow> addr set" where
  "owners_at r s = {a. \<exists>h. objs s a = Some h \<and> owned_by (body h) = Some r}"

definition handle_refs :: "res \<Rightarrow> (api_payload, 'm) store_scheme \<Rightarrow> nat" where
  "handle_refs r s = card (owners_at r s)"

definition slot_refs :: "res \<Rightarrow> ('e, 'm) process_scheme \<Rightarrow> nat" where
  "slot_refs r s =
     of_bool (backing_res R_TraceProvider (slot_vtable (trace_slot s)) (slot_ctx (trace_slot s)) = Some r) +
     of_bool (backing_res R_MeterProvider (slot_vtable (metrics_slot s)) (slot_ctx (metrics_slot s)) = Some r) +
     of_bool (backing_res R_LoggerProvider (slot_vtable (logs_slot s)) (slot_ctx (logs_slot s)) = Some r)"

text \<open>The references to \<open>r\<close> that neither a slot nor a handle owns: those of the implementation and
  of the callers of the registration interface.\<close>

definition external :: "res \<Rightarrow> ('e, 'm) process_scheme \<Rightarrow> int" where
  "external r s = int (ledger s r) - int (slot_refs r s + handle_refs r s)"

definition proc_inv :: "('e, 'm) process_scheme \<Rightarrow> bool" where
  "proc_inv s \<longleftrightarrow> ctx_inv s \<and> (\<forall>r. 0 \<le> external r s)"

lemma owners_finite: "wf_store k s \<Longrightarrow> finite (owners_at r s)"
  by (rule finite_subset [of _ "{..< next_addr s}"]) (auto simp: owners_at_def wf_store_def)

lemma owners_at_cong: "objs s' = objs s \<Longrightarrow> owners_at r s' = owners_at r s"
  by (simp add: owners_at_def)

lemma handle_refs_cong: "objs s' = objs s \<Longrightarrow> handle_refs r s' = handle_refs r s"
  using owners_at_cong [of s' s r] by (simp add: handle_refs_def)

lemma handle_refs_into_raw:
  assumes "wf_store k s"
  shows "handle_refs r (snd (into_raw K b s)) = handle_refs r s + of_bool (owned_by b = Some r)"
proof -
  have fresh: "next_addr s \<notin> owners_at r s" using wf_store_fresh [OF assms] by (simp add: owners_at_def)
  have "owners_at r (snd (into_raw K b s)) =
      (if owned_by b = Some r then insert (next_addr s) (owners_at r s) else owners_at r s)"
    using wf_store_fresh [OF assms] by (auto simp: owners_at_def)
  then show ?thesis using fresh owners_finite [OF assms] by (simp add: handle_refs_def)
qed

lemma handle_refs_remove:
  assumes "wf_store k s" and "objs s a = Some h"
  shows "handle_refs r s = handle_refs r (s\<lparr>objs := (objs s)(a := None)\<rparr>) + of_bool (owned_by (body h) = Some r)"
proof -
  have "owners_at r (s\<lparr>objs := (objs s)(a := None)\<rparr>) = owners_at r s - {a}"
    by (auto simp: owners_at_def)
  moreover have "a \<in> owners_at r s \<longleftrightarrow> owned_by (body h) = Some r" using assms(2) by (simp add: owners_at_def)
  ultimately show ?thesis
    using owners_finite [OF assms(1), of r] card_Suc_Diff1 [of "owners_at r s" a]
    by (auto simp: handle_refs_def)
qed

lemma handle_refs_put:
  assumes "points_to s p b0" and "owned_by b = owned_by b0"
  shows "handle_refs r (put_ptr p b s) = handle_refs r s"
proof -
  obtain a h where a: "p = Some a" "objs s a = Some h" "body h = b0"
    using assms(1) by (auto simp: points_to_def split: option.splits)
  have "owners_at r (put_ptr p b s) = owners_at r s"
    using a assms(2) by (auto simp: owners_at_def put_ptr_def objs_put_body)
  then show ?thesis by (simp add: handle_refs_def)
qed

lemma external_same: "same_api s s' \<Longrightarrow> external r s' = external r s"
  using handle_refs_cong [of s' s r] by (simp add: external_def slot_refs_def same_api_def)

lemma ctx_inv_same: "same_api s s' \<Longrightarrow> ctx_inv s' = ctx_inv s"
proof -
  assume a: "same_api s s'"
  then have "api_inv s' = api_inv s" by (intro api_inv_cong) (simp_all add: same_api_def)
  with a show ?thesis by (simp add: ctx_inv_def same_api_def)
qed

lemma proc_inv_same: "same_api s s' \<Longrightarrow> proc_inv s' = proc_inv s"
  using external_same [of s s'] ctx_inv_same [of s s'] by (simp add: proc_inv_def)

lemma points_to_same: "same_api s s' \<Longrightarrow> points_to s' p b = points_to s p b"
  using points_to_cong [of s' s p b] by (simp add: same_api_def)

lemma proc_inv_wf: "proc_inv s \<Longrightarrow> wf_api s"
  by (simp add: proc_inv_def ctx_inv_def api_inv_wf)

lemma external_ledger: "external r s \<le> int (ledger s r)"
  by (simp add: external_def)

text \<open>A live handle keeps its context alive.\<close>

lemma owner_has_reference:
  assumes "proc_inv s" and "points_to s p b" and "owned_by b = Some r"
  shows "0 < ledger s r"
proof -
  obtain a where "a \<in> owners_at r s"
    using assms(2,3) by (auto simp: points_to_def owners_at_def split: option.splits)
  then have "0 < handle_refs r s"
    using owners_finite [OF proc_inv_wf [OF assms(1)], of r] by (auto simp: handle_refs_def card_gt_0_iff)
  moreover have "0 \<le> external r s" using assms(1) by (simp add: proc_inv_def)
  ultimately show ?thesis by (simp add: external_def)
qed

lemma slot_has_reference:
  assumes "proc_inv s" and "0 < slot_refs r s"
  shows "0 < ledger s r"
proof -
  have "0 \<le> external r s" using assms(1) by (simp add: proc_inv_def)
  with assms(2) show ?thesis by (simp add: external_def)
qed

lemma external_into_raw:
  assumes "wf_store k s"
  shows "external r (snd (into_raw K b s)) = external r s - of_bool (owned_by b = Some r)"
proof -
  have "same_api (s\<lparr>objs := objs (snd (into_raw K b s)), next_addr := next_addr (snd (into_raw K b s))\<rparr>) (snd (into_raw K b s))"
    by (rule same_api_more) simp_all
  then have "ledger (snd (into_raw K b s)) = ledger s" "slot_refs r (snd (into_raw K b s)) = slot_refs r s"
    by (auto simp: same_api_def slot_refs_def)
  then show ?thesis using handle_refs_into_raw [OF assms] by (simp add: external_def)
qed

lemma external_acquire: "external q (acquire r s) = external q s + of_bool (q = r)"
  by (simp add: external_def acquire_def slot_refs_def handle_refs_def owners_at_def)

lemma acquire_sel [simp]:
  "objs (acquire r s) = objs s" "next_addr (acquire r s) = next_addr s" "tls (acquire r s) = tls s"
  "calls (acquire r s) = calls s" "trace_slot (acquire r s) = trace_slot s"
  "metrics_slot (acquire r s) = metrics_slot s" "logs_slot (acquire r s) = logs_slot s"
  "ledger (acquire r s) = (ledger s)(r := Suc (ledger s r))" "last_error (acquire r s) = last_error s"
  by (simp_all add: acquire_def)

lemma vt_free_SomeD:
  assumes "vt_free im r s = Some s'"
  shows "external q s' = external q s - of_bool (q = r)" and "calls s' = calls s @ [(r, Op_Free)]"
    and "objs s' = objs s" and "next_addr s' = next_addr s" and "tls s' = tls s"
    and "trace_slot s' = trace_slot s" and "metrics_slot s' = metrics_slot s" and "logs_slot s' = logs_slot s"
    and "next_thread_token s' = next_thread_token s"
    and "next_metrics_id s' = next_metrics_id s" and "next_logs_id s' = next_logs_id s"
    and "ledger s' = (ledger s)(r := ledger s r - 1)" and "0 < ledger s r"
proof -
  obtain s1 where s1: "vt_unit im r Op_Free s = Some s1" "s' = s1\<lparr>ledger := (ledger s1)(r := ledger s1 r - 1)\<rparr>"
    using assms by (auto simp: vt_free_def)
  note u = vt_unit_SomeD [OF s1(1)]
  show "calls s' = calls s @ [(r, Op_Free)]" "objs s' = objs s" "next_addr s' = next_addr s" "tls s' = tls s"
    "trace_slot s' = trace_slot s" "metrics_slot s' = metrics_slot s" "logs_slot s' = logs_slot s"
    "next_thread_token s' = next_thread_token s"
    "next_metrics_id s' = next_metrics_id s" "next_logs_id s' = next_logs_id s"
    "ledger s' = (ledger s)(r := ledger s r - 1)" "0 < ledger s r"
    using u s1(2) by (simp_all add: same_api_def)
  then show "external q s' = external q s - of_bool (q = r)"
    by (auto simp: external_def slot_refs_def handle_refs_def owners_at_def)
qed

lemma vt_free_defined: "0 < ledger s r \<Longrightarrow> \<exists>s'. vt_free im r s = Some s'"
  using vt_unit_defined [of s r im Op_Free] by (auto simp: vt_free_def)

lemma proc_invI: "ctx_inv s \<Longrightarrow> (\<And>r. 0 \<le> external r s) \<Longrightarrow> proc_inv s"
  by (simp add: proc_inv_def)

lemma proc_inv_external: "proc_inv s \<Longrightarrow> 0 \<le> external r s"
  by (simp add: proc_inv_def)

lemma proc_inv_ctx: "proc_inv s \<Longrightarrow> ctx_inv s"
  by (simp add: proc_inv_def)

lemma ctx_inv_frame:
  "objs s' = objs s \<Longrightarrow> next_addr s' = next_addr s \<Longrightarrow> tls s' = tls s \<Longrightarrow> ctx_inv s' = ctx_inv s"
  using api_inv_cong [of s' s] by (simp add: ctx_inv_def)


section \<open>The contract of a slot\<close>

definition slots_same :: "('e, 'm) process_scheme \<Rightarrow> ('e, 'm) process_scheme \<Rightarrow> bool" where
  "slots_same s s' \<longleftrightarrow> trace_slot s' = trace_slot s \<and> metrics_slot s' = metrics_slot s \<and> logs_slot s' = logs_slot s"

lemma slots_same_api: "same_api s s' \<Longrightarrow> slots_same s s'"
  by (simp add: same_api_def slots_same_def)

text \<open>
  A slot that owns one reference of the kind \<open>R\<close>: reading it, and overwriting it. The lemmas
  of the locale are the two lifecycle facts that all three slots share: replacing what a slot
  holds moves exactly one reference in and gives exactly one back, and retaining its content
  under the lock yields a reference that is independent of the slot.
\<close>

locale global_slot =
  fixes R :: "addr \<Rightarrow> ptr \<Rightarrow> res"
    and vt_of :: "('e, 'm) process_scheme \<Rightarrow> ptr"
    and ctx_of :: "('e, 'm) process_scheme \<Rightarrow> ptr"
    and put :: "'k \<Rightarrow> ptr \<Rightarrow> ptr \<Rightarrow> ('e, 'm) process_scheme \<Rightarrow> ('e, 'm) process_scheme"
  assumes put_frame: "objs (put k v c s) = objs s" "next_addr (put k v c s) = next_addr s"
      "tls (put k v c s) = tls s" "ledger (put k v c s) = ledger s" "calls (put k v c s) = calls s"
    and put_sel: "vt_of (put k v c s) = v" "ctx_of (put k v c s) = c"
    and put_refs: "int (slot_refs r (put k v c s)) =
      int (slot_refs r s) + of_bool (backing_res R v c = Some r) - of_bool (backing_res R (vt_of s) (ctx_of s) = Some r)"
    and sel_same: "slots_same s s' \<Longrightarrow> vt_of s' = vt_of s \<and> ctx_of s' = ctx_of s"
    and slot_counts: "vt_of s = Some vt \<Longrightarrow> 0 < slot_refs (R vt (ctx_of s)) s"
begin

lemma external_put:
  "external r (put k v c s) = external r s - of_bool (backing_res R v c = Some r) +
     of_bool (backing_res R (vt_of s) (ctx_of s) = Some r)"
  using put_refs [of r k v c s] put_frame handle_refs_cong [of "put k v c s" s r] by (simp add: external_def)

lemma swap:
  assumes inv: "proc_inv s" and mine: "\<And>vt. v = Some vt \<Longrightarrow> 1 \<le> external (R vt c) s"
  obtains s' where "free_old im R (vt_of s) (ctx_of s) (put k v c s) = Some s'" "proc_inv s'"
    "vt_of s' = v" "ctx_of s' = c" "slots_same (put k v c s) s'"
    "\<And>q. external q s' = external q s - of_bool (backing_res R v c = Some q)"
    "objs s' = objs s" "next_metrics_id s' = next_metrics_id (put k v c s)"
    "next_logs_id s' = next_logs_id (put k v c s)"
    "calls s' = calls s @ (case vt_of s of None \<Rightarrow> [] | Some vt \<Rightarrow> [(R vt (ctx_of s), Op_Free)])"
proof -
  let ?s1 = "put k v c s"
  have ctx: "ctx_inv ?s1" using proc_inv_ctx [OF inv] ctx_inv_frame [of ?s1 s] put_frame by simp
  have ext: "0 \<le> external q s - of_bool (backing_res R v c = Some q)" for q
    using proc_inv_external [OF inv, of q] mine by (cases v) auto
  show ?thesis
  proof (cases "vt_of s")
    case None
    have "proc_inv ?s1" using ctx ext None by (intro proc_invI) (simp_all add: external_put)
    with that [of ?s1] None show ?thesis by (simp add: free_old_def put_sel put_frame external_put slots_same_def)
  next
    case (Some vt)
    let ?r = "R vt (ctx_of s)"
    have "1 \<le> external ?r ?s1" using ext [of ?r] Some by (simp add: external_put)
    then have "0 < ledger ?s1 ?r" using external_ledger [of ?r ?s1] by simp
    then obtain s' where s': "vt_free im ?r ?s1 = Some s'" using vt_free_defined by blast
    note f = vt_free_SomeD [OF s']
    have e: "external q s' = external q s - of_bool (backing_res R v c = Some q)" for q
      using f(1) [of q] Some by (auto simp: external_put)
    have "ctx_inv s'" using ctx ctx_inv_frame [of s' ?s1] f by simp
    then have "proc_inv s'" using ext e by (intro proc_invI) simp_all
    moreover have sm: "slots_same ?s1 s'" using f by (simp add: slots_same_def)
    ultimately show ?thesis
      using that [of s'] s' Some e f sel_same [OF sm] by (simp add: free_old_def put_sel put_frame)
  qed
qed

lemma retain:
  assumes inv: "proc_inv s"
  obtains (No_provider) "retain_slot im R msg (vt_of s) (ctx_of s) s = Some (NoProvider, s)" "vt_of s = None"
    | (Failed) s' where "retain_slot im R msg (vt_of s) (ctx_of s) s = Some (RetainFailed, s')"
        "same_api s s'" "has_last_error s'"
    | (Retained_ref) vt c s' where "retain_slot im R msg (vt_of s) (ctx_of s) s = Some (Retained vt c, s')"
        "vt_of s = Some vt" "proc_inv s'" "slots_same s s'" "objs s' = objs s" "tls s' = tls s" "next_addr s' = next_addr s"
        "\<And>q. external q s' = external q s + of_bool (q = R vt c)"
        "calls s' = calls s @ [(R vt (ctx_of s), Op_Retain)]"
proof (cases "vt_of s")
  case None
  then show ?thesis using No_provider by (simp add: retain_slot_def)
next
  case (Some vt)
  let ?r = "R vt (ctx_of s)"
  have "0 < ledger s ?r" using slot_has_reference [OF inv slot_counts [OF Some]] .
  then obtain p s1 where c: "vt_ptr im ?r Op_Retain s = Some (p, s1)"
    using vt_call_defined [of s ?r "im_ptr im" Op_Retain] by (auto simp: vt_ptr_def)
  note v = vt_call_SomeD [OF c [unfolded vt_ptr_def]]
  show ?thesis
  proof (cases p)
    case None
    let ?s' = "if has_last_error s1 then s1 else set_error_text msg s1"
    have "same_api s ?s'" "has_last_error ?s'"
      using v(1) same_api_trans [OF v(1) same_api_error(3)] by auto
    then show ?thesis using Failed [of ?s'] Some None c by (simp add: retain_slot_def)
  next
    fix d assume d: "p = Some d"
    let ?q = "R vt (Some d)" and ?s' = "acquire (R vt (Some d)) s1"
    have e: "external q ?s' = external q s + of_bool (q = ?q)" for q
      using external_same [OF v(1)] by (simp add: external_acquire)
    have "ctx_inv ?s'" using proc_inv_ctx [OF inv] ctx_inv_frame [of ?s' s] v(1) by (simp add: same_api_def)
    then have "proc_inv ?s'" using proc_inv_external [OF inv] e by (intro proc_invI) simp_all
    with e v show ?thesis
      using Retained_ref [of vt "Some d" ?s'] Some d c
      by (simp add: retain_slot_def same_api_def slots_same_def)
  qed
qed

end

text \<open>The three slots of the process, on the code's own definitions.\<close>

definition put_trace_slot :: "unit \<Rightarrow> ptr \<Rightarrow> ptr \<Rightarrow> ('e, 'm) process_scheme \<Rightarrow> ('e, 'm) process_scheme" where
  "put_trace_slot k v c s = s\<lparr>trace_slot := \<lparr>slot_vtable = v, slot_ctx = c\<rparr>\<rparr>"

definition put_metrics_slot :: "u64 \<times> u64 \<Rightarrow> ptr \<Rightarrow> ptr \<Rightarrow> ('e, 'm) process_scheme \<Rightarrow> ('e, 'm) process_scheme" where
  "put_metrics_slot k v c s =
     s\<lparr>next_metrics_id := snd k,
       metrics_slot := \<lparr>slot_vtable = v, slot_ctx = c, slot_registration_id = fst k\<rparr>\<rparr>"

definition put_logs_slot :: "u64 \<times> u64 \<Rightarrow> ptr \<Rightarrow> ptr \<Rightarrow> ('e, 'm) process_scheme \<Rightarrow> ('e, 'm) process_scheme" where
  "put_logs_slot k v c s =
     s\<lparr>next_logs_id := snd k,
       logs_slot := \<lparr>slot_vtable = v, slot_ctx = c, slot_registration_id = fst k\<rparr>\<rparr>"

lemma backing_res_pos: "v = Some vt \<Longrightarrow> of_bool (backing_res R v c = Some (R vt c)) = (1 :: nat)"
  by simp

interpretation tslot: global_slot R_TraceProvider "\<lambda>s. slot_vtable (trace_slot s)" "\<lambda>s. slot_ctx (trace_slot s)" put_trace_slot
  by unfold_locales (auto simp: put_trace_slot_def slot_refs_def slots_same_def)

interpretation mslot: global_slot R_MeterProvider "\<lambda>s. slot_vtable (metrics_slot s)" "\<lambda>s. slot_ctx (metrics_slot s)" put_metrics_slot
  by unfold_locales (auto simp: put_metrics_slot_def slot_refs_def slots_same_def)

interpretation lslot: global_slot R_LoggerProvider "\<lambda>s. slot_vtable (logs_slot s)" "\<lambda>s. slot_ctx (logs_slot s)" put_logs_slot
  by unfold_locales (auto simp: put_logs_slot_def slot_refs_def slots_same_def)


section \<open>Registration, in terms of the slot contract\<close>

lemma register_run:
  "otel_api_register_global_provider im (Some vt) c s =
     (if trace_vtable_compatible (im_header im vt) then
        map_option (\<lambda>s2. (St_Ok, s2))
          (free_old im R_TraceProvider (slot_vtable (trace_slot (clear_last_error s)))
             (slot_ctx (trace_slot (clear_last_error s))) (put_trace_slot () (Some vt) c (clear_last_error s)))
      else Some (fail St_InvalidConfig
        ''register_global_provider: incompatible trace implementation ABI (expected kind/version 1)''
        (clear_last_error s)))"
  by (simp add: otel_api_register_global_provider_def put_trace_slot_def Let_def)

lemma install_meter_run:
  "install_global_meter_provider im (Some vt) c s =
     (if metrics_vtable_compatible (im_header im vt) then
        map_option (\<lambda>s2. (Inr (fst (next_registration_id (next_metrics_id s))), s2))
          (free_old im R_MeterProvider (slot_vtable (metrics_slot s)) (slot_ctx (metrics_slot s))
             (put_metrics_slot (next_registration_id (next_metrics_id s)) (Some vt) c s))
      else Some (Inl St_InvalidConfig,
        set_error_text ''register_global_meter_provider: incompatible metrics implementation ABI'' s))"
  by (simp add: install_global_meter_provider_def put_metrics_slot_def Let_def split_beta)

lemma install_logger_run:
  "install_global_logger_provider im (Some vt) c s =
     (if logs_vtable_compatible (im_header im vt) then
        map_option (\<lambda>s2. (Inr (fst (next_registration_id (next_logs_id s))), s2))
          (free_old im R_LoggerProvider (slot_vtable (logs_slot s)) (slot_ctx (logs_slot s))
             (put_logs_slot (next_registration_id (next_logs_id s)) (Some vt) c s))
      else Some (Inl St_InvalidConfig,
        set_error_text ''register_global_logger_provider: incompatible logs implementation ABI'' s))"
  by (simp add: install_global_logger_provider_def put_logs_slot_def Let_def split_beta)

lemma next_registration_id_facts:
  assumes "next_registration_id n = (i, n')"
  shows "i \<noteq> 0" and "n' = i + 1" and "fst (next_registration_id n') \<noteq> i"
proof -
  have one: "(0 :: u64) + 1 \<noteq> 0" by simp
  have ne: "w + 1 \<noteq> w" for w :: u64 by simp
  show "i \<noteq> 0" "n' = i + 1" using assms one by (auto simp: next_registration_id_def split: if_splits)
  then show "fst (next_registration_id n') \<noteq> i"
  proof (cases "i + 1 = 0")
    case True
    then have "i = - 1" by (metis add.commute add_eq_0_iff)
    with \<open>n' = i + 1\<close> show ?thesis by (simp add: next_registration_id_def)
  next
    case False
    with \<open>n' = i + 1\<close> ne [of i] show ?thesis by (simp add: next_registration_id_def)
  qed
qed

lemma external_error [simp]:
  "external r (clear_last_error s) = external r s" "external r (set_error_text m s) = external r s"
  "external r (set_last_error m' s) = external r s" "external r (snd (fail st m s)) = external r s"
  by (rule external_same; simp)+

lemma proc_inv_error [simp]:
  "proc_inv (clear_last_error s) = proc_inv s" "proc_inv (set_error_text m s) = proc_inv s"
  "proc_inv (set_last_error m' s) = proc_inv s" "proc_inv (snd (fail st m s)) = proc_inv s"
  by (rule proc_inv_same; simp)+

lemma register_logger_ok:
  assumes "proc_inv s" and "1 \<le> external (R_LoggerProvider vt c) s" and "logs_vtable_compatible (im_header im vt)"
  shows "\<exists>i s'. otel_api_register_global_logger_provider_with_token im (Some vt) c False s = Some (St_Ok, Some i, s') \<and>
     proc_inv s' \<and> logs_slot s' = \<lparr>slot_vtable = Some vt, slot_ctx = c, slot_registration_id = i\<rparr> \<and>
     next_registration_id (next_logs_id s) = (i, next_logs_id s') \<and>
     (\<forall>q. external q s' = external q s - of_bool (q = R_LoggerProvider vt c))"
proof -
  have inv0: "proc_inv (clear_last_error s)" using assms(1) by simp
  have own: "Some vt = Some v \<Longrightarrow> 1 \<le> external (R_LoggerProvider v c) (clear_last_error s)" for v
    using assms(2) by simp
  let ?k = "next_registration_id (next_logs_id s)"
  obtain s4 where f: "free_old im R_LoggerProvider (slot_vtable (logs_slot (clear_last_error s)))
      (slot_ctx (logs_slot (clear_last_error s))) (put_logs_slot ?k (Some vt) c (clear_last_error s)) = Some s4"
    "proc_inv s4" "slots_same (put_logs_slot ?k (Some vt) c (clear_last_error s)) s4"
    "\<And>q. external q s4 = external q (clear_last_error s) - of_bool (backing_res R_LoggerProvider (Some vt) c = Some q)"
    "next_logs_id s4 = next_logs_id (put_logs_slot ?k (Some vt) c (clear_last_error s))"
    by (rule lslot.swap [OF inv0, where v = "Some vt" and c = c and im = im and k = ?k]) (erule own, rule that)
  have "otel_api_register_global_logger_provider_with_token im (Some vt) c False s = Some (St_Ok, Some (fst ?k), s4)"
    using f(1) assms(3) by (simp add: otel_api_register_global_logger_provider_with_token_def install_logger_run)
  with f(2-5) show ?thesis by (auto simp: slots_same_def put_logs_slot_def)
qed

lemma register_logger_needs_compat:
  "otel_api_register_global_logger_provider_with_token im (Some vt) c False s = Some (St_Ok, i, s') \<Longrightarrow>
     logs_vtable_compatible (im_header im vt)"
  by (rule ccontr) (simp add: otel_api_register_global_logger_provider_with_token_def install_logger_run)

section \<open>Properties\<close>

text \<open>
  Registering a trace provider moves exactly one reference. With a context that the caller
  owns, registration is defined; it succeeds exactly for a compatible vtable. On success the
  slot holds the new provider, the caller's reference has moved into the slot and the previous
  provider, if any, is freed exactly once; on refusal the slot and all references are as before,
  so the context still belongs to the caller.
\<close>

theorem register_moves_one_reference:
  assumes "proc_inv s" and "1 \<le> external (R_TraceProvider vt c) s"
  shows "\<exists>st s'. otel_api_register_global_provider im (Some vt) c s = Some (st, s') \<and> proc_inv s' \<and> objs s' = objs s \<and>
     (st = St_Ok \<longleftrightarrow> trace_vtable_compatible (im_header im vt)) \<and>
     (st = St_Ok \<longrightarrow> trace_slot s' = \<lparr>slot_vtable = Some vt, slot_ctx = c\<rparr> \<and>
        (\<forall>q. external q s' = external q s - of_bool (q = R_TraceProvider vt c)) \<and>
        calls s' = calls s @ (case slot_vtable (trace_slot s) of None \<Rightarrow> []
          | Some old \<Rightarrow> [(R_TraceProvider old (slot_ctx (trace_slot s)), Op_Free)])) \<and>
     (st \<noteq> St_Ok \<longrightarrow> trace_slot s' = trace_slot s \<and> (\<forall>q. external q s' = external q s) \<and> calls s' = calls s)"
proof (cases "trace_vtable_compatible (im_header im vt)")
  case True
  have inv: "proc_inv (clear_last_error s)" using assms(1) by simp
  have mine: "1 \<le> external (R_TraceProvider vt' c) (clear_last_error s)" if "Some vt = Some vt'" for vt'
    using that assms(2) by simp
  obtain s' where s': "free_old im R_TraceProvider (slot_vtable (trace_slot (clear_last_error s)))
      (slot_ctx (trace_slot (clear_last_error s))) (put_trace_slot () (Some vt) c (clear_last_error s)) = Some s'"
    "proc_inv s'" "slot_vtable (trace_slot s') = Some vt" "slot_ctx (trace_slot s') = c"
    "\<And>q. external q s' = external q (clear_last_error s) - of_bool (backing_res R_TraceProvider (Some vt) c = Some q)"
    "objs s' = objs (clear_last_error s)"
    "calls s' = calls (clear_last_error s) @ (case slot_vtable (trace_slot (clear_last_error s)) of None \<Rightarrow> []
       | Some vt \<Rightarrow> [(R_TraceProvider vt (slot_ctx (trace_slot (clear_last_error s))), Op_Free)])"
    by (rule tslot.swap [OF inv, where v = "Some vt" and c = c and im = im and k = "()"]) (erule mine, rule that)
  then have "trace_slot s' = \<lparr>slot_vtable = Some vt, slot_ctx = c\<rparr>" by (cases "trace_slot s'") simp
  with s' True show ?thesis by (auto simp: register_run split: option.splits)
next
  case False
  let ?s' = "set_error_text ''register_global_provider: incompatible trace implementation ABI (expected kind/version 1)''
      (clear_last_error s)"
  have "otel_api_register_global_provider im (Some vt) c s = Some (St_InvalidConfig, ?s')"
    using False by (simp add: register_run fail_def)
  with False assms(1) show ?thesis by simp
qed

text \<open>A process for the witnesses: nothing registered, every context has two references, both
  outside the API; the implementation at address 10 is a trace, at 11 a logs and at 12 a metrics
  implementation that answers each request for a context with the next number.\<close>

definition sample_impl :: "nat implementation" where
  "sample_impl =
     \<lparr>im_header = (\<lambda>a. if a = 10 then \<lparr>abi_version = 1, struct_size = 160\<rparr>
                       else if a = 11 then \<lparr>abi_version = 0x4C000001, struct_size = 64\<rparr>
                       else \<lparr>abi_version = 0x4D000001, struct_size = 160\<rparr>),
      im_ptr = (\<lambda>r op e. (Some e, Err_Keep, Suc e)),
      im_ptr_status = (\<lambda>r op e. ((Some e, St_Ok), Err_Keep, Suc e)),
      im_status = (\<lambda>r op e. (St_Ok, Err_Keep, e)),
      im_bool = (\<lambda>r op e. (1, Err_Keep, e)),
      im_unit = (\<lambda>r op e. (Err_Keep, e))\<rparr>"

definition sample_process :: "(nat, unit) process_scheme" where
  "sample_process =
     \<lparr>objs = initial_objs, next_addr = 1, last_error = None, tls = (\<lambda>_. Tls_Unused), next_thread_token = 1,
      trace_slot = \<lparr>slot_vtable = None, slot_ctx = None\<rparr>,
      metrics_slot = empty_token_slot, next_metrics_id = 1, logs_slot = empty_token_slot, next_logs_id = 1,
      ledger = (\<lambda>_. 2), calls = [], impl_state = 1000\<rparr>"

lemma sample_process_sel:
  "trace_slot sample_process = \<lparr>slot_vtable = None, slot_ctx = None\<rparr>"
  "logs_slot sample_process = empty_token_slot" "metrics_slot sample_process = empty_token_slot"
  "next_logs_id sample_process = 1" "calls sample_process = []" "ledger sample_process = (\<lambda>_. 2)"
  "objs sample_process = initial_objs" "impl_state sample_process = 1000" "next_addr sample_process = 1"
  "tls sample_process = (\<lambda>_. Tls_Unused)"
  by (simp_all add: sample_process_def)

lemma sample_impl_compat:
  "trace_vtable_compatible (im_header sample_impl 10)" "logs_vtable_compatible (im_header sample_impl 11)"
  "metrics_vtable_compatible (im_header sample_impl 12)"
  by (simp_all add: sample_impl_def trace_vtable_compatible_def logs_vtable_compatible_def
      metrics_vtable_compatible_def OTEL_TRACE_IMPL_ABI_VERSION_def OTEL_LOGS_IMPL_ABI_VERSION_def
      OTEL_METRICS_IMPL_ABI_VERSION_def)

lemma sample_process_inv: "proc_inv sample_process" "external r sample_process = 2"
proof -
  have own: "owned_by (P_Span noop_span) = None" by (simp add: noop_span_def)
  have h: "handle_refs r sample_process = 0" for r
    using own by (auto simp: handle_refs_def owners_at_def sample_process_sel initial_objs_def split: if_splits)
  have "slot_refs r sample_process = 0" for r
    by (simp add: slot_refs_def sample_process_sel empty_token_slot_def)
  with h show e: "external r sample_process = 2" for r by (simp add: external_def sample_process_sel)
  have "api_inv sample_process"
    by (auto simp: api_inv_def wf_store_def sample_process_sel initial_objs_def split: if_splits)
  then have "ctx_inv sample_process" by (simp add: ctx_inv_def slot_ok_def sample_process_sel)
  then show "proc_inv sample_process" using e by (simp add: proc_inv_def)
qed

theorem register_moves_one_reference_witness:
  "\<exists>s'. otel_api_register_global_provider sample_impl (Some 10) (Some 7) sample_process = Some (St_Ok, s') \<and>
     proc_inv s' \<and> external (R_TraceProvider 10 (Some 7)) s' = 1 \<and> calls s' = []"
proof -
  have "1 \<le> external (R_TraceProvider 10 (Some 7)) sample_process" by (simp add: sample_process_inv(2))
  from register_moves_one_reference [OF sample_process_inv(1) this, of sample_impl] obtain st s' where
    r: "otel_api_register_global_provider sample_impl (Some 10) (Some 7) sample_process = Some (st, s')" "proc_inv s'"
      "st = St_Ok \<longleftrightarrow> trace_vtable_compatible (im_header sample_impl 10)"
      "st = St_Ok \<longrightarrow> (\<forall>q. external q s' = external q sample_process - of_bool (q = R_TraceProvider 10 (Some 7))) \<and>
        calls s' = calls sample_process @ (case slot_vtable (trace_slot sample_process) of None \<Rightarrow> []
          | Some old \<Rightarrow> [(R_TraceProvider old (slot_ctx (trace_slot sample_process)), Op_Free)])"
    by blast
  then show ?thesis by (simp add: sample_impl_compat sample_process_inv(2) sample_process_sel)
qed

text \<open>
  A stale token is harmless. After a second registration in the logs slot, unregistering with
  the token of the first one succeeds without any effect on the slot, on any reference and without any
  call to an implementation; unregistering with the token of the second one empties the slot and
  gives back exactly the one reference the slot owned.
\<close>

theorem stale_token_is_harmless:
  assumes "proc_inv s" and "1 \<le> external (R_LoggerProvider v1 c1) s"
    and "otel_api_register_global_logger_provider_with_token im (Some v1) c1 False s = Some (St_Ok, Some i1, s1)"
    and "1 \<le> external (R_LoggerProvider v2 c2) s1"
    and "otel_api_register_global_logger_provider_with_token im (Some v2) c2 False s1 = Some (St_Ok, Some i2, s2)"
  shows "(\<exists>s3. otel_api_unregister_global_logger_provider im i1 s2 = Some (St_Ok, s3) \<and>
            logs_slot s3 = logs_slot s2 \<and> calls s3 = calls s2 \<and> (\<forall>q. external q s3 = external q s2)) \<and>
     (\<exists>s3. otel_api_unregister_global_logger_provider im i2 s2 = Some (St_Ok, s3) \<and> proc_inv s3 \<and>
            logs_slot s3 = empty_token_slot \<and> (\<forall>q. external q s3 = external q s2) \<and>
            calls s3 = calls s2 @ [(R_LoggerProvider v2 c2, Op_Free)])"
proof -
  have reg: "proc_inv s' \<and> logs_slot s' = \<lparr>slot_vtable = Some v, slot_ctx = c, slot_registration_id = i\<rparr> \<and>
      next_registration_id (next_logs_id s0) = (i, next_logs_id s')"
    if "proc_inv s0" "1 \<le> external (R_LoggerProvider v c) s0"
      "otel_api_register_global_logger_provider_with_token im (Some v) c False s0 = Some (St_Ok, Some i, s')"
    for s0 s' v c i
    using register_logger_ok [OF that(1,2) register_logger_needs_compat [OF that(3)]] that(3) by auto
  note r1 = reg [OF assms(1-3)]
  then have "proc_inv s1" by blast
  note r2 = reg [OF this assms(4,5)]
  have i: "i1 \<noteq> 0" "i2 \<noteq> 0" "i2 \<noteq> i1"
    using r1 r2 next_registration_id_facts(1) next_registration_id_facts(3) by (metis, metis, metis fst_conv)
  have slot: "logs_slot s2 = \<lparr>slot_vtable = Some v2, slot_ctx = c2, slot_registration_id = i2\<rparr>" using r2 by blast
  have stale: "otel_api_unregister_global_logger_provider im i1 s2 = Some (St_Ok, clear_last_error s2)"
    using i slot by (simp add: otel_api_unregister_global_logger_provider_def Let_def)
  have inv2: "proc_inv (clear_last_error s2)" using r2 by simp
  let ?k = "(0, next_logs_id s2)"
  obtain s4 where f: "free_old im R_LoggerProvider (slot_vtable (logs_slot (clear_last_error s2)))
      (slot_ctx (logs_slot (clear_last_error s2))) (put_logs_slot ?k None None (clear_last_error s2)) = Some s4"
    "proc_inv s4" "slots_same (put_logs_slot ?k None None (clear_last_error s2)) s4"
    "\<And>q. external q s4 = external q (clear_last_error s2) - of_bool (backing_res R_LoggerProvider None None = Some q)"
    "calls s4 = calls (clear_last_error s2) @ (case slot_vtable (logs_slot (clear_last_error s2)) of None \<Rightarrow> []
       | Some vt \<Rightarrow> [(R_LoggerProvider vt (slot_ctx (logs_slot (clear_last_error s2))), Op_Free)])"
    by (rule lslot.swap [OF inv2, where v = None and c = None and im = im and k = ?k]) (simp, rule that)
  have "put_logs_slot ?k None None (clear_last_error s2) = (clear_last_error s2)\<lparr>logs_slot := empty_token_slot\<rparr>"
    by (cases s2) (simp add: put_logs_slot_def empty_token_slot_def clear_last_error_def)
  with f(1) slot i have live: "otel_api_unregister_global_logger_provider im i2 s2 = Some (St_Ok, s4)"
    by (simp add: otel_api_unregister_global_logger_provider_def Let_def)
  have "logs_slot s4 = empty_token_slot" using f(3) by (simp add: slots_same_def put_logs_slot_def empty_token_slot_def)
  with stale live f(2,4,5) slot show ?thesis by simp
qed

theorem stale_token_is_harmless_witness:
  "\<exists>i1 s1 i2 s2 s3.
     otel_api_register_global_logger_provider_with_token sample_impl (Some 11) (Some 7) False sample_process
       = Some (St_Ok, Some i1, s1) \<and>
     otel_api_register_global_logger_provider_with_token sample_impl (Some 11) (Some 8) False s1
       = Some (St_Ok, Some i2, s2) \<and>
     otel_api_unregister_global_logger_provider sample_impl i1 s2 = Some (St_Ok, s3) \<and> logs_slot s3 = logs_slot s2"
proof -
  have m1: "1 \<le> external (R_LoggerProvider 11 (Some 7)) sample_process" by (simp add: sample_process_inv(2))
  obtain i1 s1 where r1: "otel_api_register_global_logger_provider_with_token sample_impl (Some 11) (Some 7) False sample_process
      = Some (St_Ok, Some i1, s1)" "proc_inv s1"
      "\<forall>q. external q s1 = external q sample_process - of_bool (q = R_LoggerProvider 11 (Some 7))"
    using register_logger_ok [OF sample_process_inv(1) m1 sample_impl_compat(2)] by blast
  have m2: "1 \<le> external (R_LoggerProvider 11 (Some 8)) s1" using r1(3) by (simp add: sample_process_inv(2))
  obtain i2 s2 where r2: "otel_api_register_global_logger_provider_with_token sample_impl (Some 11) (Some 8) False s1
      = Some (St_Ok, Some i2, s2)"
    using register_logger_ok [OF r1(2) m2 sample_impl_compat(2)] by blast
  from stale_token_is_harmless [OF sample_process_inv(1) m1 r1(1) m2 r2] r1(1) r2 show ?thesis by blast
qed

end
