(* ===== verification/Provider_Race.thy ===== *)
theory Provider_Race
  imports Global_Providers
begin

text \<open>
  The trace slot under concurrency. \<open>otel_tracer_provider_get_tracer\<close> retains the slot's context
  under the read lock and uses and releases it after the lock is gone;
  \<open>otel_api_register_global_provider\<close> replaces the content under the write lock and frees the old
  context after the lock is gone. Each section between two lock operations is one atomic step
  of a thread here, so a configuration is the process and, per thread, the reference it holds
  outside the lock. The invariant gives every held reference one that exists, and with it no
  interleaving reaches a call on a freed context.
\<close>

section \<open>Configurations and steps\<close>

text \<open>What a thread is about to do outside the lock: use and release a retained reference, or free
  what it took out of the slot.\<close>

datatype pc = Idle | Holding res | Freeing res

fun held :: "pc \<Rightarrow> res option" where
  "held Idle = None"
| "held (Holding r) = Some r"
| "held (Freeing r) = Some r"

definition claims :: "res \<Rightarrow> (thread \<Rightarrow> pc) \<Rightarrow> nat" where
  "claims r pcs = card {t. held (pcs t) = Some r}"

inductive race_step ::
  "'e implementation \<Rightarrow> ('e, 'm) process_scheme \<times> (thread \<Rightarrow> pc)
     \<Rightarrow> ('e, 'm) process_scheme \<times> (thread \<Rightarrow> pc) \<Rightarrow> bool" for im where
  race_retain:
    "pcs t = Idle \<Longrightarrow> retain_global im s = Some (Retained vt c, s') \<Longrightarrow>
     race_step im (s, pcs) (s', pcs(t := Holding (R_TraceProvider vt c)))"
| race_retain_none:
    "pcs t = Idle \<Longrightarrow> retain_global im s = Some (out, s') \<Longrightarrow> out = NoProvider \<or> out = RetainFailed \<Longrightarrow>
     race_step im (s, pcs) (s', pcs)"
| race_use:
    "pcs t = Holding r \<Longrightarrow> vt_ptr im r (Op_GetTracer n v u) s = Some (p, s') \<Longrightarrow>
     race_step im (s, pcs) ((case p of None \<Rightarrow> s' | Some q \<Rightarrow> acquire (R_Tracer (res_vtable r) (Some q)) s'), pcs)"
| race_release:
    "pcs t = Holding r \<Longrightarrow> vt_free im r s = Some s' \<Longrightarrow> race_step im (s, pcs) (s', pcs(t := Idle))"
| race_swap:
    "pcs t = Idle \<Longrightarrow> trace_vtable_compatible (im_header im vt) \<Longrightarrow>
     int (claims (R_TraceProvider vt c) pcs) + 1 \<le> external (R_TraceProvider vt c) s \<Longrightarrow>
     race_step im (s, pcs)
       (put_trace_slot () (Some vt) c s,
        pcs(t := (case slot_vtable (trace_slot s) of
                    None \<Rightarrow> Idle
                  | Some old \<Rightarrow> Freeing (R_TraceProvider old (slot_ctx (trace_slot s))))))"
| race_free_old:
    "pcs t = Freeing r \<Longrightarrow> vt_free im r s = Some s' \<Longrightarrow> race_step im (s, pcs) (s', pcs(t := Idle))"

inductive_cases race_stepE: "race_step im c c'"

inductive race_reachable ::
  "'e implementation \<Rightarrow> ('e, 'm) process_scheme \<Rightarrow> ('e, 'm) process_scheme \<times> (thread \<Rightarrow> pc) \<Rightarrow> bool" for im s0 where
  race_init: "race_reachable im s0 (s0, \<lambda>_. Idle)"
| race_more: "race_reachable im s0 c \<Longrightarrow> race_step im c c' \<Longrightarrow> race_reachable im s0 c'"

section \<open>The invariant\<close>

definition race_inv :: "('e, 'm) process_scheme \<times> (thread \<Rightarrow> pc) \<Rightarrow> bool" where
  "race_inv c \<longleftrightarrow> proc_inv (fst c) \<and> finite {t. snd c t \<noteq> Idle} \<and>
     (\<forall>r. int (claims r (snd c)) \<le> external r (fst c))"

lemma held_finite: "finite {t. pcs t \<noteq> Idle} \<Longrightarrow> finite {t. held (pcs t) = Some r}"
  by (rule finite_subset [of _ "{t. pcs t \<noteq> Idle}"]) auto

lemma claims_update:
  assumes "finite {t. pcs t \<noteq> Idle}"
  shows "claims r (pcs(t := p)) + of_bool (held (pcs t) = Some r) = claims r pcs + of_bool (held p = Some r)"
  using count_where_update [of "\<lambda>p. held p = Some r" pcs t p] held_finite [OF assms, of r]
  by (simp add: claims_def count_where_def)

lemma finite_update: "finite {t. pcs t \<noteq> Idle} \<Longrightarrow> finite {u. (pcs(t := p)) u \<noteq> Idle}"
  by (rule finite_subset [of _ "insert t {t. pcs t \<noteq> Idle}"]) (auto split: if_splits)

lemma claims_pos: "finite {t. pcs t \<noteq> Idle} \<Longrightarrow> held (pcs t) = Some r \<Longrightarrow> 0 < claims r pcs"
  using held_finite [of pcs r] by (auto simp: claims_def card_gt_0_iff)

lemma race_inv_ledger:
  assumes "race_inv (s, pcs)" and "held (pcs t) = Some r"
  shows "0 < ledger s r"
proof -
  have "0 < claims r pcs" using assms claims_pos by (auto simp: race_inv_def)
  then have "0 < external r s" using assms(1) by (fastforce simp: race_inv_def dest: spec [of _ r])
  then show ?thesis using external_ledger [of r s] by simp
qed

lemma retain_global_cases:
  assumes "proc_inv s"
  obtains "retain_global im s = Some (NoProvider, s)" "slot_vtable (trace_slot s) = None"
    | s' where "retain_global im s = Some (RetainFailed, s')" "same_api s s'" "has_last_error s'"
    | vt c s' where "retain_global im s = Some (Retained vt c, s')" "slot_vtable (trace_slot s) = Some vt"
        "proc_inv s'" "slots_same s s'" "objs s' = objs s" "tls s' = tls s" "next_addr s' = next_addr s"
        "\<And>q. external q s' = external q s + of_bool (q = R_TraceProvider vt c)"
        "calls s' = calls s @ [(R_TraceProvider vt (slot_ctx (trace_slot s)), Op_Retain)]"
proof (rule tslot.retain [OF assms, where im = im and msg = "''global provider retain failed''"], goal_cases)
  case 1
  then show ?case using that(1) by (simp add: retain_global_def)
next
  case (2 s')
  then show ?case using that(2) by (simp add: retain_global_def)
next
  case (3 vt c s')
  show ?case by (rule that(3) [of vt c s']) (use 3 in \<open>simp_all add: retain_global_def\<close>)
qed

lemma race_step_inv:
  assumes "race_step im c c'" and "race_inv c"
  shows "race_inv c'"
  using assms
proof (cases rule: race_step.cases)
  case (race_retain pcs t s vt ctx s')
  have inv: "proc_inv s" and fin: "finite {t. pcs t \<noteq> Idle}" and ext: "\<And>r. int (claims r pcs) \<le> external r s"
    using assms(2) race_retain(1) by (auto simp: race_inv_def)
  from inv have e: "proc_inv s' \<and> (\<forall>q. external q s' = external q s + of_bool (q = R_TraceProvider vt ctx))"
    by (rule retain_global_cases [of s im]) (use race_retain(4) in auto)
  have "int (claims r (pcs(t := Holding (R_TraceProvider vt ctx)))) \<le> external r s'" for r
    using claims_update [OF fin, of r t "Holding (R_TraceProvider vt ctx)"] ext [of r] e race_retain(3)
    by (auto split: if_splits)
  with e finite_update [OF fin] race_retain(2) show ?thesis by (simp add: race_inv_def del: fun_upd_apply)
next
  case (race_retain_none pcs t s out s')
  have inv: "proc_inv s" using assms(2) race_retain_none(1) by (auto simp: race_inv_def)
  from inv have "same_api s s'"
    by (rule retain_global_cases [of s im]) (use race_retain_none(4,5) in auto)
  then show ?thesis
    using assms(2) race_retain_none(1,2) proc_inv_same external_same by (fastforce simp: race_inv_def)
next
  case (race_use pcs t r n v u s p s')
  note c = vt_call_SomeD [OF race_use(4) [unfolded vt_ptr_def]]
  let ?s = "case p of None \<Rightarrow> s' | Some q \<Rightarrow> acquire (R_Tracer (res_vtable r) (Some q)) s'"
  have le: "external q s \<le> external q ?s" for q
    using external_same [OF c(1), of q] by (auto simp: external_acquire split: option.splits)
  have "proc_inv s'" using assms(2) race_use(1) proc_inv_same [OF c(1)] by (simp add: race_inv_def)
  then have "ctx_inv ?s" using ctx_inv_frame [of ?s s'] by (auto simp: proc_inv_def split: option.splits)
  then have "proc_inv ?s"
    using assms(2) race_use(1) le by (intro proc_invI) (auto simp: race_inv_def proc_inv_def intro: order_trans)
  with le show ?thesis using assms(2) race_use(1,2) by (auto simp: race_inv_def intro: order_trans)
next
  case (race_release pcs t r s s')
  have fin: "finite {t. pcs t \<noteq> Idle}" and ext: "\<And>q. int (claims q pcs) \<le> external q s"
    using assms(2) race_release(1) by (auto simp: race_inv_def)
  note f = vt_free_SomeD [OF race_release(4)]
  have le: "int (claims q (pcs(t := Idle))) \<le> external q s'" for q
    using claims_update [OF fin, of q t Idle] ext [of q] f(1) [of q] race_release(3) by (auto split: if_splits)
  have "ctx_inv s'"
    using assms(2) race_release(1) ctx_inv_frame [of s' s] f(3-5) by (simp add: race_inv_def proc_inv_def)
  then have "proc_inv s'" by (rule proc_invI) (rule order_trans [OF of_nat_0_le_iff le])
  with le finite_update [OF fin] race_release(2) show ?thesis by (simp add: race_inv_def del: fun_upd_apply)
next
  case (race_swap pcs t vt ctx s)
  let ?p = "case slot_vtable (trace_slot s) of None \<Rightarrow> Idle
      | Some old \<Rightarrow> Freeing (R_TraceProvider old (slot_ctx (trace_slot s)))"
  let ?s = "put_trace_slot () (Some vt) ctx s"
  have fin: "finite {t. pcs t \<noteq> Idle}" and ext: "\<And>q. int (claims q pcs) \<le> external q s"
    using assms(2) race_swap(1) by (auto simp: race_inv_def)
  have held: "of_bool (held ?p = Some q) =
      (of_bool (backing_res R_TraceProvider (slot_vtable (trace_slot s)) (slot_ctx (trace_slot s)) = Some q) :: nat)" for q
    by (cases "slot_vtable (trace_slot s)") auto
  have le: "int (claims q (pcs(t := ?p))) \<le> external q ?s" for q
  proof -
    have "int (claims q pcs) \<le> external q s - of_bool (R_TraceProvider vt ctx = q)"
      using ext [of q] race_swap(5) by auto
    moreover have "claims q (pcs(t := ?p)) = claims q pcs + of_bool (held ?p = Some q)"
      using claims_update [OF fin, of q t ?p] race_swap(3) by simp
    ultimately show ?thesis
      using tslot.external_put [of q "()" "Some vt" ctx s] held [of q] by (simp del: fun_upd_apply)
  qed
  have "ctx_inv ?s = ctx_inv s" by (rule ctx_inv_frame) (simp_all add: tslot.put_frame)
  then have "ctx_inv ?s" using assms(2) race_swap(1) by (simp add: race_inv_def proc_inv_def)
  then have "proc_inv ?s" by (rule proc_invI) (rule order_trans [OF of_nat_0_le_iff le])
  with le finite_update [OF fin] race_swap(2) show ?thesis by (simp add: race_inv_def del: fun_upd_apply)
next
  case (race_free_old pcs t r s s')
  have fin: "finite {t. pcs t \<noteq> Idle}" and ext: "\<And>q. int (claims q pcs) \<le> external q s"
    using assms(2) race_free_old(1) by (auto simp: race_inv_def)
  note f = vt_free_SomeD [OF race_free_old(4)]
  have le: "int (claims q (pcs(t := Idle))) \<le> external q s'" for q
    using claims_update [OF fin, of q t Idle] ext [of q] f(1) [of q] race_free_old(3) by (auto split: if_splits)
  have "ctx_inv s'"
    using assms(2) race_free_old(1) ctx_inv_frame [of s' s] f(3-5) by (simp add: race_inv_def proc_inv_def)
  then have "proc_inv s'" by (rule proc_invI) (rule order_trans [OF of_nat_0_le_iff le])
  with le finite_update [OF fin] race_free_old(2) show ?thesis by (simp add: race_inv_def del: fun_upd_apply)
qed

lemma race_reachable_inv: "race_reachable im s0 c \<Longrightarrow> proc_inv s0 \<Longrightarrow> race_inv c"
proof (induction rule: race_reachable.induct)
  case race_init
  then show ?case by (simp add: race_inv_def claims_def proc_inv_def)
next
  case (race_more c c')
  then show ?case using race_step_inv by blast
qed

section \<open>Properties\<close>

text \<open>
  C2: No interleaving of tracer requests and provider replacements uses a freed provider. In every
  configuration reachable from a consistent process, for any number of threads: a thread that
  holds a retained reference can make any further call on it and can release it, a thread that
  took the old provider out of the slot can free it, and the provider in the slot can be
  retained; none of these is undefined behaviour.
\<close>

theorem no_use_after_free:
  assumes "proc_inv s0" and "race_reachable im s0 (s, pcs)"
  shows "(\<forall>t r op. pcs t = Holding r \<longrightarrow> vt_ptr im r op s \<noteq> None \<and> vt_free im r s \<noteq> None) \<and>
     (\<forall>t r. pcs t = Freeing r \<longrightarrow> vt_free im r s \<noteq> None) \<and>
     retain_global im s \<noteq> None"
proof -
  have inv: "race_inv (s, pcs)" using race_reachable_inv [OF assms(2,1)] .
  then have ok: "proc_inv s" by (simp add: race_inv_def)
  have free: "vt_free im r s \<noteq> None" if "held (pcs t) = Some r" for t r
    using vt_free_defined [OF race_inv_ledger [OF inv that]] by auto
  have call: "vt_ptr im r op s \<noteq> None" if "held (pcs t) = Some r" for t r op
    using vt_call_defined [OF race_inv_ledger [OF inv that], of "im_ptr im" op] by (auto simp: vt_ptr_def)
  show ?thesis
  proof (intro conjI allI impI)
    show "retain_global im s \<noteq> None" using ok by (rule retain_global_cases [of s im]) auto
    show "vt_ptr im r op s \<noteq> None" if "pcs t = Holding r" for t r op using call [of t] that by simp
    show "vt_free im r s \<noteq> None" if "pcs t = Holding r" for t r using free [of t] that by simp
    show "vt_free im r s \<noteq> None" if "pcs t = Freeing r" for t r using free [of t] that by simp
  qed
qed

theorem no_use_after_free_witness:
  "\<exists>s :: (nat, unit) process_scheme. race_reachable sample_impl sample_process (s, \<lambda>_. Idle) \<and>
     trace_slot s = \<lparr>slot_vtable = Some 10, slot_ctx = Some 7\<rparr> \<and> retain_global sample_impl s \<noteq> None"
proof -
  let ?s = "put_trace_slot () (Some 10) (Some 7) sample_process"
  have "claims (R_TraceProvider 10 (Some 7)) (\<lambda>_. Idle) = 0" by (simp add: claims_def)
  then have "race_step sample_impl (sample_process, \<lambda>_. Idle)
      (?s, (\<lambda>_. Idle)(0 := (case slot_vtable (trace_slot sample_process) of None \<Rightarrow> Idle
         | Some old \<Rightarrow> Freeing (R_TraceProvider old (slot_ctx (trace_slot sample_process))))))"
    by (intro race_swap) (simp_all add: sample_impl_compat sample_process_inv(2))
  moreover have "(\<lambda>_ :: thread. Idle)(0 := (case slot_vtable (trace_slot sample_process) of None \<Rightarrow> Idle
         | Some old \<Rightarrow> Freeing (R_TraceProvider old (slot_ctx (trace_slot sample_process))))) = (\<lambda>_. Idle)"
    by (simp add: sample_process_sel fun_eq_iff)
  ultimately have "race_step sample_impl (sample_process, \<lambda>_. Idle) (?s, \<lambda>_. Idle)" by simp
  then have r: "race_reachable sample_impl sample_process (?s, \<lambda>_. Idle)" by (rule race_more [OF race_init])
  have "trace_slot ?s = \<lparr>slot_vtable = Some 10, slot_ctx = Some 7\<rparr>" by (simp add: put_trace_slot_def)
  moreover have "retain_global sample_impl ?s \<noteq> None"
    using no_use_after_free [OF sample_process_inv(1) r] by (rule conjunct2 [THEN conjunct2])
  ultimately show ?thesis using r by (intro exI [of _ ?s] conjI)
qed

end
