(* ===== verification/Backed_Handles.thy ===== *)
theory Backed_Handles
  imports Global_Providers
begin

text \<open>
  What the trace and logs API share about handles that own a context of an implementation
  (\<open>api/src/trace.rs\<close>, \<open>api/src/logs.rs\<close>): a new context is requested through a vtable and moves into a
  new handle, the handle's body may change while it keeps owning the context, and destroying
  the handle gives the context back once. The locale \<open>owning_handle\<close> states the contract of
  such a handle type and proves that its destruction conserves every reference of others.
\<close>

section \<open>Requesting a context\<close>

definition acquire_opt :: "(ptr \<Rightarrow> res) \<Rightarrow> ptr \<Rightarrow> ('e, 'm) process_scheme \<Rightarrow> ('e, 'm) process_scheme" where
  "acquire_opt R p s = (case p of None \<Rightarrow> s | Some q \<Rightarrow> acquire (R (Some q)) s)"

text \<open>Ask the context \<open>r\<close> for a new context; then release \<open>r\<close> if it is only held for this call.\<close>

definition request_ctx ::
  "'e implementation \<Rightarrow> bool \<Rightarrow> res \<Rightarrow> vop \<Rightarrow> (ptr \<Rightarrow> res) \<Rightarrow> ('e, 'm) process_scheme
     \<Rightarrow> (ptr \<times> ('e, 'm) process_scheme) option" where
  "request_ctx im owned r op R s =
     (case vt_ptr im r op s of
        None \<Rightarrow> None
      | Some (p, s1) \<Rightarrow>
          map_option (\<lambda>s2. (p, s2))
            (if owned then vt_free im r (acquire_opt R p s1) else Some (acquire_opt R p s1)))"

definition free_res :: "'e implementation \<Rightarrow> res option \<Rightarrow> ('e, 'm) process_scheme \<Rightarrow> ('e, 'm) process_scheme option" where
  "free_res im r s = (case r of None \<Rightarrow> Some s | Some c \<Rightarrow> vt_free im c s)"

text \<open>The body of a destroy entry point: a live handle of the type gives its context back, then
  the handle is freed.\<close>

definition destroy_owned ::
  "'e implementation \<Rightarrow> u64 \<Rightarrow> (api_payload \<Rightarrow> 'a option) \<Rightarrow> ('a \<Rightarrow> res option) \<Rightarrow> ptr
     \<Rightarrow> ('e, 'm) process_scheme \<Rightarrow> ('e, 'm) process_scheme option" where
  "destroy_owned im K proj res_of p s =
     (case checked_as K proj p s of
        None \<Rightarrow> None
      | Some (r, s1) \<Rightarrow>
          (case free_res im (case r of None \<Rightarrow> None | Some x \<Rightarrow> res_of x) s1 of
             None \<Rightarrow> None
           | Some s2 \<Rightarrow> destroy K p s2))"

section \<open>Frame facts\<close>

text \<open>Two processes with the same slots, handles and threads; their references may differ.\<close>

definition same_frame :: "('e, 'm) process_scheme \<Rightarrow> ('e, 'm) process_scheme \<Rightarrow> bool" where
  "same_frame s s' \<longleftrightarrow> slots_same s s' \<and> objs s' = objs s \<and> next_addr s' = next_addr s \<and> tls s' = tls s"

lemma same_frame_refl [simp]: "same_frame s s"
  by (simp add: same_frame_def slots_same_def)

lemma same_frame_trans: "same_frame a b \<Longrightarrow> same_frame b c \<Longrightarrow> same_frame a c"
  by (simp add: same_frame_def slots_same_def)

lemma same_frame_api: "same_api s s' \<Longrightarrow> same_frame s s'"
  by (simp add: same_frame_def slots_same_def same_api_def)

lemma same_frame_acquire_opt: "same_frame s (acquire_opt R p s)"
  by (simp add: same_frame_def slots_same_def acquire_opt_def split: option.splits)

lemma same_frame_free: "vt_free im r s = Some s' \<Longrightarrow> same_frame s s'"
  using vt_free_SomeD [of im r s s'] by (simp add: same_frame_def slots_same_def)

lemma proc_inv_frame:
  assumes "proc_inv s" and "same_frame s s'" and "\<And>q. 0 \<le> external q s'"
  shows "proc_inv s'"
  using assms ctx_inv_frame [of s' s] by (intro proc_invI) (simp_all add: same_frame_def proc_inv_def)

lemma points_to_frame_same: "same_frame s s' \<Longrightarrow> points_to s' p b = points_to s p b"
  using points_to_cong [of s' s p b] by (simp add: same_frame_def)

lemma external_acquire_opt:
  "external q (acquire_opt R p s) = external q s + of_bool (p \<noteq> None \<and> q = R p)"
  by (simp add: acquire_opt_def external_acquire split: option.splits)

text \<open>The request is defined while the asked context has a reference, and conserves references
  up to the new one and the one given back.\<close>

lemma request_ctx_defined:
  assumes "proc_inv s" and "0 < ledger s r" and "owned \<Longrightarrow> 1 \<le> external r s"
  obtains p s' where "request_ctx im owned r op R s = Some (p, s')" "same_frame s s'" "proc_inv s'"
    "\<And>q. external q s' = external q s + of_bool (p \<noteq> None \<and> q = R p) - of_bool (owned \<and> q = r)"
    "calls s' = calls s @ [(r, op)] @ (if owned then [(r, Op_Free)] else [])"
proof -
  obtain p s1 where c: "vt_ptr im r op s = Some (p, s1)"
    using vt_call_defined [OF assms(2), of "im_ptr im" op] by (auto simp: vt_ptr_def)
  note v = vt_call_SomeD [OF c [unfolded vt_ptr_def]]
  let ?s2 = "acquire_opt R p s1"
  have fr: "same_frame s ?s2" using same_frame_trans [OF same_frame_api [OF v(1)] same_frame_acquire_opt] .
  have e: "external q ?s2 = external q s + of_bool (p \<noteq> None \<and> q = R p)" for q
    using external_same [OF v(1), of q] by (simp add: external_acquire_opt)
  have ca: "calls ?s2 = calls s @ [(r, op)]" using v(2) by (simp add: acquire_opt_def split: option.splits)
  have nn: "0 \<le> external q s" for q using proc_inv_external [OF assms(1)] .
  show ?thesis
  proof (cases owned)
    case False
    have "proc_inv ?s2" by (rule proc_inv_frame [OF assms(1) fr]) (simp add: e nn)
    then show ?thesis using that [of p ?s2] c fr e ca False by (simp add: request_ctx_def)
  next
    case True
    have "1 \<le> external r ?s2" using assms(3) [OF True] nn by (simp add: e)
    then have "0 < ledger ?s2 r" using external_ledger [of r ?s2] by simp
    then obtain s3 where f: "vt_free im r ?s2 = Some s3" using vt_free_defined by blast
    note g = vt_free_SomeD [OF f]
    have fr3: "same_frame s s3" using same_frame_trans [OF fr same_frame_free [OF f]] .
    have e3: "external q s3 = external q s + of_bool (p \<noteq> None \<and> q = R p) - of_bool (q = r)" for q
      by (simp add: g(1) e)
    have "0 \<le> external q s3" for q using assms(3) [OF True] nn [of q] by (auto simp: e3)
    then have "proc_inv s3" by (rule proc_inv_frame [OF assms(1) fr3])
    then show ?thesis using that [of p s3] c f fr3 e3 g(2) ca True by (simp add: request_ctx_def)
  qed
qed

text \<open>The new context moves into a new handle, and every reference is accounted for again.\<close>

lemma proc_inv_into_raw:
  assumes "proc_inv s" and "K = api_kind b" and "payload_ok b" and "\<And>r. owned_by b = Some r \<Longrightarrow> 1 \<le> external r s"
  shows "proc_inv (snd (into_raw K b s))"
proof (rule proc_invI)
  show "ctx_inv (snd (into_raw K b s))"
    using assms(1-3) by (intro ctx_inv_into_raw) (simp_all add: proc_inv_def)
  fix r
  show "0 \<le> external r (snd (into_raw K b s))"
    using external_into_raw [OF proc_inv_wf [OF assms(1)], of r K b] assms(4) proc_inv_external [OF assms(1), of r]
    by auto
qed

lemma into_raw_frame:
  "slots_same s (snd (into_raw K b s))" "tls (snd (into_raw K b s)) = tls s" "ledger (snd (into_raw K b s)) = ledger s"
  "calls (snd (into_raw K b s)) = calls s"
proof -
  let ?t = "s\<lparr>objs := objs (snd (into_raw K b s)), next_addr := next_addr (snd (into_raw K b s))\<rparr>"
  have "store.more (snd (into_raw K b s)) = store.more ?t" by (cases s) (simp add: into_raw_def)
  then have "same_api ?t (snd (into_raw K b s))" "calls (snd (into_raw K b s)) = calls ?t"
    by (intro same_api_more; simp)+
  then show "slots_same s (snd (into_raw K b s))" "tls (snd (into_raw K b s)) = tls s"
    "ledger (snd (into_raw K b s)) = ledger s" "calls (snd (into_raw K b s)) = calls s"
    by (simp_all add: same_api_def slots_same_def)
qed

lemma points_to_put_frame: "wf_store k s \<Longrightarrow> points_to s p b \<Longrightarrow> points_to (snd (into_raw K c s)) p b"
  by (rule points_to_into_raw_old [OF wf_store_fresh])

text \<open>A body that keeps owning the same context may be rewritten.\<close>

lemma put_more: "same_api (s\<lparr>objs := objs (put_ptr p b s)\<rparr>) (put_ptr p b s)" "calls (put_ptr p b s) = calls s"
proof -
  let ?t = "s\<lparr>objs := objs (put_ptr p b s)\<rparr>"
  have "store.more (put_ptr p b s) = store.more ?t" by (cases s) simp
  then have "same_api ?t (put_ptr p b s)" "calls (put_ptr p b s) = calls ?t"
    by (intro same_api_more; simp)+
  then show "same_api ?t (put_ptr p b s)" "calls (put_ptr p b s) = calls s" by simp_all
qed

lemma proc_inv_put:
  assumes "proc_inv s" and "points_to s p b0" and "api_kind b0 = api_kind b" and "owned_by b = owned_by b0"
    and "payload_ok b"
  shows "proc_inv (put_ptr p b s)" and "external q (put_ptr p b s) = external q s"
proof -
  note m = put_more(1) [of p b s]
  show e: "external q (put_ptr p b s) = external q s" for q
    using m handle_refs_put [OF assms(2,4), of q] by (simp add: external_def slot_refs_def same_api_def)
  have "api_inv (put_ptr p b s)"
    by (rule api_inv_put [OF _ assms(2)]) (use assms in \<open>simp_all add: proc_inv_def ctx_inv_api\<close>)
  then have "ctx_inv (put_ptr p b s)"
    using assms(1) m by (simp add: proc_inv_def ctx_inv_def same_api_def)
  then show "proc_inv (put_ptr p b s)" using proc_inv_external [OF assms(1)] e by (intro proc_invI) simp_all
qed

section \<open>Conservation\<close>

text \<open>The no-op span is a static: no operation writes or frees it.\<close>

definition noop_static :: "(api_payload, 'm) store_scheme \<Rightarrow> bool" where
  "noop_static s \<longleftrightarrow> objs s 0 = Some \<lparr>header = header_new KIND_SPAN, body = P_Span noop_span\<rparr>"

text \<open>What every operation of the API guarantees: the invariant, the references of others, and the
  static no-op span.\<close>

definition conserved :: "('e, 'm) process_scheme \<Rightarrow> ('e, 'm) process_scheme \<Rightarrow> bool" where
  "conserved s s' \<longleftrightarrow> proc_inv s' \<and> (\<forall>q. external q s' = external q s) \<and> (noop_static s \<longrightarrow> noop_static s')"

lemma conservedI:
  "proc_inv s' \<Longrightarrow> (\<And>q. external q s' = external q s) \<Longrightarrow> (noop_static s \<Longrightarrow> noop_static s') \<Longrightarrow> conserved s s'"
  by (simp add: conserved_def)

lemma conserved_refl: "proc_inv s \<Longrightarrow> conserved s s"
  by (simp add: conserved_def)

lemma conserved_trans: "conserved a b \<Longrightarrow> conserved b c \<Longrightarrow> conserved a c"
  by (simp add: conserved_def)

lemma noop_static_cong: "objs s' = objs s \<Longrightarrow> noop_static s' = noop_static s"
  by (simp add: noop_static_def)

lemma conserved_same: "proc_inv s \<Longrightarrow> same_api s s' \<Longrightarrow> conserved s s'"
  using proc_inv_same [of s s'] external_same [of s s'] noop_static_cong [of s' s]
  by (auto simp: conserved_def same_api_def)

lemma conserved_error [simp]:
  "proc_inv s \<Longrightarrow> conserved s (clear_last_error s)" "proc_inv s \<Longrightarrow> conserved s (set_error_text m s)"
  "proc_inv s \<Longrightarrow> conserved s (snd (fail st m s))"
  by (rule conserved_same; simp)+

lemma conserved_inv: "conserved s s' \<Longrightarrow> proc_inv s'"
  by (simp add: conserved_def)

text \<open>A requested context is adopted by a new handle; a handle without a context is neutral.\<close>

lemma conserved_adopt:
  assumes "proc_inv s1" and "same_frame s s1" and "\<And>q. external q s1 = external q s + of_bool (owned_by b = Some q)"
    and "K = api_kind b" and "payload_ok b" and "proc_inv s"
  shows "conserved s (snd (into_raw K b s1))" and "points_to (snd (into_raw K b s1)) (fst (into_raw K b s1)) b"
    and "slots_same s (snd (into_raw K b s1))"
proof -
  have "1 \<le> external r s1" if "owned_by b = Some r" for r
    using assms(3) [of r] proc_inv_external [OF assms(6), of r] that by simp
  then have "proc_inv (snd (into_raw K b s1))" by (rule proc_inv_into_raw [OF assms(1,4,5)])
  moreover have "external q (snd (into_raw K b s1)) = external q s" for q
    using external_into_raw [OF proc_inv_wf [OF assms(1)], of q K b] assms(3) [of q] by simp
  moreover have "noop_static s \<longrightarrow> noop_static (snd (into_raw K b s1))"
    using wf_store_fresh [OF proc_inv_wf [OF assms(1)]] assms(2) by (auto simp: noop_static_def same_frame_def)
  ultimately show "conserved s (snd (into_raw K b s1))" by (simp add: conserved_def)
  show "points_to (snd (into_raw K b s1)) (fst (into_raw K b s1)) b" by (simp add: points_to_def)
  show "slots_same s (snd (into_raw K b s1))"
    using assms(2) into_raw_frame(1) [of s1 K b] by (simp add: same_frame_def slots_same_def)
qed

lemma adopt:
  assumes "into_raw K b s1 = (p, s2)"
    and "proc_inv s1" and "same_frame s s1" and "\<And>q. external q s1 = external q s + of_bool (owned_by b = Some q)"
    and "K = api_kind b" and "payload_ok b" and "proc_inv s"
  shows "conserved s s2" and "points_to s2 p b" and "slots_same s s2" and "calls s2 = calls s1"
    and "p = Some (next_addr s1)"
  using conserved_adopt [OF assms(2-7)] into_raw_frame(4) [of K b s1] into_raw_simps(1) [of K b s1]
  by (simp_all add: assms(1))

lemma new_handle:
  assumes "into_raw K b s = (p, s2)" and "proc_inv s" and "owned_by b = None" and "K = api_kind b" and "payload_ok b"
  shows "conserved s s2" and "points_to s2 p b" and "slots_same s s2" and "calls s2 = calls s"
    and "p = Some (next_addr s)"
  using adopt [OF assms(1,2) same_frame_refl _ assms(4,5,2)] assms(3) by simp_all

text \<open>A result that is defined and conserves; the shape in which every start is stated.\<close>

definition conserving :: "('e, 'm) process_scheme \<Rightarrow> ('v \<times> ('e, 'm) process_scheme) option \<Rightarrow> bool" where
  "conserving s r \<longleftrightarrow> (\<exists>v s'. r = Some (v, s') \<and> conserved s s' \<and> slots_same s s')"

lemma conservingI: "conserved s s' \<Longrightarrow> slots_same s s' \<Longrightarrow> conserving s (Some (v, s'))"
  by (auto simp: conserving_def)

lemma conserving_same: "proc_inv s \<Longrightarrow> same_api s s' \<Longrightarrow> conserving s (Some (v, s'))"
  by (intro conservingI conserved_same slots_same_api)

lemma conserving_trans: "conserved a b \<Longrightarrow> slots_same a b \<Longrightarrow> conserving b r \<Longrightarrow> conserving a r"
  by (auto simp: conserving_def slots_same_def elim: conserved_trans)

section \<open>Giving a reference back\<close>

text \<open>A reference that was taken after \<open>s0\<close> and is not needed.\<close>

lemma give_back:
  assumes inv: "proc_inv s0" and fr: "same_frame s0 s" and ext: "\<And>q. external q s = external q s0 + of_bool (q = r)"
  obtains s' where "vt_free im r s = Some s'" "conserved s0 s'" "slots_same s0 s'" "calls s' = calls s @ [(r, Op_Free)]"
proof -
  have nn: "0 \<le> external q s0" for q using proc_inv_external [OF inv] .
  have "0 < ledger s r" using external_ledger [of r s] ext [of r] nn [of r] by simp
  then obtain s' where f: "vt_free im r s = Some s'" using vt_free_defined by blast
  note g = vt_free_SomeD [OF f]
  have fr': "same_frame s0 s'" using same_frame_trans [OF fr same_frame_free [OF f]] .
  have e: "external q s' = external q s0" for q by (simp add: g(1) ext)
  have "proc_inv s'" by (rule proc_inv_frame [OF inv fr']) (simp add: e nn)
  then have "conserved s0 s'"
    using e fr' noop_static_cong [of s' s0] by (intro conservedI) (simp_all add: same_frame_def)
  with that [of s'] f fr' g(2) show ?thesis by (simp add: same_frame_def)
qed

section \<open>Opening a handle\<close>

text \<open>The common body of every entry point that creates a handle behind a vtable: the requested context
  moves into a new handle; without one the result is NULL, with a diagnostic of \<open>failed\<close>.\<close>

definition open_handle ::
  "'e implementation \<Rightarrow> bool \<Rightarrow> res \<Rightarrow> vop \<Rightarrow> (ptr \<Rightarrow> res) \<Rightarrow> u64 \<Rightarrow> (ptr \<Rightarrow> api_payload)
     \<Rightarrow> (('e, 'm) process_scheme \<Rightarrow> ('e, 'm) process_scheme) \<Rightarrow> ('e, 'm) process_scheme
     \<Rightarrow> (ptr \<times> ('e, 'm) process_scheme) option" where
  "open_handle im owned r op R K mk failed s =
     (case request_ctx im owned r op R s of
        None \<Rightarrow> None
      | Some (None, s1) \<Rightarrow> Some (None, failed s1)
      | Some (Some c, s1) \<Rightarrow> Some (into_raw K (mk (Some c)) s1))"

text \<open>\<open>s0\<close> is the state before the reference that an owned request gives back was taken.\<close>

lemma open_handle_facts:
  assumes inv: "proc_inv s0" "proc_inv s" and fr: "same_frame s0 s" and "0 < ledger s r"
    and ext: "\<And>q. external q s = external q s0 + of_bool (owned \<and> q = r)"
    and mk: "\<And>c. owned_by (mk (Some c)) = Some (R (Some c))" "\<And>c. api_kind (mk (Some c)) = K" "\<And>c. payload_ok (mk (Some c))"
    and failed: "\<And>u. same_api u (failed u)" "\<And>u. calls (failed u) = calls u" "\<And>u. bad (failed u)"
  obtains p s' where "open_handle im owned r op R K mk failed s = Some (p, s')" "conserved s0 s'" "slots_same s0 s'"
    "calls s' = calls s @ [(r, op)] @ (if owned then [(r, Op_Free)] else [])"
    "p = None \<or> (\<exists>c. points_to s' p (mk (Some c)))" "p = None \<longrightarrow> bad s'"
proof -
  have own: "1 \<le> external r s" if owned
    using ext [of r] proc_inv_external [OF inv(1), of r] that by simp
  obtain p s1 where r: "request_ctx im owned r op R s = Some (p, s1)" "same_frame s s1" "proc_inv s1"
      "\<And>q. external q s1 = external q s + of_bool (p \<noteq> None \<and> q = R p) - of_bool (owned \<and> q = r)"
      "calls s1 = calls s @ [(r, op)] @ (if owned then [(r, Op_Free)] else [])"
    by (rule request_ctx_defined [OF inv(2) assms(4), of owned im op R]) (erule own, rule that)
  have e: "external q s1 = external q s0 + of_bool (p \<noteq> None \<and> q = R p)" for q
    using r(4) ext by simp
  have f: "same_frame s0 s1" using same_frame_trans [OF fr r(2)] .
  show ?thesis
  proof (cases p)
    case None
    have "conserved s0 s1"
      using r(3) e None f noop_static_cong [of s1 s0] by (intro conservedI) (simp_all add: same_frame_def)
    moreover have "conserved s1 (failed s1)" by (rule conserved_same [OF r(3) failed(1)])
    ultimately have "conserved s0 (failed s1)" by (rule conserved_trans)
    moreover have "slots_same s0 (failed s1)"
      using f slots_same_api [OF failed(1), of s1] by (simp add: same_frame_def slots_same_def)
    ultimately show ?thesis using that [of None "failed s1"] None r(1,5) failed(2,3) by (simp add: open_handle_def)
  next
    case (Some c)
    let ?b = "mk (Some c)"
    have ex: "external q s1 = external q s0 + of_bool (owned_by ?b = Some q)" for q using e [of q] Some by (auto simp: mk)
    have kp: "K = api_kind ?b" "payload_ok ?b" by (simp_all add: mk)
    obtain q s2 where q: "into_raw K ?b s1 = (q, s2)" by fastforce
    note a = adopt [OF q r(3) f ex kp inv(1)]
    show ?thesis
      by (rule that [of q s2]) (use a r(1,5) Some in \<open>auto simp: open_handle_def q\<close>)
  qed
qed

section \<open>Reaching an implementation through a global slot\<close>

text \<open>The body of a get entry point on a global provider handle: the slot's provider is retained for
  the call and asked; without one the result is a handle that nothing backs.\<close>

definition via_global ::
  "'e implementation \<Rightarrow> (addr \<Rightarrow> ptr \<Rightarrow> res) \<Rightarrow> string \<Rightarrow> ptr \<Rightarrow> ptr
     \<Rightarrow> (('e, 'm) process_scheme \<Rightarrow> ptr \<times> ('e, 'm) process_scheme)
     \<Rightarrow> (addr \<Rightarrow> ptr \<Rightarrow> ('e, 'm) process_scheme \<Rightarrow> (ptr \<times> ('e, 'm) process_scheme) option)
     \<Rightarrow> ('e, 'm) process_scheme \<Rightarrow> (ptr \<times> ('e, 'm) process_scheme) option" where
  "via_global im R msg vtable ctx unbacked ask s =
     (case retain_slot im R msg vtable ctx s of
        None \<Rightarrow> None
      | Some (NoProvider, s1) \<Rightarrow> Some (unbacked s1)
      | Some (RetainFailed, s1) \<Rightarrow> Some (None, s1)
      | Some (Retained vt c, s1) \<Rightarrow> ask vt c s1)"

context global_slot begin

lemma via_global_facts:
  assumes inv: "proc_inv s"
    and ask: "\<And>vt c s1. proc_inv s1 \<Longrightarrow> same_frame s s1 \<Longrightarrow> 0 < ledger s1 (R vt c) \<Longrightarrow>
      (\<And>q. external q s1 = external q s + of_bool (q = R vt c)) \<Longrightarrow>
      \<exists>p s'. ask vt c s1 = Some (p, s') \<and> conserved s s' \<and> slots_same s s' \<and> calls s' = calls s1 @ extra vt c \<and> good vt p s'"
  obtains (Unbacked) "via_global im R msg (vt_of s) (ctx_of s) unbacked ask s = Some (unbacked s)" "vt_of s = None"
    | (Refused) s' where "via_global im R msg (vt_of s) (ctx_of s) unbacked ask s = Some (None, s')"
        "conserved s s'" "slots_same s s'" "vt_of s \<noteq> None" "has_last_error s'"
    | (Asked) vt c p s' where "via_global im R msg (vt_of s) (ctx_of s) unbacked ask s = Some (p, s')"
        "conserved s s'" "slots_same s s'" "vt_of s = Some vt" "good vt p s'"
        "calls s' = calls s @ [(R vt (ctx_of s), Op_Retain)] @ extra vt c"
proof -
  show thesis
  proof (rule retain [OF inv, of im msg], goal_cases)
    case 1
    show ?case by (rule Unbacked) (use 1 in \<open>simp_all add: via_global_def retain_slot_def\<close>)
  next
    case (2 s1)
    have "vt_of s \<noteq> None" using 2(1) by (cases "vt_of s") (simp_all add: retain_slot_def)
    then show ?case
      using Refused [of s1] 2 conserved_same [OF inv 2(2)] slots_same_api [OF 2(2)] by (simp add: via_global_def)
  next
    case (3 vt c s1)
    have fr: "same_frame s s1" using 3(4-7) by (simp add: same_frame_def)
    have "0 < ledger s1 (R vt c)"
      using external_ledger [of "R vt c" s1] 3(8) [of "R vt c"] proc_inv_external [OF inv, of "R vt c"] by simp
    from ask [OF 3(3) fr this 3(8)] obtain p s' where "ask vt c s1 = Some (p, s')" "conserved s s'" "slots_same s s'"
        "calls s' = calls s1 @ extra vt c" "good vt p s'" by blast
    then show ?case using Asked [of p s' vt c] 3(1,2,9) by (simp add: via_global_def)
  qed
qed

end

section \<open>Attaching and reading contexts\<close>

text \<open>The context operations touch no slot, no reference and no implementation.\<close>

lemma ctx_more_frame:
  "ctx_store.more (put_stack t st s) = ctx_store.more s" "ctx_store.more (clear_last_error s) = ctx_store.more s"
  "ctx_store.more (set_error_text m s) = ctx_store.more s"
  by (simp_all add: put_stack_def) (rule ctx_more_eq; simp)+

lemma try_stack_more: "try_stack t s = (r, s1) \<Longrightarrow> ctx_store.more s1 = ctx_store.more s"
  by (auto simp: try_stack_def context_stack_new_def Let_def split: tls_slot.splits)

lemma attach_more:
  assumes "otel_context_attach t p scope s = Some (st, out, s')"
  shows "ctx_store.more s' = ctx_store.more s"
proof -
  have chk: "ctx_store.more s1 = ctx_store.more s" if "checked_as KIND_CONTEXT as_context p (clear_last_error s) = Some (r, s1)" for r s1
    using checked_as_frame [OF that] ctx_more_eq(3) [of s1 "clear_last_error s"] by (simp add: ctx_more_frame)
  have stk: "ctx_store.more s2 = ctx_store.more s"
    if "try_stack t s1 = (k, s2)" "checked_as KIND_CONTEXT as_context p (clear_last_error s) = Some (r, s1)" for r s1 k s2
    using try_stack_more [OF that(1)] chk [OF that(2)] by simp
  show ?thesis
    using assms unfolding otel_context_attach_def Let_def fail_out_def
    by (simp add: ctx_more_frame split: option.splits if_splits prod.splits)
      (clarsimp simp: ctx_more_frame dest!: try_stack_more chk)+
qed

lemma attach_conserved:
  assumes "proc_inv s" and "otel_context_attach th p scope s = Some (st, out, s')"
  shows "conserved s s'" and "slots_same s s'" and "objs s' = objs s" and "calls s' = calls s"
proof -
  note f = process_more_eq [OF attach_more [OF assms(2)]]
  have o: "objs s' = objs s" using proc_inv_ctx [OF assms(1)] assms(2) by (cases rule: attach_cases) simp_all
  have "handle_refs q s' = handle_refs q s" for q using handle_refs_cong [OF o] .
  then have e: "external q s' = external q s" for q using f by (simp add: external_def slot_refs_def)
  have "ctx_inv s'" using attach_inv [OF proc_inv_ctx [OF assms(1)] assms(2)] .
  then show "conserved s s'"
    using e proc_inv_external [OF assms(1)] noop_static_cong [OF o] by (auto simp: conserved_def intro: proc_invI)
  show "slots_same s s'" "objs s' = objs s" "calls s' = calls s" using f o by (simp_all add: slots_same_def)
qed

lemma current_data_conserved:
  assumes inv: "proc_inv s" and c: "current_data t s = (d, s')"
  shows "conserved s s'" and "slots_same s s'" and "calls s' = calls s" and "ledger s' = ledger s"
proof -
  note f = current_data_facts [OF proc_inv_ctx [OF inv] c]
  show sl: "slots_same s s'" "calls s' = calls s" "ledger s' = ledger s"
    using c by (auto simp: current_data_def try_stack_def context_stack_new_def slots_same_def Let_def
        split: tls_slot.splits)
  have "handle_refs q s' = handle_refs q s" for q using handle_refs_cong [OF f(3)] .
  then have e: "external q s' = external q s" for q
    using sl by (simp add: external_def slot_refs_def slots_same_def)
  then show "conserved s s'"
    using f(1) proc_inv_external [OF inv] noop_static_cong [OF f(3)] by (auto simp: conserved_def intro: proc_invI)
qed

lemma attach_last:
  assumes "proc_inv s" and "otel_context_attach th p (Some sc) s = Some (St_Ok, scope, s')" and "points_to s p (P_Context d)"
  shows "attached th s' \<noteq> []" and "en_context (last (attached th s')) = d"
proof -
  have "attached th s' \<noteq> [] \<and> en_context (last (attached th s')) = d"
    using proc_inv_ctx [OF assms(1)] assms(2) points_to_unique [OF assms(3)]
    by (cases rule: attach_cases) (force simp: attached_def)+
  then show "attached th s' \<noteq> []" "en_context (last (attached th s')) = d" by simp_all
qed

section \<open>Handles that own a context\<close>

locale owning_handle = handle_type api_kind K mk proj
  for K and mk :: "'a \<Rightarrow> api_payload" and proj +
  fixes res_of :: "'a \<Rightarrow> res option"
  assumes owned_mk: "owned_by (mk x) = res_of x"
begin

lemma live_reference: "proc_inv s \<Longrightarrow> points_to s p (mk x) \<Longrightarrow> res_of x = Some r \<Longrightarrow> 0 < ledger s r"
  by (rule owner_has_reference [of s p "mk x" r]) (auto simp: owned_mk)

lemma destroy_live:
  assumes inv: "proc_inv s" and p: "points_to s p (mk x)"
  obtains s' where "destroy_owned im K proj res_of p s = Some s'" "proc_inv s'"
    "objs s' = (objs s)(the p := None)" "slots_same s s'" "tls s' = tls s"
    "\<And>q. external q s' = external q s"
    "calls s' = calls s @ (case res_of x of None \<Rightarrow> [] | Some r \<Rightarrow> [(r, Op_Free)])"
proof -
  obtain a h where a: "p = Some a" "objs s a = Some h" "body h = mk x"
    using p by (auto simp: points_to_def split: option.splits)
  have chk: "checked_as K proj p s = Some (Some x, s)" by (rule checked_as_points_to [OF proc_inv_wf [OF inv] p])
  have "\<exists>s1. free_res im (res_of x) s = Some s1"
    using vt_free_defined live_reference [OF inv p] by (auto simp: free_res_def split: option.splits)
  then obtain s1 where f: "free_res im (res_of x) s = Some s1" ..
  have fr: "same_frame s s1" and e1: "\<And>q. external q s1 = external q s - of_bool (res_of x = Some q)"
    and c1: "calls s1 = calls s @ (case res_of x of None \<Rightarrow> [] | Some r \<Rightarrow> [(r, Op_Free)])"
    using f same_frame_free vt_free_SomeD(1,2) by (fastforce simp: free_res_def split: option.splits)+
  let ?s2 = "s1\<lparr>objs := (objs s1)(a := None)\<rparr>"
  have o1: "objs s1 = objs s" using fr by (simp add: same_frame_def)
  have "wf_api s1" using proc_inv_wf [OF inv] wf_store_cong [of s1 s api_kind] fr by (simp add: same_frame_def)
  moreover have "points_to s1 (Some a) (mk x)" using p a points_to_frame_same [OF fr] by simp
  ultimately have d: "destroy K p s1 = Some ?s2" unfolding a(1) by (rule destroy_points_to)
  have run: "destroy_owned im K proj res_of p s = Some ?s2" by (simp add: destroy_owned_def chk f d)
  have "handle_refs q s1 = handle_refs q ?s2 + of_bool (res_of x = Some q)" for q
    using handle_refs_remove [OF \<open>wf_api s1\<close>, of a h q] a(2,3) owned_mk [of x] o1 by simp
  then have ext: "external q ?s2 = external q s" for q
    using e1 [of q] by (simp add: external_def slot_refs_def)
  have "ctx_inv s1" using inv ctx_inv_frame [of s1 s] fr by (simp add: proc_inv_def same_frame_def)
  then have "ctx_inv ?s2" by (rule ctx_inv_destroy [OF _ d])
  then have "proc_inv ?s2" using proc_inv_external [OF inv] ext by (intro proc_invI) simp_all
  then show ?thesis
    using that [of ?s2] run ext c1 fr o1 a(1) by (simp add: same_frame_def slots_same_def)
qed

lemma destroy_other:
  assumes inv: "proc_inv s" and "valid_ptr s p" and "\<And>x. \<not> points_to s p (mk x)"
  obtains s' where "destroy_owned im K proj res_of p s = Some s'" "same_api s s'" "calls s' = calls s"
    "has_last_error s'"
proof -
  obtain s1 where c: "checked_as K proj p s = Some (None, s1)" "has_last_error s1"
    by (rule checked_as_defined [OF proc_inv_wf [OF inv] assms(2)]) (use assms(3) in auto)
  have sa: "same_api s s1" "calls s1 = calls s" using same_api_checked [OF c(1)] calls_checked [OF c(1)] by auto
  have "destroy K p s1 = Some s1"
  proof (cases p)
    case None
    then show ?thesis by (simp add: destroy_def)
  next
    case (Some a)
    then obtain h where h: "objs s a = Some h" using assms(2) by (auto simp: valid_ptr_def)
    have "api_kind (body h) \<noteq> K"
      using kind_exhaust [of "body h"] assms(3) h Some by (auto simp: points_to_def)
    then show ?thesis
      using h Some sa(1) proc_inv_wf [OF inv] by (auto simp: destroy_def wf_store_def same_api_def)
  qed
  with c have "destroy_owned im K proj res_of p s = Some s1" by (simp add: destroy_owned_def free_res_def)
  with that [of s1] sa c(2) show ?thesis by blast
qed

lemma destroy_conserved:
  assumes inv: "proc_inv s" and p: "points_to s p (mk x)" and "p \<noteq> Some 0 \<or> K \<noteq> KIND_SPAN"
  obtains s' where "destroy_owned im K proj res_of p s = Some s'" "conserved s s'"
    "objs s' = (objs s)(the p := None)"
    "calls s' = calls s @ (case res_of x of None \<Rightarrow> [] | Some r \<Rightarrow> [(r, Op_Free)])"
proof (rule destroy_live [OF inv p, of im])
  fix s' assume d: "destroy_owned im K proj res_of p s = Some s'" "proc_inv s'"
    "objs s' = (objs s)(the p := None)" "\<And>q. external q s' = external q s"
    "calls s' = calls s @ (case res_of x of None \<Rightarrow> [] | Some r \<Rightarrow> [(r, Op_Free)])"
  have "the p \<noteq> 0" if n: "noop_static s"
  proof
    assume "the p = 0"
    then have p0: "p = Some 0" using p by (cases p) (auto simp: points_to_def)
    then have "mk x = P_Span noop_span" using n p by (simp add: noop_static_def points_to_def)
    then have "K = KIND_SPAN" using kind_mk [of x] by simp
    with p0 assms(3) show False by simp
  qed
  then have "conserved s s'" using d(2-4) by (intro conservedI) (auto simp: noop_static_def)
  with d that show thesis by blast
qed

lemma destroy_safe:
  assumes "proc_inv s" and "valid_ptr s p" and "p \<noteq> Some 0 \<or> K \<noteq> KIND_SPAN"
  obtains s' where "destroy_owned im K proj res_of p s = Some s'" "conserved s s'"
proof (cases "\<exists>x. points_to s p (mk x)")
  case True
  then obtain x where "points_to s p (mk x)" ..
  then show ?thesis by (rule destroy_conserved [OF assms(1) _ assms(3), of x im]) (rule that)
next
  case False
  then obtain s' where "destroy_owned im K proj res_of p s = Some s'" "same_api s s'"
    by (metis destroy_other [OF assms(1,2), of im])
  with that conserved_same [OF assms(1)] show ?thesis by blast
qed

end

section \<open>A process with given handles\<close>

text \<open>Adds one handle for each body, at consecutive addresses.\<close>

fun with_handles :: "api_payload list \<Rightarrow> ('e, 'm) process_scheme \<Rightarrow> ('e, 'm) process_scheme" where
  "with_handles [] s = s"
| "with_handles (b # bs) s = with_handles bs (snd (into_raw (api_kind b) b s))"

lemma with_handles_frame:
  "calls (with_handles bs s) = calls s" "tls (with_handles bs s) = tls s" "slots_same s (with_handles bs s)"
proof (induction bs arbitrary: s)
  case (Cons b bs)
  { case 1 then show ?case using Cons(1) into_raw_frame(4) by simp }
  { case 2 then show ?case using Cons(2) into_raw_frame(2) by simp }
  { case 3 then show ?case using Cons(3) [of "snd (into_raw (api_kind b) b s)"] into_raw_frame(1) [of s "api_kind b" b]
      by (simp add: slots_same_def) }
qed (simp_all add: slots_same_def)

lemma with_handles_old:
  "wf_api s \<Longrightarrow> points_to s p b \<Longrightarrow> points_to (with_handles bs s) p b"
proof (induction bs arbitrary: s)
  case (Cons c bs)
  then show ?case
    using wf_store_into_raw [OF Cons.prems(1), of "api_kind c" c] points_to_put_frame [OF Cons.prems] by simp
qed simp

lemma with_handles_inv:
  assumes "proc_inv s" and "\<forall>b \<in> set bs. payload_ok b"
    and "\<And>q. int (count_list (map owned_by bs) (Some q)) \<le> external q s"
  shows "proc_inv (with_handles bs s)"
  using assms
proof (induction bs arbitrary: s)
  case (Cons b bs)
  let ?s1 = "snd (into_raw (api_kind b) b s)"
  have e: "external q ?s1 = external q s - of_bool (owned_by b = Some q)" for q
    by (rule external_into_raw [OF proc_inv_wf [OF Cons.prems(1)]])
  have "1 \<le> external r s" if "owned_by b = Some r" for r using Cons.prems(3) [of r] that by simp
  then have i: "proc_inv ?s1" using Cons.prems(1,2) by (intro proc_inv_into_raw) simp_all
  have le: "int (count_list (map owned_by bs) (Some q)) \<le> external q ?s1" for q
    using Cons.prems(3) [of q] by (simp add: e split: if_splits)
  show ?case using Cons.IH [OF i _ le] Cons.prems(2) by simp
qed simp

lemma with_handles_nth:
  assumes "wf_api s" and "i < length bs"
  shows "points_to (with_handles bs s) (Some (next_addr s + i)) (bs ! i)"
  using assms
proof (induction bs arbitrary: s i)
  case (Cons b bs)
  let ?s1 = "snd (into_raw (api_kind b) b s)"
  have wf: "wf_api ?s1" using wf_store_into_raw [OF Cons.prems(1), of "api_kind b" b] by simp
  show ?case
  proof (cases i)
    case 0
    have "points_to ?s1 (Some (next_addr s)) b" by (simp add: points_to_def)
    with 0 with_handles_old [OF wf] show ?thesis by simp
  next
    case (Suc j)
    with Cons.IH [OF wf, of j] Cons.prems(2) show ?thesis by simp
  qed
qed simp

lemma with_handles_at:
  "wf_api s \<Longrightarrow> next_addr s \<le> a \<Longrightarrow> a < next_addr s + length bs \<Longrightarrow>
     points_to (with_handles bs s) (Some a) (bs ! (a - next_addr s))"
  using with_handles_nth [of s "a - next_addr s" bs] by simp

end
