(* ===== verification/Trace_Api.thy ===== *)
theory Trace_Api
  imports Backed_Handles
begin

text \<open>
  Tracer providers, tracers and spans (\<open>api/src/trace.rs\<close>). Every operation checks its handles and
  then either dispatches through the vtable of the handle or, on a NULL vtable, does nothing.
  A tracer or span owns one context of its implementation; the ledger of \<open>Global_Providers\<close>
  accounts for it from the request to the destruction of the handle.
\<close>

section \<open>Options\<close>

record otel_span_start_options =
  sso_kind :: u32
  sso_parent :: ptr

record otel_span_link =
  lk_context :: ptr
  lk_attributes :: "otel_key_value list option"
  lk_attribute_count :: usize

text \<open>The versioned descriptor. The caller vouches for the fields that \<open>sx_struct_size\<close> covers; the
  others are whatever lies behind a shorter struct.\<close>

record otel_span_start_options_ex =
  sx_struct_size :: usize
  sx_kind :: u32
  sx_reserved :: u32
  sx_parent :: ptr
  sx_parent_context :: ptr
  sx_start_time_unix_nanos :: u64
  sx_attributes :: "otel_key_value list option"
  sx_attribute_count :: usize
  sx_links :: "otel_span_link list option"
  sx_link_count :: usize
  sx_parent_mode :: u32
  sx_reserved2 :: u32

definition OTEL_SPAN_START_OPTIONS_EX_REQUIRED_SIZE :: usize where "OTEL_SPAN_START_OPTIONS_EX_REQUIRED_SIZE = 40"
definition SPAN_START_OPTIONS_EX_LINKS_OFFSET :: usize where "SPAN_START_OPTIONS_EX_LINKS_OFFSET = 56"
definition OTEL_SPAN_START_OPTIONS_EX_V1_SIZE :: usize where "OTEL_SPAN_START_OPTIONS_EX_V1_SIZE = 72"
definition SPAN_START_OPTIONS_EX_SIZE :: usize where "SPAN_START_OPTIONS_EX_SIZE = 80"
definition OTEL_PARENT_EXPLICIT :: u32 where "OTEL_PARENT_EXPLICIT = 0"
definition OTEL_PARENT_AMBIENT :: u32 where "OTEL_PARENT_AMBIENT = 1"
definition OTEL_PARENT_ROOT :: u32 where "OTEL_PARENT_ROOT = 2"
definition OTEL_SPAN_START_MAX_LINKS :: nat where "OTEL_SPAN_START_MAX_LINKS = 2 ^ 16"
definition OTEL_CONTEXT_VIEW_SIZE :: usize where "OTEL_CONTEXT_VIEW_SIZE = 24"

lemmas span_options_defs = OTEL_SPAN_START_OPTIONS_EX_REQUIRED_SIZE_def SPAN_START_OPTIONS_EX_LINKS_OFFSET_def
  OTEL_SPAN_START_OPTIONS_EX_V1_SIZE_def SPAN_START_OPTIONS_EX_SIZE_def OTEL_PARENT_EXPLICIT_def
  OTEL_PARENT_AMBIENT_def OTEL_PARENT_ROOT_def OTEL_SPAN_START_MAX_LINKS_def

section \<open>Handles\<close>

definition new_tracer :: "ptr \<Rightarrow> ptr \<Rightarrow> ('e, 'm) process_scheme \<Rightarrow> ptr \<times> ('e, 'm) process_scheme" where
  "new_tracer vtable ctx s = into_raw KIND_TRACER (P_Tracer \<lparr>bk_vtable = vtable, bk_ctx = ctx\<rparr>) s"

definition new_span :: "ptr \<Rightarrow> ptr \<Rightarrow> ('e, 'm) process_scheme \<Rightarrow> ptr \<times> ('e, 'm) process_scheme" where
  "new_span vtable ctx s =
     (if vtable = None then (noop_span_ptr, s)
      else into_raw KIND_SPAN (P_Span \<lparr>bk_vtable = vtable, bk_ctx = ctx, sp_ended = False\<rparr>) s)"

definition vtable_has_span_context :: "'e implementation \<Rightarrow> ptr \<Rightarrow> bool" where
  "vtable_has_span_context im vt = trace_vtable_supports_span_context (map_option (im_header im) vt)"

definition vtable_has_span_start_ex :: "'e implementation \<Rightarrow> ptr \<Rightarrow> bool" where
  "vtable_has_span_start_ex im vt = trace_vtable_supports_span_start_ex (map_option (im_header im) vt)"

definition vtable_has_context :: "'e implementation \<Rightarrow> ptr \<Rightarrow> bool" where
  "vtable_has_context im vt = trace_vtable_supports_context (map_option (im_header im) vt)"

definition otel_tracer_supports_context ::
  "'e implementation \<Rightarrow> ptr \<Rightarrow> ('e, 'm) process_scheme \<Rightarrow> (u32 \<times> ('e, 'm) process_scheme) option" where
  "otel_tracer_supports_context im tracer s =
     (case checked_as KIND_TRACER as_tracer tracer s of
        None \<Rightarrow> None
      | Some (None, s1) \<Rightarrow> Some (0, s1)
      | Some (Some t, s1) \<Rightarrow>
          Some (if bk_vtable t \<noteq> None \<and> vtable_has_context im (bk_vtable t) then 1 else 0, s1))"

section \<open>Providers\<close>

text \<open>The part of \<open>otel_tracer_provider_get_tracer\<close> after the provider is resolved.\<close>

definition get_tracer_from ::
  "'e implementation \<Rightarrow> ptr \<Rightarrow> ptr \<Rightarrow> bool \<Rightarrow> otel_string_view \<Rightarrow> otel_string_view \<Rightarrow> otel_string_view
     \<Rightarrow> ('e, 'm) process_scheme \<Rightarrow> (ptr \<times> ('e, 'm) process_scheme) option" where
  "get_tracer_from im vtable ctx owned name version schema_url s =
     (case vtable of
        None \<Rightarrow> Some (new_tracer None None s)
      | Some vt \<Rightarrow>
          (case request_ctx im owned (R_TraceProvider vt ctx) (Op_GetTracer name version schema_url) (R_Tracer vt) s of
             None \<Rightarrow> None
           | Some (None, s1) \<Rightarrow> Some (None, s1)
           | Some (Some c, s1) \<Rightarrow> Some (new_tracer (Some vt) (Some c) s1)))"

definition otel_tracer_provider_get_tracer ::
  "'e implementation \<Rightarrow> ptr \<Rightarrow> otel_string_view \<Rightarrow> otel_string_view \<Rightarrow> otel_string_view
     \<Rightarrow> ('e, 'm) process_scheme \<Rightarrow> (ptr \<times> ('e, 'm) process_scheme) option" where
  "otel_tracer_provider_get_tracer im provider name version schema_url s =
     (case checked_as KIND_TRACER_PROVIDER as_tracer_provider provider (clear_last_error s) of
        None \<Rightarrow> None
      | Some (None, s1) \<Rightarrow> Some (None, s1)
      | Some (Some (PI_Backed vtable ctx), s1) \<Rightarrow> get_tracer_from im vtable ctx False name version schema_url s1
      | Some (Some PI_Global, s1) \<Rightarrow>
          (case retain_global im s1 of
             None \<Rightarrow> None
           | Some (NoProvider, s2) \<Rightarrow> Some (new_tracer None None s2)
           | Some (RetainFailed, s2) \<Rightarrow> Some (None, s2)
           | Some (Retained vt ctx, s2) \<Rightarrow> get_tracer_from im (Some vt) ctx True name version schema_url s2))"

definition otel_tracer_provider_destroy ::
  "'e implementation \<Rightarrow> ptr \<Rightarrow> ('e, 'm) process_scheme \<Rightarrow> ('e, 'm) process_scheme option" where
  "otel_tracer_provider_destroy im provider s =
     destroy_owned im KIND_TRACER_PROVIDER as_tracer_provider (provider_res R_TraceProvider) provider s"

definition otel_tracer_destroy ::
  "'e implementation \<Rightarrow> ptr \<Rightarrow> ('e, 'm) process_scheme \<Rightarrow> ('e, 'm) process_scheme option" where
  "otel_tracer_destroy im tracer s =
     destroy_owned im KIND_TRACER as_tracer (\<lambda>t. backing_res R_Tracer (bk_vtable t) (bk_ctx t)) tracer s"

section \<open>Starting spans\<close>

text \<open>What a start returns once the call has been made: NULL stays NULL with the implementation's
  diagnostic, a context moves into a span handle.\<close>

definition start_through ::
  "'e implementation \<Rightarrow> addr \<Rightarrow> ptr \<Rightarrow> vop \<Rightarrow> ('e, 'm) process_scheme \<Rightarrow> (ptr \<times> ('e, 'm) process_scheme) option" where
  "start_through im vt tracer_ctx op s =
     (case request_ctx im False (R_Tracer vt tracer_ctx) op (R_Span vt) s of
        None \<Rightarrow> None
      | Some (None, s1) \<Rightarrow> Some (None, s1)
      | Some (Some c, s1) \<Rightarrow> Some (new_span (Some vt) (Some c) s1))"

text \<open>A live parent span: its context if it belongs to the same implementation, no parent if it
  belongs to another one (\<open>Some None\<close>), a refusal if it is not a span (\<open>None\<close>).\<close>

definition local_parent ::
  "ptr \<Rightarrow> ptr \<Rightarrow> ('e, 'm) process_scheme \<Rightarrow> (ptr option \<times> ('e, 'm) process_scheme) option" where
  "local_parent vtable parent s =
     (if parent = None then Some (Some None, s)
      else
        (case checked_as KIND_SPAN as_span parent s of
           None \<Rightarrow> None
         | Some (None, s1) \<Rightarrow> Some (None, s1)
         | Some (Some p, s1) \<Rightarrow> Some (Some (if bk_vtable p = vtable then bk_ctx p else None), s1)))"

definition otel_tracer_start_span ::
  "'e implementation \<Rightarrow> ptr \<Rightarrow> otel_string_view \<Rightarrow> otel_span_start_options option
     \<Rightarrow> ('e, 'm) process_scheme \<Rightarrow> (ptr \<times> ('e, 'm) process_scheme) option" where
  "otel_tracer_start_span im tracer name options s =
     (case checked_as KIND_TRACER as_tracer tracer s of
        None \<Rightarrow> None
      | Some (None, s1) \<Rightarrow> Some (None, s1)
      | Some (Some t, s1) \<Rightarrow>
          (case bk_vtable t of
             None \<Rightarrow> Some (new_span None None s1)
           | Some vt \<Rightarrow>
               (let kind = (case options of None \<Rightarrow> 0 | Some q \<Rightarrow> sso_kind q);
                    parent = (case options of None \<Rightarrow> None | Some q \<Rightarrow> sso_parent q)
                in case local_parent (Some vt) parent (clear_last_error s1) of
                     None \<Rightarrow> None
                   | Some (None, s2) \<Rightarrow> Some (None, s2)
                   | Some (Some parent_ctx, s2) \<Rightarrow>
                       start_through im vt (bk_ctx t) (Op_StartSpan name kind parent_ctx) s2)))"

definition otel_tracer_start_span_with_context ::
  "'e implementation \<Rightarrow> ptr \<Rightarrow> otel_string_view \<Rightarrow> otel_span_start_options option \<Rightarrow> ptr
     \<Rightarrow> ('e, 'm) process_scheme \<Rightarrow> (ptr \<times> ('e, 'm) process_scheme) option" where
  "otel_tracer_start_span_with_context im tracer name options parent s =
     (case checked_as KIND_TRACER as_tracer tracer s of
        None \<Rightarrow> None
      | Some (None, s1) \<Rightarrow> Some (None, s1)
      | Some (Some t, s1) \<Rightarrow>
          (case checked_as KIND_SPAN_CONTEXT as_span_context parent s1 of
             None \<Rightarrow> None
           | Some (None, s2) \<Rightarrow> Some (None, s2)
           | Some (Some p, s2) \<Rightarrow>
               if \<not> span_context_is_valid p then
                 Some (None, snd (fail St_InvalidArgument ''parent span context is invalid'' s2))
               else if (case options of None \<Rightarrow> False | Some q \<Rightarrow> sso_parent q \<noteq> None) then
                 Some (None, snd (fail St_InvalidArgument
                   ''parent span handle and parent span context are mutually exclusive'' s2))
               else
                 (case bk_vtable t of
                    None \<Rightarrow> Some (new_span None None s2)
                  | Some vt \<Rightarrow>
                      if \<not> vtable_has_span_context im (Some vt) then
                        Some (None, snd (fail St_InvalidConfig
                          ''installed trace implementation does not support context parenting''
                          (clear_last_error s2)))
                      else
                        start_through im vt (bk_ctx t)
                          (Op_StartSpanWithContext name (case options of None \<Rightarrow> 0 | Some q \<Rightarrow> sso_kind q)
                             (span_context_view p))
                          (clear_last_error s2))))"

subsection \<open>The versioned start\<close>

text \<open>The descriptor as it is read: fields beyond the declared size take their defaults.\<close>

definition read_options_ex :: "otel_span_start_options_ex \<Rightarrow> otel_span_start_options_ex" where
  "read_options_ex o' =
     (let size = sx_struct_size o';
          has_attributes = SPAN_START_OPTIONS_EX_LINKS_OFFSET \<le> size;
          has_links = OTEL_SPAN_START_OPTIONS_EX_V1_SIZE \<le> size;
          has_parent_mode = SPAN_START_OPTIONS_EX_SIZE \<le> size
      in o'\<lparr>sx_attributes := (if has_attributes then sx_attributes o' else None),
            sx_attribute_count := (if has_attributes then sx_attribute_count o' else 0),
            sx_links := (if has_links then sx_links o' else None),
            sx_link_count := (if has_links then sx_link_count o' else 0),
            sx_parent_mode := (if has_parent_mode then sx_parent_mode o' else OTEL_PARENT_EXPLICIT),
            sx_reserved2 := (if has_parent_mode then sx_reserved2 o' else 0)\<rparr>)"

text \<open>The checks in their order, on the fields as read: the status and message of the first one
  that fails.\<close>

definition options_ex_error :: "otel_span_start_options_ex option \<Rightarrow> (otel_status \<times> string) option" where
  "options_ex_error options =
     (case options of
        None \<Rightarrow> Some (St_InvalidArgument, ''options must not be NULL'')
      | Some q \<Rightarrow>
          (let r = read_options_ex q in
           if sx_struct_size q < OTEL_SPAN_START_OPTIONS_EX_REQUIRED_SIZE then
             Some (St_InvalidConfig, ''options struct_size is smaller than the required minimum'')
           else if sx_reserved r \<noteq> 0 then
             Some (St_InvalidArgument, ''reserved field in span-start options must be zero'')
           else if sx_parent r \<noteq> None \<and> sx_parent_context r \<noteq> None then
             Some (St_InvalidArgument, ''parent span handle and parent span context are mutually exclusive'')
           else if sx_reserved2 r \<noteq> 0 \<or> OTEL_PARENT_ROOT < sx_parent_mode r then
             Some (St_InvalidArgument, ''parent mode or its reserved field is invalid'')
           else if sx_parent_mode r \<noteq> OTEL_PARENT_EXPLICIT \<and> (sx_parent r \<noteq> None \<or> sx_parent_context r \<noteq> None) then
             Some (St_InvalidArgument, ''ambient/root parent mode cannot include an explicit parent'')
           else if sx_attributes r = None \<and> sx_attribute_count r \<noteq> 0 then
             Some (St_InvalidArgument, ''attribute array is NULL with a non-zero count'')
           else if sx_links r = None \<and> sx_link_count r \<noteq> 0 then
             Some (St_InvalidArgument, ''link array is NULL with a non-zero count'')
           else if unat (sx_link_count r) > OTEL_SPAN_START_MAX_LINKS then
             Some (St_InvalidArgument, ''link count exceeds the maximum supported value'')
           else None))"

text \<open>The single parenting source: a live parent of the same implementation, or the view of a parent
  context. The inner \<open>None\<close> is a refusal with the diagnostic recorded.\<close>

definition resolve_parent ::
  "ptr \<Rightarrow> otel_span_start_options_ex \<Rightarrow> ('e, 'm) process_scheme
     \<Rightarrow> ((ptr \<times> otel_span_context_view option) option \<times> ('e, 'm) process_scheme) option" where
  "resolve_parent vtable r s =
     (if sx_parent r \<noteq> None then
        (case local_parent vtable (sx_parent r) s of
           None \<Rightarrow> None
         | Some (None, s1) \<Rightarrow> Some (None, s1)
         | Some (Some c, s1) \<Rightarrow> Some (Some (c, None), s1))
      else if sx_parent_context r \<noteq> None then
        (case checked_as KIND_SPAN_CONTEXT as_span_context (sx_parent_context r) s of
           None \<Rightarrow> None
         | Some (None, s1) \<Rightarrow> Some (None, s1)
         | Some (Some p, s1) \<Rightarrow>
             if span_context_is_valid p then Some (Some (None, Some (span_context_view p)), s1)
             else Some (None, snd (fail St_InvalidArgument ''parent span context is invalid'' s1)))
      else Some (Some (None, None), s))"

fun link_views ::
  "otel_span_link list \<Rightarrow> ('e, 'm) process_scheme
     \<Rightarrow> (otel_span_link_view list option \<times> ('e, 'm) process_scheme) option" where
  "link_views [] s = Some (Some [], s)"
| "link_views (l # ls) s =
     (case checked_as KIND_SPAN_CONTEXT as_span_context (lk_context l) s of
        None \<Rightarrow> None
      | Some (None, s1) \<Rightarrow>
          Some (None, snd (fail St_InvalidArgument ''link span context is NULL or not a span-context handle'' s1))
      | Some (Some c, s1) \<Rightarrow>
          if \<not> span_context_is_valid c then
            Some (None, snd (fail St_InvalidArgument ''link span context is invalid'' s1))
          else if lk_attributes l = None \<and> lk_attribute_count l \<noteq> 0 then
            Some (None, snd (fail St_InvalidArgument ''link attribute array is NULL with a non-zero count'' s1))
          else
            (case link_views ls s1 of
               None \<Rightarrow> None
             | Some (None, s2) \<Rightarrow> Some (None, s2)
             | Some (Some vs, s2) \<Rightarrow>
                 Some (Some (\<lparr>lv_context = span_context_view c, lv_attributes = lk_attributes l,
                              lv_attribute_count = lk_attribute_count l\<rparr> # vs), s2)))"

text \<open>The whole link array, after the reservation of its views; an array shorter than its count
  is outside the contract.\<close>

definition build_links ::
  "(nat \<Rightarrow> bool) \<Rightarrow> otel_span_start_options_ex \<Rightarrow> ('e, 'm) process_scheme
     \<Rightarrow> (otel_span_link_view list option \<times> ('e, 'm) process_scheme) option" where
  "build_links al r s =
     (if sx_link_count r = 0 then Some (Some [], s)
      else if \<not> al (unat (sx_link_count r)) then
        Some (None, snd (fail St_InternalError ''failed to allocate space for span links'' s))
      else
        (case sx_links r of
           None \<Rightarrow> None
         | Some ls \<Rightarrow>
             if length ls < unat (sx_link_count r) then None
             else link_views (take (unat (sx_link_count r)) ls) s))"

text \<open>The ambient context of the calling thread, as it is passed to the implementation.\<close>

definition ambient_view ::
  "thread \<Rightarrow> ('e, 'm) process_scheme \<Rightarrow> otel_context_view \<times> ('e, 'm) process_scheme" where
  "ambient_view t s =
     (case current_data t s of
        (d, s1) \<Rightarrow>
          (\<lparr>cv_struct_size = OTEL_CONTEXT_VIEW_SIZE,
            cv_span_context = map_option span_context_view (case d of None \<Rightarrow> None | Some c \<Rightarrow> cd_span_context c),
            cv_flags = (case d of None \<Rightarrow> 0 | Some c \<Rightarrow> cd_flags c), cv_reserved = 0\<rparr>, s1))"

definition start_config ::
  "otel_span_start_options_ex \<Rightarrow> ptr \<Rightarrow> otel_span_context_view option \<Rightarrow> otel_span_link_view list
     \<Rightarrow> otel_span_start_config" where
  "start_config r parent_ctx parent_view views =
     \<lparr>ssc_kind = sx_kind r, ssc_reserved = 0, ssc_parent_span_ctx = parent_ctx, ssc_parent_context = parent_view,
      ssc_start_time_unix_nanos = sx_start_time_unix_nanos r, ssc_attributes = sx_attributes r,
      ssc_attribute_count = sx_attribute_count r, ssc_links = (if views = [] then None else Some views),
      ssc_link_count = word_of_nat (length views)\<rparr>"

text \<open>The rest of the versioned start, for a backed tracer and checked options: parent, links,
  configuration, and the call that the parent mode selects.\<close>

definition start_span_ex_with ::
  "'e implementation \<Rightarrow> (nat \<Rightarrow> bool) \<Rightarrow> thread \<Rightarrow> addr \<Rightarrow> ptr \<Rightarrow> otel_string_view
     \<Rightarrow> otel_span_start_options_ex \<Rightarrow> ('e, 'm) process_scheme \<Rightarrow> (ptr \<times> ('e, 'm) process_scheme) option" where
  "start_span_ex_with im al t vt tracer_ctx name r s =
     (case resolve_parent (Some vt) r s of
        None \<Rightarrow> None
      | Some (None, s1) \<Rightarrow> Some (None, s1)
      | Some (Some (parent_ctx, parent_view), s1) \<Rightarrow>
          (case build_links al r s1 of
             None \<Rightarrow> None
           | Some (None, s2) \<Rightarrow> Some (None, s2)
           | Some (Some views, s2) \<Rightarrow>
               (let config = start_config r parent_ctx parent_view views in
                if sx_parent_mode r = OTEL_PARENT_AMBIENT then
                  (case ambient_view t s2 of
                     (ambient, s3) \<Rightarrow>
                       if \<not> vtable_has_context im (Some vt) then
                         Some (None, snd (fail St_InvalidConfig
                           ''installed trace implementation does not support ambient context'' s3))
                       else start_through im vt tracer_ctx (Op_StartSpanExWithContext name config ambient) s3)
                else start_through im vt tracer_ctx (Op_StartSpanEx name config) s2)))"

definition otel_tracer_start_span_ex ::
  "'e implementation \<Rightarrow> (nat \<Rightarrow> bool) \<Rightarrow> thread \<Rightarrow> ptr \<Rightarrow> otel_string_view \<Rightarrow> otel_span_start_options_ex option
     \<Rightarrow> ('e, 'm) process_scheme \<Rightarrow> (ptr \<times> ('e, 'm) process_scheme) option" where
  "otel_tracer_start_span_ex im al t tracer name options s =
     (case checked_as KIND_TRACER as_tracer tracer s of
        None \<Rightarrow> None
      | Some (None, s1) \<Rightarrow> Some (None, s1)
      | Some (Some tr, s1) \<Rightarrow>
          (case options_ex_error options of
             Some (st, msg) \<Rightarrow> Some (None, snd (fail st msg s1))
           | None \<Rightarrow>
               (case bk_vtable tr of
                  None \<Rightarrow> Some (new_span None None s1)
                | Some vt \<Rightarrow>
                    if \<not> vtable_has_span_start_ex im (Some vt) then
                      Some (None, snd (fail St_InvalidConfig
                        ''installed trace implementation does not support extended span start''
                        (clear_last_error s1)))
                    else start_span_ex_with im al t vt (bk_ctx tr) name (read_options_ex (the options))
                           (clear_last_error s1))))"

section \<open>Spans\<close>

text \<open>Run an operation on a live backed span; a no-op span answers \<open>Ok\<close> without a call.\<close>

definition dispatch_span ::
  "ptr \<Rightarrow> (addr \<Rightarrow> ptr \<Rightarrow> ('e, 'm) process_scheme \<Rightarrow> (otel_status \<times> ('e, 'm) process_scheme) option)
     \<Rightarrow> ('e, 'm) process_scheme \<Rightarrow> (otel_status \<times> ('e, 'm) process_scheme) option" where
  "dispatch_span span f s =
     (case checked_as KIND_SPAN as_span span s of
        None \<Rightarrow> None
      | Some (None, s1) \<Rightarrow> Some (St_InvalidArgument, s1)
      | Some (Some sp, s1) \<Rightarrow>
          (case bk_vtable sp of
             None \<Rightarrow> Some (St_Ok, s1)
           | Some vt \<Rightarrow> f vt (bk_ctx sp) (clear_last_error s1)))"

definition span_op ::
  "'e implementation \<Rightarrow> vop \<Rightarrow> addr \<Rightarrow> ptr \<Rightarrow> ('e, 'm) process_scheme
     \<Rightarrow> (otel_status \<times> ('e, 'm) process_scheme) option" where
  "span_op im op vt ctx s = vt_status im (R_Span vt ctx) op s"

definition otel_span_set_string_attribute where
  "otel_span_set_string_attribute im span key value s = dispatch_span span (span_op im (Op_SetString key value)) s"

definition otel_span_set_bool_attribute where
  "otel_span_set_bool_attribute im span key value s = dispatch_span span (span_op im (Op_SetBool key value)) s"

definition otel_span_set_int64_attribute where
  "otel_span_set_int64_attribute im span key value s = dispatch_span span (span_op im (Op_SetI64 key value)) s"

definition otel_span_set_double_attribute where
  "otel_span_set_double_attribute im span key value s = dispatch_span span (span_op im (Op_SetF64 key value)) s"

text \<open>Only the union member that the tag names is read.\<close>

definition otel_span_set_attribute ::
  "'e implementation \<Rightarrow> ptr \<Rightarrow> otel_key_value \<Rightarrow> ('e, 'm) process_scheme
     \<Rightarrow> (otel_status \<times> ('e, 'm) process_scheme) option" where
  "otel_span_set_attribute im span attribute s =
     dispatch_span span
       (\<lambda>vt ctx s. case attribute_type_from_u32 (kv_value_type attribute) of
            Some AT_String \<Rightarrow> span_op im (Op_SetString (kv_key attribute) (kv_string attribute)) vt ctx s
          | Some AT_Bool \<Rightarrow> span_op im (Op_SetBool (kv_key attribute) (kv_bool attribute)) vt ctx s
          | Some AT_Int64 \<Rightarrow> span_op im (Op_SetI64 (kv_key attribute) (kv_int64 attribute)) vt ctx s
          | Some AT_Double \<Rightarrow> span_op im (Op_SetF64 (kv_key attribute) (kv_double attribute)) vt ctx s
          | None \<Rightarrow>
              Some (fail St_InvalidArgument ''attribute value_type is not a valid OtelAttributeType tag'' s)) s"

definition otel_span_add_event where
  "otel_span_add_event im span name attributes attribute_count s =
     dispatch_span span (span_op im (Op_AddEvent name attributes attribute_count)) s"

definition otel_span_set_status ::
  "'e implementation \<Rightarrow> ptr \<Rightarrow> u32 \<Rightarrow> otel_string_view \<Rightarrow> ('e, 'm) process_scheme
     \<Rightarrow> (otel_status \<times> ('e, 'm) process_scheme) option" where
  "otel_span_set_status im span code description s =
     dispatch_span span
       (\<lambda>vt ctx s. if span_status_code_from_u32 code = None then
            Some (fail St_InvalidArgument ''status code is not a valid OtelSpanStatusCode value'' s)
          else span_op im (Op_SetStatus code description) vt ctx s) s"

definition otel_span_update_name where
  "otel_span_update_name im span name s = dispatch_span span (span_op im (Op_UpdateName name)) s"

text \<open>\<open>OtelSpan::end\<close>: the flag is exchanged first, and only the first exchange makes the call.\<close>

definition span_end ::
  "'e implementation \<Rightarrow> ptr \<Rightarrow> span_body \<Rightarrow> ('e, 'm) process_scheme \<Rightarrow> ('e, 'm) process_scheme option" where
  "span_end im p sp s =
     (case bk_vtable sp of
        None \<Rightarrow> Some s
      | Some vt \<Rightarrow>
          (let s1 = put_ptr p (P_Span (sp\<lparr>sp_ended := True\<rparr>)) s in
           if sp_ended sp then Some s1 else vt_unit im (R_Span vt (bk_ctx sp)) Op_SpanEnd s1))"

definition span_end_and_free_ctx ::
  "'e implementation \<Rightarrow> ptr \<Rightarrow> span_body \<Rightarrow> ('e, 'm) process_scheme \<Rightarrow> ('e, 'm) process_scheme option" where
  "span_end_and_free_ctx im p sp s =
     (case bk_vtable sp of
        None \<Rightarrow> Some s
      | Some vt \<Rightarrow>
          (let s1 = put_ptr p (P_Span (sp\<lparr>sp_ended := True\<rparr>)) s in
           case (if sp_ended sp then Some s1 else vt_unit im (R_Span vt (bk_ctx sp)) Op_SpanEnd s1) of
             None \<Rightarrow> None
           | Some s2 \<Rightarrow> vt_free im (R_Span vt (bk_ctx sp)) s2))"

definition otel_span_end ::
  "'e implementation \<Rightarrow> ptr \<Rightarrow> ('e, 'm) process_scheme \<Rightarrow> (otel_status \<times> ('e, 'm) process_scheme) option" where
  "otel_span_end im span s =
     (case checked_as KIND_SPAN as_span span s of
        None \<Rightarrow> None
      | Some (None, s1) \<Rightarrow> Some (St_InvalidArgument, s1)
      | Some (Some sp, s1) \<Rightarrow>
          map_option (\<lambda>s2. (St_Ok, s2))
            (span_end im span sp (if bk_vtable sp \<noteq> None then clear_last_error s1 else s1)))"

definition otel_span_destroy ::
  "'e implementation \<Rightarrow> ptr \<Rightarrow> ('e, 'm) process_scheme \<Rightarrow> ('e, 'm) process_scheme option" where
  "otel_span_destroy im span s =
     (if span = noop_span_ptr then Some s
      else
        (case checked_as KIND_SPAN as_span span s of
           None \<Rightarrow> None
         | Some (r, s1) \<Rightarrow>
             (case (case r of None \<Rightarrow> Some s1 | Some sp \<Rightarrow> span_end_and_free_ctx im span sp s1) of
                None \<Rightarrow> None
              | Some s2 \<Rightarrow> destroy KIND_SPAN span s2)))"

section \<open>The handle types\<close>

interpretation oh_provider: owning_handle KIND_TRACER_PROVIDER P_TracerProvider as_tracer_provider "provider_res R_TraceProvider"
  by unfold_locales simp

interpretation oh_tracer: owning_handle KIND_TRACER P_Tracer as_tracer "\<lambda>t. backing_res R_Tracer (bk_vtable t) (bk_ctx t)"
  by unfold_locales simp

interpretation oh_span: owning_handle KIND_SPAN P_Span as_span "\<lambda>b. backing_res R_Span (bk_vtable b) (bk_ctx b)"
  by unfold_locales simp

lemma kind_neq: "KIND_TRACER_PROVIDER \<noteq> KIND_SPAN" "KIND_TRACER \<noteq> KIND_SPAN"
  by (simp_all add: kind_defs)

section \<open>What a tracer request guarantees\<close>

lemma new_tracer_null:
  assumes "proc_inv s"
  shows "conserved s (snd (new_tracer None None s))"
    "points_to (snd (new_tracer None None s)) (fst (new_tracer None None s)) (P_Tracer \<lparr>bk_vtable = None, bk_ctx = None\<rparr>)"
    "slots_same s (snd (new_tracer None None s))" "calls (snd (new_tracer None None s)) = calls s"
proof -
  let ?b = "P_Tracer \<lparr>bk_vtable = None, bk_ctx = None\<rparr>"
  obtain p s2 where q: "into_raw KIND_TRACER ?b s = (p, s2)" by fastforce
  from new_handle [OF q assms] show "conserved s (snd (new_tracer None None s))"
    "points_to (snd (new_tracer None None s)) (fst (new_tracer None None s)) ?b"
    "slots_same s (snd (new_tracer None None s))" "calls (snd (new_tracer None None s)) = calls s"
    by (simp_all add: new_tracer_def q)
qed

text \<open>\<open>vt\<close> owned here: the reference that the request gives back was taken before, in state \<open>s0\<close>.\<close>

lemma get_tracer_from_facts:
  assumes inv: "proc_inv s0" "proc_inv s" and fr: "same_frame s0 s" and "0 < ledger s (R_TraceProvider vt ctx)"
    and ext: "\<And>q. external q s = external q s0 + of_bool (owned \<and> q = R_TraceProvider vt ctx)"
  obtains p s' where "get_tracer_from im (Some vt) ctx owned name version schema s = Some (p, s')"
    "conserved s0 s'" "slots_same s0 s'"
    "calls s' = calls s @ [(R_TraceProvider vt ctx, Op_GetTracer name version schema)] @
       (if owned then [(R_TraceProvider vt ctx, Op_Free)] else [])"
    "p = None \<or> (\<exists>c. points_to s' p (P_Tracer \<lparr>bk_vtable = Some vt, bk_ctx = Some c\<rparr>))"
proof -
  let ?mk = "\<lambda>c. P_Tracer \<lparr>bk_vtable = Some vt, bk_ctx = c\<rparr>"
  have run: "get_tracer_from im (Some vt) ctx owned name version schema s =
      open_handle im owned (R_TraceProvider vt ctx) (Op_GetTracer name version schema) (R_Tracer vt) KIND_TRACER ?mk (\<lambda>u. u) s"
    by (simp add: get_tracer_from_def open_handle_def new_tracer_def split: option.splits prod.splits)
  have mk: "owned_by (?mk (Some c)) = Some (R_Tracer vt (Some c))" "api_kind (?mk (Some c)) = KIND_TRACER"
    "payload_ok (?mk (Some c))" for c by simp_all
  show thesis
    by (rule open_handle_facts [where mk = ?mk and R = "R_Tracer vt" and failed = "\<lambda>u. u" and bad = "\<lambda>u. True" and im = im
        and op = "Op_GetTracer name version schema", OF inv fr assms(4) ext mk]) (simp_all, rule that, simp_all add: run)
qed

text \<open>The two kinds of provider.\<close>

lemma get_tracer_backed:
  assumes inv: "proc_inv s" and p: "points_to s provider (P_TracerProvider (PI_Backed (Some vt) ctx))"
  obtains tp s' where "otel_tracer_provider_get_tracer im provider name version schema s = Some (tp, s')"
    "conserved s s'" "slots_same s s'"
    "calls s' = calls s @ [(R_TraceProvider vt ctx, Op_GetTracer name version schema)]"
    "tp = None \<or> (\<exists>c. points_to s' tp (P_Tracer \<lparr>bk_vtable = Some vt, bk_ctx = Some c\<rparr>))"
proof -
  let ?s0 = "clear_last_error s"
  have inv0: "proc_inv ?s0" and p0: "points_to ?s0 provider (P_TracerProvider (PI_Backed (Some vt) ctx))"
    using inv p by simp_all
  have chk: "checked_as KIND_TRACER_PROVIDER as_tracer_provider provider ?s0 = Some (Some (PI_Backed (Some vt) ctx), ?s0)"
    by (rule hp.checked_as_points_to [OF proc_inv_wf [OF inv0] p0])
  have fr: "same_frame s ?s0" by (rule same_frame_api) simp
  have led: "0 < ledger ?s0 (R_TraceProvider vt ctx)" by (rule oh_provider.live_reference [OF inv0 p0]) simp
  show thesis
    by (rule get_tracer_from_facts [OF inv inv0 fr led, of False im name version schema])
      (simp, rule that, simp_all add: otel_tracer_provider_get_tracer_def chk)
qed

lemma get_tracer_global:
  assumes inv: "proc_inv s" and p: "points_to s provider (P_TracerProvider PI_Global)"
  obtains (Unbacked) tp s' where "otel_tracer_provider_get_tracer im provider name version schema s = Some (tp, s')"
      "conserved s s'" "slots_same s s'" "calls s' = calls s" "slot_vtable (trace_slot s) = None"
      "points_to s' tp (P_Tracer \<lparr>bk_vtable = None, bk_ctx = None\<rparr>)"
    | (Refused) s' where "otel_tracer_provider_get_tracer im provider name version schema s = Some (None, s')"
      "conserved s s'" "slots_same s s'" "slot_vtable (trace_slot s) \<noteq> None" "has_last_error s'"
    | (Asked) vt c tp s' where "otel_tracer_provider_get_tracer im provider name version schema s = Some (tp, s')"
      "conserved s s'" "slots_same s s'" "slot_vtable (trace_slot s) = Some vt"
      "calls s' = calls s @ [(R_TraceProvider vt (slot_ctx (trace_slot s)), Op_Retain),
         (R_TraceProvider vt c, Op_GetTracer name version schema), (R_TraceProvider vt c, Op_Free)]"
      "tp = None \<or> (\<exists>d. points_to s' tp (P_Tracer \<lparr>bk_vtable = Some vt, bk_ctx = Some d\<rparr>))"
proof -
  let ?s0 = "clear_last_error s"
  have inv0: "proc_inv ?s0" and p0: "points_to ?s0 provider (P_TracerProvider PI_Global)" using inv p by simp_all
  have chk: "checked_as KIND_TRACER_PROVIDER as_tracer_provider provider ?s0 = Some (Some PI_Global, ?s0)"
    by (rule hp.checked_as_points_to [OF proc_inv_wf [OF inv0] p0])
  have c0: "conserved s ?s0" using inv by simp
  have ss0: "slots_same s ?s0" by (rule slots_same_api) simp
  let ?ask = "\<lambda>vt c. get_tracer_from im (Some vt) c True name version schema"
  let ?slot = "trace_slot ?s0" and ?msg = "''global provider retain failed''"
  have run: "otel_tracer_provider_get_tracer im provider name version schema s =
      via_global im R_TraceProvider ?msg (slot_vtable ?slot) (slot_ctx ?slot) (new_tracer None None) ?ask ?s0"
    by (simp add: otel_tracer_provider_get_tracer_def chk retain_global_def via_global_def)
  let ?more = "\<lambda>vt c. [(R_TraceProvider vt c, Op_GetTracer name version schema), (R_TraceProvider vt c, Op_Free)]"
  let ?good = "\<lambda>vt tp u. tp = None \<or> (\<exists>d. points_to u tp (P_Tracer \<lparr>bk_vtable = Some vt, bk_ctx = Some d\<rparr>))"
  have ask: "\<exists>p s'. ?ask vt c s1 = Some (p, s') \<and> conserved ?s0 s' \<and> slots_same ?s0 s' \<and>
      calls s' = calls s1 @ ?more vt c \<and> ?good vt p s'"
    if a: "proc_inv s1" "same_frame ?s0 s1" "0 < ledger s1 (R_TraceProvider vt c)"
      "\<And>q. external q s1 = external q ?s0 + of_bool (q = R_TraceProvider vt c)" for vt c s1
    by (rule get_tracer_from_facts [OF inv0 a(1-3), of True im name version schema]) (simp_all add: a(4))
  show thesis
  proof (rule tslot.via_global_facts [where im = im and msg = ?msg and unbacked = "new_tracer None None" and extra = ?more
      and good = ?good, OF inv0 ask], assumption+, goal_cases)
    case 1
    show ?case
      by (rule Unbacked [of "fst (new_tracer None None ?s0)" "snd (new_tracer None None ?s0)"])
        (use 1 new_tracer_null [OF inv0] conserved_trans [OF c0 new_tracer_null(1) [OF inv0]] in \<open>simp_all add: run slots_same_def\<close>)
  next
    case (2 s1)
    show ?case by (rule Refused [of s1]) (use 2 conserved_trans [OF c0 2(2)] in \<open>simp_all add: run slots_same_def\<close>)
  next
    case (3 vt c tp s2)
    show ?case
      by (rule Asked [of tp s2 vt c]) (use 3 conserved_trans [OF c0 3(2)] in \<open>simp_all add: run slots_same_def\<close>)
  qed
qed

section \<open>What a span start guarantees\<close>

lemma start_through_facts:
  assumes inv: "proc_inv s" and led: "0 < ledger s (R_Tracer vt ctx)"
  obtains p s' where "start_through im vt ctx op s = Some (p, s')" "conserved s s'" "slots_same s s'"
    "calls s' = calls s @ [(R_Tracer vt ctx, op)]"
    "p = None \<or> (\<exists>c. points_to s' p (P_Span \<lparr>bk_vtable = Some vt, bk_ctx = Some c, sp_ended = False\<rparr>))"
proof -
  let ?mk = "\<lambda>c. P_Span \<lparr>bk_vtable = Some vt, bk_ctx = c, sp_ended = False\<rparr>"
  have run: "start_through im vt ctx op s =
      open_handle im False (R_Tracer vt ctx) op (R_Span vt) KIND_SPAN ?mk (\<lambda>u. u) s"
    by (simp add: start_through_def open_handle_def new_span_def split: option.splits prod.splits)
  have mk: "owned_by (?mk (Some c)) = Some (R_Span vt (Some c))" "api_kind (?mk (Some c)) = KIND_SPAN"
    "payload_ok (?mk (Some c))" for c by simp_all
  have ext: "external q s = external q s + of_bool (False \<and> q = R_Tracer vt ctx)" for q by simp
  show thesis
    by (rule open_handle_facts [where mk = ?mk and R = "R_Span vt" and failed = "\<lambda>u. u" and bad = "\<lambda>u. True" and im = im and op = op,
        OF inv inv same_frame_refl led ext mk])
      (simp_all, rule that, simp_all add: run)
qed

lemma local_parent_facts:
  assumes "proc_inv s" and "valid_ptr s parent"
  obtains r s' where "local_parent vtable parent s = Some (r, s')" "same_api s s'" "calls s' = calls s"
    "r \<noteq> None \<Longrightarrow> s' = s"
proof (cases parent)
  case None
  then show ?thesis using that [of "Some None" s] by (simp add: local_parent_def)
next
  case (Some a)
  show ?thesis
  proof (rule hs.checked_as_defined [OF proc_inv_wf [OF assms(1)] assms(2)])
    fix s1 assume c: "checked_as KIND_SPAN as_span parent s = Some (None, s1)"
    show ?thesis
      using that [of None s1] c Some same_api_checked [OF c] calls_checked [OF c] by (simp add: local_parent_def)
  next
    fix x assume "checked_as KIND_SPAN as_span parent s = Some (Some x, s)"
    with Some show ?thesis
      using that [of "Some (if bk_vtable x = vtable then bk_ctx x else None)" s] by (simp add: local_parent_def)
  qed
qed

lemma start_span_facts:
  assumes inv: "proc_inv s" and t: "points_to s tracer (P_Tracer t)"
    and par: "case options of None \<Rightarrow> True | Some q \<Rightarrow> valid_ptr s (sso_parent q)"
  obtains p s' where "otel_tracer_start_span im tracer name options s = Some (p, s')" "conserved s s'" "slots_same s s'"
proof -
  have chk: "checked_as KIND_TRACER as_tracer tracer s = Some (Some t, s)"
    by (rule ht.checked_as_points_to [OF proc_inv_wf [OF inv] t])
  let ?s0 = "clear_last_error s" and ?parent = "case options of None \<Rightarrow> None | Some q \<Rightarrow> sso_parent q"
  have inv0: "proc_inv ?s0" and c0: "conserved s ?s0" and ss0: "slots_same s ?s0"
    using inv by (simp_all add: slots_same_def)
  have v: "valid_ptr ?s0 ?parent" using par by (cases options) (simp_all add: valid_ptr_def)
  show thesis
  proof (cases "bk_vtable t")
    case None
    then show thesis
      using that [of noop_span_ptr s] conserved_refl [OF inv]
      by (simp add: otel_tracer_start_span_def chk new_span_def slots_same_def)
  next
    case (Some vt)
    have led: "0 < ledger ?s0 (R_Tracer vt (bk_ctx t))"
      using oh_tracer.live_reference [OF inv t] Some by simp
    show thesis
    proof (rule local_parent_facts [OF inv0 v, of "Some vt"])
      fix r s1 assume l: "local_parent (Some vt) ?parent ?s0 = Some (r, s1)" "same_api ?s0 s1" "r \<noteq> None \<Longrightarrow> s1 = ?s0"
      show thesis
      proof (cases r)
        case None
        with that [of None s1] Some l chk conserved_trans [OF c0 conserved_same [OF inv0 l(2)]]
          slots_same_api [OF l(2)] ss0 show thesis
          by (simp add: otel_tracer_start_span_def Let_def slots_same_def)
      next
        fix pc assume r: "r = Some pc"
        let ?op = "Op_StartSpan name (case options of None \<Rightarrow> 0 | Some q \<Rightarrow> sso_kind q) pc"
        show thesis
          by (rule start_through_facts [OF inv0 led, of im ?op], rule that)
            (use l r Some chk c0 ss0 in \<open>auto simp: otel_tracer_start_span_def Let_def slots_same_def elim: conserved_trans\<close>)
      qed
    qed
  qed
qed

lemma start_span_with_context_facts:
  assumes inv: "proc_inv s" and t: "points_to s tracer (P_Tracer t)" and par: "valid_ptr s parent"
  obtains p s' where "otel_tracer_start_span_with_context im tracer name options parent s = Some (p, s')"
    "conserved s s'" "slots_same s s'"
proof -
  have chk: "checked_as KIND_TRACER as_tracer tracer s = Some (Some t, s)"
    by (rule ht.checked_as_points_to [OF proc_inv_wf [OF inv] t])
  note run = otel_tracer_start_span_with_context_def chk and ret = that
  have failed: thesis if "otel_tracer_start_span_with_context im tracer name options parent s = Some (None, s1)" "same_api s s1" for s1
    using that(1) by (rule ret) (use that(2) inv in \<open>auto intro: conserved_same slots_same_api\<close>)
  show thesis
  proof (rule hsc.checked_as_defined [OF proc_inv_wf [OF inv] par])
    fix s1 assume c: "checked_as KIND_SPAN_CONTEXT as_span_context parent s = Some (None, s1)"
    show thesis by (rule failed [of s1]) (use c same_api_checked [OF c] in \<open>simp_all add: run\<close>)
  next
    fix p assume c: "checked_as KIND_SPAN_CONTEXT as_span_context parent s = Some (Some p, s)"
    let ?s0 = "clear_last_error s"
    have inv0: "proc_inv ?s0" and c0: "conserved s ?s0" and ss0: "slots_same s ?s0"
      using inv by (simp_all add: slots_same_def)
    consider "\<not> span_context_is_valid p" | "span_context_is_valid p" "case options of None \<Rightarrow> False | Some q \<Rightarrow> sso_parent q \<noteq> None"
      | "span_context_is_valid p" "\<not> (case options of None \<Rightarrow> False | Some q \<Rightarrow> sso_parent q \<noteq> None)" "bk_vtable t = None"
      | vt where "span_context_is_valid p" "\<not> (case options of None \<Rightarrow> False | Some q \<Rightarrow> sso_parent q \<noteq> None)" "bk_vtable t = Some vt"
      by blast
    then show thesis
    proof cases
      case 1
      show thesis
        by (rule failed [of "snd (fail St_InvalidArgument ''parent span context is invalid'' s)"])
          (use 1 c in \<open>simp_all add: run del: same_api_error\<close>, rule same_api_error)
    next
      case 2
      show thesis
        by (rule failed [of "snd (fail St_InvalidArgument
            ''parent span handle and parent span context are mutually exclusive'' s)"])
          (use 2 c in \<open>simp_all add: run del: same_api_error\<close>, rule same_api_error)
    next
      case 3
      show thesis
        by (rule that [of noop_span_ptr s])
          (use 3 c conserved_refl [OF inv] in \<open>simp_all add: run new_span_def slots_same_def\<close>)
    next
      case (4 vt)
      show thesis
      proof (cases "vtable_has_span_context im (Some vt)")
        case False
        show thesis
          by (rule failed [of "snd (fail St_InvalidConfig
              ''installed trace implementation does not support context parenting'' (clear_last_error s))"])
            (use 4 c False in \<open>simp_all add: run del: same_api_error\<close>,
              rule same_api_trans [OF same_api_error(1) same_api_error(4)])
      next
        case True
        have led: "0 < ledger ?s0 (R_Tracer vt (bk_ctx t))"
          using oh_tracer.live_reference [OF inv t] 4(3) by simp
        let ?op = "Op_StartSpanWithContext name (case options of None \<Rightarrow> 0 | Some q \<Rightarrow> sso_kind q) (span_context_view p)"
        show thesis
          by (rule start_through_facts [OF inv0 led, of im ?op], rule that)
            (use 4 c True c0 ss0 in \<open>auto simp: run slots_same_def elim: conserved_trans\<close>)
      qed
    qed
  qed
qed

subsection \<open>The versioned start\<close>

lemma resolve_parent_facts:
  assumes inv: "proc_inv s" and "valid_ptr s (sx_parent r)" and "valid_ptr s (sx_parent_context r)"
  obtains res s' where "resolve_parent vtable r s = Some (res, s')" "same_api s s'" "calls s' = calls s"
proof -
  consider "sx_parent r \<noteq> None" | "sx_parent r = None" "sx_parent_context r \<noteq> None"
    | "sx_parent r = None" "sx_parent_context r = None" by blast
  then show thesis
  proof cases
    case 1
    show thesis
    proof (rule local_parent_facts [OF inv assms(2), of vtable])
      fix q s1 assume "local_parent vtable (sx_parent r) s = Some (q, s1)" "same_api s s1" "calls s1 = calls s"
      then show thesis
        using that [of "map_option (\<lambda>c. (c, None)) q" s1] 1 by (cases q) (auto simp: resolve_parent_def)
    qed
  next
    case 2
    show thesis
    proof (rule hsc.checked_as_defined [OF proc_inv_wf [OF inv] assms(3)])
      fix s1 assume c: "checked_as KIND_SPAN_CONTEXT as_span_context (sx_parent_context r) s = Some (None, s1)"
      show thesis
        using that [of None s1] 2 c same_api_checked [OF c] calls_checked [OF c] by (simp add: resolve_parent_def)
    next
      fix p assume c: "checked_as KIND_SPAN_CONTEXT as_span_context (sx_parent_context r) s = Some (Some p, s)"
      show thesis
      proof (cases "span_context_is_valid p")
        case True
        with that [of "Some (None, Some (span_context_view p))" s] 2 c show thesis by (simp add: resolve_parent_def)
      next
        case False
        with that [of None "snd (fail St_InvalidArgument ''parent span context is invalid'' s)"] 2 c
        show thesis by (simp add: resolve_parent_def)
      qed
    qed
  next
    case 3
    with that [of "Some (None, None)" s] show thesis by (simp add: resolve_parent_def)
  qed
qed

lemma link_views_facts:
  "proc_inv s \<Longrightarrow> (\<forall>l \<in> set ls. valid_ptr s (lk_context l)) \<Longrightarrow>
     \<exists>r s'. link_views ls s = Some (r, s') \<and> same_api s s' \<and> calls s' = calls s \<and> (r \<noteq> None \<longrightarrow> s' = s) \<and>
       (\<forall>vs. r = Some vs \<longrightarrow> length vs = length ls)"
proof (induction ls)
  case Nil
  then show ?case by simp
next
  case (Cons l ls)
  then obtain r s' where ih: "link_views ls s = Some (r, s')" "same_api s s'" "calls s' = calls s" "r \<noteq> None \<longrightarrow> s' = s"
      "\<forall>vs. r = Some vs \<longrightarrow> length vs = length ls" by auto
  have v: "valid_ptr s (lk_context l)" using Cons.prems(2) by simp
  show ?case
  proof (rule hsc.checked_as_defined [OF proc_inv_wf [OF Cons.prems(1)] v])
    fix s1 assume c: "checked_as KIND_SPAN_CONTEXT as_span_context (lk_context l) s = Some (None, s1)"
    have "same_api s (set_error_text m s1)" for m
      using same_api_trans [OF same_api_checked [OF c] same_api_error(3)] .
    then show ?thesis using c calls_checked [OF c] by (simp add: fail_def)
  next
    fix p assume c: "checked_as KIND_SPAN_CONTEXT as_span_context (lk_context l) s = Some (Some p, s)"
    then show ?thesis using ih by (cases r) auto
  qed
qed

definition links_readable :: "otel_span_start_options_ex \<Rightarrow> ('e, 'm) process_scheme \<Rightarrow> bool" where
  "links_readable r s \<longleftrightarrow>
     (case sx_links r of
        None \<Rightarrow> True
      | Some ls \<Rightarrow> unat (sx_link_count r) \<le> length ls \<and> (\<forall>l \<in> set ls. valid_ptr s (lk_context l)))"

lemma build_links_facts:
  assumes inv: "proc_inv s" and "links_readable r s" and "sx_links r = None \<Longrightarrow> sx_link_count r = 0"
  obtains res s' where "build_links al r s = Some (res, s')" "same_api s s'" "calls s' = calls s"
    "\<And>vs. res = Some vs \<Longrightarrow> length vs = unat (sx_link_count r)"
proof -
  consider "sx_link_count r = 0" | "sx_link_count r \<noteq> 0" "\<not> al (unat (sx_link_count r))"
    | ls where "sx_link_count r \<noteq> 0" "al (unat (sx_link_count r))" "sx_links r = Some ls"
    using assms(3) by (cases "sx_links r") auto
  then show thesis
  proof cases
    case 1
    with that [of "Some []" s] show thesis by (simp add: build_links_def)
  next
    case 2
    with that [of None "snd (fail St_InternalError ''failed to allocate space for span links'' s)"]
    show thesis by (simp add: build_links_def)
  next
    case (3 ls)
    have "\<forall>l \<in> set (take (unat (sx_link_count r)) ls). valid_ptr s (lk_context l)"
      using assms(2) 3(3) by (auto simp: links_readable_def dest: in_set_takeD)
    from link_views_facts [OF inv this] obtain res s' where
      "link_views (take (unat (sx_link_count r)) ls) s = Some (res, s')" "same_api s s'" "calls s' = calls s"
      "\<forall>vs. res = Some vs \<longrightarrow> length vs = length (take (unat (sx_link_count r)) ls)" by auto
    with that [of res s'] 3 assms(2) show thesis by (simp add: build_links_def links_readable_def)
  qed
qed

lemma ambient_view_facts:
  assumes inv: "proc_inv s" and v: "ambient_view t s = (w, s')"
  shows "conserved s s'" and "slots_same s s'" and "calls s' = calls s" and "ledger s' = ledger s"
    and "cv_span_context w = (if attached t s = [] then None
       else map_option span_context_view (cd_span_context (en_context (last (attached t s)))))"
    and "cv_flags w = 0"
proof -
  obtain d where c: "current_data t s = (d, s')" using v by (auto simp: ambient_view_def split: prod.splits)
  note f = current_data_facts [OF proc_inv_ctx [OF inv] c]
  show "conserved s s'" "slots_same s s'" "calls s' = calls s" "ledger s' = ledger s"
    using current_data_conserved [OF inv c] by blast+
  show "cv_span_context w = (if attached t s = [] then None
       else map_option span_context_view (cd_span_context (en_context (last (attached t s)))))"
    using v c f(5) by (auto simp: ambient_view_def)
  show "cv_flags w = 0"
    using v c f(6) by (auto simp: ambient_view_def context_ok_def split: option.splits)
qed

lemma conserving_start_through:
  "proc_inv s \<Longrightarrow> 0 < ledger s (R_Tracer vt ctx) \<Longrightarrow> conserving s (start_through im vt ctx op s)"
  by (rule start_through_facts) (auto simp: conserving_def)

definition options_valid :: "otel_span_start_options_ex \<Rightarrow> ('e, 'm) process_scheme \<Rightarrow> bool" where
  "options_valid q s \<longleftrightarrow> valid_ptr s (sx_parent q) \<and> valid_ptr s (sx_parent_context q) \<and> links_readable q s"

lemma options_valid_same: "same_api s s' \<Longrightarrow> options_valid q s' = options_valid q s"
  by (simp add: options_valid_def links_readable_def valid_ptr_def same_api_def split: option.splits)

lemma ledger_same: "same_api s s' \<Longrightarrow> ledger s' = ledger s"
  by (simp add: same_api_def)

lemma start_span_ex_with_conserving:
  assumes inv: "proc_inv s" and led: "0 < ledger s (R_Tracer vt ctx)" and opt: "options_valid r s"
    and lk: "sx_links r = None \<Longrightarrow> sx_link_count r = 0"
  shows "conserving s (start_span_ex_with im al t vt ctx name r s)"
proof -
  have pv: "valid_ptr s (sx_parent r)" "valid_ptr s (sx_parent_context r)" and lr: "links_readable r s"
    using opt by (simp_all add: options_valid_def)
  show ?thesis
  proof (rule resolve_parent_facts [OF inv pv, of "Some vt"])
    fix res s1 assume a: "resolve_parent (Some vt) r s = Some (res, s1)" "same_api s s1"
    have inv1: "proc_inv s1" using inv proc_inv_same [OF a(2)] by simp
    have lr1: "links_readable r s1"
      using opt options_valid_same [OF a(2), of r] by (simp add: options_valid_def)
    show ?thesis
    proof (cases res)
      case None
      with a show ?thesis by (simp add: start_span_ex_with_def conserving_same [OF inv])
    next
      fix pp assume res: "res = Some pp"
      obtain pc pv where pp: "pp = (pc, pv)" by fastforce
      show ?thesis
      proof (rule build_links_facts [OF inv1 lr1 lk, of al])
        fix lr s2 assume b: "build_links al r s1 = Some (lr, s2)" "same_api s1 s2"
        have sa: "same_api s s2" using same_api_trans [OF a(2) b(2)] .
        have inv2: "proc_inv s2" and c2: "conserved s s2" and ss2: "slots_same s s2" and led2: "0 < ledger s2 (R_Tracer vt ctx)"
          using inv sa led proc_inv_same [OF sa] conserved_same [OF inv sa] slots_same_api [OF sa] ledger_same [OF sa] by simp_all
        show ?thesis
        proof (cases lr)
          case None
          with a b res pp show ?thesis by (simp add: start_span_ex_with_def conserving_same [OF inv sa])
        next
          fix vs assume vs: "lr = Some vs"
          let ?cfg = "start_config r pc pv vs"
          note run = start_span_ex_with_def a(1) b(1) res pp vs
          show ?thesis
          proof (cases "sx_parent_mode r = OTEL_PARENT_AMBIENT")
            case False
            with conserving_trans [OF c2 ss2 conserving_start_through [OF inv2 led2]] show ?thesis
              by (simp add: run)
          next
            case True
            obtain w s3 where w: "ambient_view t s2 = (w, s3)" by fastforce
            note f = ambient_view_facts [OF inv2 w]
            have inv3: "proc_inv s3" using conserved_inv [OF f(1)] .
            have led3: "0 < ledger s3 (R_Tracer vt ctx)" using led2 f(4) by simp
            have c3: "conserved s s3" "slots_same s s3"
              using conserved_trans [OF c2 f(1)] ss2 f(2) by (simp_all add: slots_same_def)
            have e: "conserving s3 (Some (v, snd (fail st m s3)))" for v :: ptr and st m
              by (rule conserving_same [OF inv3 same_api_error(4)])
            show ?thesis
              using conserving_trans [OF c3 conserving_start_through [OF inv3 led3]] conserving_trans [OF c3 e] True
              by (simp add: run w)
          qed
        qed
      qed
    qed
  qed
qed

lemma read_options_ex_valid: "options_ex_error (Some q) = None \<Longrightarrow>
    sx_links (read_options_ex q) = None \<Longrightarrow> sx_link_count (read_options_ex q) = 0"
  by (simp add: options_ex_error_def Let_def split: if_splits)

lemma start_span_ex_conserving:
  fixes s :: "('a, 'b) process_scheme"
  assumes inv: "proc_inv s" and t: "points_to s tracer (P_Tracer t)"
    and opt: "\<And>q. options = Some q \<Longrightarrow> options_valid (read_options_ex q) s"
  shows "conserving s (otel_tracer_start_span_ex im al th tracer name options s)"
proof -
  have chk: "checked_as KIND_TRACER as_tracer tracer s = Some (Some t, s)"
    by (rule ht.checked_as_points_to [OF proc_inv_wf [OF inv] t])
  note run = otel_tracer_start_span_ex_def chk
  let ?s0 = "clear_last_error s"
  have c0: "conserved s ?s0" "slots_same s ?s0" and inv0: "proc_inv ?s0" using inv by (simp_all add: slots_same_def)
  have e: "conserving u (Some (v, snd (fail st m u)))" if "proc_inv u" for u :: "('a, 'b) process_scheme" and v :: ptr and st m
    by (rule conserving_same [OF that same_api_error(4)])
  show ?thesis
  proof (cases "options_ex_error options")
    case (Some em)
    obtain st m where "em = (st, m)" by fastforce
    then show ?thesis using Some e [OF inv] by (simp add: run)
  next
    case None
    then obtain q where q: "options = Some q" by (cases options) (simp_all add: options_ex_error_def)
    have lk: "sx_links (read_options_ex q) = None \<Longrightarrow> sx_link_count (read_options_ex q) = 0"
      using read_options_ex_valid None q by simp
    show ?thesis
    proof (cases "bk_vtable t")
      case None
      with \<open>options_ex_error options = None\<close> show ?thesis
        using conserving_same [OF inv same_api_refl] by (simp add: run new_span_def)
    next
      case (Some vt)
      have led: "0 < ledger ?s0 (R_Tracer vt (bk_ctx t))" using oh_tracer.live_reference [OF inv t] Some by simp
      have ov: "options_valid (read_options_ex q) ?s0"
        using opt [OF q] options_valid_same [OF same_api_error(1) [of s], of "read_options_ex q"] by blast
      show ?thesis
        using Some None q conserving_trans [OF c0 e [OF inv0]]
          conserving_trans [OF c0 start_span_ex_with_conserving [OF inv0 led ov lk]]
        by (simp add: run)
    qed
  qed
qed

section \<open>What a span operation guarantees\<close>

lemma dispatch_span_backed:
  assumes "proc_inv s" and "points_to s p (P_Span sp)" and "bk_vtable sp = Some vt"
  shows "dispatch_span p f s = f vt (bk_ctx sp) (clear_last_error s)"
    and "0 < ledger (clear_last_error s) (R_Span vt (bk_ctx sp))"
  using hs.checked_as_points_to [OF proc_inv_wf [OF assms(1)] assms(2)] assms(3)
    oh_span.live_reference [OF assms(1,2)]
  by (simp_all add: dispatch_span_def)

lemma dispatch_span_other:
  assumes "proc_inv s" and "valid_ptr s p" and "\<And>sp. points_to s p (P_Span sp) \<Longrightarrow> bk_vtable sp = None"
  obtains st s' where "dispatch_span p f s = Some (st, s')" "same_api s s'" "calls s' = calls s"
    "st = (if \<exists>sp. points_to s p (P_Span sp) then St_Ok else St_InvalidArgument)"
proof (rule hs.checked_as_defined [OF proc_inv_wf [OF assms(1)] assms(2)])
  fix s1 assume c: "checked_as KIND_SPAN as_span p s = Some (None, s1)" "\<And>x. \<not> points_to s p (P_Span x)"
  show thesis
    using that [of St_InvalidArgument s1] c same_api_checked [OF c(1)] calls_checked [OF c(1)]
    by (simp add: dispatch_span_def)
next
  fix x assume c: "checked_as KIND_SPAN as_span p s = Some (Some x, s)" "points_to s p (P_Span x)"
  have "\<exists>sp. points_to s p (P_Span sp)" using c(2) by blast
  then show thesis using that [of St_Ok s] c assms(3) [OF c(2)] by (simp add: dispatch_span_def)
qed

lemma span_op_facts:
  assumes "0 < ledger s (R_Span vt ctx)"
  obtains st s' where "span_op im op vt ctx s = Some (st, s')" "same_api s s'" "calls s' = calls s @ [(R_Span vt ctx, op)]"
  using vt_call_defined [OF assms, of "im_status im" op] vt_call_SomeD [of "im_status im" "R_Span vt ctx" op s]
  by (auto simp: span_op_def vt_status_def)

lemma span_end_live:
  assumes inv: "proc_inv s" and p: "points_to s p (P_Span sp)" and vt: "bk_vtable sp = Some vt"
  obtains s' where "span_end im p sp s = Some s'" "conserved s s'" "slots_same s s'"
    "points_to s' p (P_Span (sp\<lparr>sp_ended := True\<rparr>))"
    "calls s' = calls s @ (if sp_ended sp then [] else [(R_Span vt (bk_ctx sp), Op_SpanEnd)])"
proof -
  let ?b = "P_Span (sp\<lparr>sp_ended := True\<rparr>)" and ?s1 = "put_ptr p (P_Span (sp\<lparr>sp_ended := True\<rparr>)) s"
  have kp: "api_kind (P_Span sp) = api_kind ?b" "owned_by ?b = owned_by (P_Span sp)" "payload_ok ?b" by simp_all
  note pi = proc_inv_put [OF inv p kp] and m = put_more [of p ?b s]
  have nz: "noop_static s \<Longrightarrow> p \<noteq> Some 0"
    using p vt by (auto simp: noop_static_def points_to_def noop_span_def)
  have "noop_static s \<Longrightarrow> noop_static ?s1"
    using nz p by (auto simp: noop_static_def points_to_def put_ptr_def put_body_def split: option.splits)
  then have c1: "conserved s ?s1" using pi by (intro conservedI) auto
  have ss1: "slots_same s ?s1" using m(1) by (simp add: slots_same_def same_api_def)
  have p1: "points_to ?s1 p ?b" by (rule points_to_putI [OF p])
  show thesis
  proof (cases "sp_ended sp")
    case True
    with that [of ?s1] vt c1 ss1 p1 m(2) show thesis by (simp add: span_end_def Let_def)
  next
    case False
    have led: "0 < ledger ?s1 (R_Span vt (bk_ctx sp))"
      by (rule oh_span.live_reference [OF pi(1) p1]) (simp add: vt)
    then obtain s2 where u: "vt_unit im (R_Span vt (bk_ctx sp)) Op_SpanEnd ?s1 = Some s2"
      using vt_unit_defined by blast
    note v = vt_unit_SomeD [OF u]
    show thesis
      by (rule that [of s2])
        (use u v vt False m(2) conserved_trans [OF c1 conserved_same [OF pi(1) v(1)]] ss1 slots_same_api [OF v(1)]
          p1 points_to_same [OF v(1)] in \<open>simp_all add: span_end_def Let_def slots_same_def\<close>)
  qed
qed

text \<open>Destroying a live backed span is ending it and then destroying an owning handle.\<close>

lemma span_destroy_split:
  assumes inv: "proc_inv s" and p: "points_to s p (P_Span sp)" and vt: "bk_vtable sp = Some vt" and "p \<noteq> Some 0"
    and e: "span_end im p sp s = Some s1" "proc_inv s1" "points_to s1 p (P_Span (sp\<lparr>sp_ended := True\<rparr>))"
  shows "otel_span_destroy im p s =
     destroy_owned im KIND_SPAN as_span (\<lambda>b. backing_res R_Span (bk_vtable b) (bk_ctx b)) p s1"
proof -
  have "checked_as KIND_SPAN as_span p s = Some (Some sp, s)"
    "checked_as KIND_SPAN as_span p s1 = Some (Some (sp\<lparr>sp_ended := True\<rparr>), s1)"
    using hs.checked_as_points_to [OF proc_inv_wf [OF inv] p] hs.checked_as_points_to [OF proc_inv_wf [OF e(2)] e(3)] by auto
  moreover have "span_end_and_free_ctx im p sp s = vt_free im (R_Span vt (bk_ctx sp)) s1"
    using e(1) vt by (auto simp: span_end_and_free_ctx_def span_end_def Let_def split: if_splits)
  ultimately show ?thesis
    using assms(4) vt by (simp add: otel_span_destroy_def noop_span_ptr_def destroy_owned_def free_res_def)
qed

lemma span_destroy_live:
  assumes inv: "proc_inv s" and p: "points_to s p (P_Span sp)" and vt: "bk_vtable sp = Some vt" and nz: "p \<noteq> Some 0"
  obtains s' where "otel_span_destroy im p s = Some s'" "conserved s s'" "slots_same s s'" "objs s' (the p) = None"
    "calls s' = calls s @ (if sp_ended sp then [] else [(R_Span vt (bk_ctx sp), Op_SpanEnd)]) @
       [(R_Span vt (bk_ctx sp), Op_Free)]"
proof (rule span_end_live [OF inv p vt, of im])
  fix s1 assume e: "span_end im p sp s = Some s1" "conserved s s1" "slots_same s s1"
    "points_to s1 p (P_Span (sp\<lparr>sp_ended := True\<rparr>))"
    "calls s1 = calls s @ (if sp_ended sp then [] else [(R_Span vt (bk_ctx sp), Op_SpanEnd)])"
  have inv1: "proc_inv s1" using conserved_inv [OF e(2)] .
  note split = span_destroy_split [OF inv p vt nz e(1) inv1 e(4)]
  have nz': "p \<noteq> Some 0 \<or> KIND_SPAN \<noteq> KIND_SPAN" using nz by simp
  show thesis
  proof (rule oh_span.destroy_conserved [OF inv1 e(4) nz', of im], rule oh_span.destroy_live [OF inv1 e(4), of im], goal_cases)
    case (1 s2 s3)
    then show ?case
      using that [of s2] split conserved_trans [OF e(2)] e(3,5) vt by (simp add: slots_same_def)
  qed
qed
end
