(* ===== verification/Span_Lifecycle.thy ===== *)
theory Span_Lifecycle
  imports Trace_Api
begin

text \<open>
  Properties of the trace API as a whole (\<open>api/src/trace.rs\<close>): which calls reach an implementation
  over the life of a tracer request, a span and a no-op span, how parents are chosen, and
  what a short options struct may leave out.
\<close>

section \<open>Sequences of calls on one span\<close>

datatype span_call =
    C_SetString otel_string_view otel_string_view
  | C_SetBool otel_string_view u32
  | C_SetI64 otel_string_view i64
  | C_SetF64 otel_string_view u64
  | C_SetAttribute otel_key_value
  | C_AddEvent otel_string_view "otel_key_value list option" usize
  | C_SetStatus u32 otel_string_view
  | C_UpdateName otel_string_view
  | C_End

fun run_span_call ::
  "'e implementation \<Rightarrow> ptr \<Rightarrow> span_call \<Rightarrow> ('e, 'm) process_scheme \<Rightarrow> (otel_status \<times> ('e, 'm) process_scheme) option" where
  "run_span_call im p (C_SetString k v) s = otel_span_set_string_attribute im p k v s"
| "run_span_call im p (C_SetBool k v) s = otel_span_set_bool_attribute im p k v s"
| "run_span_call im p (C_SetI64 k v) s = otel_span_set_int64_attribute im p k v s"
| "run_span_call im p (C_SetF64 k v) s = otel_span_set_double_attribute im p k v s"
| "run_span_call im p (C_SetAttribute a) s = otel_span_set_attribute im p a s"
| "run_span_call im p (C_AddEvent n as c) s = otel_span_add_event im p n as c s"
| "run_span_call im p (C_SetStatus c d) s = otel_span_set_status im p c d s"
| "run_span_call im p (C_UpdateName n) s = otel_span_update_name im p n s"
| "run_span_call im p C_End s = otel_span_end im p s"

fun run_span_calls ::
  "'e implementation \<Rightarrow> ptr \<Rightarrow> span_call list \<Rightarrow> ('e, 'm) process_scheme \<Rightarrow> ('e, 'm) process_scheme option" where
  "run_span_calls im p [] s = Some s"
| "run_span_calls im p (c # cs) s =
     (case run_span_call im p c s of None \<Rightarrow> None | Some (st, s1) \<Rightarrow> run_span_calls im p cs s1)"

lemmas span_call_defs = otel_span_set_string_attribute_def otel_span_set_bool_attribute_def
  otel_span_set_int64_attribute_def otel_span_set_double_attribute_def otel_span_set_attribute_def
  otel_span_add_event_def otel_span_set_status_def otel_span_update_name_def

text \<open>Every call except the end is a dispatch of at most one operation, which is neither an end nor
  a free.\<close>

lemma span_call_dispatches:
  assumes "c \<noteq> C_End"
  obtains f where "\<And>s. run_span_call im p c s = dispatch_span p f s"
    "\<And>vt ctx u. 0 < ledger u (R_Span vt ctx) \<Longrightarrow>
       \<exists>st u'. f vt ctx u = Some (st, u') \<and> same_api u u' \<and>
         (calls u' = calls u \<or> (\<exists>op. op \<notin> {Op_Free, Op_SpanEnd} \<and> calls u' = calls u @ [(R_Span vt ctx, op)]))"
proof -
  have op: "\<exists>st u'. span_op im op vt ctx u = Some (st, u') \<and> same_api u u' \<and>
      (calls u' = calls u \<or> (\<exists>op. op \<notin> {Op_Free, Op_SpanEnd} \<and> calls u' = calls u @ [(R_Span vt ctx, op)]))"
    if "0 < ledger u (R_Span vt ctx)" "op \<notin> {Op_Free, Op_SpanEnd}" for op vt ctx and u :: "('a, 'b) process_scheme"
    by (rule span_op_facts [OF that(1), of im op]) (use that(2) in blast)
  have bad: "\<exists>st' u'. Some (fail st m u) = Some (st', u') \<and> same_api u u' \<and>
      (calls u' = calls u \<or> (\<exists>op. op \<notin> {Op_Free, Op_SpanEnd} \<and> calls u' = calls u @ [(R_Span vt ctx, op)]))"
    for st m vt ctx and u :: "('a, 'b) process_scheme" by (simp add: fail_def)
  from assms show thesis
  proof (cases c)
    case (C_SetAttribute a)
    show thesis
      by (rule that [of "\<lambda>vt ctx s. case attribute_type_from_u32 (kv_value_type a) of
            Some AT_String \<Rightarrow> span_op im (Op_SetString (kv_key a) (kv_string a)) vt ctx s
          | Some AT_Bool \<Rightarrow> span_op im (Op_SetBool (kv_key a) (kv_bool a)) vt ctx s
          | Some AT_Int64 \<Rightarrow> span_op im (Op_SetI64 (kv_key a) (kv_int64 a)) vt ctx s
          | Some AT_Double \<Rightarrow> span_op im (Op_SetF64 (kv_key a) (kv_double a)) vt ctx s
          | None \<Rightarrow> Some (fail St_InvalidArgument ''attribute value_type is not a valid OtelAttributeType tag'' s)"])
        (simp add: C_SetAttribute otel_span_set_attribute_def,
         use op bad in \<open>auto split: option.splits otel_attribute_type.splits\<close>)
  next
    case (C_SetStatus code d)
    show thesis
      by (rule that [of "\<lambda>vt ctx s. if span_status_code_from_u32 code = None then
            Some (fail St_InvalidArgument ''status code is not a valid OtelSpanStatusCode value'' s)
          else span_op im (Op_SetStatus code d) vt ctx s"])
        (simp add: C_SetStatus otel_span_set_status_def, use op bad in auto)
  next
    case (C_SetString k v)
    show thesis by (rule that [of "span_op im (Op_SetString k v)"]) (use op in \<open>auto simp: C_SetString span_call_defs\<close>)
  next
    case (C_SetBool k v)
    show thesis by (rule that [of "span_op im (Op_SetBool k v)"]) (use op in \<open>auto simp: C_SetBool span_call_defs\<close>)
  next
    case (C_SetI64 k v)
    show thesis by (rule that [of "span_op im (Op_SetI64 k v)"]) (use op in \<open>auto simp: C_SetI64 span_call_defs\<close>)
  next
    case (C_SetF64 k v)
    show thesis by (rule that [of "span_op im (Op_SetF64 k v)"]) (use op in \<open>auto simp: C_SetF64 span_call_defs\<close>)
  next
    case (C_AddEvent n as k)
    show thesis by (rule that [of "span_op im (Op_AddEvent n as k)"]) (use op in \<open>auto simp: C_AddEvent span_call_defs\<close>)
  next
    case (C_UpdateName n)
    show thesis by (rule that [of "span_op im (Op_UpdateName n)"]) (use op in \<open>auto simp: C_UpdateName span_call_defs\<close>)
  qed simp
qed

text \<open>One call on a live backed span.\<close>

lemma span_call_step:
  assumes inv: "proc_inv s" and p: "points_to s p (P_Span sp)" and vt: "bk_vtable sp = Some vt"
  obtains st s' ops where "run_span_call im p c s = Some (st, s')" "conserved s s'" "slots_same s s'"
    "points_to s' p (P_Span (sp\<lparr>sp_ended := sp_ended sp \<or> c = C_End\<rparr>))"
    "calls s' = calls s @ map (Pair (R_Span vt (bk_ctx sp))) ops" "Op_Free \<notin> set ops"
    "count_list ops Op_SpanEnd = of_bool (\<not> sp_ended sp \<and> c = C_End)"
proof (cases "c = C_End")
  case True
  let ?s0 = "clear_last_error s"
  have inv0: "proc_inv ?s0" and p0: "points_to ?s0 p (P_Span sp)" and c0: "conserved s ?s0" and ss0: "slots_same s ?s0"
    using inv p by (simp_all add: slots_same_def)
  have chk: "checked_as KIND_SPAN as_span p s = Some (Some sp, s)"
    by (rule hs.checked_as_points_to [OF proc_inv_wf [OF inv] p])
  show thesis
  proof (rule span_end_live [OF inv0 p0 vt, of im])
    fix s1 assume e: "span_end im p sp ?s0 = Some s1" "conserved ?s0 s1" "slots_same ?s0 s1"
      "points_to s1 p (P_Span (sp\<lparr>sp_ended := True\<rparr>))"
      "calls s1 = calls ?s0 @ (if sp_ended sp then [] else [(R_Span vt (bk_ctx sp), Op_SpanEnd)])"
    show thesis
      by (rule that [of St_Ok s1 "if sp_ended sp then [] else [Op_SpanEnd]"])
        (use True e chk vt conserved_trans [OF c0 e(2)] ss0 in \<open>auto simp: otel_span_end_def slots_same_def\<close>)
  qed
next
  case False
  have upd: "sp\<lparr>sp_ended := sp_ended sp \<or> c = C_End\<rparr> = sp" using False by (cases sp) simp
  let ?s0 = "clear_last_error s"
  show thesis
  proof (rule span_call_dispatches [OF False, of im p])
    fix f :: "addr \<Rightarrow> ptr \<Rightarrow> ('a, 'b) process_scheme \<Rightarrow> (otel_status \<times> ('a, 'b) process_scheme) option"
    assume run: "\<And>s. run_span_call im p c s = dispatch_span p f s" and
      f: "\<And>vt ctx u. 0 < ledger u (R_Span vt ctx) \<Longrightarrow> \<exists>st u'. f vt ctx u = Some (st, u') \<and> same_api u u' \<and>
         (calls u' = calls u \<or> (\<exists>op. op \<notin> {Op_Free, Op_SpanEnd} \<and> calls u' = calls u @ [(R_Span vt ctx, op)]))"
    note d = dispatch_span_backed [OF inv p vt]
    from f [OF d(2)] obtain st s' where s': "f vt (bk_ctx sp) ?s0 = Some (st, s')" "same_api ?s0 s'"
      "calls s' = calls s \<or> (\<exists>op. op \<notin> {Op_Free, Op_SpanEnd} \<and> calls s' = calls s @ [(R_Span vt (bk_ctx sp), op)])"
      by auto
    have sa: "same_api s s'" using same_api_trans [OF same_api_error(1) s'(2)] .
    then have g: "conserved s s'" "slots_same s s'" "points_to s' p (P_Span sp)"
      using conserved_same [OF inv] slots_same_api points_to_same [of s s'] p by blast+
    from s'(3) show thesis
    proof (elim disjE exE conjE)
      assume "calls s' = calls s"
      with that [of st s' "[]"] g s'(1) upd run d(1) False show thesis by simp
    next
      fix op assume "op \<notin> {Op_Free, Op_SpanEnd}" "calls s' = calls s @ [(R_Span vt (bk_ctx sp), op)]"
      with that [of st s' "[op]"] g s'(1) upd run d(1) False show thesis by auto
    qed
  qed
qed

lemma span_calls_run:
  "proc_inv s \<Longrightarrow> points_to s p (P_Span sp) \<Longrightarrow> bk_vtable sp = Some vt \<Longrightarrow>
     \<exists>s' ops. run_span_calls im p cs s = Some s' \<and> conserved s s' \<and> slots_same s s' \<and>
       points_to s' p (P_Span (sp\<lparr>sp_ended := sp_ended sp \<or> C_End \<in> set cs\<rparr>)) \<and>
       calls s' = calls s @ map (Pair (R_Span vt (bk_ctx sp))) ops \<and> Op_Free \<notin> set ops \<and>
       count_list ops Op_SpanEnd = of_bool (\<not> sp_ended sp \<and> C_End \<in> set cs)"
proof (induction cs arbitrary: s sp)
  case Nil
  then show ?case
    by (intro exI [of _ s] exI [of _ "[]"]) (simp add: conserved_refl slots_same_def)
next
  case (Cons c cs)
  show ?case
  proof (rule span_call_step [OF Cons.prems, of im c])
    fix st s1 ops1
    let ?sp1 = "sp\<lparr>sp_ended := sp_ended sp \<or> c = C_End\<rparr>"
    assume one: "run_span_call im p c s = Some (st, s1)" "conserved s s1" "slots_same s s1"
      "points_to s1 p (P_Span ?sp1)" "calls s1 = calls s @ map (Pair (R_Span vt (bk_ctx sp))) ops1"
      "Op_Free \<notin> set ops1" "count_list ops1 Op_SpanEnd = of_bool (\<not> sp_ended sp \<and> c = C_End)"
    have "bk_vtable ?sp1 = Some vt" using Cons.prems(3) by simp
    from Cons.IH [OF conserved_inv [OF one(2)] one(4) this] obtain s' ops where
      ih: "run_span_calls im p cs s1 = Some s'" "conserved s1 s'" "slots_same s1 s'"
        "points_to s' p (P_Span (?sp1\<lparr>sp_ended := sp_ended ?sp1 \<or> C_End \<in> set cs\<rparr>))"
        "calls s' = calls s1 @ map (Pair (R_Span vt (bk_ctx ?sp1))) ops" "Op_Free \<notin> set ops"
        "count_list ops Op_SpanEnd = of_bool (\<not> sp_ended ?sp1 \<and> C_End \<in> set cs)" by blast
    show ?case
      using one ih conserved_trans [OF one(2) ih(2)]
      by (intro exI [of _ s'] exI [of _ "ops1 @ ops"]) (auto simp: slots_same_def disj_assoc)
  qed
qed

section \<open>Properties\<close>

text \<open>A process with one backed span, for the witnesses.\<close>

definition sample_span_process :: "(nat, unit) process_scheme" where
  "sample_span_process =
     snd (into_raw KIND_SPAN (P_Span \<lparr>bk_vtable = Some 10, bk_ctx = Some 7, sp_ended = False\<rparr>) sample_process)"

lemma sample_span_process_facts:
  "proc_inv sample_span_process" "calls sample_span_process = []"
  "points_to sample_span_process (Some 1) (P_Span \<lparr>bk_vtable = Some 10, bk_ctx = Some 7, sp_ended = False\<rparr>)"
  unfolding sample_span_process_def
  by (rule proc_inv_into_raw [OF sample_process_inv(1)], simp_all add: sample_process_inv(2) into_raw_frame(4)
      sample_process_sel points_to_def)

text \<open>
  C1: A backed span is ended exactly once and released exactly once, and the release comes last.
  For any sequence of attribute, event, status, name and end calls on a span handle, in any
  order and with any repetition, followed by its destruction: everything is defined, the
  implementation sees exactly one end and one final free of this span's context, the
  handle is gone, and no other reference has changed.
\<close>

theorem span_ended_once_freed_once:
  assumes "proc_inv s" and "points_to s p (P_Span \<lparr>bk_vtable = Some vt, bk_ctx = ctx, sp_ended = False\<rparr>)"
    and "p \<noteq> noop_span_ptr"
  shows "\<exists>s' ops. Option.bind (run_span_calls im p cs s) (otel_span_destroy im p) = Some s' \<and>
     proc_inv s' \<and> (\<forall>q. external q s' = external q s) \<and> objs s' (the p) = None \<and>
     calls s' = calls s @ map (Pair (R_Span vt ctx)) ops @ [(R_Span vt ctx, Op_Free)] \<and>
     Op_Free \<notin> set ops \<and> count_list ops Op_SpanEnd = 1"
proof -
  let ?sp = "\<lparr>bk_vtable = Some vt, bk_ctx = ctx, sp_ended = False\<rparr>"
  obtain s1 ops where r: "run_span_calls im p cs s = Some s1" "conserved s s1"
      "points_to s1 p (P_Span (?sp\<lparr>sp_ended := C_End \<in> set cs\<rparr>))"
      "calls s1 = calls s @ map (Pair (R_Span vt ctx)) ops" "Op_Free \<notin> set ops"
      "count_list ops Op_SpanEnd = of_bool (C_End \<in> set cs)"
    using span_calls_run [OF assms(1,2), of vt im cs] by auto
  show ?thesis
  proof (rule span_destroy_live [OF conserved_inv [OF r(2)] r(3), of vt im])
    show "bk_vtable (?sp\<lparr>sp_ended := C_End \<in> set cs\<rparr>) = Some vt" by simp
    show "p \<noteq> Some 0" using assms(3) by (simp add: noop_span_ptr_def)
    fix s' assume d: "otel_span_destroy im p s1 = Some s'" "conserved s1 s'" "objs s' (the p) = None"
      "calls s' = calls s1 @ (if sp_ended (?sp\<lparr>sp_ended := C_End \<in> set cs\<rparr>) then []
          else [(R_Span vt (bk_ctx (?sp\<lparr>sp_ended := C_End \<in> set cs\<rparr>)), Op_SpanEnd)]) @
         [(R_Span vt (bk_ctx (?sp\<lparr>sp_ended := C_End \<in> set cs\<rparr>)), Op_Free)]"
    have "conserved s s'" using conserved_trans [OF r(2) d(2)] .
    then show ?thesis
      using r d by (intro exI [of _ s'] exI [of _ "ops @ (if C_End \<in> set cs then [] else [Op_SpanEnd])"])
        (auto simp: conserved_def)
  qed
qed

theorem span_ended_once_freed_once_witness:
  "\<exists>s' ops. Option.bind (run_span_calls sample_impl (Some 1) [C_End, C_UpdateName sv_empty, C_End] sample_span_process)
       (otel_span_destroy sample_impl (Some 1)) = Some s' \<and> objs s' 1 = None \<and>
     calls s' = map (Pair (R_Span 10 (Some 7))) ops @ [(R_Span 10 (Some 7), Op_Free)] \<and> count_list ops Op_SpanEnd = 1"
proof -
  have "Some 1 \<noteq> noop_span_ptr" by (simp add: noop_span_ptr_def)
  from span_ended_once_freed_once [OF sample_span_process_facts(1,3) this, of sample_impl "[C_End, C_UpdateName sv_empty, C_End]"]
  show ?thesis by (auto simp: sample_span_process_facts(2))
qed

text \<open>
  A no-op span is inert. Every operation on a span handle without an implementation succeeds,
  leaves the whole process exactly as it was and reaches no implementation; destroying the shared
  no-op span does nothing either, so independent callers of the one static span never affect
  each other.
\<close>

theorem noop_span_inert:
  assumes "proc_inv s" and "points_to s p (P_Span sp)" and "bk_vtable sp = None"
  shows "run_span_call im p c s = Some (St_Ok, s) \<and> run_span_calls im p cs s = Some s \<and>
     otel_span_destroy im noop_span_ptr s = Some s"
proof -
  have chk: "checked_as KIND_SPAN as_span p s = Some (Some sp, s)"
    by (rule hs.checked_as_points_to [OF proc_inv_wf [OF assms(1)] assms(2)])
  have one: "run_span_call im p c s = Some (St_Ok, s)" for c
    using assms(3) by (cases c) (simp_all add: span_call_defs dispatch_span_def chk otel_span_end_def span_end_def)
  moreover have "run_span_calls im p cs s = Some s" by (induction cs) (simp_all add: one)
  ultimately show ?thesis by (simp add: otel_span_destroy_def)
qed

theorem noop_span_inert_witness:
  "run_span_calls sample_impl noop_span_ptr [C_End, C_UpdateName sv_empty] sample_process = Some sample_process"
proof -
  have "points_to sample_process noop_span_ptr (P_Span noop_span)"
    by (simp add: points_to_def noop_span_ptr_def sample_process_sel initial_objs_def)
  moreover have "bk_vtable noop_span = None" by (simp add: noop_span_def)
  ultimately show ?thesis using noop_span_inert [OF sample_process_inv(1)] by blast
qed

text \<open>
  C6: A tracer request conserves every reference. For a live provider handle the request is
  defined, the slots are unchanged and no reference is leaked or lost, whatever the
  implementation answers. Without a registered provider the result is a live no-op tracer and no
  implementation is called; through the global provider the calls are a retain, then on the
  retained reference the request and its one release, in this order; a NULL result never stands
  for the no-op tracer.
\<close>

theorem get_tracer_conserves:
  assumes "proc_inv s" and "points_to s provider (P_TracerProvider inner)"
  shows "\<exists>tp s'. otel_tracer_provider_get_tracer im provider name version schema s = Some (tp, s') \<and>
     proc_inv s' \<and> slots_same s s' \<and> (\<forall>q. external q s' = external q s) \<and>
     (tp = None \<or> (\<exists>b. points_to s' tp (P_Tracer b))) \<and>
     (inner = PI_Global \<and> slot_vtable (trace_slot s) = None \<longrightarrow>
        calls s' = calls s \<and> points_to s' tp (P_Tracer \<lparr>bk_vtable = None, bk_ctx = None\<rparr>)) \<and>
     (inner = PI_Global \<and> tp \<noteq> None \<longrightarrow> (\<forall>vt. slot_vtable (trace_slot s) = Some vt \<longrightarrow>
        (\<exists>c. calls s' = calls s @ [(R_TraceProvider vt (slot_ctx (trace_slot s)), Op_Retain),
           (R_TraceProvider vt c, Op_GetTracer name version schema), (R_TraceProvider vt c, Op_Free)])))"
proof (cases inner)
  case (PI_Backed v ctx)
  have "provider_ok inner"
    using api_inv_points_to [OF ctx_inv_api [OF proc_inv_ctx [OF assms(1)]] assms(2)] by simp
  with PI_Backed assms(2) obtain vt where "points_to s provider (P_TracerProvider (PI_Backed (Some vt) ctx))" by auto
  then show ?thesis
    by (rule get_tracer_backed [OF assms(1), of provider vt ctx im name version schema])
      (auto simp: conserved_def PI_Backed)
next
  case PI_Global
  with assms(2) have p: "points_to s provider (P_TracerProvider PI_Global)" by simp
  show ?thesis
    by (rule get_tracer_global [OF assms(1) p, of im name version schema]) (auto simp: conserved_def PI_Global)
qed

text \<open>A registered provider and a global provider handle, for the witness.\<close>

definition sample_global_process :: "(nat, unit) process_scheme" where
  "sample_global_process =
     snd (into_raw KIND_TRACER_PROVIDER (P_TracerProvider PI_Global)
       (put_trace_slot () (Some 10) (Some 7) sample_process))"

lemma sample_global_process_facts:
  "proc_inv sample_global_process" "calls sample_global_process = []"
  "trace_slot sample_global_process = \<lparr>slot_vtable = Some 10, slot_ctx = Some 7\<rparr>"
  "points_to sample_global_process (Some 1) (P_TracerProvider PI_Global)"
proof -
  let ?s = "put_trace_slot () (Some 10) (Some 7) sample_process"
  have "external r ?s = 2 - of_bool (R_TraceProvider 10 (Some 7) = r)" for r
    using tslot.external_put [of r "()" "Some 10" "Some 7" sample_process]
    by (simp add: sample_process_inv(2) sample_process_sel)
  then have "0 \<le> external r ?s" for r by simp
  moreover have "ctx_inv ?s"
    using ctx_inv_frame [of ?s sample_process] proc_inv_ctx [OF sample_process_inv(1)] by (simp add: tslot.put_frame)
  ultimately have inv: "proc_inv ?s" by (intro proc_invI)
  obtain q s2 where q: "into_raw KIND_TRACER_PROVIDER (P_TracerProvider PI_Global) ?s = (q, s2)" by fastforce
  have n: "next_addr ?s = 1" by (simp add: tslot.put_frame sample_process_sel)
  have d: "sample_global_process = s2" by (simp only: sample_global_process_def q snd_conv)
  have t: "trace_slot ?s = \<lparr>slot_vtable = Some 10, slot_ctx = Some 7\<rparr>" "calls ?s = []"
    by (simp_all add: put_trace_slot_def sample_process_sel)
  from new_handle [OF q inv] n t show "proc_inv sample_global_process" "calls sample_global_process = []"
    "trace_slot sample_global_process = \<lparr>slot_vtable = Some 10, slot_ctx = Some 7\<rparr>"
    "points_to sample_global_process (Some 1) (P_TracerProvider PI_Global)"
    unfolding d by (simp_all add: conserved_def slots_same_def)
qed

theorem get_tracer_conserves_witness:
  "\<exists>tp s'. otel_tracer_provider_get_tracer sample_impl (Some 1) sv_empty sv_empty sv_empty sample_global_process = Some (tp, s') \<and>
     (\<forall>q. external q s' = external q sample_global_process) \<and> slots_same sample_global_process s'"
  using get_tracer_conserves [OF sample_global_process_facts(1,4), of sample_impl sv_empty sv_empty sv_empty] by blast

section \<open>Parents\<close>

text \<open>
  A parent of another implementation is no parent. With a live parent span, a start passes
  the parent's context exactly when the parent belongs to the tracer's own implementation; for a
  parent of a different one (or the no-op span) the start is the same, call by call, as a start
  without any parent.
\<close>

theorem foreign_parent_is_root:
  assumes "proc_inv s" and "points_to s tracer (P_Tracer t)" and "bk_vtable t = Some vt"
    and "points_to s parent (P_Span sp)"
  shows "otel_tracer_start_span im tracer name (Some \<lparr>sso_kind = k, sso_parent = parent\<rparr>) s =
      start_through im vt (bk_ctx t)
        (Op_StartSpan name k (if bk_vtable sp = Some vt then bk_ctx sp else None)) (clear_last_error s) \<and>
    (bk_vtable sp \<noteq> Some vt \<longrightarrow>
       otel_tracer_start_span im tracer name (Some \<lparr>sso_kind = k, sso_parent = parent\<rparr>) s =
       otel_tracer_start_span im tracer name (Some \<lparr>sso_kind = k, sso_parent = None\<rparr>) s)"
proof -
  have t: "checked_as KIND_TRACER as_tracer tracer s = Some (Some t, s)"
    by (rule ht.checked_as_points_to [OF proc_inv_wf [OF assms(1)] assms(2)])
  have inv0: "proc_inv (clear_last_error s)" and p0: "points_to (clear_last_error s) parent (P_Span sp)"
    using assms(1,4) by simp_all
  have "checked_as KIND_SPAN as_span parent (clear_last_error s) = Some (Some sp, clear_last_error s)"
    by (rule hs.checked_as_points_to [OF proc_inv_wf [OF inv0] p0])
  moreover obtain a where "parent = Some a" using assms(4) by (cases parent) (simp_all add: points_to_def)
  ultimately show ?thesis using assms(3) t by (simp add: otel_tracer_start_span_def Let_def local_parent_def)
qed

text \<open>A process with a tracer of the implementation at 10 and a span of another one at 20.\<close>

definition sample_tracer_process :: "(nat, unit) process_scheme" where
  "sample_tracer_process =
     snd (into_raw KIND_SPAN (P_Span \<lparr>bk_vtable = Some 20, bk_ctx = Some 8, sp_ended = False\<rparr>)
       (snd (into_raw KIND_TRACER (P_Tracer \<lparr>bk_vtable = Some 10, bk_ctx = Some 7\<rparr>) sample_process)))"

lemma sample_tracer_process_facts:
  "proc_inv sample_tracer_process" "calls sample_tracer_process = []"
  "points_to sample_tracer_process (Some 1) (P_Tracer \<lparr>bk_vtable = Some 10, bk_ctx = Some 7\<rparr>)"
  "points_to sample_tracer_process (Some 2) (P_Span \<lparr>bk_vtable = Some 20, bk_ctx = Some 8, sp_ended = False\<rparr>)"
  "tls sample_tracer_process = (\<lambda>_. Tls_Unused)"
proof -
  let ?s1 = "snd (into_raw KIND_TRACER (P_Tracer \<lparr>bk_vtable = Some 10, bk_ctx = Some 7\<rparr>) sample_process)"
  have i1: "proc_inv ?s1"
    by (rule proc_inv_into_raw [OF sample_process_inv(1)]) (simp_all add: sample_process_inv(2))
  have e1: "external (R_Span 20 (Some 8)) ?s1 = 2"
    using external_into_raw [OF proc_inv_wf [OF sample_process_inv(1)]] by (simp add: sample_process_inv(2))
  show "proc_inv sample_tracer_process" unfolding sample_tracer_process_def
    by (rule proc_inv_into_raw [OF i1]) (use e1 in auto)
  show "calls sample_tracer_process = []" "tls sample_tracer_process = (\<lambda>_. Tls_Unused)"
    "points_to sample_tracer_process (Some 1) (P_Tracer \<lparr>bk_vtable = Some 10, bk_ctx = Some 7\<rparr>)"
    "points_to sample_tracer_process (Some 2) (P_Span \<lparr>bk_vtable = Some 20, bk_ctx = Some 8, sp_ended = False\<rparr>)"
    unfolding sample_tracer_process_def by (simp_all add: into_raw_frame sample_process_sel points_to_def)
qed

theorem foreign_parent_is_root_witness:
  "otel_tracer_start_span sample_impl (Some 1) sv_empty (Some \<lparr>sso_kind = 1, sso_parent = Some 2\<rparr>) sample_tracer_process =
   otel_tracer_start_span sample_impl (Some 1) sv_empty (Some \<lparr>sso_kind = 1, sso_parent = None\<rparr>) sample_tracer_process"
proof -
  have "bk_vtable \<lparr>bk_vtable = Some 10, bk_ctx = Some 7\<rparr> = Some 10" by simp
  from foreign_parent_is_root [OF sample_tracer_process_facts(1,3) this sample_tracer_process_facts(4)]
  have "bk_vtable \<lparr>bk_vtable = Some 20, bk_ctx = Some 8, sp_ended = False\<rparr> \<noteq> Some 10 \<longrightarrow>
      otel_tracer_start_span sample_impl (Some 1) sv_empty (Some \<lparr>sso_kind = 1, sso_parent = Some 2\<rparr>) sample_tracer_process =
      otel_tracer_start_span sample_impl (Some 1) sv_empty (Some \<lparr>sso_kind = 1, sso_parent = None\<rparr>) sample_tracer_process"
    by blast
  then show ?thesis by (rule mp) simp
qed

section \<open>The versioned start\<close>

text \<open>What a struct of a given size covers.\<close>

definition same_prefix :: "otel_span_start_options_ex \<Rightarrow> otel_span_start_options_ex \<Rightarrow> bool" where
  "same_prefix q r \<longleftrightarrow> sx_struct_size q = sx_struct_size r \<and> sx_kind q = sx_kind r \<and> sx_reserved q = sx_reserved r \<and>
     sx_parent q = sx_parent r \<and> sx_parent_context q = sx_parent_context r \<and>
     sx_start_time_unix_nanos q = sx_start_time_unix_nanos r"

definition same_covered :: "otel_span_start_options_ex \<Rightarrow> otel_span_start_options_ex \<Rightarrow> bool" where
  "same_covered q r \<longleftrightarrow> same_prefix q r \<and>
     (56 \<le> sx_struct_size q \<longrightarrow> sx_attributes q = sx_attributes r \<and> sx_attribute_count q = sx_attribute_count r) \<and>
     (72 \<le> sx_struct_size q \<longrightarrow> sx_links q = sx_links r \<and> sx_link_count q = sx_link_count r) \<and>
     (80 \<le> sx_struct_size q \<longrightarrow> sx_parent_mode q = sx_parent_mode r \<and> sx_reserved2 q = sx_reserved2 r)"

text \<open>
  A start reads nothing beyond the declared size of its options. Two option structs that
  agree on the fields their common size covers give the same result and the same process,
  whatever lies behind the shorter struct; a struct too short for the required fields is
  refused with \<open>InvalidConfig\<close> before anything else of it is read, on every live tracer.
\<close>

theorem start_ex_reads_covered_fields_only:
  assumes "same_covered q r"
  shows "otel_tracer_start_span_ex im al th tracer name (Some q) s = otel_tracer_start_span_ex im al th tracer name (Some r) s \<and>
    (\<forall>t s0. sx_struct_size q < 40 \<longrightarrow> checked_as KIND_TRACER as_tracer tracer s0 = Some (Some t, s0) \<longrightarrow>
       otel_tracer_start_span_ex im al th tracer name (Some q) s0 =
         Some (None, set_error_text ''options struct_size is smaller than the required minimum'' s0))"
proof -
  have pre: "same_prefix q r" using assms by (simp add: same_covered_def)
  have at: "56 \<le> sx_struct_size q \<Longrightarrow> sx_attributes q = sx_attributes r \<and> sx_attribute_count q = sx_attribute_count r"
    and ln: "72 \<le> sx_struct_size q \<Longrightarrow> sx_links q = sx_links r \<and> sx_link_count q = sx_link_count r"
    and md: "80 \<le> sx_struct_size q \<Longrightarrow> sx_parent_mode q = sx_parent_mode r \<and> sx_reserved2 q = sx_reserved2 r"
    using assms by (simp_all add: same_covered_def)
  have ro: "read_options_ex q = read_options_ex r"
    using pre at ln md
    by (intro otel_span_start_options_ex.equality) (simp_all add: read_options_ex_def Let_def same_prefix_def span_options_defs)
  have sz: "sx_struct_size q = sx_struct_size r" using pre by (simp add: same_prefix_def)
  have er: "options_ex_error (Some q) = options_ex_error (Some r)"
    by (simp add: options_ex_error_def Let_def ro sz)
  have short: "sx_struct_size q < 40 \<Longrightarrow> options_ex_error (Some q) =
      Some (St_InvalidConfig, ''options struct_size is smaller than the required minimum'')"
    by (simp add: options_ex_error_def Let_def span_options_defs)
  show ?thesis
  proof (intro conjI allI impI)
    show "otel_tracer_start_span_ex im al th tracer name (Some q) s = otel_tracer_start_span_ex im al th tracer name (Some r) s"
      by (simp only: otel_tracer_start_span_ex_def er ro option.sel)
    show "otel_tracer_start_span_ex im al th tracer name (Some q) s0 =
        Some (None, set_error_text ''options struct_size is smaller than the required minimum'' s0)"
      if "sx_struct_size q < 40" "checked_as KIND_TRACER as_tracer tracer s0 = Some (Some t, s0)" for t s0
      by (simp add: otel_tracer_start_span_ex_def short [OF that(1)] that(2) fail_def)
  qed
qed

definition sample_options :: otel_span_start_options_ex where
  "sample_options = \<lparr>sx_struct_size = 80, sx_kind = 1, sx_reserved = 0, sx_parent = None, sx_parent_context = None,
     sx_start_time_unix_nanos = 5, sx_attributes = None, sx_attribute_count = 0, sx_links = None, sx_link_count = 0,
     sx_parent_mode = 1, sx_reserved2 = 0\<rparr>"

theorem start_ex_reads_covered_fields_only_witness:
  "otel_tracer_start_span_ex sample_impl (\<lambda>_. True) 0 (Some 1) sv_empty (Some (sample_options\<lparr>sx_struct_size := 40\<rparr>)) sample_tracer_process =
   otel_tracer_start_span_ex sample_impl (\<lambda>_. True) 0 (Some 1) sv_empty
     (Some (sample_options\<lparr>sx_struct_size := 40, sx_link_count := 9, sx_parent_mode := 77\<rparr>)) sample_tracer_process"
proof -
  have "same_covered (sample_options\<lparr>sx_struct_size := 40\<rparr>)
      (sample_options\<lparr>sx_struct_size := 40, sx_link_count := 9, sx_parent_mode := 77\<rparr>)"
    by (simp add: same_covered_def same_prefix_def sample_options_def)
  from start_ex_reads_covered_fields_only [OF this] show ?thesis by simp
qed

text \<open>
  An ambient start takes its parent from the context that the calling thread attached last.
  After an attach on the thread, a start in ambient mode through an implementation that supports
  it makes exactly one call, and the context view in this call carries the attached context's
  span context (or none) and no flags; the call is made with the same configuration as
  an explicit start without a parent.
\<close>

theorem ambient_start_uses_attached_context:
  assumes "proc_inv s" and "points_to s tracer (P_Tracer t)" and "bk_vtable t = Some vt"
    and "points_to s p (P_Context d)"
    and "otel_context_attach th p (Some sc) s = Some (St_Ok, scope, s1)"
    and "options_ex_error (Some q) = None" and "sx_parent_mode (read_options_ex q) = OTEL_PARENT_AMBIENT"
    and "sx_link_count (read_options_ex q) = 0"
    and "vtable_has_span_start_ex im (Some vt)" and "vtable_has_context im (Some vt)"
  shows "\<exists>sp s'. otel_tracer_start_span_ex im al th tracer name (Some q) s1 = Some (sp, s') \<and> proc_inv s' \<and>
     calls s' = calls s1 @ [(R_Tracer vt (bk_ctx t), Op_StartSpanExWithContext name
        (start_config (read_options_ex q) None None [])
        \<lparr>cv_struct_size = 24, cv_span_context = map_option span_context_view (cd_span_context d),
         cv_flags = 0, cv_reserved = 0\<rparr>)]"
proof -
  note a = attach_conserved [OF assms(1,5)]
  have inv1: "proc_inv s1" using conserved_inv [OF a(1)] .
  have t1: "points_to s1 tracer (P_Tracer t)" using assms(2) points_to_cong [OF a(3), of tracer "P_Tracer t"] by simp
  let ?s2 = "clear_last_error s1"
  have at: "attached th ?s2 \<noteq> []" "en_context (last (attached th ?s2)) = d"
    using attach_last [OF assms(1,5,4)] by (simp_all add: attached_def)
  have inv2: "proc_inv ?s2" using inv1 by simp
  obtain w s3 where w: "ambient_view th ?s2 = (w, s3)" by fastforce
  note f = ambient_view_facts [OF inv2 w]
  have w_eq: "w = \<lparr>cv_struct_size = 24, cv_span_context = map_option span_context_view (cd_span_context d),
      cv_flags = 0, cv_reserved = 0\<rparr>"
    using f(5,6) at w by (auto simp: ambient_view_def OTEL_CONTEXT_VIEW_SIZE_def split: prod.splits)
  have led: "0 < ledger s3 (R_Tracer vt (bk_ctx t))"
    using oh_tracer.live_reference [OF inv1 t1] assms(3) f(4) by simp
  have chk: "checked_as KIND_TRACER as_tracer tracer s1 = Some (Some t, s1)"
    by (rule ht.checked_as_points_to [OF proc_inv_wf [OF inv1] t1])
  have nopar: "sx_parent (read_options_ex q) = None" "sx_parent_context (read_options_ex q) = None"
    using assms(6,7) by (auto simp: options_ex_error_def Let_def span_options_defs split: if_splits)
  let ?op = "Op_StartSpanExWithContext name (start_config (read_options_ex q) None None []) w"
  have run: "otel_tracer_start_span_ex im al th tracer name (Some q) s1 = start_through im vt (bk_ctx t) ?op s3"
    using assms(3,6-10) nopar
    by (simp add: otel_tracer_start_span_ex_def chk start_span_ex_with_def resolve_parent_def build_links_def w)
  show ?thesis
    by (rule start_through_facts [OF conserved_inv [OF f(1)] led, of im ?op])
      (use run f(3) w_eq conserved_inv in auto)
qed

text \<open>A tracer, and a context that carries a span context, for the witness.\<close>

definition sample_span_data :: span_context_data where
  "sample_span_data = \<lparr>sc_trace_id = replicate 16 1, sc_span_id = replicate 8 1, sc_trace_flags = 1,
     sc_is_remote = True, sc_trace_state = []\<rparr>"

definition sample_context_data :: context_data where
  "sample_context_data = \<lparr>cd_span_context = Some sample_span_data, cd_baggage = None, cd_flags = 0\<rparr>"

definition sample_ambient_process :: "(nat, unit) process_scheme" where
  "sample_ambient_process = snd (into_raw KIND_CONTEXT (P_Context sample_context_data) sample_tracer_process)"

lemma sample_ambient_process_facts:
  "proc_inv sample_ambient_process" "calls sample_ambient_process = []"
  "points_to sample_ambient_process (Some 1) (P_Tracer \<lparr>bk_vtable = Some 10, bk_ctx = Some 7\<rparr>)"
  "points_to sample_ambient_process (Some 3) (P_Context sample_context_data)"
  "tls sample_ambient_process = (\<lambda>_. Tls_Unused)"
proof -
  have ok: "payload_ok (P_Context sample_context_data)"
    by (simp add: context_ok_def sample_context_data_def sample_span_data_def span_context_ok_def zero_bytes_def)
  show "proc_inv sample_ambient_process" unfolding sample_ambient_process_def
    by (rule proc_inv_into_raw [OF sample_tracer_process_facts(1) _ ok]) simp_all
  have "next_addr sample_tracer_process = 3"
    by (simp add: sample_tracer_process_def sample_process_sel)
  then show "points_to sample_ambient_process (Some 3) (P_Context sample_context_data)"
    by (simp add: sample_ambient_process_def points_to_def)
  show "points_to sample_ambient_process (Some 1) (P_Tracer \<lparr>bk_vtable = Some 10, bk_ctx = Some 7\<rparr>)"
    unfolding sample_ambient_process_def
    by (rule points_to_put_frame [OF proc_inv_wf]) (rule sample_tracer_process_facts(1,3))+
  show "calls sample_ambient_process = []" "tls sample_ambient_process = (\<lambda>_. Tls_Unused)"
    by (simp_all add: sample_ambient_process_def into_raw_frame sample_tracer_process_facts)
qed

lemma sample_ambient_attach:
  obtains scope s1 where
    "otel_context_attach 0 (Some 3) (Some sample_scope) sample_ambient_process = Some (St_Ok, scope, s1)"
proof -
  have "checked_as KIND_CONTEXT as_context (Some 3) (clear_last_error sample_ambient_process) =
      Some (Some sample_context_data, clear_last_error sample_ambient_process)"
    using sample_ambient_process_facts(1,4) by (intro hc.checked_as_points_to) (simp_all add: proc_inv_wf)
  then have "\<exists>scope s1. otel_context_attach 0 (Some 3) (Some sample_scope) sample_ambient_process = Some (St_Ok, scope, s1)"
    by (simp add: otel_context_attach_def Let_def sample_scope_def SCOPE_SIZE_def try_stack_def
        context_stack_new_def allocate_generation_def MAX_CONTEXT_DEPTH_def sample_ambient_process_facts(5))
  then show thesis using that by blast
qed

lemma sample_impl_supports:
  "vtable_has_span_start_ex sample_impl (Some 10)" "vtable_has_context sample_impl (Some 10)"
  by (simp_all add: vtable_has_span_start_ex_def vtable_has_context_def sample_impl_def
      trace_vtable_supports_span_start_ex_def trace_vtable_supports_context_def OTEL_TRACE_IMPL_ABI_VERSION_def)

theorem ambient_start_uses_attached_context_witness:
  "\<exists>(s1 :: (nat, unit) process_scheme) sp s' cfg w. otel_tracer_start_span_ex sample_impl (\<lambda>_. True) 0 (Some 1) sv_empty (Some sample_options) s1 = Some (sp, s') \<and>
     calls s' = calls s1 @ [(R_Tracer 10 (Some 7), Op_StartSpanExWithContext sv_empty cfg w)] \<and>
     cv_span_context w = Some (span_context_view sample_span_data)"
proof (rule sample_ambient_attach)
  fix scope s1
  assume a: "otel_context_attach 0 (Some 3) (Some sample_scope) sample_ambient_process = Some (St_Ok, scope, s1)"
  have o: "options_ex_error (Some sample_options) = None"
    "sx_parent_mode (read_options_ex sample_options) = OTEL_PARENT_AMBIENT"
    "sx_link_count (read_options_ex sample_options) = 0"
    by (simp_all add: options_ex_error_def read_options_ex_def sample_options_def span_options_defs Let_def)
  have v: "bk_vtable \<lparr>bk_vtable = Some 10, bk_ctx = Some 7\<rparr> = Some 10" by simp
  obtain sp s' where r: "otel_tracer_start_span_ex sample_impl (\<lambda>_. True) 0 (Some 1) sv_empty (Some sample_options) s1 = Some (sp, s')"
    "calls s' = calls s1 @ [(R_Tracer 10 (bk_ctx \<lparr>bk_vtable = Some 10, bk_ctx = Some 7\<rparr>), Op_StartSpanExWithContext sv_empty
        (start_config (read_options_ex sample_options) None None [])
        \<lparr>cv_struct_size = 24, cv_span_context = map_option span_context_view (cd_span_context sample_context_data),
         cv_flags = 0, cv_reserved = 0\<rparr>)]"
    using ambient_start_uses_attached_context [OF sample_ambient_process_facts(1,3) v sample_ambient_process_facts(4) a o
      sample_impl_supports, of "\<lambda>_. True" sv_empty] by blast
  show ?thesis
    by (intro exI conjI, rule r(1), unfold r(2)) (simp add: sample_context_data_def, simp)
qed

end
