(* ===== verification/Scope_Attributes.thy ===== *)
theory Scope_Attributes
  imports Backed_Handles
begin

text \<open>
  Instrumentation-scope attributes (\<open>validate_scope_attributes\<close> of \<open>api/src/metrics.rs\<close>), which the
  metrics and the logs API check before a scope reaches an implementation. The result of a check
  is the first error, if any; the outer option is the caller's contract that the array holds
  as many elements as its count says.
\<close>

definition MAX_SCOPE_ATTRIBUTES :: nat where "MAX_SCOPE_ATTRIBUTES = 1048576"
definition KEY_VALUE_SIZE :: nat where "KEY_VALUE_SIZE = 40"

text \<open>One attribute, given the keys seen before it.\<close>

definition scope_attribute_error :: "bytes list \<Rightarrow> otel_key_value \<Rightarrow> abi_error + bytes" where
  "scope_attribute_error keys attribute =
     (case sv_as_str (kv_key attribute) of
        Inl e \<Rightarrow> Inl e
      | Inr k \<Rightarrow>
          if k = [] then Inl (abi_error_new St_InvalidArgument ''scope attribute key must not be empty'')
          else if k \<in> set keys then Inl (abi_error_new St_InvalidArgument ''duplicate scope attribute key'')
          else
            (case attribute_type_from_u32 (kv_value_type attribute) of
               None \<Rightarrow> Inl (abi_error_new St_InvalidArgument ''unknown scope attribute value type'')
             | Some ty \<Rightarrow>
                 if ty = AT_String then
                   (case sv_as_str (kv_string attribute) of Inl e \<Rightarrow> Inl e | Inr v \<Rightarrow> Inr k)
                 else Inr k))"

fun scope_attributes_loop :: "bytes list \<Rightarrow> otel_key_value list \<Rightarrow> abi_error option" where
  "scope_attributes_loop keys [] = None"
| "scope_attributes_loop keys (attr # attrs) =
     (case scope_attribute_error keys attr of
        Inl e \<Rightarrow> Some e
      | Inr k \<Rightarrow> scope_attributes_loop (k # keys) attrs)"

definition validate_scope_attributes ::
  "(nat \<Rightarrow> bool) \<Rightarrow> otel_key_value list option \<Rightarrow> usize \<Rightarrow> abi_error option option" where
  "validate_scope_attributes al attributes attribute_count =
     (if attribute_count = 0 then Some None
      else
        (case attributes of
           None \<Rightarrow>
             Some (Some (abi_error_new St_InvalidArgument ''scope attribute array is NULL with non-zero count''))
         | Some xs \<Rightarrow>
             if unat attribute_count > MAX_SCOPE_ATTRIBUTES then
               Some (Some (abi_error_new St_InvalidArgument ''scope attribute count exceeds the maximum supported value''))
             else if unat attribute_count * KEY_VALUE_SIZE > isize_max then
               Some (Some (abi_error_new St_InvalidArgument ''scope attribute array exceeds the maximum supported size''))
             else if length xs < unat attribute_count then None
             else if \<not> al (unat attribute_count) then
               Some (Some (abi_error_new St_InternalError ''failed to allocate scope attribute validation state''))
             else Some (scope_attributes_loop [] (take (unat attribute_count) xs))))"

section \<open>What is accepted\<close>

definition attribute_key :: "otel_key_value \<Rightarrow> bytes" where
  "attribute_key a = (case sv_as_str (kv_key a) of Inl e \<Rightarrow> [] | Inr k \<Rightarrow> k)"

definition attribute_ok :: "otel_key_value \<Rightarrow> bool" where
  "attribute_ok a \<longleftrightarrow> attribute_key a \<noteq> [] \<and>
     (case attribute_type_from_u32 (kv_value_type a) of
        None \<Rightarrow> False
      | Some AT_String \<Rightarrow> \<exists>v. sv_as_str (kv_string a) = Inr v
      | Some _ \<Rightarrow> True)"

lemma scope_attribute_error_iff:
  "scope_attribute_error keys a = Inr k \<longleftrightarrow> attribute_ok a \<and> k = attribute_key a \<and> k \<notin> set keys"
  by (auto simp: scope_attribute_error_def attribute_ok_def attribute_key_def
      split: sum.splits option.splits otel_attribute_type.splits)

lemma scope_attributes_loop_iff:
  "scope_attributes_loop keys as = None \<longleftrightarrow>
     (\<forall>a \<in> set as. attribute_ok a) \<and> distinct (map attribute_key as) \<and> set (map attribute_key as) \<inter> set keys = {}"
proof (induction as arbitrary: keys)
  case Nil
  then show ?case by simp
next
  case (Cons a as)
  show ?case
  proof (cases "scope_attribute_error keys a")
    case (Inl e)
    have "\<not> (attribute_ok a \<and> attribute_key a \<notin> set keys)"
      using scope_attribute_error_iff [of keys a "attribute_key a"] Inl by simp
    with Inl show ?thesis by auto
  next
    case (Inr k)
    with scope_attribute_error_iff [of keys a k] Cons.IH [of "k # keys"] show ?thesis by auto
  qed
qed

text \<open>
  Scope attributes are accepted exactly when they are well formed. For a readable array and
  a working allocator the check passes if and only if there is no attribute at all, or the array
  exists, holds at most 1048576 attributes, every key is a non-empty valid UTF-8 text that
  occurs once, every value has a known type, and every string value is valid UTF-8.
\<close>

theorem scope_attributes_accepted_iff:
  assumes "\<And>xs. attributes = Some xs \<Longrightarrow> unat count \<le> length xs" and "\<And>n. al n"
  shows "validate_scope_attributes al attributes count = Some None \<longleftrightarrow> count = 0 \<or>
    (\<exists>xs. attributes = Some xs \<and> unat count \<le> 1048576 \<and> (\<forall>a \<in> set (take (unat count) xs). attribute_ok a) \<and>
       distinct (map attribute_key (take (unat count) xs)))"
proof (cases "attributes")
  case None
  then show ?thesis by (simp add: validate_scope_attributes_def)
next
  case (Some xs)
  have "\<not> isize_max < unat count * KEY_VALUE_SIZE" if "unat count \<le> 1048576"
    using mult_le_mono1 [OF that, of 40] by (simp add: isize_max_def KEY_VALUE_SIZE_def)
  with Some assms show ?thesis
    by (auto simp: validate_scope_attributes_def MAX_SCOPE_ATTRIBUTES_def scope_attributes_loop_iff not_less)
qed

definition sample_attribute :: otel_key_value where
  "sample_attribute = \<lparr>kv_key = sv_of [0x6B], kv_value_type = 1, kv_string = sv_empty, kv_bool = 1, kv_int64 = 0, kv_double = 0\<rparr>"

theorem scope_attributes_accepted_iff_witness:
  "validate_scope_attributes (\<lambda>_. True) (Some [sample_attribute]) 1 = Some None \<and>
   validate_scope_attributes (\<lambda>_. True) (Some [sample_attribute, sample_attribute]) 2 \<noteq> Some None"
proof -
  have k: "attribute_key sample_attribute = [0x6B]"
    using sv_as_str_sv_of [of "[0x6B]"] valid_utf8_ascii [of "[0x6B]"]
    by (simp add: attribute_key_def sample_attribute_def isize_max_def)
  have ok: "attribute_ok sample_attribute"
    by (simp add: attribute_ok_def k) (simp add: sample_attribute_def attribute_type_from_u32_def)
  show ?thesis
    using scope_attributes_accepted_iff [of "Some [sample_attribute]" 1 "\<lambda>_. True"]
      scope_attributes_accepted_iff [of "Some [sample_attribute, sample_attribute]" 2 "\<lambda>_. True"] k ok
    by simp
qed

end
