(* ===== verification/Logs_Api.thy ===== *)
theory Logs_Api
  imports Scope_Attributes
begin

text \<open>
  Logger providers and loggers (\<open>api/src/logs.rs\<close>). The API checks handles, the declared size of
  the record and the mutual exclusion of the two sources of a trace context; everything nested
  in a record is passed through and checked by the implementation (\<open>Log_Records\<close>).
\<close>

section \<open>Options\<close>

record otel_logger_options =
  lgo_struct_size :: u64
  lgo_name :: otel_string_view
  lgo_version :: otel_string_view
  lgo_schema_url :: otel_string_view
  lgo_attributes :: "otel_key_value list option"
  lgo_attribute_count :: usize

definition OTEL_LOGGER_OPTIONS_V1_SIZE :: u64 where "OTEL_LOGGER_OPTIONS_V1_SIZE = 72"
definition OTEL_LOG_RECORD_VIEW_V1_SIZE :: u64 where "OTEL_LOG_RECORD_VIEW_V1_SIZE = 160"

text \<open>The checks on the options, in their order: the first error. The outer \<open>None\<close> is an attribute
  array shorter than its count.\<close>

definition logger_options_error ::
  "(nat \<Rightarrow> bool) \<Rightarrow> otel_logger_options option \<Rightarrow> abi_error option option" where
  "logger_options_error al options =
     (case options of
        None \<Rightarrow> Some (Some (abi_error_new St_InvalidArgument ''logger options must not be NULL''))
      | Some q \<Rightarrow>
          if lgo_struct_size q < OTEL_LOGGER_OPTIONS_V1_SIZE then
            Some (Some (abi_error_new St_InvalidArgument
              ''logger options struct_size is smaller than the supported prefix''))
          else
            (case sv_as_str (lgo_name q) of
               Inl e \<Rightarrow> Some (Some e)
             | Inr name \<Rightarrow>
                 if name = [] then
                   Some (Some (abi_error_new St_InvalidConfig ''logger instrumentation name must not be empty''))
                 else
                   (case sv_as_str (lgo_version q) of
                      Inl e \<Rightarrow> Some (Some e)
                    | Inr v \<Rightarrow>
                        (case sv_as_str (lgo_schema_url q) of
                           Inl e \<Rightarrow> Some (Some e)
                         | Inr u \<Rightarrow> validate_scope_attributes al (lgo_attributes q) (lgo_attribute_count q)))))"

definition logger_scope :: "otel_logger_options \<Rightarrow> otel_scope_config" where
  "logger_scope q =
     \<lparr>scp_name = lgo_name q, scp_version = lgo_version q, scp_schema_url = lgo_schema_url q,
      scp_attributes = lgo_attributes q, scp_attribute_count = lgo_attribute_count q\<rparr>"

section \<open>Loggers\<close>

definition new_logger :: "ptr \<Rightarrow> ptr \<Rightarrow> ('e, 'm) process_scheme \<Rightarrow> ptr \<times> ('e, 'm) process_scheme" where
  "new_logger vtable ctx s = into_raw KIND_LOGGER (P_Logger \<lparr>bk_vtable = vtable, bk_ctx = ctx\<rparr>) s"

text \<open>The part after the provider is resolved. A NULL context without a diagnostic gets one.\<close>

definition get_logger_from ::
  "'e implementation \<Rightarrow> ptr \<Rightarrow> ptr \<Rightarrow> bool \<Rightarrow> otel_scope_config \<Rightarrow> ('e, 'm) process_scheme
     \<Rightarrow> (ptr \<times> ('e, 'm) process_scheme) option" where
  "get_logger_from im vtable ctx owned scope s =
     (case vtable of
        None \<Rightarrow> None
      | Some vt \<Rightarrow>
          (case request_ctx im owned (R_LoggerProvider vt ctx) (Op_GetLogger scope) (R_Logger vt) s of
             None \<Rightarrow> None
           | Some (None, s1) \<Rightarrow>
               Some (None, if has_last_error s1 then s1 else set_error_text ''backed logger creation failed'' s1)
           | Some (Some c, s1) \<Rightarrow> Some (new_logger (Some vt) (Some c) s1)))"

definition otel_logger_provider_get_logger_with_options ::
  "'e implementation \<Rightarrow> (nat \<Rightarrow> bool) \<Rightarrow> ptr \<Rightarrow> otel_logger_options option \<Rightarrow> ('e, 'm) process_scheme
     \<Rightarrow> (ptr \<times> ('e, 'm) process_scheme) option" where
  "otel_logger_provider_get_logger_with_options im al provider options s =
     (case checked_as KIND_LOGGER_PROVIDER as_logger_provider provider (clear_last_error s) of
        None \<Rightarrow> None
      | Some (None, s1) \<Rightarrow> Some (None, s1)
      | Some (Some inner, s1) \<Rightarrow>
          (case logger_options_error al options of
             None \<Rightarrow> None
           | Some (Some e) \<Rightarrow> Some (None, snd (fail_abi e s1))
           | Some None \<Rightarrow>
               (let scope = logger_scope (the options) in
                case inner of
                  PI_Backed vtable ctx \<Rightarrow> get_logger_from im vtable ctx False scope s1
                | PI_Global \<Rightarrow>
                    (case retain_global_logs im s1 of
                       None \<Rightarrow> None
                     | Some (NoProvider, s2) \<Rightarrow> Some (new_logger None None s2)
                     | Some (RetainFailed, s2) \<Rightarrow> Some (None, s2)
                     | Some (Retained vt ctx, s2) \<Rightarrow> get_logger_from im (Some vt) ctx True scope s2))))"

definition otel_logger_provider_get_logger ::
  "'e implementation \<Rightarrow> (nat \<Rightarrow> bool) \<Rightarrow> ptr \<Rightarrow> otel_string_view \<Rightarrow> otel_string_view \<Rightarrow> otel_string_view
     \<Rightarrow> ('e, 'm) process_scheme \<Rightarrow> (ptr \<times> ('e, 'm) process_scheme) option" where
  "otel_logger_provider_get_logger im al provider name version schema_url s =
     otel_logger_provider_get_logger_with_options im al provider
       (Some \<lparr>lgo_struct_size = 72, lgo_name = name, lgo_version = version, lgo_schema_url = schema_url,
              lgo_attributes = None, lgo_attribute_count = 0\<rparr>) s"

definition otel_logger_provider_destroy ::
  "'e implementation \<Rightarrow> ptr \<Rightarrow> ('e, 'm) process_scheme \<Rightarrow> ('e, 'm) process_scheme option" where
  "otel_logger_provider_destroy im provider s =
     (case checked_as KIND_LOGGER_PROVIDER as_logger_provider provider s of
        Some (Some (PI_Backed None ctx), s1) \<Rightarrow> None
      | _ \<Rightarrow> destroy_owned im KIND_LOGGER_PROVIDER as_logger_provider (provider_res R_LoggerProvider) provider s)"

definition otel_logger_destroy ::
  "'e implementation \<Rightarrow> ptr \<Rightarrow> ('e, 'm) process_scheme \<Rightarrow> ('e, 'm) process_scheme option" where
  "otel_logger_destroy im logger s =
     destroy_owned im KIND_LOGGER as_logger (\<lambda>l. backing_res R_Logger (bk_vtable l) (bk_ctx l)) logger s"

definition otel_logger_enabled ::
  "'e implementation \<Rightarrow> ptr \<Rightarrow> u32 \<Rightarrow> ('e, 'm) process_scheme \<Rightarrow> (u32 \<times> ('e, 'm) process_scheme) option" where
  "otel_logger_enabled im logger severity s =
     (case checked_as KIND_LOGGER as_logger logger (clear_last_error s) of
        None \<Rightarrow> None
      | Some (None, s1) \<Rightarrow> Some (0, s1)
      | Some (Some l, s1) \<Rightarrow>
          if severity = 0 \<or> \<not> log_severity_is_valid severity then
            Some (0, set_error_text ''otel_logger_enabled requires a severity in 1..=24'' s1)
          else
            (case bk_vtable l of
               None \<Rightarrow> Some (0, s1)
             | Some vt \<Rightarrow> vt_bool im (R_Logger vt (bk_ctx l)) (Op_LoggerEnabled severity) s1))"

section \<open>Emission\<close>

definition otel_logger_emit ::
  "'e implementation \<Rightarrow> ptr \<Rightarrow> otel_log_record_view option \<Rightarrow> ('e, 'm) process_scheme
     \<Rightarrow> (otel_status \<times> ('e, 'm) process_scheme) option" where
  "otel_logger_emit im logger record s =
     (case checked_as KIND_LOGGER as_logger logger s of
        None \<Rightarrow> None
      | Some (None, s1) \<Rightarrow> Some (St_InvalidArgument, s1)
      | Some (Some l, s1) \<Rightarrow>
          (case record of
             None \<Rightarrow> Some (fail St_InvalidArgument ''log record view must not be NULL'' s1)
           | Some r \<Rightarrow>
               if lr_struct_size r < OTEL_LOG_RECORD_VIEW_V1_SIZE then
                 Some (fail St_InvalidArgument ''log record view struct_size is smaller than the supported prefix'' s1)
               else
                 (case bk_vtable l of
                    None \<Rightarrow> Some (St_Ok, s1)
                  | Some vt \<Rightarrow> vt_status im (R_Logger vt (bk_ctx l)) (Op_LoggerEmit r) (clear_last_error s1))))"

text \<open>The record as it is passed on: its V1 prefix with the trace context filled in.\<close>

definition correlate :: "span_context_data \<Rightarrow> otel_log_record_view \<Rightarrow> otel_log_record_view" where
  "correlate c r =
     r\<lparr>lr_struct_size := OTEL_LOG_RECORD_VIEW_V1_SIZE,
       lr_present_fields := lr_present_fields r OR OTEL_LOG_FIELD_TRACE_CONTEXT,
       lr_trace_context := \<lparr>ltc_trace_id = sc_trace_id c, ltc_span_id = sc_span_id c,
                            ltc_trace_flags = sc_trace_flags c, ltc_reserved = zero_bytes 7\<rparr>\<rparr>"

text \<open>Everything after the span context is borrowed.\<close>

definition emit_with_data ::
  "'e implementation \<Rightarrow> ptr \<Rightarrow> otel_log_record_view option \<Rightarrow> span_context_data \<Rightarrow> ('e, 'm) process_scheme
     \<Rightarrow> (otel_status \<times> ('e, 'm) process_scheme) option" where
  "emit_with_data im logger record c s =
     (if \<not> span_context_is_valid c then Some (fail St_InvalidArgument ''span context is invalid'' s)
      else
        (case record of
           None \<Rightarrow> Some (fail St_InvalidArgument ''log record view must not be NULL'' s)
         | Some r \<Rightarrow>
             if lr_struct_size r < OTEL_LOG_RECORD_VIEW_V1_SIZE then
               Some (fail St_InvalidArgument ''log record view struct_size is smaller than the supported prefix'' s)
             else if lr_present_fields r AND OTEL_LOG_FIELD_TRACE_CONTEXT \<noteq> 0 then
               Some (fail St_InvalidArgument ''raw trace context and span-context handle are mutually exclusive'' s)
             else otel_logger_emit im logger (Some (correlate c r)) s))"

definition otel_logger_emit_with_context ::
  "'e implementation \<Rightarrow> ptr \<Rightarrow> otel_log_record_view option \<Rightarrow> ptr \<Rightarrow> ('e, 'm) process_scheme
     \<Rightarrow> (otel_status \<times> ('e, 'm) process_scheme) option" where
  "otel_logger_emit_with_context im logger record context s =
     (case checked_as KIND_SPAN_CONTEXT as_span_context context (clear_last_error s) of
        None \<Rightarrow> None
      | Some (None, s1) \<Rightarrow> Some (St_InvalidArgument, s1)
      | Some (Some c, s1) \<Rightarrow> emit_with_data im logger record c s1)"

text \<open>The current span context moves into a handle on the stack, whose check passes, and
  \<open>otel_logger_emit_with_context\<close> runs on it.\<close>

definition otel_logger_emit_with_current_context ::
  "'e implementation \<Rightarrow> thread \<Rightarrow> ptr \<Rightarrow> otel_log_record_view option \<Rightarrow> ('e, 'm) process_scheme
     \<Rightarrow> (otel_status \<times> ('e, 'm) process_scheme) option" where
  "otel_logger_emit_with_current_context im t logger record s =
     (case checked_as KIND_LOGGER as_logger logger (clear_last_error s) of
        None \<Rightarrow> None
      | Some (None, s1) \<Rightarrow> Some (St_InvalidArgument, s1)
      | Some (Some l, s1) \<Rightarrow>
          (case record of
             None \<Rightarrow> Some (fail St_InvalidArgument ''log record is NULL'' s1)
           | Some r \<Rightarrow>
               if lr_struct_size r < OTEL_LOG_RECORD_VIEW_V1_SIZE then
                 Some (fail St_InvalidConfig ''log record struct_size is too small'' s1)
               else if bk_vtable l = None \<or> lr_present_fields r AND OTEL_LOG_FIELD_TRACE_CONTEXT \<noteq> 0 then
                 otel_logger_emit im logger record s1
               else
                 (case current_data t s1 of
                    (d, s2) \<Rightarrow>
                      (case (case d of None \<Rightarrow> None | Some k \<Rightarrow> cd_span_context k) of
                         None \<Rightarrow> otel_logger_emit im logger record s2
                       | Some c \<Rightarrow> emit_with_data im logger record c (clear_last_error s2)))))"

section \<open>The handle types\<close>

interpretation oh_logger_provider: owning_handle KIND_LOGGER_PROVIDER P_LoggerProvider as_logger_provider
    "provider_res R_LoggerProvider"
  by unfold_locales simp

interpretation oh_logger: owning_handle KIND_LOGGER P_Logger as_logger "\<lambda>l. backing_res R_Logger (bk_vtable l) (bk_ctx l)"
  by unfold_locales simp

end
