(* ===== verification/Log_Emission.thy ===== *)
theory Log_Emission
  imports Logs_Api
begin

text \<open>
  What the logs API guarantees (\<open>api/src/logs.rs\<close>): obtaining a logger conserves every reference and
  explains every refusal, and an emission makes at most one call, whose record carries the
  trace context of exactly one source.
\<close>

section \<open>Loggers\<close>

lemma new_logger_null:
  assumes "proc_inv s"
  shows "conserved s (snd (new_logger None None s))"
    "points_to (snd (new_logger None None s)) (fst (new_logger None None s)) (P_Logger \<lparr>bk_vtable = None, bk_ctx = None\<rparr>)"
    "slots_same s (snd (new_logger None None s))" "calls (snd (new_logger None None s)) = calls s"
    "fst (new_logger None None s) \<noteq> None"
proof -
  let ?b = "P_Logger \<lparr>bk_vtable = None, bk_ctx = None\<rparr>"
  obtain p s2 where q: "into_raw KIND_LOGGER ?b s = (p, s2)" by fastforce
  from new_handle [OF q assms] show "conserved s (snd (new_logger None None s))"
    "points_to (snd (new_logger None None s)) (fst (new_logger None None s)) ?b"
    "slots_same s (snd (new_logger None None s))" "calls (snd (new_logger None None s)) = calls s"
    "fst (new_logger None None s) \<noteq> None"
    by (simp_all add: new_logger_def q)
qed

definition logger_failed :: "('e, 'm) process_scheme \<Rightarrow> ('e, 'm) process_scheme" where
  "logger_failed s = (if has_last_error s then s else set_error_text ''backed logger creation failed'' s)"

lemma logger_failed [simp]:
  "same_api s (logger_failed s)" "calls (logger_failed s) = calls s" "has_last_error (logger_failed s)"
  by (simp_all add: logger_failed_def)

lemma get_logger_from_facts:
  assumes inv: "proc_inv s0" "proc_inv s" and fr: "same_frame s0 s" and "0 < ledger s (R_LoggerProvider vt ctx)"
    and ext: "\<And>q. external q s = external q s0 + of_bool (owned \<and> q = R_LoggerProvider vt ctx)"
  obtains p s' where "get_logger_from im (Some vt) ctx owned scope s = Some (p, s')"
    "conserved s0 s'" "slots_same s0 s'"
    "calls s' = calls s @ [(R_LoggerProvider vt ctx, Op_GetLogger scope)] @
       (if owned then [(R_LoggerProvider vt ctx, Op_Free)] else [])"
    "p = None \<or> (\<exists>c. points_to s' p (P_Logger \<lparr>bk_vtable = Some vt, bk_ctx = Some c\<rparr>))"
    "p = None \<longrightarrow> has_last_error s'"
proof -
  let ?mk = "\<lambda>c. P_Logger \<lparr>bk_vtable = Some vt, bk_ctx = c\<rparr>"
  have run: "get_logger_from im (Some vt) ctx owned scope s =
      open_handle im owned (R_LoggerProvider vt ctx) (Op_GetLogger scope) (R_Logger vt) KIND_LOGGER ?mk logger_failed s"
    by (simp add: get_logger_from_def open_handle_def new_logger_def logger_failed_def split: option.splits prod.splits)
  have mk: "owned_by (?mk (Some c)) = Some (R_Logger vt (Some c))" "api_kind (?mk (Some c)) = KIND_LOGGER"
    "payload_ok (?mk (Some c))" for c by simp_all
  show thesis
    by (rule open_handle_facts [where mk = ?mk and R = "R_Logger vt" and failed = logger_failed and bad = has_last_error
        and im = im and op = "Op_GetLogger scope", OF inv fr assms(4) ext mk]) (simp_all, rule that, simp_all add: run)
qed

text \<open>After the options are accepted.\<close>

lemma get_logger_backed:
  assumes inv: "proc_inv s" and p: "points_to s provider (P_LoggerProvider (PI_Backed (Some vt) ctx))"
    and ok: "logger_options_error al (Some q) = Some None"
  obtains lp s' where "otel_logger_provider_get_logger_with_options im al provider (Some q) s = Some (lp, s')"
    "conserved s s'" "slots_same s s'" "calls s' = calls s @ [(R_LoggerProvider vt ctx, Op_GetLogger (logger_scope q))]"
    "lp = None \<or> (\<exists>b. points_to s' lp (P_Logger b))" "lp = None \<longrightarrow> has_last_error s'"
proof -
  let ?s0 = "clear_last_error s"
  have inv0: "proc_inv ?s0" and p0: "points_to ?s0 provider (P_LoggerProvider (PI_Backed (Some vt) ctx))"
    using inv p by simp_all
  have chk: "checked_as KIND_LOGGER_PROVIDER as_logger_provider provider ?s0 = Some (Some (PI_Backed (Some vt) ctx), ?s0)"
    by (rule hlp.checked_as_points_to [OF proc_inv_wf [OF inv0] p0])
  have fr: "same_frame s ?s0" by (rule same_frame_api) simp
  have led: "0 < ledger ?s0 (R_LoggerProvider vt ctx)" by (rule oh_logger_provider.live_reference [OF inv0 p0]) simp
  show thesis
    by (rule get_logger_from_facts [OF inv inv0 fr led, of False im "logger_scope q"])
      (simp, rule that, auto simp: otel_logger_provider_get_logger_with_options_def chk ok)
qed

lemma get_logger_global:
  assumes inv: "proc_inv s" and p: "points_to s provider (P_LoggerProvider PI_Global)"
    and ok: "logger_options_error al (Some q) = Some None"
  obtains (Unbacked) lp s' where "otel_logger_provider_get_logger_with_options im al provider (Some q) s = Some (lp, s')"
      "conserved s s'" "slots_same s s'" "calls s' = calls s" "slot_vtable (logs_slot s) = None"
      "points_to s' lp (P_Logger \<lparr>bk_vtable = None, bk_ctx = None\<rparr>)" "lp \<noteq> None"
    | (Refused) s' where "otel_logger_provider_get_logger_with_options im al provider (Some q) s = Some (None, s')"
      "conserved s s'" "slots_same s s'" "slot_vtable (logs_slot s) \<noteq> None" "has_last_error s'"
    | (Asked) vt c lp s' where "otel_logger_provider_get_logger_with_options im al provider (Some q) s = Some (lp, s')"
      "conserved s s'" "slots_same s s'" "slot_vtable (logs_slot s) = Some vt"
      "lp = None \<or> (\<exists>b. points_to s' lp (P_Logger b))" "lp = None \<longrightarrow> has_last_error s'"
      "calls s' = calls s @ [(R_LoggerProvider vt (slot_ctx (logs_slot s)), Op_Retain),
         (R_LoggerProvider vt c, Op_GetLogger (logger_scope q)), (R_LoggerProvider vt c, Op_Free)]"
proof -
  let ?s0 = "clear_last_error s"
  have inv0: "proc_inv ?s0" and p0: "points_to ?s0 provider (P_LoggerProvider PI_Global)" using inv p by simp_all
  have chk: "checked_as KIND_LOGGER_PROVIDER as_logger_provider provider ?s0 = Some (Some PI_Global, ?s0)"
    by (rule hlp.checked_as_points_to [OF proc_inv_wf [OF inv0] p0])
  have c0: "conserved s ?s0" using inv by simp
  let ?ask = "\<lambda>vt c. get_logger_from im (Some vt) c True (logger_scope q)"
  let ?slot = "logs_slot ?s0" and ?msg = "''global logger provider retain failed''"
  have run: "otel_logger_provider_get_logger_with_options im al provider (Some q) s =
      via_global im R_LoggerProvider ?msg (slot_vtable ?slot) (slot_ctx ?slot) (new_logger None None) ?ask ?s0"
    by (simp add: otel_logger_provider_get_logger_with_options_def chk ok retain_global_logs_def via_global_def)
  let ?more = "\<lambda>vt c. [(R_LoggerProvider vt c, Op_GetLogger (logger_scope q)), (R_LoggerProvider vt c, Op_Free)]"
  let ?good = "\<lambda>vt lp u. (lp = None \<or> (\<exists>b. points_to u lp (P_Logger b))) \<and> (lp = None \<longrightarrow> has_last_error u)"
  have ask: "\<exists>p s'. ?ask vt c s1 = Some (p, s') \<and> conserved ?s0 s' \<and> slots_same ?s0 s' \<and>
      calls s' = calls s1 @ ?more vt c \<and> ?good vt p s'"
    if a: "proc_inv s1" "same_frame ?s0 s1" "0 < ledger s1 (R_LoggerProvider vt c)"
      "\<And>q. external q s1 = external q ?s0 + of_bool (q = R_LoggerProvider vt c)" for vt c s1
    by (rule get_logger_from_facts [OF inv0 a(1-3), of True im "logger_scope q"]) (simp add: a(4), auto)
  show thesis
  proof (rule lslot.via_global_facts [where im = im and msg = ?msg and unbacked = "new_logger None None" and extra = ?more
      and good = ?good, OF inv0 ask], assumption+, goal_cases)
    case 1
    show ?case
      by (rule Unbacked [of "fst (new_logger None None ?s0)" "snd (new_logger None None ?s0)"])
        (use 1 new_logger_null [OF inv0] conserved_trans [OF c0 new_logger_null(1) [OF inv0]] in \<open>simp_all add: run slots_same_def\<close>)
  next
    case (2 s1)
    show ?case by (rule Refused [of s1]) (use 2 conserved_trans [OF c0 2(2)] in \<open>simp_all add: run slots_same_def\<close>)
  next
    case (3 vt c lp s2)
    show ?case
      by (rule Asked [of lp s2 vt c]) (use 3 conserved_trans [OF c0 3(2)] in \<open>simp_all add: run slots_same_def\<close>)
  qed
qed

text \<open>
  C8: Obtaining a logger conserves references and explains every refusal. With a live provider and
  readable options the call is defined, keeps the invariant and every reference of others,
  and returns either NULL with a diagnostic or a live logger. Options that fail a check reach no
  implementation at all. A global provider without a registered implementation answers with an
  unbacked logger and no call; with one it is asked exactly once, on a reference that is retained
  before and given back afterwards.
\<close>

theorem get_logger_conserves:
  assumes "proc_inv s" and "points_to s provider (P_LoggerProvider inner)"
    and readable: "logger_options_error al options \<noteq> None"
  shows "\<exists>lp s'. otel_logger_provider_get_logger_with_options im al provider options s = Some (lp, s') \<and>
     proc_inv s' \<and> slots_same s s' \<and> (\<forall>q. external q s' = external q s) \<and>
     (if lp = None then has_last_error s' else \<exists>b. points_to s' lp (P_Logger b)) \<and>
     (logger_options_error al options \<noteq> Some None \<longrightarrow> lp = None \<and> calls s' = calls s) \<and>
     (inner = PI_Global \<and> slot_vtable (logs_slot s) = None \<longrightarrow> calls s' = calls s) \<and>
     (inner = PI_Global \<and> lp \<noteq> None \<longrightarrow> (\<forall>vt. slot_vtable (logs_slot s) = Some vt \<longrightarrow>
        (\<exists>c. calls s' = calls s @ [(R_LoggerProvider vt (slot_ctx (logs_slot s)), Op_Retain),
           (R_LoggerProvider vt c, Op_GetLogger (logger_scope (the options))), (R_LoggerProvider vt c, Op_Free)])))"
proof (cases "logger_options_error al options = Some None")
  case False
  with readable obtain e where e: "logger_options_error al options = Some (Some e)" by auto
  have p0: "points_to (clear_last_error s) provider (P_LoggerProvider inner)" "proc_inv (clear_last_error s)"
    using assms(1,2) by simp_all
  let ?s' = "snd (fail_abi e (clear_last_error s))"
  have run: "otel_logger_provider_get_logger_with_options im al provider options s = Some (None, ?s')"
    using hlp.checked_as_points_to [OF proc_inv_wf [OF p0(2)] p0(1)] e
    by (simp add: otel_logger_provider_get_logger_with_options_def)
  have same: "same_api s ?s'" "calls ?s' = calls s" "has_last_error ?s'"
    by (simp_all add: fail_abi_def same_api_trans [OF same_api_error(1)])
  have "conserved s ?s'" by (rule conserved_same [OF assms(1) same(1)])
  with False e same slots_same_api [OF same(1)] show ?thesis
    by - (intro exI conjI, rule run, simp_all add: conserved_def)
next
  case True
  then obtain q where q: "options = Some q" "logger_options_error al (Some q) = Some None"
    by (cases options) (auto simp: logger_options_error_def)
  show ?thesis
  proof (cases inner)
    case (PI_Backed v ctx)
    have "provider_ok inner"
      using api_inv_points_to [OF ctx_inv_api [OF proc_inv_ctx [OF assms(1)]] assms(2)] by simp
    with PI_Backed assms(2) obtain vt where "points_to s provider (P_LoggerProvider (PI_Backed (Some vt) ctx))" by auto
    then show ?thesis
      by (rule get_logger_backed [OF assms(1) _ q(2), of provider vt ctx im]) (auto simp: conserved_def PI_Backed q)
  next
    case PI_Global
    with assms(2) have p: "points_to s provider (P_LoggerProvider PI_Global)" by simp
    show ?thesis
      by (rule get_logger_global [OF assms(1) p q(2), of im]) (auto simp: conserved_def PI_Global q)
  qed
qed

section \<open>Emission\<close>

text \<open>The call, if any, that an emission of \<open>r\<close> makes, and the status it returns.\<close>

definition emit_calls :: "backing \<Rightarrow> otel_log_record_view \<Rightarrow> (res \<times> vop) list" where
  "emit_calls l r = (case bk_vtable l of None \<Rightarrow> [] | Some vt \<Rightarrow> [(R_Logger vt (bk_ctx l), Op_LoggerEmit r)])"

definition emit_status :: "'e implementation \<Rightarrow> backing \<Rightarrow> otel_log_record_view \<Rightarrow> 'e \<Rightarrow> otel_status" where
  "emit_status im l r e =
     (case bk_vtable l of None \<Rightarrow> St_Ok | Some vt \<Rightarrow> fst (im_status im (R_Logger vt (bk_ctx l)) (Op_LoggerEmit r) e))"

lemma logger_emit_facts:
  assumes inv: "proc_inv s" and l: "points_to s logger (P_Logger l)" and size: "160 \<le> lr_struct_size r"
  obtains s' where "otel_logger_emit im logger (Some r) s = Some (emit_status im l r (impl_state s), s')"
    "same_api s s'" "calls s' = calls s @ emit_calls l r"
proof -
  have chk: "checked_as KIND_LOGGER as_logger logger s = Some (Some l, s)"
    by (rule hl.checked_as_points_to [OF proc_inv_wf [OF inv] l])
  have sz: "\<not> lr_struct_size r < OTEL_LOG_RECORD_VIEW_V1_SIZE" using size by (simp add: OTEL_LOG_RECORD_VIEW_V1_SIZE_def not_less)
  show thesis
  proof (cases "bk_vtable l")
    case None
    with chk sz show thesis by (intro that [of s]) (simp_all add: otel_logger_emit_def emit_status_def emit_calls_def)
  next
    case (Some vt)
    let ?r = "R_Logger vt (bk_ctx l)" and ?s0 = "clear_last_error s"
    have "0 < ledger ?s0 ?r" using oh_logger.live_reference [OF inv l] Some by simp
    then obtain st s' where c: "vt_call (im_status im) ?r (Op_LoggerEmit r) ?s0 = Some (st, s')"
      using vt_call_defined [of ?s0 ?r "im_status im" "Op_LoggerEmit r"] by blast
    note v = vt_call_SomeD [OF c]
    have "st = fst (im_status im ?r (Op_LoggerEmit r) (impl_state s))"
      using c by (auto simp: vt_call_def split: if_splits prod.splits)
    moreover have "same_api s s'" using same_api_trans [OF same_api_error(1) v(1)] .
    ultimately show thesis
      using that [of s'] chk sz Some c v(2)
      by (simp add: otel_logger_emit_def vt_status_def emit_status_def emit_calls_def)
  qed
qed

text \<open>A span context that a live handle or a context carries is valid.\<close>

lemma span_context_ok_valid: "span_context_ok c \<Longrightarrow> span_context_is_valid c"
  by (auto simp: span_context_ok_def span_context_is_valid_def zero_bytes_def)

lemma emit_with_data_facts:
  assumes inv: "proc_inv s" and l: "points_to s logger (P_Logger l)" and size: "160 \<le> lr_struct_size r"
    and c: "span_context_ok c" and raw: "lr_present_fields r AND OTEL_LOG_FIELD_TRACE_CONTEXT = 0"
  obtains s' where "emit_with_data im logger (Some r) c s = Some (emit_status im l (correlate c r) (impl_state s), s')"
    "same_api s s'" "calls s' = calls s @ emit_calls l (correlate c r)"
proof -
  have size': "160 \<le> lr_struct_size (correlate c r)" by (simp add: correlate_def OTEL_LOG_RECORD_VIEW_V1_SIZE_def)
  have run: "emit_with_data im logger (Some r) c s = otel_logger_emit im logger (Some (correlate c r)) s"
    using leD [OF size] raw span_context_ok_valid [OF c]
    by (simp add: emit_with_data_def OTEL_LOG_RECORD_VIEW_V1_SIZE_def)
  show thesis by (rule logger_emit_facts [OF inv l size', of im]) (rule that, simp_all add: run)
qed

text \<open>
  C7: A record that is emitted with a span context carries exactly this context. For a live logger, a
  live span context and a readable record of the supported size, the call is defined and keeps the
  invariant and every reference. A record that already carries a raw trace context is
  refused without a call. Otherwise exactly one call is made through a backed logger (none through
  the no-op logger), and the record in it has the trace id, span id and flags of the context,
  advertises the trace context and the readable prefix, and equals the caller's record in every
  other field.
\<close>

theorem emit_with_context_correlates:
  assumes "proc_inv s" and "points_to s logger (P_Logger l)" and "points_to s context (P_SpanContext c)"
    and "160 \<le> lr_struct_size r"
  shows "\<exists>st s'. otel_logger_emit_with_context im logger (Some r) context s = Some (st, s') \<and>
     proc_inv s' \<and> slots_same s s' \<and> (\<forall>q. external q s' = external q s) \<and>
     (lr_present_fields r AND OTEL_LOG_FIELD_TRACE_CONTEXT \<noteq> 0 \<longrightarrow>
        st = St_InvalidArgument \<and> has_last_error s' \<and> calls s' = calls s) \<and>
     (lr_present_fields r AND OTEL_LOG_FIELD_TRACE_CONTEXT = 0 \<longrightarrow> (\<exists>r'.
        calls s' = calls s @ emit_calls l r' \<and> st = emit_status im l r' (impl_state s) \<and>
        lr_struct_size r' = 160 \<and> lr_present_fields r' = lr_present_fields r OR OTEL_LOG_FIELD_TRACE_CONTEXT \<and>
        ltc_trace_id (lr_trace_context r') = sc_trace_id c \<and> ltc_span_id (lr_trace_context r') = sc_span_id c \<and>
        ltc_trace_flags (lr_trace_context r') = sc_trace_flags c \<and>
        r'\<lparr>lr_struct_size := lr_struct_size r, lr_present_fields := lr_present_fields r,
           lr_trace_context := lr_trace_context r\<rparr> = r))"
proof -
  let ?s0 = "clear_last_error s"
  have inv0: "proc_inv ?s0" and l0: "points_to ?s0 logger (P_Logger l)" and c0: "points_to ?s0 context (P_SpanContext c)"
    using assms(1-3) by simp_all
  have ok: "span_context_ok c"
    using api_inv_points_to [OF ctx_inv_api [OF proc_inv_ctx [OF inv0]] c0] by simp
  have run: "otel_logger_emit_with_context im logger (Some r) context s = emit_with_data im logger (Some r) c ?s0"
    using hsc.checked_as_points_to [OF proc_inv_wf [OF inv0] c0] by (simp add: otel_logger_emit_with_context_def)
  show ?thesis
  proof (cases "lr_present_fields r AND OTEL_LOG_FIELD_TRACE_CONTEXT = 0")
    case True
    obtain s' where e: "emit_with_data im logger (Some r) c ?s0 = Some (emit_status im l (correlate c r) (impl_state ?s0), s')"
        "same_api ?s0 s'" "calls s' = calls ?s0 @ emit_calls l (correlate c r)"
      by (rule emit_with_data_facts [OF inv0 l0 assms(4) ok True])
    have "same_api s s'" using same_api_trans [OF same_api_error(1) e(2)] .
    then have k: "proc_inv s'" "slots_same s s'" "\<forall>q. external q s' = external q s"
      using proc_inv_same assms(1) slots_same_api external_same by blast+
    show ?thesis
      by (intro exI conjI, simp add: run e(1), rule k(1), rule k(2), rule k(3), simp add: True, intro impI, rule exI [of _ "correlate c r"])
        (simp add: e(3) correlate_def OTEL_LOG_RECORD_VIEW_V1_SIZE_def)
  next
    case False
    let ?s' = "snd (fail St_InvalidArgument ''raw trace context and span-context handle are mutually exclusive'' ?s0)"
    have "emit_with_data im logger (Some r) c ?s0 = Some (St_InvalidArgument, ?s')"
      using False leD [OF assms(4)] span_context_ok_valid [OF ok]
      by (simp add: emit_with_data_def OTEL_LOG_RECORD_VIEW_V1_SIZE_def fail_def)
    moreover have "slots_same s ?s'" by (simp add: slots_same_def fail_def)
    ultimately show ?thesis using False assms(1) by (simp add: run)
  qed
qed

text \<open>What the ambient entry point does once its own checks have passed.\<close>

lemma emit_current_facts:
  assumes inv: "proc_inv s" and l: "points_to s logger (P_Logger l)" and size: "160 \<le> lr_struct_size r"
    and d: "d = (if attached th s = [] then None else cd_span_context (en_context (last (attached th s))))"
    and r': "r' = (if bk_vtable l = None \<or> lr_present_fields r AND OTEL_LOG_FIELD_TRACE_CONTEXT \<noteq> 0 then r
      else case d of None \<Rightarrow> r | Some c \<Rightarrow> correlate c r)"
  obtains s' where "otel_logger_emit_with_current_context im th logger (Some r) s =
      Some (emit_status im l r' (impl_state s), s')"
    "conserved s s'" "slots_same s s'" "calls s' = calls s @ emit_calls l r'"
proof -
  let ?s0 = "clear_last_error s"
  have inv0: "proc_inv ?s0" and l0: "points_to ?s0 logger (P_Logger l)" using inv l by simp_all
  have c0: "conserved s ?s0" using inv by simp
  have chk: "checked_as KIND_LOGGER as_logger logger ?s0 = Some (Some l, ?s0)"
    by (rule hl.checked_as_points_to [OF proc_inv_wf [OF inv0] l0])
  note run = otel_logger_emit_with_current_context_def chk OTEL_LOG_RECORD_VIEW_V1_SIZE_def
  note ret = that
  have emit: thesis if r: "r' = r" and go: "otel_logger_emit_with_current_context im th logger (Some r) s = otel_logger_emit im logger (Some r) u"
      and u: "conserved ?s0 u" "slots_same ?s0 u" "calls u = calls ?s0" "impl_state u = impl_state s" "points_to u logger (P_Logger l)" for u
  proof (rule logger_emit_facts [OF conserved_inv [OF u(1)] u(5) size, of im])
    fix s' assume e: "otel_logger_emit im logger (Some r) u = Some (emit_status im l r (impl_state u), s')" "same_api u s'"
      "calls s' = calls u @ emit_calls l r"
    have "conserved s s'"
      using conserved_trans [OF conserved_trans [OF c0 u(1)] conserved_same [OF conserved_inv [OF u(1)] e(2)]] .
    then show thesis
      using ret [of s'] go e r u slots_same_api [OF e(2)] by (simp add: slots_same_def)
  qed
  show thesis
  proof (cases "bk_vtable l = None \<or> lr_present_fields r AND OTEL_LOG_FIELD_TRACE_CONTEXT \<noteq> 0")
    case True
    show thesis by (rule emit [of ?s0]) (use True leD [OF size] inv0 l0 in \<open>simp_all add: r' run conserved_refl slots_same_def\<close>)
  next
    case False
    obtain k s2 where k: "current_data th ?s0 = (k, s2)" by fastforce
    note f = current_data_facts [OF proc_inv_ctx [OF inv0] k] and g = current_data_conserved [OF inv0 k]
    have im_s2: "impl_state s2 = impl_state s"
      using k by (auto simp: current_data_def try_stack_def context_stack_new_def Let_def split: tls_slot.splits)
    have l2: "points_to s2 logger (P_Logger l)" using l0 points_to_cong [OF f(3), of logger "P_Logger l"] by simp
    have dk: "d = (case k of None \<Rightarrow> None | Some x \<Rightarrow> cd_span_context x)"
      using f(5) by (simp add: d attached_def)
    show thesis
    proof (cases d)
      case None
      show thesis by (rule emit [of s2]) (use False None leD [OF size] g im_s2 l2 in \<open>auto simp: r' run k dk\<close>)
    next
      case (Some c)
      have ok: "span_context_ok c" using f(6) dk Some by (cases k) (force simp: context_ok_def)+
      let ?s3 = "clear_last_error s2"
      have inv3: "proc_inv ?s3" and l3: "points_to ?s3 logger (P_Logger l)"
        using conserved_inv [OF g(1)] l2 by simp_all
      have go: "otel_logger_emit_with_current_context im th logger (Some r) s = emit_with_data im logger (Some r) c ?s3"
        using False leD [OF size] dk [symmetric, unfolded Some] by (auto simp: run k)
      have raw: "lr_present_fields r AND OTEL_LOG_FIELD_TRACE_CONTEXT = 0" using False by simp
      show thesis
      proof (rule emit_with_data_facts [OF inv3 l3 size ok raw, of im])
        fix s' assume e: "emit_with_data im logger (Some r) c ?s3 = Some (emit_status im l (correlate c r) (impl_state ?s3), s')"
          "same_api ?s3 s'" "calls s' = calls ?s3 @ emit_calls l (correlate c r)"
        have sa: "same_api s2 s'" using same_api_trans [OF same_api_error(1) e(2)] .
        have "conserved s s'"
          using conserved_trans [OF conserved_trans [OF c0 g(1)] conserved_same [OF conserved_inv [OF g(1)] sa]] .
        then show thesis
          using ret [of s'] go e False Some g slots_same_api [OF sa] im_s2 by (simp add: r' slots_same_def)
      qed
    qed
  qed
qed

text \<open>
  Ambient log correlation uses the context that the calling thread attached last. After an
  attach on the thread, an emission through a backed logger makes exactly one call: a record that
  already carries a trace context is passed on unchanged, any other record is correlated with the
  attached context's span context, or is passed on unchanged when the context has none.
\<close>

theorem current_emission_uses_attached_context:
  assumes "proc_inv s" and "points_to s logger (P_Logger l)" and "bk_vtable l = Some vt" and "points_to s p (P_Context d)"
    and "otel_context_attach th p (Some sc) s = Some (St_Ok, scope, s1)" and "160 \<le> lr_struct_size r"
  shows "\<exists>st s'. otel_logger_emit_with_current_context im th logger (Some r) s1 = Some (st, s') \<and>
     proc_inv s' \<and> slots_same s1 s' \<and> (\<forall>q. external q s' = external q s1) \<and>
     calls s' = calls s1 @ [(R_Logger vt (bk_ctx l), Op_LoggerEmit
       (if lr_present_fields r AND OTEL_LOG_FIELD_TRACE_CONTEXT \<noteq> 0 then r
        else case cd_span_context d of None \<Rightarrow> r | Some c \<Rightarrow> correlate c r))]"
proof -
  note a = attach_conserved [OF assms(1,5)] and last = attach_last [OF assms(1,5,4)]
  have inv1: "proc_inv s1" using conserved_inv [OF a(1)] .
  have l1: "points_to s1 logger (P_Logger l)" using assms(2) points_to_cong [OF a(3), of logger "P_Logger l"] by simp
  show ?thesis
    by (rule emit_current_facts [OF inv1 l1 assms(6) refl refl, of im th])
      (use last assms(3) in \<open>auto simp: emit_calls_def conserved_def\<close>)
qed

text \<open>
  C39: Ambient emission without a context is plain emission, except for a short record. On a thread
  without an attached span context the ambient entry point and \<open>otel_logger_emit\<close> return the same
  status and make the same calls for every readable record of the supported size; for a record
  whose declared size is too small both refuse without a call, but with two different statuses,
  although the header documents them as equivalent.
\<close>

theorem ambient_emission_without_context:
  assumes "proc_inv s" and "points_to s logger (P_Logger l)"
    and "attached th s = [] \<or> cd_span_context (en_context (last (attached th s))) = None"
  shows "\<exists>st1 s1 st2 s2. otel_logger_emit_with_current_context im th logger (Some r) s = Some (st1, s1) \<and>
     otel_logger_emit im logger (Some r) s = Some (st2, s2) \<and> calls s1 = calls s2 \<and>
     (if 160 \<le> lr_struct_size r then st1 = st2
      else st1 = St_InvalidConfig \<and> st2 = St_InvalidArgument \<and> calls s1 = calls s)"
proof (cases "160 \<le> lr_struct_size r")
  case True
  have d: "(if attached th s = [] then None else cd_span_context (en_context (last (attached th s)))) = None"
    using assms(3) by auto
  obtain s1 where 1: "otel_logger_emit_with_current_context im th logger (Some r) s = Some (emit_status im l r (impl_state s), s1)"
      "calls s1 = calls s @ emit_calls l r"
    by (rule emit_current_facts [OF assms(1,2) True refl refl, of im th]) (simp add: d)
  obtain s2 where "otel_logger_emit im logger (Some r) s = Some (emit_status im l r (impl_state s), s2)"
      "calls s2 = calls s @ emit_calls l r"
    by (rule logger_emit_facts [OF assms(1,2) True])
  with 1 True show ?thesis by simp
next
  case False
  have c: "checked_as KIND_LOGGER as_logger logger s = Some (Some l, s)"
    by (rule hl.checked_as_points_to [OF proc_inv_wf [OF assms(1)] assms(2)])
  have inv0: "proc_inv (clear_last_error s)" and l0: "points_to (clear_last_error s) logger (P_Logger l)"
    using assms(1,2) by simp_all
  have "checked_as KIND_LOGGER as_logger logger (clear_last_error s) = Some (Some l, clear_last_error s)"
    by (rule hl.checked_as_points_to [OF proc_inv_wf [OF inv0] l0])
  with c False show ?thesis
    by (simp add: otel_logger_emit_with_current_context_def otel_logger_emit_def OTEL_LOG_RECORD_VIEW_V1_SIZE_def
        not_le fail_def)
qed

section \<open>Sample executions\<close>

text \<open>A logger provider and a logger of the implementation at 11, a span context, and a context that
  carries it.\<close>

definition sample_trace :: span_context_data where
  "sample_trace = \<lparr>sc_trace_id = replicate 16 1, sc_span_id = replicate 8 1, sc_trace_flags = 5,
     sc_is_remote = True, sc_trace_state = []\<rparr>"

definition sample_logger :: backing where
  "sample_logger = \<lparr>bk_vtable = Some 11, bk_ctx = Some 8\<rparr>"

definition sample_log_handles :: "api_payload list" where
  "sample_log_handles =
     [P_LoggerProvider (PI_Backed (Some 11) (Some 7)), P_Logger sample_logger, P_SpanContext sample_trace,
      P_Context \<lparr>cd_span_context = Some sample_trace, cd_baggage = None, cd_flags = 0\<rparr>]"

definition sample_logs_process :: "(nat, unit) process_scheme" where
  "sample_logs_process = with_handles sample_log_handles sample_process"

lemma sample_logs_process_facts:
  "proc_inv sample_logs_process" "calls sample_logs_process = []" "tls sample_logs_process = (\<lambda>_. Tls_Unused)"
  "points_to sample_logs_process (Some 1) (P_LoggerProvider (PI_Backed (Some 11) (Some 7)))"
  "points_to sample_logs_process (Some 2) (P_Logger sample_logger)"
  "points_to sample_logs_process (Some 3) (P_SpanContext sample_trace)"
  "points_to sample_logs_process (Some 4) (P_Context \<lparr>cd_span_context = Some sample_trace, cd_baggage = None, cd_flags = 0\<rparr>)"
proof -
  have ok: "\<forall>b \<in> set sample_log_handles. payload_ok b"
    by (simp add: sample_log_handles_def context_ok_def sample_trace_def span_context_ok_def zero_bytes_def)
  have own: "int (count_list (map owned_by sample_log_handles) (Some q)) \<le> external q sample_process" for q
    by (simp add: sample_log_handles_def sample_logger_def sample_process_inv(2))
  show "proc_inv sample_logs_process" unfolding sample_logs_process_def
    by (rule with_handles_inv [OF sample_process_inv(1) ok own])
  show "calls sample_logs_process = []" "tls sample_logs_process = (\<lambda>_. Tls_Unused)"
    by (simp_all add: sample_logs_process_def with_handles_frame sample_process_sel)
  have n: "points_to sample_logs_process (Some a) (sample_log_handles ! (a - 1))" if "1 \<le> a" "a < 5" for a
    using with_handles_at [OF proc_inv_wf [OF sample_process_inv(1)], of a sample_log_handles] that
    by (simp add: sample_logs_process_def sample_log_handles_def sample_process_sel)
  show "points_to sample_logs_process (Some 1) (P_LoggerProvider (PI_Backed (Some 11) (Some 7)))"
    "points_to sample_logs_process (Some 2) (P_Logger sample_logger)"
    "points_to sample_logs_process (Some 3) (P_SpanContext sample_trace)"
    "points_to sample_logs_process (Some 4) (P_Context \<lparr>cd_span_context = Some sample_trace, cd_baggage = None, cd_flags = 0\<rparr>)"
    using n [of 1] n [of 2] n [of 3] n [of 4] by (simp_all add: sample_log_handles_def)
qed

definition sample_logger_options :: otel_logger_options where
  "sample_logger_options = \<lparr>lgo_struct_size = 72, lgo_name = sv_of [0x6C], lgo_version = sv_empty, lgo_schema_url = sv_empty,
     lgo_attributes = None, lgo_attribute_count = 0\<rparr>"

lemma sample_logger_options_ok: "logger_options_error al (Some sample_logger_options) = Some None"
proof -
  have "sv_as_str (sv_of [0x6C]) = Inr [0x6C]"
    using sv_as_str_sv_of [of "[0x6C]"] valid_utf8_ascii [of "[0x6C]"] by (simp add: isize_max_def)
  moreover have "sv_as_str sv_empty = Inr []" by (simp add: sv_as_str_def sv_as_bytes_def sv_empty_def)
  ultimately show ?thesis
    by (simp add: logger_options_error_def sample_logger_options_def OTEL_LOGGER_OPTIONS_V1_SIZE_def validate_scope_attributes_def)
qed

definition sample_record :: otel_log_record_view where
  "sample_record = \<lparr>lr_struct_size = 200, lr_present_fields = 0, lr_timestamp_unix_nanos = 0,
     lr_observed_timestamp_unix_nanos = 0, lr_severity_number = 9, lr_reserved_flags = 0,
     lr_body = \<lparr>lval_value_type = 0, lval_reserved = 0, lval_string = sv_empty, lval_bool = 0, lval_int64 = 0,
       lval_double = 0, lval_bytes = lb_empty, lval_children = \<lparr>rg_first = 0, rg_count = 0\<rparr>\<rparr>,
     lr_attributes = None, lr_attribute_count = 0, lr_value_nodes = None, lr_value_node_count = 0,
     lr_trace_context = \<lparr>ltc_trace_id = zero_bytes 16, ltc_span_id = zero_bytes 8, ltc_trace_flags = 0,
       ltc_reserved = zero_bytes 7\<rparr>,
     lr_reserved = [0, 0, 0, 0]\<rparr>"

theorem get_logger_conserves_witness:
  "\<exists>lp s'. otel_logger_provider_get_logger_with_options sample_impl (\<lambda>_. True) (Some 1) (Some sample_logger_options)
       sample_logs_process = Some (lp, s') \<and> (\<forall>q. external q s' = external q sample_logs_process)"
proof -
  have "logger_options_error (\<lambda>_. True) (Some sample_logger_options) \<noteq> None" by (simp add: sample_logger_options_ok)
  from get_logger_conserves [OF sample_logs_process_facts(1,4) this, of sample_impl] show ?thesis by blast
qed

theorem emit_with_context_correlates_witness:
  "\<exists>st s' r'. otel_logger_emit_with_context sample_impl (Some 2) (Some sample_record) (Some 3) sample_logs_process = Some (st, s') \<and>
     calls s' = [(R_Logger 11 (Some 8), Op_LoggerEmit r')] \<and> ltc_trace_flags (lr_trace_context r') = 5"
proof -
  have a: "160 \<le> lr_struct_size sample_record" "lr_present_fields sample_record AND OTEL_LOG_FIELD_TRACE_CONTEXT = 0"
    by (simp_all add: sample_record_def)
  have e: "emit_calls sample_logger r' = [(R_Logger 11 (Some 8), Op_LoggerEmit r')]" for r'
    by (simp add: emit_calls_def sample_logger_def)
  from emit_with_context_correlates [OF sample_logs_process_facts(1,5,6) a(1), of sample_impl] a(2)
  obtain st s' r' where "otel_logger_emit_with_context sample_impl (Some 2) (Some sample_record) (Some 3) sample_logs_process = Some (st, s')"
    "calls s' = calls sample_logs_process @ emit_calls sample_logger r'" "ltc_trace_flags (lr_trace_context r') = sc_trace_flags sample_trace"
    by blast
  then show ?thesis by (auto simp: e sample_logs_process_facts(2) sample_trace_def)
qed

lemma sample_log_attach:
  obtains scope s1 where "otel_context_attach 0 (Some 4) (Some sample_scope) sample_logs_process = Some (St_Ok, scope, s1)"
proof -
  have "checked_as KIND_CONTEXT as_context (Some 4) (clear_last_error sample_logs_process) =
      Some (Some \<lparr>cd_span_context = Some sample_trace, cd_baggage = None, cd_flags = 0\<rparr>, clear_last_error sample_logs_process)"
    using sample_logs_process_facts(1,7) by (intro hc.checked_as_points_to) (simp_all add: proc_inv_wf)
  then have "\<exists>scope s1. otel_context_attach 0 (Some 4) (Some sample_scope) sample_logs_process = Some (St_Ok, scope, s1)"
    by (simp add: otel_context_attach_def Let_def sample_scope_def SCOPE_SIZE_def try_stack_def
        context_stack_new_def allocate_generation_def MAX_CONTEXT_DEPTH_def sample_logs_process_facts(3))
  then show thesis using that by blast
qed

theorem current_emission_uses_attached_context_witness:
  "\<exists>(s1 :: (nat, unit) process_scheme) st s'. otel_logger_emit_with_current_context sample_impl 0 (Some 2) (Some sample_record) s1 = Some (st, s') \<and>
     calls s' = calls s1 @ [(R_Logger 11 (Some 8), Op_LoggerEmit (correlate sample_trace sample_record))]"
proof (rule sample_log_attach)
  fix scope s1
  assume a: "otel_context_attach 0 (Some 4) (Some sample_scope) sample_logs_process = Some (St_Ok, scope, s1)"
  have b: "bk_vtable sample_logger = Some 11" "160 \<le> lr_struct_size sample_record"
    "lr_present_fields sample_record AND OTEL_LOG_FIELD_TRACE_CONTEXT = 0" "bk_ctx sample_logger = Some 8"
    by (simp_all add: sample_record_def sample_logger_def)
  from current_emission_uses_attached_context [OF sample_logs_process_facts(1,5) b(1) sample_logs_process_facts(7) a b(2), of sample_impl]
  show ?thesis using b by auto
qed

theorem ambient_emission_without_context_witness:
  "\<exists>s1 s2. otel_logger_emit_with_current_context sample_impl 0 (Some 2) (Some (sample_record\<lparr>lr_struct_size := 8\<rparr>)) sample_logs_process
       = Some (St_InvalidConfig, s1) \<and>
     otel_logger_emit sample_impl (Some 2) (Some (sample_record\<lparr>lr_struct_size := 8\<rparr>)) sample_logs_process = Some (St_InvalidArgument, s2)"
proof -
  have "attached 0 sample_logs_process = [] \<or> cd_span_context (en_context (last (attached 0 sample_logs_process))) = None"
    by (simp add: attached_def sample_logs_process_facts(3))
  from ambient_emission_without_context [OF sample_logs_process_facts(1,5) this, of sample_impl "sample_record\<lparr>lr_struct_size := 8\<rparr>"]
  show ?thesis by auto
qed

end
