(* ===== verification/Instrument_Config.thy ===== *)
theory Instrument_Config
  imports Scope_Attributes
begin

text \<open>
  The configuration of a metric instrument (\<open>validate_instrument_config\<close> of \<open>api/src/metrics.rs\<close>): the
  instrument name syntax, the unit and the explicit histogram boundaries. An \<open>f64\<close> is its 64-bit
  pattern; finiteness and order are read off the sign, exponent and fraction fields.
\<close>

unbundle bit_operations_syntax

section \<open>Floating-point boundaries\<close>

definition f64_is_finite :: "u64 \<Rightarrow> bool" where
  "f64_is_finite w \<longleftrightarrow> drop_bit 52 w AND 0x7FF \<noteq> 0x7FF"

text \<open>The order of finite values: sign and magnitude; both zeros are the same value.\<close>

definition f64_key :: "u64 \<Rightarrow> int" where
  "f64_key w = (let m = uint (w AND 0x7FFFFFFFFFFFFFFF) in if bit w 63 then - m else m)"

definition f64_ge :: "u64 \<Rightarrow> u64 \<Rightarrow> bool" where
  "f64_ge a b \<longleftrightarrow> f64_key b \<le> f64_key a"

text \<open>\<open>values.windows(2).any(|pair| pair[0] >= pair[1])\<close>\<close>

fun not_increasing :: "u64 list \<Rightarrow> bool" where
  "not_increasing (a # b # vs) \<longleftrightarrow> f64_ge a b \<or> not_increasing (b # vs)"
| "not_increasing _ \<longleftrightarrow> False"

section \<open>Options\<close>

record otel_instrument_options =
  ino_struct_size :: u64
  ino_description :: otel_string_view
  ino_unit :: otel_string_view
  ino_boundaries :: "u64 list option"
  ino_boundary_count :: usize

definition MAX_HISTOGRAM_BOUNDARIES :: nat where "MAX_HISTOGRAM_BOUNDARIES = 65536"
definition OTEL_INSTRUMENT_OPTIONS_V1_SIZE :: u64 where "OTEL_INSTRUMENT_OPTIONS_V1_SIZE = 56"

definition is_ascii_alphabetic :: "byte \<Rightarrow> bool" where
  "is_ascii_alphabetic c \<longleftrightarrow> 0x41 \<le> c \<and> c \<le> 0x5A \<or> 0x61 \<le> c \<and> c \<le> 0x7A"

definition is_ascii_alphanumeric :: "byte \<Rightarrow> bool" where
  "is_ascii_alphanumeric c \<longleftrightarrow> is_ascii_alphabetic c \<or> 0x30 \<le> c \<and> c \<le> 0x39"

definition is_ascii :: "bytes \<Rightarrow> bool" where
  "is_ascii bs \<longleftrightarrow> list_all (\<lambda>c. c \<le> 0x7F) bs"

section \<open>Validation\<close>

definition instrument_name_error :: "otel_string_view \<Rightarrow> abi_error option" where
  "instrument_name_error name =
     (case sv_as_str name of
        Inl e \<Rightarrow> Some e
      | Inr s \<Rightarrow>
          if s = [] then Some (abi_error_new St_InvalidConfig ''metric instrument name must not be empty'')
          else if length s > 255 then
            Some (abi_error_new St_InvalidConfig ''metric instrument name must be at most 255 bytes'')
          else if \<not> is_ascii_alphabetic (s ! 0) \<or>
              \<not> list_all (\<lambda>c. is_ascii_alphanumeric c \<or> c \<in> set (text_bytes ''_.-/'')) s then
            Some (abi_error_new St_InvalidConfig
              (''metric instrument name must start with ASCII alphabetic and contain only ASCII alphanumeric, '_', '.', '-', or '/'' @
               [CHR 0x27]))
          else None)"

text \<open>Description, unit, boundaries and count as read from the options; the defaults without any.\<close>

definition read_instrument_options ::
  "otel_instrument_options option \<Rightarrow>
     abi_error + otel_string_view \<times> otel_string_view \<times> u64 list option \<times> usize" where
  "read_instrument_options options =
     (case options of
        None \<Rightarrow> Inr (sv_empty, sv_empty, None, 0)
      | Some q \<Rightarrow>
          if ino_struct_size q < OTEL_INSTRUMENT_OPTIONS_V1_SIZE then
            Inl (abi_error_new St_InvalidConfig ''instrument options struct_size is too small'')
          else
            (case sv_as_str (ino_description q) of
               Inl e \<Rightarrow> Inl e
             | Inr d \<Rightarrow>
                 (case sv_as_str (ino_unit q) of
                    Inl e \<Rightarrow> Inl e
                  | Inr unit_str \<Rightarrow>
                      if length unit_str > 63 \<or> \<not> is_ascii unit_str then
                        Inl (abi_error_new St_InvalidConfig ''metric instrument unit must be ASCII and at most 63 bytes'')
                      else Inr (ino_description q, ino_unit q, ino_boundaries q, ino_boundary_count q))))"

text \<open>The checked boundaries. \<open>None\<close> outside: the array is shorter than its count.\<close>

definition check_boundaries ::
  "bool \<Rightarrow> u64 list option \<Rightarrow> usize \<Rightarrow> (abi_error + u64 list option) option" where
  "check_boundaries histogram boundaries boundary_count =
     (if \<not> histogram then
        (if boundary_count \<noteq> 0 \<or> boundaries \<noteq> None then
           Some (Inl (abi_error_new St_InvalidConfig ''histogram boundaries are only valid for histogram instruments''))
         else Some (Inr boundaries))
      else if unat boundary_count > MAX_HISTOGRAM_BOUNDARIES then
        Some (Inl (abi_error_new St_InvalidConfig ''histogram boundary count exceeds the supported maximum''))
      else if boundary_count = 0 then Some (Inr None)
      else
        (case boundaries of
           None \<Rightarrow> Some (Inl (abi_error_new St_InvalidArgument ''histogram boundaries are NULL with non-zero count''))
         | Some xs \<Rightarrow>
             if unat boundary_count * 8 > isize_max then
               Some (Inl (abi_error_new St_InvalidArgument ''histogram boundary array exceeds the maximum supported size''))
             else if length xs < unat boundary_count then None
             else
               (let values = take (unat boundary_count) xs in
                if list_ex (\<lambda>v. \<not> f64_is_finite v) values \<or> not_increasing values then
                  Some (Inl (abi_error_new St_InvalidConfig ''histogram boundaries must be finite and strictly increasing''))
                else Some (Inr boundaries))))"

definition validate_instrument_config ::
  "otel_string_view \<Rightarrow> otel_instrument_options option \<Rightarrow> bool \<Rightarrow> (abi_error + otel_metric_instrument_config) option" where
  "validate_instrument_config name options histogram =
     (case instrument_name_error name of
        Some e \<Rightarrow> Some (Inl e)
      | None \<Rightarrow>
          (case read_instrument_options options of
             Inl e \<Rightarrow> Some (Inl e)
           | Inr (description, unit, boundaries, boundary_count) \<Rightarrow>
               (case check_boundaries histogram boundaries boundary_count of
                  None \<Rightarrow> None
                | Some (Inl e) \<Rightarrow> Some (Inl e)
                | Some (Inr bs) \<Rightarrow>
                    Some (Inr \<lparr>mic_kind = 0, mic_number = 0, mic_name = name, mic_description = description,
                      mic_unit = unit, mic_boundaries = bs, mic_boundary_count = boundary_count,
                      mic_callback = None, mic_callback_state = None, mic_callback_state_free = False\<rparr>))))"

section \<open>What is accepted\<close>

definition name_ok :: "otel_string_view \<Rightarrow> bool" where
  "name_ok name \<longleftrightarrow> (\<exists>c cs. sv_as_str name = Inr (c # cs) \<and> length (c # cs) \<le> 255 \<and> is_ascii_alphabetic c \<and>
     (\<forall>b \<in> set (c # cs). is_ascii_alphanumeric b \<or> b \<in> {0x5F, 0x2E, 0x2D, 0x2F}))"

definition strictly_increasing :: "u64 list \<Rightarrow> bool" where
  "strictly_increasing vs \<longleftrightarrow> sorted_wrt (\<lambda>a b. f64_key a < f64_key b) vs"

definition boundaries_ok :: "bool \<Rightarrow> u64 list option \<Rightarrow> usize \<Rightarrow> bool" where
  "boundaries_ok histogram boundaries count \<longleftrightarrow>
     (if histogram then
        count = 0 \<or> unat count \<le> 65536 \<and> (\<exists>xs. boundaries = Some xs \<and>
          (\<forall>v \<in> set (take (unat count) xs). f64_is_finite v) \<and> strictly_increasing (take (unat count) xs))
      else count = 0 \<and> boundaries = None)"

definition options_ok :: "bool \<Rightarrow> otel_instrument_options option \<Rightarrow> bool" where
  "options_ok histogram options \<longleftrightarrow>
     (case options of
        None \<Rightarrow> True
      | Some q \<Rightarrow> 56 \<le> ino_struct_size q \<and> (\<exists>d. sv_as_str (ino_description q) = Inr d) \<and>
          (\<exists>u. sv_as_str (ino_unit q) = Inr u \<and> length u \<le> 63 \<and> (\<forall>c \<in> set u. c \<le> 0x7F)) \<and>
          boundaries_ok histogram (ino_boundaries q) (ino_boundary_count q))"

lemma not_increasing_iff: "not_increasing vs \<longleftrightarrow> \<not> strictly_increasing vs"
proof (induction vs rule: not_increasing.induct)
  case (1 a b vs)
  show ?case
  proof (cases "f64_key a < f64_key b")
    case True
    then have "strictly_increasing (a # b # vs) \<longleftrightarrow> strictly_increasing (b # vs)"
      by (auto simp: strictly_increasing_def)
    with True 1 show ?thesis by (simp add: f64_ge_def)
  next
    case False
    then show ?thesis by (simp add: f64_ge_def strictly_increasing_def)
  qed
qed (simp_all add: strictly_increasing_def)

lemma instrument_name_error_iff: "instrument_name_error name = None \<longleftrightarrow> name_ok name"
proof (cases "sv_as_str name")
  case (Inr s)
  have "set (text_bytes ''_.-/'') = {0x5F, 0x2E, 0x2D, 0x2F}" by (simp add: text_bytes_def of_char_def)
  with Inr show ?thesis
    by (cases s) (auto simp: instrument_name_error_def name_ok_def list_all_iff)
qed (simp add: instrument_name_error_def name_ok_def)

lemma check_boundaries_iff:
  assumes "\<And>xs. boundaries = Some xs \<Longrightarrow> unat count \<le> length xs"
  shows "(\<exists>bs. check_boundaries histogram boundaries count = Some (Inr bs)) \<longleftrightarrow> boundaries_ok histogram boundaries count"
    and "check_boundaries histogram boundaries count \<noteq> None"
proof -
  have sz: "\<not> isize_max < unat count * 8" if "unat count \<le> 65536" using that by (simp add: isize_max_def)
  have u: "0 < unat count" if "count \<noteq> 0" using that by (simp add: unat_gt_0)
  show "(\<exists>bs. check_boundaries histogram boundaries count = Some (Inr bs)) \<longleftrightarrow> boundaries_ok histogram boundaries count"
    using assms sz u
    by (auto simp: check_boundaries_def boundaries_ok_def MAX_HISTOGRAM_BOUNDARIES_def Let_def list_ex_iff
        not_increasing_iff not_less split: option.splits)
  show "check_boundaries histogram boundaries count \<noteq> None"
    using assms by (auto simp: check_boundaries_def Let_def not_less split: option.splits)
qed

text \<open>A refusal is never reported as success.\<close>

lemma sv_as_str_error: "sv_as_str v = Inl e \<Longrightarrow> err_status e \<noteq> St_Ok"
  by (auto simp: sv_as_str_def sv_as_bytes_def abi_error_new_def split: sum.splits option.splits if_splits)

lemma config_error_status: "validate_instrument_config name options h = Some (Inl e) \<Longrightarrow> err_status e \<noteq> St_Ok"
  using sv_as_str_error
  by (auto simp: validate_instrument_config_def instrument_name_error_def read_instrument_options_def
      check_boundaries_def abi_error_new_def Let_def split: sum.splits option.splits if_splits)

text \<open>
  C36: An instrument configuration is accepted exactly when it is well formed. For readable
  boundaries the validation always answers; it accepts if and only if the name is 1 to 255
  bytes of the instrument name syntax, the options (if any) cover their first version, the description
  is valid UTF-8, the unit is at most 63 ASCII bytes, and the boundaries are absent except for a
  histogram, where at most 65536 of them are finite and strictly increasing.
\<close>

theorem instrument_config_accepted_iff:
  assumes readable: "\<And>q xs. options = Some q \<Longrightarrow> ino_boundaries q = Some xs \<Longrightarrow> unat (ino_boundary_count q) \<le> length xs"
  shows "validate_instrument_config name options histogram \<noteq> None \<and>
    ((\<exists>cfg. validate_instrument_config name options histogram = Some (Inr cfg)) \<longleftrightarrow> name_ok name \<and> options_ok histogram options)"
proof (cases "instrument_name_error name")
  case (Some e)
  then have "\<not> name_ok name" using instrument_name_error_iff [of name] by simp
  with Some show ?thesis by (simp add: validate_instrument_config_def)
next
  case None
  then have n: "name_ok name" using instrument_name_error_iff by blast
  show ?thesis
  proof (cases "read_instrument_options options")
    case (Inl e)
    then have "\<not> options_ok histogram options"
      by (auto simp: read_instrument_options_def options_ok_def is_ascii_def list_all_iff OTEL_INSTRUMENT_OPTIONS_V1_SIZE_def
          split: option.splits sum.splits if_splits)
    with Inl None show ?thesis by (simp add: validate_instrument_config_def)
  next
    case (Inr v)
    obtain d u bs c where v: "v = (d, u, bs, c)" by (cases v) auto
    have r: "\<And>xs. bs = Some xs \<Longrightarrow> unat c \<le> length xs"
      using Inr v readable by (auto simp: read_instrument_options_def split: option.splits sum.splits if_splits)
    have "options_ok histogram options \<longleftrightarrow> boundaries_ok histogram bs c"
      using Inr v
      by (auto simp: read_instrument_options_def options_ok_def is_ascii_def list_all_iff OTEL_INSTRUMENT_OPTIONS_V1_SIZE_def
          boundaries_ok_def not_less split: option.splits sum.splits if_splits)
    then show ?thesis
      using None Inr v n check_boundaries_iff [of bs c histogram, OF r]
      by (auto simp: validate_instrument_config_def split: option.splits sum.splits)
  qed
qed

definition sample_boundaries :: "u64 list" where
  "sample_boundaries = [0xC000000000000000, 0x8000000000000000, 0x3FF0000000000000]"

definition sample_histogram_options :: otel_instrument_options where
  "sample_histogram_options = \<lparr>ino_struct_size = 56, ino_description = sv_empty, ino_unit = sv_empty,
     ino_boundaries = Some sample_boundaries, ino_boundary_count = 3\<rparr>"

lemma sample_name_ok: "name_ok (sv_of [0x68, 0x2E, 0x31])"
proof -
  have "valid_utf8 [0x68, 0x2E, 0x31]" by (rule valid_utf8_ascii) auto
  then have "sv_as_str (sv_of [0x68, 0x2E, 0x31]) = Inr [0x68, 0x2E, 0x31]"
    by (intro sv_as_str_sv_of) (simp_all add: isize_max_def)
  then show ?thesis
    by (simp add: name_ok_def is_ascii_alphabetic_def is_ascii_alphanumeric_def)
qed

theorem instrument_config_accepted_iff_witness:
  "(\<exists>cfg. validate_instrument_config (sv_of [0x68, 0x2E, 0x31]) (Some sample_histogram_options) True = Some (Inr cfg)) \<and>
   \<not> (\<exists>cfg. validate_instrument_config (sv_of [0x68, 0x2E, 0x31]) (Some sample_histogram_options) False = Some (Inr cfg))"
proof -
  have r: "unat (ino_boundary_count q) \<le> length xs"
    if "Some sample_histogram_options = Some q" "ino_boundaries q = Some xs" for q xs
    using that by (auto simp: sample_histogram_options_def sample_boundaries_def)
  have "sv_as_str sv_empty = Inr []" by (simp add: sv_as_str_def sv_as_bytes_def sv_empty_def)
  then have "options_ok True (Some sample_histogram_options)" "\<not> options_ok False (Some sample_histogram_options)"
    by (simp_all add: options_ok_def boundaries_ok_def sample_histogram_options_def sample_boundaries_def
        strictly_increasing_def f64_is_finite_def f64_key_def Let_def)
  then show ?thesis
    using instrument_config_accepted_iff [where name = "sv_of [0x68, 0x2E, 0x31]" and histogram = True, OF r]
      instrument_config_accepted_iff [where name = "sv_of [0x68, 0x2E, 0x31]" and histogram = False, OF r] sample_name_ok by blast
qed

end
