(* ===== verification/Metrics_Api.thy ===== *)
theory Metrics_Api
  imports Instrument_Config
begin

text \<open>
  Meter providers, meters and synchronous instruments (\<open>api/src/metrics.rs\<close>). The nine instrument
  types and the four bound instrument types are instances of two macros in the source; here the
  type is an argument of each operation. The number kind of a recorded value is fixed by the C
  signature of the entry point.
\<close>

section \<open>Meters\<close>

record otel_meter_options =
  mto_struct_size :: u64
  mto_name :: otel_string_view
  mto_version :: otel_string_view
  mto_schema_url :: otel_string_view
  mto_attributes :: "otel_key_value list option"
  mto_attribute_count :: usize

definition OTEL_METER_OPTIONS_V1_SIZE :: u64 where "OTEL_METER_OPTIONS_V1_SIZE = 72"

text \<open>The checks on the options: the first error. The outer \<open>None\<close> is an attribute array shorter than
  its count.\<close>

definition meter_options_error ::
  "(nat \<Rightarrow> bool) \<Rightarrow> otel_meter_options option \<Rightarrow> abi_error option option" where
  "meter_options_error al options =
     (case options of
        None \<Rightarrow> Some (Some (abi_error_new St_InvalidArgument ''meter options must not be NULL''))
      | Some q \<Rightarrow>
          if mto_struct_size q < OTEL_METER_OPTIONS_V1_SIZE then
            Some (Some (abi_error_new St_InvalidArgument
              ''meter options struct_size is smaller than the supported prefix''))
          else
            (case sv_as_str (mto_name q) of
               Inl e \<Rightarrow> Some (Some e)
             | Inr n \<Rightarrow>
                 (case sv_as_str (mto_version q) of
                    Inl e \<Rightarrow> Some (Some e)
                  | Inr v \<Rightarrow>
                      (case sv_as_str (mto_schema_url q) of
                         Inl e \<Rightarrow> Some (Some e)
                       | Inr u \<Rightarrow> validate_scope_attributes al (mto_attributes q) (mto_attribute_count q)))))"

definition meter_scope :: "otel_meter_options \<Rightarrow> otel_scope_config" where
  "meter_scope q =
     \<lparr>scp_name = mto_name q, scp_version = mto_version q, scp_schema_url = mto_schema_url q,
      scp_attributes = mto_attributes q, scp_attribute_count = mto_attribute_count q\<rparr>"

definition new_meter :: "ptr \<Rightarrow> ptr \<Rightarrow> ('e, 'm) process_scheme \<Rightarrow> ptr \<times> ('e, 'm) process_scheme" where
  "new_meter vtable ctx s = into_raw KIND_METER (P_Meter \<lparr>bk_vtable = vtable, bk_ctx = ctx\<rparr>) s"

definition ensure_error :: "string \<Rightarrow> ('e, 'm) process_scheme \<Rightarrow> ('e, 'm) process_scheme" where
  "ensure_error msg s = (if has_last_error s then s else set_error_text msg s)"

text \<open>The entry that the installed implementation supports for these options, if any.\<close>

definition get_meter_op :: "'e implementation \<Rightarrow> addr \<Rightarrow> otel_meter_options \<Rightarrow> vop option" where
  "get_meter_op im vt q =
     (if metrics_vtable_supports_scope_config (im_header im vt) then Some (Op_GetMeterWithScope (meter_scope q))
      else if mto_attribute_count q = 0 then Some (Op_GetMeter (mto_name q) (mto_version q) (mto_schema_url q))
      else None)"

definition get_meter_from ::
  "'e implementation \<Rightarrow> ptr \<Rightarrow> ptr \<Rightarrow> bool \<Rightarrow> otel_meter_options \<Rightarrow> ('e, 'm) process_scheme
     \<Rightarrow> (ptr \<times> ('e, 'm) process_scheme) option" where
  "get_meter_from im vtable ctx owned q s =
     (case vtable of
        None \<Rightarrow> None
      | Some vt \<Rightarrow>
          (case get_meter_op im vt q of
             None \<Rightarrow>
               (let s1 = snd (fail St_InvalidConfig ''registered Metrics SDK does not support scope attributes'' s)
                in map_option (\<lambda>s2. (None, ensure_error ''backed meter creation failed'' s2))
                     (if owned then vt_free im (R_MeterProvider vt ctx) s1 else Some s1))
           | Some op \<Rightarrow>
               (case request_ctx im owned (R_MeterProvider vt ctx) op (R_Meter vt) s of
                  None \<Rightarrow> None
                | Some (None, s1) \<Rightarrow> Some (None, ensure_error ''backed meter creation failed'' s1)
                | Some (Some c, s1) \<Rightarrow> Some (new_meter (Some vt) (Some c) s1))))"

definition otel_meter_provider_get_meter_with_options ::
  "'e implementation \<Rightarrow> (nat \<Rightarrow> bool) \<Rightarrow> ptr \<Rightarrow> otel_meter_options option \<Rightarrow> ('e, 'm) process_scheme
     \<Rightarrow> (ptr \<times> ('e, 'm) process_scheme) option" where
  "otel_meter_provider_get_meter_with_options im al provider options s =
     (case checked_as KIND_METER_PROVIDER as_meter_provider provider (clear_last_error s) of
        None \<Rightarrow> None
      | Some (None, s1) \<Rightarrow> Some (None, s1)
      | Some (Some inner, s1) \<Rightarrow>
          (case meter_options_error al options of
             None \<Rightarrow> None
           | Some (Some e) \<Rightarrow> Some (None, snd (fail_abi e s1))
           | Some None \<Rightarrow>
               (case inner of
                  PI_Backed vtable ctx \<Rightarrow> get_meter_from im vtable ctx False (the options) s1
                | PI_Global \<Rightarrow>
                    (case retain_global_metrics im s1 of
                       None \<Rightarrow> None
                     | Some (NoProvider, s2) \<Rightarrow> Some (new_meter None None s2)
                     | Some (RetainFailed, s2) \<Rightarrow> Some (None, s2)
                     | Some (Retained vt ctx, s2) \<Rightarrow> get_meter_from im (Some vt) ctx True (the options) s2))))"

definition otel_meter_provider_get_meter ::
  "'e implementation \<Rightarrow> (nat \<Rightarrow> bool) \<Rightarrow> ptr \<Rightarrow> otel_string_view \<Rightarrow> otel_string_view \<Rightarrow> otel_string_view
     \<Rightarrow> ('e, 'm) process_scheme \<Rightarrow> (ptr \<times> ('e, 'm) process_scheme) option" where
  "otel_meter_provider_get_meter im al provider name version schema_url s =
     otel_meter_provider_get_meter_with_options im al provider
       (Some \<lparr>mto_struct_size = 72, mto_name = name, mto_version = version, mto_schema_url = schema_url,
              mto_attributes = None, mto_attribute_count = 0\<rparr>) s"

definition otel_meter_provider_destroy ::
  "'e implementation \<Rightarrow> ptr \<Rightarrow> ('e, 'm) process_scheme \<Rightarrow> ('e, 'm) process_scheme option" where
  "otel_meter_provider_destroy im provider s =
     (case checked_as KIND_METER_PROVIDER as_meter_provider provider s of
        Some (Some (PI_Backed None ctx), s1) \<Rightarrow> None
      | _ \<Rightarrow> destroy_owned im KIND_METER_PROVIDER as_meter_provider (provider_res R_MeterProvider) provider s)"

definition otel_meter_destroy ::
  "'e implementation \<Rightarrow> ptr \<Rightarrow> ('e, 'm) process_scheme \<Rightarrow> ('e, 'm) process_scheme option" where
  "otel_meter_destroy im meter s =
     destroy_owned im KIND_METER as_meter (\<lambda>m. backing_res R_Meter (bk_vtable m) (bk_ctx m)) meter s"

section \<open>Creating instruments\<close>

fun instrument_kind_code :: "otel_metric_instrument_kind \<Rightarrow> u32" where
  "instrument_kind_code IK_Counter = 0"
| "instrument_kind_code IK_UpDownCounter = 1"
| "instrument_kind_code IK_Gauge = 2"
| "instrument_kind_code IK_Histogram = 3"
| "instrument_kind_code IK_ObservableCounter = 4"
| "instrument_kind_code IK_ObservableUpDownCounter = 5"
| "instrument_kind_code IK_ObservableGauge = 6"

fun number_kind_code :: "otel_metric_number_kind \<Rightarrow> u32" where
  "number_kind_code NK_U64 = 0"
| "number_kind_code NK_I64 = 1"
| "number_kind_code NK_F64 = 2"

text \<open>The kind, number kind and histogram flag in each instance of the macro.\<close>

fun sync_spec :: "sync_instrument \<Rightarrow> otel_metric_instrument_kind \<times> otel_metric_number_kind \<times> bool" where
  "sync_spec CounterU64 = (IK_Counter, NK_U64, False)"
| "sync_spec CounterF64 = (IK_Counter, NK_F64, False)"
| "sync_spec UpDownCounterI64 = (IK_UpDownCounter, NK_I64, False)"
| "sync_spec UpDownCounterF64 = (IK_UpDownCounter, NK_F64, False)"
| "sync_spec GaugeU64 = (IK_Gauge, NK_U64, False)"
| "sync_spec GaugeI64 = (IK_Gauge, NK_I64, False)"
| "sync_spec GaugeF64 = (IK_Gauge, NK_F64, False)"
| "sync_spec HistogramU64 = (IK_Histogram, NK_U64, True)"
| "sync_spec HistogramF64 = (IK_Histogram, NK_F64, True)"

text \<open>One creation call, through the entry that reports a status where it is supported.\<close>

definition creation_op :: "'e implementation \<Rightarrow> addr \<Rightarrow> otel_metric_instrument_config \<Rightarrow> vop" where
  "creation_op im vt config =
     (if metrics_vtable_supports_creation_status (im_header im vt) then Op_CreateInstrumentWithStatus config
      else Op_CreateInstrument config)"

definition call_creation ::
  "'e implementation \<Rightarrow> addr \<Rightarrow> ptr \<Rightarrow> otel_metric_instrument_config \<Rightarrow> ('e, 'm) process_scheme
     \<Rightarrow> ((ptr \<times> otel_status) \<times> ('e, 'm) process_scheme) option" where
  "call_creation im vt meter_ctx config s =
     (if metrics_vtable_supports_creation_status (im_header im vt) then
        vt_ptr_status im (R_Meter vt meter_ctx) (creation_op im vt config) s
      else
        map_option (\<lambda>(p, s1). ((p, St_Ok), s1)) (vt_ptr im (R_Meter vt meter_ctx) (creation_op im vt config) s))"

definition create_backed ::
  "'e implementation \<Rightarrow> addr \<Rightarrow> ptr \<Rightarrow> otel_metric_instrument_config \<Rightarrow> string \<Rightarrow> ('e, 'm) process_scheme
     \<Rightarrow> ((otel_status + ptr \<times> ptr) \<times> ('e, 'm) process_scheme) option" where
  "create_backed im vt meter_ctx config msg s =
     (case call_creation im vt meter_ctx config s of
        None \<Rightarrow> None
      | Some ((None, status), s1) \<Rightarrow>
          Some (Inl (if status = St_Ok then St_InvalidConfig else status), ensure_error msg s1)
      | Some ((Some c, status), s1) \<Rightarrow>
          Some (Inr (Some vt, Some c), acquire (R_Instrument vt (Some c)) s1))"

definition create_instrument ::
  "'e implementation \<Rightarrow> backing \<Rightarrow> otel_metric_instrument_config \<Rightarrow> otel_metric_instrument_kind
     \<Rightarrow> otel_metric_number_kind \<Rightarrow> ('e, 'm) process_scheme
     \<Rightarrow> ((otel_status + ptr \<times> ptr) \<times> ('e, 'm) process_scheme) option" where
  "create_instrument im meter config ikind number s =
     (case bk_vtable meter of
        None \<Rightarrow> Some (Inr (None, None), s)
      | Some vt \<Rightarrow>
          create_backed im vt (bk_ctx meter)
            (config\<lparr>mic_kind := instrument_kind_code ikind, mic_number := number_kind_code number\<rparr>)
            ''backed metric instrument creation failed'' s)"

text \<open>\<open>out_null\<close>: whether the output pointer is NULL. The result holds what is finally stored through
  it.\<close>

definition create_sync_instrument ::
  "'e implementation \<Rightarrow> sync_instrument \<Rightarrow> ptr \<Rightarrow> otel_string_view \<Rightarrow> otel_instrument_options option \<Rightarrow> bool
     \<Rightarrow> ('e, 'm) process_scheme \<Rightarrow> (otel_status \<times> ptr option \<times> ('e, 'm) process_scheme) option" where
  "create_sync_instrument im i meter name options out_null s =
     (let s0 = clear_last_error s in
      if out_null then Some (fail_out St_InvalidArgument ''instrument out pointer is NULL'' None s0)
      else
        (case checked_as KIND_METER as_meter meter s0 of
           None \<Rightarrow> None
         | Some (None, s1) \<Rightarrow> Some (St_InvalidArgument, Some None, s1)
         | Some (Some m, s1) \<Rightarrow>
             (case sync_spec i of
                (ikind, number, histogram) \<Rightarrow>
                  (case validate_instrument_config name options histogram of
                     None \<Rightarrow> None
                   | Some (Inl e) \<Rightarrow> Some (fst (fail_abi e s1), Some None, snd (fail_abi e s1))
                   | Some (Inr config) \<Rightarrow>
                       (case create_instrument im m config ikind number s1 of
                          None \<Rightarrow> None
                        | Some (Inl status, s2) \<Rightarrow> Some (status, Some None, s2)
                        | Some (Inr (vtable, ctx), s2) \<Rightarrow>
                            (case into_raw (sync_kind i) (P_Sync i \<lparr>bk_vtable = vtable, bk_ctx = ctx\<rparr>) s2 of
                               (p, s3) \<Rightarrow> Some (St_Ok, Some p, s3)))))))"

definition record_sync ::
  "'e implementation \<Rightarrow> sync_instrument \<Rightarrow> ptr \<Rightarrow> metric_value \<Rightarrow> otel_key_value list option \<Rightarrow> usize
     \<Rightarrow> ('e, 'm) process_scheme \<Rightarrow> (otel_status \<times> ('e, 'm) process_scheme) option" where
  "record_sync im i instrument value attributes attribute_count s =
     (case checked_as (sync_kind i) (as_sync i) instrument s of
        None \<Rightarrow> None
      | Some (None, s1) \<Rightarrow> Some (St_InvalidArgument, s1)
      | Some (Some b, s1) \<Rightarrow>
          (case bk_vtable b of
             None \<Rightarrow> Some (St_Ok, s1)
           | Some vt \<Rightarrow>
               vt_status im (R_Instrument vt (bk_ctx b)) (Op_Record value attributes attribute_count) (clear_last_error s1)))"

definition destroy_sync ::
  "'e implementation \<Rightarrow> sync_instrument \<Rightarrow> ptr \<Rightarrow> ('e, 'm) process_scheme \<Rightarrow> ('e, 'm) process_scheme option" where
  "destroy_sync im i instrument s =
     destroy_owned im (sync_kind i) (as_sync i) (\<lambda>b. backing_res R_Instrument (bk_vtable b) (bk_ctx b)) instrument s"

section \<open>Bound instruments\<close>

fun bound_source :: "bound_instrument \<Rightarrow> sync_instrument" where
  "bound_source BoundCounterU64 = CounterU64"
| "bound_source BoundCounterF64 = CounterF64"
| "bound_source BoundHistogramU64 = HistogramU64"
| "bound_source BoundHistogramF64 = HistogramF64"

text \<open>A context that comes with a failure status is freed at once.\<close>

definition bind_instrument ::
  "'e implementation \<Rightarrow> bound_instrument \<Rightarrow> ptr \<Rightarrow> otel_key_value list option \<Rightarrow> usize \<Rightarrow> bool
     \<Rightarrow> ('e, 'm) process_scheme \<Rightarrow> (otel_status \<times> ptr option \<times> ('e, 'm) process_scheme) option" where
  "bind_instrument im i instrument attributes attribute_count out_null s =
     (let s0 = clear_last_error s in
      if out_null then Some (fail_out St_InvalidArgument ''bound instrument out pointer is NULL'' None s0)
      else
        (case checked_as (sync_kind (bound_source i)) (as_sync (bound_source i)) instrument s0 of
           None \<Rightarrow> None
         | Some (None, s1) \<Rightarrow> Some (St_InvalidArgument, Some None, s1)
         | Some (Some b, s1) \<Rightarrow>
             (case bk_vtable b of
                None \<Rightarrow>
                  (case into_raw (bound_kind i) (P_Bound i \<lparr>bk_vtable = None, bk_ctx = None\<rparr>) s1 of
                     (p, s2) \<Rightarrow> Some (St_Ok, Some p, s2))
              | Some vt \<Rightarrow>
                  if \<not> metrics_vtable_supports_bound_instruments (im_header im vt) then
                    Some (fail_out St_InvalidConfig ''installed Metrics SDK does not support bound instruments'' (Some None) s1)
                  else
                    (case vt_ptr_status im (R_Instrument vt (bk_ctx b)) (Op_Bind attributes attribute_count) s1 of
                       None \<Rightarrow> None
                     | Some ((ctx, status), s2) \<Rightarrow>
                         (let s3 = acquire_opt (R_Bound vt) ctx s2 in
                          if status \<noteq> St_Ok then
                            map_option (\<lambda>s4. (status, Some None, s4))
                              (if ctx \<noteq> None then vt_free im (R_Bound vt ctx) s3 else Some s3)
                          else
                            (case ctx of
                               None \<Rightarrow>
                                 Some (fail_out St_InternalError ''Metrics SDK returned a NULL bound instrument'' (Some None) s3)
                             | Some c \<Rightarrow>
                                 (case into_raw (bound_kind i) (P_Bound i \<lparr>bk_vtable = Some vt, bk_ctx = ctx\<rparr>) s3 of
                                    (p, s4) \<Rightarrow> Some (St_Ok, Some p, s4))))))))"

definition record_bound ::
  "'e implementation \<Rightarrow> bound_instrument \<Rightarrow> ptr \<Rightarrow> metric_value \<Rightarrow> ('e, 'm) process_scheme
     \<Rightarrow> (otel_status \<times> ('e, 'm) process_scheme) option" where
  "record_bound im i instrument value s =
     (case checked_as (bound_kind i) (as_bound i) instrument s of
        None \<Rightarrow> None
      | Some (None, s1) \<Rightarrow> Some (St_InvalidArgument, s1)
      | Some (Some b, s1) \<Rightarrow>
          (case bk_vtable b of
             None \<Rightarrow> Some (St_Ok, s1)
           | Some vt \<Rightarrow> vt_status im (R_Bound vt (bk_ctx b)) (Op_BoundRecord value) (clear_last_error s1)))"

definition destroy_bound ::
  "'e implementation \<Rightarrow> bound_instrument \<Rightarrow> ptr \<Rightarrow> ('e, 'm) process_scheme \<Rightarrow> ('e, 'm) process_scheme option" where
  "destroy_bound im i instrument s =
     destroy_owned im (bound_kind i) (as_bound i) (\<lambda>b. backing_res R_Bound (bk_vtable b) (bk_ctx b)) instrument s"

section \<open>The handle types\<close>

interpretation oh_meter_provider: owning_handle KIND_METER_PROVIDER P_MeterProvider as_meter_provider
    "provider_res R_MeterProvider"
  by unfold_locales simp

interpretation oh_meter: owning_handle KIND_METER P_Meter as_meter "\<lambda>m. backing_res R_Meter (bk_vtable m) (bk_ctx m)"
  by unfold_locales simp

interpretation oh_sync: owning_handle "sync_kind i" "P_Sync i" "as_sync i"
    "\<lambda>b. backing_res R_Instrument (bk_vtable b) (bk_ctx b)" for i
  by unfold_locales simp

interpretation oh_bound: owning_handle "bound_kind i" "P_Bound i" "as_bound i"
    "\<lambda>b. backing_res R_Bound (bk_vtable b) (bk_ctx b)" for i
  by unfold_locales simp

end
