(* ===== verification/Metric_Instruments.thy ===== *)
theory Metric_Instruments
  imports Metrics_Api
begin

text \<open>
  What the metrics API guarantees (\<open>api/src/metrics.rs\<close>): creating, using and destroying meters and
  instruments conserves every reference, explains every refusal, and passes each measurement
  on exactly once.
\<close>

section \<open>Meters\<close>

lemma ensure_error [simp]:
  "same_api s (ensure_error m s)" "calls (ensure_error m s) = calls s" "has_last_error (ensure_error m s)"
  by (simp_all add: ensure_error_def)

lemma new_meter_null:
  assumes "proc_inv s"
  shows "conserved s (snd (new_meter None None s))"
    "points_to (snd (new_meter None None s)) (fst (new_meter None None s)) (P_Meter \<lparr>bk_vtable = None, bk_ctx = None\<rparr>)"
    "slots_same s (snd (new_meter None None s))" "calls (snd (new_meter None None s)) = calls s"
    "fst (new_meter None None s) \<noteq> None"
proof -
  let ?b = "P_Meter \<lparr>bk_vtable = None, bk_ctx = None\<rparr>"
  obtain p s2 where q: "into_raw KIND_METER ?b s = (p, s2)" by fastforce
  from new_handle [OF q assms] show "conserved s (snd (new_meter None None s))"
    "points_to (snd (new_meter None None s)) (fst (new_meter None None s)) ?b"
    "slots_same s (snd (new_meter None None s))" "calls (snd (new_meter None None s)) = calls s"
    "fst (new_meter None None s) \<noteq> None"
    by (simp_all add: new_meter_def q)
qed

definition meter_calls :: "'e implementation \<Rightarrow> addr \<Rightarrow> ptr \<Rightarrow> bool \<Rightarrow> otel_meter_options \<Rightarrow> (res \<times> vop) list" where
  "meter_calls im vt ctx owned q =
     (case get_meter_op im vt q of None \<Rightarrow> [] | Some op \<Rightarrow> [(R_MeterProvider vt ctx, op)]) @
     (if owned then [(R_MeterProvider vt ctx, Op_Free)] else [])"

lemma get_meter_from_facts:
  assumes inv: "proc_inv s0" "proc_inv s" and fr: "same_frame s0 s" and led: "0 < ledger s (R_MeterProvider vt ctx)"
    and ext: "\<And>q. external q s = external q s0 + of_bool (owned \<and> q = R_MeterProvider vt ctx)"
  obtains p s' where "get_meter_from im (Some vt) ctx owned opts s = Some (p, s')" "conserved s0 s'" "slots_same s0 s'"
    "calls s' = calls s @ meter_calls im vt ctx owned opts"
    "if p = None then has_last_error s' else \<exists>b. points_to s' p (P_Meter b)"
proof (cases "get_meter_op im vt opts")
  case None
  let ?msg = "''registered Metrics SDK does not support scope attributes''"
  let ?s1 = "snd (fail St_InvalidConfig ?msg s)" and ?e = "ensure_error ''backed meter creation failed''"
  have sa: "same_api s ?s1" by (rule same_api_error(4))
  have fr1: "same_frame s0 ?s1" using same_frame_trans [OF fr same_frame_api [OF sa]] .
  have fin: "conserved s0 (?e u)" "slots_same s0 (?e u)" if "conserved s0 u" "slots_same s0 u" for u
  proof -
    show "conserved s0 (?e u)"
      by (rule conserved_trans [OF that(1) conserved_same [OF conserved_inv [OF that(1)] ensure_error(1)]])
    show "slots_same s0 (?e u)"
      using that(2) slots_same_api [OF ensure_error(1), of u] by (simp add: slots_same_def)
  qed
  show ?thesis
  proof (cases owned)
    case True
    obtain s2 where f: "vt_free im (R_MeterProvider vt ctx) ?s1 = Some s2" "conserved s0 s2" "slots_same s0 s2"
        "calls s2 = calls ?s1 @ [(R_MeterProvider vt ctx, Op_Free)]"
      by (rule give_back [OF inv(1) fr1, of "R_MeterProvider vt ctx" im]) (simp add: external_same [OF sa] ext True, rule that)
    then show ?thesis
      by (intro that [of None "?e s2"]) (simp_all add: get_meter_from_def None True fin meter_calls_def)
  next
    case False
    have "conserved s0 ?s1"
      using proc_inv_same [OF sa] inv(2) external_same [OF sa] ext False fr1 noop_static_cong [of ?s1 s0]
      by (intro conservedI) (simp_all add: same_frame_def)
    moreover have "slots_same s0 ?s1" using fr1 by (simp add: same_frame_def)
    ultimately show ?thesis
      by (intro that [of None "?e ?s1"]) (simp_all add: get_meter_from_def None False fin meter_calls_def)
  qed
next
  case (Some op)
  let ?mk = "\<lambda>c. P_Meter \<lparr>bk_vtable = Some vt, bk_ctx = c\<rparr>" and ?e = "ensure_error ''backed meter creation failed''"
  have run: "get_meter_from im (Some vt) ctx owned opts s =
      open_handle im owned (R_MeterProvider vt ctx) op (R_Meter vt) KIND_METER ?mk ?e s"
    by (simp add: get_meter_from_def Some open_handle_def new_meter_def split: option.splits prod.splits)
  have mk: "owned_by (?mk (Some c)) = Some (R_Meter vt (Some c))" "api_kind (?mk (Some c)) = KIND_METER"
    "payload_ok (?mk (Some c))" for c by simp_all
  obtain p s' where o: "open_handle im owned (R_MeterProvider vt ctx) op (R_Meter vt) KIND_METER ?mk ?e s = Some (p, s')"
      "conserved s0 s'" "slots_same s0 s'"
      "calls s' = calls s @ [(R_MeterProvider vt ctx, op)] @ (if owned then [(R_MeterProvider vt ctx, Op_Free)] else [])"
      "p = None \<or> (\<exists>c. points_to s' p (?mk (Some c)))" "p = None \<longrightarrow> has_last_error s'"
    by (rule open_handle_facts [where mk = ?mk and R = "R_Meter vt" and failed = ?e and bad = has_last_error
        and im = im and op = op, OF inv fr led ext mk]) ((rule ensure_error)+, rule that)
  show ?thesis
    by (rule that [of p s']) (use o in \<open>auto simp: run meter_calls_def Some\<close>)
qed

text \<open>
  Obtaining a meter conserves references and explains every refusal. With a live provider and
  readable options the call is defined and keeps the invariant and every reference of others; it
  returns NULL with a diagnostic or a live meter. Options that fail a check reach no
  implementation. A registered implementation that cannot take scope attributes is not asked for a
  meter at all, and a provider that was retained for the request is given back in every case.
\<close>

theorem get_meter_conserves:
  assumes "proc_inv s" and "points_to s provider (P_MeterProvider inner)"
    and readable: "meter_options_error al options \<noteq> None"
  shows "\<exists>mp s'. otel_meter_provider_get_meter_with_options im al provider options s = Some (mp, s') \<and>
     proc_inv s' \<and> slots_same s s' \<and> (\<forall>q. external q s' = external q s) \<and>
     (if mp = None then has_last_error s' else \<exists>b. points_to s' mp (P_Meter b)) \<and>
     (meter_options_error al options \<noteq> Some None \<longrightarrow> mp = None \<and> calls s' = calls s) \<and>
     (\<forall>vt ctx. inner = PI_Backed (Some vt) ctx \<and> meter_options_error al options = Some None \<longrightarrow>
        calls s' = calls s @ meter_calls im vt ctx False (the options)) \<and>
     (inner = PI_Global \<and> mp \<noteq> None \<longrightarrow> (\<forall>vt. slot_vtable (metrics_slot s) = Some vt \<longrightarrow>
        (\<exists>c. calls s' = calls s @ (R_MeterProvider vt (slot_ctx (metrics_slot s)), Op_Retain) #
           meter_calls im vt c True (the options))))"
proof -
  let ?s0 = "clear_last_error s"
  have inv0: "proc_inv ?s0" and p0: "points_to ?s0 provider (P_MeterProvider inner)" using assms(1,2) by simp_all
  have chk: "checked_as KIND_METER_PROVIDER as_meter_provider provider ?s0 = Some (Some inner, ?s0)"
    by (rule hmp.checked_as_points_to [OF proc_inv_wf [OF inv0] p0])
  have c0: "conserved s ?s0" using assms(1) by simp
  show ?thesis
  proof (cases "meter_options_error al options = Some None")
    case False
    with readable obtain e where e: "meter_options_error al options = Some (Some e)" by auto
    let ?s' = "snd (fail_abi e ?s0)"
    have run: "otel_meter_provider_get_meter_with_options im al provider options s = Some (None, ?s')"
      by (simp add: otel_meter_provider_get_meter_with_options_def chk e)
    have same: "same_api s ?s'" "calls ?s' = calls s" "has_last_error ?s'"
      by (simp_all add: fail_abi_def same_api_trans [OF same_api_error(1)])
    have "conserved s ?s'" by (rule conserved_same [OF assms(1) same(1)])
    with e same slots_same_api [OF same(1)] show ?thesis
      by - (intro exI conjI, rule run, simp_all add: conserved_def)
  next
    case ok: True
    then obtain q where q: "options = Some q" by (cases options) (auto simp: meter_options_error_def)
    note okq = ok [unfolded q]
    show ?thesis
    proof (cases inner)
      case (PI_Backed v ctx)
      have "provider_ok inner"
        using api_inv_points_to [OF ctx_inv_api [OF proc_inv_ctx [OF assms(1)]] assms(2)] by simp
      then obtain vt where vt: "inner = PI_Backed (Some vt) ctx" using PI_Backed by auto
      have fr: "same_frame s ?s0" by (rule same_frame_api) simp
      have led: "0 < ledger ?s0 (R_MeterProvider vt ctx)"
        by (rule oh_meter_provider.live_reference [OF inv0 p0 [unfolded vt]]) simp
      obtain mp s' where g: "get_meter_from im (Some vt) ctx False q ?s0 = Some (mp, s')" "conserved s s'" "slots_same s s'"
          "calls s' = calls ?s0 @ meter_calls im vt ctx False q" "if mp = None then has_last_error s' else \<exists>b. points_to s' mp (P_Meter b)"
        by (rule get_meter_from_facts [OF assms(1) inv0 fr led, of False im q]) (simp, rule that)
      have run: "otel_meter_provider_get_meter_with_options im al provider options s = Some (mp, s')"
        using g(1) by (simp add: otel_meter_provider_get_meter_with_options_def chk okq vt q)
      show ?thesis
        by (intro exI conjI, rule run) (use g(2-5) in \<open>simp_all add: conserved_def okq vt q\<close>)
    next
      case PI_Global
      let ?ask = "\<lambda>vt c. get_meter_from im (Some vt) c True q"
      let ?slot = "metrics_slot ?s0" and ?msg = "''global meter provider retain failed''"
      have run: "otel_meter_provider_get_meter_with_options im al provider options s =
          via_global im R_MeterProvider ?msg (slot_vtable ?slot) (slot_ctx ?slot) (new_meter None None) ?ask ?s0"
        by (simp add: otel_meter_provider_get_meter_with_options_def chk okq q PI_Global retain_global_metrics_def via_global_def
            split: option.splits retained.splits prod.splits)
      let ?more = "\<lambda>vt c. meter_calls im vt c True q"
      let ?good = "\<lambda>vt mp u. if mp = None then has_last_error u else \<exists>b. points_to u mp (P_Meter b)"
      have ask: "\<exists>p s'. ?ask vt c s1 = Some (p, s') \<and> conserved ?s0 s' \<and> slots_same ?s0 s' \<and>
          calls s' = calls s1 @ ?more vt c \<and> ?good vt p s'"
        if a: "proc_inv s1" "same_frame ?s0 s1" "0 < ledger s1 (R_MeterProvider vt c)"
          "\<And>q. external q s1 = external q ?s0 + of_bool (q = R_MeterProvider vt c)" for vt c s1
        by (rule get_meter_from_facts [OF inv0 a(1-3), of True im q]) (simp add: a(4), blast)
      show ?thesis
      proof (rule mslot.via_global_facts [where im = im and msg = ?msg and unbacked = "new_meter None None" and extra = ?more
          and good = ?good, OF inv0 ask], assumption+, goal_cases)
        case 1
        note n = new_meter_null [OF inv0]
        obtain p u where u: "new_meter None None ?s0 = (p, u)" by fastforce
        have r: "otel_meter_provider_get_meter_with_options im al provider options s = Some (p, u)"
          using run 1(1) u by simp
        show ?case
          by (intro exI conjI, rule r)
            (use 1(2) n u conserved_trans [OF c0 n(1)] in \<open>auto simp: PI_Global okq q conserved_def slots_same_def\<close>)
      next
        case (2 s1)
        have r: "otel_meter_provider_get_meter_with_options im al provider options s = Some (None, s1)"
          using run 2(1) by simp
        show ?case
          by (intro exI conjI, rule r)
            (use 2(3-) conserved_trans [OF c0 2(2)] in \<open>simp_all add: PI_Global okq q conserved_def slots_same_def\<close>)
      next
        case (3 vt c mp s2)
        have r: "otel_meter_provider_get_meter_with_options im al provider options s = Some (mp, s2)"
          using run 3(1) by simp
        show ?case
          by (intro exI conjI, rule r)
            (use 3(3-) conserved_trans [OF c0 3(2)] in \<open>auto simp: PI_Global okq q conserved_def slots_same_def\<close>)
      qed
    qed
  qed
qed

section \<open>Creating instruments\<close>

lemma acquired:
  assumes inv: "proc_inv s" and same: "same_api s s1" and cs: "calls s1 = calls s @ c"
  shows "same_frame s (acquire r s1)" "proc_inv (acquire r s1)" "external q (acquire r s1) = external q s + of_bool (q = r)"
    "calls (acquire r s1) = calls s @ c"
proof -
  show fr: "same_frame s (acquire r s1)"
    using same by (simp add: same_frame_def slots_same_def same_api_def)
  show e: "external q (acquire r s1) = external q s + of_bool (q = r)" for q
    using external_same [OF same] by (simp add: external_acquire)
  show "proc_inv (acquire r s1)" by (rule proc_inv_frame [OF inv fr]) (simp add: e proc_inv_external [OF inv])
  show "calls (acquire r s1) = calls s @ c" using cs by simp
qed

text \<open>One creation call: a failure status and a diagnostic, or a new context.\<close>

lemma create_backed_facts:
  assumes inv: "proc_inv s" and led: "0 < ledger s (R_Meter vt ctx)"
  obtains (Failed) st s' where "create_backed im vt ctx cfg msg s = Some (Inl st, s')" "same_api s s'" "has_last_error s'"
      "st \<noteq> St_Ok" "calls s' = calls s @ [(R_Meter vt ctx, creation_op im vt cfg)]"
    | (Created) c s' where "create_backed im vt ctx cfg msg s = Some (Inr (Some vt, Some c), s')" "same_frame s s'" "proc_inv s'"
      "\<And>q. external q s' = external q s + of_bool (q = R_Instrument vt (Some c))"
      "calls s' = calls s @ [(R_Meter vt ctx, creation_op im vt cfg)]"
proof -
  have "\<exists>p st s1. call_creation im vt ctx cfg s = Some ((p, st), s1) \<and> same_api s s1 \<and>
      calls s1 = calls s @ [(R_Meter vt ctx, creation_op im vt cfg)]"
  proof (cases "metrics_vtable_supports_creation_status (im_header im vt)")
    case True
    obtain v s1 where "vt_call (im_ptr_status im) (R_Meter vt ctx) (creation_op im vt cfg) s = Some (v, s1)"
      using vt_call_defined [OF led, of "im_ptr_status im" "creation_op im vt cfg"] by blast
    with vt_call_SomeD [OF this] True show ?thesis by (cases v) (simp add: call_creation_def vt_ptr_status_def)
  next
    case False
    obtain p s1 where "vt_call (im_ptr im) (R_Meter vt ctx) (creation_op im vt cfg) s = Some (p, s1)"
      using vt_call_defined [OF led, of "im_ptr im" "creation_op im vt cfg"] by blast
    with vt_call_SomeD [OF this] False show ?thesis by (simp add: call_creation_def vt_ptr_def)
  qed
  then obtain p st s1 where c: "call_creation im vt ctx cfg s = Some ((p, st), s1)" "same_api s s1"
      "calls s1 = calls s @ [(R_Meter vt ctx, creation_op im vt cfg)]" by blast
  show thesis
  proof (cases p)
    case None
    then show thesis
      using Failed [of "if st = St_Ok then St_InvalidConfig else st" "ensure_error msg s1"] c same_api_trans [OF c(2) ensure_error(1)]
      by (simp add: create_backed_def)
  next
    case (Some d)
    show thesis
      by (rule Created [of d "acquire (R_Instrument vt (Some d)) s1"])
        (use c(1) Some in \<open>simp add: create_backed_def\<close>, (rule acquired [OF inv c(2,3)])+)
  qed
qed

text \<open>The calls that creating an instrument of type \<open>i\<close> makes with an accepted configuration.\<close>

definition sync_config :: "sync_instrument \<Rightarrow> otel_metric_instrument_config \<Rightarrow> otel_metric_instrument_config" where
  "sync_config i cfg =
     (case sync_spec i of (k, n, h) \<Rightarrow> cfg\<lparr>mic_kind := instrument_kind_code k, mic_number := number_kind_code n\<rparr>)"

text \<open>
  Creating a synchronous instrument conserves references and stores a result exactly on success.
  With a live meter and readable options the call is defined and keeps the invariant and every
  reference of others. It returns OK exactly when the output holds a live instrument of the
  requested type; otherwise a non-NULL output is set to NULL and a diagnostic explains why. A
  configuration that fails validation makes no call; an accepted one makes exactly one creation
  call on the meter, with the kind and number kind of the entry point (none on the no-op meter).
\<close>

theorem create_instrument_conserves:
  assumes "proc_inv s" and "points_to s meter (P_Meter m)"
    and "sync_spec i = (k, n, h)" and "validate_instrument_config name options h = Some v"
  shows "\<exists>st out s'. create_sync_instrument im i meter name options False s = Some (st, Some out, s') \<and>
     proc_inv s' \<and> slots_same s s' \<and> (\<forall>q. external q s' = external q s) \<and>
     (st = St_Ok \<longleftrightarrow> out \<noteq> None) \<and>
     (if out = None then has_last_error s' else \<exists>b. points_to s' out (P_Sync i b) \<and> bk_vtable b = bk_vtable m) \<and>
     calls s' = calls s @ (case (v, bk_vtable m) of
       (Inr cfg, Some vt) \<Rightarrow> [(R_Meter vt (bk_ctx m), creation_op im vt (sync_config i cfg))] | _ \<Rightarrow> [])"
proof -
  let ?s0 = "clear_last_error s"
  have inv0: "proc_inv ?s0" and m0: "points_to ?s0 meter (P_Meter m)" using assms(1,2) by simp_all
  have chk: "checked_as KIND_METER as_meter meter ?s0 = Some (Some m, ?s0)"
    by (rule hm.checked_as_points_to [OF proc_inv_wf [OF inv0] m0])
  have c0: "conserved s ?s0" using assms(1) by simp
  have ss0: "slots_same s ?s0" by (simp add: slots_same_def)
  note run = create_sync_instrument_def Let_def chk assms(3,4)
  show ?thesis
  proof (cases v)
    case (Inl e)
    let ?s' = "snd (fail_abi e ?s0)"
    have r: "create_sync_instrument im i meter name options False s = Some (err_status e, Some None, ?s')"
      by (simp add: run Inl fail_abi_def)
    have same: "same_api s ?s'" "calls ?s' = calls s" "has_last_error ?s'"
      by (simp_all add: fail_abi_def same_api_trans [OF same_api_error(1)])
    have "conserved s ?s'" by (rule conserved_same [OF assms(1) same(1)])
    with same slots_same_api [OF same(1)] config_error_status [OF assms(4) [unfolded Inl]] Inl show ?thesis
      by - (intro exI conjI, rule r, simp_all add: conserved_def)
  next
    case (Inr cfg)
    show ?thesis
    proof (cases "bk_vtable m")
      case None
      let ?b = "P_Sync i \<lparr>bk_vtable = None, bk_ctx = None\<rparr>"
      obtain p s2 where q: "into_raw (sync_kind i) ?b ?s0 = (p, s2)" by fastforce
      have a: "conserved ?s0 s2" "points_to s2 p ?b" "slots_same ?s0 s2" "calls s2 = calls ?s0" "p \<noteq> None"
        using new_handle [OF q inv0] by simp_all
      have r: "create_sync_instrument im i meter name options False s = Some (St_Ok, Some p, s2)"
        by (simp add: run Inr create_instrument_def None q)
      show ?thesis
        by (intro exI conjI, rule r)
          (use a None Inr conserved_trans [OF c0 a(1)] in \<open>auto simp: conserved_def slots_same_def\<close>)
    next
      case (Some vt)
      let ?cfg = "sync_config i cfg" and ?msg = "''backed metric instrument creation failed''"
      have cr: "create_instrument im m cfg k n ?s0 = create_backed im vt (bk_ctx m) ?cfg ?msg ?s0"
        by (simp add: create_instrument_def Some sync_config_def assms(3))
      have led: "0 < ledger ?s0 (R_Meter vt (bk_ctx m))"
        by (rule oh_meter.live_reference [OF inv0 m0]) (simp add: Some)
      show ?thesis
      proof (rule create_backed_facts [OF inv0 led, of im ?cfg ?msg], goal_cases)
        case (1 st s1)
        have r: "create_sync_instrument im i meter name options False s = Some (st, Some None, s1)"
          using 1(1) by (simp add: run Inr cr)
        have "conserved s s1" by (rule conserved_trans [OF c0 conserved_same [OF inv0 1(2)]])
        then show ?case
          using 1 slots_same_api [OF 1(2)] Inr Some
          by - (intro exI conjI, rule r, simp_all add: conserved_def slots_same_def)
      next
        case (2 c s1)
        let ?b = "P_Sync i \<lparr>bk_vtable = Some vt, bk_ctx = Some c\<rparr>"
        obtain p s2 where q: "into_raw (sync_kind i) ?b s1 = (p, s2)" by fastforce
        have ex: "external q s1 = external q ?s0 + of_bool (owned_by ?b = Some q)" for q using 2(4) [of q] by auto
        have a: "conserved ?s0 s2" "points_to s2 p ?b" "slots_same ?s0 s2" "calls s2 = calls s1" "p \<noteq> None"
          using adopt [OF q 2(3,2) ex _ _ inv0] by simp_all
        have r: "create_sync_instrument im i meter name options False s = Some (St_Ok, Some p, s2)"
          using 2(1) by (simp add: run Inr cr q)
        show ?case
          by (intro exI conjI, rule r)
            (use a 2(5) Inr Some conserved_trans [OF c0 a(1)] in \<open>auto simp: conserved_def slots_same_def\<close>)
      qed
    qed
  qed
qed

section \<open>Using and destroying instruments\<close>

lemma record_sync_live:
  assumes inv: "proc_inv s" and p: "points_to s p (P_Sync i b)" and vt: "bk_vtable b = Some vt"
  obtains st s' where "record_sync im i p value as n s = Some (st, s')" "same_api s s'"
    "calls s' = calls s @ [(R_Instrument vt (bk_ctx b), Op_Record value as n)]"
proof -
  let ?r = "R_Instrument vt (bk_ctx b)" and ?s0 = "clear_last_error s"
  have chk: "checked_as (sync_kind i) (as_sync i) p s = Some (Some b, s)"
    by (rule hi.checked_as_points_to [OF proc_inv_wf [OF inv] p])
  have "0 < ledger ?s0 ?r" using oh_sync.live_reference [OF inv p] vt by simp
  then obtain st s' where c: "vt_call (im_status im) ?r (Op_Record value as n) ?s0 = Some (st, s')"
    using vt_call_defined [of ?s0 ?r "im_status im" "Op_Record value as n"] by blast
  note v = vt_call_SomeD [OF c]
  show thesis
    by (rule that [of st s'])
      (use chk vt c v(2) same_api_trans [OF same_api_error(1) v(1)] in \<open>simp_all add: record_sync_def vt_status_def\<close>)
qed

text \<open>Several measurements, one after the other.\<close>

fun record_all ::
  "'e implementation \<Rightarrow> sync_instrument \<Rightarrow> ptr \<Rightarrow> (metric_value \<times> otel_key_value list option \<times> usize) list
     \<Rightarrow> ('e, 'm) process_scheme \<Rightarrow> ('e, 'm) process_scheme option" where
  "record_all im i p [] s = Some s"
| "record_all im i p ((v, as, n) # ms) s =
     (case record_sync im i p v as n s of None \<Rightarrow> None | Some (st, s1) \<Rightarrow> record_all im i p ms s1)"

lemma record_all_live:
  assumes "proc_inv s" and "points_to s p (P_Sync i b)" and "bk_vtable b = Some vt"
  shows "\<exists>s'. record_all im i p ms s = Some s' \<and> same_api s s' \<and>
     calls s' = calls s @ map (\<lambda>(v, as, n). (R_Instrument vt (bk_ctx b), Op_Record v as n)) ms"
  using assms
proof (induction ms arbitrary: s)
  case (Cons m ms)
  obtain v as n where m: "m = (v, as, n)" by (cases m)
  obtain st s1 where r: "record_sync im i p v as n s = Some (st, s1)" "same_api s s1"
      "calls s1 = calls s @ [(R_Instrument vt (bk_ctx b), Op_Record v as n)]"
    by (rule record_sync_live [OF Cons.prems])
  have "proc_inv s1" "points_to s1 p (P_Sync i b)"
    using Cons.prems(1,2) proc_inv_same [OF r(2)] points_to_same [OF r(2)] by simp_all
  from Cons.IH [OF this Cons.prems(3)] r same_api_trans [OF r(2)] show ?case by (auto simp: m)
qed simp

text \<open>
  Every measurement reaches the implementation exactly once, in order, and the instrument is
  freed exactly once. For a live instrument, any sequence of recordings followed by its
  destruction is defined, keeps the invariant and every reference of others, passes each value
  with its attributes on in one call, ends with one free of the instrument's context, and leaves
  the handle dead.
\<close>

theorem instrument_lifecycle:
  assumes "proc_inv s" and "points_to s p (P_Sync i b)" and "bk_vtable b = Some vt"
  shows "\<exists>s1 s2. record_all im i p ms s = Some s1 \<and> destroy_sync im i p s1 = Some s2 \<and> proc_inv s2 \<and>
     (\<forall>q. external q s2 = external q s) \<and> slots_same s s2 \<and> \<not> valid_ptr s2 p \<and>
     calls s2 = calls s @ map (\<lambda>(v, as, n). (R_Instrument vt (bk_ctx b), Op_Record v as n)) ms @
       [(R_Instrument vt (bk_ctx b), Op_Free)]"
proof -
  obtain s1 where r: "record_all im i p ms s = Some s1" "same_api s s1"
      "calls s1 = calls s @ map (\<lambda>(v, as, n). (R_Instrument vt (bk_ctx b), Op_Record v as n)) ms"
    using record_all_live [OF assms] by blast
  have i1: "proc_inv s1" and p1: "points_to s1 p (P_Sync i b)"
    using assms(1,2) proc_inv_same [OF r(2)] points_to_same [OF r(2)] by simp_all
  obtain s2 where d: "destroy_sync im i p s1 = Some s2" "proc_inv s2" "objs s2 = (objs s1)(the p := None)"
      "slots_same s1 s2" "\<And>q. external q s2 = external q s1"
      "calls s2 = calls s1 @ [(R_Instrument vt (bk_ctx b), Op_Free)]"
    by (rule oh_sync.destroy_live [OF i1 p1, of im]) (rule that, simp_all add: destroy_sync_def assms(3))
  have "\<not> valid_ptr s2 p" using p1 d(3) by (cases p) (simp_all add: valid_ptr_def points_to_def)
  with r d external_same [OF r(2)] slots_same_api [OF r(2)] show ?thesis by (auto simp: slots_same_def)
qed

text \<open>
  Instrument handles are never confused. A recording, a binding or a destruction through the
  entry points of one instrument type, given a live handle of any other type, is refused with a
  diagnostic: the process is unchanged, no implementation is called, and the handle stays alive.
\<close>

theorem instrument_types_not_confused:
  assumes "proc_inv s" and "points_to s p b" and "\<And>x. b \<noteq> P_Sync i x"
  shows "\<exists>s1 s2 s3. record_sync im i p value as n s = Some (St_InvalidArgument, s1) \<and> has_last_error s1 \<and>
     same_api s s1 \<and> calls s1 = calls s \<and>
     (bound_source j = i \<longrightarrow>
        bind_instrument im j p as n False s = Some (St_InvalidArgument, Some None, s2) \<and> same_api s s2 \<and> calls s2 = calls s) \<and>
     destroy_sync im i p s = Some s3 \<and> has_last_error s3 \<and> same_api s s3 \<and> calls s3 = calls s \<and> points_to s3 p b"
proof -
  have v: "valid_ptr s p" using points_to_valid [OF assms(2)] .
  have no: "\<not> points_to s p (P_Sync i x)" for x using points_to_unique [OF assms(2)] assms(3) by metis
  obtain s1 where c: "checked_as (sync_kind i) (as_sync i) p s = Some (None, s1)" "has_last_error s1"
    by (rule hi.checked_as_defined [OF proc_inv_wf [OF assms(1)] v]) (use no in auto)
  have 1: "record_sync im i p value as n s = Some (St_InvalidArgument, s1)" using c by (simp add: record_sync_def)
  let ?s0 = "clear_last_error s"
  have wf0: "wf_api ?s0" and v0: "valid_ptr ?s0 p" using proc_inv_wf [OF assms(1)] v by simp_all
  obtain s2 where c2: "checked_as (sync_kind i) (as_sync i) p ?s0 = Some (None, s2)"
    by (rule hi.checked_as_defined [OF wf0 v0]) (use no in auto)
  have 2: "bind_instrument im j p as n False s = Some (St_InvalidArgument, Some None, s2)" if "bound_source j = i"
    using c2 that by (simp add: bind_instrument_def Let_def)
  have same2: "same_api s s2" "calls s2 = calls s"
    using same_api_trans [OF same_api_error(1) same_api_checked [OF c2]] calls_checked [OF c2] by simp_all
  obtain s3 where d: "destroy_sync im i p s = Some s3" "same_api s s3" "calls s3 = calls s" "has_last_error s3"
    by (rule oh_sync.destroy_other [OF assms(1) v no, of im]) (rule that, simp_all add: destroy_sync_def)
  have "points_to s3 p b" using points_to_same [OF d(2)] assms(2) by simp
  then show ?thesis
    using 1 2 same2 c d same_api_checked [OF c(1)] calls_checked [OF c(1)] by blast
qed

section \<open>Binding\<close>

text \<open>
  A failed binding leaks nothing. For a live instrument of an implementation that supports bound
  instruments the call is defined and keeps the invariant and every reference of others; exactly
  one bind call is made. A context that comes with a failure status is freed once and the status
  is passed on; a missing context is an internal error; otherwise the output holds a live bound
  instrument that owns the context.
\<close>

theorem bind_conserves:
  assumes "proc_inv s" and "points_to s p (P_Sync (bound_source i) b)" and "bk_vtable b = Some vt"
    and "metrics_vtable_supports_bound_instruments (im_header im vt)"
    and "im_ptr_status im (R_Instrument vt (bk_ctx b)) (Op_Bind as n) (impl_state s) = ((c, status), ef, e')"
  shows "\<exists>st out s'. bind_instrument im i p as n False s = Some (st, Some out, s') \<and>
     proc_inv s' \<and> slots_same s s' \<and> (\<forall>q. external q s' = external q s) \<and>
     st = (if status \<noteq> St_Ok then status else if c = None then St_InternalError else St_Ok) \<and>
     (if st = St_Ok then points_to s' out (P_Bound i \<lparr>bk_vtable = Some vt, bk_ctx = c\<rparr>) else out = None) \<and>
     calls s' = calls s @ [(R_Instrument vt (bk_ctx b), Op_Bind as n)] @
       (if status \<noteq> St_Ok \<and> c \<noteq> None then [(R_Bound vt c, Op_Free)] else [])"
proof -
  let ?s0 = "clear_last_error s" and ?r = "R_Instrument vt (bk_ctx b)"
  have inv0: "proc_inv ?s0" and p0: "points_to ?s0 p (P_Sync (bound_source i) b)" using assms(1,2) by simp_all
  have chk: "checked_as (sync_kind (bound_source i)) (as_sync (bound_source i)) p ?s0 = Some (Some b, ?s0)"
    by (rule hi.checked_as_points_to [OF proc_inv_wf [OF inv0] p0])
  have c0: "conserved s ?s0" using assms(1) by simp
  have led: "0 < ledger ?s0 ?r" by (rule oh_sync.live_reference [OF inv0 p0]) (simp add: assms(3))
  obtain w s1 where call: "vt_call (im_ptr_status im) ?r (Op_Bind as n) ?s0 = Some (w, s1)"
    using vt_call_defined [OF led, of "im_ptr_status im" "Op_Bind as n"] by blast
  have w: "w = (c, status)" using call assms(5) led by (simp add: vt_call_def split: prod.splits)
  note v = vt_call_SomeD [OF call]
  have cs: "calls s1 = calls s @ [(?r, Op_Bind as n)]" using v(2) by simp
  note run = bind_instrument_def Let_def chk assms(3,4) vt_ptr_status_def call w
  let ?s2 = "acquire_opt (R_Bound vt) c s1"
  have fr: "same_frame ?s0 ?s2" using same_frame_trans [OF same_frame_api [OF v(1)] same_frame_acquire_opt] .
  have e: "external q ?s2 = external q ?s0 + of_bool (c \<noteq> None \<and> q = R_Bound vt c)" for q
    using external_same [OF v(1), of q] by (simp add: external_acquire_opt)
  have cs2: "calls ?s2 = calls s @ [(?r, Op_Bind as n)]" using cs by (simp add: acquire_opt_def split: option.splits)
  have inv2: "proc_inv ?s2" by (rule proc_inv_frame [OF inv0 fr]) (simp add: e proc_inv_external [OF inv0, simplified])
  show ?thesis
  proof (cases c)
    case None
    have "same_api ?s0 ?s2" using v(1) None by (simp add: acquire_opt_def)
    then have k: "conserved s ?s2" "slots_same s ?s2"
      using conserved_trans [OF c0 conserved_same [OF inv0]] slots_same_api by (blast, force simp: slots_same_def)
    let ?s3 = "snd (fail St_InternalError ''Metrics SDK returned a NULL bound instrument'' ?s2)"
    have f: "conserved s ?s3" "slots_same s ?s3"
      using conserved_trans [OF k(1) conserved_error(3) [OF inv2]] k(2) by (simp_all add: slots_same_def fail_def)
    show ?thesis
      using k f cs2 None by (cases "status = St_Ok") (auto simp: run fail_out_def fail_def conserved_def)
  next
    case (Some d)
    show ?thesis
    proof (cases "status = St_Ok")
      case True
      let ?b = "P_Bound i \<lparr>bk_vtable = Some vt, bk_ctx = c\<rparr>"
      obtain h s3 where q: "into_raw (bound_kind i) ?b ?s2 = (h, s3)" by fastforce
      have ex: "external q ?s2 = external q ?s0 + of_bool (owned_by ?b = Some q)" for q using e [of q] Some by auto
      have a: "conserved ?s0 s3" "points_to s3 h ?b" "slots_same ?s0 s3" "calls s3 = calls ?s2"
        using adopt [OF q inv2 fr ex _ _ inv0] by simp_all
      have r: "bind_instrument im i p as n False s = Some (St_Ok, Some h, s3)" using Some True q by (simp add: run)
      show ?thesis
        by (intro exI conjI, rule r)
          (use a cs2 True Some conserved_trans [OF c0 a(1)] in \<open>simp_all add: conserved_def slots_same_def\<close>)
    next
      case False
      have e2: "external q ?s2 = external q ?s0 + of_bool (q = R_Bound vt c)" for q using e [of q] Some by simp
      obtain s3 where f: "vt_free im (R_Bound vt c) ?s2 = Some s3" "conserved ?s0 s3" "slots_same ?s0 s3"
          "calls s3 = calls ?s2 @ [(R_Bound vt c, Op_Free)]"
        by (rule give_back [OF inv0 fr e2, of im]) (rule that)
      have r: "bind_instrument im i p as n False s = Some (status, Some None, s3)" using Some False f(1) by (simp add: run)
      show ?thesis
        by (intro exI conjI, rule r)
          (use f cs2 False Some conserved_trans [OF c0 f(2)] in \<open>simp_all add: conserved_def slots_same_def\<close>)
    qed
  qed
qed

section \<open>Sample executions\<close>

definition sample_meter :: backing where
  "sample_meter = \<lparr>bk_vtable = Some 12, bk_ctx = Some 8\<rparr>"

definition sample_counter :: backing where
  "sample_counter = \<lparr>bk_vtable = Some 12, bk_ctx = Some 9\<rparr>"

definition sample_metric_handles :: "api_payload list" where
  "sample_metric_handles =
     [P_MeterProvider (PI_Backed (Some 12) (Some 7)), P_Meter sample_meter, P_Sync CounterU64 sample_counter]"

definition sample_metrics_process :: "(nat, unit) process_scheme" where
  "sample_metrics_process = with_handles sample_metric_handles sample_process"

lemma sample_metrics_process_facts:
  "proc_inv sample_metrics_process" "calls sample_metrics_process = []"
  "points_to sample_metrics_process (Some 1) (P_MeterProvider (PI_Backed (Some 12) (Some 7)))"
  "points_to sample_metrics_process (Some 2) (P_Meter sample_meter)"
  "points_to sample_metrics_process (Some 3) (P_Sync CounterU64 sample_counter)"
proof -
  have ok: "\<forall>b \<in> set sample_metric_handles. payload_ok b" by (simp add: sample_metric_handles_def)
  have own: "int (count_list (map owned_by sample_metric_handles) (Some q)) \<le> external q sample_process" for q
    by (auto simp: sample_metric_handles_def sample_meter_def sample_counter_def sample_process_inv(2))
  show "proc_inv sample_metrics_process" unfolding sample_metrics_process_def
    by (rule with_handles_inv [OF sample_process_inv(1) ok own])
  show "calls sample_metrics_process = []"
    by (simp add: sample_metrics_process_def with_handles_frame sample_process_sel)
  have n: "points_to sample_metrics_process (Some a) (sample_metric_handles ! (a - 1))" if "1 \<le> a" "a < 4" for a
    using with_handles_at [OF proc_inv_wf [OF sample_process_inv(1)], of a sample_metric_handles] that
    by (simp add: sample_metrics_process_def sample_metric_handles_def sample_process_sel)
  show "points_to sample_metrics_process (Some 1) (P_MeterProvider (PI_Backed (Some 12) (Some 7)))"
    "points_to sample_metrics_process (Some 2) (P_Meter sample_meter)"
    "points_to sample_metrics_process (Some 3) (P_Sync CounterU64 sample_counter)"
    using n [of 1] n [of 2] n [of 3] by (simp_all add: sample_metric_handles_def)
qed

theorem get_meter_conserves_witness:
  "\<exists>mp s'. otel_meter_provider_get_meter_with_options sample_impl (\<lambda>_. True) (Some 1) (Some
       \<lparr>mto_struct_size = 72, mto_name = sv_empty, mto_version = sv_empty, mto_schema_url = sv_empty,
        mto_attributes = None, mto_attribute_count = 0\<rparr>) sample_metrics_process = Some (mp, s') \<and>
     (\<forall>q. external q s' = external q sample_metrics_process)"
proof -
  let ?q = "\<lparr>mto_struct_size = 72, mto_name = sv_empty, mto_version = sv_empty, mto_schema_url = sv_empty,
     mto_attributes = None, mto_attribute_count = 0\<rparr>"
  have "sv_as_str sv_empty = Inr []" by (simp add: sv_as_str_def sv_as_bytes_def sv_empty_def)
  then have "meter_options_error (\<lambda>_. True) (Some ?q) \<noteq> None"
    by (simp add: meter_options_error_def OTEL_METER_OPTIONS_V1_SIZE_def validate_scope_attributes_def)
  from get_meter_conserves [OF sample_metrics_process_facts(1,3) this, of sample_impl] show ?thesis by blast
qed

theorem create_instrument_conserves_witness:
  "\<exists>st out s' cfg. create_sync_instrument sample_impl HistogramU64 (Some 2) (sv_of [0x68, 0x2E, 0x31])
       (Some sample_histogram_options) False sample_metrics_process = Some (st, Some out, s') \<and>
     calls s' = [(R_Meter 12 (Some 8), creation_op sample_impl 12 (sync_config HistogramU64 cfg))]"
proof -
  obtain cfg where v: "validate_instrument_config (sv_of [0x68, 0x2E, 0x31]) (Some sample_histogram_options) True = Some (Inr cfg)"
  proof -
    have r: "unat (ino_boundary_count q) \<le> length xs"
      if "Some sample_histogram_options = Some q" "ino_boundaries q = Some xs" for q xs
      using that by (auto simp: sample_histogram_options_def sample_boundaries_def)
    have "instrument_name_error (sv_of [0x68, 0x2E, 0x31]) = None"
      using instrument_name_error_iff sample_name_ok by blast
    moreover have "sv_as_str sv_empty = Inr []" by (simp add: sv_as_str_def sv_as_bytes_def sv_empty_def)
    ultimately have "\<exists>cfg. validate_instrument_config (sv_of [0x68, 0x2E, 0x31]) (Some sample_histogram_options) True = Some (Inr cfg)"
      by (simp add: validate_instrument_config_def read_instrument_options_def sample_histogram_options_def
          OTEL_INSTRUMENT_OPTIONS_V1_SIZE_def is_ascii_def check_boundaries_def MAX_HISTOGRAM_BOUNDARIES_def isize_max_def
          sample_boundaries_def f64_is_finite_def f64_ge_def f64_key_def Let_def)
    then show thesis using that by blast
  qed
  have sp: "sync_spec HistogramU64 = (IK_Histogram, NK_U64, True)" by simp
  from create_instrument_conserves [OF sample_metrics_process_facts(1,4) sp v, of sample_impl]
  show ?thesis by (auto simp: sample_metrics_process_facts(2) sample_meter_def)
qed

theorem instrument_lifecycle_witness:
  "\<exists>s1 s2. record_all sample_impl CounterU64 (Some 3) [(Val_U64 5, None, 0), (Val_U64 7, None, 0)] sample_metrics_process = Some s1 \<and>
     destroy_sync sample_impl CounterU64 (Some 3) s1 = Some s2 \<and>
     calls s2 = [(R_Instrument 12 (Some 9), Op_Record (Val_U64 5) None 0), (R_Instrument 12 (Some 9), Op_Record (Val_U64 7) None 0),
       (R_Instrument 12 (Some 9), Op_Free)]"
proof -
  have v: "bk_vtable sample_counter = Some 12" by (simp add: sample_counter_def)
  from instrument_lifecycle [OF sample_metrics_process_facts(1,5) v, of sample_impl "[(Val_U64 5, None, 0), (Val_U64 7, None, 0)]"]
  show ?thesis by (auto simp: sample_metrics_process_facts(2) sample_counter_def)
qed

theorem instrument_types_not_confused_witness:
  "\<exists>s1. record_sync sample_impl HistogramU64 (Some 3) (Val_U64 5) None 0 sample_metrics_process = Some (St_InvalidArgument, s1) \<and>
     calls s1 = []"
proof -
  have "P_Sync CounterU64 sample_counter \<noteq> P_Sync HistogramU64 x" for x by simp
  from instrument_types_not_confused [OF sample_metrics_process_facts(1,5) this, of sample_impl "Val_U64 5" None 0 BoundCounterU64]
  show ?thesis by (auto simp: sample_metrics_process_facts(2))
qed

theorem bind_conserves_witness:
  "\<exists>st out s'. bind_instrument sample_impl BoundCounterU64 (Some 3) None 0 False sample_metrics_process = Some (st, Some out, s') \<and>
     calls s' = [(R_Instrument 12 (Some 9), Op_Bind None 0)] \<and> st = St_Ok"
proof -
  have h: "bk_vtable sample_counter = Some 12" "metrics_vtable_supports_bound_instruments (im_header sample_impl 12)"
    "points_to sample_metrics_process (Some 3) (P_Sync (bound_source BoundCounterU64) sample_counter)"
    using sample_metrics_process_facts(5)
    by (simp_all add: sample_counter_def sample_impl_def metrics_vtable_supports_bound_instruments_def OTEL_METRICS_IMPL_ABI_VERSION_def)
  have a: "im_ptr_status sample_impl (R_Instrument 12 (bk_ctx sample_counter)) (Op_Bind None 0) (impl_state sample_metrics_process) =
      ((Some (impl_state sample_metrics_process), St_Ok), Err_Keep, Suc (impl_state sample_metrics_process))"
    by (simp add: sample_impl_def)
  from bind_conserves [OF sample_metrics_process_facts(1) h(3,1,2) a]
  show ?thesis by (auto simp: sample_metrics_process_facts(2) sample_counter_def)
qed

end
