(* ===== verification/Callback_State.thy ===== *)
theory Callback_State
  imports Abi
begin

text \<open>
  The state that an observable instrument shares with the implementation (\<open>CallbackState\<close> and
  \<open>UserData\<close> of \<open>api/src/metrics.rs\<close>), and its use by concurrent callbacks. The user data belongs
  to the caller and is given back exactly once, through its destroy function, when the last
  reference goes away; a failed creation gives it back to the caller without that call. Callbacks
  run on threads of the implementation while the instrument is destroyed on another one, so the
  methods are split into their atomic actions here and interleaved by a step relation.
\<close>

section \<open>The shared state\<close>

text \<open>One state owns one \<open>UserData\<close> behind an \<open>Arc\<close>: the \<open>ud_\<close> fields. \<open>cbs_slot\<close> says whether the
  mutex still holds the \<open>Arc\<close>; \<open>ud_destroyed\<close> records the calls of a destroy function.\<close>

record callback_state =
  cbs_enabled :: bool
  cbs_vtable :: ptr
  cbs_callback :: "otel_metric_number_kind \<times> nat"
  cbs_slot :: bool
  ud_ptr :: ptr
  ud_destroy :: "nat option"
  ud_strong :: nat
  ud_destroyed :: "(nat \<times> ptr) list"

definition new_callback_state ::
  "ptr \<Rightarrow> otel_metric_number_kind \<Rightarrow> nat \<Rightarrow> ptr \<Rightarrow> nat option \<Rightarrow> callback_state" where
  "new_callback_state vtable number callback user_data user_data_destroy =
     \<lparr>cbs_enabled = True, cbs_vtable = vtable, cbs_callback = (number, callback), cbs_slot = True,
      ud_ptr = user_data, ud_destroy = user_data_destroy, ud_strong = 1, ud_destroyed = []\<rparr>"

text \<open>\<open>UserData::drop\<close>, when the last \<open>Arc\<close> goes away.\<close>

definition user_data_drop :: "callback_state \<Rightarrow> callback_state" where
  "user_data_drop st =
     (case ud_destroy st of
        None \<Rightarrow> st
      | Some f \<Rightarrow> st\<lparr>ud_destroy := None, ud_destroyed := ud_destroyed st @ [(f, ud_ptr st)]\<rparr>)"

text \<open>Dropping one \<open>Arc\<close>; \<open>None\<close> when there is none.\<close>

definition drop_user_data :: "callback_state \<Rightarrow> callback_state option" where
  "drop_user_data st =
     (case ud_strong st of
        0 \<Rightarrow> None
      | Suc n \<Rightarrow> (let st1 = st\<lparr>ud_strong := n\<rparr> in Some (if n = 0 then user_data_drop st1 else st1)))"

text \<open>The atomic actions of the methods.\<close>

definition disable :: "callback_state \<Rightarrow> callback_state" where
  "disable st = st\<lparr>cbs_enabled := False\<rparr>"

definition take_slot :: "callback_state \<Rightarrow> bool \<times> callback_state" where
  "take_slot st = (cbs_slot st, st\<lparr>cbs_slot := False\<rparr>)"

definition clone_slot :: "callback_state \<Rightarrow> bool \<times> callback_state" where
  "clone_slot st = (if cbs_slot st then (True, st\<lparr>ud_strong := Suc (ud_strong st)\<rparr>) else (False, st))"

definition take_destroy :: "callback_state \<Rightarrow> callback_state" where
  "take_destroy st = st\<lparr>ud_destroy := None\<rparr>"

text \<open>The methods, run without interference: whether a clone was obtained, and the new state.\<close>

definition acquire_user_data :: "callback_state \<Rightarrow> bool \<times> callback_state" where
  "acquire_user_data st = (if cbs_enabled st then clone_slot st else (False, st))"

definition disable_and_release_user_data :: "callback_state \<Rightarrow> callback_state option" where
  "disable_and_release_user_data st =
     (case take_slot (disable st) of
        (present, st1) \<Rightarrow> if present then drop_user_data st1 else Some st1)"

definition disable_and_relinquish_user_data :: "callback_state \<Rightarrow> callback_state option" where
  "disable_and_relinquish_user_data st =
     (case take_slot (disable st) of
        (present, st1) \<Rightarrow> if present then drop_user_data (take_destroy st1) else Some st1)"

section \<open>Interleaving\<close>

text \<open>
  Where a callback thread is in \<open>acquire_user_data\<close> and around the user's function: before the first
  load, before the lock, before the second load, before the clone, and in the user's function. The
  controlling thread destroys the instrument, or abandons it after a failed creation.
\<close>

datatype cb_pc = CB_Idle | CB_Locking | CB_Locked | CB_Cloning | CB_Running

datatype ending = Release | Relinquish

datatype ctl_pc =
    Ctl_Live
  | Ctl_Locking ending
  | Ctl_Locked ending
  | Ctl_Clearing
  | Ctl_Dropping ending
  | Ctl_Done ending

datatype lock_owner = Unlocked | By_Callback nat | By_Controller

record callback_race =
  cr_state :: callback_state
  cr_lock :: lock_owner
  cr_pcs :: "nat \<Rightarrow> cb_pc"
  cr_ctl :: ctl_pc

inductive callback_step :: "callback_race \<Rightarrow> callback_race \<Rightarrow> bool" where
  cb_load:
    "cr_pcs c t = CB_Idle \<Longrightarrow>
     callback_step c (c\<lparr>cr_pcs := (cr_pcs c)(t := if cbs_enabled (cr_state c) then CB_Locking else CB_Idle)\<rparr>)"
| cb_lock:
    "cr_pcs c t = CB_Locking \<Longrightarrow> cr_lock c = Unlocked \<Longrightarrow>
     callback_step c (c\<lparr>cr_lock := By_Callback t, cr_pcs := (cr_pcs c)(t := CB_Locked)\<rparr>)"
| cb_check:
    "cr_pcs c t = CB_Locked \<Longrightarrow> cbs_enabled (cr_state c) \<Longrightarrow>
     callback_step c (c\<lparr>cr_pcs := (cr_pcs c)(t := CB_Cloning)\<rparr>)"
| cb_leave:
    "cr_pcs c t = CB_Locked \<Longrightarrow> \<not> cbs_enabled (cr_state c) \<Longrightarrow>
     callback_step c (c\<lparr>cr_lock := Unlocked, cr_pcs := (cr_pcs c)(t := CB_Idle)\<rparr>)"
| cb_clone:
    "cr_pcs c t = CB_Cloning \<Longrightarrow> clone_slot (cr_state c) = (got, st) \<Longrightarrow>
     callback_step c (c\<lparr>cr_state := st, cr_lock := Unlocked,
                       cr_pcs := (cr_pcs c)(t := if got then CB_Running else CB_Idle)\<rparr>)"
| cb_return:
    "cr_pcs c t = CB_Running \<Longrightarrow> drop_user_data (cr_state c) = Some st \<Longrightarrow>
     callback_step c (c\<lparr>cr_state := st, cr_pcs := (cr_pcs c)(t := CB_Idle)\<rparr>)"
| ctl_disable:
    "cr_ctl c = Ctl_Live \<Longrightarrow>
     callback_step c (c\<lparr>cr_state := disable (cr_state c), cr_ctl := Ctl_Locking e\<rparr>)"
| ctl_lock:
    "cr_ctl c = Ctl_Locking e \<Longrightarrow> cr_lock c = Unlocked \<Longrightarrow>
     callback_step c (c\<lparr>cr_lock := By_Controller, cr_ctl := Ctl_Locked e\<rparr>)"
| ctl_take:
    "cr_ctl c = Ctl_Locked e \<Longrightarrow> take_slot (cr_state c) = (present, st) \<Longrightarrow>
     callback_step c (c\<lparr>cr_state := st, cr_lock := Unlocked,
                       cr_ctl := if \<not> present then Ctl_Done e
                                 else if e = Release then Ctl_Dropping e else Ctl_Clearing\<rparr>)"
| ctl_clear:
    "cr_ctl c = Ctl_Clearing \<Longrightarrow>
     callback_step c (c\<lparr>cr_state := take_destroy (cr_state c), cr_ctl := Ctl_Dropping Relinquish\<rparr>)"
| ctl_drop:
    "cr_ctl c = Ctl_Dropping e \<Longrightarrow> drop_user_data (cr_state c) = Some st \<Longrightarrow>
     callback_step c (c\<lparr>cr_state := st, cr_ctl := Ctl_Done e\<rparr>)"

inductive callback_reachable :: "callback_state \<Rightarrow> callback_race \<Rightarrow> bool" for st where
  callback_init: "callback_reachable st \<lparr>cr_state = st, cr_lock = Unlocked, cr_pcs = (\<lambda>_. CB_Idle), cr_ctl = Ctl_Live\<rparr>"
| callback_more: "callback_reachable st c \<Longrightarrow> callback_step c c' \<Longrightarrow> callback_reachable st c'"

section \<open>The invariant\<close>

definition running :: "callback_race \<Rightarrow> nat" where
  "running c = count_where (\<lambda>p. p = CB_Running) (cr_pcs c)"

fun ctl_holds :: "ctl_pc \<Rightarrow> bool" where
  "ctl_holds Ctl_Clearing = True"
| "ctl_holds (Ctl_Dropping e) = True"
| "ctl_holds _ = False"

fun before_take :: "ctl_pc \<Rightarrow> bool" where
  "before_take Ctl_Live = True"
| "before_take (Ctl_Locking e) = True"
| "before_take (Ctl_Locked e) = True"
| "before_take _ = False"

fun cleared :: "ctl_pc \<Rightarrow> bool" where
  "cleared (Ctl_Dropping e) = (e = Relinquish)"
| "cleared (Ctl_Done e) = (e = Relinquish)"
| "cleared _ = False"

text \<open>What has been given back when the last reference is gone.\<close>

definition given_back :: "ctl_pc \<Rightarrow> nat option \<Rightarrow> ptr \<Rightarrow> (nat \<times> ptr) list" where
  "given_back ctl d p = (case d of None \<Rightarrow> [] | Some f \<Rightarrow> if cleared ctl then [] else [(f, p)])"

definition callback_inv :: "nat option \<Rightarrow> ptr \<Rightarrow> callback_race \<Rightarrow> bool" where
  "callback_inv d p c \<longleftrightarrow>
     finite {t. cr_pcs c t \<noteq> CB_Idle} \<and>
     ud_ptr (cr_state c) = p \<and>
     (cbs_slot (cr_state c) \<longleftrightarrow> before_take (cr_ctl c)) \<and>
     (cbs_enabled (cr_state c) \<longleftrightarrow> cr_ctl c = Ctl_Live) \<and>
     ud_strong (cr_state c) = of_bool (cbs_slot (cr_state c)) + running c + of_bool (ctl_holds (cr_ctl c)) \<and>
     (if ud_strong (cr_state c) = 0 then ud_destroyed (cr_state c) = given_back (cr_ctl c) d p
      else ud_destroyed (cr_state c) = [] \<and>
           ud_destroy (cr_state c) = (if cleared (cr_ctl c) then None else d))"




lemma running_update:
  assumes "finite {t. cr_pcs c t \<noteq> CB_Idle}"
  shows "running (c'\<lparr>cr_pcs := (cr_pcs c)(t := p)\<rparr>) + of_bool (cr_pcs c t = CB_Running) = running c + of_bool (p = CB_Running)"
proof -
  have "finite {t. cr_pcs c t = CB_Running}" by (rule finite_subset [OF _ assms]) auto
  then show ?thesis
    using count_where_update [where P = "\<lambda>p. p = CB_Running" and f = "cr_pcs c" and t = t and p = p] by (simp add: running_def)
qed

lemma running_pos: "finite {t. cr_pcs c t \<noteq> CB_Idle} \<Longrightarrow> cr_pcs c t = CB_Running \<Longrightarrow> 0 < running c"
  unfolding running_def
  by (rule count_where_pos) (auto intro: finite_subset [of _ "{t. cr_pcs c t \<noteq> CB_Idle}"])

lemma finite_pcs_update: "finite {t. f t \<noteq> CB_Idle} \<Longrightarrow> finite {u. (f(t := p)) u \<noteq> CB_Idle}"
  by (rule finite_subset [of _ "insert t {t. f t \<noteq> CB_Idle}"]) (auto split: if_splits)

lemma running_simps [simp]:
  "running (c\<lparr>cr_state := st\<rparr>) = running c" "running (c\<lparr>cr_lock := l\<rparr>) = running c" "running (c\<lparr>cr_ctl := k\<rparr>) = running c"
  by (simp_all add: running_def)

lemma drop_user_data_facts:
  assumes "drop_user_data st = Some st'"
  shows "ud_strong st = Suc (ud_strong st')" "ud_ptr st' = ud_ptr st" "cbs_slot st' = cbs_slot st"
    "cbs_enabled st' = cbs_enabled st"
    "ud_strong st' \<noteq> 0 \<Longrightarrow> ud_destroyed st' = ud_destroyed st \<and> ud_destroy st' = ud_destroy st"
    "ud_strong st' = 0 \<Longrightarrow> ud_destroyed st' =
       ud_destroyed st @ (case ud_destroy st of None \<Rightarrow> [] | Some f \<Rightarrow> [(f, ud_ptr st)])"
  using assms
  by (auto simp: drop_user_data_def user_data_drop_def Let_def split: nat.splits option.splits if_splits)


lemma callback_inv_init: "callback_inv d p \<lparr>cr_state = new_callback_state v k f p d, cr_lock = Unlocked,
    cr_pcs = (\<lambda>_. CB_Idle), cr_ctl = Ctl_Live\<rparr>"
  by (simp add: callback_inv_def new_callback_state_def running_def count_where_def)

lemma callback_inv_pcs:
  assumes "callback_inv d p c" and "cr_pcs c t \<noteq> CB_Running" and "q \<noteq> CB_Running"
    and "cr_pcs c' = (cr_pcs c)(t := q)" and "cr_state c' = cr_state c" and "cr_ctl c' = cr_ctl c"
  shows "callback_inv d p c'"
proof -
  have fin: "finite {t. cr_pcs c t \<noteq> CB_Idle}" using assms(1) by (simp add: callback_inv_def)
  have "running c' = running c"
    using running_update [OF fin, where c' = c' and t = t and p = q] assms(2-4) by (simp add: running_def)
  with assms finite_pcs_update [OF fin, of t q] show ?thesis by (simp add: callback_inv_def)
qed

lemma callback_inv_step:
  assumes "callback_step c c'" and inv: "callback_inv d p c"
  shows "callback_inv d p c'"
  using assms(1)
proof (cases rule: callback_step.cases)
  case (cb_load t)
  show ?thesis by (rule callback_inv_pcs [OF inv, where t = t]) (use cb_load in auto)
next
  case (cb_lock t)
  show ?thesis by (rule callback_inv_pcs [OF inv, where t = t]) (use cb_lock in auto)
next
  case (cb_check t)
  show ?thesis by (rule callback_inv_pcs [OF inv, where t = t]) (use cb_check in auto)
next
  case (cb_leave t)
  show ?thesis by (rule callback_inv_pcs [OF inv, where t = t]) (use cb_leave in auto)
next
  case (cb_clone t got st)
  have fin: "finite {t. cr_pcs c t \<noteq> CB_Idle}" using inv by (simp add: callback_inv_def)
  let ?q = "if got then CB_Running else CB_Idle"
  have "running (c\<lparr>cr_pcs := (cr_pcs c)(t := ?q)\<rparr>) = running c + of_bool got"
    using running_update [OF fin, where c' = c and t = t and p = ?q] cb_clone(2) by (simp split: if_splits)
  then have r: "running c' = running c + of_bool got" using cb_clone(1) by (simp add: running_def)
  have "finite {u. cr_pcs c' u \<noteq> CB_Idle}"
    using finite_pcs_update [OF fin, of t ?q] cb_clone(1) by simp
  with r inv cb_clone show ?thesis
    by (auto simp: callback_inv_def clone_slot_def simp del: fun_upd_apply split: if_splits)
next
  case (cb_return t st)
  have fin: "finite {t. cr_pcs c t \<noteq> CB_Idle}" using inv by (simp add: callback_inv_def)
  have "running (c\<lparr>cr_pcs := (cr_pcs c)(t := CB_Idle)\<rparr>) + 1 = running c"
    using running_update [OF fin, where c' = c and t = t and p = CB_Idle] cb_return(2) by simp
  then have r: "running c' + 1 = running c" using cb_return(1) by (simp add: running_def)
  have f: "finite {u. cr_pcs c' u \<noteq> CB_Idle}"
    using finite_pcs_update [OF fin, of t CB_Idle] cb_return(1) by simp
  note d = drop_user_data_facts [OF cb_return(3)]
  from r f d inv cb_return(1) show ?thesis
    by (auto simp: callback_inv_def given_back_def simp del: fun_upd_apply split: if_splits option.splits)
next
  case (ctl_disable e)
  with inv show ?thesis by (auto simp: callback_inv_def disable_def given_back_def split: if_splits)
next
  case (ctl_lock e)
  with inv show ?thesis by (auto simp: callback_inv_def given_back_def split: if_splits)
next
  case (ctl_take e present st)
  with inv show ?thesis by (cases e) (auto simp: callback_inv_def take_slot_def given_back_def split: if_splits)
next
  case ctl_clear
  with inv show ?thesis by (auto simp: callback_inv_def take_destroy_def given_back_def split: if_splits)
next
  case (ctl_drop e st)
  note d = drop_user_data_facts [OF ctl_drop(3)]
  from d inv ctl_drop(1,2) show ?thesis
    by (auto simp: callback_inv_def given_back_def split: if_splits option.splits)
qed

lemma callback_reachable_inv:
  assumes "callback_reachable (new_callback_state v k f p d) c"
  shows "callback_inv d p c"
  using assms by induction (auto intro: callback_inv_init callback_inv_step)



section \<open>Properties\<close>

lemmas reachable_facts = callback_reachable_inv [unfolded callback_inv_def]

text \<open>The steps of one thread at a time, for concrete runs.\<close>

definition callback_start :: "callback_state \<Rightarrow> callback_race" where
  "callback_start st = \<lparr>cr_state = st, cr_lock = Unlocked, cr_pcs = (\<lambda>_. CB_Idle), cr_ctl = Ctl_Live\<rparr>"

lemma reach_disable:
  "callback_reachable st (callback_start st\<lparr>cr_state := disable st, cr_ctl := Ctl_Locking e\<rparr>)"
  using callback_more [OF callback_init ctl_disable] by (simp add: callback_start_def)

lemma reach_locked:
  "callback_reachable st (callback_start st\<lparr>cr_state := disable st, cr_lock := By_Controller, cr_ctl := Ctl_Locked e\<rparr>)"
  using callback_more [OF reach_disable [of st e] ctl_lock] by (simp add: callback_start_def)

lemma reach_released:
  assumes "disable_and_release_user_data st = Some st'" and "cbs_slot st"
  shows "callback_reachable st (callback_start st\<lparr>cr_state := st', cr_ctl := Ctl_Done Release\<rparr>)"
proof -
  let ?s = "(disable st)\<lparr>cbs_slot := False\<rparr>"
  have slot: "cbs_slot (disable st)" using assms(2) by (simp add: disable_def)
  have "callback_reachable st (callback_start st\<lparr>cr_state := ?s, cr_ctl := Ctl_Dropping Release\<rparr>)"
    using callback_more [OF reach_locked [of st Release] ctl_take] slot
    by (fastforce simp: callback_start_def take_slot_def)
  moreover have "drop_user_data ?s = Some st'"
    using assms slot by (simp add: disable_and_release_user_data_def take_slot_def)
  ultimately show ?thesis
    using callback_more [OF _ ctl_drop] by (fastforce simp: callback_start_def)
qed

text \<open>C24: the caller's user data is given back exactly once. Under every interleaving of callbacks
  with the destruction of the instrument, the destroy function is called at most once, with the
  caller's pointer; never while a callback that uses the data is running; never after a failed
  creation, which leaves the data to the caller; and once the instrument is destroyed and no callback
  is running any more, it has been called.\<close>

theorem user_data_destroyed_exactly_once:
  assumes reach: "callback_reachable (new_callback_state v k f p (Some d)) c"
  shows "(ud_destroyed (cr_state c) = [] \<or> ud_destroyed (cr_state c) = [(d, p)]) \<and>
    (cr_pcs c t = CB_Running \<longrightarrow> ud_destroyed (cr_state c) = []) \<and>
    (cr_ctl c = Ctl_Done Relinquish \<longrightarrow> ud_destroyed (cr_state c) = []) \<and>
    (cr_ctl c = Ctl_Done Release \<and> (\<forall>u. cr_pcs c u \<noteq> CB_Running) \<longrightarrow> ud_destroyed (cr_state c) = [(d, p)])"
proof -
  note r = reachable_facts [OF reach]
  have "ud_destroyed (cr_state c) = [] \<or> ud_destroyed (cr_state c) = [(d, p)]"
    and "cr_ctl c = Ctl_Done Relinquish \<Longrightarrow> ud_destroyed (cr_state c) = []"
    using r by (auto simp: given_back_def split: if_splits)
  moreover have "cr_pcs c t = CB_Running \<Longrightarrow> ud_destroyed (cr_state c) = []"
    using r running_pos [of c t] by (auto split: if_splits)
  moreover have "ud_destroyed (cr_state c) = [(d, p)]" if "cr_ctl c = Ctl_Done Release" "\<forall>u. cr_pcs c u \<noteq> CB_Running"
    using r that by (simp add: running_def count_where_def given_back_def)
  ultimately show ?thesis by blast
qed

theorem user_data_destroyed_exactly_once_witness:
  "\<exists>c. callback_reachable (new_callback_state (Some 9) NK_U64 3 (Some 77) (Some 5)) c \<and>
       cr_ctl c = Ctl_Done Release \<and> ud_destroyed (cr_state c) = [(5, Some 77)]"
proof -
  let ?st = "new_callback_state (Some 9) NK_U64 3 (Some 77) (Some 5)"
  let ?st' = "?st\<lparr>cbs_enabled := False, cbs_slot := False, ud_strong := 0, ud_destroy := None, ud_destroyed := [(5, Some 77)]\<rparr>"
  have run: "disable_and_release_user_data ?st = Some ?st'" and slot: "cbs_slot ?st"
    by (simp_all add: new_callback_state_def disable_and_release_user_data_def disable_def take_slot_def
      drop_user_data_def user_data_drop_def Let_def)
  note r = reach_released [OF run slot]
  show ?thesis
    by (rule exI, rule conjI, rule r) (use user_data_destroyed_exactly_once [OF r] in \<open>simp add: callback_start_def\<close>)
qed











end
