(* ===== verification/Observable_Api.thy ===== *)
theory Observable_Api
  imports Metrics_Api Callback_State
begin

text \<open>
  Observable instruments (\<open>api/src/metrics.rs\<close>): the process is extended by the callback states,
  which instrument handles and the implementation share, and by the stack of observers of the
  thread. The implementation runs a callback through a trampoline, which registers an observer
  for the duration of the user's function; the user observes values through its token. What the
  user's function does is a script; the implementation may run further callbacks below it.
\<close>

section \<open>State\<close>

text \<open>One allocation of \<open>Arc<CallbackState>\<close>. A cell without references has been freed.\<close>

record callback_cell =
  cell_arcs :: nat
  cell_state :: callback_state

record observer_entry =
  oe_vtable :: ptr
  oe_ctx :: ptr
  oe_number :: otel_metric_number_kind

record 'e metrics_process = "'e process" +
  cells :: "addr \<Rightarrow> callback_cell option"
  next_cell :: addr
  next_observer :: usize
  observers :: "(usize \<times> observer_entry) list"

text \<open>An access to a cell; \<open>None\<close> is a use after free.\<close>

definition on_cell ::
  "(callback_cell \<Rightarrow> callback_cell option) \<Rightarrow> addr \<Rightarrow> ('e, 'm) metrics_process_scheme
     \<Rightarrow> ('e, 'm) metrics_process_scheme option" where
  "on_cell f a s =
     (case cells s a of
        None \<Rightarrow> None
      | Some c \<Rightarrow>
          if cell_arcs c = 0 then None
          else map_option (\<lambda>c'. s\<lparr>cells := (cells s)(a := Some c')\<rparr>) (f c))"

definition clone_arc :: "callback_cell \<Rightarrow> callback_cell option" where
  "clone_arc c = Some (c\<lparr>cell_arcs := Suc (cell_arcs c)\<rparr>)"

text \<open>Dropping an \<open>Arc<CallbackState>\<close>; the last one drops what the slot still holds.\<close>

definition drop_arc :: "callback_cell \<Rightarrow> callback_cell option" where
  "drop_arc c =
     (let c1 = c\<lparr>cell_arcs := cell_arcs c - 1\<rparr> in
      if cell_arcs c1 = 0 \<and> cbs_slot (cell_state c) then
        map_option (\<lambda>st. c1\<lparr>cell_state := st\<rparr>) (drop_user_data (snd (take_slot (cell_state c))))
      else Some c1)"

definition in_state :: "(callback_state \<Rightarrow> callback_state option) \<Rightarrow> callback_cell \<Rightarrow> callback_cell option" where
  "in_state f c = map_option (\<lambda>st. c\<lparr>cell_state := st\<rparr>) (f (cell_state c))"

definition callback_state_free ::
  "ptr \<Rightarrow> ('e, 'm) metrics_process_scheme \<Rightarrow> ('e, 'm) metrics_process_scheme option" where
  "callback_state_free state s = (case state of None \<Rightarrow> Some s | Some a \<Rightarrow> on_cell drop_arc a s)"

section \<open>Observer tokens\<close>

function next_observer_token :: "usize \<Rightarrow> usize \<times> usize" where
  "next_observer_token n = (if n \<noteq> 0 then (n, n + 1) else next_observer_token (n + 1))"
  by pat_completeness auto

termination next_observer_token
  by (relation "measure (\<lambda>n. if n = 0 then 1 else 0)") auto

declare next_observer_token.simps [simp del]

definition register_observer ::
  "observer_entry \<Rightarrow> ('e, 'm) metrics_process_scheme \<Rightarrow> usize \<times> ('e, 'm) metrics_process_scheme" where
  "register_observer entry s =
     (case next_observer_token (next_observer s) of
        (token, n) \<Rightarrow> (token, s\<lparr>next_observer := n, observers := observers s @ [(token, entry)]\<rparr>))"

text \<open>\<open>ObserverRegistration::drop\<close> removes the last entry with the token.\<close>

fun remove_first :: "usize \<Rightarrow> (usize \<times> observer_entry) list \<Rightarrow> (usize \<times> observer_entry) list" where
  "remove_first t [] = []"
| "remove_first t (x # xs) = (if fst x = t then xs else x # remove_first t xs)"

definition unregister_observer ::
  "usize \<Rightarrow> ('e, 'm) metrics_process_scheme \<Rightarrow> ('e, 'm) metrics_process_scheme" where
  "unregister_observer token s = s\<lparr>observers := rev (remove_first token (rev (observers s)))\<rparr>"

definition find_observer :: "usize \<Rightarrow> ('e, 'm) metrics_process_scheme \<Rightarrow> observer_entry option" where
  "find_observer token s = map_option snd (find (\<lambda>e. fst e = token) (rev (observers s)))"

text \<open>\<open>otel_observer_*_observe\<close>; the number kind is that of the entry point.\<close>

definition observe ::
  "'e implementation \<Rightarrow> otel_metric_number_kind \<Rightarrow> usize \<Rightarrow> metric_value \<Rightarrow> otel_key_value list option \<Rightarrow> usize
     \<Rightarrow> ('e, 'm) metrics_process_scheme \<Rightarrow> (otel_status \<times> ('e, 'm) metrics_process_scheme) option" where
  "observe im expected token value attributes attribute_count s =
     (let refuse = Some (fail St_InvalidArgument ''observer is not active for this callback invocation'' s) in
      case find_observer token s of
        None \<Rightarrow> refuse
      | Some entry \<Rightarrow>
          (case oe_vtable entry of
             None \<Rightarrow> refuse
           | Some vt \<Rightarrow>
               if oe_number entry = expected
               then vt_status im (R_Observer vt (oe_ctx entry)) (Op_Observe value attributes attribute_count) s
               else refuse))"

definition otel_observer_observe ::
  "'e implementation \<Rightarrow> otel_metric_number_kind \<Rightarrow> usize \<Rightarrow> metric_value \<Rightarrow> otel_key_value list option \<Rightarrow> usize
     \<Rightarrow> ('e, 'm) metrics_process_scheme \<Rightarrow> (otel_status \<times> ('e, 'm) metrics_process_scheme) option" where
  "otel_observer_observe im expected token value attributes attribute_count s =
     observe im expected token value attributes attribute_count (clear_last_error s)"

section \<open>Trampolines\<close>

text \<open>
  \<open>callback_trampoline_*\<close> up to the user's function and after it. An entered trampoline holds a clone
  of the state and of the user data; the result is the token, the user data pointer and whether the
  state's callback has the trampoline's number kind.
\<close>

record invocation =
  iv_token :: usize
  iv_user_data :: ptr
  iv_called :: bool

definition enter_trampoline ::
  "otel_metric_number_kind \<Rightarrow> ptr \<Rightarrow> ptr \<Rightarrow> ('e, 'm) metrics_process_scheme
     \<Rightarrow> (invocation option \<times> ('e, 'm) metrics_process_scheme) option" where
  "enter_trampoline number observer_ctx state s =
     (case state of
        None \<Rightarrow> Some (None, s)
      | Some a \<Rightarrow>
          (case on_cell clone_arc a s of
             None \<Rightarrow> None
           | Some s1 \<Rightarrow>
               (let st = cell_state (the (cells s1 a)); (got, st') = acquire_user_data st in
                case on_cell (in_state (\<lambda>_. Some st')) a s1 of
                  None \<Rightarrow> None
                | Some s2 \<Rightarrow>
                    if \<not> got then map_option (\<lambda>s3. (None, s3)) (on_cell drop_arc a s2)
                    else
                      (let (token, s3) = register_observer
                             \<lparr>oe_vtable = cbs_vtable st, oe_ctx = observer_ctx, oe_number = number\<rparr> s2
                       in Some (Some \<lparr>iv_token = token, iv_user_data = ud_ptr st,
                                      iv_called = (fst (cbs_callback st) = number)\<rparr>, s3)))))"

definition leave_trampoline ::
  "usize \<Rightarrow> addr \<Rightarrow> ('e, 'm) metrics_process_scheme \<Rightarrow> ('e, 'm) metrics_process_scheme option" where
  "leave_trampoline token a s =
     (case on_cell (in_state drop_user_data) a (unregister_observer token s) of
        None \<Rightarrow> None
      | Some s1 \<Rightarrow> on_cell drop_arc a s1)"

section \<open>Creating and destroying\<close>

fun observable_spec :: "observable_instrument \<Rightarrow> otel_metric_instrument_kind \<times> otel_metric_number_kind" where
  "observable_spec ObservableCounterU64 = (IK_ObservableCounter, NK_U64)"
| "observable_spec ObservableCounterF64 = (IK_ObservableCounter, NK_F64)"
| "observable_spec ObservableUpDownCounterI64 = (IK_ObservableUpDownCounter, NK_I64)"
| "observable_spec ObservableUpDownCounterF64 = (IK_ObservableUpDownCounter, NK_F64)"
| "observable_spec ObservableGaugeU64 = (IK_ObservableGauge, NK_U64)"
| "observable_spec ObservableGaugeI64 = (IK_ObservableGauge, NK_I64)"
| "observable_spec ObservableGaugeF64 = (IK_ObservableGauge, NK_F64)"

definition new_cell ::
  "callback_state \<Rightarrow> ('e, 'm) metrics_process_scheme \<Rightarrow> addr \<times> ('e, 'm) metrics_process_scheme" where
  "new_cell st s =
     (next_cell s, s\<lparr>cells := (cells s)(next_cell s := Some \<lparr>cell_arcs = 1, cell_state = st\<rparr>),
                     next_cell := Suc (next_cell s)\<rparr>)"

text \<open>The configuration passes one clone of the state to the implementation, which releases it through
  \<open>callback_state_free\<close> at any later time, even if the creation fails.\<close>

definition observable_config ::
  "observable_instrument \<Rightarrow> addr \<Rightarrow> otel_metric_instrument_config \<Rightarrow> otel_metric_instrument_config" where
  "observable_config i a config =
     (case observable_spec i of
        (ikind, number) \<Rightarrow>
          config\<lparr>mic_kind := instrument_kind_code ikind, mic_number := number_kind_code number,
                 mic_callback := Some number, mic_callback_state := Some a, mic_callback_state_free := True\<rparr>)"

definition create_observable ::
  "'e implementation \<Rightarrow> observable_instrument \<Rightarrow> backing \<Rightarrow> otel_metric_instrument_config \<Rightarrow> addr
     \<Rightarrow> ('e, 'm) metrics_process_scheme
     \<Rightarrow> ((otel_status + ptr \<times> ptr) \<times> ('e, 'm) metrics_process_scheme) option" where
  "create_observable im i meter config a s =
     (case bk_vtable meter of
        None \<Rightarrow> Some (Inr (None, None), s)
      | Some vt \<Rightarrow>
          (case on_cell clone_arc a s of
             None \<Rightarrow> None
           | Some s1 \<Rightarrow>
               create_backed im vt (bk_ctx meter) (observable_config i a config)
                 ''backed observable metric instrument creation failed'' s1))"

text \<open>On failure the state is disabled, keeps the user data alive for the caller, and drops its own
  reference.\<close>

definition abandon_cell :: "addr \<Rightarrow> ('e, 'm) metrics_process_scheme \<Rightarrow> ('e, 'm) metrics_process_scheme option" where
  "abandon_cell a s =
     (case on_cell (in_state disable_and_relinquish_user_data) a s of
        None \<Rightarrow> None
      | Some s1 \<Rightarrow> on_cell drop_arc a s1)"

definition otel_meter_create_observable ::
  "'e implementation \<Rightarrow> observable_instrument \<Rightarrow> ptr \<Rightarrow> otel_string_view \<Rightarrow> otel_instrument_options option
     \<Rightarrow> nat option \<Rightarrow> ptr \<Rightarrow> nat option \<Rightarrow> bool \<Rightarrow> ('e, 'm) metrics_process_scheme
     \<Rightarrow> (otel_status \<times> ptr option \<times> ('e, 'm) metrics_process_scheme) option" where
  "otel_meter_create_observable im i meter name options callback user_data user_data_destroy out_null s =
     (let s0 = clear_last_error s in
      if out_null then Some (fail_out St_InvalidArgument ''instrument out pointer is NULL'' None s0)
      else
        (case callback of
           None \<Rightarrow> Some (fail_out St_InvalidArgument ''observable callback must not be NULL'' (Some None) s0)
         | Some cb \<Rightarrow>
             (case checked_as KIND_METER as_meter meter s0 of
                None \<Rightarrow> None
              | Some (None, s1) \<Rightarrow> Some (St_InvalidArgument, Some None, s1)
              | Some (Some m, s1) \<Rightarrow>
                  (case validate_instrument_config name options False of
                     None \<Rightarrow> None
                   | Some (Inl e) \<Rightarrow> Some (fst (fail_abi e s1), Some None, snd (fail_abi e s1))
                   | Some (Inr config) \<Rightarrow>
                       (case new_cell (new_callback_state (bk_vtable m) (snd (observable_spec i)) cb user_data user_data_destroy) s1 of
                          (a, s2) \<Rightarrow>
                            (case create_observable im i m config a s2 of
                               None \<Rightarrow> None
                             | Some (Inl status, s3) \<Rightarrow> map_option (\<lambda>s4. (status, Some None, s4)) (abandon_cell a s3)
                             | Some (Inr (vtable, ctx), s3) \<Rightarrow>
                                 (case into_raw (observable_kind i)
                                     (P_Observable i \<lparr>bk_vtable = vtable, bk_ctx = ctx, ob_state = a\<rparr>) s3 of
                                    (p, s4) \<Rightarrow> Some (St_Ok, Some p, s4))))))))"

text \<open>Destroying disables the callback, frees the implementation's instrument, then frees the handle and
  with it the handle's reference to the state.\<close>

definition otel_observable_destroy ::
  "'e implementation \<Rightarrow> observable_instrument \<Rightarrow> ptr \<Rightarrow> ('e, 'm) metrics_process_scheme
     \<Rightarrow> ('e, 'm) metrics_process_scheme option" where
  "otel_observable_destroy im i instrument s =
     (case checked_as (observable_kind i) (as_observable i) instrument s of
        None \<Rightarrow> None
      | Some (None, s1) \<Rightarrow> destroy (observable_kind i) instrument s1
      | Some (Some b, s1) \<Rightarrow>
          (case on_cell (in_state disable_and_release_user_data) (ob_state b) s1 of
             None \<Rightarrow> None
           | Some s2 \<Rightarrow>
               (case free_res im (backing_res R_Instrument (bk_vtable b) (bk_ctx b)) s2 of
                  None \<Rightarrow> None
                | Some s3 \<Rightarrow>
                    (case destroy (observable_kind i) instrument s3 of
                       None \<Rightarrow> None
                     | Some s4 \<Rightarrow> on_cell drop_arc (ob_state b) s4))))"

section \<open>Callback scripts\<close>

text \<open>
  What a user's function and the implementation below it do on this thread, in order: observe a value
  through a token (its own or any other), run another callback through a trampoline, destroy an
  observable instrument, or return. The script continues with what it is told.
\<close>

datatype callback_script =
    Return
  | Observe otel_metric_number_kind usize metric_value "otel_key_value list option" usize "otel_status \<Rightarrow> callback_script"
  | Run_Callback otel_metric_number_kind ptr ptr "usize \<Rightarrow> ptr \<Rightarrow> callback_script" callback_script
  | Destroy_Observable observable_instrument ptr callback_script

text \<open>The implementation lends its observer context to the callback while that runs.\<close>

definition lend :: "observer_entry \<Rightarrow> ('e, 'm) metrics_process_scheme \<Rightarrow> ('e, 'm) metrics_process_scheme" where
  "lend e s = (case oe_vtable e of None \<Rightarrow> s | Some vt \<Rightarrow> acquire (R_Observer vt (oe_ctx e)) s)"

definition take_back :: "observer_entry \<Rightarrow> ('e, 'm) metrics_process_scheme \<Rightarrow> ('e, 'm) metrics_process_scheme" where
  "take_back e s =
     (case oe_vtable e of
        None \<Rightarrow> s
      | Some vt \<Rightarrow> s\<lparr>ledger := (ledger s)(R_Observer vt (oe_ctx e) := ledger s (R_Observer vt (oe_ctx e)) - 1)\<rparr>)"

text \<open>A trampoline call by the implementation around a user's function \<open>f\<close>.\<close>

definition with_trampoline ::
  "otel_metric_number_kind \<Rightarrow> ptr \<Rightarrow> ptr
     \<Rightarrow> (usize \<Rightarrow> ptr \<Rightarrow> ('e, 'm) metrics_process_scheme \<Rightarrow> ('e, 'm) metrics_process_scheme option)
     \<Rightarrow> ('e, 'm) metrics_process_scheme \<Rightarrow> ('e, 'm) metrics_process_scheme option" where
  "with_trampoline number ctx state f s =
     (case enter_trampoline number ctx state s of
        None \<Rightarrow> None
      | Some (None, s1) \<Rightarrow> Some s1
      | Some (Some iv, s1) \<Rightarrow>
          (let e = snd (last (observers s1)) in
           case (if iv_called iv then f (iv_token iv) (iv_user_data iv) (lend e s1) else Some (lend e s1)) of
             None \<Rightarrow> None
           | Some s2 \<Rightarrow> leave_trampoline (iv_token iv) (the state) (take_back e s2)))"

primrec run_script ::
  "'e implementation \<Rightarrow> callback_script \<Rightarrow> ('e, 'm) metrics_process_scheme \<Rightarrow> ('e, 'm) metrics_process_scheme option" where
  "run_script im Return s = Some s"
| "run_script im (Observe number token value attributes n k) s =
     (case otel_observer_observe im number token value attributes n s of
        None \<Rightarrow> None
      | Some (status, s1) \<Rightarrow> run_script im (k status) s1)"
| "run_script im (Run_Callback number ctx state f k) s =
     (case with_trampoline number ctx state (\<lambda>token ud. run_script im (f token ud)) s of
        None \<Rightarrow> None
      | Some s1 \<Rightarrow> run_script im k s1)"
| "run_script im (Destroy_Observable i p k) s =
     (case otel_observable_destroy im i p s of None \<Rightarrow> None | Some s1 \<Rightarrow> run_script im k s1)"

end
