(* ===== verification/Observer_Tokens.thy ===== *)
theory Observer_Tokens
  imports Observable_Api
begin

text \<open>
  What the observer tokens of \<open>Observable_Api\<close> guarantee, for every script that a user's function
  and the implementation may follow: the stack of observers is bracketed, a token works exactly
  while its callback runs on this thread, an accepted observation reaches a live observer of the
  right number kind, and the user data of a running callback stays alive even when the callback
  destroys its own instrument.
\<close>

section \<open>Frames\<close>

text \<open>The API's other operations leave the callback states and the observers alone.\<close>

definition obs_frame :: "('e, 'm) metrics_process_scheme \<Rightarrow> ('e, 'm) metrics_process_scheme \<Rightarrow> bool" where
  "obs_frame s s' \<longleftrightarrow> cells s' = cells s \<and> next_cell s' = next_cell s \<and> next_observer s' = next_observer s \<and>
     observers s' = observers s"

lemma obs_frame_refl [simp]: "obs_frame s s"
  by (simp add: obs_frame_def)

lemma obs_frame_trans: "obs_frame a b \<Longrightarrow> obs_frame b c \<Longrightarrow> obs_frame a c"
  by (simp add: obs_frame_def)

lemma obs_frame_process:
  "process.more s' = process.more (s :: ('e, 'm) metrics_process_scheme) \<Longrightarrow> obs_frame s s'"
  by (cases s; cases s') (simp add: obs_frame_def)

lemma obs_frame_more:
  assumes "store.more s' = store.more (s :: ('e, 'm) metrics_process_scheme)"
  shows "obs_frame s s'"
  by (rule obs_frame_process) (use assms in \<open>cases s; cases s'; simp\<close>)

lemma obs_frame_error [simp]:
  "obs_frame s (clear_last_error s)" "obs_frame s (set_last_error m s)" "obs_frame s (set_error_text t s)"
  "obs_frame s (snd (fail st t s))" "obs_frame s (apply_effect ef s)"
  by (rule obs_frame_more; simp add: fail_def apply_effect_def split: err_effect.splits)+

lemma obs_frame_process_fields [simp]:
  "obs_frame s (s\<lparr>ledger := l\<rparr>)" "obs_frame s (s\<lparr>calls := c, impl_state := e\<rparr>)" "obs_frame s (s\<lparr>objs := h\<rparr>)"
  by (simp_all add: obs_frame_def)

lemma obs_frame_call: "vt_call f r op s = Some (v, s') \<Longrightarrow> obs_frame s s'"
  using obs_frame_trans [OF obs_frame_process_fields(2) obs_frame_error(5)]
  by (auto simp: vt_call_def split: if_splits prod.splits)

lemma obs_frame_free: "vt_free im r s = Some s' \<Longrightarrow> obs_frame s s'"
  using obs_frame_trans [OF obs_frame_call obs_frame_process_fields(1)]
  by (auto simp: vt_free_def vt_unit_def)

lemma obs_frame_checked: "checked_as K proj p s = Some (r, s') \<Longrightarrow> obs_frame s s'"
  using checked_as_frame [of K proj p s r s'] by (auto intro: obs_frame_more)

lemma obs_frame_destroy: "destroy K p s = Some s' \<Longrightarrow> obs_frame s s'"
  by (auto simp: destroy_def split: option.splits if_splits)

lemma obs_frame_lend [simp]: "obs_frame s (lend e s)" "obs_frame s (take_back e s)"
  by (auto simp: lend_def take_back_def acquire_def split: option.splits)

lemma obs_frame_observe:
  "otel_observer_observe im k t v as n s = Some (st, s') \<Longrightarrow> obs_frame s s'"
  using obs_frame_trans [OF obs_frame_error(1) obs_frame_call [of "im_status im"]]
    obs_frame_trans [OF obs_frame_error(1) obs_frame_error(4)]
  by (auto simp: otel_observer_observe_def observe_def vt_status_def Let_def prod_eq_iff fail_def
      split: option.splits if_splits)

lemma on_cell_SomeD:
  assumes "on_cell f a s = Some s'"
  obtains c c' where "cells s a = Some c" "cell_arcs c \<noteq> 0" "f c = Some c'"
    "s' = s\<lparr>cells := (cells s)(a := Some c')\<rparr>"
  using assms by (auto simp: on_cell_def split: option.splits if_splits)

lemma on_cell_observers: "on_cell f a s = Some s' \<Longrightarrow> observers s' = observers s \<and> next_observer s' = next_observer s"
  by (erule on_cell_SomeD) simp

section \<open>The stack of observers\<close>

lemma remove_first_rev: "rev (remove_first t (rev (xs @ [(t, e)]))) = xs"
  by simp

lemma register_observer_facts:
  assumes "register_observer e s = (t, s')"
  shows "observers s' = observers s @ [(t, e)]" "cells s' = cells s"
  using assms by (auto simp: register_observer_def split: prod.splits)

lemma enter_trampoline_Entered:
  assumes "enter_trampoline k ctx p s = Some (Some iv, s')"
  obtains a e where "p = Some a" "observers s' = observers s @ [(iv_token iv, e)]" "oe_ctx e = ctx" "oe_number e = k"
    "iv_token iv = fst (next_observer_token (next_observer s))"
  using assms
  by (auto simp: enter_trampoline_def Let_def register_observer_def
      split: option.splits prod.splits if_splits dest!: on_cell_observers)

lemma enter_trampoline_not:
  "enter_trampoline k ctx p s = Some (None, s') \<Longrightarrow> observers s' = observers s"
  by (auto simp: enter_trampoline_def Let_def split: option.splits prod.splits if_splits dest!: on_cell_observers)

lemma leave_trampoline_observers:
  "leave_trampoline t a s = Some s' \<Longrightarrow> observers s' = rev (remove_first t (rev (observers s)))"
  by (auto simp: leave_trampoline_def unregister_observer_def split: option.splits dest!: on_cell_observers)

lemma with_trampoline_SomeE:
  assumes "with_trampoline k ctx p f s = Some s'"
  obtains (Off) "enter_trampoline k ctx p s = Some (None, s')"
    | (On) iv a e s1 s2 where "enter_trampoline k ctx p s = Some (Some iv, s1)" "p = Some a"
      "observers s1 = observers s @ [(iv_token iv, e)]" "oe_ctx e = ctx" "oe_number e = k"
      "iv_called iv \<Longrightarrow> f (iv_token iv) (iv_user_data iv) (lend e s1) = Some s2"
      "\<not> iv_called iv \<Longrightarrow> s2 = lend e s1"
      "leave_trampoline (iv_token iv) a (take_back e s2) = Some s'"
proof -
  obtain r s1 where ent: "enter_trampoline k ctx p s = Some (r, s1)"
    using assms by (auto simp: with_trampoline_def split: option.splits)
  show thesis
  proof (cases r)
    case None
    then show thesis using ent assms Off by (simp add: with_trampoline_def)
  next
    case (Some iv)
    note en = ent [unfolded Some]
    obtain a e where e: "p = Some a" "observers s1 = observers s @ [(iv_token iv, e)]" "oe_ctx e = ctx" "oe_number e = k"
      by (rule enter_trampoline_Entered [OF en])
    have l: "snd (last (observers s1)) = e" by (simp add: e(2))
    have "(case (if iv_called iv then f (iv_token iv) (iv_user_data iv) (lend e s1) else Some (lend e s1)) of
        None \<Rightarrow> None | Some s2 \<Rightarrow> leave_trampoline (iv_token iv) a (take_back e s2)) = Some s'"
      using assms unfolding with_trampoline_def Let_def en option.case prod.case l by (simp add: e(1) cong: option.case_cong if_cong)
    then show thesis using On [OF en e] by (auto split: option.splits if_splits)
  qed
qed

lemma with_trampoline_observers:
  assumes "with_trampoline k ctx p f s = Some s'"
    and f: "\<And>t ud u u'. f t ud u = Some u' \<Longrightarrow> observers u' = observers u"
  shows "observers s' = observers s"
  using assms(1)
proof (cases rule: with_trampoline_SomeE)
  case (On iv a e s1 s2)
  have "observers s2 = observers s1"
    using On(6,7) f obs_frame_lend(1) [of s1 e] by (cases "iv_called iv") (auto simp: obs_frame_def)
  with On(3) leave_trampoline_observers [OF On(8)] obs_frame_lend(2) [of s2 e] show ?thesis
    by (simp add: obs_frame_def)
qed (rule enter_trampoline_not)

lemma destroy_observers: "otel_observable_destroy im i p s = Some s' \<Longrightarrow> observers s' = observers s"
  by (auto simp: otel_observable_destroy_def free_res_def obs_frame_def
      split: option.splits dest!: on_cell_observers obs_frame_checked obs_frame_free obs_frame_destroy)


text \<open>C37: the stack of observers is bracketed. Whatever a callback does, with whatever tokens, and
  whatever callbacks run below it, the thread's stack of observers afterwards is what it was before;
  so every token issued meanwhile is dead again.\<close>

theorem observer_stack_restored:
  assumes "run_script im script s = Some s'"
  shows "observers s' = observers s"
  using assms
proof (induction script arbitrary: s s')
  case (Observe k t v as n cont)
  then obtain st s1 where s1: "otel_observer_observe im k t v as n s = Some (st, s1)" "run_script im (cont st) s1 = Some s'"
    by (auto split: option.splits)
  with Observe.IH [OF _ s1(2)] obs_frame_observe [OF s1(1)] show ?case by (auto simp: obs_frame_def)
next
  case (Run_Callback k ctx p f cont)
  then obtain s1 where s1: "with_trampoline k ctx p (\<lambda>token ud. run_script im (f token ud)) s = Some s1"
      "run_script im cont s1 = Some s'"
    by (auto split: option.splits)
  have "observers s1 = observers s"
    by (rule with_trampoline_observers [OF s1(1)]) (rule Run_Callback.IH(1); blast)
  with Run_Callback.IH(2) [OF s1(2)] show ?case by simp
next
  case (Destroy_Observable i p cont)
  then obtain s1 where s1: "otel_observable_destroy im i p s = Some s1" "run_script im cont s1 = Some s'"
    by (auto split: option.splits)
  with Destroy_Observable.IH [OF s1(2)] destroy_observers [OF s1(1)] show ?case by simp
qed simp

section \<open>Tokens\<close>

text \<open>Before the counter wraps, every live token is below it.\<close>

definition token_inv :: "('e, 'm) metrics_process_scheme \<Rightarrow> bool" where
  "token_inv s \<longleftrightarrow> next_observer s \<noteq> 0 \<and> (\<forall>t \<in> fst ` set (observers s). 0 < t \<and> t < next_observer s)"

lemma token_inv_fresh: "token_inv s \<Longrightarrow> next_observer s \<notin> fst ` set (observers s)"
  by (auto simp: token_inv_def)

lemma find_None_tokens: "t \<notin> fst ` set (observers s) \<Longrightarrow> find_observer t s = None"
  by (force simp: find_observer_def find_None_iff)

lemma find_observer_last: "observers s = xs @ [(t, e)] \<Longrightarrow> find_observer t s = Some e"
  by (simp add: find_observer_def)

lemma token_is_counter: "n \<noteq> 0 \<Longrightarrow> next_observer_token n = (n, n + 1)"
  by (subst next_observer_token.simps) simp

lemma next_observer_token_nonzero: "fst (next_observer_token n) \<noteq> 0"
  by (induction n rule: next_observer_token.induct) (subst next_observer_token.simps, simp)

lemma token_inv_enter:
  assumes "token_inv s" and "enter_trampoline k ctx p s = Some (Some iv, s')" and "next_observer s \<noteq> - 1"
  shows "token_inv s'"
proof -
  have n: "next_observer s \<noteq> 0" using assms(1) by (simp add: token_inv_def)
  have s': "observers s' = observers s @ [(iv_token iv, the (find_observer (iv_token iv) s'))]"
    "next_observer s' = next_observer s + 1" "iv_token iv = next_observer s"
    using assms(2) n
    by (auto simp: enter_trampoline_def Let_def register_observer_def token_is_counter find_observer_def
        split: option.splits prod.splits if_splits dest!: on_cell_observers)
  have nz: "next_observer s + 1 \<noteq> 0" using assms(3) by (metis eq_neg_iff_add_eq_0)
  moreover from nz have "next_observer s < next_observer s + 1" 
    using unatSuc [of "next_observer s"] by (simp add: word_less_nat_alt add.commute)
  ultimately show ?thesis
    using assms(1) n s' by (auto simp: token_inv_def word_neq_0_conv intro: less_trans)
qed

text \<open>C26: an observer token works exactly while its callback runs. Let a trampoline register an
  observer, and let the callback and everything below it do whatever they like. When they are done,
  and so at every moment between, the token still denotes the observer of this invocation; once the
  trampoline has returned, the token denotes nothing and every observation through it is refused
  without a call.\<close>

theorem token_works_only_during_callback:
  assumes "token_inv s" and enter: "enter_trampoline k ctx p s = Some (Some iv, s1)"
    and body: "run_script im script s1 = Some s2"
    and leave: "leave_trampoline (iv_token iv) (the p) s2 = Some s3"
  shows "(\<exists>vt. find_observer (iv_token iv) s2 = Some \<lparr>oe_vtable = vt, oe_ctx = ctx, oe_number = k\<rparr>) \<and>
    iv_token iv \<noteq> 0 \<and> observers s3 = observers s \<and>
    otel_observer_observe im k' (iv_token iv) v as n s3 =
      Some (fail St_InvalidArgument ''observer is not active for this callback invocation'' (clear_last_error s3))"
proof -
  obtain a e where e: "p = Some a" "observers s1 = observers s @ [(iv_token iv, e)]" "oe_ctx e = ctx" "oe_number e = k"
      "iv_token iv = fst (next_observer_token (next_observer s))"
    by (rule enter_trampoline_Entered [OF enter])
  have o2: "observers s2 = observers s @ [(iv_token iv, e)]" using observer_stack_restored [OF body] e(2) by simp
  have during: "find_observer (iv_token iv) s2 = Some e" by (rule find_observer_last [OF o2])
  moreover have "e = \<lparr>oe_vtable = oe_vtable e, oe_ctx = ctx, oe_number = k\<rparr>" using e(3,4) by (cases e) simp
  moreover have o3: "observers s3 = observers s" using leave_trampoline_observers [OF leave] by (simp add: o2)
  moreover have "iv_token iv = next_observer s"
    using assms(1) e(5) by (simp add: token_inv_def token_is_counter)
  then have "find_observer (iv_token iv) (clear_last_error s3) = None"
    using token_inv_fresh [OF assms(1)] o3 obs_frame_error(1) [of s3]
    by (intro find_None_tokens) (simp add: obs_frame_def)
  then have "otel_observer_observe im k' (iv_token iv) v as n s3 =
      Some (fail St_InvalidArgument ''observer is not active for this callback invocation'' (clear_last_error s3))"
    by (simp add: otel_observer_observe_def observe_def)
  moreover have "iv_token iv \<noteq> 0" using e(5) next_observer_token_nonzero by simp
  ultimately show ?thesis by metis
qed

section \<open>Observations\<close>

text \<open>Every observer on the stack holds a reference to its lent context.\<close>

definition lent_inv :: "('e, 'm) metrics_process_scheme \<Rightarrow> bool" where
  "lent_inv s \<longleftrightarrow> (\<forall>vt c. length (filter (\<lambda>x. oe_vtable (snd x) = Some vt \<and> oe_ctx (snd x) = c) (observers s))
     \<le> ledger s (R_Observer vt c))"

lemma find_Some_member: "find P xs = Some x \<Longrightarrow> x \<in> set xs \<and> P x"
  by (induction xs) (auto split: if_splits)

lemma lent_inv_live:
  assumes "lent_inv s" and "find_observer t s = Some e" and "oe_vtable e = Some vt"
  shows "0 < ledger s (R_Observer vt (oe_ctx e))"
proof -
  have "(t, e) \<in> set (observers s)"
    using assms(2) find_Some_member [of "\<lambda>x. fst x = t" "rev (observers s)"] by (auto simp: find_observer_def)
  then have "0 < length (filter (\<lambda>x. oe_vtable (snd x) = Some vt \<and> oe_ctx (snd x) = oe_ctx e) (observers s))"
    using assms(3) by (force simp: length_greater_0_conv filter_empty_conv simp del: length_greater_0_conv)
  with assms(1) show ?thesis unfolding lent_inv_def by (blast intro: less_le_trans)
qed

text \<open>The innermost observer with this token, if it has this number kind and an implementation.\<close>

definition active_observer ::
  "otel_metric_number_kind \<Rightarrow> usize \<Rightarrow> ('e, 'm) metrics_process_scheme \<Rightarrow> (addr \<times> ptr) option" where
  "active_observer k t s =
     (case find_observer t s of
        None \<Rightarrow> None
      | Some e \<Rightarrow> (case oe_vtable e of
          None \<Rightarrow> None
        | Some vt \<Rightarrow> if oe_number e = k then Some (vt, oe_ctx e) else None))"

text \<open>an observation through any token is safe. While every observer on the stack holds its lent
  context, \<open>observe\<close> is defined for every token, forged or stale, and every number kind. If the
  innermost observer with that token has this number kind and an implementation, the value and its
  attributes are passed on in exactly one call, on that observer's own context, and the
  implementation's status is returned; otherwise it answers \<open>InvalidArgument\<close> with a diagnostic,
  makes no call and changes nothing.\<close>

theorem observation_reaches_own_observer:
  assumes "lent_inv s"
  shows "\<exists>st s'. otel_observer_observe im k t v as n s = Some (st, s') \<and> same_api s s' \<and> obs_frame s s' \<and>
    (case active_observer k t s of
       Some (vt, c) \<Rightarrow> calls s' = calls s @ [(R_Observer vt c, Op_Observe v as n)] \<and>
         st = fst (im_status im (R_Observer vt c) (Op_Observe v as n) (impl_state s))
     | None \<Rightarrow> st = St_InvalidArgument \<and> has_last_error s' \<and> calls s' = calls s)"
proof -
  let ?s0 = "clear_last_error s"
  have fo: "find_observer t ?s0 = find_observer t s"
    using obs_frame_error(1) [of s] by (simp add: obs_frame_def find_observer_def)
  let ?refuse = "fail St_InvalidArgument ''observer is not active for this callback invocation'' ?s0"
  have r: "?refuse = (St_InvalidArgument, snd ?refuse)" "has_last_error (snd ?refuse)" "calls (snd ?refuse) = calls s"
      "same_api s (snd ?refuse)" "obs_frame s (snd ?refuse)"
    using same_api_trans [OF same_api_error(1) same_api_error(4)] obs_frame_trans [OF obs_frame_error(1) obs_frame_error(4)]
    by (simp_all add: fail_def)
  note run = otel_observer_observe_def observe_def Let_def fo active_observer_def
  show ?thesis
  proof (cases "find_observer t s")
    case None
    then show ?thesis using r by (intro exI [of _ St_InvalidArgument] exI [of _ "snd ?refuse"]) (simp add: run)
  next
    case (Some e)
    show ?thesis
    proof (cases "oe_vtable e")
      case None
      then show ?thesis
        using r Some by (intro exI [of _ St_InvalidArgument] exI [of _ "snd ?refuse"]) (simp add: run)
    next
      case vt: (Some vt)
      show ?thesis
      proof (cases "oe_number e = k")
        case False
        then show ?thesis
          using r Some vt by (intro exI [of _ St_InvalidArgument] exI [of _ "snd ?refuse"]) (simp add: run)
      next
        case True
        let ?r = "R_Observer vt (oe_ctx e)" and ?op = "Op_Observe v as n"
        have led: "0 < ledger ?s0 ?r" using lent_inv_live [OF assms Some vt] by simp
        obtain st s' where c: "vt_call (im_status im) ?r ?op ?s0 = Some (st, s')"
          using vt_call_defined [OF led, of "im_status im" ?op] by blast
        have st: "st = fst (im_status im ?r ?op (impl_state s))"
          using c led by (auto simp: vt_call_def split: prod.splits)
        note v = vt_call_SomeD [OF c]
        show ?thesis
          using c Some vt True v(2) st same_api_trans [OF same_api_error(1) v(1)]
            obs_frame_trans [OF obs_frame_error(1) obs_frame_call [OF c]]
          by (intro exI [of _ st] exI [of _ s']) (simp add: run vt_status_def)
      qed
    qed
  qed
qed

section \<open>Invariants of scripts\<close>

text \<open>A property that every step of a script keeps, at a level \<open>x\<close> that may change for the extent of a
  callback. The client's lemma is that scripts keep it.\<close>

locale script_invariant =
  fixes im :: "'e implementation" and I :: "'x \<Rightarrow> ('e, 'm) metrics_process_scheme \<Rightarrow> bool"
  assumes observing: "I x s \<Longrightarrow> otel_observer_observe im k t v as n s = Some (st, s') \<Longrightarrow> I x s'"
    and destroying: "I x s \<Longrightarrow> otel_observable_destroy im i q s = Some s' \<Longrightarrow> I x s'"
    and not_entering: "I x s \<Longrightarrow> enter_trampoline k ctx q s = Some (None, s') \<Longrightarrow> I x s'"
    and entering: "I x s \<Longrightarrow> enter_trampoline k ctx (Some a) s = Some (Some iv, s1) \<Longrightarrow>
      observers s1 = observers s @ [(iv_token iv, e)] \<Longrightarrow>
      \<exists>y. I y (lend e s1) \<and> (\<forall>s2 s3. I y s2 \<longrightarrow> observers s2 = observers s1 \<longrightarrow>
        leave_trampoline (iv_token iv) a (take_back e s2) = Some s3 \<longrightarrow> I x s3)"
begin

lemma trampoline_keeps:
  assumes run: "with_trampoline k ctx q (\<lambda>t ud. run_script im (f t ud)) s = Some s'" and "I x s"
    and f: "\<And>t ud u u' y. run_script im (f t ud) u = Some u' \<Longrightarrow> I y u \<Longrightarrow> I y u'"
  shows "I x s'"
  using run
proof (cases rule: with_trampoline_SomeE)
  case Off
  then show ?thesis by (rule not_entering [OF assms(2)])
next
  case (On iv a e s1 s2)
  obtain y where y: "I y (lend e s1)"
    and undo: "\<And>s2 s3. I y s2 \<Longrightarrow> observers s2 = observers s1 \<Longrightarrow>
      leave_trampoline (iv_token iv) a (take_back e s2) = Some s3 \<Longrightarrow> I x s3"
    using entering [OF assms(2) On(1) [unfolded On(2)] On(3)] by blast
  have "I y s2 \<and> observers s2 = observers s1"
  proof (cases "iv_called iv")
    case True
    then show ?thesis
      using f [OF On(6) y] observer_stack_restored [OF On(6)] obs_frame_lend(1) [of s1 e] by (simp add: obs_frame_def)
  next
    case False
    then show ?thesis using On(7) y obs_frame_lend(1) [of s1 e] by (simp add: obs_frame_def)
  qed
  then show ?thesis using undo On(8) by blast
qed

lemma script_keeps: "run_script im script s = Some s' \<Longrightarrow> I x s \<Longrightarrow> I x s'"
proof (induction script arbitrary: s s' x)
  case (Observe k t v as n cont)
  then obtain st s1 where s1: "otel_observer_observe im k t v as n s = Some (st, s1)" "run_script im (cont st) s1 = Some s'"
    by (auto split: option.splits)
  show ?case by (rule Observe.IH [OF _ s1(2) observing [OF Observe.prems(2) s1(1)]]) simp
next
  case (Run_Callback k ctx q f cont)
  then obtain s1 where s1: "with_trampoline k ctx q (\<lambda>t ud. run_script im (f t ud)) s = Some s1"
      "run_script im cont s1 = Some s'"
    by (auto split: option.splits)
  have "I x s1"
    by (rule trampoline_keeps [OF s1(1) Run_Callback.prems(2)]) (rule Run_Callback.IH(1); blast)
  with Run_Callback.IH(2) [OF s1(2)] show ?case by blast
next
  case (Destroy_Observable i q cont)
  then obtain s1 where s1: "otel_observable_destroy im i q s = Some s1" "run_script im cont s1 = Some s'"
    by (auto split: option.splits)
  show ?case by (rule Destroy_Observable.IH [OF s1(2) destroying [OF Destroy_Observable.prems(2) s1(1)]])
qed simp

end

subsection \<open>Lent contexts\<close>

lemma lent_inv_cong:
  "observers s' = observers s \<Longrightarrow> (\<And>vt c. ledger s' (R_Observer vt c) = ledger s (R_Observer vt c)) \<Longrightarrow> lent_inv s' = lent_inv s"
  by (simp add: lent_inv_def)

lemma on_cell_ledger: "on_cell f a s = Some s' \<Longrightarrow> ledger s' = ledger s"
  by (erule on_cell_SomeD) simp

lemma enter_trampoline_ledger: "enter_trampoline k ctx p s = Some (r, s') \<Longrightarrow> ledger s' = ledger s"
  by (auto simp: enter_trampoline_def Let_def register_observer_def
      split: option.splits prod.splits if_splits dest!: on_cell_ledger)

lemma leave_trampoline_ledger: "leave_trampoline t a s = Some s' \<Longrightarrow> ledger s' = ledger s"
  by (auto simp: leave_trampoline_def unregister_observer_def split: option.splits dest!: on_cell_ledger)

lemma observe_ledger: "otel_observer_observe im k t v as n s = Some (st, s') \<Longrightarrow> ledger s' = ledger s"
proof -
  have "same_api s (snd (fail St_InvalidArgument m (clear_last_error s)))" for m
    by (rule same_api_trans [OF same_api_error(1) same_api_error(4)])
  then have "ledger (snd (fail St_InvalidArgument m (clear_last_error s))) = ledger s" for m by (simp add: same_api_def)
  moreover have "ledger s' = ledger s" if "vt_call (im_status im) r op (clear_last_error s) = Some (st, s')" for r op
    using same_api_trans [OF same_api_error(1) vt_call_SomeD(1) [OF that]] by (simp add: same_api_def)
  ultimately show "otel_observer_observe im k t v as n s = Some (st, s') \<Longrightarrow> ledger s' = ledger s"
    by (auto simp: otel_observer_observe_def observe_def vt_status_def Let_def prod_eq_iff
      split: option.splits if_splits)
qed

lemma destroy_ledger:
  fixes im :: "'e implementation" and s :: "('e, 'm) metrics_process_scheme"
  assumes "otel_observable_destroy im i q s = Some s'"
  shows "ledger s' (R_Observer vt c) = ledger s (R_Observer vt c)"
proof -
  have chk: "ledger u' = ledger u" if "checked_as K proj p u = Some (r, u')" for K p r
    and u u' :: "('e, 'm) metrics_process_scheme" and proj :: "api_payload \<Rightarrow> observable_body option"
    using same_api_checked [OF that] by (simp add: same_api_def)
  have fr: "ledger u' (R_Observer vt c) = ledger u (R_Observer vt c)"
    if "free_res im (backing_res R_Instrument w d) u = Some u'" for w d and u u' :: "('e, 'm) metrics_process_scheme"
    using that vt_free_SomeD(12) [of im _ u u'] by (cases w) (auto simp: free_res_def)
  have ds: "ledger u' = ledger u" if "destroy K p u = Some u'" for K p and u u' :: "('e, 'm) metrics_process_scheme"
    using that by (auto simp: destroy_def split: option.splits if_splits)
  show ?thesis
    using assms by (auto simp: otel_observable_destroy_def split: option.splits dest!: chk fr ds on_cell_ledger)
qed

interpretation lent: script_invariant im "\<lambda>_ :: unit. lent_inv" for im
proof
  fix x :: unit and s s' :: "('a, 'b) metrics_process_scheme" and k t v as n st
  assume "lent_inv s" "otel_observer_observe im k t v as n s = Some (st, s')"
  then show "lent_inv s'"
    using lent_inv_cong observe_ledger obs_frame_observe by (metis obs_frame_def)
next
  fix x :: unit and s s' :: "('a, 'b) metrics_process_scheme" and i q
  assume "lent_inv s" "otel_observable_destroy im i q s = Some s'"
  then show "lent_inv s'" using lent_inv_cong destroy_ledger destroy_observers by metis
next
  fix x :: unit and s s' :: "('a, 'b) metrics_process_scheme" and k ctx q
  assume "lent_inv s" "enter_trampoline k ctx q s = Some (None, s')"
  then show "lent_inv s'" using lent_inv_cong enter_trampoline_ledger enter_trampoline_not by metis
next
  fix x :: unit and s s1 :: "('a, 'b) metrics_process_scheme" and k ctx a iv e
  assume s: "lent_inv s" and ent: "enter_trampoline k ctx (Some a) s = Some (Some iv, s1)"
    and o: "observers s1 = observers s @ [(iv_token iv, e)]"
  have l1: "ledger s1 = ledger s" by (rule enter_trampoline_ledger [OF ent])
  have "lent_inv (lend e s1)"
    using s o l1 by (auto simp: lent_inv_def lend_def acquire_def split: option.splits intro: le_SucI)
  moreover have "lent_inv s3" if s2: "lent_inv s2" "observers s2 = observers s1"
      and lv: "leave_trampoline (iv_token iv) a (take_back e s2) = Some s3" for s2 s3
  proof -
    have o3: "observers s3 = observers s"
      using leave_trampoline_observers [OF lv] s2(2) o obs_frame_lend(2) [of s2 e] by (simp add: obs_frame_def)
    have l3: "ledger s3 = ledger (take_back e s2)" by (rule leave_trampoline_ledger [OF lv])
    show ?thesis
      unfolding lent_inv_def
    proof (intro allI)
      fix vt c
      let ?P = "\<lambda>x. oe_vtable (snd x) = Some vt \<and> oe_ctx (snd x) = c"
      have "length (filter ?P (observers s)) + of_bool (oe_vtable e = Some vt \<and> oe_ctx e = c) \<le> ledger s2 (R_Observer vt c)"
        using s2(1) [unfolded lent_inv_def, rule_format, of vt c] by (auto simp: s2(2) o split: if_splits)
      moreover have "ledger s3 (R_Observer vt c) = ledger s2 (R_Observer vt c) - of_bool (oe_vtable e = Some vt \<and> oe_ctx e = c)"
        by (auto simp: l3 take_back_def split: option.splits)
      ultimately show "length (filter ?P (observers s3)) \<le> ledger s3 (R_Observer vt c)" unfolding o3 by linarith
    qed
  qed
  ultimately show "\<exists>y :: unit. lent_inv (lend e s1) \<and> (\<forall>s2 s3. lent_inv s2 \<longrightarrow> observers s2 = observers s1 \<longrightarrow>
        leave_trampoline (iv_token iv) a (take_back e s2) = Some s3 \<longrightarrow> lent_inv s3)"
    by blast
qed

lemma run_script_lent: "run_script im script s = Some s' \<Longrightarrow> lent_inv s \<Longrightarrow> lent_inv s'"
  by (rule lent.script_keeps)

subsection \<open>User data\<close>

text \<open>The user data of a callback state while \<open>n\<close> callbacks hold it and it was not relinquished.\<close>

definition data_held :: "nat option \<Rightarrow> ptr \<Rightarrow> nat \<Rightarrow> callback_cell \<Rightarrow> bool" where
  "data_held d p n c \<longleftrightarrow> ud_ptr (cell_state c) = p \<and> ud_destroy (cell_state c) = d \<and>
     ud_destroyed (cell_state c) = [] \<and> ud_strong (cell_state c) = of_bool (cbs_slot (cell_state c)) + n"

definition held_at :: "addr \<Rightarrow> nat option \<Rightarrow> ptr \<Rightarrow> nat \<Rightarrow> ('e, 'm) metrics_process_scheme \<Rightarrow> bool" where
  "held_at a d p n s \<longleftrightarrow> (\<exists>c. cells s a = Some c \<and> data_held d p n c)"

lemma held_at_cong: "cells s' = cells s \<Longrightarrow> held_at a d p n s' = held_at a d p n s"
  by (simp add: held_at_def)

lemma held_at_frame: "obs_frame s s' \<Longrightarrow> held_at a d p n s \<Longrightarrow> held_at a d p n s'"
  by (simp add: held_at_def obs_frame_def)

lemma held_on_cell:
  assumes "on_cell f b s = Some s'" and "held_at a d p n s"
    and "\<And>c c'. b = a \<Longrightarrow> data_held d p n c \<Longrightarrow> f c = Some c' \<Longrightarrow> data_held d p m c'"
    and "b \<noteq> a \<Longrightarrow> m = n"
  shows "held_at a d p m s'"
  using assms(1) by (rule on_cell_SomeD) (use assms(2-) in \<open>auto simp: held_at_def split: if_splits\<close>)

lemma drop_shared: "Suc 0 < ud_strong st \<Longrightarrow> drop_user_data st = Some (st\<lparr>ud_strong := ud_strong st - 1\<rparr>)"
  by (auto simp: drop_user_data_def Let_def split: nat.splits)

lemma data_held_ops:
  "data_held d p n c \<Longrightarrow> clone_arc c = Some c' \<Longrightarrow> data_held d p n c'"
  "0 < n \<Longrightarrow> data_held d p n c \<Longrightarrow> drop_arc c = Some c' \<Longrightarrow> data_held d p n c'"
  "0 < n \<Longrightarrow> data_held d p n c \<Longrightarrow> in_state disable_and_release_user_data c = Some c' \<Longrightarrow> data_held d p n c'"
  "0 < n \<Longrightarrow> data_held d p (Suc n) c \<Longrightarrow> in_state drop_user_data c = Some c' \<Longrightarrow> data_held d p n c'"
  by (auto simp: data_held_def clone_arc_def drop_arc_def in_state_def take_slot_def Let_def
      disable_and_release_user_data_def disable_def drop_shared split: if_splits)

lemma held_acquire:
  "acquire_user_data st = (got, st') \<Longrightarrow> data_held d p n (c\<lparr>cell_state := st\<rparr>) \<Longrightarrow>
     data_held d p (n + of_bool got) (c\<lparr>cell_state := st'\<rparr>)"
  by (auto simp: acquire_user_data_def clone_slot_def data_held_def split: if_splits)

lemma cell_update_self: "c\<lparr>cell_state := cell_state c\<rparr> = c"
  by simp

lemma enter_trampoline_E:
  assumes "enter_trampoline k ctx q s = Some (r, s')"
  obtains (Null) "q = None" "r = None" "s' = s"
    | (Cell) b s1 got st s2 where "q = Some b" "on_cell clone_arc b s = Some s1"
      "acquire_user_data (cell_state (the (cells s1 b))) = (got, st)" "on_cell (in_state (\<lambda>_. Some st)) b s1 = Some s2"
      "\<not> got \<Longrightarrow> r = None \<and> on_cell drop_arc b s2 = Some s'" "got \<Longrightarrow> r \<noteq> None \<and> cells s' = cells s2"
proof (cases q)
  case None
  then show thesis using assms Null by (simp add: enter_trampoline_def)
next
  case (Some b)
  obtain s1 where s1: "on_cell clone_arc b s = Some s1"
    using assms Some by (auto simp: enter_trampoline_def split: option.splits)
  obtain got st where acq: "acquire_user_data (cell_state (the (cells s1 b))) = (got, st)" by fastforce
  obtain s2 where s2: "on_cell (in_state (\<lambda>_. Some st)) b s1 = Some s2"
    using assms Some s1 acq by (auto simp: enter_trampoline_def Let_def split: option.splits)
  show thesis
    by (rule Cell [OF Some s1 acq s2])
      (use assms Some s1 acq s2 in \<open>auto simp: enter_trampoline_def Let_def register_observer_def split: prod.splits\<close>)
qed

text \<open>Entering a trampoline takes one more hold on its own state's user data.\<close>

lemma held_enter:
  assumes "enter_trampoline k ctx q s = Some (r, s')" and held: "held_at a d p n s" and "r \<noteq> None \<or> 0 < n"
  shows "held_at a d p (n + of_bool (r \<noteq> None \<and> q = Some a)) s'"
  using assms(1)
proof (cases rule: enter_trampoline_E)
  case (Cell b s1 got st s2)
  have 1: "held_at a d p n s1" by (rule held_on_cell [OF Cell(2) held]) (auto dest: data_held_ops)
  have 2: "held_at a d p (n + of_bool (got \<and> b = a)) s2"
    using Cell(4)
  proof (rule on_cell_SomeD)
    fix c c'
    assume c: "cells s1 b = Some c" "in_state (\<lambda>_. Some st) c = Some c'" "s2 = s1\<lparr>cells := (cells s1)(b := Some c')\<rparr>"
    show ?thesis
    proof (cases "b = a")
      case True
      have "data_held d p n c" using 1 c(1) True by (simp add: held_at_def)
      then have "data_held d p (n + of_bool got) c'"
        using held_acquire [of "cell_state c" got st d p n c] Cell(3) c(1,2) by (simp add: in_state_def)
      then show ?thesis using c(3) True by (simp add: held_at_def)
    next
      case False
      then show ?thesis using 1 c(3) by (simp add: held_at_def)
    qed
  qed
  show ?thesis
  proof (cases got)
    case True
    then show ?thesis using Cell(1,6) 2 held_at_cong [of s' s2] by simp
  next
    case False
    then have r: "r = None" "on_cell drop_arc b s2 = Some s'" using Cell(5) by auto
    have "held_at a d p n s'"
      by (rule held_on_cell [OF r(2)]) (use 2 False r(1) assms(3) data_held_ops(2) in auto)
    then show ?thesis using r by simp
  qed
qed (use held in simp)

lemma held_leave:
  assumes "leave_trampoline t b s = Some s'" and "held_at a d p (n + of_bool (b = a)) s" and "0 < n"
  shows "held_at a d p n s'"
proof -
  obtain s1 where s1: "on_cell (in_state drop_user_data) b (unregister_observer t s) = Some s1" "on_cell drop_arc b s1 = Some s'"
    using assms(1) by (auto simp: leave_trampoline_def split: option.splits)
  have "held_at a d p (n + of_bool (b = a)) (unregister_observer t s)"
    using assms(2) by (simp add: held_at_def unregister_observer_def)
  then have "held_at a d p n s1"
    by (rule held_on_cell [OF s1(1)]) (use assms(3) data_held_ops(4) in auto)
  then show ?thesis by (rule held_on_cell [OF s1(2)]) (use assms(3) data_held_ops(2) in auto)
qed

lemma held_destroy:
  assumes "otel_observable_destroy im i q s = Some s'" and "held_at a d p n s" and "0 < n"
  shows "held_at a d p n s'"
proof -
  have rel: "held_at a d p n u'" if "on_cell (in_state disable_and_release_user_data) b u = Some u'" "held_at a d p n u" for b u u'
    by (rule held_on_cell [OF that]) (use assms(3) data_held_ops(3) in auto)
  have arc: "held_at a d p n u'" if "on_cell drop_arc b u = Some u'" "held_at a d p n u" for b u u'
    by (rule held_on_cell [OF that]) (use assms(3) data_held_ops(2) in auto)
  have fr: "obs_frame u u'" if "free_res im r u = Some u'" for r and u u' :: "('a, 'b) metrics_process_scheme"
    using that obs_frame_free by (auto simp: free_res_def split: option.splits)
  show ?thesis
    using assms(1,2) unfolding otel_observable_destroy_def
    by (auto split: option.splits dest!: obs_frame_checked obs_frame_destroy fr)
      (metis held_at_frame rel arc)+
qed

interpretation held: script_invariant im "\<lambda>n s. 0 < n \<and> held_at a d p n s" for im a d p
proof
  fix n s s' k t v as m st
  assume "0 < n \<and> held_at a d p n s" "otel_observer_observe im k t v as m s = Some (st, s')"
  then show "0 < n \<and> held_at a d p n s'" using held_at_frame obs_frame_observe by blast
next
  fix n s s' i q
  assume "0 < n \<and> held_at a d p n s" "otel_observable_destroy im i q s = Some s'"
  then show "0 < n \<and> held_at a d p n s'" using held_destroy by blast
next
  fix n s s' k ctx q
  assume "0 < n \<and> held_at a d p n s" "enter_trampoline k ctx q s = Some (None, s')"
  then show "0 < n \<and> held_at a d p n s'" using held_enter [of k ctx q s None s'] by simp
next
  fix n s s1 k ctx b iv e
  assume n: "0 < n \<and> held_at a d p n s" and ent: "enter_trampoline k ctx (Some b) s = Some (Some iv, s1)"
  let ?y = "n + of_bool (b = a)"
  have "held_at a d p ?y (lend e s1)"
    by (rule held_at_frame [OF obs_frame_lend(1)]) (use held_enter [OF ent, of a d p n] n in simp)
  moreover have "held_at a d p n s3"
    if "held_at a d p ?y s2" "leave_trampoline (iv_token iv) b (take_back e s2) = Some s3" for s2 s3
    by (rule held_leave [OF that(2)]) (use that(1) n held_at_frame [OF obs_frame_lend(2)] in auto)
  ultimately show "\<exists>y. (0 < y \<and> held_at a d p y (lend e s1)) \<and>
      (\<forall>s2 s3. 0 < y \<and> held_at a d p y s2 \<longrightarrow> observers s2 = observers s1 \<longrightarrow>
        leave_trampoline (iv_token iv) b (take_back e s2) = Some s3 \<longrightarrow> 0 < n \<and> held_at a d p n s3)"
    using n by (intro exI [of _ ?y]) auto
qed

text \<open>No callback holds the user data: it is still in the slot, or it has been given back once.\<close>

definition settled :: "nat \<Rightarrow> ptr \<Rightarrow> callback_cell \<Rightarrow> bool" where
  "settled d p c \<longleftrightarrow>
     (if cbs_slot (cell_state c) then ud_strong (cell_state c) = 1 \<and> ud_destroyed (cell_state c) = []
      else ud_strong (cell_state c) = 0 \<and> ud_destroyed (cell_state c) = [(d, p)])"

text \<open>A callback may destroy its own instrument. While a callback runs, its user data stays alive
  whatever the script does, be it the destruction of the very instrument or further callbacks of it;
  if the instrument was destroyed meanwhile, the destroy function is called once, with the pointer
  that the callback was given, when the trampoline returns; otherwise it is not called.\<close>

theorem callback_survives_own_destruction:
  assumes idle: "held_at a (Some d) p 0 s" and enter: "enter_trampoline k ctx (Some a) s = Some (Some iv, s1)"
    and body: "run_script im script s1 = Some s2" and leave: "leave_trampoline (iv_token iv) a s2 = Some s3"
  shows "iv_user_data iv = p \<and> held_at a (Some d) p 1 s2 \<and>
    (\<exists>c3. cells s3 a = Some c3 \<and> settled d p c3)"
proof -
  have h1: "held_at a (Some d) p 1 s1" using held_enter [OF enter, of a "Some d" p 0] idle by simp
  have h2: "held_at a (Some d) p 1 s2" using held.script_keeps [OF body, of 1 a "Some d" p] h1 by simp
  have ud: "iv_user_data iv = p"
    using enter idle
    by (auto simp: enter_trampoline_def Let_def register_observer_def held_at_def data_held_def on_cell_def clone_arc_def
        split: option.splits prod.splits if_splits)
  obtain c where c: "cells s2 a = Some c" "data_held (Some d) p 1 c" using h2 by (auto simp: held_at_def)
  have "\<exists>c3. cells s3 a = Some c3 \<and> settled d p c3"
    using leave c
    by (auto simp: leave_trampoline_def on_cell_def in_state_def drop_arc_def unregister_observer_def data_held_def
        drop_user_data_def user_data_drop_def take_slot_def Let_def split: option.splits if_splits nat.splits)
      (simp_all add: settled_def)
  with ud h2 show ?thesis by blast
qed

section \<open>Sample executions\<close>

text \<open>One observable instrument's state, and a script that observes twice from its callback: through
  its own token and through a forged one.\<close>

definition sample_callback_cell :: callback_cell where
  "sample_callback_cell = \<lparr>cell_arcs = 1, cell_state = new_callback_state (Some 12) NK_U64 3 (Some 77) (Some 6)\<rparr>"

definition sample_observable_process :: "(nat, unit) metrics_process_scheme" where
  "sample_observable_process = process.extend sample_process
     (metrics_process.fields ((\<lambda>_. None)(5 := Some sample_callback_cell)) 6 1 [])"

definition sample_script :: callback_script where
  "sample_script = Run_Callback NK_U64 (Some 20) (Some 5)
     (\<lambda>t ud. Observe NK_U64 t (Val_U64 4) None 0 (\<lambda>_. Observe NK_U64 9 (Val_U64 8) None 0 (\<lambda>_. Return))) Return"

lemma sample_observable_sel:
  "cells sample_observable_process = (\<lambda>_. None)(5 := Some sample_callback_cell)"
  "next_observer sample_observable_process = 1" "observers sample_observable_process = []"
  "ledger sample_observable_process = (\<lambda>_. 2)" "calls sample_observable_process = []"
  "impl_state sample_observable_process = 1000"
  by (simp_all add: sample_observable_process_def process.defs metrics_process.defs sample_process_sel)

lemma token_one: "next_observer_token 1 = (1, 2)"
  by (simp add: token_is_counter)

lemmas run_sample = sample_callback_cell_def new_callback_state_def sample_observable_sel token_one
  on_cell_def clone_arc_def drop_arc_def in_state_def enter_trampoline_def leave_trampoline_def register_observer_def
  unregister_observer_def acquire_user_data_def clone_slot_def drop_user_data_def user_data_drop_def Let_def

definition sample_entered :: "(nat, unit) metrics_process_scheme" where
  "sample_entered = sample_observable_process\<lparr>
     cells := (\<lambda>_. None)(5 := Some (sample_callback_cell\<lparr>cell_arcs := 2,
       cell_state := (cell_state sample_callback_cell)\<lparr>ud_strong := 2\<rparr>\<rparr>)),
     next_observer := 2, observers := [(1, \<lparr>oe_vtable = Some 12, oe_ctx = Some 20, oe_number = NK_U64\<rparr>)]\<rparr>"

lemma sample_enters:
  "enter_trampoline NK_U64 (Some 20) (Some 5) sample_observable_process =
     Some (Some \<lparr>iv_token = 1, iv_user_data = Some 77, iv_called = True\<rparr>, sample_entered)"
  by (simp add: run_sample sample_entered_def numeral_2_eq_2)

lemma sample_leaves: "\<exists>s3. leave_trampoline 1 5 sample_entered = Some s3"
  by (simp add: run_sample sample_entered_def numeral_2_eq_2)

lemma sample_runs: "\<exists>s'. run_script sample_impl sample_script sample_observable_process = Some s'"
  by (simp add: sample_script_def with_trampoline_def sample_enters sample_entered_def lend_def take_back_def
      otel_observer_observe_def observe_def find_observer_def vt_status_def vt_call_def apply_effect_def acquire_def
      clear_last_error_def run_sample sample_impl_def fail_def set_error_text_def set_last_error_def numeral_2_eq_2)

theorem observer_stack_restored_witness:
  "\<exists>s'. run_script sample_impl sample_script sample_observable_process = Some s' \<and> observers s' = []"
  using sample_runs observer_stack_restored [of sample_impl sample_script sample_observable_process]
  by (auto simp: sample_observable_sel)

theorem token_works_only_during_callback_witness:
  "\<exists>s3. leave_trampoline 1 5 sample_entered = Some s3 \<and>
     otel_observer_observe sample_impl NK_U64 1 (Val_U64 4) None 0 s3 =
       Some (fail St_InvalidArgument ''observer is not active for this callback invocation'' (clear_last_error s3))"
proof -
  have inv: "token_inv sample_observable_process" by (simp add: token_inv_def sample_observable_sel)
  obtain s3 where s3: "leave_trampoline 1 5 sample_entered = Some s3" using sample_leaves by blast
  from token_works_only_during_callback [OF inv sample_enters, of sample_impl Return sample_entered s3 NK_U64 "Val_U64 4" None 0] s3
  show ?thesis by simp
qed

theorem observation_reaches_own_observer_witness:
  "\<exists>st s'. otel_observer_observe sample_impl NK_U64 1 (Val_U64 4) None 0 sample_entered = Some (st, s') \<and>
     calls s' = [(R_Observer 12 (Some 20), Op_Observe (Val_U64 4) None 0)]"
proof -
  have inv: "lent_inv sample_entered" by (simp add: lent_inv_def sample_entered_def sample_observable_sel)
  have "active_observer NK_U64 1 sample_entered = Some (12, Some 20)"
    by (simp add: active_observer_def find_observer_def sample_entered_def)
  with observation_reaches_own_observer [OF inv, of sample_impl NK_U64 1 "Val_U64 4" None 0]
  show ?thesis by (auto simp: sample_entered_def sample_observable_sel)
qed

theorem callback_survives_own_destruction_witness:
  "\<exists>s3 c3. leave_trampoline 1 5 sample_entered = Some s3 \<and> cells s3 5 = Some c3 \<and> settled 6 (Some 77) c3"
proof -
  have idle: "held_at 5 (Some 6) (Some 77) 0 sample_observable_process"
    by (simp add: held_at_def data_held_def run_sample)
  obtain s3 where s3: "leave_trampoline 1 5 sample_entered = Some s3" using sample_leaves by blast
  from callback_survives_own_destruction [OF idle sample_enters, of sample_impl Return sample_entered s3] s3
  show ?thesis by simp
qed

end
