(* ===== verification/Observable_Instruments.thy ===== *)
theory Observable_Instruments
  imports Metric_Instruments Observer_Tokens
begin

text \<open>
  Creating and destroying observable instruments: the handle owns the implementation's instrument and
  one reference to the callback state; the implementation owns another one. A failed creation gives
  everything back except the implementation's own reference, and leaves the user data with the caller.
\<close>

section \<open>Frames\<close>

lemma same_api_cells [simp]:
  "same_api s (s\<lparr>cells := c\<rparr>)" "same_api s (s\<lparr>cells := c, next_cell := n\<rparr>)"
  "same_api (s\<lparr>cells := c\<rparr>) s' = same_api s s'"
  by (auto simp: same_api_def)

lemma calls_cells [simp]: "has_last_error (s\<lparr>cells := c\<rparr>) = has_last_error s"
  by (simp add: has_last_error_def)

lemma on_cell_same: "on_cell f a s = Some s' \<Longrightarrow> same_api s s' \<and> calls s' = calls s \<and> has_last_error s' = has_last_error s"
  by (erule on_cell_SomeD) (simp add: has_last_error_def)

lemma on_cell_run:
  "cells s a = Some c \<Longrightarrow> cell_arcs c \<noteq> 0 \<Longrightarrow> f c = Some c' \<Longrightarrow> on_cell f a s = Some (s\<lparr>cells := (cells s)(a := Some c')\<rparr>)"
  by (simp add: on_cell_def)

lemma conserved_cells: "proc_inv s \<Longrightarrow> conserved s (s\<lparr>cells := c\<rparr>)"
  by (rule conserved_same) simp_all

interpretation oh_observable: owning_handle "observable_kind i" "P_Observable i" "as_observable i"
    "\<lambda>b. backing_res R_Instrument (bk_vtable b) (bk_ctx b)" for i
  by unfold_locales simp

text \<open>The API's calls leave the cells alone.\<close>

lemma obs_frame_acquire [simp]: "obs_frame s (acquire r s)"
  by (simp add: acquire_def)

lemma obs_frame_ensure [simp]: "obs_frame s (ensure_error m s)"
  by (simp add: ensure_error_def)

lemma obs_frame_backed: "create_backed im vt ctx cfg msg s = Some (r, s') \<Longrightarrow> obs_frame s s'"
  by (auto simp: create_backed_def call_creation_def vt_ptr_status_def vt_ptr_def
      split: option.splits prod.splits if_splits dest!: obs_frame_call
      intro: obs_frame_trans [OF _ obs_frame_ensure] obs_frame_trans [OF _ obs_frame_acquire])

lemma obs_frame_into_raw: "obs_frame s (snd (into_raw K b s))"
  by (rule obs_frame_process, cases s) (simp add: into_raw_def)

section \<open>Creation\<close>

text \<open>A state that was abandoned: no callback can enter, the user data was not destroyed and has no
  destroy function any more.\<close>

definition abandoned :: "ptr \<Rightarrow> callback_cell \<Rightarrow> bool" where
  "abandoned p c \<longleftrightarrow> \<not> cbs_enabled (cell_state c) \<and> \<not> cbs_slot (cell_state c) \<and> ud_destroyed (cell_state c) = [] \<and>
     ud_destroy (cell_state c) = None \<and> ud_ptr (cell_state c) = p"

lemma abandon_new:
  assumes "cells s a = Some \<lparr>cell_arcs = Suc n, cell_state = new_callback_state v k cb p d\<rparr>"
  obtains c s' where "abandon_cell a s = Some s'" "s' = s\<lparr>cells := (cells s)(a := Some c)\<rparr>" "abandoned p c" "cell_arcs c = n"
proof -
  let ?st = "\<lparr>cbs_enabled = False, cbs_vtable = v, cbs_callback = (k, cb), cbs_slot = False, ud_ptr = p,
     ud_destroy = None, ud_strong = 0, ud_destroyed = []\<rparr>"
  have "disable_and_relinquish_user_data (new_callback_state v k cb p d) = Some ?st"
    by (simp add: disable_and_relinquish_user_data_def new_callback_state_def disable_def take_slot_def take_destroy_def
        drop_user_data_def user_data_drop_def Let_def)
  then have "abandon_cell a s = Some (s\<lparr>cells := (cells s)(a := Some \<lparr>cell_arcs = n, cell_state = ?st\<rparr>)\<rparr>)"
    by (simp add: abandon_cell_def on_cell_def assms in_state_def drop_arc_def Let_def)
  then show thesis by (rule that [where c = "\<lparr>cell_arcs = n, cell_state = ?st\<rparr>"]) (simp_all add: abandoned_def)
qed

text \<open>A state whose callback is live: one reference of the handle, and one of the implementation if there
  is one.\<close>

definition attached_cell :: "nat option \<Rightarrow> ptr \<Rightarrow> backing \<Rightarrow> callback_cell \<Rightarrow> bool" where
  "attached_cell d p m c \<longleftrightarrow> data_held d p 0 c \<and> cbs_enabled (cell_state c) \<and> cbs_slot (cell_state c) \<and>
     cell_arcs c = 1 + of_bool (bk_vtable m \<noteq> None)"

text \<open>
  C27: Creating an observable instrument conserves references and never loses the user data. With a
  live meter and readable options the call is defined and keeps the invariant and every reference
  of others. It returns OK exactly when the output holds a live handle of the requested type, whose
  callback state is live and shared with the implementation. Otherwise the output is NULL, a
  diagnostic explains why, and if the implementation had been asked, the state that it may still
  hold is disabled for good and the user data is left to the caller, without a call of its destroy
  function. An accepted configuration makes exactly one creation call, with the kind, number kind,
  trampoline and state of this instrument.
\<close>

theorem create_observable_conserves:
  assumes "proc_inv s" and "points_to s meter (P_Meter m)" and "validate_instrument_config name options False = Some v"
  shows "\<exists>st out s'. otel_meter_create_observable im i meter name options (Some cb) p d False s = Some (st, Some out, s') \<and>
     proc_inv s' \<and> slots_same s s' \<and> (\<forall>q. external q s' = external q s) \<and>
     (st = St_Ok \<longleftrightarrow> out \<noteq> None) \<and>
     (if out = None then has_last_error s' \<and>
        (\<forall>cfg. v = Inr cfg \<longrightarrow> (\<exists>c. cells s' (next_cell s) = Some c \<and> abandoned p c \<and> cell_arcs c = 1))
      else \<exists>b c. points_to s' out (P_Observable i b) \<and> bk_vtable b = bk_vtable m \<and> ob_state b = next_cell s \<and>
        cells s' (next_cell s) = Some c \<and> attached_cell d p m c) \<and>
     calls s' = calls s @ (case (v, bk_vtable m) of
       (Inr cfg, Some vt) \<Rightarrow> [(R_Meter vt (bk_ctx m), creation_op im vt (observable_config i (next_cell s) cfg))] | _ \<Rightarrow> [])"
proof -
  let ?s0 = "clear_last_error s"
  have inv0: "proc_inv ?s0" and m0: "points_to ?s0 meter (P_Meter m)" using assms(1,2) by simp_all
  have chk: "checked_as KIND_METER as_meter meter ?s0 = Some (Some m, ?s0)"
    by (rule hm.checked_as_points_to [OF proc_inv_wf [OF inv0] m0])
  have c0: "conserved s ?s0" using assms(1) by simp
  have ss0: "slots_same s ?s0" by (simp add: slots_same_def)
  have nc: "next_cell ?s0 = next_cell s" "cells ?s0 = cells s" using obs_frame_error(1) [of s] by (simp_all add: obs_frame_def)
  let ?a = "next_cell s"
  obtain stv where stv: "stv = new_callback_state (bk_vtable m) (snd (observable_spec i)) cb p d" by blast
  let ?n = "\<lambda>k :: nat. \<lparr>cell_arcs = k, cell_state = stv\<rparr>"
  obtain s1 where nw: "new_cell (new_callback_state (bk_vtable m) (snd (observable_spec i)) cb p d) ?s0 = (?a, s1)"
      and s1: "s1 = ?s0\<lparr>cells := (cells s)(?a := Some (?n 1)), next_cell := Suc ?a\<rparr>"
    by (simp add: new_cell_def nc stv)
  have sa1: "same_api s s1" "calls s1 = calls s" and cl1: "cells s1 ?a = Some (?n 1)"
    using same_api_trans [OF same_api_error(1) same_api_cells(2)] by (simp_all add: s1)
  have i1: "proc_inv s1" using proc_inv_same [OF sa1(1)] assms(1) by simp
  have att: "attached_cell d p m (?n (1 + of_bool (bk_vtable m \<noteq> None)))"
    by (simp add: attached_cell_def data_held_def stv new_callback_state_def)
  note run = otel_meter_create_observable_def Let_def chk assms(3)
  show ?thesis
  proof (cases v)
    case (Inl e)
    let ?s' = "snd (fail_abi e ?s0)"
    have r: "otel_meter_create_observable im i meter name options (Some cb) p d False s = Some (err_status e, Some None, ?s')"
      by (simp add: run Inl fail_abi_def)
    have same: "same_api s ?s'" "calls ?s' = calls s" "has_last_error ?s'"
      by (simp_all add: fail_abi_def same_api_trans [OF same_api_error(1)])
    have "conserved s ?s'" by (rule conserved_same [OF assms(1) same(1)])
    with same slots_same_api [OF same(1)] config_error_status [OF assms(3) [unfolded Inl]] Inl show ?thesis
      by - (intro exI conjI, rule r, simp_all add: conserved_def)
  next
    case (Inr cfg)
    show ?thesis
    proof (cases "bk_vtable m")
      case None
      let ?b = "P_Observable i \<lparr>bk_vtable = None, bk_ctx = None, ob_state = ?a\<rparr>"
      obtain h s2 where q: "into_raw (observable_kind i) ?b s1 = (h, s2)" by fastforce
      have a: "conserved s1 s2" "points_to s2 h ?b" "slots_same s1 s2" "calls s2 = calls s1" "h \<noteq> None"
        using new_handle [OF q i1] by simp_all
      have cl: "cells s2 ?a = Some (?n 1)" using obs_frame_into_raw [of s1 "observable_kind i" ?b] q cl1 by (simp add: obs_frame_def)
      have r: "otel_meter_create_observable im i meter name options (Some cb) p d False s = Some (St_Ok, Some h, s2)"
        using nw q by (simp add: run Inr create_observable_def None)
      show ?thesis
        by (intro exI conjI, rule r)
          (use a cl att None Inr sa1(2) conserved_trans [OF conserved_same [OF assms(1) sa1(1)] a(1)] slots_same_api [OF sa1(1)]
            in \<open>auto simp: conserved_def slots_same_def\<close>)
    next
      case (Some vt)
      let ?cfg = "observable_config i ?a cfg" and ?msg = "''backed observable metric instrument creation failed''"
      obtain s2 where cl2: "on_cell clone_arc ?a s1 = Some s2" and s2: "s2 = s1\<lparr>cells := (cells s1)(?a := Some (?n 2))\<rparr>"
        by (simp add: on_cell_def clone_arc_def cl1 numeral_2_eq_2)
      have sa: "same_api s s2" "calls s2 = calls s" and cells2: "cells s2 ?a = Some (?n 2)"
        using same_api_trans [OF sa1(1) same_api_cells(1)] sa1(2) by (simp_all add: s2)
      have i2: "proc_inv s2" and m2: "points_to s2 meter (P_Meter m)"
        using proc_inv_same [OF sa(1)] points_to_same [OF sa(1)] assms(1,2) by simp_all
      have cr: "create_observable im i m cfg ?a s1 = create_backed im vt (bk_ctx m) ?cfg ?msg s2"
        by (simp add: create_observable_def Some cl2)
      have led: "0 < ledger s2 (R_Meter vt (bk_ctx m))"
        by (rule oh_meter.live_reference [OF i2 m2]) (simp add: Some)
      show ?thesis
      proof (rule create_backed_facts [OF i2 led, of im ?cfg ?msg], goal_cases)
        case (1 st s3)
        have "cells s3 ?a = Some \<lparr>cell_arcs = Suc 1, cell_state = new_callback_state (bk_vtable m) (snd (observable_spec i)) cb p d\<rparr>"
          using obs_frame_backed [OF 1(1)] cells2 by (simp add: obs_frame_def stv)
        then obtain c s4 where ab: "abandon_cell ?a s3 = Some s4" "s4 = s3\<lparr>cells := (cells s3)(?a := Some c)\<rparr>"
            "abandoned p c" "cell_arcs c = 1"
          by (rule abandon_new)
        have r: "otel_meter_create_observable im i meter name options (Some cb) p d False s = Some (st, Some None, s4)"
          using 1(1) ab(1) nw by (simp add: run Inr cr Some)
        have sa4: "same_api s s4" unfolding ab(2)
          by (rule same_api_trans [OF same_api_trans [OF sa(1) 1(2)] same_api_cells(1)])
        have le: "has_last_error s4" "calls s4 = calls s3" using 1(3) by (simp_all add: ab(2))
        have cells4: "cells s4 ?a = Some c" by (simp add: ab(2))
        show ?case
          using conserved_same [OF assms(1) sa4] slots_same_api [OF sa4] 1(4,5) le sa(2) ab(3,4) cells4 Inr Some
          by - (intro exI conjI, rule r, simp_all add: conserved_def)
      next
        case (2 c s3)
        let ?b = "P_Observable i \<lparr>bk_vtable = Some vt, bk_ctx = Some c, ob_state = ?a\<rparr>"
        obtain h s4 where q: "into_raw (observable_kind i) ?b s3 = (h, s4)" by fastforce
        have ex: "external q s3 = external q s2 + of_bool (owned_by ?b = Some q)" for q using 2(4) [of q] by auto
        have a: "conserved s2 s4" "points_to s4 h ?b" "slots_same s2 s4" "calls s4 = calls s3" "h \<noteq> None"
          using adopt [OF q 2(3,2) ex _ _ i2] by simp_all
        have cl: "cells s4 ?a = Some (?n 2)"
          using obs_frame_trans [OF obs_frame_backed [OF 2(1)] obs_frame_into_raw [of s3 "observable_kind i" ?b]] q
          by (simp add: obs_frame_def cells2)
        have r: "otel_meter_create_observable im i meter name options (Some cb) p d False s = Some (St_Ok, Some h, s4)"
          using 2(1) nw by (simp add: run Inr cr q Some)
        show ?case
          by (intro exI conjI, rule r)
            (use a cl att 2(5) Inr Some sa(2) conserved_trans [OF conserved_same [OF assms(1) sa(1)] a(1)] slots_same_api [OF sa(1)]
              in \<open>auto simp: conserved_def slots_same_def numeral_2_eq_2\<close>)
      qed
    qed
  qed
qed

section \<open>Destruction\<close>

lemma obs_frame_destroy_owned:
  fixes s :: "('e, 'm) metrics_process_scheme"
  assumes "destroy_owned im K proj res_of q s = Some s'"
  shows "obs_frame s s'"
proof -
  have fr: "obs_frame u u'" if "free_res im r u = Some u'" for r and u u' :: "('e, 'm) metrics_process_scheme"
    using that obs_frame_free by (auto simp: free_res_def split: option.splits)
  show ?thesis
    using assms
    by (auto simp: destroy_owned_def split: option.splits dest!: obs_frame_checked fr obs_frame_destroy)
      (blast intro: obs_frame_trans)+
qed

text \<open>The whole destruction in terms of the shared one.\<close>

lemma observable_destroy_eq:
  assumes inv: "proc_inv s" and q: "points_to s q (P_Observable i b)"
    and c: "on_cell (in_state disable_and_release_user_data) (ob_state b) s = Some s1"
    and d: "destroy_owned im (observable_kind i) (as_observable i) (\<lambda>b. backing_res R_Instrument (bk_vtable b) (bk_ctx b)) q s1 = Some s2"
  shows "otel_observable_destroy im i q s = on_cell drop_arc (ob_state b) s2"
proof -
  have s1: "same_api s s1" using on_cell_same [OF c] by blast
  have chk: "checked_as (observable_kind i) (as_observable i) q s = Some (Some b, s)"
    by (rule ho.checked_as_points_to [OF proc_inv_wf [OF inv] q])
  have "checked_as (observable_kind i) (as_observable i) q s1 = Some (Some b, s1)"
    by (rule ho.checked_as_points_to) (use inv q s1 proc_inv_same [OF s1] points_to_same [OF s1] proc_inv_wf in auto)
  with d chk c show ?thesis
    by (auto simp: otel_observable_destroy_def destroy_owned_def split: option.splits)
qed

lemma released_cell:
  assumes "data_held (Some d) p n c" and "cbs_slot (cell_state c)" and "cell_arcs c \<noteq> 0"
  obtains c1 c2 where "in_state disable_and_release_user_data c = Some c1" "cell_arcs c1 = cell_arcs c" "drop_arc c1 = Some c2"
    "cell_arcs c2 = cell_arcs c - 1" "\<not> cbs_enabled (cell_state c2)" "\<not> cbs_slot (cell_state c2)"
    "ud_strong (cell_state c2) = n" "ud_destroyed (cell_state c2) = (if n = 0 then [(d, p)] else [])"
proof -
  have "\<exists>c1. in_state disable_and_release_user_data c = Some c1 \<and> cell_arcs c1 = cell_arcs c \<and>
      \<not> cbs_enabled (cell_state c1) \<and> \<not> cbs_slot (cell_state c1) \<and> ud_strong (cell_state c1) = n \<and>
      ud_destroyed (cell_state c1) = (if n = 0 then [(d, p)] else [])"
    using assms
    by (cases n) (auto simp: in_state_def data_held_def disable_and_release_user_data_def disable_def take_slot_def
        drop_user_data_def user_data_drop_def Let_def)
  then obtain c1 where c1: "in_state disable_and_release_user_data c = Some c1" "cell_arcs c1 = cell_arcs c"
      "\<not> cbs_enabled (cell_state c1)" "\<not> cbs_slot (cell_state c1)" "ud_strong (cell_state c1) = n"
      "ud_destroyed (cell_state c1) = (if n = 0 then [(d, p)] else [])" by blast
  show thesis
    by (rule that [OF c1(1,2), of "c1\<lparr>cell_arcs := cell_arcs c - 1\<rparr>"]) (use c1 in \<open>simp_all add: drop_arc_def\<close>)
qed

text \<open>No callback enters a disabled state.\<close>

lemma disabled_not_entered:
  assumes "cells s a = Some c" and "1 \<le> cell_arcs c" and "\<not> cbs_enabled (cell_state c)"
  shows "\<exists>s'. enter_trampoline k ctx (Some a) s = Some (None, s') \<and> cells s' = cells s \<and> same_api s s' \<and> calls s' = calls s"
proof -
  have "c\<lparr>cell_arcs := cell_arcs c\<rparr> = c" by simp
  then show ?thesis
    using assms by (auto simp: enter_trampoline_def on_cell_def clone_arc_def in_state_def drop_arc_def acquire_user_data_def
        Let_def fun_upd_idem_iff)
qed

text \<open>
  Destroying an observable instrument gives everything back once, even while callbacks run. For a
  live handle whose callback state holds the user data, the destruction is defined, keeps the
  invariant and every reference of others, frees the implementation's instrument once and leaves
  the handle dead. If no callback is running the destroy function is called once, with the caller's
  pointer; otherwise it is left to the last callback. The implementation's reference to the state stays
  valid, and no callback can enter through it any more.
\<close>

theorem observable_destroyed_once:
  assumes "proc_inv s" and "points_to s q (P_Observable i b)"
    and "cells s (ob_state b) = Some c" and "1 < cell_arcs c" and "data_held (Some d) p n c" and "cbs_slot (cell_state c)"
  shows "\<exists>s' c' s2. otel_observable_destroy im i q s = Some s' \<and> proc_inv s' \<and> slots_same s s' \<and>
     (\<forall>r. external r s' = external r s) \<and> \<not> valid_ptr s' q \<and>
     calls s' = calls s @ (case bk_vtable b of None \<Rightarrow> [] | Some vt \<Rightarrow> [(R_Instrument vt (bk_ctx b), Op_Free)]) \<and>
     cells s' (ob_state b) = Some c' \<and> cell_arcs c' = cell_arcs c - 1 \<and>
     ud_destroyed (cell_state c') = (if n = 0 then [(d, p)] else []) \<and>
     enter_trampoline k ctx (Some (ob_state b)) s' = Some (None, s2) \<and> cells s2 = cells s'"
proof -
  let ?a = "ob_state b"
  have arcs: "cell_arcs c \<noteq> 0" using assms(4) by simp
  obtain c1 c2 where c12: "in_state disable_and_release_user_data c = Some c1" "cell_arcs c1 = cell_arcs c" "drop_arc c1 = Some c2"
    "cell_arcs c2 = cell_arcs c - 1" "\<not> cbs_enabled (cell_state c2)"
    "ud_destroyed (cell_state c2) = (if n = 0 then [(d, p)] else [])"
    by (rule released_cell [OF assms(5,6) arcs])
  obtain s1 where s1: "on_cell (in_state disable_and_release_user_data) ?a s = Some s1" and cells1: "cells s1 ?a = Some c1"
    using on_cell_run [where f = "in_state disable_and_release_user_data", OF assms(3) arcs c12(1)] by simp
  have sa: "same_api s s1" "calls s1 = calls s" using on_cell_same [OF s1] by auto
  have i1: "proc_inv s1" and p1: "points_to s1 q (P_Observable i b)"
    using assms(1,2) proc_inv_same [OF sa(1)] points_to_same [OF sa(1)] by simp_all
  have freed: "(case backing_res R_Instrument (bk_vtable b) (bk_ctx b) of None \<Rightarrow> [] | Some r \<Rightarrow> [(r, Op_Free)]) =
      (case bk_vtable b of None \<Rightarrow> [] | Some vt \<Rightarrow> [(R_Instrument vt (bk_ctx b), Op_Free)])"
    by (cases "bk_vtable b") simp_all
  obtain s2 where d: "destroy_owned im (observable_kind i) (as_observable i) (\<lambda>b. backing_res R_Instrument (bk_vtable b) (bk_ctx b)) q s1 = Some s2"
      "proc_inv s2" "objs s2 = (objs s1)(the q := None)" "slots_same s1 s2" "\<And>r. external r s2 = external r s1"
      "calls s2 = calls s1 @ (case bk_vtable b of None \<Rightarrow> [] | Some vt \<Rightarrow> [(R_Instrument vt (bk_ctx b), Op_Free)])"
    by (rule oh_observable.destroy_live [OF i1 p1, of im]) (rule that, simp_all add: freed)
  have cells2: "cells s2 ?a = Some c1" using obs_frame_destroy_owned [OF d(1)] cells1 by (simp add: obs_frame_def)
  obtain s3 where s3: "on_cell drop_arc ?a s2 = Some s3" and cells3: "cells s3 ?a = Some c2"
    using on_cell_run [where f = drop_arc, OF cells2 _ c12(3)] c12(2) arcs by auto
  have sa3: "same_api s2 s3" "calls s3 = calls s2" using on_cell_same [OF s3] by auto
  have run: "otel_observable_destroy im i q s = Some s3"
    using observable_destroy_eq [OF assms(1,2) s1 d(1)] s3 by simp
  obtain s4 where s4: "enter_trampoline k ctx (Some ?a) s3 = Some (None, s4)" "cells s4 = cells s3"
  proof -
    have "1 \<le> cell_arcs c2" using c12(4) assms(4) by simp
    then show thesis using disabled_not_entered [OF cells3 _ c12(5), of k ctx] that by blast
  qed
  have "\<not> valid_ptr s2 q" using p1 d(3) by (cases q) (simp_all add: valid_ptr_def points_to_def)
  then have dead: "\<not> valid_ptr s3 q" using sa3(1) by (simp add: valid_ptr_def same_api_def split: option.splits)
  have ext: "external r s3 = external r s" for r using external_same [OF sa3(1)] d(5) external_same [OF sa(1)] by simp
  have ss: "slots_same s s3" using slots_same_api [OF sa(1)] d(4) slots_same_api [OF sa3(1)] by (simp add: slots_same_def)
  have i3: "proc_inv s3" using proc_inv_same [OF sa3(1)] d(2) by simp
  show ?thesis
    by (rule exI [of _ s3], rule exI [of _ c2], rule exI [of _ s4])
      (use run i3 ss ext dead d(6) sa(2) sa3(2) cells3 c12(4,6) s4 in simp)
qed

section \<open>Sample executions\<close>

definition sample_observable_handles :: "api_payload list" where
  "sample_observable_handles =
     [P_Meter sample_meter, P_Observable ObservableCounterU64 \<lparr>bk_vtable = Some 12, bk_ctx = Some 9, ob_state = 5\<rparr>]"

definition sample_shared_cell :: callback_cell where
  "sample_shared_cell = sample_callback_cell\<lparr>cell_arcs := 2\<rparr>"

definition sample_observables :: "(nat, unit) metrics_process_scheme" where
  "sample_observables = with_handles sample_observable_handles
     (sample_observable_process\<lparr>cells := (\<lambda>_. None)(5 := Some sample_shared_cell)\<rparr>)"

lemma obs_frame_with_handles:
  fixes s :: "('e, 'm) metrics_process_scheme"
  shows "obs_frame s (with_handles bs s)"
  by (induction bs arbitrary: s) (auto intro: obs_frame_trans [OF obs_frame_into_raw])

lemma sample_base_facts:
  "proc_inv (sample_observable_process\<lparr>cells := x\<rparr>)" "next_addr sample_observable_process = 1"
  "external q (sample_observable_process\<lparr>cells := x\<rparr>) = 2"
proof -
  have "objs sample_observable_process = objs sample_process" "next_addr sample_observable_process = next_addr sample_process"
    "tls sample_observable_process = tls sample_process"
    "next_thread_token sample_observable_process = next_thread_token sample_process"
    "trace_slot sample_observable_process = trace_slot sample_process"
    "metrics_slot sample_observable_process = metrics_slot sample_process"
    "logs_slot sample_observable_process = logs_slot sample_process"
    "next_metrics_id sample_observable_process = next_metrics_id sample_process"
    "next_logs_id sample_observable_process = next_logs_id sample_process"
    "ledger sample_observable_process = ledger sample_process"
    by (simp_all add: sample_observable_process_def process.defs sample_process_def)
  note same = this
  have h: "handle_refs r (sample_observable_process\<lparr>cells := x\<rparr>) = handle_refs r sample_process" for r
    by (rule handle_refs_cong) (simp add: same)
  have e: "external r (sample_observable_process\<lparr>cells := x\<rparr>) = external r sample_process" for r
    by (simp add: external_def h slot_refs_def same)
  have "ctx_inv (sample_observable_process\<lparr>cells := x\<rparr>)"
    using proc_inv_ctx [OF sample_process_inv(1)] ctx_inv_frame [of "sample_observable_process\<lparr>cells := x\<rparr>" sample_process] same
    by simp
  then show "proc_inv (sample_observable_process\<lparr>cells := x\<rparr>)"
    using proc_inv_external [OF sample_process_inv(1)] e by (intro proc_invI) simp_all
  show "external q (sample_observable_process\<lparr>cells := x\<rparr>) = 2" using e sample_process_inv(2) by simp
  show "next_addr sample_observable_process = 1" using same by (simp add: sample_process_sel)
qed

lemma sample_observables_facts:
  "proc_inv sample_observables" "calls sample_observables = []"
  "points_to sample_observables (Some 1) (P_Meter sample_meter)"
  "points_to sample_observables (Some 2) (P_Observable ObservableCounterU64 \<lparr>bk_vtable = Some 12, bk_ctx = Some 9, ob_state = 5\<rparr>)"
  "cells sample_observables 5 = Some sample_shared_cell"
proof -
  have ok: "\<forall>b \<in> set sample_observable_handles. payload_ok b" by (simp add: sample_observable_handles_def)
  let ?s = "sample_observable_process\<lparr>cells := (\<lambda>_. None)(5 := Some sample_shared_cell)\<rparr>"
  have own: "int (count_list (map owned_by sample_observable_handles) (Some q)) \<le> external q ?s" for q
    by (auto simp: sample_observable_handles_def sample_meter_def sample_base_facts(3))
  show "proc_inv sample_observables" unfolding sample_observables_def
    by (rule with_handles_inv [OF sample_base_facts(1) ok own])
  show "calls sample_observables = []"
    by (simp add: sample_observables_def with_handles_frame sample_observable_sel)
  show "cells sample_observables 5 = Some sample_shared_cell"
    using obs_frame_with_handles [of ?s sample_observable_handles] by (simp add: sample_observables_def obs_frame_def)
  have n: "points_to sample_observables (Some a) (sample_observable_handles ! (a - 1))" if "1 \<le> a" "a < 3" for a
    using with_handles_at [OF proc_inv_wf [OF sample_base_facts(1)], of _ a sample_observable_handles] that
    by (simp add: sample_observables_def sample_observable_handles_def sample_base_facts(2))
  show "points_to sample_observables (Some 1) (P_Meter sample_meter)"
    "points_to sample_observables (Some 2) (P_Observable ObservableCounterU64 \<lparr>bk_vtable = Some 12, bk_ctx = Some 9, ob_state = 5\<rparr>)"
    using n [of 1] n [of 2] by (simp_all add: sample_observable_handles_def)
qed

theorem observable_destroyed_once_witness:
  "\<exists>s' c'. otel_observable_destroy sample_impl ObservableCounterU64 (Some 2) sample_observables = Some s' \<and>
     cells s' 5 = Some c' \<and> ud_destroyed (cell_state c') = [(6, Some 77)] \<and>
     calls s' = [(R_Instrument 12 (Some 9), Op_Free)]"
proof -
  have h: "data_held (Some 6) (Some 77) 0 sample_shared_cell" "cbs_slot (cell_state sample_shared_cell)"
    "1 < cell_arcs sample_shared_cell"
    by (simp_all add: sample_shared_cell_def data_held_def sample_callback_cell_def new_callback_state_def)
  let ?b = "\<lparr>bk_vtable = Some 12, bk_ctx = Some 9, ob_state = 5\<rparr>"
  have c: "cells sample_observables (ob_state ?b) = Some sample_shared_cell" using sample_observables_facts(5) by simp
  from observable_destroyed_once [OF sample_observables_facts(1,4) c h(3,1,2), of sample_impl NK_U64 None]
  show ?thesis by (auto simp: sample_observables_facts(2))
qed

theorem create_observable_conserves_witness:
  "\<exists>st out s' cfg. otel_meter_create_observable sample_impl ObservableGaugeI64 (Some 1) (sv_of [0x68, 0x2E, 0x31]) None
       (Some 3) (Some 77) (Some 6) False sample_observables = Some (st, Some out, s') \<and> proc_inv s' \<and>
     calls s' = [(R_Meter 12 (Some 8), creation_op sample_impl 12 (observable_config ObservableGaugeI64 (next_cell sample_observables) cfg))]"
proof -
  obtain cfg where v: "validate_instrument_config (sv_of [0x68, 0x2E, 0x31]) None False = Some (Inr cfg)"
  proof -
    have "instrument_name_error (sv_of [0x68, 0x2E, 0x31]) = None"
      using instrument_name_error_iff sample_name_ok by blast
    moreover have "sv_as_str sv_empty = Inr []" by (simp add: sv_as_str_def sv_as_bytes_def sv_empty_def)
    ultimately have "\<exists>cfg. validate_instrument_config (sv_of [0x68, 0x2E, 0x31]) None False = Some (Inr cfg)"
      by (simp add: validate_instrument_config_def read_instrument_options_def check_boundaries_def is_ascii_def Let_def)
    then show thesis using that by blast
  qed
  from create_observable_conserves [OF sample_observables_facts(1,3) v, of sample_impl ObservableGaugeI64 3 "Some 77" "Some 6"]
  show ?thesis by (auto simp: sample_observables_facts(2) sample_meter_def)
qed

end
