(* ===== verification/Log_Values.thy ===== *)
theory Log_Values
  imports Abi_Data
begin

text \<open>
  The two passes of the SDK over the values of a log record (\<open>sdk/src/logs_vtable.rs\<close>). Structured
  values are a flat pool of nodes; a container names its children by a range of indices. The
  \<open>Validator\<close> checks tags, limits, keys, ranges and that every node is claimed exactly once, and
  computes depths; the \<open>Converter\<close> then builds owned values from the highest index down, moving each
  child into its parent. An error is the status and message that the source passes to \<open>fail\<close>; \<open>al\<close>
  decides whether an allocation succeeds. A union is a record of what each member reads.
\<close>

section \<open>Owned values\<close>

text \<open>\<open>AnyValue\<close> of the opentelemetry crate. A map is the list of its entries, whose order the crate's
  \<open>HashMap\<close> does not keep; \<open>any_map_insert\<close> replaces the value of an existing key.\<close>

datatype any_value =
    AV_String bytes
  | AV_Boolean bool
  | AV_Int i64
  | AV_Double u64
  | AV_Bytes bytes
  | AV_ListAny "any_value list"
  | AV_Map "(bytes \<times> any_value) list"

fun any_map_insert :: "bytes \<Rightarrow> any_value \<Rightarrow> (bytes \<times> any_value) list \<Rightarrow> (bytes \<times> any_value) list" where
  "any_map_insert k v [] = [(k, v)]"
| "any_map_insert k v ((k', v') # m) = (if k = k' then (k, v) # m else (k', v') # any_map_insert k v m)"

section \<open>Validation\<close>

record node_info =
  ni_depth :: nat
  ni_referenced :: bool

datatype node_role = ArrayElement | MapEntry

definition invalid :: "string \<Rightarrow> abi_error" where
  "invalid msg = abi_error_new St_InvalidArgument msg"

definition internal :: "string \<Rightarrow> abi_error" where
  "internal msg = abi_error_new St_InternalError msg"

definition try_vec :: "(nat \<Rightarrow> bool) \<Rightarrow> 'a \<Rightarrow> nat \<Rightarrow> abi_error + 'a list" where
  "try_vec al x n =
     (if al n then Inr (replicate n x) else Inl (internal ''failed to allocate log record conversion state''))"

definition validator_new :: "(nat \<Rightarrow> bool) \<Rightarrow> otel_log_value_node list \<Rightarrow> abi_error + node_info list" where
  "validator_new al nodes = try_vec al \<lparr>ni_depth = 1, ni_referenced = False\<rparr> (length nodes)"

definition check_value_scalar :: "otel_log_value \<Rightarrow> abi_error + otel_log_value_type" where
  "check_value_scalar value =
     (if lval_reserved value \<noteq> 0 then Inl (invalid ''log value reserved field must be zero'')
      else case log_value_type_from_u32 (lval_value_type value) of
        None \<Rightarrow> Inl (invalid ''log value has an unknown value_type tag'')
      | Some LT_Empty \<Rightarrow> Inl (invalid ''an empty log value is only valid as an absent record body'')
      | Some LT_String \<Rightarrow>
          (case sv_as_str (lval_string value) of
             Inl e \<Rightarrow> Inl e
           | Inr s \<Rightarrow>
               if OTEL_LOG_MAX_STRING_LEN < length s
               then Inl (invalid ''log string value exceeds the maximum supported length'')
               else Inr LT_String)
      | Some LT_Bytes \<Rightarrow>
          (case lb_as_slice (lval_bytes value) of
             Inl e \<Rightarrow> Inl e
           | Inr b \<Rightarrow>
               if OTEL_LOG_MAX_BYTES_LEN < length b
               then Inl (invalid ''log bytes value exceeds the maximum supported length'')
               else Inr LT_Bytes)
      | Some tag \<Rightarrow> Inr tag)"

text \<open>The claims of one container, in order.\<close>

fun claim_loop :: "nat list \<Rightarrow> node_info list \<Rightarrow> abi_error + node_info list" where
  "claim_loop [] info = Inr info"
| "claim_loop (i # is) info =
     (if ni_referenced (info ! i) then Inl (invalid ''log value node is referenced more than once'')
      else claim_loop is (info[i := (info ! i)\<lparr>ni_referenced := True\<rparr>]))"

definition claim_children ::
  "nat \<Rightarrow> otel_log_value_type \<Rightarrow> otel_log_value \<Rightarrow> nat option \<Rightarrow> node_info list
     \<Rightarrow> abi_error + nat list \<times> node_info list" where
  "claim_children node_count tag value owner info =
     (let first = unat (rg_first (lval_children value)); count = unat (rg_count (lval_children value));
          limit = (if tag = LT_Map then OTEL_LOG_MAX_MAP_ENTRIES else OTEL_LOG_MAX_ARRAY_ELEMENTS) in
      if limit < count then Inl (invalid ''log container exceeds the maximum supported element count'')
      else if count = 0 then Inr ([], info)
      else if 2 ^ 64 \<le> first + count then Inl (invalid ''log container child range overflows'')
      else if node_count < first + count
      then Inl (invalid ''log container child range is outside the node pool'')
      else if \<not> (case owner of None \<Rightarrow> True | Some k \<Rightarrow> k < first)
      then Inl (invalid ''log container children must live at a strictly greater pool index'')
      else case claim_loop [first..<first + count] info of
        Inl e \<Rightarrow> Inl e
      | Inr info' \<Rightarrow> Inr ([first..<first + count], info'))"

definition check_child_key :: "otel_log_value_node list \<Rightarrow> nat \<Rightarrow> node_role \<Rightarrow> abi_error + bytes option" where
  "check_child_key nodes i role =
     (case sv_as_str (nd_key (nodes ! i)) of
        Inl e \<Rightarrow> Inl e
      | Inr key \<Rightarrow>
          (case role of
             ArrayElement \<Rightarrow>
               if key \<noteq> [] then Inl (invalid ''array element nodes must have an empty key'') else Inr None
           | MapEntry \<Rightarrow>
               if key = [] then Inl (invalid ''map entry nodes must have a non-empty key'')
               else if OTEL_LOG_MAX_STRING_LEN < length key
               then Inl (invalid ''map entry key exceeds the maximum supported length'')
               else Inr (Some key)))"

fun check_keys :: "otel_log_value_node list \<Rightarrow> node_role \<Rightarrow> bytes list \<Rightarrow> nat list \<Rightarrow> abi_error + unit" where
  "check_keys nodes role seen [] = Inr ()"
| "check_keys nodes role seen (i # is) =
     (case check_child_key nodes i role of
        Inl e \<Rightarrow> Inl e
      | Inr None \<Rightarrow> check_keys nodes role seen is
      | Inr (Some key) \<Rightarrow>
          if key \<in> set seen then Inl (invalid ''duplicate key in a log map value'')
          else check_keys nodes role (seen @ [key]) is)"

definition check_children ::
  "(nat \<Rightarrow> bool) \<Rightarrow> otel_log_value_node list \<Rightarrow> otel_log_value_type \<Rightarrow> nat list \<Rightarrow> abi_error + unit" where
  "check_children al nodes tag kids =
     (let role = (if tag = LT_Map then MapEntry else ArrayElement) in
      if role = MapEntry \<and> \<not> al (length kids)
      then Inl (internal ''failed to allocate map key validation state'')
      else check_keys nodes role [] kids)"

text \<open>The body of both ascending loops: a pool node is its own owner, a root has none.\<close>

definition check_value ::
  "(nat \<Rightarrow> bool) \<Rightarrow> otel_log_value_node list \<Rightarrow> nat option \<Rightarrow> otel_log_value \<Rightarrow> node_info list
     \<Rightarrow> abi_error + node_info list" where
  "check_value al nodes owner value info =
     (case check_value_scalar value of
        Inl e \<Rightarrow> Inl e
      | Inr tag \<Rightarrow>
          if tag = LT_Array \<or> tag = LT_Map then
            (case claim_children (length nodes) tag value owner info of
               Inl e \<Rightarrow> Inl e
             | Inr (kids, info') \<Rightarrow>
                 (case check_children al nodes tag kids of Inl e \<Rightarrow> Inl e | Inr _ \<Rightarrow> Inr info'))
          else Inr info)"

fun check_values ::
  "(nat \<Rightarrow> bool) \<Rightarrow> otel_log_value_node list \<Rightarrow> (nat option \<times> otel_log_value) list \<Rightarrow> node_info list
     \<Rightarrow> abi_error + node_info list" where
  "check_values al nodes [] info = Inr info"
| "check_values al nodes ((owner, value) # vs) info =
     (case check_value al nodes owner value info of
        Inl e \<Rightarrow> Inl e
      | Inr info' \<Rightarrow> check_values al nodes vs info')"

text \<open>Decimal digits, as \<open>format!\<close> prints an index.\<close>

fun decimal :: "nat \<Rightarrow> string" where
  "decimal n = (if n < 10 then [char_of (48 + n)] else decimal (n div 10) @ [char_of (48 + n mod 10)])"

declare decimal.simps [simp del]

definition is_container :: "otel_log_value \<Rightarrow> bool" where
  "is_container value \<longleftrightarrow>
     (case log_value_type_from_u32 (lval_value_type value) of
        Some LT_Array \<Rightarrow> True | Some LT_Map \<Rightarrow> True | _ \<Rightarrow> False)"

definition child_range :: "otel_log_value \<Rightarrow> nat list" where
  "child_range value =
     [unat (rg_first (lval_children value))..<
      unat (rg_first (lval_children value)) + unat (rg_count (lval_children value))]"

definition child_depth :: "node_info list \<Rightarrow> otel_log_value \<Rightarrow> nat" where
  "child_depth info value = fold (\<lambda>c d. max d (ni_depth (info ! c))) (child_range value) 0"

text \<open>The descending pass; the list is the indices still to visit, highest first.\<close>

fun depth_pass :: "otel_log_value_node list \<Rightarrow> nat list \<Rightarrow> node_info list \<Rightarrow> node_info list" where
  "depth_pass nodes [] info = info"
| "depth_pass nodes (i # is) info =
     (let value = nd_value (nodes ! i) in
      depth_pass nodes is
        (if is_container value then info[i := (info ! i)\<lparr>ni_depth := child_depth info value + 1\<rparr>] else info))"

definition root_depth :: "node_info list \<Rightarrow> otel_log_value \<Rightarrow> nat" where
  "root_depth info root = (if is_container root then child_depth info root + 1 else 1)"

definition validate ::
  "(nat \<Rightarrow> bool) \<Rightarrow> otel_log_value_node list \<Rightarrow> otel_log_value list \<Rightarrow> node_info list
     \<Rightarrow> abi_error + node_info list" where
  "validate al nodes roots info =
     (case check_values al nodes (map (\<lambda>i. (Some i, nd_value (nodes ! i))) [0..<length nodes]) info of
        Inl e \<Rightarrow> Inl e
      | Inr info1 \<Rightarrow>
          (case check_values al nodes (map (Pair None) roots) info1 of
             Inl e \<Rightarrow> Inl e
           | Inr info2 \<Rightarrow>
               (case position (\<lambda>n. \<not> ni_referenced n) info2 of
                  Some i \<Rightarrow>
                    Inl (invalid (''log value node '' @ decimal i @ '' is not referenced by any container or root''))
                | None \<Rightarrow>
                    (let info3 = depth_pass nodes (rev [0..<length nodes]) info2 in
                     if \<exists>root \<in> set roots. OTEL_LOG_MAX_VALUE_DEPTH < root_depth info3 root
                     then Inl (invalid ''log value nesting exceeds the maximum supported depth'')
                     else Inr info3))))"

section \<open>Conversion\<close>

definition converter_new :: "(nat \<Rightarrow> bool) \<Rightarrow> otel_log_value_node list \<Rightarrow> abi_error + any_value option list" where
  "converter_new al nodes = try_vec al None (length nodes)"

definition take_child :: "nat \<Rightarrow> any_value option list \<Rightarrow> abi_error + any_value \<times> any_value option list" where
  "take_child i conv =
     (case conv ! i of
        None \<Rightarrow> Inl (internal ''log value node was consumed twice'')
      | Some v \<Rightarrow> Inr (v, conv[i := None]))"

fun take_items ::
  "nat list \<Rightarrow> any_value list \<Rightarrow> any_value option list \<Rightarrow> abi_error + any_value list \<times> any_value option list" where
  "take_items [] items conv = Inr (items, conv)"
| "take_items (i # is) items conv =
     (case take_child i conv of
        Inl e \<Rightarrow> Inl e
      | Inr (v, conv') \<Rightarrow> take_items is (items @ [v]) conv')"

fun take_entries ::
  "(nat \<Rightarrow> bool) \<Rightarrow> otel_log_value_node list \<Rightarrow> nat list \<Rightarrow> (bytes \<times> any_value) list \<Rightarrow> any_value option list
     \<Rightarrow> abi_error + (bytes \<times> any_value) list \<times> any_value option list" where
  "take_entries al nodes [] m conv = Inr (m, conv)"
| "take_entries al nodes (i # is) m conv =
     (case to_string_strict al (nd_key (nodes ! i)) of
        Inl e \<Rightarrow> Inl e
      | Inr key \<Rightarrow>
          (case take_child i conv of
             Inl e \<Rightarrow> Inl e
           | Inr (v, conv') \<Rightarrow> take_entries al nodes is (any_map_insert key v m) conv'))"

definition convert_value ::
  "(nat \<Rightarrow> bool) \<Rightarrow> otel_log_value_node list \<Rightarrow> otel_log_value \<Rightarrow> any_value option list
     \<Rightarrow> abi_error + any_value \<times> any_value option list" where
  "convert_value al nodes value conv =
     (case log_value_type_from_u32 (lval_value_type value) of
        None \<Rightarrow> Inl (internal ''log value tag changed during conversion'')
      | Some LT_Empty \<Rightarrow> Inl (internal ''an empty log value reached conversion'')
      | Some LT_String \<Rightarrow>
          (case to_string_strict al (lval_string value) of Inl e \<Rightarrow> Inl e | Inr s \<Rightarrow> Inr (AV_String s, conv))
      | Some LT_Bool \<Rightarrow> Inr (AV_Boolean (lval_bool value \<noteq> 0), conv)
      | Some LT_Int64 \<Rightarrow> Inr (AV_Int (lval_int64 value), conv)
      | Some LT_Double \<Rightarrow> Inr (AV_Double (lval_double value), conv)
      | Some LT_Bytes \<Rightarrow>
          (case lb_as_slice (lval_bytes value) of
             Inl e \<Rightarrow> Inl e
           | Inr b \<Rightarrow>
               if al (length b) then Inr (AV_Bytes b, conv)
               else Inl (internal ''failed to allocate log bytes value''))
      | Some LT_Array \<Rightarrow>
          if \<not> al (unat (rg_count (lval_children value))) then Inl (internal ''failed to allocate log array value'')
          else (case take_items (child_range value) [] conv of
                  Inl e \<Rightarrow> Inl e
                | Inr (items, conv') \<Rightarrow> Inr (AV_ListAny items, conv'))
      | Some LT_Map \<Rightarrow>
          if \<not> al (unat (rg_count (lval_children value))) then Inl (internal ''failed to allocate log map value'')
          else (case take_entries al nodes (child_range value) [] conv of
                  Inl e \<Rightarrow> Inl e
                | Inr (m, conv') \<Rightarrow> Inr (AV_Map m, conv')))"

fun convert_nodes ::
  "(nat \<Rightarrow> bool) \<Rightarrow> otel_log_value_node list \<Rightarrow> nat list \<Rightarrow> any_value option list \<Rightarrow> abi_error + any_value option list" where
  "convert_nodes al nodes [] conv = Inr conv"
| "convert_nodes al nodes (i # is) conv =
     (case convert_value al nodes (nd_value (nodes ! i)) conv of
        Inl e \<Rightarrow> Inl e
      | Inr (v, conv') \<Rightarrow> convert_nodes al nodes is (conv'[i := Some v]))"

definition convert_pool ::
  "(nat \<Rightarrow> bool) \<Rightarrow> otel_log_value_node list \<Rightarrow> any_value option list \<Rightarrow> abi_error + any_value option list" where
  "convert_pool al nodes conv = convert_nodes al nodes (rev [0..<length nodes]) conv"

text \<open>Root values, converted one after the other after the pool.\<close>

fun convert_values ::
  "(nat \<Rightarrow> bool) \<Rightarrow> otel_log_value_node list \<Rightarrow> otel_log_value list \<Rightarrow> any_value option list
     \<Rightarrow> abi_error + any_value list \<times> any_value option list" where
  "convert_values al nodes [] conv = Inr ([], conv)"
| "convert_values al nodes (v # vs) conv =
     (case convert_value al nodes v conv of
        Inl e \<Rightarrow> Inl e
      | Inr (x, conv1) \<Rightarrow>
          (case convert_values al nodes vs conv1 of
             Inl e \<Rightarrow> Inl e
           | Inr (xs, conv2) \<Rightarrow> Inr (x # xs, conv2)))"

end
