(* ===== verification/Log_Value_Pool.thy ===== *)
theory Log_Value_Pool
  imports Log_Values
begin

text \<open>
  What the two passes over the value pool achieve. \<open>pool_ok\<close> states, without reference to the
  algorithm, when a pool with its roots is a forest of well-formed values of bounded depth, and
  \<open>value_tree\<close> reads the value that a root denotes by plain recursion. Validation decides
  \<open>pool_ok\<close>, and conversion after it yields exactly the denoted values; only an allocation can fail.
\<close>

section \<open>The specification\<close>

definition tag_of :: "otel_log_value \<Rightarrow> otel_log_value_type option" where
  "tag_of v = log_value_type_from_u32 (lval_value_type v)"

definition kids :: "otel_log_value \<Rightarrow> nat list" where
  "kids v = (if is_container v then child_range v else [])"

definition key_at :: "otel_log_value_node list \<Rightarrow> nat \<Rightarrow> abi_error + bytes" where
  "key_at nodes i = sv_as_str (nd_key (nodes ! i))"

definition value_ok :: "otel_log_value \<Rightarrow> bool" where
  "value_ok v \<longleftrightarrow> lval_reserved v = 0 \<and>
     (case tag_of v of
        None \<Rightarrow> False
      | Some LT_Empty \<Rightarrow> False
      | Some LT_String \<Rightarrow> \<exists>s. sv_as_str (lval_string v) = Inr s \<and> length s \<le> OTEL_LOG_MAX_STRING_LEN
      | Some LT_Bytes \<Rightarrow> \<exists>b. lb_as_slice (lval_bytes v) = Inr b \<and> length b \<le> OTEL_LOG_MAX_BYTES_LEN
      | Some LT_Array \<Rightarrow> unat (rg_count (lval_children v)) \<le> OTEL_LOG_MAX_ARRAY_ELEMENTS
      | Some LT_Map \<Rightarrow> unat (rg_count (lval_children v)) \<le> OTEL_LOG_MAX_MAP_ENTRIES
      | _ \<Rightarrow> True)"

text \<open>The children of an array have empty keys; those of a map have distinct keys within the limit.\<close>

definition keys_ok :: "otel_log_value_node list \<Rightarrow> otel_log_value \<Rightarrow> bool" where
  "keys_ok nodes v \<longleftrightarrow>
     (case tag_of v of
        Some LT_Array \<Rightarrow> \<forall>i \<in> set (kids v). key_at nodes i = Inr []
      | Some LT_Map \<Rightarrow> \<exists>ks. map (key_at nodes) (kids v) = map Inr ks \<and> distinct ks \<and>
          (\<forall>k \<in> set ks. k \<noteq> [] \<and> length k \<le> OTEL_LOG_MAX_STRING_LEN)
      | _ \<Rightarrow> True)"

fun height :: "any_value \<Rightarrow> nat" where
  "height (AV_ListAny xs) = Suc (foldr max (map height xs) 0)"
| "height (AV_Map m) = Suc (foldr max (map (\<lambda>e. height (snd e)) m) 0)"
| "height _ = 1"

text \<open>The value with the given children.\<close>

definition assemble :: "otel_log_value_node list \<Rightarrow> otel_log_value \<Rightarrow> any_value list \<Rightarrow> any_value" where
  "assemble nodes v ts =
     (case tag_of v of
        Some LT_String \<Rightarrow> AV_String (projr (sv_as_str (lval_string v)))
      | Some LT_Int64 \<Rightarrow> AV_Int (lval_int64 v)
      | Some LT_Double \<Rightarrow> AV_Double (lval_double v)
      | Some LT_Bytes \<Rightarrow> AV_Bytes (projr (lb_as_slice (lval_bytes v)))
      | Some LT_Array \<Rightarrow> AV_ListAny ts
      | Some LT_Map \<Rightarrow> AV_Map (zip (map (\<lambda>i. projr (key_at nodes i)) (kids v)) ts)
      | _ \<Rightarrow> AV_Boolean (lval_bool v \<noteq> 0))"

text \<open>The value that \<open>v\<close> denotes; a child must have an index of at least \<open>lo\<close>, so the recursion ends.\<close>

function value_tree :: "otel_log_value_node list \<Rightarrow> nat \<Rightarrow> otel_log_value \<Rightarrow> any_value" where
  "value_tree nodes lo v =
     assemble nodes v (map (\<lambda>i. if lo \<le> i \<and> i < length nodes then value_tree nodes (Suc i) (nd_value (nodes ! i))
                                else AV_Boolean False) (kids v))"
  by pat_completeness auto

termination value_tree
  by (relation "measure (\<lambda>(nodes, lo, v). length nodes - lo)") auto

declare value_tree.simps [simp del]

definition node_values :: "otel_log_value_node list \<Rightarrow> otel_log_value list" where
  "node_values nodes = map nd_value nodes"

definition pool_ok :: "otel_log_value_node list \<Rightarrow> otel_log_value list \<Rightarrow> bool" where
  "pool_ok nodes roots \<longleftrightarrow>
     (\<forall>v \<in> set (node_values nodes @ roots). value_ok v \<and> keys_ok nodes v) \<and>
     (\<forall>i < length nodes. \<forall>j \<in> set (kids (node_values nodes ! i)). i < j) \<and>
     distinct (concat (map kids (node_values nodes @ roots))) \<and>
     set (concat (map kids (node_values nodes @ roots))) = {..<length nodes} \<and>
     (\<forall>r \<in> set roots. height (value_tree nodes 0 r) \<le> OTEL_LOG_MAX_VALUE_DEPTH)"

text \<open>A result that is as expected unless an allocation failed.\<close>

definition expected :: "(nat \<Rightarrow> bool) \<Rightarrow> abi_error + 'a \<Rightarrow> 'a \<Rightarrow> bool" where
  "expected al r x \<longleftrightarrow> r = Inr x \<or> (\<exists>e. r = Inl e \<and> err_status e = St_InternalError \<and> \<not> (\<forall>n. al n))"

lemma expected_Inr [intro]: "expected al (Inr x) x"
  by (simp add: expected_def)

lemma expected_internal: "\<not> al n \<Longrightarrow> expected al (Inl (internal m)) x"
  by (auto simp: expected_def internal_def abi_error_new_def)

lemma expected_bind:
  assumes "expected al r x" and "expected al (f x) y"
  shows "expected al (case r of Inl e \<Rightarrow> Inl e | Inr x \<Rightarrow> f x) y"
  using assms by (auto simp: expected_def)

section \<open>Validation decides the specification\<close>

lemma is_container_tag: "is_container v \<longleftrightarrow> tag_of v = Some LT_Array \<or> tag_of v = Some LT_Map"
  by (auto simp: is_container_def tag_of_def split: option.splits otel_log_value_type.splits)

lemma set_child_range:
  "i \<in> set (child_range v) \<longleftrightarrow> unat (rg_first (lval_children v)) \<le> i \<and>
     i < unat (rg_first (lval_children v)) + unat (rg_count (lval_children v))"
  by (simp add: child_range_def)

lemma distinct_child_range [simp]: "distinct (child_range v)"
  by (simp add: child_range_def)

definition mark :: "nat list \<Rightarrow> node_info list \<Rightarrow> node_info list" where
  "mark js info = fold (\<lambda>i f. f[i := (f ! i)\<lparr>ni_referenced := True\<rparr>]) js info"

lemma mark_simps [simp]:
  "mark [] info = info" "mark (i # js) info = mark js (info[i := (info ! i)\<lparr>ni_referenced := True\<rparr>])"
  by (simp_all add: mark_def)

lemma length_mark [simp]: "length (mark js info) = length info"
  by (induction js arbitrary: info) simp_all

lemma mark_nth:
  assumes "j < length info"
  shows "ni_depth (mark js info ! j) = ni_depth (info ! j)"
    and "ni_referenced (mark js info ! j) \<longleftrightarrow> j \<in> set js \<or> ni_referenced (info ! j)"
proof -
  have upd: "info[a := (info ! a)\<lparr>ni_referenced := True\<rparr>] ! j =
      (if a = j then (info ! j)\<lparr>ni_referenced := True\<rparr> else info ! j)" if "j < length info" for a and info :: "node_info list"
    using that by simp
  show "ni_depth (mark js info ! j) = ni_depth (info ! j)"
    "ni_referenced (mark js info ! j) \<longleftrightarrow> j \<in> set js \<or> ni_referenced (info ! j)"
    using assms by (induction js arbitrary: info) (auto simp: upd)
qed

lemma claim_loop_iff:
  assumes "distinct js" and "set js \<subseteq> {..<length info}"
  shows "claim_loop js info = Inr info' \<longleftrightarrow> (\<forall>i \<in> set js. \<not> ni_referenced (info ! i)) \<and> info' = mark js info"
  using assms by (induction js arbitrary: info) (auto simp: nth_list_update)

lemma check_value_scalar_iff:
  "check_value_scalar v = Inr t \<longleftrightarrow> tag_of v = Some t \<and> lval_reserved v = 0 \<and> t \<noteq> LT_Empty \<and>
     (t = LT_String \<longrightarrow> (\<exists>s. sv_as_str (lval_string v) = Inr s \<and> length s \<le> OTEL_LOG_MAX_STRING_LEN)) \<and>
     (t = LT_Bytes \<longrightarrow> (\<exists>b. lb_as_slice (lval_bytes v) = Inr b \<and> length b \<le> OTEL_LOG_MAX_BYTES_LEN))"
  by (cases t) (auto simp: check_value_scalar_def tag_of_def not_less split: option.splits otel_log_value_type.splits sum.splits if_splits)

lemma check_keys_array:
  "check_keys nodes ArrayElement seen js = Inr () \<longleftrightarrow> (\<forall>i \<in> set js. key_at nodes i = Inr [])"
  by (induction js arbitrary: seen) (auto simp: check_child_key_def key_at_def split: sum.splits if_splits)

lemma check_keys_map:
  "check_keys nodes MapEntry seen js = Inr () \<longleftrightarrow>
     (\<exists>ks. map (key_at nodes) js = map Inr ks \<and> distinct ks \<and> set ks \<inter> set seen = {} \<and>
        (\<forall>k \<in> set ks. k \<noteq> [] \<and> length k \<le> OTEL_LOG_MAX_STRING_LEN))"
proof (induction js arbitrary: seen)
  case (Cons i js)
  show ?case
  proof (cases "key_at nodes i")
    case (Inl e)
    then show ?thesis by (auto simp: check_child_key_def key_at_def)
  next
    case (Inr k)
    show ?thesis
    proof (cases "k \<noteq> [] \<and> length k \<le> OTEL_LOG_MAX_STRING_LEN \<and> k \<notin> set seen")
      case True
      then have "check_keys nodes MapEntry seen (i # js) = check_keys nodes MapEntry (seen @ [k]) js"
        using Inr by (simp add: check_child_key_def key_at_def)
      then show ?thesis using Cons [of "seen @ [k]"] True Inr
        by (auto simp: map_eq_Cons_conv Cons_eq_map_conv)
    next
      case False
      then have "check_keys nodes MapEntry seen (i # js) \<noteq> Inr ()"
        using Inr by (auto simp: check_child_key_def key_at_def split: if_splits)
      then show ?thesis using False Inr by (auto simp: Cons_eq_map_conv)
    qed
  qed
qed auto

text \<open>What one step of the ascending passes checks.\<close>

definition acceptable ::
  "otel_log_value_node list \<Rightarrow> nat option \<Rightarrow> otel_log_value \<Rightarrow> node_info list \<Rightarrow> bool" where
  "acceptable nodes owner v info \<longleftrightarrow> value_ok v \<and> keys_ok nodes v \<and>
     (\<forall>k. owner = Some k \<longrightarrow> (\<forall>j \<in> set (kids v). k < j)) \<and> set (kids v) \<subseteq> {..<length nodes} \<and>
     (\<forall>j \<in> set (kids v). \<not> ni_referenced (info ! j))"

definition limit_of :: "otel_log_value_type \<Rightarrow> nat" where
  "limit_of t = (if t = LT_Map then OTEL_LOG_MAX_MAP_ENTRIES else OTEL_LOG_MAX_ARRAY_ELEMENTS)"

lemma child_range_sub:
  "set (child_range v) \<subseteq> {..<n} \<longleftrightarrow> unat (rg_count (lval_children v)) = 0 \<or>
     unat (rg_first (lval_children v)) + unat (rg_count (lval_children v)) \<le> n"
  by (simp add: child_range_def lessThan_atLeast0 del: atLeast0LessThan) 

lemma child_range_above:
  "(\<forall>j \<in> set (child_range v). k < j) \<longleftrightarrow> unat (rg_count (lval_children v)) = 0 \<or> k < unat (rg_first (lval_children v))"
  by (auto simp: child_range_def)

lemma u32_sum: "unat (a :: u32) + unat (b :: u32) < 2 ^ 64"
proof -
  have "unat a < 2 ^ 32" "unat b < 2 ^ 32" using unsigned_less [of a] unsigned_less [of b] by simp_all
  then show ?thesis by simp
qed

lemma claim_children_iff:
  assumes "length info = n"
  shows "claim_children n t v owner info = Inr (js, info') \<longleftrightarrow>
     unat (rg_count (lval_children v)) \<le> limit_of t \<and> set (child_range v) \<subseteq> {..<n} \<and>
     (\<forall>k. owner = Some k \<longrightarrow> (\<forall>j \<in> set (child_range v). k < j)) \<and>
     (\<forall>j \<in> set (child_range v). \<not> ni_referenced (info ! j)) \<and> js = child_range v \<and> info' = mark (child_range v) info"
proof (cases "unat (rg_count (lval_children v)) = 0")
  case True
  then have "child_range v = []" by (simp add: child_range_def)
  then show ?thesis using True by (auto simp: claim_children_def Let_def limit_of_def)
next
  case False
  have loop: "claim_loop (child_range v) info = Inr info' \<longleftrightarrow>
      (\<forall>i \<in> set (child_range v). \<not> ni_referenced (info ! i)) \<and> info' = mark (child_range v) info"
    if "set (child_range v) \<subseteq> {..<n}"
    using claim_loop_iff [OF distinct_child_range, of v info info'] that assms by simp
  show ?thesis
    unfolding claim_children_def Let_def limit_of_def [symmetric] child_range_def [symmetric] child_range_above
    using False loop child_range_sub [of v n] u32_sum [of "rg_first (lval_children v)" "rg_count (lval_children v)"]
    by (auto split: sum.splits option.splits if_splits)
qed

lemma check_value_sound:
  assumes "check_value al nodes owner v info = Inr info'" and "length info = length nodes"
  shows "acceptable nodes owner v info \<and> info' = mark (kids v) info"
proof -
  obtain t where t: "check_value_scalar v = Inr t"
    using assms(1) by (auto simp: check_value_def split: sum.splits)
  note tag = t [unfolded check_value_scalar_iff]
  show ?thesis
  proof (cases "t = LT_Array \<or> t = LT_Map")
    case False
    then have "kids v = []" "info' = info" using assms(1) t tag by (auto simp: check_value_def kids_def is_container_tag)
    moreover have "value_ok v" "keys_ok nodes v" using tag False by (cases t; simp add: value_ok_def keys_ok_def)+
    ultimately show ?thesis by (simp add: acceptable_def)
  next
    case True
    have con: "is_container v" "kids v = child_range v" using True tag by (auto simp: kids_def is_container_tag)
    obtain js where c: "claim_children (length nodes) t v owner info = Inr (js, info')"
        and k: "check_children al nodes t js = Inr ()"
      using assms(1) t True by (auto simp: check_value_def split: sum.splits)
    note cl = c [unfolded claim_children_iff [OF assms(2)]]
    have "value_ok v" using tag True cl by (auto simp: value_ok_def limit_of_def)
    moreover have "keys_ok nodes v"
      using k cl tag True con
      by (auto simp: check_children_def Let_def keys_ok_def check_keys_array check_keys_map split: if_splits)
    ultimately show ?thesis using cl con by (simp add: acceptable_def)
  qed
qed

lemma check_value_complete:
  assumes ok: "acceptable nodes owner v info" and "length info = length nodes"
  shows "expected al (check_value al nodes owner v info) (mark (kids v) info)"
proof -
  obtain t where t: "check_value_scalar v = Inr t"
    using ok by (cases "tag_of v") (auto simp: acceptable_def value_ok_def check_value_scalar_iff split: otel_log_value_type.splits)
  note tag = t [unfolded check_value_scalar_iff]
  show ?thesis
  proof (cases "t = LT_Array \<or> t = LT_Map")
    case False
    then have "kids v = []" using tag by (auto simp: kids_def is_container_tag)
    then show ?thesis using False t by (auto simp: check_value_def)
  next
    case True
    have con: "kids v = child_range v" using True tag by (auto simp: kids_def is_container_tag)
    have c: "claim_children (length nodes) t v owner info = Inr (child_range v, mark (child_range v) info)"
      unfolding claim_children_iff [OF assms(2)]
      using ok con tag True by (auto simp: acceptable_def value_ok_def limit_of_def)
    have "expected al (check_children al nodes t (child_range v)) ()"
      using ok con tag True expected_internal [of al]
      by (auto simp: acceptable_def keys_ok_def check_children_def Let_def check_keys_array check_keys_map expected_def)
    then show ?thesis using c t True con by (auto simp: check_value_def expected_def)
  qed
qed

lemma mark_append: "mark (xs @ ys) info = mark ys (mark xs info)"
  by (simp add: mark_def)

definition fits :: "otel_log_value_node list \<Rightarrow> nat option \<times> otel_log_value \<Rightarrow> bool" where
  "fits nodes ov \<longleftrightarrow> value_ok (snd ov) \<and> keys_ok nodes (snd ov) \<and>
     (\<forall>k. fst ov = Some k \<longrightarrow> (\<forall>j \<in> set (kids (snd ov)). k < j)) \<and> set (kids (snd ov)) \<subseteq> {..<length nodes}"

lemma acceptable_fits:
  "acceptable nodes owner v info \<longleftrightarrow> fits nodes (owner, v) \<and> (\<forall>j \<in> set (kids v). \<not> ni_referenced (info ! j))"
  by (auto simp: acceptable_def fits_def)

definition claims :: "(nat option \<times> otel_log_value) list \<Rightarrow> nat list" where
  "claims vs = concat (map (\<lambda>ov. kids (snd ov)) vs)"

lemma claims_simps [simp]: "claims [] = []" "claims ((x, v) # vs) = kids v @ claims vs" "claims (xs @ ys) = claims xs @ claims ys"
  by (simp_all add: claims_def)

definition unclaimed :: "nat list \<Rightarrow> node_info list \<Rightarrow> bool" where
  "unclaimed js info \<longleftrightarrow> distinct js \<and> (\<forall>j \<in> set js. \<not> ni_referenced (info ! j))"

lemma unclaimed_append:
  assumes "set xs \<union> set ys \<subseteq> {..<length info}"
  shows "unclaimed (xs @ ys) info \<longleftrightarrow> unclaimed xs info \<and> unclaimed ys (mark xs info)"
  using assms by (auto simp: unclaimed_def mark_nth(2) subset_iff)

lemma distinct_kids [simp]: "distinct (kids v)"
  by (simp add: kids_def)

lemma claims_sub: "\<forall>ov \<in> set vs. fits nodes ov \<Longrightarrow> set (claims vs) \<subseteq> {..<length nodes}"
  by (auto simp: claims_def fits_def)

lemma check_values_sound:
  assumes "check_values al nodes vs info = Inr info'" and "length info = length nodes"
  shows "(\<forall>ov \<in> set vs. fits nodes ov) \<and> unclaimed (claims vs) info \<and> info' = mark (claims vs) info"
  using assms
proof (induction vs arbitrary: info)
  case (Cons ov vs)
  obtain x v where ov: "ov = (x, v)" by (cases ov)
  obtain info1 where c: "check_value al nodes x v info = Inr info1" "check_values al nodes vs info1 = Inr info'"
    using Cons.prems(1) by (auto simp: ov split: sum.splits)
  note a = check_value_sound [OF c(1) Cons.prems(2)]
  have l: "length info1 = length nodes" using a Cons.prems(2) by simp
  note i = Cons.IH [OF c(2) l]
  have f: "fits nodes (x, v)" "unclaimed (kids v) info" using a by (auto simp: acceptable_fits unclaimed_def)
  have "set (kids v) \<union> set (claims vs) \<subseteq> {..<length info}"
    using f(1) i claims_sub [of vs nodes] Cons.prems(2) by (auto simp: fits_def)
  then have "unclaimed (kids v @ claims vs) info" using unclaimed_append f(2) i a by blast
  with i a f(1) show ?case by (simp add: ov mark_append)
qed (simp add: unclaimed_def)

lemma check_values_complete:
  assumes "\<forall>ov \<in> set vs. fits nodes ov" and "unclaimed (claims vs) info" and "length info = length nodes"
  shows "expected al (check_values al nodes vs info) (mark (claims vs) info)"
  using assms
proof (induction vs arbitrary: info)
  case (Cons ov vs)
  obtain x v where ov: "ov = (x, v)" by (cases ov)
  have sub: "set (kids v) \<union> set (claims vs) \<subseteq> {..<length info}"
    using Cons.prems claims_sub [of vs nodes] by (auto simp: fits_def ov)
  then have u: "unclaimed (kids v) info" "unclaimed (claims vs) (mark (kids v) info)"
    using Cons.prems(2) unclaimed_append by (auto simp: ov)
  have "acceptable nodes x v info" using Cons.prems(1) u(1) by (simp add: acceptable_fits ov unclaimed_def)
  then have "expected al (check_value al nodes x v info) (mark (kids v) info)"
    by (rule check_value_complete [OF _ Cons.prems(3)])
  moreover have "expected al (check_values al nodes vs (mark (kids v) info)) (mark (claims vs) (mark (kids v) info))"
    using Cons u(2) by simp
  ultimately show ?case by (simp add: ov mark_append expected_bind)
qed auto

section \<open>Trees and depths\<close>

definition node_tree :: "otel_log_value_node list \<Rightarrow> nat \<Rightarrow> any_value" where
  "node_tree nodes i = value_tree nodes (Suc i) (nd_value (nodes ! i))"

lemma value_tree_assemble:
  assumes "\<forall>j \<in> set (kids v). lo \<le> j \<and> j < length nodes"
  shows "value_tree nodes lo v = assemble nodes v (map (node_tree nodes) (kids v))"
  using assms by (subst value_tree.simps) (auto simp: node_tree_def intro!: arg_cong [where f = "assemble nodes v"])

lemma height_assemble:
  assumes "length ts = length (kids v)"
  shows "height (assemble nodes v ts) = (if is_container v then Suc (foldr max (map height ts) 0) else 1)"
proof -
  have "map (\<lambda>e. height (snd e)) (zip ks ts) = map height ts" if "length ks = length ts" for ks :: "bytes list"
    using that by (simp add: list_eq_iff_nth_eq)
  then show ?thesis
    using assms by (auto simp: assemble_def is_container_tag split: option.splits otel_log_value_type.splits)
qed

lemma child_depth_foldr:
  "child_depth info v = foldr max (map (\<lambda>j. ni_depth (info ! j)) (child_range v)) 0"
proof -
  have "fold (\<lambda>c d. max d (f c)) js a = max a (foldr max (map f js) 0)" for f :: "nat \<Rightarrow> nat" and js a
    by (induction js arbitrary: a) (auto simp: max.assoc)
  then show ?thesis by (simp add: child_depth_def)
qed

lemma length_depth_pass [simp]: "length (depth_pass nodes js info) = length info"
  by (induction js arbitrary: info) (simp_all add: Let_def)

text \<open>Every claim points forward.\<close>

definition forward :: "otel_log_value_node list \<Rightarrow> bool" where
  "forward nodes \<longleftrightarrow> (\<forall>i < length nodes. \<forall>j \<in> set (kids (nd_value (nodes ! i))). i < j \<and> j < length nodes)"

lemma node_tree_assemble:
  assumes "forward nodes" and "i < length nodes"
  shows "node_tree nodes i = assemble nodes (nd_value (nodes ! i)) (map (node_tree nodes) (kids (nd_value (nodes ! i))))"
proof -
  have "\<forall>j \<in> set (kids (nd_value (nodes ! i))). Suc i \<le> j \<and> j < length nodes"
    using assms unfolding forward_def Suc_le_eq by blast
  from value_tree_assemble [OF this] show ?thesis unfolding node_tree_def [of nodes i] .
qed

lemma depth_pass_heights:
  assumes "forward nodes" and "m \<le> length nodes" and "length info = length nodes"
    and "\<forall>j < length nodes. ni_depth (info ! j) = (if m \<le> j then height (node_tree nodes j) else 1)"
  shows "\<forall>j < length nodes. ni_depth (depth_pass nodes (rev [0..<m]) info ! j) = height (node_tree nodes j)"
  using assms(2-)
proof (induction m arbitrary: info)
  case (Suc m)
  let ?v = "nd_value (nodes ! m)"
  let ?info = "if is_container ?v then info[m := (info ! m)\<lparr>ni_depth := child_depth info ?v + 1\<rparr>] else info"
  have kd: "\<forall>j \<in> set (kids ?v). m < j \<and> j < length nodes" 
    using assms(1) Suc.prems(1) unfolding forward_def Suc_le_eq by blast
  have "height (node_tree nodes m) = height (assemble nodes ?v (map (node_tree nodes) (kids ?v)))"
    using node_tree_assemble [OF assms(1), of m] Suc.prems(1) by simp
  also have "\<dots> = (if is_container ?v then Suc (foldr max (map height (map (node_tree nodes) (kids ?v))) 0) else 1)"
    by (rule height_assemble) simp
  also have "\<dots> = (if is_container ?v then Suc (child_depth info ?v) else 1)"
  proof (cases "is_container ?v")
    case True
    have "map height (map (node_tree nodes) (kids ?v)) = map (\<lambda>j. ni_depth (info ! j)) (child_range ?v)"
      using kd True Suc.prems(3) by (simp add: kids_def Suc_le_eq)
    then show ?thesis by (simp only: child_depth_foldr)
  qed simp
  finally have h: "height (node_tree nodes m) = (if is_container ?v then Suc (child_depth info ?v) else 1)" .
  have "\<forall>j < length nodes. ni_depth (?info ! j) = (if m \<le> j then height (node_tree nodes j) else 1)"
  proof (intro allI impI)
    fix j assume j: "j < length nodes"
    show "ni_depth (?info ! j) = (if m \<le> j then height (node_tree nodes j) else 1)"
    proof (cases "j = m")
      case True
      then show ?thesis using h j Suc.prems(2,3) by simp
    next
      case False
      then have "ni_depth (?info ! j) = ni_depth (info ! j)" by simp
      then show ?thesis using False Suc.prems(3) j by (auto simp: Suc_le_eq)
    qed
  qed
  then have "\<forall>j < length nodes. ni_depth (depth_pass nodes (rev [0..<m]) ?info ! j) = height (node_tree nodes j)"
    using Suc.IH [of ?info] Suc.prems by simp
  then show ?case by (simp add: Let_def)
qed simp

lemma root_depth_height:
  assumes "\<forall>j < length nodes. ni_depth (info ! j) = height (node_tree nodes j)" and "set (kids r) \<subseteq> {..<length nodes}"
  shows "root_depth info r = height (value_tree nodes 0 r)"
proof -
  have "\<forall>j \<in> set (kids r). 0 \<le> j \<and> j < length nodes" using assms(2) by auto
  then have "height (value_tree nodes 0 r) = height (assemble nodes r (map (node_tree nodes) (kids r)))"
    by (simp only: value_tree_assemble)
  also have "\<dots> = (if is_container r then Suc (foldr max (map height (map (node_tree nodes) (kids r))) 0) else 1)"
    by (rule height_assemble) simp
  also have "\<dots> = root_depth info r"
  proof (cases "is_container r")
    case True
    have "map height (map (node_tree nodes) (kids r)) = map (\<lambda>j. ni_depth (info ! j)) (child_range r)"
      using assms True by (auto simp: kids_def subset_iff)
    then show ?thesis using True by (simp add: root_depth_def child_depth_foldr)
  qed (simp add: root_depth_def)
  finally show ?thesis by simp
qed

section \<open>Validation\<close>

definition pool_owners :: "otel_log_value_node list \<Rightarrow> (nat option \<times> otel_log_value) list" where
  "pool_owners nodes = map (\<lambda>i. (Some i, nd_value (nodes ! i))) [0..<length nodes]"

lemma length_node_values [simp]: "length (node_values nodes) = length nodes"
  by (simp add: node_values_def)

lemma pool_owners_facts:
  "map snd (pool_owners nodes) = node_values nodes" "claims (pool_owners nodes) = concat (map kids (node_values nodes))"
  "claims (map (Pair None) roots) = concat (map kids roots)"
  "(\<forall>ov \<in> set (pool_owners nodes). P ov) \<longleftrightarrow> (\<forall>i < length nodes. P (Some i, node_values nodes ! i))"
proof -
  show 1: "map snd (pool_owners nodes) = node_values nodes"
    by (rule nth_equalityI) (simp_all add: pool_owners_def node_values_def)
  have "map (\<lambda>ov. kids (snd ov)) (pool_owners nodes) = map kids (map snd (pool_owners nodes))" by simp
  then show "claims (pool_owners nodes) = concat (map kids (node_values nodes))" by (simp only: claims_def 1)
  show "claims (map (Pair None) roots) = concat (map kids roots)" by (simp add: claims_def comp_def)
  show "(\<forall>ov \<in> set (pool_owners nodes). P ov) \<longleftrightarrow> (\<forall>i < length nodes. P (Some i, node_values nodes ! i))"
    by (auto simp: pool_owners_def node_values_def)
qed

lemma pool_ok_fits:
  assumes "set (concat (map kids (node_values nodes @ roots))) = {..<length nodes}"
  shows "(\<forall>ov \<in> set (pool_owners nodes). fits nodes ov) \<and> (\<forall>ov \<in> set (map (Pair None) roots). fits nodes ov) \<longleftrightarrow>
    (\<forall>v \<in> set (node_values nodes @ roots). value_ok v \<and> keys_ok nodes v) \<and>
    (\<forall>i < length nodes. \<forall>j \<in> set (kids (node_values nodes ! i)). i < j)"
proof -
  let ?nv = "node_values nodes" and ?W = "\<lambda>v. value_ok v \<and> keys_ok nodes v"
  have sub: "set (kids v) \<subseteq> {..<length nodes}" if "v \<in> set (?nv @ roots)" for v
    using assms that by auto
  have mem: "?nv ! i \<in> set ?nv" if "i < length nodes" for i using that by simp
  have "(\<forall>i < length nodes. fits nodes (Some i, ?nv ! i)) \<longleftrightarrow>
      (\<forall>i < length nodes. ?W (?nv ! i)) \<and> (\<forall>i < length nodes. \<forall>j \<in> set (kids (?nv ! i)). i < j)"
    using sub mem unfolding fits_def fst_conv snd_conv option.inject by (metis Un_iff set_append)
  moreover have "(\<forall>v \<in> set ?nv. ?W v) \<longleftrightarrow> (\<forall>i < length nodes. ?W (?nv ! i))"
    unfolding all_set_conv_all_nth length_node_values ..
  moreover have "(\<forall>ov \<in> set (map (Pair None) roots). fits nodes ov) \<longleftrightarrow> (\<forall>v \<in> set roots. ?W v)"
    using sub by (auto simp: fits_def)
  ultimately show ?thesis unfolding pool_owners_facts(4) set_append ball_Un by blast
qed

lemma fits_forward: "\<forall>ov \<in> set (pool_owners nodes). fits nodes ov \<Longrightarrow> forward nodes"
  unfolding pool_owners_facts(4) by (fastforce simp: forward_def fits_def node_values_def)

abbreviation fresh_info :: "nat \<Rightarrow> node_info list" where
  "fresh_info n \<equiv> replicate n \<lparr>ni_depth = 1, ni_referenced = False\<rparr>"

text \<open>The state after both ascending passes.\<close>

lemma claimed_info:
  assumes "set cs \<subseteq> {..<n}"
  shows "position (\<lambda>x. \<not> ni_referenced x) (mark cs (fresh_info n)) = None \<longleftrightarrow> set cs = {..<n}"
    and "j < n \<Longrightarrow> ni_depth (mark cs (fresh_info n) ! j) = 1"
proof -
  have "position (\<lambda>x. \<not> ni_referenced x) (mark cs (fresh_info n)) = None \<longleftrightarrow>
      (\<forall>j < n. ni_referenced (mark cs (fresh_info n) ! j))"
    by (simp add: position_None_iff all_set_conv_all_nth)
  also have "\<dots> \<longleftrightarrow> (\<forall>j < n. j \<in> set cs)" by (simp add: mark_nth)
  finally show "position (\<lambda>x. \<not> ni_referenced x) (mark cs (fresh_info n)) = None \<longleftrightarrow> set cs = {..<n}"
    using assms by auto
  show "ni_depth (mark cs (fresh_info n) ! j) = 1" if "j < n" using that by (simp add: mark_nth)
qed

definition validated :: "otel_log_value_node list \<Rightarrow> otel_log_value list \<Rightarrow> node_info list" where
  "validated nodes roots = depth_pass nodes (rev [0..<length nodes])
     (mark (concat (map kids (node_values nodes @ roots))) (fresh_info (length nodes)))"

lemma validated_root_depth:
  assumes "forward nodes" and "set (concat (map kids (node_values nodes @ roots))) = {..<length nodes}" and "r \<in> set roots"
  shows "root_depth (validated nodes roots) r = height (value_tree nodes 0 r)"
proof (rule root_depth_height)
  show "set (kids r) \<subseteq> {..<length nodes}" using assms(2,3) by auto
  show "\<forall>j < length nodes. ni_depth (validated nodes roots ! j) = height (node_tree nodes j)"
    unfolding validated_def by (rule depth_pass_heights [OF assms(1)]) (simp_all add: mark_nth)
qed

text \<open>Validation accepts exactly the forests of well-formed values. Whatever the allocator does, a
  pool that validation accepts satisfies \<open>pool_ok\<close>: every value is well formed, children lie at
  greater indices, every node is the child of exactly one container or root, map keys are distinct,
  and the value of every root is nested at most sixteen levels deep. Conversely such a pool is
  accepted unless an allocation fails.\<close>
lemma validate_decides_pool_ok:
  "(\<exists>info. validate al nodes roots (fresh_info (length nodes)) = Inr info) \<longrightarrow> pool_ok nodes roots"
  "pool_ok nodes roots \<longrightarrow> expected al (validate al nodes roots (fresh_info (length nodes))) (validated nodes roots)"
proof -
  let ?n = "length nodes" and ?pool = "pool_owners nodes" and ?roots = "map (Pair None) roots"
  let ?cs = "concat (map kids (node_values nodes @ roots))"
  have cs: "?cs = claims ?pool @ claims ?roots" by (simp add: pool_owners_facts)
  have step: "validate al nodes roots (fresh_info ?n) =
     (case check_values al nodes ?pool (fresh_info ?n) of
        Inl e \<Rightarrow> Inl e
      | Inr info1 \<Rightarrow>
          (case check_values al nodes ?roots info1 of
             Inl e \<Rightarrow> Inl e
           | Inr info2 \<Rightarrow>
               (case position (\<lambda>n. \<not> ni_referenced n) info2 of
                  Some i \<Rightarrow> Inl (invalid (''log value node '' @ decimal i @ '' is not referenced by any container or root''))
                | None \<Rightarrow>
                    (if \<exists>root \<in> set roots. OTEL_LOG_MAX_VALUE_DEPTH < root_depth (depth_pass nodes (rev [0..<?n]) info2) root
                     then Inl (invalid ''log value nesting exceeds the maximum supported depth'')
                     else Inr (depth_pass nodes (rev [0..<?n]) info2)))))"
    unfolding validate_def pool_owners_def Let_def by (rule refl)
  have fresh: "unclaimed xs (fresh_info ?n) \<longleftrightarrow> distinct xs" if "set xs \<subseteq> {..<?n}" for xs
    using that by (auto simp: unclaimed_def)
  show "(\<exists>info. validate al nodes roots (fresh_info ?n) = Inr info) \<longrightarrow> pool_ok nodes roots"
  proof
    assume "\<exists>info. validate al nodes roots (fresh_info ?n) = Inr info"
    then obtain info1 info2 where c: "check_values al nodes ?pool (fresh_info ?n) = Inr info1"
        "check_values al nodes ?roots info1 = Inr info2" "position (\<lambda>n. \<not> ni_referenced n) info2 = None"
        "\<not> (\<exists>root \<in> set roots. OTEL_LOG_MAX_VALUE_DEPTH < root_depth (depth_pass nodes (rev [0..<?n]) info2) root)"
      unfolding step by (auto split: sum.splits option.splits if_splits)
    note s1 = check_values_sound [OF c(1)]
    have s1': "\<forall>ov \<in> set ?pool. fits nodes ov" "unclaimed (claims ?pool) (fresh_info ?n)" "info1 = mark (claims ?pool) (fresh_info ?n)"
      using s1 by simp_all
    have l1: "length info1 = ?n" by (simp add: s1'(3))
    have s2: "\<forall>ov \<in> set ?roots. fits nodes ov" "unclaimed (claims ?roots) info1" "info2 = mark (claims ?roots) info1"
      using check_values_sound [OF c(2) l1] by simp_all
    have sub: "set (claims ?pool) \<subseteq> {..<?n}" "set (claims ?roots) \<subseteq> {..<?n}"
      using claims_sub s1'(1) s2(1) by blast+
    have i2: "info2 = mark ?cs (fresh_info ?n)" using s2(3) s1'(3) by (simp only: cs mark_append)
    have subcs: "set ?cs \<subseteq> {..<?n}" unfolding cs using sub by simp
    have "unclaimed ?cs (fresh_info ?n)"
      unfolding cs using unclaimed_append [of "claims ?pool" "claims ?roots" "fresh_info ?n"] sub s1' s2(2) by simp
    then have dist: "distinct ?cs" using fresh [OF subcs] by blast
    have all: "set ?cs = {..<?n}" using c(3) claimed_info(1) [OF subcs] unfolding i2 by blast
    have fw: "forward nodes" by (rule fits_forward [OF s1'(1)])
    have "height (value_tree nodes 0 r) \<le> OTEL_LOG_MAX_VALUE_DEPTH" if "r \<in> set roots" for r
      using c(4) that validated_root_depth [OF fw all that] by (auto simp: validated_def i2 not_less)
    moreover have "(\<forall>v \<in> set (node_values nodes @ roots). value_ok v \<and> keys_ok nodes v) \<and>
        (\<forall>i < ?n. \<forall>j \<in> set (kids (node_values nodes ! i)). i < j)"
      using pool_ok_fits [OF all] s1'(1) s2(1) by blast
    ultimately show "pool_ok nodes roots" unfolding pool_ok_def using dist all by blast
  qed
  show "pool_ok nodes roots \<longrightarrow> expected al (validate al nodes roots (fresh_info ?n)) (validated nodes roots)"
  proof
    assume ok: "pool_ok nodes roots"
    then have all: "set ?cs = {..<?n}" and dist: "distinct ?cs" by (simp_all only: pool_ok_def)
    have f: "\<forall>ov \<in> set ?pool. fits nodes ov" "\<forall>ov \<in> set ?roots. fits nodes ov"
      using pool_ok_fits [OF all] ok unfolding pool_ok_def by blast+
    have sub: "set (claims ?pool) \<union> set (claims ?roots) \<subseteq> {..<?n}" using all unfolding cs by simp
    have "unclaimed (claims ?pool @ claims ?roots) (fresh_info ?n)" unfolding cs [symmetric] using fresh all dist by simp
    then have u: "unclaimed (claims ?pool) (fresh_info ?n)" "unclaimed (claims ?roots) (mark (claims ?pool) (fresh_info ?n))"
      using unclaimed_append [of "claims ?pool" "claims ?roots" "fresh_info ?n"] sub by simp_all
    let ?i1 = "mark (claims ?pool) (fresh_info ?n)" and ?i2 = "mark ?cs (fresh_info ?n)"
    have e1: "expected al (check_values al nodes ?pool (fresh_info ?n)) ?i1"
      by (rule check_values_complete [OF f(1) u(1)]) simp
    have e2: "expected al (check_values al nodes ?roots ?i1) ?i2"
      unfolding cs mark_append by (rule check_values_complete [OF f(2) u(2)]) simp
    have pos: "position (\<lambda>x. \<not> ni_referenced x) ?i2 = None" using claimed_info(1) all by blast
    have "\<not> (\<exists>r \<in> set roots. OTEL_LOG_MAX_VALUE_DEPTH < root_depth (validated nodes roots) r)"
      using validated_root_depth [OF fits_forward [OF f(1)] all] ok by (auto simp: pool_ok_def not_less)
    then show "expected al (validate al nodes roots (fresh_info ?n)) (validated nodes roots)"
      unfolding step
      by (intro expected_bind [OF e1] expected_bind [OF e2])
        (unfold pos option.case validated_def [symmetric], simp only: if_False expected_Inr)
  qed
qed

section \<open>Conversion\<close>

lemma expected_owned:
  "sv_as_str w = Inr t \<Longrightarrow> expected al (to_string_strict al w) t"
  by (auto simp: to_string_strict_def try_owned_string_def push_str_fallible_def expected_def alloc_err_def abi_error_new_def)

definition consume :: "nat list \<Rightarrow> any_value option list \<Rightarrow> any_value option list" where
  "consume js conv = fold (\<lambda>i c. c[i := None]) js conv"

lemma consume_simps [simp]: "consume [] conv = conv" "consume (i # js) conv = consume js (conv[i := None])"
  by (simp_all add: consume_def)

lemma length_consume [simp]: "length (consume js conv) = length conv"
  by (induction js arbitrary: conv) simp_all

lemma consume_nth: "j < length conv \<Longrightarrow> consume js conv ! j = (if j \<in> set js then None else conv ! j)"
proof (induction js arbitrary: conv)
  case (Cons i js)
  then show ?case by (cases "i = j") simp_all
qed simp

lemma consume_append: "consume (xs @ ys) conv = consume ys (consume xs conv)"
  by (simp add: consume_def)

text \<open>The converted pool holds the trees of the indices \<open>js\<close>.\<close>

definition holds_trees :: "otel_log_value_node list \<Rightarrow> nat list \<Rightarrow> any_value option list \<Rightarrow> bool" where
  "holds_trees nodes js conv \<longleftrightarrow> (\<forall>j \<in> set js. j < length conv \<and> conv ! j = Some (node_tree nodes j))"

lemma holds_trees_step:
  "distinct (j # js) \<Longrightarrow> holds_trees nodes (j # js) conv \<Longrightarrow> holds_trees nodes js (conv[j := None])"
  by (auto simp: holds_trees_def nth_list_update)

lemma take_items_trees:
  assumes "distinct js" and "holds_trees nodes js conv"
  shows "take_items js items conv = Inr (items @ map (node_tree nodes) js, consume js conv)"
  using assms
proof (induction js arbitrary: items conv)
  case (Cons j js)
  from Cons.IH [OF _ holds_trees_step [OF Cons.prems]] Cons.prems show ?case
    by (simp add: take_child_def holds_trees_def)
qed simp

lemma any_map_insert_new: "k \<notin> fst ` set m \<Longrightarrow> any_map_insert k v m = m @ [(k, v)]"
  by (induction m rule: any_map_insert.induct) auto

lemma take_entries_trees:
  assumes "distinct js" and "holds_trees nodes js conv" and "map (key_at nodes) js = map Inr ks"
    and "distinct ks" and "set ks \<inter> fst ` set m = {}"
  shows "expected al (take_entries al nodes js m conv) (m @ zip ks (map (node_tree nodes) js), consume js conv)"
  using assms
proof (induction js arbitrary: m conv ks)
  case (Cons j js)
  obtain k ks' where ks: "ks = k # ks'" "key_at nodes j = Inr k" "map (key_at nodes) js = map Inr ks'"
    using Cons.prems(3) by (cases ks) auto
  have t: "take_child j conv = Inr (node_tree nodes j, conv[j := None])"
    using Cons.prems(2) by (simp add: take_child_def holds_trees_def)
  let ?m = "m @ [(k, node_tree nodes j)]"
  have "set ks' \<inter> fst ` set ?m = {}" using Cons.prems(4,5) ks(1) by auto
  then have "expected al (take_entries al nodes js ?m (conv[j := None])) (?m @ zip ks' (map (node_tree nodes) js), consume js (conv[j := None]))"
    by - (rule Cons.IH [OF _ holds_trees_step [OF Cons.prems(1,2)] ks(3)], use Cons.prems(1,4) ks(1) in simp_all)
  moreover have "any_map_insert k (node_tree nodes j) m = ?m"
    using Cons.prems(5) ks(1) by (intro any_map_insert_new) auto
  ultimately have "expected al (case take_child j conv of Inl e \<Rightarrow> Inl e
      | Inr (v, conv') \<Rightarrow> take_entries al nodes js (any_map_insert k v m) conv')
      (m @ zip ks (map (node_tree nodes) (j # js)), consume (j # js) conv)"
    by (simp add: t ks(1))
  moreover have own: "expected al (to_string_strict al (nd_key (nodes ! j))) k"
    using expected_owned [of "nd_key (nodes ! j)" k al] ks(2) by (simp add: key_at_def)
  ultimately show ?case unfolding take_entries.simps by (rule expected_bind [rotated])
qed auto

lemma convert_value_tree:
  assumes "value_ok v" and "keys_ok nodes v" and "holds_trees nodes (kids v) conv"
  shows "expected al (convert_value al nodes v conv) (assemble nodes v (map (node_tree nodes) (kids v)), consume (kids v) conv)"
proof -
  obtain t where t: "tag_of v = Some t" "t \<noteq> LT_Empty" 
    using assms(1) by (cases "tag_of v") (auto simp: value_ok_def split: otel_log_value_type.splits)
  note unf = convert_value_def tag_of_def [symmetric] t assemble_def
  have leaf: "kids v = []" if "t \<noteq> LT_Array" "t \<noteq> LT_Map" using that t by (auto simp: kids_def is_container_tag)
  have node: "kids v = child_range v" if "t = LT_Array \<or> t = LT_Map" using that t by (auto simp: kids_def is_container_tag)
  show ?thesis
  proof (cases t)
    case LT_String
    obtain s where s: "sv_as_str (lval_string v) = Inr s" using assms(1) t LT_String by (auto simp: value_ok_def)
    show ?thesis
      using expected_owned [OF s, of al] s LT_String leaf by (auto simp: unf expected_def split: sum.splits)
  next
    case LT_Bytes
    obtain b where b: "lb_as_slice (lval_bytes v) = Inr b" using assms(1) t LT_Bytes by (auto simp: value_ok_def)
    show ?thesis using b LT_Bytes leaf by (auto simp: unf intro: expected_internal)
  next
    case LT_Array
    show ?thesis
      using LT_Array node take_items_trees [OF distinct_child_range, of nodes v conv "[]"] assms(3)
      by (auto simp: unf intro: expected_internal)
  next
    case LT_Map
    obtain ks where ks: "map (key_at nodes) (kids v) = map Inr ks" "distinct ks" using assms(2) t LT_Map by (auto simp: keys_ok_def)
    have kr: "map (\<lambda>i. projr (key_at nodes i)) (kids v) = ks"
    proof -
      have "map projr (map (key_at nodes) (kids v)) = ks" unfolding ks(1) by (simp add: comp_def)
      then show ?thesis by (simp add: comp_def)
    qed
    have "expected al (take_entries al nodes (child_range v) [] conv) (zip ks (map (node_tree nodes) (kids v)), consume (kids v) conv)"
      using take_entries_trees [of "kids v" nodes conv ks "[]" al] ks assms(3) node LT_Map by simp
    then show ?thesis
      using LT_Map node kr by (auto simp: unf expected_def intro: expected_internal)
        (auto simp: internal_def abi_error_new_def)
  qed (use t leaf in \<open>auto simp: unf\<close>)
qed

text \<open>Going down, the pool holds the trees of the visited nodes that no visited node has claimed.\<close>

definition pool_state :: "otel_log_value_node list \<Rightarrow> nat \<Rightarrow> any_value option list \<Rightarrow> bool" where
  "pool_state nodes m conv \<longleftrightarrow> length conv = length nodes \<and>
     (\<forall>j < length nodes. conv ! j =
        (if m \<le> j \<and> (\<forall>i. m \<le> i \<and> i < length nodes \<longrightarrow> j \<notin> set (kids (nd_value (nodes ! i))))
         then Some (node_tree nodes j) else None))"

lemma distinct_concat_disjoint:
  "distinct (concat xs) \<Longrightarrow> i < length xs \<Longrightarrow> j < length xs \<Longrightarrow> i \<noteq> j \<Longrightarrow> set (xs ! i) \<inter> set (xs ! j) = {}"
proof (induction xs arbitrary: i j)
  case (Cons x xs)
  have mem: "set (xs ! k) \<subseteq> \<Union> (set ` set xs)" if "k < length xs" for k
    using nth_mem [OF that] by blast
  have sep: "set x \<inter> \<Union> (set ` set xs) = {}" using Cons.prems(1) by simp
  show ?case
  proof (cases i)
    case 0
    then obtain j' where "j = Suc j'" using Cons.prems(4) by (cases j) auto
    then show ?thesis using 0 sep mem [of j'] Cons.prems(3) by auto
  next
    case (Suc i')
    show ?thesis
    proof (cases j)
      case 0
      then show ?thesis using Suc sep mem [of i'] Cons.prems(2) by auto
    next
      case (Suc j')
      then show ?thesis using Cons.IH [of i' j'] Cons.prems \<open>i = Suc i'\<close> by simp
    qed
  qed
qed simp

lemma pool_ok_nodes:
  assumes "pool_ok nodes roots"
  shows "forward nodes" and "i < length nodes \<Longrightarrow> value_ok (nd_value (nodes ! i)) \<and> keys_ok nodes (nd_value (nodes ! i))"
    and "i < length nodes \<Longrightarrow> i' < length nodes \<Longrightarrow> i \<noteq> i' \<Longrightarrow>
      set (kids (nd_value (nodes ! i))) \<inter> set (kids (nd_value (nodes ! i'))) = {}"
proof -
  have all: "set (concat (map kids (node_values nodes @ roots))) = {..<length nodes}"
    using assms by (simp only: pool_ok_def)
  have "\<forall>ov \<in> set (pool_owners nodes). fits nodes ov"
    using pool_ok_fits [OF all] assms unfolding pool_ok_def by blast
  then show "forward nodes" by (rule fits_forward)
  show "value_ok (nd_value (nodes ! i)) \<and> keys_ok nodes (nd_value (nodes ! i))" if "i < length nodes"
  proof -
    have "nd_value (nodes ! i) \<in> set (node_values nodes @ roots)" using that by (simp add: node_values_def)
    then show ?thesis using assms unfolding pool_ok_def by blast
  qed
  have d: "distinct (concat (map kids (node_values nodes)))" using assms by (simp add: pool_ok_def)
  show "set (kids (nd_value (nodes ! i))) \<inter> set (kids (nd_value (nodes ! i'))) = {}"
    if "i < length nodes" "i' < length nodes" "i \<noteq> i'"
  proof -
    have "set (map kids (node_values nodes) ! i) \<inter> set (map kids (node_values nodes) ! i') = {}"
      by (rule distinct_concat_disjoint [OF d]) (use that in simp_all)
    then show ?thesis using that by (simp add: node_values_def)
  qed
qed

lemma convert_nodes_trees:
  assumes ok: "pool_ok nodes roots" and "m \<le> length nodes" and "pool_state nodes m conv"
  shows "\<exists>conv'. expected al (convert_nodes al nodes (rev [0..<m]) conv) conv' \<and> pool_state nodes 0 conv'"
  using assms(2-)
proof (induction m arbitrary: conv)
  case (Suc m)
  let ?v = "nd_value (nodes ! m)"
  have m: "m < length nodes" using Suc.prems(1) by simp
  have kd: "\<forall>j \<in> set (kids ?v). m < j \<and> j < length nodes"
    using pool_ok_nodes(1) [OF ok] m unfolding forward_def by blast
  have other: "j \<notin> set (kids (nd_value (nodes ! i)))" if "j \<in> set (kids ?v)" "i < length nodes" "i \<noteq> m" for i j
    using pool_ok_nodes(3) [OF ok that(2) m that(3)] that(1) by blast
  have len: "length conv = length nodes" using Suc.prems(2) by (simp add: pool_state_def)
  have "holds_trees nodes (kids ?v) conv"
    unfolding holds_trees_def
  proof (intro ballI conjI)
    fix j assume j: "j \<in> set (kids ?v)"
    then have j': "Suc m \<le> j" "j < length nodes" using kd by auto
    then show "j < length conv" by (simp add: len)
    have "j \<notin> set (kids (nd_value (nodes ! i)))" if "Suc m \<le> i" "i < length nodes" for i
      using other [OF j that(2)] that(1) by simp
    then show "conv ! j = Some (node_tree nodes j)" using Suc.prems(2) j' by (simp add: pool_state_def)
  qed
  then have cv: "expected al (convert_value al nodes ?v conv) (node_tree nodes m, consume (kids ?v) conv)"
    using convert_value_tree [of ?v nodes conv al] pool_ok_nodes(2) [OF ok m] node_tree_assemble [OF pool_ok_nodes(1) [OF ok] m]
    by simp
  let ?c = "(consume (kids ?v) conv)[m := Some (node_tree nodes m)]"
  have st: "pool_state nodes m ?c"
    unfolding pool_state_def
  proof (intro conjI allI impI)
    show "length ?c = length nodes" by (simp add: len)
    fix j assume j: "j < length nodes"
    let ?free = "\<lambda>k. k \<le> j \<and> (\<forall>i. k \<le> i \<and> i < length nodes \<longrightarrow> j \<notin> set (kids (nd_value (nodes ! i))))"
    have c: "conv ! j = (if ?free (Suc m) then Some (node_tree nodes j) else None)"
      using Suc.prems(2) j unfolding pool_state_def by blast
    show "?c ! j = (if ?free m then Some (node_tree nodes j) else None)"
    proof (cases "j = m")
      case True
      have "j \<notin> set (kids (nd_value (nodes ! i)))" if "m \<le> i" "i < length nodes" for i
        using pool_ok_nodes(1) [OF ok] that True unfolding forward_def by (meson not_less)
      then have "?free m" using True by blast
      moreover have "?c ! j = Some (node_tree nodes j)" using True m by (simp add: len)
      ultimately show ?thesis by simp
    next
      case False
      have "?free m \<longleftrightarrow> ?free (Suc m) \<and> j \<notin> set (kids ?v)"
        using False m by (metis Suc_leD Suc_leI le_neq_implies_less order_refl)
      moreover have "?c ! j = (if j \<in> set (kids ?v) then None else conv ! j)"
        using False j by (simp add: consume_nth len)
      ultimately show ?thesis using c by simp
    qed
  qed
  obtain conv' where c': "expected al (convert_nodes al nodes (rev [0..<m]) ?c) conv'" "pool_state nodes 0 conv'"
    using Suc.IH [OF _ st] m by auto
  have "expected al (case convert_value al nodes ?v conv of Inl e \<Rightarrow> Inl e
      | Inr (v, conv') \<Rightarrow> convert_nodes al nodes (rev [0..<m]) (conv'[m := Some v])) conv'"
    by (rule expected_bind [OF cv]) (simp add: c'(1))
  then have "expected al (convert_nodes al nodes (rev [0..<Suc m]) conv) conv'" by simp
  with c'(2) show ?case by blast
qed auto

lemma holds_trees_append:
  "holds_trees nodes (xs @ ys) conv \<longleftrightarrow> holds_trees nodes xs conv \<and> holds_trees nodes ys conv"
  by (auto simp: holds_trees_def)

lemma holds_trees_consume:
  "holds_trees nodes ys conv \<Longrightarrow> set xs \<inter> set ys = {} \<Longrightarrow> holds_trees nodes ys (consume xs conv)"
  by (auto simp: holds_trees_def consume_nth)

lemma convert_values_trees:
  assumes "\<forall>v \<in> set vs. value_ok v \<and> keys_ok nodes v \<and> set (kids v) \<subseteq> {..<length nodes}"
    and "distinct (concat (map kids vs))" and "holds_trees nodes (concat (map kids vs)) conv"
  shows "expected al (convert_values al nodes vs conv)
    (map (value_tree nodes 0) vs, consume (concat (map kids vs)) conv)"
  using assms
proof (induction vs arbitrary: conv)
  case (Cons v vs)
  have "\<forall>j \<in> set (kids v). 0 \<le> j \<and> j < length nodes" using Cons.prems(1) by auto
  then have t: "value_tree nodes 0 v = assemble nodes v (map (node_tree nodes) (kids v))" by (rule value_tree_assemble)
  have h: "holds_trees nodes (kids v) conv" "holds_trees nodes (concat (map kids vs)) (consume (kids v) conv)"
    using Cons.prems(2,3) holds_trees_consume by (auto simp: holds_trees_append)
  have 1: "expected al (convert_value al nodes v conv) (value_tree nodes 0 v, consume (kids v) conv)"
    unfolding t using convert_value_tree [OF _ _ h(1), of al] Cons.prems(1) by simp
  have 2: "expected al (convert_values al nodes vs (consume (kids v) conv))
      (map (value_tree nodes 0) vs, consume (concat (map kids vs)) (consume (kids v) conv))"
    by (rule Cons.IH [OF _ _ h(2)]) (use Cons.prems in simp_all)
  have "expected al (case (value_tree nodes 0 v, consume (kids v) conv) of (x, conv1) \<Rightarrow>
      (case convert_values al nodes vs conv1 of Inl e \<Rightarrow> Inl e | Inr (xs, conv2) \<Rightarrow> Inr (x # xs, conv2)))
      (map (value_tree nodes 0) (v # vs), consume (concat (map kids (v # vs))) conv)"
    using expected_bind [OF 2, where f = "\<lambda>(xs, conv2). Inr (value_tree nodes 0 v # xs, conv2)"]
    by (simp add: consume_append expected_Inr)
  then show ?case unfolding convert_values.simps by (rule expected_bind [OF 1])
qed auto

lemma convert_pool_trees:
  assumes "pool_ok nodes roots"
  shows "\<exists>conv. expected al (convert_pool al nodes (replicate (length nodes) None)) conv \<and>
    expected al (convert_values al nodes roots conv) (map (value_tree nodes 0) roots, replicate (length nodes) None)"
proof -
  let ?n = "length nodes" and ?np = "concat (map kids (node_values nodes))" and ?rp = "concat (map kids roots)"
  have "pool_state nodes ?n (replicate ?n None)" by (simp add: pool_state_def)
  then obtain conv where c: "expected al (convert_pool al nodes (replicate ?n None)) conv" "pool_state nodes 0 conv"
    using convert_nodes_trees [OF assms, of ?n "replicate ?n None" al] by (auto simp: convert_pool_def)
  have dist: "distinct (?np @ ?rp)" and all: "set (?np @ ?rp) = {..<?n}" using assms by (simp_all add: pool_ok_def)
  have len: "length conv = ?n" using c(2) by (simp add: pool_state_def)
  have st: "conv ! j = (if j \<in> set ?rp then Some (node_tree nodes j) else None)" if j: "j < ?n" for j
  proof -
    have "(\<forall>i < ?n. j \<notin> set (kids (nd_value (nodes ! i)))) \<longleftrightarrow> j \<notin> set ?np"
      by (simp add: node_values_def all_set_conv_all_nth)
    also have "\<dots> \<longleftrightarrow> j \<in> set ?rp" using dist all j by auto
    finally show ?thesis using c(2) j by (simp add: pool_state_def)
  qed
  have "holds_trees nodes ?rp conv"
    unfolding holds_trees_def len
  proof
    fix j assume j: "j \<in> set ?rp"
    have "set ?rp \<subseteq> {..<?n}" unfolding all [symmetric] set_append by blast
    then have "j < ?n" using j by blast
    then show "j < ?n \<and> conv ! j = Some (node_tree nodes j)" using st j by simp
  qed
  moreover have "\<forall>v \<in> set roots. value_ok v \<and> keys_ok nodes v \<and> set (kids v) \<subseteq> {..<?n}"
    using assms all unfolding pool_ok_def by auto
  ultimately have "expected al (convert_values al nodes roots conv) (map (value_tree nodes 0) roots, consume ?rp conv)"
    using dist by (intro convert_values_trees) simp_all
  moreover have "consume ?rp conv = replicate ?n None"
    by (rule nth_equalityI) (use st in \<open>simp_all add: len consume_nth\<close>)
  ultimately show ?thesis using c(1) by auto
qed

end
