(* ===== verification/Log_Records.thy ===== *)
theory Log_Records
  imports Log_Value_Pool Logs_Api
begin

text \<open>
  \<open>logger_emit\<close> of the SDK (\<open>sdk/src/logs_vtable.rs\<close>): the checks on a borrowed record view, in the
  source's order, and the owned record that is handed to the SDK's logger. The result is the error
  passed to \<open>fail\<close>, or the emitted record; the outer \<open>None\<close> is a read beyond an array.
\<close>

section \<open>Severities\<close>

datatype severity =
    Sev_Trace | Sev_Trace2 | Sev_Trace3 | Sev_Trace4 | Sev_Debug | Sev_Debug2 | Sev_Debug3 | Sev_Debug4
  | Sev_Info | Sev_Info2 | Sev_Info3 | Sev_Info4 | Sev_Warn | Sev_Warn2 | Sev_Warn3 | Sev_Warn4
  | Sev_Error | Sev_Error2 | Sev_Error3 | Sev_Error4 | Sev_Fatal | Sev_Fatal2 | Sev_Fatal3 | Sev_Fatal4

definition severity_from_u32 :: "u32 \<Rightarrow> severity option" where
  "severity_from_u32 n =
     (if n = 1 then Some Sev_Trace else if n = 2 then Some Sev_Trace2 else if n = 3 then Some Sev_Trace3
      else if n = 4 then Some Sev_Trace4 else if n = 5 then Some Sev_Debug else if n = 6 then Some Sev_Debug2
      else if n = 7 then Some Sev_Debug3 else if n = 8 then Some Sev_Debug4 else if n = 9 then Some Sev_Info
      else if n = 10 then Some Sev_Info2 else if n = 11 then Some Sev_Info3 else if n = 12 then Some Sev_Info4
      else if n = 13 then Some Sev_Warn else if n = 14 then Some Sev_Warn2 else if n = 15 then Some Sev_Warn3
      else if n = 16 then Some Sev_Warn4 else if n = 17 then Some Sev_Error else if n = 18 then Some Sev_Error2
      else if n = 19 then Some Sev_Error3 else if n = 20 then Some Sev_Error4 else if n = 21 then Some Sev_Fatal
      else if n = 22 then Some Sev_Fatal2 else if n = 23 then Some Sev_Fatal3 else if n = 24 then Some Sev_Fatal4
      else None)"

section \<open>The emitted record\<close>

text \<open>Times are nanoseconds since the epoch. The severity text is the crate's name of the severity.\<close>

record sdk_log_record =
  sr_timestamp :: "nat option"
  sr_observed_timestamp :: "nat option"
  sr_severity :: "severity option"
  sr_trace_context :: "(bytes \<times> bytes \<times> u8) option"
  sr_body :: "any_value option"
  sr_attributes :: "(bytes \<times> any_value) list"

text \<open>A \<open>SystemTime\<close> keeps its seconds in an \<open>i64\<close>.\<close>

definition system_time_from_unix_nanos :: "u64 \<Rightarrow> string \<Rightarrow> abi_error + nat" where
  "system_time_from_unix_nanos nanos what =
     (if unat nanos div 10 ^ 9 < 2 ^ 63 then Inr (unat nanos)
      else Inl (invalid (what @ '' is not representable as a system time'')))"

definition record_error :: "otel_log_record_view \<Rightarrow> abi_error option" where
  "record_error view =
     (if lr_reserved_flags view \<noteq> 0 \<or> lval_reserved (lr_body view) \<noteq> 0 \<or> (\<exists>w \<in> set (lr_reserved view). w \<noteq> 0)
      then Some (invalid ''log record reserved fields must be zero'')
      else if lr_present_fields view AND NOT OTEL_LOG_FIELD_KNOWN_MASK \<noteq> 0
      then Some (abi_error_new St_InvalidConfig
        ''log record present_fields contains bits unknown to this library version'')
      else if \<not> log_severity_is_valid (lr_severity_number view)
      then Some (invalid ''log record severity_number must be 0 (absent) or 1..=24'')
      else if OTEL_LOG_MAX_ATTRIBUTES < unat (lr_attribute_count view)
      then Some (invalid ''log record exceeds the maximum supported attribute count'')
      else if OTEL_LOG_MAX_VALUE_NODES < unat (lr_value_node_count view)
      then Some (invalid ''log record exceeds the maximum supported value node count'')
      else if 0 < lr_attribute_count view \<and> lr_attributes view = None
      then Some (invalid ''log record attribute_count is non-zero but attributes is NULL'')
      else if 0 < lr_value_node_count view \<and> lr_value_nodes view = None
      then Some (invalid ''log record value_node_count is non-zero but value_nodes is NULL'')
      else None)"

text \<open>\<open>slice::from_raw_parts\<close>.\<close>

definition read_nodes :: "otel_log_value_node list option \<Rightarrow> usize \<Rightarrow> otel_log_value_node list option" where
  "read_nodes p n =
     (if n = 0 then Some []
      else case p of
        None \<Rightarrow> None
      | Some xs \<Rightarrow> if length xs < unat n then None else Some (take (unat n) xs))"

fun attribute_keys :: "otel_log_value_node list \<Rightarrow> abi_error + bytes list" where
  "attribute_keys [] = Inr []"
| "attribute_keys (a # as) =
     (case sv_as_str (nd_key a) of
        Inl e \<Rightarrow> Inl e
      | Inr key \<Rightarrow>
          if key = [] then Inl (invalid ''log record attribute keys must not be empty'')
          else if OTEL_LOG_MAX_STRING_LEN < length key
          then Inl (invalid ''log record attribute key exceeds the maximum supported length'')
          else (case attribute_keys as of Inl e \<Rightarrow> Inl e | Inr keys \<Rightarrow> Inr (key # keys)))"

definition optional_time :: "otel_log_record_view \<Rightarrow> u64 \<Rightarrow> u64 \<Rightarrow> string \<Rightarrow> abi_error + nat option" where
  "optional_time view field nanos what =
     (if lr_present_fields view AND field \<noteq> 0 then
        (case system_time_from_unix_nanos nanos what of Inl e \<Rightarrow> Inl e | Inr t \<Rightarrow> Inr (Some t))
      else Inr None)"

definition record_severity :: "otel_log_record_view \<Rightarrow> abi_error + severity option" where
  "record_severity view =
     (if lr_severity_number view \<noteq> 0 then
        (case severity_from_u32 (lr_severity_number view) of
           None \<Rightarrow> Inl (invalid ''log record severity_number must be 0 (absent) or 1..=24'')
         | Some sev \<Rightarrow> Inr (Some sev))
      else Inr None)"

definition record_trace_context :: "otel_log_record_view \<Rightarrow> abi_error + (bytes \<times> bytes \<times> u8) option" where
  "record_trace_context view =
     (let c = lr_trace_context view in
      if lr_present_fields view AND OTEL_LOG_FIELD_TRACE_CONTEXT = 0 then Inr None
      else if \<exists>b \<in> set (ltc_reserved c). b \<noteq> 0
      then Inl (invalid ''log record trace context reserved bytes must be zero'')
      else if ltc_trace_flags c AND NOT OTEL_LOG_TRACE_FLAGS_SUPPORTED_MASK \<noteq> 0
      then Inl (abi_error_new St_InvalidConfig
        ''log record trace context uses trace flags unknown to this library version'')
      else if ltc_trace_id c = zero_bytes 16
      then Inl (invalid ''log record trace context trace_id must not be all zero'')
      else if ltc_span_id c = zero_bytes 8
      then Inl (invalid ''log record trace context span_id must not be all zero'')
      else Inr (Some (ltc_trace_id c, ltc_span_id c, ltc_trace_flags c)))"

definition convert_body ::
  "(nat \<Rightarrow> bool) \<Rightarrow> otel_log_value_node list \<Rightarrow> otel_log_value option \<Rightarrow> any_value option list
     \<Rightarrow> abi_error + any_value option \<times> any_value option list" where
  "convert_body al nodes bd conv =
     (case bd of
        None \<Rightarrow> Inr (None, conv)
      | Some b \<Rightarrow> (case convert_value al nodes b conv of Inl e \<Rightarrow> Inl e | Inr (v, conv') \<Rightarrow> Inr (Some v, conv')))"

definition bind :: "'e + 'a \<Rightarrow> ('a \<Rightarrow> 'e + 'b) \<Rightarrow> 'e + 'b" where
  "bind r f = (case r of Inl e \<Rightarrow> Inl e | Inr x \<Rightarrow> f x)"

definition present_body :: "otel_log_record_view \<Rightarrow> otel_log_value option" where
  "present_body view = (if lval_value_type (lr_body view) \<noteq> 0 then Some (lr_body view) else None)"

definition convert_record ::
  "(nat \<Rightarrow> bool) \<Rightarrow> otel_log_value_node list \<Rightarrow> otel_log_value_node list \<Rightarrow> otel_log_record_view
     \<Rightarrow> abi_error + sdk_log_record" where
  "convert_record al attributes nodes view =
     (let bd = present_body view; n = length attributes + of_bool (bd \<noteq> None) in
      if \<not> al n then Inl (internal ''failed to allocate log record root list'')
      else if \<not> al (length attributes) then Inl (internal ''failed to allocate log attribute key list'')
      else
        bind (attribute_keys attributes) (\<lambda>keys.
        bind (validator_new al nodes) (\<lambda>info.
        bind (validate al nodes (case_option [] (\<lambda>b. [b]) bd @ map nd_value attributes) info) (\<lambda>_.
        bind (converter_new al nodes) (\<lambda>conv.
        bind (convert_pool al nodes conv) (\<lambda>conv1.
        bind (optional_time view OTEL_LOG_FIELD_TIMESTAMP (lr_timestamp_unix_nanos view) ''log record timestamp'') (\<lambda>time.
        bind (optional_time view OTEL_LOG_FIELD_OBSERVED_TIMESTAMP (lr_observed_timestamp_unix_nanos view)
          ''log record observed timestamp'') (\<lambda>observed.
        bind (record_severity view) (\<lambda>severity.
        bind (record_trace_context view) (\<lambda>trace.
        bind (convert_body al nodes bd conv1) (\<lambda>(b, conv2).
        bind (convert_values al nodes (map nd_value attributes) conv2) (\<lambda>(vs, conv3).
          Inr \<lparr>sr_timestamp = time, sr_observed_timestamp = observed, sr_severity = severity,
               sr_trace_context = trace, sr_body = b, sr_attributes = zip keys vs\<rparr>))))))))))))"

definition emit_record :: "(nat \<Rightarrow> bool) \<Rightarrow> otel_log_record_view \<Rightarrow> (abi_error + sdk_log_record) option" where
  "emit_record al view =
     (case record_error view of
        Some e \<Rightarrow> Some (Inl e)
      | None \<Rightarrow>
          (case (read_nodes (lr_attributes view) (lr_attribute_count view),
                 read_nodes (lr_value_nodes view) (lr_value_node_count view)) of
             (Some attributes, Some nodes) \<Rightarrow> Some (convert_record al attributes nodes view)
           | _ \<Rightarrow> None))"

definition sdk_logger_emit ::
  "(nat \<Rightarrow> bool) \<Rightarrow> ptr \<Rightarrow> otel_log_record_view option \<Rightarrow> (abi_error + sdk_log_record) option" where
  "sdk_logger_emit al ctx record =
     (if ctx = None then Some (Inl (invalid ''logger context is NULL''))
      else case record of
        None \<Rightarrow> Some (Inl (invalid ''log record view must not be NULL''))
      | Some view \<Rightarrow>
          if lr_struct_size view < OTEL_LOG_RECORD_VIEW_V1_SIZE
          then Some (Inl (invalid ''log record view struct_size is smaller than the supported prefix''))
          else emit_record al view)"

section \<open>Which records are emitted\<close>

lemma severity_total:
  assumes "n \<le> 24" and "n \<noteq> 0"
  shows "\<exists>sev. severity_from_u32 n = Some sev"
proof -
  obtain m where m: "n = word_of_nat m" "m \<le> 24" using assms(1) by (intro that [of "unat n"]) (simp_all add: word_le_nat_alt)
  have "m \<in> set [0..<25]" using m(2) by simp
  moreover have "[0..<25] = [0, 1, 2, 3, 4, 5, 6, 7, 8, 9, 10, 11, 12, 13, 14, 15, 16, 17, 18, 19, 20, 21, 22, 23, 24]"
    by (simp add: upt_rec)
  ultimately show ?thesis using assms(2) m(1) by (auto simp: severity_from_u32_def)
qed

definition log_attribute_key :: "otel_log_value_node \<Rightarrow> bytes" where
  "log_attribute_key a = projr (sv_as_str (nd_key a))"

definition attribute_key_ok :: "otel_log_value_node \<Rightarrow> bool" where
  "attribute_key_ok a \<longleftrightarrow> (\<exists>k. sv_as_str (nd_key a) = Inr k \<and> k \<noteq> [] \<and> length k \<le> OTEL_LOG_MAX_STRING_LEN)"

lemma attribute_keys_iff:
  "attribute_keys as = Inr ks \<longleftrightarrow> (\<forall>a \<in> set as. attribute_key_ok a) \<and> ks = map log_attribute_key as"
proof (induction as arbitrary: ks)
  case (Cons a as)
  show ?case
    using Cons [of "map log_attribute_key as"] Cons
    by (cases "attribute_keys as")
      (auto simp: attribute_key_ok_def log_attribute_key_def split: sum.splits if_splits)
qed auto

definition record_roots :: "otel_log_record_view \<Rightarrow> otel_log_value_node list \<Rightarrow> otel_log_value list" where
  "record_roots view attributes = case_option [] (\<lambda>b. [b]) (present_body view) @ map nd_value attributes"

definition trace_ok :: "otel_log_record_view \<Rightarrow> bool" where
  "trace_ok view \<longleftrightarrow> (lr_present_fields view AND OTEL_LOG_FIELD_TRACE_CONTEXT \<noteq> 0 \<longrightarrow>
     (\<forall>b \<in> set (ltc_reserved (lr_trace_context view)). b = 0) \<and>
     ltc_trace_flags (lr_trace_context view) AND NOT OTEL_LOG_TRACE_FLAGS_SUPPORTED_MASK = 0 \<and>
     ltc_trace_id (lr_trace_context view) \<noteq> zero_bytes 16 \<and> ltc_span_id (lr_trace_context view) \<noteq> zero_bytes 8)"

definition when_present :: "otel_log_record_view \<Rightarrow> u64 \<Rightarrow> 'a \<Rightarrow> 'a option" where
  "when_present view field x = (if lr_present_fields view AND field \<noteq> 0 then Some x else None)"

text \<open>The record that a view denotes.\<close>

definition record_of ::
  "otel_log_record_view \<Rightarrow> otel_log_value_node list \<Rightarrow> otel_log_value_node list \<Rightarrow> sdk_log_record" where
  "record_of view attributes nodes =
     \<lparr>sr_timestamp = when_present view OTEL_LOG_FIELD_TIMESTAMP (unat (lr_timestamp_unix_nanos view)),
      sr_observed_timestamp =
        when_present view OTEL_LOG_FIELD_OBSERVED_TIMESTAMP (unat (lr_observed_timestamp_unix_nanos view)),
      sr_severity = severity_from_u32 (lr_severity_number view),
      sr_trace_context = when_present view OTEL_LOG_FIELD_TRACE_CONTEXT
        (ltc_trace_id (lr_trace_context view), ltc_span_id (lr_trace_context view), ltc_trace_flags (lr_trace_context view)),
      sr_body = map_option (value_tree nodes 0) (present_body view),
      sr_attributes = map (\<lambda>a. (log_attribute_key a, value_tree nodes 0 (nd_value a))) attributes\<rparr>"

lemma optional_time_eq: "optional_time view field nanos what = Inr (when_present view field (unat nanos))"
proof -
  have "unat nanos < 2 ^ 64" using unsigned_less [of nanos] by simp
  then have "unat nanos div 10 ^ 9 < 2 ^ 63" by simp
  then show ?thesis by (simp add: optional_time_def system_time_from_unix_nanos_def when_present_def)
qed

lemma record_severity_eq:
  "log_severity_is_valid (lr_severity_number view) \<Longrightarrow> record_severity view = Inr (severity_from_u32 (lr_severity_number view))"
  using severity_total [of "lr_severity_number view"]
  by (cases "lr_severity_number view = 0")
    (auto simp: record_severity_def log_severity_is_valid_def OTEL_LOG_SEVERITY_MAX_def severity_from_u32_def [of 0])

lemma record_trace_context_iff:
  "record_trace_context view = Inr x \<longleftrightarrow> trace_ok view \<and> x = when_present view OTEL_LOG_FIELD_TRACE_CONTEXT
     (ltc_trace_id (lr_trace_context view), ltc_span_id (lr_trace_context view), ltc_trace_flags (lr_trace_context view))"
  unfolding record_trace_context_def Let_def trace_ok_def when_present_def by auto

lemma expected_total: "\<forall>n. al n \<Longrightarrow> expected al r x \<Longrightarrow> r = Inr x"
  by (auto simp: expected_def)

lemma bind_simps [simp]: "bind (Inr x) f = f x" "bind (Inl e) f = Inl e"
  by (simp_all add: bind_def)

lemma bind_Inr_iff: "bind r f = Inr y \<longleftrightarrow> (\<exists>x. r = Inr x \<and> f x = Inr y)"
  by (cases r) auto

lemma convert_values_Cons_Inr:
  "convert_values al nodes (v # vs) conv = Inr (x # xs, conv2) \<longleftrightarrow>
     (\<exists>conv1. convert_value al nodes v conv = Inr (x, conv1) \<and> convert_values al nodes vs conv1 = Inr (xs, conv2))"
  by (auto split: sum.splits prod.splits)

text \<open>The conversion of the body and of the attributes, with an allocator that never fails.\<close>

lemma convert_roots_total:
  assumes "\<forall>n. al n" and "pool_ok nodes (record_roots view attributes)"
  obtains conv conv2 where
    "convert_pool al nodes (replicate (length nodes) None) = Inr conv"
    "convert_body al nodes (present_body view) conv = Inr (map_option (value_tree nodes 0) (present_body view), conv2)"
    "convert_values al nodes (map nd_value attributes) conv2 =
       Inr (map (\<lambda>a. value_tree nodes 0 (nd_value a)) attributes, replicate (length nodes) None)"
proof -
  obtain conv where e: "expected al (convert_pool al nodes (replicate (length nodes) None)) conv"
      "expected al (convert_values al nodes (record_roots view attributes) conv)
        (map (value_tree nodes 0) (record_roots view attributes), replicate (length nodes) None)"
    using convert_pool_trees [OF assms(2), of al] by (elim exE conjE)
  note c = e [THEN expected_total [OF assms(1)]]
  show thesis
  proof (cases "present_body view")
    case None
    then have r: "record_roots view attributes = map nd_value attributes" by (simp add: record_roots_def)
    have "convert_body al nodes (present_body view) conv = Inr (map_option (value_tree nodes 0) (present_body view), conv)"
      unfolding convert_body_def None option.case option.map ..
    then show thesis using that c(1) c(2) [unfolded r map_map comp_def] by blast
  next
    case (Some b)
    then have r: "record_roots view attributes = b # map nd_value attributes" by (simp add: record_roots_def)
    obtain conv1 where v: "convert_value al nodes b conv = Inr (value_tree nodes 0 b, conv1)"
        "convert_values al nodes (map nd_value attributes) conv1 =
          Inr (map (\<lambda>a. value_tree nodes 0 (nd_value a)) attributes, replicate (length nodes) None)"
      using c(2) [unfolded r list.map(2) map_map comp_def] unfolding convert_values_Cons_Inr by blast
    have "convert_body al nodes (present_body view) conv = Inr (map_option (value_tree nodes 0) (present_body view), conv1)"
      unfolding convert_body_def Some option.case option.map v(1) sum.case prod.case ..
    then show thesis using that c(1) v(2) by blast
  qed
qed

lemma zip_map: "zip (map f xs) (map g xs) = map (\<lambda>x. (f x, g x)) xs"
  by (induction xs) simp_all

lemma convert_record_total:
  assumes al: "\<forall>n. al n" and sev: "log_severity_is_valid (lr_severity_number view)"
    and keys: "\<forall>a \<in> set attributes. attribute_key_ok a" and pool: "pool_ok nodes (record_roots view attributes)"
  shows "convert_record al attributes nodes view =
    bind (record_trace_context view) (\<lambda>t. Inr ((record_of view attributes nodes)\<lparr>sr_trace_context := t\<rparr>))"
proof -
  have k: "attribute_keys attributes = Inr (map log_attribute_key attributes)" using keys attribute_keys_iff by blast
  have v: "validate al nodes (record_roots view attributes) (fresh_info (length nodes)) = Inr (validated nodes (record_roots view attributes))"
    by (rule expected_total [OF al validate_decides_pool_ok(2) [rule_format, OF pool]])
  obtain conv conv2 where c: "convert_pool al nodes (replicate (length nodes) None) = Inr conv"
    "convert_body al nodes (present_body view) conv = Inr (map_option (value_tree nodes 0) (present_body view), conv2)"
    "convert_values al nodes (map nd_value attributes) conv2 =
       Inr (map (\<lambda>a. value_tree nodes 0 (nd_value a)) attributes, replicate (length nodes) None)"
    by (rule convert_roots_total [OF al pool])
  show ?thesis
    unfolding convert_record_def Let_def k validator_new_def converter_new_def try_vec_def record_roots_def [symmetric]
      optional_time_eq record_severity_eq [OF sev]
      al [rule_format, THEN eqTrueI] not_True_eq_False if_False if_True bind_simps v c prod.case record_of_def zip_map
      sdk_log_record.update_convs ..
qed

lemma convert_record_needs:
  assumes al: "\<forall>n. al n" and run: "convert_record al attributes nodes view = Inr r"
  shows "(\<forall>a \<in> set attributes. attribute_key_ok a) \<and> pool_ok nodes (record_roots view attributes)"
proof -
  note unf = run [unfolded convert_record_def Let_def validator_new_def converter_new_def try_vec_def
      record_roots_def [symmetric] al [rule_format, THEN eqTrueI] not_True_eq_False if_False if_True bind_simps]
  obtain keys info where keys: "attribute_keys attributes = Inr keys"
    and v: "validate (\<lambda>_. True) nodes (record_roots view attributes) (fresh_info (length nodes)) = Inr info"
    using unf [unfolded bind_Inr_iff [of "attribute_keys attributes"]
      bind_Inr_iff [of "validate (\<lambda>_. True) nodes (record_roots view attributes) (fresh_info (length nodes))"]]
    by (elim exE conjE)
  show ?thesis using keys attribute_keys_iff validate_decides_pool_ok(1) v by blast
qed

lemma convert_record_iff:
  assumes al: "\<forall>n. al n" and sev: "log_severity_is_valid (lr_severity_number view)"
  shows "convert_record al attributes nodes view = Inr r \<longleftrightarrow>
    (\<forall>a \<in> set attributes. attribute_key_ok a) \<and> pool_ok nodes (record_roots view attributes) \<and>
    trace_ok view \<and> r = record_of view attributes nodes"
proof (cases "(\<forall>a \<in> set attributes. attribute_key_ok a) \<and> pool_ok nodes (record_roots view attributes)")
  case True
  have "convert_record al attributes nodes view = Inr r \<longleftrightarrow>
      (\<exists>t. record_trace_context view = Inr t \<and> (record_of view attributes nodes)\<lparr>sr_trace_context := t\<rparr> = r)"
    by (simp add: convert_record_total [OF al sev] True bind_Inr_iff)
  also have "\<dots> \<longleftrightarrow> trace_ok view \<and> r = record_of view attributes nodes"
    unfolding record_trace_context_iff by (auto simp: record_of_def)
  finally show ?thesis using True by blast
next
  case False
  then show ?thesis using convert_record_needs [OF al] by blast
qed

lemma record_error_severity: "record_error view = None \<Longrightarrow> log_severity_is_valid (lr_severity_number view)"
  by (simp add: record_error_def split: if_splits)

lemma emit_accepts_parts:
  assumes "\<forall>n. al n"
    and "read_nodes (lr_attributes view) (lr_attribute_count view) = Some attributes"
    and "read_nodes (lr_value_nodes view) (lr_value_node_count view) = Some nodes"
    and "emit_record al view = Some (Inr r)"
  shows "(\<forall>a \<in> set attributes. attribute_key_ok a) \<and> pool_ok nodes (record_roots view attributes) \<and>
    trace_ok view \<and> r = record_of view attributes nodes"
proof -
  have err: "record_error view = None" using assms(4) by (simp add: emit_record_def split: option.splits)
  then have "convert_record al attributes nodes view = Inr r" using assms(2-4) by (simp add: emit_record_def)
  then show ?thesis using convert_record_iff [OF assms(1) record_error_severity [OF err]] by blast
qed

text \<open>
  C9: The SDK emits exactly the records that are well formed, and what it emits is the record the view
  denotes. With readable arrays and an allocator that does not fail, \<open>emit_record\<close> succeeds if and only
  if no header check fails, every attribute key is a non-empty string within the limit, the value
  pool is a forest below the body and the attribute values, and an advertised trace context is
  valid; the emitted record then has the times that are advertised, the severity of the number, the
  trace context, and the values that the body and the attributes denote by plain recursion.
\<close>

theorem emit_accepts_iff:
  assumes "\<forall>n. al n"
    and "read_nodes (lr_attributes view) (lr_attribute_count view) = Some attributes"
    and "read_nodes (lr_value_nodes view) (lr_value_node_count view) = Some nodes"
  shows "emit_record al view = Some (Inr r) \<longleftrightarrow>
    record_error view = None \<and> (\<forall>a \<in> set attributes. attribute_key_ok a) \<and>
    pool_ok nodes (record_roots view attributes) \<and> trace_ok view \<and> r = record_of view attributes nodes"
proof (cases "record_error view")
  case None
  then show ?thesis
    using convert_record_iff [OF assms(1) record_error_severity] assms(2,3) by (simp add: emit_record_def)
qed (simp add: emit_record_def)

text \<open>
  A plain record and its correlated copy.
\<close>

lemma record_error_correlate [simp]: "record_error (correlate c view) = record_error view"
proof -
  have "(lr_present_fields view OR OTEL_LOG_FIELD_TRACE_CONTEXT) AND NOT OTEL_LOG_FIELD_KNOWN_MASK =
      lr_present_fields view AND NOT OTEL_LOG_FIELD_KNOWN_MASK"
    by (simp add: bit.conj_disj_distrib2 OTEL_LOG_FIELD_TRACE_CONTEXT_def)
  then show ?thesis by (simp add: record_error_def correlate_def)
qed

lemma correlate_roots [simp]: "record_roots (correlate c view) attributes = record_roots view attributes"
  by (simp add: record_roots_def present_body_def correlate_def)

lemma correlate_record:
  assumes "lr_present_fields view AND OTEL_LOG_FIELD_TRACE_CONTEXT = 0"
  shows "(record_of (correlate c view) attributes nodes)\<lparr>sr_trace_context := t\<rparr> =
    (record_of view attributes nodes)\<lparr>sr_trace_context := t\<rparr>"
  by (simp add: record_of_def when_present_def correlate_def present_body_def bit.conj_disj_distrib2
      OTEL_LOG_FIELD_TIMESTAMP_def OTEL_LOG_FIELD_OBSERVED_TIMESTAMP_def OTEL_LOG_FIELD_TRACE_CONTEXT_def)

lemma correlate_trace_context:
  assumes "span_context_ok c"
  shows "record_trace_context (correlate c view) =
    (if sc_trace_flags c AND NOT OTEL_LOG_TRACE_FLAGS_SUPPORTED_MASK = 0
     then Inr (Some (sc_trace_id c, sc_span_id c, sc_trace_flags c))
     else Inl (abi_error_new St_InvalidConfig
       ''log record trace context uses trace flags unknown to this library version''))"
  using assms
  by (simp add: record_trace_context_def Let_def correlate_def span_context_ok_def bit.conj_disj_distrib2
      OTEL_LOG_FIELD_TRACE_CONTEXT_def zero_bytes_def)

text \<open>
  C23: Correlation meets the SDK's check of the trace flags. A record that the SDK emits without trace
  context is emitted, after the API has correlated it with a live span context, as the same record
  with this context, if the context has no trace flag besides sampled and random; otherwise the
  whole record is refused as an invalid configuration.
\<close>

theorem correlated_record_emitted:
  assumes "\<forall>n. al n" and "span_context_ok c" and "lr_present_fields view AND OTEL_LOG_FIELD_TRACE_CONTEXT = 0"
    and "emit_record al view = Some (Inr r)"
  shows "emit_record al (correlate c view) =
    Some (if sc_trace_flags c AND NOT OTEL_LOG_TRACE_FLAGS_SUPPORTED_MASK = 0
          then Inr (r\<lparr>sr_trace_context := Some (sc_trace_id c, sc_span_id c, sc_trace_flags c)\<rparr>)
          else Inl (abi_error_new St_InvalidConfig
            ''log record trace context uses trace flags unknown to this library version''))"
proof -
  have err: "record_error view = None" using assms(4) by (simp add: emit_record_def split: option.splits)
  obtain attributes nodes where a: "read_nodes (lr_attributes view) (lr_attribute_count view) = Some attributes"
      "read_nodes (lr_value_nodes view) (lr_value_node_count view) = Some nodes"
    using assms(4) by (auto simp: emit_record_def split: option.splits)
  have ok: "\<forall>a \<in> set attributes. attribute_key_ok a" "pool_ok nodes (record_roots view attributes)"
      "r = record_of view attributes nodes"
    using emit_accepts_parts [OF assms(1) a assms(4)] by simp_all
  have c: "lr_severity_number (correlate c view) = lr_severity_number view"
      "lr_attributes (correlate c view) = lr_attributes view" "lr_attribute_count (correlate c view) = lr_attribute_count view"
      "lr_value_nodes (correlate c view) = lr_value_nodes view" "lr_value_node_count (correlate c view) = lr_value_node_count view"
    by (simp_all add: correlate_def)
  have "convert_record al attributes nodes (correlate c view) =
      bind (record_trace_context (correlate c view)) (\<lambda>t. Inr (r\<lparr>sr_trace_context := t\<rparr>))"
    using convert_record_total [OF assms(1), of "correlate c view" attributes nodes] record_error_severity [OF err] ok
    by (simp add: c correlate_record [OF assms(3)])
  then show ?thesis
    by (simp add: emit_record_def err a c correlate_trace_context [OF assms(2)])
qed

text \<open>
  C10: Validation decides which values are forests. Whatever the allocator does, a pool that
  validation accepts, with its roots, satisfies \<open>pool_ok\<close>: values are well formed, children lie at
  greater indices, every node is the child of exactly one container or root, map keys are distinct,
  and no root is nested more than sixteen levels deep. Conversely, for such a pool validation
  returns the depth of every subtree, unless an allocation failed, and then it is an internal error.
\<close>

theorem validation_decides_forests:
  assumes "info = fresh_info (length nodes)"
  shows "((\<exists>info'. validate al nodes roots info = Inr info') \<longrightarrow> pool_ok nodes roots) \<and>
    (pool_ok nodes roots \<longrightarrow> expected al (validate al nodes roots info) (validated nodes roots))"
  unfolding assms using validate_decides_pool_ok by blast

section \<open>A concrete record\<close>

definition scalar_value :: "u32 \<Rightarrow> i64 \<Rightarrow> otel_log_value" where
  "scalar_value tag n =
     \<lparr>lval_value_type = tag, lval_reserved = 0, lval_string = sv_empty, lval_bool = 1, lval_int64 = n, lval_double = 0,
      lval_bytes = lb_empty, lval_children = \<lparr>rg_first = 0, rg_count = 0\<rparr>\<rparr>"

definition sample_pool :: "otel_log_value_node list" where
  "sample_pool = [\<lparr>nd_key = sv_of [107], nd_value = scalar_value 3 5\<rparr>]"

definition sample_attributes :: "otel_log_value_node list" where
  "sample_attributes = [\<lparr>nd_key = sv_of [97], nd_value = scalar_value 2 0\<rparr>]"

definition sample_view :: otel_log_record_view where
  "sample_view =
     \<lparr>lr_struct_size = 160, lr_present_fields = 1, lr_timestamp_unix_nanos = 9, lr_observed_timestamp_unix_nanos = 0,
      lr_severity_number = 9, lr_reserved_flags = 0,
      lr_body = (scalar_value 7 0)\<lparr>lval_children := \<lparr>rg_first = 0, rg_count = 1\<rparr>\<rparr>,
      lr_attributes = Some sample_attributes, lr_attribute_count = 1,
      lr_value_nodes = Some sample_pool, lr_value_node_count = 1,
      lr_trace_context = \<lparr>ltc_trace_id = zero_bytes 16, ltc_span_id = zero_bytes 8, ltc_trace_flags = 0,
                          ltc_reserved = zero_bytes 7\<rparr>,
      lr_reserved = [0, 0]\<rparr>"

lemma sample_keys [simp]: "sv_as_str (sv_of [107]) = Inr [107]" "sv_as_str (sv_of [97]) = Inr [97]"
  "sv_as_str sv_empty = Inr []"
proof -
  have "valid_utf8 [107]" "valid_utf8 [97]" by code_simp+
  then show "sv_as_str (sv_of [107]) = Inr [107]" "sv_as_str (sv_of [97]) = Inr [97]"
    by (auto intro!: sv_as_str_sv_of simp: isize_max_def)
  show "sv_as_str sv_empty = Inr []" by (simp add: sv_as_str_def sv_as_bytes_def sv_empty_def)
qed

lemma sample_reads:
  "read_nodes (lr_attributes sample_view) (lr_attribute_count sample_view) = Some sample_attributes"
  "read_nodes (lr_value_nodes sample_view) (lr_value_node_count sample_view) = Some sample_pool"
  by (simp_all add: sample_view_def read_nodes_def sample_attributes_def sample_pool_def)

lemma sample_kids:
  "kids (scalar_value 3 5) = []" "kids (scalar_value 2 0) = []"
  "kids ((scalar_value 7 0)\<lparr>lval_children := \<lparr>rg_first = 0, rg_count = 1\<rparr>\<rparr>) = [0]"
  by (simp_all add: kids_def is_container_def scalar_value_def log_value_type_from_u32_def child_range_def)

lemma sample_pool_ok: "pool_ok sample_pool (record_roots sample_view sample_attributes)"
proof -
  have tags: "tag_of (scalar_value 3 5) = Some LT_Int64" "tag_of (scalar_value 2 0) = Some LT_Bool"
    "tag_of ((scalar_value 7 0)\<lparr>lval_children := \<lparr>rg_first = 0, rg_count = 1\<rparr>\<rparr>) = Some LT_Map"
    by (simp_all add: tag_of_def scalar_value_def log_value_type_from_u32_def)
  have roots: "record_roots sample_view sample_attributes =
      [(scalar_value 7 0)\<lparr>lval_children := \<lparr>rg_first = 0, rg_count = 1\<rparr>\<rparr>, scalar_value 2 0]"
    by (simp add: record_roots_def present_body_def sample_view_def sample_attributes_def scalar_value_def)
  have nodes: "node_values sample_pool = [scalar_value 3 5]" "length sample_pool = 1" "nd_value (sample_pool ! 0) = scalar_value 3 5"
    by (simp_all add: node_values_def sample_pool_def)
  have ok: "value_ok v \<and> keys_ok sample_pool v"
    if "v \<in> {scalar_value 3 5, (scalar_value 7 0)\<lparr>lval_children := \<lparr>rg_first = 0, rg_count = 1\<rparr>\<rparr>, scalar_value 2 0}" for v
    using that
    by (auto simp: value_ok_def keys_ok_def tags sample_kids key_at_def sample_pool_def OTEL_LOG_MAX_MAP_ENTRIES_def
        OTEL_LOG_MAX_STRING_LEN_def intro!: exI [of _ "[[107]]"]) (simp_all add: scalar_value_def)
  have "height (value_tree sample_pool 0 ((scalar_value 7 0)\<lparr>lval_children := \<lparr>rg_first = 0, rg_count = 1\<rparr>\<rparr>)) = 2"
    "height (value_tree sample_pool 0 (scalar_value 2 0)) = 1"
    by (simp_all add: value_tree.simps [of sample_pool] assemble_def tags sample_kids nodes)
  then show ?thesis
    using ok by (simp add: pool_ok_def roots nodes sample_kids OTEL_LOG_MAX_VALUE_DEPTH_def lessThan_Suc)
qed

lemma sample_view_ok: "record_error sample_view = None" "trace_ok sample_view" "\<forall>a \<in> set sample_attributes. attribute_key_ok a"
  by (simp_all add: record_error_def trace_ok_def sample_view_def scalar_value_def log_severity_is_valid_def
      OTEL_LOG_SEVERITY_MAX_def OTEL_LOG_MAX_ATTRIBUTES_def OTEL_LOG_MAX_VALUE_NODES_def OTEL_LOG_FIELD_TRACE_CONTEXT_def
      sample_attributes_def attribute_key_ok_def OTEL_LOG_MAX_STRING_LEN_def)

theorem emit_accepts_iff_witness:
  "emit_record (\<lambda>_. True) sample_view = Some (Inr (record_of sample_view sample_attributes sample_pool))"
  by (subst emit_accepts_iff [OF _ sample_reads]) (simp_all add: sample_view_ok sample_pool_ok)

theorem validation_decides_forests_witness:
  "validate (\<lambda>_. True) sample_pool (record_roots sample_view sample_attributes) (fresh_info 1) =
     Inr (validated sample_pool (record_roots sample_view sample_attributes))"
  using validation_decides_forests [of "fresh_info 1" sample_pool "\<lambda>_. True" "record_roots sample_view sample_attributes"] sample_pool_ok
  by (simp add: sample_pool_def expected_def)

definition sample_span_context :: span_context_data where
  "sample_span_context =
     \<lparr>sc_trace_id = replicate 16 1, sc_span_id = replicate 8 1, sc_trace_flags = 5, sc_is_remote = True, sc_trace_state = []\<rparr>"

theorem correlated_record_emitted_witness:
  "emit_record (\<lambda>_. True) (correlate sample_span_context sample_view) =
     Some (Inl (abi_error_new St_InvalidConfig ''log record trace context uses trace flags unknown to this library version''))"
proof -
  have c: "span_context_ok sample_span_context" by code_simp
  have v: "lr_present_fields sample_view AND OTEL_LOG_FIELD_TRACE_CONTEXT = 0"
    by (simp add: sample_view_def OTEL_LOG_FIELD_TRACE_CONTEXT_def)
  have e: "emit_record (\<lambda>_. True) sample_view = Some (Inr (record_of sample_view sample_attributes sample_pool))"
    unfolding emit_record_def sample_reads sample_view_ok(1) option.case prod.case
    by (simp add: convert_record_iff [OF _ record_error_severity [OF sample_view_ok(1)]] sample_view_ok sample_pool_ok)
  show ?thesis
    using correlated_record_emitted [OF _ c v e] by (simp add: sample_span_context_def)
qed

end
