(* ===== verification/Sdk_Attributes.thy ===== *)
theory Sdk_Attributes
  imports Scope_Attributes
begin

text \<open>
  Attributes and instrumentation scopes in the SDK (\<open>sdk/src/vtable.rs\<close>; the provider entry points
  of \<open>sdk/src/vtable.rs\<close>, \<open>sdk/src/logs_vtable.rs\<close> and \<open>sdk/src/metrics_vtable.rs\<close>). A conversion
  yields the error that is recorded with \<open>fail\<close>, or the owned value; the outer \<open>None\<close> is a read beyond
  the caller's array. The SDK repeats the checks of the API, because any client can drive its vtable;
  the facts below show that both libraries accept the same scopes.
\<close>

section \<open>Sequencing\<close>

definition attempt :: "('e + 'a) option \<Rightarrow> ('a \<Rightarrow> ('e + 'b) option) \<Rightarrow> ('e + 'b) option" where
  "attempt r f =
     (case r of
        None \<Rightarrow> None
      | Some (Inl e) \<Rightarrow> Some (Inl e)
      | Some (Inr x) \<Rightarrow> f x)"

lemma attempt_simps [simp]:
  "attempt None f = None" "attempt (Some (Inl e)) f = Some (Inl e)" "attempt (Some (Inr x)) f = f x"
  by (simp_all add: attempt_def)

lemma attempt_Inr_iff:
  "attempt r f = Some (Inr y) \<longleftrightarrow> (\<exists>x. r = Some (Inr x) \<and> f x = Some (Inr y))"
  by (auto simp: attempt_def split: option.splits sum.splits)

lemma attempt_defined: "r \<noteq> None \<Longrightarrow> (\<And>x. f x \<noteq> None) \<Longrightarrow> attempt r f \<noteq> None"
  by (auto simp: attempt_def split: option.splits sum.splits)

section \<open>Attributes\<close>

definition MAX_ATTRIBUTES :: nat where "MAX_ATTRIBUTES = 1048576"

datatype sdk_value = V_String bytes | V_Bool bool | V_I64 i64 | V_F64 u64

record sdk_key_value =
  skv_key :: bytes
  skv_value :: sdk_value

definition to_key_value :: "(nat \<Rightarrow> bool) \<Rightarrow> otel_key_value \<Rightarrow> abi_error + sdk_key_value" where
  "to_key_value al kv =
     (case to_string_strict al (kv_key kv) of
        Inl e \<Rightarrow> Inl e
      | Inr key \<Rightarrow>
          if key = [] then Inl (abi_error_new St_InvalidArgument ''attribute key must not be empty'')
          else
            (case attribute_type_from_u32 (kv_value_type kv) of
               None \<Rightarrow> Inl (abi_error_new St_InvalidArgument ''attribute value_type is not a valid OtelAttributeType tag'')
             | Some AT_String \<Rightarrow>
                 (case to_string_strict al (kv_string kv) of
                    Inl e \<Rightarrow> Inl e
                  | Inr s \<Rightarrow> Inr \<lparr>skv_key = key, skv_value = V_String s\<rparr>)
             | Some AT_Bool \<Rightarrow> Inr \<lparr>skv_key = key, skv_value = V_Bool (kv_bool kv \<noteq> 0)\<rparr>
             | Some AT_Int64 \<Rightarrow> Inr \<lparr>skv_key = key, skv_value = V_I64 (kv_int64 kv)\<rparr>
             | Some AT_Double \<Rightarrow> Inr \<lparr>skv_key = key, skv_value = V_F64 (kv_double kv)\<rparr>))"

fun to_key_values :: "(nat \<Rightarrow> bool) \<Rightarrow> otel_key_value list \<Rightarrow> abi_error + sdk_key_value list" where
  "to_key_values al [] = Inr []"
| "to_key_values al (kv # kvs) =
     (case to_key_value al kv of
        Inl e \<Rightarrow> Inl e
      | Inr x \<Rightarrow> (case to_key_values al kvs of Inl e \<Rightarrow> Inl e | Inr xs \<Rightarrow> Inr (x # xs)))"

definition collect_key_values ::
  "(nat \<Rightarrow> bool) \<Rightarrow> otel_key_value list option \<Rightarrow> usize \<Rightarrow> (abi_error + sdk_key_value list) option" where
  "collect_key_values al attributes count =
     (if count = 0 then Some (Inr [])
      else
        (case attributes of
           None \<Rightarrow> Some (Inl (abi_error_new St_InvalidArgument ''attribute array is NULL with non-zero count''))
         | Some xs \<Rightarrow>
             if MAX_ATTRIBUTES < unat count then
               Some (Inl (abi_error_new St_InvalidArgument ''attribute count exceeds the maximum supported value''))
             else if isize_max < unat count * KEY_VALUE_SIZE then
               Some (Inl (abi_error_new St_InvalidArgument ''attribute array exceeds the maximum supported size''))
             else if \<not> al (unat count) then
               Some (Inl (abi_error_new St_InternalError ''failed to allocate space for attributes''))
             else if length xs < unat count then None
             else Some (to_key_values al (take (unat count) xs))))"

fun insert_keys :: "bytes set \<Rightarrow> sdk_key_value list \<Rightarrow> bool" where
  "insert_keys keys [] = True"
| "insert_keys keys (v # vs) = (skv_key v \<notin> keys \<and> insert_keys (insert (skv_key v) keys) vs)"

definition collect_unique_key_values ::
  "(nat \<Rightarrow> bool) \<Rightarrow> otel_key_value list option \<Rightarrow> usize \<Rightarrow> (abi_error + sdk_key_value list) option" where
  "collect_unique_key_values al attributes count =
     attempt (collect_key_values al attributes count) (\<lambda>values.
       Some (if \<not> al (length values)
             then Inl (abi_error_new St_InternalError ''failed to allocate scope attribute validation state'')
             else if \<not> insert_keys {} values
             then Inl (abi_error_new St_InvalidArgument ''duplicate scope attribute key'')
             else Inr values))"

section \<open>Instrumentation scopes\<close>

record instrumentation_scope =
  isc_name :: bytes
  isc_version :: "bytes option"
  isc_schema_url :: "bytes option"
  isc_attributes :: "sdk_key_value list"

definition scope_text :: "(nat \<Rightarrow> bool) \<Rightarrow> otel_string_view \<Rightarrow> (abi_error + bytes option) option" where
  "scope_text al v =
     (case to_string_strict al v of
        Inl e \<Rightarrow> Some (Inl e)
      | Inr s \<Rightarrow> Some (Inr (if s = [] then None else Some s)))"

definition build_scope :: "(nat \<Rightarrow> bool) \<Rightarrow> otel_scope_config \<Rightarrow> (abi_error + instrumentation_scope) option" where
  "build_scope al scope =
     attempt (Some (to_string_strict al (scp_name scope))) (\<lambda>name.
     attempt (scope_text al (scp_version scope)) (\<lambda>version.
     attempt (scope_text al (scp_schema_url scope)) (\<lambda>schema_url.
     attempt (collect_unique_key_values al (scp_attributes scope) (scp_attribute_count scope)) (\<lambda>attributes.
       Some (Inr \<lparr>isc_name = name, isc_version = version, isc_schema_url = schema_url, isc_attributes = attributes\<rparr>)))))"

text \<open>
  The provider entry points. \<open>Inl None\<close> is NULL without a diagnostic; on success the SDK crate's
  provider creates the object for the scope.
\<close>

definition reported :: "(abi_error + 'a) option \<Rightarrow> (abi_error option + 'a) option" where
  "reported r = map_option (map_sum Some id) r"

definition sdk_get_tracer ::
  "(nat \<Rightarrow> bool) \<Rightarrow> ptr \<Rightarrow> otel_string_view \<Rightarrow> otel_string_view \<Rightarrow> otel_string_view
     \<Rightarrow> (abi_error option + instrumentation_scope) option" where
  "sdk_get_tracer al ctx name version schema_url =
     (if ctx = None then Some (Inl None)
      else reported
        (attempt (Some (to_string_strict al name)) (\<lambda>n.
         attempt (scope_text al version) (\<lambda>v.
         attempt (scope_text al schema_url) (\<lambda>u.
           Some (Inr \<lparr>isc_name = n, isc_version = v, isc_schema_url = u, isc_attributes = []\<rparr>))))))"

definition sdk_get_logger ::
  "(nat \<Rightarrow> bool) \<Rightarrow> ptr \<Rightarrow> otel_scope_config option \<Rightarrow> (abi_error option + instrumentation_scope) option" where
  "sdk_get_logger al provider_ctx scope =
     reported
       (case scope of
          None \<Rightarrow> Some (Inl (abi_error_new St_InvalidArgument ''logs scope configuration is NULL''))
        | Some sc \<Rightarrow>
            if provider_ctx = None then Some (Inl (abi_error_new St_InvalidArgument ''logs provider context is NULL''))
            else build_scope al sc)"

definition build_meter :: "(nat \<Rightarrow> bool) \<Rightarrow> ptr \<Rightarrow> otel_scope_config \<Rightarrow> (abi_error option + instrumentation_scope) option" where
  "build_meter al ctx scope = (if ctx = None then Some (Inl None) else reported (build_scope al scope))"

definition sdk_get_meter ::
  "(nat \<Rightarrow> bool) \<Rightarrow> ptr \<Rightarrow> otel_string_view \<Rightarrow> otel_string_view \<Rightarrow> otel_string_view
     \<Rightarrow> (abi_error option + instrumentation_scope) option" where
  "sdk_get_meter al ctx name version schema_url =
     build_meter al ctx
       \<lparr>scp_name = name, scp_version = version, scp_schema_url = schema_url, scp_attributes = None, scp_attribute_count = 0\<rparr>"

definition sdk_get_meter_with_scope ::
  "(nat \<Rightarrow> bool) \<Rightarrow> ptr \<Rightarrow> otel_scope_config option \<Rightarrow> (abi_error option + instrumentation_scope) option" where
  "sdk_get_meter_with_scope al ctx scope =
     (case scope of
        None \<Rightarrow> Some (Inl (Some (abi_error_new St_InvalidArgument ''metric scope config must not be NULL'')))
      | Some sc \<Rightarrow> build_meter al ctx sc)"

section \<open>Both libraries accept the same scopes\<close>

text \<open>What an attribute denotes.\<close>

definition value_of_attribute :: "otel_key_value \<Rightarrow> sdk_value" where
  "value_of_attribute a =
     (case attribute_type_from_u32 (kv_value_type a) of
        Some AT_String \<Rightarrow> V_String (projr (sv_as_str (kv_string a)))
      | Some AT_Int64 \<Rightarrow> V_I64 (kv_int64 a)
      | Some AT_Double \<Rightarrow> V_F64 (kv_double a)
      | _ \<Rightarrow> V_Bool (kv_bool a \<noteq> 0))"

definition key_value_of :: "otel_key_value \<Rightarrow> sdk_key_value" where
  "key_value_of a = \<lparr>skv_key = attribute_key a, skv_value = value_of_attribute a\<rparr>"

lemma to_string_strict_total: "\<forall>n. al n \<Longrightarrow> to_string_strict al v = sv_as_str v"
  by (simp add: to_string_strict_def try_owned_string_def push_str_fallible_def split: sum.splits)

lemma to_key_value_iff:
  assumes "\<forall>n. al n"
  shows "to_key_value al a = Inr kv \<longleftrightarrow> attribute_ok a \<and> kv = key_value_of a"
  unfolding to_key_value_def to_string_strict_total [OF assms]
  by (auto simp: attribute_ok_def attribute_key_def key_value_of_def value_of_attribute_def
      split: sum.splits option.splits otel_attribute_type.splits)

lemma to_key_values_iff:
  assumes "\<forall>n. al n"
  shows "to_key_values al as = Inr kvs \<longleftrightarrow> (\<forall>a \<in> set as. attribute_ok a) \<and> kvs = map key_value_of as"
proof (induction as arbitrary: kvs)
  case (Cons a as)
  have "to_key_values al (a # as) = Inr kvs \<longleftrightarrow>
      (\<exists>x xs. to_key_value al a = Inr x \<and> to_key_values al as = Inr xs \<and> kvs = x # xs)"
    by (auto split: sum.splits)
  then show ?case unfolding to_key_value_iff [OF assms] Cons by auto
qed auto

lemma collect_key_values_iff:
  assumes "\<forall>n. al n" and "\<forall>xs. attributes = Some xs \<longrightarrow> unat count \<le> length xs"
  shows "collect_key_values al attributes count = Some (Inr kvs) \<longleftrightarrow>
     (count = 0 \<and> kvs = [] \<or>
      count \<noteq> 0 \<and> (\<exists>xs. attributes = Some xs \<and> unat count \<le> MAX_ATTRIBUTES \<and>
        (\<forall>a \<in> set (take (unat count) xs). attribute_ok a) \<and> kvs = map key_value_of (take (unat count) xs)))"
proof (cases attributes)
  case (Some xs)
  have "\<not> isize_max < unat count * KEY_VALUE_SIZE" if "unat count \<le> 1048576"
    using mult_le_mono1 [OF that, of 40] by (simp add: isize_max_def KEY_VALUE_SIZE_def)
  with Some assms show ?thesis
    by (auto simp: collect_key_values_def MAX_ATTRIBUTES_def to_key_values_iff not_less)
qed (auto simp: collect_key_values_def)

lemma insert_keys_iff: "insert_keys keys vs \<longleftrightarrow> distinct (map skv_key vs) \<and> set (map skv_key vs) \<inter> keys = {}"
  by (induction vs arbitrary: keys) auto

lemma skv_key_of [simp]: "skv_key (key_value_of a) = attribute_key a"
  by (simp add: key_value_of_def)

text \<open>
  The API and the SDK agree on scope attributes. For a readable array and a working allocator the
  SDK accepts scope attributes if and only if the API's validation passes, and it then owns exactly
  the attributes that were passed, in their order: no scope that the API accepts fails in the SDK.
\<close>

theorem scope_attribute_checks_agree:
  assumes "\<forall>n. al n" and "\<forall>xs. attributes = Some xs \<longrightarrow> unat count \<le> length xs"
  shows "collect_unique_key_values al attributes count = Some (Inr kvs) \<longleftrightarrow>
     validate_scope_attributes al attributes count = Some None \<and>
     kvs = (if count = 0 then [] else map key_value_of (take (unat count) (the attributes)))"
proof (cases attributes)
  case None
  then show ?thesis
    by (auto simp: collect_unique_key_values_def collect_key_values_def validate_scope_attributes_def assms(1))
next
  case (Some xs)
  have size: "\<not> isize_max < unat count * KEY_VALUE_SIZE" if "unat count \<le> 1048576"
    using mult_le_mono1 [OF that, of 40] by (simp add: isize_max_def KEY_VALUE_SIZE_def)
  have v: "validate_scope_attributes al attributes count = Some None \<longleftrightarrow>
      count = 0 \<or> unat count \<le> 1048576 \<and> (\<forall>a \<in> set (take (unat count) xs). attribute_ok a) \<and>
        distinct (map attribute_key (take (unat count) xs))"
    using assms size Some
    by (auto simp: validate_scope_attributes_def MAX_SCOPE_ATTRIBUTES_def scope_attributes_loop_iff not_less)
  show ?thesis
    unfolding collect_unique_key_values_def attempt_Inr_iff collect_key_values_iff [OF assms] v
    using Some assms(1) by (auto simp: insert_keys_iff comp_def MAX_ATTRIBUTES_def)
qed

text \<open>
  A scope that the API's checks accept is built by the SDK. If the name, the version and the
  schema URL are valid texts and the attributes pass the API's validation, then getting a logger or
  a meter from a live SDK provider context succeeds, and the scope has the given name, the version and
  schema URL unless they are empty, and the given attributes.
\<close>

theorem validated_scope_is_built:
  assumes "\<forall>n. al n" and "\<forall>xs. scp_attributes sc = Some xs \<longrightarrow> unat (scp_attribute_count sc) \<le> length xs"
    and "sv_as_str (scp_name sc) = Inr n" and "sv_as_str (scp_version sc) = Inr v" and "sv_as_str (scp_schema_url sc) = Inr u"
    and "validate_scope_attributes al (scp_attributes sc) (scp_attribute_count sc) = Some None"
  shows "\<exists>is. sdk_get_logger al (Some p) (Some sc) = Some (Inr is) \<and> sdk_get_meter_with_scope al (Some p) (Some sc) = Some (Inr is) \<and>
     isc_name is = n \<and> isc_version is = (if v = [] then None else Some v) \<and>
     isc_schema_url is = (if u = [] then None else Some u) \<and>
     isc_attributes is = (if scp_attribute_count sc = 0 then []
       else map key_value_of (take (unat (scp_attribute_count sc)) (the (scp_attributes sc))))"
proof -
  let ?kvs = "if scp_attribute_count sc = 0 then []
    else map key_value_of (take (unat (scp_attribute_count sc)) (the (scp_attributes sc)))"
  have "collect_unique_key_values al (scp_attributes sc) (scp_attribute_count sc) = Some (Inr ?kvs)"
    using scope_attribute_checks_agree [OF assms(1,2)] assms(6) by blast
  then have "build_scope al sc = Some (Inr \<lparr>isc_name = n, isc_version = if v = [] then None else Some v,
      isc_schema_url = if u = [] then None else Some u, isc_attributes = ?kvs\<rparr>)"
    using assms(3-5) by (simp add: build_scope_def scope_text_def to_string_strict_total [OF assms(1)])
  then show ?thesis
    by (simp add: sdk_get_logger_def sdk_get_meter_with_scope_def build_meter_def reported_def)
qed

lemma sample_attribute_accepted:
  "validate_scope_attributes (\<lambda>_. True) (Some [sample_attribute]) 1 = Some None"
proof -
  have k: "attribute_key sample_attribute = [0x6B]"
    using sv_as_str_sv_of [of "[0x6B]"] valid_utf8_ascii [of "[0x6B]"]
    by (simp add: attribute_key_def sample_attribute_def isize_max_def)
  have "attribute_ok sample_attribute"
    by (simp add: attribute_ok_def k) (simp add: sample_attribute_def attribute_type_from_u32_def)
  then show ?thesis
    unfolding validate_scope_attributes_def
    by (simp add: MAX_SCOPE_ATTRIBUTES_def KEY_VALUE_SIZE_def isize_max_def scope_attributes_loop_iff del: scope_attributes_loop.simps)
qed

theorem scope_attribute_checks_agree_witness:
  "collect_unique_key_values (\<lambda>_. True) (Some [sample_attribute]) 1 = Some (Inr [key_value_of sample_attribute])"
  by (subst scope_attribute_checks_agree) (simp_all add: sample_attribute_accepted)

definition sample_scope_config :: otel_scope_config where
  "sample_scope_config =
     \<lparr>scp_name = sv_of [0x61], scp_version = sv_empty, scp_schema_url = sv_empty,
      scp_attributes = Some [sample_attribute], scp_attribute_count = 1\<rparr>"

theorem validated_scope_is_built_witness:
  "\<exists>is. sdk_get_logger (\<lambda>_. True) (Some 5) (Some sample_scope_config) = Some (Inr is) \<and> isc_name is = [0x61] \<and>
     isc_version is = None \<and> isc_attributes is = [key_value_of sample_attribute]"
proof -
  have "sv_as_str (sv_of [0x61]) = Inr [0x61]" by (rule sv_as_str_sv_of) (auto intro: valid_utf8_ascii simp: isize_max_def)
  moreover have "sv_as_str sv_empty = Inr []" by (simp add: sv_as_str_def sv_as_bytes_def sv_empty_def)
  ultimately show ?thesis
    using validated_scope_is_built [of "\<lambda>_. True" sample_scope_config "[0x61]" "[]" "[]" 5]
    by (simp add: sample_scope_config_def sample_attribute_accepted) blast
qed

end
