(* ===== verification/Sdk_Metrics.thy ===== *)
theory Sdk_Metrics
  imports Sdk_Attributes Observable_Api
begin

text \<open>
  The SDK side of the metrics vtable (\<open>sdk/src/metrics_vtable.rs\<close>): creation of instruments from a
  borrowed configuration, with the ownership of the callback state that comes with it, and
  measurements. The instruments and the pipeline that runs callbacks belong to the SDK crate; a
  created instrument is the data its builder was given, and a callback that is handed to the meter
  is part of the result. An \<open>f64\<close> is its bit pattern.
\<close>

section \<open>Instruments\<close>

record built_instrument =
  bi_name :: bytes
  bi_description :: "bytes option"
  bi_unit :: "bytes option"
  bi_boundaries :: "u64 list option"

datatype sdk_metric_instrument =
    Sdk_CounterU64 built_instrument | Sdk_CounterF64 built_instrument
  | Sdk_UpDownCounterI64 built_instrument | Sdk_UpDownCounterF64 built_instrument
  | Sdk_GaugeU64 built_instrument | Sdk_GaugeI64 built_instrument | Sdk_GaugeF64 built_instrument
  | Sdk_HistogramU64 built_instrument | Sdk_HistogramF64 built_instrument
  | Sdk_Observable

text \<open>A callback that the meter owns, with the leased callback state.\<close>

record sdk_callback =
  scb_kind :: otel_metric_instrument_kind
  scb_number :: otel_metric_number_kind
  scb_instrument :: built_instrument
  scb_callback :: otel_metric_number_kind
  scb_state :: nat

section \<open>Creation\<close>

definition callback_lease :: "otel_metric_instrument_config \<Rightarrow> abi_error + nat option" where
  "callback_lease config =
     (if mic_callback_state config = None \<and> \<not> mic_callback_state_free config then Inr None
      else if \<not> mic_callback_state_free config
      then Inl (abi_error_new St_InvalidArgument ''observable callback state release function is NULL'')
      else if mic_callback_state config = None
      then Inl (abi_error_new St_InvalidArgument ''observable callback state is NULL'')
      else Inr (mic_callback_state config))"

definition observable_parts ::
  "otel_metric_instrument_config \<Rightarrow> nat option \<Rightarrow> abi_error + otel_metric_number_kind \<times> nat" where
  "observable_parts config lease =
     (case mic_callback config of
        None \<Rightarrow> Inl (abi_error_new St_InvalidArgument ''observable callback is NULL'')
      | Some callback \<Rightarrow>
          (case lease of
             None \<Rightarrow> Inl (abi_error_new St_InvalidArgument ''observable callback state is missing'')
           | Some st \<Rightarrow> Inr (callback, st)))"

definition configure_sync_builder :: "bytes \<Rightarrow> bytes \<Rightarrow> bytes \<Rightarrow> built_instrument" where
  "configure_sync_builder name description unit =
     \<lparr>bi_name = name, bi_description = (if description = [] then None else Some description),
      bi_unit = (if unit = [] then None else Some unit), bi_boundaries = None\<rparr>"

definition configure_histogram_builder :: "bytes \<Rightarrow> bytes \<Rightarrow> bytes \<Rightarrow> u64 list option \<Rightarrow> built_instrument" where
  "configure_histogram_builder name description unit boundaries =
     (configure_sync_builder name description unit)\<lparr>bi_boundaries := boundaries\<rparr>"

definition read_boundaries :: "otel_metric_instrument_config \<Rightarrow> (abi_error + u64 list option) option" where
  "read_boundaries config =
     (if mic_boundary_count config = 0 then Some (Inr None)
      else
        (case mic_boundaries config of
           None \<Rightarrow> Some (Inl (abi_error_new St_InvalidArgument ''histogram boundaries are NULL with non-zero count''))
         | Some xs \<Rightarrow>
             if length xs < unat (mic_boundary_count config) then None
             else Some (Inr (Some (take (unat (mic_boundary_count config)) xs)))))"

definition sync_instrument_of ::
  "otel_metric_instrument_kind \<Rightarrow> otel_metric_number_kind \<Rightarrow> bytes \<Rightarrow> bytes \<Rightarrow> bytes \<Rightarrow> u64 list option
     \<Rightarrow> sdk_metric_instrument option" where
  "sync_instrument_of ikind number name description unit boundaries =
     (let plain = configure_sync_builder name description unit;
          histogram = configure_histogram_builder name description unit boundaries in
      case (ikind, number) of
        (IK_Counter, NK_U64) \<Rightarrow> Some (Sdk_CounterU64 plain)
      | (IK_Counter, NK_F64) \<Rightarrow> Some (Sdk_CounterF64 plain)
      | (IK_UpDownCounter, NK_I64) \<Rightarrow> Some (Sdk_UpDownCounterI64 plain)
      | (IK_UpDownCounter, NK_F64) \<Rightarrow> Some (Sdk_UpDownCounterF64 plain)
      | (IK_Gauge, NK_U64) \<Rightarrow> Some (Sdk_GaugeU64 plain)
      | (IK_Gauge, NK_I64) \<Rightarrow> Some (Sdk_GaugeI64 plain)
      | (IK_Gauge, NK_F64) \<Rightarrow> Some (Sdk_GaugeF64 plain)
      | (IK_Histogram, NK_U64) \<Rightarrow> Some (Sdk_HistogramU64 histogram)
      | (IK_Histogram, NK_F64) \<Rightarrow> Some (Sdk_HistogramF64 histogram)
      | _ \<Rightarrow> None)"

definition observable_supported :: "otel_metric_instrument_kind \<Rightarrow> otel_metric_number_kind \<Rightarrow> bool" where
  "observable_supported ikind number \<longleftrightarrow>
     (ikind, number) \<in> {(IK_ObservableCounter, NK_U64), (IK_ObservableCounter, NK_F64),
        (IK_ObservableUpDownCounter, NK_I64), (IK_ObservableUpDownCounter, NK_F64),
        (IK_ObservableGauge, NK_U64), (IK_ObservableGauge, NK_I64), (IK_ObservableGauge, NK_F64)}"

definition build_instrument ::
  "otel_metric_instrument_config \<Rightarrow> nat option \<Rightarrow> otel_metric_instrument_kind \<Rightarrow> otel_metric_number_kind
     \<Rightarrow> bytes \<Rightarrow> bytes \<Rightarrow> bytes \<Rightarrow> u64 list option \<Rightarrow> abi_error + sdk_metric_instrument \<times> sdk_callback option" where
  "build_instrument config lease ikind number name description unit boundaries =
     (case sync_instrument_of ikind number name description unit boundaries of
        Some i \<Rightarrow> Inr (i, None)
      | None \<Rightarrow>
          if observable_supported ikind number then
            (case observable_parts config lease of
               Inl e \<Rightarrow> Inl e
             | Inr (callback, st) \<Rightarrow>
                 Inr (Sdk_Observable,
                   Some \<lparr>scb_kind = ikind, scb_number = number, scb_instrument = configure_sync_builder name description unit,
                         scb_callback = callback, scb_state = st\<rparr>))
          else Inl (abi_error_new St_InvalidConfig ''unsupported metric instrument kind and number combination''))"

definition create_body ::
  "(nat \<Rightarrow> bool) \<Rightarrow> ptr \<Rightarrow> otel_metric_instrument_config \<Rightarrow> nat option
     \<Rightarrow> (abi_error + sdk_metric_instrument \<times> sdk_callback option) option" where
  "create_body al meter_ctx config lease =
     (if meter_ctx = None
      then Some (Inl (abi_error_new St_InvalidArgument ''metric instrument creation received a NULL meter context''))
      else
        (case metric_instrument_kind_from_u32 (mic_kind config) of
           None \<Rightarrow> Some (Inl (abi_error_new St_InvalidArgument ''unknown metric instrument kind''))
         | Some ikind \<Rightarrow>
             (case metric_number_kind_from_u32 (mic_number config) of
                None \<Rightarrow> Some (Inl (abi_error_new St_InvalidArgument ''unknown metric number kind''))
              | Some number \<Rightarrow>
                  attempt (Some (to_string_strict al (mic_name config))) (\<lambda>name.
                  attempt (Some (to_string_strict al (mic_description config))) (\<lambda>description.
                  attempt (Some (to_string_strict al (mic_unit config))) (\<lambda>unit.
                  attempt (read_boundaries config) (\<lambda>boundaries.
                    Some (build_instrument config lease ikind number name description unit boundaries))))))))"

text \<open>The result: the instrument, what the meter has taken over, the callback states that were
  released when the lease was dropped, and the reported status.\<close>

record creation =
  cr_instrument :: "sdk_metric_instrument option"
  cr_registered :: "sdk_callback option"
  cr_released :: "nat list"
  cr_status :: otel_status
  cr_error :: "abi_error option"

definition creation_failed :: "abi_error \<Rightarrow> nat list \<Rightarrow> creation" where
  "creation_failed e released =
     \<lparr>cr_instrument = None, cr_registered = None, cr_released = released,
      cr_status = (if err_status e = St_Ok then St_InvalidConfig else err_status e), cr_error = Some e\<rparr>"

definition meter_create_instrument_with_status ::
  "(nat \<Rightarrow> bool) \<Rightarrow> ptr \<Rightarrow> otel_metric_instrument_config option \<Rightarrow> creation option" where
  "meter_create_instrument_with_status al meter_ctx config =
     (case config of
        None \<Rightarrow> Some (creation_failed (abi_error_new St_InvalidArgument ''metric instrument creation received a NULL config'') [])
      | Some c \<Rightarrow>
          (case callback_lease c of
             Inl e \<Rightarrow> Some (creation_failed e [])
           | Inr lease \<Rightarrow>
               (case create_body al meter_ctx c lease of
                  None \<Rightarrow> None
                | Some (Inl e) \<Rightarrow> Some (creation_failed e (case_option [] (\<lambda>st. [st]) lease))
                | Some (Inr (i, registered)) \<Rightarrow>
                    Some \<lparr>cr_instrument = Some i, cr_registered = registered,
                          cr_released = (if registered = None then case_option [] (\<lambda>st. [st]) lease else []),
                          cr_status = St_Ok, cr_error = None\<rparr>)))"

definition meter_create_instrument ::
  "(nat \<Rightarrow> bool) \<Rightarrow> ptr \<Rightarrow> otel_metric_instrument_config option \<Rightarrow> sdk_metric_instrument option option" where
  "meter_create_instrument al meter_ctx config = map_option cr_instrument (meter_create_instrument_with_status al meter_ctx config)"

section \<open>Measurements\<close>

fun records_number :: "otel_metric_number_kind \<Rightarrow> sdk_metric_instrument \<Rightarrow> bool" where
  "records_number NK_U64 i = (case i of Sdk_CounterU64 _ \<Rightarrow> True | Sdk_GaugeU64 _ \<Rightarrow> True | Sdk_HistogramU64 _ \<Rightarrow> True | _ \<Rightarrow> False)"
| "records_number NK_I64 i = (case i of Sdk_UpDownCounterI64 _ \<Rightarrow> True | Sdk_GaugeI64 _ \<Rightarrow> True | _ \<Rightarrow> False)"
| "records_number NK_F64 i =
     (case i of Sdk_CounterF64 _ \<Rightarrow> True | Sdk_UpDownCounterF64 _ \<Rightarrow> True | Sdk_GaugeF64 _ \<Rightarrow> True | Sdk_HistogramF64 _ \<Rightarrow> True
      | _ \<Rightarrow> False)"

text \<open>The attributes of the measurement that the instrument is given.\<close>

definition instrument_record ::
  "(nat \<Rightarrow> bool) \<Rightarrow> otel_metric_number_kind \<Rightarrow> sdk_metric_instrument option \<Rightarrow> otel_key_value list option \<Rightarrow> usize
     \<Rightarrow> (abi_error + sdk_key_value list) option" where
  "instrument_record al number ctx attributes attribute_count =
     (case ctx of
        None \<Rightarrow> Some (Inl (abi_error_new St_InvalidArgument ''metric instrument context is NULL''))
      | Some i \<Rightarrow>
          attempt (collect_key_values al attributes attribute_count) (\<lambda>kvs.
            Some (if records_number number i then Inr kvs
                  else Inl (abi_error_new St_InvalidArgument ''metric operation does not match the instrument numeric type''))))"

definition observer_observe ::
  "(nat \<Rightarrow> bool) \<Rightarrow> ptr \<Rightarrow> otel_key_value list option \<Rightarrow> usize \<Rightarrow> (abi_error + sdk_key_value list) option" where
  "observer_observe al ctx attributes attribute_count =
     (if ctx = None then Some (Inl (abi_error_new St_InvalidArgument ''observer context is NULL''))
      else collect_key_values al attributes attribute_count)"

section \<open>Bound instruments\<close>

datatype sdk_bound_instrument =
    Bound_CounterU64 built_instrument "sdk_key_value list" | Bound_CounterF64 built_instrument "sdk_key_value list"
  | Bound_HistogramU64 built_instrument "sdk_key_value list" | Bound_HistogramF64 built_instrument "sdk_key_value list"

fun bind_to :: "sdk_key_value list \<Rightarrow> sdk_metric_instrument \<Rightarrow> sdk_bound_instrument option" where
  "bind_to kvs (Sdk_CounterU64 i) = Some (Bound_CounterU64 i kvs)"
| "bind_to kvs (Sdk_CounterF64 i) = Some (Bound_CounterF64 i kvs)"
| "bind_to kvs (Sdk_HistogramU64 i) = Some (Bound_HistogramU64 i kvs)"
| "bind_to kvs (Sdk_HistogramF64 i) = Some (Bound_HistogramF64 i kvs)"
| "bind_to kvs _ = None"

text \<open>\<open>out_null\<close>: whether the status pointer is NULL. The second component is what is stored through it.\<close>

definition instrument_bind ::
  "(nat \<Rightarrow> bool) \<Rightarrow> sdk_metric_instrument option \<Rightarrow> otel_key_value list option \<Rightarrow> usize \<Rightarrow> bool
     \<Rightarrow> ((abi_error + sdk_bound_instrument) \<times> otel_status option) option" where
  "instrument_bind al ctx attributes attribute_count out_null =
     (if out_null then Some (Inl (abi_error_new St_InvalidArgument ''bound instrument status pointer is NULL''), None)
      else
        (case ctx of
           None \<Rightarrow> Some (Inl (abi_error_new St_InvalidArgument ''metric instrument context is NULL''), Some St_InvalidArgument)
         | Some i \<Rightarrow>
             (case collect_key_values al attributes attribute_count of
                None \<Rightarrow> None
              | Some (Inl e) \<Rightarrow> Some (Inl e, Some (err_status e))
              | Some (Inr kvs) \<Rightarrow>
                  (case bind_to kvs i of
                     None \<Rightarrow>
                       Some (Inl (abi_error_new St_InvalidArgument ''instrument kind does not support bound instruments''),
                         Some St_InvalidArgument)
                   | Some b \<Rightarrow> Some (Inr b, Some St_Ok)))))"

fun bound_records_number :: "otel_metric_number_kind \<Rightarrow> sdk_bound_instrument \<Rightarrow> bool" where
  "bound_records_number NK_U64 b = (case b of Bound_CounterU64 _ _ \<Rightarrow> True | Bound_HistogramU64 _ _ \<Rightarrow> True | _ \<Rightarrow> False)"
| "bound_records_number NK_F64 b = (case b of Bound_CounterF64 _ _ \<Rightarrow> True | Bound_HistogramF64 _ _ \<Rightarrow> True | _ \<Rightarrow> False)"
| "bound_records_number NK_I64 b = False"

definition bound_instrument_record ::
  "otel_metric_number_kind \<Rightarrow> sdk_bound_instrument option \<Rightarrow> abi_error + unit" where
  "bound_instrument_record number ctx =
     (case ctx of
        None \<Rightarrow> Inl (abi_error_new St_InvalidArgument ''bound metric instrument context is NULL'')
      | Some b \<Rightarrow>
          if bound_records_number number b then Inr ()
          else Inl (abi_error_new St_InvalidArgument ''bound metric operation does not match the instrument numeric type''))"

section \<open>Ownership of the callback state\<close>

lemma build_instrument_registered:
  "build_instrument config lease ikind number n d u bs = Inr (i, Some cb) \<Longrightarrow> lease = Some (scb_state cb)"
  by (auto simp: build_instrument_def observable_parts_def split: option.splits if_splits)

lemma create_body_registered:
  "create_body al m config lease = Some (Inr (i, Some cb)) \<Longrightarrow> lease = Some (scb_state cb)"
  by (auto simp: create_body_def attempt_Inr_iff dest: build_instrument_registered split: if_splits option.splits)

text \<open>
  C32: The callback state that comes with an instrument configuration is released exactly once or handed
  to the meter, never both. For every configuration that carries a callback state and its release
  function, every allocator and every meter context: if an observable instrument takes the
  state over, the meter's callback owns this state and nothing has been released; otherwise (any
  failure, or an instrument that has no callback) exactly this state has been released, once. A
  failure never reports success, and a created instrument never reports failure.
\<close>

theorem callback_state_released_or_registered:
  assumes "meter_create_instrument_with_status al meter_ctx (Some c) = Some r"
    and "mic_callback_state c = Some st" and "mic_callback_state_free c"
  shows "(case cr_registered r of None \<Rightarrow> cr_released r = [st] | Some cb \<Rightarrow> scb_state cb = st \<and> cr_released r = []) \<and>
     (cr_instrument r = None \<longrightarrow> cr_registered r = None) \<and> (cr_status r = St_Ok \<longleftrightarrow> cr_instrument r \<noteq> None)"
proof -
  have lease: "callback_lease c = Inr (Some st)" using assms(2,3) by (simp add: callback_lease_def)
  show ?thesis
  proof (cases "create_body al meter_ctx c (Some st)")
    case None
    then show ?thesis using assms(1) lease by (simp add: meter_create_instrument_with_status_def)
  next
    case (Some res)
    show ?thesis
    proof (cases res)
      case (Inl e)
      then have "r = creation_failed e [st]" using assms(1) lease Some by (simp add: meter_create_instrument_with_status_def)
      then show ?thesis by (simp add: creation_failed_def)
    next
      case (Inr v)
      then obtain i reg where v: "create_body al meter_ctx c (Some st) = Some (Inr (i, reg))" using Some by (cases v) auto
      then have "r = \<lparr>cr_instrument = Some i, cr_registered = reg, cr_released = (if reg = None then [st] else []),
          cr_status = St_Ok, cr_error = None\<rparr>"
        using assms(1) lease by (cases reg) (auto simp: meter_create_instrument_with_status_def)
      then show ?thesis using create_body_registered [of al meter_ctx c "Some st" i] v by (auto split: option.splits)
    qed
  qed
qed

section \<open>What the API accepts, the SDK creates\<close>

fun instrument_type :: "sdk_metric_instrument \<Rightarrow> (otel_metric_instrument_kind \<times> otel_metric_number_kind \<times> built_instrument) option" where
  "instrument_type (Sdk_CounterU64 b) = Some (IK_Counter, NK_U64, b)"
| "instrument_type (Sdk_CounterF64 b) = Some (IK_Counter, NK_F64, b)"
| "instrument_type (Sdk_UpDownCounterI64 b) = Some (IK_UpDownCounter, NK_I64, b)"
| "instrument_type (Sdk_UpDownCounterF64 b) = Some (IK_UpDownCounter, NK_F64, b)"
| "instrument_type (Sdk_GaugeU64 b) = Some (IK_Gauge, NK_U64, b)"
| "instrument_type (Sdk_GaugeI64 b) = Some (IK_Gauge, NK_I64, b)"
| "instrument_type (Sdk_GaugeF64 b) = Some (IK_Gauge, NK_F64, b)"
| "instrument_type (Sdk_HistogramU64 b) = Some (IK_Histogram, NK_U64, b)"
| "instrument_type (Sdk_HistogramF64 b) = Some (IK_Histogram, NK_F64, b)"
| "instrument_type Sdk_Observable = None"

lemma records_number_type: "instrument_type i = Some (ikind, number, b) \<Longrightarrow> records_number n i \<longleftrightarrow> n = number"
  by (cases i; cases n) auto

definition optional_text :: "bytes \<Rightarrow> bytes option" where
  "optional_text s = (if s = [] then None else Some s)"

text \<open>What the fields of a configuration that the API accepted denote.\<close>

definition configured :: "otel_metric_instrument_config \<Rightarrow> built_instrument" where
  "configured cfg =
     \<lparr>bi_name = projr (sv_as_str (mic_name cfg)), bi_description = optional_text (projr (sv_as_str (mic_description cfg))),
      bi_unit = optional_text (projr (sv_as_str (mic_unit cfg))),
      bi_boundaries = (if mic_boundary_count cfg = 0 then None
        else Some (take (unat (mic_boundary_count cfg)) (the (mic_boundaries cfg))))\<rparr>"

lemma accepted_config_texts:
  assumes "validate_instrument_config name options h = Some (Inr cfg)"
  obtains n d u where "sv_as_str (mic_name cfg) = Inr n" "sv_as_str (mic_description cfg) = Inr d" "sv_as_str (mic_unit cfg) = Inr u"
proof -
  have e: "sv_as_str sv_empty = Inr []" by (simp add: sv_as_str_def sv_as_bytes_def sv_empty_def)
  have "(\<exists>n. sv_as_str (mic_name cfg) = Inr n) \<and> (\<exists>d. sv_as_str (mic_description cfg) = Inr d) \<and> (\<exists>u. sv_as_str (mic_unit cfg) = Inr u)"
    using assms e
    by (auto simp: validate_instrument_config_def instrument_name_error_def read_instrument_options_def
        split: option.splits sum.splits if_splits prod.splits)
  then show thesis using that by blast
qed

lemma check_boundaries_read:
  "check_boundaries h bs c = Some (Inr bs') \<Longrightarrow> (h \<longrightarrow> c = 0 \<or> (\<exists>xs. bs' = Some xs \<and> unat c \<le> length xs)) \<and> (\<not> h \<longrightarrow> c = 0)"
  by (auto simp: check_boundaries_def Let_def split: option.splits if_splits)

lemma accepted_config_boundaries:
  assumes "validate_instrument_config name options h = Some (Inr cfg)"
  shows "read_boundaries cfg = Some (Inr (bi_boundaries (configured cfg)))" "\<not> h \<Longrightarrow> mic_boundary_count cfg = 0"
proof -
  obtain d u bs c bs' where c: "check_boundaries h bs c = Some (Inr bs')" and cfg: "mic_boundaries cfg = bs'" "mic_boundary_count cfg = c"
    using assms by (auto simp: validate_instrument_config_def split: option.splits sum.splits prod.splits)
  note r = check_boundaries_read [OF c]
  show "\<not> h \<Longrightarrow> mic_boundary_count cfg = 0" using r cfg by simp
  show "read_boundaries cfg = Some (Inr (bi_boundaries (configured cfg)))"
    using r cfg by (cases h) (auto simp: read_boundaries_def configured_def)
qed

lemma kind_codes [simp]:
  "metric_instrument_kind_from_u32 (instrument_kind_code k) = Some k" "metric_number_kind_from_u32 (number_kind_code n) = Some n"
  by (cases k; simp add: metric_instrument_kind_from_u32_def) (cases n; simp add: metric_number_kind_from_u32_def)

lemma create_body_accepted:
  assumes "\<forall>n. al n" and "validate_instrument_config name options h = Some (Inr cfg)"
    and c: "mic_name c = mic_name cfg" "mic_description c = mic_description cfg" "mic_unit c = mic_unit cfg"
      "mic_boundaries c = mic_boundaries cfg" "mic_boundary_count c = mic_boundary_count cfg"
      "mic_kind c = instrument_kind_code k" "mic_number c = number_kind_code m"
  shows "create_body al (Some p) c lease = Some (build_instrument c lease k m (bi_name (configured cfg))
     (projr (sv_as_str (mic_description cfg))) (projr (sv_as_str (mic_unit cfg))) (bi_boundaries (configured cfg)))"
proof -
  obtain n d u where t: "sv_as_str (mic_name cfg) = Inr n" "sv_as_str (mic_description cfg) = Inr d" "sv_as_str (mic_unit cfg) = Inr u"
    by (rule accepted_config_texts [OF assms(2)])
  have "read_boundaries c = read_boundaries cfg" unfolding read_boundaries_def c ..
  then show ?thesis
    using t accepted_config_boundaries(1) [OF assms(2)]
    by (simp add: create_body_def c to_string_strict_total [OF assms(1)]) (simp add: configured_def)
qed

text \<open>
  Every synchronous instrument that the API accepts is created by the SDK. If the API's validation
  accepts a configuration for one of its nine instruments, then with a working allocator the SDK, given
  the request that the API sends, creates an instrument of the same kind and number type with the
  name, description, unit and boundaries of the configuration, and reports success; measurements
  of exactly that number type are accepted by it.
\<close>

theorem validated_instrument_is_created:
  assumes "\<forall>n. al n" and "sync_spec i = (k, m, h)"
    and "validate_instrument_config name options h = Some (Inr cfg)"
  shows "\<exists>r inst. meter_create_instrument_with_status al (Some p)
       (Some (cfg\<lparr>mic_kind := instrument_kind_code k, mic_number := number_kind_code m\<rparr>)) = Some r \<and>
     cr_status r = St_Ok \<and> cr_instrument r = Some inst \<and> cr_registered r = None \<and> cr_released r = [] \<and>
     instrument_type inst = Some (k, m, configured cfg) \<and> (\<forall>n. records_number n inst = (n = m))"
proof -
  let ?c = "cfg\<lparr>mic_kind := instrument_kind_code k, mic_number := number_kind_code m\<rparr>"
  have none: "mic_callback_state cfg = None" "\<not> mic_callback_state_free cfg"
    using assms(3) by (auto simp: validate_instrument_config_def split: option.splits sum.splits prod.splits)
  obtain inst where inst: "sync_instrument_of k m (bi_name (configured cfg)) (projr (sv_as_str (mic_description cfg)))
      (projr (sv_as_str (mic_unit cfg))) (bi_boundaries (configured cfg)) = Some inst"
      "instrument_type inst = Some (k, m, configured cfg)"
  proof -
    have b: "\<not> h \<Longrightarrow> bi_boundaries (configured cfg) = None"
      using accepted_config_boundaries(2) [OF assms(3)] by (simp add: configured_def)
    have "\<exists>inst. sync_instrument_of k m (bi_name (configured cfg)) (projr (sv_as_str (mic_description cfg)))
        (projr (sv_as_str (mic_unit cfg))) (bi_boundaries (configured cfg)) = Some inst \<and>
        instrument_type inst = Some (k, m, configured cfg)"
      using assms(2) b
      by (cases i) (auto simp: sync_instrument_of_def configure_sync_builder_def configure_histogram_builder_def Let_def
          configured_def optional_text_def)
    then show thesis using that by blast
  qed
  have body: "create_body al (Some p) ?c None = Some (Inr (inst, None))"
    using create_body_accepted [OF assms(1,3), of ?c k m p None] inst(1) by (simp add: build_instrument_def)
  then have "meter_create_instrument_with_status al (Some p) (Some ?c) =
      Some \<lparr>cr_instrument = Some inst, cr_registered = None, cr_released = [], cr_status = St_Ok, cr_error = None\<rparr>"
    using none by (simp add: meter_create_instrument_with_status_def callback_lease_def)
  then show ?thesis using inst(2) records_number_type by auto
qed

text \<open>
  Every observable instrument that the API accepts is created by the SDK, and its meter takes over
  the callback state: the request that the API sends for a validated configuration registers
  the API's callback with the state that was passed, releases nothing and reports success.
\<close>

theorem validated_observable_is_registered:
  assumes "\<forall>n. al n" and "observable_spec i = (k, m)"
    and "validate_instrument_config name options False = Some (Inr cfg)"
  shows "meter_create_instrument_with_status al (Some p) (Some (observable_config i a cfg)) =
     Some \<lparr>cr_instrument = Some Sdk_Observable,
           cr_registered = Some \<lparr>scb_kind = k, scb_number = m, scb_instrument = configured cfg, scb_callback = m, scb_state = a\<rparr>,
           cr_released = [], cr_status = St_Ok, cr_error = None\<rparr>"
proof -
  let ?c = "observable_config i a cfg"
  have b: "bi_boundaries (configured cfg) = None"
    using accepted_config_boundaries(2) [OF assms(3)] by (simp add: configured_def)
  have sup: "observable_supported k m" using assms(2) by (cases i) (auto simp: observable_supported_def)
  have none: "sync_instrument_of k m n d u bs = None" for n d u bs
    using assms(2) by (cases i) (auto simp: sync_instrument_of_def Let_def)
  have body: "create_body al (Some p) ?c (Some a) = Some (Inr (Sdk_Observable,
      Some \<lparr>scb_kind = k, scb_number = m, scb_instrument = configured cfg, scb_callback = m, scb_state = a\<rparr>))"
    using create_body_accepted [OF assms(1,3), of ?c k m p "Some a"] assms(2) none sup b
    by (simp add: build_instrument_def observable_config_def observable_parts_def configure_sync_builder_def)
      (simp add: configured_def optional_text_def)
  then show ?thesis
    by (simp add: meter_create_instrument_with_status_def callback_lease_def observable_config_def assms(2))
qed

section \<open>Concrete configurations\<close>

definition sample_config :: otel_metric_instrument_config where
  "sample_config =
     \<lparr>mic_kind = 0, mic_number = 0, mic_name = sv_of [0x68, 0x2E, 0x31], mic_description = sv_empty, mic_unit = sv_empty,
      mic_boundaries = None, mic_boundary_count = 0, mic_callback = None, mic_callback_state = None,
      mic_callback_state_free = False\<rparr>"

lemma sample_config_accepted:
  "validate_instrument_config (sv_of [0x68, 0x2E, 0x31]) None False = Some (Inr sample_config)"
proof -
  have "instrument_name_error (sv_of [0x68, 0x2E, 0x31]) = None" using sample_name_ok instrument_name_error_iff by blast
  then show ?thesis
    by (simp add: validate_instrument_config_def read_instrument_options_def check_boundaries_def sample_config_def)
qed

theorem callback_state_released_or_registered_witness:
  "\<exists>r. meter_create_instrument_with_status (\<lambda>_. True) None
       (Some (sample_config\<lparr>mic_callback := Some NK_U64, mic_callback_state := Some 7, mic_callback_state_free := True\<rparr>)) = Some r \<and>
     cr_status r \<noteq> St_Ok \<and> (case cr_registered r of None \<Rightarrow> cr_released r = [7] | Some cb \<Rightarrow> scb_state cb = 7)"
proof -
  let ?c = "sample_config\<lparr>mic_callback := Some NK_U64, mic_callback_state := Some 7, mic_callback_state_free := True\<rparr>"
  let ?r = "creation_failed (abi_error_new St_InvalidArgument ''metric instrument creation received a NULL meter context'') [7]"
  have run: "meter_create_instrument_with_status (\<lambda>_. True) None (Some ?c) = Some ?r"
    by (simp add: meter_create_instrument_with_status_def callback_lease_def create_body_def)
  from callback_state_released_or_registered [OF run, of 7] show ?thesis
    using run by (auto simp: creation_failed_def abi_error_new_def)
qed

theorem validated_instrument_is_created_witness:
  "\<exists>r inst. meter_create_instrument_with_status (\<lambda>_. True) (Some 3)
       (Some (sample_config\<lparr>mic_kind := 1, mic_number := 1\<rparr>)) = Some r \<and>
     cr_instrument r = Some inst \<and> records_number NK_I64 inst"
  using validated_instrument_is_created [OF _ _ sample_config_accepted, of "\<lambda>_. True" UpDownCounterI64 IK_UpDownCounter NK_I64 3]
  by (auto simp del: records_number.simps)

theorem validated_observable_is_registered_witness:
  "\<exists>r. meter_create_instrument_with_status (\<lambda>_. True) (Some 3) (Some (observable_config ObservableGaugeF64 9 sample_config)) = Some r \<and>
     map_option scb_state (cr_registered r) = Some 9 \<and> cr_status r = St_Ok"
  using validated_observable_is_registered [OF _ _ sample_config_accepted, of "\<lambda>_. True" ObservableGaugeF64 IK_ObservableGauge NK_F64 3 9]
  by simp

end
