(* ===== verification/Sdk_Objects.thy ===== *)
theory Sdk_Objects
  imports Sdk_Attributes "HOL-Library.Multiset"
begin

text \<open>
  The handles of the SDK library (\<open>sdk/src/handle.rs\<close> and the handle structs of \<open>sdk/src\<close>). The store
  is the one of Handles with a payload type of its own; a diagnostic goes to the API's slot for the
  thread, which is the store's \<open>last_error\<close>. Exporters, processors, readers and providers wrap objects
  of the OpenTelemetry crates: an exporter is known by an identity, and what a crate object is
  built from (the configuration and the exporter it takes over) is all that is kept of it. Two lists
  record what happens to exporters: \<open>sdk_dropped\<close> when the owning handle is dropped (for those of an SDK,
  whose providers the API library may share, when the SDK gives up its references), \<open>sdk_shut\<close>
  when the shutdown of a reader reaches them.
\<close>

section \<open>Exporters, processors and readers\<close>

datatype trace_exporter_impl = TX_Custom nat | TX_OtlpHttp nat | TX_OtlpGrpc nat
datatype metric_exporter_impl = MX_OtlpHttp nat | MX_OtlpGrpc nat | MX_Custom nat
datatype log_exporter_impl = LX_OtlpHttp nat | LX_OtlpGrpc nat | LX_Custom nat

datatype exporter = X_Trace trace_exporter_impl | X_Metric metric_exporter_impl | X_Log log_exporter_impl

text \<open>Durations are milliseconds.\<close>

record batch_config =
  bc_max_queue_size :: "usize option"
  bc_scheduled_delay :: "u64 option"
  bc_max_export_batch_size :: "usize option"
  bc_export_timeout :: "u64 option"

datatype span_processor_impl =
    SPI_Batch batch_config trace_exporter_impl
  | SPI_Simple trace_exporter_impl

record batch_log_config =
  blc_exporter :: "log_exporter_impl option"
  blc_max_queue_size :: "usize option"
  blc_max_export_batch_size :: "usize option"
  blc_scheduled_delay_millis :: "u64 option"

text \<open>Queue size, batch size and delay as they reach the crate's batch configuration.\<close>

datatype log_processor_impl =
    LPI_Simple log_exporter_impl
  | LPI_Batch "usize option" "usize option" "u64 option" log_exporter_impl

datatype periodic_reader_impl =
    PRI_Reader "u64 option" metric_exporter_impl
  | PRI_Async "u64 option" "u64 option" metric_exporter_impl

datatype metric_reader_impl = MRI_Periodic periodic_reader_impl | MRI_Manual metric_exporter_impl

record periodic_reader_builder =
  prb_interval :: "u64 option"
  prb_timeout :: "u64 option"
  prb_runtime :: u32
  prb_exporter :: "metric_exporter_impl option"

section \<open>Views\<close>

datatype aggregation_config =
    Agg_Default | Agg_Drop | Agg_Sum | Agg_LastValue
  | Agg_ExplicitHistogram "u64 list" bool
  | Agg_ExponentialHistogram u32 "8 word" bool

record metric_view_config =
  mv_name_pattern :: "bytes option"
  mv_meter_name :: "bytes option"
  mv_scope_version :: "bytes option"
  mv_scope_schema_url :: "bytes option"
  mv_scope_attributes :: "sdk_key_value list"
  mv_unit :: "bytes option"
  mv_kind :: u32
  mv_output_name :: "bytes option"
  mv_output_description :: "bytes option"
  mv_output_unit :: "bytes option"
  mv_attribute_filter_enabled :: bool
  mv_allowed_attributes :: "bytes list"
  mv_cardinality_limit :: "usize option"
  mv_aggregation :: aggregation_config

section \<open>The SDK builder and the SDK\<close>

datatype sampler = Sampler_AlwaysOn | Sampler_AlwaysOff | Sampler_TraceIdRatioBased u64 | Sampler_ParentBased sampler

record span_limits =
  sl_max_attributes_per_span :: u32
  sl_max_events_per_span :: u32
  sl_max_links_per_span :: u32
  sl_max_attributes_per_event :: u32
  sl_max_attributes_per_link :: u32

record sdk_builder =
  sb_service_name :: "bytes option"
  sb_resource_attributes :: "sdk_key_value list"
  sb_processors :: "span_processor_impl list"
  sb_metric_readers :: "metric_reader_impl list"
  sb_metric_views :: "metric_view_config list"
  sb_log_processors :: "log_processor_impl list"
  sb_sampler :: "sampler option"
  sb_span_limits :: "span_limits option"

text \<open>A provider is what its builder was given; the three providers share the resource.\<close>

record sdk_resource =
  rs_service_name :: "bytes option"
  rs_attributes :: "sdk_key_value list"

record lifecycle =
  lc_shutdown_started :: bool
  lc_global_registration :: "u64 option"

record sdk =
  sd_resource :: sdk_resource
  sd_sampler :: "sampler option"
  sd_span_limits :: "span_limits option"
  sd_processors :: "span_processor_impl list"
  sd_metric_readers :: "metric_reader_impl list"
  sd_metric_views :: "metric_view_config list"
  sd_log_processors :: "log_processor_impl list"
  sd_shutdown :: bool
  sd_metrics_lifecycle :: lifecycle
  sd_logs_lifecycle :: lifecycle
  sd_flush_in_flight :: bool

section \<open>Payloads\<close>

datatype sdk_payload =
    SP_TraceExporter trace_exporter_impl
  | SP_MetricExporter metric_exporter_impl
  | SP_LogExporter log_exporter_impl
  | SP_BatchBuilder "trace_exporter_impl option \<times> batch_config"
  | SP_SpanProcessor span_processor_impl
  | SP_BatchLogBuilder batch_log_config
  | SP_LogProcessor log_processor_impl
  | SP_PeriodicBuilder periodic_reader_builder
  | SP_PeriodicReader periodic_reader_impl
  | SP_ManualReader metric_exporter_impl
  | SP_ViewBuilder metric_view_config
  | SP_View metric_view_config
  | SP_SdkBuilder sdk_builder
  | SP_Sdk sdk

definition KIND_SDK_BUILDER :: u64 where "KIND_SDK_BUILDER = 0x0201"
definition KIND_SDK :: u64 where "KIND_SDK = 0x0202"
definition KIND_TRACE_EXPORTER :: u64 where "KIND_TRACE_EXPORTER = 0x0211"
definition KIND_BATCH_SPAN_PROCESSOR_BUILDER :: u64 where "KIND_BATCH_SPAN_PROCESSOR_BUILDER = 0x0212"
definition KIND_SPAN_PROCESSOR :: u64 where "KIND_SPAN_PROCESSOR = 0x0213"
definition KIND_METRIC_EXPORTER :: u64 where "KIND_METRIC_EXPORTER = 0x0221"
definition KIND_PERIODIC_METRIC_READER_BUILDER :: u64 where "KIND_PERIODIC_METRIC_READER_BUILDER = 0x0222"
definition KIND_PERIODIC_METRIC_READER :: u64 where "KIND_PERIODIC_METRIC_READER = 0x0223"
definition KIND_METRIC_VIEW_BUILDER :: u64 where "KIND_METRIC_VIEW_BUILDER = 0x0224"
definition KIND_METRIC_VIEW :: u64 where "KIND_METRIC_VIEW = 0x0225"
definition KIND_MANUAL_METRIC_READER :: u64 where "KIND_MANUAL_METRIC_READER = 0x0226"
definition KIND_LOG_EXPORTER :: u64 where "KIND_LOG_EXPORTER = 0x0231"
definition KIND_BATCH_LOG_PROCESSOR_BUILDER :: u64 where "KIND_BATCH_LOG_PROCESSOR_BUILDER = 0x0232"
definition KIND_LOG_PROCESSOR :: u64 where "KIND_LOG_PROCESSOR = 0x0233"

named_theorems sdk_kinds

lemmas sdk_kind_defs [sdk_kinds] =
  KIND_SDK_BUILDER_def KIND_SDK_def KIND_TRACE_EXPORTER_def KIND_BATCH_SPAN_PROCESSOR_BUILDER_def KIND_SPAN_PROCESSOR_def
  KIND_METRIC_EXPORTER_def KIND_PERIODIC_METRIC_READER_BUILDER_def KIND_PERIODIC_METRIC_READER_def
  KIND_METRIC_VIEW_BUILDER_def KIND_METRIC_VIEW_def KIND_MANUAL_METRIC_READER_def KIND_LOG_EXPORTER_def
  KIND_BATCH_LOG_PROCESSOR_BUILDER_def KIND_LOG_PROCESSOR_def

fun sdk_kind :: "sdk_payload \<Rightarrow> u64" where
  "sdk_kind (SP_TraceExporter _) = KIND_TRACE_EXPORTER"
| "sdk_kind (SP_MetricExporter _) = KIND_METRIC_EXPORTER"
| "sdk_kind (SP_LogExporter _) = KIND_LOG_EXPORTER"
| "sdk_kind (SP_BatchBuilder _) = KIND_BATCH_SPAN_PROCESSOR_BUILDER"
| "sdk_kind (SP_SpanProcessor _) = KIND_SPAN_PROCESSOR"
| "sdk_kind (SP_BatchLogBuilder _) = KIND_BATCH_LOG_PROCESSOR_BUILDER"
| "sdk_kind (SP_LogProcessor _) = KIND_LOG_PROCESSOR"
| "sdk_kind (SP_PeriodicBuilder _) = KIND_PERIODIC_METRIC_READER_BUILDER"
| "sdk_kind (SP_PeriodicReader _) = KIND_PERIODIC_METRIC_READER"
| "sdk_kind (SP_ManualReader _) = KIND_MANUAL_METRIC_READER"
| "sdk_kind (SP_ViewBuilder _) = KIND_METRIC_VIEW_BUILDER"
| "sdk_kind (SP_View _) = KIND_METRIC_VIEW"
| "sdk_kind (SP_SdkBuilder _) = KIND_SDK_BUILDER"
| "sdk_kind (SP_Sdk _) = KIND_SDK"

definition as_trace_exporter :: "sdk_payload \<Rightarrow> trace_exporter_impl option" where
  "as_trace_exporter b = (case b of SP_TraceExporter x \<Rightarrow> Some x | _ \<Rightarrow> None)"
definition as_metric_exporter :: "sdk_payload \<Rightarrow> metric_exporter_impl option" where
  "as_metric_exporter b = (case b of SP_MetricExporter x \<Rightarrow> Some x | _ \<Rightarrow> None)"
definition as_log_exporter :: "sdk_payload \<Rightarrow> log_exporter_impl option" where
  "as_log_exporter b = (case b of SP_LogExporter x \<Rightarrow> Some x | _ \<Rightarrow> None)"
definition as_batch_builder :: "sdk_payload \<Rightarrow> (trace_exporter_impl option \<times> batch_config) option" where
  "as_batch_builder b = (case b of SP_BatchBuilder x \<Rightarrow> Some x | _ \<Rightarrow> None)"
definition as_span_processor :: "sdk_payload \<Rightarrow> span_processor_impl option" where
  "as_span_processor b = (case b of SP_SpanProcessor x \<Rightarrow> Some x | _ \<Rightarrow> None)"
definition as_batch_log_builder :: "sdk_payload \<Rightarrow> batch_log_config option" where
  "as_batch_log_builder b = (case b of SP_BatchLogBuilder x \<Rightarrow> Some x | _ \<Rightarrow> None)"
definition as_log_processor :: "sdk_payload \<Rightarrow> log_processor_impl option" where
  "as_log_processor b = (case b of SP_LogProcessor x \<Rightarrow> Some x | _ \<Rightarrow> None)"
definition as_periodic_builder :: "sdk_payload \<Rightarrow> periodic_reader_builder option" where
  "as_periodic_builder b = (case b of SP_PeriodicBuilder x \<Rightarrow> Some x | _ \<Rightarrow> None)"
definition as_periodic_reader :: "sdk_payload \<Rightarrow> periodic_reader_impl option" where
  "as_periodic_reader b = (case b of SP_PeriodicReader x \<Rightarrow> Some x | _ \<Rightarrow> None)"
definition as_manual_reader :: "sdk_payload \<Rightarrow> metric_exporter_impl option" where
  "as_manual_reader b = (case b of SP_ManualReader x \<Rightarrow> Some x | _ \<Rightarrow> None)"
definition as_view_builder :: "sdk_payload \<Rightarrow> metric_view_config option" where
  "as_view_builder b = (case b of SP_ViewBuilder x \<Rightarrow> Some x | _ \<Rightarrow> None)"
definition as_view :: "sdk_payload \<Rightarrow> metric_view_config option" where
  "as_view b = (case b of SP_View x \<Rightarrow> Some x | _ \<Rightarrow> None)"
definition as_sdk_builder :: "sdk_payload \<Rightarrow> sdk_builder option" where
  "as_sdk_builder b = (case b of SP_SdkBuilder x \<Rightarrow> Some x | _ \<Rightarrow> None)"
definition as_sdk :: "sdk_payload \<Rightarrow> sdk option" where
  "as_sdk b = (case b of SP_Sdk x \<Rightarrow> Some x | _ \<Rightarrow> None)"

lemmas sdk_projections =
  as_trace_exporter_def as_metric_exporter_def as_log_exporter_def as_batch_builder_def as_span_processor_def
  as_batch_log_builder_def as_log_processor_def as_periodic_builder_def as_periodic_reader_def as_manual_reader_def
  as_view_builder_def as_view_def as_sdk_builder_def as_sdk_def

interpretation htx: handle_type sdk_kind KIND_TRACE_EXPORTER SP_TraceExporter as_trace_exporter
  by unfold_locales (auto simp: as_trace_exporter_def sdk_kinds split: sdk_payload.splits elim!: sdk_kind.elims)
interpretation hmx: handle_type sdk_kind KIND_METRIC_EXPORTER SP_MetricExporter as_metric_exporter
  by unfold_locales (auto simp: as_metric_exporter_def sdk_kinds split: sdk_payload.splits elim!: sdk_kind.elims)
interpretation hlx: handle_type sdk_kind KIND_LOG_EXPORTER SP_LogExporter as_log_exporter
  by unfold_locales (auto simp: as_log_exporter_def sdk_kinds split: sdk_payload.splits elim!: sdk_kind.elims)
interpretation hbb: handle_type sdk_kind KIND_BATCH_SPAN_PROCESSOR_BUILDER SP_BatchBuilder as_batch_builder
  by unfold_locales (auto simp: as_batch_builder_def sdk_kinds split: sdk_payload.splits elim!: sdk_kind.elims)
interpretation hsp: handle_type sdk_kind KIND_SPAN_PROCESSOR SP_SpanProcessor as_span_processor
  by unfold_locales (auto simp: as_span_processor_def sdk_kinds split: sdk_payload.splits elim!: sdk_kind.elims)
interpretation hbl: handle_type sdk_kind KIND_BATCH_LOG_PROCESSOR_BUILDER SP_BatchLogBuilder as_batch_log_builder
  by unfold_locales (auto simp: as_batch_log_builder_def sdk_kinds split: sdk_payload.splits elim!: sdk_kind.elims)
interpretation hlp: handle_type sdk_kind KIND_LOG_PROCESSOR SP_LogProcessor as_log_processor
  by unfold_locales (auto simp: as_log_processor_def sdk_kinds split: sdk_payload.splits elim!: sdk_kind.elims)
interpretation hpb: handle_type sdk_kind KIND_PERIODIC_METRIC_READER_BUILDER SP_PeriodicBuilder as_periodic_builder
  by unfold_locales (auto simp: as_periodic_builder_def sdk_kinds split: sdk_payload.splits elim!: sdk_kind.elims)
interpretation hpr: handle_type sdk_kind KIND_PERIODIC_METRIC_READER SP_PeriodicReader as_periodic_reader
  by unfold_locales (auto simp: as_periodic_reader_def sdk_kinds split: sdk_payload.splits elim!: sdk_kind.elims)
interpretation hmr: handle_type sdk_kind KIND_MANUAL_METRIC_READER SP_ManualReader as_manual_reader
  by unfold_locales (auto simp: as_manual_reader_def sdk_kinds split: sdk_payload.splits elim!: sdk_kind.elims)
interpretation hvb: handle_type sdk_kind KIND_METRIC_VIEW_BUILDER SP_ViewBuilder as_view_builder
  by unfold_locales (auto simp: as_view_builder_def sdk_kinds split: sdk_payload.splits elim!: sdk_kind.elims)
interpretation hmv: handle_type sdk_kind KIND_METRIC_VIEW SP_View as_view
  by unfold_locales (auto simp: as_view_def sdk_kinds split: sdk_payload.splits elim!: sdk_kind.elims)
interpretation hsb: handle_type sdk_kind KIND_SDK_BUILDER SP_SdkBuilder as_sdk_builder
  by unfold_locales (auto simp: as_sdk_builder_def sdk_kinds split: sdk_payload.splits elim!: sdk_kind.elims)
interpretation hsdk: handle_type sdk_kind KIND_SDK SP_Sdk as_sdk
  by unfold_locales (auto simp: as_sdk_def sdk_kinds split: sdk_payload.splits elim!: sdk_kind.elims)

section \<open>Ownership of exporters\<close>

fun span_processor_exporter :: "span_processor_impl \<Rightarrow> exporter" where
  "span_processor_exporter (SPI_Batch c x) = X_Trace x"
| "span_processor_exporter (SPI_Simple x) = X_Trace x"

fun log_processor_exporter :: "log_processor_impl \<Rightarrow> exporter" where
  "log_processor_exporter (LPI_Simple x) = X_Log x"
| "log_processor_exporter (LPI_Batch q b d x) = X_Log x"

fun periodic_reader_exporter :: "periodic_reader_impl \<Rightarrow> exporter" where
  "periodic_reader_exporter (PRI_Reader i x) = X_Metric x"
| "periodic_reader_exporter (PRI_Async i t x) = X_Metric x"

fun metric_reader_exporter :: "metric_reader_impl \<Rightarrow> exporter" where
  "metric_reader_exporter (MRI_Periodic r) = periodic_reader_exporter r"
| "metric_reader_exporter (MRI_Manual x) = X_Metric x"

definition of_option :: "('a \<Rightarrow> 'b) \<Rightarrow> 'a option \<Rightarrow> 'b list" where
  "of_option f p = (case p of None \<Rightarrow> [] | Some x \<Rightarrow> [f x])"

lemma of_option_simps [simp]: "of_option f None = []" "of_option f (Some x) = [f x]"
  by (simp_all add: of_option_def)

text \<open>The exporters that a handle owns, directly or through what it owns.\<close>

fun payload_exporters :: "sdk_payload \<Rightarrow> exporter list" where
  "payload_exporters (SP_TraceExporter x) = [X_Trace x]"
| "payload_exporters (SP_MetricExporter x) = [X_Metric x]"
| "payload_exporters (SP_LogExporter x) = [X_Log x]"
| "payload_exporters (SP_BatchBuilder b) = of_option X_Trace (fst b)"
| "payload_exporters (SP_SpanProcessor x) = [span_processor_exporter x]"
| "payload_exporters (SP_BatchLogBuilder b) = of_option X_Log (blc_exporter b)"
| "payload_exporters (SP_LogProcessor x) = [log_processor_exporter x]"
| "payload_exporters (SP_PeriodicBuilder b) = of_option X_Metric (prb_exporter b)"
| "payload_exporters (SP_PeriodicReader r) = [periodic_reader_exporter r]"
| "payload_exporters (SP_ManualReader x) = [X_Metric x]"
| "payload_exporters (SP_ViewBuilder v) = []"
| "payload_exporters (SP_View v) = []"
| "payload_exporters (SP_SdkBuilder b) =
     map metric_reader_exporter (sb_metric_readers b) @ map span_processor_exporter (sb_processors b) @
     map log_processor_exporter (sb_log_processors b)"
| "payload_exporters (SP_Sdk k) =
     map metric_reader_exporter (sd_metric_readers k) @ map span_processor_exporter (sd_processors k) @
     map log_processor_exporter (sd_log_processors k)"

record sdk_store = "sdk_payload store" +
  sdk_dropped :: "exporter list"
  sdk_shut :: "exporter list"

end
