(* ===== verification/Sdk_Handles.thy ===== *)
theory Sdk_Handles
  imports Sdk_Objects
begin

text \<open>
  The operations that every handle of the SDK is built from: taking a handle for an ownership
  transfer (\<open>take\<close> of \<open>sdk/src/handle.rs\<close>), destruction, and the four shapes in which the entry points of
  the builders use them. Each entry point is an instance of one of the shapes with its own checks.
  The locales state what a shape needs to neither lose nor duplicate an exporter; they are
  interpreted where the entry points are.
\<close>

section \<open>Taking and dropping\<close>

definition take_handle ::
  "u64 \<Rightarrow> ('p \<Rightarrow> 'a option) \<Rightarrow> ptr \<Rightarrow> ('p, 'm) store_scheme \<Rightarrow> ('a option \<times> ('p, 'm) store_scheme) option" where
  "take_handle K proj p s =
     (case p of
        None \<Rightarrow> Some (None, set_error_text ''null handle passed to OpenTelemetry C API'' s)
      | Some a \<Rightarrow>
          (case objs s a of
             None \<Rightarrow> None
           | Some h \<Rightarrow>
               if \<not> is_live (header h) then
                 Some (None, set_error_text ''handle failed validation: not a live OpenTelemetry C handle'' s)
               else if kind (header h) \<noteq> K then
                 Some (None, set_error_text ''handle failed validation: wrong OpenTelemetry C handle type'' s)
               else
                 (case proj (body h) of
                    None \<Rightarrow> None
                  | Some x \<Rightarrow> Some (Some x, s\<lparr>objs := (objs s)(a := None)\<rparr>))))"

definition drop_exporters :: "exporter list \<Rightarrow> 'm sdk_store_scheme \<Rightarrow> 'm sdk_store_scheme" where
  "drop_exporters xs s = s\<lparr>sdk_dropped := sdk_dropped s @ xs\<rparr>"

definition shut_exporters :: "exporter list \<Rightarrow> 'm sdk_store_scheme \<Rightarrow> 'm sdk_store_scheme" where
  "shut_exporters xs s = s\<lparr>sdk_shut := sdk_shut s @ xs\<rparr>"

text \<open>An SDK builder shuts its readers down before its fields are dropped.\<close>

definition drop_payload :: "sdk_payload \<Rightarrow> 'm sdk_store_scheme \<Rightarrow> 'm sdk_store_scheme" where
  "drop_payload b s =
     (case b of
        SP_SdkBuilder sb \<Rightarrow>
          drop_exporters (payload_exporters b) (shut_exporters (map metric_reader_exporter (sb_metric_readers sb)) s)
      | _ \<Rightarrow> drop_exporters (payload_exporters b) s)"

definition destroy_handle :: "u64 \<Rightarrow> ptr \<Rightarrow> 'm sdk_store_scheme \<Rightarrow> 'm sdk_store_scheme option" where
  "destroy_handle K p s =
     (case p of
        None \<Rightarrow> Some s
      | Some a \<Rightarrow>
          (case objs s a of
             None \<Rightarrow> None
           | Some h \<Rightarrow>
               if \<not> is_live_kind (header h) K then Some s
               else Some (drop_payload (body h) (s\<lparr>objs := (objs s)(a := None)\<rparr>))))"

section \<open>Shapes of entry points\<close>

definition new_handle :: "u64 \<Rightarrow> 'p \<Rightarrow> ('p, 'm) store_scheme \<Rightarrow> ptr \<times> ('p, 'm) store_scheme" where
  "new_handle K b s = into_raw K b (clear_last_error s)"

text \<open>A setter: borrow the builder, compute its new value or an error.\<close>

definition configure ::
  "u64 \<Rightarrow> ('p \<Rightarrow> 'b option) \<Rightarrow> ('b \<Rightarrow> 'p) \<Rightarrow> ('b \<Rightarrow> abi_error + 'b) \<Rightarrow> ptr \<Rightarrow> ('p, 'm) store_scheme
     \<Rightarrow> (otel_status \<times> ('p, 'm) store_scheme) option" where
  "configure K proj mk f p s =
     (case checked_as K proj p (clear_last_error s) of
        None \<Rightarrow> None
      | Some (None, s1) \<Rightarrow> Some (St_InvalidArgument, s1)
      | Some (Some b, s1) \<Rightarrow>
          (case f b of
             Inl e \<Rightarrow> Some (fail_abi e s1)
           | Inr b' \<Rightarrow> Some (St_Ok, put_ptr p (mk b') s1)))"

text \<open>A transfer: validate the builder and its limits, take the item, store it. \<open>replaced\<close> are the
  exporters that the store operation drops.\<close>

definition transfer ::
  "u64 \<Rightarrow> (sdk_payload \<Rightarrow> 'b option) \<Rightarrow> ('b \<Rightarrow> sdk_payload) \<Rightarrow> u64 \<Rightarrow> (sdk_payload \<Rightarrow> 'i option)
     \<Rightarrow> ('b \<Rightarrow> abi_error option) \<Rightarrow> ('b \<Rightarrow> 'i \<Rightarrow> 'b) \<Rightarrow> ('b \<Rightarrow> exporter list) \<Rightarrow> ptr \<Rightarrow> ptr
     \<Rightarrow> 'm sdk_store_scheme \<Rightarrow> (otel_status \<times> 'm sdk_store_scheme) option" where
  "transfer Kb projb mkb Ki proji refuse add replaced builder item s =
     (case checked_as Kb projb builder (clear_last_error s) of
        None \<Rightarrow> None
      | Some (None, s1) \<Rightarrow> Some (St_InvalidArgument, s1)
      | Some (Some b, s1) \<Rightarrow>
          (case refuse b of
             Some e \<Rightarrow> Some (fail_abi e s1)
           | None \<Rightarrow>
               (case take_handle Ki proji item s1 of
                  None \<Rightarrow> None
                | Some (None, s2) \<Rightarrow> Some (St_InvalidArgument, s2)
                | Some (Some i, s2) \<Rightarrow>
                    Some (St_Ok, drop_exporters (replaced b) (put_ptr builder (mkb (add b i)) s2)))))"

text \<open>A build: the builder's new value, what is dropped on the way, and an error or the product. The
  first component of the result is what is stored through the output pointer, if anything.\<close>

definition build_handle ::
  "u64 \<Rightarrow> (sdk_payload \<Rightarrow> 'b option) \<Rightarrow> ('b \<Rightarrow> sdk_payload) \<Rightarrow> u64 \<Rightarrow> ('o \<Rightarrow> sdk_payload) \<Rightarrow> string
     \<Rightarrow> ('b \<Rightarrow> 'b \<times> exporter list \<times> (abi_error + 'o)) \<Rightarrow> ptr \<Rightarrow> bool
     \<Rightarrow> 'm sdk_store_scheme \<Rightarrow> (ptr option \<times> otel_status \<times> 'm sdk_store_scheme) option" where
  "build_handle Kb projb mkb Ko mko null_msg f builder out_null s =
     (let s0 = clear_last_error s in
      if out_null then Some (None, fail St_InvalidArgument null_msg s0)
      else
        (case checked_as Kb projb builder s0 of
           None \<Rightarrow> None
         | Some (None, s1) \<Rightarrow> Some (Some None, St_InvalidArgument, s1)
         | Some (Some b, s1) \<Rightarrow>
             (case f b of (b', lost, r) \<Rightarrow>
                (let s2 = drop_exporters lost (put_ptr builder (mkb b') s1) in
                 case r of
                   Inl e \<Rightarrow> Some (Some None, fail_abi e s2)
                 | Inr product \<Rightarrow>
                     (case into_raw Ko (mko product) s2 of (p, s3) \<Rightarrow> Some (Some p, St_Ok, s3))))))"

text \<open>A constructor that consumes a handle.\<close>

definition wrap_handle ::
  "u64 \<Rightarrow> (sdk_payload \<Rightarrow> 'i option) \<Rightarrow> u64 \<Rightarrow> ('i \<Rightarrow> sdk_payload) \<Rightarrow> string \<Rightarrow> ptr \<Rightarrow> bool
     \<Rightarrow> 'm sdk_store_scheme \<Rightarrow> (ptr option \<times> otel_status \<times> 'm sdk_store_scheme) option" where
  "wrap_handle Ki proji Ko mko null_msg item out_null s =
     (let s0 = clear_last_error s in
      if out_null then Some (None, fail St_InvalidArgument null_msg s0)
      else
        (case take_handle Ki proji item s0 of
           None \<Rightarrow> None
         | Some (None, s1) \<Rightarrow> Some (Some None, St_InvalidArgument, s1)
         | Some (Some i, s1) \<Rightarrow> (case into_raw Ko (mko i) s1 of (p, s2) \<Rightarrow> Some (Some p, St_Ok, s2))))"

section \<open>The balance of exporters\<close>

definition contents :: "'m sdk_store_scheme \<Rightarrow> addr \<Rightarrow> exporter multiset" where
  "contents s a = (case objs s a of None \<Rightarrow> {#} | Some h \<Rightarrow> mset (payload_exporters (body h)))"

definition owned :: "'m sdk_store_scheme \<Rightarrow> exporter multiset" where
  "owned s = (\<Sum>a<next_addr s. contents s a)"

text \<open>Every exporter that was ever created: still owned by a handle, or dropped.\<close>

definition balance :: "'m sdk_store_scheme \<Rightarrow> exporter multiset" where
  "balance s = owned s + mset (sdk_dropped s)"

definition conserves :: "'m sdk_store_scheme \<Rightarrow> 'n sdk_store_scheme \<Rightarrow> bool" where
  "conserves s s' \<longleftrightarrow> wf_store sdk_kind s' \<and> balance s' = balance s"

lemma balance_cong:
  "objs s' = objs s \<Longrightarrow> next_addr s' = next_addr s \<Longrightarrow> sdk_dropped s' = sdk_dropped s \<Longrightarrow> balance s' = balance s"
  by (simp add: balance_def owned_def contents_def)

lemma sdk_more:
  fixes s :: "'m sdk_store_scheme"
  assumes "store.more s' = store.more s"
  shows "sdk_dropped s' = sdk_dropped s" "sdk_shut s' = sdk_shut s"
  using assms by (cases s; cases s'; simp)+

lemma balance_frame [simp]:
  "balance (set_error_text m s) = balance s" "balance (set_last_error m' s) = balance s"
  "balance (clear_last_error s) = balance s"
  by (rule balance_cong; simp add: set_error_text_def set_last_error_def clear_last_error_def)+

lemma owned_remove:
  assumes "wf_store sdk_kind s" and "objs s a = Some h"
  shows "owned (s\<lparr>objs := (objs s)(a := None)\<rparr>) + mset (payload_exporters (body h)) = owned s"
proof -
  have a: "a \<in> {..<next_addr s}" using assms by (auto simp: wf_store_def)
  let ?s = "s\<lparr>objs := (objs s)(a := None)\<rparr>"
  have "(\<Sum>x\<in>{..<next_addr s} - {a}. contents ?s x) = (\<Sum>x\<in>{..<next_addr s} - {a}. contents s x)"
    by (rule sum.cong) (auto simp: contents_def)
  then show ?thesis
    using sum.remove [OF _ a, of "contents s"] sum.remove [OF _ a, of "contents ?s"] assms(2)
    by (simp add: owned_def) (simp add: contents_def)
qed

lemma owned_put:
  assumes "wf_store sdk_kind s" and "objs s a = Some h"
  shows "owned (put_body a b s) + mset (payload_exporters (body h)) = owned s + mset (payload_exporters b)"
proof -
  have a: "a \<in> {..<next_addr s}" using assms by (auto simp: wf_store_def)
  have "(\<Sum>x\<in>{..<next_addr s} - {a}. contents (put_body a b s) x) = (\<Sum>x\<in>{..<next_addr s} - {a}. contents s x)"
    by (rule sum.cong) (auto simp: contents_def objs_put_body [OF assms(2)])
  then show ?thesis
    using sum.remove [OF _ a, of "contents s"] sum.remove [OF _ a, of "contents (put_body a b s)"] assms(2)
    by (simp add: owned_def) (simp add: contents_def objs_put_body [OF assms(2)])
qed

lemma owned_into_raw:
  "owned (snd (into_raw K b s)) = owned s + mset (payload_exporters b)"
proof -
  have "(\<Sum>x<next_addr s. contents (snd (into_raw K b s)) x) = (\<Sum>x<next_addr s. contents s x)"
    by (rule sum.cong) (auto simp: contents_def)
  then show ?thesis by (simp add: owned_def contents_def lessThan_Suc add.commute)
qed

lemma sdk_fields [simp]:
  "sdk_dropped (put_body a b s) = sdk_dropped s" "sdk_dropped (put_ptr p b s) = sdk_dropped s"
  "sdk_dropped (snd (into_raw K b s)) = sdk_dropped s" "sdk_dropped (clear_last_error s) = sdk_dropped s"
  "sdk_shut (put_body a b s) = sdk_shut s" "sdk_shut (put_ptr p b s) = sdk_shut s"
  "sdk_shut (snd (into_raw K b s)) = sdk_shut s" "sdk_shut (clear_last_error s) = sdk_shut s"
  by (simp_all add: put_body_def put_ptr_def into_raw_def clear_last_error_def split: option.splits)

lemma drop_exporters_simps [simp]:
  "objs (drop_exporters xs s) = objs s" "next_addr (drop_exporters xs s) = next_addr s"
  "last_error (drop_exporters xs s) = last_error s" "balance (drop_exporters xs s) = balance s + mset xs"
  "wf_store k (drop_exporters xs s) = wf_store k s" "sdk_dropped (drop_exporters xs s) = sdk_dropped s @ xs"
  "sdk_shut (drop_exporters xs s) = sdk_shut s"
  by (simp_all add: drop_exporters_def balance_def owned_def contents_def wf_store_def)

lemma shut_exporters_simps [simp]:
  "objs (shut_exporters xs s) = objs s" "next_addr (shut_exporters xs s) = next_addr s"
  "balance (shut_exporters xs s) = balance s" "wf_store k (shut_exporters xs s) = wf_store k s"
  "sdk_dropped (shut_exporters xs s) = sdk_dropped s" "sdk_shut (shut_exporters xs s) = sdk_shut s @ xs"
  by (simp_all add: shut_exporters_def balance_def owned_def contents_def wf_store_def)

lemma conserves_refl: "wf_store sdk_kind s \<Longrightarrow> conserves s s"
  by (simp add: conserves_def)

lemma conserves_trans: "conserves s t \<Longrightarrow> conserves t u \<Longrightarrow> conserves s u"
  by (simp add: conserves_def)

lemma conserves_wf: "conserves s t \<Longrightarrow> wf_store sdk_kind t"
  by (simp add: conserves_def)

lemma conserves_error:
  "wf_store sdk_kind s \<Longrightarrow> conserves s (set_error_text m s)" "wf_store sdk_kind s \<Longrightarrow> conserves s (set_last_error m' s)"
  "wf_store sdk_kind s \<Longrightarrow> conserves s (clear_last_error s)" "wf_store sdk_kind s \<Longrightarrow> conserves s (snd (fail st m s))"
  "wf_store sdk_kind s \<Longrightarrow> conserves s (snd (fail_abi e s))"
  by (simp_all add: conserves_def fail_def fail_abi_def)

lemma error_conserves:
  assumes "s' = set_error_text m (clear_last_error s)" and "wf_store sdk_kind s"
  shows "conserves s s'" "objs s' = objs s" "next_addr s' = next_addr s" "sdk_dropped s' = sdk_dropped s"
  using assms(2) unfolding assms(1)
  by (simp_all add: conserves_def) (simp add: set_error_text_def set_last_error_def)

lemma abi_error_conserves:
  assumes "s' = snd (fail_abi e (clear_last_error s))" and "wf_store sdk_kind s"
  shows "conserves s s'" "objs s' = objs s" "next_addr s' = next_addr s" "sdk_dropped s' = sdk_dropped s"
  using assms(2) unfolding assms(1)
  by (simp_all add: conserves_def fail_abi_def) (simp add: set_last_error_def)

lemma split_balance:
  fixes x y :: "'a multiset"
  assumes "x + b = y + b'" and "b' + lost + out = b"
  shows "x + lost + out = y"
proof -
  have "(x + lost + out) + b' = y + b'" using assms(1) unfolding assms(2) [symmetric] by (simp add: ac_simps)
  then show ?thesis by simp
qed

text \<open>Destruction of a handle of any kind drops what it owns.\<close>

lemma destroy_handle_conserves:
  assumes "wf_store sdk_kind s" and "destroy_handle K p s = Some s'"
  shows "conserves s s'"
proof (cases "p = None \<or> s' = s")
  case True
  then show ?thesis using assms by (auto simp: destroy_handle_def intro: conserves_refl)
next
  case False
  then obtain a h where a: "p = Some a" "objs s a = Some h" "s' = drop_payload (body h) (s\<lparr>objs := (objs s)(a := None)\<rparr>)"
    using assms(2) by (auto simp: destroy_handle_def split: option.splits if_splits)
  let ?s = "s\<lparr>objs := (objs s)(a := None)\<rparr>"
  have b: "balance ?s + mset (payload_exporters (body h)) = balance s"
    using owned_remove [OF assms(1) a(2)] by (simp add: balance_def add.commute add.left_commute)
  have w: "wf_store sdk_kind ?s" using wf_store_remove [OF assms(1)] .
  have "balance s' = balance ?s + mset (payload_exporters (body h)) \<and> wf_store sdk_kind s'"
    unfolding a(3) drop_payload_def using w by (auto split: sdk_payload.splits)
  then show ?thesis using b by (simp add: conserves_def)
qed

lemma new_handle_conserves:
  assumes "wf_store sdk_kind s" and "K = sdk_kind b" and "payload_exporters b = []"
  shows "conserves s (snd (new_handle K b s))"
proof -
  have "wf_store sdk_kind (snd (new_handle K b s))"
    using wf_store_into_raw [of sdk_kind "clear_last_error s" K b] assms by (simp add: new_handle_def)
  then show ?thesis
    using owned_into_raw [of K b "clear_last_error s"] assms(3)
    by (simp add: conserves_def new_handle_def balance_def) (simp add: owned_def contents_def)
qed

section \<open>The contracts of the shapes\<close>

lemma take_handle_SomeD:
  assumes "take_handle K proj p s = Some (Some x, s')"
  obtains a h where "p = Some a" "objs s a = Some h" "proj (body h) = Some x" "s' = s\<lparr>objs := (objs s)(a := None)\<rparr>"
    "kind (header h) = K"
  using assms by (auto simp: take_handle_def split: option.splits if_splits)

lemma take_handle_NoneD:
  assumes "take_handle K proj p s = Some (None, s')"
  obtains m where "s' = set_error_text m s"
  using assms by (auto simp: take_handle_def split: option.splits if_splits)

lemma checked_as_NoneE:
  assumes "checked_as K proj p s = Some (None, s')"
  obtains m where "s' = set_error_text m s"
  using assms by (auto simp: checked_as_def checked_ref_def split: option.splits if_splits)

locale sdk_handle = handle_type sdk_kind K mk proj
  for K :: u64 and mk :: "'b \<Rightarrow> sdk_payload" and proj :: "sdk_payload \<Rightarrow> 'b option"
begin

lemma put_conserves:
  assumes "wf_store sdk_kind s" and "points_to s p (mk b)"
  shows "wf_store sdk_kind (put_ptr p (mk b') s) \<and>
     balance (put_ptr p (mk b') s) + mset (payload_exporters (mk b)) = balance s + mset (payload_exporters (mk b'))"
proof -
  obtain a h where a: "p = Some a" "objs s a = Some h" "body h = mk b"
    using assms(2) by (auto simp: points_to_def split: option.splits)
  have "wf_store sdk_kind (put_body a (mk b') s)"
    by (rule wf_store_put_body [OF assms(1)]) (use a in \<open>simp add: kind_mk\<close>)
  then show ?thesis
    using owned_put [OF assms(1) a(2), of "mk b'"] a
    by (simp add: put_ptr_def balance_def add.commute add.left_commute)
qed

text \<open>A setter whose new value owns the same exporters.\<close>

lemma configure_conserves:
  assumes run: "configure K proj mk f p s = Some (st, s')" and wf: "wf_store sdk_kind s"
    and keeps: "\<And>b b'. f b = Inr b' \<Longrightarrow> mset (payload_exporters (mk b')) = mset (payload_exporters (mk b))"
  shows "conserves s s'"
proof -
  obtain r s1 where c: "checked_as K proj p (clear_last_error s) = Some (r, s1)"
    using run by (cases "checked_as K proj p (clear_last_error s)") (auto simp: configure_def)
  show ?thesis
  proof (cases r)
    case None
    then obtain m where m: "s1 = set_error_text m (clear_last_error s)" using c checked_as_NoneE by blast
    have e: "s' = set_error_text m (clear_last_error s)" unfolding m [symmetric] using run c None by (simp add: configure_def)
    show ?thesis by (rule error_conserves(1) [OF e wf])
  next
    case (Some b)
    then have b: "s1 = clear_last_error s" "points_to s p (mk b)" using checked_as_SomeD [of p "clear_last_error s" b s1] c by simp_all
    show ?thesis
    proof (cases "f b")
      case (Inl e)
      then have e: "s' = snd (fail_abi e (clear_last_error s))" using run c Some b by (auto simp: configure_def)
      show ?thesis by (rule abi_error_conserves(1) [OF e wf])
    next
      case (Inr b')
      then have "s' = put_ptr p (mk b') (clear_last_error s)" using run c Some b by (simp add: configure_def)
      then show ?thesis
        using put_conserves [of "clear_last_error s" p b b'] wf b keeps [OF Inr] by (simp add: conserves_def)
    qed
  qed
qed

lemma configure_points_to:
  assumes "wf_store sdk_kind s" and "points_to s p (mk b)"
  shows "configure K proj mk f p s =
    (case f b of Inl e \<Rightarrow> Some (fail_abi e (clear_last_error s))
     | Inr b' \<Rightarrow> Some (St_Ok, put_ptr p (mk b') (clear_last_error s)))"
  using checked_as_points_to [of "clear_last_error s" p b] assms by (simp add: configure_def)

lemma take_conserves:
  assumes "take_handle K proj p s = Some (Some x, s')" and "wf_store sdk_kind s"
  shows "wf_store sdk_kind s' \<and> balance s' + mset (payload_exporters (mk x)) = balance s \<and> points_to s p (mk x)"
proof (rule take_handle_SomeD [OF assms(1)])
  fix a h assume a: "p = Some a" "objs s a = Some h" "proj (body h) = Some x" "s' = s\<lparr>objs := (objs s)(a := None)\<rparr>"
  then have "body h = mk x" using proj_iff by blast
  then show ?thesis
    using owned_remove [OF assms(2) a(2)] wf_store_remove [OF assms(2)] a
    by (simp add: balance_def points_to_def add.commute add.left_commute)
qed

lemma take_points_to:
  assumes "wf_store sdk_kind s" and "points_to s (Some a) (mk x)"
  shows "take_handle K proj (Some a) s = Some (Some x, s\<lparr>objs := (objs s)(a := None)\<rparr>)"
  using assms by (auto simp: take_handle_def points_to_def wf_store_def kind_mk split: option.splits)

end

text \<open>An exporter moves from the item into the builder; a replaced one is dropped.\<close>

locale transfer_op =
  dst: sdk_handle Kb mkb projb + src: sdk_handle Ki mki proji
  for Kb :: u64 and mkb :: "'b \<Rightarrow> sdk_payload" and projb and Ki :: u64 and mki :: "'i \<Rightarrow> sdk_payload" and proji +
  fixes refuse :: "'b \<Rightarrow> abi_error option" and add :: "'b \<Rightarrow> 'i \<Rightarrow> 'b" and replaced :: "'b \<Rightarrow> exporter list"
  assumes other_kind: "Kb \<noteq> Ki"
    and moves: "refuse b = None \<Longrightarrow> mset (payload_exporters (mkb (add b i))) + mset (replaced b) =
      mset (payload_exporters (mkb b)) + mset (payload_exporters (mki i))"
begin

text \<open>Success moves the item; any refusal leaves every handle, and so the item, with the caller.\<close>

lemma transfer_facts:
  assumes run: "transfer Kb projb mkb Ki proji refuse add replaced builder item s = Some (st, s')" and wf: "wf_store sdk_kind s"
  shows "conserves s s' \<and>
     (st = St_Ok \<and> item \<noteq> None \<and> objs s' (the item) = None \<or>
      objs s' = objs s \<and> next_addr s' = next_addr s \<and> sdk_dropped s' = sdk_dropped s)"
proof -
  let ?s = "clear_last_error s"
  have wf0: "wf_store sdk_kind ?s" using wf by simp
  obtain r s1 where c: "checked_as Kb projb builder ?s = Some (r, s1)"
    using run by (cases "checked_as Kb projb builder ?s") (auto simp: transfer_def)
  show ?thesis
  proof (cases r)
    case None
    then obtain m where m: "s1 = set_error_text m ?s" using c checked_as_NoneE by blast
    have e: "s' = set_error_text m ?s" unfolding m [symmetric] using run c None by (simp add: transfer_def)
    show ?thesis by (intro conjI disjI2 error_conserves [OF e wf])
  next
    case (Some b)
    then have b: "s1 = ?s" "points_to ?s builder (mkb b)" using dst.checked_as_SomeD [of builder ?s b s1] c by simp_all
    show ?thesis
    proof (cases "refuse b")
      case (Some e)
      then have e: "s' = snd (fail_abi e ?s)" using run c \<open>r = Some b\<close> b by (auto simp: transfer_def)
      show ?thesis by (intro conjI disjI2 abi_error_conserves [OF e wf])
    next
      case None
      obtain q s2 where t: "take_handle Ki proji item ?s = Some (q, s2)"
        using run c Some None b by (cases "take_handle Ki proji item ?s") (auto simp: transfer_def)
      show ?thesis
      proof (cases q)
        case q: None
        then obtain m where m: "s2 = set_error_text m ?s" using t take_handle_NoneD by blast
        have e: "s' = set_error_text m ?s" unfolding m [symmetric] using run c Some None b t q by (simp add: transfer_def)
        show ?thesis by (intro conjI disjI2 error_conserves [OF e wf])
      next
        case q: (Some i)
        note tk = src.take_conserves [OF t [unfolded q] wf0]
        obtain a h where a: "item = Some a" "objs ?s a = Some h" "proji (body h) = Some i" "s2 = ?s\<lparr>objs := (objs ?s)(a := None)\<rparr>"
          using take_handle_SomeD [OF t [unfolded q]] by blast
        have "body h = mki i" using a(3) src.proj_iff by blast
        have ne: "builder \<noteq> Some a"
          using b(2) a(1,2) \<open>body h = mki i\<close> other_kind dst.kind_mk [of b] src.kind_mk [of i] by (auto simp: points_to_def)
        then have pt: "points_to s2 builder (mkb b)"
          using b(2) a(4) by (auto simp: points_to_def split: option.splits)
        have out: "s' = drop_exporters (replaced b) (put_ptr builder (mkb (add b i)) s2)" "st = St_Ok"
          using run c Some None b t q by (simp_all add: transfer_def)
        have "balance (put_ptr builder (mkb (add b i)) s2) + mset (payload_exporters (mkb b)) =
            balance s2 + mset (payload_exporters (mkb (add b i)))" and w: "wf_store sdk_kind (put_ptr builder (mkb (add b i)) s2)"
          using dst.put_conserves [OF _ pt] tk by blast+
        then have "balance s' + (mset (payload_exporters (mkb b)) + mset (payload_exporters (mki i))) =
            balance s2 + mset (payload_exporters (mki i)) + (mset (payload_exporters (mkb (add b i))) + mset (replaced b))"
          by (simp add: out add.commute add.left_commute)
        then have "balance s' = balance s" using tk moves [OF None, of i] by (simp add: add.assoc)
        moreover have "objs s' a = None"
          using ne a(4) by (auto simp: out put_ptr_def put_body_def split: option.splits)
        ultimately show ?thesis using w out a(1) by (simp add: conserves_def)
      qed
    qed
  qed
qed

lemma transfer_runs:
  assumes wf: "wf_store sdk_kind s" and b: "points_to s builder (mkb b)" and i: "points_to s (Some a) (mki i)"
  shows "transfer Kb projb mkb Ki proji refuse add replaced builder (Some a) s =
    (case refuse b of
       Some e \<Rightarrow> Some (fail_abi e (clear_last_error s))
     | None \<Rightarrow> Some (St_Ok, drop_exporters (replaced b)
         (put_ptr builder (mkb (add b i)) (clear_last_error s\<lparr>objs := (objs s)(a := None)\<rparr>))))"
proof -
  let ?s = "clear_last_error s"
  have "checked_as Kb projb builder ?s = Some (Some b, ?s)" "take_handle Ki proji (Some a) ?s = Some (Some i, ?s\<lparr>objs := (objs ?s)(a := None)\<rparr>)"
    using dst.checked_as_points_to [of ?s builder b] src.take_points_to [of ?s a i] assms by simp_all
  then show ?thesis by (simp add: transfer_def split: option.splits)
qed

end

text \<open>A build splits what the builder owns into what it keeps, what is lost and the product.\<close>

locale build_op =
  dst: sdk_handle Kb mkb projb + out: sdk_handle Ko mko projo
  for Kb :: u64 and mkb :: "'b \<Rightarrow> sdk_payload" and projb and Ko :: u64 and mko :: "'o \<Rightarrow> sdk_payload" and projo +
  fixes f :: "'b \<Rightarrow> 'b \<times> exporter list \<times> (abi_error + 'o)"
  assumes splits: "f b = (b', lost, r) \<Longrightarrow> mset (payload_exporters (mkb b')) + mset lost +
      (case r of Inl e \<Rightarrow> {#} | Inr product \<Rightarrow> mset (payload_exporters (mko product))) = mset (payload_exporters (mkb b))"
begin

lemma build_conserves:
  assumes run: "build_handle Kb projb mkb Ko mko msg f builder out_null s = Some (q, st, s')" and wf: "wf_store sdk_kind s"
  shows "conserves s s'"
proof (cases out_null)
  case True
  then show ?thesis using run wf by (auto simp: build_handle_def conserves_def fail_def)
next
  case False
  let ?s = "clear_last_error s"
  obtain c s1 where c: "checked_as Kb projb builder ?s = Some (c, s1)"
    using run False by (cases "checked_as Kb projb builder ?s") (auto simp: build_handle_def Let_def)
  show ?thesis
  proof (cases c)
    case None
    then obtain m where m: "s1 = set_error_text m ?s" using c checked_as_NoneE by blast
    have e: "s' = set_error_text m ?s" unfolding m [symmetric] using run c None False by (auto simp: build_handle_def Let_def)
    show ?thesis by (rule error_conserves(1) [OF e wf])
  next
    case (Some b)
    then have b: "s1 = ?s" "points_to ?s builder (mkb b)" using dst.checked_as_SomeD [of builder ?s b s1] c by simp_all
    obtain b' lost r where f: "f b = (b', lost, r)" by (cases "f b") auto
    let ?p = "put_ptr builder (mkb b') ?s"
    let ?s2 = "drop_exporters lost ?p"
    have p: "wf_store sdk_kind ?p" "balance ?p + mset (payload_exporters (mkb b)) = balance s + mset (payload_exporters (mkb b'))"
      using dst.put_conserves [OF _ b(2), of b'] wf by simp_all
    show ?thesis
    proof (cases r)
      case (Inl e)
      then have "s' = snd (fail_abi e ?s2)" using run c Some b f False by (auto simp: build_handle_def Let_def fail_abi_def)
      moreover have "balance ?s2 + mset (payload_exporters (mkb b)) = balance s + mset (payload_exporters (mkb b))"
        using p(2) splits [OF f] Inl by (simp add: add.commute add.left_commute)
      ultimately show ?thesis using p(1) by (simp add: conserves_def fail_abi_def)
    next
      case (Inr product)
      then have s': "s' = snd (into_raw Ko (mko product) ?s2)"
        using run c Some b f False by (auto simp: build_handle_def Let_def into_raw_def)
      have "balance s' = balance ?s2 + mset (payload_exporters (mko product))"
        using owned_into_raw [of Ko "mko product" ?s2] by (simp add: s' balance_def add.commute add.left_commute)
      moreover have "mset (payload_exporters (mkb b')) + mset lost + mset (payload_exporters (mko product)) = mset (payload_exporters (mkb b))"
        using splits [OF f] Inr by simp
      ultimately have "balance s' = balance s" using split_balance [OF p(2)] by simp
      moreover have "wf_store sdk_kind s'" unfolding s' using p(1) by (intro wf_store_into_raw) (simp_all add: out.kind_mk)
      ultimately show ?thesis by (simp add: conserves_def)
    qed
  qed
qed

lemma build_runs:
  assumes wf: "wf_store sdk_kind s" and b: "points_to s builder (mkb b)"
  shows "build_handle Kb projb mkb Ko mko msg f builder False s =
    (case f b of (b', lost, r) \<Rightarrow>
       (let s2 = drop_exporters lost (put_ptr builder (mkb b') (clear_last_error s)) in
        case r of
          Inl e \<Rightarrow> Some (Some None, fail_abi e s2)
        | Inr product \<Rightarrow> Some (Some (fst (into_raw Ko (mko product) s2)), St_Ok, snd (into_raw Ko (mko product) s2))))"
  using dst.checked_as_points_to [of "clear_last_error s" builder b] assms
  by (cases "f b") (auto simp: build_handle_def Let_def into_raw_def split: sum.splits)

end

text \<open>A constructor that wraps the item.\<close>

locale wrap_op =
  src: sdk_handle Ki mki proji
  for Ki :: u64 and mki :: "'i \<Rightarrow> sdk_payload" and proji +
  fixes Ko :: u64 and mko :: "'i \<Rightarrow> sdk_payload"
  assumes out_kind: "sdk_kind (mko i) = Ko"
    and same: "mset (payload_exporters (mko i)) = mset (payload_exporters (mki i))"
begin

lemma wrap_conserves:
  assumes run: "wrap_handle Ki proji Ko mko msg item out_null s = Some (q, st, s')" and wf: "wf_store sdk_kind s"
  shows "conserves s s'"
proof (cases out_null)
  case True
  then show ?thesis using run wf by (auto simp: wrap_handle_def conserves_def fail_def)
next
  case False
  let ?s = "clear_last_error s"
  obtain c s1 where c: "take_handle Ki proji item ?s = Some (c, s1)"
    using run False by (cases "take_handle Ki proji item ?s") (auto simp: wrap_handle_def Let_def)
  show ?thesis
  proof (cases c)
    case None
    then obtain m where m: "s1 = set_error_text m ?s" using c take_handle_NoneD by blast
    have e: "s' = set_error_text m ?s" unfolding m [symmetric] using run c None False by (auto simp: wrap_handle_def Let_def)
    show ?thesis by (rule error_conserves(1) [OF e wf])
  next
    case (Some i)
    note tk = src.take_conserves [OF c [unfolded Some]]
    have s': "s' = snd (into_raw Ko (mko i) s1)" using run c Some False by (auto simp: wrap_handle_def Let_def into_raw_def)
    have "balance s' = balance s1 + mset (payload_exporters (mko i))"
      using owned_into_raw [of Ko "mko i" s1] by (simp add: s' balance_def add.commute add.left_commute)
    moreover have "wf_store sdk_kind s'" unfolding s' using tk wf by (intro wf_store_into_raw) (simp_all add: out_kind)
    ultimately show ?thesis using tk wf same by (simp add: conserves_def)
  qed
qed

end

end
