(* ===== verification/Sdk_Processors.thy ===== *)
theory Sdk_Processors
  imports Sdk_Handles Log_Values
begin

text \<open>
  Span processors (\<open>sdk/src/batch_processor.rs\<close>, \<open>sdk/src/simple_span_processor.rs\<close>), log processors
  (\<open>sdk/src/log_processor.rs\<close>) and metric readers (\<open>sdk/src/periodic_metric_reader.rs\<close>,
  \<open>sdk/src/manual_metric_reader.rs\<close>) with their builders. A processor or reader is made from an
  exporter that is transferred into it; the crate object inside is what it was configured with.
  Whether the library was built with the async runtime, whether such a runtime can be started, and
  whether the calling thread belongs to a reader's runtime are parameters.
\<close>

section \<open>Batch span processors\<close>

definition MAX_BATCH_QUEUE_SIZE :: nat where "MAX_BATCH_QUEUE_SIZE = 1048576"
definition MAX_BATCH_EXPORT_BATCH_SIZE :: nat where "MAX_BATCH_EXPORT_BATCH_SIZE = 1048576"

definition optional_millis :: "u64 \<Rightarrow> u64 option" where
  "optional_millis millis = (if millis \<noteq> 0 then Some millis else None)"

definition bounded_optional_size :: "usize \<Rightarrow> nat \<Rightarrow> string \<Rightarrow> abi_error + usize option" where
  "bounded_optional_size value limit what =
     (if limit < unat value
      then Inl (abi_error_new St_InvalidArgument
        (what @ '' ('' @ decimal (unat value) @ '') exceeds the maximum supported value ('' @ decimal limit @ '')''))
      else Inr (if value \<noteq> 0 then Some value else None))"

definition default_batch_config :: batch_config where
  "default_batch_config =
     \<lparr>bc_max_queue_size = None, bc_scheduled_delay = None, bc_max_export_batch_size = None, bc_export_timeout = None\<rparr>"

definition otel_batch_span_processor_builder_new :: "'m sdk_store_scheme \<Rightarrow> ptr \<times> 'm sdk_store_scheme" where
  "otel_batch_span_processor_builder_new =
     new_handle KIND_BATCH_SPAN_PROCESSOR_BUILDER (SP_BatchBuilder (None, default_batch_config))"

definition otel_batch_span_processor_builder_destroy :: "ptr \<Rightarrow> 'm sdk_store_scheme \<Rightarrow> 'm sdk_store_scheme option" where
  "otel_batch_span_processor_builder_destroy = destroy_handle KIND_BATCH_SPAN_PROCESSOR_BUILDER"

definition otel_batch_span_processor_builder_set_exporter ::
  "ptr \<Rightarrow> ptr \<Rightarrow> 'm sdk_store_scheme \<Rightarrow> (otel_status \<times> 'm sdk_store_scheme) option" where
  "otel_batch_span_processor_builder_set_exporter =
     transfer KIND_BATCH_SPAN_PROCESSOR_BUILDER as_batch_builder SP_BatchBuilder KIND_TRACE_EXPORTER as_trace_exporter
       (\<lambda>_. None) (\<lambda>b x. (Some x, snd b)) (\<lambda>b. of_option X_Trace (fst b))"

definition with_batch_config ::
  "ptr \<Rightarrow> (batch_config \<Rightarrow> abi_error + batch_config) \<Rightarrow> 'm sdk_store_scheme \<Rightarrow> (otel_status \<times> 'm sdk_store_scheme) option" where
  "with_batch_config builder f =
     configure KIND_BATCH_SPAN_PROCESSOR_BUILDER as_batch_builder SP_BatchBuilder
       (\<lambda>b. map_sum id (Pair (fst b)) (f (snd b))) builder"

definition otel_batch_span_processor_builder_set_max_queue_size ::
  "ptr \<Rightarrow> usize \<Rightarrow> 'm sdk_store_scheme \<Rightarrow> (otel_status \<times> 'm sdk_store_scheme) option" where
  "otel_batch_span_processor_builder_set_max_queue_size builder max_queue_size =
     with_batch_config builder (\<lambda>config.
       map_sum id (\<lambda>size. config\<lparr>bc_max_queue_size := size\<rparr>)
         (bounded_optional_size max_queue_size MAX_BATCH_QUEUE_SIZE ''batch max queue size''))"

definition otel_batch_span_processor_builder_set_scheduled_delay_millis ::
  "ptr \<Rightarrow> u64 \<Rightarrow> 'm sdk_store_scheme \<Rightarrow> (otel_status \<times> 'm sdk_store_scheme) option" where
  "otel_batch_span_processor_builder_set_scheduled_delay_millis builder delay_millis =
     with_batch_config builder (\<lambda>config. Inr (config\<lparr>bc_scheduled_delay := optional_millis delay_millis\<rparr>))"

definition otel_batch_span_processor_builder_set_max_export_batch_size ::
  "ptr \<Rightarrow> usize \<Rightarrow> 'm sdk_store_scheme \<Rightarrow> (otel_status \<times> 'm sdk_store_scheme) option" where
  "otel_batch_span_processor_builder_set_max_export_batch_size builder max_export_batch_size =
     with_batch_config builder (\<lambda>config.
       map_sum id (\<lambda>size. config\<lparr>bc_max_export_batch_size := size\<rparr>)
         (bounded_optional_size max_export_batch_size MAX_BATCH_EXPORT_BATCH_SIZE ''batch max export batch size''))"

definition otel_batch_span_processor_builder_set_export_timeout_millis ::
  "ptr \<Rightarrow> u64 \<Rightarrow> 'm sdk_store_scheme \<Rightarrow> (otel_status \<times> 'm sdk_store_scheme) option" where
  "otel_batch_span_processor_builder_set_export_timeout_millis builder timeout_millis =
     with_batch_config builder (\<lambda>config. Inr (config\<lparr>bc_export_timeout := optional_millis timeout_millis\<rparr>))"

text \<open>The export timeout is not applied to the crate's processor.\<close>

definition build_processor :: "batch_config \<Rightarrow> trace_exporter_impl \<Rightarrow> span_processor_impl" where
  "build_processor config exporter = SPI_Batch (config\<lparr>bc_export_timeout := None\<rparr>) exporter"

definition batch_span_build ::
  "trace_exporter_impl option \<times> batch_config
     \<Rightarrow> (trace_exporter_impl option \<times> batch_config) \<times> exporter list \<times> (abi_error + span_processor_impl)" where
  "batch_span_build b =
     (case fst b of
        None \<Rightarrow> (b, [], Inl (abi_error_new St_InvalidConfig
          ''batch span processor builder requires an exporter (call otel_batch_span_processor_builder_set_exporter first)''))
      | Some x \<Rightarrow> ((None, snd b), [], Inr (build_processor (snd b) x)))"

definition otel_batch_span_processor_builder_build ::
  "ptr \<Rightarrow> bool \<Rightarrow> 'm sdk_store_scheme \<Rightarrow> (ptr option \<times> otel_status \<times> 'm sdk_store_scheme) option" where
  "otel_batch_span_processor_builder_build =
     build_handle KIND_BATCH_SPAN_PROCESSOR_BUILDER as_batch_builder SP_BatchBuilder KIND_SPAN_PROCESSOR SP_SpanProcessor
       ''out pointer must not be NULL'' batch_span_build"

definition otel_simple_span_processor_create ::
  "ptr \<Rightarrow> bool \<Rightarrow> 'm sdk_store_scheme \<Rightarrow> (ptr option \<times> otel_status \<times> 'm sdk_store_scheme) option" where
  "otel_simple_span_processor_create =
     wrap_handle KIND_TRACE_EXPORTER as_trace_exporter KIND_SPAN_PROCESSOR (\<lambda>x. SP_SpanProcessor (SPI_Simple x))
       ''out pointer must not be NULL''"

definition otel_span_processor_destroy :: "ptr \<Rightarrow> 'm sdk_store_scheme \<Rightarrow> 'm sdk_store_scheme option" where
  "otel_span_processor_destroy = destroy_handle KIND_SPAN_PROCESSOR"

section \<open>Log processors\<close>

definition otel_log_processor_destroy :: "ptr \<Rightarrow> 'm sdk_store_scheme \<Rightarrow> 'm sdk_store_scheme option" where
  "otel_log_processor_destroy = destroy_handle KIND_LOG_PROCESSOR"

definition otel_simple_log_processor_create ::
  "ptr \<Rightarrow> bool \<Rightarrow> 'm sdk_store_scheme \<Rightarrow> (ptr option \<times> otel_status \<times> 'm sdk_store_scheme) option" where
  "otel_simple_log_processor_create =
     wrap_handle KIND_LOG_EXPORTER as_log_exporter KIND_LOG_PROCESSOR (\<lambda>x. SP_LogProcessor (LPI_Simple x))
       ''out pointer must not be NULL''"

definition default_batch_log_config :: batch_log_config where
  "default_batch_log_config =
     \<lparr>blc_exporter = None, blc_max_queue_size = None, blc_max_export_batch_size = None, blc_scheduled_delay_millis = None\<rparr>"

definition otel_batch_log_processor_builder_new :: "'m sdk_store_scheme \<Rightarrow> ptr \<times> 'm sdk_store_scheme" where
  "otel_batch_log_processor_builder_new =
     new_handle KIND_BATCH_LOG_PROCESSOR_BUILDER (SP_BatchLogBuilder default_batch_log_config)"

definition otel_batch_log_processor_builder_destroy :: "ptr \<Rightarrow> 'm sdk_store_scheme \<Rightarrow> 'm sdk_store_scheme option" where
  "otel_batch_log_processor_builder_destroy = destroy_handle KIND_BATCH_LOG_PROCESSOR_BUILDER"

definition otel_batch_log_processor_builder_set_exporter ::
  "ptr \<Rightarrow> ptr \<Rightarrow> 'm sdk_store_scheme \<Rightarrow> (otel_status \<times> 'm sdk_store_scheme) option" where
  "otel_batch_log_processor_builder_set_exporter =
     transfer KIND_BATCH_LOG_PROCESSOR_BUILDER as_batch_log_builder SP_BatchLogBuilder KIND_LOG_EXPORTER as_log_exporter
       (\<lambda>_. None) (\<lambda>b x. b\<lparr>blc_exporter := Some x\<rparr>) (\<lambda>b. of_option X_Log (blc_exporter b))"

definition with_batch_log_config ::
  "ptr \<Rightarrow> (batch_log_config \<Rightarrow> abi_error + batch_log_config) \<Rightarrow> 'm sdk_store_scheme
     \<Rightarrow> (otel_status \<times> 'm sdk_store_scheme) option" where
  "with_batch_log_config builder f =
     configure KIND_BATCH_LOG_PROCESSOR_BUILDER as_batch_log_builder SP_BatchLogBuilder f builder"

definition otel_batch_log_processor_builder_set_max_queue_size ::
  "ptr \<Rightarrow> usize \<Rightarrow> 'm sdk_store_scheme \<Rightarrow> (otel_status \<times> 'm sdk_store_scheme) option" where
  "otel_batch_log_processor_builder_set_max_queue_size builder max_queue_size =
     with_batch_log_config builder (\<lambda>config.
       Inr (config\<lparr>blc_max_queue_size := (if max_queue_size \<noteq> 0 then Some max_queue_size else None)\<rparr>))"

definition otel_batch_log_processor_builder_set_max_export_batch_size ::
  "ptr \<Rightarrow> usize \<Rightarrow> 'm sdk_store_scheme \<Rightarrow> (otel_status \<times> 'm sdk_store_scheme) option" where
  "otel_batch_log_processor_builder_set_max_export_batch_size builder max_export_batch_size =
     with_batch_log_config builder (\<lambda>config.
       Inr (config\<lparr>blc_max_export_batch_size := (if max_export_batch_size \<noteq> 0 then Some max_export_batch_size else None)\<rparr>))"

definition otel_batch_log_processor_builder_set_scheduled_delay_millis ::
  "ptr \<Rightarrow> u64 \<Rightarrow> 'm sdk_store_scheme \<Rightarrow> (otel_status \<times> 'm sdk_store_scheme) option" where
  "otel_batch_log_processor_builder_set_scheduled_delay_millis builder scheduled_delay_millis =
     with_batch_log_config builder (\<lambda>config.
       Inr (config\<lparr>blc_scheduled_delay_millis := (if scheduled_delay_millis \<noteq> 0 then Some scheduled_delay_millis else None)\<rparr>))"

definition batch_log_build ::
  "batch_log_config \<Rightarrow> batch_log_config \<times> exporter list \<times> (abi_error + log_processor_impl)" where
  "batch_log_build b =
     (if (case (blc_max_queue_size b, blc_max_export_batch_size b) of
            (Some queue, Some batch) \<Rightarrow> queue < batch
          | _ \<Rightarrow> False)
      then (b, [], Inl (abi_error_new St_InvalidConfig
        ''batch log processor max_export_batch_size must not exceed max_queue_size''))
      else
        (case blc_exporter b of
           None \<Rightarrow> (b, [], Inl (abi_error_new St_InvalidConfig ''batch log processor requires an exporter''))
         | Some x \<Rightarrow>
             (b\<lparr>blc_exporter := None\<rparr>, [],
              Inr (LPI_Batch (blc_max_queue_size b) (blc_max_export_batch_size b) (blc_scheduled_delay_millis b) x))))"

definition otel_batch_log_processor_builder_build ::
  "ptr \<Rightarrow> bool \<Rightarrow> 'm sdk_store_scheme \<Rightarrow> (ptr option \<times> otel_status \<times> 'm sdk_store_scheme) option" where
  "otel_batch_log_processor_builder_build =
     build_handle KIND_BATCH_LOG_PROCESSOR_BUILDER as_batch_log_builder SP_BatchLogBuilder KIND_LOG_PROCESSOR SP_LogProcessor
       ''out pointer must not be NULL'' batch_log_build"

section \<open>Periodic metric readers\<close>

definition READER_RUNTIME_BLOCKING :: u32 where "READER_RUNTIME_BLOCKING = 0"
definition READER_RUNTIME_ASYNC :: u32 where "READER_RUNTIME_ASYNC = 1"

definition otel_periodic_metric_reader_builder_new :: "'m sdk_store_scheme \<Rightarrow> ptr \<times> 'm sdk_store_scheme" where
  "otel_periodic_metric_reader_builder_new =
     new_handle KIND_PERIODIC_METRIC_READER_BUILDER
       (SP_PeriodicBuilder \<lparr>prb_interval = None, prb_timeout = None, prb_runtime = READER_RUNTIME_BLOCKING, prb_exporter = None\<rparr>)"

definition with_periodic_builder ::
  "ptr \<Rightarrow> (periodic_reader_builder \<Rightarrow> abi_error + periodic_reader_builder) \<Rightarrow> 'm sdk_store_scheme
     \<Rightarrow> (otel_status \<times> 'm sdk_store_scheme) option" where
  "with_periodic_builder builder f =
     configure KIND_PERIODIC_METRIC_READER_BUILDER as_periodic_builder SP_PeriodicBuilder f builder"

definition otel_periodic_metric_reader_builder_set_runtime ::
  "ptr \<Rightarrow> u32 \<Rightarrow> 'm sdk_store_scheme \<Rightarrow> (otel_status \<times> 'm sdk_store_scheme) option" where
  "otel_periodic_metric_reader_builder_set_runtime builder runtime =
     with_periodic_builder builder (\<lambda>b.
       if READER_RUNTIME_ASYNC < runtime
       then Inl (abi_error_new St_InvalidArgument ''unknown periodic metric reader runtime'')
       else Inr (b\<lparr>prb_runtime := runtime\<rparr>))"

definition otel_periodic_metric_reader_builder_destroy :: "ptr \<Rightarrow> 'm sdk_store_scheme \<Rightarrow> 'm sdk_store_scheme option" where
  "otel_periodic_metric_reader_builder_destroy = destroy_handle KIND_PERIODIC_METRIC_READER_BUILDER"

definition otel_periodic_metric_reader_builder_set_interval_millis ::
  "ptr \<Rightarrow> u64 \<Rightarrow> 'm sdk_store_scheme \<Rightarrow> (otel_status \<times> 'm sdk_store_scheme) option" where
  "otel_periodic_metric_reader_builder_set_interval_millis builder interval_millis =
     with_periodic_builder builder (\<lambda>b. Inr (b\<lparr>prb_interval := optional_millis interval_millis\<rparr>))"

definition otel_periodic_metric_reader_builder_set_timeout_millis ::
  "ptr \<Rightarrow> u64 \<Rightarrow> 'm sdk_store_scheme \<Rightarrow> (otel_status \<times> 'm sdk_store_scheme) option" where
  "otel_periodic_metric_reader_builder_set_timeout_millis builder timeout_millis =
     with_periodic_builder builder (\<lambda>b. Inr (b\<lparr>prb_timeout := optional_millis timeout_millis\<rparr>))"

definition periodic_refuse_exporter :: "periodic_reader_builder \<Rightarrow> abi_error option" where
  "periodic_refuse_exporter b =
     (if prb_exporter b \<noteq> None
      then Some (abi_error_new St_InvalidConfig ''periodic metric reader already has an exporter'') else None)"

definition otel_periodic_metric_reader_builder_set_exporter ::
  "ptr \<Rightarrow> ptr \<Rightarrow> 'm sdk_store_scheme \<Rightarrow> (otel_status \<times> 'm sdk_store_scheme) option" where
  "otel_periodic_metric_reader_builder_set_exporter =
     transfer KIND_PERIODIC_METRIC_READER_BUILDER as_periodic_builder SP_PeriodicBuilder KIND_METRIC_EXPORTER as_metric_exporter
       periodic_refuse_exporter (\<lambda>b x. b\<lparr>prb_exporter := Some x\<rparr>) (\<lambda>_. [])"

text \<open>\<open>start\<close> is the error of starting the async runtime, if it fails.\<close>

definition build_async_reader ::
  "string option \<Rightarrow> metric_exporter_impl \<Rightarrow> u64 option \<Rightarrow> u64 option \<Rightarrow> abi_error + periodic_reader_impl" where
  "build_async_reader start exporter interval timeout =
     (case exporter of
        MX_OtlpHttp _ \<Rightarrow> Inl (abi_error_new St_InvalidConfig
          ''the blocking OTLP/HTTP Metrics exporter is incompatible with the async reader'')
      | MX_OtlpGrpc _ \<Rightarrow> Inl (abi_error_new St_InvalidConfig
          ''the synchronous OTLP/gRPC Metrics exporter is incompatible with the async reader'')
      | MX_Custom _ \<Rightarrow>
          (case start of
             Some e \<Rightarrow> Inl (abi_error_new St_InternalError (''failed to build async Metrics runtime: '' @ e))
           | None \<Rightarrow> Inr (PRI_Async interval timeout exporter)))"

definition build_reader :: "metric_exporter_impl \<Rightarrow> u64 option \<Rightarrow> periodic_reader_impl" where
  "build_reader exporter interval = PRI_Reader interval exporter"

definition periodic_build ::
  "bool \<Rightarrow> string option \<Rightarrow> periodic_reader_builder
     \<Rightarrow> periodic_reader_builder \<times> exporter list \<times> (abi_error + periodic_reader_impl)" where
  "periodic_build async_available start b =
     (let refuse = (\<lambda>m. (b, [], Inl (abi_error_new St_InvalidConfig m))) in
      if prb_runtime b = READER_RUNTIME_BLOCKING \<and> prb_timeout b \<noteq> None
      then refuse ''periodic metric reader export timeout requires the async runtime''
      else if prb_runtime b = READER_RUNTIME_ASYNC \<and> \<not> async_available
      then refuse ''async periodic Metrics reader is unavailable: rebuild with `metrics-async-runtime`''
      else if prb_runtime b = READER_RUNTIME_ASYNC \<and> (\<exists>x \<in> set_option (prb_exporter b). case x of MX_OtlpGrpc _ \<Rightarrow> True | _ \<Rightarrow> False)
      then refuse ''the synchronous OTLP/gRPC Metrics exporter is incompatible with the async reader''
      else if prb_runtime b = READER_RUNTIME_ASYNC \<and> (\<exists>x \<in> set_option (prb_exporter b). case x of MX_OtlpHttp _ \<Rightarrow> True | _ \<Rightarrow> False)
      then refuse ''the blocking OTLP/HTTP Metrics exporter is incompatible with the async reader''
      else
        (case prb_exporter b of
           None \<Rightarrow> refuse ''periodic metric reader requires an exporter''
         | Some x \<Rightarrow>
             (let b' = b\<lparr>prb_exporter := None\<rparr> in
              if prb_runtime b = READER_RUNTIME_ASYNC then
                (case build_async_reader start x (prb_interval b) (prb_timeout b) of
                   Inl e \<Rightarrow> (b', [X_Metric x], Inl e)
                 | Inr reader \<Rightarrow> (b', [], Inr reader))
              else (b', [], Inr (build_reader x (prb_interval b))))))"

definition otel_periodic_metric_reader_builder_build ::
  "bool \<Rightarrow> string option \<Rightarrow> ptr \<Rightarrow> bool \<Rightarrow> 'm sdk_store_scheme
     \<Rightarrow> (ptr option \<times> otel_status \<times> 'm sdk_store_scheme) option" where
  "otel_periodic_metric_reader_builder_build async_available start =
     build_handle KIND_PERIODIC_METRIC_READER_BUILDER as_periodic_builder SP_PeriodicBuilder KIND_PERIODIC_METRIC_READER
       SP_PeriodicReader ''out pointer must not be NULL'' (periodic_build async_available start)"

text \<open>The shutdown of a reader that was not transferred: its exporter is shut down, then dropped.\<close>

definition shutdown_reader :: "exporter \<Rightarrow> 'm sdk_store_scheme \<Rightarrow> 'm sdk_store_scheme" where
  "shutdown_reader x s = drop_exporters [x] (shut_exporters [x] s)"

definition otel_periodic_metric_reader_destroy ::
  "(periodic_reader_impl \<Rightarrow> bool) \<Rightarrow> ptr \<Rightarrow> 'm sdk_store_scheme \<Rightarrow> 'm sdk_store_scheme option" where
  "otel_periodic_metric_reader_destroy is_current reader s =
     (case checked_as KIND_PERIODIC_METRIC_READER as_periodic_reader reader s of
        None \<Rightarrow> None
      | Some (r, s1) \<Rightarrow>
          if \<exists>x \<in> set_option r. is_current x
          then Some (set_error_text ''cannot destroy an async periodic Metrics reader from its own runtime callback'' s1)
          else
            (case take_handle KIND_PERIODIC_METRIC_READER as_periodic_reader reader s1 of
               None \<Rightarrow> None
             | Some (None, s2) \<Rightarrow> Some s2
             | Some (Some x, s2) \<Rightarrow> Some (shutdown_reader (periodic_reader_exporter x) s2)))"

section \<open>Manual metric readers\<close>

definition otel_manual_metric_reader_new ::
  "ptr \<Rightarrow> bool \<Rightarrow> 'm sdk_store_scheme \<Rightarrow> (ptr option \<times> otel_status \<times> 'm sdk_store_scheme) option" where
  "otel_manual_metric_reader_new =
     wrap_handle KIND_METRIC_EXPORTER as_metric_exporter KIND_MANUAL_METRIC_READER SP_ManualReader ''out pointer must not be NULL''"

definition otel_manual_metric_reader_destroy :: "ptr \<Rightarrow> 'm sdk_store_scheme \<Rightarrow> 'm sdk_store_scheme option" where
  "otel_manual_metric_reader_destroy reader s =
     (case take_handle KIND_MANUAL_METRIC_READER as_manual_reader reader s of
        None \<Rightarrow> None
      | Some (None, s1) \<Rightarrow> Some s1
      | Some (Some x, s1) \<Rightarrow> Some (shutdown_reader (X_Metric x) s1))"

section \<open>Exporter handles\<close>

text \<open>An exporter of the given implementation comes from an exporter builder.\<close>

definition otel_trace_exporter_destroy :: "ptr \<Rightarrow> 'm sdk_store_scheme \<Rightarrow> 'm sdk_store_scheme option" where
  "otel_trace_exporter_destroy = destroy_handle KIND_TRACE_EXPORTER"

definition otel_metric_exporter_destroy :: "ptr \<Rightarrow> 'm sdk_store_scheme \<Rightarrow> 'm sdk_store_scheme option" where
  "otel_metric_exporter_destroy = destroy_handle KIND_METRIC_EXPORTER"

definition otel_log_exporter_destroy :: "ptr \<Rightarrow> 'm sdk_store_scheme \<Rightarrow> 'm sdk_store_scheme option" where
  "otel_log_exporter_destroy = destroy_handle KIND_LOG_EXPORTER"

section \<open>The contracts hold\<close>

interpretation sbb: sdk_handle KIND_BATCH_SPAN_PROCESSOR_BUILDER SP_BatchBuilder as_batch_builder ..
interpretation sbl: sdk_handle KIND_BATCH_LOG_PROCESSOR_BUILDER SP_BatchLogBuilder as_batch_log_builder ..
interpretation spb: sdk_handle KIND_PERIODIC_METRIC_READER_BUILDER SP_PeriodicBuilder as_periodic_builder ..
interpretation spr: sdk_handle KIND_PERIODIC_METRIC_READER SP_PeriodicReader as_periodic_reader ..
interpretation smr: sdk_handle KIND_MANUAL_METRIC_READER SP_ManualReader as_manual_reader ..

interpretation batch_exporter: transfer_op KIND_BATCH_SPAN_PROCESSOR_BUILDER SP_BatchBuilder as_batch_builder
    KIND_TRACE_EXPORTER SP_TraceExporter as_trace_exporter "\<lambda>_. None" "\<lambda>b x. (Some x, snd b)" "\<lambda>b. of_option X_Trace (fst b)"
  by unfold_locales (simp_all add: sdk_kinds)

interpretation batch_log_exporter: transfer_op KIND_BATCH_LOG_PROCESSOR_BUILDER SP_BatchLogBuilder as_batch_log_builder
    KIND_LOG_EXPORTER SP_LogExporter as_log_exporter "\<lambda>_. None" "\<lambda>b x. b\<lparr>blc_exporter := Some x\<rparr>"
    "\<lambda>b. of_option X_Log (blc_exporter b)"
  by unfold_locales (simp_all add: sdk_kinds)

interpretation periodic_exporter: transfer_op KIND_PERIODIC_METRIC_READER_BUILDER SP_PeriodicBuilder as_periodic_builder
    KIND_METRIC_EXPORTER SP_MetricExporter as_metric_exporter periodic_refuse_exporter "\<lambda>b x. b\<lparr>prb_exporter := Some x\<rparr>" "\<lambda>_. []"
  by unfold_locales (auto simp: sdk_kinds periodic_refuse_exporter_def split: if_splits)

interpretation batch_processor: build_op KIND_BATCH_SPAN_PROCESSOR_BUILDER SP_BatchBuilder as_batch_builder
    KIND_SPAN_PROCESSOR SP_SpanProcessor as_span_processor batch_span_build
  by unfold_locales (auto simp: batch_span_build_def build_processor_def split: option.splits)

interpretation batch_log_processor: build_op KIND_BATCH_LOG_PROCESSOR_BUILDER SP_BatchLogBuilder as_batch_log_builder
    KIND_LOG_PROCESSOR SP_LogProcessor as_log_processor batch_log_build
  by unfold_locales (auto simp: batch_log_build_def split: option.splits if_splits)

interpretation periodic_reader: build_op KIND_PERIODIC_METRIC_READER_BUILDER SP_PeriodicBuilder as_periodic_builder
    KIND_PERIODIC_METRIC_READER SP_PeriodicReader as_periodic_reader "periodic_build async_available start" for async_available start
  by unfold_locales
    (auto simp: periodic_build_def build_async_reader_def build_reader_def Let_def split: option.splits if_splits metric_exporter_impl.splits)

interpretation simple_span: wrap_op KIND_TRACE_EXPORTER SP_TraceExporter as_trace_exporter KIND_SPAN_PROCESSOR "\<lambda>x. SP_SpanProcessor (SPI_Simple x)"
  by unfold_locales simp_all

interpretation simple_log: wrap_op KIND_LOG_EXPORTER SP_LogExporter as_log_exporter KIND_LOG_PROCESSOR "\<lambda>x. SP_LogProcessor (LPI_Simple x)"
  by unfold_locales simp_all

interpretation manual_reader: wrap_op KIND_METRIC_EXPORTER SP_MetricExporter as_metric_exporter KIND_MANUAL_METRIC_READER SP_ManualReader
  by unfold_locales simp_all

end
