(* ===== verification/Metric_Views.thy ===== *)
theory Metric_Views
  imports Sdk_Handles Instrument_Config
begin

text \<open>
  Metric views (\<open>sdk/src/metric_view.rs\<close>): the view builder, the configuration of the stream that
  a view selects, and the matching of an instrument. The stream builder of the SDK crate and the
  equality of the crate's attributes are parameters. The setters keep an invariant of the
  configuration; the wildcard of the name pattern is compared with a matcher for patterns in general.
\<close>

section \<open>The builder\<close>

definition ANY_KIND :: u32 where "ANY_KIND = 0xFFFFFFFF"
definition MAX_VIEW_SCOPE_ATTRIBUTES :: nat where "MAX_VIEW_SCOPE_ATTRIBUTES = 256"
definition MAX_VIEW_ALLOWED_ATTRIBUTES :: nat where "MAX_VIEW_ALLOWED_ATTRIBUTES = 1024"

definition default_config :: metric_view_config where
  "default_config =
     \<lparr>mv_name_pattern = None, mv_meter_name = None, mv_scope_version = None, mv_scope_schema_url = None,
      mv_scope_attributes = [], mv_unit = None, mv_kind = ANY_KIND, mv_output_name = None,
      mv_output_description = None, mv_output_unit = None, mv_attribute_filter_enabled = False,
      mv_allowed_attributes = [], mv_cardinality_limit = None, mv_aggregation = Agg_Default\<rparr>"

definition otel_metric_view_builder_new :: "'m sdk_store_scheme \<Rightarrow> ptr \<times> 'm sdk_store_scheme" where
  "otel_metric_view_builder_new = new_handle KIND_METRIC_VIEW_BUILDER (SP_ViewBuilder default_config)"

definition otel_metric_view_builder_destroy :: "ptr \<Rightarrow> 'm sdk_store_scheme \<Rightarrow> 'm sdk_store_scheme option" where
  "otel_metric_view_builder_destroy = destroy_handle KIND_METRIC_VIEW_BUILDER"

definition with_view_config ::
  "ptr \<Rightarrow> (metric_view_config \<Rightarrow> abi_error + metric_view_config) \<Rightarrow> 'm sdk_store_scheme
     \<Rightarrow> (otel_status \<times> 'm sdk_store_scheme) option" where
  "with_view_config builder f = configure KIND_METRIC_VIEW_BUILDER as_view_builder SP_ViewBuilder f builder"

text \<open>The eight string setters differ in the field.\<close>

datatype view_field =
    VF_NamePattern | VF_MeterName | VF_ScopeVersion | VF_ScopeSchemaUrl
  | VF_Unit | VF_OutputName | VF_OutputDescription | VF_OutputUnit

fun set_view_field :: "view_field \<Rightarrow> bytes option \<Rightarrow> metric_view_config \<Rightarrow> metric_view_config" where
  "set_view_field VF_NamePattern v c = c\<lparr>mv_name_pattern := v\<rparr>"
| "set_view_field VF_MeterName v c = c\<lparr>mv_meter_name := v\<rparr>"
| "set_view_field VF_ScopeVersion v c = c\<lparr>mv_scope_version := v\<rparr>"
| "set_view_field VF_ScopeSchemaUrl v c = c\<lparr>mv_scope_schema_url := v\<rparr>"
| "set_view_field VF_Unit v c = c\<lparr>mv_unit := v\<rparr>"
| "set_view_field VF_OutputName v c = c\<lparr>mv_output_name := v\<rparr>"
| "set_view_field VF_OutputDescription v c = c\<lparr>mv_output_description := v\<rparr>"
| "set_view_field VF_OutputUnit v c = c\<lparr>mv_output_unit := v\<rparr>"

definition optional_string :: "(nat \<Rightarrow> bool) \<Rightarrow> otel_string_view \<Rightarrow> abi_error + bytes option" where
  "optional_string al value = map_sum id (\<lambda>s. if s = [] then None else Some s) (to_string_strict al value)"

definition set_optional_string ::
  "(nat \<Rightarrow> bool) \<Rightarrow> view_field \<Rightarrow> ptr \<Rightarrow> otel_string_view \<Rightarrow> 'm sdk_store_scheme
     \<Rightarrow> (otel_status \<times> 'm sdk_store_scheme) option" where
  "set_optional_string al field builder value =
     with_view_config builder (\<lambda>config. map_sum id (\<lambda>v. set_view_field field v config) (optional_string al value))"

definition add_scope_attribute ::
  "(nat \<Rightarrow> bool) \<Rightarrow> otel_key_value option \<Rightarrow> metric_view_config \<Rightarrow> abi_error + metric_view_config" where
  "add_scope_attribute al attribute config =
     (case attribute of
        None \<Rightarrow> Inl (abi_error_new St_InvalidArgument ''scope attribute must not be NULL'')
      | Some a \<Rightarrow>
          if MAX_VIEW_SCOPE_ATTRIBUTES \<le> length (mv_scope_attributes config) then
            Inl (abi_error_new St_InvalidConfig ''Metrics view scope attribute limit exceeded'')
          else if \<not> al (Suc (length (mv_scope_attributes config))) then
            Inl (abi_error_new St_InternalError ''failed to allocate space for a Metrics view scope attribute'')
          else
            (case to_key_value al a of
               Inl e \<Rightarrow> Inl e
             | Inr kv \<Rightarrow>
                 if list_ex (\<lambda>x. skv_key x = skv_key kv) (mv_scope_attributes config) then
                   Inl (abi_error_new St_InvalidArgument ''duplicate scope attribute matcher key'')
                 else Inr (config\<lparr>mv_scope_attributes := mv_scope_attributes config @ [kv]\<rparr>)))"

definition otel_metric_view_builder_add_scope_attribute ::
  "(nat \<Rightarrow> bool) \<Rightarrow> ptr \<Rightarrow> otel_key_value option \<Rightarrow> 'm sdk_store_scheme \<Rightarrow> (otel_status \<times> 'm sdk_store_scheme) option" where
  "otel_metric_view_builder_add_scope_attribute al builder attribute =
     with_view_config builder (add_scope_attribute al attribute)"

definition set_instrument_kind :: "u32 \<Rightarrow> metric_view_config \<Rightarrow> abi_error + metric_view_config" where
  "set_instrument_kind ikind config =
     (if ikind \<noteq> ANY_KIND \<and> metric_instrument_kind_from_u32 ikind = None
      then Inl (abi_error_new St_InvalidArgument ''unknown metric instrument kind'')
      else Inr (config\<lparr>mv_kind := ikind\<rparr>))"

definition otel_metric_view_builder_set_instrument_kind ::
  "ptr \<Rightarrow> u32 \<Rightarrow> 'm sdk_store_scheme \<Rightarrow> (otel_status \<times> 'm sdk_store_scheme) option" where
  "otel_metric_view_builder_set_instrument_kind builder ikind = with_view_config builder (set_instrument_kind ikind)"

definition add_allowed_attribute ::
  "(nat \<Rightarrow> bool) \<Rightarrow> otel_string_view \<Rightarrow> metric_view_config \<Rightarrow> abi_error + metric_view_config" where
  "add_allowed_attribute al key config =
     (if MAX_VIEW_ALLOWED_ATTRIBUTES \<le> length (mv_allowed_attributes config) then
        Inl (abi_error_new St_InvalidConfig ''Metrics view allowed attribute limit exceeded'')
      else if \<not> al (Suc (length (mv_allowed_attributes config))) then
        Inl (abi_error_new St_InternalError ''failed to allocate space for a Metrics view allowed attribute'')
      else
        (case to_string_strict al key of
           Inl e \<Rightarrow> Inl e
         | Inr k \<Rightarrow>
             if k \<noteq> [] then
               Inr (config\<lparr>mv_attribute_filter_enabled := True, mv_allowed_attributes := mv_allowed_attributes config @ [k]\<rparr>)
             else Inl (abi_error_new St_InvalidArgument ''allowed attribute key must not be empty'')))"

definition otel_metric_view_builder_add_allowed_attribute ::
  "(nat \<Rightarrow> bool) \<Rightarrow> ptr \<Rightarrow> otel_string_view \<Rightarrow> 'm sdk_store_scheme \<Rightarrow> (otel_status \<times> 'm sdk_store_scheme) option" where
  "otel_metric_view_builder_add_allowed_attribute al builder key =
     with_view_config builder (add_allowed_attribute al key)"

definition otel_metric_view_builder_set_attribute_filter_enabled ::
  "ptr \<Rightarrow> u32 \<Rightarrow> 'm sdk_store_scheme \<Rightarrow> (otel_status \<times> 'm sdk_store_scheme) option" where
  "otel_metric_view_builder_set_attribute_filter_enabled builder enabled =
     with_view_config builder (\<lambda>config. Inr (config\<lparr>mv_attribute_filter_enabled := (enabled \<noteq> 0)\<rparr>))"

definition set_cardinality_limit :: "u64 \<Rightarrow> metric_view_config \<Rightarrow> abi_error + metric_view_config" where
  "set_cardinality_limit limit config =
     (if 0 < limit \<and> limit < 0xFFFFFFFFFFFFFFFF
      then Inr (config\<lparr>mv_cardinality_limit := Some limit\<rparr>)
      else Inl (abi_error_new St_InvalidConfig ''cardinality limit must be between 1 and usize::MAX - 1''))"

definition otel_metric_view_builder_set_cardinality_limit ::
  "ptr \<Rightarrow> u64 \<Rightarrow> 'm sdk_store_scheme \<Rightarrow> (otel_status \<times> 'm sdk_store_scheme) option" where
  "otel_metric_view_builder_set_cardinality_limit builder limit = with_view_config builder (set_cardinality_limit limit)"

definition set_aggregation :: "u32 \<Rightarrow> metric_view_config \<Rightarrow> abi_error + metric_view_config" where
  "set_aggregation aggregation config =
     (if aggregation = 0 then Inr (config\<lparr>mv_aggregation := Agg_Default\<rparr>)
      else if aggregation = 1 then Inr (config\<lparr>mv_aggregation := Agg_Drop\<rparr>)
      else if aggregation = 2 then Inr (config\<lparr>mv_aggregation := Agg_Sum\<rparr>)
      else if aggregation = 3 then Inr (config\<lparr>mv_aggregation := Agg_LastValue\<rparr>)
      else Inl (abi_error_new St_InvalidArgument ''aggregation requires explicit histogram configuration or is unknown''))"

definition otel_metric_view_builder_set_aggregation ::
  "ptr \<Rightarrow> u32 \<Rightarrow> 'm sdk_store_scheme \<Rightarrow> (otel_status \<times> 'm sdk_store_scheme) option" where
  "otel_metric_view_builder_set_aggregation builder aggregation = with_view_config builder (set_aggregation aggregation)"

text \<open>The outer \<open>None\<close> is a read beyond the array.\<close>

definition copy_boundaries :: "u64 list option \<Rightarrow> usize \<Rightarrow> (abi_error + u64 list) option" where
  "copy_boundaries boundaries n =
     (if n = 0 then Some (Inr [])
      else
        (case boundaries of
           None \<Rightarrow> Some (Inl (abi_error_new St_InvalidArgument ''invalid explicit histogram boundary array''))
         | Some xs \<Rightarrow>
             if isize_max < unat n * 8 then
               Some (Inl (abi_error_new St_InvalidArgument ''invalid explicit histogram boundary array''))
             else if length xs < unat n then None
             else
               (let values = take (unat n) xs in
                if list_ex (\<lambda>v. \<not> f64_is_finite v) values \<or> not_increasing values then
                  Some (Inl (abi_error_new St_InvalidConfig ''explicit histogram boundaries must be finite and strictly increasing''))
                else Some (Inr values))))"

definition otel_metric_view_builder_set_explicit_histogram ::
  "ptr \<Rightarrow> u64 list option \<Rightarrow> usize \<Rightarrow> u32 \<Rightarrow> 'm sdk_store_scheme \<Rightarrow> (otel_status \<times> 'm sdk_store_scheme) option" where
  "otel_metric_view_builder_set_explicit_histogram builder boundaries n record_min_max s =
     (case checked_as KIND_METRIC_VIEW_BUILDER as_view_builder builder (clear_last_error s) of
        None \<Rightarrow> None
      | Some (None, s1) \<Rightarrow> Some (St_InvalidArgument, s1)
      | Some (Some config, s1) \<Rightarrow>
          (case copy_boundaries boundaries n of
             None \<Rightarrow> None
           | Some (Inl e) \<Rightarrow> Some (fail_abi e s1)
           | Some (Inr bs) \<Rightarrow>
               Some (St_Ok, put_ptr builder
                 (SP_ViewBuilder (config\<lparr>mv_aggregation := Agg_ExplicitHistogram bs (record_min_max \<noteq> 0)\<rparr>)) s1)))"

definition set_exponential_histogram ::
  "u32 \<Rightarrow> 8 word \<Rightarrow> u32 \<Rightarrow> metric_view_config \<Rightarrow> abi_error + metric_view_config" where
  "set_exponential_histogram max_size max_scale record_min_max config =
     (if max_size = 0 \<or> \<not> (-10 \<le> sint max_scale \<and> sint max_scale \<le> 20)
      then Inl (abi_error_new St_InvalidConfig ''exponential histogram requires max_size > 0 and max_scale in [-10, 20]'')
      else Inr (config\<lparr>mv_aggregation := Agg_ExponentialHistogram max_size max_scale (record_min_max \<noteq> 0)\<rparr>))"

definition otel_metric_view_builder_set_exponential_histogram ::
  "ptr \<Rightarrow> u32 \<Rightarrow> 8 word \<Rightarrow> u32 \<Rightarrow> 'm sdk_store_scheme \<Rightarrow> (otel_status \<times> 'm sdk_store_scheme) option" where
  "otel_metric_view_builder_set_exponential_histogram builder max_size max_scale record_min_max =
     with_view_config builder (set_exponential_histogram max_size max_scale record_min_max)"

section \<open>Streams\<close>

text \<open>What the crate's stream builder receives; it answers with an error or accepts.\<close>

record stream_config =
  st_name :: "bytes option"
  st_description :: "bytes option"
  st_unit :: "bytes option"
  st_allowed_attribute_keys :: "bytes list option"
  st_cardinality_limit :: "usize option"
  st_aggregation :: aggregation_config

definition stream :: "(stream_config \<Rightarrow> string option) \<Rightarrow> metric_view_config \<Rightarrow> string + stream_config" where
  "stream stream_error config =
     (let st = \<lparr>st_name = mv_output_name config, st_description = mv_output_description config,
                st_unit = mv_output_unit config,
                st_allowed_attribute_keys =
                  (if mv_attribute_filter_enabled config then Some (mv_allowed_attributes config) else None),
                st_cardinality_limit = mv_cardinality_limit config, st_aggregation = mv_aggregation config\<rparr>
      in case stream_error st of Some err \<Rightarrow> Inl err | None \<Rightarrow> Inr st)"

definition star :: byte where "star = 0x2A"

definition view_build ::
  "(stream_config \<Rightarrow> string option) \<Rightarrow> metric_view_config
     \<Rightarrow> metric_view_config \<times> exporter list \<times> (abi_error + metric_view_config)" where
  "view_build stream_error config =
     (config, [],
      if \<exists>pattern \<in> set_option (mv_name_pattern config). 1 < length (filter (\<lambda>c. c = star) pattern) then
        Inl (abi_error_new St_InvalidConfig (''metric view name pattern supports at most one '*'' @ [CHR 0x27]))
      else
        (case stream stream_error config of
           Inl err \<Rightarrow> Inl (abi_error_new St_InvalidConfig (''invalid metric view stream: '' @ err))
         | Inr _ \<Rightarrow> Inr config))"

definition otel_metric_view_builder_build ::
  "(stream_config \<Rightarrow> string option) \<Rightarrow> ptr \<Rightarrow> bool \<Rightarrow> 'm sdk_store_scheme
     \<Rightarrow> (ptr option \<times> otel_status \<times> 'm sdk_store_scheme) option" where
  "otel_metric_view_builder_build stream_error =
     build_handle KIND_METRIC_VIEW_BUILDER as_view_builder SP_ViewBuilder KIND_METRIC_VIEW SP_View
       ''out pointer must not be NULL'' (view_build stream_error)"

definition otel_metric_view_destroy :: "ptr \<Rightarrow> 'm sdk_store_scheme \<Rightarrow> 'm sdk_store_scheme option" where
  "otel_metric_view_destroy = destroy_handle KIND_METRIC_VIEW"

section \<open>Matching\<close>

text \<open>What the SDK crate tells of an instrument.\<close>

record sdk_instrument_info =
  ii_name :: bytes
  ii_kind :: otel_metric_instrument_kind
  ii_unit :: bytes
  ii_scope :: instrumentation_scope

definition kind_matches :: "u32 \<Rightarrow> otel_metric_instrument_kind \<Rightarrow> bool" where
  "kind_matches config actual =
     (config = ANY_KIND \<or> metric_instrument_kind_from_u32 config = Some actual)"

text \<open>\<open>str::find\<close> of the star, and the match.\<close>

fun find_star :: "bytes \<Rightarrow> nat option" where
  "find_star [] = None"
| "find_star (c # cs) = (if c = star then Some 0 else map_option Suc (find_star cs))"

definition starts_with :: "bytes \<Rightarrow> bytes \<Rightarrow> bool" where
  "starts_with value p = (take (length p) value = p)"

definition ends_with :: "bytes \<Rightarrow> bytes \<Rightarrow> bool" where
  "ends_with value p = starts_with (rev value) (rev p)"

definition wildcard_matches :: "bytes \<Rightarrow> bytes \<Rightarrow> bool" where
  "wildcard_matches pattern value =
     (if pattern = [star] then True
      else
        (case find_star pattern of
           None \<Rightarrow> pattern = value
         | Some i \<Rightarrow>
             (let prefix = take i pattern; suffix = drop 1 (drop i pattern) in
              starts_with value prefix \<and> ends_with value suffix \<and> length prefix + length suffix \<le> length value)))"

definition apply_view ::
  "(stream_config \<Rightarrow> string option) \<Rightarrow> (sdk_key_value \<Rightarrow> sdk_key_value \<Rightarrow> bool) \<Rightarrow> metric_view_config
     \<Rightarrow> sdk_instrument_info \<Rightarrow> stream_config option" where
  "apply_view stream_error kv_eq config instrument =
     (if (\<exists>pattern \<in> set_option (mv_name_pattern config). \<not> wildcard_matches pattern (ii_name instrument))
       \<or> (\<exists>name \<in> set_option (mv_meter_name config). name \<noteq> isc_name (ii_scope instrument))
       \<or> (\<exists>version \<in> set_option (mv_scope_version config). isc_version (ii_scope instrument) \<noteq> Some version)
       \<or> (\<exists>url \<in> set_option (mv_scope_schema_url config). isc_schema_url (ii_scope instrument) \<noteq> Some url)
       \<or> list_ex (\<lambda>expected. \<not> list_ex (\<lambda>actual. kv_eq actual expected) (isc_attributes (ii_scope instrument)))
           (mv_scope_attributes config)
       \<or> (\<exists>unit \<in> set_option (mv_unit config). unit \<noteq> ii_unit instrument)
       \<or> \<not> kind_matches (mv_kind config) (ii_kind instrument)
      then None
      else (case stream stream_error config of Inl _ \<Rightarrow> None | Inr st \<Rightarrow> Some st))"

section \<open>The wildcard\<close>

text \<open>A matcher for patterns with any number of stars: a star stands for any text.\<close>

function glob :: "bytes \<Rightarrow> bytes \<Rightarrow> bool" where
  "glob [] v = (v = [])"
| "glob (c # p) v =
     (if c = star then glob p v \<or> (case v of [] \<Rightarrow> False | x # xs \<Rightarrow> glob (c # p) xs)
      else (case v of [] \<Rightarrow> False | x # xs \<Rightarrow> x = c \<and> glob p xs))"
  by pat_completeness auto
termination by (relation "measure (\<lambda>(p, v). length p + length v)") auto

declare glob.simps [simp del]

lemma glob_Nil [simp]: "glob [] v \<longleftrightarrow> v = []"
  by (simp add: glob.simps)

lemma glob_star: "glob (star # p) v \<longleftrightarrow> (\<exists>m r. v = m @ r \<and> glob p r)"
proof (induction v)
  case Nil
  then show ?case by (simp add: glob.simps(2))
next
  case (Cons x xs)
  have "glob (star # p) (x # xs) \<longleftrightarrow> glob p (x # xs) \<or> glob (star # p) xs" by (simp add: glob.simps(2))
  also have "\<dots> \<longleftrightarrow> (\<exists>m r. x # xs = m @ r \<and> glob p r)"
    unfolding Cons by (auto simp: Cons_eq_append_conv)
  finally show ?case .
qed

lemma glob_literal: "star \<notin> set p \<Longrightarrow> glob (p @ q) v \<longleftrightarrow> (\<exists>r. v = p @ r \<and> glob q r)"
proof (induction p arbitrary: v)
  case (Cons c p)
  then show ?case by (cases v) (auto simp: glob.simps(2))
qed simp

lemma glob_plain: "star \<notin> set p \<Longrightarrow> glob p v \<longleftrightarrow> v = p"
  using glob_literal [of p "[]" v] by simp

lemma find_star_None: "find_star p = None \<longleftrightarrow> star \<notin> set p"
  by (induction p) auto

lemma find_star_Some: "find_star p = Some i \<Longrightarrow> i < length p \<and> p ! i = star \<and> star \<notin> set (take i p)"
  by (induction p arbitrary: i) (auto split: if_splits)

lemma split_at_star:
  assumes "find_star p = Some i" and "length (filter (\<lambda>c. c = star) p) \<le> 1"
  shows "p = take i p @ star # drop 1 (drop i p)" and "star \<notin> set (take i p)" and "star \<notin> set (drop 1 (drop i p))"
proof -
  note i = find_star_Some [OF assms(1)]
  show split: "p = take i p @ star # drop 1 (drop i p)"
    using i id_take_nth_drop [of i p] by simp
  show "star \<notin> set (take i p)" using i by simp
  have "length (filter (\<lambda>c. c = star) p) = length (filter (\<lambda>c. c = star) (take i p)) + 1 + length (filter (\<lambda>c. c = star) (drop 1 (drop i p)))"
    by (subst split) simp
  then have "filter (\<lambda>c. c = star) (drop 1 (drop i p)) = []" using assms(2) by simp
  then show "star \<notin> set (drop 1 (drop i p))" by (auto simp: filter_empty_conv)
qed

lemma framed_iff:
  "starts_with v p \<and> ends_with v q \<and> length p + length q \<le> length v \<longleftrightarrow> (\<exists>m. v = p @ m @ q)"
proof
  assume a: "starts_with v p \<and> ends_with v q \<and> length p + length q \<le> length v"
  then have "v = p @ drop (length p) v" by (metis append_take_drop_id starts_with_def)
  moreover have "drop (length v - length q) v = q"
    using a by (simp add: ends_with_def starts_with_def take_rev)
  then have "drop (length p) v = take (length v - length q - length p) (drop (length p) v) @ q"
    using a append_take_drop_id [of "length v - length q - length p" "drop (length p) v"] by simp
  ultimately show "\<exists>m. v = p @ m @ q" by metis
next
  assume "\<exists>m. v = p @ m @ q"
  then show "starts_with v p \<and> ends_with v q \<and> length p + length q \<le> length v"
    by (auto simp: starts_with_def ends_with_def)
qed

lemma wildcard_matches_glob:
  assumes "length (filter (\<lambda>c. c = star) pattern) \<le> 1"
  shows "wildcard_matches pattern value \<longleftrightarrow> glob pattern value"
proof (cases "find_star pattern")
  case None
  then have "star \<notin> set pattern" by (simp add: find_star_None)
  with None show ?thesis by (auto simp: wildcard_matches_def glob_plain)
next
  case (Some i)
  note sp = split_at_star [OF Some assms]
  let ?p = "take i pattern" and ?q = "drop 1 (drop i pattern)"
  have "glob pattern value \<longleftrightarrow> (\<exists>m. value = ?p @ m @ ?q)"
    by (subst sp(1)) (simp only: glob_literal [OF sp(2)] glob_star glob_plain [OF sp(3)], blast)
  moreover have "wildcard_matches pattern value \<longleftrightarrow> (\<exists>m. value = ?p @ m @ ?q)"
    unfolding framed_iff [symmetric] using Some
    by (auto simp: wildcard_matches_def Let_def starts_with_def ends_with_def)
  ultimately show ?thesis by blast
qed

text \<open>
  C33: A view that the builder builds matches instrument names by its pattern read as a wildcard
  pattern: the optimised comparison of a prefix and a suffix agrees with a matcher in which a star
  stands for any text, also where prefix and suffix would overlap in the name.
\<close>

theorem built_view_matches_wildcard:
  assumes "view_build stream_error config = (config', lost, Inr view)" and "mv_name_pattern view = Some pattern"
  shows "wildcard_matches pattern name \<longleftrightarrow> glob pattern name"
  by (rule wildcard_matches_glob)
    (use assms in \<open>auto simp: view_build_def not_less split: if_splits sum.splits\<close>)

text \<open>The pattern \<open>a*a\<close> does not match the name \<open>a\<close>.\<close>

theorem built_view_matches_wildcard_witness:
  "\<not> wildcard_matches [0x61, star, 0x61] [0x61] \<and> wildcard_matches [0x61, star, 0x61] [0x61, 0x61]"
proof -
  let ?c = "default_config\<lparr>mv_name_pattern := Some [0x61, star, 0x61]\<rparr>"
  have b: "view_build (\<lambda>_. None) ?c = (?c, [], Inr ?c)"
    by (simp add: view_build_def stream_def star_def)
  have "\<not> glob [0x61, star, 0x61] [0x61]" "glob [0x61, star, 0x61] [0x61, 0x61]"
    by (simp_all add: glob.simps star_def)
  then show ?thesis
    using built_view_matches_wildcard [OF b, of "[0x61, star, 0x61]" "[0x61]"]
      built_view_matches_wildcard [OF b, of "[0x61, star, 0x61]" "[0x61, 0x61]"] by simp
qed

section \<open>Well-formed configurations\<close>

fun aggregation_ok :: "aggregation_config \<Rightarrow> bool" where
  "aggregation_ok (Agg_ExplicitHistogram bs record_min_max) \<longleftrightarrow> (\<forall>b \<in> set bs. f64_is_finite b) \<and> strictly_increasing bs"
| "aggregation_ok (Agg_ExponentialHistogram max_size max_scale record_min_max) \<longleftrightarrow>
     max_size \<noteq> 0 \<and> -10 \<le> sint max_scale \<and> sint max_scale \<le> 20"
| "aggregation_ok _ \<longleftrightarrow> True"

definition view_config_ok :: "metric_view_config \<Rightarrow> bool" where
  "view_config_ok c \<longleftrightarrow>
     length (mv_scope_attributes c) \<le> 256 \<and> distinct (map skv_key (mv_scope_attributes c)) \<and>
     (mv_kind c = ANY_KIND \<or> unat (mv_kind c) \<le> 6) \<and>
     length (mv_allowed_attributes c) \<le> 1024 \<and> [] \<notin> set (mv_allowed_attributes c) \<and>
     (\<forall>l \<in> set_option (mv_cardinality_limit c). l \<noteq> 0 \<and> l \<noteq> 0xFFFFFFFFFFFFFFFF) \<and>
     aggregation_ok (mv_aggregation c)"

named_theorems view_ok

lemma default_config_ok [view_ok]: "view_config_ok default_config"
  by (simp add: view_config_ok_def default_config_def strictly_increasing_def)

lemma set_view_field_ok [view_ok]: "view_config_ok c \<Longrightarrow> view_config_ok (set_view_field f v c)"
  by (cases f) (simp_all add: view_config_ok_def)

lemma key_is_new: "list_ex (\<lambda>x. skv_key x = k) xs \<longleftrightarrow> k \<in> skv_key ` set xs"
  by (auto simp: list_ex_iff)

lemma add_scope_attribute_ok [view_ok]:
  "view_config_ok c \<Longrightarrow> add_scope_attribute al a c = Inr c' \<Longrightarrow> view_config_ok c'"
  by (auto simp: add_scope_attribute_def view_config_ok_def MAX_VIEW_SCOPE_ATTRIBUTES_def key_is_new
      split: option.splits if_splits sum.splits)

lemma instrument_kind_bound: "metric_instrument_kind_from_u32 k \<noteq> None \<Longrightarrow> unat k \<le> 6"
  by (auto simp: metric_instrument_kind_from_u32_def split: if_splits)

lemma set_instrument_kind_ok [view_ok]:
  "view_config_ok c \<Longrightarrow> set_instrument_kind k c = Inr c' \<Longrightarrow> view_config_ok c'"
  using instrument_kind_bound [of k]
  by (cases "k = ANY_KIND \<or> metric_instrument_kind_from_u32 k \<noteq> None") (auto simp: set_instrument_kind_def view_config_ok_def)

lemma add_allowed_attribute_ok [view_ok]:
  "view_config_ok c \<Longrightarrow> add_allowed_attribute al k c = Inr c' \<Longrightarrow> view_config_ok c'"
  by (auto simp: add_allowed_attribute_def view_config_ok_def MAX_VIEW_ALLOWED_ATTRIBUTES_def split: if_split_asm sum.split_asm)

lemma set_cardinality_limit_ok [view_ok]:
  "view_config_ok c \<Longrightarrow> set_cardinality_limit l c = Inr c' \<Longrightarrow> view_config_ok c'"
  by (auto simp: set_cardinality_limit_def view_config_ok_def split: if_splits)

lemma set_aggregation_ok [view_ok]:
  "view_config_ok c \<Longrightarrow> set_aggregation a c = Inr c' \<Longrightarrow> view_config_ok c'"
  unfolding set_aggregation_def view_config_ok_def
  by (cases "a = 0"; cases "a = 1"; cases "a = 2"; cases "a = 3"; clarsimp)

lemma copy_boundaries_ok:
  "copy_boundaries boundaries n = Some (Inr bs) \<Longrightarrow> (\<forall>b \<in> set bs. f64_is_finite b) \<and> strictly_increasing bs"
  by (auto simp: copy_boundaries_def Let_def not_increasing_iff list_ex_iff strictly_increasing_def
      split: if_splits option.splits)

lemma set_explicit_histogram_ok [view_ok]:
  "view_config_ok c \<Longrightarrow> copy_boundaries boundaries n = Some (Inr bs)
     \<Longrightarrow> view_config_ok (c\<lparr>mv_aggregation := Agg_ExplicitHistogram bs m\<rparr>)"
  using copy_boundaries_ok [of boundaries n bs] by (simp add: view_config_ok_def)

lemma set_exponential_histogram_ok [view_ok]:
  "view_config_ok c \<Longrightarrow> set_exponential_histogram max_size max_scale m c = Inr c' \<Longrightarrow> view_config_ok c'"
  by (auto simp: set_exponential_histogram_def view_config_ok_def split: if_splits)

text \<open>An explicit histogram is set like any other field, once its boundaries are read.\<close>

lemma set_explicit_histogram_configure:
  assumes "otel_metric_view_builder_set_explicit_histogram builder boundaries n m s = Some (st, s')"
  obtains r where "with_view_config builder
      (\<lambda>c. map_sum id (\<lambda>bs. c\<lparr>mv_aggregation := Agg_ExplicitHistogram bs (m \<noteq> 0)\<rparr>) r) s = Some (st, s')"
    and "\<And>bs. r = Inr bs \<Longrightarrow> copy_boundaries boundaries n = Some (Inr bs)"
proof (cases "copy_boundaries boundaries n")
  case None
  then have "with_view_config builder
      (\<lambda>c. map_sum id (\<lambda>bs. c\<lparr>mv_aggregation := Agg_ExplicitHistogram bs (m \<noteq> 0)\<rparr>) (Inl undefined)) s = Some (st, s')"
    using assms
    by (auto simp: otel_metric_view_builder_set_explicit_histogram_def with_view_config_def configure_def split: option.splits)
  then show ?thesis by (rule that) simp
next
  case (Some r)
  then have "with_view_config builder
      (\<lambda>c. map_sum id (\<lambda>bs. c\<lparr>mv_aggregation := Agg_ExplicitHistogram bs (m \<noteq> 0)\<rparr>) r) s = Some (st, s')"
    using assms
    by (auto simp: otel_metric_view_builder_set_explicit_histogram_def with_view_config_def configure_def
        split: option.splits sum.splits)
  then show ?thesis by (rule that) (simp add: Some)
qed

interpretation svb: sdk_handle KIND_METRIC_VIEW_BUILDER SP_ViewBuilder as_view_builder ..
interpretation smv: sdk_handle KIND_METRIC_VIEW SP_View as_view ..

interpretation view: build_op KIND_METRIC_VIEW_BUILDER SP_ViewBuilder as_view_builder KIND_METRIC_VIEW SP_View as_view
    "view_build stream_error" for stream_error
  by unfold_locales (auto simp: view_build_def split: sum.splits)

lemma with_view_config_conserves:
  "with_view_config builder f s = Some (st, s') \<Longrightarrow> wf_store sdk_kind s \<Longrightarrow> conserves s s'"
  by (rule svb.configure_conserves) (simp_all add: with_view_config_def)

end
