(* ===== verification/Sdk_Builder.thy ===== *)
theory Sdk_Builder
  imports Sdk_Processors Metric_Views
begin

text \<open>
  The SDK builder (\<open>sdk/src/sdk.rs\<close>, up to \<open>otel_sdk_build\<close>): processors, readers and views are
  transferred into it, the resource, the sampler and the span limits are set, and the build moves
  everything into the SDK. The crate's providers are what their builders were given.
\<close>

unbundle bit_operations_syntax

section \<open>Transfers\<close>

definition MAX_SPAN_PROCESSORS :: nat where "MAX_SPAN_PROCESSORS = 64"
definition MAX_METRIC_READERS :: nat where "MAX_METRIC_READERS = 64"
definition MAX_METRIC_VIEWS :: nat where "MAX_METRIC_VIEWS = 1024"
definition MAX_LOG_PROCESSORS :: nat where "MAX_LOG_PROCESSORS = 64"
definition MAX_RESOURCE_ATTRIBUTES :: nat where "MAX_RESOURCE_ATTRIBUTES = 1024"

definition empty_sdk_builder :: sdk_builder where
  "empty_sdk_builder =
     \<lparr>sb_service_name = None, sb_resource_attributes = [], sb_processors = [], sb_metric_readers = [],
      sb_metric_views = [], sb_log_processors = [], sb_sampler = None, sb_span_limits = None\<rparr>"

definition otel_sdk_builder_new :: "'m sdk_store_scheme \<Rightarrow> ptr \<times> 'm sdk_store_scheme" where
  "otel_sdk_builder_new = new_handle KIND_SDK_BUILDER (SP_SdkBuilder empty_sdk_builder)"

definition otel_sdk_builder_destroy :: "ptr \<Rightarrow> 'm sdk_store_scheme \<Rightarrow> 'm sdk_store_scheme option" where
  "otel_sdk_builder_destroy = destroy_handle KIND_SDK_BUILDER"

text \<open>The limit of a list and the room for one more element.\<close>

definition refuse_full :: "(nat \<Rightarrow> bool) \<Rightarrow> nat \<Rightarrow> string \<Rightarrow> string \<Rightarrow> 'a list \<Rightarrow> abi_error option" where
  "refuse_full al limit full_msg alloc_msg xs =
     (if limit \<le> length xs then Some (abi_error_new St_InvalidConfig full_msg)
      else if \<not> al (Suc (length xs)) then Some (abi_error_new St_InternalError alloc_msg)
      else None)"

definition refuse_view :: "(nat \<Rightarrow> bool) \<Rightarrow> sdk_builder \<Rightarrow> abi_error option" where
  "refuse_view al b =
     refuse_full al MAX_METRIC_VIEWS ''SDK builder Metrics view limit exceeded''
       ''failed to allocate space for a Metrics view'' (sb_metric_views b)"

definition otel_sdk_builder_add_metric_view ::
  "(nat \<Rightarrow> bool) \<Rightarrow> ptr \<Rightarrow> ptr \<Rightarrow> 'm sdk_store_scheme \<Rightarrow> (otel_status \<times> 'm sdk_store_scheme) option" where
  "otel_sdk_builder_add_metric_view al =
     transfer KIND_SDK_BUILDER as_sdk_builder SP_SdkBuilder KIND_METRIC_VIEW as_view (refuse_view al)
       (\<lambda>b v. b\<lparr>sb_metric_views := sb_metric_views b @ [v]\<rparr>) (\<lambda>_. [])"

definition refuse_reader :: "(nat \<Rightarrow> bool) \<Rightarrow> sdk_builder \<Rightarrow> abi_error option" where
  "refuse_reader al b =
     refuse_full al MAX_METRIC_READERS ''SDK builder Metrics reader limit exceeded''
       ''failed to allocate space for a Metrics reader'' (sb_metric_readers b)"

definition otel_sdk_builder_add_metric_reader ::
  "(nat \<Rightarrow> bool) \<Rightarrow> ptr \<Rightarrow> ptr \<Rightarrow> 'm sdk_store_scheme \<Rightarrow> (otel_status \<times> 'm sdk_store_scheme) option" where
  "otel_sdk_builder_add_metric_reader al =
     transfer KIND_SDK_BUILDER as_sdk_builder SP_SdkBuilder KIND_PERIODIC_METRIC_READER as_periodic_reader (refuse_reader al)
       (\<lambda>b r. b\<lparr>sb_metric_readers := sb_metric_readers b @ [MRI_Periodic r]\<rparr>) (\<lambda>_. [])"

definition otel_sdk_builder_add_manual_metric_reader ::
  "(nat \<Rightarrow> bool) \<Rightarrow> ptr \<Rightarrow> ptr \<Rightarrow> 'm sdk_store_scheme \<Rightarrow> (otel_status \<times> 'm sdk_store_scheme) option" where
  "otel_sdk_builder_add_manual_metric_reader al =
     transfer KIND_SDK_BUILDER as_sdk_builder SP_SdkBuilder KIND_MANUAL_METRIC_READER as_manual_reader (refuse_reader al)
       (\<lambda>b r. b\<lparr>sb_metric_readers := sb_metric_readers b @ [MRI_Manual r]\<rparr>) (\<lambda>_. [])"

definition refuse_span_processor :: "(nat \<Rightarrow> bool) \<Rightarrow> sdk_builder \<Rightarrow> abi_error option" where
  "refuse_span_processor al b =
     refuse_full al MAX_SPAN_PROCESSORS ''SDK builder span processor limit exceeded''
       ''failed to allocate space for a span processor'' (sb_processors b)"

definition otel_sdk_builder_add_span_processor ::
  "(nat \<Rightarrow> bool) \<Rightarrow> ptr \<Rightarrow> ptr \<Rightarrow> 'm sdk_store_scheme \<Rightarrow> (otel_status \<times> 'm sdk_store_scheme) option" where
  "otel_sdk_builder_add_span_processor al =
     transfer KIND_SDK_BUILDER as_sdk_builder SP_SdkBuilder KIND_SPAN_PROCESSOR as_span_processor (refuse_span_processor al)
       (\<lambda>b p. b\<lparr>sb_processors := sb_processors b @ [p]\<rparr>) (\<lambda>_. [])"

definition refuse_log_processor :: "(nat \<Rightarrow> bool) \<Rightarrow> sdk_builder \<Rightarrow> abi_error option" where
  "refuse_log_processor al b =
     refuse_full al MAX_LOG_PROCESSORS ''SDK builder log processor limit exceeded''
       ''failed to allocate space for a log processor'' (sb_log_processors b)"

definition otel_sdk_builder_add_log_processor ::
  "(nat \<Rightarrow> bool) \<Rightarrow> ptr \<Rightarrow> ptr \<Rightarrow> 'm sdk_store_scheme \<Rightarrow> (otel_status \<times> 'm sdk_store_scheme) option" where
  "otel_sdk_builder_add_log_processor al =
     transfer KIND_SDK_BUILDER as_sdk_builder SP_SdkBuilder KIND_LOG_PROCESSOR as_log_processor (refuse_log_processor al)
       (\<lambda>b p. b\<lparr>sb_log_processors := sb_log_processors b @ [p]\<rparr>) (\<lambda>_. [])"

section \<open>Resource, sampler and limits\<close>

definition with_sdk_builder ::
  "ptr \<Rightarrow> (sdk_builder \<Rightarrow> abi_error + sdk_builder) \<Rightarrow> 'm sdk_store_scheme \<Rightarrow> (otel_status \<times> 'm sdk_store_scheme) option" where
  "with_sdk_builder builder f = configure KIND_SDK_BUILDER as_sdk_builder SP_SdkBuilder f builder"

definition otel_sdk_builder_set_service_name ::
  "(nat \<Rightarrow> bool) \<Rightarrow> ptr \<Rightarrow> otel_string_view \<Rightarrow> 'm sdk_store_scheme \<Rightarrow> (otel_status \<times> 'm sdk_store_scheme) option" where
  "otel_sdk_builder_set_service_name al builder name =
     with_sdk_builder builder (\<lambda>b. map_sum id (\<lambda>n. b\<lparr>sb_service_name := Some n\<rparr>) (to_string_strict al name))"

definition add_resource_attribute :: "(nat \<Rightarrow> bool) \<Rightarrow> otel_key_value \<Rightarrow> sdk_builder \<Rightarrow> abi_error + sdk_builder" where
  "add_resource_attribute al attribute b =
     (case refuse_full al MAX_RESOURCE_ATTRIBUTES ''SDK builder resource attribute limit exceeded''
             ''failed to allocate space for a resource attribute'' (sb_resource_attributes b) of
        Some e \<Rightarrow> Inl e
      | None \<Rightarrow> map_sum id (\<lambda>kv. b\<lparr>sb_resource_attributes := sb_resource_attributes b @ [kv]\<rparr>) (to_key_value al attribute))"

definition otel_sdk_builder_add_resource_attribute ::
  "(nat \<Rightarrow> bool) \<Rightarrow> ptr \<Rightarrow> otel_key_value \<Rightarrow> 'm sdk_store_scheme \<Rightarrow> (otel_status \<times> 'm sdk_store_scheme) option" where
  "otel_sdk_builder_add_resource_attribute al builder attribute =
     with_sdk_builder builder (add_resource_attribute al attribute)"

definition OTEL_SAMPLER_ALWAYS_ON :: u32 where "OTEL_SAMPLER_ALWAYS_ON = 0"
definition OTEL_SAMPLER_ALWAYS_OFF :: u32 where "OTEL_SAMPLER_ALWAYS_OFF = 1"
definition OTEL_SAMPLER_TRACE_ID_RATIO_BASED :: u32 where "OTEL_SAMPLER_TRACE_ID_RATIO_BASED = 2"
definition OTEL_SAMPLER_PARENT_BASED :: u32 where "OTEL_SAMPLER_PARENT_BASED = 3"

lemmas sampler_types = OTEL_SAMPLER_ALWAYS_ON_def OTEL_SAMPLER_ALWAYS_OFF_def
  OTEL_SAMPLER_TRACE_ID_RATIO_BASED_def OTEL_SAMPLER_PARENT_BASED_def

record otel_sampler_config =
  smp_struct_size :: usize
  smp_sampler_type :: u32
  smp_reserved :: u32
  smp_ratio :: u64
  smp_parent_based_root_type :: u32
  smp_reserved2 :: u32

definition OTEL_SAMPLER_CONFIG_REQUIRED_SIZE :: usize where "OTEL_SAMPLER_CONFIG_REQUIRED_SIZE = 24"

text \<open>\<open>(0.0..=1.0).contains(&ratio)\<close> on the bit pattern: NaN of either sign lies outside.\<close>

definition in_unit_interval :: "u64 \<Rightarrow> bool" where
  "in_unit_interval ratio = (0 \<le> f64_key ratio \<and> f64_key ratio \<le> f64_key 0x3FF0000000000000)"

definition base_sampler :: "u32 \<Rightarrow> u64 \<Rightarrow> abi_error + sampler" where
  "base_sampler skind ratio =
     (if skind = OTEL_SAMPLER_ALWAYS_ON then Inr Sampler_AlwaysOn
      else if skind = OTEL_SAMPLER_ALWAYS_OFF then Inr Sampler_AlwaysOff
      else if skind = OTEL_SAMPLER_TRACE_ID_RATIO_BASED then
        (if \<not> in_unit_interval ratio then Inl (abi_error_new St_InvalidConfig ''sampler ratio must be within [0, 1]'')
         else Inr (Sampler_TraceIdRatioBased ratio))
      else Inl (abi_error_new St_InvalidConfig ''unknown or unsupported base sampler type''))"

definition read_sampler :: "otel_sampler_config \<Rightarrow> abi_error + sampler" where
  "read_sampler config =
     (if smp_struct_size config < OTEL_SAMPLER_CONFIG_REQUIRED_SIZE then
        Inl (abi_error_new St_InvalidConfig ''sampler config struct_size is smaller than the required minimum'')
      else if smp_reserved config \<noteq> 0 then
        Inl (abi_error_new St_InvalidArgument ''sampler config reserved field must be zero'')
      else
        (let has_parent_fields = 32 \<le> smp_struct_size config;
             parent_based_root_type = (if has_parent_fields then smp_parent_based_root_type config else OTEL_SAMPLER_ALWAYS_ON);
             reserved2 = (if has_parent_fields then smp_reserved2 config else 0) in
         if smp_sampler_type config \<in> {OTEL_SAMPLER_ALWAYS_ON, OTEL_SAMPLER_ALWAYS_OFF, OTEL_SAMPLER_TRACE_ID_RATIO_BASED}
         then base_sampler (smp_sampler_type config) (smp_ratio config)
         else if smp_sampler_type config = OTEL_SAMPLER_PARENT_BASED then
           (if reserved2 \<noteq> 0 then Inl (abi_error_new St_InvalidArgument ''sampler config reserved field must be zero'')
            else map_sum id Sampler_ParentBased (base_sampler parent_based_root_type (smp_ratio config)))
         else Inl (abi_error_new St_InvalidConfig ''unknown sampler type'')))"

definition otel_sdk_builder_set_sampler ::
  "ptr \<Rightarrow> otel_sampler_config option \<Rightarrow> 'm sdk_store_scheme \<Rightarrow> (otel_status \<times> 'm sdk_store_scheme) option" where
  "otel_sdk_builder_set_sampler builder config =
     with_sdk_builder builder (\<lambda>b.
       case config of
         None \<Rightarrow> Inr (b\<lparr>sb_sampler := None\<rparr>)
       | Some c \<Rightarrow> map_sum id (\<lambda>x. b\<lparr>sb_sampler := Some x\<rparr>) (read_sampler c))"

record otel_span_limits =
  spl_struct_size :: usize
  spl_max_attributes_per_span :: u32
  spl_max_events_per_span :: u32
  spl_max_links_per_span :: u32
  spl_max_attributes_per_event :: u32
  spl_max_attributes_per_link :: u32
  spl_reserved :: u32

definition OTEL_SPAN_LIMITS_REQUIRED_SIZE :: usize where "OTEL_SPAN_LIMITS_REQUIRED_SIZE = 32"

definition read_span_limits :: "otel_span_limits \<Rightarrow> abi_error + span_limits" where
  "read_span_limits config =
     (if spl_struct_size config < OTEL_SPAN_LIMITS_REQUIRED_SIZE then
        Inl (abi_error_new St_InvalidConfig ''span limits struct_size is smaller than the required minimum'')
      else if spl_reserved config \<noteq> 0 then
        Inl (abi_error_new St_InvalidArgument ''span limits reserved field must be zero'')
      else Inr \<lparr>sl_max_attributes_per_span = spl_max_attributes_per_span config,
                sl_max_events_per_span = spl_max_events_per_span config,
                sl_max_links_per_span = spl_max_links_per_span config,
                sl_max_attributes_per_event = spl_max_attributes_per_event config,
                sl_max_attributes_per_link = spl_max_attributes_per_link config\<rparr>)"

definition otel_sdk_builder_set_span_limits ::
  "ptr \<Rightarrow> otel_span_limits option \<Rightarrow> 'm sdk_store_scheme \<Rightarrow> (otel_status \<times> 'm sdk_store_scheme) option" where
  "otel_sdk_builder_set_span_limits builder config =
     with_sdk_builder builder (\<lambda>b.
       case config of
         None \<Rightarrow> Inr (b\<lparr>sb_span_limits := None\<rparr>)
       | Some c \<Rightarrow> map_sum id (\<lambda>l. b\<lparr>sb_span_limits := Some l\<rparr>) (read_span_limits c))"

section \<open>The build\<close>

definition build_resource :: "sdk_builder \<Rightarrow> sdk_resource" where
  "build_resource builder = \<lparr>rs_service_name = sb_service_name builder, rs_attributes = sb_resource_attributes builder\<rparr>"

definition default_lifecycle :: lifecycle where
  "default_lifecycle = \<lparr>lc_shutdown_started = False, lc_global_registration = None\<rparr>"

text \<open>The service name and the resource attributes stay in the builder, everything else moves.\<close>

definition sdk_build :: "sdk_builder \<Rightarrow> sdk_builder \<times> exporter list \<times> (abi_error + sdk)" where
  "sdk_build b =
     (b\<lparr>sb_processors := [], sb_metric_readers := [], sb_metric_views := [], sb_log_processors := [],
        sb_sampler := None, sb_span_limits := None\<rparr>,
      [],
      Inr \<lparr>sd_resource = build_resource b, sd_sampler = sb_sampler b, sd_span_limits = sb_span_limits b,
           sd_processors = sb_processors b, sd_metric_readers = sb_metric_readers b,
           sd_metric_views = sb_metric_views b, sd_log_processors = sb_log_processors b, sd_shutdown = False,
           sd_metrics_lifecycle = default_lifecycle, sd_logs_lifecycle = default_lifecycle, sd_flush_in_flight = False\<rparr>)"

definition otel_sdk_build ::
  "ptr \<Rightarrow> bool \<Rightarrow> 'm sdk_store_scheme \<Rightarrow> (ptr option \<times> otel_status \<times> 'm sdk_store_scheme) option" where
  "otel_sdk_build =
     build_handle KIND_SDK_BUILDER as_sdk_builder SP_SdkBuilder KIND_SDK SP_Sdk ''out_sdk pointer must not be NULL'' sdk_build"

section \<open>The contracts hold\<close>

interpretation ssb: sdk_handle KIND_SDK_BUILDER SP_SdkBuilder as_sdk_builder ..
interpretation ssd: sdk_handle KIND_SDK SP_Sdk as_sdk ..

interpretation add_view: transfer_op KIND_SDK_BUILDER SP_SdkBuilder as_sdk_builder KIND_METRIC_VIEW SP_View as_view
    "refuse_view al" "\<lambda>b v. b\<lparr>sb_metric_views := sb_metric_views b @ [v]\<rparr>" "\<lambda>_. []" for al
  by unfold_locales (simp_all add: sdk_kinds)

interpretation add_reader: transfer_op KIND_SDK_BUILDER SP_SdkBuilder as_sdk_builder
    KIND_PERIODIC_METRIC_READER SP_PeriodicReader as_periodic_reader
    "refuse_reader al" "\<lambda>b r. b\<lparr>sb_metric_readers := sb_metric_readers b @ [MRI_Periodic r]\<rparr>" "\<lambda>_. []" for al
  by unfold_locales (simp_all add: sdk_kinds)

interpretation add_manual_reader: transfer_op KIND_SDK_BUILDER SP_SdkBuilder as_sdk_builder
    KIND_MANUAL_METRIC_READER SP_ManualReader as_manual_reader
    "refuse_reader al" "\<lambda>b r. b\<lparr>sb_metric_readers := sb_metric_readers b @ [MRI_Manual r]\<rparr>" "\<lambda>_. []" for al
  by unfold_locales (simp_all add: sdk_kinds)

interpretation add_span_processor: transfer_op KIND_SDK_BUILDER SP_SdkBuilder as_sdk_builder
    KIND_SPAN_PROCESSOR SP_SpanProcessor as_span_processor
    "refuse_span_processor al" "\<lambda>b p. b\<lparr>sb_processors := sb_processors b @ [p]\<rparr>" "\<lambda>_. []" for al
  by unfold_locales (simp_all add: sdk_kinds)

interpretation add_log_processor: transfer_op KIND_SDK_BUILDER SP_SdkBuilder as_sdk_builder
    KIND_LOG_PROCESSOR SP_LogProcessor as_log_processor
    "refuse_log_processor al" "\<lambda>b p. b\<lparr>sb_log_processors := sb_log_processors b @ [p]\<rparr>" "\<lambda>_. []" for al
  by unfold_locales (simp_all add: sdk_kinds)

interpretation build_sdk: build_op KIND_SDK_BUILDER SP_SdkBuilder as_sdk_builder KIND_SDK SP_Sdk as_sdk sdk_build
  by unfold_locales (auto simp: sdk_build_def)

end
