(* ===== verification/Sdk_Invariant.thy ===== *)
theory Sdk_Invariant
  imports Sdk_Builder
begin

text \<open>
  What is always true of a live handle of the SDK: the limits that the setters check, the
  configurations that a build accepts. The first part shows that each shape of entry point keeps a
  property of all bodies; the second defines the property and shows that each operation keeps it.
\<close>

section \<open>Properties of all bodies\<close>

definition all_bodies :: "('p \<Rightarrow> bool) \<Rightarrow> ('p, 'm) store_scheme \<Rightarrow> bool" where
  "all_bodies Q s \<longleftrightarrow> (\<forall>a h. objs s a = Some h \<longrightarrow> Q (body h))"

lemma all_bodies_cong: "objs s' = objs s \<Longrightarrow> all_bodies Q s' = all_bodies Q s"
  by (simp add: all_bodies_def)

lemma all_bodies_error [simp]:
  "all_bodies Q (set_error_text m s) = all_bodies Q s" "all_bodies Q (clear_last_error s) = all_bodies Q s"
  "all_bodies Q (set_last_error t s) = all_bodies Q s"
  "all_bodies Q (snd (fail_abi e s)) = all_bodies Q s" "all_bodies Q (snd (fail st m s)) = all_bodies Q s"
  by (rule all_bodies_cong; simp add: fail_abi_def fail_def)+

lemma all_bodies_drop [simp]:
  "all_bodies Q (drop_exporters xs s) = all_bodies Q s" "all_bodies Q (shut_exporters xs s) = all_bodies Q s"
  by (rule all_bodies_cong; simp)+

lemma all_bodies_points_to: "all_bodies Q s \<Longrightarrow> points_to s p b \<Longrightarrow> Q b"
  by (auto simp: all_bodies_def points_to_def split: option.splits)

lemma all_bodies_into_raw: "all_bodies Q s \<Longrightarrow> Q b \<Longrightarrow> all_bodies Q (snd (into_raw K b s))"
  by (auto simp: all_bodies_def)

lemma all_bodies_remove: "all_bodies Q s \<Longrightarrow> all_bodies Q (s\<lparr>objs := (objs s)(a := None)\<rparr>)"
  by (auto simp: all_bodies_def)

lemma all_bodies_put: "all_bodies Q s \<Longrightarrow> Q b \<Longrightarrow> all_bodies Q (put_ptr p b s)"
  by (auto simp: all_bodies_def put_ptr_def put_body_def split: option.splits if_splits)

lemma all_bodies_checked: "checked_as K proj p s = Some (r, s') \<Longrightarrow> all_bodies Q s' = all_bodies Q s"
  by (auto simp: checked_as_def checked_ref_def split: option.splits if_splits)

lemma all_bodies_take: "take_handle K proj p s = Some (r, s') \<Longrightarrow> all_bodies Q s \<Longrightarrow> all_bodies Q s'"
  by (auto simp: take_handle_def intro: all_bodies_remove split: option.splits if_splits)

lemma drop_payload_objs [simp]: "objs (drop_payload b s) = objs s"
  by (simp add: drop_payload_def split: sdk_payload.splits)

lemma all_bodies_destroy: "destroy_handle K p s = Some s' \<Longrightarrow> all_bodies Q s \<Longrightarrow> all_bodies Q s'"
  by (auto simp: destroy_handle_def all_bodies_def split: option.splits if_splits)

lemma all_bodies_new: "all_bodies Q s \<Longrightarrow> Q b \<Longrightarrow> all_bodies Q (snd (new_handle K b s))"
  by (simp add: new_handle_def all_bodies_into_raw)

context sdk_handle begin

lemma configure_bodies:
  assumes run: "configure K proj mk f p s = Some (st, s')" and wf: "wf_store sdk_kind s" and all: "all_bodies Q s"
    and keeps: "\<And>b b'. f b = Inr b' \<Longrightarrow> Q (mk b) \<Longrightarrow> Q (mk b')"
  shows "all_bodies Q s'"
proof -
  obtain r s1 where c: "checked_as K proj p (clear_last_error s) = Some (r, s1)"
    using run by (cases "checked_as K proj p (clear_last_error s)") (auto simp: configure_def)
  have q: "all_bodies Q s1" using all_bodies_checked [OF c, of Q] all by simp
  show ?thesis
  proof (cases r)
    case None
    then show ?thesis using run c q by (simp add: configure_def)
  next
    case (Some b)
    then have b: "s1 = clear_last_error s" "points_to s p (mk b)" using checked_as_SomeD [of p "clear_last_error s" b s1] c by simp_all
    have "Q (mk b)" using all_bodies_points_to [OF all b(2)] .
    then show ?thesis
      using run c Some q keeps [of b] by (cases "f b") (auto simp: configure_def fail_abi_def intro: all_bodies_put)
  qed
qed

lemma take_body:
  assumes "take_handle K proj p s = Some (Some x, s')" and "all_bodies Q s"
  shows "Q (mk x)"
proof (rule take_handle_SomeD [OF assms(1)])
  fix a h assume "objs s a = Some h" "proj (body h) = Some x"
  then show ?thesis using assms(2) proj_iff [of "body h" x] unfolding all_bodies_def by metis
qed

end

context transfer_op begin

lemma transfer_bodies:
  assumes run: "transfer Kb projb mkb Ki proji refuse add replaced builder item s = Some (st, s')" and all: "all_bodies Q s"
    and keeps: "\<And>b i. refuse b = None \<Longrightarrow> Q (mkb b) \<Longrightarrow> Q (mki i) \<Longrightarrow> Q (mkb (add b i))"
  shows "all_bodies Q s'"
proof -
  let ?s = "clear_last_error s"
  obtain r s1 where c: "checked_as Kb projb builder ?s = Some (r, s1)"
    using run by (cases "checked_as Kb projb builder ?s") (auto simp: transfer_def)
  have q: "all_bodies Q s1" using all_bodies_checked [OF c, of Q] all by simp
  show ?thesis
  proof (cases "\<exists>b. r = Some b \<and> refuse b = None")
    case False
    then show ?thesis using run c q by (cases r) (auto simp: transfer_def fail_abi_def)
  next
    case True
    then obtain b where b: "r = Some b" "refuse b = None" by blast
    have "points_to s builder (mkb b)" using dst.checked_as_SomeD [of builder ?s b s1] c b by simp
    then have Qb: "Q (mkb b)" by (rule all_bodies_points_to [OF all])
    obtain i s2 where t: "take_handle Ki proji item s1 = Some (i, s2)"
      using run c b by (cases "take_handle Ki proji item s1") (auto simp: transfer_def)
    note q2 = all_bodies_take [OF t q]
    show ?thesis
    proof (cases i)
      case None
      then show ?thesis using run c b t q2 by (simp add: transfer_def)
    next
      case (Some x)
      then have "Q (mkb (add b x))" using keeps [OF b(2) Qb] src.take_body [of item s1 x s2 Q] t q by simp
      then show ?thesis using run c b t q2 Some by (auto simp: transfer_def intro: all_bodies_put)
    qed
  qed
qed

end

context build_op begin

lemma build_bodies:
  assumes run: "build_handle Kb projb mkb Ko mko msg f builder out_null s = Some (q, st, s')" and all: "all_bodies Q s"
    and keeps: "\<And>b b' lost r. f b = (b', lost, r) \<Longrightarrow> Q (mkb b) \<Longrightarrow> Q (mkb b') \<and> (\<forall>product. r = Inr product \<longrightarrow> Q (mko product))"
  shows "all_bodies Q s'"
proof (cases out_null)
  case True
  then show ?thesis using run all by (auto simp: build_handle_def fail_def)
next
  case False
  let ?s = "clear_last_error s"
  obtain c s1 where c: "checked_as Kb projb builder ?s = Some (c, s1)"
    using run False by (cases "checked_as Kb projb builder ?s") (auto simp: build_handle_def Let_def)
  have q: "all_bodies Q s1" using all_bodies_checked [OF c, of Q] all by simp
  show ?thesis
  proof (cases c)
    case None
    then show ?thesis using run c q False by (auto simp: build_handle_def Let_def)
  next
    case (Some b)
    have "points_to s builder (mkb b)" using dst.checked_as_SomeD [of builder ?s b s1] c Some by simp
    then have Qb: "Q (mkb b)" by (rule all_bodies_points_to [OF all])
    obtain b' lost r where f: "f b = (b', lost, r)" by (cases "f b") auto
    then have Q': "all_bodies Q (drop_exporters lost (put_ptr builder (mkb b') s1))"
      using keeps [OF f Qb] q by (simp add: all_bodies_put)
    show ?thesis
    proof (cases r)
      case (Inl e)
      have "s' = snd (fail_abi e (drop_exporters lost (put_ptr builder (mkb b') s1)))"
        using run c Some f Inl False by (auto simp: build_handle_def Let_def fail_abi_def)
      then show ?thesis using Q' by simp
    next
      case (Inr product)
      have "s' = snd (into_raw Ko (mko product) (drop_exporters lost (put_ptr builder (mkb b') s1)))"
        using run c Some f Inr False by (auto simp: build_handle_def Let_def into_raw_def)
      then show ?thesis using Q' keeps [OF f Qb] Inr by (simp add: all_bodies_into_raw)
    qed
  qed
qed

end

context wrap_op begin

lemma wrap_bodies:
  assumes run: "wrap_handle Ki proji Ko mko msg item out_null s = Some (q, st, s')" and all: "all_bodies Q s"
    and keeps: "\<And>i. Q (mki i) \<Longrightarrow> Q (mko i)"
  shows "all_bodies Q s'"
proof (cases out_null)
  case True
  then show ?thesis using run all by (auto simp: wrap_handle_def fail_def)
next
  case False
  let ?s = "clear_last_error s"
  obtain c s1 where c: "take_handle Ki proji item ?s = Some (c, s1)"
    using run False by (cases "take_handle Ki proji item ?s") (auto simp: wrap_handle_def Let_def)
  have q: "all_bodies Q s1" using all_bodies_take [OF c, of Q] all by simp
  show ?thesis
  proof (cases c)
    case None
    then show ?thesis using run c q False by (auto simp: wrap_handle_def Let_def)
  next
    case (Some i)
    have "s' = snd (into_raw Ko (mko i) s1)" using run c Some False by (auto simp: wrap_handle_def Let_def into_raw_def)
    then show ?thesis
      using q keeps src.take_body [of item ?s i s1 Q] c Some all by (simp add: all_bodies_into_raw)
  qed
qed

end

section \<open>Well-formed payloads\<close>

definition size_ok :: "usize option \<Rightarrow> bool" where
  "size_ok n \<longleftrightarrow> (\<forall>v \<in> set_option n. v \<noteq> 0 \<and> unat v \<le> 1048576)"

definition batch_config_ok :: "batch_config \<Rightarrow> bool" where
  "batch_config_ok c \<longleftrightarrow> size_ok (bc_max_queue_size c) \<and> size_ok (bc_max_export_batch_size c) \<and>
     bc_scheduled_delay c \<noteq> Some 0 \<and> bc_export_timeout c \<noteq> Some 0"

fun span_processor_ok :: "span_processor_impl \<Rightarrow> bool" where
  "span_processor_ok (SPI_Batch c x) \<longleftrightarrow> batch_config_ok c \<and> bc_export_timeout c = None"
| "span_processor_ok (SPI_Simple x) \<longleftrightarrow> True"

text \<open>A batch never exceeds its queue.\<close>

fun log_processor_ok :: "log_processor_impl \<Rightarrow> bool" where
  "log_processor_ok (LPI_Simple x) \<longleftrightarrow> True"
| "log_processor_ok (LPI_Batch queue batch delay x) \<longleftrightarrow>
     queue \<noteq> Some 0 \<and> batch \<noteq> Some 0 \<and> delay \<noteq> Some 0 \<and>
     (\<forall>q \<in> set_option queue. \<forall>b \<in> set_option batch. b \<le> q)"

text \<open>An async reader owns no blocking exporter; only an async reader has a timeout.\<close>

fun periodic_reader_ok :: "periodic_reader_impl \<Rightarrow> bool" where
  "periodic_reader_ok (PRI_Reader interval x) \<longleftrightarrow> interval \<noteq> Some 0"
| "periodic_reader_ok (PRI_Async interval timeout x) \<longleftrightarrow> interval \<noteq> Some 0 \<and> timeout \<noteq> Some 0 \<and> (\<exists>n. x = MX_Custom n)"

fun metric_reader_ok :: "metric_reader_impl \<Rightarrow> bool" where
  "metric_reader_ok (MRI_Periodic r) \<longleftrightarrow> periodic_reader_ok r"
| "metric_reader_ok (MRI_Manual x) \<longleftrightarrow> True"

definition view_ok :: "metric_view_config \<Rightarrow> bool" where
  "view_ok c \<longleftrightarrow> view_config_ok c \<and>
     (\<forall>pattern \<in> set_option (mv_name_pattern c). length (filter (\<lambda>c. c = star) pattern) \<le> 1)"

fun base_sampler_ok :: "sampler \<Rightarrow> bool" where
  "base_sampler_ok (Sampler_TraceIdRatioBased ratio) \<longleftrightarrow> f64_is_finite ratio \<and> in_unit_interval ratio"
| "base_sampler_ok (Sampler_ParentBased root) \<longleftrightarrow> False"
| "base_sampler_ok _ \<longleftrightarrow> True"

fun sampler_ok :: "sampler \<Rightarrow> bool" where
  "sampler_ok (Sampler_ParentBased root) \<longleftrightarrow> base_sampler_ok root"
| "sampler_ok smp \<longleftrightarrow> base_sampler_ok smp"

definition pipeline_ok ::
  "span_processor_impl list \<Rightarrow> metric_reader_impl list \<Rightarrow> metric_view_config list \<Rightarrow> log_processor_impl list
     \<Rightarrow> sampler option \<Rightarrow> bool" where
  "pipeline_ok sps mrs mvs lps smp \<longleftrightarrow>
     length sps \<le> 64 \<and> list_all span_processor_ok sps \<and> length mrs \<le> 64 \<and> list_all metric_reader_ok mrs \<and>
     length mvs \<le> 1024 \<and> list_all view_ok mvs \<and> length lps \<le> 64 \<and> list_all log_processor_ok lps \<and>
     (\<forall>x \<in> set_option smp. sampler_ok x)"

fun sdk_payload_ok :: "sdk_payload \<Rightarrow> bool" where
  "sdk_payload_ok (SP_BatchBuilder b) \<longleftrightarrow> batch_config_ok (snd b)"
| "sdk_payload_ok (SP_SpanProcessor p) \<longleftrightarrow> span_processor_ok p"
| "sdk_payload_ok (SP_BatchLogBuilder b) \<longleftrightarrow>
     blc_max_queue_size b \<noteq> Some 0 \<and> blc_max_export_batch_size b \<noteq> Some 0 \<and> blc_scheduled_delay_millis b \<noteq> Some 0"
| "sdk_payload_ok (SP_LogProcessor p) \<longleftrightarrow> log_processor_ok p"
| "sdk_payload_ok (SP_PeriodicBuilder b) \<longleftrightarrow>
     prb_runtime b \<in> {READER_RUNTIME_BLOCKING, READER_RUNTIME_ASYNC} \<and> prb_interval b \<noteq> Some 0 \<and> prb_timeout b \<noteq> Some 0"
| "sdk_payload_ok (SP_PeriodicReader r) \<longleftrightarrow> periodic_reader_ok r"
| "sdk_payload_ok (SP_ViewBuilder c) \<longleftrightarrow> view_config_ok c"
| "sdk_payload_ok (SP_View c) \<longleftrightarrow> view_ok c"
| "sdk_payload_ok (SP_SdkBuilder b) \<longleftrightarrow>
     pipeline_ok (sb_processors b) (sb_metric_readers b) (sb_metric_views b) (sb_log_processors b) (sb_sampler b) \<and>
     length (sb_resource_attributes b) \<le> 1024"
| "sdk_payload_ok (SP_Sdk k) \<longleftrightarrow>
     pipeline_ok (sd_processors k) (sd_metric_readers k) (sd_metric_views k) (sd_log_processors k) (sd_sampler k) \<and>
     length (rs_attributes (sd_resource k)) \<le> 1024"
| "sdk_payload_ok _ \<longleftrightarrow> True"

text \<open>The builds.\<close>

named_theorems payload_ok

lemma bounded_optional_size_ok:
  "bounded_optional_size v 1048576 what = Inr n \<Longrightarrow> size_ok n"
  by (auto simp: bounded_optional_size_def size_ok_def split: if_split_asm)

lemma optional_millis_ok [simp]: "optional_millis d \<noteq> Some 0"
  by (simp add: optional_millis_def)

lemma batch_span_build_ok:
  "batch_span_build b = (b', lost, r) \<Longrightarrow> sdk_payload_ok (SP_BatchBuilder b)
     \<Longrightarrow> sdk_payload_ok (SP_BatchBuilder b') \<and> (\<forall>p. r = Inr p \<longrightarrow> sdk_payload_ok (SP_SpanProcessor p))"
  by (auto simp: batch_span_build_def build_processor_def batch_config_ok_def split: option.splits)

lemma batch_log_build_ok:
  "batch_log_build b = (b', lost, r) \<Longrightarrow> sdk_payload_ok (SP_BatchLogBuilder b)
     \<Longrightarrow> sdk_payload_ok (SP_BatchLogBuilder b') \<and> (\<forall>p. r = Inr p \<longrightarrow> sdk_payload_ok (SP_LogProcessor p))"
  by (cases "blc_exporter b"; cases "blc_max_queue_size b"; cases "blc_max_export_batch_size b")
    (auto simp: batch_log_build_def split: if_split_asm)

lemma periodic_build_ok:
  "periodic_build aa start b = (b', lost, r) \<Longrightarrow> sdk_payload_ok (SP_PeriodicBuilder b)
     \<Longrightarrow> sdk_payload_ok (SP_PeriodicBuilder b') \<and> (\<forall>p. r = Inr p \<longrightarrow> sdk_payload_ok (SP_PeriodicReader p))"
  by (cases "prb_exporter b")
    (auto simp: periodic_build_def build_async_reader_def build_reader_def Let_def
      split: if_split_asm metric_exporter_impl.splits option.splits)

lemma view_build_ok:
  "view_build se c = (c', lost, r) \<Longrightarrow> sdk_payload_ok (SP_ViewBuilder c)
     \<Longrightarrow> sdk_payload_ok (SP_ViewBuilder c') \<and> (\<forall>v. r = Inr v \<longrightarrow> sdk_payload_ok (SP_View v))"
  by (auto simp: view_build_def view_ok_def not_less split: if_split_asm sum.splits)

lemma sdk_build_ok:
  "sdk_build b = (b', lost, r) \<Longrightarrow> sdk_payload_ok (SP_SdkBuilder b)
     \<Longrightarrow> sdk_payload_ok (SP_SdkBuilder b') \<and> (\<forall>k. r = Inr k \<longrightarrow> sdk_payload_ok (SP_Sdk k))"
  by (auto simp: sdk_build_def pipeline_ok_def build_resource_def)

text \<open>The transfers into the SDK builder.\<close>

lemma refuse_full_None: "refuse_full al limit m m' xs = None \<Longrightarrow> length xs < limit"
  by (auto simp: refuse_full_def split: if_split_asm)

lemma add_view_ok:
  "refuse_view al b = None \<Longrightarrow> sdk_payload_ok (SP_SdkBuilder b) \<Longrightarrow> sdk_payload_ok (SP_View v)
     \<Longrightarrow> sdk_payload_ok (SP_SdkBuilder (b\<lparr>sb_metric_views := sb_metric_views b @ [v]\<rparr>))"
  by (auto simp: refuse_view_def MAX_METRIC_VIEWS_def pipeline_ok_def dest!: refuse_full_None)

lemma add_reader_ok:
  "refuse_reader al b = None \<Longrightarrow> sdk_payload_ok (SP_SdkBuilder b) \<Longrightarrow> metric_reader_ok r
     \<Longrightarrow> sdk_payload_ok (SP_SdkBuilder (b\<lparr>sb_metric_readers := sb_metric_readers b @ [r]\<rparr>))"
  by (auto simp: refuse_reader_def MAX_METRIC_READERS_def pipeline_ok_def dest!: refuse_full_None)

lemma add_span_processor_ok:
  "refuse_span_processor al b = None \<Longrightarrow> sdk_payload_ok (SP_SdkBuilder b) \<Longrightarrow> sdk_payload_ok (SP_SpanProcessor p)
     \<Longrightarrow> sdk_payload_ok (SP_SdkBuilder (b\<lparr>sb_processors := sb_processors b @ [p]\<rparr>))"
  by (auto simp: refuse_span_processor_def MAX_SPAN_PROCESSORS_def pipeline_ok_def dest!: refuse_full_None)

lemma add_log_processor_ok:
  "refuse_log_processor al b = None \<Longrightarrow> sdk_payload_ok (SP_SdkBuilder b) \<Longrightarrow> sdk_payload_ok (SP_LogProcessor p)
     \<Longrightarrow> sdk_payload_ok (SP_SdkBuilder (b\<lparr>sb_log_processors := sb_log_processors b @ [p]\<rparr>))"
  by (auto simp: refuse_log_processor_def MAX_LOG_PROCESSORS_def pipeline_ok_def dest!: refuse_full_None)

text \<open>The sampler.\<close>

text \<open>An infinite or undefined value has the largest exponent, above that of one.\<close>

lemma f64_key_infinite:
  assumes "\<not> f64_is_finite w"
  shows "f64_key 0x3FF0000000000000 < \<bar>f64_key w\<bar>"
proof -
  let ?m = "w AND 0x7FFFFFFFFFFFFFFF"
  have "drop_bit 52 ?m = drop_bit 52 w AND 0x7FF" by (simp add: drop_bit_and)
  then have "drop_bit 52 ?m = 0x7FF" using assms by (simp add: f64_is_finite_def)
  then have "uint (drop_bit 52 ?m) = uint (0x7FF :: u64)" by (rule arg_cong)
  then have "uint ?m div 2 ^ 52 = 0x7FF" by (simp add: drop_bit_eq_div uint_div_distrib)
  then have "0x7FF0000000000000 \<le> uint ?m" by simp
  moreover have "\<bar>f64_key w\<bar> = uint ?m" by (simp add: f64_key_def Let_def)
  ultimately show ?thesis by (simp add: f64_key_def Let_def)
qed

lemma base_sampler_ok:
  "base_sampler skind ratio = Inr smp \<Longrightarrow> base_sampler_ok smp"
  by (cases "f64_is_finite ratio")
    (use f64_key_infinite [of ratio] in \<open>auto simp: base_sampler_def in_unit_interval_def split: if_split_asm\<close>)

lemma base_sampler_ok_lift: "base_sampler_ok smp \<Longrightarrow> sampler_ok smp"
  by (cases smp) auto

lemma read_sampler_ok: "read_sampler c = Inr smp \<Longrightarrow> sampler_ok smp"
  by (auto simp: read_sampler_def Let_def map_sum_def dest!: base_sampler_ok
      intro: base_sampler_ok_lift split: if_split_asm sum.splits)

end
