(* ===== verification/Sdk_Ownership.thy ===== *)
theory Sdk_Ownership
  imports Sdk_Invariant
begin

text \<open>
  Every sequence of calls on the SDK's builders (\<open>sdk/src\<close>) as a step relation: exporters are created,
  transferred into processors and readers, these into an SDK builder, and the build moves them into the
  SDK; any handle may be destroyed at any time and any call may fail. Two invariants: exporters are
  conserved, and every live handle is well formed.
\<close>

section \<open>Steps\<close>

record sdk_environment =
  en_al :: "nat \<Rightarrow> bool"
  en_stream_error :: "stream_config \<Rightarrow> string option"
  en_async_available :: bool
  en_start :: "string option"
  en_is_current :: "periodic_reader_impl \<Rightarrow> bool"

text \<open>The list is what the step creates: an exporter comes from an exporter builder.\<close>

inductive sdk_step :: "sdk_environment \<Rightarrow> sdk_store \<Rightarrow> exporter list \<Rightarrow> sdk_store \<Rightarrow> bool" for E where
  new_trace_exporter: "sdk_step E s [X_Trace x] (snd (into_raw KIND_TRACE_EXPORTER (SP_TraceExporter x) s))"
| new_metric_exporter: "sdk_step E s [X_Metric y] (snd (into_raw KIND_METRIC_EXPORTER (SP_MetricExporter y) s))"
| new_log_exporter: "sdk_step E s [X_Log z] (snd (into_raw KIND_LOG_EXPORTER (SP_LogExporter z) s))"
| batch_span_new: "sdk_step E s [] (snd (otel_batch_span_processor_builder_new s))"
| batch_span_exporter: "otel_batch_span_processor_builder_set_exporter p i s = Some (st, s') \<Longrightarrow> sdk_step E s [] s'"
| batch_span_queue: "otel_batch_span_processor_builder_set_max_queue_size p n s = Some (st, s') \<Longrightarrow> sdk_step E s [] s'"
| batch_span_delay: "otel_batch_span_processor_builder_set_scheduled_delay_millis p d s = Some (st, s') \<Longrightarrow> sdk_step E s [] s'"
| batch_span_batch: "otel_batch_span_processor_builder_set_max_export_batch_size p n s = Some (st, s') \<Longrightarrow> sdk_step E s [] s'"
| batch_span_timeout: "otel_batch_span_processor_builder_set_export_timeout_millis p d s = Some (st, s') \<Longrightarrow> sdk_step E s [] s'"
| batch_span_build: "otel_batch_span_processor_builder_build p on s = Some (q, st, s') \<Longrightarrow> sdk_step E s [] s'"
| simple_span: "otel_simple_span_processor_create i on s = Some (q, st, s') \<Longrightarrow> sdk_step E s [] s'"
| simple_log: "otel_simple_log_processor_create i on s = Some (q, st, s') \<Longrightarrow> sdk_step E s [] s'"
| batch_log_new: "sdk_step E s [] (snd (otel_batch_log_processor_builder_new s))"
| batch_log_exporter: "otel_batch_log_processor_builder_set_exporter p i s = Some (st, s') \<Longrightarrow> sdk_step E s [] s'"
| batch_log_queue: "otel_batch_log_processor_builder_set_max_queue_size p n s = Some (st, s') \<Longrightarrow> sdk_step E s [] s'"
| batch_log_batch: "otel_batch_log_processor_builder_set_max_export_batch_size p n s = Some (st, s') \<Longrightarrow> sdk_step E s [] s'"
| batch_log_delay: "otel_batch_log_processor_builder_set_scheduled_delay_millis p d s = Some (st, s') \<Longrightarrow> sdk_step E s [] s'"
| batch_log_build: "otel_batch_log_processor_builder_build p on s = Some (q, st, s') \<Longrightarrow> sdk_step E s [] s'"
| periodic_new: "sdk_step E s [] (snd (otel_periodic_metric_reader_builder_new s))"
| periodic_runtime: "otel_periodic_metric_reader_builder_set_runtime p r s = Some (st, s') \<Longrightarrow> sdk_step E s [] s'"
| periodic_interval: "otel_periodic_metric_reader_builder_set_interval_millis p d s = Some (st, s') \<Longrightarrow> sdk_step E s [] s'"
| periodic_timeout: "otel_periodic_metric_reader_builder_set_timeout_millis p d s = Some (st, s') \<Longrightarrow> sdk_step E s [] s'"
| periodic_exporter: "otel_periodic_metric_reader_builder_set_exporter p i s = Some (st, s') \<Longrightarrow> sdk_step E s [] s'"
| periodic_build: "otel_periodic_metric_reader_builder_build (en_async_available E) (en_start E) p on s = Some (q, st, s')
    \<Longrightarrow> sdk_step E s [] s'"
| manual_reader: "otel_manual_metric_reader_new i on s = Some (q, st, s') \<Longrightarrow> sdk_step E s [] s'"
| view_new: "sdk_step E s [] (snd (otel_metric_view_builder_new s))"
| view_string: "set_optional_string (en_al E) field p value s = Some (st, s') \<Longrightarrow> sdk_step E s [] s'"
| view_scope_attribute: "otel_metric_view_builder_add_scope_attribute (en_al E) p a s = Some (st, s') \<Longrightarrow> sdk_step E s [] s'"
| view_kind: "otel_metric_view_builder_set_instrument_kind p ikind s = Some (st, s') \<Longrightarrow> sdk_step E s [] s'"
| view_allowed: "otel_metric_view_builder_add_allowed_attribute (en_al E) p key s = Some (st, s') \<Longrightarrow> sdk_step E s [] s'"
| view_filter: "otel_metric_view_builder_set_attribute_filter_enabled p enabled s = Some (st, s') \<Longrightarrow> sdk_step E s [] s'"
| view_limit: "otel_metric_view_builder_set_cardinality_limit p limit s = Some (st, s') \<Longrightarrow> sdk_step E s [] s'"
| view_aggregation: "otel_metric_view_builder_set_aggregation p agg s = Some (st, s') \<Longrightarrow> sdk_step E s [] s'"
| view_explicit: "otel_metric_view_builder_set_explicit_histogram p bounds n m s = Some (st, s') \<Longrightarrow> sdk_step E s [] s'"
| view_exponential: "otel_metric_view_builder_set_exponential_histogram p mx scale m s = Some (st, s') \<Longrightarrow> sdk_step E s [] s'"
| view_build: "otel_metric_view_builder_build (en_stream_error E) p on s = Some (q, st, s') \<Longrightarrow> sdk_step E s [] s'"
| sdk_new: "sdk_step E s [] (snd (otel_sdk_builder_new s))"
| sdk_view: "otel_sdk_builder_add_metric_view (en_al E) p i s = Some (st, s') \<Longrightarrow> sdk_step E s [] s'"
| sdk_reader: "otel_sdk_builder_add_metric_reader (en_al E) p i s = Some (st, s') \<Longrightarrow> sdk_step E s [] s'"
| sdk_manual_reader: "otel_sdk_builder_add_manual_metric_reader (en_al E) p i s = Some (st, s') \<Longrightarrow> sdk_step E s [] s'"
| sdk_span_processor: "otel_sdk_builder_add_span_processor (en_al E) p i s = Some (st, s') \<Longrightarrow> sdk_step E s [] s'"
| sdk_log_processor: "otel_sdk_builder_add_log_processor (en_al E) p i s = Some (st, s') \<Longrightarrow> sdk_step E s [] s'"
| sdk_service_name: "otel_sdk_builder_set_service_name (en_al E) p name s = Some (st, s') \<Longrightarrow> sdk_step E s [] s'"
| sdk_attribute: "otel_sdk_builder_add_resource_attribute (en_al E) p kv s = Some (st, s') \<Longrightarrow> sdk_step E s [] s'"
| sdk_sampler: "otel_sdk_builder_set_sampler p smp s = Some (st, s') \<Longrightarrow> sdk_step E s [] s'"
| sdk_span_limits: "otel_sdk_builder_set_span_limits p lim s = Some (st, s') \<Longrightarrow> sdk_step E s [] s'"
| sdk_build: "otel_sdk_build p on s = Some (q, st, s') \<Longrightarrow> sdk_step E s [] s'"
| destroy: "destroy_handle K p s = Some s' \<Longrightarrow> K \<noteq> KIND_PERIODIC_METRIC_READER \<Longrightarrow> K \<noteq> KIND_MANUAL_METRIC_READER
    \<Longrightarrow> sdk_step E s [] s'"
| periodic_destroy: "otel_periodic_metric_reader_destroy (en_is_current E) p s = Some s' \<Longrightarrow> sdk_step E s [] s'"
| manual_destroy: "otel_manual_metric_reader_destroy p s = Some s' \<Longrightarrow> sdk_step E s [] s'"

inductive sdk_run :: "sdk_environment \<Rightarrow> exporter list \<Rightarrow> sdk_store \<Rightarrow> bool" for E where
  start: "sdk_run E [] \<lparr>objs = Map.empty, next_addr = 0, last_error = e, sdk_dropped = [], sdk_shut = []\<rparr>"
| step: "sdk_run E created s \<Longrightarrow> sdk_step E s new s' \<Longrightarrow> sdk_run E (created @ new) s'"

section \<open>Exporters are conserved\<close>

lemma take_and_shut_conserves:
  assumes wf: "wf_store sdk_kind s" and mk: "sdk_handle K mk proj" and one: "\<And>y. mset (payload_exporters (mk y)) = {#f y#}"
    and t: "take_handle K proj p s = Some (Some x, s1)"
  shows "conserves s (shutdown_reader (f x) s1)"
  using sdk_handle.take_conserves [OF mk t wf] by (simp add: conserves_def shutdown_reader_def one add.assoc)

lemma periodic_destroy_conserves:
  assumes wf: "wf_store sdk_kind s" and run: "otel_periodic_metric_reader_destroy ic p s = Some s'"
  shows "conserves s s'"
proof -
  obtain r s1 where c: "checked_as KIND_PERIODIC_METRIC_READER as_periodic_reader p s = Some (r, s1)"
    using run by (cases "checked_as KIND_PERIODIC_METRIC_READER as_periodic_reader p s")
      (auto simp: otel_periodic_metric_reader_destroy_def)
  have s1: "s1 = s \<or> (\<exists>m. s1 = set_error_text m s)"
    using c by (auto simp: checked_as_def checked_ref_def split: option.splits if_splits)
  then have w1: "wf_store sdk_kind s1" "conserves s s1" using wf by (auto intro: conserves_refl conserves_error)
  show ?thesis
  proof (cases "\<exists>x \<in> set_option r. ic x")
    case True
    then have e: "s' = set_error_text ''cannot destroy an async periodic Metrics reader from its own runtime callback'' s1"
      using run c by (auto simp: otel_periodic_metric_reader_destroy_def)
    show ?thesis unfolding e by (rule conserves_trans [OF w1(2) conserves_error(1) [OF w1(1)]])
  next
    case False
    obtain q s2 where t: "take_handle KIND_PERIODIC_METRIC_READER as_periodic_reader p s1 = Some (q, s2)"
      using run c False by (cases "take_handle KIND_PERIODIC_METRIC_READER as_periodic_reader p s1")
        (auto simp: otel_periodic_metric_reader_destroy_def)
    show ?thesis
    proof (cases q)
      case None
      then obtain m where m: "s2 = set_error_text m s1" using t take_handle_NoneD by blast
      have e: "s' = set_error_text m s1" unfolding m [symmetric]
        using run c t False None by (auto simp: otel_periodic_metric_reader_destroy_def)
      show ?thesis unfolding e by (rule conserves_trans [OF w1(2) conserves_error(1) [OF w1(1)]])
    next
      case (Some x)
      have e: "s' = shutdown_reader (periodic_reader_exporter x) s2"
        using run c t False Some by (auto simp: otel_periodic_metric_reader_destroy_def)
      show ?thesis unfolding e
        by (rule conserves_trans [OF w1(2) take_and_shut_conserves [OF w1(1) spr.sdk_handle_axioms _ t [unfolded Some]]]) simp
    qed
  qed
qed

lemma manual_destroy_conserves:
  assumes wf: "wf_store sdk_kind s" and run: "otel_manual_metric_reader_destroy p s = Some s'"
  shows "conserves s s'"
proof -
  obtain q s2 where t: "take_handle KIND_MANUAL_METRIC_READER as_manual_reader p s = Some (q, s2)"
    using run by (cases "take_handle KIND_MANUAL_METRIC_READER as_manual_reader p s")
      (auto simp: otel_manual_metric_reader_destroy_def)
  show ?thesis
  proof (cases q)
    case None
    then obtain m where m: "s2 = set_error_text m s" using t take_handle_NoneD by blast
    have e: "s' = set_error_text m s" unfolding m [symmetric]
      using run t None by (auto simp: otel_manual_metric_reader_destroy_def)
    show ?thesis unfolding e by (rule conserves_error(1) [OF wf])
  next
    case (Some x)
    have e: "s' = shutdown_reader (X_Metric x) s2" using run t Some by (auto simp: otel_manual_metric_reader_destroy_def)
    show ?thesis unfolding e
      by (rule take_and_shut_conserves [OF wf smr.sdk_handle_axioms _ t [unfolded Some]]) simp
  qed
qed

lemma create_exporter:
  assumes "wf_store sdk_kind s" and "K = sdk_kind b"
  shows "wf_store sdk_kind (snd (into_raw K b s)) \<and>
    balance (snd (into_raw K b s)) = balance s + mset (payload_exporters b)"
  using owned_into_raw [of K b s] wf_store_into_raw [of sdk_kind s K b] assms
  by (simp add: balance_def add.commute add.left_commute)

section \<open>Every operation is sound\<close>

definition sdk_inv :: "sdk_store \<Rightarrow> bool" where
  "sdk_inv s \<longleftrightarrow> wf_store sdk_kind s \<and> all_bodies sdk_payload_ok s"

definition sound :: "sdk_store \<Rightarrow> sdk_store \<Rightarrow> bool" where
  "sound s s' \<longleftrightarrow> sdk_inv s' \<and> balance s' = balance s"

lemma soundI: "conserves s s' \<Longrightarrow> all_bodies sdk_payload_ok s' \<Longrightarrow> sound s s'"
  by (simp add: sound_def sdk_inv_def conserves_def)

lemma map_sum_Inr: "map_sum id f r = Inr y \<longleftrightarrow> (\<exists>x. r = Inr x \<and> y = f x)"
  by (cases r) auto

context sdk_handle begin

lemma configure_sound:
  assumes "configure K proj mk f p s = Some (st, s')" and "sdk_inv s"
    and "\<And>b b'. f b = Inr b' \<Longrightarrow> mset (payload_exporters (mk b')) = mset (payload_exporters (mk b))"
    and "\<And>b b'. f b = Inr b' \<Longrightarrow> sdk_payload_ok (mk b) \<Longrightarrow> sdk_payload_ok (mk b')"
  shows "sound s s'"
  using configure_conserves [OF assms(1) _ assms(3)] configure_bodies [where Q = sdk_payload_ok, OF assms(1) _ _ assms(4)] assms(2)
  by (intro soundI) (auto simp: sdk_inv_def)

end

context transfer_op begin

lemma transfer_sound:
  assumes "transfer Kb projb mkb Ki proji refuse add replaced p i s = Some (st, s')" and "sdk_inv s"
    and "\<And>b x. refuse b = None \<Longrightarrow> sdk_payload_ok (mkb b) \<Longrightarrow> sdk_payload_ok (mki x) \<Longrightarrow> sdk_payload_ok (mkb (add b x))"
  shows "sound s s'"
  using transfer_facts [OF assms(1)] transfer_bodies [where Q = sdk_payload_ok, OF assms(1) _ assms(3)] assms(2)
  by (intro soundI) (auto simp: sdk_inv_def)

end

context build_op begin

lemma build_sound:
  assumes "build_handle Kb projb mkb Ko mko msg f p on s = Some (q, st, s')" and "sdk_inv s"
    and "\<And>b b' lost r. f b = (b', lost, r) \<Longrightarrow> sdk_payload_ok (mkb b)
      \<Longrightarrow> sdk_payload_ok (mkb b') \<and> (\<forall>product. r = Inr product \<longrightarrow> sdk_payload_ok (mko product))"
  shows "sound s s'"
  using build_conserves [OF assms(1)] build_bodies [where Q = sdk_payload_ok, OF assms(1) _ assms(3)] assms(2)
  by (intro soundI) (auto simp: sdk_inv_def)

end

context wrap_op begin

lemma wrap_sound:
  assumes "wrap_handle Ki proji Ko mko msg i on s = Some (q, st, s')" and "sdk_inv s"
    and "\<And>x. sdk_payload_ok (mki x) \<Longrightarrow> sdk_payload_ok (mko x)"
  shows "sound s s'"
  using wrap_conserves [OF assms(1)] wrap_bodies [where Q = sdk_payload_ok, OF assms(1) _ assms(3)] assms(2)
  by (intro soundI) (auto simp: sdk_inv_def)

end

named_theorems sound_op

lemma new_sound: "sdk_inv s \<Longrightarrow> K = sdk_kind b \<Longrightarrow> payload_exporters b = [] \<Longrightarrow> sdk_payload_ok b
  \<Longrightarrow> sound s (snd (new_handle K b s))"
  by (intro soundI new_handle_conserves all_bodies_new) (auto simp: sdk_inv_def)

lemma news_sound:
  "sdk_inv s \<Longrightarrow> sound s (snd (otel_batch_span_processor_builder_new s))"
  "sdk_inv s \<Longrightarrow> sound s (snd (otel_batch_log_processor_builder_new s))"
  "sdk_inv s \<Longrightarrow> sound s (snd (otel_periodic_metric_reader_builder_new s))"
  "sdk_inv s \<Longrightarrow> sound s (snd (otel_metric_view_builder_new s))"
  "sdk_inv s \<Longrightarrow> sound s (snd (otel_sdk_builder_new s))"
  unfolding otel_batch_span_processor_builder_new_def otel_batch_log_processor_builder_new_def
    otel_periodic_metric_reader_builder_new_def otel_metric_view_builder_new_def otel_sdk_builder_new_def
  by (rule new_sound; simp add: default_batch_config_def default_batch_log_config_def batch_config_ok_def size_ok_def
      empty_sdk_builder_def pipeline_ok_def default_config_ok)+

text \<open>Transfers, builds and wrappers.\<close>

lemmas transfers_sound =
  batch_exporter.transfer_sound [folded otel_batch_span_processor_builder_set_exporter_def]
  batch_log_exporter.transfer_sound [folded otel_batch_log_processor_builder_set_exporter_def]
  periodic_exporter.transfer_sound [folded otel_periodic_metric_reader_builder_set_exporter_def]
  add_view.transfer_sound [folded otel_sdk_builder_add_metric_view_def]
  add_reader.transfer_sound [folded otel_sdk_builder_add_metric_reader_def]
  add_manual_reader.transfer_sound [folded otel_sdk_builder_add_manual_metric_reader_def]
  add_span_processor.transfer_sound [folded otel_sdk_builder_add_span_processor_def]
  add_log_processor.transfer_sound [folded otel_sdk_builder_add_log_processor_def]

lemma set_exporter_sound [sound_op]:
  "otel_batch_span_processor_builder_set_exporter p i s = Some (st, s') \<Longrightarrow> sdk_inv s \<Longrightarrow> sound s s'"
  "otel_batch_log_processor_builder_set_exporter p i s = Some (st, s') \<Longrightarrow> sdk_inv s \<Longrightarrow> sound s s'"
  "otel_periodic_metric_reader_builder_set_exporter p i s = Some (st, s') \<Longrightarrow> sdk_inv s \<Longrightarrow> sound s s'"
  by (erule transfers_sound(1) transfers_sound(2) transfers_sound(3), assumption, simp)+

lemma add_sound [sound_op]:
  "otel_sdk_builder_add_metric_view al p i s = Some (st, s') \<Longrightarrow> sdk_inv s \<Longrightarrow> sound s s'"
  "otel_sdk_builder_add_metric_reader al p i s = Some (st, s') \<Longrightarrow> sdk_inv s \<Longrightarrow> sound s s'"
  "otel_sdk_builder_add_manual_metric_reader al p i s = Some (st, s') \<Longrightarrow> sdk_inv s \<Longrightarrow> sound s s'"
  "otel_sdk_builder_add_span_processor al p i s = Some (st, s') \<Longrightarrow> sdk_inv s \<Longrightarrow> sound s s'"
  "otel_sdk_builder_add_log_processor al p i s = Some (st, s') \<Longrightarrow> sdk_inv s \<Longrightarrow> sound s s'"
  by (erule transfers_sound(4-8), assumption, rule add_view_ok add_reader_ok add_span_processor_ok add_log_processor_ok;
      simp)+

lemma builds_sound [sound_op]:
  "otel_batch_span_processor_builder_build p on s = Some (q, st, s') \<Longrightarrow> sdk_inv s \<Longrightarrow> sound s s'"
  "otel_batch_log_processor_builder_build p on s = Some (q, st, s') \<Longrightarrow> sdk_inv s \<Longrightarrow> sound s s'"
  "otel_periodic_metric_reader_builder_build aa start p on s = Some (q, st, s') \<Longrightarrow> sdk_inv s \<Longrightarrow> sound s s'"
  "otel_metric_view_builder_build se p on s = Some (q, st, s') \<Longrightarrow> sdk_inv s \<Longrightarrow> sound s s'"
  "otel_sdk_build p on s = Some (q, st, s') \<Longrightarrow> sdk_inv s \<Longrightarrow> sound s s'"
  unfolding otel_batch_span_processor_builder_build_def otel_batch_log_processor_builder_build_def
    otel_periodic_metric_reader_builder_build_def otel_metric_view_builder_build_def otel_sdk_build_def
  by (erule batch_processor.build_sound batch_log_processor.build_sound periodic_reader.build_sound view.build_sound
      build_sdk.build_sound, assumption,
      rule batch_span_build_ok batch_log_build_ok periodic_build_ok view_build_ok sdk_build_ok; assumption)+

lemma wraps_sound [sound_op]:
  "otel_simple_span_processor_create i on s = Some (q, st, s') \<Longrightarrow> sdk_inv s \<Longrightarrow> sound s s'"
  "otel_simple_log_processor_create i on s = Some (q, st, s') \<Longrightarrow> sdk_inv s \<Longrightarrow> sound s s'"
  "otel_manual_metric_reader_new i on s = Some (q, st, s') \<Longrightarrow> sdk_inv s \<Longrightarrow> sound s s'"
  unfolding otel_simple_span_processor_create_def otel_simple_log_processor_create_def otel_manual_metric_reader_new_def
  by (erule simple_span.wrap_sound simple_log.wrap_sound manual_reader.wrap_sound, assumption, simp)+

text \<open>Setters.\<close>

lemma batch_config_sound:
  assumes "with_batch_config p f s = Some (st, s')" and "sdk_inv s"
    and "\<And>c c'. f c = Inr c' \<Longrightarrow> batch_config_ok c \<Longrightarrow> batch_config_ok c'"
  shows "sound s s'"
  using assms(1) unfolding with_batch_config_def
  by (rule sbb.configure_sound [OF _ assms(2)]) (auto simp: map_sum_Inr assms(3))

lemma batch_log_config_sound:
  assumes "with_batch_log_config p f s = Some (st, s')" and "sdk_inv s"
    and "\<And>b b'. f b = Inr b' \<Longrightarrow> blc_exporter b' = blc_exporter b"
    and "\<And>b b'. f b = Inr b' \<Longrightarrow> sdk_payload_ok (SP_BatchLogBuilder b) \<Longrightarrow> sdk_payload_ok (SP_BatchLogBuilder b')"
  shows "sound s s'"
  using assms(1) unfolding with_batch_log_config_def
  by (rule sbl.configure_sound [OF _ assms(2)]) (simp_all only: payload_exporters.simps assms(3,4))

lemma periodic_builder_sound:
  assumes "with_periodic_builder p f s = Some (st, s')" and "sdk_inv s"
    and "\<And>b b'. f b = Inr b' \<Longrightarrow> prb_exporter b' = prb_exporter b"
    and "\<And>b b'. f b = Inr b' \<Longrightarrow> sdk_payload_ok (SP_PeriodicBuilder b) \<Longrightarrow> sdk_payload_ok (SP_PeriodicBuilder b')"
  shows "sound s s'"
  using assms(1) unfolding with_periodic_builder_def
  by (rule spb.configure_sound [OF _ assms(2)]) (simp_all only: payload_exporters.simps assms(3,4))

lemma view_config_sound:
  assumes "with_view_config p f s = Some (st, s')" and "sdk_inv s"
    and "\<And>c c'. f c = Inr c' \<Longrightarrow> view_config_ok c \<Longrightarrow> view_config_ok c'"
  shows "sound s s'"
  using assms(1) unfolding with_view_config_def
  by (rule svb.configure_sound [OF _ assms(2)]) (simp_all add: assms(3))

lemma sdk_builder_sound:
  assumes "with_sdk_builder p f s = Some (st, s')" and "sdk_inv s"
    and "\<And>b b'. f b = Inr b' \<Longrightarrow> sb_metric_readers b' = sb_metric_readers b \<and> sb_processors b' = sb_processors b \<and>
       sb_log_processors b' = sb_log_processors b \<and> sb_metric_views b' = sb_metric_views b"
    and "\<And>b b'. f b = Inr b' \<Longrightarrow> sdk_payload_ok (SP_SdkBuilder b) \<Longrightarrow>
       (\<forall>x \<in> set_option (sb_sampler b'). sampler_ok x) \<and> length (sb_resource_attributes b') \<le> 1024"
  shows "sound s s'"
proof (rule ssb.configure_sound [OF assms(1) [unfolded with_sdk_builder_def] assms(2)])
  fix b b' assume f: "f b = Inr b'"
  then show "mset (payload_exporters (SP_SdkBuilder b')) = mset (payload_exporters (SP_SdkBuilder b))"
    using assms(3) by simp
  assume ok: "sdk_payload_ok (SP_SdkBuilder b)"
  note same = assms(3) [OF f] and new = assms(4) [OF f ok]
  show "sdk_payload_ok (SP_SdkBuilder b')"
    using ok new unfolding sdk_payload_ok.simps pipeline_ok_def by (simp only: same) blast
qed

lemma batch_span_setters_sound [sound_op]:
  "otel_batch_span_processor_builder_set_max_queue_size p n s = Some (st, s') \<Longrightarrow> sdk_inv s \<Longrightarrow> sound s s'"
  "otel_batch_span_processor_builder_set_scheduled_delay_millis p d s = Some (st, s') \<Longrightarrow> sdk_inv s \<Longrightarrow> sound s s'"
  "otel_batch_span_processor_builder_set_max_export_batch_size p n s = Some (st, s') \<Longrightarrow> sdk_inv s \<Longrightarrow> sound s s'"
  "otel_batch_span_processor_builder_set_export_timeout_millis p d s = Some (st, s') \<Longrightarrow> sdk_inv s \<Longrightarrow> sound s s'"
  unfolding otel_batch_span_processor_builder_set_max_queue_size_def
    otel_batch_span_processor_builder_set_scheduled_delay_millis_def
    otel_batch_span_processor_builder_set_max_export_batch_size_def
    otel_batch_span_processor_builder_set_export_timeout_millis_def
  by (erule batch_config_sound, assumption,
      clarsimp simp: batch_config_ok_def map_sum_Inr MAX_BATCH_QUEUE_SIZE_def MAX_BATCH_EXPORT_BATCH_SIZE_def
        dest!: bounded_optional_size_ok)+

lemma batch_log_setters_sound [sound_op]:
  "otel_batch_log_processor_builder_set_max_queue_size p n s = Some (st, s') \<Longrightarrow> sdk_inv s \<Longrightarrow> sound s s'"
  "otel_batch_log_processor_builder_set_max_export_batch_size p n s = Some (st, s') \<Longrightarrow> sdk_inv s \<Longrightarrow> sound s s'"
  "otel_batch_log_processor_builder_set_scheduled_delay_millis p d s = Some (st, s') \<Longrightarrow> sdk_inv s \<Longrightarrow> sound s s'"
  unfolding otel_batch_log_processor_builder_set_max_queue_size_def
    otel_batch_log_processor_builder_set_max_export_batch_size_def
    otel_batch_log_processor_builder_set_scheduled_delay_millis_def
  by (erule batch_log_config_sound, assumption, auto split: if_split_asm)+

lemma periodic_setters_sound [sound_op]:
  "otel_periodic_metric_reader_builder_set_interval_millis p d s = Some (st, s') \<Longrightarrow> sdk_inv s \<Longrightarrow> sound s s'"
  "otel_periodic_metric_reader_builder_set_timeout_millis p d s = Some (st, s') \<Longrightarrow> sdk_inv s \<Longrightarrow> sound s s'"
  unfolding otel_periodic_metric_reader_builder_set_interval_millis_def
    otel_periodic_metric_reader_builder_set_timeout_millis_def
  by (erule periodic_builder_sound, assumption, auto)+

lemma runtime_codes: "\<not> READER_RUNTIME_ASYNC < r \<Longrightarrow> r = READER_RUNTIME_BLOCKING \<or> r = READER_RUNTIME_ASYNC"
  unfolding READER_RUNTIME_ASYNC_def READER_RUNTIME_BLOCKING_def
  by (auto simp: word_less_nat_alt not_less le_Suc_eq word_unat_eq_iff)

lemma periodic_runtime_sound [sound_op]:
  assumes "otel_periodic_metric_reader_builder_set_runtime p r s = Some (st, s')" and "sdk_inv s"
  shows "sound s s'"
  using assms(1) unfolding otel_periodic_metric_reader_builder_set_runtime_def
  by (rule periodic_builder_sound [OF _ assms(2)]) (auto split: if_split_asm dest: runtime_codes)

lemma view_setters_sound [sound_op]:
  "set_optional_string al field p v s = Some (st, s') \<Longrightarrow> sdk_inv s \<Longrightarrow> sound s s'"
  "otel_metric_view_builder_add_scope_attribute al p a s = Some (st, s') \<Longrightarrow> sdk_inv s \<Longrightarrow> sound s s'"
  "otel_metric_view_builder_set_instrument_kind p ikind s = Some (st, s') \<Longrightarrow> sdk_inv s \<Longrightarrow> sound s s'"
  "otel_metric_view_builder_add_allowed_attribute al p key s = Some (st, s') \<Longrightarrow> sdk_inv s \<Longrightarrow> sound s s'"
  "otel_metric_view_builder_set_cardinality_limit p limit s = Some (st, s') \<Longrightarrow> sdk_inv s \<Longrightarrow> sound s s'"
  "otel_metric_view_builder_set_aggregation p agg s = Some (st, s') \<Longrightarrow> sdk_inv s \<Longrightarrow> sound s s'"
  "otel_metric_view_builder_set_exponential_histogram p mx scale m s = Some (st, s') \<Longrightarrow> sdk_inv s \<Longrightarrow> sound s s'"
  unfolding set_optional_string_def otel_metric_view_builder_add_scope_attribute_def
    otel_metric_view_builder_set_instrument_kind_def otel_metric_view_builder_add_allowed_attribute_def
    otel_metric_view_builder_set_cardinality_limit_def otel_metric_view_builder_set_aggregation_def
    otel_metric_view_builder_set_exponential_histogram_def
  by (erule view_config_sound, assumption, auto simp: map_sum_Inr intro: view_ok)+

lemma view_filter_sound [sound_op]:
  assumes "otel_metric_view_builder_set_attribute_filter_enabled p enabled s = Some (st, s')" and "sdk_inv s"
  shows "sound s s'"
  using assms(1) unfolding otel_metric_view_builder_set_attribute_filter_enabled_def
  by (rule view_config_sound [OF _ assms(2)]) (auto simp: view_config_ok_def)

lemma view_explicit_sound [sound_op]:
  assumes "otel_metric_view_builder_set_explicit_histogram p bounds n m s = Some (st, s')" and "sdk_inv s"
  shows "sound s s'"
proof -
  obtain r where r: "with_view_config p
      (\<lambda>c. map_sum id (\<lambda>bs. c\<lparr>mv_aggregation := Agg_ExplicitHistogram bs (m \<noteq> 0)\<rparr>) r) s = Some (st, s')"
    "\<And>bs. r = Inr bs \<Longrightarrow> copy_boundaries bounds n = Some (Inr bs)"
    using set_explicit_histogram_configure [OF assms(1)] by blast
  show ?thesis
    by (rule view_config_sound [OF r(1) assms(2)]) (auto simp: map_sum_Inr intro: set_explicit_histogram_ok dest: r(2))
qed

lemma sdk_setters_sound [sound_op]:
  "otel_sdk_builder_set_service_name al p name s = Some (st, s') \<Longrightarrow> sdk_inv s \<Longrightarrow> sound s s'"
  "otel_sdk_builder_add_resource_attribute al p kv s = Some (st, s') \<Longrightarrow> sdk_inv s \<Longrightarrow> sound s s'"
  "otel_sdk_builder_set_sampler p smp s = Some (st, s') \<Longrightarrow> sdk_inv s \<Longrightarrow> sound s s'"
  "otel_sdk_builder_set_span_limits p lim s = Some (st, s') \<Longrightarrow> sdk_inv s \<Longrightarrow> sound s s'"
  unfolding otel_sdk_builder_set_service_name_def otel_sdk_builder_add_resource_attribute_def
    otel_sdk_builder_set_sampler_def otel_sdk_builder_set_span_limits_def
  by (erule sdk_builder_sound, assumption,
      auto simp: map_sum_Inr add_resource_attribute_def MAX_RESOURCE_ATTRIBUTES_def pipeline_ok_def
        dest!: refuse_full_None read_sampler_ok split: option.split_asm)+

text \<open>Destruction.\<close>

lemma destroy_sound [sound_op]:
  "destroy_handle K p s = Some s' \<Longrightarrow> sdk_inv s \<Longrightarrow> sound s s'"
  by (intro soundI) (auto simp: sdk_inv_def intro: destroy_handle_conserves all_bodies_destroy)

lemma reader_destroy_sound [sound_op]:
  "otel_periodic_metric_reader_destroy ic p s = Some s' \<Longrightarrow> sdk_inv s \<Longrightarrow> sound s s'"
  "otel_manual_metric_reader_destroy p s = Some s' \<Longrightarrow> sdk_inv s \<Longrightarrow> sound s s'"
proof -
  show "sound s s'" if run: "otel_periodic_metric_reader_destroy ic p s = Some s'" and inv: "sdk_inv s"
  proof (rule soundI [OF periodic_destroy_conserves [OF _ run]])
    show "wf_store sdk_kind s" using inv by (simp add: sdk_inv_def)
    show "all_bodies sdk_payload_ok s'"
      using run inv by (auto simp: sdk_inv_def otel_periodic_metric_reader_destroy_def shutdown_reader_def
        dest!: all_bodies_checked [where Q = sdk_payload_ok] all_bodies_take [where Q = sdk_payload_ok]
        split: option.split_asm if_split_asm)
  qed
  show "sound s s'" if run: "otel_manual_metric_reader_destroy p s = Some s'" and inv: "sdk_inv s"
  proof (rule soundI [OF manual_destroy_conserves [OF _ run]])
    show "wf_store sdk_kind s" using inv by (simp add: sdk_inv_def)
    show "all_bodies sdk_payload_ok s'"
      using run inv by (auto simp: sdk_inv_def otel_manual_metric_reader_destroy_def shutdown_reader_def
        dest!: all_bodies_take [where Q = sdk_payload_ok] split: option.split_asm)
  qed
qed

section \<open>Reachable states\<close>

lemma create_sound:
  assumes "sdk_inv s" and "K = sdk_kind b" and "sdk_payload_ok b"
  shows "sdk_inv (snd (into_raw K b s)) \<and> balance (snd (into_raw K b s)) = balance s + mset (payload_exporters b)"
  using create_exporter [of s K b] assms by (simp add: sdk_inv_def all_bodies_into_raw)

lemma creations_sound:
  assumes "sdk_inv s"
  shows "sdk_inv (snd (into_raw KIND_TRACE_EXPORTER (SP_TraceExporter x) s))"
    "balance (snd (into_raw KIND_TRACE_EXPORTER (SP_TraceExporter x) s)) = add_mset (X_Trace x) (balance s)"
    "sdk_inv (snd (into_raw KIND_METRIC_EXPORTER (SP_MetricExporter y) s))"
    "balance (snd (into_raw KIND_METRIC_EXPORTER (SP_MetricExporter y) s)) = add_mset (X_Metric y) (balance s)"
    "sdk_inv (snd (into_raw KIND_LOG_EXPORTER (SP_LogExporter z) s))"
    "balance (snd (into_raw KIND_LOG_EXPORTER (SP_LogExporter z) s)) = add_mset (X_Log z) (balance s)"
  using create_sound [OF assms, of KIND_TRACE_EXPORTER "SP_TraceExporter x"]
    create_sound [OF assms, of KIND_METRIC_EXPORTER "SP_MetricExporter y"]
    create_sound [OF assms, of KIND_LOG_EXPORTER "SP_LogExporter z"] by simp_all

lemma sdk_step_inv:
  assumes "sdk_step E s new s'" and inv: "sdk_inv s"
  shows "sdk_inv s' \<and> balance s' = balance s + mset new"
proof (cases "new = []")
  case True
  with assms(1) have "sound s s'" by cases (auto intro: sound_op [OF _ inv] news_sound [OF inv])
  with True show ?thesis by (simp add: sound_def)
next
  case False
  with assms(1) show ?thesis
    by cases (simp_all add: creations_sound [OF inv])
qed

lemma sdk_run_inv: "sdk_run E created s \<Longrightarrow> sdk_inv s \<and> balance s = mset created"
proof (induction rule: sdk_run.induct)
  case (start e)
  show ?case by (simp add: sdk_inv_def all_bodies_def wf_store_def balance_def owned_def)
next
  case (step created s new s')
  then show ?case using sdk_step_inv [of E s new s'] by simp
qed

lemma contents_owned: "x \<in># contents s a \<Longrightarrow> wf_store sdk_kind s \<Longrightarrow> a < next_addr s"
  by (auto simp: contents_def wf_store_def split: option.splits)

lemma count_owned: "count (owned s) x = (\<Sum>a<next_addr s. count (contents s a) x)"
  by (simp add: owned_def count_sum)

lemma distinct_submultiset:
  assumes "mset xs \<subseteq># mset_set A" and "finite A"
  shows "distinct xs"
proof -
  have "count (mset xs) x \<le> 1" for x
  proof -
    have "count (mset xs) x \<le> count (mset_set A) x" by (rule mset_subset_eq_count [OF assms(1)])
    also have "\<dots> \<le> 1" by (simp add: count_mset_set')
    finally show ?thesis .
  qed
  then have "count (mset xs) x = (if x \<in> set xs then 1 else 0)" for x
    by (metis One_nat_def count_mset_0_iff le_SucE le_zero_eq)
  then show ?thesis by (simp add: distinct_count_atmost_1)
qed

lemma sum_one_unique:
  fixes f :: "nat \<Rightarrow> nat"
  assumes "(\<Sum>a<n. f a) = 1" and "\<And>a. f a \<noteq> 0 \<Longrightarrow> a < n"
  shows "\<exists>!a. f a \<noteq> 0"
proof -
  obtain a where a: "a < n" "f a \<noteq> 0" using assms(1) by (metis (no_types, lifting) lessThan_iff one_neq_zero sum.neutral)
  have "f b = 0" if "b \<noteq> a" for b
  proof (rule ccontr)
    assume "f b \<noteq> 0"
    then have "b < n" using assms(2) by blast
    have "f a + f b \<le> (\<Sum>a<n. f a)"
      using sum_mono2 [of "{..<n}" "{a, b}" f] a(1) \<open>b < n\<close> that by (simp add: add.commute)
    then show False using assms(1) a(2) \<open>f b \<noteq> 0\<close> by simp
  qed
  note zero = this
  show ?thesis
  proof (rule ex1I [of _ a])
    show "b = a" if "f b \<noteq> 0" for b
    proof (rule ccontr)
      assume "b \<noteq> a"
      then have "f b = 0" by (rule zero)
      with that show False by simp
    qed
  qed (rule a(2))
qed

text \<open>
  C28: No exporter is lost, shared or released twice. After any sequence of calls on the SDK's builders,
  processors, readers and SDK handles, with any arguments that keep the handle contract, whatever
  fails on the way, each exporter that was created is either owned by exactly one live handle,
  directly or through what that handle owns, or it has been dropped, exactly once, and no live handle
  owns it.
\<close>

theorem exporters_owned_once_or_dropped_once:
  assumes run: "sdk_run E created s" and "distinct created" and x: "x \<in> set created"
  shows "distinct (sdk_dropped s) \<and>
    (if x \<in> set (sdk_dropped s) then \<forall>a. x \<notin># contents s a else \<exists>!a. x \<in># contents s a)"
proof -
  have inv: "wf_store sdk_kind s" "owned s + mset (sdk_dropped s) = mset created"
    using sdk_run_inv [OF run] by (simp_all add: sdk_inv_def balance_def)
  have "mset (sdk_dropped s) \<subseteq># mset created" using inv(2) by (metis mset_subset_eq_add_right)
  then have "mset (remdups created) = mset created \<and> mset (sdk_dropped s) \<subseteq># mset_set (set created)"
    using assms(2) by (simp add: mset_set_set distinct_remdups_id)
  then have d: "distinct (sdk_dropped s)" by (auto intro: distinct_submultiset)
  have c: "count (owned s) x + count (mset (sdk_dropped s)) x = 1"
    using inv(2) x assms(2) by (metis count_union distinct_count_atmost_1)
  show ?thesis
  proof (cases "x \<in> set (sdk_dropped s)")
    case True
    then have "count (mset (sdk_dropped s)) x \<noteq> 0" by simp
    then have "count (owned s) x = 0" using c by linarith
    then have "x \<notin># contents s a" if "a < next_addr s" for a
      using that by (simp add: count_owned not_in_iff)
    then show ?thesis using True d contents_owned [OF _ inv(1)] by auto
  next
    case False
    then have "count (mset (sdk_dropped s)) x = 0" by simp
    then have "(\<Sum>a<next_addr s. count (contents s a) x) = 1" using c unfolding count_owned by linarith
    then have "\<exists>!a. count (contents s a) x \<noteq> 0"
      by (rule sum_one_unique) (use contents_owned [OF _ inv(1)] in \<open>auto simp: count_eq_zero_iff\<close>)
    then show ?thesis using False d by (simp add: count_eq_zero_iff)
  qed
qed

text \<open>
  C31: Every live handle of the SDK is well formed, after any sequence of calls: batch sizes and
  queues are within their limits and a log batch never exceeds its queue, an async reader never owns
  a blocking exporter, a view has sorted finite boundaries, unique scope keys and at most one
  wildcard, a sampler's ratio lies in the unit interval and is never nested twice, and an SDK owns at most
  64 processors and readers per signal and 1024 views.
\<close>

theorem sdk_handles_well_formed:
  assumes "sdk_run E created s" and "objs s a = Some h"
  shows "is_live (header h) \<and> kind (header h) = sdk_kind (body h) \<and> sdk_payload_ok (body h)"
  using sdk_run_inv [OF assms(1)] assms(2) by (auto simp: sdk_inv_def wf_store_def all_bodies_def)

definition sample_environment :: sdk_environment where
  "sample_environment =
     \<lparr>en_al = \<lambda>_. True, en_stream_error = \<lambda>_. None, en_async_available = False, en_start = None, en_is_current = \<lambda>_. False\<rparr>"

definition sample_sdk_store :: sdk_store where
  "sample_sdk_store =
     \<lparr>objs = [1 \<mapsto> \<lparr>header = header_new KIND_SPAN_PROCESSOR, body = SP_SpanProcessor (SPI_Simple (TX_Custom 7))\<rparr>],
      next_addr = 2, last_error = None, sdk_dropped = [], sdk_shut = []\<rparr>"

lemma sample_sdk_run: "sdk_run sample_environment [X_Trace (TX_Custom 7)] sample_sdk_store"
proof -
  let ?s0 = "\<lparr>objs = Map.empty, next_addr = 0, last_error = None, sdk_dropped = [], sdk_shut = []\<rparr> :: sdk_store"
  let ?s1 = "snd (into_raw KIND_TRACE_EXPORTER (SP_TraceExporter (TX_Custom 7)) ?s0)"
  have "sdk_run sample_environment ([] @ [X_Trace (TX_Custom 7)]) ?s1"
    by (rule sdk_run.step [OF sdk_run.start sdk_step.new_trace_exporter])
  moreover have "otel_simple_span_processor_create (Some 0) False ?s1 = Some (Some (Some 1), St_Ok, sample_sdk_store)"
    by (simp add: otel_simple_span_processor_create_def wrap_handle_def take_handle_def into_raw_def clear_last_error_def
        sample_sdk_store_def as_trace_exporter_def Let_def)
  then have "sdk_step sample_environment ?s1 [] sample_sdk_store" by (rule sdk_step.simple_span)
  ultimately show ?thesis using sdk_run.step by fastforce
qed

theorem exporters_owned_once_or_dropped_once_witness:
  "\<exists>!a. X_Trace (TX_Custom 7) \<in># contents sample_sdk_store a"
  using exporters_owned_once_or_dropped_once [OF sample_sdk_run, of "X_Trace (TX_Custom 7)"]
  by (simp add: sample_sdk_store_def)

theorem sdk_handles_well_formed_witness:
  "sdk_payload_ok (SP_SpanProcessor (SPI_Simple (TX_Custom 7))) \<and> is_live (header_new KIND_SPAN_PROCESSOR)"
  using sdk_handles_well_formed [OF sample_sdk_run, of 1] by (simp add: sample_sdk_store_def)

section \<open>Single operations\<close>

text \<open>
  A metric reader moves into the SDK builder, or stays with the caller. For live handles the
  transfer succeeds exactly when the builder holds fewer than 64 readers and there is room for one more:
  then the reader is the last one of the builder and its handle is gone. Otherwise the status
  says whether the limit or the allocation failed, and no handle has changed.
\<close>

theorem metric_reader_transfer:
  assumes wf: "wf_store sdk_kind s" and b: "points_to s builder (SP_SdkBuilder b)" and i: "points_to s (Some a) (SP_PeriodicReader r)"
  shows "\<exists>st s'. otel_sdk_builder_add_metric_reader al builder (Some a) s = Some (st, s') \<and>
    (if length (sb_metric_readers b) < 64 \<and> al (Suc (length (sb_metric_readers b)))
     then st = St_Ok \<and> objs s' a = None \<and>
       points_to s' builder (SP_SdkBuilder (b\<lparr>sb_metric_readers := sb_metric_readers b @ [MRI_Periodic r]\<rparr>))
     else st = (if length (sb_metric_readers b) < 64 then St_InternalError else St_InvalidConfig) \<and> objs s' = objs s)"
proof -
  note run = add_reader.transfer_runs [OF wf b i, of al, folded otel_sdk_builder_add_metric_reader_def]
  show ?thesis
  proof (cases "refuse_reader al b")
    case (Some e)
    then show ?thesis
      using run by (auto simp: fail_abi_def refuse_reader_def refuse_full_def MAX_METRIC_READERS_def abi_error_new_def
          split: if_split_asm)
  next
    case None
    have len: "length (sb_metric_readers b) < 64" "al (Suc (length (sb_metric_readers b)))"
      using None by (auto simp: refuse_reader_def refuse_full_def MAX_METRIC_READERS_def split: if_split_asm)
    let ?s = "clear_last_error s\<lparr>objs := (objs s)(a := None)\<rparr>"
    let ?b = "SP_SdkBuilder (b\<lparr>sb_metric_readers := sb_metric_readers b @ [MRI_Periodic r]\<rparr>)"
    have ne: "builder \<noteq> Some a" using b i by (auto simp: points_to_def)
    then have "points_to ?s builder (SP_SdkBuilder b)" using b by (auto simp: points_to_def split: option.splits)
    then have "points_to (put_ptr builder ?b ?s) builder ?b" by (rule points_to_putI)
    moreover have "objs (put_ptr builder ?b ?s) a = None"
      using ne by (auto simp: put_ptr_def put_body_def split: option.splits)
    ultimately show ?thesis using run None len by (simp add: points_to_cong [of "drop_exporters [] _"])
  qed
qed

text \<open>
  Building an SDK moves everything out of the builder. For a live builder the build succeeds; the
  SDK has the processors, readers and views in the order they were added, the sampler and the limits that
  were set, and the resource. What is left in the builder is the resource: a second build yields an SDK
  with the same resource and nothing else, and leaves the first SDK as it is.
\<close>

theorem sdk_build_moves_pipeline:
  assumes wf: "wf_store sdk_kind s" and b: "points_to s builder (SP_SdkBuilder b)"
  shows "\<exists>p s1 k q s2 k2. otel_sdk_build builder False s = Some (Some p, St_Ok, s1) \<and>
     points_to s1 p (SP_Sdk k) \<and> sd_processors k = sb_processors b \<and> sd_metric_readers k = sb_metric_readers b \<and>
     sd_metric_views k = sb_metric_views b \<and> sd_log_processors k = sb_log_processors b \<and> sd_sampler k = sb_sampler b \<and>
     sd_span_limits k = sb_span_limits b \<and> sd_resource k = build_resource b \<and>
     otel_sdk_build builder False s1 = Some (Some q, St_Ok, s2) \<and>
     points_to s2 q (SP_Sdk k2) \<and> sd_resource k2 = build_resource b \<and>
     payload_exporters (SP_Sdk k2) = [] \<and> sd_metric_views k2 = [] \<and> sd_sampler k2 = None \<and> sd_span_limits k2 = None \<and>
     points_to s2 p (SP_Sdk k)"
proof -
  let ?b = "fst (sdk_build b)" and ?k = "projr (snd (snd (sdk_build b)))" and ?k2 = "projr (snd (snd (sdk_build (fst (sdk_build b)))))"
  let ?t1 = "drop_exporters [] (put_ptr builder (SP_SdkBuilder ?b) (clear_last_error s))"
  let ?s1 = "snd (into_raw KIND_SDK (SP_Sdk ?k) ?t1)" and ?p = "fst (into_raw KIND_SDK (SP_Sdk ?k) ?t1)"
  have r1: "otel_sdk_build builder False s = Some (Some ?p, St_Ok, ?s1)"
    unfolding otel_sdk_build_def build_sdk.build_runs [OF wf b] by (simp add: sdk_build_def)
  have wf1: "wf_store sdk_kind ?s1"
    using build_sdk.build_conserves [OF r1 [unfolded otel_sdk_build_def] wf] by (rule conserves_wf)
  have wt: "wf_store sdk_kind ?t1"
    using ssb.put_conserves [of "clear_last_error s" builder b ?b] wf b by simp
  have "points_to ?t1 builder (SP_SdkBuilder ?b)"
    using points_to_putI [of "clear_last_error s" builder "SP_SdkBuilder b" "SP_SdkBuilder ?b"] b
    by (simp add: points_to_cong [of "drop_exporters [] _"])
  then have b1: "points_to ?s1 builder (SP_SdkBuilder ?b)" by (rule points_to_into_raw_old [OF wf_store_fresh [OF wt]])
  have p1: "points_to ?s1 ?p (SP_Sdk ?k)" by (rule hsdk.points_to_into_raw)
  let ?t2 = "drop_exporters [] (put_ptr builder (SP_SdkBuilder (fst (sdk_build ?b))) (clear_last_error ?s1))"
  let ?s2 = "snd (into_raw KIND_SDK (SP_Sdk ?k2) ?t2)" and ?q = "fst (into_raw KIND_SDK (SP_Sdk ?k2) ?t2)"
  have r2: "otel_sdk_build builder False ?s1 = Some (Some ?q, St_Ok, ?s2)"
    unfolding otel_sdk_build_def build_sdk.build_runs [OF wf1 b1] by (simp add: sdk_build_def)
  have wt2: "wf_store sdk_kind ?t2"
    using ssb.put_conserves [of "clear_last_error ?s1" builder ?b "fst (sdk_build ?b)"] wf1 b1 by simp
  have "builder \<noteq> ?p" using b1 p1 points_to_unique [of ?s1 builder] by auto
  then have "points_to ?t2 ?p (SP_Sdk ?k)"
    using points_to_put_other [of builder "?p" _ "clear_last_error ?s1"] p1
    by (simp add: points_to_cong [of "drop_exporters [] _"])
  then have p2: "points_to ?s2 ?p (SP_Sdk ?k)" by (rule points_to_into_raw_old [OF wf_store_fresh [OF wt2]])
  have q2: "points_to ?s2 ?q (SP_Sdk ?k2)" by (rule hsdk.points_to_into_raw)
  show ?thesis
    by (rule exI [of _ ?p], rule exI [of _ ?s1], rule exI [of _ ?k], rule exI [of _ ?q], rule exI [of _ ?s2], rule exI [of _ ?k2],
        intro conjI r1 p1 r2 q2 p2) (simp_all add: sdk_build_def build_resource_def)
qed

text \<open>A builder with one manual reader, and a periodic reader beside it.\<close>

definition sample_reader :: periodic_reader_impl where
  "sample_reader = PRI_Reader (Some 1000) (MX_OtlpHttp 3)"

definition sample_builder :: sdk_builder where
  "sample_builder = empty_sdk_builder\<lparr>sb_metric_readers := [MRI_Manual (MX_Custom 1)]\<rparr>"

definition sample_builder_store :: sdk_store where
  "sample_builder_store =
     \<lparr>objs = [0 \<mapsto> \<lparr>header = header_new KIND_SDK_BUILDER, body = SP_SdkBuilder sample_builder\<rparr>,
             1 \<mapsto> \<lparr>header = header_new KIND_PERIODIC_METRIC_READER, body = SP_PeriodicReader sample_reader\<rparr>],
      next_addr = 2, last_error = None, sdk_dropped = [], sdk_shut = []\<rparr>"

lemma sample_builder_store_facts:
  "wf_store sdk_kind sample_builder_store"
  "points_to sample_builder_store (Some 0) (SP_SdkBuilder sample_builder)"
  "points_to sample_builder_store (Some 1) (SP_PeriodicReader sample_reader)"
  by (auto simp: wf_store_def sample_builder_store_def points_to_def)

theorem metric_reader_transfer_witness:
  "\<exists>s'. otel_sdk_builder_add_metric_reader (\<lambda>_. True) (Some 0) (Some 1) sample_builder_store = Some (St_Ok, s') \<and>
     objs s' 1 = None"
  using metric_reader_transfer [OF sample_builder_store_facts, of "\<lambda>_. True"] by (auto simp: sample_builder_def)

theorem sdk_build_moves_pipeline_witness:
  "\<exists>p s1 k. otel_sdk_build (Some 0) False sample_builder_store = Some (Some p, St_Ok, s1) \<and>
     points_to s1 p (SP_Sdk k) \<and> sd_metric_readers k = [MRI_Manual (MX_Custom 1)]"
  using sdk_build_moves_pipeline [OF sample_builder_store_facts(1,2)] by (auto simp: sample_builder_def)

end
