(* ===== verification/Provider_Registry.thy ===== *)
theory Provider_Registry
  imports Backed_Handles
begin

text \<open>
  What the SDK relies on when it hands a provider to the API library: the contract of the internal
  registration interface (\<open>api/src/global.rs\<close>, \<open>api/src/metrics_global.rs\<close>, \<open>api/src/logs_global.rs\<close>) as
  locales, interpreted on the API's own definitions. A context is one reference that its creator owns;
  each operation says where this reference goes.
\<close>

section \<open>Provider handles\<close>

locale provider_handles =
  fixes R :: "addr \<Rightarrow> ptr \<Rightarrow> res"
    and compatible :: "otel_vtable_header \<Rightarrow> bool"
    and provider_new :: "'e implementation \<Rightarrow> ptr \<Rightarrow> ptr \<Rightarrow> 'e process \<Rightarrow> ptr \<times> 'e process"
  assumes new_ok: "proc_inv s \<Longrightarrow> 1 \<le> external (R vt c) s \<Longrightarrow> compatible (im_header im vt) \<Longrightarrow>
      \<exists>h s'. provider_new im (Some vt) c s = (Some h, s') \<and> proc_inv s' \<and> slots_same s s' \<and>
        (\<forall>q. external q s' = external q s - of_bool (q = R vt c)) \<and> calls s' = calls s"
    and new_refused: "\<not> compatible (im_header im vt) \<Longrightarrow>
      \<exists>s'. provider_new im (Some vt) c s = (None, s') \<and> same_api s s' \<and> calls s' = calls s"

section \<open>Registration with a token\<close>

locale token_registry = provider_handles R compatible provider_new
  for R compatible and provider_new :: "'e implementation \<Rightarrow> ptr \<Rightarrow> ptr \<Rightarrow> 'e process \<Rightarrow> ptr \<times> 'e process" +
  fixes slot :: "'e process \<Rightarrow> token_slot"
    and register :: "'e implementation \<Rightarrow> ptr \<Rightarrow> ptr \<Rightarrow> bool \<Rightarrow> 'e process \<Rightarrow> (otel_status \<times> u64 option \<times> 'e process) option"
    and unregister :: "'e implementation \<Rightarrow> u64 \<Rightarrow> 'e process \<Rightarrow> (otel_status \<times> 'e process) option"
  assumes register_ok: "proc_inv s \<Longrightarrow> 1 \<le> external (R vt c) s \<Longrightarrow> compatible (im_header im vt) \<Longrightarrow>
      \<exists>i s'. register im (Some vt) c False s = Some (St_Ok, Some i, s') \<and> proc_inv s' \<and> i \<noteq> 0 \<and>
        slot s' = \<lparr>slot_vtable = Some vt, slot_ctx = c, slot_registration_id = i\<rparr> \<and>
        (\<forall>q. external q s' = external q s - of_bool (q = R vt c))"
    and register_refused: "\<not> compatible (im_header im vt) \<Longrightarrow>
      \<exists>s'. register im (Some vt) c False s = Some (St_InvalidConfig, Some 0, s') \<and> same_api s s'"
    and unregister_other: "t \<noteq> 0 \<Longrightarrow> slot_registration_id (slot s) \<noteq> t \<Longrightarrow>
      unregister im t s = Some (St_Ok, clear_last_error s)"
    and unregister_own: "proc_inv s \<Longrightarrow> t \<noteq> 0 \<Longrightarrow> slot_registration_id (slot s) = t \<Longrightarrow>
      \<exists>s'. unregister im t s = Some (St_Ok, s') \<and> proc_inv s' \<and> slot s' = empty_token_slot \<and>
        (\<forall>q. external q s' = external q s)"
    and slot_same: "same_api s s' \<Longrightarrow> slot s' = slot s"
begin

text \<open>Unregistering with a token that was issued always succeeds; afterwards the slot does not hold it.\<close>

lemma unregister_token:
  assumes "proc_inv s" and "t \<noteq> 0"
  shows "\<exists>s'. unregister im t s = Some (St_Ok, s') \<and> proc_inv s' \<and> slot_registration_id (slot s') \<noteq> t \<and>
    (\<forall>q. external q s' = external q s) \<and>
    slot s' = (if slot_registration_id (slot s) = t then empty_token_slot else slot s)"
proof (cases "slot_registration_id (slot s) = t")
  case True
  then show ?thesis using unregister_own [OF assms, of im] assms(2) by (auto simp: empty_token_slot_def)
next
  case False
  then show ?thesis
    using unregister_other [OF assms(2) False, of im] assms(1) slot_same [of s "clear_last_error s"] by simp
qed

end

section \<open>The API's definitions meet the contract\<close>

lemma provider_into_raw:
  fixes s :: "'e process"
  assumes "proc_inv s" and "1 \<le> external r s" and "K = api_kind b" and "payload_ok b" and "owned_by b = Some r"
  shows "proc_inv (snd (into_raw K b (clear_last_error s))) \<and> slots_same s (snd (into_raw K b (clear_last_error s))) \<and>
    (\<forall>q. external q (snd (into_raw K b (clear_last_error s))) = external q s - of_bool (q = r)) \<and>
    calls (snd (into_raw K b (clear_last_error s))) = calls s"
proof -
  let ?s = "clear_last_error s"
  have inv: "proc_inv ?s" using assms(1) by simp
  have "proc_inv (snd (into_raw K b ?s))"
    by (rule proc_inv_into_raw [OF inv]) (use assms in auto)
  moreover have "external q (snd (into_raw K b ?s)) = external q s - of_bool (q = r)" for q
    using external_into_raw [OF proc_inv_wf [OF inv], of q K b] assms(5) by (simp add: eq_commute)
  moreover have "slots_same s (snd (into_raw K b ?s))"
    using into_raw_frame(1) [of ?s K b] slots_same_api [of s ?s] by (simp add: slots_same_def)
  ultimately show ?thesis using into_raw_frame(4) [of K b ?s] by simp
qed

lemma put_empty_slots:
  "put_metrics_slot (0, next_metrics_id s) None None s = s\<lparr>metrics_slot := empty_token_slot\<rparr>"
  "put_logs_slot (0, next_logs_id s) None None s = s\<lparr>logs_slot := empty_token_slot\<rparr>"
  by (cases s; simp add: put_metrics_slot_def put_logs_slot_def empty_token_slot_def)+

lemma register_meter_ok:
  assumes "proc_inv s" and "1 \<le> external (R_MeterProvider vt c) s" and "metrics_vtable_compatible (im_header im vt)"
  shows "\<exists>i s'. otel_api_register_global_meter_provider_with_token im (Some vt) c False s = Some (St_Ok, Some i, s') \<and>
     proc_inv s' \<and> i \<noteq> 0 \<and> metrics_slot s' = \<lparr>slot_vtable = Some vt, slot_ctx = c, slot_registration_id = i\<rparr> \<and>
     (\<forall>q. external q s' = external q s - of_bool (q = R_MeterProvider vt c))"
proof -
  let ?s = "clear_last_error s" and ?k = "next_registration_id (next_metrics_id s)"
  have inv0: "proc_inv ?s" using assms(1) by simp
  have own: "Some vt = Some v \<Longrightarrow> 1 \<le> external (R_MeterProvider v c) ?s" for v using assms(2) by simp
  obtain s4 where f: "free_old im R_MeterProvider (slot_vtable (metrics_slot ?s)) (slot_ctx (metrics_slot ?s))
      (put_metrics_slot ?k (Some vt) c ?s) = Some s4"
    "proc_inv s4" "slots_same (put_metrics_slot ?k (Some vt) c ?s) s4"
    "\<And>q. external q s4 = external q ?s - of_bool (backing_res R_MeterProvider (Some vt) c = Some q)"
    by (rule mslot.swap [OF inv0, where v = "Some vt" and c = c and im = im and k = ?k]) (erule own, rule that)
  have "otel_api_register_global_meter_provider_with_token im (Some vt) c False s = Some (St_Ok, Some (fst ?k), s4)"
    using f(1) assms(3) by (simp add: otel_api_register_global_meter_provider_with_token_def install_meter_run)
  moreover have "fst ?k \<noteq> 0" using next_registration_id_facts(1) [of "next_metrics_id s" "fst ?k" "snd ?k"] by simp
  ultimately show ?thesis using f(2-4) by (auto simp: slots_same_def put_metrics_slot_def)
qed

lemma unregister_meter_own:
  assumes "proc_inv s" and "t \<noteq> 0" and "slot_registration_id (metrics_slot s) = t"
  shows "\<exists>s'. otel_api_unregister_global_meter_provider im t s = Some (St_Ok, s') \<and> proc_inv s' \<and>
    metrics_slot s' = empty_token_slot \<and> (\<forall>q. external q s' = external q s)"
proof -
  let ?s = "clear_last_error s" and ?k = "(0, next_metrics_id (clear_last_error s))"
  have inv: "proc_inv ?s" using assms(1) by simp
  obtain s4 where f: "free_old im R_MeterProvider (slot_vtable (metrics_slot ?s)) (slot_ctx (metrics_slot ?s))
      (put_metrics_slot ?k None None ?s) = Some s4"
    "proc_inv s4" "slots_same (put_metrics_slot ?k None None ?s) s4"
    "\<And>q. external q s4 = external q ?s - of_bool (backing_res R_MeterProvider None None = Some q)"
    by (rule mslot.swap [OF inv, where v = None and c = None and im = im and k = ?k]) (simp, rule that)
  have "otel_api_unregister_global_meter_provider im t s = Some (St_Ok, s4)"
    using f(1) assms(2,3) unfolding put_empty_slots by (simp add: otel_api_unregister_global_meter_provider_def Let_def)
  with f(2-4) show ?thesis by (simp add: slots_same_def put_metrics_slot_def empty_token_slot_def)
qed

lemma unregister_logger_own:
  assumes "proc_inv s" and "t \<noteq> 0" and "slot_registration_id (logs_slot s) = t"
  shows "\<exists>s'. otel_api_unregister_global_logger_provider im t s = Some (St_Ok, s') \<and> proc_inv s' \<and>
    logs_slot s' = empty_token_slot \<and> (\<forall>q. external q s' = external q s)"
proof -
  let ?s = "clear_last_error s" and ?k = "(0, next_logs_id (clear_last_error s))"
  have inv: "proc_inv ?s" using assms(1) by simp
  obtain s4 where f: "free_old im R_LoggerProvider (slot_vtable (logs_slot ?s)) (slot_ctx (logs_slot ?s))
      (put_logs_slot ?k None None ?s) = Some s4"
    "proc_inv s4" "slots_same (put_logs_slot ?k None None ?s) s4"
    "\<And>q. external q s4 = external q ?s - of_bool (backing_res R_LoggerProvider None None = Some q)"
    by (rule lslot.swap [OF inv, where v = None and c = None and im = im and k = ?k]) (simp, rule that)
  have "otel_api_unregister_global_logger_provider im t s = Some (St_Ok, s4)"
    using f(1) assms(2,3) unfolding put_empty_slots by (simp add: otel_api_unregister_global_logger_provider_def Let_def)
  with f(2-4) show ?thesis by (simp add: slots_same_def put_logs_slot_def empty_token_slot_def)
qed

interpretation trace_handles: provider_handles R_TraceProvider trace_vtable_compatible otel_api_provider_new
proof unfold_locales
  fix s :: "'e process" and vt c and im :: "'e implementation"
  show "\<exists>h s'. otel_api_provider_new im (Some vt) c s = (Some h, s') \<and> proc_inv s' \<and> slots_same s s' \<and>
      (\<forall>q. external q s' = external q s - of_bool (q = R_TraceProvider vt c)) \<and> calls s' = calls s"
    if "proc_inv s" "1 \<le> external (R_TraceProvider vt c) s" "trace_vtable_compatible (im_header im vt)"
    using provider_into_raw [OF that(1,2), of KIND_TRACER_PROVIDER "P_TracerProvider (PI_Backed (Some vt) c)"] that(3)
    by (simp add: otel_api_provider_new_def Let_def into_raw_def)
  show "\<exists>s'. otel_api_provider_new im (Some vt) c s = (None, s') \<and> same_api s s' \<and> calls s' = calls s"
    if "\<not> trace_vtable_compatible (im_header im vt)"
    using that same_api_trans [of s "clear_last_error s"] by (simp add: otel_api_provider_new_def Let_def)
qed

interpretation meters: token_registry R_MeterProvider metrics_vtable_compatible otel_api_meter_provider_new metrics_slot
  otel_api_register_global_meter_provider_with_token otel_api_unregister_global_meter_provider
proof unfold_locales
  fix s :: "'e process" and vt c t and im :: "'e implementation"
  show "\<exists>h s'. otel_api_meter_provider_new im (Some vt) c s = (Some h, s') \<and> proc_inv s' \<and> slots_same s s' \<and>
      (\<forall>q. external q s' = external q s - of_bool (q = R_MeterProvider vt c)) \<and> calls s' = calls s"
    if "proc_inv s" "1 \<le> external (R_MeterProvider vt c) s" "metrics_vtable_compatible (im_header im vt)"
    using provider_into_raw [OF that(1,2), of KIND_METER_PROVIDER "P_MeterProvider (PI_Backed (Some vt) c)"] that(3)
    by (simp add: otel_api_meter_provider_new_def Let_def into_raw_def)
  show "\<exists>s'. otel_api_meter_provider_new im (Some vt) c s = (None, s') \<and> same_api s s' \<and> calls s' = calls s"
    if "\<not> metrics_vtable_compatible (im_header im vt)"
    using that same_api_trans [of s "clear_last_error s"] by (simp add: otel_api_meter_provider_new_def Let_def)
  show "\<exists>s'. otel_api_register_global_meter_provider_with_token im (Some vt) c False s = Some (St_InvalidConfig, Some 0, s') \<and> same_api s s'"
    if "\<not> metrics_vtable_compatible (im_header im vt)"
    using that same_api_trans [of s "clear_last_error s"]
    by (simp add: otel_api_register_global_meter_provider_with_token_def install_meter_run)
  show "otel_api_unregister_global_meter_provider im t s = Some (St_Ok, clear_last_error s)"
    if "t \<noteq> 0" "slot_registration_id (metrics_slot s) \<noteq> t"
    using that by (simp add: otel_api_unregister_global_meter_provider_def Let_def)
qed (erule (2) register_meter_ok | erule (2) unregister_meter_own | simp add: same_api_def)+

interpretation loggers: token_registry R_LoggerProvider logs_vtable_compatible otel_api_logger_provider_new logs_slot
  otel_api_register_global_logger_provider_with_token otel_api_unregister_global_logger_provider
proof unfold_locales
  fix s :: "'e process" and vt c t and im :: "'e implementation"
  show "\<exists>h s'. otel_api_logger_provider_new im (Some vt) c s = (Some h, s') \<and> proc_inv s' \<and> slots_same s s' \<and>
      (\<forall>q. external q s' = external q s - of_bool (q = R_LoggerProvider vt c)) \<and> calls s' = calls s"
    if "proc_inv s" "1 \<le> external (R_LoggerProvider vt c) s" "logs_vtable_compatible (im_header im vt)"
    using provider_into_raw [OF that(1,2), of KIND_LOGGER_PROVIDER "P_LoggerProvider (PI_Backed (Some vt) c)"] that(3)
    by (simp add: otel_api_logger_provider_new_def Let_def into_raw_def)
  show "\<exists>s'. otel_api_logger_provider_new im (Some vt) c s = (None, s') \<and> same_api s s' \<and> calls s' = calls s"
    if "\<not> logs_vtable_compatible (im_header im vt)"
    using that same_api_trans [of s "clear_last_error s"] by (simp add: otel_api_logger_provider_new_def Let_def)
  show "\<exists>i s'. otel_api_register_global_logger_provider_with_token im (Some vt) c False s = Some (St_Ok, Some i, s') \<and>
      proc_inv s' \<and> i \<noteq> 0 \<and> logs_slot s' = \<lparr>slot_vtable = Some vt, slot_ctx = c, slot_registration_id = i\<rparr> \<and>
      (\<forall>q. external q s' = external q s - of_bool (q = R_LoggerProvider vt c))"
    if "proc_inv s" "1 \<le> external (R_LoggerProvider vt c) s" "logs_vtable_compatible (im_header im vt)"
    using register_logger_ok [OF that] next_registration_id_facts(1) by blast
  show "\<exists>s'. otel_api_register_global_logger_provider_with_token im (Some vt) c False s = Some (St_InvalidConfig, Some 0, s') \<and> same_api s s'"
    if "\<not> logs_vtable_compatible (im_header im vt)"
    using that same_api_trans [of s "clear_last_error s"]
    by (simp add: otel_api_register_global_logger_provider_with_token_def install_logger_run)
  show "otel_api_unregister_global_logger_provider im t s = Some (St_Ok, clear_last_error s)"
    if "t \<noteq> 0" "slot_registration_id (logs_slot s) \<noteq> t"
    using that by (simp add: otel_api_unregister_global_logger_provider_def Let_def)
qed (erule (2) unregister_logger_own | simp add: same_api_def)+

end
