(* ===== verification/Sdk_Lifecycle.thy ===== *)
theory Sdk_Lifecycle
  imports Sdk_Ownership Provider_Registry
begin

text \<open>
  The lifecycle of an SDK (\<open>sdk/src/sdk.rs\<close>, from \<open>otel_sdk_get_meter_provider\<close> on) together with the
  API library it registers with: the world is the API's process, the SDK's own handles and the
  calls made on the crate's providers. A diagnostic of the SDK goes to the API's slot. The outcome of a
  crate call, the address of a provider context that the SDK allocates, and whether the calling
  thread belongs to the runtime of one of the SDK's async readers are arguments.
\<close>

section \<open>The world\<close>

datatype signal = Sig_Trace | Sig_Metrics | Sig_Logs

datatype crate_call = Crate_ForceFlush | Crate_Shutdown u64

datatype sdk_result = Res_Ok | Res_AlreadyShutdown | Res_Timeout string | Res_InternalFailure string

record 'e sdk_world =
  api :: "'e process"
  sdks :: sdk_store
  crate_calls :: "(signal \<times> crate_call) list"

text \<open>The addresses of the SDK's three vtables.\<close>

record sdk_library =
  lib_trace :: addr
  lib_metrics :: addr
  lib_logs :: addr

definition w_clear :: "'e sdk_world \<Rightarrow> 'e sdk_world" where
  "w_clear w = w\<lparr>api := clear_last_error (api w)\<rparr>"

definition w_fail :: "otel_status \<Rightarrow> string \<Rightarrow> 'e sdk_world \<Rightarrow> otel_status \<times> 'e sdk_world" where
  "w_fail st m w = (st, w\<lparr>api := set_error_text m (api w)\<rparr>)"

definition w_crate :: "signal \<Rightarrow> crate_call \<Rightarrow> 'e sdk_world \<Rightarrow> 'e sdk_world" where
  "w_crate sig c w = w\<lparr>crate_calls := crate_calls w @ [(sig, c)]\<rparr>"

text \<open>\<open>checked_ref::<OtelSdk>\<close>; the check writes its diagnostic to the API's slot.\<close>

definition borrow_sdk :: "ptr \<Rightarrow> 'e sdk_world \<Rightarrow> (sdk option \<times> 'e sdk_world) option" where
  "borrow_sdk p w =
     (case checked_as KIND_SDK as_sdk p (sdks w) of
        None \<Rightarrow> None
      | Some (Some k, _) \<Rightarrow> Some (Some k, w)
      | Some (None, s) \<Rightarrow> Some (None, w\<lparr>api := (api w)\<lparr>last_error := last_error s\<rparr>\<rparr>))"

definition put_sdk :: "ptr \<Rightarrow> sdk \<Rightarrow> 'e sdk_world \<Rightarrow> 'e sdk_world" where
  "put_sdk p k w = w\<lparr>sdks := put_ptr p (SP_Sdk k) (sdks w)\<rparr>"

definition with_sdk ::
  "ptr \<Rightarrow> 'r \<Rightarrow> (sdk \<Rightarrow> 'e sdk_world \<Rightarrow> ('r \<times> 'e sdk_world) option) \<Rightarrow> 'e sdk_world \<Rightarrow> ('r \<times> 'e sdk_world) option" where
  "with_sdk p bad f w =
     (case borrow_sdk p (w_clear w) of
        None \<Rightarrow> None
      | Some (None, w1) \<Rightarrow> Some (bad, w1)
      | Some (Some k, w1) \<Rightarrow> f k w1)"

text \<open>\<open>status_from_export_pipeline_error\<close>\<close>

definition map_flush_result :: "sdk_result \<Rightarrow> 'e sdk_world \<Rightarrow> otel_status \<times> 'e sdk_world" where
  "map_flush_result r w =
     (case r of
        Res_Ok \<Rightarrow> (St_Ok, w)
      | Res_AlreadyShutdown \<Rightarrow> w_fail St_AlreadyShutdown ''operation failed: provider already shut down'' w
      | Res_Timeout d \<Rightarrow> w_fail St_Timeout (''operation timed out after '' @ d) w
      | Res_InternalFailure m \<Rightarrow> w_fail St_ExportFailed (''internal failure: '' @ m) w)"

section \<open>Providers\<close>

text \<open>A new provider context is one reference, which the handle takes over or which is released.\<close>

definition get_provider ::
  "'e implementation \<Rightarrow> (addr \<Rightarrow> ptr \<Rightarrow> res) \<Rightarrow> addr \<Rightarrow> ('e implementation \<Rightarrow> ptr \<Rightarrow> ptr \<Rightarrow> 'e process \<Rightarrow> ptr \<times> 'e process)
     \<Rightarrow> addr \<Rightarrow> ptr \<Rightarrow> 'e sdk_world \<Rightarrow> (ptr \<times> 'e sdk_world) option" where
  "get_provider im R vt provider_new ctx p =
     with_sdk p None (\<lambda>k w.
       case provider_new im (Some vt) (Some ctx) (acquire (R vt (Some ctx)) (api w)) of
         (None, a) \<Rightarrow> map_option (\<lambda>a'. (None, w\<lparr>api := a'\<rparr>)) (vt_free im (R vt (Some ctx)) a)
       | (Some h, a) \<Rightarrow> Some (Some h, w\<lparr>api := a\<rparr>))"

definition otel_sdk_get_tracer_provider ::
  "'e implementation \<Rightarrow> sdk_library \<Rightarrow> addr \<Rightarrow> ptr \<Rightarrow> 'e sdk_world \<Rightarrow> (ptr \<times> 'e sdk_world) option" where
  "otel_sdk_get_tracer_provider im lib = get_provider im R_TraceProvider (lib_trace lib) otel_api_provider_new"

definition otel_sdk_get_meter_provider ::
  "'e implementation \<Rightarrow> sdk_library \<Rightarrow> addr \<Rightarrow> ptr \<Rightarrow> 'e sdk_world \<Rightarrow> (ptr \<times> 'e sdk_world) option" where
  "otel_sdk_get_meter_provider im lib = get_provider im R_MeterProvider (lib_metrics lib) otel_api_meter_provider_new"

definition otel_sdk_get_logger_provider ::
  "'e implementation \<Rightarrow> sdk_library \<Rightarrow> addr \<Rightarrow> ptr \<Rightarrow> 'e sdk_world \<Rightarrow> (ptr \<times> 'e sdk_world) option" where
  "otel_sdk_get_logger_provider im lib = get_provider im R_LoggerProvider (lib_logs lib) otel_api_logger_provider_new"

section \<open>Global installation\<close>

definition otel_sdk_set_as_global ::
  "'e implementation \<Rightarrow> sdk_library \<Rightarrow> addr \<Rightarrow> ptr \<Rightarrow> 'e sdk_world \<Rightarrow> (otel_status \<times> 'e sdk_world) option" where
  "otel_sdk_set_as_global im lib ctx p =
     with_sdk p St_InvalidArgument (\<lambda>k w.
       if sd_shutdown k then Some (w_fail St_AlreadyShutdown ''cannot install a shut-down SDK as global'' w)
       else
         (let r = R_TraceProvider (lib_trace lib) (Some ctx) in
          case otel_api_register_global_provider im (Some (lib_trace lib)) (Some ctx) (acquire r (api w)) of
            None \<Rightarrow> None
          | Some (st, a) \<Rightarrow>
              if st \<noteq> St_Ok then map_option (\<lambda>a'. (st, w\<lparr>api := a'\<rparr>)) (vt_free im r a)
              else Some (st, w\<lparr>api := a\<rparr>)))"

text \<open>Metrics and logs keep the token of their registration; 0 is what \<open>registration_id\<close> starts with.\<close>

definition set_signal_as_global ::
  "'e implementation \<Rightarrow> (addr \<Rightarrow> ptr \<Rightarrow> res) \<Rightarrow> addr
     \<Rightarrow> ('e implementation \<Rightarrow> ptr \<Rightarrow> ptr \<Rightarrow> bool \<Rightarrow> 'e process \<Rightarrow> (otel_status \<times> u64 option \<times> 'e process) option)
     \<Rightarrow> (sdk \<Rightarrow> lifecycle) \<Rightarrow> (lifecycle \<Rightarrow> sdk \<Rightarrow> sdk) \<Rightarrow> string \<Rightarrow> string
     \<Rightarrow> addr \<Rightarrow> ptr \<Rightarrow> 'e sdk_world \<Rightarrow> (otel_status \<times> 'e sdk_world) option" where
  "set_signal_as_global im R vt register get put shutdown_msg zero_msg ctx p =
     with_sdk p St_InvalidArgument (\<lambda>k w.
       if lc_shutdown_started (get k) then Some (w_fail St_AlreadyShutdown shutdown_msg w)
       else
         (case register im (Some vt) (Some ctx) False (acquire (R vt (Some ctx)) (api w)) of
            None \<Rightarrow> None
          | Some (st, out, a) \<Rightarrow>
              (let registration_id = (case out of None \<Rightarrow> 0 | Some i \<Rightarrow> i) in
               if st \<noteq> St_Ok then map_option (\<lambda>a'. (st, w\<lparr>api := a'\<rparr>)) (vt_free im (R vt (Some ctx)) a)
               else if registration_id = 0 then Some (w_fail St_InternalError zero_msg (w\<lparr>api := a\<rparr>))
               else Some (st, put_sdk p (put ((get k)\<lparr>lc_global_registration := Some registration_id\<rparr>) k) (w\<lparr>api := a\<rparr>)))))"

definition put_metrics_lifecycle :: "lifecycle \<Rightarrow> sdk \<Rightarrow> sdk" where
  "put_metrics_lifecycle l k = k\<lparr>sd_metrics_lifecycle := l\<rparr>"

definition put_logs_lifecycle :: "lifecycle \<Rightarrow> sdk \<Rightarrow> sdk" where
  "put_logs_lifecycle l k = k\<lparr>sd_logs_lifecycle := l\<rparr>"

definition otel_sdk_set_metrics_as_global ::
  "'e implementation \<Rightarrow> sdk_library \<Rightarrow> addr \<Rightarrow> ptr \<Rightarrow> 'e sdk_world \<Rightarrow> (otel_status \<times> 'e sdk_world) option" where
  "otel_sdk_set_metrics_as_global im lib =
     set_signal_as_global im R_MeterProvider (lib_metrics lib) otel_api_register_global_meter_provider_with_token
       sd_metrics_lifecycle put_metrics_lifecycle ''cannot install a shut-down Metrics provider as global''
       ''Metrics global registration returned an invalid zero token''"

definition otel_sdk_set_logs_as_global ::
  "'e implementation \<Rightarrow> sdk_library \<Rightarrow> addr \<Rightarrow> ptr \<Rightarrow> 'e sdk_world \<Rightarrow> (otel_status \<times> 'e sdk_world) option" where
  "otel_sdk_set_logs_as_global im lib =
     set_signal_as_global im R_LoggerProvider (lib_logs lib) otel_api_register_global_logger_provider_with_token
       sd_logs_lifecycle put_logs_lifecycle ''cannot install a shut-down LoggerProvider as global''
       ''Logs global registration returned an invalid zero token''"

section \<open>Flushing\<close>

text \<open>A timed flush runs on a helper thread: it cannot be started, or it finishes in time, or the
  caller gives up waiting and the helper finishes later.\<close>

datatype flush_outcome = Flush_SpawnFailed string | Flush_Finished sdk_result | Flush_Pending

definition set_flush_in_flight :: "bool \<Rightarrow> ptr \<Rightarrow> sdk \<Rightarrow> 'e sdk_world \<Rightarrow> 'e sdk_world" where
  "set_flush_in_flight b p k w = put_sdk p (k\<lparr>sd_flush_in_flight := b\<rparr>) w"

definition otel_sdk_force_flush ::
  "sdk_result \<Rightarrow> flush_outcome \<Rightarrow> u64 \<Rightarrow> ptr \<Rightarrow> 'e sdk_world \<Rightarrow> (otel_status \<times> 'e sdk_world) option" where
  "otel_sdk_force_flush direct timed timeout_millis p =
     with_sdk p St_InvalidArgument (\<lambda>k w.
       if sd_shutdown k then Some (w_fail St_AlreadyShutdown ''cannot force flush a shut-down SDK'' w)
       else if timeout_millis = 0 then Some (map_flush_result direct (w_crate Sig_Trace Crate_ForceFlush w))
       else if sd_flush_in_flight k then
         Some (w_fail St_Timeout ''a timed force flush is already in progress; retry after it completes'' w)
       else
         (case timed of
            Flush_SpawnFailed e \<Rightarrow>
              Some (w_fail St_InternalError (''failed to spawn force-flush helper thread: '' @ e) (set_flush_in_flight False p k w))
          | Flush_Finished r \<Rightarrow>
              Some (map_flush_result r (w_crate Sig_Trace Crate_ForceFlush (set_flush_in_flight False p k w)))
          | Flush_Pending \<Rightarrow>
              Some (w_fail St_Timeout ''force flush did not complete within the requested timeout''
                (w_crate Sig_Trace Crate_ForceFlush (set_flush_in_flight True p k w)))))"

text \<open>The helper clears the flag that it shares with the SDK, if the SDK still exists.\<close>

definition flush_helper_finishes :: "ptr \<Rightarrow> 'e sdk_world \<Rightarrow> 'e sdk_world" where
  "flush_helper_finishes p w =
     (case checked_as KIND_SDK as_sdk p (sdks w) of
        Some (Some k, _) \<Rightarrow> set_flush_in_flight False p k w
      | _ \<Rightarrow> w)"

definition otel_sdk_metrics_force_flush ::
  "(sdk \<Rightarrow> bool) \<Rightarrow> sdk_result \<Rightarrow> ptr \<Rightarrow> 'e sdk_world \<Rightarrow> (otel_status \<times> 'e sdk_world) option" where
  "otel_sdk_metrics_force_flush is_current r p =
     with_sdk p St_InvalidArgument (\<lambda>k w.
       if is_current k then
         Some (w_fail St_InvalidConfig ''cannot force flush Metrics reentrantly from an async reader callback'' w)
       else if lc_shutdown_started (sd_metrics_lifecycle k) then
         Some (w_fail St_AlreadyShutdown ''cannot force flush a shut-down Metrics provider'' w)
       else Some (map_flush_result r (w_crate Sig_Metrics Crate_ForceFlush w)))"

definition otel_sdk_logs_force_flush ::
  "sdk_result \<Rightarrow> ptr \<Rightarrow> 'e sdk_world \<Rightarrow> (otel_status \<times> 'e sdk_world) option" where
  "otel_sdk_logs_force_flush r p =
     with_sdk p St_InvalidArgument (\<lambda>k w.
       if lc_shutdown_started (sd_logs_lifecycle k) then
         Some (w_fail St_AlreadyShutdown ''cannot force flush a shut-down LoggerProvider'' w)
       else Some (map_flush_result r (w_crate Sig_Logs Crate_ForceFlush w)))"

section \<open>Shutdown\<close>

definition shutdown_timeout :: "u64 \<Rightarrow> u64" where
  "shutdown_timeout timeout_millis = (case optional_millis timeout_millis of Some t \<Rightarrow> t | None \<Rightarrow> 5000)"

definition otel_sdk_shutdown ::
  "sdk_result \<Rightarrow> u64 \<Rightarrow> ptr \<Rightarrow> 'e sdk_world \<Rightarrow> (otel_status \<times> 'e sdk_world) option" where
  "otel_sdk_shutdown r timeout_millis p =
     with_sdk p St_InvalidArgument (\<lambda>k w.
       if sd_shutdown k then Some (w_fail St_AlreadyShutdown ''SDK has already been shut down'' w)
       else Some (map_flush_result r
         (w_crate Sig_Trace (Crate_Shutdown (shutdown_timeout timeout_millis)) (put_sdk p (k\<lparr>sd_shutdown := True\<rparr>) w))))"

definition unregister_held ::
  "('e implementation \<Rightarrow> u64 \<Rightarrow> 'e process \<Rightarrow> (otel_status \<times> 'e process) option) \<Rightarrow> 'e implementation
     \<Rightarrow> u64 option \<Rightarrow> 'e sdk_world \<Rightarrow> (otel_status \<times> 'e sdk_world) option" where
  "unregister_held unregister im registration w =
     (case registration of
        None \<Rightarrow> Some (St_Ok, w)
      | Some t \<Rightarrow> map_option (\<lambda>(st, a). (st, w\<lparr>api := a\<rparr>)) (unregister im t (api w)))"

definition signal_shutdown ::
  "'e implementation \<Rightarrow> signal \<Rightarrow> ('e implementation \<Rightarrow> u64 \<Rightarrow> 'e process \<Rightarrow> (otel_status \<times> 'e process) option)
     \<Rightarrow> (sdk \<Rightarrow> lifecycle) \<Rightarrow> (lifecycle \<Rightarrow> sdk \<Rightarrow> sdk) \<Rightarrow> (sdk \<Rightarrow> string option) \<Rightarrow> string
     \<Rightarrow> sdk_result \<Rightarrow> u64 \<Rightarrow> ptr \<Rightarrow> 'e sdk_world \<Rightarrow> (otel_status \<times> 'e sdk_world) option" where
  "signal_shutdown im sig unregister get put reentrant shutdown_msg r timeout_millis p =
     with_sdk p St_InvalidArgument (\<lambda>k w.
       case reentrant k of
         Some m \<Rightarrow> Some (w_fail St_InvalidConfig m w)
       | None \<Rightarrow>
           if lc_shutdown_started (get k) then Some (w_fail St_AlreadyShutdown shutdown_msg w)
           else
             (case unregister_held unregister im (lc_global_registration (get k))
                 (put_sdk p (put \<lparr>lc_shutdown_started = True, lc_global_registration = None\<rparr> k) w) of
                None \<Rightarrow> None
              | Some (unregister_status, w1) \<Rightarrow>
                  (case map_flush_result r (w_crate sig (Crate_Shutdown (shutdown_timeout timeout_millis)) w1) of
                     (shutdown_status, w2) \<Rightarrow>
                       Some (if unregister_status \<noteq> St_Ok then unregister_status else shutdown_status, w2))))"

definition otel_sdk_metrics_shutdown ::
  "'e implementation \<Rightarrow> (sdk \<Rightarrow> bool) \<Rightarrow> sdk_result \<Rightarrow> u64 \<Rightarrow> ptr \<Rightarrow> 'e sdk_world \<Rightarrow> (otel_status \<times> 'e sdk_world) option" where
  "otel_sdk_metrics_shutdown im is_current =
     signal_shutdown im Sig_Metrics otel_api_unregister_global_meter_provider sd_metrics_lifecycle put_metrics_lifecycle
       (\<lambda>k. if is_current k then Some ''cannot shut down Metrics reentrantly from an async reader callback'' else None)
       ''Metrics provider has already been shut down''"

definition otel_sdk_logs_shutdown ::
  "'e implementation \<Rightarrow> sdk_result \<Rightarrow> u64 \<Rightarrow> ptr \<Rightarrow> 'e sdk_world \<Rightarrow> (otel_status \<times> 'e sdk_world) option" where
  "otel_sdk_logs_shutdown im =
     signal_shutdown im Sig_Logs otel_api_unregister_global_logger_provider sd_logs_lifecycle put_logs_lifecycle
       (\<lambda>_. None) ''LoggerProvider has already been shut down''"

section \<open>Destruction\<close>

text \<open>\<open>Drop for OtelSdk\<close>; the shutdowns are called with the crate's own timeout, recorded as 0.\<close>

definition sdk_drop :: "'e implementation \<Rightarrow> sdk \<Rightarrow> 'e sdk_world \<Rightarrow> 'e sdk_world option" where
  "sdk_drop im k w =
     (case unregister_held otel_api_unregister_global_meter_provider im (lc_global_registration (sd_metrics_lifecycle k)) w of
        None \<Rightarrow> None
      | Some (_, w1) \<Rightarrow>
          (case unregister_held otel_api_unregister_global_logger_provider im (lc_global_registration (sd_logs_lifecycle k)) w1 of
             None \<Rightarrow> None
           | Some (_, w2) \<Rightarrow> Some (w_crate Sig_Logs (Crate_Shutdown 0) (w_crate Sig_Metrics (Crate_Shutdown 0) w2))))"

text \<open>\<open>async\<close>: the library was built with the async runtime.\<close>

definition otel_sdk_destroy ::
  "'e implementation \<Rightarrow> bool \<Rightarrow> (sdk \<Rightarrow> bool) \<Rightarrow> ptr \<Rightarrow> 'e sdk_world \<Rightarrow> 'e sdk_world option" where
  "otel_sdk_destroy im async is_current p w =
     (case (if async then borrow_sdk p w else Some (None, w)) of
        None \<Rightarrow> None
      | Some (r, w1) \<Rightarrow>
          if \<exists>k \<in> set_option r. is_current k then
            Some (snd (w_fail St_InvalidConfig ''cannot destroy an SDK reentrantly from an async reader callback'' w1))
          else
            (case p of
               None \<Rightarrow> Some w1
             | Some a \<Rightarrow>
                 (case objs (sdks w1) a of
                    None \<Rightarrow> None
                  | Some h \<Rightarrow>
                      if \<not> is_live_kind (header h) KIND_SDK then Some w1
                      else
                        (case as_sdk (body h) of
                           None \<Rightarrow> None
                         | Some k \<Rightarrow>
                             (case sdk_drop im k w1 of
                                None \<Rightarrow> None
                              | Some w2 \<Rightarrow>
                                  map_option (\<lambda>s. w2\<lparr>sdks := s\<rparr>) (destroy_handle KIND_SDK p (sdks w2)))))))"

section \<open>The invariant of the world\<close>

text \<open>A token is never zero, and a provider that is shutting down holds none.\<close>

definition lifecycle_ok :: "lifecycle \<Rightarrow> bool" where
  "lifecycle_ok l \<longleftrightarrow> lc_global_registration l \<noteq> Some 0 \<and> (lc_shutdown_started l \<longrightarrow> lc_global_registration l = None)"

definition registrations_ok :: "sdk_payload \<Rightarrow> bool" where
  "registrations_ok b \<longleftrightarrow>
     (case b of SP_Sdk k \<Rightarrow> lifecycle_ok (sd_metrics_lifecycle k) \<and> lifecycle_ok (sd_logs_lifecycle k) | _ \<Rightarrow> True)"

definition w_inv :: "'e sdk_world \<Rightarrow> bool" where
  "w_inv w \<longleftrightarrow> proc_inv (api w) \<and> sdk_inv (sdks w) \<and> all_bodies registrations_ok (sdks w)"

text \<open>An operation that neither leaks nor steals: no reference to a provider and no exporter.\<close>

definition w_sound :: "'e sdk_world \<Rightarrow> 'e sdk_world \<Rightarrow> bool" where
  "w_sound w w' \<longleftrightarrow> w_inv w' \<and> (\<forall>q. external q (api w') = external q (api w)) \<and> balance (sdks w') = balance (sdks w)"

lemma w_sound_trans: "w_sound w1 w2 \<Longrightarrow> w_sound w2 w3 \<Longrightarrow> w_sound w1 w3"
  by (simp add: w_sound_def)

lemma w_sound_api:
  assumes "w_inv w" and "proc_inv a" and "\<And>q. external q a = external q (api w)"
  shows "w_sound w (w\<lparr>api := a\<rparr>)"
  using assms by (simp add: w_sound_def w_inv_def)

lemma w_sound_same_api: "w_inv w \<Longrightarrow> same_api (api w) a \<Longrightarrow> w_sound w (w\<lparr>api := a\<rparr>)"
  by (intro w_sound_api) (auto simp: w_inv_def proc_inv_same external_same)

lemma w_sound_basic:
  assumes "w_inv w"
  shows "w_sound w w" "w_sound w (w_clear w)" "w_sound w (snd (w_fail st m w))" "w_sound w (w_crate sig c w)"
    "w_sound w (w\<lparr>api := (api w)\<lparr>last_error := e\<rparr>\<rparr>)" "w_sound w (snd (map_flush_result r w))"
proof -
  have e: "w_sound w (w\<lparr>api := set_error_text m (api w)\<rparr>)" for m by (rule w_sound_same_api [OF assms]) simp
  show "w_sound w w" using assms by (simp add: w_sound_def)
  show "w_sound w (w_crate sig c w)" using assms by (simp add: w_sound_def w_crate_def w_inv_def)
  show "w_sound w (w_clear w)" unfolding w_clear_def by (rule w_sound_same_api [OF assms]) simp
  show "w_sound w (snd (w_fail st m w))" using e by (simp add: w_fail_def)
  show "w_sound w (w\<lparr>api := (api w)\<lparr>last_error := e\<rparr>\<rparr>)"
    by (rule w_sound_same_api [OF assms]) (rule same_api_more(1), simp_all)
  show "w_sound w (snd (map_flush_result r w))"
    using e \<open>w_sound w w\<close> by (cases r) (simp_all add: map_flush_result_def w_fail_def)
qed

lemma w_inv_sound: "w_sound w w' \<Longrightarrow> w_inv w'"
  by (simp add: w_sound_def)

lemma borrow_sdk_cases:
  assumes "borrow_sdk p w = Some (r, w1)"
  obtains (Valid) k where "r = Some k" "w1 = w" "points_to (sdks w) p (SP_Sdk k)"
    | (Refused) e where "r = None" "w1 = w\<lparr>api := (api w)\<lparr>last_error := e\<rparr>\<rparr>"
  using assms hsdk.checked_as_SomeD [of p "sdks w"]
  by (auto simp: borrow_sdk_def split: option.splits)

lemma borrow_sdk_points_to:
  "sdk_inv (sdks w) \<Longrightarrow> points_to (sdks w) p (SP_Sdk k) \<Longrightarrow> borrow_sdk p w = Some (Some k, w)"
  using hsdk.checked_as_points_to [of "sdks w" p k] by (simp add: borrow_sdk_def sdk_inv_def)

lemma with_sdk_sound:
  assumes run: "with_sdk p bad f w = Some (r, w')" and inv: "w_inv w"
    and f: "\<And>k w1. w_inv w1 \<Longrightarrow> points_to (sdks w1) p (SP_Sdk k) \<Longrightarrow> f k w1 = Some (r, w') \<Longrightarrow> w_sound w1 w'"
  shows "w_sound w w'"
proof -
  have c: "w_sound w (w_clear w)" by (rule w_sound_basic [OF inv])
  obtain q w1 where b: "borrow_sdk p (w_clear w) = Some (q, w1)" using run by (auto simp: with_sdk_def split: option.splits)
  from b show ?thesis
  proof (cases rule: borrow_sdk_cases)
    case (Valid k)
    then have "f k (w_clear w) = Some (r, w')" using run b by (simp add: with_sdk_def)
    then show ?thesis using f [OF w_inv_sound [OF c]] Valid c w_sound_trans by blast
  next
    case (Refused e)
    then have "w' = (w_clear w)\<lparr>api := (api (w_clear w))\<lparr>last_error := e\<rparr>\<rparr>" using run b by (simp add: with_sdk_def)
    then show ?thesis using w_sound_trans [OF c w_sound_basic(5) [OF w_inv_sound [OF c]]] by simp
  qed
qed

lemma with_sdk_points_to:
  assumes "w_inv w" and "points_to (sdks w) p (SP_Sdk k)"
  shows "with_sdk p bad f w = f k (w_clear w)"
  using borrow_sdk_points_to [of "w_clear w" p k] assms by (simp add: with_sdk_def w_inv_def w_clear_def)

text \<open>Writing back an SDK whose pipeline is unchanged.\<close>

definition same_pipeline :: "sdk \<Rightarrow> sdk \<Rightarrow> bool" where
  "same_pipeline k k' \<longleftrightarrow> sd_resource k' = sd_resource k \<and> sd_sampler k' = sd_sampler k \<and> sd_processors k' = sd_processors k \<and>
     sd_metric_readers k' = sd_metric_readers k \<and> sd_metric_views k' = sd_metric_views k \<and> sd_log_processors k' = sd_log_processors k"

lemma put_sdk_sound:
  assumes inv: "w_inv w" and pt: "points_to (sdks w) p (SP_Sdk k)" and same: "same_pipeline k k'"
    and tokens: "registrations_ok (SP_Sdk k) \<Longrightarrow> registrations_ok (SP_Sdk k')"
  shows "w_sound w (put_sdk p k' w)"
proof -
  have s: "wf_store sdk_kind (sdks w)" "all_bodies sdk_payload_ok (sdks w)" "all_bodies registrations_ok (sdks w)"
    using inv by (simp_all add: w_inv_def sdk_inv_def)
  have "sdk_payload_ok (SP_Sdk k')" using all_bodies_points_to [OF s(2) pt] same by (simp add: same_pipeline_def)
  moreover have "registrations_ok (SP_Sdk k')" by (rule tokens [OF all_bodies_points_to [OF s(3) pt]])
  moreover have "wf_store sdk_kind (put_ptr p (SP_Sdk k') (sdks w)) \<and>
      balance (put_ptr p (SP_Sdk k') (sdks w)) = balance (sdks w)"
    using ssd.put_conserves [OF s(1) pt, of k'] same by (simp add: same_pipeline_def)
  ultimately show ?thesis
    using inv s by (simp add: w_sound_def w_inv_def put_sdk_def sdk_inv_def all_bodies_put)
qed

lemma points_to_put_sdk: "points_to (sdks w) p (SP_Sdk k) \<Longrightarrow> points_to (sdks (put_sdk p k' w)) p (SP_Sdk k')"
  unfolding put_sdk_def by (simp add: points_to_putI)

text \<open>A context that was allocated and then refused is released again.\<close>

lemma acquire_inv:
  assumes "proc_inv s"
  shows "proc_inv (acquire r s)" "1 \<le> external r (acquire r s)"
  using proc_inv_external [OF assms] proc_inv_ctx [OF assms] ctx_inv_frame [of "acquire r s" s]
  by (auto intro!: proc_invI simp: external_acquire)

lemma release_refused:
  assumes inv: "proc_inv s" and same: "same_api (acquire r s) a" and free: "vt_free im r a = Some a'"
  shows "proc_inv a' \<and> (\<forall>q. external q a' = external q s)"
proof -
  note f = vt_free_SomeD [OF free]
  have e: "external q a' = external q s" for q
    using f(1) [of q] external_same [OF same] by (simp add: external_acquire)
  have "ctx_inv a'" using ctx_inv_frame [of a' a] f ctx_inv_same [OF same] proc_inv_ctx [OF acquire_inv(1) [OF inv, of r]] by simp
  then show ?thesis using e proc_inv_external [OF inv] by (auto intro!: proc_invI)
qed

context provider_handles begin

lemma get_provider_sound:
  assumes run: "get_provider im R vt provider_new ctx p w = Some (h, w')" and inv: "w_inv w"
  shows "w_sound w w'"
  using run unfolding get_provider_def
proof (rule with_sdk_sound [OF _ inv])
  fix k and w1 :: "'e sdk_world"
  let ?r = "R vt (Some ctx)" and ?a = "acquire (R vt (Some ctx)) (api w1)"
  assume w1: "w_inv w1" and f: "(case provider_new im (Some vt) (Some ctx) ?a of
      (None, a) \<Rightarrow> map_option (\<lambda>a'. (None, w1\<lparr>api := a'\<rparr>)) (vt_free im ?r a)
    | (Some h, a) \<Rightarrow> Some (Some h, w1\<lparr>api := a\<rparr>)) = Some (h, w')"
  have p: "proc_inv (api w1)" using w1 by (simp add: w_inv_def)
  show "w_sound w1 w'"
  proof (cases "compatible (im_header im vt)")
    case True
    then obtain h' s' where "provider_new im (Some vt) (Some ctx) ?a = (Some h', s')" "proc_inv s'"
        "\<forall>q. external q s' = external q ?a - of_bool (q = ?r)"
      using new_ok [OF acquire_inv(1) [OF p] acquire_inv(2) [OF p], of im] by blast
    then show ?thesis using f w_sound_api [OF w1, of s'] by (auto simp: external_acquire)
  next
    case False
    then obtain s' where s': "provider_new im (Some vt) (Some ctx) ?a = (None, s')" "same_api ?a s'"
      using new_refused [of im vt "Some ctx" ?a] by blast
    then obtain a' where a': "vt_free im ?r s' = Some a'" "w' = w1\<lparr>api := a'\<rparr>" using f by auto
    show ?thesis using w_sound_api [OF w1, of a'] release_refused [OF p s'(2) a'(1)] a'(2) by simp
  qed
qed

end

lemma map_flush_result_facts:
  assumes "map_flush_result r w = (st, w')"
  shows "same_api (api w) (api w')" "sdks w' = sdks w" "crate_calls w' = crate_calls w" "st = fst (map_flush_result r w)"
  using assms by (cases r; auto simp: map_flush_result_def w_fail_def)+

section \<open>A signal of the SDK\<close>

text \<open>Metrics and logs share the lifecycle; the contract has the part of the SDK that they keep it in.\<close>

locale sdk_signal = token_registry R compatible provider_new slot register unregister
  for R compatible and provider_new :: "'e implementation \<Rightarrow> ptr \<Rightarrow> ptr \<Rightarrow> 'e process \<Rightarrow> ptr \<times> 'e process"
    and slot register unregister +
  fixes get :: "sdk \<Rightarrow> lifecycle" and put :: "lifecycle \<Rightarrow> sdk \<Rightarrow> sdk"
  assumes get_put: "get (put l k) = l"
    and put_pipeline: "same_pipeline k (put l k)"
    and get_tokens: "registrations_ok (SP_Sdk k) \<Longrightarrow> lifecycle_ok (get k)"
    and put_tokens: "registrations_ok (SP_Sdk k) \<Longrightarrow> lifecycle_ok l \<Longrightarrow> registrations_ok (SP_Sdk (put l k))"
begin

lemma set_signal_run:
  assumes inv: "w_inv w" and pt: "points_to (sdks w) p (SP_Sdk k)"
    and ok: "compatible (im_header im vt)" and live: "\<not> lc_shutdown_started (get k)"
  obtains i w' where "set_signal_as_global im R vt register get put m1 m2 ctx p w = Some (St_Ok, w')" "i \<noteq> 0"
    "slot (api w') = \<lparr>slot_vtable = Some vt, slot_ctx = Some ctx, slot_registration_id = i\<rparr>"
    "points_to (sdks w') p (SP_Sdk (put ((get k)\<lparr>lc_global_registration := Some i\<rparr>) k))" "w_sound w w'"
    "crate_calls w' = crate_calls w"
proof -
  let ?w = "w_clear w" and ?r = "R vt (Some ctx)"
  have c: "w_sound w ?w" by (rule w_sound_basic [OF inv])
  have p: "proc_inv (api ?w)" using w_inv_sound [OF c] by (simp add: w_inv_def)
  obtain i a where a: "register im (Some vt) (Some ctx) False (acquire ?r (api ?w)) = Some (St_Ok, Some i, a)" "proc_inv a" "i \<noteq> 0"
      "slot a = \<lparr>slot_vtable = Some vt, slot_ctx = Some ctx, slot_registration_id = i\<rparr>"
      "\<forall>q. external q a = external q (acquire ?r (api ?w)) - of_bool (q = ?r)"
    using register_ok [OF acquire_inv(1) [OF p] acquire_inv(2) [OF p] ok] by blast
  let ?k = "put ((get k)\<lparr>lc_global_registration := Some i\<rparr>) k" and ?w1 = "?w\<lparr>api := a\<rparr>"
  have run: "set_signal_as_global im R vt register get put m1 m2 ctx p w = Some (St_Ok, put_sdk p ?k ?w1)"
    using a live by (simp add: set_signal_as_global_def with_sdk_points_to [OF inv pt])
  have s1: "w_sound ?w ?w1" by (rule w_sound_api [OF w_inv_sound [OF c] a(2)]) (simp add: a(5) external_acquire)
  have pt1: "points_to (sdks ?w1) p (SP_Sdk k)" using pt by (simp add: w_clear_def)
  have "w_sound ?w1 (put_sdk p ?k ?w1)"
  proof (rule put_sdk_sound [OF w_inv_sound [OF s1] pt1 put_pipeline])
    assume t: "registrations_ok (SP_Sdk k)"
    show "registrations_ok (SP_Sdk ?k)"
      by (rule put_tokens [OF t]) (use get_tokens [OF t] live a(3) in \<open>simp add: lifecycle_ok_def\<close>)
  qed
  then have "w_sound w (put_sdk p ?k ?w1)" using c s1 w_sound_trans by blast
  moreover have "slot (api (put_sdk p ?k ?w1)) = slot a" "crate_calls (put_sdk p ?k ?w1) = crate_calls w"
    by (simp_all add: put_sdk_def w_clear_def)
  ultimately show ?thesis using that [OF run a(3)] a(4) points_to_put_sdk [OF pt1] by simp
qed

lemma set_signal_sound:
  assumes run: "set_signal_as_global im R vt register get put m1 m2 ctx p w = Some (st, w')" and inv: "w_inv w"
  shows "w_sound w w'"
  using run unfolding set_signal_as_global_def
proof (rule with_sdk_sound [OF _ inv])
  fix k and w1 :: "'e sdk_world"
  let ?r = "R vt (Some ctx)"
  assume w1: "w_inv w1" and pt: "points_to (sdks w1) p (SP_Sdk k)"
    and f: "(if lc_shutdown_started (get k) then Some (w_fail St_AlreadyShutdown m1 w1)
       else
         (case register im (Some vt) (Some ctx) False (acquire ?r (api w1)) of
            None \<Rightarrow> None
          | Some (st, out, a) \<Rightarrow>
              (let registration_id = (case out of None \<Rightarrow> 0 | Some i \<Rightarrow> i) in
               if st \<noteq> St_Ok then map_option (\<lambda>a'. (st, w1\<lparr>api := a'\<rparr>)) (vt_free im ?r a)
               else if registration_id = 0 then Some (w_fail St_InternalError m2 (w1\<lparr>api := a\<rparr>))
               else Some (st, put_sdk p (put ((get k)\<lparr>lc_global_registration := Some registration_id\<rparr>) k) (w1\<lparr>api := a\<rparr>)))))
       = Some (st, w')"
  have p: "proc_inv (api w1)" using w1 by (simp add: w_inv_def)
  show "w_sound w1 w'"
  proof (cases "lc_shutdown_started (get k)")
    case True
    then show ?thesis using f w_sound_basic(3) [OF w1, of St_AlreadyShutdown m1] by simp
  next
    case live: False
    show ?thesis
    proof (cases "compatible (im_header im vt)")
      case True
      obtain i a where a: "register im (Some vt) (Some ctx) False (acquire ?r (api w1)) = Some (St_Ok, Some i, a)" "proc_inv a" "i \<noteq> 0"
          "\<forall>q. external q a = external q (acquire ?r (api w1)) - of_bool (q = ?r)"
        using register_ok [OF acquire_inv(1) [OF p] acquire_inv(2) [OF p] True] by blast
      let ?k = "put ((get k)\<lparr>lc_global_registration := Some i\<rparr>) k" and ?w2 = "w1\<lparr>api := a\<rparr>"
      have e: "w' = put_sdk p ?k ?w2" using f live a by simp
      have s: "w_sound w1 ?w2" by (rule w_sound_api [OF w1 a(2)]) (simp add: a(4) external_acquire)
      have "w_sound ?w2 (put_sdk p ?k ?w2)"
      proof (rule put_sdk_sound [OF w_inv_sound [OF s] _ put_pipeline])
        show "points_to (sdks ?w2) p (SP_Sdk k)" using pt by simp
        assume t: "registrations_ok (SP_Sdk k)"
        show "registrations_ok (SP_Sdk ?k)"
          by (rule put_tokens [OF t]) (use get_tokens [OF t] live a(3) in \<open>simp add: lifecycle_ok_def\<close>)
      qed
      then show ?thesis unfolding e by (rule w_sound_trans [OF s])
    next
      case False
      obtain a where a: "register im (Some vt) (Some ctx) False (acquire ?r (api w1)) = Some (St_InvalidConfig, Some 0, a)"
          "same_api (acquire ?r (api w1)) a"
        using register_refused [OF False] by blast
      then obtain a' where a': "vt_free im ?r a = Some a'" "w' = w1\<lparr>api := a'\<rparr>" using f live by auto
      show ?thesis using w_sound_api [OF w1, of a'] release_refused [OF p a(2) a'(1)] a'(2) by simp
    qed
  qed
qed

lemma unregister_held_run:
  assumes inv: "w_inv w" and t: "t \<noteq> Some 0"
  obtains w' where "unregister_held unregister im t w = Some (St_Ok, w')" "w_sound w w'" "sdks w' = sdks w"
    "crate_calls w' = crate_calls w"
    "slot (api w') = (if t = Some (slot_registration_id (slot (api w))) then empty_token_slot else slot (api w))"
proof (cases t)
  case None
  then show ?thesis using that [of w] w_sound_basic(1) [OF inv] by (simp add: unregister_held_def)
next
  case (Some i)
  have p: "proc_inv (api w)" "i \<noteq> 0" using inv t Some by (simp_all add: w_inv_def)
  obtain a where a: "unregister im i (api w) = Some (St_Ok, a)" "proc_inv a" "\<forall>q. external q a = external q (api w)"
      "slot a = (if slot_registration_id (slot (api w)) = i then empty_token_slot else slot (api w))"
    using unregister_token [OF p, of im] by blast
  show ?thesis
    by (rule that [of "w\<lparr>api := a\<rparr>"]) (use a Some w_sound_api [OF inv a(2)] in \<open>auto simp: unregister_held_def\<close>)
qed

lemma signal_shutdown_run:
  assumes inv: "w_inv w" and pt: "points_to (sdks w) p (SP_Sdk k)"
    and calm: "reentrant k = None" and live: "\<not> lc_shutdown_started (get k)"
  obtains w' where "signal_shutdown im sig unregister get put reentrant m r tmo p w = Some (fst (map_flush_result r w), w')"
    "w_sound w w'" "points_to (sdks w') p (SP_Sdk (put \<lparr>lc_shutdown_started = True, lc_global_registration = None\<rparr> k))"
    "crate_calls w' = crate_calls w @ [(sig, Crate_Shutdown (shutdown_timeout tmo))]"
    "slot (api w') = (if lc_global_registration (get k) = Some (slot_registration_id (slot (api w))) then empty_token_slot
       else slot (api w))"
proof -
  let ?w = "w_clear w" and ?k = "put \<lparr>lc_shutdown_started = True, lc_global_registration = None\<rparr> k"
  have c: "w_sound w ?w" by (rule w_sound_basic [OF inv])
  have inv0: "w_inv ?w" by (rule w_inv_sound [OF c])
  have pt0: "points_to (sdks ?w) p (SP_Sdk k)" using pt by (simp add: w_clear_def)
  have tk: "registrations_ok (SP_Sdk k)" using inv pt all_bodies_points_to by (auto simp: w_inv_def)
  let ?w1 = "put_sdk p ?k ?w"
  have s1: "w_sound ?w ?w1"
  proof (rule put_sdk_sound [OF inv0 pt0 put_pipeline])
    assume t: "registrations_ok (SP_Sdk k)"
    show "registrations_ok (SP_Sdk ?k)" by (rule put_tokens [OF t]) (simp add: lifecycle_ok_def)
  qed
  have "lc_global_registration (get k) \<noteq> Some 0" using get_tokens [OF tk] by (simp add: lifecycle_ok_def)
  then obtain w2 where w2: "unregister_held unregister im (lc_global_registration (get k)) ?w1 = Some (St_Ok, w2)"
      "w_sound ?w1 w2" "sdks w2 = sdks ?w1" "crate_calls w2 = crate_calls ?w1"
      "slot (api w2) = (if lc_global_registration (get k) = Some (slot_registration_id (slot (api ?w1))) then empty_token_slot
         else slot (api ?w1))"
    by (rule unregister_held_run [OF w_inv_sound [OF s1]])
  let ?w3 = "w_crate sig (Crate_Shutdown (shutdown_timeout tmo)) w2"
  obtain st w4 where w4: "map_flush_result r ?w3 = (st, w4)" by (cases "map_flush_result r ?w3")
  note f = map_flush_result_facts [OF w4]
  have s3: "w_sound w2 ?w3" by (rule w_sound_basic [OF w_inv_sound [OF w2(2)]])
  have s4: "w_sound ?w3 w4" using w_sound_basic(6) [OF w_inv_sound [OF s3], of r] w4 by simp
  have "slot (api ?w1) = slot (api w)" using slot_same [of "api w" "api ?w"] by (simp add: put_sdk_def w_clear_def)
  then have sl: "slot (api w4) = (if lc_global_registration (get k) = Some (slot_registration_id (slot (api w)))
      then empty_token_slot else slot (api w))"
    using w2(5) slot_same [OF f(1)] by (simp add: w_crate_def)
  have st: "st = fst (map_flush_result r w)" using f(4) by (cases r) (simp_all add: map_flush_result_def w_fail_def)
  show ?thesis
  proof (rule that [OF _ _ _ _ sl])
    show "signal_shutdown im sig unregister get put reentrant m r tmo p w = Some (fst (map_flush_result r w), w4)"
      using calm live w2(1) w4 st by (simp add: signal_shutdown_def with_sdk_points_to [OF inv pt])
    show "w_sound w w4" using c s1 w2(2) s3 s4 w_sound_trans by blast
    show "points_to (sdks w4) p (SP_Sdk ?k)" using f(2) w2(3) points_to_put_sdk [OF pt0] by (simp add: w_crate_def)
    show "crate_calls w4 = crate_calls w @ [(sig, Crate_Shutdown (shutdown_timeout tmo))]"
      using f(3) w2(4) by (simp add: w_crate_def put_sdk_def w_clear_def)
  qed
qed

lemma signal_shutdown_refused:
  assumes inv: "w_inv w" and pt: "points_to (sdks w) p (SP_Sdk k)" and calm: "reentrant k = None"
    and late: "lc_shutdown_started (get k)"
  shows "signal_shutdown im sig unregister get put reentrant m r tmo p w = Some (w_fail St_AlreadyShutdown m (w_clear w))"
  using calm late by (simp add: signal_shutdown_def with_sdk_points_to [OF inv pt])

lemma signal_shutdown_sound:
  assumes run: "signal_shutdown im sig unregister get put reentrant m r tmo p w = Some (st, w')" and inv: "w_inv w"
  shows "w_sound w w'"
proof -
  have c: "w_sound w (w_clear w)" by (rule w_sound_basic [OF inv])
  obtain q w1 where b: "borrow_sdk p (w_clear w) = Some (q, w1)"
    using run by (auto simp: signal_shutdown_def with_sdk_def split: option.splits)
  from b show ?thesis
  proof (cases rule: borrow_sdk_cases)
    case (Valid k)
    have pt: "points_to (sdks w) p (SP_Sdk k)" using Valid by (simp add: w_clear_def)
    show ?thesis
    proof (cases "reentrant k = None \<and> \<not> lc_shutdown_started (get k)")
      case True
      then obtain w2 where "signal_shutdown im sig unregister get put reentrant m r tmo p w = Some (fst (map_flush_result r w), w2)"
          "w_sound w w2"
        using signal_shutdown_run [OF inv pt, of reentrant im sig m r tmo] by blast
      then show ?thesis using run by simp
    next
      case False
      then obtain st' m' where "w' = snd (w_fail st' m' (w_clear w))"
        using run unfolding signal_shutdown_def with_sdk_points_to [OF inv pt]
        by (cases "reentrant k") (auto simp: w_fail_def)
      then show ?thesis using w_sound_trans [OF c w_sound_basic(3) [OF w_inv_sound [OF c]]] by simp
    qed
  next
    case (Refused e)
    then have "w' = w1" using run b by (simp add: signal_shutdown_def with_sdk_def)
    then show ?thesis using Refused w_sound_trans [OF c w_sound_basic(5) [OF w_inv_sound [OF c]]] by simp
  qed
qed

end

interpretation metrics_signal: sdk_signal R_MeterProvider metrics_vtable_compatible otel_api_meter_provider_new metrics_slot
  otel_api_register_global_meter_provider_with_token otel_api_unregister_global_meter_provider
  sd_metrics_lifecycle put_metrics_lifecycle
  by unfold_locales (simp_all add: put_metrics_lifecycle_def same_pipeline_def registrations_ok_def)

interpretation logs_signal: sdk_signal R_LoggerProvider logs_vtable_compatible otel_api_logger_provider_new logs_slot
  otel_api_register_global_logger_provider_with_token otel_api_unregister_global_logger_provider
  sd_logs_lifecycle put_logs_lifecycle
  by unfold_locales (simp_all add: put_logs_lifecycle_def same_pipeline_def registrations_ok_def)

section \<open>Every entry point keeps the invariant\<close>

lemma set_as_global_sound:
  assumes run: "otel_sdk_set_as_global im lib ctx p w = Some (st, w')" and inv: "w_inv w"
  shows "w_sound w w'"
  using run unfolding otel_sdk_set_as_global_def
proof (rule with_sdk_sound [OF _ inv])
  fix k and w1 :: "'a sdk_world"
  let ?vt = "lib_trace lib" and ?r = "R_TraceProvider (lib_trace lib) (Some ctx)"
  let ?a = "acquire ?r (api w1)" and ?c = "clear_last_error (acquire ?r (api w1))"
  assume w1: "w_inv w1" and f: "(if sd_shutdown k then Some (w_fail St_AlreadyShutdown ''cannot install a shut-down SDK as global'' w1)
      else (let r = ?r in
        case otel_api_register_global_provider im (Some ?vt) (Some ctx) (acquire r (api w1)) of
          None \<Rightarrow> None
        | Some (st, a) \<Rightarrow> if st \<noteq> St_Ok then map_option (\<lambda>a'. (st, w1\<lparr>api := a'\<rparr>)) (vt_free im r a)
            else Some (st, w1\<lparr>api := a\<rparr>))) = Some (st, w')"
  have p: "proc_inv (api w1)" using w1 by (simp add: w_inv_def)
  show "w_sound w1 w'"
  proof (cases "sd_shutdown k")
    case True
    then show ?thesis using f w_sound_basic(3) [OF w1, of St_AlreadyShutdown "''cannot install a shut-down SDK as global''"] by simp
  next
    case live: False
    show ?thesis
    proof (cases "trace_vtable_compatible (im_header im ?vt)")
      case True
      have own: "Some ?vt = Some v \<Longrightarrow> 1 \<le> external (R_TraceProvider v (Some ctx)) ?c" for v
        using acquire_inv(2) [OF p, of ?r] by simp
      have "proc_inv ?c" using acquire_inv(1) [OF p] by simp
      from tslot.swap [OF this, of "Some ?vt" "Some ctx" im "()", OF own] obtain a where a:
        "free_old im R_TraceProvider (slot_vtable (trace_slot ?c)) (slot_ctx (trace_slot ?c)) (put_trace_slot () (Some ?vt) (Some ctx) ?c) = Some a"
        "proc_inv a" "\<And>q. external q a = external q ?c - of_bool (backing_res R_TraceProvider (Some ?vt) (Some ctx) = Some q)"
        by metis
      have "w' = w1\<lparr>api := a\<rparr>" using f live a(1) True by (simp add: register_run)
      then show ?thesis using w_sound_api [OF w1 a(2)] by (simp add: a(3) external_acquire eq_commute)
    next
      case False
      let ?e = "set_error_text ''register_global_provider: incompatible trace implementation ABI (expected kind/version 1)'' ?c"
      obtain a' where a': "vt_free im ?r ?e = Some a'" "w' = w1\<lparr>api := a'\<rparr>"
        using f live False by (auto simp: register_run fail_def Let_def)
      have "same_api ?a ?e" using same_api_trans [of ?a ?c ?e] by simp
      then show ?thesis using w_sound_api [OF w1, of a'] release_refused [OF p _ a'(1)] a'(2) by simp
    qed
  qed
qed

lemma crate_flush_sound: "w_inv w \<Longrightarrow> w_sound w (snd (map_flush_result r (w_crate sig c w)))"
  using w_sound_trans w_sound_basic(4) w_sound_basic(6) w_inv_sound by metis

lemma put_flags_sound:
  assumes "w_inv w" and "points_to (sdks w) p (SP_Sdk k)"
  shows "w_sound w (set_flush_in_flight b p k w)" "w_sound w (put_sdk p (k\<lparr>sd_shutdown := b\<rparr>) w)"
  unfolding set_flush_in_flight_def
  by (rule put_sdk_sound [OF assms]; simp add: same_pipeline_def registrations_ok_def)+

lemma with_sdk_sound_all:
  assumes "with_sdk p bad f w = Some (r, w')" and "w_inv w"
    and "\<And>k w1. w_inv w1 \<Longrightarrow> points_to (sdks w1) p (SP_Sdk k) \<Longrightarrow> \<forall>x \<in> set_option (f k w1). w_sound w1 (snd x)"
  shows "w_sound w w'"
  using with_sdk_sound [OF assms(1,2)] assms(3) by fastforce

lemma timed_flush_sound:
  assumes w1: "w_inv w" and pt: "points_to (sdks w) p (SP_Sdk k)"
  shows "w_sound w (snd (w_fail st m (set_flush_in_flight b p k w)))"
    "w_sound w (snd (map_flush_result r (w_crate sig c (set_flush_in_flight b p k w))))"
    "w_sound w (snd (w_fail st m (w_crate sig c (set_flush_in_flight b p k w))))"
    "w_sound w (snd (map_flush_result r (w_crate sig c (put_sdk p (k\<lparr>sd_shutdown := b\<rparr>) w))))"
proof -
  note flag = put_flags_sound [OF w1 pt, of b]
  show "w_sound w (snd (w_fail st m (set_flush_in_flight b p k w)))"
    by (rule w_sound_trans [OF flag(1) w_sound_basic(3) [OF w_inv_sound [OF flag(1)]]])
  show "w_sound w (snd (map_flush_result r (w_crate sig c (set_flush_in_flight b p k w))))"
    by (rule w_sound_trans [OF flag(1) crate_flush_sound [OF w_inv_sound [OF flag(1)]]])
  show "w_sound w (snd (map_flush_result r (w_crate sig c (put_sdk p (k\<lparr>sd_shutdown := b\<rparr>) w))))"
    by (rule w_sound_trans [OF flag(2) crate_flush_sound [OF w_inv_sound [OF flag(2)]]])
  have "w_sound w (w_crate sig c (set_flush_in_flight b p k w))"
    by (rule w_sound_trans [OF flag(1) w_sound_basic(4) [OF w_inv_sound [OF flag(1)]]])
  then show "w_sound w (snd (w_fail st m (w_crate sig c (set_flush_in_flight b p k w))))"
    using w_sound_trans w_sound_basic(3) w_inv_sound by metis
qed

lemma flush_and_shutdown_sound:
  "otel_sdk_force_flush direct timed t p w = Some (st, w') \<Longrightarrow> w_inv w \<Longrightarrow> w_sound w w'"
  "otel_sdk_metrics_force_flush ic r p w = Some (st, w') \<Longrightarrow> w_inv w \<Longrightarrow> w_sound w w'"
  "otel_sdk_logs_force_flush r p w = Some (st, w') \<Longrightarrow> w_inv w \<Longrightarrow> w_sound w w'"
  "otel_sdk_shutdown r t p w = Some (st, w') \<Longrightarrow> w_inv w \<Longrightarrow> w_sound w w'"
  unfolding otel_sdk_force_flush_def otel_sdk_metrics_force_flush_def otel_sdk_logs_force_flush_def otel_sdk_shutdown_def
  by (erule (1) with_sdk_sound_all,
      simp add: w_sound_basic(3) crate_flush_sound timed_flush_sound split: if_split flush_outcome.split)+

lemma flush_helper_sound:
  assumes "w_inv w"
  shows "w_sound w (flush_helper_finishes p w)"
proof -
  have "points_to (sdks w) p (SP_Sdk k)" if "checked_as KIND_SDK as_sdk p (sdks w) = Some (Some k, s)" for k s
    using hsdk.checked_as_SomeD [OF that] by simp
  then show ?thesis
    using put_flags_sound(1) [OF assms] w_sound_basic(1) [OF assms]
    by (auto simp: flush_helper_finishes_def split: option.splits)
qed

text \<open>Destruction unregisters with the tokens that the SDK still holds, then releases its pipeline.\<close>

lemma unregister_held_frame:
  "unregister_held otel_api_unregister_global_meter_provider im t w = Some (st, w') \<Longrightarrow> logs_slot (api w') = logs_slot (api w)"
  "unregister_held otel_api_unregister_global_logger_provider im t w = Some (st, w') \<Longrightarrow> metrics_slot (api w') = metrics_slot (api w)"
  by (auto simp: unregister_held_def otel_api_unregister_global_meter_provider_def otel_api_unregister_global_logger_provider_def
      Let_def free_old_def fail_def clear_last_error_def set_error_text_def set_last_error_def dest: vt_free_SomeD split: option.splits if_split_asm)

lemma sdk_drop_run:
  assumes inv: "w_inv w" and tk: "registrations_ok (SP_Sdk k)"
  obtains w' where "sdk_drop im k w = Some w'" "w_sound w w'" "sdks w' = sdks w"
    "crate_calls w' = crate_calls w @ [(Sig_Metrics, Crate_Shutdown 0), (Sig_Logs, Crate_Shutdown 0)]"
    "metrics_slot (api w') = (if lc_global_registration (sd_metrics_lifecycle k) = Some (slot_registration_id (metrics_slot (api w)))
       then empty_token_slot else metrics_slot (api w))"
    "logs_slot (api w') = (if lc_global_registration (sd_logs_lifecycle k) = Some (slot_registration_id (logs_slot (api w)))
       then empty_token_slot else logs_slot (api w))"
proof -
  have nz: "lc_global_registration (sd_metrics_lifecycle k) \<noteq> Some 0" "lc_global_registration (sd_logs_lifecycle k) \<noteq> Some 0"
    using tk by (auto simp: registrations_ok_def lifecycle_ok_def)
  obtain w1 where w1: "unregister_held otel_api_unregister_global_meter_provider im (lc_global_registration (sd_metrics_lifecycle k)) w
      = Some (St_Ok, w1)" "w_sound w w1" "sdks w1 = sdks w" "crate_calls w1 = crate_calls w"
      "metrics_slot (api w1) = (if lc_global_registration (sd_metrics_lifecycle k) = Some (slot_registration_id (metrics_slot (api w)))
        then empty_token_slot else metrics_slot (api w))"
    by (rule metrics_signal.unregister_held_run [OF inv nz(1)])
  obtain w2 where w2: "unregister_held otel_api_unregister_global_logger_provider im (lc_global_registration (sd_logs_lifecycle k)) w1
      = Some (St_Ok, w2)" "w_sound w1 w2" "sdks w2 = sdks w1" "crate_calls w2 = crate_calls w1"
      "logs_slot (api w2) = (if lc_global_registration (sd_logs_lifecycle k) = Some (slot_registration_id (logs_slot (api w1)))
        then empty_token_slot else logs_slot (api w1))"
    by (rule logs_signal.unregister_held_run [OF w_inv_sound [OF w1(2)] nz(2)])
  note frame = unregister_held_frame(1) [OF w1(1)] unregister_held_frame(2) [OF w2(1)]
  let ?w3 = "w_crate Sig_Metrics (Crate_Shutdown 0) w2"
  have s3: "w_sound w2 ?w3" by (rule w_sound_basic [OF w_inv_sound [OF w2(2)]])
  have "w_sound ?w3 (w_crate Sig_Logs (Crate_Shutdown 0) ?w3)" by (rule w_sound_basic [OF w_inv_sound [OF s3]])
  then have "w_sound w (w_crate Sig_Logs (Crate_Shutdown 0) ?w3)" using w1(2) w2(2) s3 w_sound_trans by blast
  then show ?thesis
    by (intro that [of "w_crate Sig_Logs (Crate_Shutdown 0) ?w3"])
      (use w1 w2 frame in \<open>simp_all add: sdk_drop_def w_crate_def\<close>)
qed

lemma destroy_handle_sound:
  assumes inv: "w_inv w" and run: "destroy_handle K p (sdks w) = Some s"
  shows "w_sound w (w\<lparr>sdks := s\<rparr>)"
  using destroy_handle_conserves [OF _ run] all_bodies_destroy [OF run] inv
  by (simp add: w_sound_def w_inv_def sdk_inv_def conserves_def)

lemma sdk_destroy_sound:
  assumes run: "otel_sdk_destroy im async ic p w = Some w'" and inv: "w_inv w"
  shows "w_sound w w'"
proof -
  obtain r w1 where b: "(if async then borrow_sdk p w else Some (None, w)) = Some (r, w1)"
    using run by (cases "if async then borrow_sdk p w else Some (None, w)") (auto simp: otel_sdk_destroy_def)
  have s1: "w_sound w w1"
  proof (cases async)
    case True
    then have b: "borrow_sdk p w = Some (r, w1)" using b by simp
    then show ?thesis
    proof (cases rule: borrow_sdk_cases)
      case (Valid k)
      then show ?thesis using w_sound_basic(1) [OF inv] by simp
    next
      case (Refused e)
      show ?thesis unfolding Refused(2) by (rule w_sound_basic(5) [OF inv])
    qed
  next
    case False
    then show ?thesis using b w_sound_basic(1) [OF inv] by simp
  qed
  note inv1 = w_inv_sound [OF s1]
  show ?thesis
  proof (cases "\<exists>k \<in> set_option r. ic k")
    case True
    then have "w' = snd (w_fail St_InvalidConfig ''cannot destroy an SDK reentrantly from an async reader callback'' w1)"
      using run b by (simp add: otel_sdk_destroy_def)
    then show ?thesis using w_sound_trans [OF s1 w_sound_basic(3) [OF inv1]] by simp
  next
    case calm: False
    show ?thesis
    proof (cases "w' = w1")
      case True
      then show ?thesis using s1 by simp
    next
      case False
      obtain a h k where h: "p = Some a" "objs (sdks w1) a = Some h" "as_sdk (body h) = Some k"
          "(case sdk_drop im k w1 of None \<Rightarrow> None | Some w2 \<Rightarrow> map_option (\<lambda>s. w2\<lparr>sdks := s\<rparr>) (destroy_handle KIND_SDK p (sdks w2))) = Some w'"
        using run b calm False by (auto simp: otel_sdk_destroy_def split: option.splits if_split_asm)
      have tk: "registrations_ok (SP_Sdk k)" using inv1 h(2) hsdk.proj_iff [of "body h" k] h(3) unfolding w_inv_def all_bodies_def by metis
      obtain w2 where w2: "sdk_drop im k w1 = Some w2" "w_sound w1 w2" by (rule sdk_drop_run [OF inv1 tk])
      then obtain s where s: "destroy_handle KIND_SDK p (sdks w2) = Some s" "w' = w2\<lparr>sdks := s\<rparr>" using h(4) by auto
      show ?thesis unfolding s(2)
        using w_sound_trans [OF s1 w_sound_trans [OF w2(2) destroy_handle_sound [OF w_inv_sound [OF w2(2)] s(1)]]] .
    qed
  qed
qed

section \<open>Sequences of calls\<close>

text \<open>The calls on an SDK, in any order, with any arguments and any outcome of the crate.\<close>

inductive lifecycle_step :: "'e implementation \<Rightarrow> sdk_library \<Rightarrow> 'e sdk_world \<Rightarrow> 'e sdk_world \<Rightarrow> bool" for im lib where
  tracer_provider: "otel_sdk_get_tracer_provider im lib ctx p w = Some (h, w') \<Longrightarrow> lifecycle_step im lib w w'"
| meter_provider: "otel_sdk_get_meter_provider im lib ctx p w = Some (h, w') \<Longrightarrow> lifecycle_step im lib w w'"
| logger_provider: "otel_sdk_get_logger_provider im lib ctx p w = Some (h, w') \<Longrightarrow> lifecycle_step im lib w w'"
| set_as_global: "otel_sdk_set_as_global im lib ctx p w = Some (st, w') \<Longrightarrow> lifecycle_step im lib w w'"
| set_metrics_as_global: "otel_sdk_set_metrics_as_global im lib ctx p w = Some (st, w') \<Longrightarrow> lifecycle_step im lib w w'"
| set_logs_as_global: "otel_sdk_set_logs_as_global im lib ctx p w = Some (st, w') \<Longrightarrow> lifecycle_step im lib w w'"
| force_flush: "otel_sdk_force_flush direct timed t p w = Some (st, w') \<Longrightarrow> lifecycle_step im lib w w'"
| flush_helper: "lifecycle_step im lib w (flush_helper_finishes p w)"
| metrics_force_flush: "otel_sdk_metrics_force_flush ic r p w = Some (st, w') \<Longrightarrow> lifecycle_step im lib w w'"
| logs_force_flush: "otel_sdk_logs_force_flush r p w = Some (st, w') \<Longrightarrow> lifecycle_step im lib w w'"
| shutdown: "otel_sdk_shutdown r t p w = Some (st, w') \<Longrightarrow> lifecycle_step im lib w w'"
| metrics_shutdown: "otel_sdk_metrics_shutdown im ic r t p w = Some (st, w') \<Longrightarrow> lifecycle_step im lib w w'"
| logs_shutdown: "otel_sdk_logs_shutdown im r t p w = Some (st, w') \<Longrightarrow> lifecycle_step im lib w w'"
| destroy: "otel_sdk_destroy im async ic p w = Some w' \<Longrightarrow> lifecycle_step im lib w w'"

lemma lifecycle_step_sound:
  assumes "lifecycle_step im lib w w'" and inv: "w_inv w"
  shows "w_sound w w'"
  using assms(1)
  by cases
    (auto simp: otel_sdk_get_tracer_provider_def otel_sdk_get_meter_provider_def otel_sdk_get_logger_provider_def
      otel_sdk_set_metrics_as_global_def otel_sdk_set_logs_as_global_def otel_sdk_metrics_shutdown_def otel_sdk_logs_shutdown_def
      intro: inv trace_handles.get_provider_sound meters.get_provider_sound loggers.get_provider_sound set_as_global_sound
      metrics_signal.set_signal_sound logs_signal.set_signal_sound metrics_signal.signal_shutdown_sound
      logs_signal.signal_shutdown_sound flush_and_shutdown_sound flush_helper_sound sdk_destroy_sound)

text \<open>
  C29: No sequence of calls on SDK handles leaks or steals a provider. Whatever is installed, replaced,
  flushed, shut down or destroyed, in any order and with any failure, the API library and the SDK stay
  consistent, every reference to a provider context that the calls took out of a new context is accounted
  for by a handle or a slot or was released, and no exporter is lost.
\<close>

theorem lifecycle_conserves:
  assumes "(lifecycle_step im lib)\<^sup>*\<^sup>* w w'" and "w_inv w"
  shows "w_inv w' \<and> (\<forall>r. external r (api w') = external r (api w)) \<and> balance (sdks w') = balance (sdks w)"
proof -
  have "w_sound w w'" using assms
  proof (induction rule: rtranclp_induct)
    case base
    then show ?case by (rule w_sound_basic)
  next
    case (step w1 w2)
    then show ?case using lifecycle_step_sound w_inv_sound w_sound_trans by blast
  qed
  then show ?thesis by (simp add: w_sound_def)
qed

text \<open>
  C30: Shutting metrics down uninstalls the provider that this SDK installed and no other, calls the
  crate's shutdown once with the given timeout or five seconds, and is final: a second shutdown, a flush
  and an installation of metrics are refused and change neither the slot nor the crate.
\<close>

theorem metrics_shutdown_is_final:
  assumes inv: "w_inv w" and pt: "points_to (sdks w) p (SP_Sdk k)"
    and live: "\<not> lc_shutdown_started (sd_metrics_lifecycle k)" and calm: "\<And>k. \<not> ic k"
  shows "\<exists>st w'. otel_sdk_metrics_shutdown im ic r tmo p w = Some (st, w') \<and> (st = St_Ok \<longleftrightarrow> r = Res_Ok) \<and>
    metrics_slot (api w') = (if lc_global_registration (sd_metrics_lifecycle k) = Some (slot_registration_id (metrics_slot (api w)))
      then empty_token_slot else metrics_slot (api w)) \<and>
    crate_calls w' = crate_calls w @ [(Sig_Metrics, Crate_Shutdown (if tmo = 0 then 5000 else tmo))] \<and>
    otel_sdk_metrics_shutdown im ic r2 tmo2 p w' =
      Some (w_fail St_AlreadyShutdown ''Metrics provider has already been shut down'' (w_clear w')) \<and>
    otel_sdk_metrics_force_flush ic r2 p w' =
      Some (w_fail St_AlreadyShutdown ''cannot force flush a shut-down Metrics provider'' (w_clear w')) \<and>
    otel_sdk_set_metrics_as_global im lib ctx p w' =
      Some (w_fail St_AlreadyShutdown ''cannot install a shut-down Metrics provider as global'' (w_clear w'))"
proof -
  let ?k = "put_metrics_lifecycle \<lparr>lc_shutdown_started = True, lc_global_registration = None\<rparr> k"
  obtain w' where w': "otel_sdk_metrics_shutdown im ic r tmo p w = Some (fst (map_flush_result r w), w')" "w_sound w w'"
    "points_to (sdks w') p (SP_Sdk ?k)" "crate_calls w' = crate_calls w @ [(Sig_Metrics, Crate_Shutdown (shutdown_timeout tmo))]"
    "metrics_slot (api w') = (if lc_global_registration (sd_metrics_lifecycle k) = Some (slot_registration_id (metrics_slot (api w)))
      then empty_token_slot else metrics_slot (api w))"
    unfolding otel_sdk_metrics_shutdown_def
    by (rule metrics_signal.signal_shutdown_run [OF inv pt _ live]) (use calm in auto)
  have late: "lc_shutdown_started (sd_metrics_lifecycle ?k)" by (simp add: put_metrics_lifecycle_def)
  note [simp] = with_sdk_points_to [OF w_inv_sound [OF w'(2)] w'(3)]
  have "fst (map_flush_result r w) = St_Ok \<longleftrightarrow> r = Res_Ok" by (cases r) (simp_all add: map_flush_result_def w_fail_def)
  moreover have "shutdown_timeout tmo = (if tmo = 0 then 5000 else tmo)" by (simp add: shutdown_timeout_def optional_millis_def)
  ultimately show ?thesis using w' late calm
    by (simp add: otel_sdk_metrics_shutdown_def signal_shutdown_def otel_sdk_metrics_force_flush_def
        otel_sdk_set_metrics_as_global_def set_signal_as_global_def)
qed

text \<open>
  A provider that an SDK installed disappears with the SDK. After a compatible library installs its
  metrics provider, the slot holds it; if nothing else is installed in between, destroying the SDK empties
  the slot and frees the handle, and the crate's providers have been shut down.
\<close>

theorem install_then_destroy:
  assumes inv: "w_inv w" and pt: "points_to (sdks w) (Some a) (SP_Sdk k)"
    and live: "\<not> lc_shutdown_started (sd_metrics_lifecycle k)" and calm: "\<And>k. \<not> ic k"
    and compatible: "metrics_vtable_compatible (im_header im (lib_metrics lib))"
  shows "\<exists>w1 w2. otel_sdk_set_metrics_as_global im lib ctx (Some a) w = Some (St_Ok, w1) \<and>
    slot_vtable (metrics_slot (api w1)) = Some (lib_metrics lib) \<and> slot_ctx (metrics_slot (api w1)) = Some ctx \<and>
    otel_sdk_destroy im async ic (Some a) w1 = Some w2 \<and>
    metrics_slot (api w2) = empty_token_slot \<and> objs (sdks w2) a = None \<and>
    crate_calls w2 = crate_calls w @ [(Sig_Metrics, Crate_Shutdown 0), (Sig_Logs, Crate_Shutdown 0)]"
proof -
  obtain i w1 where w1: "otel_sdk_set_metrics_as_global im lib ctx (Some a) w = Some (St_Ok, w1)" "i \<noteq> 0"
    "metrics_slot (api w1) = \<lparr>slot_vtable = Some (lib_metrics lib), slot_ctx = Some ctx, slot_registration_id = i\<rparr>"
    "points_to (sdks w1) (Some a) (SP_Sdk (put_metrics_lifecycle ((sd_metrics_lifecycle k)\<lparr>lc_global_registration := Some i\<rparr>) k))"
    "w_sound w w1" "crate_calls w1 = crate_calls w"
    unfolding otel_sdk_set_metrics_as_global_def by (rule metrics_signal.set_signal_run [OF inv pt compatible live])
  let ?k = "put_metrics_lifecycle ((sd_metrics_lifecycle k)\<lparr>lc_global_registration := Some i\<rparr>) k"
  have inv1: "w_inv w1" by (rule w_inv_sound [OF w1(5)])
  have tk: "registrations_ok (SP_Sdk ?k)" using inv1 w1(4) all_bodies_points_to by (auto simp: w_inv_def)
  obtain w2 where w2: "sdk_drop im ?k w1 = Some w2" "w_sound w1 w2" "sdks w2 = sdks w1"
    "crate_calls w2 = crate_calls w1 @ [(Sig_Metrics, Crate_Shutdown 0), (Sig_Logs, Crate_Shutdown 0)]"
    "metrics_slot (api w2) = (if lc_global_registration (sd_metrics_lifecycle ?k) = Some (slot_registration_id (metrics_slot (api w1)))
       then empty_token_slot else metrics_slot (api w1))"
    by (rule sdk_drop_run [OF inv1 tk])
  have sl: "metrics_slot (api w2) = empty_token_slot" using w2(5) w1(3) by (simp add: put_metrics_lifecycle_def)
  obtain h where h: "objs (sdks w1) a = Some h" "body h = SP_Sdk ?k" "is_live_kind (header h) KIND_SDK"
    using w1(4) inv1 by (auto simp: points_to_def w_inv_def sdk_inv_def wf_store_def is_live_kind_def header_new_def split: option.splits)
  have b: "borrow_sdk (Some a) w1 = Some (Some ?k, w1)"
    by (rule borrow_sdk_points_to [OF _ w1(4)]) (use inv1 in \<open>simp add: w_inv_def\<close>)
  let ?s = "drop_payload (SP_Sdk ?k) ((sdks w1)\<lparr>objs := (objs (sdks w1))(a := None)\<rparr>)"
  have "otel_sdk_destroy im async ic (Some a) w1 = Some (w2\<lparr>sdks := ?s\<rparr>)"
    using b h w2(1,3) calm by (simp add: otel_sdk_destroy_def destroy_handle_def as_sdk_def)
  moreover have "objs ?s a = None" by (simp add: drop_payload_def)
  ultimately show ?thesis using w1 w2(4) sl by simp
qed

text \<open>A world for the witnesses: one SDK with a simple span processor, nothing registered yet.\<close>

definition sample_sdk :: sdk where
  "sample_sdk =
     \<lparr>sd_resource = \<lparr>rs_service_name = None, rs_attributes = []\<rparr>, sd_sampler = None, sd_span_limits = None,
      sd_processors = [SPI_Simple (TX_Custom 7)], sd_metric_readers = [], sd_metric_views = [], sd_log_processors = [],
      sd_shutdown = False, sd_metrics_lifecycle = \<lparr>lc_shutdown_started = False, lc_global_registration = None\<rparr>,
      sd_logs_lifecycle = \<lparr>lc_shutdown_started = False, lc_global_registration = None\<rparr>, sd_flush_in_flight = False\<rparr>"

definition sample_world :: "nat sdk_world" where
  "sample_world =
     \<lparr>api = sample_process,
      sdks = \<lparr>objs = [1 \<mapsto> \<lparr>header = header_new KIND_SDK, body = SP_Sdk sample_sdk\<rparr>], next_addr = 2, last_error = None,
        sdk_dropped = [], sdk_shut = []\<rparr>,
      crate_calls = []\<rparr>"

definition sample_library :: sdk_library where
  "sample_library = \<lparr>lib_trace = 10, lib_metrics = 12, lib_logs = 11\<rparr>"

lemma sample_world_inv: "w_inv sample_world" "points_to (sdks sample_world) (Some 1) (SP_Sdk sample_sdk)"
  by (simp_all add: w_inv_def sample_world_def sample_process_inv sdk_inv_def wf_store_def all_bodies_def registrations_ok_def
      lifecycle_ok_def sample_sdk_def pipeline_ok_def points_to_def)

theorem lifecycle_conserves_witness:
  "\<exists>w. (lifecycle_step sample_impl sample_library)\<^sup>*\<^sup>* sample_world w \<and> w \<noteq> sample_world \<and>
     external (R_MeterProvider 12 (Some 7)) (api w) = 2 \<and> balance (sdks w) = {#X_Trace (TX_Custom 7)#}"
proof -
  obtain w' where w': "otel_sdk_metrics_shutdown sample_impl (\<lambda>_. False) Res_Ok 0 (Some 1) sample_world = Some (St_Ok, w')"
    "crate_calls w' = crate_calls sample_world @ [(Sig_Metrics, Crate_Shutdown (shutdown_timeout 0))]"
    unfolding otel_sdk_metrics_shutdown_def
    by (rule metrics_signal.signal_shutdown_run [OF sample_world_inv,
        of "\<lambda>k. if False then Some ''cannot shut down Metrics reentrantly from an async reader callback'' else None"
          sample_impl Sig_Metrics "''Metrics provider has already been shut down''" Res_Ok 0])
      (simp_all add: sample_sdk_def map_flush_result_def)
  have "(lifecycle_step sample_impl sample_library)\<^sup>*\<^sup>* sample_world w'"
    using lifecycle_step.metrics_shutdown [OF w'(1)] by blast
  moreover have "w' \<noteq> sample_world" using w'(2) by (auto dest: arg_cong [of _ _ crate_calls])
  moreover have "balance (sdks sample_world) = {#X_Trace (TX_Custom 7)#}"
    by (simp add: sample_world_def balance_def owned_def contents_def sample_sdk_def numeral_2_eq_2)
  moreover have "external r (api sample_world) = 2" for r by (simp add: sample_world_def sample_process_inv)
  ultimately show ?thesis using lifecycle_conserves [OF _ sample_world_inv(1)] by metis
qed

theorem metrics_shutdown_is_final_witness:
  "\<exists>st w'. otel_sdk_metrics_shutdown sample_impl (\<lambda>_. False) (Res_Timeout ''5s'') 0 (Some 1) sample_world = Some (st, w') \<and>
     st \<noteq> St_Ok \<and> crate_calls w' = [(Sig_Metrics, Crate_Shutdown 5000)]"
proof -
  have "\<not> lc_shutdown_started (sd_metrics_lifecycle sample_sdk)" "crate_calls sample_world = []"
    by (simp_all add: sample_sdk_def sample_world_def)
  with metrics_shutdown_is_final [where ic = "\<lambda>_. False" and im = sample_impl and r = "Res_Timeout ''5s''" and tmo = 0
      and ?r2.0 = Res_Ok and ?tmo2.0 = 0 and lib = sample_library and ctx = 7, OF sample_world_inv]
  show ?thesis by auto
qed

theorem install_then_destroy_witness:
  "\<exists>w1 w2. otel_sdk_set_metrics_as_global sample_impl sample_library 7 (Some 1) sample_world = Some (St_Ok, w1) \<and>
     slot_vtable (metrics_slot (api w1)) = Some 12 \<and>
     otel_sdk_destroy sample_impl True (\<lambda>_. False) (Some 1) w1 = Some w2 \<and> metrics_slot (api w2) = empty_token_slot"
proof -
  have "\<not> lc_shutdown_started (sd_metrics_lifecycle sample_sdk)" "lib_metrics sample_library = 12"
    "metrics_vtable_compatible (im_header sample_impl (lib_metrics sample_library))"
    using sample_impl_compat(3) by (simp_all add: sample_sdk_def sample_library_def)
  with install_then_destroy [where ic = "\<lambda>_. False" and im = sample_impl and lib = sample_library and ctx = 7 and async = True,
      OF sample_world_inv]
  show ?thesis by auto
qed

end
