(* ===== verification/Sdk_Spans.thy ===== *)
theory Sdk_Spans
  imports Sdk_Attributes Span_Lifecycle
begin

text \<open>
  The span part of the SDK's trace vtable (\<open>sdk/src/vtable.rs\<close>, the tracer and span entry points).
  What the SDK crate provides is a parameter: the parser and printer of trace states and the validity of a
  span context. A start entry point yields the request that the crate's tracer receives, or the error that
  is recorded before NULL is returned (\<open>Inl None\<close> is NULL without a diagnostic); a span entry point
  yields the command for the crate's span. The outer \<open>None\<close> is a read beyond the caller's arrays.
\<close>

section \<open>The crate\<close>

record 'ts sdk_span_context =
  xc_trace_id :: bytes
  xc_span_id :: bytes
  xc_trace_flags :: u8
  xc_is_remote :: bool
  xc_trace_state :: 'ts

record 'ts trace_crate =
  tc_trace_state_from_str :: "bytes \<Rightarrow> 'ts option"
  tc_trace_state_header :: "'ts \<Rightarrow> bytes"
  tc_is_valid :: "'ts sdk_span_context \<Rightarrow> bool"

record 'ts start_request =
  sr_name :: bytes
  sr_kind :: otel_span_kind
  sr_attributes :: "sdk_key_value list"
  sr_links :: "('ts sdk_span_context \<times> sdk_key_value list) list"
  sr_start_time :: "u64 option"
  sr_parent :: "'ts sdk_span_context option"

datatype sdk_status = Status_Unset | Status_Ok | Status_Error bytes

datatype span_command =
    Cmd_SetAttribute sdk_key_value
  | Cmd_AddEvent bytes "sdk_key_value list"
  | Cmd_SetStatus sdk_status
  | Cmd_UpdateName bytes
  | Cmd_End

section \<open>Starting a span\<close>

definition span_kind_of :: "u32 \<Rightarrow> otel_span_kind" where
  "span_kind_of k = (case span_kind_from_u32 k of Some sk \<Rightarrow> sk | None \<Rightarrow> SK_Internal)"

definition vt_tracer_start_span ::
  "(nat \<Rightarrow> bool) \<Rightarrow> (addr \<Rightarrow> 'ts sdk_span_context) \<Rightarrow> ptr \<Rightarrow> otel_string_view \<Rightarrow> u32 \<Rightarrow> ptr
     \<Rightarrow> (abi_error option + 'ts start_request) option" where
  "vt_tracer_start_span al span_context ctx name kind_code parent_span_ctx =
     (if ctx = None then Some (Inl None)
      else reported
        (attempt (Some (to_string_strict al name)) (\<lambda>n.
           Some (Inr \<lparr>sr_name = n, sr_kind = span_kind_of kind_code, sr_attributes = [], sr_links = [], sr_start_time = None,
                      sr_parent = map_option span_context parent_span_ctx\<rparr>))))"

definition span_context_from_view ::
  "'ts trace_crate \<Rightarrow> otel_span_context_view \<Rightarrow> abi_error + 'ts sdk_span_context" where
  "span_context_from_view cr view =
     (if vw_reserved view \<noteq> zero_bytes 3 then
        Inl (abi_error_new St_InvalidArgument ''span context reserved bytes must be zero'')
      else
        (case (case sv_as_str (vw_trace_state view) of Inl _ \<Rightarrow> None | Inr value \<Rightarrow> tc_trace_state_from_str cr value) of
           None \<Rightarrow> Inl (abi_error_new St_InvalidConfig ''span context trace state is invalid'')
         | Some ts \<Rightarrow>
             Inr \<lparr>xc_trace_id = vw_trace_id view, xc_span_id = vw_span_id view, xc_trace_flags = vw_trace_flags view,
                  xc_is_remote = (vw_is_remote view \<noteq> 0), xc_trace_state = ts\<rparr>))"

definition valid_context_from_view ::
  "'ts trace_crate \<Rightarrow> string \<Rightarrow> otel_span_context_view \<Rightarrow> abi_error + 'ts sdk_span_context" where
  "valid_context_from_view cr msg view =
     (case span_context_from_view cr view of
        Inl e \<Rightarrow> Inl e
      | Inr c \<Rightarrow> if tc_is_valid cr c then Inr c else Inl (abi_error_new St_InvalidArgument msg))"

definition vt_tracer_start_span_with_context ::
  "(nat \<Rightarrow> bool) \<Rightarrow> 'ts trace_crate \<Rightarrow> ptr \<Rightarrow> otel_string_view \<Rightarrow> u32 \<Rightarrow> otel_span_context_view option
     \<Rightarrow> (abi_error option + 'ts start_request) option" where
  "vt_tracer_start_span_with_context al cr ctx name kind_code parent =
     (if ctx = None then Some (Inl None)
      else
        (case parent of
           None \<Rightarrow> Some (Inl None)
         | Some view \<Rightarrow> reported
             (attempt (Some (valid_context_from_view cr ''parent span context is invalid'' view)) (\<lambda>c.
              attempt (Some (to_string_strict al name)) (\<lambda>n.
                Some (Inr \<lparr>sr_name = n, sr_kind = span_kind_of kind_code, sr_attributes = [], sr_links = [], sr_start_time = None,
                           sr_parent = Some c\<rparr>))))))"

fun convert_links ::
  "(nat \<Rightarrow> bool) \<Rightarrow> 'ts trace_crate \<Rightarrow> otel_span_link_view list
     \<Rightarrow> (abi_error + ('ts sdk_span_context \<times> sdk_key_value list) list) option" where
  "convert_links al cr [] = Some (Inr [])"
| "convert_links al cr (l # ls) =
     attempt (Some (valid_context_from_view cr ''link span context is invalid'' (lv_context l))) (\<lambda>c.
     attempt (collect_key_values al (lv_attributes l) (lv_attribute_count l)) (\<lambda>attrs.
     attempt (convert_links al cr ls) (\<lambda>rest. Some (Inr ((c, attrs) # rest)))))"

definition start_links ::
  "(nat \<Rightarrow> bool) \<Rightarrow> 'ts trace_crate \<Rightarrow> otel_span_start_config
     \<Rightarrow> (abi_error + ('ts sdk_span_context \<times> sdk_key_value list) list) option" where
  "start_links al cr config =
     (if ssc_link_count config = 0 then Some (Inr [])
      else
        (case ssc_links config of
           None \<Rightarrow> Some (Inl (abi_error_new St_InvalidArgument ''link array is NULL with a non-zero count''))
         | Some ls \<Rightarrow>
             if \<not> al (unat (ssc_link_count config)) then
               Some (Inl (abi_error_new St_InternalError ''failed to allocate space for links''))
             else if length ls < unat (ssc_link_count config) then None
             else convert_links al cr (take (unat (ssc_link_count config)) ls)))"

text \<open>The parent is resolved last, after the attributes and the links.\<close>

definition start_parent ::
  "'ts trace_crate \<Rightarrow> (addr \<Rightarrow> 'ts sdk_span_context) \<Rightarrow> otel_span_start_config \<Rightarrow> abi_error + 'ts sdk_span_context option" where
  "start_parent cr span_context config =
     (case ssc_parent_span_ctx config of
        Some a \<Rightarrow> Inr (Some (span_context a))
      | None \<Rightarrow>
          (case ssc_parent_context config of
             None \<Rightarrow> Inr None
           | Some view \<Rightarrow> map_sum id Some (valid_context_from_view cr ''parent span context is invalid'' view)))"

definition vt_tracer_start_span_ex ::
  "(nat \<Rightarrow> bool) \<Rightarrow> 'ts trace_crate \<Rightarrow> (addr \<Rightarrow> 'ts sdk_span_context) \<Rightarrow> ptr \<Rightarrow> otel_string_view
     \<Rightarrow> otel_span_start_config option \<Rightarrow> (abi_error option + 'ts start_request) option" where
  "vt_tracer_start_span_ex al cr span_context ctx name config =
     reported
       (case config of
          None \<Rightarrow> Some (Inl (abi_error_new St_InvalidArgument ''tracer context and config must not be NULL''))
        | Some cfg \<Rightarrow>
            if ctx = None then
              Some (Inl (abi_error_new St_InvalidArgument ''tracer context and config must not be NULL''))
            else if ssc_reserved cfg \<noteq> 0 then
              Some (Inl (abi_error_new St_InvalidArgument ''reserved field in span-start config must be zero''))
            else if ssc_parent_span_ctx cfg \<noteq> None \<and> ssc_parent_context cfg \<noteq> None then
              Some (Inl (abi_error_new St_InvalidArgument ''live parent and context parent are mutually exclusive''))
            else
              attempt (Some (to_string_strict al name)) (\<lambda>n.
              attempt (collect_key_values al (ssc_attributes cfg) (ssc_attribute_count cfg)) (\<lambda>attributes.
              attempt (start_links al cr cfg) (\<lambda>links.
              attempt (Some (start_parent cr span_context cfg)) (\<lambda>parent.
                Some (Inr \<lparr>sr_name = n, sr_kind = span_kind_of (ssc_kind cfg), sr_attributes = attributes, sr_links = links,
                           sr_start_time = (if ssc_start_time_unix_nanos cfg = 0 then None
                             else Some (ssc_start_time_unix_nanos cfg)),
                           sr_parent = parent\<rparr>))))))"

definition vt_tracer_start_span_ex_with_context ::
  "(nat \<Rightarrow> bool) \<Rightarrow> 'ts trace_crate \<Rightarrow> (addr \<Rightarrow> 'ts sdk_span_context) \<Rightarrow> ptr \<Rightarrow> otel_string_view
     \<Rightarrow> otel_span_start_config option \<Rightarrow> otel_context_view option \<Rightarrow> (abi_error option + 'ts start_request) option" where
  "vt_tracer_start_span_ex_with_context al cr span_context ctx name config context =
     (case (config, context) of
        (Some cfg, Some cv) \<Rightarrow>
          if cv_struct_size cv < OTEL_CONTEXT_VIEW_SIZE then
            Some (Inl (Some (abi_error_new St_InvalidConfig ''context view is incompatible'')))
          else if cv_reserved cv \<noteq> 0 \<or> and (cv_flags cv) (not OTEL_CONTEXT_SUPPORTED_FLAGS) \<noteq> 0 then
            Some (Inl (Some (abi_error_new St_InvalidConfig ''context view is incompatible'')))
          else if ssc_parent_span_ctx cfg \<noteq> None \<or> ssc_parent_context cfg \<noteq> None then
            Some (Inl (Some (abi_error_new St_InvalidArgument ''general context cannot be combined with an explicit parent'')))
          else vt_tracer_start_span_ex al cr span_context ctx name (Some (cfg\<lparr>ssc_parent_context := cv_span_context cv\<rparr>))
      | _ \<Rightarrow> Some (Inl (Some (abi_error_new St_InvalidArgument ''span config or context view is NULL''))))"

section \<open>A live span\<close>

definition vt_span_context_visit ::
  "'ts trace_crate \<Rightarrow> (addr \<Rightarrow> 'ts sdk_span_context) \<Rightarrow> ptr
     \<Rightarrow> ('u \<Rightarrow> otel_span_context_view option \<Rightarrow> otel_status \<times> 'u) option \<Rightarrow> 'u \<Rightarrow> (abi_error + otel_status) \<times> 'u" where
  "vt_span_context_visit cr span_context ctx visitor u =
     (case ctx of
        None \<Rightarrow> (Inl (abi_error_new St_InvalidArgument ''span context is NULL''), u)
      | Some a \<Rightarrow>
          (case visitor of
             None \<Rightarrow> (Inl (abi_error_new St_InvalidArgument ''span context visitor is NULL''), u)
           | Some f \<Rightarrow>
               (let c = span_context a;
                    view = \<lparr>vw_trace_id = xc_trace_id c, vw_span_id = xc_span_id c, vw_trace_flags = xc_trace_flags c,
                      vw_reserved = zero_bytes 3, vw_is_remote = (if xc_is_remote c then 1 else 0),
                      vw_trace_state = sv_of (tc_trace_state_header cr (xc_trace_state c))\<rparr>;
                    (st, u') = f u (Some view)
                in (Inr st, u'))))"

definition span_attribute_key :: "(nat \<Rightarrow> bool) \<Rightarrow> otel_string_view \<Rightarrow> abi_error + bytes" where
  "span_attribute_key al key =
     (case to_string_strict al key of
        Inl e \<Rightarrow> Inl e
      | Inr k \<Rightarrow> if k = [] then Inl (abi_error_new St_InvalidArgument ''attribute key must not be empty'') else Inr k)"

definition vt_span_set_string :: "(nat \<Rightarrow> bool) \<Rightarrow> otel_string_view \<Rightarrow> otel_string_view \<Rightarrow> abi_error + span_command" where
  "vt_span_set_string al key value =
     (case span_attribute_key al key of
        Inl e \<Rightarrow> Inl e
      | Inr k \<Rightarrow>
          (case to_string_strict al value of
             Inl e \<Rightarrow> Inl e
           | Inr v \<Rightarrow> Inr (Cmd_SetAttribute \<lparr>skv_key = k, skv_value = V_String v\<rparr>)))"

definition vt_span_set_bool :: "(nat \<Rightarrow> bool) \<Rightarrow> otel_string_view \<Rightarrow> u32 \<Rightarrow> abi_error + span_command" where
  "vt_span_set_bool al key value =
     map_sum id (\<lambda>k. Cmd_SetAttribute \<lparr>skv_key = k, skv_value = V_Bool (value \<noteq> 0)\<rparr>) (span_attribute_key al key)"

definition vt_span_set_i64 :: "(nat \<Rightarrow> bool) \<Rightarrow> otel_string_view \<Rightarrow> i64 \<Rightarrow> abi_error + span_command" where
  "vt_span_set_i64 al key value =
     map_sum id (\<lambda>k. Cmd_SetAttribute \<lparr>skv_key = k, skv_value = V_I64 value\<rparr>) (span_attribute_key al key)"

definition vt_span_set_f64 :: "(nat \<Rightarrow> bool) \<Rightarrow> otel_string_view \<Rightarrow> u64 \<Rightarrow> abi_error + span_command" where
  "vt_span_set_f64 al key value =
     map_sum id (\<lambda>k. Cmd_SetAttribute \<lparr>skv_key = k, skv_value = V_F64 value\<rparr>) (span_attribute_key al key)"

definition vt_span_add_event ::
  "(nat \<Rightarrow> bool) \<Rightarrow> otel_string_view \<Rightarrow> otel_key_value list option \<Rightarrow> usize \<Rightarrow> (abi_error + span_command) option" where
  "vt_span_add_event al name attributes attribute_count =
     attempt (Some (to_string_strict al name)) (\<lambda>n.
     attempt (collect_key_values al attributes attribute_count) (\<lambda>attrs. Some (Inr (Cmd_AddEvent n attrs))))"

text \<open>The description is read only for an error status.\<close>

definition vt_span_set_status :: "(nat \<Rightarrow> bool) \<Rightarrow> u32 \<Rightarrow> otel_string_view \<Rightarrow> abi_error + span_command" where
  "vt_span_set_status al code description =
     (case span_status_code_from_u32 code of
        None \<Rightarrow> Inl (abi_error_new St_InvalidArgument ''status code is not a valid OtelSpanStatusCode value'')
      | Some SC_Unset \<Rightarrow> Inr (Cmd_SetStatus Status_Unset)
      | Some SC_Ok \<Rightarrow> Inr (Cmd_SetStatus Status_Ok)
      | Some SC_Error \<Rightarrow> map_sum id (\<lambda>d. Cmd_SetStatus (Status_Error d)) (to_string_strict al description))"

definition vt_span_update_name :: "(nat \<Rightarrow> bool) \<Rightarrow> otel_string_view \<Rightarrow> abi_error + span_command" where
  "vt_span_update_name al name = map_sum id Cmd_UpdateName (to_string_strict al name)"

definition vt_span_end :: span_command where "vt_span_end = Cmd_End"

section \<open>What the API passes on\<close>

text \<open>The documented behaviour of the crate that the facts below rely on: a span context is valid when neither
  identifier is zero.\<close>

definition crate_validity :: "'ts trace_crate \<Rightarrow> bool" where
  "crate_validity cr \<longleftrightarrow> (\<forall>c. tc_is_valid cr c \<longleftrightarrow> xc_trace_id c \<noteq> zero_bytes 16 \<and> xc_span_id c \<noteq> zero_bytes 8)"

text \<open>The crate's reading of a span context of the API.\<close>

definition crate_context :: "span_context_data \<Rightarrow> 'ts \<Rightarrow> 'ts sdk_span_context" where
  "crate_context c ts =
     \<lparr>xc_trace_id = sc_trace_id c, xc_span_id = sc_span_id c, xc_trace_flags = sc_trace_flags c,
      xc_is_remote = sc_is_remote c, xc_trace_state = ts\<rparr>"

definition readable_context :: "'ts trace_crate \<Rightarrow> span_context_data \<Rightarrow> 'ts \<Rightarrow> bool" where
  "readable_context cr c ts \<longleftrightarrow> span_context_is_valid c \<and> valid_utf8 (sc_trace_state c) \<and> length (sc_trace_state c) \<le> isize_max \<and>
     tc_trace_state_from_str cr (sc_trace_state c) = Some ts"

lemma valid_context_from_view_api:
  assumes "crate_validity cr" and "readable_context cr c ts"
  shows "valid_context_from_view cr msg (span_context_view c) = Inr (crate_context c ts)"
  using assms sv_as_str_sv_of [of "sc_trace_state c"]
  by (simp add: valid_context_from_view_def span_context_from_view_def span_context_view_def crate_context_def
      readable_context_def crate_validity_def span_context_is_valid_def)



section \<open>What a versioned start hands to the implementation\<close>













section \<open>What is left for the SDK to refuse\<close>











lemma start_config_sel:
  "ssc_reserved (start_config r pc pv vs) = 0" "ssc_kind (start_config r pc pv vs) = sx_kind r"
  "ssc_parent_span_ctx (start_config r pc pv vs) = pc" "ssc_parent_context (start_config r pc pv vs) = pv"
  "ssc_start_time_unix_nanos (start_config r pc pv vs) = sx_start_time_unix_nanos r"
  "ssc_attributes (start_config r pc pv vs) = sx_attributes r"
  "ssc_attribute_count (start_config r pc pv vs) = sx_attribute_count r"
  "ssc_links (start_config r pc pv vs) = (if vs = [] then None else Some vs)"
  by (simp_all add: start_config_def)


definition configured_links :: "otel_span_start_config \<Rightarrow> otel_span_link_view list" where
  "configured_links cfg = (case ssc_links cfg of None \<Rightarrow> [] | Some vs \<Rightarrow> vs)"

lemma configured_links_start [simp]: "configured_links (start_config r pc pv vs) = vs"
  by (simp add: configured_links_def start_config_sel)



text \<open>
  C19: A span context survives the way out of the SDK and back. When the API takes a snapshot of an SDK span,
  and a span is started with that snapshot as its parent, the parent that the tracer receives is the context of
  the first span, with its remoteness and trace state.
\<close>

theorem span_context_leaves_and_returns:
  assumes al: "\<forall>n. al n" and cr: "crate_validity cr" and valid: "tc_is_valid cr (span_context a)"
    and header: "valid_utf8 (tc_trace_state_header cr (xc_trace_state (span_context a)))"
      "length (tc_trace_state_header cr (xc_trace_state (span_context a))) \<le> isize_max"
    and parses: "tc_trace_state_from_str cr (tc_trace_state_header cr (xc_trace_state (span_context a))) =
      Some (xc_trace_state (span_context a))"
    and name: "sv_as_str name = Inr n"
  shows "\<exists>c. vt_span_context_visit cr span_context (Some a) (Some (receive_span_context al)) (None, s) = (Inr St_Ok, Some c, s) \<and>
    span_context_is_valid c \<and>
    vt_tracer_start_span_with_context al cr (Some tracer) name kind_code (Some (span_context_view c)) =
      Some (Inr \<lparr>sr_name = n, sr_kind = span_kind_of kind_code, sr_attributes = [], sr_links = [], sr_start_time = None,
        sr_parent = Some (span_context a)\<rparr>)"
proof -
  let ?x = "span_context a"
  let ?c = "span_context_from_parts (xc_trace_id ?x) (xc_span_id ?x) (xc_trace_flags ?x) (xc_is_remote ?x)
    (tc_trace_state_header cr (xc_trace_state ?x))"
  have nz: "xc_trace_id ?x \<noteq> zero_bytes 16" "xc_span_id ?x \<noteq> zero_bytes 8" using cr valid by (simp_all add: crate_validity_def)
  have str: "sv_as_str (sv_of (tc_trace_state_header cr (xc_trace_state ?x))) = Inr (tc_trace_state_header cr (xc_trace_state ?x))"
    by (rule sv_as_str_sv_of [OF header])
  have "readable_context cr ?c (xc_trace_state ?x)"
    using nz header parses by (simp add: readable_context_def span_context_is_valid_def span_context_from_parts_def)
  then have "valid_context_from_view cr m (span_context_view ?c) = Inr ?x" for m
    using valid_context_from_view_api [OF cr] by (simp add: crate_context_def span_context_from_parts_def)
  then have "vt_tracer_start_span_with_context al cr (Some tracer) name kind_code (Some (span_context_view ?c)) =
      Some (Inr \<lparr>sr_name = n, sr_kind = span_kind_of kind_code, sr_attributes = [], sr_links = [], sr_start_time = None,
        sr_parent = Some ?x\<rparr>)"
    by (simp add: vt_tracer_start_span_with_context_def reported_def to_string_strict_total [OF al] name)
  moreover have "vt_span_context_visit cr span_context (Some a) (Some (receive_span_context al)) (None, s) = (Inr St_Ok, Some ?c, s)"
    using nz str al by (simp add: vt_span_context_visit_def receive_span_context_def Let_def)
  moreover have "span_context_is_valid ?c" using nz by (simp add: span_context_is_valid_def span_context_from_parts_def)
  ultimately show ?thesis by blast
qed

text \<open>
  An attribute means the same whether it is set on a live span or passed at its start. For every attribute with a
  valid tag, the setter that the API selects for the tag yields the command for exactly the attribute that the array
  conversion yields, and the same error where that fails.
\<close>

theorem setters_agree_with_attribute_arrays:
  "(case attribute_type_from_u32 (kv_value_type a) of
      None \<Rightarrow> \<exists>e. to_key_value al a = Inl e
    | Some AT_String \<Rightarrow> vt_span_set_string al (kv_key a) (kv_string a) = map_sum id Cmd_SetAttribute (to_key_value al a)
    | Some AT_Bool \<Rightarrow> vt_span_set_bool al (kv_key a) (kv_bool a) = map_sum id Cmd_SetAttribute (to_key_value al a)
    | Some AT_Int64 \<Rightarrow> vt_span_set_i64 al (kv_key a) (kv_int64 a) = map_sum id Cmd_SetAttribute (to_key_value al a)
    | Some AT_Double \<Rightarrow> vt_span_set_f64 al (kv_key a) (kv_double a) = map_sum id Cmd_SetAttribute (to_key_value al a))"
  by (auto simp: vt_span_set_string_def vt_span_set_bool_def vt_span_set_i64_def vt_span_set_f64_def span_attribute_key_def
      to_key_value_def split: option.split otel_attribute_type.split sum.split)

text \<open>A crate for the witnesses, whose trace states are their headers, and a span with the identifiers 1 and 2.\<close>

definition sample_trace_crate :: "bytes trace_crate" where
  "sample_trace_crate =
     \<lparr>tc_trace_state_from_str = Some, tc_trace_state_header = id,
      tc_is_valid = (\<lambda>c. xc_trace_id c \<noteq> zero_bytes 16 \<and> xc_span_id c \<noteq> zero_bytes 8)\<rparr>"

definition sample_sdk_context :: "bytes sdk_span_context" where
  "sample_sdk_context =
     \<lparr>xc_trace_id = zero_bytes 15 @ [1], xc_span_id = zero_bytes 7 @ [2], xc_trace_flags = 1, xc_is_remote = True,
      xc_trace_state = [0x61, 0x3D, 0x62]\<rparr>"

lemma sample_sdk_facts:
  "crate_validity sample_trace_crate" "sv_as_str (sv_of [0x61]) = Inr [0x61]"
proof -
  have u: "valid_utf8 [0x61]" by (rule valid_utf8_ascii) auto
  show "crate_validity sample_trace_crate" by (simp add: crate_validity_def sample_trace_crate_def)
  show "sv_as_str (sv_of [0x61]) = Inr [0x61]" by (rule sv_as_str_sv_of [OF u]) (simp add: isize_max_def)
qed






theorem span_context_leaves_and_returns_witness:
  "\<exists>c s. vt_span_context_visit sample_trace_crate (\<lambda>_. sample_sdk_context) (Some 8) (Some (receive_span_context (\<lambda>_. True)))
      (None, sample_process) = (Inr St_Ok, Some c, s) \<and>
     map_option (map_sum id sr_parent) (vt_tracer_start_span_with_context (\<lambda>_. True) sample_trace_crate (Some 3) (sv_of [0x61]) 0
       (Some (span_context_view c))) = Some (Inr (Some sample_sdk_context))"
proof -
  have v: "tc_is_valid sample_trace_crate sample_sdk_context"
    by (simp add: sample_trace_crate_def sample_sdk_context_def zero_bytes_def eval_nat_numeral)
  have h: "tc_trace_state_header sample_trace_crate (xc_trace_state sample_sdk_context) = [0x61, 0x3D, 0x62]"
    "tc_trace_state_from_str sample_trace_crate = Some" "xc_trace_state sample_sdk_context = [0x61, 0x3D, 0x62]"
    by (simp_all add: sample_trace_crate_def sample_sdk_context_def)
  have u: "valid_utf8 [0x61, 0x3D, 0x62]" by (rule valid_utf8_ascii) auto
  from span_context_leaves_and_returns [where al = "\<lambda>_. True" and span_context = "\<lambda>_. sample_sdk_context" and a = 8
        and name = "sv_of [0x61]" and n = "[0x61]" and tracer = 3 and kind_code = 0 and s = sample_process
        and cr = sample_trace_crate, OF _ sample_sdk_facts(1) v]
  obtain c where "vt_span_context_visit sample_trace_crate (\<lambda>_. sample_sdk_context) (Some 8) (Some (receive_span_context (\<lambda>_. True)))
      (None, sample_process) = (Inr St_Ok, Some c, sample_process)"
    "vt_tracer_start_span_with_context (\<lambda>_. True) sample_trace_crate (Some 3) (sv_of [0x61]) 0 (Some (span_context_view c)) =
      Some (Inr \<lparr>sr_name = [0x61], sr_kind = span_kind_of 0, sr_attributes = [], sr_links = [], sr_start_time = None,
        sr_parent = Some sample_sdk_context\<rparr>)"
    using sample_sdk_facts(2) h u by (auto simp: isize_max_def)
  then show ?thesis by auto
qed

end
