(* ===== verification/Log_Flattening.thy ===== *)
theory Log_Flattening
  imports Log_Value_Pool Sdk_Attributes "HOL-Library.List_Lexorder" "HOL-Library.Multiset"
begin

text \<open>
  The flattening of exported log values (\<open>Flattener\<close> in \<open>sdk/src/log_export_view.rs\<close>): owned values are laid out
  breadth first in a pool of nodes, the form in which a C exporter reads them. The theory holds the definitions and
  the termination of their loop; \<open>Log_Layout\<close> shows what the pool reads back as and which values are laid out, and
  \<open>Log_Forest\<close> that it is a forest. \<open>al\<close> decides whether an allocation succeeds.
\<close>

section \<open>Attribute values of the crate\<close>

datatype attribute_array = Arr_Bool "bool list" | Arr_I64 "i64 list" | Arr_F64 "u64 list" | Arr_String "bytes list"

datatype attribute_value = Att_Scalar sdk_value | Att_Array attribute_array

section \<open>Flattening\<close>

definition conversion_error :: "string \<Rightarrow> abi_error" where
  "conversion_error msg = abi_error_new St_ExportFailed msg"

definition export_string_view :: "bytes \<Rightarrow> abi_error + otel_string_view" where
  "export_string_view value =
     (if OTEL_LOG_MAX_STRING_LEN < length value then
        Inl (conversion_error (''exported log string of '' @ decimal (length value) @ '' bytes exceeds the '' @
          decimal OTEL_LOG_MAX_STRING_LEN @ ''-byte limit''))
      else Inr (sv_of value))"

definition export_optional_string_view :: "bytes option \<Rightarrow> abi_error + otel_string_view" where
  "export_optional_string_view value = (case value of None \<Rightarrow> Inr sv_empty | Some v \<Rightarrow> export_string_view v)"

text \<open>An empty value; a value of another type has its tag and the member that the tag selects.\<close>

definition empty_value :: otel_log_value where
  "empty_value =
     \<lparr>lval_value_type = 0, lval_reserved = 0, lval_string = sv_empty, lval_bool = 0, lval_int64 = 0, lval_double = 0,
      lval_bytes = lb_empty, lval_children = \<lparr>rg_first = 0, rg_count = 0\<rparr>\<rparr>"

definition empty_node :: otel_log_value_node where
  "empty_node = \<lparr>nd_key = sv_empty, nd_value = empty_value\<rparr>"

definition text_value :: "otel_string_view \<Rightarrow> otel_log_value" where
  "text_value v = empty_value\<lparr>lval_value_type := 1, lval_string := v\<rparr>"

definition string_value :: "bytes \<Rightarrow> abi_error + otel_log_value" where
  "string_value s = map_sum id text_value (export_string_view s)"

definition bool_value :: "bool \<Rightarrow> otel_log_value" where
  "bool_value b = empty_value\<lparr>lval_value_type := 2, lval_bool := of_bool b\<rparr>"

definition int64_value :: "i64 \<Rightarrow> otel_log_value" where
  "int64_value i = empty_value\<lparr>lval_value_type := 3, lval_int64 := i\<rparr>"

definition double_value :: "u64 \<Rightarrow> otel_log_value" where
  "double_value d = empty_value\<lparr>lval_value_type := 4, lval_double := d\<rparr>"

definition bytes_value :: "bytes \<Rightarrow> otel_log_value" where
  "bytes_value b = empty_value\<lparr>lval_value_type := 5, lval_bytes := \<lparr>lb_ptr = Some b, lb_len = word_of_nat (length b)\<rparr>\<rparr>"

definition array_value :: "otel_log_value_range \<Rightarrow> otel_log_value" where
  "array_value r = empty_value\<lparr>lval_value_type := 6, lval_children := r\<rparr>"

definition map_value :: "otel_log_value_range \<Rightarrow> otel_log_value" where
  "map_value r = empty_value\<lparr>lval_value_type := 7, lval_children := r\<rparr>"

definition try_sized_vec :: "(nat \<Rightarrow> bool) \<Rightarrow> 'a \<Rightarrow> nat \<Rightarrow> abi_error + 'a list" where
  "try_sized_vec al x n =
     (if al n then Inr (replicate n x)
      else Inl (conversion_error (''failed to allocate '' @ decimal n @ '' elements for the exported log batch view'')))"

datatype slot = Slot_Body | Slot_Attribute nat | Slot_Node nat

datatype source = Src_Any any_value | Src_Attribute attribute_value | Src_Scalar otel_log_value

datatype container_children =
    CC_List "any_value list"
  | CC_Map "(bytes \<times> any_value) list"
  | CC_Scalars "otel_log_value list"

record flattener =
  fl_nodes :: "otel_log_value_node list"
  fl_queue :: "(slot \<times> source \<times> nat) list"

text \<open>What the loop writes beside the flattener: the body, the attribute nodes and the containers just met.\<close>

record flattening = flattener +
  fg_body :: otel_log_value
  fg_attributes :: "otel_log_value_node list"

definition reserve_children ::
  "(nat \<Rightarrow> bool) \<Rightarrow> nat \<Rightarrow> otel_log_value_node list \<Rightarrow> abi_error + otel_log_value_range \<times> otel_log_value_node list" where
  "reserve_children al n nodes =
     (let e = length nodes + n in
      if 2 ^ 32 \<le> length nodes then
        Inl (conversion_error ''exported log value node index exceeds the 32-bit pool range'')
      else if 2 ^ 32 \<le> n then Inl (conversion_error ''exported log container size exceeds the 32-bit pool range'')
      else if 2 ^ 64 \<le> e then Inl (conversion_error ''exported log value node count overflowed the address space'')
      else if OTEL_LOG_MAX_VALUE_NODES < e then
        Inl (conversion_error (''exported log value needs '' @ decimal e @ '' nodes, above the '' @
          decimal OTEL_LOG_MAX_VALUE_NODES @ ''-node limit''))
      else if \<not> al n then
        Inl (conversion_error (''failed to allocate '' @ decimal n @ '' exported log value nodes''))
      else Inr (\<lparr>rg_first = word_of_nat (length nodes), rg_count = word_of_nat n\<rparr>, nodes @ replicate n empty_node))"

definition enqueue ::
  "(nat \<Rightarrow> bool) \<Rightarrow> slot \<Rightarrow> source \<Rightarrow> nat \<Rightarrow> ('m) flattener_scheme \<Rightarrow> abi_error + 'm flattener_scheme" where
  "enqueue al slot src depth f =
     (if OTEL_LOG_MAX_VALUE_DEPTH < depth then
        Inl (conversion_error (''exported log value nesting exceeds the '' @ decimal OTEL_LOG_MAX_VALUE_DEPTH @ ''-level limit''))
      else if \<not> al 1 then Inl (conversion_error ''failed to allocate the exported log conversion work queue'')
      else Inr (f\<lparr>fl_queue := fl_queue f @ [(slot, src, depth)]\<rparr>))"

text \<open>A conversion yields the value, the pool with the reserved children, and the container if there is one.\<close>

type_synonym conversion = "otel_log_value \<times> otel_log_value_node list \<times> (otel_log_value_range \<times> container_children) list"

definition sum_bind :: "'e + 'a \<Rightarrow> ('a \<Rightarrow> 'e + 'b) \<Rightarrow> 'e + 'b" where
  "sum_bind r f = (case r of Inl e \<Rightarrow> Inl e | Inr x \<Rightarrow> f x)"

lemma sum_bind_simps [simp]: "sum_bind (Inl e) f = Inl e" "sum_bind (Inr x) f = f x"
  by (simp_all add: sum_bind_def)

lemma sum_bind_Inr_iff: "sum_bind r f = Inr y \<longleftrightarrow> (\<exists>x. r = Inr x \<and> f x = Inr y)"
  by (auto simp: sum_bind_def split: sum.splits)

definition convert_any :: "(nat \<Rightarrow> bool) \<Rightarrow> any_value \<Rightarrow> otel_log_value_node list \<Rightarrow> abi_error + conversion" where
  "convert_any al value nodes =
     (case value of
        AV_Int i \<Rightarrow> Inr (int64_value i, nodes, [])
      | AV_Double d \<Rightarrow> Inr (double_value d, nodes, [])
      | AV_Boolean b \<Rightarrow> Inr (bool_value b, nodes, [])
      | AV_String s \<Rightarrow> sum_bind (string_value s) (\<lambda>v. Inr (v, nodes, []))
      | AV_Bytes b \<Rightarrow>
          if OTEL_LOG_MAX_BYTES_LEN < length b then
            Inl (conversion_error (''exported log byte value of '' @ decimal (length b) @ '' bytes exceeds the '' @
              decimal OTEL_LOG_MAX_BYTES_LEN @ ''-byte limit''))
          else Inr (bytes_value b, nodes, [])
      | AV_ListAny vs \<Rightarrow>
          if OTEL_LOG_MAX_ARRAY_ELEMENTS < length vs then
            Inl (conversion_error (''exported log array of '' @ decimal (length vs) @ '' elements exceeds the '' @
              decimal OTEL_LOG_MAX_ARRAY_ELEMENTS @ ''-element limit''))
          else sum_bind (reserve_children al (length vs) nodes) (\<lambda>(r, nodes'). Inr (array_value r, nodes', [(r, CC_List vs)]))
      | AV_Map entries \<Rightarrow>
          if OTEL_LOG_MAX_MAP_ENTRIES < length entries then
            Inl (conversion_error (''exported log map of '' @ decimal (length entries) @ '' entries exceeds the '' @
              decimal OTEL_LOG_MAX_MAP_ENTRIES @ ''-entry limit''))
          else if \<not> al (length entries) then Inl (conversion_error ''failed to allocate an exported log map ordering'')
          else
            (let sorted_entries = sort_key fst entries in
             sum_bind (reserve_children al (length sorted_entries) nodes)
               (\<lambda>(r, nodes'). Inr (map_value r, nodes', [(r, CC_Map sorted_entries)]))))"

fun string_values :: "bytes list \<Rightarrow> abi_error + otel_log_value list" where
  "string_values [] = Inr []"
| "string_values (s # ss) = sum_bind (string_value s) (\<lambda>v. sum_bind (string_values ss) (\<lambda>vs. Inr (v # vs)))"

definition convert_attribute_array :: "(nat \<Rightarrow> bool) \<Rightarrow> attribute_array \<Rightarrow> abi_error + otel_log_value list" where
  "convert_attribute_array al a =
     (let n = (case a of Arr_Bool xs \<Rightarrow> length xs | Arr_I64 xs \<Rightarrow> length xs | Arr_F64 xs \<Rightarrow> length xs | Arr_String xs \<Rightarrow> length xs) in
      if \<not> al n then Inl (conversion_error ''failed to allocate an exported array attribute'')
      else
        (case a of
           Arr_Bool xs \<Rightarrow> Inr (map bool_value xs)
         | Arr_I64 xs \<Rightarrow> Inr (map int64_value xs)
         | Arr_F64 xs \<Rightarrow> Inr (map double_value xs)
         | Arr_String xs \<Rightarrow> string_values xs))"

definition convert_attribute_value ::
  "(nat \<Rightarrow> bool) \<Rightarrow> attribute_value \<Rightarrow> otel_log_value_node list \<Rightarrow> abi_error + conversion" where
  "convert_attribute_value al value nodes =
     (case value of
        Att_Scalar (V_Bool b) \<Rightarrow> Inr (bool_value b, nodes, [])
      | Att_Scalar (V_I64 i) \<Rightarrow> Inr (int64_value i, nodes, [])
      | Att_Scalar (V_F64 d) \<Rightarrow> Inr (double_value d, nodes, [])
      | Att_Scalar (V_String s) \<Rightarrow> sum_bind (string_value s) (\<lambda>v. Inr (v, nodes, []))
      | Att_Array a \<Rightarrow>
          sum_bind (convert_attribute_array al a) (\<lambda>elements.
            if OTEL_LOG_MAX_ARRAY_ELEMENTS < length elements then
              Inl (conversion_error (''exported attribute array of '' @ decimal (length elements) @ '' elements exceeds the '' @
                decimal OTEL_LOG_MAX_ARRAY_ELEMENTS @ ''-element limit''))
            else sum_bind (reserve_children al (length elements) nodes)
              (\<lambda>(r, nodes'). Inr (array_value r, nodes', [(r, CC_Scalars elements)]))))"

definition convert_source :: "(nat \<Rightarrow> bool) \<Rightarrow> source \<Rightarrow> otel_log_value_node list \<Rightarrow> abi_error + conversion" where
  "convert_source al src nodes =
     (case src of
        Src_Any v \<Rightarrow> convert_any al v nodes
      | Src_Attribute v \<Rightarrow> convert_attribute_value al v nodes
      | Src_Scalar v \<Rightarrow> Inr (v, nodes, []))"

text \<open>The children of a container with their keys, if they have any.\<close>

definition child_sources :: "container_children \<Rightarrow> (bytes option \<times> source) list" where
  "child_sources cc =
     (case cc of
        CC_List vs \<Rightarrow> map (\<lambda>v. (None, Src_Any v)) vs
      | CC_Map entries \<Rightarrow> map (\<lambda>(k, v). (Some k, Src_Any v)) entries
      | CC_Scalars vs \<Rightarrow> map (\<lambda>v. (None, Src_Scalar v)) vs)"

fun enqueue_children ::
  "(nat \<Rightarrow> bool) \<Rightarrow> nat \<Rightarrow> nat \<Rightarrow> (bytes option \<times> source) list \<Rightarrow> 'm flattener_scheme \<Rightarrow> abi_error + 'm flattener_scheme" where
  "enqueue_children al i depth [] f = Inr f"
| "enqueue_children al i depth ((k, src) # cs) f =
     sum_bind
       (case k of
          None \<Rightarrow> Inr f
        | Some key \<Rightarrow>
            sum_bind (export_string_view key) (\<lambda>v. Inr (f\<lparr>fl_nodes := (fl_nodes f)[i := (fl_nodes f ! i)\<lparr>nd_key := v\<rparr>]\<rparr>)))
       (\<lambda>f1. sum_bind (enqueue al (Slot_Node i) src (depth + 1) f1) (enqueue_children al (Suc i) depth cs))"

fun drain_pending ::
  "(nat \<Rightarrow> bool) \<Rightarrow> nat \<Rightarrow> (otel_log_value_range \<times> container_children) list \<Rightarrow> 'm flattener_scheme
     \<Rightarrow> abi_error + 'm flattener_scheme" where
  "drain_pending al depth [] f = Inr f"
| "drain_pending al depth ((r, cc) # ps) f =
     sum_bind (enqueue_children al (unat (rg_first r)) depth (child_sources cc) f) (drain_pending al depth ps)"

definition write_slot :: "slot \<Rightarrow> otel_log_value \<Rightarrow> flattening \<Rightarrow> flattening" where
  "write_slot slot v g =
     (case slot of
        Slot_Body \<Rightarrow> g\<lparr>fg_body := v\<rparr>
      | Slot_Attribute i \<Rightarrow> g\<lparr>fg_attributes := (fg_attributes g)[i := (fg_attributes g ! i)\<lparr>nd_value := v\<rparr>]\<rparr>
      | Slot_Node i \<Rightarrow> g\<lparr>fl_nodes := (fl_nodes g)[i := (fl_nodes g ! i)\<lparr>nd_value := v\<rparr>]\<rparr>)"

text \<open>One iteration of the loop, for a dequeued entry.\<close>

definition flatten_step :: "(nat \<Rightarrow> bool) \<Rightarrow> slot \<times> source \<times> nat \<Rightarrow> flattening \<Rightarrow> abi_error + flattening" where
  "flatten_step al entry g =
     (case entry of
        (slot, src, depth) \<Rightarrow>
          sum_bind (convert_source al src (fl_nodes g)) (\<lambda>(value, nodes, pending).
            drain_pending al depth pending (write_slot slot value (g\<lparr>fl_nodes := nodes\<rparr>))))"

section \<open>The loop ends\<close>

text \<open>The number of values that a source is made of.\<close>

fun any_weight :: "any_value \<Rightarrow> nat" where
  "any_weight (AV_ListAny vs) = Suc (sum_list (map any_weight vs))"
| "any_weight (AV_Map m) = Suc (sum_list (map (\<lambda>e. any_weight (snd e)) m))"
| "any_weight _ = 1"

definition array_length :: "attribute_array \<Rightarrow> nat" where
  "array_length a =
     (case a of Arr_Bool xs \<Rightarrow> length xs | Arr_I64 xs \<Rightarrow> length xs | Arr_F64 xs \<Rightarrow> length xs | Arr_String xs \<Rightarrow> length xs)"

definition source_weight :: "source \<Rightarrow> nat" where
  "source_weight src =
     (case src of
        Src_Any v \<Rightarrow> any_weight v
      | Src_Attribute (Att_Scalar _) \<Rightarrow> 1
      | Src_Attribute (Att_Array a) \<Rightarrow> Suc (array_length a)
      | Src_Scalar _ \<Rightarrow> 1)"

definition queue_weight :: "(slot \<times> source \<times> nat) list \<Rightarrow> nat" where
  "queue_weight q = sum_list (map (\<lambda>(_, src, _). source_weight src) q)"

text \<open>The container that a source is, if it is one.\<close>

definition array_elements :: "attribute_array \<Rightarrow> otel_log_value list" where
  "array_elements a =
     (case a of
        Arr_Bool xs \<Rightarrow> map bool_value xs
      | Arr_I64 xs \<Rightarrow> map int64_value xs
      | Arr_F64 xs \<Rightarrow> map double_value xs
      | Arr_String xs \<Rightarrow> map (\<lambda>s. text_value (sv_of s)) xs)"

definition children_of :: "source \<Rightarrow> container_children option" where
  "children_of src =
     (case src of
        Src_Any (AV_ListAny vs) \<Rightarrow> Some (CC_List vs)
      | Src_Any (AV_Map m) \<Rightarrow> Some (CC_Map (sort_key fst m))
      | Src_Attribute (Att_Array a) \<Rightarrow> Some (CC_Scalars (array_elements a))
      | _ \<Rightarrow> None)"

definition pool_range :: "otel_log_value_node list \<Rightarrow> nat \<Rightarrow> otel_log_value_range" where
  "pool_range nodes n = \<lparr>rg_first = word_of_nat (length nodes), rg_count = word_of_nat n\<rparr>"

text \<open>The value that a container is written as; a scalar is written as its own value.\<close>

definition is_map :: "container_children \<Rightarrow> bool" where
  "is_map cc = (case cc of CC_Map _ \<Rightarrow> True | _ \<Rightarrow> False)"

definition container_value :: "container_children \<Rightarrow> otel_log_value_node list \<Rightarrow> otel_log_value" where
  "container_value cc nodes =
     (if is_map cc then map_value else array_value) (pool_range nodes (length (child_sources cc)))"

definition scalar_of :: "source \<Rightarrow> otel_log_value" where
  "scalar_of src =
     (case src of
        Src_Any (AV_Int i) \<Rightarrow> int64_value i
      | Src_Any (AV_Double d) \<Rightarrow> double_value d
      | Src_Any (AV_String s) \<Rightarrow> text_value (sv_of s)
      | Src_Any (AV_Bytes b) \<Rightarrow> bytes_value b
      | Src_Any (AV_Boolean b) \<Rightarrow> bool_value b
      | Src_Attribute (Att_Scalar (V_Bool b)) \<Rightarrow> bool_value b
      | Src_Attribute (Att_Scalar (V_I64 i)) \<Rightarrow> int64_value i
      | Src_Attribute (Att_Scalar (V_F64 d)) \<Rightarrow> double_value d
      | Src_Attribute (Att_Scalar (V_String s)) \<Rightarrow> text_value (sv_of s)
      | Src_Scalar v \<Rightarrow> v
      | _ \<Rightarrow> empty_value)"

lemma reserve_children_Inr:
  "reserve_children al n nodes = Inr (r, nodes') \<longleftrightarrow>
     r = pool_range nodes n \<and> nodes' = nodes @ replicate n empty_node \<and> length nodes + n \<le> OTEL_LOG_MAX_VALUE_NODES \<and> al n"
  by (auto simp: reserve_children_def pool_range_def Let_def OTEL_LOG_MAX_VALUE_NODES_def)

lemma export_string_view_Inr: "export_string_view s = Inr v \<longleftrightarrow> v = sv_of s \<and> length s \<le> OTEL_LOG_MAX_STRING_LEN"
  by (auto simp: export_string_view_def)

lemma string_value_Inr:
  "string_value s = Inr v \<longleftrightarrow> v = text_value (sv_of s) \<and> length s \<le> OTEL_LOG_MAX_STRING_LEN"
  by (auto simp: string_value_def export_string_view_def)

lemma string_values_Inr:
  "string_values ss = Inr vs \<longleftrightarrow> vs = map (\<lambda>s. text_value (sv_of s)) ss \<and>
     (\<forall>s \<in> set ss. length s \<le> OTEL_LOG_MAX_STRING_LEN)"
  by (induction ss arbitrary: vs) (auto simp: sum_bind_Inr_iff string_value_Inr)

text \<open>What the source itself must satisfy to be converted, apart from the room in the pool.\<close>

definition source_limits :: "source \<Rightarrow> bool" where
  "source_limits src \<longleftrightarrow>
     (case src of
        Src_Any (AV_String s) \<Rightarrow> length s \<le> OTEL_LOG_MAX_STRING_LEN
      | Src_Any (AV_Bytes b) \<Rightarrow> length b \<le> OTEL_LOG_MAX_BYTES_LEN
      | Src_Any (AV_ListAny vs) \<Rightarrow> length vs \<le> OTEL_LOG_MAX_ARRAY_ELEMENTS
      | Src_Any (AV_Map m) \<Rightarrow> length m \<le> OTEL_LOG_MAX_MAP_ENTRIES
      | Src_Attribute (Att_Scalar (V_String s)) \<Rightarrow> length s \<le> OTEL_LOG_MAX_STRING_LEN
      | Src_Attribute (Att_Array a) \<Rightarrow> array_length a \<le> OTEL_LOG_MAX_ARRAY_ELEMENTS \<and>
          (case a of Arr_String ss \<Rightarrow> \<forall>s \<in> set ss. length s \<le> OTEL_LOG_MAX_STRING_LEN | _ \<Rightarrow> True)
      | _ \<Rightarrow> True)"

definition source_allocates :: "(nat \<Rightarrow> bool) \<Rightarrow> source \<Rightarrow> bool" where
  "source_allocates al src \<longleftrightarrow>
     (case src of
        Src_Any (AV_ListAny vs) \<Rightarrow> al (length vs)
      | Src_Any (AV_Map m) \<Rightarrow> al (length m)
      | Src_Attribute (Att_Array a) \<Rightarrow> al (array_length a)
      | _ \<Rightarrow> True)"

lemma length_array_elements [simp]: "length (array_elements a) = array_length a"
  by (simp add: array_elements_def array_length_def split: attribute_array.split)

lemma convert_attribute_array_Inr:
  "convert_attribute_array al a = Inr vs \<longleftrightarrow> vs = array_elements a \<and> al (array_length a) \<and>
     (case a of Arr_String ss \<Rightarrow> \<forall>s \<in> set ss. length s \<le> OTEL_LOG_MAX_STRING_LEN | _ \<Rightarrow> True)"
  by (cases a) (auto simp: convert_attribute_array_def array_elements_def array_length_def string_values_Inr)

lemma length_child_sources [simp]:
  "length (child_sources (CC_List vs)) = length vs" "length (child_sources (CC_Map m)) = length m"
  "length (child_sources (CC_Scalars xs)) = length xs"
  by (simp_all add: child_sources_def)

text \<open>A conversion in one equation: which sources are converted, to which value, with which pool.\<close>

lemma convert_source_Inr:
  "convert_source al src nodes = Inr (v, nodes', pending) \<longleftrightarrow> source_limits src \<and> source_allocates al src \<and>
     (case children_of src of
        None \<Rightarrow> v = scalar_of src \<and> nodes' = nodes \<and> pending = []
      | Some cc \<Rightarrow> length nodes + length (child_sources cc) \<le> OTEL_LOG_MAX_VALUE_NODES \<and>
          v = container_value cc nodes \<and> nodes' = nodes @ replicate (length (child_sources cc)) empty_node \<and>
          pending = [(pool_range nodes (length (child_sources cc)), cc)])"
proof (cases src)
  case (Src_Any x)
  then show ?thesis
    by (cases x) (auto simp: convert_source_def convert_any_def children_of_def source_limits_def source_allocates_def
        scalar_of_def container_value_def is_map_def sum_bind_Inr_iff reserve_children_Inr string_value_Inr Let_def)
next
  case (Src_Attribute x)
  show ?thesis
  proof (cases x)
    case (Att_Scalar y)
    then show ?thesis using Src_Attribute
      by (cases y) (auto simp: convert_source_def convert_attribute_value_def children_of_def source_limits_def
          source_allocates_def scalar_of_def sum_bind_Inr_iff string_value_Inr)
  next
    case (Att_Array a)
    then show ?thesis using Src_Attribute
      by (auto simp: convert_source_def convert_attribute_value_def children_of_def source_limits_def source_allocates_def
          container_value_def is_map_def sum_bind_Inr_iff reserve_children_Inr convert_attribute_array_Inr)
  qed
next
  case (Src_Scalar x)
  then show ?thesis
    by (auto simp: convert_source_def children_of_def source_limits_def source_allocates_def scalar_of_def)
qed

text \<open>The children are queued in their order, their keys written into the reserved nodes.\<close>

fun set_keys :: "nat \<Rightarrow> (bytes option \<times> source) list \<Rightarrow> otel_log_value_node list \<Rightarrow> otel_log_value_node list" where
  "set_keys i [] ns = ns"
| "set_keys i ((k, _) # cs) ns =
     set_keys (Suc i) cs (case k of None \<Rightarrow> ns | Some key \<Rightarrow> ns[i := (ns ! i)\<lparr>nd_key := sv_of key\<rparr>])"

definition child_entries :: "nat \<Rightarrow> nat \<Rightarrow> (bytes option \<times> source) list \<Rightarrow> (slot \<times> source \<times> nat) list" where
  "child_entries i depth cs = map (\<lambda>(j, c). (Slot_Node j, snd c, depth + 1)) (enumerate i cs)"

definition keys_within :: "(bytes option \<times> source) list \<Rightarrow> bool" where
  "keys_within cs \<longleftrightarrow> (\<forall>key. Some key \<in> fst ` set cs \<longrightarrow> length key \<le> OTEL_LOG_MAX_STRING_LEN)"

lemma enqueue_Inr:
  "enqueue al slot src depth f = Inr f' \<longleftrightarrow>
     depth \<le> OTEL_LOG_MAX_VALUE_DEPTH \<and> al 1 \<and> f' = f\<lparr>fl_queue := fl_queue f @ [(slot, src, depth)]\<rparr>"
  by (auto simp: enqueue_def)

lemma enqueue_children_Inr:
  "enqueue_children al i depth cs f = Inr f' \<longleftrightarrow>
     (cs \<noteq> [] \<longrightarrow> depth + 1 \<le> OTEL_LOG_MAX_VALUE_DEPTH \<and> al 1) \<and> keys_within cs \<and>
     f' = f\<lparr>fl_nodes := set_keys i cs (fl_nodes f), fl_queue := fl_queue f @ child_entries i depth cs\<rparr>"
proof (induction cs arbitrary: i f)
  case Nil
  show ?case by (auto simp: keys_within_def child_entries_def)
next
  case (Cons c cs)
  obtain k src where c: "c = (k, src)" by (cases c)
  show ?case
    by (cases k; cases "cs = []")
      (auto simp: c Cons sum_bind_Inr_iff enqueue_Inr export_string_view_Inr keys_within_def child_entries_def)
qed

lemma drain_pending_Inr:
  "drain_pending al depth [(r, cc)] f = Inr f' \<longleftrightarrow>
     (child_sources cc \<noteq> [] \<longrightarrow> depth + 1 \<le> OTEL_LOG_MAX_VALUE_DEPTH \<and> al 1) \<and> keys_within (child_sources cc) \<and>
     f' = f\<lparr>fl_nodes := set_keys (unat (rg_first r)) (child_sources cc) (fl_nodes f),
            fl_queue := fl_queue f @ child_entries (unat (rg_first r)) depth (child_sources cc)\<rparr>"
  by (auto simp: sum_bind_Inr_iff enqueue_children_Inr)

lemma write_slot_simps [simp]:
  "fl_queue (write_slot slot v g) = fl_queue g" "length (fl_nodes (write_slot slot v g)) = length (fl_nodes g)"
  "length (fg_attributes (write_slot slot v g)) = length (fg_attributes g)"
  by (simp_all add: write_slot_def split: slot.split)

lemma length_set_keys [simp]: "length (set_keys i cs ns) = length ns"
  by (induction i cs ns rule: set_keys.induct) (simp_all split: option.split)

definition push_children :: "nat \<Rightarrow> nat \<Rightarrow> (bytes option \<times> source) list \<Rightarrow> flattening \<Rightarrow> flattening" where
  "push_children i depth cs g =
     g\<lparr>fl_nodes := set_keys i cs (fl_nodes g), fl_queue := fl_queue g @ child_entries i depth cs\<rparr>"

lemma first_pool_range:
  "length nodes \<le> OTEL_LOG_MAX_VALUE_NODES \<Longrightarrow> unat (rg_first (pool_range nodes n)) = length nodes"
  "n \<le> OTEL_LOG_MAX_VALUE_NODES \<Longrightarrow> unat (rg_count (pool_range nodes n)) = n"
  by (simp_all add: pool_range_def OTEL_LOG_MAX_VALUE_NODES_def unsigned_of_nat take_bit_nat_eq_self)

lemma flatten_step_Inr:
  "flatten_step al (slot, src, depth) g = Inr g' \<longleftrightarrow> source_limits src \<and> source_allocates al src \<and>
     (case children_of src of
        None \<Rightarrow> g' = write_slot slot (scalar_of src) g
      | Some cc \<Rightarrow>
          length (fl_nodes g) + length (child_sources cc) \<le> OTEL_LOG_MAX_VALUE_NODES \<and>
          (child_sources cc \<noteq> [] \<longrightarrow> depth + 1 \<le> OTEL_LOG_MAX_VALUE_DEPTH \<and> al 1) \<and> keys_within (child_sources cc) \<and>
          g' = push_children (length (fl_nodes g)) depth (child_sources cc)
            (write_slot slot (container_value cc (fl_nodes g))
              (g\<lparr>fl_nodes := fl_nodes g @ replicate (length (child_sources cc)) empty_node\<rparr>)))"
proof (cases "children_of src")
  case None
  then show ?thesis by (auto simp: flatten_step_def sum_bind_Inr_iff convert_source_Inr)
next
  case (Some cc)
  let ?n = "length (child_sources cc)" and ?g = "write_slot slot (container_value cc (fl_nodes g))
      (g\<lparr>fl_nodes := fl_nodes g @ replicate (length (child_sources cc)) empty_node\<rparr>)"
  have "flatten_step al (slot, src, depth) g = Inr g' \<longleftrightarrow> source_limits src \<and> source_allocates al src \<and>
      length (fl_nodes g) + ?n \<le> OTEL_LOG_MAX_VALUE_NODES \<and>
      drain_pending al depth [(pool_range (fl_nodes g) ?n, cc)] ?g = Inr g'"
    using Some by (auto simp: flatten_step_def sum_bind_Inr_iff convert_source_Inr simp del: drain_pending.simps)
  then show ?thesis
    using Some first_pool_range(1) [of "fl_nodes g" ?n]
    by (auto simp: drain_pending_Inr push_children_def simp del: drain_pending.simps)
qed

lemma sum_list_sort_key: "sum_list (map f (sort_key k xs)) = sum_list (map f xs)" for f :: "'a \<Rightarrow> nat"
  by (metis mset_map mset_sort sum_mset_sum_list)

lemma children_weight:
  assumes "children_of src = Some cc"
  shows "source_weight src = Suc (sum_list (map (\<lambda>c. source_weight (snd c)) (child_sources cc)))"
proof -
  have "sum_list (map (\<lambda>x. any_weight (snd x)) (sort_key fst m)) = sum_list (map (\<lambda>e. any_weight (snd e)) m)"
    for m :: "(bytes \<times> any_value) list"
    by (rule sum_list_sort_key)
  then show ?thesis
    using assms unfolding children_of_def source_weight_def child_sources_def
    by (auto simp: comp_def split_beta sum_list_triv split: source.split_asm any_value.split_asm attribute_value.split_asm)
qed

lemma queue_weight_simps [simp]:
  "queue_weight [] = 0" "queue_weight ((slot, src, depth) # q) = source_weight src + queue_weight q"
  "queue_weight (q @ q') = queue_weight q + queue_weight q'"
  by (simp_all add: queue_weight_def)

lemma child_entries_simps [simp]:
  "child_entries i depth [] = []"
  "child_entries i depth (c # cs) = (Slot_Node i, snd c, depth + 1) # child_entries (Suc i) depth cs"
  by (simp_all add: child_entries_def)

lemma queue_weight_children: "queue_weight (child_entries i depth cs) = sum_list (map (\<lambda>c. source_weight (snd c)) cs)"
  by (induction cs arbitrary: i) simp_all

lemma source_weight_pos: "0 < source_weight src"
  unfolding source_weight_def
  by (auto split: source.split attribute_value.split) (metis any_weight.elims zero_less_one zero_less_Suc)

lemma flatten_step_weight:
  assumes "flatten_step al e g = Inr g'"
  shows "queue_weight (fl_queue g') < queue_weight (e # fl_queue g)"
proof -
  obtain slot src depth where e: "e = (slot, src, depth)" by (cases e)
  show ?thesis
  proof (cases "children_of src")
    case None
    then show ?thesis using assms e source_weight_pos by (simp add: flatten_step_Inr)
  next
    case (Some cc)
    then show ?thesis using assms e children_weight [OF Some]
      by (simp add: flatten_step_Inr push_children_def queue_weight_children)
  qed
qed

text \<open>The loop runs until the queue is empty; every iteration takes one value out of it.\<close>

function flatten_loop :: "(nat \<Rightarrow> bool) \<Rightarrow> flattening \<Rightarrow> abi_error + flattening" where
  "flatten_loop al g =
     (case fl_queue g of
        [] \<Rightarrow> Inr g
      | e # q \<Rightarrow>
          (case flatten_step al e (g\<lparr>fl_queue := q\<rparr>) of
             Inl err \<Rightarrow> Inl err
           | Inr g' \<Rightarrow> flatten_loop al g'))"
  by pat_completeness auto

termination flatten_loop
proof (relation "measure (\<lambda>(al, g). queue_weight (fl_queue g))")
  show "((al, g'), al, g) \<in> measure (\<lambda>(al, g). queue_weight (fl_queue g))"
    if "fl_queue g = e # q" "flatten_step al e (g\<lparr>fl_queue := q\<rparr>) = Inr g'" for al g e q g'
    using flatten_step_weight [OF that(2)] that(1) by simp
qed simp

declare flatten_loop.simps [simp del]

definition enqueue_body ::
  "(nat \<Rightarrow> bool) \<Rightarrow> any_value option \<Rightarrow> flattening \<Rightarrow> abi_error + flattening" where
  "enqueue_body al bd g = (case bd of None \<Rightarrow> Inr g | Some v \<Rightarrow> enqueue al Slot_Body (Src_Any v) 1 g)"

fun enqueue_attributes ::
  "(nat \<Rightarrow> bool) \<Rightarrow> nat \<Rightarrow> (bytes \<times> source) list \<Rightarrow> flattening \<Rightarrow> abi_error + flattening" where
  "enqueue_attributes al i [] g = Inr g"
| "enqueue_attributes al i ((key, src) # as) g =
     sum_bind (export_string_view key) (\<lambda>v.
     sum_bind (enqueue al (Slot_Attribute i) src 1
         (g\<lparr>fg_attributes := (fg_attributes g)[i := (fg_attributes g ! i)\<lparr>nd_key := v\<rparr>]\<rparr>))
       (enqueue_attributes al (Suc i) as))"

definition flatten ::
  "(nat \<Rightarrow> bool) \<Rightarrow> any_value option \<Rightarrow> (bytes \<times> source) list \<Rightarrow> abi_error + flattening" where
  "flatten al bd attributes =
     (if OTEL_LOG_MAX_ATTRIBUTES < length attributes then
        Inl (conversion_error (''exported log owner carries '' @ decimal (length attributes) @ '' attributes, above the '' @
          decimal OTEL_LOG_MAX_ATTRIBUTES @ ''-attribute limit''))
      else
        sum_bind (try_sized_vec al empty_node (length attributes)) (\<lambda>attribute_nodes.
        sum_bind (enqueue_body al bd
            \<lparr>fl_nodes = [], fl_queue = [], fg_body = empty_value, fg_attributes = attribute_nodes\<rparr>) (\<lambda>g.
        sum_bind (enqueue_attributes al 0 attributes g) (flatten_loop al))))"

end
