(* ===== verification/Log_Layout.thy ===== *)
theory Log_Layout
  imports Log_Flattening
begin

text \<open>
  What the flattening of exported log values achieves (\<open>sdk/src/log_export_view.rs\<close>). A pool reads back, with
  the reading that decides what a logged pool denotes, as the values it was made from, maps in
  the order of their keys; it meets the rules of the input pool; and every value within the limits is
  laid out.
\<close>

section \<open>A pool reads back as the values it was made from\<close>

text \<open>Maps are exported in the order of their keys.\<close>

fun canonical :: "any_value \<Rightarrow> any_value" where
  "canonical (AV_ListAny vs) = AV_ListAny (map canonical vs)"
| "canonical (AV_Map m) = AV_Map (sort_key fst (map (\<lambda>e. (fst e, canonical (snd e))) m))"
| "canonical v = v"

fun attribute_scalar :: "sdk_value \<Rightarrow> any_value" where
  "attribute_scalar (V_String s) = AV_String s"
| "attribute_scalar (V_Bool b) = AV_Boolean b"
| "attribute_scalar (V_I64 i) = AV_Int i"
| "attribute_scalar (V_F64 d) = AV_Double d"

fun attribute_items :: "attribute_array \<Rightarrow> any_value list" where
  "attribute_items (Arr_Bool xs) = map AV_Boolean xs"
| "attribute_items (Arr_I64 xs) = map AV_Int xs"
| "attribute_items (Arr_F64 xs) = map AV_Double xs"
| "attribute_items (Arr_String xs) = map AV_String xs"

fun meaning :: "source \<Rightarrow> any_value" where
  "meaning (Src_Any v) = canonical v"
| "meaning (Src_Attribute (Att_Scalar v)) = attribute_scalar v"
| "meaning (Src_Attribute (Att_Array a)) = AV_ListAny (attribute_items a)"
| "meaning (Src_Scalar v) = assemble [] v []"

text \<open>The texts of the crate are UTF-8, and a map is a map.\<close>

fun any_text_ok :: "any_value \<Rightarrow> bool" where
  "any_text_ok (AV_String s) \<longleftrightarrow> valid_utf8 s"
| "any_text_ok (AV_ListAny vs) \<longleftrightarrow> (\<forall>v \<in> set vs. any_text_ok v)"
| "any_text_ok (AV_Map m) \<longleftrightarrow> distinct (map fst m) \<and> (\<forall>e \<in> set m. valid_utf8 (fst e) \<and> any_text_ok (snd e))"
| "any_text_ok _ \<longleftrightarrow> True"

fun source_text_ok :: "source \<Rightarrow> bool" where
  "source_text_ok (Src_Any v) \<longleftrightarrow> any_text_ok v"
| "source_text_ok (Src_Attribute (Att_Scalar (V_String s))) \<longleftrightarrow> valid_utf8 s"
| "source_text_ok (Src_Attribute (Att_Array (Arr_String ss))) \<longleftrightarrow> (\<forall>s \<in> set ss. valid_utf8 s)"
| "source_text_ok (Src_Scalar v) \<longleftrightarrow> value_ok v \<and> \<not> is_container v"
| "source_text_ok _ \<longleftrightarrow> True"

lemma limit_isize: "n \<le> OTEL_LOG_MAX_STRING_LEN \<Longrightarrow> n \<le> isize_max" "n \<le> OTEL_LOG_MAX_BYTES_LEN \<Longrightarrow> n \<le> isize_max"
  by (simp_all add: OTEL_LOG_MAX_STRING_LEN_def OTEL_LOG_MAX_BYTES_LEN_def isize_max_def)

lemma value_tags [simp]:
  "tag_of empty_value = Some LT_Empty" "tag_of (text_value v) = Some LT_String"
  "tag_of (bool_value b) = Some LT_Bool" "tag_of (int64_value i) = Some LT_Int64" "tag_of (double_value d) = Some LT_Double"
  "tag_of (bytes_value bs) = Some LT_Bytes" "tag_of (array_value r) = Some LT_Array" "tag_of (map_value r) = Some LT_Map"
  by (simp_all add: tag_of_def log_value_type_from_u32_def empty_value_def bool_value_def int64_value_def double_value_def
      bytes_value_def array_value_def map_value_def text_value_def)

lemma value_fields [simp]:
  "lval_string (text_value v) = v" "lval_reserved (text_value v) = 0"
  "lval_bool (bool_value b) = of_bool b" "lval_reserved (bool_value b) = 0"
  "lval_int64 (int64_value i) = i" "lval_reserved (int64_value i) = 0"
  "lval_double (double_value d) = d" "lval_reserved (double_value d) = 0"
  "lval_reserved (bytes_value bs) = 0" "lval_reserved (array_value r) = 0" "lval_reserved (map_value r) = 0"
  "lval_children (array_value r) = r" "lval_children (map_value r) = r"
  by (simp_all add: empty_value_def bool_value_def int64_value_def double_value_def bytes_value_def array_value_def map_value_def
      text_value_def)

lemma kids_no_container [simp]: "\<not> is_container v \<Longrightarrow> kids v = []"
  by (simp add: kids_def)

lemma value_tree_scalar: "\<not> is_container v \<Longrightarrow> value_tree nodes lo v = assemble nodes v []"
  by (subst value_tree.simps) simp

lemma assemble_scalar: "\<not> is_container v \<Longrightarrow> assemble nodes v [] = assemble [] v []"
  by (auto simp: assemble_def is_container_tag split: option.split otel_log_value_type.split)

lemma bytes_value_reads: "length b \<le> OTEL_LOG_MAX_BYTES_LEN \<Longrightarrow> lb_as_slice (lval_bytes (bytes_value b)) = Inr b"
  using unat_word_of_nat64 [of "length b"]
  by (auto simp: bytes_value_def empty_value_def lb_as_slice_def isize_max_def OTEL_LOG_MAX_BYTES_LEN_def
      dest: word_of_nat_eq_0_iff [THEN iffD1])

lemma written_scalars:
  "value_ok (int64_value i)" "value_ok (double_value d)" "value_ok (bool_value b)"
  "assemble [] (int64_value i) [] = AV_Int i" "assemble [] (double_value d) [] = AV_Double d"
  "assemble [] (bool_value b) [] = AV_Boolean b"
  "valid_utf8 s \<Longrightarrow> length s \<le> OTEL_LOG_MAX_STRING_LEN \<Longrightarrow> value_ok (text_value (sv_of s))"
  "valid_utf8 s \<Longrightarrow> length s \<le> OTEL_LOG_MAX_STRING_LEN \<Longrightarrow> assemble [] (text_value (sv_of s)) [] = AV_String s"
  "length bs \<le> OTEL_LOG_MAX_BYTES_LEN \<Longrightarrow> value_ok (bytes_value bs)"
  "length bs \<le> OTEL_LOG_MAX_BYTES_LEN \<Longrightarrow> assemble [] (bytes_value bs) [] = AV_Bytes bs"
  by (simp_all add: value_ok_def assemble_def limit_isize sv_as_str_sv_of bytes_value_reads)

lemma written_not_container:
  "\<not> is_container (int64_value i)" "\<not> is_container (double_value d)" "\<not> is_container (bool_value b)"
  "\<not> is_container (text_value v)" "\<not> is_container (bytes_value bs)" "\<not> is_container empty_value"
  by (simp_all add: is_container_tag)

lemma scalar_sources:
  assumes "children_of src = None" and "source_limits src" and "source_text_ok src"
  shows "value_ok (scalar_of src)" "\<not> is_container (scalar_of src)" "assemble [] (scalar_of src) [] = meaning src"
proof -
  note written = written_scalars written_not_container
  have "value_ok (scalar_of src) \<and> \<not> is_container (scalar_of src) \<and> assemble [] (scalar_of src) [] = meaning src"
  proof (cases src)
    case (Src_Any v)
    then show ?thesis using assms
      by (cases v) (auto simp: children_of_def source_limits_def scalar_of_def written)
  next
    case (Src_Attribute v)
    show ?thesis
    proof (cases v)
      case (Att_Scalar y)
      then show ?thesis using assms Src_Attribute
        by (cases y) (auto simp: source_limits_def scalar_of_def written)
    next
      case (Att_Array a)
      then show ?thesis using assms(1) Src_Attribute by (simp add: children_of_def)
    qed
  next
    case (Src_Scalar v)
    then show ?thesis using assms by (simp add: scalar_of_def)
  qed
  then show "value_ok (scalar_of src)" "\<not> is_container (scalar_of src)" "assemble [] (scalar_of src) [] = meaning src"
    by simp_all
qed

lemma insort_key_mapped:
  "insort_key fst (fst e, f (snd e)) (map (\<lambda>e. (fst e, f (snd e))) xs) = map (\<lambda>e. (fst e, f (snd e))) (insort_key fst e xs)"
  by (induction xs) auto

lemma sort_key_mapped: "sort_key fst (map (\<lambda>e. (fst e, f (snd e))) m) = map (\<lambda>e. (fst e, f (snd e))) (sort_key fst m)"
  by (induction m) (simp_all add: insort_key_mapped)

text \<open>A container means what its children mean.\<close>

definition container_meaning :: "container_children \<Rightarrow> any_value" where
  "container_meaning cc =
     (if is_map cc then AV_Map (map (\<lambda>c. (the (fst c), meaning (snd c))) (child_sources cc))
      else AV_ListAny (map (\<lambda>c. meaning (snd c)) (child_sources cc)))"

definition children_text_ok :: "container_children \<Rightarrow> bool" where
  "children_text_ok cc \<longleftrightarrow>
     (\<forall>c \<in> set (child_sources cc). source_text_ok (snd c) \<and> (if is_map cc then \<exists>k. fst c = Some k \<and> valid_utf8 k else fst c = None))"

lemma any_text_ok_map:
  "any_text_ok (AV_Map m) \<longleftrightarrow> distinct (map fst m) \<and> (\<forall>k v. (k, v) \<in> set m \<longrightarrow> valid_utf8 k \<and> any_text_ok v)"
  by force

lemma container_sources:
  assumes "children_of src = Some cc" and "source_limits src" and "source_text_ok src"
  shows "meaning src = container_meaning cc" "children_text_ok cc"
proof -
  have "meaning src = container_meaning cc \<and> children_text_ok cc"
  proof (cases src)
    case (Src_Any v)
    then show ?thesis using assms
      by (cases v) (auto simp: children_of_def container_meaning_def is_map_def child_sources_def children_text_ok_def
          sort_key_mapped split_beta any_text_ok_map simp del: any_text_ok.simps(3))
  next
    case (Src_Attribute v)
    show ?thesis
    proof (cases v)
      case (Att_Scalar y)
      then show ?thesis using assms Src_Attribute by (simp add: children_of_def)
    next
      case (Att_Array a)
      then show ?thesis using assms Src_Attribute
        by (cases a) (auto simp: children_of_def container_meaning_def is_map_def child_sources_def children_text_ok_def
            array_elements_def source_limits_def written_scalars written_not_container)
    qed
  next
    case (Src_Scalar v)
    then show ?thesis using assms by (simp add: children_of_def)
  qed
  then show "meaning src = container_meaning cc" "children_text_ok cc" by simp_all
qed

section \<open>Slots\<close>

text \<open>Where a slot lies, the value stored there, and the lowest index that its children may have.\<close>

definition slot_in :: "flattening \<Rightarrow> slot \<Rightarrow> bool" where
  "slot_in g s \<longleftrightarrow>
     (case s of
        Slot_Body \<Rightarrow> True
      | Slot_Attribute i \<Rightarrow> i < length (fg_attributes g)
      | Slot_Node i \<Rightarrow> i < length (fl_nodes g))"

definition slot_value :: "flattening \<Rightarrow> slot \<Rightarrow> otel_log_value" where
  "slot_value g s =
     (case s of
        Slot_Body \<Rightarrow> fg_body g
      | Slot_Attribute i \<Rightarrow> nd_value (fg_attributes g ! i)
      | Slot_Node i \<Rightarrow> nd_value (fl_nodes g ! i))"

definition slot_floor :: "slot \<Rightarrow> nat" where
  "slot_floor s = (case s of Slot_Node i \<Rightarrow> Suc i | _ \<Rightarrow> 0)"

lemma slot_value_write: "slot_in g s \<Longrightarrow> slot_value (write_slot s v g) t = (if t = s then v else slot_value g t)"
  by (cases s; cases t) (auto simp: slot_in_def slot_value_def write_slot_def nth_list_update)

lemma slot_in_write [simp]: "slot_in (write_slot s v g) t = slot_in g t"
  by (cases t) (simp_all add: slot_in_def)

lemma keys_write:
  assumes "slot_in g s"
  shows "nd_key (fl_nodes (write_slot s v g) ! i) = nd_key (fl_nodes g ! i)"
    "nd_key (fg_attributes (write_slot s v g) ! i) = nd_key (fg_attributes g ! i)"
  using assms by (cases s; auto simp: slot_in_def write_slot_def nth_list_update)+

lemma set_keys_nth:
  assumes "i + length cs \<le> length ns"
  shows "nd_value (set_keys i cs ns ! j) = nd_value (ns ! j)"
    "nd_key (set_keys i cs ns ! j) =
       (if i \<le> j \<and> j < i + length cs then case_option (nd_key (ns ! j)) sv_of (fst (cs ! (j - i))) else nd_key (ns ! j))"
proof -
  have "nd_value (set_keys i cs ns ! j) = nd_value (ns ! j) \<and> nd_key (set_keys i cs ns ! j) =
       (if i \<le> j \<and> j < i + length cs then case_option (nd_key (ns ! j)) sv_of (fst (cs ! (j - i))) else nd_key (ns ! j))"
    using assms
  proof (induction i cs ns rule: set_keys.induct)
    case (2 i k src cs ns)
    let ?ns = "case k of None \<Rightarrow> ns | Some key \<Rightarrow> ns[i := (ns ! i)\<lparr>nd_key := sv_of key\<rparr>]"
    have "length ?ns = length ns" by (simp split: option.split)
    then have IH: "nd_value (set_keys (Suc i) cs ?ns ! j) = nd_value (?ns ! j) \<and> nd_key (set_keys (Suc i) cs ?ns ! j) =
       (if Suc i \<le> j \<and> j < Suc i + length cs then case_option (nd_key (?ns ! j)) sv_of (fst (cs ! (j - Suc i))) else nd_key (?ns ! j))"
      using 2 by simp
    have at: "nd_value (?ns ! j) = nd_value (ns ! j)" "nd_key (?ns ! j) = (if j = i then case_option (nd_key (ns ! i)) sv_of k else nd_key (ns ! j))"
      using 2(2) by (auto simp: nth_list_update split: option.split)
    consider "j < i" | "j = i" | "i < j" by linarith
    then show ?case
    proof cases
      case 3
      then have "((k, src) # cs) ! (j - i) = cs ! (j - Suc i)" by (simp add: nth_Cons')
      with 3 IH at show ?thesis by (simp add: Suc_le_eq del: nth_Cons_pos split: option.split)
    qed (use IH at in auto)
  qed auto
  then show "nd_value (set_keys i cs ns ! j) = nd_value (ns ! j)"
    "nd_key (set_keys i cs ns ! j) =
       (if i \<le> j \<and> j < i + length cs then case_option (nd_key (ns ! j)) sv_of (fst (cs ! (j - i))) else nd_key (ns ! j))"
    by simp_all
qed

lemma child_entries_nth: "child_entries i depth cs = map (\<lambda>k. (Slot_Node (i + k), snd (cs ! k), depth + 1)) [0..<length cs]"
  by (rule nth_equalityI) (simp_all add: child_entries_def nth_enumerate_eq)

lemma child_slots: "map fst (child_entries i depth cs) = map Slot_Node [i..<i + length cs]"
  by (rule nth_equalityI) (simp_all add: child_entries_nth)

text \<open>The state after a container was written to its slot and its children queued.\<close>

definition expand :: "slot \<Rightarrow> container_children \<Rightarrow> nat \<Rightarrow> flattening \<Rightarrow> flattening" where
  "expand slot cc depth g =
     push_children (length (fl_nodes g)) depth (child_sources cc)
       (write_slot slot (container_value cc (fl_nodes g))
         (g\<lparr>fl_nodes := fl_nodes g @ replicate (length (child_sources cc)) empty_node\<rparr>))"

lemma expand_facts:
  assumes "slot_in g slot"
  shows "length (fl_nodes (expand slot cc depth g)) = length (fl_nodes g) + length (child_sources cc)"
    "length (fg_attributes (expand slot cc depth g)) = length (fg_attributes g)"
    "fl_queue (expand slot cc depth g) = fl_queue g @ child_entries (length (fl_nodes g)) depth (child_sources cc)"
    "slot_value (expand slot cc depth g) slot = container_value cc (fl_nodes g)"
    "slot_in g t \<Longrightarrow> t \<noteq> slot \<Longrightarrow> slot_value (expand slot cc depth g) t = slot_value g t"
    "k < length (child_sources cc) \<Longrightarrow> slot_value (expand slot cc depth g) (Slot_Node (length (fl_nodes g) + k)) = empty_value"
    "i < length (fl_nodes g) \<Longrightarrow> nd_key (fl_nodes (expand slot cc depth g) ! i) = nd_key (fl_nodes g ! i)"
    "k < length (child_sources cc) \<Longrightarrow> nd_key (fl_nodes (expand slot cc depth g) ! (length (fl_nodes g) + k)) =
       case_option sv_empty sv_of (fst (child_sources cc ! k))"
    "nd_key (fg_attributes (expand slot cc depth g) ! i) = nd_key (fg_attributes g ! i)"
proof -
  let ?n = "length (child_sources cc)" and ?l = "length (fl_nodes g)"
  let ?g0 = "g\<lparr>fl_nodes := fl_nodes g @ replicate ?n empty_node\<rparr>"
  let ?g1 = "write_slot slot (container_value cc (fl_nodes g)) ?g0"
  have in0: "slot_in ?g0 slot" using assms by (cases slot) (auto simp: slot_in_def)
  have len: "?l + ?n \<le> length (fl_nodes ?g1)" by simp
  have val: "slot_value (expand slot cc depth g) t = slot_value ?g1 t" for t
    using set_keys_nth(1) [OF len] by (cases t) (simp_all add: expand_def push_children_def slot_value_def)
  have empty: "nd_value empty_node = empty_value" "nd_key empty_node = sv_empty" by (simp_all add: empty_node_def)
  show "length (fl_nodes (expand slot cc depth g)) = ?l + ?n"
    "length (fg_attributes (expand slot cc depth g)) = length (fg_attributes g)"
    "fl_queue (expand slot cc depth g) = fl_queue g @ child_entries ?l depth (child_sources cc)"
    by (simp_all add: expand_def push_children_def)
  show "slot_value (expand slot cc depth g) slot = container_value cc (fl_nodes g)"
    by (simp add: val slot_value_write [OF in0])
  have old: "slot_value ?g0 t = slot_value g t" if "slot_in g t" for t
    using that by (cases t) (auto simp: slot_in_def slot_value_def nth_append)
  show "slot_value (expand slot cc depth g) t = slot_value g t" if "slot_in g t" "t \<noteq> slot"
    using that old by (simp add: val slot_value_write [OF in0])
  have "slot_value ?g0 (Slot_Node (?l + k)) = empty_value" if "k < ?n"
    using that empty by (simp add: slot_value_def nth_append)
  moreover have "Slot_Node (?l + k) \<noteq> slot" using assms by (auto simp: slot_in_def)
  ultimately show "slot_value (expand slot cc depth g) (Slot_Node (?l + k)) = empty_value" if "k < ?n"
    using that by (simp add: val slot_value_write [OF in0])
  show "nd_key (fl_nodes (expand slot cc depth g) ! i) = nd_key (fl_nodes g ! i)" if "i < ?l"
    using that set_keys_nth(2) [OF len] keys_write(1) [OF in0] by (simp add: expand_def push_children_def nth_append)
  show "nd_key (fl_nodes (expand slot cc depth g) ! (?l + k)) = case_option sv_empty sv_of (fst (child_sources cc ! k))" if "k < ?n"
    using that set_keys_nth(2) [OF len] keys_write(1) [OF in0] empty
    by (simp add: expand_def push_children_def nth_append split: option.split)
  show "nd_key (fg_attributes (expand slot cc depth g) ! i) = nd_key (fg_attributes g ! i)"
    using keys_write(2) [OF in0] by (simp add: expand_def push_children_def)
qed

section \<open>The loop\<close>

lemma container_kids:
  assumes "length nodes + length (child_sources cc) \<le> OTEL_LOG_MAX_VALUE_NODES"
  shows "kids (container_value cc nodes) = [length nodes..<length nodes + length (child_sources cc)]"
  using first_pool_range(1) [of nodes "length (child_sources cc)"] first_pool_range(2) [of "length (child_sources cc)" nodes] assms
  by (simp add: kids_def is_container_tag container_value_def child_range_def)

lemma container_tree:
  assumes room: "length nodes + length (child_sources cc) \<le> OTEL_LOG_MAX_VALUE_NODES"
    and more: "length nodes + length (child_sources cc) \<le> length N" and lo: "lo \<le> length nodes"
    and trees: "\<And>k. k < length (child_sources cc) \<Longrightarrow>
      value_tree N (Suc (length nodes + k)) (nd_value (N ! (length nodes + k))) = meaning (snd (child_sources cc ! k))"
    and keys: "\<And>k. k < length (child_sources cc) \<Longrightarrow>
      nd_key (N ! (length nodes + k)) = case_option sv_empty sv_of (fst (child_sources cc ! k))"
    and utf: "children_text_ok cc" and within: "keys_within (child_sources cc)"
  shows "value_tree N lo (container_value cc nodes) = container_meaning cc"
proof -
  let ?l = "length nodes" and ?cs = "child_sources cc" and ?v = "container_value cc nodes"
  have kids: "kids ?v = [?l..<?l + length ?cs]" by (rule container_kids [OF room])
  have "map (\<lambda>i. if lo \<le> i \<and> i < length N then value_tree N (Suc i) (nd_value (N ! i)) else AV_Boolean False) (kids ?v)
      = map (\<lambda>c. meaning (snd c)) ?cs"
    unfolding kids by (rule nth_equalityI) (use trees more lo in auto)
  then have tree: "value_tree N lo ?v = assemble N ?v (map (\<lambda>c. meaning (snd c)) ?cs)" by (subst value_tree.simps) simp
  show ?thesis
  proof (cases "is_map cc")
    case True
    have key: "projr (key_at N (?l + k)) = the (fst (?cs ! k))" if k: "k < length ?cs" for k
    proof -
      obtain key where "fst (?cs ! k) = Some key" "valid_utf8 key"
        using utf True nth_mem [OF k] by (auto simp: children_text_ok_def)
      moreover have "length key \<le> isize_max"
        using within k calculation(1) by (auto simp: keys_within_def image_iff intro!: limit_isize(1)) (metis nth_mem)
      ultimately show ?thesis using keys [OF k] by (simp add: key_at_def sv_as_str_sv_of)
    qed
    have "zip (map (\<lambda>i. projr (key_at N i)) (kids ?v)) (map (\<lambda>c. meaning (snd c)) ?cs) =
        map (\<lambda>c. (the (fst c), meaning (snd c))) ?cs"
      unfolding kids by (rule nth_equalityI) (use key in auto)
    then show ?thesis using True tree by (simp add: assemble_def container_value_def container_meaning_def)
  next
    case False
    then show ?thesis using tree by (simp add: assemble_def container_value_def container_meaning_def)
  qed
qed

definition queue_ok :: "flattening \<Rightarrow> bool" where
  "queue_ok g \<longleftrightarrow> distinct (map fst (fl_queue g)) \<and>
     (\<forall>e \<in> set (fl_queue g). slot_in g (fst e) \<and> source_text_ok (fst (snd e)))"

definition keeps :: "flattening \<Rightarrow> flattening \<Rightarrow> bool" where
  "keeps g g' \<longleftrightarrow> length (fl_nodes g) \<le> length (fl_nodes g') \<and> length (fg_attributes g') = length (fg_attributes g) \<and>
     (\<forall>i < length (fl_nodes g). nd_key (fl_nodes g' ! i) = nd_key (fl_nodes g ! i)) \<and>
     (\<forall>i < length (fg_attributes g). nd_key (fg_attributes g' ! i) = nd_key (fg_attributes g ! i)) \<and>
     (\<forall>s. slot_in g s \<longrightarrow> s \<notin> fst ` set (fl_queue g) \<longrightarrow> slot_value g' s = slot_value g s)"

definition reads :: "flattening \<Rightarrow> slot \<times> source \<times> nat \<Rightarrow> bool" where
  "reads g e \<longleftrightarrow> value_tree (fl_nodes g) (slot_floor (fst e)) (slot_value g (fst e)) = meaning (fst (snd e))"

text \<open>One iteration, as the loop takes it: \<open>q\<close> is what is left in the queue.\<close>

lemma flatten_step_cases:
  assumes run: "flatten_step al (slot, src, depth) (g\<lparr>fl_queue := q\<rparr>) = Inr g1"
  obtains (Scalar) "children_of src = None" "source_limits src" "g1 = write_slot slot (scalar_of src) (g\<lparr>fl_queue := q\<rparr>)"
    | (Container) cc where "children_of src = Some cc" "source_limits src" "source_allocates al src"
      "length (fl_nodes g) + length (child_sources cc) \<le> OTEL_LOG_MAX_VALUE_NODES" "keys_within (child_sources cc)"
      "child_sources cc \<noteq> [] \<Longrightarrow> depth + 1 \<le> OTEL_LOG_MAX_VALUE_DEPTH"
      "g1 = expand slot cc depth (g\<lparr>fl_queue := q\<rparr>)"
proof (cases "children_of src")
  case None
  then show ?thesis using run Scalar by (simp add: flatten_step_Inr)
next
  case (Some cc)
  then show ?thesis using run Container [of cc] by (simp add: flatten_step_Inr expand_def)
qed

lemma slot_in_queue [simp]: "slot_in (g\<lparr>fl_queue := q\<rparr>) s = slot_in g s" "slot_value (g\<lparr>fl_queue := q\<rparr>) s = slot_value g s"
  by (simp_all add: slot_in_def slot_value_def split: slot.split)

lemma flatten_step_queue_ok:
  assumes run: "flatten_step al (slot, src, depth) (g\<lparr>fl_queue := q\<rparr>) = Inr g1"
    and q: "fl_queue g = (slot, src, depth) # q" and ok: "queue_ok g"
  shows "queue_ok g1" "slot \<notin> fst ` set (fl_queue g1)" "slot_in g slot"
proof -
  have here: "slot_in g slot" "source_text_ok src" "slot \<notin> fst ` set q" "distinct (map fst q)"
    and rest: "\<forall>e \<in> set q. slot_in g (fst e) \<and> source_text_ok (fst (snd e))"
    using ok q by (auto simp: queue_ok_def)
  have "queue_ok g1 \<and> slot \<notin> fst ` set (fl_queue g1)"
    using run
  proof (cases rule: flatten_step_cases)
    case Scalar
    then show ?thesis using here rest by (simp add: queue_ok_def)
  next
    case (Container cc)
    let ?g = "g\<lparr>fl_queue := q\<rparr>" and ?l = "length (fl_nodes g)" and ?cs = "child_sources cc"
    have in0: "slot_in ?g slot" using here by simp
    note e = expand_facts [OF in0, where cc = cc and depth = depth]
    have fresh: "\<not> slot_in g (Slot_Node (?l + k))" for k by (simp add: slot_in_def)
    have new: "Slot_Node i \<notin> fst ` set q \<and> Slot_Node i \<noteq> slot" if "?l \<le> i" for i
      using fresh [of "i - ?l"] that rest here(1) by auto
    have "distinct (map Slot_Node [?l..<?l + length ?cs])" by (simp add: distinct_map inj_on_def)
    moreover have "set (map fst q) \<inter> set (map Slot_Node [?l..<?l + length ?cs]) = {}"
    proof -
      have "Slot_Node i \<notin> set (map fst q)" if "?l \<le> i" for i using new [OF that] by simp
      then show ?thesis by (simp add: disjoint_iff del: set_map) (metis atLeastLessThan_iff imageE set_map set_upt)
    qed
    ultimately have d: "distinct (map fst (fl_queue g1))"
      using here(4) unfolding Container(7) e(3) map_append child_slots distinct_append by simp
    have old: "slot_in g1 t" if "slot_in g t" for t
      using that e(1,2) by (cases t) (auto simp: Container(7) slot_in_def)
    have "slot_in g1 (fst x) \<and> source_text_ok (fst (snd x))" if x: "x \<in> set (fl_queue g1)" for x
    proof (cases "x \<in> set q")
      case True
      then show ?thesis using rest old by blast
    next
      case False
      then have "x \<in> (\<lambda>k. (Slot_Node (?l + k), snd (?cs ! k), depth + 1)) ` {..<length ?cs}"
        using x by (simp add: Container(7) e(3) child_entries_nth atLeast0LessThan)
      then obtain k where k: "k < length ?cs" "x = (Slot_Node (?l + k), snd (?cs ! k), depth + 1)" by blast
      have "source_text_ok (snd (?cs ! k))"
        using container_sources(2) [OF Container(1,2) here(2)] k(1) by (simp add: children_text_ok_def)
      then show ?thesis using k e(1) by (simp add: Container(7) slot_in_def)
    qed
    moreover have "slot \<notin> fst ` set (fl_queue g1)"
    proof -
      have "slot \<noteq> Slot_Node (?l + k)" for k using new [of "?l + k"] by auto
      moreover have "fst ` set (fl_queue g1) = fst ` set q \<union> (\<lambda>k. Slot_Node (?l + k)) ` {..<length ?cs}"
        by (simp add: Container(7) e(3) child_entries_nth image_Un image_image atLeast0LessThan)
      ultimately show ?thesis using here(3) by blast
    qed
    ultimately show ?thesis using d by (simp add: queue_ok_def)
  qed
  then show "queue_ok g1" "slot \<notin> fst ` set (fl_queue g1)" by simp_all
  show "slot_in g slot" by (rule here)
qed

lemma flatten_step_back:
  assumes run: "flatten_step al (slot, src, depth) (g\<lparr>fl_queue := q\<rparr>) = Inr g1"
    and q: "fl_queue g = (slot, src, depth) # q" and ok: "queue_ok g"
    and keeps: "keeps g1 g'" and later: "\<forall>e \<in> set (fl_queue g1). reads g' e"
  shows "keeps g g' \<and> (\<forall>e \<in> set (fl_queue g). reads g' e)"
proof -
  note step = flatten_step_queue_ok [OF run q ok]
  have utf: "source_text_ok src" using ok q by (simp add: queue_ok_def)
  have in0: "slot_in (g\<lparr>fl_queue := q\<rparr>) slot" using step(3) by simp
  have here: "slot_in g1 slot \<Longrightarrow> slot_value g' slot = slot_value g1 slot" using keeps step(2) by (simp add: keeps_def)
  show ?thesis
    using run
  proof (cases rule: flatten_step_cases)
    case Scalar
    note k = keys_write [OF in0, of "scalar_of src"]
    have "keeps g g'"
      unfolding keeps_def
    proof (intro conjI allI impI)
      show "length (fl_nodes g) \<le> length (fl_nodes g')" "length (fg_attributes g') = length (fg_attributes g)"
        using keeps by (simp_all add: keeps_def Scalar(3))
      show "nd_key (fl_nodes g' ! i) = nd_key (fl_nodes g ! i)" if "i < length (fl_nodes g)" for i
        using keeps that k(1) [of i] by (simp add: keeps_def Scalar(3))
      show "nd_key (fg_attributes g' ! i) = nd_key (fg_attributes g ! i)" if "i < length (fg_attributes g)" for i
        using keeps that k(2) [of i] by (simp add: keeps_def Scalar(3))
      show "slot_value g' t = slot_value g t" if "slot_in g t" "t \<notin> fst ` set (fl_queue g)" for t
        using keeps that q slot_value_write [OF in0, of "scalar_of src" t] by (simp add: keeps_def Scalar(3))
    qed
    moreover have "slot_value g' slot = scalar_of src"
      using here step(3) slot_value_write [OF in0] by (simp add: Scalar(3))
    then have "reads g' (slot, src, depth)"
      using scalar_sources [OF Scalar(1,2) utf] assemble_scalar [of "scalar_of src" "fl_nodes g'"]
      by (simp add: reads_def value_tree_scalar)
    moreover have "\<forall>e \<in> set q. reads g' e" using later by (simp add: Scalar(3))
    ultimately show ?thesis using q by simp
  next
    case (Container cc)
    let ?l = "length (fl_nodes g)" and ?cs = "child_sources cc"
    note e = expand_facts [OF in0, where cc = cc and depth = depth]
    have g1: "length (fl_nodes g1) = ?l + length ?cs" "length (fg_attributes g1) = length (fg_attributes g)"
      "fl_queue g1 = q @ child_entries ?l depth ?cs" "slot_value g1 slot = container_value cc (fl_nodes g)"
      using e(1-4) by (simp_all add: Container(7))
    have in1: "slot_in g1 t" if "slot_in g t" for t using that g1(1,2) by (cases t) (auto simp: slot_in_def)
    have "keeps g g'"
      unfolding keeps_def
    proof (intro conjI allI impI)
      show "?l \<le> length (fl_nodes g')" "length (fg_attributes g') = length (fg_attributes g)"
        using keeps g1 by (simp_all add: keeps_def)
      show "nd_key (fl_nodes g' ! i) = nd_key (fl_nodes g ! i)" if "i < ?l" for i
        using keeps that g1(1) e(7) [of i] by (simp add: keeps_def Container(7))
      show "nd_key (fg_attributes g' ! i) = nd_key (fg_attributes g ! i)" if "i < length (fg_attributes g)" for i
        using keeps that g1(2) e(9) [of i] by (simp add: keeps_def Container(7))
      fix t assume t: "slot_in g t" "t \<notin> fst ` set (fl_queue g)"
      then have "t \<notin> fst ` set (fl_queue g1)" "t \<noteq> slot"
        using q by (auto simp: g1(3) child_entries_nth slot_in_def)
      then show "slot_value g' t = slot_value g t"
        using keeps in1 [OF t(1)] e(5) [of t] t(1) by (simp add: keeps_def Container(7))
    qed
    moreover have "value_tree (fl_nodes g') (slot_floor slot) (container_value cc (fl_nodes g)) = container_meaning cc"
    proof (rule container_tree [OF Container(4) _ _ _ _ container_sources(2) [OF Container(1,2) utf] Container(5)])
      show "?l + length ?cs \<le> length (fl_nodes g')" using keeps g1(1) by (simp add: keeps_def)
      show "slot_floor slot \<le> ?l" using step(3) by (cases slot) (simp_all add: slot_floor_def slot_in_def)
      fix k assume k: "k < length ?cs"
      then have "(Slot_Node (?l + k), snd (?cs ! k), depth + 1) \<in> set (fl_queue g1)" by (auto simp: g1(3) child_entries_nth)
      then show "value_tree (fl_nodes g') (Suc (?l + k)) (nd_value (fl_nodes g' ! (?l + k))) = meaning (snd (?cs ! k))"
        using later by (auto simp: reads_def slot_floor_def slot_value_def)
      show "nd_key (fl_nodes g' ! (?l + k)) = case_option sv_empty sv_of (fst (?cs ! k))"
        using keeps k g1(1) e(8) [of k] by (simp add: keeps_def Container(7))
    qed
    then have "reads g' (slot, src, depth)"
      using here in1 [OF step(3)] g1(4) container_sources(1) [OF Container(1,2) utf] by (simp add: reads_def)
    moreover have "\<forall>e \<in> set q. reads g' e" using later g1(3) by simp
    ultimately show ?thesis using q by simp
  qed
qed

text \<open>Every value in the queue reads back in the final pool.\<close>

lemma flatten_loop_reads:
  "flatten_loop al g = Inr g' \<Longrightarrow> queue_ok g \<Longrightarrow> keeps g g' \<and> (\<forall>e \<in> set (fl_queue g). reads g' e)"
proof (induction al g rule: flatten_loop.induct)
  case (1 al g)
  show ?case
  proof (cases "fl_queue g")
    case Nil
    then show ?thesis using 1(2) by (simp add: flatten_loop.simps [of al g] keeps_def)
  next
    case (Cons e q)
    obtain slot src depth where e: "e = (slot, src, depth)" by (cases e)
    obtain g1 where g1: "flatten_step al (slot, src, depth) (g\<lparr>fl_queue := q\<rparr>) = Inr g1" "flatten_loop al g1 = Inr g'"
      using 1(2) Cons e by (auto simp: flatten_loop.simps [of al g] split: sum.splits)
    have ok: "queue_ok g1" by (rule flatten_step_queue_ok(1) [OF g1(1) Cons [unfolded e] 1(3)])
    have "keeps g1 g' \<and> (\<forall>e \<in> set (fl_queue g1). reads g' e)" by (rule 1(1) [OF Cons g1(1) [folded e] g1(2) ok])
    then show ?thesis using flatten_step_back [OF g1(1) Cons [unfolded e] 1(3)] by blast
  qed
qed

section \<open>One owner\<close>

text \<open>The queue before the loop: the body, then the attributes with their keys written.\<close>

lemma enqueue_attributes_Inr:
  assumes "enqueue_attributes al i as g = Inr g'" and "i + length as \<le> length (fg_attributes g)"
  shows "fl_nodes g' = fl_nodes g" "fg_body g' = fg_body g" "length (fg_attributes g') = length (fg_attributes g)"
    "fl_queue g' = fl_queue g @ map (\<lambda>k. (Slot_Attribute (i + k), snd (as ! k), 1)) [0..<length as]"
    "nd_value (fg_attributes g' ! j) = nd_value (fg_attributes g ! j)"
    "nd_key (fg_attributes g' ! j) =
       (if i \<le> j \<and> j < i + length as then sv_of (fst (as ! (j - i))) else nd_key (fg_attributes g ! j))"
    "\<forall>a \<in> set as. length (fst a) \<le> OTEL_LOG_MAX_STRING_LEN"
proof -
  have "fl_nodes g' = fl_nodes g \<and> fg_body g' = fg_body g \<and> length (fg_attributes g') = length (fg_attributes g) \<and>
    fl_queue g' = fl_queue g @ map (\<lambda>k. (Slot_Attribute (i + k), snd (as ! k), 1)) [0..<length as] \<and>
    nd_value (fg_attributes g' ! j) = nd_value (fg_attributes g ! j) \<and>
    nd_key (fg_attributes g' ! j) =
       (if i \<le> j \<and> j < i + length as then sv_of (fst (as ! (j - i))) else nd_key (fg_attributes g ! j)) \<and>
    (\<forall>a \<in> set as. length (fst a) \<le> OTEL_LOG_MAX_STRING_LEN)"
    using assms
  proof (induction al i as g rule: enqueue_attributes.induct)
    case (2 al i key src as g)
    let ?as = "(fg_attributes g)[i := (fg_attributes g ! i)\<lparr>nd_key := sv_of key\<rparr>]"
    let ?g = "g\<lparr>fg_attributes := ?as, fl_queue := fl_queue g @ [(Slot_Attribute i, src, 1)]\<rparr>"
    have key: "length key \<le> OTEL_LOG_MAX_STRING_LEN" and run: "enqueue_attributes al (Suc i) as ?g = Inr g'"
      using 2(2) by (auto simp: sum_bind_Inr_iff export_string_view_Inr enqueue_Inr)
    have "Suc i + length as \<le> length (fg_attributes ?g)" using 2(3) by simp
    moreover have "enqueue al (Slot_Attribute i) src 1 (g\<lparr>fg_attributes := ?as\<rparr>) = Inr ?g"
      using 2(2) by (auto simp: sum_bind_Inr_iff export_string_view_Inr enqueue_Inr)
    ultimately have IH: "fl_nodes g' = fl_nodes g \<and> fg_body g' = fg_body g \<and> length (fg_attributes g') = length (fg_attributes g) \<and>
      fl_queue g' = (fl_queue g @ [(Slot_Attribute i, src, 1)]) @ map (\<lambda>k. (Slot_Attribute (Suc i + k), snd (as ! k), 1)) [0..<length as] \<and>
      nd_value (fg_attributes g' ! j) = nd_value (?as ! j) \<and>
      nd_key (fg_attributes g' ! j) =
         (if Suc i \<le> j \<and> j < Suc i + length as then sv_of (fst (as ! (j - Suc i))) else nd_key (?as ! j)) \<and>
      (\<forall>a \<in> set as. length (fst a) \<le> OTEL_LOG_MAX_STRING_LEN)"
      using 2(1) [of ?g] run by simp
    have at: "nd_value (?as ! j) = nd_value (fg_attributes g ! j)"
      "nd_key (?as ! j) = (if j = i then sv_of key else nd_key (fg_attributes g ! j))"
      using 2(3) by (auto simp: nth_list_update)
    have "map (\<lambda>k. (Slot_Attribute (i + k), snd (((key, src) # as) ! k), 1 :: nat)) [0..<Suc (length as)] =
        (Slot_Attribute i, src, 1) # map (\<lambda>k. (Slot_Attribute (Suc i + k), snd (as ! k), 1)) [0..<length as]"
      by (simp add: upt_conv_Cons map_Suc_upt [symmetric] del: upt_Suc)
    moreover have "nd_key (fg_attributes g' ! j) = (if i \<le> j \<and> j < i + length ((key, src) # as)
        then sv_of (fst (((key, src) # as) ! (j - i))) else nd_key (fg_attributes g ! j))"
    proof -
      consider "j < i" | "j = i" | "i < j" by linarith
      then show ?thesis
      proof cases
        case 3
        then have "((key, src) # as) ! (j - i) = as ! (j - Suc i)" by (simp add: nth_Cons')
        with 3 IH at show ?thesis by (simp add: Suc_le_eq del: nth_Cons_pos)
      qed (use IH at in auto)
    qed
    ultimately show ?case using IH at(1) key by simp
  qed auto
  then show "fl_nodes g' = fl_nodes g" "fg_body g' = fg_body g" "length (fg_attributes g') = length (fg_attributes g)"
    "fl_queue g' = fl_queue g @ map (\<lambda>k. (Slot_Attribute (i + k), snd (as ! k), 1)) [0..<length as]"
    "nd_value (fg_attributes g' ! j) = nd_value (fg_attributes g ! j)"
    "nd_key (fg_attributes g' ! j) =
       (if i \<le> j \<and> j < i + length as then sv_of (fst (as ! (j - i))) else nd_key (fg_attributes g ! j))"
    "\<forall>a \<in> set as. length (fst a) \<le> OTEL_LOG_MAX_STRING_LEN"
    by simp_all
qed

text \<open>The state in which the loop starts.\<close>

definition started :: "any_value option \<Rightarrow> (bytes \<times> source) list \<Rightarrow> flattening \<Rightarrow> bool" where
  "started bd attributes g \<longleftrightarrow> fl_nodes g = [] \<and> fg_body g = empty_value \<and>
     map nd_key (fg_attributes g) = map (\<lambda>a. sv_of (fst a)) attributes \<and>
     map nd_value (fg_attributes g) = replicate (length attributes) empty_value \<and>
     fl_queue g = (case bd of None \<Rightarrow> [] | Some v \<Rightarrow> [(Slot_Body, Src_Any v, 1)]) @
       map (\<lambda>k. (Slot_Attribute k, snd (attributes ! k), 1)) [0..<length attributes]"

definition initial :: "any_value option \<Rightarrow> nat \<Rightarrow> flattening" where
  "initial bd n =
     \<lparr>fl_nodes = [], fl_queue = case bd of None \<Rightarrow> [] | Some v \<Rightarrow> [(Slot_Body, Src_Any v, 1)],
      fg_body = empty_value, fg_attributes = replicate n empty_node\<rparr>"

lemma started_initial:
  assumes "enqueue_attributes al 0 attributes (initial bd (length attributes)) = Inr g"
  shows "started bd attributes g"
proof -
  have fit: "0 + length attributes \<le> length (fg_attributes (initial bd (length attributes)))" by (simp add: initial_def)
  note e = enqueue_attributes_Inr [OF assms fit]
  have "map nd_key (fg_attributes g) = map (\<lambda>a. sv_of (fst a)) attributes"
    "map nd_value (fg_attributes g) = replicate (length attributes) empty_value"
    by (rule nth_equalityI; use e(3,5,6) in \<open>simp add: empty_node_def initial_def\<close>)+
  then show ?thesis using e(1,2,4) by (simp add: started_def initial_def)
qed

lemma flatten_started:
  assumes "flatten al bd attributes = Inr g'"
  obtains g where "started bd attributes g" "flatten_loop al g = Inr g'" "length attributes \<le> OTEL_LOG_MAX_ATTRIBUTES"
    "\<forall>a \<in> set attributes. length (fst a) \<le> OTEL_LOG_MAX_STRING_LEN"
proof -
  obtain g where g: "enqueue_attributes al 0 attributes (initial bd (length attributes)) = Inr g" "flatten_loop al g = Inr g'"
      "length attributes \<le> OTEL_LOG_MAX_ATTRIBUTES"
    using assms
    by (cases bd)
      (auto simp: flatten_def sum_bind_Inr_iff try_sized_vec_def enqueue_body_def enqueue_Inr initial_def split: if_splits)
  have "0 + length attributes \<le> length (fg_attributes (initial bd (length attributes)))" by (simp add: initial_def)
  then show thesis using that [OF started_initial [OF g(1)]] g enqueue_attributes_Inr(7) [OF g(1)] by blast
qed

definition text_ok :: "any_value option \<Rightarrow> (bytes \<times> source) list \<Rightarrow> bool" where
  "text_ok bd attributes \<longleftrightarrow> (\<forall>v \<in> set_option bd. any_text_ok v) \<and> (\<forall>a \<in> set attributes. source_text_ok (snd a))"

lemma started_queue_ok:
  assumes "started bd attributes g" and "text_ok bd attributes"
  shows "queue_ok g"
proof -
  have n: "length (fg_attributes g) = length attributes"
    using assms(1) unfolding started_def by (metis length_map)
  have q: "fl_queue g = (case bd of None \<Rightarrow> [] | Some v \<Rightarrow> [(Slot_Body, Src_Any v, 1)]) @
       map (\<lambda>k. (Slot_Attribute k, snd (attributes ! k), 1)) [0..<length attributes]"
    using assms(1) by (simp add: started_def)
  have "distinct (map Slot_Attribute [0..<length attributes])" by (simp add: distinct_map inj_on_def)
  then have "distinct (map fst (fl_queue g))"
    unfolding q by (cases bd) (auto simp: comp_def)
  then show ?thesis
    using assms(2) n unfolding queue_ok_def q by (cases bd) (auto simp: slot_in_def text_ok_def)
qed

text \<open>What an exporter reads: the keys and values of the attributes, and the body.\<close>

definition read_attributes :: "flattening \<Rightarrow> (otel_string_view \<times> any_value) list" where
  "read_attributes g = map (\<lambda>a. (nd_key a, value_tree (fl_nodes g) 0 (nd_value a))) (fg_attributes g)"

definition reads_as :: "flattening \<Rightarrow> any_value option \<Rightarrow> (bytes \<times> source) list \<Rightarrow> bool" where
  "reads_as g bd attributes \<longleftrightarrow>
     read_attributes g = map (\<lambda>a. (sv_of (fst a), meaning (snd a))) attributes \<and>
     (case bd of
        None \<Rightarrow> fg_body g = empty_value
      | Some v \<Rightarrow> value_tree (fl_nodes g) 0 (fg_body g) = canonical v)"

lemma flatten_reads:
  assumes "flatten al bd attributes = Inr g'" and "text_ok bd attributes"
  shows "reads_as g' bd attributes"
proof -
  obtain g where g: "started bd attributes g" "flatten_loop al g = Inr g'" by (rule flatten_started [OF assms(1)])
  have q: "fl_queue g = (case bd of None \<Rightarrow> [] | Some v \<Rightarrow> [(Slot_Body, Src_Any v, 1)]) @
       map (\<lambda>k. (Slot_Attribute k, snd (attributes ! k), 1)) [0..<length attributes]"
    and keys: "map nd_key (fg_attributes g) = map (\<lambda>a. sv_of (fst a)) attributes"
    and bd0: "fg_body g = empty_value" and nodes: "fl_nodes g = []"
    using g(1) by (simp_all add: started_def)
  have n: "length (fg_attributes g) = length attributes" using keys by (metis length_map)
  have fin: "keeps g g'" "\<forall>e \<in> set (fl_queue g). reads g' e"
    using flatten_loop_reads [OF g(2) started_queue_ok [OF g(1) assms(2)]] by blast+
  have n': "length (fg_attributes g') = length attributes" using fin(1) n by (simp add: keeps_def)
  have "read_attributes g' = map (\<lambda>a. (sv_of (fst a), meaning (snd a))) attributes"
  proof (rule nth_equalityI)
    show "length (read_attributes g') = length (map (\<lambda>a. (sv_of (fst a), meaning (snd a))) attributes)"
      using n' by (simp add: read_attributes_def)
    fix i assume "i < length (read_attributes g')"
    then have i: "i < length attributes" using n' by (simp add: read_attributes_def)
    have "(Slot_Attribute i, snd (attributes ! i), 1) \<in> set (fl_queue g)" using i by (auto simp: q)
    then have "value_tree (fl_nodes g') 0 (nd_value (fg_attributes g' ! i)) = meaning (snd (attributes ! i))"
      using fin(2) by (auto simp: reads_def slot_floor_def slot_value_def)
    moreover have "nd_key (fg_attributes g' ! i) = map nd_key (fg_attributes g) ! i"
      using fin(1) i n by (simp add: keeps_def)
    ultimately show "read_attributes g' ! i = map (\<lambda>a. (sv_of (fst a), meaning (snd a))) attributes ! i"
      using i n' by (simp add: read_attributes_def keys)
  qed
  moreover have "case bd of None \<Rightarrow> fg_body g' = empty_value | Some v \<Rightarrow> value_tree (fl_nodes g') 0 (fg_body g') = canonical v"
  proof (cases bd)
    case None
    then have "Slot_Body \<notin> fst ` set (fl_queue g)" by (auto simp: q)
    moreover have "slot_in g Slot_Body" by (simp add: slot_in_def)
    ultimately have "slot_value g' Slot_Body = slot_value g Slot_Body" using fin(1) by (simp add: keeps_def)
    then show ?thesis using None bd0 by (simp add: slot_value_def)
  next
    case (Some v)
    then have "(Slot_Body, Src_Any v, 1) \<in> set (fl_queue g)" by (simp add: q)
    then show ?thesis using Some fin(2) by (auto simp: reads_def slot_floor_def slot_value_def)
  qed
  ultimately show ?thesis by (simp add: reads_as_def)
qed

section \<open>Which values are laid out\<close>

fun any_limits :: "any_value \<Rightarrow> bool" where
  "any_limits (AV_String s) \<longleftrightarrow> length s \<le> OTEL_LOG_MAX_STRING_LEN"
| "any_limits (AV_Bytes b) \<longleftrightarrow> length b \<le> OTEL_LOG_MAX_BYTES_LEN"
| "any_limits (AV_ListAny vs) \<longleftrightarrow> length vs \<le> OTEL_LOG_MAX_ARRAY_ELEMENTS \<and> (\<forall>v \<in> set vs. any_limits v)"
| "any_limits (AV_Map m) \<longleftrightarrow> length m \<le> OTEL_LOG_MAX_MAP_ENTRIES \<and>
     (\<forall>e \<in> set m. length (fst e) \<le> OTEL_LOG_MAX_STRING_LEN \<and> any_limits (snd e))"
| "any_limits _ \<longleftrightarrow> True"

definition all_limits :: "source \<Rightarrow> bool" where
  "all_limits src = (case src of Src_Any v \<Rightarrow> any_limits v | _ \<Rightarrow> source_limits src)"

definition source_height :: "source \<Rightarrow> nat" where
  "source_height src =
     (case src of
        Src_Any v \<Rightarrow> height v
      | Src_Attribute (Att_Array a) \<Rightarrow> if array_length a = 0 then 1 else 2
      | _ \<Rightarrow> 1)"

lemma height_pos: "0 < height v"
  by (cases v) simp_all

lemma foldr_max_le: "d + foldr max xs 0 \<le> n \<longleftrightarrow> d \<le> n \<and> (\<forall>x \<in> set xs. d + x \<le> n)" for n :: nat
  by (induction xs) auto

lemma scalar_limits:
  assumes "children_of src = None"
  shows "all_limits src = source_limits src" "source_height src = 1" "source_weight src = 1"
  using assms unfolding children_of_def all_limits_def source_limits_def source_height_def source_weight_def
  by (auto split: source.split_asm any_value.split_asm attribute_value.split_asm)

lemma container_limits:
  assumes "children_of src = Some cc"
  shows "all_limits src \<longleftrightarrow> source_limits src \<and> keys_within (child_sources cc) \<and> (\<forall>c \<in> set (child_sources cc). all_limits (snd c))"
    "depth + source_height src \<le> Suc n \<longleftrightarrow> depth \<le> n \<and> (\<forall>c \<in> set (child_sources cc). depth + 1 + source_height (snd c) \<le> Suc n)"
proof -
  have "(all_limits src \<longleftrightarrow> source_limits src \<and> keys_within (child_sources cc) \<and> (\<forall>c \<in> set (child_sources cc). all_limits (snd c))) \<and>
    (depth + source_height src \<le> Suc n \<longleftrightarrow> depth \<le> n \<and> (\<forall>c \<in> set (child_sources cc). depth + 1 + source_height (snd c) \<le> Suc n))"
  proof (cases src)
    case (Src_Any v)
    then show ?thesis
    proof (cases v)
      case (AV_ListAny vs)
      then have cc: "cc = CC_List vs" using assms Src_Any by (simp add: children_of_def)
      have "depth + source_height src \<le> Suc n \<longleftrightarrow> depth + foldr max (map height vs) 0 \<le> n"
        by (simp add: Src_Any AV_ListAny source_height_def)
      then show ?thesis unfolding foldr_max_le
        by (auto simp: Src_Any AV_ListAny cc all_limits_def source_limits_def child_sources_def keys_within_def source_height_def)
    next
      case (AV_Map m)
      then have cc: "cc = CC_Map (sort_key fst m)" using assms Src_Any by (simp add: children_of_def)
      have "depth + source_height src \<le> Suc n \<longleftrightarrow> depth + foldr max (map (\<lambda>e. height (snd e)) m) 0 \<le> n"
        by (simp add: Src_Any AV_Map source_height_def)
      moreover have cs: "set (child_sources cc) = (\<lambda>e. (Some (fst e), Src_Any (snd e))) ` set m"
        by (simp add: cc child_sources_def split_beta)
      moreover have "keys_within (child_sources cc) \<longleftrightarrow> (\<forall>e \<in> set m. length (fst e) \<le> OTEL_LOG_MAX_STRING_LEN)"
        unfolding keys_within_def cs image_image fst_conv by blast
      ultimately show ?thesis unfolding foldr_max_le
        by (auto simp: Src_Any AV_Map all_limits_def source_limits_def source_height_def)
    qed (use assms Src_Any in \<open>simp_all add: children_of_def\<close>)
  next
    case (Src_Attribute v)
    show ?thesis
    proof (cases v)
      case (Att_Array a)
      then have cc: "cc = CC_Scalars (array_elements a)" using assms Src_Attribute by (simp add: children_of_def)
      have "array_elements a \<noteq> [] \<longleftrightarrow> array_length a \<noteq> 0" by (metis length_0_conv length_array_elements)
      then show ?thesis
        by (auto simp: Src_Attribute Att_Array cc all_limits_def source_limits_def child_sources_def keys_within_def
            source_height_def)
    qed (use assms Src_Attribute in \<open>simp add: children_of_def\<close>)
  qed (use assms in \<open>simp add: children_of_def\<close>)
  then show "all_limits src \<longleftrightarrow> source_limits src \<and> keys_within (child_sources cc) \<and> (\<forall>c \<in> set (child_sources cc). all_limits (snd c))"
    "depth + source_height src \<le> Suc n \<longleftrightarrow> depth \<le> n \<and> (\<forall>c \<in> set (child_sources cc). depth + 1 + source_height (snd c) \<le> Suc n)"
    by blast+
qed

text \<open>A queue whose entries are all laid out: each is within the limits, and the pool has room for them together.\<close>

definition layable :: "flattening \<Rightarrow> bool" where
  "layable g \<longleftrightarrow>
     (\<forall>e \<in> set (fl_queue g). all_limits (fst (snd e)) \<and> snd (snd e) + source_height (fst (snd e)) \<le> Suc OTEL_LOG_MAX_VALUE_DEPTH) \<and>
     length (fl_nodes g) + queue_weight (fl_queue g) \<le> OTEL_LOG_MAX_VALUE_NODES + length (fl_queue g)"

definition shallow :: "flattening \<Rightarrow> bool" where
  "shallow g \<longleftrightarrow> length (fl_nodes g) \<le> OTEL_LOG_MAX_VALUE_NODES \<and>
     (\<forall>e \<in> set (fl_queue g). snd (snd e) \<le> OTEL_LOG_MAX_VALUE_DEPTH)"

lemma queue_weight_length: "length q \<le> queue_weight q"
  by (induction q) (auto simp: Suc_le_eq intro: add_less_le_mono [OF source_weight_pos, simplified])

lemma source_allocates_total: "\<forall>n. al n \<Longrightarrow> source_allocates al src"
  by (simp add: source_allocates_def split: source.split any_value.split attribute_value.split)

lemma flatten_step_layable:
  assumes al: "\<forall>n. al n" and q: "fl_queue g = (slot, src, depth) # q" and ok: "shallow g"
  shows "layable g \<longleftrightarrow> (\<exists>g1. flatten_step al (slot, src, depth) (g\<lparr>fl_queue := q\<rparr>) = Inr g1 \<and> layable g1)"
    "flatten_step al (slot, src, depth) (g\<lparr>fl_queue := q\<rparr>) = Inr g1 \<Longrightarrow> shallow g1"
proof -
  let ?M = OTEL_LOG_MAX_VALUE_DEPTH and ?N = OTEL_LOG_MAX_VALUE_NODES
  have depth: "depth \<le> ?M" "length (fl_nodes g) \<le> ?N" "\<forall>e \<in> set q. snd (snd e) \<le> ?M" using ok q by (auto simp: shallow_def)
  note a = source_allocates_total [OF al, of src] al [THEN spec, of 1]
  have "(layable g \<longleftrightarrow> (\<exists>g1. flatten_step al (slot, src, depth) (g\<lparr>fl_queue := q\<rparr>) = Inr g1 \<and> layable g1)) \<and>
     (\<forall>g1. flatten_step al (slot, src, depth) (g\<lparr>fl_queue := q\<rparr>) = Inr g1 \<longrightarrow> shallow g1)"
  proof (cases "children_of src")
    case None
    note s = scalar_limits [OF None]
    have "flatten_step al (slot, src, depth) (g\<lparr>fl_queue := q\<rparr>) = Inr g1 \<longleftrightarrow>
        source_limits src \<and> g1 = write_slot slot (scalar_of src) (g\<lparr>fl_queue := q\<rparr>)" for g1
      using None a by (simp add: flatten_step_Inr)
    then show ?thesis using depth s q by (auto simp: layable_def shallow_def)
  next
    case (Some cc)
    let ?cs = "child_sources cc" and ?l = "length (fl_nodes g)"
    let ?g1 = "expand slot cc depth (g\<lparr>fl_queue := q\<rparr>)"
    have step: "flatten_step al (slot, src, depth) (g\<lparr>fl_queue := q\<rparr>) = Inr g1 \<longleftrightarrow>
        source_limits src \<and> ?l + length ?cs \<le> ?N \<and> (?cs \<noteq> [] \<longrightarrow> depth + 1 \<le> ?M) \<and> keys_within ?cs \<and> g1 = ?g1" for g1
      using Some a by (auto simp: flatten_step_Inr expand_def)
    have e: "length (fl_nodes ?g1) = ?l + length ?cs" "fl_queue ?g1 = q @ child_entries ?l depth ?cs"
      by (simp_all add: expand_def push_children_def)
    have w: "source_weight src = Suc (queue_weight (child_entries ?l depth ?cs))"
      using children_weight [OF Some] by (simp add: queue_weight_children)
    have len: "length (child_entries ?l depth ?cs) = length ?cs" by (simp add: child_entries_def)
    have room: "?l + queue_weight (fl_queue g) \<le> ?N + length (fl_queue g) \<longleftrightarrow>
        length (fl_nodes ?g1) + queue_weight (fl_queue ?g1) \<le> ?N + length (fl_queue ?g1)"
      using w len by (simp add: q e ac_simps)
    have fits: "?l + queue_weight (fl_queue g) \<le> ?N + length (fl_queue g) \<Longrightarrow> ?l + length ?cs \<le> ?N"
      using w queue_weight_length [of "child_entries ?l depth ?cs"] queue_weight_length [of q] len by (simp add: q)
    note limits = container_limits(1) [OF Some] container_limits(2) [OF Some, of depth ?M]
    have kids: "(\<forall>x \<in> set (child_entries ?l depth ?cs). P (fst (snd x)) (snd (snd x))) \<longleftrightarrow> (\<forall>c \<in> set ?cs. P (snd c) (depth + 1))" for P
      by (auto simp: child_entries_nth all_set_conv_all_nth)
    have pos: "0 < source_height s" for s
      by (simp add: source_height_def height_pos split: source.split attribute_value.split)
    have deep: "?cs \<noteq> [] \<Longrightarrow> (\<forall>c \<in> set ?cs. depth + 1 + source_height (snd c) \<le> Suc ?M) \<Longrightarrow> depth + 1 \<le> ?M"
      using pos [of "snd (hd ?cs)"] by (cases ?cs) (auto simp: Suc_le_eq)
    have "layable g \<longleftrightarrow> source_limits src \<and> ?l + length ?cs \<le> ?N \<and> (?cs \<noteq> [] \<longrightarrow> depth + 1 \<le> ?M) \<and> keys_within ?cs \<and> layable ?g1"
      unfolding layable_def e(2) set_append ball_Un kids
        [of "\<lambda>s d. all_limits s \<and> d + source_height s \<le> Suc OTEL_LOG_MAX_VALUE_DEPTH"] room [unfolded e(2), symmetric]
      using limits depth fits deep by (auto simp: q)
    moreover have "shallow ?g1" if "?l + length ?cs \<le> ?N" "?cs \<noteq> [] \<longrightarrow> depth + 1 \<le> ?M"
      using that depth(3) unfolding shallow_def e by (auto simp: child_entries_nth)
    ultimately show ?thesis unfolding step by blast
  qed
  then show "layable g \<longleftrightarrow> (\<exists>g1. flatten_step al (slot, src, depth) (g\<lparr>fl_queue := q\<rparr>) = Inr g1 \<and> layable g1)"
    "flatten_step al (slot, src, depth) (g\<lparr>fl_queue := q\<rparr>) = Inr g1 \<Longrightarrow> shallow g1"
    by blast+
qed

lemma flatten_loop_decides:
  "\<forall>n. al n \<Longrightarrow> shallow g \<Longrightarrow> (\<exists>g'. flatten_loop al g = Inr g') \<longleftrightarrow> layable g"
proof (induction al g rule: flatten_loop.induct)
  case (1 al g)
  show ?case
  proof (cases "fl_queue g")
    case Nil
    then show ?thesis using 1(3) by (simp add: flatten_loop.simps [of al g] layable_def shallow_def)
  next
    case (Cons e q)
    obtain slot src depth where e: "e = (slot, src, depth)" by (cases e)
    note s = flatten_step_layable [OF 1(2) Cons [unfolded e] 1(3)]
    show ?thesis
    proof (cases "flatten_step al e (g\<lparr>fl_queue := q\<rparr>)")
      case (Inl err)
      then show ?thesis using s(1) Cons e by (simp add: flatten_loop.simps [of al g])
    next
      case (Inr g1)
      have "(\<exists>g'. flatten_loop al g1 = Inr g') \<longleftrightarrow> layable g1"
        using 1(1) [OF Cons Inr 1(2) s(2)] Inr e by simp
      then show ?thesis using s(1) Cons e Inr by (simp add: flatten_loop.simps [of al g])
    qed
  qed
qed

text \<open>The limits of one owner: its body and its attributes together.\<close>

definition within_limits :: "any_value option \<Rightarrow> (bytes \<times> source) list \<Rightarrow> bool" where
  "within_limits bd attributes \<longleftrightarrow> length attributes \<le> OTEL_LOG_MAX_ATTRIBUTES \<and>
     (\<forall>a \<in> set attributes. length (fst a) \<le> OTEL_LOG_MAX_STRING_LEN \<and> all_limits (snd a) \<and>
        source_height (snd a) \<le> OTEL_LOG_MAX_VALUE_DEPTH) \<and>
     (\<forall>v \<in> set_option bd. any_limits v \<and> height v \<le> OTEL_LOG_MAX_VALUE_DEPTH) \<and>
     sum_list (map any_weight (case_option [] (\<lambda>v. [v]) bd)) + sum_list (map (\<lambda>a. source_weight (snd a)) attributes)
       \<le> OTEL_LOG_MAX_VALUE_NODES + length (case_option [] (\<lambda>v. [v]) bd) + length attributes"

lemma enqueue_attributes_total:
  "\<forall>n. al n \<Longrightarrow> (\<exists>g'. enqueue_attributes al i as g = Inr g') \<longleftrightarrow> (\<forall>a \<in> set as. length (fst a) \<le> OTEL_LOG_MAX_STRING_LEN)"
  by (induction al i as g rule: enqueue_attributes.induct)
    (auto simp: sum_bind_Inr_iff export_string_view_Inr enqueue_Inr OTEL_LOG_MAX_VALUE_DEPTH_def)

lemma started_layable:
  assumes "started bd attributes g"
  shows "shallow g" "layable g \<longleftrightarrow>
     (\<forall>a \<in> set attributes. all_limits (snd a) \<and> source_height (snd a) \<le> OTEL_LOG_MAX_VALUE_DEPTH) \<and>
     (\<forall>v \<in> set_option bd. any_limits v \<and> height v \<le> OTEL_LOG_MAX_VALUE_DEPTH) \<and>
     sum_list (map any_weight (case_option [] (\<lambda>v. [v]) bd)) + sum_list (map (\<lambda>a. source_weight (snd a)) attributes)
       \<le> OTEL_LOG_MAX_VALUE_NODES + length (case_option [] (\<lambda>v. [v]) bd) + length attributes"
proof -
  let ?as = "map (\<lambda>k. (Slot_Attribute k, snd (attributes ! k), 1 :: nat)) [0..<length attributes]"
  have q: "fl_queue g = (case bd of None \<Rightarrow> [] | Some v \<Rightarrow> [(Slot_Body, Src_Any v, 1)]) @ ?as" and n: "fl_nodes g = []"
    using assms by (simp_all add: started_def)
  have all: "(\<forall>x \<in> set ?as. P (fst (snd x)) (snd (snd x))) \<longleftrightarrow> (\<forall>a \<in> set attributes. P (snd a) 1)" for P
    by (auto simp: all_set_conv_all_nth)
  have "map (\<lambda>k. source_weight (snd (attributes ! k))) [0..<length attributes] = map (\<lambda>a. source_weight (snd a)) attributes"
    by (rule nth_equalityI) simp_all
  then have w: "queue_weight ?as = sum_list (map (\<lambda>a. source_weight (snd a)) attributes)"
    by (simp add: queue_weight_def comp_def)
  show "shallow g"
    unfolding shallow_def q n by (cases bd) (auto simp: OTEL_LOG_MAX_VALUE_DEPTH_def)
  show "layable g \<longleftrightarrow>
     (\<forall>a \<in> set attributes. all_limits (snd a) \<and> source_height (snd a) \<le> OTEL_LOG_MAX_VALUE_DEPTH) \<and>
     (\<forall>v \<in> set_option bd. any_limits v \<and> height v \<le> OTEL_LOG_MAX_VALUE_DEPTH) \<and>
     sum_list (map any_weight (case_option [] (\<lambda>v. [v]) bd)) + sum_list (map (\<lambda>a. source_weight (snd a)) attributes)
       \<le> OTEL_LOG_MAX_VALUE_NODES + length (case_option [] (\<lambda>v. [v]) bd) + length attributes"
  proof (cases bd)
    case None
    then show ?thesis unfolding layable_def q n set_append ball_Un
        all [of "\<lambda>s d. all_limits s \<and> d + source_height s \<le> Suc OTEL_LOG_MAX_VALUE_DEPTH"] queue_weight_simps w by auto
  next
    case (Some v)
    then show ?thesis unfolding layable_def q n set_append ball_Un
        all [of "\<lambda>s d. all_limits s \<and> d + source_height s \<le> Suc OTEL_LOG_MAX_VALUE_DEPTH"] queue_weight_simps w
      by (auto simp: all_limits_def source_height_def source_weight_def)
  qed
qed

lemma flatten_complete:
  assumes "\<forall>n. al n" and w: "within_limits bd attributes"
  shows "\<exists>g. flatten al bd attributes = Inr g"
proof -
  obtain g where g: "enqueue_attributes al 0 attributes (initial bd (length attributes)) = Inr g"
    using enqueue_attributes_total [OF assms(1)] w unfolding within_limits_def by blast
  have run: "flatten al bd attributes = flatten_loop al g"
    using g w assms(1)
    by (cases bd) (auto simp: flatten_def within_limits_def try_sized_vec_def enqueue_body_def enqueue_def initial_def
        OTEL_LOG_MAX_VALUE_DEPTH_def)
  note s = started_layable [OF started_initial [OF g]]
  have "layable g" using w unfolding s(2) within_limits_def by blast
  then show "\<exists>g. flatten al bd attributes = Inr g" unfolding run using flatten_loop_decides [OF assms(1) s(1)] by blast
qed

text \<open>
  C14: The conversion decides the limits. With an allocator that does not fail, an owner's body and attributes are
  laid out if and only if there are at most as many attributes as the limit allows, every string, byte string,
  array, map, key and nesting depth is within its limit, and all values together fit the pool.
\<close>

theorem flatten_decides_limits:
  assumes "\<forall>n. al n"
  shows "(\<exists>g. flatten al bd attributes = Inr g) \<longleftrightarrow> within_limits bd attributes"
proof (intro iffI flatten_complete [OF assms])
  assume "\<exists>g. flatten al bd attributes = Inr g"
  then obtain g' where g': "flatten al bd attributes = Inr g'" ..
  obtain g where g: "started bd attributes g" "flatten_loop al g = Inr g'" "length attributes \<le> OTEL_LOG_MAX_ATTRIBUTES"
    "\<forall>a \<in> set attributes. length (fst a) \<le> OTEL_LOG_MAX_STRING_LEN" by (rule flatten_started [OF g'])
  note s = started_layable [OF g(1)]
  have "layable g" using flatten_loop_decides [OF assms s(1)] g(2) by blast
  then show "within_limits bd attributes" unfolding s(2) within_limits_def using g(3,4) by blast
qed

section \<open>The number of iterations\<close>

text \<open>The loop with a bound on its iterations; \<open>None\<close> when the bound is reached before the queue is empty.\<close>

primrec flatten_within :: "nat \<Rightarrow> (nat \<Rightarrow> bool) \<Rightarrow> flattening \<Rightarrow> (abi_error + flattening) option" where
  "flatten_within 0 al g = (case fl_queue g of [] \<Rightarrow> Some (Inr g) | _ # _ \<Rightarrow> None)"
| "flatten_within (Suc n) al g =
     (case fl_queue g of
        [] \<Rightarrow> Some (Inr g)
      | e # q \<Rightarrow>
          (case flatten_step al e (g\<lparr>fl_queue := q\<rparr>) of
             Inl err \<Rightarrow> Some (Inl err)
           | Inr g' \<Rightarrow> flatten_within n al g'))"

text \<open>An iteration moves a value out of the queue, and what it queues it has room for in the pool.\<close>

lemma flatten_step_room:
  assumes "flatten_step al e (g\<lparr>fl_queue := q\<rparr>) = Inr g1"
    and "length (fl_nodes g) \<le> OTEL_LOG_MAX_VALUE_NODES"
  shows "length (fl_nodes g1) \<le> OTEL_LOG_MAX_VALUE_NODES"
    "OTEL_LOG_MAX_VALUE_NODES - length (fl_nodes g1) + length (fl_queue g1) = OTEL_LOG_MAX_VALUE_NODES - length (fl_nodes g) + length q"
proof -
  obtain slot src depth where e: "e = (slot, src, depth)" by (cases e)
  have "length (fl_nodes g1) \<le> OTEL_LOG_MAX_VALUE_NODES \<and>
    OTEL_LOG_MAX_VALUE_NODES - length (fl_nodes g1) + length (fl_queue g1) = OTEL_LOG_MAX_VALUE_NODES - length (fl_nodes g) + length q"
    using assms(1) [unfolded e]
  proof (cases rule: flatten_step_cases)
    case Scalar
    then show ?thesis using assms(2) by simp
  next
    case (Container cc)
    then show ?thesis by (simp add: expand_def push_children_def child_entries_def)
  qed
  then show "length (fl_nodes g1) \<le> OTEL_LOG_MAX_VALUE_NODES"
    "OTEL_LOG_MAX_VALUE_NODES - length (fl_nodes g1) + length (fl_queue g1) = OTEL_LOG_MAX_VALUE_NODES - length (fl_nodes g) + length q"
    by simp_all
qed

text \<open>
  C15: The conversion ends within a bound that no exported record can raise. However deep or wide the values are, the
  loop of \<open>flatten\<close> over any queue returns after at most one iteration for each queued root and for each node
  that the pool may have.
\<close>

theorem flatten_loop_terminates:
  "flatten_within (OTEL_LOG_MAX_VALUE_NODES + length (fl_queue g)) al (g\<lparr>fl_nodes := []\<rparr>) =
     Some (flatten_loop al (g\<lparr>fl_nodes := []\<rparr>))"
proof -
  have "flatten_within n al g = Some (flatten_loop al g)"
    if "n = OTEL_LOG_MAX_VALUE_NODES - length (fl_nodes g) + length (fl_queue g)" "length (fl_nodes g) \<le> OTEL_LOG_MAX_VALUE_NODES"
    for n g
    using that
  proof (induction n arbitrary: g)
    case 0
    then have "fl_queue g = []" by (cases "fl_queue g") simp_all
    then show ?case by (simp add: flatten_loop.simps [of al g])
  next
    case (Suc n)
    show ?case
    proof (cases "fl_queue g")
      case (Cons e q)
      show ?thesis
      proof (cases "flatten_step al e (g\<lparr>fl_queue := q\<rparr>)")
        case (Inr g1)
        have "flatten_within n al g1 = Some (flatten_loop al g1)"
        proof (rule Suc.IH)
          show "n = OTEL_LOG_MAX_VALUE_NODES - length (fl_nodes g1) + length (fl_queue g1)"
            using Suc.prems flatten_step_room(2) [OF Inr Suc.prems(2)] Cons by simp
        qed (rule flatten_step_room(1) [OF Inr Suc.prems(2)])
        then show ?thesis using Cons Inr by (simp add: flatten_loop.simps [of al g])
      qed (simp add: Cons flatten_loop.simps [of al g])
    qed (simp add: flatten_loop.simps [of al g])
  qed
  from this [of _ "g\<lparr>fl_nodes := []\<rparr>"] show ?thesis by simp
qed

section \<open>Samples\<close>

text \<open>A body with a nested array and a map in descending key order; a scope with an array attribute.\<close>

definition sample_owner_body :: any_value where
  "sample_owner_body = AV_Map [([98], AV_ListAny [AV_Int 1, AV_Bytes [7]]), ([97], AV_Boolean True)]"

definition sample_owner_attributes :: "(bytes \<times> source) list" where
  "sample_owner_attributes = [([107], Src_Attribute (Att_Array (Arr_I64 [5, 6]))), ([108], Src_Any (AV_Double 0))]"

lemma sample_owner_text_ok: "text_ok (Some sample_owner_body) sample_owner_attributes"
proof -
  have "valid_utf8 [97]" "valid_utf8 [98]" by code_simp+
  then show ?thesis by (simp add: text_ok_def sample_owner_body_def sample_owner_attributes_def)
qed

lemma sample_owner_limits: "within_limits (Some sample_owner_body) sample_owner_attributes"
  by (simp add: within_limits_def sample_owner_body_def sample_owner_attributes_def all_limits_def source_limits_def
      source_height_def source_weight_def array_length_def OTEL_LOG_MAX_ATTRIBUTES_def OTEL_LOG_MAX_STRING_LEN_def
      OTEL_LOG_MAX_BYTES_LEN_def OTEL_LOG_MAX_ARRAY_ELEMENTS_def OTEL_LOG_MAX_MAP_ENTRIES_def OTEL_LOG_MAX_VALUE_DEPTH_def
      OTEL_LOG_MAX_VALUE_NODES_def)

theorem flatten_decides_limits_witness:
  "\<exists>g. flatten (\<lambda>_. True) (Some sample_owner_body) sample_owner_attributes = Inr g"
  using flatten_decides_limits [of "\<lambda>_. True" "Some sample_owner_body" sample_owner_attributes] sample_owner_limits by blast

end
