(* ===== verification/Log_Forest.thy ===== *)
theory Log_Forest
  imports Log_Layout
begin

text \<open>
  The shape of an exported pool (\<open>sdk/src/log_export_view.rs\<close>): after the loop of \<open>flatten\<close> every node has
  one owner, owners come before their children, and keys and values obey the rules of the pool.
\<close>

section \<open>The pool is a forest\<close>

text \<open>
  What an exporter may rely on: every node has exactly one owner, an owner comes before its children, the children of
  an array have no keys, those of a map have distinct keys in ascending order, and every value is well formed.
\<close>

definition exported_keys_ok :: "flattening \<Rightarrow> otel_log_value \<Rightarrow> bool" where
  "exported_keys_ok g v \<longleftrightarrow>
     (case tag_of v of
        Some LT_Array \<Rightarrow> \<forall>i \<in> set (kids v). nd_key (fl_nodes g ! i) = sv_empty
      | Some LT_Map \<Rightarrow> \<exists>ks. map (key_at (fl_nodes g)) (kids v) = map Inr ks \<and> distinct ks \<and> sorted ks
      | _ \<Rightarrow> True)"

definition slot_ok :: "flattening \<Rightarrow> slot \<Rightarrow> bool" where
  "slot_ok g s \<longleftrightarrow> (\<forall>i \<in> set (kids (slot_value g s)). slot_floor s \<le> i \<and> i < length (fl_nodes g)) \<and>
     exported_keys_ok g (slot_value g s)"

definition owns :: "flattening \<Rightarrow> nat \<Rightarrow> slot \<Rightarrow> bool" where
  "owns g i s \<longleftrightarrow> slot_in g s \<and> i \<in> set (kids (slot_value g s))"

definition exported_forest :: "flattening \<Rightarrow> bool" where
  "exported_forest g \<longleftrightarrow> (\<forall>s. slot_in g s \<longrightarrow> slot_ok g s) \<and> (\<forall>i < length (fl_nodes g). \<exists>!s. owns g i s)"

definition forest_so_far :: "flattening \<Rightarrow> bool" where
  "forest_so_far g \<longleftrightarrow> exported_forest g \<and> (\<forall>e \<in> set (fl_queue g). slot_value g (fst e) = empty_value) \<and>
     (\<forall>i < length (fl_nodes g). Slot_Node i \<in> fst ` set (fl_queue g) \<or> value_ok (nd_value (fl_nodes g ! i)))"

lemma kids_empty [simp]: "kids empty_value = []"
  by (simp add: written_not_container)

lemma exported_keys_scalar: "\<not> is_container v \<Longrightarrow> exported_keys_ok g v"
  by (auto simp: exported_keys_ok_def is_container_tag split: option.split otel_log_value_type.split)

lemma exported_keys_kept:
  assumes "exported_keys_ok g v" and "\<forall>i \<in> set (kids v). nd_key (fl_nodes g' ! i) = nd_key (fl_nodes g ! i)"
  shows "exported_keys_ok g' v"
proof -
  have "map (key_at (fl_nodes g')) (kids v) = map (key_at (fl_nodes g)) (kids v)"
    using assms(2) by (simp add: key_at_def)
  then show ?thesis
    using assms unfolding exported_keys_ok_def
    by (simp split: option.splits otel_log_value_type.splits del: map_eq_conv)
qed

text \<open>A step that gives an empty slot a value whose children are the nodes that it adds.\<close>

lemma forest_extend:
  assumes f: "exported_forest g" and here: "slot_in g slot" "slot_value g slot = empty_value"
    and len: "length (fl_nodes g1) = length (fl_nodes g) + n" "length (fg_attributes g1) = length (fg_attributes g)"
    and kids: "kids (slot_value g1 slot) = [length (fl_nodes g)..<length (fl_nodes g) + n]" "exported_keys_ok g1 (slot_value g1 slot)"
    and old: "\<And>t. slot_in g t \<Longrightarrow> t \<noteq> slot \<Longrightarrow> slot_value g1 t = slot_value g t"
    and keys: "\<And>i. i < length (fl_nodes g) \<Longrightarrow> nd_key (fl_nodes g1 ! i) = nd_key (fl_nodes g ! i)"
    and new: "\<And>k. k < n \<Longrightarrow> slot_value g1 (Slot_Node (length (fl_nodes g) + k)) = empty_value"
  shows "exported_forest g1"
proof -
  let ?l = "length (fl_nodes g)"
  have slots: "slot_in g1 t \<longleftrightarrow> slot_in g t \<or> (\<exists>k < n. t = Slot_Node (?l + k))" for t
  proof (cases t)
    case (Slot_Node i)
    have "i < ?l + n \<longleftrightarrow> i < ?l \<or> (\<exists>k < n. i = ?l + k)" by presburger
    then show ?thesis using len by (simp add: Slot_Node slot_in_def)
  qed (use len in \<open>simp_all add: slot_in_def\<close>)
  have fresh: "\<not> slot_in g (Slot_Node (?l + k))" for k by (simp add: slot_in_def)
  have ok: "slot_ok g t" if "slot_in g t" for t using f that by (simp add: exported_forest_def)
  have owner: "owns g1 i t \<longleftrightarrow> owns g i t \<or> t = slot \<and> ?l \<le> i \<and> i < ?l + n" for i t
  proof (cases "slot_in g t")
    case True
    then show ?thesis using old [OF True] here kids(1) slots by (cases "t = slot") (auto simp: owns_def)
  next
    case False
    then show ?thesis using slots here(1) new by (auto simp: owns_def)
  qed
  have "slot_ok g1 t" if t: "slot_in g1 t" for t
  proof -
    consider "t = slot" | "slot_in g t" "t \<noteq> slot" | k where "k < n" "t = Slot_Node (?l + k)" using t slots by blast
    then show ?thesis
    proof cases
      case 1
      have "slot_floor slot \<le> ?l" using here(1) by (cases slot) (simp_all add: slot_floor_def slot_in_def)
      then show ?thesis using 1 kids len by (auto simp: slot_ok_def)
    next
      case 2
      note v = old [OF 2]
      have sub: "i < ?l" if "i \<in> set (kids (slot_value g t))" for i using ok [OF 2(1)] that by (simp add: slot_ok_def)
      have "exported_keys_ok g1 (slot_value g t)"
        by (rule exported_keys_kept [of g]) (use ok [OF 2(1)] keys sub in \<open>auto simp: slot_ok_def\<close>)
      then show ?thesis using ok [OF 2(1)] sub v len by (fastforce simp: slot_ok_def)
    next
      case 3
      then show ?thesis using new by (simp add: slot_ok_def exported_keys_scalar written_not_container)
    qed
  qed
  moreover have "\<exists>!s. owns g1 i s" if i: "i < length (fl_nodes g1)" for i
  proof (cases "i < ?l")
    case True
    then show ?thesis using f owner by (simp add: exported_forest_def)
  next
    case False
    then have "\<not> owns g i s" for s using ok by (auto simp: owns_def slot_ok_def)
    then show ?thesis using owner False i len by simp
  qed
  ultimately show ?thesis by (simp add: exported_forest_def)
qed

lemma container_value_ok:
  assumes "children_of src = Some cc" and "source_limits src" and "length nodes + length (child_sources cc) \<le> OTEL_LOG_MAX_VALUE_NODES"
  shows "value_ok (container_value cc nodes)"
proof -
  have "unat (rg_count (pool_range nodes (length (child_sources cc)))) = length (child_sources cc)"
    using first_pool_range(2) [of "length (child_sources cc)" nodes] assms(3) by simp
  then show ?thesis
    using assms(1,2) unfolding children_of_def
    by (auto simp: value_ok_def container_value_def is_map_def source_limits_def
        split: source.split_asm any_value.split_asm attribute_value.split_asm)
qed

lemma container_keys_ok:
  assumes src: "children_of src = Some cc" "source_limits src" "source_text_ok src"
    and room: "length (fl_nodes g) + length (child_sources cc) \<le> OTEL_LOG_MAX_VALUE_NODES"
    and keys: "\<And>k. k < length (child_sources cc) \<Longrightarrow>
      nd_key (fl_nodes g1 ! (length (fl_nodes g) + k)) = case_option sv_empty sv_of (fst (child_sources cc ! k))"
    and within: "keys_within (child_sources cc)"
  shows "exported_keys_ok g1 (container_value cc (fl_nodes g))"
proof -
  let ?l = "length (fl_nodes g)" and ?cs = "child_sources cc"
  note kids = container_kids [OF room]
  note utf = container_sources(2) [OF src]
  show ?thesis
  proof (cases "is_map cc")
    case True
    then obtain m where m: "src = Src_Any (AV_Map m)" "cc = CC_Map (sort_key fst m)"
      using src(1) unfolding children_of_def is_map_def
      by (auto split: source.split_asm any_value.split_asm attribute_value.split_asm)
    let ?ks = "map fst (sort_key fst m)"
    have cs: "fst (?cs ! k) = Some (?ks ! k)" if "k < length ?cs" for k
      using that by (simp add: m child_sources_def split_beta)
    have "map (key_at (fl_nodes g1)) (kids (container_value cc (fl_nodes g))) = map Inr ?ks"
      unfolding kids
    proof (rule nth_equalityI)
      fix j assume "j < length (map (key_at (fl_nodes g1)) [?l..<?l + length ?cs])"
      then have j: "j < length ?cs" by simp
      have "Some (?ks ! j) \<in> fst ` set ?cs" using nth_mem [OF j] cs [OF j] by (metis imageI)
      moreover have "valid_utf8 (?ks ! j)"
        using utf True nth_mem [OF j] cs [OF j] by (auto simp: children_text_ok_def)
      ultimately have "valid_utf8 (?ks ! j)" "length (?ks ! j) \<le> OTEL_LOG_MAX_STRING_LEN"
        using within by (auto simp: keys_within_def)
      then show "map (key_at (fl_nodes g1)) [?l..<?l + length ?cs] ! j = map Inr ?ks ! j"
        using keys [OF j] cs [OF j] j by (simp add: key_at_def sv_as_str_sv_of limit_isize m)
    qed (simp add: m)
    moreover have "distinct ?ks" "sorted ?ks"
      using src(3) by (simp_all add: m(1) distinct_map)
    ultimately have "\<exists>ks. map (key_at (fl_nodes g1)) (kids (container_value cc (fl_nodes g))) = map Inr ks \<and> distinct ks \<and> sorted ks"
      by blast
    then show ?thesis using True by (simp add: exported_keys_ok_def container_value_def)
  next
    case False
    then have "fst (?cs ! k) = None" if "k < length ?cs" for k
      using utf nth_mem [OF that] by (simp add: children_text_ok_def)
    then have "nd_key (fl_nodes g1 ! i) = sv_empty" if "i \<in> set [?l..<?l + length ?cs]" for i
      using keys [of "i - ?l"] that by (simp add: less_diff_conv2)
    then show ?thesis using False kids by (simp add: exported_keys_ok_def container_value_def)
  qed
qed

lemma flatten_step_forest:
  assumes run: "flatten_step al (slot, src, depth) (g\<lparr>fl_queue := q\<rparr>) = Inr g1"
    and q: "fl_queue g = (slot, src, depth) # q" and ok: "queue_ok g" and f: "forest_so_far g"
  shows "forest_so_far g1"
proof -
  let ?l = "length (fl_nodes g)"
  note step = flatten_step_queue_ok [OF run q ok]
  have utf: "source_text_ok src" and apart: "slot \<notin> fst ` set q" and queued: "\<forall>e \<in> set q. slot_in g (fst e)"
    using ok q by (auto simp: queue_ok_def)
  have in0: "slot_in (g\<lparr>fl_queue := q\<rparr>) slot" using step(3) by simp
  have empty: "slot_value g slot = empty_value" "\<forall>e \<in> set q. slot_value g (fst e) = empty_value" and tree: "exported_forest g"
    and written: "\<And>i. i < ?l \<Longrightarrow> Slot_Node i \<noteq> slot \<Longrightarrow> Slot_Node i \<notin> fst ` set q \<Longrightarrow> value_ok (nd_value (fl_nodes g ! i))"
    using f q by (auto simp: forest_so_far_def)
  have node: "nd_value (fl_nodes h ! i) = slot_value h (Slot_Node i)" for h i by (simp add: slot_value_def)
  show ?thesis
    using run
  proof (cases rule: flatten_step_cases)
    case Scalar
    note w = slot_value_write [OF in0, of "scalar_of src"] keys_write(1) [OF in0, of "scalar_of src"]
    note v = scalar_sources [OF Scalar(1,2) utf]
    have "exported_forest g1"
    proof (rule forest_extend [OF tree step(3) empty(1), where n = 0])
      show "exported_keys_ok g1 (slot_value g1 slot)" using v w by (simp add: Scalar(3) exported_keys_scalar)
    qed (use v w in \<open>simp_all add: Scalar(3)\<close>)
    moreover have "\<forall>e \<in> set (fl_queue g1). slot_value g1 (fst e) = empty_value"
      using empty(2) apart w(1) by (auto simp: Scalar(3) image_iff)
    moreover have "Slot_Node i \<in> fst ` set (fl_queue g1) \<or> value_ok (nd_value (fl_nodes g1 ! i))" if "i < length (fl_nodes g1)" for i
      using that written [of i] v(1) w(1) [of "Slot_Node i"] unfolding node by (auto simp: Scalar(3))
    ultimately show ?thesis by (simp add: forest_so_far_def)
  next
    case (Container cc)
    let ?cs = "child_sources cc"
    note e = expand_facts [OF in0, where cc = cc and depth = depth]
    note room = container_kids [OF Container(4)]
    have "exported_forest g1"
    proof (rule forest_extend [OF tree step(3) empty(1), where n = "length ?cs"])
      show "exported_keys_ok g1 (slot_value g1 slot)"
        using container_keys_ok [OF Container(1,2) utf Container(4) _ Container(5), of g1] e(4,8) by (simp add: Container(7))
    qed (use e room in \<open>simp_all add: Container(7)\<close>)
    moreover have fl: "fl_queue g1 = q @ child_entries ?l depth ?cs" using e(3) by (simp add: Container(7))
    have "slot_value g1 (fst x) = empty_value" if x: "x \<in> set (fl_queue g1)" for x
    proof (cases "x \<in> set q")
      case True
      then have "slot_in g (fst x)" "fst x \<noteq> slot" using queued apart by auto
      then show ?thesis using e(5) [of "fst x"] empty(2) True by (simp add: Container(7))
    next
      case False
      then have "x \<in> (\<lambda>k. (Slot_Node (?l + k), snd (?cs ! k), depth + 1)) ` {..<length ?cs}"
        using x by (simp add: fl child_entries_nth atLeast0LessThan)
      then show ?thesis using e(6) by (auto simp: Container(7))
    qed
    moreover have "Slot_Node i \<in> fst ` set (fl_queue g1) \<or> value_ok (nd_value (fl_nodes g1 ! i))" if i: "i < length (fl_nodes g1)" for i
    proof (cases "i < ?l")
      case True
      show ?thesis
      proof (cases "Slot_Node i = slot")
        case True
        then show ?thesis using e(4) container_value_ok [OF Container(1,2,4)] unfolding node by (simp add: Container(7))
      next
        case False
        then show ?thesis
          using written [OF True False] e(5) [of "Slot_Node i"] True unfolding node fl by (auto simp: Container(7) slot_in_def)
      qed
    next
      case False
      then have "i - ?l < length ?cs" "i = ?l + (i - ?l)" using i e(1) by (auto simp: Container(7))
      then have "Slot_Node i \<in> fst ` (\<lambda>k. (Slot_Node (?l + k), snd (?cs ! k), depth + 1)) ` {..<length ?cs}"
        by (metis (no_types, lifting) fst_conv imageI lessThan_iff)
      then show ?thesis by (simp add: fl child_entries_nth atLeast0LessThan image_Un)
    qed
    ultimately show ?thesis by (simp add: forest_so_far_def)
  qed
qed

lemma flatten_loop_forest:
  "flatten_loop al g = Inr g' \<Longrightarrow> queue_ok g \<Longrightarrow> forest_so_far g \<Longrightarrow> forest_so_far g' \<and> fl_queue g' = []"
proof (induction al g rule: flatten_loop.induct)
  case (1 al g)
  show ?case
  proof (cases "fl_queue g")
    case Nil
    then show ?thesis using 1(2,4) by (simp add: flatten_loop.simps [of al g])
  next
    case (Cons e q)
    obtain slot src depth where e: "e = (slot, src, depth)" by (cases e)
    obtain g1 where g1: "flatten_step al (slot, src, depth) (g\<lparr>fl_queue := q\<rparr>) = Inr g1" "flatten_loop al g1 = Inr g'"
      using 1(2) Cons e by (auto simp: flatten_loop.simps [of al g] split: sum.splits)
    show ?thesis
      using 1(1) [OF Cons g1(1) [folded e] g1(2)] flatten_step_queue_ok(1) [OF g1(1) Cons [unfolded e] 1(3)]
        flatten_step_forest [OF g1(1) Cons [unfolded e] 1(3,4)] by blast
  qed
qed

text \<open>
  C11: The pool of an exported owner keeps what the header file promises of it. After \<open>flatten\<close>, every node has
  exactly one owner (the body, an attribute or a node before it), so there are neither cycles nor shared or orphaned
  nodes; the elements of an array have empty keys; the keys of a map are distinct and ascend; every node holds a value
  of a known type within its limits.
\<close>

theorem flattened_pool_is_forest:
  assumes "flatten al bd attributes = Inr g" and "text_ok bd attributes"
  shows "exported_forest g \<and> (\<forall>v \<in> set (fl_nodes g). value_ok (nd_value v))"
proof -
  obtain g0 where g0: "started bd attributes g0" "flatten_loop al g0 = Inr g" by (rule flatten_started [OF assms(1)])
  have nodes: "fl_nodes g0 = []" and bd0: "fg_body g0 = empty_value"
    and vals: "map nd_value (fg_attributes g0) = replicate (length attributes) empty_value"
    using g0(1) by (simp_all add: started_def)
  have v: "slot_value g0 s = empty_value" if "slot_in g0 s" for s
  proof (cases s)
    case (Slot_Attribute i)
    then have "i < length (fg_attributes g0)" using that by (simp add: slot_in_def)
    then have "nd_value (fg_attributes g0 ! i) = replicate (length attributes) empty_value ! i"
      unfolding vals [symmetric] by simp
    moreover have "length (fg_attributes g0) = length attributes" using vals by (metis length_map length_replicate)
    ultimately show ?thesis using Slot_Attribute \<open>i < length (fg_attributes g0)\<close> by (simp add: slot_value_def)
  qed (use that nodes bd0 in \<open>simp_all add: slot_value_def slot_in_def\<close>)
  have "queue_ok g0" by (rule started_queue_ok [OF g0(1) assms(2)])
  moreover have "forest_so_far g0"
    using v nodes calculation
    by (auto simp: forest_so_far_def exported_forest_def slot_ok_def exported_keys_scalar written_not_container queue_ok_def)
  ultimately show ?thesis
    using flatten_loop_forest [OF g0(2)] by (auto simp: forest_so_far_def all_set_conv_all_nth)
qed

theorem flattened_pool_is_forest_witness:
  "\<exists>g. flatten (\<lambda>_. True) (Some sample_owner_body) sample_owner_attributes = Inr g \<and> exported_forest g"
proof -
  obtain g where g: "flatten (\<lambda>_. True) (Some sample_owner_body) sample_owner_attributes = Inr g"
    using flatten_complete [OF _ sample_owner_limits, of "\<lambda>_. True"] by blast
  then show ?thesis using flattened_pool_is_forest [OF g sample_owner_text_ok] by blast
qed

end
