(* ===== verification/Log_Export.thy ===== *)
theory Log_Export
  imports Log_Forest Log_Records
begin

text \<open>
  The view of an exported batch of log records (\<open>sdk/src/log_export_view.rs\<close>): records, scopes and the resource
  are laid out in a storage, scopes once per address, and only then linked by pointers. A pointer into the
  storage is the buffer that it addresses. A batch is a list of records, each with the address of its
  scope; \<open>scope_at\<close> is what the addresses hold. Reading the view as a C exporter reads it gives the batch back.
\<close>

section \<open>Records and views\<close>

text \<open>What the accessors of the crate's record return; a \<open>SystemTime\<close> is its nanoseconds since the epoch.\<close>

record exported_log =
  xl_timestamp :: "int option"
  xl_observed_timestamp :: "int option"
  xl_severity_text :: "bytes option"
  xl_severity_number :: "severity option"
  xl_event_name :: "bytes option"
  xl_target :: "bytes option"
  xl_body :: "any_value option"
  xl_trace_context :: "(bytes \<times> bytes \<times> u8 option) option"
  xl_attributes :: "(bytes \<times> any_value) list"

record exported_scope =
  xs_name :: bytes
  xs_version :: "bytes option"
  xs_schema_url :: "bytes option"
  xs_attributes :: "(bytes \<times> attribute_value) list"

record exported_resource =
  xo_schema_url :: "bytes option"
  xo_attributes :: "(bytes \<times> attribute_value) list"

definition OTEL_LOG_EXPORT_FIELD_TIMESTAMP :: u64 where "OTEL_LOG_EXPORT_FIELD_TIMESTAMP = 1"
definition OTEL_LOG_EXPORT_FIELD_OBSERVED_TIMESTAMP :: u64 where "OTEL_LOG_EXPORT_FIELD_OBSERVED_TIMESTAMP = 2"
definition OTEL_LOG_EXPORT_FIELD_TRACE_CONTEXT :: u64 where "OTEL_LOG_EXPORT_FIELD_TRACE_CONTEXT = 4"
definition OTEL_LOG_EXPORT_FIELD_SEVERITY_TEXT :: u64 where "OTEL_LOG_EXPORT_FIELD_SEVERITY_TEXT = 8"
definition OTEL_LOG_EXPORT_FIELD_EVENT_NAME :: u64 where "OTEL_LOG_EXPORT_FIELD_EVENT_NAME = 16"
definition OTEL_LOG_EXPORT_FIELD_TARGET :: u64 where "OTEL_LOG_EXPORT_FIELD_TARGET = 32"
definition OTEL_LOG_EXPORT_FIELD_BODY :: u64 where "OTEL_LOG_EXPORT_FIELD_BODY = 64"

definition OTEL_LOG_EXPORT_MAX_RECORDS :: nat where "OTEL_LOG_EXPORT_MAX_RECORDS = 65536"

datatype export_buffer =
    EB_Records
  | EB_Scope nat
  | EB_ResourceAttributes
  | EB_ResourceNodes
  | EB_ScopeAttributes nat
  | EB_ScopeNodes nat
  | EB_RecordAttributes nat
  | EB_RecordNodes nat

record export_scope_view =
  sw_struct_size :: u64
  sw_name :: otel_string_view
  sw_version :: otel_string_view
  sw_schema_url :: otel_string_view
  sw_attributes :: "export_buffer option"
  sw_attribute_count :: usize
  sw_value_nodes :: "export_buffer option"
  sw_value_node_count :: usize
  sw_reserved :: "u64 list"

record export_record_view =
  rw_struct_size :: u64
  rw_present_fields :: u64
  rw_timestamp_unix_nanos :: u64
  rw_observed_timestamp_unix_nanos :: u64
  rw_severity_number :: u32
  rw_reserved_flags :: u32
  rw_severity_text :: otel_string_view
  rw_event_name :: otel_string_view
  rw_target :: otel_string_view
  rw_body :: otel_log_value
  rw_attributes :: "export_buffer option"
  rw_attribute_count :: usize
  rw_value_nodes :: "export_buffer option"
  rw_value_node_count :: usize
  rw_trace_context :: otel_log_trace_context
  rw_scope :: "export_buffer option"
  rw_reserved :: "u64 list"

record export_batch_view =
  bw_struct_size :: u64
  bw_records :: "export_buffer option"
  bw_record_count :: usize
  bw_resource_schema_url :: otel_string_view
  bw_resource_attributes :: "export_buffer option"
  bw_resource_attribute_count :: usize
  bw_resource_value_nodes :: "export_buffer option"
  bw_resource_value_node_count :: usize
  bw_reserved :: "u64 list"

record export_view_storage =
  ev_resource_attributes :: "otel_log_value_node list"
  ev_resource_nodes :: "otel_log_value_node list"
  ev_scope_attributes :: "otel_log_value_node list list"
  ev_scope_nodes :: "otel_log_value_node list list"
  ev_record_attributes :: "otel_log_value_node list list"
  ev_record_nodes :: "otel_log_value_node list list"
  ev_scopes :: "export_scope_view list"
  ev_records :: "export_record_view list"
  ev_batch :: export_batch_view

section \<open>Conversion\<close>

definition timestamp_nanos :: "int \<Rightarrow> string \<Rightarrow> abi_error + u64" where
  "timestamp_nanos t what =
     (if t < 0 then Inl (conversion_error (''exported log '' @ what @ '' predates the Unix epoch''))
      else if 2 ^ 64 \<le> t then Inl (conversion_error (''exported log '' @ what @ '' exceeds the u64 range''))
      else Inr (word_of_int t))"

fun severity_number :: "severity \<Rightarrow> u32" where
  "severity_number Sev_Trace = 1" | "severity_number Sev_Trace2 = 2" | "severity_number Sev_Trace3 = 3"
| "severity_number Sev_Trace4 = 4" | "severity_number Sev_Debug = 5" | "severity_number Sev_Debug2 = 6"
| "severity_number Sev_Debug3 = 7" | "severity_number Sev_Debug4 = 8" | "severity_number Sev_Info = 9"
| "severity_number Sev_Info2 = 10" | "severity_number Sev_Info3 = 11" | "severity_number Sev_Info4 = 12"
| "severity_number Sev_Warn = 13" | "severity_number Sev_Warn2 = 14" | "severity_number Sev_Warn3 = 15"
| "severity_number Sev_Warn4 = 16" | "severity_number Sev_Error = 17" | "severity_number Sev_Error2 = 18"
| "severity_number Sev_Error3 = 19" | "severity_number Sev_Error4 = 20" | "severity_number Sev_Fatal = 21"
| "severity_number Sev_Fatal2 = 22" | "severity_number Sev_Fatal3 = 23" | "severity_number Sev_Fatal4 = 24"

definition optional_nanos :: "int option \<Rightarrow> string \<Rightarrow> abi_error + u64" where
  "optional_nanos t what = (case t of None \<Rightarrow> Inr 0 | Some v \<Rightarrow> timestamp_nanos v what)"

definition present_bit :: "'a option \<Rightarrow> u64 \<Rightarrow> u64" where
  "present_bit x b = (if x = None then 0 else b)"

definition exported_trace :: "(bytes \<times> bytes \<times> u8 option) option \<Rightarrow> otel_log_trace_context" where
  "exported_trace t =
     (case t of
        None \<Rightarrow> \<lparr>ltc_trace_id = replicate 16 0, ltc_span_id = replicate 8 0, ltc_trace_flags = 0, ltc_reserved = replicate 7 0\<rparr>
      | Some (trace_id, span_id, flags) \<Rightarrow>
          \<lparr>ltc_trace_id = trace_id, ltc_span_id = span_id, ltc_trace_flags = case_option 0 id flags,
           ltc_reserved = replicate 7 0\<rparr>)"

record converted_record =
  cr_view :: export_record_view
  cr_scope_index :: nat
  cr_attributes :: "otel_log_value_node list"
  cr_nodes :: "otel_log_value_node list"

definition export_record :: "(nat \<Rightarrow> bool) \<Rightarrow> exported_log \<Rightarrow> nat \<Rightarrow> abi_error + converted_record" where
  "export_record al r scope_index =
     sum_bind (optional_nanos (xl_timestamp r) ''timestamp'') (\<lambda>time.
     sum_bind (optional_nanos (xl_observed_timestamp r) ''observed timestamp'') (\<lambda>observed.
     sum_bind (export_optional_string_view (xl_severity_text r)) (\<lambda>severity_text.
     sum_bind (export_optional_string_view (xl_event_name r)) (\<lambda>event_name.
     sum_bind (export_optional_string_view (xl_target r)) (\<lambda>target.
       if \<not> al (length (xl_attributes r)) then
         Inl (conversion_error ''failed to allocate the exported log record attribute list'')
       else
         sum_bind (flatten al (xl_body r) (map (\<lambda>(k, v). (k, Src_Any v)) (xl_attributes r))) (\<lambda>g.
           Inr \<lparr>cr_view =
                  \<lparr>rw_struct_size = 216,
                   rw_present_fields =
                     present_bit (xl_timestamp r) OTEL_LOG_EXPORT_FIELD_TIMESTAMP OR
                     present_bit (xl_observed_timestamp r) OTEL_LOG_EXPORT_FIELD_OBSERVED_TIMESTAMP OR
                     present_bit (xl_severity_text r) OTEL_LOG_EXPORT_FIELD_SEVERITY_TEXT OR
                     present_bit (xl_event_name r) OTEL_LOG_EXPORT_FIELD_EVENT_NAME OR
                     present_bit (xl_target r) OTEL_LOG_EXPORT_FIELD_TARGET OR
                     present_bit (xl_body r) OTEL_LOG_EXPORT_FIELD_BODY OR
                     present_bit (xl_trace_context r) OTEL_LOG_EXPORT_FIELD_TRACE_CONTEXT,
                   rw_timestamp_unix_nanos = time,
                   rw_observed_timestamp_unix_nanos = observed,
                   rw_severity_number = case_option 0 severity_number (xl_severity_number r),
                   rw_reserved_flags = 0,
                   rw_severity_text = severity_text,
                   rw_event_name = event_name,
                   rw_target = target,
                   rw_body = fg_body g,
                   rw_attributes = None,
                   rw_attribute_count = word_of_nat (length (fg_attributes g)),
                   rw_value_nodes = None,
                   rw_value_node_count = word_of_nat (length (fl_nodes g)),
                   rw_trace_context = exported_trace (xl_trace_context r),
                   rw_scope = None,
                   rw_reserved = replicate 4 0\<rparr>,
                cr_scope_index = scope_index,
                cr_attributes = fg_attributes g,
                cr_nodes = fl_nodes g\<rparr>))))))"

record converted_scope =
  cs_view :: export_scope_view
  cs_attributes :: "otel_log_value_node list"
  cs_nodes :: "otel_log_value_node list"

definition export_scope :: "(nat \<Rightarrow> bool) \<Rightarrow> exported_scope \<Rightarrow> abi_error + converted_scope" where
  "export_scope al s =
     (if \<not> al (length (xs_attributes s)) then
        Inl (conversion_error ''failed to allocate the exported log scope attribute list'')
      else
        sum_bind (flatten al None (map (\<lambda>(k, v). (k, Src_Attribute v)) (xs_attributes s))) (\<lambda>g.
        sum_bind (export_string_view (xs_name s)) (\<lambda>name.
        sum_bind (export_optional_string_view (xs_version s)) (\<lambda>version.
        sum_bind (export_optional_string_view (xs_schema_url s)) (\<lambda>schema_url.
          Inr \<lparr>cs_view =
                 \<lparr>sw_struct_size = 104, sw_name = name, sw_version = version, sw_schema_url = schema_url,
                  sw_attributes = None, sw_attribute_count = word_of_nat (length (fg_attributes g)),
                  sw_value_nodes = None, sw_value_node_count = word_of_nat (length (fl_nodes g)),
                  sw_reserved = replicate 2 0\<rparr>,
               cs_attributes = fg_attributes g,
               cs_nodes = fl_nodes g\<rparr>)))))"

definition try_push :: "(nat \<Rightarrow> bool) \<Rightarrow> 'a list \<Rightarrow> 'a \<Rightarrow> string \<Rightarrow> abi_error + 'a list" where
  "try_push al xs x what =
     (if al 1 then Inr (xs @ [x]) else Inl (conversion_error (''failed to allocate an exported log '' @ what)))"

text \<open>The vectors that the loop over the batch fills.\<close>

record batch_progress =
  bp_scopes :: "export_scope_view list"
  bp_scope_attributes :: "otel_log_value_node list list"
  bp_scope_nodes :: "otel_log_value_node list list"
  bp_scope_keys :: "nat list"
  bp_records :: "export_record_view list"
  bp_record_scopes :: "nat list"
  bp_record_attributes :: "otel_log_value_node list list"
  bp_record_nodes :: "otel_log_value_node list list"
  bp_record_count :: nat

definition batch_start :: batch_progress where
  "batch_start =
     \<lparr>bp_scopes = [], bp_scope_attributes = [], bp_scope_nodes = [], bp_scope_keys = [], bp_records = [],
      bp_record_scopes = [], bp_record_attributes = [], bp_record_nodes = [], bp_record_count = 0\<rparr>"

fun key_position :: "nat list \<Rightarrow> nat \<Rightarrow> nat option" where
  "key_position [] key = None"
| "key_position (k # ks) key = (if k = key then Some 0 else map_option Suc (key_position ks key))"

definition scope_index ::
  "(nat \<Rightarrow> bool) \<Rightarrow> (nat \<Rightarrow> exported_scope) \<Rightarrow> nat \<Rightarrow> batch_progress \<Rightarrow> abi_error + nat \<times> batch_progress" where
  "scope_index al scope_at key p =
     (case key_position (bp_scope_keys p) key of
        Some i \<Rightarrow> Inr (i, p)
      | None \<Rightarrow>
          sum_bind (export_scope al (scope_at key)) (\<lambda>c.
          sum_bind (try_push al (bp_scopes p) (cs_view c) ''scope view'') (\<lambda>scopes.
          sum_bind (try_push al (bp_scope_keys p) key ''scope key'') (\<lambda>keys.
          sum_bind (try_push al (bp_scope_attributes p) (cs_attributes c) ''scope attribute array'') (\<lambda>attributes.
          sum_bind (try_push al (bp_scope_nodes p) (cs_nodes c) ''scope node pool'') (\<lambda>nodes.
            Inr (length scopes - 1,
              p\<lparr>bp_scopes := scopes, bp_scope_keys := keys, bp_scope_attributes := attributes, bp_scope_nodes := nodes\<rparr>)))))))"

definition batch_step ::
  "(nat \<Rightarrow> bool) \<Rightarrow> (nat \<Rightarrow> exported_scope) \<Rightarrow> exported_log \<times> nat \<Rightarrow> batch_progress \<Rightarrow> abi_error + batch_progress" where
  "batch_step al scope_at item p =
     (let n = Suc (bp_record_count p) in
      if 2 ^ 64 \<le> n then Inl (conversion_error ''exported log batch record count overflowed the address space'')
      else if OTEL_LOG_EXPORT_MAX_RECORDS < n then
        Inl (conversion_error (''exported log batch carries more than '' @ decimal OTEL_LOG_EXPORT_MAX_RECORDS @ '' records''))
      else
        sum_bind (scope_index al scope_at (snd item) (p\<lparr>bp_record_count := n\<rparr>)) (\<lambda>(i, p1).
        sum_bind (export_record al (fst item) i) (\<lambda>c.
        sum_bind (try_push al (bp_record_scopes p1) (cr_scope_index c) ''record scope index'') (\<lambda>record_scopes.
        sum_bind (try_push al (bp_records p1) (cr_view c) ''record view'') (\<lambda>records.
        sum_bind (try_push al (bp_record_attributes p1) (cr_attributes c) ''record attribute array'') (\<lambda>attributes.
        sum_bind (try_push al (bp_record_nodes p1) (cr_nodes c) ''record node pool'') (\<lambda>nodes.
          Inr (p1\<lparr>bp_record_scopes := record_scopes, bp_records := records, bp_record_attributes := attributes,
                bp_record_nodes := nodes\<rparr>))))))))"

fun batch_loop ::
  "(nat \<Rightarrow> bool) \<Rightarrow> (nat \<Rightarrow> exported_scope) \<Rightarrow> (exported_log \<times> nat) list \<Rightarrow> batch_progress \<Rightarrow> abi_error + batch_progress" where
  "batch_loop al scope_at [] p = Inr p"
| "batch_loop al scope_at (item # items) p = sum_bind (batch_step al scope_at item p) (batch_loop al scope_at items)"

text \<open>The pointers are taken when every vector has its final length.\<close>

definition link_scope :: "nat \<Rightarrow> export_scope_view \<Rightarrow> export_scope_view" where
  "link_scope i s = s\<lparr>sw_attributes := Some (EB_ScopeAttributes i), sw_value_nodes := Some (EB_ScopeNodes i)\<rparr>"

definition link_record :: "nat \<Rightarrow> nat \<Rightarrow> export_record_view \<Rightarrow> export_record_view" where
  "link_record i scope r =
     r\<lparr>rw_attributes := Some (EB_RecordAttributes i), rw_value_nodes := Some (EB_RecordNodes i), rw_scope := Some (EB_Scope scope)\<rparr>"

definition convert_batch ::
  "(nat \<Rightarrow> bool) \<Rightarrow> (nat \<Rightarrow> exported_scope) \<Rightarrow> (exported_log \<times> nat) list \<Rightarrow> exported_resource
     \<Rightarrow> abi_error + export_view_storage" where
  "convert_batch al scope_at batch resource =
     (if \<not> al (length (xo_attributes resource)) then
        Inl (conversion_error ''failed to allocate the exported log resource attribute list'')
      else
        sum_bind (flatten al None (map (\<lambda>(k, v). (k, Src_Attribute v)) (xo_attributes resource))) (\<lambda>g.
        sum_bind (batch_loop al scope_at batch batch_start) (\<lambda>p.
        sum_bind (export_optional_string_view (xo_schema_url resource)) (\<lambda>schema_url.
          let scopes = map (\<lambda>(i, s). link_scope i s) (enumerate 0 (bp_scopes p));
              records = map (\<lambda>(i, r). link_record i (bp_record_scopes p ! i) r) (enumerate 0 (bp_records p)) in
          Inr \<lparr>ev_resource_attributes = fg_attributes g,
               ev_resource_nodes = fl_nodes g,
               ev_scope_attributes = bp_scope_attributes p,
               ev_scope_nodes = bp_scope_nodes p,
               ev_record_attributes = bp_record_attributes p,
               ev_record_nodes = bp_record_nodes p,
               ev_scopes = scopes,
               ev_records = records,
               ev_batch =
                 \<lparr>bw_struct_size = 104,
                  bw_records = Some EB_Records,
                  bw_record_count = word_of_nat (length records),
                  bw_resource_schema_url = schema_url,
                  bw_resource_attributes = Some EB_ResourceAttributes,
                  bw_resource_attribute_count = word_of_nat (length (fg_attributes g)),
                  bw_resource_value_nodes = Some EB_ResourceNodes,
                  bw_resource_value_node_count = word_of_nat (length (fl_nodes g)),
                  bw_reserved = replicate 4 0\<rparr>\<rparr>))))"

section \<open>Reading a view\<close>

definition view_text :: "otel_string_view \<Rightarrow> bytes" where
  "view_text v = projr (sv_as_str v)"

definition read_pairs :: "otel_log_value_node list \<Rightarrow> otel_log_value_node list \<Rightarrow> (bytes \<times> any_value) list" where
  "read_pairs nodes attributes = map (\<lambda>a. (view_text (nd_key a), value_tree nodes 0 (nd_value a))) attributes"

definition read_present :: "export_record_view \<Rightarrow> u64 \<Rightarrow> 'a \<Rightarrow> 'a option" where
  "read_present view flag x = (if rw_present_fields view AND flag \<noteq> 0 then Some x else None)"

text \<open>The record that a C exporter reads, with the pool and the attributes behind the view's pointers.\<close>

definition read_record ::
  "otel_log_value_node list \<Rightarrow> otel_log_value_node list \<Rightarrow> export_record_view \<Rightarrow> exported_log" where
  "read_record nodes attributes view =
     \<lparr>xl_timestamp = read_present view OTEL_LOG_EXPORT_FIELD_TIMESTAMP (uint (rw_timestamp_unix_nanos view)),
      xl_observed_timestamp =
        read_present view OTEL_LOG_EXPORT_FIELD_OBSERVED_TIMESTAMP (uint (rw_observed_timestamp_unix_nanos view)),
      xl_severity_text = read_present view OTEL_LOG_EXPORT_FIELD_SEVERITY_TEXT (view_text (rw_severity_text view)),
      xl_severity_number = severity_from_u32 (rw_severity_number view),
      xl_event_name = read_present view OTEL_LOG_EXPORT_FIELD_EVENT_NAME (view_text (rw_event_name view)),
      xl_target = read_present view OTEL_LOG_EXPORT_FIELD_TARGET (view_text (rw_target view)),
      xl_body = read_present view OTEL_LOG_EXPORT_FIELD_BODY (value_tree nodes 0 (rw_body view)),
      xl_trace_context = read_present view OTEL_LOG_EXPORT_FIELD_TRACE_CONTEXT
        (ltc_trace_id (rw_trace_context view), ltc_span_id (rw_trace_context view), Some (ltc_trace_flags (rw_trace_context view))),
      xl_attributes = read_pairs nodes attributes\<rparr>"

text \<open>What may be read of a record: maps in key order, and trace flags that are always there.\<close>

definition canonical_log :: "exported_log \<Rightarrow> exported_log" where
  "canonical_log r =
     r\<lparr>xl_body := map_option canonical (xl_body r),
       xl_trace_context := map_option (\<lambda>(t, s, f). (t, s, Some (case_option 0 id f))) (xl_trace_context r),
       xl_attributes := map (\<lambda>(k, v). (k, canonical v)) (xl_attributes r)\<rparr>"

definition log_text_ok :: "exported_log \<Rightarrow> bool" where
  "log_text_ok r \<longleftrightarrow> (\<forall>s \<in> set_option (xl_severity_text r) \<union> set_option (xl_event_name r) \<union> set_option (xl_target r). valid_utf8 s) \<and>
     (\<forall>a \<in> set (xl_attributes r). valid_utf8 (fst a) \<and> any_text_ok (snd a)) \<and> (\<forall>v \<in> set_option (xl_body r). any_text_ok v)"

definition scope_text_ok :: "exported_scope \<Rightarrow> bool" where
  "scope_text_ok s \<longleftrightarrow> valid_utf8 (xs_name s) \<and>
     (\<forall>t \<in> set_option (xs_version s) \<union> set_option (xs_schema_url s). valid_utf8 t) \<and>
     (\<forall>a \<in> set (xs_attributes s). valid_utf8 (fst a) \<and> source_text_ok (Src_Attribute (snd a)))"

definition read_scope ::
  "otel_log_value_node list \<Rightarrow> otel_log_value_node list \<Rightarrow> export_scope_view
     \<Rightarrow> bytes \<times> bytes \<times> bytes \<times> (bytes \<times> any_value) list" where
  "read_scope nodes attributes view =
     (view_text (sw_name view), view_text (sw_version view), view_text (sw_schema_url view), read_pairs nodes attributes)"

definition scope_meaning :: "exported_scope \<Rightarrow> bytes \<times> bytes \<times> bytes \<times> (bytes \<times> any_value) list" where
  "scope_meaning s =
     (xs_name s, case_option [] id (xs_version s), case_option [] id (xs_schema_url s),
      map (\<lambda>(k, v). (k, meaning (Src_Attribute v))) (xs_attributes s))"

lemma severity_number_inverse: "severity_from_u32 (case_option 0 severity_number s) = s"
proof (cases s)
  case (Some x)
  then show ?thesis by (cases x) (simp_all add: severity_from_u32_def)
qed (simp add: severity_from_u32_def)

lemma view_text_string:
  assumes "export_string_view t = Inr v" and "valid_utf8 t"
  shows "view_text v = t"
  using assms by (simp add: export_string_view_Inr view_text_def sv_as_str_sv_of limit_isize)

lemma view_text_empty [simp]: "view_text sv_empty = []"
  by code_simp

lemma view_text_optional:
  assumes "export_optional_string_view t = Inr v" and "\<forall>s \<in> set_option t. valid_utf8 s"
  shows "view_text v = case_option [] id t"
  using assms view_text_string by (cases t) (auto simp: export_optional_string_view_def)

lemma optional_nanos_Inr: "optional_nanos t what = Inr n \<Longrightarrow> t = Some x \<Longrightarrow> uint n = x"
  by (auto simp: optional_nanos_def timestamp_nanos_def uint_word_of_int take_bit_int_eq_self split: if_splits)

lemma flatten_loop_room:
  "flatten_loop al g = Inr g' \<Longrightarrow> length (fl_nodes g) \<le> OTEL_LOG_MAX_VALUE_NODES \<Longrightarrow> length (fl_nodes g') \<le> OTEL_LOG_MAX_VALUE_NODES"
proof (induction al g rule: flatten_loop.induct)
  case (1 al g)
  show ?case
  proof (cases "fl_queue g")
    case (Cons e q)
    then obtain g1 where "flatten_step al e (g\<lparr>fl_queue := q\<rparr>) = Inr g1" "flatten_loop al g1 = Inr g'"
      using 1(2) by (auto simp: flatten_loop.simps [of al g] split: sum.splits)
    then show ?thesis using 1(1) [OF Cons] flatten_step_room(1) 1(3) by blast
  qed (use 1 in \<open>simp add: flatten_loop.simps [of al g]\<close>)
qed

text \<open>What an owner's views read.\<close>

lemma flatten_read_pairs:
  assumes run: "flatten al bd as = Inr g" and utf: "text_ok bd as" "\<forall>a \<in> set as. valid_utf8 (fst a)"
  shows "read_pairs (fl_nodes g) (fg_attributes g) = map (\<lambda>a. (fst a, meaning (snd a))) as"
    "bd = Some v \<Longrightarrow> value_tree (fl_nodes g) 0 (fg_body g) = canonical v"
    "unat (word_of_nat (length (fg_attributes g)) :: usize) = length (fg_attributes g)"
    "unat (word_of_nat (length (fl_nodes g)) :: usize) = length (fl_nodes g)"
proof -
  obtain g0 where g0: "started bd as g0" "flatten_loop al g0 = Inr g" "length as \<le> OTEL_LOG_MAX_ATTRIBUTES"
      "\<forall>a \<in> set as. length (fst a) \<le> OTEL_LOG_MAX_STRING_LEN"
    by (rule flatten_started [OF run])
  have r: "reads_as g bd as" by (rule flatten_reads [OF run utf(1)])
  then have pairs: "map (\<lambda>a. (nd_key a, value_tree (fl_nodes g) 0 (nd_value a))) (fg_attributes g) = map (\<lambda>a. (sv_of (fst a), meaning (snd a))) as"
    by (simp add: reads_as_def read_attributes_def)
  have "read_pairs (fl_nodes g) (fg_attributes g) =
      map (\<lambda>(k, v). (view_text k, v)) (map (\<lambda>a. (nd_key a, value_tree (fl_nodes g) 0 (nd_value a))) (fg_attributes g))"
    by (simp add: read_pairs_def)
  also have "\<dots> = map (\<lambda>a. (view_text (sv_of (fst a)), meaning (snd a))) as" unfolding pairs by simp
  also have "\<dots> = map (\<lambda>a. (fst a, meaning (snd a))) as"
    using utf(2) g0(4) by (simp add: view_text_def sv_as_str_sv_of limit_isize)
  finally show "read_pairs (fl_nodes g) (fg_attributes g) = map (\<lambda>a. (fst a, meaning (snd a))) as" .
  show "value_tree (fl_nodes g) 0 (fg_body g) = canonical v" if "bd = Some v"
    using r that by (simp add: reads_as_def)
  have "length (fg_attributes g) = length as" using arg_cong [OF pairs, of length] by simp
  then show "unat (word_of_nat (length (fg_attributes g)) :: usize) = length (fg_attributes g)"
    using g0(3) by (simp add: unat_word_of_nat64 OTEL_LOG_MAX_ATTRIBUTES_def)
  have "fl_nodes g0 = []" using g0(1) by (simp add: started_def)
  then have "length (fl_nodes g) \<le> OTEL_LOG_MAX_VALUE_NODES" using flatten_loop_room [OF g0(2)] by simp
  then show "unat (word_of_nat (length (fl_nodes g)) :: usize) = length (fl_nodes g)"
    by (simp add: unat_word_of_nat64 OTEL_LOG_MAX_VALUE_NODES_def)
qed

lemma present_bit_and: "present_bit x b AND f = present_bit x (b AND f)" "present_bit x 0 = 0" "present_bit x b = 0 \<longleftrightarrow> x = None \<or> b = 0"
  by (auto simp: present_bit_def)

lemmas export_fields =
  OTEL_LOG_EXPORT_FIELD_TIMESTAMP_def OTEL_LOG_EXPORT_FIELD_OBSERVED_TIMESTAMP_def OTEL_LOG_EXPORT_FIELD_TRACE_CONTEXT_def
  OTEL_LOG_EXPORT_FIELD_SEVERITY_TEXT_def OTEL_LOG_EXPORT_FIELD_EVENT_NAME_def OTEL_LOG_EXPORT_FIELD_TARGET_def
  OTEL_LOG_EXPORT_FIELD_BODY_def

lemma export_record_reads:
  assumes run: "export_record al r i = Inr c" and utf: "log_text_ok r"
  shows "read_record (cr_nodes c) (cr_attributes c) (cr_view c) = canonical_log r" "cr_scope_index c = i"
    "unat (rw_attribute_count (cr_view c)) = length (cr_attributes c)" "unat (rw_value_node_count (cr_view c)) = length (cr_nodes c)"
proof -
  obtain time observed severity_text event_name target g where
    parts: "optional_nanos (xl_timestamp r) ''timestamp'' = Inr time"
      "optional_nanos (xl_observed_timestamp r) ''observed timestamp'' = Inr observed"
      "export_optional_string_view (xl_severity_text r) = Inr severity_text"
      "export_optional_string_view (xl_event_name r) = Inr event_name"
      "export_optional_string_view (xl_target r) = Inr target"
    and g: "flatten al (xl_body r) (map (\<lambda>(k, v). (k, Src_Any v)) (xl_attributes r)) = Inr g"
    using run by (auto simp: export_record_def sum_bind_Inr_iff split: if_splits)
  note c = run [unfolded export_record_def parts g sum_bind_simps]
  let ?as = "map (\<lambda>(k, v). (k, Src_Any v)) (xl_attributes r)"
  have t: "text_ok (xl_body r) ?as" "\<forall>a \<in> set ?as. valid_utf8 (fst a)"
    using utf by (auto simp: log_text_ok_def text_ok_def)
  note o = flatten_read_pairs [OF g t]
  have texts: "view_text severity_text = case_option [] id (xl_severity_text r)"
    "view_text event_name = case_option [] id (xl_event_name r)" "view_text target = case_option [] id (xl_target r)"
    using view_text_optional [OF parts(3)] view_text_optional [OF parts(4)] view_text_optional [OF parts(5)] utf
    by (simp_all add: log_text_ok_def)
  have pairs: "read_pairs (fl_nodes g) (fg_attributes g) = map (\<lambda>(k, v). (k, canonical v)) (xl_attributes r)"
    unfolding o(1) by (simp add: split_beta)
  have times: "xl_timestamp r = map_option (\<lambda>_. uint time) (xl_timestamp r)"
    "xl_observed_timestamp r = map_option (\<lambda>_. uint observed) (xl_observed_timestamp r)"
    using optional_nanos_Inr [OF parts(1)] optional_nanos_Inr [OF parts(2)]
    by (cases "xl_timestamp r"; cases "xl_observed_timestamp r"; simp)+
  show "cr_scope_index c = i" "unat (rw_attribute_count (cr_view c)) = length (cr_attributes c)"
    "unat (rw_value_node_count (cr_view c)) = length (cr_nodes c)"
    using c o(3,4) by (auto split: if_splits)
  have nodes: "cr_nodes c = fl_nodes g" "cr_attributes c = fg_attributes g" and body: "rw_body (cr_view c) = fg_body g"
    and v: "rw_present_fields (cr_view c) =
      (present_bit (xl_timestamp r) 1 OR present_bit (xl_observed_timestamp r) 2 OR present_bit (xl_severity_text r) 8 OR
       present_bit (xl_event_name r) 16 OR present_bit (xl_target r) 32 OR present_bit (xl_body r) 64 OR
       present_bit (xl_trace_context r) 4)"
      "rw_timestamp_unix_nanos (cr_view c) = time" "rw_observed_timestamp_unix_nanos (cr_view c) = observed"
      "rw_severity_number (cr_view c) = case_option 0 severity_number (xl_severity_number r)"
      "rw_severity_text (cr_view c) = severity_text" "rw_event_name (cr_view c) = event_name" "rw_target (cr_view c) = target"
      "rw_trace_context (cr_view c) = exported_trace (xl_trace_context r)"
    using c by (auto simp: export_fields split: if_splits)
  have f: "read_present (cr_view c) OTEL_LOG_EXPORT_FIELD_TIMESTAMP x = (if xl_timestamp r = None then None else Some x)"
    "read_present (cr_view c) OTEL_LOG_EXPORT_FIELD_OBSERVED_TIMESTAMP x = (if xl_observed_timestamp r = None then None else Some x)"
    "read_present (cr_view c) OTEL_LOG_EXPORT_FIELD_SEVERITY_TEXT y = (if xl_severity_text r = None then None else Some y)"
    "read_present (cr_view c) OTEL_LOG_EXPORT_FIELD_EVENT_NAME y = (if xl_event_name r = None then None else Some y)"
    "read_present (cr_view c) OTEL_LOG_EXPORT_FIELD_TARGET y = (if xl_target r = None then None else Some y)"
    "read_present (cr_view c) OTEL_LOG_EXPORT_FIELD_BODY z = (if xl_body r = None then None else Some z)"
    "read_present (cr_view c) OTEL_LOG_EXPORT_FIELD_TRACE_CONTEXT w = (if xl_trace_context r = None then None else Some w)"
    for x y z w
    by (simp_all add: read_present_def v(1) export_fields bit.conj_disj_distrib2 present_bit_and)
  have bd: "(if xl_body r = None then None else Some (value_tree (fl_nodes g) 0 (fg_body g))) = map_option canonical (xl_body r)"
    using o(2) by (cases "xl_body r") simp_all
  have opt: "(if x = None then None else Some (case_option [] id x)) = x" for x :: "bytes option" by (cases x) simp_all
  have tm: "(if x = None then None else Some n) = x" if "x = map_option (\<lambda>_. n) x" for x :: "int option" and n
    using that by (cases x) simp_all
  have tr: "(if x = None then None else Some (ltc_trace_id (exported_trace x), ltc_span_id (exported_trace x),
      Some (ltc_trace_flags (exported_trace x)))) = map_option (\<lambda>(t, s, f). (t, s, Some (case_option 0 id f))) x" for x
    by (cases x) (auto simp: exported_trace_def)
  show "read_record (cr_nodes c) (cr_attributes c) (cr_view c) = canonical_log r"
    unfolding read_record_def f v(2-8) nodes body pairs bd texts opt severity_number_inverse tr
      tm [OF times(1)] tm [OF times(2)]
    by (simp add: canonical_log_def)
qed

lemma export_scope_reads:
  assumes run: "export_scope al s = Inr c" and utf: "scope_text_ok s"
  shows "read_scope (cs_nodes c) (cs_attributes c) (cs_view c) = scope_meaning s"
    "unat (sw_attribute_count (cs_view c)) = length (cs_attributes c)" "unat (sw_value_node_count (cs_view c)) = length (cs_nodes c)"
proof -
  obtain g name version schema_url where
    g: "flatten al None (map (\<lambda>(k, v). (k, Src_Attribute v)) (xs_attributes s)) = Inr g"
    and parts: "export_string_view (xs_name s) = Inr name" "export_optional_string_view (xs_version s) = Inr version"
      "export_optional_string_view (xs_schema_url s) = Inr schema_url"
    using run by (auto simp: export_scope_def sum_bind_Inr_iff split: if_splits)
  note c = run [unfolded export_scope_def parts g sum_bind_simps]
  let ?as = "map (\<lambda>(k, v). (k, Src_Attribute v)) (xs_attributes s)"
  have t: "text_ok None ?as" "\<forall>a \<in> set ?as. valid_utf8 (fst a)"
    using utf by (auto simp: scope_text_ok_def text_ok_def)
  note o = flatten_read_pairs [OF g t]
  have texts: "view_text name = xs_name s" "view_text version = case_option [] id (xs_version s)"
    "view_text schema_url = case_option [] id (xs_schema_url s)"
    using view_text_string [OF parts(1)] view_text_optional [OF parts(2)] view_text_optional [OF parts(3)] utf
    by (simp_all add: scope_text_ok_def)
  have pairs: "read_pairs (fl_nodes g) (fg_attributes g) = map (\<lambda>(k, v). (k, meaning (Src_Attribute v))) (xs_attributes s)"
    unfolding o(1) by (simp add: split_beta)
  show "read_scope (cs_nodes c) (cs_attributes c) (cs_view c) = scope_meaning s"
    using c by (auto simp: read_scope_def scope_meaning_def texts pairs split: if_splits)
  show "unat (sw_attribute_count (cs_view c)) = length (cs_attributes c)" "unat (sw_value_node_count (cs_view c)) = length (cs_nodes c)"
    using c o(3,4) by (auto split: if_splits)
qed

section \<open>The batch\<close>

lemma key_position_Some:
  "key_position ks key = Some i \<Longrightarrow> i < length ks \<and> ks ! i = key"
  by (induction ks key arbitrary: i rule: key_position.induct) (auto split: if_splits)

lemma key_position_None: "key_position ks key = None \<longleftrightarrow> key \<notin> set ks"
  by (induction ks key rule: key_position.induct) auto

lemma try_push_Inr: "try_push al xs x what = Inr ys \<longleftrightarrow> al 1 \<and> ys = xs @ [x]"
  by (auto simp: try_push_def)

text \<open>The vectors hold the scopes that were met, each once, and the records so far, each with the index of its scope.\<close>

definition scopes_converted :: "(nat \<Rightarrow> exported_scope) \<Rightarrow> batch_progress \<Rightarrow> bool" where
  "scopes_converted scope_at p \<longleftrightarrow>
     length (bp_scopes p) = length (bp_scope_keys p) \<and> length (bp_scope_attributes p) = length (bp_scope_keys p) \<and>
     length (bp_scope_nodes p) = length (bp_scope_keys p) \<and> distinct (bp_scope_keys p) \<and>
     (\<forall>j < length (bp_scope_keys p).
        read_scope (bp_scope_nodes p ! j) (bp_scope_attributes p ! j) (bp_scopes p ! j) = scope_meaning (scope_at (bp_scope_keys p ! j)) \<and>
        unat (sw_attribute_count (bp_scopes p ! j)) = length (bp_scope_attributes p ! j) \<and>
        unat (sw_value_node_count (bp_scopes p ! j)) = length (bp_scope_nodes p ! j))"

definition records_converted :: "(exported_log \<times> nat) list \<Rightarrow> batch_progress \<Rightarrow> bool" where
  "records_converted items p \<longleftrightarrow>
     length (bp_records p) = length items \<and> length (bp_record_scopes p) = length items \<and>
     length (bp_record_attributes p) = length items \<and> length (bp_record_nodes p) = length items \<and>
     bp_record_count p = length items \<and> set (bp_scope_keys p) = snd ` set items \<and>
     (\<forall>i < length items.
        read_record (bp_record_nodes p ! i) (bp_record_attributes p ! i) (bp_records p ! i) = canonical_log (fst (items ! i)) \<and>
        unat (rw_attribute_count (bp_records p ! i)) = length (bp_record_attributes p ! i) \<and>
        unat (rw_value_node_count (bp_records p ! i)) = length (bp_record_nodes p ! i) \<and>
        bp_record_scopes p ! i < length (bp_scope_keys p) \<and> bp_scope_keys p ! (bp_record_scopes p ! i) = snd (items ! i))"

lemma scope_index_converts:
  assumes "scope_index al scope_at key p = Inr (i, p')" and "scopes_converted scope_at p" and "scope_text_ok (scope_at key)"
  shows "scopes_converted scope_at p'" "i < length (bp_scope_keys p')" "bp_scope_keys p' ! i = key"
    "set (bp_scope_keys p') = insert key (set (bp_scope_keys p))" "take (length (bp_scope_keys p)) (bp_scope_keys p') = bp_scope_keys p"
    "bp_records p' = bp_records p" "bp_record_scopes p' = bp_record_scopes p" "bp_record_attributes p' = bp_record_attributes p"
    "bp_record_nodes p' = bp_record_nodes p" "bp_record_count p' = bp_record_count p"
proof -
  have all: "scopes_converted scope_at p' \<and> i < length (bp_scope_keys p') \<and> bp_scope_keys p' ! i = key \<and>
    set (bp_scope_keys p') = insert key (set (bp_scope_keys p)) \<and> take (length (bp_scope_keys p)) (bp_scope_keys p') = bp_scope_keys p \<and>
    bp_records p' = bp_records p \<and> bp_record_scopes p' = bp_record_scopes p \<and> bp_record_attributes p' = bp_record_attributes p \<and>
    bp_record_nodes p' = bp_record_nodes p \<and> bp_record_count p' = bp_record_count p"
  proof (cases "key_position (bp_scope_keys p) key")
    case (Some j)
    then show ?thesis using assms(1,2) key_position_Some [OF Some] by (auto simp: scope_index_def)
  next
    case None
    then have new: "key \<notin> set (bp_scope_keys p)" by (simp add: key_position_None)
    obtain c where c: "export_scope al (scope_at key) = Inr c" and i: "i = length (bp_scopes p)"
      and p': "p' = p\<lparr>bp_scopes := bp_scopes p @ [cs_view c], bp_scope_keys := bp_scope_keys p @ [key],
        bp_scope_attributes := bp_scope_attributes p @ [cs_attributes c], bp_scope_nodes := bp_scope_nodes p @ [cs_nodes c]\<rparr>"
      using assms(1) None by (auto simp: scope_index_def sum_bind_Inr_iff try_push_Inr)
    note r = export_scope_reads [OF c assms(3)]
    have "scopes_converted scope_at p'"
      using assms(2) new r by (auto simp: scopes_converted_def p' nth_append less_Suc_eq)
    then show ?thesis using assms(2) i by (simp add: p' scopes_converted_def)
  qed
  show "scopes_converted scope_at p'" "i < length (bp_scope_keys p')" "bp_scope_keys p' ! i = key"
    "set (bp_scope_keys p') = insert key (set (bp_scope_keys p))" "take (length (bp_scope_keys p)) (bp_scope_keys p') = bp_scope_keys p"
    "bp_records p' = bp_records p" "bp_record_scopes p' = bp_record_scopes p" "bp_record_attributes p' = bp_record_attributes p"
    "bp_record_nodes p' = bp_record_nodes p" "bp_record_count p' = bp_record_count p"
    using all by simp_all
qed

lemma batch_step_converts:
  assumes run: "batch_step al scope_at (r, key) p = Inr p'" and p: "scopes_converted scope_at p" "records_converted items p"
    and utf: "log_text_ok r" "scope_text_ok (scope_at key)"
  shows "scopes_converted scope_at p' \<and> records_converted (items @ [(r, key)]) p' \<and> length items < OTEL_LOG_EXPORT_MAX_RECORDS"
proof -
  obtain i p1 c where s: "scope_index al scope_at key (p\<lparr>bp_record_count := Suc (bp_record_count p)\<rparr>) = Inr (i, p1)"
    and c: "export_record al r i = Inr c" and n: "Suc (bp_record_count p) \<le> OTEL_LOG_EXPORT_MAX_RECORDS"
    and p': "p' = p1\<lparr>bp_record_scopes := bp_record_scopes p1 @ [cr_scope_index c], bp_records := bp_records p1 @ [cr_view c],
      bp_record_attributes := bp_record_attributes p1 @ [cr_attributes c], bp_record_nodes := bp_record_nodes p1 @ [cr_nodes c]\<rparr>"
    using run by (auto simp: batch_step_def Let_def sum_bind_Inr_iff try_push_Inr split: if_splits)
  have "scopes_converted scope_at (p\<lparr>bp_record_count := Suc (bp_record_count p)\<rparr>)" using p(1) by (simp add: scopes_converted_def)
  note x = scope_index_converts [OF s this utf(2)]
  note e = export_record_reads [OF c utf(1)]
  have len: "length (bp_scope_keys p) \<le> length (bp_scope_keys p1)" using arg_cong [OF x(5), of length] by simp
  have tk: "take (length (bp_scope_keys p)) (bp_scope_keys p1) = bp_scope_keys p" using x(5) by simp
  have old: "bp_scope_keys p1 ! j = bp_scope_keys p ! j" if "j < length (bp_scope_keys p)" for j
    using arg_cong [OF tk, of "\<lambda>l. l ! j"] that by simp
  have "scopes_converted scope_at p'" using x(1) by (simp add: p' scopes_converted_def)
  moreover have "records_converted (items @ [(r, key)]) p'"
    using p(2) x(2-4,6-10) e len old
    by (auto simp: records_converted_def p' nth_append less_Suc_eq intro: less_le_trans)
  ultimately show ?thesis using n p(2) by (simp add: records_converted_def)
qed

lemma batch_loop_converts:
  assumes "batch_loop al scope_at items p = Inr p'" and "scopes_converted scope_at p" "records_converted seen p"
    and "\<forall>x \<in> set items. log_text_ok (fst x) \<and> scope_text_ok (scope_at (snd x))" and "length seen \<le> OTEL_LOG_EXPORT_MAX_RECORDS"
  shows "scopes_converted scope_at p' \<and> records_converted (seen @ items) p' \<and> length (seen @ items) \<le> OTEL_LOG_EXPORT_MAX_RECORDS"
  using assms
proof (induction items arbitrary: p seen)
  case (Cons item items)
  obtain r key where item: "item = (r, key)" by (cases item)
  obtain p1 where p1: "batch_step al scope_at (r, key) p = Inr p1" "batch_loop al scope_at items p1 = Inr p'"
    using Cons.prems(1) by (auto simp: item sum_bind_Inr_iff)
  have utf: "log_text_ok r" "scope_text_ok (scope_at key)" using Cons.prems(4) by (auto simp: item)
  note s = batch_step_converts [OF p1(1) Cons.prems(2,3) utf]
  show ?case using Cons.IH [OF p1(2), of "seen @ [(r, key)]"] s Cons.prems(4) by (simp add: item Suc_le_eq)
qed simp

text \<open>The arrays behind the view's pointers.\<close>

definition buffer_nodes :: "export_view_storage \<Rightarrow> export_buffer \<Rightarrow> otel_log_value_node list" where
  "buffer_nodes st b =
     (case b of
        EB_ResourceAttributes \<Rightarrow> ev_resource_attributes st
      | EB_ResourceNodes \<Rightarrow> ev_resource_nodes st
      | EB_ScopeAttributes i \<Rightarrow> if i < length (ev_scope_attributes st) then ev_scope_attributes st ! i else []
      | EB_ScopeNodes i \<Rightarrow> if i < length (ev_scope_nodes st) then ev_scope_nodes st ! i else []
      | EB_RecordAttributes i \<Rightarrow> if i < length (ev_record_attributes st) then ev_record_attributes st ! i else []
      | EB_RecordNodes i \<Rightarrow> if i < length (ev_record_nodes st) then ev_record_nodes st ! i else []
      | _ \<Rightarrow> [])"

text \<open>The nodes that a pointer and a count describe, if there are as many behind the pointer.\<close>

definition read_array :: "export_view_storage \<Rightarrow> export_buffer option \<Rightarrow> usize \<Rightarrow> otel_log_value_node list option" where
  "read_array st p n =
     (case p of
        None \<Rightarrow> None
      | Some b \<Rightarrow> if unat n \<le> length (buffer_nodes st b) then Some (take (unat n) (buffer_nodes st b)) else None)"

definition follow_scope ::
  "export_view_storage \<Rightarrow> export_buffer option \<Rightarrow> (bytes \<times> bytes \<times> bytes \<times> (bytes \<times> any_value) list) option" where
  "follow_scope st p =
     (case p of
        Some (EB_Scope k) \<Rightarrow>
          if k < length (ev_scopes st) then
            (let s = ev_scopes st ! k in
             case (read_array st (sw_value_nodes s) (sw_value_node_count s), read_array st (sw_attributes s) (sw_attribute_count s)) of
               (Some nodes, Some attributes) \<Rightarrow> Some (read_scope nodes attributes s)
             | _ \<Rightarrow> None)
          else None
      | _ \<Rightarrow> None)"

definition follow_record ::
  "export_view_storage \<Rightarrow> export_record_view \<Rightarrow> (exported_log \<times> bytes \<times> bytes \<times> bytes \<times> (bytes \<times> any_value) list) option" where
  "follow_record st r =
     (case (read_array st (rw_value_nodes r) (rw_value_node_count r), read_array st (rw_attributes r) (rw_attribute_count r),
            follow_scope st (rw_scope r)) of
        (Some nodes, Some attributes, Some scope) \<Rightarrow> Some (read_record nodes attributes r, scope)
      | _ \<Rightarrow> None)"

lemma read_array_all: "unat n = length (buffer_nodes st b) \<Longrightarrow> read_array st (Some b) n = Some (buffer_nodes st b)"
  by (simp add: read_array_def)

lemma linked_nth: "i < length xs \<Longrightarrow> map (\<lambda>(i, x). f i x) (enumerate 0 xs) ! i = f i (xs ! i)"
  by (simp add: nth_enumerate_eq)

text \<open>
  C12: An exporter that follows the view reads the batch. If \<open>convert_batch\<close> succeeds, then every pointer of the
  view leads to as many nodes as its count says, and following the records in order yields each record of the batch,
  with the maps of its values in key order, together with its scope; scopes are shared by address, one view for each
  address in the batch; the resource reads back too, and the batch is within the record limit.
\<close>

theorem exported_batch_reads_back:
  assumes run: "convert_batch al scope_at batch resource = Inr st"
    and batch: "\<forall>x \<in> set batch. log_text_ok (fst x) \<and> scope_text_ok (scope_at (snd x))"
    and resource: "\<forall>a \<in> set (xo_attributes resource). valid_utf8 (fst a) \<and> source_text_ok (Src_Attribute (snd a))"
  shows "map (follow_record st) (ev_records st) = map (\<lambda>(r, key). Some (canonical_log r, scope_meaning (scope_at key))) batch \<and>
    length (ev_scopes st) = card (snd ` set batch) \<and>
    read_pairs (ev_resource_nodes st) (ev_resource_attributes st) =
      map (\<lambda>(k, v). (k, meaning (Src_Attribute v))) (xo_attributes resource) \<and>
    unat (bw_record_count (ev_batch st)) = length batch \<and> length batch \<le> OTEL_LOG_EXPORT_MAX_RECORDS"
proof -
  let ?as = "map (\<lambda>(k, v). (k, Src_Attribute v)) (xo_attributes resource)"
  obtain g p schema_url where g: "flatten al None ?as = Inr g" and p: "batch_loop al scope_at batch batch_start = Inr p"
    and u: "export_optional_string_view (xo_schema_url resource) = Inr schema_url"
    using run by (auto simp: convert_batch_def sum_bind_Inr_iff split: if_splits)
  note st = run [unfolded convert_batch_def g p u sum_bind_simps Let_def]
  have v: "ev_resource_nodes st = fl_nodes g" "ev_resource_attributes st = fg_attributes g"
    "ev_scope_attributes st = bp_scope_attributes p" "ev_scope_nodes st = bp_scope_nodes p"
    "ev_record_attributes st = bp_record_attributes p" "ev_record_nodes st = bp_record_nodes p"
    "ev_scopes st = map (\<lambda>(i, s). link_scope i s) (enumerate 0 (bp_scopes p))"
    "ev_records st = map (\<lambda>(i, r). link_record i (bp_record_scopes p ! i) r) (enumerate 0 (bp_records p))"
    "bw_record_count (ev_batch st) = word_of_nat (length (bp_records p))"
    using st by (auto split: if_splits)
  have "scopes_converted scope_at batch_start" "records_converted [] batch_start"
    by (simp_all add: scopes_converted_def records_converted_def batch_start_def)
  from batch_loop_converts [OF p this batch]
  have s: "scopes_converted scope_at p" and r: "records_converted batch p" and n: "length batch \<le> OTEL_LOG_EXPORT_MAX_RECORDS"
    by (simp_all add: OTEL_LOG_EXPORT_MAX_RECORDS_def)
  have scope: "follow_scope st (Some (EB_Scope k)) = Some (scope_meaning (scope_at (bp_scope_keys p ! k)))"
    if k: "k < length (bp_scope_keys p)" for k
  proof -
    have "ev_scopes st ! k = link_scope k (bp_scopes p ! k)" "k < length (ev_scopes st)"
      using k s unfolding v by (simp_all add: scopes_converted_def nth_enumerate_eq)
    then show ?thesis
      using k s by (simp add: follow_scope_def Let_def link_scope_def scopes_converted_def v buffer_nodes_def read_array_def
          read_scope_def)
  qed
  have "map (follow_record st) (ev_records st) = map (\<lambda>(r, key). Some (canonical_log r, scope_meaning (scope_at key))) batch"
  proof (rule nth_equalityI)
    fix i assume "i < length (map (follow_record st) (ev_records st))"
    then have i: "i < length batch" using r by (simp add: v records_converted_def)
    then have e: "ev_records st ! i = link_record i (bp_record_scopes p ! i) (bp_records p ! i)"
      using r unfolding v by (simp add: records_converted_def nth_enumerate_eq)
    have rr: "read_record nodes attributes (link_record i k view) = read_record nodes attributes view" for nodes attributes k view
      by (simp add: read_record_def read_present_def link_record_def)
    have "follow_record st (ev_records st ! i) = Some (canonical_log (fst (batch ! i)), scope_meaning (scope_at (snd (batch ! i))))"
      using i r scope [of "bp_record_scopes p ! i"] unfolding e
      by (simp add: follow_record_def rr records_converted_def buffer_nodes_def read_array_def v link_record_def)
        (simp add: link_record_def [symmetric] rr)
    then show "map (follow_record st) (ev_records st) ! i =
        map (\<lambda>(r, key). Some (canonical_log r, scope_meaning (scope_at key))) batch ! i"
      using i r by (simp add: v records_converted_def split_beta)
  qed (use r in \<open>simp add: v records_converted_def\<close>)
  moreover have "length (ev_scopes st) = card (snd ` set batch)"
    using s r distinct_card [of "bp_scope_keys p"] by (simp add: v scopes_converted_def records_converted_def)
  moreover have "read_pairs (ev_resource_nodes st) (ev_resource_attributes st) =
      map (\<lambda>(k, v). (k, meaning (Src_Attribute v))) (xo_attributes resource)"
    using flatten_read_pairs(1) [OF g] resource by (simp add: v text_ok_def split_beta)
  moreover have "unat (bw_record_count (ev_batch st)) = length batch"
    using r n by (simp add: v records_converted_def unat_word_of_nat64 OTEL_LOG_EXPORT_MAX_RECORDS_def)
  ultimately show ?thesis using n by blast
qed

section \<open>What was emitted is exported\<close>

text \<open>
  The values that an accepted record's pool denotes, in the order of its roots: together they use each node once, and
  each is within the limits of the conversion.
\<close>

lemma assemble_text_ok:
  assumes "value_ok v" and "keys_ok nodes v" and "length ts = length (kids v)" and "\<forall>t \<in> set ts. any_text_ok t \<and> any_limits t"
  shows "any_text_ok (assemble nodes v ts)" "any_limits (assemble nodes v ts)"
proof -
  have c: "is_container v \<Longrightarrow> length (kids v) = unat (rg_count (lval_children v))"
    by (simp add: kids_def child_range_def)
  obtain ty where ty: "tag_of v = Some ty" using assms(1) by (auto simp: value_ok_def split: option.splits)
  have "any_text_ok (assemble nodes v ts) \<and> any_limits (assemble nodes v ts)"
  proof (cases ty)
    case LT_String
    then obtain t where "sv_as_str (lval_string v) = Inr t" "length t \<le> OTEL_LOG_MAX_STRING_LEN"
      using assms(1) ty by (auto simp: value_ok_def)
    then show ?thesis using ty LT_String by (auto simp: assemble_def sv_as_str_def split: if_splits sum.splits)
  next
    case LT_Bytes
    then show ?thesis using ty assms(1) by (auto simp: assemble_def value_ok_def)
  next
    case LT_Array
    then show ?thesis using ty assms c by (auto simp: assemble_def value_ok_def is_container_tag)
  next
    case LT_Map
    then obtain ks where ks: "map (key_at nodes) (kids v) = map Inr ks" "distinct ks"
        "\<forall>k \<in> set ks. k \<noteq> [] \<and> length k \<le> OTEL_LOG_MAX_STRING_LEN"
      using assms(2) ty by (auto simp: keys_ok_def)
    have l: "length ks = length (kids v)" using ks(1) by (metis length_map)
    have "map (\<lambda>i. projr (key_at nodes i)) (kids v) = map projr (map Inr ks :: (abi_error + bytes) list)"
      unfolding ks(1) [symmetric] by simp
    then have p: "map (\<lambda>i. projr (key_at nodes i)) (kids v) = ks" by (simp add: comp_def)
    have utf: "valid_utf8 k" if "k \<in> set ks" for k
    proof -
      have "Inr k \<in> set (map Inr ks :: (abi_error + bytes) list)" using that by simp
      then have "Inr k \<in> set (map (key_at nodes) (kids v))" unfolding ks(1) .
      then obtain i where "key_at nodes i = Inr k" by auto
      then show ?thesis by (auto simp: key_at_def sv_as_str_def split: if_splits sum.splits)
    qed
    have "distinct (map fst (zip ks ts))" using ks(2) l assms(3) by simp
    moreover have "fst e \<in> set ks \<and> snd e \<in> set ts" if "e \<in> set (zip ks ts)" for e
      using that set_zip_leftD [of "fst e" "snd e" ks ts] set_zip_rightD [of "fst e" "snd e" ks ts] by simp
    moreover have "length (zip ks ts) \<le> OTEL_LOG_MAX_MAP_ENTRIES"
      using assms(1,3) l c ty LT_Map by (simp add: value_ok_def is_container_tag)
    ultimately show ?thesis using ty LT_Map p utf ks(3) assms(4) by (simp add: assemble_def)
  qed (use ty in \<open>simp_all add: assemble_def\<close>)
  then show "any_text_ok (assemble nodes v ts)" "any_limits (assemble nodes v ts)" by simp_all
qed

lemma weight_assemble:
  assumes "length ts = length (kids v)"
  shows "any_weight (assemble nodes v ts) = Suc (if is_container v then sum_list (map any_weight ts) else 0)"
proof -
  have "map (\<lambda>x. any_weight (snd x)) (zip (map (\<lambda>i. projr (key_at nodes i)) (kids v)) ts) = map any_weight ts"
    by (rule nth_equalityI) (simp_all add: assms)
  then show ?thesis
    by (auto simp: assemble_def is_container_tag comp_def split: option.split otel_log_value_type.split)
qed

lemma sum_list_mset_eq: "mset xs = mset ys \<Longrightarrow> sum_list (map f xs) = sum_list (map f ys)" for f :: "'a \<Rightarrow> nat"
  by (metis mset_map sum_mset_sum_list)

lemma pool_values:
  assumes ok: "pool_ok nodes roots"
  shows "\<forall>v \<in> set roots. any_text_ok (value_tree nodes 0 v) \<and> any_limits (value_tree nodes 0 v)"
    "sum_list (map (\<lambda>v. any_weight (value_tree nodes 0 v)) roots) = length nodes + length roots"
proof -
  have fits: "\<forall>v \<in> set (node_values nodes @ roots). value_ok v \<and> keys_ok nodes v"
    and part: "distinct (concat (map kids (node_values nodes @ roots)))"
      "set (concat (map kids (node_values nodes @ roots))) = {..<length nodes}"
    using ok unfolding pool_ok_def by blast+
  have sub: "set (kids v) \<subseteq> {..<length nodes}" if "v \<in> set (node_values nodes @ roots)" for v using part(2) that by auto
  have fwd: "forward nodes" using pool_ok_nodes(1) [OF ok] .
  have root: "value_tree nodes 0 v = assemble nodes v (map (node_tree nodes) (kids v))" if "v \<in> set roots" for v
    by (rule value_tree_assemble) (use sub that in auto)
  have node: "node_tree nodes i = assemble nodes (nd_value (nodes ! i)) (map (node_tree nodes) (kids (nd_value (nodes ! i))))"
    if "i < length nodes" for i
    by (rule node_tree_assemble [OF fwd that])
  have mem: "nd_value (nodes ! i) \<in> set (node_values nodes @ roots)" if "i < length nodes" for i
    using that by (simp add: node_values_def)
  have up: "\<forall>j \<in> set (kids (nd_value (nodes ! i))). i < j" if "i < length nodes" for i
    using ok that by (simp add: pool_ok_def node_values_def)
  have tree: "i < length nodes \<Longrightarrow> any_text_ok (node_tree nodes i) \<and> any_limits (node_tree nodes i)" for i
  proof (induction "length nodes - i" arbitrary: i rule: less_induct)
    case less
    have "any_text_ok (node_tree nodes j) \<and> any_limits (node_tree nodes j)" if "j \<in> set (kids (nd_value (nodes ! i)))" for j
      using less(1) [of j] less(2) up [OF less(2)] sub [OF mem [OF less(2)]] that by fastforce
    then show ?case
      unfolding node [OF less(2)] using fits mem [OF less(2)] assemble_text_ok [of "nd_value (nodes ! i)" nodes] by simp
  qed
  show "\<forall>v \<in> set roots. any_text_ok (value_tree nodes 0 v) \<and> any_limits (value_tree nodes 0 v)"
  proof
    fix v assume v: "v \<in> set roots"
    have "any_text_ok (node_tree nodes j) \<and> any_limits (node_tree nodes j)" if "j \<in> set (kids v)" for j
      using tree sub [of v] v that by auto
    then show "any_text_ok (value_tree nodes 0 v) \<and> any_limits (value_tree nodes 0 v)"
      unfolding root [OF v] using fits v assemble_text_ok [of v nodes] by simp
  qed
  let ?w = "\<lambda>i. any_weight (node_tree nodes i)"
  have k: "any_weight (assemble nodes v (map (node_tree nodes) (kids v))) = Suc (sum_list (map ?w (kids v)))" for v
    by (auto simp: weight_assemble comp_def)
  have wr: "map (\<lambda>v. any_weight (value_tree nodes 0 v)) roots = map (\<lambda>v. Suc (sum_list (map ?w (kids v)))) roots"
    using root k by simp
  have wn: "map ?w [0..<length nodes] = map (\<lambda>v. Suc (sum_list (map ?w (kids v)))) (node_values nodes)"
    by (rule nth_equalityI) (use node k in \<open>simp_all add: node_values_def\<close>)
  have sums: "sum_list (map (\<lambda>v. Suc (sum_list (map ?w (kids v)))) vs) = length vs + sum_list (map ?w (concat (map kids vs)))" for vs
    by (induction vs) simp_all
  have "mset (concat (map kids (node_values nodes @ roots))) = mset [0..<length nodes]"
    using part by (intro set_eq_iff_mset_eq_distinct [THEN iffD1]) auto
  then have "sum_list (map ?w (concat (map kids (node_values nodes @ roots)))) = sum_list (map ?w [0..<length nodes])"
    by (rule sum_list_mset_eq)
  then have "sum_list (map ?w (concat (map kids (node_values nodes)))) + sum_list (map ?w (concat (map kids roots))) =
      length nodes + sum_list (map ?w (concat (map kids (node_values nodes))))"
    unfolding wn sums by simp
  then show "sum_list (map (\<lambda>v. any_weight (value_tree nodes 0 v)) roots) = length nodes + length roots"
    unfolding wr sums by simp
qed


text \<open>
  What the crate hands to an exporter for a record that \<open>logger_emit\<close> passed to it: the emitted fields as they
  are, an observation time of its own where none was given, and texts of its own within the limits.
\<close>

definition delivers :: "sdk_log_record \<Rightarrow> exported_log \<Rightarrow> bool" where
  "delivers r x \<longleftrightarrow>
     xl_timestamp x = map_option int (sr_timestamp r) \<and>
     (\<forall>t \<in> set_option (xl_observed_timestamp x). 0 \<le> t \<and> t < 2 ^ 64) \<and>
     xl_severity_number x = sr_severity r \<and>
     xl_trace_context x = map_option (\<lambda>(t, s, f). (t, s, Some f)) (sr_trace_context r) \<and>
     xl_body x = sr_body r \<and> xl_attributes x = sr_attributes r \<and>
     (\<forall>s \<in> set_option (xl_severity_text x) \<union> set_option (xl_event_name x) \<union> set_option (xl_target x).
        valid_utf8 s \<and> length s \<le> OTEL_LOG_MAX_STRING_LEN)"

lemma optional_view_total:
  "\<forall>s \<in> set_option t. length s \<le> OTEL_LOG_MAX_STRING_LEN \<Longrightarrow> \<exists>v. export_optional_string_view t = Inr v"
  by (cases t) (auto simp: export_optional_string_view_def export_string_view_def)

lemma optional_nanos_total: "\<forall>x \<in> set_option t. 0 \<le> x \<and> x < 2 ^ 64 \<Longrightarrow> \<exists>n. optional_nanos t what = Inr n"
  by (cases t) (auto simp: optional_nanos_def timestamp_nanos_def)

lemma export_record_total:
  assumes al: "\<forall>n. al n" and d: "\<forall>t \<in> set_option (xl_timestamp x) \<union> set_option (xl_observed_timestamp x). 0 \<le> t \<and> t < 2 ^ 64"
    and texts: "\<forall>s \<in> set_option (xl_severity_text x) \<union> set_option (xl_event_name x) \<union> set_option (xl_target x).
        length s \<le> OTEL_LOG_MAX_STRING_LEN"
    and values_ok: "within_limits (xl_body x) (map (\<lambda>(k, v). (k, Src_Any v)) (xl_attributes x))"
  shows "\<exists>c. export_record al x i = Inr c"
proof -
  obtain g where g: "flatten al (xl_body x) (map (\<lambda>(k, v). (k, Src_Any v)) (xl_attributes x)) = Inr g"
    using flatten_complete [OF al values_ok] ..
  obtain t u where t: "optional_nanos (xl_timestamp x) ''timestamp'' = Inr t"
      "optional_nanos (xl_observed_timestamp x) ''observed timestamp'' = Inr u"
    using optional_nanos_total [of "xl_timestamp x"] optional_nanos_total [of "xl_observed_timestamp x"] d by blast
  obtain v w z where v: "export_optional_string_view (xl_severity_text x) = Inr v"
      "export_optional_string_view (xl_event_name x) = Inr w" "export_optional_string_view (xl_target x) = Inr z"
    using optional_view_total [of "xl_severity_text x"] optional_view_total [of "xl_event_name x"]
      optional_view_total [of "xl_target x"] texts by blast
  show ?thesis unfolding export_record_def t v g sum_bind_simps using al by simp
qed

lemma emitted_within_limits:
  assumes ok: "pool_ok nodes (record_roots view attributes)" and keys: "\<forall>a \<in> set attributes. attribute_key_ok a"
    and sizes: "length nodes \<le> OTEL_LOG_MAX_VALUE_NODES" "length attributes \<le> OTEL_LOG_MAX_ATTRIBUTES"
    and bd: "bd = map_option (value_tree nodes 0) (present_body view)"
    and as: "as = map (\<lambda>a. (log_attribute_key a, value_tree nodes 0 (nd_value a))) attributes"
  shows "within_limits bd (map (\<lambda>(k, v). (k, Src_Any v)) as)"
    "(\<forall>a \<in> set as. valid_utf8 (fst a) \<and> any_text_ok (snd a)) \<and> (\<forall>v \<in> set_option bd. any_text_ok v)"
proof -
  note p = pool_values [OF ok]
  have high: "\<forall>r \<in> set (record_roots view attributes). height (value_tree nodes 0 r) \<le> OTEL_LOG_MAX_VALUE_DEPTH"
    using ok unfolding pool_ok_def by blast
  have mem: "\<forall>v \<in> set_option (present_body view). v \<in> set (record_roots view attributes)"
    "\<forall>a \<in> set attributes. nd_value a \<in> set (record_roots view attributes)"
    by (auto simp: record_roots_def)
  have key: "length (log_attribute_key a) \<le> OTEL_LOG_MAX_STRING_LEN \<and> valid_utf8 (log_attribute_key a)" if "a \<in> set attributes" for a
    using keys that by (auto simp: attribute_key_ok_def log_attribute_key_def sv_as_str_def split: if_splits sum.splits)
  have "sum_list (map any_weight (case_option [] (\<lambda>v. [v]) bd)) + sum_list (map (\<lambda>a. source_weight (snd a)) (map (\<lambda>(k, v). (k, Src_Any v)) as))
      = length nodes + length (record_roots view attributes)"
    using p(2) by (cases "present_body view") (simp_all add: bd as record_roots_def source_weight_def comp_def)
  moreover have "length (record_roots view attributes) = length (case_option [] (\<lambda>v. [v]) bd) + length as"
    by (cases "present_body view") (simp_all add: bd as record_roots_def)
  ultimately show "within_limits bd (map (\<lambda>(k, v). (k, Src_Any v)) as)"
    using sizes mem p(1) high key unfolding within_limits_def
    by (auto simp: as bd all_limits_def source_height_def)
  show "(\<forall>a \<in> set as. valid_utf8 (fst a) \<and> any_text_ok (snd a)) \<and> (\<forall>v \<in> set_option bd. any_text_ok v)"
    using mem p(1) key by (auto simp: as bd)
qed

text \<open>
  C13: What was emitted is exported. If \<open>logger_emit\<close> accepts a record and the crate delivers it, then with an
  allocator that does not fail the export conversion cannot fail on it, and the exporter reads the body and the
  attributes that the caller's pool denotes (maps in key order), and the caller's timestamp, severity and
  trace context.
\<close>

theorem emitted_record_is_exported:
  assumes al: "\<forall>n. al n"
    and reads: "read_nodes (lr_attributes view) (lr_attribute_count view) = Some attributes"
      "read_nodes (lr_value_nodes view) (lr_value_node_count view) = Some nodes"
    and emitted: "emit_record al view = Some (Inr r)" and x: "delivers r x"
  shows "\<exists>c. export_record al x i = Inr c \<and>
    (let y = read_record (cr_nodes c) (cr_attributes c) (cr_view c) in
       xl_body y = map_option (\<lambda>v. canonical (value_tree nodes 0 v)) (present_body view) \<and>
       xl_attributes y = map (\<lambda>a. (log_attribute_key a, canonical (value_tree nodes 0 (nd_value a)))) attributes \<and>
       xl_timestamp y = when_present view OTEL_LOG_FIELD_TIMESTAMP (uint (lr_timestamp_unix_nanos view)) \<and>
       xl_severity_number y = severity_from_u32 (lr_severity_number view) \<and>
       xl_trace_context y = when_present view OTEL_LOG_FIELD_TRACE_CONTEXT
         (ltc_trace_id (lr_trace_context view), ltc_span_id (lr_trace_context view), Some (ltc_trace_flags (lr_trace_context view))))"
proof -
  have err: "record_error view = None" using emitted by (simp add: emit_record_def split: option.splits)
  have parts: "\<forall>a \<in> set attributes. attribute_key_ok a" "pool_ok nodes (record_roots view attributes)"
    and r: "r = record_of view attributes nodes"
    using emit_accepts_parts [OF al reads emitted] by blast+
  have sizes: "length nodes \<le> OTEL_LOG_MAX_VALUE_NODES" "length attributes \<le> OTEL_LOG_MAX_ATTRIBUTES"
    using err reads by (auto simp: record_error_def read_nodes_def split: if_splits option.splits)
  have bd: "xl_body x = map_option (value_tree nodes 0) (present_body view)"
    and as: "xl_attributes x = map (\<lambda>a. (log_attribute_key a, value_tree nodes 0 (nd_value a))) attributes"
    using x by (simp_all add: delivers_def r record_of_def)
  note w = emitted_within_limits [OF parts(2,1) sizes bd as]
  have stamp: "xl_timestamp x = when_present view OTEL_LOG_FIELD_TIMESTAMP (uint (lr_timestamp_unix_nanos view))"
    using x by (simp add: delivers_def r record_of_def when_present_def)
  have "uint (lr_timestamp_unix_nanos view) < 2 ^ 64" by (rule order_less_le_trans [OF unsigned_less]) simp
  moreover have "\<forall>t \<in> set_option (xl_observed_timestamp x). 0 \<le> t \<and> t < 2 ^ 64" using x by (simp add: delivers_def)
  ultimately have "\<forall>t \<in> set_option (xl_timestamp x) \<union> set_option (xl_observed_timestamp x). 0 \<le> t \<and> t < 2 ^ 64"
    by (auto simp: stamp when_present_def)
  then obtain c where c: "export_record al x i = Inr c"
    using export_record_total [OF al _ _ w(1), of i] x unfolding delivers_def by blast
  have "log_text_ok x" using x w(2) by (auto simp: log_text_ok_def delivers_def)
  note y = export_record_reads(1) [OF c this]
  have "xl_severity_number x = severity_from_u32 (lr_severity_number view)"
    "xl_trace_context x = when_present view OTEL_LOG_FIELD_TRACE_CONTEXT
       (ltc_trace_id (lr_trace_context view), ltc_span_id (lr_trace_context view), Some (ltc_trace_flags (lr_trace_context view)))"
    using x by (simp_all add: delivers_def r record_of_def when_present_def)
  then show ?thesis
    using c by (auto simp: y canonical_log_def bd as stamp option.map_comp comp_def Let_def when_present_def)
qed

section \<open>Samples\<close>

definition sample_exported :: exported_log where
  "sample_exported =
     \<lparr>xl_timestamp = Some 9, xl_observed_timestamp = Some 5, xl_severity_text = None, xl_severity_number = severity_from_u32 (lr_severity_number sample_view),
      xl_event_name = None, xl_target = None, xl_body = sr_body (record_of sample_view sample_attributes sample_pool),
      xl_trace_context = None, xl_attributes = sr_attributes (record_of sample_view sample_attributes sample_pool)\<rparr>"

definition sample_exported_scope :: exported_scope where
  "sample_exported_scope = \<lparr>xs_name = [110], xs_version = Some [49], xs_schema_url = None, xs_attributes = []\<rparr>"

lemma sample_delivers: "delivers (record_of sample_view sample_attributes sample_pool) sample_exported"
  by (simp add: delivers_def sample_exported_def record_of_def when_present_def sample_view_def severity_from_u32_def
      OTEL_LOG_FIELD_TIMESTAMP_def OTEL_LOG_FIELD_TRACE_CONTEXT_def)

lemma sample_emitted:
  "emit_record (\<lambda>_. True) sample_view = Some (Inr (record_of sample_view sample_attributes sample_pool))"
  unfolding emit_record_def sample_reads sample_view_ok(1) option.case prod.case
  by (simp add: convert_record_iff [OF _ record_error_severity [OF sample_view_ok(1)]] sample_view_ok sample_pool_ok)

theorem emitted_record_is_exported_witness:
  "\<exists>c. export_record (\<lambda>_. True) sample_exported 3 = Inr c"
  using emitted_record_is_exported [OF _ sample_reads sample_emitted sample_delivers, of 3] by auto

lemma sample_sizes: "length sample_pool \<le> OTEL_LOG_MAX_VALUE_NODES" "length sample_attributes \<le> OTEL_LOG_MAX_ATTRIBUTES"
  by (simp_all add: sample_pool_def sample_attributes_def OTEL_LOG_MAX_VALUE_NODES_def OTEL_LOG_MAX_ATTRIBUTES_def)

lemma sample_exported_ok: "log_text_ok sample_exported" "\<exists>c. export_record (\<lambda>_. True) sample_exported i = Inr c"
proof -
  have v: "xl_body sample_exported = map_option (value_tree sample_pool 0) (present_body sample_view)"
    "xl_attributes sample_exported = map (\<lambda>a. (log_attribute_key a, value_tree sample_pool 0 (nd_value a))) sample_attributes"
    by (simp_all add: sample_exported_def record_of_def)
  note w = emitted_within_limits [OF sample_pool_ok sample_view_ok(3) sample_sizes v]
  show "log_text_ok sample_exported" using w(2) by (simp add: log_text_ok_def sample_exported_def)
  show "\<exists>c. export_record (\<lambda>_. True) sample_exported i = Inr c"
    by (rule export_record_total [OF _ _ _ w(1)]) (simp_all add: sample_exported_def)
qed

theorem exported_batch_reads_back_witness:
  "\<exists>st. convert_batch (\<lambda>_. True) (\<lambda>_. sample_exported_scope) [(sample_exported, 7), (sample_exported, 7)] \<lparr>xo_schema_url = None, xo_attributes = []\<rparr> = Inr st \<and>
     length (ev_scopes st) = 1 \<and> map (follow_record st) (ev_records st) = replicate 2 (Some (canonical_log sample_exported, scope_meaning sample_exported_scope))"
proof -
  let ?batch = "[(sample_exported, 7 :: nat), (sample_exported, 7)]" and ?resource = "\<lparr>xo_schema_url = None, xo_attributes = []\<rparr>"
  obtain c where c: "export_record (\<lambda>_. True) sample_exported 0 = Inr c" using sample_exported_ok(2) by blast
  have f: "flatten (\<lambda>_. True) None [] = Inr \<lparr>fl_nodes = [], fl_queue = [], fg_body = empty_value, fg_attributes = []\<rparr>"
    by (simp add: flatten_def try_sized_vec_def enqueue_body_def flatten_loop.simps OTEL_LOG_MAX_ATTRIBUTES_def)
  have "valid_utf8 [110]" "valid_utf8 [49]" by code_simp+
  then have utf: "scope_text_ok sample_exported_scope" by (simp add: scope_text_ok_def sample_exported_scope_def)
  have "\<exists>s. export_scope (\<lambda>_. True) sample_exported_scope = Inr s"
    by (simp add: export_scope_def sample_exported_scope_def f export_string_view_def export_optional_string_view_def OTEL_LOG_MAX_STRING_LEN_def)
  then obtain s where s: "export_scope (\<lambda>_. True) sample_exported_scope = Inr s" ..
  have "\<exists>st. convert_batch (\<lambda>_. True) (\<lambda>_. sample_exported_scope) ?batch ?resource = Inr st"
    by (simp add: convert_batch_def f batch_start_def batch_step_def scope_index_def s c try_push_def Let_def
        OTEL_LOG_EXPORT_MAX_RECORDS_def export_optional_string_view_def)
  then obtain st where st: "convert_batch (\<lambda>_. True) (\<lambda>_. sample_exported_scope) ?batch ?resource = Inr st" ..
  have "map (follow_record st) (ev_records st) = replicate 2 (Some (canonical_log sample_exported, scope_meaning sample_exported_scope)) \<and>
      length (ev_scopes st) = 1"
    using exported_batch_reads_back [OF st] utf sample_exported_ok(1) by (simp add: numeral_2_eq_2)
  then show ?thesis using st by blast
qed

end
