(* ===== verification/Span_Export.thy ===== *)
theory Span_Export
  imports Sdk_Spans Log_Export
begin

text \<open>
  The view of an exported batch of spans (\<open>sdk/src/span_export_view.rs\<close>). A pointer into the storage is the
  buffer that it addresses; a pointer into the crate's own arrays is the array. Texts are not limited here:
  a view has the length of its text. Following the view as a C exporter does gives the spans back.
\<close>

section \<open>What the crate exports\<close>

type_synonym exported_attributes = "(bytes \<times> attribute_value) list"

text \<open>A span context; the trace state is its header text. Times are nanoseconds since the epoch.\<close>

record exported_context =
  xq_trace_id :: bytes
  xq_span_id :: bytes
  xq_trace_flags :: u8
  xq_is_remote :: bool
  xq_trace_state :: bytes

record exported_event =
  xe_name :: bytes
  xe_timestamp :: int
  xe_attributes :: exported_attributes
  xe_dropped_attributes_count :: u32

record exported_link =
  xk_context :: exported_context
  xk_attributes :: exported_attributes
  xk_dropped_attributes_count :: u32

record exported_span =
  xp_context :: exported_context
  xp_parent_span_id :: bytes
  xp_name :: bytes
  xp_span_kind :: otel_span_kind
  xp_status :: sdk_status
  xp_start_time :: int
  xp_end_time :: int
  xp_attributes :: exported_attributes
  xp_dropped_attributes_count :: u32
  xp_events :: "exported_event list"
  xp_dropped_events_count :: u32
  xp_links :: "exported_link list"
  xp_dropped_links_count :: u32
  xp_scope :: exported_scope

section \<open>Views\<close>

definition OTEL_SPAN_EXPORT_MAX_SPANS :: nat where "OTEL_SPAN_EXPORT_MAX_SPANS = 65536"
definition OTEL_SPAN_ATTRIBUTE_STRING_ARRAY :: u32 where "OTEL_SPAN_ATTRIBUTE_STRING_ARRAY = 4"
definition OTEL_SPAN_ATTRIBUTE_BOOL_ARRAY :: u32 where "OTEL_SPAN_ATTRIBUTE_BOOL_ARRAY = 5"
definition OTEL_SPAN_ATTRIBUTE_INT64_ARRAY :: u32 where "OTEL_SPAN_ATTRIBUTE_INT64_ARRAY = 6"
definition OTEL_SPAN_ATTRIBUTE_DOUBLE_ARRAY :: u32 where "OTEL_SPAN_ATTRIBUTE_DOUBLE_ARRAY = 7"

text \<open>Where the elements of an array attribute are: in the owner's backing vectors, or in the crate's array.\<close>

datatype span_array = In_Strings nat | In_Bools nat | In_I64 "i64 list" | In_F64 "u64 list"

text \<open>An attribute; the union is a record of its members.\<close>

record span_attribute =
  sa_key :: otel_string_view
  sa_value_type :: u32
  sa_string :: otel_string_view
  sa_bool :: u32
  sa_int64 :: i64
  sa_double :: u64
  sa_values :: "span_array option"
  sa_count :: usize

record converted_attributes =
  ca_attributes :: "span_attribute list"
  ca_bool_arrays :: "u32 list list"
  ca_string_arrays :: "otel_string_view list list"

definition no_attributes :: converted_attributes where
  "no_attributes = \<lparr>ca_attributes = [], ca_bool_arrays = [], ca_string_arrays = []\<rparr>"

datatype span_buffer =
    SB_Records
  | SB_Scope nat
  | SB_ResourceAttributes
  | SB_ScopeAttributes nat
  | SB_RecordAttributes nat
  | SB_Events nat
  | SB_EventAttributes nat nat
  | SB_Links nat
  | SB_LinkAttributes nat nat

record span_event_view =
  ew_struct_size :: u64
  ew_name :: otel_string_view
  ew_timestamp_unix_nanos :: u64
  ew_attributes :: "span_buffer option"
  ew_attribute_count :: usize
  ew_dropped_attributes_count :: u32
  ew_reserved_flags :: u32
  ew_reserved :: "u64 list"

record span_link_view =
  kw_struct_size :: u64
  kw_trace_id :: bytes
  kw_span_id :: bytes
  kw_trace_flags :: u8
  kw_reserved_padding :: bytes
  kw_is_remote :: u32
  kw_trace_state :: otel_string_view
  kw_attributes :: "span_buffer option"
  kw_attribute_count :: usize
  kw_dropped_attributes_count :: u32
  kw_reserved_flags :: u32
  kw_reserved :: "u64 list"

record span_scope_view =
  cw_struct_size :: u64
  cw_name :: otel_string_view
  cw_version :: otel_string_view
  cw_schema_url :: otel_string_view
  cw_attributes :: "span_buffer option"
  cw_attribute_count :: usize
  cw_reserved :: "u64 list"

record span_record_view =
  pw_struct_size :: u64
  pw_name :: otel_string_view
  pw_trace_id :: bytes
  pw_span_id :: bytes
  pw_parent_span_id :: bytes
  pw_trace_flags :: u8
  pw_reserved_padding :: bytes
  pw_is_remote :: u32
  pw_span_kind :: u32
  pw_status_code :: u32
  pw_start_time_unix_nanos :: u64
  pw_end_time_unix_nanos :: u64
  pw_status_message :: otel_string_view
  pw_trace_state :: otel_string_view
  pw_attributes :: "span_buffer option"
  pw_attribute_count :: usize
  pw_events :: "span_buffer option"
  pw_event_count :: usize
  pw_links :: "span_buffer option"
  pw_link_count :: usize
  pw_dropped_attributes_count :: u32
  pw_dropped_events_count :: u32
  pw_dropped_links_count :: u32
  pw_reserved_flags :: u32
  pw_scope :: "span_buffer option"
  pw_reserved :: "u64 list"

record span_batch_view =
  tw_struct_size :: u64
  tw_records :: "span_buffer option"
  tw_record_count :: usize
  tw_resource_schema_url :: otel_string_view
  tw_resource_attributes :: "span_buffer option"
  tw_resource_attribute_count :: usize
  tw_reserved :: "u64 list"

record span_vectors =
  sv_scope_attributes :: "converted_attributes list"
  sv_record_attributes :: "converted_attributes list"
  sv_event_attributes :: "converted_attributes list list"
  sv_link_attributes :: "converted_attributes list list"
  sv_events :: "span_event_view list list"
  sv_links :: "span_link_view list list"
  sv_scopes :: "span_scope_view list"
  sv_records :: "span_record_view list"
  sv_record_trace_states :: "bytes list"
  sv_link_trace_states :: "bytes list list"

record span_storage = span_vectors +
  st_resource_attributes :: converted_attributes
  st_batch :: span_batch_view

section \<open>Conversion\<close>

definition span_optional_view :: "bytes option \<Rightarrow> otel_string_view" where
  "span_optional_view s = (case s of None \<Rightarrow> sv_empty | Some t \<Rightarrow> sv_of t)"

definition span_push :: "(nat \<Rightarrow> bool) \<Rightarrow> 'a list \<Rightarrow> 'a \<Rightarrow> string \<Rightarrow> abi_error + 'a list" where
  "span_push al xs x what =
     (if al 1 then Inr (xs @ [x]) else Inl (conversion_error (''failed to allocate an exported span '' @ what)))"

definition span_timestamp_nanos :: "int \<Rightarrow> string \<Rightarrow> abi_error + u64" where
  "span_timestamp_nanos t what =
     (if t < 0 then Inl (conversion_error (''exported span '' @ what @ '' predates the Unix epoch''))
      else if 2 ^ 64 \<le> t then Inl (conversion_error (''exported span '' @ what @ '' exceeds the u64 range''))
      else Inr (word_of_int t))"

fun span_kind_number :: "otel_span_kind \<Rightarrow> u32" where
  "span_kind_number SK_Internal = 0"
| "span_kind_number SK_Server = 1"
| "span_kind_number SK_Client = 2"
| "span_kind_number SK_Producer = 3"
| "span_kind_number SK_Consumer = 4"

fun status_parts :: "sdk_status \<Rightarrow> u32 \<times> otel_string_view" where
  "status_parts Status_Unset = (0, sv_empty)"
| "status_parts Status_Ok = (1, sv_empty)"
| "status_parts (Status_Error description) = (2, sv_of description)"

definition scalar_attribute :: "bytes \<Rightarrow> u32 \<Rightarrow> span_attribute" where
  "scalar_attribute key t =
     \<lparr>sa_key = sv_of key, sa_value_type = t, sa_string = sv_empty, sa_bool = 0, sa_int64 = 0, sa_double = 0,
      sa_values = None, sa_count = 0\<rparr>"

definition array_attribute :: "bytes \<Rightarrow> u32 \<Rightarrow> span_array \<Rightarrow> nat \<Rightarrow> span_attribute" where
  "array_attribute key t xs n = (scalar_attribute key t)\<lparr>sa_values := Some xs, sa_count := word_of_nat n\<rparr>"

definition convert_attribute_parts ::
  "(nat \<Rightarrow> bool) \<Rightarrow> bytes \<Rightarrow> attribute_value \<Rightarrow> converted_attributes \<Rightarrow> abi_error + converted_attributes" where
  "convert_attribute_parts al key value out =
     sum_bind
       (case value of
          Att_Scalar (V_String s) \<Rightarrow> Inr ((scalar_attribute key 0)\<lparr>sa_string := sv_of s\<rparr>, out)
        | Att_Scalar (V_Bool b) \<Rightarrow> Inr ((scalar_attribute key 1)\<lparr>sa_bool := of_bool b\<rparr>, out)
        | Att_Scalar (V_I64 i) \<Rightarrow> Inr ((scalar_attribute key 2)\<lparr>sa_int64 := i\<rparr>, out)
        | Att_Scalar (V_F64 d) \<Rightarrow> Inr ((scalar_attribute key 3)\<lparr>sa_double := d\<rparr>, out)
        | Att_Array (Arr_String ss) \<Rightarrow>
            if \<not> al (length ss) then Inl (conversion_error ''failed to allocate an exported span string attribute array'')
            else sum_bind (span_push al (ca_string_arrays out) (map sv_of ss) ''string attribute array backing'') (\<lambda>arrays.
              Inr (array_attribute key OTEL_SPAN_ATTRIBUTE_STRING_ARRAY (In_Strings (length arrays - 1)) (length ss),
                out\<lparr>ca_string_arrays := arrays\<rparr>))
        | Att_Array (Arr_Bool bs) \<Rightarrow>
            if \<not> al (length bs) then Inl (conversion_error ''failed to allocate an exported span bool attribute array'')
            else sum_bind (span_push al (ca_bool_arrays out) (map of_bool bs) ''bool attribute array backing'') (\<lambda>arrays.
              Inr (array_attribute key OTEL_SPAN_ATTRIBUTE_BOOL_ARRAY (In_Bools (length arrays - 1)) (length bs),
                out\<lparr>ca_bool_arrays := arrays\<rparr>))
        | Att_Array (Arr_I64 xs) \<Rightarrow>
            Inr (array_attribute key OTEL_SPAN_ATTRIBUTE_INT64_ARRAY (In_I64 xs) (length xs), out)
        | Att_Array (Arr_F64 xs) \<Rightarrow>
            Inr (array_attribute key OTEL_SPAN_ATTRIBUTE_DOUBLE_ARRAY (In_F64 xs) (length xs), out))
       (\<lambda>(attribute, out1).
          sum_bind (span_push al (ca_attributes out1) attribute ''attribute'') (\<lambda>attributes.
            Inr (out1\<lparr>ca_attributes := attributes\<rparr>)))"

fun convert_attribute_list ::
  "(nat \<Rightarrow> bool) \<Rightarrow> exported_attributes \<Rightarrow> converted_attributes \<Rightarrow> abi_error + converted_attributes" where
  "convert_attribute_list al [] out = Inr out"
| "convert_attribute_list al ((key, value) # rest) out =
     sum_bind (convert_attribute_parts al key value out) (convert_attribute_list al rest)"

definition convert_key_values :: "(nat \<Rightarrow> bool) \<Rightarrow> exported_attributes \<Rightarrow> abi_error + converted_attributes" where
  "convert_key_values al attributes = convert_attribute_list al attributes no_attributes"

definition convert_scope ::
  "(nat \<Rightarrow> bool) \<Rightarrow> exported_scope \<Rightarrow> abi_error + span_scope_view \<times> converted_attributes" where
  "convert_scope al s =
     sum_bind (convert_key_values al (xs_attributes s)) (\<lambda>attributes.
       Inr (\<lparr>cw_struct_size = 88, cw_name = sv_of (xs_name s), cw_version = span_optional_view (xs_version s),
             cw_schema_url = span_optional_view (xs_schema_url s), cw_attributes = None,
             cw_attribute_count = word_of_nat (length (ca_attributes attributes)), cw_reserved = replicate 2 0\<rparr>, attributes))"

fun event_views ::
  "(nat \<Rightarrow> bool) \<Rightarrow> exported_event list \<Rightarrow> abi_error + span_event_view list \<times> converted_attributes list" where
  "event_views al [] = Inr ([], [])"
| "event_views al (e # es) =
     sum_bind (convert_key_values al (xe_attributes e)) (\<lambda>converted.
     sum_bind (span_timestamp_nanos (xe_timestamp e) ''event timestamp'') (\<lambda>time.
     sum_bind (event_views al es) (\<lambda>(views, attributes).
       Inr (\<lparr>ew_struct_size = 72, ew_name = sv_of (xe_name e), ew_timestamp_unix_nanos = time, ew_attributes = None,
             ew_attribute_count = word_of_nat (length (ca_attributes converted)),
             ew_dropped_attributes_count = xe_dropped_attributes_count e, ew_reserved_flags = 0, ew_reserved = replicate 2 0\<rparr> # views,
            converted # attributes))))"

definition convert_events ::
  "(nat \<Rightarrow> bool) \<Rightarrow> exported_event list \<Rightarrow> abi_error + span_event_view list \<times> converted_attributes list" where
  "convert_events al es =
     (if \<not> al (length es) then Inl (conversion_error ''failed to allocate exported span event views'')
      else if \<not> al (length es) then Inl (conversion_error ''failed to allocate exported span event attributes'')
      else event_views al es)"

fun span_link_views ::
  "(nat \<Rightarrow> bool) \<Rightarrow> exported_link list \<Rightarrow> abi_error + span_link_view list \<times> converted_attributes list \<times> bytes list" where
  "span_link_views al [] = Inr ([], [], [])"
| "span_link_views al (k # ks) =
     sum_bind (convert_key_values al (xk_attributes k)) (\<lambda>converted.
     sum_bind (span_link_views al ks) (\<lambda>(views, attributes, states).
       Inr (\<lparr>kw_struct_size = 96, kw_trace_id = xq_trace_id (xk_context k), kw_span_id = xq_span_id (xk_context k),
             kw_trace_flags = xq_trace_flags (xk_context k), kw_reserved_padding = replicate 3 0,
             kw_is_remote = of_bool (xq_is_remote (xk_context k)), kw_trace_state = sv_empty, kw_attributes = None,
             kw_attribute_count = word_of_nat (length (ca_attributes converted)),
             kw_dropped_attributes_count = xk_dropped_attributes_count k, kw_reserved_flags = 0, kw_reserved = replicate 2 0\<rparr> # views,
            converted # attributes, xq_trace_state (xk_context k) # states)))"

definition convert_span_links ::
  "(nat \<Rightarrow> bool) \<Rightarrow> exported_link list \<Rightarrow> abi_error + span_link_view list \<times> converted_attributes list \<times> bytes list" where
  "convert_span_links al ks =
     (if \<not> al (length ks) then Inl (conversion_error ''failed to allocate exported span link views'')
      else if \<not> al (length ks) then Inl (conversion_error ''failed to allocate exported span link attributes'')
      else if \<not> al (length ks) then Inl (conversion_error ''failed to allocate exported span link trace states'')
      else span_link_views al ks)"

definition span_step :: "(nat \<Rightarrow> bool) \<Rightarrow> exported_span \<Rightarrow> span_vectors \<Rightarrow> abi_error + span_vectors" where
  "span_step al s v =
     sum_bind (convert_scope al (xp_scope s)) (\<lambda>(scope, scope_attrs).
     sum_bind (convert_key_values al (xp_attributes s)) (\<lambda>record_attrs.
     sum_bind (convert_events al (xp_events s)) (\<lambda>(events, event_attrs).
     sum_bind (convert_span_links al (xp_links s)) (\<lambda>(links, link_attrs, link_states).
     sum_bind (span_timestamp_nanos (xp_start_time s) ''start time'') (\<lambda>start.
     sum_bind (span_timestamp_nanos (xp_end_time s) ''end time'') (\<lambda>finish.
     let record =
       \<lparr>pw_struct_size = 224, pw_name = sv_of (xp_name s), pw_trace_id = xq_trace_id (xp_context s),
        pw_span_id = xq_span_id (xp_context s), pw_parent_span_id = xp_parent_span_id s,
        pw_trace_flags = xq_trace_flags (xp_context s), pw_reserved_padding = replicate 3 0,
        pw_is_remote = of_bool (xq_is_remote (xp_context s)), pw_span_kind = span_kind_number (xp_span_kind s),
        pw_status_code = fst (status_parts (xp_status s)), pw_start_time_unix_nanos = start, pw_end_time_unix_nanos = finish,
        pw_status_message = snd (status_parts (xp_status s)), pw_trace_state = sv_empty,
        pw_attributes = None, pw_attribute_count = word_of_nat (length (ca_attributes record_attrs)),
        pw_events = None, pw_event_count = word_of_nat (length events),
        pw_links = None, pw_link_count = word_of_nat (length links),
        pw_dropped_attributes_count = xp_dropped_attributes_count s, pw_dropped_events_count = xp_dropped_events_count s,
        pw_dropped_links_count = xp_dropped_links_count s, pw_reserved_flags = 0, pw_scope = None, pw_reserved = replicate 4 0\<rparr> in
     sum_bind (span_push al (sv_scopes v) scope ''scope view'') (\<lambda>scopes.
     sum_bind (span_push al (sv_scope_attributes v) scope_attrs ''scope attributes'') (\<lambda>scope_attributes.
     sum_bind (span_push al (sv_records v) record ''record view'') (\<lambda>records.
     sum_bind (span_push al (sv_record_attributes v) record_attrs ''record attributes'') (\<lambda>record_attributes.
     sum_bind (span_push al (sv_events v) events ''event views'') (\<lambda>all_events.
     sum_bind (span_push al (sv_event_attributes v) event_attrs ''event attributes'') (\<lambda>event_attributes.
     sum_bind (span_push al (sv_links v) links ''link views'') (\<lambda>all_links.
     sum_bind (span_push al (sv_link_attributes v) link_attrs ''link attributes'') (\<lambda>link_attributes.
     sum_bind (span_push al (sv_record_trace_states v) (xq_trace_state (xp_context s)) ''trace state'') (\<lambda>record_trace_states.
     sum_bind (span_push al (sv_link_trace_states v) link_states ''link trace states'') (\<lambda>link_trace_states.
       Inr \<lparr>sv_scope_attributes = scope_attributes, sv_record_attributes = record_attributes,
            sv_event_attributes = event_attributes, sv_link_attributes = link_attributes, sv_events = all_events,
            sv_links = all_links, sv_scopes = scopes, sv_records = records, sv_record_trace_states = record_trace_states,
            sv_link_trace_states = link_trace_states\<rparr>))))))))))))))))"

fun span_loop :: "(nat \<Rightarrow> bool) \<Rightarrow> exported_span list \<Rightarrow> span_vectors \<Rightarrow> abi_error + span_vectors" where
  "span_loop al [] v = Inr v"
| "span_loop al (s # spans) v = sum_bind (span_step al s v) (span_loop al spans)"

definition no_spans :: span_vectors where
  "no_spans =
     \<lparr>sv_scope_attributes = [], sv_record_attributes = [], sv_event_attributes = [], sv_link_attributes = [], sv_events = [],
      sv_links = [], sv_scopes = [], sv_records = [], sv_record_trace_states = [], sv_link_trace_states = []\<rparr>"

text \<open>The pointers are taken when the vectors have their final lengths.\<close>

definition link_span_scope :: "nat \<Rightarrow> span_scope_view \<Rightarrow> span_scope_view" where
  "link_span_scope i s = s\<lparr>cw_attributes := Some (SB_ScopeAttributes i)\<rparr>"

definition link_span_record :: "span_vectors \<Rightarrow> nat \<Rightarrow> span_record_view \<Rightarrow> span_record_view" where
  "link_span_record v i r =
     r\<lparr>pw_attributes := Some (SB_RecordAttributes i), pw_events := Some (SB_Events i), pw_links := Some (SB_Links i),
       pw_trace_state := sv_of (sv_record_trace_states v ! i), pw_scope := Some (SB_Scope i)\<rparr>"

definition link_events :: "nat \<Rightarrow> span_event_view list \<Rightarrow> span_event_view list" where
  "link_events i es = map (\<lambda>(j, e). e\<lparr>ew_attributes := Some (SB_EventAttributes i j)\<rparr>) (enumerate 0 es)"

definition link_links :: "span_vectors \<Rightarrow> nat \<Rightarrow> span_link_view list \<Rightarrow> span_link_view list" where
  "link_links v i ks =
     map (\<lambda>(j, k). k\<lparr>kw_attributes := Some (SB_LinkAttributes i j), kw_trace_state := sv_of (sv_link_trace_states v ! i ! j)\<rparr>)
       (enumerate 0 ks)"

definition convert_span_batch ::
  "(nat \<Rightarrow> bool) \<Rightarrow> exported_span list \<Rightarrow> exported_resource \<Rightarrow> abi_error + span_storage" where
  "convert_span_batch al spans resource =
     (if OTEL_SPAN_EXPORT_MAX_SPANS < length spans then
        Inl (conversion_error (''exported span batch carries more than '' @ decimal OTEL_SPAN_EXPORT_MAX_SPANS @ '' spans''))
      else
        sum_bind (convert_key_values al (xo_attributes resource)) (\<lambda>resource_attributes.
        sum_bind (span_loop al spans no_spans) (\<lambda>v.
          Inr \<lparr>sv_scope_attributes = sv_scope_attributes v, sv_record_attributes = sv_record_attributes v,
               sv_event_attributes = sv_event_attributes v, sv_link_attributes = sv_link_attributes v,
               sv_events = map (\<lambda>(i, es). link_events i es) (enumerate 0 (sv_events v)),
               sv_links = map (\<lambda>(i, ks). link_links v i ks) (enumerate 0 (sv_links v)),
               sv_scopes = map (\<lambda>(i, s). link_span_scope i s) (enumerate 0 (sv_scopes v)),
               sv_records = map (\<lambda>(i, r). link_span_record v i r) (enumerate 0 (sv_records v)),
               sv_record_trace_states = sv_record_trace_states v, sv_link_trace_states = sv_link_trace_states v,
               st_resource_attributes = resource_attributes,
               st_batch =
                 \<lparr>tw_struct_size = 88, tw_records = Some SB_Records, tw_record_count = word_of_nat (length (sv_records v)),
                  tw_resource_schema_url = span_optional_view (xo_schema_url resource),
                  tw_resource_attributes = Some SB_ResourceAttributes,
                  tw_resource_attribute_count = word_of_nat (length (ca_attributes resource_attributes)),
                  tw_reserved = replicate 4 0\<rparr>\<rparr>)))"

section \<open>Attributes read back\<close>

definition element :: "'a list \<Rightarrow> nat \<Rightarrow> 'a option" where
  "element xs i = (if i < length xs then Some (xs ! i) else None)"

text \<open>The first \<open>n\<close> elements, if there are as many.\<close>

definition prefix_of :: "'a list \<Rightarrow> usize \<Rightarrow> 'a list option" where
  "prefix_of xs n = (if unat n \<le> length xs then Some (take (unat n) xs) else None)"

definition read_span_attribute :: "converted_attributes \<Rightarrow> span_attribute \<Rightarrow> (bytes \<times> attribute_value) option" where
  "read_span_attribute ca a =
     map_option (Pair (view_text (sa_key a)))
       (if sa_value_type a = 0 then Some (Att_Scalar (V_String (view_text (sa_string a))))
        else if sa_value_type a = 1 then Some (Att_Scalar (V_Bool (sa_bool a \<noteq> 0)))
        else if sa_value_type a = 2 then Some (Att_Scalar (V_I64 (sa_int64 a)))
        else if sa_value_type a = 3 then Some (Att_Scalar (V_F64 (sa_double a)))
        else
          (case sa_values a of
             Some (In_Strings i) \<Rightarrow>
               if sa_value_type a = OTEL_SPAN_ATTRIBUTE_STRING_ARRAY then
                 map_option (\<lambda>vs. Att_Array (Arr_String (map view_text vs)))
                   (Option.bind (element (ca_string_arrays ca) i) (\<lambda>vs. prefix_of vs (sa_count a)))
               else None
           | Some (In_Bools i) \<Rightarrow>
               if sa_value_type a = OTEL_SPAN_ATTRIBUTE_BOOL_ARRAY then
                 map_option (\<lambda>vs. Att_Array (Arr_Bool (map (\<lambda>b. b \<noteq> 0) vs)))
                   (Option.bind (element (ca_bool_arrays ca) i) (\<lambda>vs. prefix_of vs (sa_count a)))
               else None
           | Some (In_I64 vs) \<Rightarrow>
               if sa_value_type a = OTEL_SPAN_ATTRIBUTE_INT64_ARRAY
               then map_option (\<lambda>vs. Att_Array (Arr_I64 vs)) (prefix_of vs (sa_count a)) else None
           | Some (In_F64 vs) \<Rightarrow>
               if sa_value_type a = OTEL_SPAN_ATTRIBUTE_DOUBLE_ARRAY
               then map_option (\<lambda>vs. Att_Array (Arr_F64 vs)) (prefix_of vs (sa_count a)) else None
           | None \<Rightarrow> None))"

text \<open>Texts and vectors as Rust has them.\<close>

definition rust_text :: "bytes \<Rightarrow> bool" where
  "rust_text s \<longleftrightarrow> valid_utf8 s \<and> length s \<le> isize_max"

definition rust_vector :: "'a list \<Rightarrow> bool" where
  "rust_vector xs \<longleftrightarrow> length xs \<le> isize_max"

definition rust_value :: "attribute_value \<Rightarrow> bool" where
  "rust_value v \<longleftrightarrow>
     (case v of
        Att_Scalar (V_String s) \<Rightarrow> rust_text s
      | Att_Array (Arr_String ss) \<Rightarrow> rust_vector ss \<and> (\<forall>s \<in> set ss. rust_text s)
      | Att_Array a \<Rightarrow> array_length a \<le> isize_max
      | _ \<Rightarrow> True)"

definition rust_attributes :: "exported_attributes \<Rightarrow> bool" where
  "rust_attributes as \<longleftrightarrow> rust_vector as \<and> (\<forall>a \<in> set as. rust_text (fst a) \<and> rust_value (snd a))"

lemma view_text_of: "rust_text s \<Longrightarrow> view_text (sv_of s) = s"
  by (simp add: rust_text_def view_text_def sv_as_str_sv_of)

lemma count_of_length: "length xs \<le> isize_max \<Longrightarrow> unat (word_of_nat (length xs) :: usize) = length xs"
  by (rule unat_word_of_nat64) (simp add: isize_max_def)

lemma prefix_of_all: "length xs \<le> isize_max \<Longrightarrow> length xs = n \<Longrightarrow> prefix_of xs (word_of_nat n) = Some xs"
  by (auto simp: prefix_of_def count_of_length)

lemma span_push_Inr: "span_push al xs x what = Inr ys \<longleftrightarrow> al 1 \<and> ys = xs @ [x]"
  by (auto simp: span_push_def)

lemmas array_types =
  OTEL_SPAN_ATTRIBUTE_STRING_ARRAY_def OTEL_SPAN_ATTRIBUTE_BOOL_ARRAY_def OTEL_SPAN_ATTRIBUTE_INT64_ARRAY_def
  OTEL_SPAN_ATTRIBUTE_DOUBLE_ARRAY_def

definition extends :: "converted_attributes \<Rightarrow> converted_attributes \<Rightarrow> bool" where
  "extends ca ca' \<longleftrightarrow> (\<exists>bs ss. ca_bool_arrays ca' = ca_bool_arrays ca @ bs \<and> ca_string_arrays ca' = ca_string_arrays ca @ ss)"

lemma extends_reads: "extends ca ca' \<Longrightarrow> read_span_attribute ca a = Some x \<Longrightarrow> read_span_attribute ca' a = Some x"
  by (auto simp: extends_def read_span_attribute_def element_def nth_append split: if_splits option.splits span_array.splits)

text \<open>The attribute that a value is written as, with its backing vector.\<close>

definition attribute_of :: "bytes \<Rightarrow> attribute_value \<Rightarrow> converted_attributes \<Rightarrow> span_attribute \<times> converted_attributes" where
  "attribute_of key value out =
     (case value of
        Att_Scalar (V_String s) \<Rightarrow> ((scalar_attribute key 0)\<lparr>sa_string := sv_of s\<rparr>, out)
      | Att_Scalar (V_Bool b) \<Rightarrow> ((scalar_attribute key 1)\<lparr>sa_bool := of_bool b\<rparr>, out)
      | Att_Scalar (V_I64 i) \<Rightarrow> ((scalar_attribute key 2)\<lparr>sa_int64 := i\<rparr>, out)
      | Att_Scalar (V_F64 d) \<Rightarrow> ((scalar_attribute key 3)\<lparr>sa_double := d\<rparr>, out)
      | Att_Array (Arr_String ss) \<Rightarrow>
          (array_attribute key OTEL_SPAN_ATTRIBUTE_STRING_ARRAY (In_Strings (length (ca_string_arrays out))) (length ss),
           out\<lparr>ca_string_arrays := ca_string_arrays out @ [map sv_of ss]\<rparr>)
      | Att_Array (Arr_Bool bs) \<Rightarrow>
          (array_attribute key OTEL_SPAN_ATTRIBUTE_BOOL_ARRAY (In_Bools (length (ca_bool_arrays out))) (length bs),
           out\<lparr>ca_bool_arrays := ca_bool_arrays out @ [map of_bool bs]\<rparr>)
      | Att_Array (Arr_I64 xs) \<Rightarrow> (array_attribute key OTEL_SPAN_ATTRIBUTE_INT64_ARRAY (In_I64 xs) (length xs), out)
      | Att_Array (Arr_F64 xs) \<Rightarrow> (array_attribute key OTEL_SPAN_ATTRIBUTE_DOUBLE_ARRAY (In_F64 xs) (length xs), out))"

lemma convert_attribute_parts_Inr:
  "convert_attribute_parts al key v out = Inr out' \<Longrightarrow>
     out' = snd (attribute_of key v out)\<lparr>ca_attributes := ca_attributes out @ [fst (attribute_of key v out)]\<rparr>"
  unfolding convert_attribute_parts_def attribute_of_def
  by (auto simp: sum_bind_Inr_iff span_push_Inr split: attribute_value.splits sdk_value.splits attribute_array.splits if_splits)

lemma attribute_of_reads:
  assumes "rust_text key" and "rust_value v"
  shows "read_span_attribute (snd (attribute_of key v out)) (fst (attribute_of key v out)) = Some (key, v)"
    "extends out (snd (attribute_of key v out))"
proof -
  note parts = attribute_of_def scalar_attribute_def array_attribute_def read_span_attribute_def view_text_of [OF assms(1)]
    array_types element_def rust_value_def rust_vector_def array_length_def
  have strings: "map view_text (map sv_of ss) = ss" if "\<forall>s \<in> set ss. rust_text s" for ss
    using that by (simp add: view_text_of map_idI)
  have bools: "map (\<lambda>b. b \<noteq> 0) (map of_bool bs :: u32 list) = bs" for bs by (simp add: comp_def)
  have maps: "prefix_of (map f xs) (word_of_nat (length xs)) = Some (map f xs)" if "length xs \<le> isize_max" for f and xs :: "'b list"
    using that by (intro prefix_of_all) simp_all
  show "read_span_attribute (snd (attribute_of key v out)) (fst (attribute_of key v out)) = Some (key, v)"
  proof (cases v)
    case (Att_Scalar x)
    then show ?thesis using assms(2) by (cases x) (simp_all add: parts view_text_of)
  next
    case (Att_Array a)
    then show ?thesis
      using assms(2)
      by (cases a) (simp_all only: parts fst_conv snd_conv attribute_value.case attribute_array.case, simp_all add: prefix_of_all maps strings bools view_text_of [OF assms(1)] del: map_map)
  qed
  show "extends out (snd (attribute_of key v out))"
    by (simp add: attribute_of_def extends_def split: attribute_value.split sdk_value.split attribute_array.split)
qed

lemma read_ignores_attributes [simp]: "read_span_attribute (ca\<lparr>ca_attributes := as\<rparr>) a = read_span_attribute ca a"
  by (simp add: read_span_attribute_def split: option.split span_array.split)

lemma convert_attribute_parts_reads:
  assumes run: "convert_attribute_parts al key v out = Inr out'" and ok: "rust_text key" "rust_value v"
  shows "\<exists>a. ca_attributes out' = ca_attributes out @ [a] \<and> read_span_attribute out' a = Some (key, v) \<and> extends out out'"
  using attribute_of_reads [OF ok, of out] unfolding convert_attribute_parts_Inr [OF run]
  by (intro exI [of _ "fst (attribute_of key v out)"]) (simp add: extends_def)

definition holds :: "converted_attributes \<Rightarrow> exported_attributes \<Rightarrow> bool" where
  "holds ca as \<longleftrightarrow> map (read_span_attribute ca) (ca_attributes ca) = map Some as"

lemma convert_attribute_list_holds:
  "convert_attribute_list al as out = Inr out' \<Longrightarrow> holds out seen \<Longrightarrow> \<forall>a \<in> set as. rust_text (fst a) \<and> rust_value (snd a) \<Longrightarrow>
     holds out' (seen @ as)"
proof (induction al as out arbitrary: seen rule: convert_attribute_list.induct)
  case (2 al key v rest out)
  obtain out1 where run: "convert_attribute_parts al key v out = Inr out1" "convert_attribute_list al rest out1 = Inr out'"
    using 2(2) by (auto simp: sum_bind_Inr_iff)
  obtain a where a: "ca_attributes out1 = ca_attributes out @ [a]" "read_span_attribute out1 a = Some (key, v)" "extends out out1"
    using convert_attribute_parts_reads [OF run(1)] 2(4) by auto
  have len: "length (ca_attributes out) = length seen" using arg_cong [OF 2(3) [unfolded holds_def], of length] by simp
  have "map (read_span_attribute out1) (ca_attributes out) = map Some seen"
  proof (rule nth_equalityI)
    fix i assume "i < length (map (read_span_attribute out1) (ca_attributes out))"
    then have i: "i < length (ca_attributes out)" by simp
    then have "read_span_attribute out (ca_attributes out ! i) = Some (seen ! i)"
      using arg_cong [OF 2(3) [unfolded holds_def], of "\<lambda>l. l ! i"] len by simp
    then show "map (read_span_attribute out1) (ca_attributes out) ! i = map Some seen ! i"
      using extends_reads [OF a(3)] i len by simp
  qed (use len in simp)
  then have "holds out1 (seen @ [(key, v)])" using a by (simp add: holds_def)
  from 2(1) [OF run(2) this] show ?case using 2(4) by simp
qed simp

lemma convert_key_values_holds:
  assumes "convert_key_values al as = Inr ca" and "rust_attributes as"
  shows "holds ca as" "unat (word_of_nat (length (ca_attributes ca)) :: usize) = length (ca_attributes ca)"
proof -
  have "holds no_attributes []" by (simp add: holds_def no_attributes_def)
  from convert_attribute_list_holds [OF assms(1) [unfolded convert_key_values_def] this]
  show h: "holds ca as" using assms(2) by (simp add: rust_attributes_def)
  have "length (ca_attributes ca) = length as" using arg_cong [OF h [unfolded holds_def], of length] by simp
  then show "unat (word_of_nat (length (ca_attributes ca)) :: usize) = length (ca_attributes ca)"
    using assms(2) by (intro count_of_length) (simp add: rust_attributes_def rust_vector_def)
qed

section \<open>Following the view\<close>

definition attributes_in :: "span_storage \<Rightarrow> span_buffer \<Rightarrow> converted_attributes option" where
  "attributes_in st b =
     (case b of
        SB_ResourceAttributes \<Rightarrow> Some (st_resource_attributes st)
      | SB_ScopeAttributes i \<Rightarrow> element (sv_scope_attributes st) i
      | SB_RecordAttributes i \<Rightarrow> element (sv_record_attributes st) i
      | SB_EventAttributes i j \<Rightarrow> Option.bind (element (sv_event_attributes st) i) (\<lambda>xs. element xs j)
      | SB_LinkAttributes i j \<Rightarrow> Option.bind (element (sv_link_attributes st) i) (\<lambda>xs. element xs j)
      | _ \<Rightarrow> None)"

definition follow_attributes :: "span_storage \<Rightarrow> span_buffer option \<Rightarrow> usize \<Rightarrow> exported_attributes option" where
  "follow_attributes st p n =
     Option.bind p (\<lambda>b. Option.bind (attributes_in st b) (\<lambda>ca.
     Option.bind (prefix_of (ca_attributes ca) n) (\<lambda>as. those (map (read_span_attribute ca) as))))"

definition follow_event :: "span_storage \<Rightarrow> span_event_view \<Rightarrow> exported_event option" where
  "follow_event st e =
     map_option (\<lambda>as. \<lparr>xe_name = view_text (ew_name e), xe_timestamp = uint (ew_timestamp_unix_nanos e), xe_attributes = as,
         xe_dropped_attributes_count = ew_dropped_attributes_count e\<rparr>)
       (follow_attributes st (ew_attributes e) (ew_attribute_count e))"

definition follow_link :: "span_storage \<Rightarrow> span_link_view \<Rightarrow> exported_link option" where
  "follow_link st k =
     map_option (\<lambda>as.
         \<lparr>xk_context =
            \<lparr>xq_trace_id = kw_trace_id k, xq_span_id = kw_span_id k, xq_trace_flags = kw_trace_flags k,
             xq_is_remote = (kw_is_remote k \<noteq> 0), xq_trace_state = view_text (kw_trace_state k)\<rparr>,
          xk_attributes = as, xk_dropped_attributes_count = kw_dropped_attributes_count k\<rparr>)
       (follow_attributes st (kw_attributes k) (kw_attribute_count k))"

definition follow_events :: "span_storage \<Rightarrow> span_buffer option \<Rightarrow> usize \<Rightarrow> exported_event list option" where
  "follow_events st p n =
     (case p of
        Some (SB_Events i) \<Rightarrow>
          Option.bind (element (sv_events st) i) (\<lambda>es. Option.bind (prefix_of es n) (\<lambda>es. those (map (follow_event st) es)))
      | _ \<Rightarrow> None)"

definition follow_links :: "span_storage \<Rightarrow> span_buffer option \<Rightarrow> usize \<Rightarrow> exported_link list option" where
  "follow_links st p n =
     (case p of
        Some (SB_Links i) \<Rightarrow>
          Option.bind (element (sv_links st) i) (\<lambda>ks. Option.bind (prefix_of ks n) (\<lambda>ks. those (map (follow_link st) ks)))
      | _ \<Rightarrow> None)"

text \<open>An absent version and an empty one read the same.\<close>

definition some_text :: "bytes \<Rightarrow> bytes option" where
  "some_text s = (if s = [] then None else Some s)"

definition follow_span_scope :: "span_storage \<Rightarrow> span_buffer option \<Rightarrow> exported_scope option" where
  "follow_span_scope st p =
     (case p of
        Some (SB_Scope i) \<Rightarrow>
          Option.bind (element (sv_scopes st) i) (\<lambda>s.
            map_option (\<lambda>as. \<lparr>xs_name = view_text (cw_name s), xs_version = some_text (view_text (cw_version s)),
                xs_schema_url = some_text (view_text (cw_schema_url s)), xs_attributes = as\<rparr>)
              (follow_attributes st (cw_attributes s) (cw_attribute_count s)))
      | _ \<Rightarrow> None)"

definition read_status :: "u32 \<Rightarrow> bytes \<Rightarrow> sdk_status" where
  "read_status code message = (if code = 1 then Status_Ok else if code = 2 then Status_Error message else Status_Unset)"

definition follow_span :: "span_storage \<Rightarrow> span_record_view \<Rightarrow> exported_span option" where
  "follow_span st r =
     Option.bind (follow_attributes st (pw_attributes r) (pw_attribute_count r)) (\<lambda>attributes.
     Option.bind (follow_events st (pw_events r) (pw_event_count r)) (\<lambda>events.
     Option.bind (follow_links st (pw_links r) (pw_link_count r)) (\<lambda>links.
     Option.bind (follow_span_scope st (pw_scope r)) (\<lambda>scope.
       Some
         \<lparr>xp_context =
            \<lparr>xq_trace_id = pw_trace_id r, xq_span_id = pw_span_id r, xq_trace_flags = pw_trace_flags r,
             xq_is_remote = (pw_is_remote r \<noteq> 0), xq_trace_state = view_text (pw_trace_state r)\<rparr>,
          xp_parent_span_id = pw_parent_span_id r, xp_name = view_text (pw_name r),
          xp_span_kind = the (span_kind_from_u32 (pw_span_kind r)),
          xp_status = read_status (pw_status_code r) (view_text (pw_status_message r)),
          xp_start_time = uint (pw_start_time_unix_nanos r), xp_end_time = uint (pw_end_time_unix_nanos r),
          xp_attributes = attributes, xp_dropped_attributes_count = pw_dropped_attributes_count r,
          xp_events = events, xp_dropped_events_count = pw_dropped_events_count r,
          xp_links = links, xp_dropped_links_count = pw_dropped_links_count r, xp_scope = scope\<rparr>))))"

definition normal_scope :: "exported_scope \<Rightarrow> exported_scope" where
  "normal_scope s =
     s\<lparr>xs_version := Option.bind (xs_version s) some_text, xs_schema_url := Option.bind (xs_schema_url s) some_text\<rparr>"

definition normal_span :: "exported_span \<Rightarrow> exported_span" where
  "normal_span s = s\<lparr>xp_scope := normal_scope (xp_scope s)\<rparr>"

definition rust_scope :: "exported_scope \<Rightarrow> bool" where
  "rust_scope s \<longleftrightarrow> rust_text (xs_name s) \<and> (\<forall>t \<in> set_option (xs_version s) \<union> set_option (xs_schema_url s). rust_text t) \<and>
     rust_attributes (xs_attributes s)"

definition rust_span :: "exported_span \<Rightarrow> bool" where
  "rust_span s \<longleftrightarrow> rust_text (xp_name s) \<and> rust_text (xq_trace_state (xp_context s)) \<and>
     (case xp_status s of Status_Error d \<Rightarrow> rust_text d | _ \<Rightarrow> True) \<and> rust_attributes (xp_attributes s) \<and>
     rust_vector (xp_events s) \<and> (\<forall>e \<in> set (xp_events s). rust_text (xe_name e) \<and> rust_attributes (xe_attributes e)) \<and>
     rust_vector (xp_links s) \<and>
     (\<forall>k \<in> set (xp_links s). rust_text (xq_trace_state (xk_context k)) \<and> rust_attributes (xk_attributes k)) \<and>
     rust_scope (xp_scope s)"

section \<open>The vectors\<close>

text \<open>What one span adds to the vectors.\<close>

record span_item =
  it_scope :: span_scope_view
  it_scope_attributes :: converted_attributes
  it_record :: span_record_view
  it_attributes :: converted_attributes
  it_events :: "span_event_view list"
  it_event_attributes :: "converted_attributes list"
  it_links :: "span_link_view list"
  it_link_attributes :: "converted_attributes list"
  it_trace_state :: bytes
  it_link_states :: "bytes list"

definition vectors_of :: "span_item list \<Rightarrow> span_vectors" where
  "vectors_of items =
     \<lparr>sv_scope_attributes = map it_scope_attributes items, sv_record_attributes = map it_attributes items,
      sv_event_attributes = map it_event_attributes items, sv_link_attributes = map it_link_attributes items,
      sv_events = map it_events items, sv_links = map it_links items, sv_scopes = map it_scope items,
      sv_records = map it_record items, sv_record_trace_states = map it_trace_state items,
      sv_link_trace_states = map it_link_states items\<rparr>"

definition item_of :: "(nat \<Rightarrow> bool) \<Rightarrow> exported_span \<Rightarrow> span_item \<Rightarrow> bool" where
  "item_of al s it \<longleftrightarrow>
     convert_scope al (xp_scope s) = Inr (it_scope it, it_scope_attributes it) \<and>
     convert_key_values al (xp_attributes s) = Inr (it_attributes it) \<and>
     convert_events al (xp_events s) = Inr (it_events it, it_event_attributes it) \<and>
     convert_span_links al (xp_links s) = Inr (it_links it, it_link_attributes it, it_link_states it) \<and>
     it_trace_state it = xq_trace_state (xp_context s) \<and>
     (\<exists>start finish. span_timestamp_nanos (xp_start_time s) ''start time'' = Inr start \<and>
        span_timestamp_nanos (xp_end_time s) ''end time'' = Inr finish \<and>
        it_record it =
          \<lparr>pw_struct_size = 224, pw_name = sv_of (xp_name s), pw_trace_id = xq_trace_id (xp_context s),
           pw_span_id = xq_span_id (xp_context s), pw_parent_span_id = xp_parent_span_id s,
           pw_trace_flags = xq_trace_flags (xp_context s), pw_reserved_padding = replicate 3 0,
           pw_is_remote = of_bool (xq_is_remote (xp_context s)), pw_span_kind = span_kind_number (xp_span_kind s),
           pw_status_code = fst (status_parts (xp_status s)), pw_start_time_unix_nanos = start, pw_end_time_unix_nanos = finish,
           pw_status_message = snd (status_parts (xp_status s)), pw_trace_state = sv_empty,
           pw_attributes = None, pw_attribute_count = word_of_nat (length (ca_attributes (it_attributes it))),
           pw_events = None, pw_event_count = word_of_nat (length (it_events it)),
           pw_links = None, pw_link_count = word_of_nat (length (it_links it)),
           pw_dropped_attributes_count = xp_dropped_attributes_count s, pw_dropped_events_count = xp_dropped_events_count s,
           pw_dropped_links_count = xp_dropped_links_count s, pw_reserved_flags = 0, pw_scope = None, pw_reserved = replicate 4 0\<rparr>)"

lemma span_step_item:
  assumes "span_step al s (vectors_of items) = Inr v"
  shows "\<exists>it. item_of al s it \<and> v = vectors_of (items @ [it])"
proof -
  obtain scope scope_attrs record_attrs events event_attrs links link_attrs link_states start finish where
    parts: "convert_scope al (xp_scope s) = Inr (scope, scope_attrs)" "convert_key_values al (xp_attributes s) = Inr record_attrs"
      "convert_events al (xp_events s) = Inr (events, event_attrs)"
      "convert_span_links al (xp_links s) = Inr (links, link_attrs, link_states)"
      "span_timestamp_nanos (xp_start_time s) ''start time'' = Inr start"
      "span_timestamp_nanos (xp_end_time s) ''end time'' = Inr finish"
    using assms by (auto simp: span_step_def sum_bind_Inr_iff)
  note v = assms [unfolded span_step_def parts sum_bind_simps prod.case Let_def]
  let ?rec = "hd (drop (length items) (sv_records v))"
  let ?it = "\<lparr>it_scope = scope, it_scope_attributes = scope_attrs, it_record = ?rec, it_attributes = record_attrs,
     it_events = events, it_event_attributes = event_attrs, it_links = links, it_link_attributes = link_attrs,
     it_trace_state = xq_trace_state (xp_context s), it_link_states = link_states\<rparr>"
  have "item_of al s ?it \<and> v = vectors_of (items @ [?it])"
    using v by (auto simp: sum_bind_Inr_iff span_push_Inr item_of_def parts vectors_of_def)
  then show ?thesis by blast
qed

lemma span_loop_items:
  "span_loop al spans (vectors_of items) = Inr v \<Longrightarrow> \<exists>its. list_all2 (item_of al) spans its \<and> v = vectors_of (items @ its)"
proof (induction spans arbitrary: items)
  case (Cons s spans)
  obtain v1 where v1: "span_step al s (vectors_of items) = Inr v1" "span_loop al spans v1 = Inr v"
    using Cons.prems by (auto simp: sum_bind_Inr_iff)
  obtain it where it: "item_of al s it" "v1 = vectors_of (items @ [it])" using span_step_item [OF v1(1)] by blast
  obtain its where "list_all2 (item_of al) spans its" "v = vectors_of ((items @ [it]) @ its)"
    using Cons.IH v1(2) it(2) by blast
  then show ?case using it(1) by (intro exI [of _ "it # its"]) simp
qed simp

lemma those_Some [simp]: "those (map Some xs) = Some xs"
  by (induction xs) simp_all

lemma those_all: "map f xs = map Some ys \<Longrightarrow> those (map f xs) = Some ys"
  by simp

lemma prefix_of_whole [simp]: "unat n = length xs \<Longrightarrow> prefix_of xs n = Some xs"
  by (simp add: prefix_of_def)

lemma element_nth [simp]: "i < length xs \<Longrightarrow> element xs i = Some (xs ! i)"
  by (simp add: element_def)

lemma follow_attributes_holds:
  assumes "convert_key_values al as = Inr ca" and "rust_attributes as" and "attributes_in st b = Some ca"
  shows "follow_attributes st (Some b) (word_of_nat (length (ca_attributes ca))) = Some as"
  using convert_key_values_holds [OF assms(1,2)] assms(3) by (simp add: follow_attributes_def holds_def)

lemma span_timestamp_nanos_Inr: "span_timestamp_nanos t what = Inr n \<Longrightarrow> uint n = t"
  by (auto simp: span_timestamp_nanos_def uint_word_of_int take_bit_int_eq_self split: if_splits)

lemma event_views_Inr:
  "event_views al es = Inr (views, attributes) \<Longrightarrow>
     length views = length es \<and> length attributes = length es \<and>
     (\<forall>j < length es. convert_key_values al (xe_attributes (es ! j)) = Inr (attributes ! j) \<and>
        (\<exists>t. span_timestamp_nanos (xe_timestamp (es ! j)) ''event timestamp'' = Inr t \<and>
           views ! j = \<lparr>ew_struct_size = 72, ew_name = sv_of (xe_name (es ! j)), ew_timestamp_unix_nanos = t, ew_attributes = None,
             ew_attribute_count = word_of_nat (length (ca_attributes (attributes ! j))),
             ew_dropped_attributes_count = xe_dropped_attributes_count (es ! j), ew_reserved_flags = 0, ew_reserved = replicate 2 0\<rparr>))"
proof (induction es arbitrary: views attributes)
  case (Cons e es)
  obtain ca t views' attributes' where
    p: "convert_key_values al (xe_attributes e) = Inr ca" "span_timestamp_nanos (xe_timestamp e) ''event timestamp'' = Inr t"
      "event_views al es = Inr (views', attributes')"
    and v: "attributes = ca # attributes'"
      "views = \<lparr>ew_struct_size = 72, ew_name = sv_of (xe_name e), ew_timestamp_unix_nanos = t, ew_attributes = None,
             ew_attribute_count = word_of_nat (length (ca_attributes ca)),
             ew_dropped_attributes_count = xe_dropped_attributes_count e, ew_reserved_flags = 0, ew_reserved = replicate 2 0\<rparr> # views'"
    using Cons.prems by (auto simp: sum_bind_Inr_iff)
  show ?case
    unfolding v using Cons.IH [OF p(3)] p(1,2) by (auto simp: nth_Cons less_Suc_eq_0_disj split: nat.split)
qed simp

lemma span_link_views_Inr:
  "span_link_views al ks = Inr (views, attributes, states) \<Longrightarrow>
     length views = length ks \<and> length attributes = length ks \<and> states = map (\<lambda>k. xq_trace_state (xk_context k)) ks \<and>
     (\<forall>j < length ks. convert_key_values al (xk_attributes (ks ! j)) = Inr (attributes ! j) \<and>
        views ! j = \<lparr>kw_struct_size = 96, kw_trace_id = xq_trace_id (xk_context (ks ! j)), kw_span_id = xq_span_id (xk_context (ks ! j)),
             kw_trace_flags = xq_trace_flags (xk_context (ks ! j)), kw_reserved_padding = replicate 3 0,
             kw_is_remote = of_bool (xq_is_remote (xk_context (ks ! j))), kw_trace_state = sv_empty, kw_attributes = None,
             kw_attribute_count = word_of_nat (length (ca_attributes (attributes ! j))),
             kw_dropped_attributes_count = xk_dropped_attributes_count (ks ! j), kw_reserved_flags = 0,
             kw_reserved = replicate 2 0\<rparr>)"
proof (induction ks arbitrary: views attributes states)
  case (Cons k ks)
  obtain ca views' attributes' states' where
    p: "convert_key_values al (xk_attributes k) = Inr ca" "span_link_views al ks = Inr (views', attributes', states')"
    and v: "attributes = ca # attributes'" "states = xq_trace_state (xk_context k) # states'"
      "views = \<lparr>kw_struct_size = 96, kw_trace_id = xq_trace_id (xk_context k), kw_span_id = xq_span_id (xk_context k),
             kw_trace_flags = xq_trace_flags (xk_context k), kw_reserved_padding = replicate 3 0,
             kw_is_remote = of_bool (xq_is_remote (xk_context k)), kw_trace_state = sv_empty, kw_attributes = None,
             kw_attribute_count = word_of_nat (length (ca_attributes ca)),
             kw_dropped_attributes_count = xk_dropped_attributes_count k, kw_reserved_flags = 0,
             kw_reserved = replicate 2 0\<rparr> # views'"
    using Cons.prems by (auto simp: sum_bind_Inr_iff)
  show ?case
    unfolding v using Cons.IH [OF p(2)] p(1) by (auto simp: nth_Cons less_Suc_eq_0_disj split: nat.split)
qed simp

lemma span_kind_inverse: "span_kind_from_u32 (span_kind_number k) = Some k"
  by (cases k) (simp_all add: span_kind_from_u32_def)

lemma read_status_inverse:
  "(case s of Status_Error d \<Rightarrow> rust_text d | _ \<Rightarrow> True) \<Longrightarrow> read_status (fst (status_parts s)) (view_text (snd (status_parts s))) = s"
  by (cases s) (simp_all add: read_status_def view_text_of)

lemma span_optional_text: "(\<forall>t \<in> set_option s. rust_text t) \<Longrightarrow> some_text (view_text (span_optional_view s)) = Option.bind s some_text"
  by (cases s) (simp_all add: span_optional_view_def view_text_of some_text_def)

text \<open>A storage whose vectors come from the items of its spans, with the pointers set.\<close>

definition linked :: "span_storage \<Rightarrow> span_item list \<Rightarrow> bool" where
  "linked st its \<longleftrightarrow>
     sv_scope_attributes st = map it_scope_attributes its \<and> sv_record_attributes st = map it_attributes its \<and>
     sv_event_attributes st = map it_event_attributes its \<and> sv_link_attributes st = map it_link_attributes its \<and>
     sv_events st = map (\<lambda>(i, es). link_events i es) (enumerate 0 (map it_events its)) \<and>
     sv_links st = map (\<lambda>(i, ks). link_links (vectors_of its) i ks) (enumerate 0 (map it_links its)) \<and>
     sv_scopes st = map (\<lambda>(i, s). link_span_scope i s) (enumerate 0 (map it_scope its)) \<and>
     sv_records st = map (\<lambda>(i, r). link_span_record (vectors_of its) i r) (enumerate 0 (map it_record its))"

lemma span_linked_nth:
  assumes "linked st its" and "i < length its"
  shows "element (sv_scopes st) i = Some (link_span_scope i (it_scope (its ! i)))"
    "element (sv_events st) i = Some (link_events i (it_events (its ! i)))"
    "element (sv_links st) i = Some (link_links (vectors_of its) i (it_links (its ! i)))"
    "sv_records st ! i = link_span_record (vectors_of its) i (it_record (its ! i))"
    "attributes_in st (SB_ScopeAttributes i) = Some (it_scope_attributes (its ! i))"
    "attributes_in st (SB_RecordAttributes i) = Some (it_attributes (its ! i))"
    "j < length (it_event_attributes (its ! i)) \<Longrightarrow>
      attributes_in st (SB_EventAttributes i j) = Some (it_event_attributes (its ! i) ! j)"
    "j < length (it_link_attributes (its ! i)) \<Longrightarrow>
      attributes_in st (SB_LinkAttributes i j) = Some (it_link_attributes (its ! i) ! j)"
  using assms by (simp_all add: linked_def attributes_in_def nth_enumerate_eq)

lemma follow_item_scope:
  assumes l: "linked st its" "i < length its" and it: "item_of al s (its ! i)" and ok: "rust_scope (xp_scope s)"
  shows "follow_span_scope st (Some (SB_Scope i)) = Some (normal_scope (xp_scope s))"
proof -
  obtain ca where ca: "convert_key_values al (xs_attributes (xp_scope s)) = Inr ca" "it_scope_attributes (its ! i) = ca"
    and v: "it_scope (its ! i) = \<lparr>cw_struct_size = 88, cw_name = sv_of (xs_name (xp_scope s)),
       cw_version = span_optional_view (xs_version (xp_scope s)), cw_schema_url = span_optional_view (xs_schema_url (xp_scope s)),
       cw_attributes = None, cw_attribute_count = word_of_nat (length (ca_attributes ca)), cw_reserved = replicate 2 0\<rparr>"
    using it by (auto simp: item_of_def convert_scope_def sum_bind_Inr_iff)
  have "follow_attributes st (Some (SB_ScopeAttributes i)) (word_of_nat (length (ca_attributes ca))) = Some (xs_attributes (xp_scope s))"
    using follow_attributes_holds [OF ca(1)] span_linked_nth(5) [OF l] ok ca(2) by (simp add: rust_scope_def)
  then show ?thesis
    using ok span_linked_nth(1) [OF l]
    by (simp add: follow_span_scope_def v link_span_scope_def normal_scope_def rust_scope_def view_text_of span_optional_text)
qed

lemma follow_item_events:
  assumes l: "linked st its" "i < length its" and it: "item_of al s (its ! i)"
    and ok: "rust_vector (xp_events s)" "\<forall>e \<in> set (xp_events s). rust_text (xe_name e) \<and> rust_attributes (xe_attributes e)"
  shows "follow_events st (Some (SB_Events i)) (word_of_nat (length (it_events (its ! i)))) = Some (xp_events s)"
proof -
  have "event_views al (xp_events s) = Inr (it_events (its ! i), it_event_attributes (its ! i))"
    using it by (simp add: item_of_def convert_events_def split: if_splits)
  note e = event_views_Inr [OF this]
  have n: "unat (word_of_nat (length (it_events (its ! i))) :: usize) = length (it_events (its ! i))"
    using ok(1) e by (intro count_of_length) (simp add: rust_vector_def)
  have "map (follow_event st) (link_events i (it_events (its ! i))) = map Some (xp_events s)"
  proof (rule nth_equalityI)
    fix j assume "j < length (map (follow_event st) (link_events i (it_events (its ! i))))"
    then have j: "j < length (xp_events s)" using e by (simp add: link_events_def)
    let ?e = "xp_events s ! j" and ?ca = "it_event_attributes (its ! i) ! j"
    obtain t where t: "span_timestamp_nanos (xe_timestamp ?e) ''event timestamp'' = Inr t"
      and ca: "convert_key_values al (xe_attributes ?e) = Inr ?ca"
      and v: "it_events (its ! i) ! j =
         \<lparr>ew_struct_size = 72, ew_name = sv_of (xe_name ?e), ew_timestamp_unix_nanos = t, ew_attributes = None,
          ew_attribute_count = word_of_nat (length (ca_attributes ?ca)),
          ew_dropped_attributes_count = xe_dropped_attributes_count ?e, ew_reserved_flags = 0, ew_reserved = replicate 2 0\<rparr>"
      using e j by blast
    have r: "rust_text (xe_name ?e)" "rust_attributes (xe_attributes ?e)" using ok(2) j by simp_all
    have "follow_attributes st (Some (SB_EventAttributes i j)) (word_of_nat (length (ca_attributes ?ca))) = Some (xe_attributes ?e)"
      by (rule follow_attributes_holds [OF ca r(2)]) (use span_linked_nth(7) [OF l] e j in simp)
    then show "map (follow_event st) (link_events i (it_events (its ! i))) ! j = map Some (xp_events s) ! j"
      using j e v r(1) span_timestamp_nanos_Inr [OF t]
      by (simp add: link_events_def nth_enumerate_eq follow_event_def view_text_of)
  qed (use e in \<open>simp add: link_events_def\<close>)
  then have "those (map (follow_event st) (link_events i (it_events (its ! i)))) = Some (xp_events s)" by (rule those_all)
  moreover have "length (link_events i (it_events (its ! i))) = length (it_events (its ! i))" by (simp add: link_events_def)
  ultimately show ?thesis using span_linked_nth(2) [OF l] n by (simp add: follow_events_def)
qed

lemma follow_item_links:
  assumes l: "linked st its" "i < length its" and it: "item_of al s (its ! i)"
    and ok: "rust_vector (xp_links s)"
      "\<forall>k \<in> set (xp_links s). rust_text (xq_trace_state (xk_context k)) \<and> rust_attributes (xk_attributes k)"
  shows "follow_links st (Some (SB_Links i)) (word_of_nat (length (it_links (its ! i)))) = Some (xp_links s)"
proof -
  have "span_link_views al (xp_links s) = Inr (it_links (its ! i), it_link_attributes (its ! i), it_link_states (its ! i))"
    using it by (simp add: item_of_def convert_span_links_def split: if_splits)
  note e = span_link_views_Inr [OF this]
  have n: "unat (word_of_nat (length (it_links (its ! i))) :: usize) = length (it_links (its ! i))"
    using ok(1) e by (intro count_of_length) (simp add: rust_vector_def)
  have states: "sv_link_trace_states (vectors_of its) ! i = it_link_states (its ! i)" using l(2) by (simp add: vectors_of_def)
  have "map (follow_link st) (link_links (vectors_of its) i (it_links (its ! i))) = map Some (xp_links s)"
  proof (rule nth_equalityI)
    fix j assume "j < length (map (follow_link st) (link_links (vectors_of its) i (it_links (its ! i))))"
    then have j: "j < length (xp_links s)" using e by (simp add: link_links_def)
    let ?k = "xp_links s ! j" and ?ca = "it_link_attributes (its ! i) ! j"
    have ca: "convert_key_values al (xk_attributes ?k) = Inr ?ca"
      and v: "it_links (its ! i) ! j =
         \<lparr>kw_struct_size = 96, kw_trace_id = xq_trace_id (xk_context ?k), kw_span_id = xq_span_id (xk_context ?k),
          kw_trace_flags = xq_trace_flags (xk_context ?k), kw_reserved_padding = replicate 3 0,
          kw_is_remote = of_bool (xq_is_remote (xk_context ?k)), kw_trace_state = sv_empty, kw_attributes = None,
          kw_attribute_count = word_of_nat (length (ca_attributes ?ca)),
          kw_dropped_attributes_count = xk_dropped_attributes_count ?k, kw_reserved_flags = 0, kw_reserved = replicate 2 0\<rparr>"
      using e j by blast+
    have r: "rust_text (xq_trace_state (xk_context ?k))" "rust_attributes (xk_attributes ?k)" using ok(2) j by simp_all
    have "follow_attributes st (Some (SB_LinkAttributes i j)) (word_of_nat (length (ca_attributes ?ca))) = Some (xk_attributes ?k)"
      by (rule follow_attributes_holds [OF ca r(2)]) (use span_linked_nth(8) [OF l] e j in simp)
    then show "map (follow_link st) (link_links (vectors_of its) i (it_links (its ! i))) ! j = map Some (xp_links s) ! j"
      using j e v r(1) by (simp add: link_links_def nth_enumerate_eq follow_link_def view_text_of states)
  qed (use e in \<open>simp add: link_links_def\<close>)
  then have "those (map (follow_link st) (link_links (vectors_of its) i (it_links (its ! i)))) = Some (xp_links s)" by (rule those_all)
  moreover have "length (link_links (vectors_of its) i (it_links (its ! i))) = length (it_links (its ! i))" by (simp add: link_links_def)
  ultimately show ?thesis using span_linked_nth(3) [OF l] n by (simp add: follow_links_def)
qed

lemma follow_item:
  assumes l: "linked st its" "i < length its" and it: "item_of al s (its ! i)" and ok: "rust_span s"
  shows "follow_span st (sv_records st ! i) = Some (normal_span s)"
proof -
  have r: "rust_text (xp_name s)" "rust_text (xq_trace_state (xp_context s))"
    "case xp_status s of Status_Error d \<Rightarrow> rust_text d | _ \<Rightarrow> True"
    "rust_attributes (xp_attributes s)" "rust_scope (xp_scope s)" "rust_vector (xp_events s)"
    "\<forall>e \<in> set (xp_events s). rust_text (xe_name e) \<and> rust_attributes (xe_attributes e)" "rust_vector (xp_links s)"
    "\<forall>k \<in> set (xp_links s). rust_text (xq_trace_state (xk_context k)) \<and> rust_attributes (xk_attributes k)"
    using ok unfolding rust_span_def by blast+
  note parts = follow_item_scope [OF l it r(5)] follow_item_events [OF l it r(6,7)] follow_item_links [OF l it r(8,9)]
  have ca: "convert_key_values al (xp_attributes s) = Inr (it_attributes (its ! i))" using it by (simp add: item_of_def)
  note as = follow_attributes_holds [OF ca r(4) span_linked_nth(6) [OF l]]
  obtain start finish where t: "span_timestamp_nanos (xp_start_time s) ''start time'' = Inr start"
      "span_timestamp_nanos (xp_end_time s) ''end time'' = Inr finish"
    and v: "it_record (its ! i) =
          \<lparr>pw_struct_size = 224, pw_name = sv_of (xp_name s), pw_trace_id = xq_trace_id (xp_context s),
           pw_span_id = xq_span_id (xp_context s), pw_parent_span_id = xp_parent_span_id s,
           pw_trace_flags = xq_trace_flags (xp_context s), pw_reserved_padding = replicate 3 0,
           pw_is_remote = of_bool (xq_is_remote (xp_context s)), pw_span_kind = span_kind_number (xp_span_kind s),
           pw_status_code = fst (status_parts (xp_status s)), pw_start_time_unix_nanos = start, pw_end_time_unix_nanos = finish,
           pw_status_message = snd (status_parts (xp_status s)), pw_trace_state = sv_empty,
           pw_attributes = None, pw_attribute_count = word_of_nat (length (ca_attributes (it_attributes (its ! i)))),
           pw_events = None, pw_event_count = word_of_nat (length (it_events (its ! i))),
           pw_links = None, pw_link_count = word_of_nat (length (it_links (its ! i))),
           pw_dropped_attributes_count = xp_dropped_attributes_count s, pw_dropped_events_count = xp_dropped_events_count s,
           pw_dropped_links_count = xp_dropped_links_count s, pw_reserved_flags = 0, pw_scope = None, pw_reserved = replicate 4 0\<rparr>"
    using it unfolding item_of_def by blast
  have state: "sv_record_trace_states (vectors_of its) ! i = xq_trace_state (xp_context s)"
    using l(2) it by (simp add: vectors_of_def item_of_def)
  show ?thesis
    unfolding span_linked_nth(4) [OF l] v link_span_record_def follow_span_def state span_record_view.simps as parts bind.bind_lunit
      span_kind_inverse option.sel view_text_of [OF r(1)] view_text_of [OF r(2)] read_status_inverse [OF r(3)]
      span_timestamp_nanos_Inr [OF t(1)] span_timestamp_nanos_Inr [OF t(2)]
    by (simp add: normal_span_def)
qed

text \<open>
  C16: An exporter that follows the view of a batch of spans reads the spans. If the conversion succeeds, then every
  pointer leads to as many elements as its count says, and following the records in order yields every span of the
  batch with its names, times, status, attributes (arrays included), events, links and scope, each exactly as it was, but
  that an empty scope version or schema URL reads as an absent one.
\<close>

theorem exported_spans_read_back:
  assumes run: "convert_span_batch al spans resource = Inr st" and ok: "\<forall>s \<in> set spans. rust_span s"
    and resource: "rust_attributes (xo_attributes resource)"
  shows "map (follow_span st) (sv_records st) = map (\<lambda>s. Some (normal_span s)) spans \<and>
    follow_attributes st (tw_resource_attributes (st_batch st)) (tw_resource_attribute_count (st_batch st)) =
      Some (xo_attributes resource) \<and>
    unat (tw_record_count (st_batch st)) = length spans"
proof -
  obtain ca v where ca: "convert_key_values al (xo_attributes resource) = Inr ca" and v: "span_loop al spans no_spans = Inr v"
    and len: "length spans \<le> OTEL_SPAN_EXPORT_MAX_SPANS"
    using run by (auto simp: convert_span_batch_def sum_bind_Inr_iff split: if_splits)
  have "no_spans = vectors_of []" by (simp add: no_spans_def vectors_of_def)
  then obtain its where its: "list_all2 (item_of al) spans its" and vs: "v = vectors_of its"
    using span_loop_items [of al spans "[]"] v by auto
  note st = run [unfolded convert_span_batch_def ca v sum_bind_simps vs vectors_of_def span_vectors.simps]
  have s: "sv_scope_attributes st = map it_scope_attributes its" "sv_record_attributes st = map it_attributes its"
    "sv_event_attributes st = map it_event_attributes its" "sv_link_attributes st = map it_link_attributes its"
    "sv_events st = map (\<lambda>(i, es). link_events i es) (enumerate 0 (map it_events its))"
    "sv_links st = map (\<lambda>(i, ks). link_links v i ks) (enumerate 0 (map it_links its))"
    "sv_scopes st = map (\<lambda>(i, s). link_span_scope i s) (enumerate 0 (map it_scope its))"
    "sv_records st = map (\<lambda>(i, r). link_span_record v i r) (enumerate 0 (map it_record its))"
    "st_resource_attributes st = ca" "tw_resource_attributes (st_batch st) = Some SB_ResourceAttributes"
    "tw_resource_attribute_count (st_batch st) = word_of_nat (length (ca_attributes ca))"
    "tw_record_count (st_batch st) = word_of_nat (length its)"
    using st len by (auto simp: vs vectors_of_def)
  have n: "length its = length spans" using its by (simp add: list_all2_lengthD)
  have "follow_span st (sv_records st ! i) = Some (normal_span (spans ! i))" if i: "i < length spans" for i
  proof (rule follow_item)
    show "linked st its" using s by (simp add: linked_def vs)
    show "i < length its" using that n by simp
    show "item_of al (spans ! i) (its ! i)" using its i by (simp add: list_all2_conv_all_nth)
    show "rust_span (spans ! i)" using ok i by simp
  qed
  then have "map (follow_span st) (sv_records st) = map (\<lambda>s. Some (normal_span s)) spans"
    by (intro nth_equalityI) (simp_all add: s n)
  moreover have "follow_attributes st (tw_resource_attributes (st_batch st)) (tw_resource_attribute_count (st_batch st)) =
      Some (xo_attributes resource)"
    unfolding s by (rule follow_attributes_holds [OF ca resource]) (simp add: attributes_in_def s)
  moreover have "unat (tw_record_count (st_batch st)) = length spans"
    using len unfolding s n by (intro unat_word_of_nat64) (simp add: OTEL_SPAN_EXPORT_MAX_SPANS_def)
  ultimately show ?thesis by blast
qed

section \<open>Sample\<close>

definition sample_exported_context :: exported_context where
  "sample_exported_context =
     \<lparr>xq_trace_id = replicate 16 1, xq_span_id = replicate 8 2, xq_trace_flags = 1, xq_is_remote = True, xq_trace_state = [97, 61, 98]\<rparr>"

definition sample_exported_span :: exported_span where
  "sample_exported_span =
     \<lparr>xp_context = sample_exported_context, xp_parent_span_id = replicate 8 0, xp_name = [110], xp_span_kind = SK_Client,
      xp_status = Status_Error [101], xp_start_time = 5, xp_end_time = 9,
      xp_attributes = [([97], Att_Array (Arr_String [[98], []])), ([99], Att_Scalar (V_I64 7)), ([100], Att_Array (Arr_Bool [True, False]))],
      xp_dropped_attributes_count = 0,
      xp_events = [\<lparr>xe_name = [101], xe_timestamp = 6, xe_attributes = [([97], Att_Array (Arr_I64 [1, 2]))], xe_dropped_attributes_count = 1\<rparr>],
      xp_dropped_events_count = 0,
      xp_links = [\<lparr>xk_context = sample_exported_context, xk_attributes = [], xk_dropped_attributes_count = 0\<rparr>],
      xp_dropped_links_count = 0,
      xp_scope = \<lparr>xs_name = [115], xs_version = Some [], xs_schema_url = None, xs_attributes = [([107], Att_Scalar (V_Bool True))]\<rparr>\<rparr>"

lemma sample_exported_span_ok: "rust_span sample_exported_span"
proof -
  have "valid_utf8 [97]" "valid_utf8 [98]" "valid_utf8 [99]" "valid_utf8 [100]" "valid_utf8 [101]" "valid_utf8 [107]" "valid_utf8 [110]"
    "valid_utf8 [115]" "valid_utf8 []" "valid_utf8 [97, 61, 98]"
    by code_simp+
  then show ?thesis
    by (simp add: rust_span_def sample_exported_span_def sample_exported_context_def rust_text_def rust_vector_def rust_attributes_def
        rust_value_def array_length_def rust_scope_def isize_max_def)
qed

theorem exported_spans_read_back_witness:
  "\<exists>st. convert_span_batch (\<lambda>_. True) [sample_exported_span] \<lparr>xo_schema_url = None, xo_attributes = []\<rparr> = Inr st \<and>
     map (follow_span st) (sv_records st) = [Some (normal_span sample_exported_span)]"
proof -
  have "\<exists>st. convert_span_batch (\<lambda>_. True) [sample_exported_span] \<lparr>xo_schema_url = None, xo_attributes = []\<rparr> = Inr st"
    by (simp add: convert_span_batch_def span_step_def convert_key_values_def convert_events_def convert_span_links_def convert_scope_def
        convert_attribute_parts_def span_push_def span_timestamp_nanos_def sample_exported_span_def sample_exported_context_def
        OTEL_SPAN_EXPORT_MAX_SPANS_def Let_def)
  then obtain st where "convert_span_batch (\<lambda>_. True) [sample_exported_span] \<lparr>xo_schema_url = None, xo_attributes = []\<rparr> = Inr st" ..
  then show ?thesis
    using exported_spans_read_back [of "\<lambda>_. True" "[sample_exported_span]" "\<lparr>xo_schema_url = None, xo_attributes = []\<rparr>" st] sample_exported_span_ok
    by (auto simp: rust_attributes_def rust_vector_def)
qed

end
