(* ===== verification/Metric_Batch.thy ===== *)
theory Metric_Batch
  imports Span_Export
begin

text \<open>
  Metric batches (\<open>sdk/src/metric_batch.rs\<close>): the tokens that name a batch while its exporter callback runs on a
  thread, and the traversal that hands the batch to a C visitor, callback by callback. The visitor's callbacks are
  an arbitrary function \<open>respond\<close> from the visits so far and the current visit to a status. A 64-bit number of
  either kind is its bit pattern, times are nanoseconds since the epoch.
\<close>

section \<open>The data\<close>

datatype temporality = Cumulative | Delta | LowMemory

record metric_exemplar =
  ex_time :: int
  ex_value :: u64
  ex_span_id :: bytes
  ex_trace_id :: bytes
  ex_attributes :: exported_attributes

record number_point =
  np_value :: u64
  np_attributes :: exported_attributes
  np_exemplars :: "metric_exemplar list"

record gauge_data =
  ga_start_time :: "int option"
  ga_time :: int
  ga_points :: "number_point list"

record sum_data =
  su_start_time :: int
  su_time :: int
  su_temporality :: temporality
  su_is_monotonic :: bool
  su_points :: "number_point list"

record histogram_point =
  hp_bounds :: "u64 list"
  hp_bucket_counts :: "u64 list"
  hp_count :: u64
  hp_sum :: u64
  hp_min :: "u64 option"
  hp_max :: "u64 option"
  hp_attributes :: exported_attributes
  hp_exemplars :: "metric_exemplar list"

record histogram_data =
  hi_start_time :: int
  hi_time :: int
  hi_temporality :: temporality
  hi_points :: "histogram_point list"

record exponential_point =
  ep_positive_offset :: "32 word"
  ep_positive_counts :: "u64 list"
  ep_negative_offset :: "32 word"
  ep_negative_counts :: "u64 list"
  ep_count :: usize
  ep_sum :: u64
  ep_min :: "u64 option"
  ep_max :: "u64 option"
  ep_scale :: u8
  ep_zero_count :: u64
  ep_zero_threshold :: u64
  ep_attributes :: exported_attributes
  ep_exemplars :: "metric_exemplar list"

record exponential_data =
  eh_start_time :: int
  eh_time :: int
  eh_temporality :: temporality
  eh_points :: "exponential_point list"

datatype metric_data =
    MD_Gauge gauge_data
  | MD_Sum sum_data
  | MD_Histogram histogram_data
  | MD_ExponentialHistogram exponential_data

datatype aggregated_metrics = Agg_U64 metric_data | Agg_I64 metric_data | Agg_F64 metric_data

record metric =
  me_name :: bytes
  me_description :: bytes
  me_unit :: bytes
  me_data :: aggregated_metrics

record scope_metrics =
  sm_scope :: exported_scope
  sm_metrics :: "metric list"

record resource_metrics =
  rm_resource :: exported_attributes
  rm_scopes :: "scope_metrics list"

section \<open>What a visitor sees\<close>

definition OTEL_METRIC_ATTRIBUTE_STRING_ARRAY :: u32 where "OTEL_METRIC_ATTRIBUTE_STRING_ARRAY = 4"
definition OTEL_METRIC_ATTRIBUTE_BOOL_ARRAY :: u32 where "OTEL_METRIC_ATTRIBUTE_BOOL_ARRAY = 5"
definition OTEL_METRIC_ATTRIBUTE_INT64_ARRAY :: u32 where "OTEL_METRIC_ATTRIBUTE_INT64_ARRAY = 6"
definition OTEL_METRIC_ATTRIBUTE_DOUBLE_ARRAY :: u32 where "OTEL_METRIC_ATTRIBUTE_DOUBLE_ARRAY = 7"

datatype metric_array = MA_Bools "u32 list" | MA_Strings "otel_string_view list" | MA_I64 "i64 list" | MA_F64 "u64 list"

record metric_attribute =
  ma_key :: otel_string_view
  ma_value_type :: u32
  ma_string :: otel_string_view
  ma_bool :: u32
  ma_int64 :: i64
  ma_double :: u64
  ma_values :: "metric_array option"
  ma_count :: usize

record metric_metadata =
  mm_name :: otel_string_view
  mm_description :: otel_string_view
  mm_unit :: otel_string_view
  mm_data_kind :: u32
  mm_number_kind :: u32

record metric_point =
  mp_point_index :: usize
  mp_start_time_unix_nanos :: u64
  mp_time_unix_nanos :: u64
  mp_temporality :: u32
  mp_is_monotonic :: u32
  mp_value :: u64
  mp_count :: u64
  mp_sum :: u64
  mp_min :: u64
  mp_max :: u64
  mp_has_min :: u32
  mp_has_max :: u32
  mp_scale :: u8
  mp_zero_count :: u64
  mp_zero_threshold :: u64
  mp_positive_bucket_offset :: "32 word"
  mp_negative_bucket_offset :: "32 word"

record exemplar_view =
  ev_point_index :: usize
  ev_exemplar_index :: usize
  ev_time_unix_nanos :: u64
  ev_value :: u64
  ev_span_id :: bytes
  ev_trace_id :: bytes

text \<open>The arrays of a point are its bounds, its bucket counts and its positive and negative buckets.\<close>

datatype visit =
    V_Resource "metric_attribute list"
  | V_Scope otel_string_view otel_string_view otel_string_view "metric_attribute list"
  | V_Metric metric_metadata
  | V_Point metric_point "metric_attribute list" "u64 list" "u64 list" "u64 list" "u64 list"
  | V_Exemplar exemplar_view "metric_attribute list"

text \<open>A visitor: the size that its table claims, and which of its callbacks are not NULL.\<close>

record metric_visitor =
  mv_struct_size :: usize
  mv_resource :: bool
  mv_scope :: bool
  mv_metric :: bool
  mv_point :: bool
  mv_exemplar :: bool

section \<open>Conversion\<close>

definition scalar_view :: "bytes \<Rightarrow> u32 \<Rightarrow> metric_attribute" where
  "scalar_view key t =
     \<lparr>ma_key = sv_of key, ma_value_type = t, ma_string = sv_empty, ma_bool = 0, ma_int64 = 0, ma_double = 0,
      ma_values = None, ma_count = 0\<rparr>"

definition array_view :: "bytes \<Rightarrow> u32 \<Rightarrow> metric_array \<Rightarrow> nat \<Rightarrow> metric_attribute" where
  "array_view key t xs n = (scalar_view key t)\<lparr>ma_values := Some xs, ma_count := word_of_nat n\<rparr>"

definition metric_attribute_view :: "bytes \<Rightarrow> attribute_value \<Rightarrow> metric_attribute" where
  "metric_attribute_view key value =
     (case value of
        Att_Scalar (V_String s) \<Rightarrow> (scalar_view key 0)\<lparr>ma_string := sv_of s\<rparr>
      | Att_Scalar (V_Bool b) \<Rightarrow> (scalar_view key 1)\<lparr>ma_bool := of_bool b\<rparr>
      | Att_Scalar (V_I64 i) \<Rightarrow> (scalar_view key 2)\<lparr>ma_int64 := i\<rparr>
      | Att_Scalar (V_F64 d) \<Rightarrow> (scalar_view key 3)\<lparr>ma_double := d\<rparr>
      | Att_Array (Arr_String ss) \<Rightarrow> array_view key OTEL_METRIC_ATTRIBUTE_STRING_ARRAY (MA_Strings (map sv_of ss)) (length ss)
      | Att_Array (Arr_Bool bs) \<Rightarrow> array_view key OTEL_METRIC_ATTRIBUTE_BOOL_ARRAY (MA_Bools (map of_bool bs)) (length bs)
      | Att_Array (Arr_I64 xs) \<Rightarrow> array_view key OTEL_METRIC_ATTRIBUTE_INT64_ARRAY (MA_I64 xs) (length xs)
      | Att_Array (Arr_F64 xs) \<Rightarrow> array_view key OTEL_METRIC_ATTRIBUTE_DOUBLE_ARRAY (MA_F64 xs) (length xs))"

definition with_attributes :: "exported_attributes \<Rightarrow> metric_attribute list" where
  "with_attributes attributes = map (\<lambda>(key, value). metric_attribute_view key value) attributes"

definition metric_timestamp :: "int \<Rightarrow> abi_error + u64" where
  "metric_timestamp t =
     (if t < 0 then Inl (abi_error_new St_InternalError ''metric timestamp predates Unix epoch'')
      else if 2 ^ 64 \<le> t then Inl (abi_error_new St_InternalError ''metric timestamp exceeds the C nanosecond range'')
      else Inr (word_of_int t))"

definition optional_timestamp :: "int option \<Rightarrow> abi_error + u64" where
  "optional_timestamp t = (case t of None \<Rightarrow> Inr 0 | Some v \<Rightarrow> metric_timestamp v)"

fun temporality_number :: "temporality \<Rightarrow> u32" where
  "temporality_number Cumulative = 1"
| "temporality_number Delta = 2"
| "temporality_number LowMemory = 3"

section \<open>Traversal\<close>

text \<open>A traversal step takes the visits so far and yields an error, if any, and the visits after it.\<close>

type_synonym responder = "visit list \<Rightarrow> visit \<Rightarrow> otel_status"

type_synonym traversal = "visit list \<Rightarrow> abi_error option \<times> visit list"

definition and_then :: "traversal \<Rightarrow> traversal \<Rightarrow> traversal" where
  "and_then t u h = (case t h of (None, h') \<Rightarrow> u h' | (Some e, h') \<Rightarrow> (Some e, h'))"

definition stop :: "abi_error \<Rightarrow> traversal" where
  "stop e h = (Some e, h)"

definition carry_on :: traversal where
  "carry_on h = (None, h)"

definition with_result :: "abi_error + 'a \<Rightarrow> ('a \<Rightarrow> traversal) \<Rightarrow> traversal" where
  "with_result r f = (case r of Inl e \<Rightarrow> stop e | Inr x \<Rightarrow> f x)"

text \<open>A callback and \<open>Visitor::check\<close> of its status.\<close>

definition check_visit :: "responder \<Rightarrow> string \<Rightarrow> visit \<Rightarrow> traversal" where
  "check_visit respond operation v h =
     (let status = respond h v in
      (if status = St_Ok then None
       else Some (abi_error_new status (''custom metric visitor '' @ operation @ '' callback failed'')), h @ [v]))"

fun visit_exemplars :: "responder \<Rightarrow> metric_visitor \<Rightarrow> nat \<Rightarrow> nat \<Rightarrow> metric_exemplar list \<Rightarrow> traversal" where
  "visit_exemplars respond mv point_index i exemplars =
     (if \<not> mv_exemplar mv then carry_on
      else
        (case exemplars of
           [] \<Rightarrow> carry_on
         | e # es \<Rightarrow>
             with_result (metric_timestamp (ex_time e)) (\<lambda>t.
               and_then
                 (check_visit respond ''exemplar''
                   (V_Exemplar
                     \<lparr>ev_point_index = word_of_nat point_index, ev_exemplar_index = word_of_nat i, ev_time_unix_nanos = t,
                      ev_value = ex_value e, ev_span_id = ex_span_id e, ev_trace_id = ex_trace_id e\<rparr>
                     (with_attributes (ex_attributes e))))
                 (visit_exemplars respond mv point_index (Suc i) es))))"

definition visit_point :: "responder \<Rightarrow> metric_visitor \<Rightarrow> visit \<Rightarrow> traversal" where
  "visit_point respond mv v = (if mv_point mv then check_visit respond ''point'' v else carry_on)"

definition plain_point :: "nat \<Rightarrow> u64 \<Rightarrow> u64 \<Rightarrow> metric_point" where
  "plain_point i start time =
     \<lparr>mp_point_index = word_of_nat i, mp_start_time_unix_nanos = start, mp_time_unix_nanos = time, mp_temporality = 0,
      mp_is_monotonic = 0, mp_value = 0, mp_count = 0, mp_sum = 0, mp_min = 0, mp_max = 0, mp_has_min = 0, mp_has_max = 0,
      mp_scale = 0, mp_zero_count = 0, mp_zero_threshold = 0, mp_positive_bucket_offset = 0, mp_negative_bucket_offset = 0\<rparr>"

fun visit_gauge :: "responder \<Rightarrow> metric_visitor \<Rightarrow> gauge_data \<Rightarrow> nat \<Rightarrow> number_point list \<Rightarrow> traversal" where
  "visit_gauge respond mv g i [] = carry_on"
| "visit_gauge respond mv g i (p # ps) =
     with_result (optional_timestamp (ga_start_time g)) (\<lambda>start.
     with_result (metric_timestamp (ga_time g)) (\<lambda>time.
       and_then
         (visit_point respond mv
           (V_Point ((plain_point i start time)\<lparr>mp_value := np_value p\<rparr>) (with_attributes (np_attributes p)) [] [] [] []))
         (and_then (visit_exemplars respond mv i 0 (np_exemplars p)) (visit_gauge respond mv g (Suc i) ps))))"

fun visit_sum :: "responder \<Rightarrow> metric_visitor \<Rightarrow> sum_data \<Rightarrow> nat \<Rightarrow> number_point list \<Rightarrow> traversal" where
  "visit_sum respond mv s i [] = carry_on"
| "visit_sum respond mv s i (p # ps) =
     with_result (metric_timestamp (su_start_time s)) (\<lambda>start.
     with_result (metric_timestamp (su_time s)) (\<lambda>time.
       and_then
         (visit_point respond mv
           (V_Point
             ((plain_point i start time)\<lparr>mp_temporality := temporality_number (su_temporality s),
                mp_is_monotonic := of_bool (su_is_monotonic s), mp_value := np_value p\<rparr>)
             (with_attributes (np_attributes p)) [] [] [] []))
         (and_then (visit_exemplars respond mv i 0 (np_exemplars p)) (visit_sum respond mv s (Suc i) ps))))"

fun visit_histogram :: "responder \<Rightarrow> metric_visitor \<Rightarrow> histogram_data \<Rightarrow> nat \<Rightarrow> histogram_point list \<Rightarrow> traversal" where
  "visit_histogram respond mv hg i [] = carry_on"
| "visit_histogram respond mv hg i (p # ps) =
     with_result (metric_timestamp (hi_start_time hg)) (\<lambda>start.
     with_result (metric_timestamp (hi_time hg)) (\<lambda>time.
       and_then
         (visit_point respond mv
           (V_Point
             ((plain_point i start time)\<lparr>mp_temporality := temporality_number (hi_temporality hg), mp_count := hp_count p,
                mp_sum := hp_sum p, mp_min := case_option 0 id (hp_min p), mp_max := case_option 0 id (hp_max p),
                mp_has_min := of_bool (hp_min p \<noteq> None), mp_has_max := of_bool (hp_max p \<noteq> None)\<rparr>)
             (with_attributes (hp_attributes p)) (hp_bounds p) (hp_bucket_counts p) [] []))
         (and_then (visit_exemplars respond mv i 0 (hp_exemplars p)) (visit_histogram respond mv hg (Suc i) ps))))"

fun visit_exponential_histogram ::
  "responder \<Rightarrow> metric_visitor \<Rightarrow> exponential_data \<Rightarrow> nat \<Rightarrow> exponential_point list \<Rightarrow> traversal" where
  "visit_exponential_histogram respond mv hg i [] = carry_on"
| "visit_exponential_histogram respond mv hg i (p # ps) =
     with_result (metric_timestamp (eh_start_time hg)) (\<lambda>start.
     with_result (metric_timestamp (eh_time hg)) (\<lambda>time.
       and_then
         (visit_point respond mv
           (V_Point
             ((plain_point i start time)\<lparr>mp_temporality := temporality_number (eh_temporality hg), mp_count := ep_count p,
                mp_sum := ep_sum p, mp_min := case_option 0 id (ep_min p), mp_max := case_option 0 id (ep_max p),
                mp_has_min := of_bool (ep_min p \<noteq> None), mp_has_max := of_bool (ep_max p \<noteq> None), mp_scale := ep_scale p,
                mp_zero_count := ep_zero_count p, mp_zero_threshold := ep_zero_threshold p,
                mp_positive_bucket_offset := ep_positive_offset p, mp_negative_bucket_offset := ep_negative_offset p\<rparr>)
             (with_attributes (ep_attributes p)) [] [] (ep_positive_counts p) (ep_negative_counts p)))
         (and_then (visit_exemplars respond mv i 0 (ep_exemplars p)) (visit_exponential_histogram respond mv hg (Suc i) ps))))"

definition announce_metric :: "responder \<Rightarrow> metric_visitor \<Rightarrow> metric \<Rightarrow> u32 \<Rightarrow> u32 \<Rightarrow> traversal" where
  "announce_metric respond mv m data_kind number_kind =
     (if mv_metric mv then
        check_visit respond ''metric''
          (V_Metric \<lparr>mm_name = sv_of (me_name m), mm_description = sv_of (me_description m), mm_unit = sv_of (me_unit m),
                     mm_data_kind = data_kind, mm_number_kind = number_kind\<rparr>)
      else carry_on)"

definition visit_data :: "responder \<Rightarrow> metric_visitor \<Rightarrow> metric \<Rightarrow> u32 \<Rightarrow> metric_data \<Rightarrow> traversal" where
  "visit_data respond mv m number_kind d =
     (case d of
        MD_Gauge g \<Rightarrow> and_then (announce_metric respond mv m 0 number_kind) (visit_gauge respond mv g 0 (ga_points g))
      | MD_Sum s \<Rightarrow> and_then (announce_metric respond mv m 1 number_kind) (visit_sum respond mv s 0 (su_points s))
      | MD_Histogram h \<Rightarrow> and_then (announce_metric respond mv m 2 number_kind) (visit_histogram respond mv h 0 (hi_points h))
      | MD_ExponentialHistogram h \<Rightarrow>
          and_then (announce_metric respond mv m 3 number_kind) (visit_exponential_histogram respond mv h 0 (eh_points h)))"

definition visit_metric :: "responder \<Rightarrow> metric_visitor \<Rightarrow> metric \<Rightarrow> traversal" where
  "visit_metric respond mv m =
     (case me_data m of
        Agg_U64 d \<Rightarrow> visit_data respond mv m 0 d
      | Agg_I64 d \<Rightarrow> visit_data respond mv m 1 d
      | Agg_F64 d \<Rightarrow> visit_data respond mv m 2 d)"

fun visit_metrics :: "responder \<Rightarrow> metric_visitor \<Rightarrow> metric list \<Rightarrow> traversal" where
  "visit_metrics respond mv [] = carry_on"
| "visit_metrics respond mv (m # ms) = and_then (visit_metric respond mv m) (visit_metrics respond mv ms)"

definition visit_scope :: "responder \<Rightarrow> metric_visitor \<Rightarrow> exported_scope \<Rightarrow> traversal" where
  "visit_scope respond mv s =
     (if mv_scope mv then
        check_visit respond ''scope''
          (V_Scope (sv_of (xs_name s)) (sv_of (case_option [] id (xs_version s))) (sv_of (case_option [] id (xs_schema_url s)))
            (with_attributes (xs_attributes s)))
      else carry_on)"

fun visit_scopes :: "responder \<Rightarrow> metric_visitor \<Rightarrow> scope_metrics list \<Rightarrow> traversal" where
  "visit_scopes respond mv [] = carry_on"
| "visit_scopes respond mv (sm # sms) =
     and_then (visit_scope respond mv (sm_scope sm))
       (and_then (visit_metrics respond mv (sm_metrics sm)) (visit_scopes respond mv sms))"

definition visit_resource :: "responder \<Rightarrow> metric_visitor \<Rightarrow> resource_metrics \<Rightarrow> traversal" where
  "visit_resource respond mv rm =
     (if mv_resource mv then check_visit respond ''resource'' (V_Resource (with_attributes (rm_resource rm))) else carry_on)"

section \<open>Tokens\<close>

text \<open>The token counter of the process, and each thread's stack of active batches.\<close>

record batch_registry =
  br_next :: usize
  br_active :: "nat \<Rightarrow> (usize \<times> resource_metrics) list"

text \<open>\<open>fetch_add\<close> in a loop that skips the token 0: at most two rounds.\<close>

definition next_batch_token :: "usize \<Rightarrow> usize \<times> usize" where
  "next_batch_token n = (if n \<noteq> 0 then (n, n + 1) else (n + 1, n + 2))"

definition register_batch :: "nat \<Rightarrow> resource_metrics \<Rightarrow> batch_registry \<Rightarrow> usize \<times> batch_registry" where
  "register_batch thread metrics s =
     (case next_batch_token (br_next s) of
        (token, n) \<Rightarrow>
          (token, s\<lparr>br_next := n, br_active := (br_active s)(thread := br_active s thread @ [(token, metrics)])\<rparr>))"

fun remove_last_match :: "usize \<Rightarrow> (usize \<times> 'a) list \<Rightarrow> (usize \<times> 'a) list" where
  "remove_last_match t [] = []"
| "remove_last_match t (x # xs) = (if t \<in> fst ` set xs then x # remove_last_match t xs else if fst x = t then xs else x # xs)"

definition unregister_batch :: "nat \<Rightarrow> usize \<Rightarrow> batch_registry \<Rightarrow> batch_registry" where
  "unregister_batch thread token s =
     s\<lparr>br_active := (br_active s)(thread := remove_last_match token (br_active s thread))\<rparr>"

definition active_batch :: "nat \<Rightarrow> usize \<Rightarrow> batch_registry \<Rightarrow> resource_metrics option" where
  "active_batch thread token s = map_of (rev (br_active s thread)) token"

text \<open>The entry point; a visitor is the structure behind the pointer, if it is not NULL.\<close>

definition otel_metric_batch_visit ::
  "responder \<Rightarrow> nat \<Rightarrow> usize \<Rightarrow> metric_visitor option \<Rightarrow> batch_registry \<Rightarrow> abi_error option \<times> visit list" where
  "otel_metric_batch_visit respond thread batch visitor s =
     (case active_batch thread batch s of
        None \<Rightarrow> (Some (abi_error_new St_InvalidArgument ''metric batch is not active for this exporter callback thread''), [])
      | Some metrics \<Rightarrow>
          (case visitor of
             None \<Rightarrow> (Some (abi_error_new St_InvalidArgument ''metric visitor must not be NULL''), [])
           | Some mv \<Rightarrow>
               if mv_struct_size mv < 48 then
                 (Some (abi_error_new St_InvalidConfig ''metric visitor structure is smaller than the required ABI size''), [])
               else and_then (visit_resource respond mv metrics) (visit_scopes respond mv (rm_scopes metrics)) []))"

section \<open>The traversal as a list of visits\<close>

text \<open>
  What a traversal is meant to do: hand the visits of the batch, in order, to the callbacks until one fails. An event
  is a visit with the name of its callback, or the error of a time that C cannot represent.
\<close>

type_synonym event = "abi_error + string \<times> visit"

fun deliver :: "responder \<Rightarrow> event list \<Rightarrow> traversal" where
  "deliver respond [] = carry_on"
| "deliver respond (Inl e # es) = stop e"
| "deliver respond (Inr (operation, v) # es) = and_then (check_visit respond operation v) (deliver respond es)"

definition timed :: "abi_error + u64 \<Rightarrow> (u64 \<Rightarrow> event list) \<Rightarrow> event list" where
  "timed t f = (case t of Inl e \<Rightarrow> [Inl e] | Inr n \<Rightarrow> f n)"

definition exemplar_events :: "metric_visitor \<Rightarrow> nat \<Rightarrow> nat \<Rightarrow> metric_exemplar list \<Rightarrow> event list" where
  "exemplar_events mv i j exemplars =
     (if mv_exemplar mv then
        concat (map (\<lambda>(j, e). timed (metric_timestamp (ex_time e)) (\<lambda>t.
          [Inr (''exemplar'', V_Exemplar
             \<lparr>ev_point_index = word_of_nat i, ev_exemplar_index = word_of_nat j, ev_time_unix_nanos = t,
              ev_value = ex_value e, ev_span_id = ex_span_id e, ev_trace_id = ex_trace_id e\<rparr>
             (with_attributes (ex_attributes e)))])) (enumerate j exemplars))
      else [])"

definition point_events ::
  "metric_visitor \<Rightarrow> abi_error + u64 \<Rightarrow> abi_error + u64 \<Rightarrow> ('p \<Rightarrow> metric_point \<Rightarrow> metric_point)
     \<Rightarrow> ('p \<Rightarrow> exported_attributes) \<Rightarrow> ('p \<Rightarrow> u64 list) \<Rightarrow> ('p \<Rightarrow> u64 list) \<Rightarrow> ('p \<Rightarrow> u64 list) \<Rightarrow> ('p \<Rightarrow> u64 list)
     \<Rightarrow> ('p \<Rightarrow> metric_exemplar list) \<Rightarrow> nat \<Rightarrow> 'p list \<Rightarrow> event list" where
  "point_events mv start time fill attributes a b c d exemplars i points =
     concat (map (\<lambda>(i, p). timed start (\<lambda>s. timed time (\<lambda>t.
         (if mv_point mv
          then [Inr (''point'', V_Point (fill p (plain_point i s t)) (with_attributes (attributes p)) (a p) (b p) (c p) (d p))]
          else []) @ exemplar_events mv i 0 (exemplars p))))
       (enumerate i points))"

definition none :: "'p \<Rightarrow> u64 list" where
  "none p = []"

definition data_events :: "metric_visitor \<Rightarrow> metric_data \<Rightarrow> event list" where
  "data_events mv d =
     (case d of
        MD_Gauge g \<Rightarrow>
          point_events mv (optional_timestamp (ga_start_time g)) (metric_timestamp (ga_time g))
            (\<lambda>p m. m\<lparr>mp_value := np_value p\<rparr>) np_attributes none none none none np_exemplars 0 (ga_points g)
      | MD_Sum s \<Rightarrow>
          point_events mv (metric_timestamp (su_start_time s)) (metric_timestamp (su_time s))
            (\<lambda>p m. m\<lparr>mp_temporality := temporality_number (su_temporality s), mp_is_monotonic := of_bool (su_is_monotonic s),
               mp_value := np_value p\<rparr>) np_attributes none none none none np_exemplars 0 (su_points s)
      | MD_Histogram h \<Rightarrow>
          point_events mv (metric_timestamp (hi_start_time h)) (metric_timestamp (hi_time h))
            (\<lambda>p m. m\<lparr>mp_temporality := temporality_number (hi_temporality h), mp_count := hp_count p,
                mp_sum := hp_sum p, mp_min := case_option 0 id (hp_min p), mp_max := case_option 0 id (hp_max p),
                mp_has_min := of_bool (hp_min p \<noteq> None), mp_has_max := of_bool (hp_max p \<noteq> None)\<rparr>)
            hp_attributes hp_bounds hp_bucket_counts none none hp_exemplars 0 (hi_points h)
      | MD_ExponentialHistogram h \<Rightarrow>
          point_events mv (metric_timestamp (eh_start_time h)) (metric_timestamp (eh_time h))
            (\<lambda>p m. m\<lparr>mp_temporality := temporality_number (eh_temporality h), mp_count := ep_count p,
                mp_sum := ep_sum p, mp_min := case_option 0 id (ep_min p), mp_max := case_option 0 id (ep_max p),
                mp_has_min := of_bool (ep_min p \<noteq> None), mp_has_max := of_bool (ep_max p \<noteq> None), mp_scale := ep_scale p,
                mp_zero_count := ep_zero_count p, mp_zero_threshold := ep_zero_threshold p,
                mp_positive_bucket_offset := ep_positive_offset p, mp_negative_bucket_offset := ep_negative_offset p\<rparr>)
            ep_attributes none none ep_positive_counts ep_negative_counts ep_exemplars 0 (eh_points h))"

definition data_kind :: "metric_data \<Rightarrow> u32" where
  "data_kind d = (case d of MD_Gauge _ \<Rightarrow> 0 | MD_Sum _ \<Rightarrow> 1 | MD_Histogram _ \<Rightarrow> 2 | MD_ExponentialHistogram _ \<Rightarrow> 3)"

definition number_kind :: "aggregated_metrics \<Rightarrow> u32" where
  "number_kind a = (case a of Agg_U64 _ \<Rightarrow> 0 | Agg_I64 _ \<Rightarrow> 1 | Agg_F64 _ \<Rightarrow> 2)"

definition the_data :: "aggregated_metrics \<Rightarrow> metric_data" where
  "the_data a = (case a of Agg_U64 d \<Rightarrow> d | Agg_I64 d \<Rightarrow> d | Agg_F64 d \<Rightarrow> d)"

definition metric_events :: "metric_visitor \<Rightarrow> metric \<Rightarrow> event list" where
  "metric_events mv m =
     (if mv_metric mv then
        [Inr (''metric'', V_Metric
           \<lparr>mm_name = sv_of (me_name m), mm_description = sv_of (me_description m), mm_unit = sv_of (me_unit m),
            mm_data_kind = data_kind (the_data (me_data m)), mm_number_kind = number_kind (me_data m)\<rparr>)]
      else []) @ data_events mv (the_data (me_data m))"

definition scope_events :: "metric_visitor \<Rightarrow> exported_scope \<Rightarrow> event list" where
  "scope_events mv s =
     (if mv_scope mv then
        [Inr (''scope'', V_Scope (sv_of (xs_name s)) (sv_of (case_option [] id (xs_version s)))
           (sv_of (case_option [] id (xs_schema_url s))) (with_attributes (xs_attributes s)))]
      else [])"

definition batch_events :: "metric_visitor \<Rightarrow> resource_metrics \<Rightarrow> event list" where
  "batch_events mv rm =
     (if mv_resource mv then [Inr (''resource'', V_Resource (with_attributes (rm_resource rm)))] else []) @
     concat (map (\<lambda>sm. scope_events mv (sm_scope sm) @ concat (map (metric_events mv) (sm_metrics sm))) (rm_scopes rm))"

lemma and_then_simps [simp]:
  "and_then carry_on t = t" "and_then (stop e) t = stop e" "and_then t carry_on = t"
  "and_then (and_then t u) v = and_then t (and_then u v)"
  by (auto simp: and_then_def carry_on_def stop_def fun_eq_iff split: prod.split option.split)

lemma with_result_simps [simp]: "with_result (Inl e) f = stop e" "with_result (Inr x) f = f x"
  by (simp_all add: with_result_def)

lemma timed_simps [simp]: "timed (Inl e) f = [Inl e]" "timed (Inr x) f = f x"
  by (simp_all add: timed_def)

lemma deliver_append: "deliver respond (es @ fs) = and_then (deliver respond es) (deliver respond fs)"
  by (induction respond es rule: deliver.induct) simp_all

lemma deliver_if: "deliver respond (if b then es else []) = (if b then deliver respond es else carry_on)"
  by simp

lemma visit_exemplars_deliver:
  "visit_exemplars respond mv i j exemplars = deliver respond (exemplar_events mv i j exemplars)"
proof (induction exemplars arbitrary: j)
  case Nil
  show ?case by (simp add: exemplar_events_def)
next
  case (Cons e es)
  show ?case
  proof (cases "mv_exemplar mv")
    case True
    then show ?thesis
      using Cons [of "Suc j"] by (cases "metric_timestamp (ex_time e)") (simp_all add: exemplar_events_def)
  next
    case False
    then show ?thesis by (simp add: exemplar_events_def)
  qed
qed

lemma deliver_point:
  "deliver respond ((if mv_point mv then [Inr (''point'', v)] else []) @ exemplar_events mv i 0 exemplars @ rest) =
     and_then (visit_point respond mv v) (and_then (visit_exemplars respond mv i 0 exemplars) (deliver respond rest))"
  by (simp add: deliver_append visit_exemplars_deliver visit_point_def del: visit_exemplars.simps)

lemma deliver_point_events:
  "deliver respond (point_events mv start time fill attributes a b c d exemplars i (p # ps)) =
     with_result start (\<lambda>s. with_result time (\<lambda>t.
       and_then (visit_point respond mv (V_Point (fill p (plain_point i s t)) (with_attributes (attributes p)) (a p) (b p) (c p) (d p)))
         (and_then (visit_exemplars respond mv i 0 (exemplars p))
           (deliver respond (point_events mv start time fill attributes a b c d exemplars (Suc i) ps)))))"
  by (cases start; cases time) (simp_all add: point_events_def deliver_point)

lemma point_events_Nil [simp]: "point_events mv start time fill attributes a b c d exemplars i [] = []"
  by (simp add: point_events_def)

lemma visit_data_deliver:
  "visit_data respond mv m k d = and_then (announce_metric respond mv m (data_kind d) k) (deliver respond (data_events mv d))"
proof -
  have "visit_gauge respond mv g i ps = deliver respond
      (point_events mv (optional_timestamp (ga_start_time g)) (metric_timestamp (ga_time g))
            (\<lambda>p m. m\<lparr>mp_value := np_value p\<rparr>) np_attributes none none none none np_exemplars i ps)" for g i ps
    by (induction ps arbitrary: i) (simp_all add: deliver_point_events none_def)
  moreover have "visit_sum respond mv s i ps = deliver respond
      (point_events mv (metric_timestamp (su_start_time s)) (metric_timestamp (su_time s))
            (\<lambda>p m. m\<lparr>mp_temporality := temporality_number (su_temporality s), mp_is_monotonic := of_bool (su_is_monotonic s),
               mp_value := np_value p\<rparr>) np_attributes none none none none np_exemplars i ps)" for s i ps
    by (induction ps arbitrary: i) (simp_all add: deliver_point_events none_def)
  moreover have "visit_histogram respond mv h i ps = deliver respond
      (point_events mv (metric_timestamp (hi_start_time h)) (metric_timestamp (hi_time h))
            (\<lambda>p m. m\<lparr>mp_temporality := temporality_number (hi_temporality h), mp_count := hp_count p,
                mp_sum := hp_sum p, mp_min := case_option 0 id (hp_min p), mp_max := case_option 0 id (hp_max p),
                mp_has_min := of_bool (hp_min p \<noteq> None), mp_has_max := of_bool (hp_max p \<noteq> None)\<rparr>)
            hp_attributes hp_bounds hp_bucket_counts none none hp_exemplars i ps)" for h i ps
    by (induction ps arbitrary: i) (simp_all add: deliver_point_events none_def)
  moreover have "visit_exponential_histogram respond mv h i ps = deliver respond
      (point_events mv (metric_timestamp (eh_start_time h)) (metric_timestamp (eh_time h))
            (\<lambda>p m. m\<lparr>mp_temporality := temporality_number (eh_temporality h), mp_count := ep_count p,
                mp_sum := ep_sum p, mp_min := case_option 0 id (ep_min p), mp_max := case_option 0 id (ep_max p),
                mp_has_min := of_bool (ep_min p \<noteq> None), mp_has_max := of_bool (ep_max p \<noteq> None), mp_scale := ep_scale p,
                mp_zero_count := ep_zero_count p, mp_zero_threshold := ep_zero_threshold p,
                mp_positive_bucket_offset := ep_positive_offset p, mp_negative_bucket_offset := ep_negative_offset p\<rparr>)
            ep_attributes none none ep_positive_counts ep_negative_counts ep_exemplars i ps)" for h i ps
    by (induction ps arbitrary: i) (simp_all add: deliver_point_events none_def)
  ultimately show ?thesis by (simp add: visit_data_def data_events_def data_kind_def split: metric_data.split)
qed

lemma visit_metric_deliver: "visit_metric respond mv m = deliver respond (metric_events mv m)"
  by (cases "me_data m")
    (simp_all add: visit_metric_def visit_data_deliver metric_events_def announce_metric_def deliver_append the_data_def number_kind_def)

lemma visit_metrics_deliver: "visit_metrics respond mv ms = deliver respond (concat (map (metric_events mv) ms))"
  by (induction ms) (simp_all add: visit_metric_deliver deliver_append)

lemma visit_scopes_deliver:
  "visit_scopes respond mv sms =
     deliver respond (concat (map (\<lambda>sm. scope_events mv (sm_scope sm) @ concat (map (metric_events mv) (sm_metrics sm))) sms))"
  by (induction sms) (simp_all add: visit_metrics_deliver visit_scope_def scope_events_def deliver_append)

lemma traversal_deliver:
  "and_then (visit_resource respond mv rm) (visit_scopes respond mv (rm_scopes rm)) = deliver respond (batch_events mv rm)"
  by (simp add: visit_resource_def visit_scopes_deliver batch_events_def deliver_append)

section \<open>Properties\<close>

lemma remove_last_match_last: "remove_last_match t (xs @ [(t, x)]) = xs"
  by (induction xs) auto

lemma next_batch_token_not_0: "next_batch_token n = (t, n') \<Longrightarrow> t \<noteq> 0"
  by (auto simp: next_batch_token_def split: if_splits)

text \<open>
  C17: A traversal delivers the batch in order. While a batch's callback runs on a thread, visiting the batch by its
  token hands the resource, then for each scope the scope and for each of its metrics the metric, its points and after
  each point its exemplars, to the callbacks that the visitor has, in the order of the data, and stops with an error
  at the first callback that does not return OK and at the first time that C cannot represent; the token is known
  on this thread only, and when its registration is dropped every thread's batches are as before.
\<close>

theorem metric_batch_visits_in_order:
  assumes "register_batch thread rm s = (token, s1)" and "48 \<le> mv_struct_size mv"
  shows "otel_metric_batch_visit respond thread token (Some mv) s1 = deliver respond (batch_events mv rm) [] \<and> token \<noteq> 0 \<and>
    (\<forall>t. t \<noteq> thread \<longrightarrow> active_batch t token s1 = active_batch t token s) \<and>
    br_active (unregister_batch thread token s1) = br_active s"
proof -
  have s1: "br_active s1 = (br_active s)(thread := br_active s thread @ [(token, rm)])" and t: "token \<noteq> 0"
    using assms(1) next_batch_token_not_0 by (auto simp: register_batch_def split: prod.splits)
  then have "active_batch thread token s1 = Some rm" by (simp add: active_batch_def)
  moreover have "\<not> mv_struct_size mv < 48" using assms(2) by (simp add: not_less)
  ultimately have "otel_metric_batch_visit respond thread token (Some mv) s1 = deliver respond (batch_events mv rm) []"
    by (simp add: otel_metric_batch_visit_def traversal_deliver)
  then show ?thesis
    using s1 t by (simp add: active_batch_def unregister_batch_def remove_last_match_last)
qed

text \<open>A gauge with one point; the visitor refuses the point.\<close>

definition sample_metrics :: resource_metrics where
  "sample_metrics =
     \<lparr>rm_resource = [],
      rm_scopes =
        [\<lparr>sm_scope = \<lparr>xs_name = [115], xs_version = None, xs_schema_url = None, xs_attributes = []\<rparr>,
          sm_metrics =
            [\<lparr>me_name = [109], me_description = [], me_unit = [],
              me_data = Agg_I64 (MD_Gauge \<lparr>ga_start_time = None, ga_time = 5,
                ga_points = [\<lparr>np_value = 7, np_attributes = [], np_exemplars = []\<rparr>]\<rparr>)\<rparr>]\<rparr>]\<rparr>"

definition sample_visitor :: metric_visitor where
  "sample_visitor = \<lparr>mv_struct_size = 48, mv_resource = False, mv_scope = True, mv_metric = True, mv_point = True, mv_exemplar = False\<rparr>"

definition sample_respond :: responder where
  "sample_respond h v = (case v of V_Point _ _ _ _ _ _ \<Rightarrow> St_ExportFailed | _ \<Rightarrow> St_Ok)"

theorem metric_batch_visits_in_order_witness:
  "let (r, visits) = otel_metric_batch_visit sample_respond 3 1 (Some sample_visitor) (snd (register_batch 3 sample_metrics \<lparr>br_next = 0, br_active = (\<lambda>_. [])\<rparr>))
   in map_option err_status r = Some St_ExportFailed \<and> length visits = 3"
proof -
  have r: "register_batch 3 sample_metrics \<lparr>br_next = 0, br_active = (\<lambda>_. [])\<rparr> =
      (1, snd (register_batch 3 sample_metrics \<lparr>br_next = 0, br_active = (\<lambda>_. [])\<rparr>))"
    by (simp add: register_batch_def next_batch_token_def)
  have "otel_metric_batch_visit sample_respond 3 1 (Some sample_visitor) (snd (register_batch 3 sample_metrics \<lparr>br_next = 0, br_active = (\<lambda>_. [])\<rparr>)) =
      deliver sample_respond (batch_events sample_visitor sample_metrics) []"
    using metric_batch_visits_in_order [OF r, of sample_visitor sample_respond] by (simp add: sample_visitor_def)
  then show ?thesis
    by (simp add: batch_events_def sample_metrics_def sample_visitor_def scope_events_def metric_events_def the_data_def data_events_def
        point_events_def optional_timestamp_def metric_timestamp_def exemplar_events_def and_then_def check_visit_def sample_respond_def
        carry_on_def abi_error_new_def)
qed

end
