(* ===== verification/Custom_Exporters.thy ===== *)
theory Custom_Exporters
  imports Metric_Batch Sdk_Builder
begin

text \<open>
  Exporters whose work is done by callbacks of the application (\<open>sdk/src/custom_trace_exporter.rs\<close>,
  \<open>custom_metric_exporter.rs\<close>, \<open>custom_log_exporter.rs\<close>). The three files share their shape: a table of
  function pointers read from the caller's memory as far as its \<open>struct_size\<close> reaches, an export that converts
  the batch and calls the application under the read lock of a shutdown flag, a shutdown that sets the flag under the
  write lock, and a drop that shuts down and gives the callback state back. A function pointer is a machine
  word; the application is a function \<open>respond\<close> from the calls so far and the current call to a status. A duration is
  a number of nanoseconds.
\<close>

section \<open>The callback table\<close>

text \<open>Little-endian words of the caller's memory; \<open>None\<close> where a read would leave it.\<close>

fun le_word :: "bytes \<Rightarrow> u64" where
  "le_word [] = 0"
| "le_word (b # bs) = ucast b + 256 * le_word bs"

definition read_word :: "bytes \<Rightarrow> nat \<Rightarrow> u64 option" where
  "read_word mem offset = (if offset + 8 \<le> length mem then Some (le_word (take 8 (drop offset mem))) else None)"

definition read_function :: "bytes \<Rightarrow> nat \<Rightarrow> u64 option option" where
  "read_function mem offset = map_option (\<lambda>w. if w = 0 then None else Some w) (read_word mem offset)"

definition read_member :: "bytes \<Rightarrow> usize \<Rightarrow> nat \<Rightarrow> u64 option option" where
  "read_member mem table_size offset =
     (if offset + 8 \<le> unat table_size then read_function mem offset else Some None)"

record callback_table =
  ct_struct_size :: usize
  ct_export :: "u64 option"
  ct_force_flush :: "u64 option"
  ct_shutdown :: "u64 option"
  ct_state_destroy :: "u64 option"

definition REQUIRED_PREFIX_SIZE :: nat where "REQUIRED_PREFIX_SIZE = 16"

text \<open>The table of the log exporter has no \<open>force_flush\<close>, so that its later members come earlier.\<close>

definition read_callbacks :: "bool \<Rightarrow> bytes \<Rightarrow> usize \<Rightarrow> callback_table option" where
  "read_callbacks with_flush mem table_size =
     (let base = (if with_flush then 24 else 16) in
      Option.bind (read_function mem 8) (\<lambda>e.
      Option.bind (if with_flush then read_member mem table_size 16 else Some None) (\<lambda>f.
      Option.bind (read_member mem table_size base) (\<lambda>s.
      Option.bind (read_member mem table_size (base + 8)) (\<lambda>d.
        Some \<lparr>ct_struct_size = table_size, ct_export = e, ct_force_flush = f, ct_shutdown = s, ct_state_destroy = d\<rparr>)))))"

definition trace_read_callbacks :: "bytes \<Rightarrow> usize \<Rightarrow> callback_table option" where
  "trace_read_callbacks = read_callbacks True"

definition metric_read_callbacks :: "bytes \<Rightarrow> usize \<Rightarrow> callback_table option" where
  "metric_read_callbacks = read_callbacks True"

definition log_read_callbacks :: "bytes \<Rightarrow> usize \<Rightarrow> callback_table option" where
  "log_read_callbacks = read_callbacks False"

section \<open>The exporters\<close>

text \<open>\<open>OTelSdkError\<close> of the crate, and a call of the application.\<close>

datatype sdk_error = E_AlreadyShutdown | E_Timeout nat | E_InternalFailure bytes

type_synonym sdk_result = "sdk_error + unit"

datatype 'v callback_call =
    Call_Export u64 ptr 'v
  | Call_Force_Flush u64 ptr
  | Call_Shutdown u64 ptr u64
  | Call_State_Destroy u64 ptr

type_synonym 'v application = "'v callback_call list \<Rightarrow> 'v callback_call \<Rightarrow> otel_status"

record custom_exporter =
  xq_callbacks :: callback_table
  xq_user_data :: ptr
  xq_shutdown :: bool

text \<open>Trace and log exporters keep the resource, metric exporters the temporality.\<close>

record resource_exporter = custom_exporter +
  xq_resource :: exported_resource

record metric_exporter = custom_exporter +
  xq_temporality :: temporality

definition internal_failure :: "string \<Rightarrow> sdk_result" where
  "internal_failure m = Inl (E_InternalFailure (text_bytes m))"

text \<open>What a status of a callback means. The metric exporter has one message for all other statuses.\<close>

definition callback_result :: "string \<Rightarrow> string \<Rightarrow> nat \<Rightarrow> otel_status \<Rightarrow> sdk_result" where
  "callback_result exporter operation timeout status =
     (if status = St_Ok then Inr ()
      else if status = St_AlreadyShutdown then Inl E_AlreadyShutdown
      else if status = St_Timeout then Inl (E_Timeout timeout)
      else if status = St_ExportFailed \<or> status = St_InternalError then
        internal_failure (''custom '' @ exporter @ '' exporter '' @ operation @ '' callback failed with status '' @ decimal (unat status))
      else
        internal_failure (''custom '' @ exporter @ '' exporter '' @ operation @ '' callback returned status '' @ decimal (unat status) @
          '', which is not a valid result for this callback''))"

definition trace_callback_result :: "string \<Rightarrow> nat \<Rightarrow> otel_status \<Rightarrow> sdk_result" where
  "trace_callback_result = callback_result ''trace''"

definition log_callback_result :: "string \<Rightarrow> nat \<Rightarrow> otel_status \<Rightarrow> sdk_result" where
  "log_callback_result = callback_result ''log''"

definition metric_callback_result :: "string \<Rightarrow> nat \<Rightarrow> otel_status \<Rightarrow> sdk_result" where
  "metric_callback_result operation timeout status =
     (if status = St_Ok then Inr ()
      else if status = St_AlreadyShutdown then Inl E_AlreadyShutdown
      else if status = St_Timeout then Inl (E_Timeout timeout)
      else internal_failure (''custom metric exporter '' @ operation @ '' callback failed with status '' @ decimal (unat status)))"

text \<open>Up to the callback every operation decides: to return at once, or to call the application.\<close>

datatype 'v decision = Return_Now sdk_result | Run "'v callback_call"

definition conclude ::
  "(otel_status \<Rightarrow> sdk_result) \<Rightarrow> 'v application \<Rightarrow> 'v decision \<Rightarrow> 'v callback_call list \<Rightarrow> sdk_result \<times> 'v callback_call list" where
  "conclude result respond d h =
     (case d of Return_Now r \<Rightarrow> (r, h) | Run c \<Rightarrow> (result (respond h c), h @ [c]))"

text \<open>Exports. A failed conversion is also recorded as the diagnostic of the calling thread.\<close>

definition trace_export_decision ::
  "(nat \<Rightarrow> bool) \<Rightarrow> exported_span list \<Rightarrow> resource_exporter \<Rightarrow> span_storage decision \<times> abi_error option" where
  "trace_export_decision al spans x =
     (if xq_shutdown x then (Return_Now (Inl E_AlreadyShutdown), None)
      else
        (case ct_export (xq_callbacks x) of
           None \<Rightarrow> (Return_Now (internal_failure ''custom trace exporter lost its validated export callback''), None)
         | Some f \<Rightarrow>
             (case convert_span_batch al spans (xq_resource x) of
                Inl e \<Rightarrow> (Return_Now (Inl (E_InternalFailure (err_message e))), Some e)
              | Inr storage \<Rightarrow> (Run (Call_Export f (xq_user_data x) storage), None))))"

definition log_export_decision ::
  "(nat \<Rightarrow> bool) \<Rightarrow> (nat \<Rightarrow> exported_scope) \<Rightarrow> (exported_log \<times> nat) list \<Rightarrow> resource_exporter
     \<Rightarrow> export_view_storage decision \<times> abi_error option" where
  "log_export_decision al scope_at batch x =
     (if xq_shutdown x then (Return_Now (Inl E_AlreadyShutdown), None)
      else
        (case ct_export (xq_callbacks x) of
           None \<Rightarrow> (Return_Now (internal_failure ''custom log exporter lost its validated export callback''), None)
         | Some f \<Rightarrow>
             (case convert_batch al scope_at batch (xq_resource x) of
                Inl e \<Rightarrow> (Return_Now (Inl (E_InternalFailure (err_message e))), Some e)
              | Inr storage \<Rightarrow> (Run (Call_Export f (xq_user_data x) storage), None))))"

definition record_failure :: "abi_error option \<Rightarrow> ('p, 'm) store_scheme \<Rightarrow> ('p, 'm) store_scheme" where
  "record_failure e s = (case e of None \<Rightarrow> s | Some err \<Rightarrow> snd (fail_abi err s))"

definition trace_export ::
  "(nat \<Rightarrow> bool) \<Rightarrow> span_storage application \<Rightarrow> exported_span list \<Rightarrow> resource_exporter \<Rightarrow> span_storage callback_call list
     \<Rightarrow> ('p, 'm) store_scheme \<Rightarrow> sdk_result \<times> span_storage callback_call list \<times> ('p, 'm) store_scheme" where
  "trace_export al respond spans x h s =
     (case trace_export_decision al spans x of
        (d, e) \<Rightarrow> (case conclude (trace_callback_result ''export'' 0) respond d h of (r, h') \<Rightarrow> (r, h', record_failure e s)))"

definition log_export ::
  "(nat \<Rightarrow> bool) \<Rightarrow> (nat \<Rightarrow> exported_scope) \<Rightarrow> export_view_storage application \<Rightarrow> (exported_log \<times> nat) list \<Rightarrow> resource_exporter
     \<Rightarrow> export_view_storage callback_call list \<Rightarrow> ('p, 'm) store_scheme
     \<Rightarrow> sdk_result \<times> export_view_storage callback_call list \<times> ('p, 'm) store_scheme" where
  "log_export al scope_at respond batch x h s =
     (case log_export_decision al scope_at batch x of
        (d, e) \<Rightarrow> (case conclude (log_callback_result ''export'' 0) respond d h of (r, h') \<Rightarrow> (r, h', record_failure e s)))"

text \<open>
  A metric batch is passed as a token that denotes it on the calling thread while the callback runs: the view of
  the call is the token and the registry as the application finds it. The registration ends with the export.
\<close>

type_synonym metric_view_call = "usize \<times> batch_registry"

definition metric_export_decision ::
  "nat \<Rightarrow> resource_metrics \<Rightarrow> metric_exporter \<Rightarrow> batch_registry \<Rightarrow> metric_view_call decision \<times> batch_registry" where
  "metric_export_decision thread metrics x g =
     (if xq_shutdown x then (Return_Now (Inl E_AlreadyShutdown), g)
      else
        (case register_batch thread metrics g of
           (token, g1) \<Rightarrow>
             (case ct_export (xq_callbacks x) of
                None \<Rightarrow> (Return_Now (internal_failure ''custom metric exporter lost its validated export callback''),
                  unregister_batch thread token g1)
              | Some f \<Rightarrow> (Run (Call_Export f (xq_user_data x) (token, g1)), unregister_batch thread token g1))))"

definition metric_export ::
  "metric_view_call application \<Rightarrow> nat \<Rightarrow> resource_metrics \<Rightarrow> metric_exporter \<Rightarrow> batch_registry
     \<Rightarrow> metric_view_call callback_call list \<Rightarrow> sdk_result \<times> metric_view_call callback_call list \<times> batch_registry" where
  "metric_export respond thread metrics x g h =
     (case metric_export_decision thread metrics x g of
        (d, g') \<Rightarrow> (case conclude (metric_callback_result ''export'' 0) respond d h of (r, h') \<Rightarrow> (r, h', g')))"

text \<open>Force flush, of the trace and the metric exporter.\<close>

definition flush_decision :: "'m custom_exporter_scheme \<Rightarrow> 'v decision" where
  "flush_decision x =
     (if xq_shutdown x then Return_Now (Inl E_AlreadyShutdown)
      else
        (case ct_force_flush (xq_callbacks x) of
           None \<Rightarrow> Return_Now (Inr ())
         | Some f \<Rightarrow> Run (Call_Force_Flush f (xq_user_data x))))"

definition trace_force_flush ::
  "span_storage application \<Rightarrow> resource_exporter \<Rightarrow> span_storage callback_call list \<Rightarrow> sdk_result \<times> span_storage callback_call list" where
  "trace_force_flush respond x h = conclude (trace_callback_result ''force-flush'' 0) respond (flush_decision x) h"

definition metric_force_flush ::
  "'v application \<Rightarrow> metric_exporter \<Rightarrow> 'v callback_call list \<Rightarrow> sdk_result \<times> 'v callback_call list" where
  "metric_force_flush respond x h = conclude (metric_callback_result ''force-flush'' 0) respond (flush_decision x) h"

text \<open>Shutdown; the budget is passed in milliseconds, saturated at 64 bits.\<close>

definition timeout_millis :: "nat \<Rightarrow> u64" where
  "timeout_millis t = (if t div 10 ^ 6 < 2 ^ 64 then word_of_nat (t div 10 ^ 6) else - 1)"

definition shutdown_decision :: "nat \<Rightarrow> 'm custom_exporter_scheme \<Rightarrow> 'v decision \<times> 'm custom_exporter_scheme" where
  "shutdown_decision timeout x =
     (if xq_shutdown x then (Return_Now (Inl E_AlreadyShutdown), x)
      else
        (case ct_shutdown (xq_callbacks x) of
           None \<Rightarrow> Return_Now (Inr ())
         | Some f \<Rightarrow> Run (Call_Shutdown f (xq_user_data x) (timeout_millis timeout)),
         x\<lparr>xq_shutdown := True\<rparr>))"

definition exporter_shutdown ::
  "(nat \<Rightarrow> otel_status \<Rightarrow> sdk_result) \<Rightarrow> 'v application \<Rightarrow> nat \<Rightarrow> 'm custom_exporter_scheme \<Rightarrow> 'v callback_call list
     \<Rightarrow> sdk_result \<times> 'v callback_call list \<times> 'm custom_exporter_scheme" where
  "exporter_shutdown result respond timeout x h =
     (case shutdown_decision timeout x of
        (d, x') \<Rightarrow> (case conclude (result timeout) respond d h of (r, h') \<Rightarrow> (r, h', x')))"

definition trace_shutdown ::
  "span_storage application \<Rightarrow> nat \<Rightarrow> resource_exporter \<Rightarrow> span_storage callback_call list
     \<Rightarrow> sdk_result \<times> span_storage callback_call list \<times> resource_exporter" where
  "trace_shutdown = exporter_shutdown (trace_callback_result ''shutdown'')"

definition metric_shutdown ::
  "'v application \<Rightarrow> nat \<Rightarrow> metric_exporter \<Rightarrow> 'v callback_call list \<Rightarrow> sdk_result \<times> 'v callback_call list \<times> metric_exporter" where
  "metric_shutdown = exporter_shutdown (metric_callback_result ''shutdown'')"

definition log_shutdown ::
  "export_view_storage application \<Rightarrow> nat \<Rightarrow> resource_exporter \<Rightarrow> export_view_storage callback_call list
     \<Rightarrow> sdk_result \<times> export_view_storage callback_call list \<times> resource_exporter" where
  "log_shutdown = exporter_shutdown (log_callback_result ''shutdown'')"

text \<open>Drop: a shutdown with a budget of five seconds, then the callback state is given back.\<close>

definition state_destroy_calls :: "'m custom_exporter_scheme \<Rightarrow> 'v callback_call list" where
  "state_destroy_calls x =
     (case ct_state_destroy (xq_callbacks x) of None \<Rightarrow> [] | Some f \<Rightarrow> [Call_State_Destroy f (xq_user_data x)])"

definition drop_timeout :: nat where "drop_timeout = 5 * 10 ^ 9"

definition trace_drop :: "span_storage application \<Rightarrow> resource_exporter \<Rightarrow> span_storage callback_call list \<Rightarrow> span_storage callback_call list" where
  "trace_drop respond x h = (case trace_shutdown respond drop_timeout x h of (_, h', _) \<Rightarrow> h' @ state_destroy_calls x)"

definition metric_drop :: "'v application \<Rightarrow> metric_exporter \<Rightarrow> 'v callback_call list \<Rightarrow> 'v callback_call list" where
  "metric_drop respond x h = (case metric_shutdown respond drop_timeout x h of (_, h', _) \<Rightarrow> h' @ state_destroy_calls x)"

definition log_drop ::
  "export_view_storage application \<Rightarrow> resource_exporter \<Rightarrow> export_view_storage callback_call list \<Rightarrow> export_view_storage callback_call list" where
  "log_drop respond x h = (case log_shutdown respond drop_timeout x h of (_, h', _) \<Rightarrow> h' @ state_destroy_calls x)"

definition trace_set_resource :: "exported_resource \<Rightarrow> resource_exporter \<Rightarrow> resource_exporter" where
  "trace_set_resource r x = x\<lparr>xq_resource := r\<rparr>"

definition log_set_resource :: "exported_resource \<Rightarrow> resource_exporter \<Rightarrow> resource_exporter" where
  "log_set_resource r x = x\<lparr>xq_resource := r\<rparr>"

definition configured_temporality :: "u32 \<Rightarrow> temporality option" where
  "configured_temporality v =
     (if v = 0 \<or> v = 1 then Some Cumulative else if v = 2 then Some Delta else if v = 3 then Some LowMemory else None)"

section \<open>The constructors\<close>

text \<open>
  The store of the SDK's handles with the custom exporters behind them; the number in a handle's payload is an index
  into the list of its signal.
\<close>

record custom_store = sdk_store +
  cx_trace :: "resource_exporter list"
  cx_metric :: "metric_exporter list"
  cx_log :: "resource_exporter list"

text \<open>
  The checks that the three constructors share; \<open>callbacks\<close> is the readable memory behind the pointer, \<open>None\<close> when it is
  NULL. The result is a refusal or the table.
\<close>

definition check_callbacks ::
  "string \<Rightarrow> (bytes \<Rightarrow> usize \<Rightarrow> callback_table option) \<Rightarrow> bytes option \<Rightarrow> (abi_error + callback_table) option" where
  "check_callbacks exporter reader callbacks =
     (case callbacks of
        None \<Rightarrow> Some (Inl (abi_error_new St_InvalidArgument (''custom '' @ exporter @ '' exporter callbacks must not be NULL'')))
      | Some mem \<Rightarrow>
          Option.bind (read_word mem 0) (\<lambda>table_size.
            if unat table_size < REQUIRED_PREFIX_SIZE then
              Some (Inl (abi_error_new St_InvalidConfig
                (''custom '' @ exporter @ '' exporter callback structure is smaller than the required ABI size'')))
            else
              Option.bind (reader mem table_size) (\<lambda>table.
                if ct_export table = None then
                  Some (Inl (abi_error_new St_InvalidConfig (''custom '' @ exporter @ '' exporter requires an export callback'')))
                else Some (Inr table))))"

definition empty_resource :: exported_resource where
  "empty_resource = \<lparr>xo_schema_url = None, xo_attributes = []\<rparr>"

definition new_resource_exporter :: "callback_table \<Rightarrow> ptr \<Rightarrow> resource_exporter" where
  "new_resource_exporter table user_data =
     \<lparr>xq_callbacks = table, xq_user_data = user_data, xq_shutdown = False, xq_resource = empty_resource\<rparr>"

definition otel_custom_trace_exporter_new ::
  "bytes option \<Rightarrow> ptr \<Rightarrow> bool \<Rightarrow> 'm custom_store_scheme \<Rightarrow> (ptr option \<times> otel_status \<times> 'm custom_store_scheme) option" where
  "otel_custom_trace_exporter_new callbacks user_data out_null s =
     (let s0 = clear_last_error s in
      if out_null then Some (None, fail St_InvalidArgument ''out pointer must not be NULL'' s0)
      else
        (case check_callbacks ''trace'' trace_read_callbacks callbacks of
           None \<Rightarrow> None
         | Some (Inl e) \<Rightarrow> Some (Some None, fail_abi e s0)
         | Some (Inr table) \<Rightarrow>
             (case into_raw KIND_TRACE_EXPORTER (SP_TraceExporter (TX_Custom (length (cx_trace s0)))) s0 of
                (p, s1) \<Rightarrow> Some (Some p, St_Ok, s1\<lparr>cx_trace := cx_trace s1 @ [new_resource_exporter table user_data]\<rparr>))))"

definition otel_custom_log_exporter_new ::
  "bytes option \<Rightarrow> ptr \<Rightarrow> bool \<Rightarrow> 'm custom_store_scheme \<Rightarrow> (ptr option \<times> otel_status \<times> 'm custom_store_scheme) option" where
  "otel_custom_log_exporter_new callbacks user_data out_null s =
     (let s0 = clear_last_error s in
      if out_null then Some (None, fail St_InvalidArgument ''out pointer must not be NULL'' s0)
      else
        (case check_callbacks ''log'' log_read_callbacks callbacks of
           None \<Rightarrow> None
         | Some (Inl e) \<Rightarrow> Some (Some None, fail_abi e s0)
         | Some (Inr table) \<Rightarrow>
             (case into_raw KIND_LOG_EXPORTER (SP_LogExporter (LX_Custom (length (cx_log s0)))) s0 of
                (p, s1) \<Rightarrow> Some (Some p, St_Ok, s1\<lparr>cx_log := cx_log s1 @ [new_resource_exporter table user_data]\<rparr>))))"

definition otel_custom_metric_exporter_new ::
  "bytes option \<Rightarrow> ptr \<Rightarrow> u32 \<Rightarrow> bool \<Rightarrow> 'm custom_store_scheme \<Rightarrow> (ptr option \<times> otel_status \<times> 'm custom_store_scheme) option" where
  "otel_custom_metric_exporter_new callbacks user_data temporality out_null s =
     (let s0 = clear_last_error s in
      if out_null then Some (None, fail St_InvalidArgument ''out pointer must not be NULL'' s0)
      else
        (case check_callbacks ''metric'' metric_read_callbacks callbacks of
           None \<Rightarrow> None
         | Some (Inl e) \<Rightarrow> Some (Some None, fail_abi e s0)
         | Some (Inr table) \<Rightarrow>
             (case configured_temporality temporality of
                None \<Rightarrow> Some (Some None, fail St_InvalidConfig ''unknown custom metric exporter temporality'' s0)
              | Some t \<Rightarrow>
                  (case into_raw KIND_METRIC_EXPORTER (SP_MetricExporter (MX_Custom (length (cx_metric s0)))) s0 of
                     (p, s1) \<Rightarrow>
                       Some (Some p, St_Ok,
                         s1\<lparr>cx_metric := cx_metric s1 @
                              [\<lparr>xq_callbacks = table, xq_user_data = user_data, xq_shutdown = False, xq_temporality = t\<rparr>]\<rparr>)))))"


section \<open>What the constructors read\<close>

text \<open>The size that a table declares, and the bytes that it vouches for.\<close>

definition declared_size :: "bytes \<Rightarrow> nat" where
  "declared_size mem = unat (le_word (take 8 mem))"

definition vouched :: "bytes \<Rightarrow> nat" where
  "vouched mem = max 8 (declared_size mem)"

lemma read_word_vouched:
  assumes "offset + 8 \<le> k" "k \<le> length mem" "take k mem' = take k mem"
  shows "read_word mem' offset = Some (le_word (take 8 (drop offset mem)))"
    "read_word mem offset = Some (le_word (take 8 (drop offset mem)))"
proof -
  have l: "k \<le> length mem'" using arg_cong [OF assms(3), of length] assms(2) by simp
  have e: "take 8 (drop offset m) = take 8 (drop offset (take k m))" for m :: bytes
    using assms(1) by (simp add: drop_take)
  show "read_word mem' offset = Some (le_word (take 8 (drop offset mem)))"
    using e [of mem] e [of mem'] assms l by (simp add: read_word_def)
  show "read_word mem offset = Some (le_word (take 8 (drop offset mem)))"
    using assms by (simp add: read_word_def)
qed

lemma read_function_vouched:
  assumes "offset + 8 \<le> k" "k \<le> length mem" "take k mem' = take k mem"
  shows "read_function mem' offset = read_function mem offset" "\<exists>f. read_function mem offset = Some f"
  using read_word_vouched [OF assms] by (auto simp: read_function_def)

lemma read_member_vouched:
  assumes "unat sz \<le> k" "k \<le> length mem" "take k mem' = take k mem"
  shows "read_member mem' sz offset = read_member mem sz offset" "\<exists>f. read_member mem sz offset = Some f"
proof -
  have "offset + 8 \<le> k" if "offset + 8 \<le> unat sz" using assms(1) that by simp
  then show "read_member mem' sz offset = read_member mem sz offset" "\<exists>f. read_member mem sz offset = Some f"
    using read_function_vouched [OF _ assms(2,3), of offset] by (auto simp: read_member_def)
qed

lemma read_callbacks_vouched:
  assumes "16 \<le> k" "unat sz \<le> k" "k \<le> length mem" "take k mem' = take k mem"
  shows "read_callbacks b mem' sz = read_callbacks b mem sz"
    "\<exists>t. read_callbacks b mem sz = Some t \<and> read_function mem 8 = Some (ct_export t)"
proof -
  note m = read_member_vouched [OF assms(2-4)]
  note f = read_function_vouched [where offset = 8, OF _ assms(3,4)]
  show "read_callbacks b mem' sz = read_callbacks b mem sz"
    using m(1) f(1) assms(1) by (simp add: read_callbacks_def Let_def)
  obtain e where "read_function mem 8 = Some e" using f(2) assms(1) by auto
  moreover obtain fl where "read_member mem sz 16 = Some fl" using m(2) by blast
  moreover obtain s1 where "read_member mem sz 24 = Some s1" using m(2) by blast
  moreover obtain s2 where "read_member mem sz 32 = Some s2" using m(2) by blast
  ultimately show "\<exists>t. read_callbacks b mem sz = Some t \<and> read_function mem 8 = Some (ct_export t)"
    by (cases b) (simp_all add: read_callbacks_def Let_def)
qed

text \<open>The outcome of the checks, for a table whose declared bytes are readable.\<close>

lemma check_callbacks_vouched:
  assumes "8 \<le> length mem" "declared_size mem \<le> length mem" "take (vouched mem) mem' = take (vouched mem) mem"
  shows "check_callbacks x (read_callbacks b) (Some mem') = check_callbacks x (read_callbacks b) (Some mem)"
    "\<exists>r. check_callbacks x (read_callbacks b) (Some mem) = Some r \<and>
       (\<forall>e. r = Inl e \<longrightarrow> err_status e = St_InvalidConfig \<and> (declared_size mem < 16 \<or> read_function mem 8 = Some None)) \<and>
       (\<forall>t. r = Inr t \<longrightarrow> 16 \<le> declared_size mem \<and> ct_export t \<noteq> None \<and> read_function mem 8 = Some (ct_export t) \<and>
         read_callbacks b mem (le_word (take 8 mem)) = Some t)"
proof -
  let ?size = "le_word (take 8 mem)"
  have v: "vouched mem \<le> length mem" "8 \<le> vouched mem" "unat ?size \<le> vouched mem"
    using assms(1,2) by (auto simp: vouched_def declared_size_def)
  have w: "read_word mem' 0 = Some ?size" "read_word mem 0 = Some ?size"
    using read_word_vouched [where offset = 0, OF _ v(1) assms(3)] v(2) by simp_all
  have long: "16 \<le> vouched mem" if "\<not> unat ?size < REQUIRED_PREFIX_SIZE" using that v(3) by (simp add: REQUIRED_PREFIX_SIZE_def)
  note r = read_callbacks_vouched [OF long v(3) v(1) assms(3)]
  show "check_callbacks x (read_callbacks b) (Some mem') = check_callbacks x (read_callbacks b) (Some mem)"
    using r(1) w by (simp add: check_callbacks_def)
  show "\<exists>r. check_callbacks x (read_callbacks b) (Some mem) = Some r \<and>
       (\<forall>e. r = Inl e \<longrightarrow> err_status e = St_InvalidConfig \<and> (declared_size mem < 16 \<or> read_function mem 8 = Some None)) \<and>
       (\<forall>t. r = Inr t \<longrightarrow> 16 \<le> declared_size mem \<and> ct_export t \<noteq> None \<and> read_function mem 8 = Some (ct_export t) \<and>
         read_callbacks b mem (le_word (take 8 mem)) = Some t)"
  proof (cases "unat ?size < REQUIRED_PREFIX_SIZE")
    case True
    then show ?thesis using w by (simp add: check_callbacks_def abi_error_new_def declared_size_def REQUIRED_PREFIX_SIZE_def)
  next
    case False
    obtain t where t: "read_callbacks b mem ?size = Some t" "read_function mem 8 = Some (ct_export t)" using r(2) [OF False] by blast
    show ?thesis
      using t w False by (cases "ct_export t") (simp_all add: check_callbacks_def abi_error_new_def declared_size_def REQUIRED_PREFIX_SIZE_def)
  qed
qed

lemmas custom_readers = trace_read_callbacks_def metric_read_callbacks_def log_read_callbacks_def

text \<open>
  C22: The constructors read no byte of a callback table that its \<open>struct_size\<close> does not vouch for. When the bytes that it
  declares are readable, no constructor reads outside them, and two tables that agree on these bytes give the same
  result, whatever follows in memory.
\<close>

theorem constructors_read_declared_bytes_only:
  assumes "8 \<le> length mem" and "declared_size mem \<le> length mem" and "take (vouched mem) mem' = take (vouched mem) mem"
  shows "otel_custom_trace_exporter_new (Some mem') user_data out_null s = otel_custom_trace_exporter_new (Some mem) user_data out_null s \<and>
    otel_custom_metric_exporter_new (Some mem') user_data t out_null s = otel_custom_metric_exporter_new (Some mem) user_data t out_null s \<and>
    otel_custom_log_exporter_new (Some mem') user_data out_null s = otel_custom_log_exporter_new (Some mem) user_data out_null s \<and>
    otel_custom_trace_exporter_new (Some mem) user_data out_null s \<noteq> None \<and>
    otel_custom_metric_exporter_new (Some mem) user_data t out_null s \<noteq> None \<and>
    otel_custom_log_exporter_new (Some mem) user_data out_null s \<noteq> None"
proof -
  note c = check_callbacks_vouched [OF assms]
  have t: "check_callbacks x (read_callbacks b) (Some mem) \<noteq> None" for x b using c(2) [of x b] by auto
  have "otel_custom_trace_exporter_new (Some mem) user_data out_null s \<noteq> None"
    "otel_custom_metric_exporter_new (Some mem) user_data t out_null s \<noteq> None"
    "otel_custom_log_exporter_new (Some mem) user_data out_null s \<noteq> None"
    using t [of "''trace''" True] t [of "''metric''" True] t [of "''log''" False]
    by (auto simp: otel_custom_trace_exporter_new_def otel_custom_metric_exporter_new_def otel_custom_log_exporter_new_def
        custom_readers Let_def split: option.splits sum.splits prod.splits)
  then show ?thesis
    by (simp add: otel_custom_trace_exporter_new_def otel_custom_metric_exporter_new_def otel_custom_log_exporter_new_def
        custom_readers Let_def c(1))
qed

definition declared_member :: "bytes \<Rightarrow> nat \<Rightarrow> u64 option" where
  "declared_member mem offset =
     (if offset + 8 \<le> declared_size mem \<and> le_word (take 8 (drop offset mem)) \<noteq> 0
      then Some (le_word (take 8 (drop offset mem))) else None)"

lemma read_member_declared:
  assumes "8 \<le> length mem" "declared_size mem \<le> length mem"
  shows "read_member mem (le_word (take 8 mem)) offset = Some (declared_member mem offset)"
  using assms by (auto simp: read_member_def read_function_def read_word_def declared_member_def declared_size_def)

lemma declared_export:
  assumes "8 \<le> length mem" "declared_size mem \<le> length mem" "16 \<le> declared_size mem"
  shows "read_function mem 8 = Some (declared_member mem 8)"
  using assms by (auto simp: read_function_def read_word_def declared_member_def)

lemma log_callbacks_declared:
  assumes "8 \<le> length mem" "declared_size mem \<le> length mem"
  shows "check_callbacks ''log'' log_read_callbacks (Some mem) =
    (if 16 \<le> declared_size mem then
       (if declared_member mem 8 \<noteq> None then
          Some (Inr \<lparr>ct_struct_size = le_word (take 8 mem), ct_export = declared_member mem 8, ct_force_flush = None,
            ct_shutdown = declared_member mem 16, ct_state_destroy = declared_member mem 24\<rparr>)
        else Some (Inl (abi_error_new St_InvalidConfig ''custom log exporter requires an export callback'')))
     else Some (Inl (abi_error_new St_InvalidConfig ''custom log exporter callback structure is smaller than the required ABI size'')))"
  using assms declared_export [OF assms]
  by (auto simp: check_callbacks_def read_word_def log_read_callbacks_def read_callbacks_def read_member_declared [OF assms]
      REQUIRED_PREFIX_SIZE_def declared_size_def Let_def)

text \<open>
  A log exporter takes the user data exactly when the table declares and names an export callback. Then the handle is
  live and owns an exporter that is not shut down and has the members that the table declares; a member beyond
  \<open>struct_size\<close> counts as absent. Otherwise nothing is created: no handle, no exporter that would call
  \<open>state_destroy\<close>, and the refusal is an invalid configuration with a diagnostic.
\<close>

theorem log_exporter_takes_user_data_iff:
  assumes "8 \<le> length mem" and "declared_size mem \<le> length mem" and "wf_store sdk_kind s"
  shows "\<exists>p st s'. otel_custom_log_exporter_new (Some mem) user_data False s = Some (Some p, st, s') \<and>
    (if 16 \<le> declared_size mem \<and> declared_member mem 8 \<noteq> None then
       st = St_Ok \<and> points_to s' p (SP_LogExporter (LX_Custom (length (cx_log s)))) \<and> objs s (the p) = None \<and>
       cx_log s' = cx_log s @
         [\<lparr>xq_callbacks =
             \<lparr>ct_struct_size = le_word (take 8 mem), ct_export = declared_member mem 8, ct_force_flush = None,
              ct_shutdown = declared_member mem 16, ct_state_destroy = declared_member mem 24\<rparr>,
           xq_user_data = user_data, xq_shutdown = False, xq_resource = empty_resource\<rparr>]
     else st = St_InvalidConfig \<and> p = None \<and> objs s' = objs s \<and> cx_log s' = cx_log s \<and> last_error s' \<noteq> None)"
  using wf_store_fresh [OF assms(3)]
  by (auto simp: otel_custom_log_exporter_new_def Let_def log_callbacks_declared [OF assms(1,2)] into_raw_def points_to_def
      new_resource_exporter_def fail_abi_def abi_error_new_def clear_last_error_def set_last_error_def header_new_def)

section \<open>Witnesses\<close>

text \<open>A table of an older release: three members, followed by bytes of something else.\<close>

definition sample_table :: "bytes \<Rightarrow> bytes" where
  "sample_table rest = [24, 0, 0, 0, 0, 0, 0, 0, 0x10, 1, 0, 0, 0, 0, 0, 0, 0x20, 1, 0, 0, 0, 0, 0, 0] @ rest"

definition sample_custom_store :: custom_store where
  "sample_custom_store =
     \<lparr>objs = (\<lambda>_. None), next_addr = 0, last_error = None, sdk_dropped = [], sdk_shut = [], cx_trace = [], cx_metric = [], cx_log = []\<rparr>"

lemma sample_table_facts:
  "8 \<le> length (sample_table r)" "declared_size (sample_table r) = 24" "vouched (sample_table r) = 24"
  "take 24 (sample_table r) = sample_table []" "declared_member (sample_table r) 8 = Some 0x110"
  "declared_member (sample_table r) 16 = Some 0x120" "declared_member (sample_table r) 24 = None"
  by (simp_all add: sample_table_def declared_size_def vouched_def declared_member_def)

theorem constructors_read_declared_bytes_only_witness:
  "otel_custom_log_exporter_new (Some (sample_table [1, 2, 3])) (Some 9) False sample_custom_store =
     otel_custom_log_exporter_new (Some (sample_table [])) (Some 9) False sample_custom_store"
proof -
  have "8 \<le> length (sample_table [])" "declared_size (sample_table []) \<le> length (sample_table [])"
    "take (vouched (sample_table [])) (sample_table [1, 2, 3]) = take (vouched (sample_table [])) (sample_table [])"
    using sample_table_facts(1) [of "[]"] sample_table_facts(3,4) by (simp_all add: sample_table_facts(2)) (simp add: sample_table_def)
  from constructors_read_declared_bytes_only [OF this, of "Some 9" False sample_custom_store] show ?thesis by simp
qed

theorem log_exporter_takes_user_data_iff_witness:
  "\<exists>s'. otel_custom_log_exporter_new (Some (sample_table [])) (Some 9) False sample_custom_store = Some (Some (Some 0), St_Ok, s') \<and>
     map (ct_state_destroy \<circ> xq_callbacks) (cx_log s') = [None]"
proof -
  have w: "wf_store sdk_kind sample_custom_store" by (simp add: wf_store_def sample_custom_store_def)
  have l: "declared_size (sample_table []) \<le> length (sample_table [])" by (simp add: sample_table_facts(2)) (simp add: sample_table_def)
  from log_exporter_takes_user_data_iff [OF sample_table_facts(1) l w, of "Some 9"]
  obtain p s' where "otel_custom_log_exporter_new (Some (sample_table [])) (Some 9) False sample_custom_store = Some (Some p, St_Ok, s')"
    "map (ct_state_destroy \<circ> xq_callbacks) (cx_log s') = [None]"
    by (auto simp: sample_table_facts sample_custom_store_def)
  then show ?thesis
    by (auto simp: otel_custom_log_exporter_new_def Let_def log_callbacks_declared [OF sample_table_facts(1) l] into_raw_def
        clear_last_error_def sample_custom_store_def sample_table_facts)
qed

end
