(* ===== verification/Exporter_Race.thy ===== *)
theory Exporter_Race
  imports Custom_Exporters
begin

text \<open>
  Threads that use a custom exporter while it is shut down and dropped (\<open>sdk/src/custom_trace_exporter.rs\<close>,
  \<open>custom_metric_exporter.rs\<close>, \<open>custom_log_exporter.rs\<close>). An export or a flush holds the read lock from its first check
  until its callback has returned, a shutdown holds the write lock; the drop is a shutdown followed by
  \<open>state_destroy\<close>. The step relation interleaves any number of threads at the granularity of these locks and of
  the callbacks. The decisions of the threads are those of the operations in \<open>Custom_Exporters\<close>. Drop may
  race with everything here, although the owner of the exporter is alone with it in the program.
\<close>

section \<open>The step relation\<close>

datatype 'b request = Req_Export 'b | Req_Flush

definition trace_begin :: "(nat \<Rightarrow> bool) \<Rightarrow> exported_span list request \<Rightarrow> resource_exporter \<Rightarrow> span_storage decision" where
  "trace_begin al r x =
     (case r of Req_Export spans \<Rightarrow> fst (trace_export_decision al spans x) | Req_Flush \<Rightarrow> flush_decision x)"

definition metric_begin :: "(nat \<times> resource_metrics \<times> batch_registry) request \<Rightarrow> metric_exporter \<Rightarrow> metric_view_call decision" where
  "metric_begin r x =
     (case r of
        Req_Export (thread, metrics, g) \<Rightarrow> fst (metric_export_decision thread metrics x g)
      | Req_Flush \<Rightarrow> flush_decision x)"

definition log_begin ::
  "(nat \<Rightarrow> bool) \<Rightarrow> (nat \<Rightarrow> exported_scope) \<Rightarrow> (exported_log \<times> nat) list \<Rightarrow> resource_exporter \<Rightarrow> export_view_storage decision" where
  "log_begin al scope_at batch x = fst (log_export_decision al scope_at batch x)"

datatype 'r thread_pc =
    X_Idle
  | X_Reading 'r
  | X_Calling
  | X_Writing nat
  | X_Shutting

datatype drop_pc = D_Live | D_Locking | D_Writing | D_Shutting | D_Destroying | D_Done

datatype lock_holder = Held_By_Thread nat | Held_By_Drop

datatype rw_lock = Read_Locked "nat set" | Write_Locked lock_holder

record ('r, 'v, 'x) exporter_race =
  er_exporter :: 'x
  er_lock :: rw_lock
  er_pcs :: "nat \<Rightarrow> 'r thread_pc"
  er_drop :: drop_pc
  er_calls :: "'v callback_call list"

definition new_race :: "'x \<Rightarrow> ('r, 'v, 'x) exporter_race" where
  "new_race x = \<lparr>er_exporter = x, er_lock = Read_Locked {}, er_pcs = (\<lambda>_. X_Idle), er_drop = D_Live, er_calls = []\<rparr>"

inductive exporter_step ::
  "('r \<Rightarrow> 'm custom_exporter_scheme \<Rightarrow> 'v decision)
     \<Rightarrow> ('r, 'v, 'm custom_exporter_scheme) exporter_race \<Rightarrow> ('r, 'v, 'm custom_exporter_scheme) exporter_race \<Rightarrow> bool" for start where
  lock_read:
    "er_pcs c t = X_Idle \<Longrightarrow> er_lock c = Read_Locked R \<Longrightarrow>
     exporter_step start c (c\<lparr>er_lock := Read_Locked (insert t R), er_pcs := (er_pcs c)(t := X_Reading r)\<rparr>)"
| return_now:
    "er_pcs c t = X_Reading r \<Longrightarrow> start r (er_exporter c) = Return_Now q \<Longrightarrow> er_lock c = Read_Locked R \<Longrightarrow>
     exporter_step start c (c\<lparr>er_lock := Read_Locked (R - {t}), er_pcs := (er_pcs c)(t := X_Idle)\<rparr>)"
| run_callback:
    "er_pcs c t = X_Reading r \<Longrightarrow> start r (er_exporter c) = Run k \<Longrightarrow>
     exporter_step start c (c\<lparr>er_pcs := (er_pcs c)(t := X_Calling), er_calls := er_calls c @ [k]\<rparr>)"
| callback_returns:
    "er_pcs c t = X_Calling \<Longrightarrow> er_lock c = Read_Locked R \<Longrightarrow>
     exporter_step start c (c\<lparr>er_lock := Read_Locked (R - {t}), er_pcs := (er_pcs c)(t := X_Idle)\<rparr>)"
| lock_write:
    "er_pcs c t = X_Idle \<Longrightarrow> er_lock c = Read_Locked {} \<Longrightarrow>
     exporter_step start c (c\<lparr>er_lock := Write_Locked (Held_By_Thread t), er_pcs := (er_pcs c)(t := X_Writing n)\<rparr>)"
| shut_now:
    "er_pcs c t = X_Writing n \<Longrightarrow> shutdown_decision n (er_exporter c) = (Return_Now q :: 'v decision, x) \<Longrightarrow>
     exporter_step start c (c\<lparr>er_exporter := x, er_lock := Read_Locked {}, er_pcs := (er_pcs c)(t := X_Idle)\<rparr>)"
| shut_callback:
    "er_pcs c t = X_Writing n \<Longrightarrow> shutdown_decision n (er_exporter c) = (Run k, x) \<Longrightarrow>
     exporter_step start c (c\<lparr>er_exporter := x, er_pcs := (er_pcs c)(t := X_Shutting), er_calls := er_calls c @ [k]\<rparr>)"
| shut_returns:
    "er_pcs c t = X_Shutting \<Longrightarrow>
     exporter_step start c (c\<lparr>er_lock := Read_Locked {}, er_pcs := (er_pcs c)(t := X_Idle)\<rparr>)"
| drop_begins:
    "er_drop c = D_Live \<Longrightarrow> exporter_step start c (c\<lparr>er_drop := D_Locking\<rparr>)"
| drop_locks:
    "er_drop c = D_Locking \<Longrightarrow> er_lock c = Read_Locked {} \<Longrightarrow>
     exporter_step start c (c\<lparr>er_lock := Write_Locked Held_By_Drop, er_drop := D_Writing\<rparr>)"
| drop_shut_now:
    "er_drop c = D_Writing \<Longrightarrow> shutdown_decision drop_timeout (er_exporter c) = (Return_Now q :: 'v decision, x) \<Longrightarrow>
     exporter_step start c (c\<lparr>er_exporter := x, er_lock := Read_Locked {}, er_drop := D_Destroying\<rparr>)"
| drop_shut_callback:
    "er_drop c = D_Writing \<Longrightarrow> shutdown_decision drop_timeout (er_exporter c) = (Run k, x) \<Longrightarrow>
     exporter_step start c (c\<lparr>er_exporter := x, er_drop := D_Shutting, er_calls := er_calls c @ [k]\<rparr>)"
| drop_shut_returns:
    "er_drop c = D_Shutting \<Longrightarrow>
     exporter_step start c (c\<lparr>er_lock := Read_Locked {}, er_drop := D_Destroying\<rparr>)"
| drop_destroys:
    "er_drop c = D_Destroying \<Longrightarrow>
     exporter_step start c (c\<lparr>er_drop := D_Done, er_calls := er_calls c @ state_destroy_calls (er_exporter c)\<rparr>)"

section \<open>The contract of the decisions\<close>

text \<open>What a callback was called for, and with which user data.\<close>

fun ordinary :: "ptr \<Rightarrow> 'v callback_call \<Rightarrow> bool" where
  "ordinary u (Call_Export f p v) = (p = u)"
| "ordinary u (Call_Force_Flush f p) = (p = u)"
| "ordinary u _ = False"

definition shutdown_calls :: "nat \<Rightarrow> 'm custom_exporter_scheme \<Rightarrow> 'v callback_call list" where
  "shutdown_calls n x =
     (case ct_shutdown (xq_callbacks x) of
        None \<Rightarrow> []
      | Some f \<Rightarrow> [Call_Shutdown f (xq_user_data x) (timeout_millis n)])"

fun reading :: "'r thread_pc \<Rightarrow> bool" where
  "reading (X_Reading _) = True"
| "reading X_Calling = True"
| "reading _ = False"

fun writing :: "'r thread_pc \<Rightarrow> bool" where
  "writing (X_Writing _) = True"
| "writing X_Shutting = True"
| "writing _ = False"

definition drop_writing :: "drop_pc \<Rightarrow> bool" where
  "drop_writing d \<longleftrightarrow> d = D_Writing \<or> d = D_Shutting"

definition lock_ok :: "('r, 'v, 'x) exporter_race \<Rightarrow> bool" where
  "lock_ok c \<longleftrightarrow>
     (case er_lock c of
        Read_Locked R \<Rightarrow> R = {t. reading (er_pcs c t)} \<and> (\<forall>t. \<not> writing (er_pcs c t)) \<and> \<not> drop_writing (er_drop c)
      | Write_Locked w \<Rightarrow>
          (\<forall>t. \<not> reading (er_pcs c t)) \<and> (\<forall>t. writing (er_pcs c t) \<longleftrightarrow> w = Held_By_Thread t) \<and>
          (drop_writing (er_drop c) \<longleftrightarrow> w = Held_By_Drop))"

text \<open>
  The calls so far: exports and flushes, then at most one shutdown, which is there as soon as the flag is set, then
  the destruction of the state at the very end.
\<close>

definition calls_ok :: "('r, 'v, 'm custom_exporter_scheme) exporter_race \<Rightarrow> bool" where
  "calls_ok c \<longleftrightarrow>
     (\<exists>pre n. er_calls c = pre @ (if xq_shutdown (er_exporter c) then shutdown_calls n (er_exporter c) else []) @
        (if er_drop c = D_Done then state_destroy_calls (er_exporter c) else []) \<and>
        (\<forall>k \<in> set pre. ordinary (xq_user_data (er_exporter c)) k))"

definition race_ok :: "'m custom_exporter_scheme \<Rightarrow> ('r, 'v, 'm custom_exporter_scheme) exporter_race \<Rightarrow> bool" where
  "race_ok x c \<longleftrightarrow>
     lock_ok c \<and> calls_ok c \<and> finite {t. er_pcs c t \<noteq> X_Idle} \<and>
     (er_exporter c = x \<or> er_exporter c = x\<lparr>xq_shutdown := True\<rparr>) \<and>
     (xq_shutdown (er_exporter c) \<longrightarrow> (\<forall>t. er_pcs c t \<noteq> X_Calling)) \<and>
     ((\<exists>t. er_pcs c t = X_Shutting) \<or> er_drop c \<in> {D_Shutting, D_Destroying, D_Done} \<longrightarrow> xq_shutdown (er_exporter c))"

lemma shutdown_decision_cases:
  assumes "shutdown_decision n x = (d :: 'v decision, x')"
  obtains "xq_shutdown x" "d = Return_Now (Inl E_AlreadyShutdown)" "x' = x"
  | "\<not> xq_shutdown x" "d = Return_Now (Inr ())" "shutdown_calls n x = ([] :: 'v callback_call list)" "x' = x\<lparr>xq_shutdown := True\<rparr>"
  | k where "\<not> xq_shutdown x" "d = Run k" "shutdown_calls n x = [k]" "x' = x\<lparr>xq_shutdown := True\<rparr>"
  using assms by (auto simp: shutdown_decision_def shutdown_calls_def split: if_splits option.splits)

lemma calls_of_shut [simp]:
  "shutdown_calls n (x\<lparr>xq_shutdown := b\<rparr>) = shutdown_calls n x"
  "state_destroy_calls (x\<lparr>xq_shutdown := b\<rparr>) = state_destroy_calls x"
  by (simp_all add: shutdown_calls_def state_destroy_calls_def split: option.splits)

text \<open>Who is where, read off the lock.\<close>

lemma lock_ok_reader:
  "lock_ok c \<Longrightarrow> reading (er_pcs c t) \<Longrightarrow> er_lock c = Read_Locked {u. reading (er_pcs c u)} \<and>
     (\<forall>u. \<not> writing (er_pcs c u)) \<and> er_drop c \<noteq> D_Writing \<and> er_drop c \<noteq> D_Shutting"
  by (auto simp: lock_ok_def drop_writing_def split: rw_lock.splits)

lemma lock_ok_writer:
  "lock_ok c \<Longrightarrow> writing (er_pcs c t) \<Longrightarrow> er_lock c = Write_Locked (Held_By_Thread t) \<and>
     (\<forall>u. \<not> reading (er_pcs c u)) \<and> (\<forall>u. writing (er_pcs c u) \<longleftrightarrow> u = t) \<and> er_drop c \<noteq> D_Writing \<and> er_drop c \<noteq> D_Shutting"
  by (auto simp: lock_ok_def drop_writing_def split: rw_lock.splits)

lemma lock_ok_drop:
  "lock_ok c \<Longrightarrow> drop_writing (er_drop c) \<Longrightarrow> er_lock c = Write_Locked Held_By_Drop \<and>
     (\<forall>u. \<not> reading (er_pcs c u)) \<and> (\<forall>u. \<not> writing (er_pcs c u))"
  by (auto simp: lock_ok_def split: rw_lock.splits)

lemma lock_ok_free:
  "lock_ok c \<Longrightarrow> er_lock c = Read_Locked R \<Longrightarrow> R = {u. reading (er_pcs c u)} \<and> (\<forall>u. \<not> writing (er_pcs c u)) \<and>
     er_drop c \<noteq> D_Writing \<and> er_drop c \<noteq> D_Shutting"
  by (auto simp: lock_ok_def drop_writing_def)

lemma lock_ok_step:
  assumes "exporter_step start c c'" "lock_ok c"
  shows "lock_ok c'"
  using assms(1)
proof cases
  case (lock_read t R r)
  then show ?thesis using lock_ok_free [OF assms(2) lock_read(3)] by (auto simp: lock_ok_def drop_writing_def)
next
  case (return_now t r q R)
  then show ?thesis using lock_ok_free [OF assms(2) return_now(4)] by (auto simp: lock_ok_def drop_writing_def)
next
  case (run_callback t r k)
  then show ?thesis using lock_ok_reader [OF assms(2), of t] by (auto simp: lock_ok_def drop_writing_def)
next
  case (callback_returns t R)
  then show ?thesis using lock_ok_free [OF assms(2) callback_returns(3)] by (auto simp: lock_ok_def drop_writing_def)
next
  case (lock_write t n)
  then show ?thesis using lock_ok_free [OF assms(2) lock_write(3)] by (auto simp: lock_ok_def drop_writing_def)
next
  case (shut_now t n q x)
  then show ?thesis using lock_ok_writer [OF assms(2), of t] by (auto simp: lock_ok_def drop_writing_def)
next
  case (shut_callback t n k x)
  then show ?thesis using lock_ok_writer [OF assms(2), of t] by (auto simp: lock_ok_def drop_writing_def)
next
  case (shut_returns t)
  then show ?thesis using lock_ok_writer [OF assms(2), of t] by (auto simp: lock_ok_def drop_writing_def)
next
  case drop_locks
  then show ?thesis using lock_ok_free [OF assms(2) drop_locks(3)] by (auto simp: lock_ok_def drop_writing_def)
qed (use assms(2) lock_ok_drop [OF assms(2)] in \<open>auto simp: lock_ok_def drop_writing_def split: rw_lock.splits\<close>)

lemma no_reader_no_call: "\<forall>u. \<not> reading (pcs u) \<Longrightarrow> pcs t \<noteq> X_Calling"
  by (metis reading.simps(2))

definition decided :: "'v decision \<Rightarrow> 'v callback_call list" where
  "decided d = (case d of Return_Now _ \<Rightarrow> [] | Run k \<Rightarrow> [k])"

lemma calls_ok_same:
  "er_calls c' = er_calls c \<Longrightarrow> er_exporter c' = er_exporter c \<Longrightarrow> er_drop c' = D_Done \<longleftrightarrow> er_drop c = D_Done \<Longrightarrow>
     calls_ok c' = calls_ok c"
  by (simp add: calls_ok_def)

lemma calls_ok_destroy:
  assumes "calls_ok c" "er_drop c = D_Destroying" "xq_shutdown (er_exporter c)"
    "c' = c\<lparr>er_drop := D_Done, er_calls := er_calls c @ state_destroy_calls (er_exporter c)\<rparr>"
  shows "calls_ok c'"
  using assms by (auto simp: calls_ok_def)

lemma calls_ok_shut:
  assumes ok: "calls_ok c" and d: "shutdown_decision n (er_exporter c) = (d, y)"
    and c': "er_calls c' = er_calls c @ decided d" "er_exporter c' = y" "er_drop c' = D_Done \<longleftrightarrow> er_drop c = D_Done"
    and live: "er_drop c = D_Done \<longrightarrow> xq_shutdown (er_exporter c)"
  shows "calls_ok c'"
proof (cases "xq_shutdown (er_exporter c)")
  case True
  then have "er_calls c' = er_calls c" "er_exporter c' = er_exporter c"
    using d c' by (auto elim!: shutdown_decision_cases simp: decided_def)
  then show ?thesis using calls_ok_same c'(3) ok by blast
next
  case False
  from d have "y = er_exporter c\<lparr>xq_shutdown := True\<rparr>" "decided d = shutdown_calls n (er_exporter c)"
    using False by (auto elim!: shutdown_decision_cases simp: decided_def)
  moreover have "er_drop c \<noteq> D_Done" using live False by simp
  moreover obtain pre where "er_calls c = pre" "\<forall>k \<in> set pre. ordinary (xq_user_data (er_exporter c)) k"
    using ok False calculation(3) by (auto simp: calls_ok_def)
  ultimately show ?thesis using c' by (auto simp: calls_ok_def)
qed

lemma finite_step:
  assumes "exporter_step start c c'" "finite {t. er_pcs c t \<noteq> X_Idle}"
  shows "finite {t. er_pcs c' t \<noteq> X_Idle}"
proof -
  have "\<exists>t. {u. er_pcs c' u \<noteq> X_Idle} \<subseteq> insert t {u. er_pcs c u \<noteq> X_Idle}"
    using assms(1) by cases (auto split: if_splits)
  then show ?thesis using assms(2) by (meson finite_insert finite_subset)
qed

text \<open>
  What the application observes of an exporter that was given the user data with \<open>x\<close>: callbacks for exports and flushes;
  then the shutdown callback, if the table has one and the exporter was shut down; then, with the drop,
  \<open>state_destroy\<close>. After the shutdown no export or flush is running any more.
\<close>

definition lifecycle_ok :: "'m custom_exporter_scheme \<Rightarrow> ('r, 'v, 'm custom_exporter_scheme) exporter_race \<Rightarrow> bool" where
  "lifecycle_ok x c \<longleftrightarrow>
     (\<exists>pre n shut. er_calls c = pre @ (if shut then shutdown_calls n x else []) @
        (if er_drop c = D_Done then state_destroy_calls x else []) \<and>
        (\<forall>k \<in> set pre. ordinary (xq_user_data x) k) \<and>
        (shut \<longrightarrow> (\<forall>t. er_pcs c t \<noteq> X_Calling)) \<and> (er_drop c = D_Done \<longrightarrow> shut))"

locale read_locked =
  fixes start :: "'r \<Rightarrow> 'm custom_exporter_scheme \<Rightarrow> 'v decision"
  assumes refuses: "xq_shutdown x \<Longrightarrow> start r x = Return_Now (Inl E_AlreadyShutdown)"
    and borrows: "start r x = Run k \<Longrightarrow> ordinary (xq_user_data x) k"
begin

lemma race_ok_new: "\<not> xq_shutdown x \<Longrightarrow> race_ok x (new_race x)"
  by (auto simp: race_ok_def new_race_def lock_ok_def drop_writing_def calls_ok_def)

lemma race_ok_step:
  assumes "exporter_step start c c'" "race_ok x c" "\<not> xq_shutdown x"
  shows "race_ok x c'"
proof -
  have lock: "lock_ok c'" "finite {t. er_pcs c' t \<noteq> X_Idle}"
    using lock_ok_step [OF assms(1)] finite_step [OF assms(1)] assms(2) by (auto simp: race_ok_def)
  have calls: "calls_ok c" using assms(2) by (simp add: race_ok_def)
  have "calls_ok c' \<and> (er_exporter c' = x \<or> er_exporter c' = x\<lparr>xq_shutdown := True\<rparr>) \<and>
     (xq_shutdown (er_exporter c') \<longrightarrow> (\<forall>t. er_pcs c' t \<noteq> X_Calling)) \<and>
     ((\<exists>t. er_pcs c' t = X_Shutting) \<or> er_drop c' \<in> {D_Shutting, D_Destroying, D_Done} \<longrightarrow> xq_shutdown (er_exporter c'))"
    using assms(1)
  proof cases
    case (run_callback t r k)
    then have "\<not> xq_shutdown (er_exporter c)" using refuses by fastforce
    then show ?thesis
      using assms(2) run_callback borrows [OF run_callback(3)] by (auto simp: race_ok_def calls_ok_def)
  next
    case (shut_now t n q y)
    have "calls_ok c'"
      by (rule calls_ok_shut [OF calls shut_now(3)]) (use shut_now assms(2) in \<open>auto simp: race_ok_def decided_def\<close>)
    then show ?thesis
      using assms(2,3) shut_now lock_ok_writer [of c t] no_reader_no_call [of "er_pcs c"]
      by (elim shutdown_decision_cases) (auto simp: race_ok_def drop_writing_def)
  next
    case (shut_callback t n k y)
    have "calls_ok c'"
      by (rule calls_ok_shut [OF calls shut_callback(3)]) (use shut_callback assms(2) in \<open>auto simp: race_ok_def decided_def\<close>)
    then show ?thesis
      using assms(2,3) shut_callback lock_ok_writer [of c t] no_reader_no_call [of "er_pcs c"]
      by (elim shutdown_decision_cases) (auto simp: race_ok_def drop_writing_def)
  next
    case (drop_shut_now q y)
    have "calls_ok c'"
      by (rule calls_ok_shut [OF calls drop_shut_now(3)]) (use drop_shut_now assms(2) in \<open>auto simp: race_ok_def decided_def\<close>)
    then show ?thesis
      using assms(2,3) drop_shut_now lock_ok_drop [of c] no_reader_no_call [of "er_pcs c"]
      by (elim shutdown_decision_cases) (auto simp: race_ok_def drop_writing_def)
  next
    case (drop_shut_callback k y)
    have "calls_ok c'"
      by (rule calls_ok_shut [OF calls drop_shut_callback(3)]) (use drop_shut_callback assms(2) in \<open>auto simp: race_ok_def decided_def\<close>)
    then show ?thesis
      using assms(2,3) drop_shut_callback lock_ok_drop [of c] no_reader_no_call [of "er_pcs c"]
      by (elim shutdown_decision_cases) (auto simp: race_ok_def drop_writing_def)
  next
    case drop_destroys
    then show ?thesis using assms(2) calls_ok_destroy [OF calls drop_destroys(2) _ drop_destroys(1)] by (auto simp: race_ok_def)
  qed (use assms(2) calls_ok_same [of c' c] calls in \<open>auto simp: race_ok_def split: if_splits\<close>)
  then show ?thesis using lock by (simp add: race_ok_def)
qed

lemma reachable_ok:
  assumes "(exporter_step start)\<^sup>*\<^sup>* (new_race x) c" "\<not> xq_shutdown x"
  shows "race_ok x c"
  using assms by (induction rule: rtranclp_induct) (auto intro: race_ok_new race_ok_step)

lemma lifecycle:
  assumes "(exporter_step start)\<^sup>*\<^sup>* (new_race x) c" "\<not> xq_shutdown x"
  shows "lifecycle_ok x c"
proof -
  have ok: "race_ok x c" by (rule reachable_ok [OF assms])
  then obtain pre n where c: "er_calls c = pre @ (if xq_shutdown (er_exporter c) then shutdown_calls n x else []) @
        (if er_drop c = D_Done then state_destroy_calls x else [])" "\<forall>k \<in> set pre. ordinary (xq_user_data x) k"
    by (auto simp: race_ok_def calls_ok_def)
  show ?thesis
    unfolding lifecycle_ok_def
    using c ok by (intro exI [where x = pre] exI [where x = n] exI [where x = "xq_shutdown (er_exporter c)"])
      (auto simp: race_ok_def)
qed

end

section \<open>The three exporters\<close>

lemma flush_contract:
  "xq_shutdown x \<Longrightarrow> flush_decision x = Return_Now (Inl E_AlreadyShutdown)"
  "flush_decision x = Run k \<Longrightarrow> ordinary (xq_user_data x) k"
  by (auto simp: flush_decision_def split: if_splits option.splits)

interpretation trace_exporter: read_locked "trace_begin al"
  by unfold_locales
    (auto simp: trace_begin_def trace_export_decision_def flush_contract split: request.splits if_splits option.splits sum.splits)

interpretation metric_exporter: read_locked metric_begin
  by unfold_locales
    (auto simp: metric_begin_def metric_export_decision_def flush_contract split: request.splits if_splits option.splits prod.splits)

interpretation log_exporter: read_locked "log_begin al scope_at"
  by unfold_locales
    (auto simp: log_begin_def log_export_decision_def split: if_splits option.splits sum.splits)

text \<open>
  C20: However exports, flushes and shutdowns of a custom exporter interleave with its drop, the application sees
  exports and flushes first, at most one shutdown, and \<open>state_destroy\<close> exactly once and last, when the drop is done. Every
  callback gets the user data of the constructor; when the shutdown callback has begun, and so when the state is
  destroyed, no export or flush callback is running, and none begins afterwards.
\<close>

theorem custom_exporters_lifecycle:
  assumes "\<not> xq_shutdown (x :: resource_exporter)" and "\<not> xq_shutdown (y :: metric_exporter)"
  shows "(\<forall>c. (exporter_step (trace_begin al))\<^sup>*\<^sup>* (new_race x) c \<longrightarrow> lifecycle_ok x c) \<and>
    (\<forall>c. (exporter_step metric_begin)\<^sup>*\<^sup>* (new_race y) c \<longrightarrow> lifecycle_ok y c) \<and>
    (\<forall>c. (exporter_step (log_begin al scope_at))\<^sup>*\<^sup>* (new_race x) c \<longrightarrow> lifecycle_ok x c)"
  using trace_exporter.lifecycle [OF _ assms(1)] metric_exporter.lifecycle [OF _ assms(2)] log_exporter.lifecycle [OF _ assms(1)]
  by blast

section \<open>A drop that began comes to its end\<close>

text \<open>A step that begins no new operation.\<close>

definition winding_down ::
  "('r \<Rightarrow> 'm custom_exporter_scheme \<Rightarrow> 'v decision)
     \<Rightarrow> ('r, 'v, 'm custom_exporter_scheme) exporter_race \<Rightarrow> ('r, 'v, 'm custom_exporter_scheme) exporter_race \<Rightarrow> bool" where
  "winding_down start c c' \<longleftrightarrow> exporter_step start c c' \<and> (\<forall>t. er_pcs c t = X_Idle \<longrightarrow> er_pcs c' t = X_Idle)"

fun steps_left :: "'r thread_pc \<Rightarrow> nat" where
  "steps_left X_Idle = 0"
| "steps_left (X_Reading _) = 2"
| "steps_left X_Calling = 1"
| "steps_left (X_Writing _) = 2"
| "steps_left X_Shutting = 1"

lemma advances:
  "exporter_step start c c' \<Longrightarrow> er_pcs c' = (er_pcs c)(t := p) \<Longrightarrow> steps_left p < steps_left (er_pcs c t) \<Longrightarrow> er_drop c' = er_drop c \<Longrightarrow>
     \<exists>c' p. exporter_step start c c' \<and> er_pcs c' = (er_pcs c)(t := p) \<and> steps_left p < steps_left (er_pcs c t) \<and> er_drop c' = er_drop c"
  by blast

lemma thread_advances:
  fixes c :: "('r, 'v, 'm custom_exporter_scheme) exporter_race"
  assumes "lock_ok c" "er_pcs c t \<noteq> X_Idle"
  shows "\<exists>c' p. exporter_step start c c' \<and> er_pcs c' = (er_pcs c)(t := p) \<and> steps_left p < steps_left (er_pcs c t) \<and>
    er_drop c' = er_drop c"
proof (cases "er_pcs c t")
  case (X_Reading r)
  then have l: "er_lock c = Read_Locked {u. reading (er_pcs c u)}" using lock_ok_reader [OF assms(1), of t] by simp
  show ?thesis
  proof (cases "start r (er_exporter c)")
    case (Return_Now q)
    have "exporter_step start c (c\<lparr>er_lock := Read_Locked ({u. reading (er_pcs c u)} - {t}), er_pcs := (er_pcs c)(t := X_Idle)\<rparr>)"
      using X_Reading Return_Now l by (rule exporter_step.return_now)
    then show ?thesis by (rule advances, simp, simp add: X_Reading, simp)
  next
    case (Run k)
    have "exporter_step start c (c\<lparr>er_pcs := (er_pcs c)(t := X_Calling), er_calls := er_calls c @ [k]\<rparr>)"
      using X_Reading Run by (rule exporter_step.run_callback)
    then show ?thesis by (rule advances, simp, simp add: X_Reading, simp)
  qed
next
  case X_Calling
  then have l: "er_lock c = Read_Locked {u. reading (er_pcs c u)}" using lock_ok_reader [OF assms(1), of t] by simp
  have "exporter_step start c (c\<lparr>er_lock := Read_Locked ({u. reading (er_pcs c u)} - {t}), er_pcs := (er_pcs c)(t := X_Idle)\<rparr>)"
      using X_Calling l by (rule exporter_step.callback_returns)
    then show ?thesis by (rule advances, simp, simp add: X_Calling, simp)
next
  case (X_Writing n)
  obtain d x where d: "shutdown_decision n (er_exporter c) = (d :: 'v decision, x)" by fastforce
  show ?thesis
  proof (cases d)
    case (Return_Now q)
    have "exporter_step start c (c\<lparr>er_exporter := x, er_lock := Read_Locked {}, er_pcs := (er_pcs c)(t := X_Idle)\<rparr>)"
      using X_Writing d [unfolded Return_Now] by (rule exporter_step.shut_now)
    then show ?thesis by (rule advances, simp, simp add: X_Writing, simp)
  next
    case (Run k)
    have "exporter_step start c (c\<lparr>er_exporter := x, er_pcs := (er_pcs c)(t := X_Shutting), er_calls := er_calls c @ [k]\<rparr>)"
      using X_Writing d [unfolded Run] by (rule exporter_step.shut_callback)
    then show ?thesis by (rule advances, simp, simp add: X_Writing, simp)
  qed
next
  case X_Shutting
  have "exporter_step start c (c\<lparr>er_lock := Read_Locked {}, er_pcs := (er_pcs c)(t := X_Idle)\<rparr>)"
      using X_Shutting by (rule exporter_step.shut_returns)
    then show ?thesis by (rule advances, simp, simp add: X_Shutting, simp)
qed (use assms(2) in simp)

lemma threads_drain:
  fixes c :: "('r, 'v, 'm custom_exporter_scheme) exporter_race"
  assumes "lock_ok c" "finite {t. er_pcs c t \<noteq> X_Idle}"
  shows "\<exists>c'. (winding_down start)\<^sup>*\<^sup>* c c' \<and> (\<forall>t. er_pcs c' t = X_Idle) \<and> lock_ok c' \<and> er_drop c' = er_drop c"
  using assms
proof (induction "\<Sum>t | er_pcs c t \<noteq> X_Idle. steps_left (er_pcs c t)" arbitrary: c rule: less_induct)
  case less
  show ?case
  proof (cases "\<forall>t. er_pcs c t = X_Idle")
    case True
    then show ?thesis using less.prems by auto
  next
    case False
    let ?A = "\<lambda>c :: ('r, 'v, 'm custom_exporter_scheme) exporter_race. {t. er_pcs c t \<noteq> X_Idle}"
    obtain t where t: "er_pcs c t \<noteq> X_Idle" using False by blast
    obtain c1 p where c1: "exporter_step start c c1" "er_pcs c1 = (er_pcs c)(t := p)"
        "steps_left p < steps_left (er_pcs c t)" "er_drop c1 = er_drop c"
      using thread_advances [OF less.prems(1) t] by blast
    have sub: "?A c1 \<subseteq> ?A c" using c1(2) t by auto
    have fin: "finite (?A c1)" using sub less.prems(2) by (rule finite_subset)
    have "(\<Sum>u \<in> ?A c1. steps_left (er_pcs c1 u)) \<le> (\<Sum>u \<in> ?A c. steps_left (er_pcs c1 u))"
      using sub less.prems(2) by (intro sum_mono2) auto
    also have "\<dots> < (\<Sum>u \<in> ?A c. steps_left (er_pcs c u))"
      using less.prems(2) c1(2,3) t by (intro sum_strict_mono_ex1) (auto intro: less_imp_le)
    finally obtain c' where c': "(winding_down start)\<^sup>*\<^sup>* c1 c'" "\<forall>t. er_pcs c' t = X_Idle" "lock_ok c'" "er_drop c' = er_drop c1"
      using less.hyps [of c1] lock_ok_step [OF c1(1) less.prems(1)] fin by blast
    have "winding_down start c c1" using c1(1,2) t by (auto simp: winding_down_def)
    then show ?thesis using c' c1(4) by (metis converse_rtranclp_into_rtranclp)
  qed
qed

lemma idle_step:
  assumes "exporter_step start c c'" "er_pcs c' = er_pcs c"
  shows "winding_down start c c'"
  using assms by (simp add: winding_down_def)

text \<open>With every thread idle the dropping thread goes on alone.\<close>

lemma drop_advances:
  fixes c :: "('r, 'v, 'm custom_exporter_scheme) exporter_race"
  assumes "lock_ok c" "\<forall>t. er_pcs c t = X_Idle" "er_drop c \<noteq> D_Live"
  shows "\<exists>c'. (winding_down start)\<^sup>*\<^sup>* c c' \<and> er_drop c' = D_Done"
proof -
  have destroy: "\<exists>c'. (winding_down start)\<^sup>*\<^sup>* c c' \<and> er_drop c' = D_Done"
    if "er_drop c = D_Destroying" for c :: "('r, 'v, 'm custom_exporter_scheme) exporter_race"
    using idle_step [OF drop_destroys [OF that, of start]] by (auto intro!: exI r_into_rtranclp)
  have shutting: "\<exists>c'. (winding_down start)\<^sup>*\<^sup>* c c' \<and> er_drop c' = D_Done"
    if d: "er_drop c = D_Shutting" for c :: "('r, 'v, 'm custom_exporter_scheme) exporter_race"
    using idle_step [OF drop_shut_returns [OF d, of start]] destroy [of "c\<lparr>er_lock := Read_Locked {}, er_drop := D_Destroying\<rparr>"]
    by (auto intro: converse_rtranclp_into_rtranclp)
  have writing: "\<exists>c'. (winding_down start)\<^sup>*\<^sup>* c c' \<and> er_drop c' = D_Done"
    if w: "er_drop c = D_Writing" for c :: "('r, 'v, 'm custom_exporter_scheme) exporter_race"
  proof -
    obtain d x where d: "shutdown_decision drop_timeout (er_exporter c) = (d :: 'v decision, x)" by fastforce
    show ?thesis
    proof (cases d)
      case (Return_Now q)
      show ?thesis
        using idle_step [OF drop_shut_now [OF w d [unfolded Return_Now], of start]]
          destroy [of "c\<lparr>er_exporter := x, er_lock := Read_Locked {}, er_drop := D_Destroying\<rparr>"]
        by (auto intro: converse_rtranclp_into_rtranclp)
    next
      case (Run k)
      show ?thesis
        using idle_step [OF drop_shut_callback [OF w d [unfolded Run], of start]]
          shutting [of "c\<lparr>er_exporter := x, er_drop := D_Shutting, er_calls := er_calls c @ [k]\<rparr>"]
        by (auto intro: converse_rtranclp_into_rtranclp)
    qed
  qed
  show ?thesis
  proof (cases "er_drop c")
    case D_Locking
    have "er_lock c = Read_Locked {}"
      using assms(1,2) D_Locking by (auto simp: lock_ok_def drop_writing_def split: rw_lock.splits lock_holder.splits) (metis lock_holder.exhaust)
    from idle_step [OF drop_locks [OF D_Locking this, of start]] writing [of "c\<lparr>er_lock := Write_Locked Held_By_Drop, er_drop := D_Writing\<rparr>"]
    show ?thesis by (auto intro: converse_rtranclp_into_rtranclp)
  qed (use assms(3) destroy shutting writing in auto)
qed

context read_locked
begin

lemma drop_ends:
  assumes "(exporter_step start)\<^sup>*\<^sup>* (new_race x) c" "\<not> xq_shutdown x" "er_drop c \<noteq> D_Live"
  shows "\<exists>c'. (winding_down start)\<^sup>*\<^sup>* c c' \<and> er_drop c' = D_Done"
proof -
  have "lock_ok c" "finite {t. er_pcs c t \<noteq> X_Idle}" using reachable_ok [OF assms(1,2)] by (simp_all add: race_ok_def)
  then obtain c1 where c1: "(winding_down start)\<^sup>*\<^sup>* c c1" "\<forall>t. er_pcs c1 t = X_Idle" "lock_ok c1" "er_drop c1 = er_drop c"
    using threads_drain [of c start] by blast
  then obtain c' where "(winding_down start)\<^sup>*\<^sup>* c1 c'" "er_drop c' = D_Done"
    using drop_advances [of c1 start] assms(3) by auto
  then show ?thesis using c1(1) by (meson rtranclp_trans)
qed

end

text \<open>
  C21: The drop of a custom log exporter cannot be stuck. Once it has begun, in whatever state the other threads are, it
  can complete by steps that begin no new operation: the callbacks that run return, the locks are released, and
  \<open>state_destroy\<close> is called.
\<close>

theorem custom_exporter_drop_ends:
  assumes "(exporter_step (log_begin al scope_at))\<^sup>*\<^sup>* (new_race x) c" and "\<not> xq_shutdown x" and "er_drop c \<noteq> D_Live"
  shows "\<exists>c'. (winding_down (log_begin al scope_at))\<^sup>*\<^sup>* c c' \<and> er_drop c' = D_Done"
  by (rule log_exporter.drop_ends [OF assms])

section \<open>Witnesses\<close>

definition sample_callbacks :: callback_table where
  "sample_callbacks =
     \<lparr>ct_struct_size = 32, ct_export = Some 0x110, ct_force_flush = None, ct_shutdown = Some 0x120, ct_state_destroy = Some 0x130\<rparr>"

definition sample_log_exporter :: resource_exporter where
  "sample_log_exporter = new_resource_exporter sample_callbacks (Some 9)"

definition sample_metric_exporter :: metric_exporter where
  "sample_metric_exporter =
     \<lparr>xq_callbacks = sample_callbacks, xq_user_data = Some 9, xq_shutdown = False, xq_temporality = Delta\<rparr>"

abbreviation (input) sample_log_step where
  "sample_log_step \<equiv> exporter_step (log_begin (\<lambda>_. True) (\<lambda>_. sample_exported_scope))"

lemma sample_drop_begun:
  "sample_log_step\<^sup>*\<^sup>* (new_race sample_log_exporter) ((new_race sample_log_exporter)\<lparr>er_drop := D_Locking\<rparr>)"
  by (rule r_into_rtranclp, rule exporter_step.drop_begins) (simp add: new_race_def)

lemma sample_open: "\<not> xq_shutdown sample_log_exporter" "\<not> xq_shutdown sample_metric_exporter"
  by (simp_all add: sample_log_exporter_def new_resource_exporter_def sample_metric_exporter_def)

lemma winding_down_steps: "(winding_down start)\<^sup>*\<^sup>* c c' \<Longrightarrow> (exporter_step start)\<^sup>*\<^sup>* c c'"
  by (erule rtranclp_mono [THEN predicate2D, rotated]) (auto simp: winding_down_def)

theorem custom_exporters_lifecycle_witness:
  "\<exists>c. sample_log_step\<^sup>*\<^sup>* (new_race sample_log_exporter) c \<and> er_drop c = D_Done \<and> lifecycle_ok sample_log_exporter c"
proof -
  obtain c where c: "sample_log_step\<^sup>*\<^sup>* (new_race sample_log_exporter) c" "er_drop c = D_Done"
    using log_exporter.drop_ends [OF sample_drop_begun sample_open(1)] winding_down_steps rtranclp_trans [OF sample_drop_begun]
    by fastforce
  then show ?thesis
    using custom_exporters_lifecycle [OF sample_open, where al = "\<lambda>_. True" and scope_at = "\<lambda>_. sample_exported_scope"] by blast
qed

theorem custom_exporter_drop_ends_witness:
  "\<exists>c'. (winding_down (log_begin (\<lambda>_. True) (\<lambda>_. sample_exported_scope)))\<^sup>*\<^sup>*
      ((new_race sample_log_exporter)\<lparr>er_drop := D_Locking\<rparr>) c' \<and> er_drop c' = D_Done"
  by (rule custom_exporter_drop_ends [OF sample_drop_begun sample_open(1)]) simp

end
