(* ===== verification/Spec2Isabelle.thy ===== *)
theory Spec2Isabelle
  imports Baggage_Propagation Trace_Propagation Provider_Race Span_Lifecycle Log_Emission Observable_Instruments Log_Records Sdk_Metrics Sdk_Lifecycle Exporter_Race
begin

text \<open>
  OpenTelemetry for C: a model of the two Rust libraries behind the C headers, the API library
  (\<open>src/api\<close>) and the SDK library (\<open>src/sdk\<close>), and of the ABI crate that they share (\<open>src/abi\<close>).

  \<^bold>\<open>How the program is put together.\<close> A C application holds opaque handles of the API. A handle is a heap
  object whose header has a magic number and a kind; every entry point checks both before it uses the object
  and poisons the header when the object is destroyed. Behind a handle is either a no-op or an
  implementation, reached through a vtable of C functions and an opaque context pointer with one
  reference to the implementation's object. The SDK is such an implementation: it builds pipelines out of
  exporters, processors, readers and views, registers its providers in the three process-global slots of the
  API, converts the borrowed C data of each call into owned data of the Rust SDK crate, and converts exported
  batches back into borrowed C data.

  \<^bold>\<open>Conventions.\<close> A Rust integer is a word of its width, \<open>usize\<close> a 64-bit word, a byte string a list of
  8-bit words, an \<open>f64\<close> its bit pattern. A pointer is an optional address. A pointer-and-count argument is
  \<open>None\<close> for NULL or the list of readable elements. An operation takes the state and returns a status (or
  a handle) and the new state; an outer \<open>option\<close> is \<open>None\<close> exactly where the code would touch memory
  outside the caller's contract (a dangling handle, a read beyond an array), so that a theorem which
  concludes \<open>Some\<close> also shows memory safety there. Errors are values of \<open>abi_error\<close> with the status and
  the text of the diagnostic. Parameters: \<open>al\<close> decides, for a size, whether a fallible allocation succeeds;
  \<open>im\<close> (type \<open>implementation\<close>) is an arbitrary implementation behind the vtables; \<open>cr\<close> and the outcome
  arguments stand for the Rust SDK crate, which is not part of the repository.

  \<^bold>\<open>Foundations.\<close> \<open>Prelude\<close> (iterator and slice operations, association lists, \<open>count_where\<close>), \<open>Utf8\<close>
  (strict and lossy decoding, trimming), \<open>Abi\<close> and \<open>Abi_Data\<close> (\<open>abi/src/lib.rs\<close>: headers, statuses, string
  views, discriminants, limits, vtable compatibility and the records that cross the boundary), \<open>Handles\<close>
  (\<open>api/src/handle.rs\<close>, \<open>api/src/error.rs\<close>: the store of handles, the diagnostic slot, and the locale
  \<open>handle_type\<close>, interpreted for every kind of handle of both libraries), \<open>Api_Objects\<close> (the payloads of the
  API's handles and their invariant).

  \<^bold>\<open>The API.\<close> \<open>Baggage\<close> and \<open>Baggage_Propagation\<close> (\<open>api/src/baggage.rs\<close>): builder, limits, W3C header; the
  builder refines a finite map and what injection prints extraction reads back. \<open>Span_Context\<close> and
  \<open>Trace_Propagation\<close> (\<open>api/src/propagation.rs\<close>): traceparent and tracestate, decided against their grammars.
  \<open>Context\<close> (\<open>api/src/context.rs\<close>): contexts and the per-thread stack with scopes. \<open>Global_Providers\<close>,
  \<open>Provider_Race\<close> and \<open>Provider_Registry\<close> (\<open>api/src/global.rs\<close>, \<open>metrics_global.rs\<close>, \<open>logs_global.rs\<close>): the
  process with its slots, a ledger of references to implementation contexts and the log of vtable calls;
  \<open>external\<close> counts the references that neither a handle nor a slot owns, \<open>proc_inv\<close> is the invariant of
  the process, and conservation theorems say that an operation leaves \<open>external\<close> as it was.
  \<open>Provider_Race\<close> is a step relation in which the threads' requests and replacements interleave.
  \<open>Provider_Registry\<close> states what the SDK relies on as locales and interprets them. \<open>Backed_Handles\<close>, \<open>Trace_Api\<close>,
  \<open>Span_Lifecycle\<close> (\<open>api/src/trace.rs\<close>), \<open>Scope_Attributes\<close>, \<open>Logs_Api\<close>, \<open>Log_Emission\<close> (\<open>api/src/logs.rs\<close>),
  \<open>Instrument_Config\<close>, \<open>Metrics_Api\<close>, \<open>Metric_Instruments\<close>, \<open>Observable_Api\<close>, \<open>Callback_State\<close>,
  \<open>Observer_Tokens\<close>, \<open>Observable_Instruments\<close> (\<open>api/src/metrics.rs\<close>): every entry point of the three signals,
  with conservation, ordering and validation; \<open>Callback_State\<close> is a step relation for callbacks that run
  while their instrument is destroyed, \<open>Observer_Tokens\<close> the thread-local stack of observers.

  \<^bold>\<open>The SDK: data in.\<close> \<open>Sdk_Attributes\<close> and \<open>Sdk_Spans\<close> (\<open>sdk/src/vtable.rs\<close>): conversion of attributes,
  scopes, span starts and span commands; a start that passed the API's checks is refused only for its name, its
  attributes and its trace states, which the API forwards unread, and a request holds the contexts that the handles of
  the API denote. \<open>Log_Values\<close>,
  \<open>Log_Value_Pool\<close>, \<open>Log_Records\<close> (\<open>sdk/src/logs_vtable.rs\<close>): \<open>logger_emit\<close>; validation decides the forests of
  bounded depth and conversion yields the values that they denote. \<open>Sdk_Metrics\<close>
  (\<open>sdk/src/metrics_vtable.rs\<close>): instruments, the lease on a callback state, measurements.

  \<^bold>\<open>The SDK: pipelines.\<close> \<open>Sdk_Objects\<close>, \<open>Sdk_Handles\<close> (\<open>sdk/src/handle.rs\<close>: taking a handle for a transfer,
  the shapes of the entry points as locales), \<open>Sdk_Processors\<close> (\<open>batch_processor.rs\<close>, \<open>log_processor.rs\<close>,
  \<open>simple_span_processor.rs\<close>, \<open>periodic_metric_reader.rs\<close>, \<open>manual_metric_reader.rs\<close>), \<open>Metric_Views\<close>
  (\<open>metric_view.rs\<close>; wildcard matching against a reference definition), \<open>Sdk_Builder\<close> (\<open>sdk.rs\<close>: transfers,
  sampler, limits, build), \<open>Sdk_Invariant\<close> and \<open>Sdk_Ownership\<close> (every reachable store is well formed and every
  exporter is owned once or was dropped once), \<open>Sdk_Lifecycle\<close> (\<open>sdk.rs\<close>: providers, global installation,
  flush, shutdown, destruction, as one world of the API's process and the SDK's store).

  \<^bold>\<open>The SDK: data out.\<close> \<open>Log_Flattening\<close>, \<open>Log_Layout\<close>, \<open>Log_Forest\<close> and \<open>Log_Export\<close>
  (\<open>sdk/src/log_export_view.rs\<close>): the breadth-first layout of exported values in a pool of nodes; the pool reads back as
  the values, is a forest and exists exactly within the limits; the view of a batch, read by its pointers and
  counts, is the batch, from \<open>logger_emit\<close> to the exporter. \<open>Span_Export\<close> (\<open>span_export_view.rs\<close>): the same for spans with
  events, links and attributes. \<open>Metric_Batch\<close> (\<open>metric_batch.rs\<close>): the tokens of a batch and its traversal by a visitor,
  equal to a list of callbacks cut at the first refusal. \<open>Custom_Exporters\<close> and \<open>Exporter_Race\<close>
  (\<open>custom_trace_exporter.rs\<close>, \<open>custom_metric_exporter.rs\<close>, \<open>custom_log_exporter.rs\<close>): the callback tables, read within their
  declared size, and a step relation in which exports, flushes, shutdowns and the drop of an exporter interleave at
  its read-write lock; one locale holds the proof, interpreted for the three signals.

  \<^bold>\<open>Termination and bounds.\<close> No definition that models code has fuel: loops are structural recursions or have a
  measure. \<open>flatten_within\<close> of \<open>Log_Layout\<close> is a copy of the layout loop with a bound on its rounds, and
  \<open>flatten_loop_terminates\<close> shows that the largest pool size plus the length of the queue is enough for every queue. Bounds
  are the code's own constants (limits on depth, nodes, strings, attributes, handles per builder).

  \<^bold>\<open>Not modelled.\<close> The builders of the OTLP exporters configure transports of third-party crates; the
  Rust SDK crate itself (sampling, batching, aggregation, export threads) appears as parameters only. The diagnostic
  callback of \<open>api/src/diagnostic.rs\<close> reports caught panics and advisory messages and is read by no modelled operation. A
  panic that an entry point catches is not a branch of the model; that a lease is dropped when
  instrument creation fails is written as a condition on its result. Tests, benchmarks and fuzz targets are left
  aside.
\<close>

end
